(* ===== verification/Prelude.thy ===== *)
theory Prelude imports Complex_Main "HOL-Library.Monad_Syntax" "HOL-Library.Sublist" begin

text \<open>
  Shared vocabulary of the development: the machine integers of the engine (Rust \<open>i64\<close>,
  \<open>u32\<close>, \<open>u64\<close>, read with the release profile's wrapping arithmetic), \<open>Result\<close> values as sums,
  decimals as the rational they denote together with a record of the arithmetic the
  \<open>rust_decimal\<close> package supplies, and the list and option facts the components share.

  Conventions. A Rust \<open>Result<T, E>\<close> is \<open>E + T\<close>, with \<open>Inl\<close> the error. A function that can
  panic returns an option, with \<open>None\<close> the panic. An \<open>i64\<close> is an \<open>int\<close>; a plain \<open>+\<close>, \<open>-\<close> or
  \<open>*\<close> of the source is wrapped with \<open>wrap_i64\<close>, a \<open>saturating_\<close> one with \<open>sat_i64\<close>.
\<close>

section \<open>Collections of hints\<close>

named_theorems panic_simps \<open>unfolding rules of the fallible (option and sum) combinators\<close>
named_theorems i64_simps \<open>bounds and identities of the 64-bit signed integers\<close>

section \<open>Machine integers\<close>

type_synonym i64 = int
type_synonym i32 = int
type_synonym u32 = nat
type_synonym u64 = nat
type_synonym usize = nat

abbreviation i64_min :: int where "i64_min \<equiv> - 9223372036854775808"
abbreviation i64_max :: int where "i64_max \<equiv> 9223372036854775807"
abbreviation u64_modulus :: nat where "u64_modulus \<equiv> 18446744073709551616"
abbreviation u32_modulus :: nat where "u32_modulus \<equiv> 4294967296"

definition in_i64 :: "int \<Rightarrow> bool" where
  "in_i64 x \<longleftrightarrow> i64_min \<le> x \<and> x \<le> i64_max"

definition wrap_i64 :: "int \<Rightarrow> int" where
  "wrap_i64 x = (x + 9223372036854775808) mod 18446744073709551616 - 9223372036854775808"

definition wrap_i32 :: "int \<Rightarrow> int" where
  "wrap_i32 x = (x + 2147483648) mod 4294967296 - 2147483648"

definition sat_i64 :: "int \<Rightarrow> int" where
  "sat_i64 x = max i64_min (min i64_max x)"

definition u64_add :: "u64 \<Rightarrow> u64 \<Rightarrow> u64" where
  "u64_add a b = (a + b) mod u64_modulus"

definition u32_sat_add :: "u32 \<Rightarrow> u32 \<Rightarrow> u32" where
  "u32_sat_add a b = min (u32_modulus - 1) (a + b)"

text \<open>Rust's \<open>/\<close> on signed integers truncates towards zero.\<close>

definition tdiv :: "int \<Rightarrow> int \<Rightarrow> int" where
  "tdiv a b = sgn a * sgn b * (\<bar>a\<bar> div \<bar>b\<bar>)"

text \<open>\<open>x as u64\<close> for an \<open>i64\<close>.\<close>

definition as_u64 :: "int \<Rightarrow> u64" where
  "as_u64 x = nat (x mod 18446744073709551616)"

lemma wrap_i64_id [i64_simps]: "in_i64 x \<Longrightarrow> wrap_i64 x = x"
  by (simp add: wrap_i64_def in_i64_def)

lemma wrap_i64_range [i64_simps]: "in_i64 (wrap_i64 x)"
proof -
  have "0 \<le> (x + 9223372036854775808) mod 18446744073709551616"
    by simp
  moreover have "(x + 9223372036854775808) mod 18446744073709551616 < 18446744073709551616"
    by simp
  ultimately show ?thesis
    unfolding in_i64_def wrap_i64_def by linarith
qed

lemma sat_i64_range [i64_simps]: "in_i64 (sat_i64 x)"
  by (simp add: in_i64_def sat_i64_def)

lemma sat_i64_id [i64_simps]: "in_i64 x \<Longrightarrow> sat_i64 x = x"
  by (simp add: in_i64_def sat_i64_def)

lemma sat_i64_mono: "x \<le> y \<Longrightarrow> sat_i64 x \<le> sat_i64 y"
  by (simp add: sat_i64_def)

lemma tdiv_pos: "0 \<le> a \<Longrightarrow> 0 < b \<Longrightarrow> tdiv a b = a div b"
  by (cases "a = 0") (auto simp: tdiv_def)

lemma as_u64_nonneg: "0 \<le> x \<Longrightarrow> x \<le> i64_max \<Longrightarrow> as_u64 x = nat x"
  by (simp add: as_u64_def)

lemma u64_add_exact: "a + b < u64_modulus \<Longrightarrow> u64_add a b = a + b"
  by (simp add: u64_add_def)

section \<open>Results and panics\<close>

type_synonym ('e, 'a) result = "'e + 'a"

definition res_bind :: "('e, 'a) result \<Rightarrow> ('a \<Rightarrow> ('e, 'b) result) \<Rightarrow> ('e, 'b) result" where
  [panic_simps]: "res_bind r f = (case r of Inl e \<Rightarrow> Inl e | Inr a \<Rightarrow> f a)"

lemma res_bind_simps [simp]:
  "res_bind (Inl e) f = Inl e"
  "res_bind (Inr a) f = f a"
  by (simp_all add: res_bind_def)

lemma res_bind_Inr: "res_bind r f = Inr b \<longleftrightarrow> (\<exists>a. r = Inr a \<and> f a = Inr b)"
  by (cases r) auto

text \<open>\<open>?\<close> over a list: apply a fallible operation to each element, stopping at the first error.\<close>

fun try_fold :: "('s \<Rightarrow> 'a \<Rightarrow> ('e, 's) result) \<Rightarrow> 's \<Rightarrow> 'a list \<Rightarrow> ('e, 's) result" where
  "try_fold f s [] = Inr s"
| "try_fold f s (x # xs) = (case f s x of Inl e \<Rightarrow> Inl e | Inr s' \<Rightarrow> try_fold f s' xs)"

lemma try_fold_invariant:
  assumes "try_fold f s xs = Inr t" and "P s"
    and "\<And>s x s'. P s \<Longrightarrow> x \<in> set xs \<Longrightarrow> f s x = Inr s' \<Longrightarrow> P s'"
  shows "P t"
  using assms
proof (induction xs arbitrary: s)
  case Nil
  then show ?case by simp
next
  case (Cons x xs)
  from Cons.prems(1) obtain s' where s': "f s x = Inr s'" "try_fold f s' xs = Inr t"
    by (auto split: sum.splits)
  have "P s'"
    using Cons.prems(3) [OF Cons.prems(2) _ s'(1)] by simp
  moreover have "P u'" if "P u" "x \<in> set xs" "f u x = Inr u'" for u x u'
    using Cons.prems(3) [OF that(1) _ that(3)] that(2) by simp
  ultimately show ?case
    by (rule Cons.IH [OF s'(2)])
qed

text \<open>A function that may panic, over a list; and \<open>?\<close> on a result that may also panic.\<close>

fun map_opt :: "('a \<Rightarrow> 'b option) \<Rightarrow> 'a list \<Rightarrow> 'b list option" where
  "map_opt f [] = Some []"
| "map_opt f (x # xs) = Option.bind (f x) (\<lambda>y. Option.bind (map_opt f xs) (\<lambda>ys. Some (y # ys)))"

lemma map_opt_length: "map_opt f xs = Some ys \<Longrightarrow> length ys = length xs"
  by (induction xs arbitrary: ys) (auto simp: bind_eq_Some_conv)

lemma map_opt_all: "map_opt f xs = Some ys \<Longrightarrow> y \<in> set ys \<Longrightarrow> \<exists>x \<in> set xs. f x = Some y"
  by (induction xs arbitrary: ys) (auto simp: bind_eq_Some_conv)

lemma map_opt_total: "\<forall>x \<in> set xs. f x = Some (g x) \<Longrightarrow> map_opt f xs = Some (map g xs)"
  by (induction xs) simp_all

lemma map_opt_nth: "map_opt f xs = Some ys \<Longrightarrow> k < length xs \<Longrightarrow> f (xs ! k) = Some (ys ! k)"
  by (induction xs arbitrary: ys k) (auto simp: bind_eq_Some_conv nth_Cons split: nat.splits)

fun try_bind :: "('e, 'a) result option \<Rightarrow> ('a \<Rightarrow> ('e, 'b) result option) \<Rightarrow> ('e, 'b) result option" where
  "try_bind None f = None"
| "try_bind (Some (Inl e)) f = Some (Inl e)"
| "try_bind (Some (Inr a)) f = f a"

lemma try_bind_Inr: "try_bind r f = Some (Inr b) \<longleftrightarrow> (\<exists>a. r = Some (Inr a) \<and> f a = Some (Inr b))"
  by (cases "(r, f)" rule: try_bind.cases) auto

fun try_map :: "('a \<Rightarrow> ('e, 'b) result option) \<Rightarrow> 'a list \<Rightarrow> ('e, 'b list) result option" where
  "try_map f [] = Some (Inr [])"
| "try_map f (x # xs) = try_bind (f x) (\<lambda>y. try_bind (try_map f xs) (\<lambda>ys. Some (Inr (y # ys))))"

lemma try_map_Inr: "try_map f xs = Some (Inr ys) \<longleftrightarrow> list_all2 (\<lambda>x y. f x = Some (Inr y)) xs ys"
  by (induction xs arbitrary: ys) (auto simp: try_bind_Inr list_all2_Cons1)

text \<open>A step function that may panic, run over a list of events, and what it means to latch.\<close>

fun run_opt :: "('s \<Rightarrow> 'e \<Rightarrow> 's option) \<Rightarrow> 's \<Rightarrow> 'e list \<Rightarrow> 's option" where
  "run_opt step s [] = Some s"
| "run_opt step s (e # es) = Option.bind (step s e) (\<lambda>s'. run_opt step s' es)"

lemma run_opt_invariant:
  assumes "run_opt step s es = Some s'" "P s"
    and "\<And>s e s'. P s \<Longrightarrow> e \<in> set es \<Longrightarrow> step s e = Some s' \<Longrightarrow> P s'"
  shows "P s'"
  using assms
proof (induction es arbitrary: s)
  case Nil
  then show ?case by simp
next
  case (Cons e es)
  from Cons.prems(1) obtain s1 where s1: "step s e = Some s1" "run_opt step s1 es = Some s'"
    by (auto simp: bind_eq_Some_conv)
  have "P s1" using Cons.prems(3) [OF Cons.prems(2) _ s1(1)] by simp
  moreover have "P u'" if "P u" "x \<in> set es" "step u x = Some u'" for u x u'
    using Cons.prems(3) [OF that(1) _ that(3)] that(2) by simp
  ultimately show ?case by (rule Cons.IH [OF s1(2)])
qed

lemma run_opt_append: "run_opt f s (us @ vs) = Option.bind (run_opt f s us) (\<lambda>t. run_opt f t vs)"
  by (induction us arbitrary: s) (auto simp: Option.bind_assoc intro!: Option.bind_cong)

locale latch =
  fixes step :: "'s \<Rightarrow> 'e \<Rightarrow> 's option"
    and latched :: "'s \<Rightarrow> bool"
  assumes keeps: "latched s \<Longrightarrow> step s e = Some s' \<Longrightarrow> latched s'"
begin

lemma stays_latched: "run_opt step s es = Some s' \<Longrightarrow> latched s \<Longrightarrow> latched s'"
  by (rule run_opt_invariant [where P = latched]) (auto dest: keeps)

end

lemmas option_bind_iffs [panic_simps] = bind_eq_Some_conv bind_eq_None_conv

section \<open>Decimals\<close>

text \<open>
  A \<open>rust_decimal::Decimal\<close> is read as the rational number it denotes, so comparison, sign
  tests, negation and absolute value are those of \<open>rat\<close>. Its arithmetic belongs to that
  package: \<open>dec_arith\<close> is the parameter holding it, each operation answering \<open>None\<close> where
  the package panics (or its \<open>checked_\<close> form returns \<open>None\<close>): overflow of the 96-bit
  mantissa, or division by zero.
\<close>

type_synonym decimal = rat

record dec_arith =
  dec_add :: "decimal \<Rightarrow> decimal \<Rightarrow> decimal option"
  dec_sub :: "decimal \<Rightarrow> decimal \<Rightarrow> decimal option"
  dec_mul :: "decimal \<Rightarrow> decimal \<Rightarrow> decimal option"
  dec_div :: "decimal \<Rightarrow> decimal \<Rightarrow> decimal option"

text \<open>
  What the package does: a sum or difference of two decimals is the exact one, rounded to a decimal when its
  digits do not fit the mantissa. Rounding keeps the order and the signs, leaves a decimal and an integer
  as it is (an integer too large is an overflow), and never makes two different decimals' difference vanish,
  the smallest unit being the same for all. An operand is a decimal, that is a fixed point of the rounding.
\<close>

definition rounding :: "(decimal \<Rightarrow> decimal) \<Rightarrow> bool" where
  "rounding rnd \<longleftrightarrow>
     (\<forall>x y. x \<le> y \<longrightarrow> rnd x \<le> rnd y) \<and> (\<forall>x. rnd (- x) = - rnd x) \<and> (\<forall>x. rnd (rnd x) = rnd x) \<and>
     (\<forall>k. rnd (of_int k) = of_int k) \<and> (\<forall>x y. rnd x = x \<longrightarrow> rnd y = y \<longrightarrow> rnd (x - y) = 0 \<longrightarrow> x = y)"

definition dec_rounded :: "dec_arith \<Rightarrow> bool" where
  "dec_rounded A \<longleftrightarrow> (\<exists>rnd. rounding rnd \<and>
     (\<forall>a b c. dec_add A a b = Some c \<longrightarrow> rnd a = a \<and> rnd b = b \<and> c = rnd (a + b)) \<and>
     (\<forall>a b c. dec_sub A a b = Some c \<longrightarrow> rnd a = a \<and> rnd b = b \<and> c = rnd (a - b)))"

lemma roundingD:
  assumes "rounding rnd"
  shows "x \<le> y \<Longrightarrow> rnd x \<le> rnd y" "rnd (- x) = - rnd x" "rnd (rnd x) = rnd x" "rnd (of_int k) = of_int k"
    "rnd 0 = 0" "\<bar>x\<bar> \<le> y \<Longrightarrow> \<bar>rnd x\<bar> \<le> rnd y"
proof -
  show mono: "rnd x \<le> rnd y" if "x \<le> y" for x y using assms that by (simp add: rounding_def)
  show odd: "rnd (- x) = - rnd x" for x using assms by (simp add: rounding_def)
  show "rnd (rnd x) = rnd x" using assms by (simp add: rounding_def)
  show int: "rnd (of_int k) = of_int k" for k using assms by (simp add: rounding_def)
  show "rnd 0 = 0" using int [of 0] by simp
  show "\<bar>rnd x\<bar> \<le> rnd y" if "\<bar>x\<bar> \<le> y" using that mono [of x y] mono [of "- x" y] odd [of x] by (simp add: abs_le_iff)
qed

lemma dec_roundedE:
  assumes "dec_rounded A"
  obtains rnd where "rounding rnd" "\<And>a b c. dec_add A a b = Some c \<Longrightarrow> rnd a = a \<and> rnd b = b \<and> c = rnd (a + b)"
    "\<And>a b c. dec_sub A a b = Some c \<Longrightarrow> rnd a = a \<and> rnd b = b \<and> c = rnd (a - b)"
  using assms unfolding dec_rounded_def by blast

text \<open>What the components use of it: integer bounds, order, cancellation, and the two sides of a signed sum.\<close>

lemma dec_int_bounds:
  assumes "dec_rounded A"
  shows "dec_add A a b = Some c \<Longrightarrow> of_int k \<le> a + b \<Longrightarrow> of_int k \<le> c" "dec_add A a b = Some c \<Longrightarrow> a + b \<le> of_int k \<Longrightarrow> c \<le> of_int k"
    "dec_sub A a b = Some c \<Longrightarrow> of_int k \<le> a - b \<Longrightarrow> of_int k \<le> c" "dec_sub A a b = Some c \<Longrightarrow> a - b \<le> of_int k \<Longrightarrow> c \<le> of_int k"
  by (rule dec_roundedE [OF assms]; metis roundingD(1,4))+

lemma dec_add_nonneg: "dec_rounded A \<Longrightarrow> dec_add A a b = Some c \<Longrightarrow> 0 \<le> a \<Longrightarrow> 0 \<le> b \<Longrightarrow> 0 \<le> c"
  using dec_int_bounds(1) [of A a b c 0] by simp

lemma dec_sub_mono:
  "dec_rounded A \<Longrightarrow> dec_sub A a b = Some c \<Longrightarrow> dec_sub A a' b' = Some c' \<Longrightarrow> a - b \<le> a' - b' \<Longrightarrow> c \<le> c'"
  by (erule dec_roundedE) (metis roundingD(1))

lemma dec_sub_within:
  "dec_rounded A \<Longrightarrow> dec_sub A a b = Some c \<Longrightarrow> dec_sub A x y = Some r \<Longrightarrow> \<bar>a - b\<bar> \<le> r \<Longrightarrow> \<bar>c\<bar> \<le> r"
  by (erule dec_roundedE) (metis roundingD(3,6))

lemma dec_sub_zero_iff: "dec_rounded A \<Longrightarrow> dec_sub A a b = Some c \<Longrightarrow> c = 0 \<longleftrightarrow> a = b"
  by (erule dec_roundedE) (metis rounding_def roundingD(5) diff_self)

lemma dec_add_zero: "dec_rounded A \<Longrightarrow> dec_add A 0 a = Some c \<Longrightarrow> c = a"
  by (erule dec_roundedE) (metis add_0)

lemma dec_add_opposite: "dec_rounded A \<Longrightarrow> dec_add A a b = Some c \<Longrightarrow> a + b = 0 \<Longrightarrow> c = 0"
  by (erule dec_roundedE) (metis roundingD(5))

lemma dec_add_grows: "dec_rounded A \<Longrightarrow> dec_add A y w = Some y' \<Longrightarrow> 0 \<le> w \<Longrightarrow> y \<le> y'"
  by (erule dec_roundedE) (metis roundingD(1) le_add_same_cancel1)

lemma dec_signed_sum:
  assumes "dec_rounded A" "\<bar>x\<bar> \<le> y" "\<bar>v\<bar> \<le> w" "dec_add A y w = Some y'"
  shows "dec_add A x v = Some x' \<Longrightarrow> \<bar>x'\<bar> \<le> y'" "dec_sub A x v = Some x' \<Longrightarrow> \<bar>x'\<bar> \<le> y'"
proof -
  from assms(1) obtain rnd where r: "rounding rnd" "\<forall>a b c. dec_add A a b = Some c \<longrightarrow> rnd a = a \<and> rnd b = b \<and> c = rnd (a + b)"
    "\<forall>a b c. dec_sub A a b = Some c \<longrightarrow> rnd a = a \<and> rnd b = b \<and> c = rnd (a - b)" unfolding dec_rounded_def by blast
  have "\<bar>x + v\<bar> \<le> y + w" "\<bar>x - v\<bar> \<le> y + w" using assms(2,3) by (simp_all add: abs_le_iff)
  then have "\<bar>rnd (x + v)\<bar> \<le> rnd (y + w)" "\<bar>rnd (x - v)\<bar> \<le> rnd (y + w)" by (simp_all add: roundingD(6) [OF r(1)])
  then show "dec_add A x v = Some x' \<Longrightarrow> \<bar>x'\<bar> \<le> y'" "dec_sub A x v = Some x' \<Longrightarrow> \<bar>x'\<bar> \<le> y'"
    using r(2,3) assms(4) by simp_all
qed

text \<open>
  A restriction some theorems state: no sum or difference of the run rounds, as when the values are prices and
  quantities on an exchange's grid. It is not a fact about the package.
\<close>

definition dec_exact :: "dec_arith \<Rightarrow> bool" where
  "dec_exact A \<longleftrightarrow>
     (\<forall>a b c. dec_add A a b = Some c \<longrightarrow> c = a + b) \<and>
     (\<forall>a b c. dec_sub A a b = Some c \<longrightarrow> c = a - b)"

lemma dec_exactD:
  "dec_exact A \<Longrightarrow> dec_add A a b = Some c \<Longrightarrow> c = a + b"
  "dec_exact A \<Longrightarrow> dec_sub A a b = Some c \<Longrightarrow> c = a - b"
  by (simp_all add: dec_exact_def)

text \<open>An instance, for the witnesses: exact arithmetic within a magnitude bound.\<close>

definition bounded_dec :: "rat \<Rightarrow> dec_arith" where
  "bounded_dec m =
     (let fit = (\<lambda>x. if \<bar>x\<bar> \<le> m then Some x else None)
      in \<lparr>dec_add = (\<lambda>a b. fit (a + b)), dec_sub = (\<lambda>a b. fit (a - b)),
          dec_mul = (\<lambda>a b. fit (a * b)),
          dec_div = (\<lambda>a b. if b = 0 then None else fit (a / b))\<rparr>)"

lemma bounded_dec_exact [simp]: "dec_exact (bounded_dec m)"
  by (auto simp: dec_exact_def bounded_dec_def Let_def split: if_splits)

lemma exact_is_rounded: "dec_exact A \<Longrightarrow> dec_rounded A"
  unfolding dec_rounded_def by (rule exI [of _ id]) (simp add: rounding_def dec_exact_def)

lemma bounded_dec_rounded [simp]: "dec_rounded (bounded_dec m)"
  by (rule exact_is_rounded) simp

text \<open>
  An instance that rounds: two decimal places below a thousand and none from there on, digits that do not
  fit dropped, and nothing computed from an operand that is not such a number.
\<close>

definition short_round :: "decimal \<Rightarrow> decimal" where
  "short_round x = sgn x * (if \<bar>x\<bar> < 1000 then of_int \<lfloor>\<bar>x\<bar> * 100\<rfloor> / 100 else of_int \<lfloor>\<bar>x\<bar>\<rfloor>)"

definition short_dec :: dec_arith where
  "short_dec =
     (let fit = (\<lambda>a b x. if short_round a = a \<and> short_round b = b \<and> \<bar>x\<bar> \<le> 1000000 then Some (short_round x) else None)
      in \<lparr>dec_add = (\<lambda>a b. fit a b (a + b)), dec_sub = (\<lambda>a b. fit a b (a - b)), dec_mul = (\<lambda>a b. fit a b (a * b)),
          dec_div = (\<lambda>a b. if b = 0 then None else fit a b (a / b))\<rparr>)"

lemma short_round_pos: "0 \<le> x \<Longrightarrow> short_round x = (if x < 1000 then of_int \<lfloor>x * 100\<rfloor> / 100 else of_int \<lfloor>x\<rfloor>)"
  by (cases "x = 0") (simp_all add: short_round_def sgn_if)

lemma short_round_neg: "short_round (- x) = - short_round x"
  by (simp add: short_round_def sgn_minus)

lemma short_round_nonneg: "0 \<le> x \<Longrightarrow> 0 \<le> short_round x"
  by (simp add: short_round_pos)

lemma short_round_mono_pos:
  assumes "0 \<le> x" "x \<le> y"
  shows "short_round x \<le> short_round y"
proof -
  have below: "(of_int \<lfloor>x * 100\<rfloor> :: rat) / 100 \<le> x" using of_int_floor_le [of "x * 100"] by linarith
  have above: "(1000 :: rat) \<le> of_int \<lfloor>y\<rfloor>" if "1000 \<le> y"
    using floor_mono [OF that] by (metis floor_numeral of_int_le_iff of_int_numeral)
  have mono: "(of_int \<lfloor>x * 100\<rfloor> :: rat) \<le> of_int \<lfloor>y * 100\<rfloor>" "(of_int \<lfloor>x\<rfloor> :: rat) \<le> of_int \<lfloor>y\<rfloor>"
    using assms by (simp_all add: floor_mono)
  consider "y < 1000" | "x < 1000" "1000 \<le> y" | "1000 \<le> x" by linarith
  then show ?thesis
  proof cases
    case 1
    then show ?thesis using assms mono(1) by (simp add: short_round_pos divide_right_mono)
  next
    case 2
    then have "short_round x < 1000" "1000 \<le> short_round y" using assms below above by (simp_all add: short_round_pos)
    then show ?thesis by simp
  next
    case 3
    then show ?thesis using assms mono(2) by (simp add: short_round_pos)
  qed
qed

lemma short_round_mono: "x \<le> y \<Longrightarrow> short_round x \<le> short_round y"
  using short_round_mono_pos [of x y] short_round_mono_pos [of "- y" "- x"] short_round_nonneg [of "- x"] short_round_nonneg [of y]
  by (cases "0 \<le> x"; cases "0 \<le> y") (auto simp: short_round_neg)

lemma short_round_int: "short_round (of_int k) = of_int k"
proof -
  have "short_round (of_int j) = of_int j" if "0 \<le> j" for j
  proof -
    have "\<lfloor>(of_int j :: rat) * 100\<rfloor> = j * 100" by (metis floor_of_int of_int_mult of_int_numeral)
    then show ?thesis using that by (simp add: short_round_pos)
  qed
  from this [of k] this [of "- k"] show ?thesis by (cases "0 \<le> k") (auto simp: short_round_neg)
qed

lemma short_round_hundredth: "\<exists>k. short_round x = of_int k / 100"
proof -
  have pos: "\<exists>k. short_round x = of_int k / 100" if "0 \<le> x" for x
  proof (cases "x < 1000")
    case False
    then show ?thesis using that by (intro exI [of _ "\<lfloor>x\<rfloor> * 100"]) (simp add: short_round_pos)
  qed (use that in \<open>auto simp: short_round_pos\<close>)
  show ?thesis
  proof (cases "0 \<le> x")
    case False
    then obtain k where "short_round (- x) = of_int k / 100" using pos [of "- x"] by auto
    then show ?thesis by (intro exI [of _ "- k"]) (simp add: short_round_neg minus_equation_iff)
  qed (rule pos)
qed

lemma short_round_idem: "short_round (short_round x) = short_round x"
proof -
  have pos: "short_round (short_round x) = short_round x" if x: "0 \<le> x" for x
  proof (cases "x < 1000")
    case True
    have "(of_int \<lfloor>x * 100\<rfloor> :: rat) \<le> x * 100" by simp
    then have "of_int \<lfloor>x * 100\<rfloor> / 100 < (1000 :: rat)" using True by simp
    then show ?thesis using x True by (simp add: short_round_pos)
  next
    case False
    then show ?thesis using x short_round_int by (simp add: short_round_pos)
  qed
  from this [of x] this [of "- x"] show ?thesis by (cases "0 \<le> x") (auto simp: short_round_neg)
qed

lemma short_rounding: "rounding short_round"
proof -
  have "x = y" if reps: "short_round x = x" "short_round y = y" "short_round (x - y) = 0" for x y
  proof (rule ccontr)
    assume ne: "x \<noteq> y"
    obtain i j where "x = of_int i / 100" "y = of_int j / 100" using short_round_hundredth [of x] short_round_hundredth [of y] reps(1,2) by auto
    then have d: "x - y = of_int (i - j) / 100" by (simp add: diff_divide_distrib)
    have "i \<noteq> j" using ne d by auto
    then consider "1 \<le> i - j" | "1 \<le> j - i" by linarith
    then show False
    proof cases
      case 1
      then have "1 / 100 \<le> x - y" unfolding d by (simp add: divide_right_mono)
      then show False using short_round_mono [of "1 / 100" "x - y"] reps(3) by (simp add: short_round_pos)
    next
      case 2
      then have "1 / 100 \<le> y - x" using d by (simp add: field_simps)
      then show False using short_round_mono [of "1 / 100" "y - x"] reps(3) short_round_neg [of "x - y"] by (simp add: short_round_pos)
    qed
  qed
  then show ?thesis
    unfolding rounding_def by (blast intro: short_round_mono short_round_neg short_round_idem short_round_int)
qed

lemma short_dec_rounded [simp]: "dec_rounded short_dec"
  unfolding dec_rounded_def by (rule exI [of _ short_round]) (auto simp: short_rounding short_dec_def Let_def split: if_splits)

lemma rat_floor_numeral [simp]: "\<lfloor>numeral a / numeral b :: rat\<rfloor> = numeral a div numeral b" "\<lfloor>1 / numeral b :: rat\<rfloor> = 1 div numeral b"
  by (metis floor_divide_of_int_eq of_int_numeral, metis floor_divide_of_int_eq of_int_numeral of_int_1)

text \<open>It does round: 999.75 and 0.75 make 1000, and the third is lost from a third.\<close>

lemma short_dec_drops_digits:
  "dec_add short_dec (3999 / 4) (3 / 4) = Some 1000" "dec_div short_dec 1 3 = Some (33 / 100)"
  by (simp_all add: short_dec_def short_round_pos)

text \<open>Zero is representable, so a value can always be subtracted from itself.\<close>

definition dec_cancels :: "dec_arith \<Rightarrow> bool" where
  "dec_cancels A \<longleftrightarrow> (\<forall>a. dec_sub A a a = Some 0)"

lemma bounded_dec_cancels [simp]: "0 \<le> m \<Longrightarrow> dec_cancels (bounded_dec m)"
  by (simp add: dec_cancels_def bounded_dec_def Let_def)

text \<open>A product of non-negative decimals is not negative, rounded or not.\<close>

definition dec_signs :: "dec_arith \<Rightarrow> bool" where
  "dec_signs A \<longleftrightarrow> (\<forall>a b c. 0 \<le> a \<longrightarrow> 0 \<le> b \<longrightarrow> dec_mul A a b = Some c \<longrightarrow> 0 \<le> c)"

lemma dec_signsD: "dec_signs A \<Longrightarrow> 0 \<le> a \<Longrightarrow> 0 \<le> b \<Longrightarrow> dec_mul A a b = Some c \<Longrightarrow> 0 \<le> c"
  unfolding dec_signs_def by blast

lemma bounded_dec_mul: "dec_mul (bounded_dec m) a b = Some c \<Longrightarrow> c = a * b"
  unfolding bounded_dec_def Let_def by (cases "\<bar>a * b\<bar> \<le> m") simp_all

lemma bounded_dec_signs [simp]: "dec_signs (bounded_dec m)"
  unfolding dec_signs_def using bounded_dec_mul by (metis mult_nonneg_nonneg)

section \<open>Doubles\<close>

text \<open>
  The \<open>f64\<close> operations the source uses where a number is a statistic and not money: a type and its
  operations as a parameter, of which nothing is assumed but what a fact names. A comparison with a
  NaN is false.
\<close>

record 'f f64_ops =
  fl_add :: "'f \<Rightarrow> 'f \<Rightarrow> 'f"
  fl_sub :: "'f \<Rightarrow> 'f \<Rightarrow> 'f"
  fl_mul :: "'f \<Rightarrow> 'f \<Rightarrow> 'f"
  fl_div :: "'f \<Rightarrow> 'f \<Rightarrow> 'f"
  fl_abs :: "'f \<Rightarrow> 'f"
  fl_max :: "'f \<Rightarrow> 'f \<Rightarrow> 'f"
  fl_le :: "'f \<Rightarrow> 'f \<Rightarrow> bool"
  fl_less :: "'f \<Rightarrow> 'f \<Rightarrow> bool"
  fl_is_finite :: "'f \<Rightarrow> bool"
  fl_is_nan :: "'f \<Rightarrow> bool"
  fl_of_int :: "int \<Rightarrow> 'f"

text \<open>An instance, for the witnesses: the rationals, without NaN and infinities.\<close>

definition rat_ops :: "rat f64_ops" where
  "rat_ops = \<lparr>fl_add = (+), fl_sub = (-), fl_mul = (*), fl_div = (/), fl_abs = abs, fl_max = max, fl_le = (\<le>), fl_less = (<),
     fl_is_finite = (\<lambda>_. True), fl_is_nan = (\<lambda>_. False), fl_of_int = of_int\<rparr>"

section \<open>Rendering integers\<close>

text \<open>\<open>Display\<close> of an unsigned and of a signed integer, in decimal.\<close>

definition digit_char :: "nat \<Rightarrow> char" where
  "digit_char d = char_of (48 + d)"

fun show_nat :: "nat \<Rightarrow> string" where
  "show_nat n = (if n < 10 then [digit_char n] else show_nat (n div 10) @ [digit_char (n mod 10)])"

declare show_nat.simps [simp del]

definition show_int :: "int \<Rightarrow> string" where
  "show_int x = (if x < 0 then CHR ''-'' # show_nat (nat (- x)) else show_nat (nat x))"

text \<open>\<open>str::parse\<close> on a string of ASCII digits, most significant first.\<close>

definition char_digit :: "char \<Rightarrow> nat" where
  "char_digit c = of_char c - 48"

definition is_ascii_digit :: "char \<Rightarrow> bool" where
  "is_ascii_digit c \<longleftrightarrow> 48 \<le> (of_char c :: nat) \<and> (of_char c :: nat) \<le> 57"

definition parse_digits :: "string \<Rightarrow> nat" where
  "parse_digits s = foldl (\<lambda>n c. 10 * n + char_digit c) 0 s"

lemma char_digit_of_digit [simp]: "d < 10 \<Longrightarrow> char_digit (digit_char d) = d"
  by (simp add: char_digit_def digit_char_def of_char_of)

lemma digit_char_is_digit [simp]: "d < 10 \<Longrightarrow> is_ascii_digit (digit_char d)"
  by (simp add: is_ascii_digit_def digit_char_def of_char_of)

lemma parse_digits_snoc [simp]: "parse_digits (s @ [c]) = 10 * parse_digits s + char_digit c"
  by (simp add: parse_digits_def)

lemma parse_digits_Nil [simp]: "parse_digits [] = 0"
  by (simp add: parse_digits_def)

lemma parse_show_nat [simp]: "parse_digits (show_nat n) = n"
proof (induction n rule: show_nat.induct)
  case (1 n)
  show ?case
  proof (cases "n < 10")
    case True
    then show ?thesis
      by (simp add: show_nat.simps [of n] parse_digits_def)
  next
    case False
    with "1.IH" show ?thesis
      by (simp add: show_nat.simps [of n])
  qed
qed

lemma show_nat_inject [simp]: "show_nat m = show_nat n \<longleftrightarrow> m = n"
  using parse_show_nat by metis

lemma show_nat_digits: "c \<in> set (show_nat n) \<Longrightarrow> is_ascii_digit c"
proof (induction n rule: show_nat.induct)
  case (1 n)
  then show ?case
    by (cases "n < 10") (auto simp: show_nat.simps [of n])
qed

lemma show_nat_nonempty [simp]: "show_nat n \<noteq> []"
  by (subst show_nat.simps) simp

section \<open>Lists\<close>

text \<open>Where a delimiter occurs in neither head, an append is read back.\<close>

lemma split_at_delim:
  "c \<notin> set xs \<Longrightarrow> c \<notin> set xs' \<Longrightarrow> xs @ c # ys = xs' @ c # ys' \<longleftrightarrow> xs = xs' \<and> ys = ys'"
proof (induction xs arbitrary: xs')
  case Nil
  then show ?case by (cases xs') auto
next
  case (Cons a xs)
  then show ?case by (cases xs') auto
qed


definition last_opt :: "'a list \<Rightarrow> 'a option" where
  "last_opt xs = (if xs = [] then None else Some (last xs))"

lemma last_opt_simps [simp]:
  "last_opt [] = None"
  "last_opt (xs @ [x]) = Some x"
  by (simp_all add: last_opt_def)

definition get_opt :: "'a list \<Rightarrow> nat \<Rightarrow> 'a option" where
  "get_opt xs i = (if i < length xs then Some (xs ! i) else None)"

lemma get_opt_Some [simp]: "get_opt xs i = Some x \<longleftrightarrow> i < length xs \<and> xs ! i = x"
  by (simp add: get_opt_def)

lemma get_opt_None [simp]: "get_opt xs i = None \<longleftrightarrow> length xs \<le> i"
  by (auto simp: get_opt_def)

lemma get_opt_update:
  "get_opt (xs[i := x]) j = (if i = j \<and> i < length xs then Some x else get_opt xs j)"
  by (auto simp: get_opt_def)

end
