(* ===== verification/Domain_Types.thy ===== *)
theory Domain_Types imports Prelude begin

text \<open>
  The shared vocabulary of both pipelines (crate \<open>qe-domain\<close>): instants and half-open
  intervals (\<open>time.rs\<close>), bar resolutions (\<open>resolution.rs\<close>), order sides (\<open>side.rs\<close>),
  canonical instrument symbols (\<open>instrument.rs\<close>), non-negative money (\<open>money.rs\<close>) and OHLC
  bars (\<open>bar.rs\<close>). Every constructor that validates answers a sum; the lemmas say what a
  value obtained through it satisfies. Rendered messages are kept as the values they render.
\<close>

section \<open>Errors of the vocabulary\<close>

datatype bar_fault =
    HighBelowLow decimal decimal
  | OutsideRange string decimal decimal decimal

datatype domain_error =
    InvalidInstrument string string
  | NegativeMoney string decimal
  | InvalidBar bar_fault
  | InvalidResolution string
  | InvalidInterval i64 i64

section \<open>Instants and intervals\<close>

type_synonym timestamp = i64

definition from_secs :: "i64 \<Rightarrow> timestamp" where
  "from_secs secs = wrap_i64 (secs * 1000)"

record time_interval =
  ti_start :: timestamp
  ti_end :: timestamp

definition time_interval_new :: "timestamp \<Rightarrow> timestamp \<Rightarrow> (domain_error, time_interval) result" where
  "time_interval_new start stop =
     (if stop < start then Inl (InvalidInterval start stop)
      else Inr \<lparr>ti_start = start, ti_end = stop\<rparr>)"

definition duration_millis :: "time_interval \<Rightarrow> i64" where
  "duration_millis iv = wrap_i64 (ti_end iv - ti_start iv)"

definition interval_contains :: "time_interval \<Rightarrow> timestamp \<Rightarrow> bool" where
  "interval_contains iv t \<longleftrightarrow> ti_start iv \<le> t \<and> t < ti_end iv"

lemma time_interval_new_ok:
  "time_interval_new a b = Inr iv \<longleftrightarrow> a \<le> b \<and> iv = \<lparr>ti_start = a, ti_end = b\<rparr>"
  by (auto simp: time_interval_new_def)

section \<open>Resolutions\<close>

datatype resolution = M1 | M5 | M15 | M30 | H1 | H4 | H12 | D1

definition resolution_all :: "resolution list" where
  "resolution_all = [M1, M5, M15, M30, H1, H4, H12, D1]"

fun resolution_minutes :: "resolution \<Rightarrow> u32" where
  "resolution_minutes M1 = 1"
| "resolution_minutes M5 = 5"
| "resolution_minutes M15 = 15"
| "resolution_minutes M30 = 30"
| "resolution_minutes H1 = 60"
| "resolution_minutes H4 = 240"
| "resolution_minutes H12 = 720"
| "resolution_minutes D1 = 1440"

fun resolution_str :: "resolution \<Rightarrow> string" where
  "resolution_str M1 = ''1m''"
| "resolution_str M5 = ''5m''"
| "resolution_str M15 = ''15m''"
| "resolution_str M30 = ''30m''"
| "resolution_str H1 = ''1h''"
| "resolution_str H4 = ''4h''"
| "resolution_str H12 = ''12h''"
| "resolution_str D1 = ''1d''"

definition resolution_from_str :: "string \<Rightarrow> (domain_error, resolution) result" where
  "resolution_from_str s =
     (case find (\<lambda>r. resolution_str r = s) resolution_all of
        Some r \<Rightarrow> Inr r
      | None \<Rightarrow> Inl (InvalidResolution s))"

text \<open>The derived \<open>Ord\<close> compares variants in declaration order; so does the duration.\<close>

instantiation resolution :: linorder
begin

definition less_eq_resolution :: "resolution \<Rightarrow> resolution \<Rightarrow> bool" where
  "r \<le> s \<longleftrightarrow> resolution_minutes r \<le> resolution_minutes s"

definition less_resolution :: "resolution \<Rightarrow> resolution \<Rightarrow> bool" where
  "r < s \<longleftrightarrow> resolution_minutes r < resolution_minutes s"

instance
proof
  fix r s :: resolution
  show "r \<le> s \<Longrightarrow> s \<le> r \<Longrightarrow> r = s"
    by (cases r; cases s) (simp_all add: less_eq_resolution_def)
qed (auto simp: less_eq_resolution_def less_resolution_def)

end

lemma resolution_all_complete [simp]: "r \<in> set resolution_all"
  by (cases r) (simp_all add: resolution_all_def)

lemma resolution_all_sorted: "sorted resolution_all \<and> distinct resolution_all"
  by (simp add: resolution_all_def less_eq_resolution_def)

lemma resolution_str_inject: "resolution_str r = resolution_str s \<longleftrightarrow> r = s"
  by (cases r; cases s) simp_all

lemma resolution_minutes_pos [simp]: "0 < resolution_minutes r"
  by (cases r) simp_all

lemma resolution_minutes_le: "resolution_minutes r \<le> 1440"
  by (cases r) simp_all

lemma resolution_roundtrip: "resolution_from_str (resolution_str r) = Inr r"
  by (cases r) (simp_all add: resolution_from_str_def resolution_all_def)

lemma resolution_from_str_ok:
  "resolution_from_str s = Inr r \<longleftrightarrow> resolution_str r = s"
proof
  assume "resolution_from_str s = Inr r"
  then show "resolution_str r = s"
    by (auto simp: resolution_from_str_def find_Some_iff split: option.splits)
qed (auto simp: resolution_roundtrip)

section \<open>Sides and directions\<close>

datatype side = Buy | Sell

datatype direction = Long | Short

fun side_direction :: "side \<Rightarrow> direction" where
  "side_direction Buy = Long"
| "side_direction Sell = Short"

fun side_opposite :: "side \<Rightarrow> side" where
  "side_opposite Buy = Sell"
| "side_opposite Sell = Buy"

fun direction_side :: "direction \<Rightarrow> side" where
  "direction_side Long = Buy"
| "direction_side Short = Sell"

fun direction_opposite :: "direction \<Rightarrow> direction" where
  "direction_opposite Long = Short"
| "direction_opposite Short = Long"

lemma side_direction_inverse [simp]:
  "direction_side (side_direction s) = s"
  "side_direction (direction_side d) = d"
  by (cases s; simp) (cases d; simp)

lemma opposite_involutive [simp]:
  "side_opposite (side_opposite s) = s"
  "direction_opposite (direction_opposite d) = d"
  by (cases s; simp) (cases d; simp)

section \<open>Instrument symbols\<close>

definition is_ascii_alphanumeric :: "char \<Rightarrow> bool" where
  "is_ascii_alphanumeric c =
     (let n = of_char c :: nat
      in (48 \<le> n \<and> n \<le> 57) \<or> (65 \<le> n \<and> n \<le> 90) \<or> (97 \<le> n \<and> n \<le> 122))"

definition to_ascii_uppercase :: "char \<Rightarrow> char" where
  "to_ascii_uppercase c =
     (let n = of_char c :: nat in if 97 \<le> n \<and> n \<le> 122 then char_of (n - 32) else c)"

datatype instrument_id = InstrumentId (instrument_str: string)

definition instrument_new :: "string \<Rightarrow> (domain_error, instrument_id) result" where
  "instrument_new raw =
     (if raw = [] then Inl (InvalidInstrument raw ''must not be empty'')
      else if \<not> list_all is_ascii_alphanumeric raw
           then Inl (InvalidInstrument raw ''must be ASCII alphanumeric'')
      else Inr (InstrumentId (map to_ascii_uppercase raw)))"

text \<open>The well-formedness of an id: what \<open>InstrumentId::new\<close> and serde both enforce.\<close>

definition valid_instrument :: "instrument_id \<Rightarrow> bool" where
  "valid_instrument i \<longleftrightarrow>
     instrument_str i \<noteq> [] \<and>
     (\<forall>c \<in> set (instrument_str i). is_ascii_alphanumeric c \<and> to_ascii_uppercase c = c)"

lemma char_of_small: "n < 256 \<Longrightarrow> (of_char (char_of n :: char) :: nat) = n"
  by (simp add: of_char_of)

lemma to_ascii_uppercase_idem [simp]:
  "to_ascii_uppercase (to_ascii_uppercase c) = to_ascii_uppercase c"
  by (auto simp: to_ascii_uppercase_def Let_def char_of_small)

lemma to_ascii_uppercase_alnum:
  "is_ascii_alphanumeric c \<Longrightarrow> is_ascii_alphanumeric (to_ascii_uppercase c)"
  by (auto simp: to_ascii_uppercase_def is_ascii_alphanumeric_def Let_def char_of_small)

lemma alnum_not_nul: "is_ascii_alphanumeric c \<Longrightarrow> (of_char c :: nat) \<noteq> 0"
  by (auto simp: is_ascii_alphanumeric_def Let_def)

lemma instrument_new_valid: "instrument_new raw = Inr i \<Longrightarrow> valid_instrument i"
  by (auto simp: instrument_new_def valid_instrument_def list_all_iff to_ascii_uppercase_alnum
      split: if_splits)

lemma instrument_new_canonical: "valid_instrument i \<Longrightarrow> instrument_new (instrument_str i) = Inr i"
  by (cases i) (auto simp: instrument_new_def valid_instrument_def list_all_iff map_idI)

end
