(* ===== verification/Money_Bars.thy ===== *)
theory Money_Bars imports Domain_Types begin

text \<open>
  Money and candles (\<open>money.rs\<close>, \<open>bar.rs\<close>). Prices and quantities are non-negative by
  construction; a bar satisfies \<open>low \<le> open, close \<le> high\<close> by construction. Sums,
  differences and products go through the decimal package (\<open>dec_arith\<close>), whose overflow panic is
  \<open>None\<close>. Serde's wire form of a bar is the flat record itself, re-validated on the way in.
\<close>

section \<open>Money\<close>

datatype price = Price (price_get: decimal)
datatype qty = Qty (qty_get: decimal)
datatype notional = Notional (notional_get: decimal)

definition price_zero :: price where "price_zero = Price 0"
definition qty_zero :: qty where "qty_zero = Qty 0"
definition notional_zero :: notional where "notional_zero = Notional 0"

definition price_new :: "decimal \<Rightarrow> (domain_error, price) result" where
  "price_new v = (if v < 0 then Inl (NegativeMoney ''price'' v) else Inr (Price v))"

definition qty_new :: "decimal \<Rightarrow> (domain_error, qty) result" where
  "qty_new v = (if v < 0 then Inl (NegativeMoney ''qty'' v) else Inr (Qty v))"

definition qty_abs_of :: "decimal \<Rightarrow> qty" where
  "qty_abs_of v = Qty \<bar>v\<bar>"

definition qty_add :: "dec_arith \<Rightarrow> qty \<Rightarrow> qty \<Rightarrow> qty option" where
  "qty_add A a b = map_option Qty (dec_add A (qty_get a) (qty_get b))"

definition notional_checked_add :: "dec_arith \<Rightarrow> notional \<Rightarrow> notional \<Rightarrow> notional option" where
  "notional_checked_add A a b = map_option Notional (dec_add A (notional_get a) (notional_get b))"

definition notional_checked_sub :: "dec_arith \<Rightarrow> notional \<Rightarrow> notional \<Rightarrow> notional option" where
  "notional_checked_sub A a b = map_option Notional (dec_sub A (notional_get a) (notional_get b))"

definition notional_add :: "dec_arith \<Rightarrow> notional \<Rightarrow> notional \<Rightarrow> notional option" where
  "notional_add A a b = map_option Notional (dec_add A (notional_get a) (notional_get b))"

definition notional_sub :: "dec_arith \<Rightarrow> notional \<Rightarrow> notional \<Rightarrow> notional option" where
  "notional_sub A a b = map_option Notional (dec_sub A (notional_get a) (notional_get b))"

datatype rounding_policy = HalfEven | HalfUp | Down | Up

text \<open>The strategies are the decimal package's; \<open>rnd\<close> is its rounding operation.\<close>

datatype rounding_strategy = MidpointNearestEven | MidpointAwayFromZero | ToZero | AwayFromZero

fun rounding_strategy_of :: "rounding_policy \<Rightarrow> rounding_strategy" where
  "rounding_strategy_of HalfEven = MidpointNearestEven"
| "rounding_strategy_of HalfUp = MidpointAwayFromZero"
| "rounding_strategy_of Down = ToZero"
| "rounding_strategy_of Up = AwayFromZero"

definition price_notional ::
  "dec_arith \<Rightarrow> (decimal \<Rightarrow> u32 \<Rightarrow> rounding_strategy \<Rightarrow> decimal) \<Rightarrow> price \<Rightarrow> qty \<Rightarrow> u32 \<Rightarrow> rounding_policy
     \<Rightarrow> notional option" where
  "price_notional A rnd p q scale policy =
     map_option (\<lambda>product. Notional (rnd product scale (rounding_strategy_of policy)))
       (dec_mul A (price_get p) (qty_get q))"

definition valid_qty :: "qty \<Rightarrow> bool" where "valid_qty q \<longleftrightarrow> 0 \<le> qty_get q"
definition valid_price :: "price \<Rightarrow> bool" where "valid_price p \<longleftrightarrow> 0 \<le> price_get p"

lemma price_new_ok: "price_new v = Inr p \<longleftrightarrow> p = Price v \<and> valid_price p"
  by (auto simp: price_new_def valid_price_def)

lemma qty_new_ok: "qty_new v = Inr q \<longleftrightarrow> q = Qty v \<and> valid_qty q"
  by (auto simp: qty_new_def valid_qty_def)

lemma qty_abs_of_valid [simp]: "valid_qty (qty_abs_of v)"
  by (simp add: valid_qty_def qty_abs_of_def)

lemma qty_abs_of_get [simp]: "qty_get (qty_abs_of v) = \<bar>v\<bar>"
  by (simp add: qty_abs_of_def)

lemma qty_add_valid:
  "dec_rounded A \<Longrightarrow> valid_qty a \<Longrightarrow> valid_qty b \<Longrightarrow> qty_add A a b = Some c \<Longrightarrow> valid_qty c"
  by (auto simp: qty_add_def valid_qty_def dest: dec_add_nonneg)

section \<open>Bars\<close>

record bar =
  bar_open_time :: timestamp
  bar_resolution :: resolution
  bar_open :: price
  bar_high :: price
  bar_low :: price
  bar_close :: price
  bar_volume :: qty
  bar_trades :: u64

definition bar_new ::
  "timestamp \<Rightarrow> resolution \<Rightarrow> price \<Rightarrow> price \<Rightarrow> price \<Rightarrow> price \<Rightarrow> qty \<Rightarrow> u64 \<Rightarrow> (domain_error, bar) result" where
  "bar_new open_time res opn high low close volume trades =
     (let lo = price_get low; hi = price_get high;
          outside = (\<lambda>p. price_get p < lo \<or> price_get p > hi)
      in if hi < lo then Inl (InvalidBar (HighBelowLow hi lo))
         else case find (\<lambda>np. outside (snd np)) [(''open'', opn), (''close'', close)] of
           Some (name, p) \<Rightarrow> Inl (InvalidBar (OutsideRange name (price_get p) lo hi))
         | None \<Rightarrow> Inr \<lparr>bar_open_time = open_time, bar_resolution = res, bar_open = opn,
                        bar_high = high, bar_low = low, bar_close = close,
                        bar_volume = volume, bar_trades = trades\<rparr>)"

definition bar_from_wire :: "bar \<Rightarrow> (domain_error, bar) result" where
  "bar_from_wire w =
     bar_new (bar_open_time w) (bar_resolution w) (bar_open w) (bar_high w) (bar_low w)
       (bar_close w) (bar_volume w) (bar_trades w)"

definition bar_range :: "dec_arith \<Rightarrow> bar \<Rightarrow> decimal option" where
  "bar_range A b = dec_sub A (price_get (bar_high b)) (price_get (bar_low b))"

definition valid_bar :: "bar \<Rightarrow> bool" where
  "valid_bar b \<longleftrightarrow>
     price_get (bar_low b) \<le> price_get (bar_open b) \<and> price_get (bar_open b) \<le> price_get (bar_high b) \<and>
     price_get (bar_low b) \<le> price_get (bar_close b) \<and> price_get (bar_close b) \<le> price_get (bar_high b)"

lemma bar_new_iff:
  "bar_new t r op h l c v n = Inr b \<longleftrightarrow>
     b = \<lparr>bar_open_time = t, bar_resolution = r, bar_open = op, bar_high = h, bar_low = l,
          bar_close = c, bar_volume = v, bar_trades = n\<rparr> \<and> valid_bar b"
  by (auto simp: bar_new_def valid_bar_def Let_def not_less split: if_splits)

lemma bar_from_wire_iff: "bar_from_wire w = Inr b \<longleftrightarrow> b = w \<and> valid_bar w"
  by (cases w) (auto simp: bar_from_wire_def bar_new_iff)

lemma bar_range_nonneg:
  "dec_rounded A \<Longrightarrow> valid_bar b \<Longrightarrow> bar_range A b = Some x \<Longrightarrow> 0 \<le> x"
  using dec_int_bounds(3) [of A _ _ x 0] by (auto simp: bar_range_def valid_bar_def)

text \<open>
  A bar comes out of its constructor exactly when its prices satisfy the OHLC invariant,
  and then carries the arguments unchanged; deserialising a bar's wire form gives the bar back.
\<close>

theorem bar_new_correct:
  "(bar_new t r op h l c v n = Inr b \<longleftrightarrow>
      b = \<lparr>bar_open_time = t, bar_resolution = r, bar_open = op, bar_high = h, bar_low = l,
           bar_close = c, bar_volume = v, bar_trades = n\<rparr>
      \<and> price_get l \<le> min (price_get op) (price_get c)
      \<and> max (price_get op) (price_get c) \<le> price_get h)
   \<and> (valid_bar w \<longleftrightarrow> bar_from_wire w = Inr w)"
  by (auto simp: bar_new_iff bar_from_wire_iff valid_bar_def)

end
