(* ===== verification/Error_Taxonomy.thy ===== *)
theory Error_Taxonomy imports Domain_Types begin

text \<open>
  The recoverability taxonomy (crate \<open>qe-error\<close>) that the live loop routes every order-path
  error through, the \<open>Classified\<close> interface as a locale, and the clock-skew guard (crate
  \<open>qe-clock\<close>) that turns excessive skew into a fatal error.
\<close>

section \<open>Classes and dispositions\<close>

datatype error_class = Transient | Data | Fatal

datatype disposition = Continue | Retry | Halt

fun class_disposition :: "error_class \<Rightarrow> disposition" where
  "class_disposition Transient = Retry"
| "class_disposition Data = Continue"
| "class_disposition Fatal = Halt"

text \<open>
  \<open>'c\<close> is the rendered context and \<open>'s\<close> the boxed source error. The private fields are
  read by the accessors below.
\<close>

record ('c, 's) qe_error =
  err_class :: error_class
  err_context :: 'c
  err_source :: "'s option"

definition qe_error_new :: "error_class \<Rightarrow> 'c \<Rightarrow> ('c, 's) qe_error" where
  "qe_error_new cl ctx = \<lparr>err_class = cl, err_context = ctx, err_source = None\<rparr>"

definition qe_transient :: "'c \<Rightarrow> ('c, 's) qe_error" where
  "qe_transient ctx = qe_error_new Transient ctx"

definition qe_data :: "'c \<Rightarrow> ('c, 's) qe_error" where
  "qe_data ctx = qe_error_new Data ctx"

definition qe_fatal :: "'c \<Rightarrow> ('c, 's) qe_error" where
  "qe_fatal ctx = qe_error_new Fatal ctx"

definition with_source :: "('c, 's) qe_error \<Rightarrow> 's \<Rightarrow> ('c, 's) qe_error" where
  "with_source e src = e\<lparr>err_source := Some src\<rparr>"

definition is_fatal :: "('c, 's) qe_error \<Rightarrow> bool" where
  "is_fatal e \<longleftrightarrow> err_class e = Fatal"

definition is_retryable :: "('c, 's) qe_error \<Rightarrow> bool" where
  "is_retryable e \<longleftrightarrow> err_class e = Transient"

definition qe_disposition :: "('c, 's) qe_error \<Rightarrow> disposition" where
  "qe_disposition e = class_disposition (err_class e)"

lemma class_disposition_inject [simp]:
  "class_disposition a = class_disposition b \<longleftrightarrow> a = b"
  by (cases a; cases b) simp_all

lemma class_disposition_iff [simp]:
  "class_disposition c = Halt \<longleftrightarrow> c = Fatal"
  "class_disposition c = Retry \<longleftrightarrow> c = Transient"
  "class_disposition c = Continue \<longleftrightarrow> c = Data"
  by (cases c; simp)+

text \<open>
  The \<open>Classified\<close> trait: a client routes an error by its class alone, and the default
  \<open>disposition\<close> method is the class's. Providers interpret it with their own class function.
\<close>

locale classified =
  fixes err_cls :: "'e \<Rightarrow> error_class"
    and err_disp :: "'e \<Rightarrow> disposition"
  assumes default_disposition: "err_disp e = class_disposition (err_cls e)"
begin

lemma routes_to_halt: "err_disp e = Halt \<longleftrightarrow> err_cls e = Fatal"
  by (simp add: default_disposition)

lemma routes_to_retry: "err_disp e = Retry \<longleftrightarrow> err_cls e = Transient"
  by (simp add: default_disposition)

lemma routes_to_continue: "err_disp e = Continue \<longleftrightarrow> err_cls e = Data"
  by (simp add: default_disposition)

end

interpretation qe: classified err_class qe_disposition
  by unfold_locales (simp add: qe_disposition_def)

section \<open>The clock-skew guard\<close>

datatype clock_health = InSync | Skewed

record skew_reading =
  skew_ms :: i64
  threshold_ms :: i64
  skew_health :: clock_health

datatype skew_context = SkewContext i64 i64

type_synonym skew_error = "(skew_context, unit) qe_error"

definition is_breach :: "skew_reading \<Rightarrow> bool" where
  "is_breach r \<longleftrightarrow> skew_health r = Skewed"

definition skew_breach :: "skew_reading \<Rightarrow> skew_error option" where
  "skew_breach r =
     (if is_breach r then Some (qe_fatal (SkewContext (skew_ms r) (threshold_ms r))) else None)"

datatype skew_guard = SkewGuard (max_abs_skew_ms: i64)

datatype clock_error = InvalidThreshold i64

definition default_max_skew_ms :: i64 where "default_max_skew_ms = 1000"

definition skew_guard_new :: "i64 \<Rightarrow> (clock_error, skew_guard) result" where
  "skew_guard_new m = (if m \<le> 0 then Inl (InvalidThreshold m) else Inr (SkewGuard m))"

definition skew_guard_default :: skew_guard where
  "skew_guard_default = SkewGuard default_max_skew_ms"

text \<open>\<open>unsigned_abs\<close> is the absolute value as a \<open>u64\<close>, so it cannot overflow.\<close>

definition skew_evaluate :: "skew_guard \<Rightarrow> timestamp \<Rightarrow> timestamp \<Rightarrow> skew_reading" where
  "skew_evaluate g local reference =
     (let sk = sat_i64 (local - reference);
          health = (if \<bar>sk\<bar> > \<bar>max_abs_skew_ms g\<bar> then Skewed else InSync)
      in \<lparr>skew_ms = sk, threshold_ms = max_abs_skew_ms g, skew_health = health\<rparr>)"

definition skew_check :: "skew_guard \<Rightarrow> timestamp \<Rightarrow> timestamp \<Rightarrow> (skew_error, skew_reading) result" where
  "skew_check g local reference =
     (let reading = skew_evaluate g local reference
      in case skew_breach reading of Some e \<Rightarrow> Inl e | None \<Rightarrow> Inr reading)"

text \<open>\<open>check_and_log\<close> also emits one event; the log is the list of levels and readings emitted.\<close>

datatype log_level = Warn | Info

definition record_skew :: "skew_reading \<Rightarrow> log_level \<times> skew_reading" where
  "record_skew r = (if is_breach r then (Warn, r) else (Info, r))"

definition skew_check_and_log ::
  "skew_guard \<Rightarrow> timestamp \<Rightarrow> timestamp \<Rightarrow> (log_level \<times> skew_reading) list
     \<Rightarrow> (skew_error, skew_reading) result \<times> (log_level \<times> skew_reading) list" where
  "skew_check_and_log g local reference evs =
     (let reading = skew_evaluate g local reference; evs' = evs @ [record_skew reading]
      in case skew_breach reading of Some e \<Rightarrow> (Inl e, evs') | None \<Rightarrow> (Inr reading, evs'))"

lemma skew_check_cases:
  "skew_check g l r =
     (if is_breach (skew_evaluate g l r)
      then Inl (qe_fatal (SkewContext (skew_ms (skew_evaluate g l r)) (max_abs_skew_ms g)))
      else Inr (skew_evaluate g l r))"
  by (simp add: skew_check_def skew_breach_def Let_def skew_evaluate_def)

text \<open>Saturation never hides a breach: the saturated skew exceeds a threshold iff the true one does.\<close>

lemma sat_i64_abs_gt:
  assumes "0 < m" "m < i64_max"
  shows "\<bar>sat_i64 x\<bar> > m \<longleftrightarrow> \<bar>x\<bar> > m"
  using assms by (auto simp: sat_i64_def)

text \<open>
  For a constructed guard below the saturation limit, the check halts on exactly those
  samples whose true skew exceeds the threshold, whatever the instants, and every evaluation
  is logged once, at warning level exactly on a breach.
\<close>

theorem skew_check_halts_iff:
  assumes "skew_guard_new m = Inr g" and "m < i64_max"
  shows "(case skew_check g local reference of
            Inl e \<Rightarrow> qe_disposition e = Halt \<and> \<bar>local - reference\<bar> > m
          | Inr rd \<Rightarrow> skew_health rd = InSync \<and> \<bar>local - reference\<bar> \<le> m)
       \<and> fst (skew_check_and_log g local reference evs) = skew_check g local reference
       \<and> snd (skew_check_and_log g local reference evs) =
           evs @ [(if \<bar>local - reference\<bar> > m then Warn else Info, skew_evaluate g local reference)]"
proof -
  have g: "g = SkewGuard m" and m: "0 < m"
    using assms(1) by (auto simp: skew_guard_new_def split: if_splits)
  have br: "is_breach (skew_evaluate g local reference) \<longleftrightarrow> \<bar>local - reference\<bar> > m"
    using sat_i64_abs_gt [OF m assms(2)] m
    by (simp add: is_breach_def skew_evaluate_def Let_def g)
  have ev: "skew_check_and_log g local reference evs =
      (skew_check g local reference, evs @ [record_skew (skew_evaluate g local reference)])"
    by (simp add: skew_check_and_log_def skew_check_def Let_def split: option.splits)
  show ?thesis
    using br by (auto simp: ev record_skew_def skew_check_cases qe_disposition_def qe_fatal_def
      qe_error_new_def is_breach_def intro: clock_health.exhaust)
qed

theorem skew_check_halts_iff_witness:
  "qe_disposition (projl (skew_check (SkewGuard 1000) 5001 4000)) = Halt
   \<and> skew_health (projr (skew_check (SkewGuard 1000) 5000 4000)) = InSync"
proof -
  have g: "skew_guard_new 1000 = Inr (SkewGuard 1000)"
    by (simp add: skew_guard_new_def)
  show ?thesis
    using skew_check_halts_iff [OF g, of 5001 4000 "[]"] skew_check_halts_iff [OF g, of 5000 4000 "[]"]
    by (auto split: sum.splits)
qed

end
