(* ===== verification/Risk_Limits.thy ===== *)
theory Risk_Limits imports Money_Bars Error_Taxonomy begin

text \<open>
  The risk-limit vocabulary (crate \<open>qe-risk\<close>, \<open>limit.rs\<close>): the kinds of cap, the outcome each
  kind defaults to, the validated cap values and the cap set.
\<close>

datatype limit_kind =
    MaxNotional | MaxLeverage | MaxGrossExposure | MaxNetExposure | LiquidationDistanceFloor
  | MarginUtilisationCeiling | MaxParticipation | DrawdownCap

datatype limit_outcome = ClampOrder | RejectOrder | HaltOrders

fun default_outcome :: "limit_kind \<Rightarrow> limit_outcome" where
  "default_outcome MaxNotional = ClampOrder"
| "default_outcome MaxLeverage = ClampOrder"
| "default_outcome MaxGrossExposure = RejectOrder"
| "default_outcome MaxNetExposure = RejectOrder"
| "default_outcome LiquidationDistanceFloor = RejectOrder"
| "default_outcome MarginUtilisationCeiling = RejectOrder"
| "default_outcome MaxParticipation = RejectOrder"
| "default_outcome DrawdownCap = HaltOrders"

fun limit_kind_str :: "limit_kind \<Rightarrow> string" where
  "limit_kind_str MaxNotional = ''max_notional''"
| "limit_kind_str MaxLeverage = ''max_leverage''"
| "limit_kind_str MaxGrossExposure = ''max_gross_exposure''"
| "limit_kind_str MaxNetExposure = ''max_net_exposure''"
| "limit_kind_str LiquidationDistanceFloor = ''liquidation_distance_floor''"
| "limit_kind_str MarginUtilisationCeiling = ''margin_utilisation_ceiling''"
| "limit_kind_str MaxParticipation = ''max_participation''"
| "limit_kind_str DrawdownCap = ''drawdown_cap''"

text \<open>The rejected value is rendered into the error; the value itself stands for its rendering.\<close>

datatype risk_error = NegativeLeverage decimal | FractionOutOfRange decimal

fun risk_error_class :: "risk_error \<Rightarrow> error_class" where
  "risk_error_class (NegativeLeverage _) = Fatal"
| "risk_error_class (FractionOutOfRange _) = Fatal"

definition risk_error_disposition :: "risk_error \<Rightarrow> disposition" where
  "risk_error_disposition e = class_disposition (risk_error_class e)"

interpretation risk_error: classified risk_error_class risk_error_disposition
  by unfold_locales (simp add: risk_error_disposition_def)

datatype leverage = Leverage (leverage_get: decimal)

datatype fraction = Fraction (fraction_get: decimal)

definition fraction_zero :: fraction where "fraction_zero = Fraction 0"
definition fraction_one :: fraction where "fraction_one = Fraction 1"

definition leverage_new :: "decimal \<Rightarrow> (risk_error, leverage) result" where
  "leverage_new v = (if v < 0 then Inl (NegativeLeverage v) else Inr (Leverage v))"

definition fraction_new :: "decimal \<Rightarrow> (risk_error, fraction) result" where
  "fraction_new v = (if v < 0 \<or> v > 1 then Inl (FractionOutOfRange v) else Inr (Fraction v))"

text \<open>Deserialising goes through the same constructors, after the package has parsed the decimal.\<close>

definition leverage_deserialize :: "('e, decimal) result \<Rightarrow> ('e + risk_error, leverage) result" where
  "leverage_deserialize parsed =
     (case parsed of Inl e \<Rightarrow> Inl (Inl e)
      | Inr v \<Rightarrow> (case leverage_new v of Inl e \<Rightarrow> Inl (Inr e) | Inr l \<Rightarrow> Inr l))"

definition fraction_deserialize :: "('e, decimal) result \<Rightarrow> ('e + risk_error, fraction) result" where
  "fraction_deserialize parsed =
     (case parsed of Inl e \<Rightarrow> Inl (Inl e)
      | Inr v \<Rightarrow> (case fraction_new v of Inl e \<Rightarrow> Inl (Inr e) | Inr f \<Rightarrow> Inr f))"

record risk_limits =
  lim_max_notional :: "notional option"
  lim_max_leverage :: "leverage option"
  lim_max_gross_exposure :: "notional option"
  lim_max_net_exposure :: "notional option"
  lim_liquidation_distance_floor :: "fraction option"
  lim_margin_utilisation_ceiling :: "fraction option"
  lim_max_participation :: "fraction option"
  lim_drawdown_cap :: "fraction option"

definition risk_limits_default :: risk_limits where
  "risk_limits_default = \<lparr>lim_max_notional = None, lim_max_leverage = None,
     lim_max_gross_exposure = None, lim_max_net_exposure = None,
     lim_liquidation_distance_floor = None, lim_margin_utilisation_ceiling = None,
     lim_max_participation = None, lim_drawdown_cap = None\<rparr>"

text \<open>A formatted detail is its format string and the values shown.\<close>

datatype breach_detail = Detail string "decimal list"

record limit_breach =
  lb_kind :: limit_kind
  lb_outcome :: limit_outcome
  lb_detail :: breach_detail

definition with_default_outcome :: "limit_kind \<Rightarrow> breach_detail \<Rightarrow> limit_breach" where
  "with_default_outcome k d = \<lparr>lb_kind = k, lb_outcome = default_outcome k, lb_detail = d\<rparr>"

definition valid_leverage :: "leverage \<Rightarrow> bool" where
  "valid_leverage l \<longleftrightarrow> 0 \<le> leverage_get l"

definition valid_fraction :: "fraction \<Rightarrow> bool" where
  "valid_fraction f \<longleftrightarrow> 0 \<le> fraction_get f \<and> fraction_get f \<le> 1"

lemma leverage_new_iff: "leverage_new v = Inr l \<longleftrightarrow> l = Leverage v \<and> valid_leverage l"
  by (auto simp: leverage_new_def valid_leverage_def)

lemma fraction_new_iff: "fraction_new v = Inr f \<longleftrightarrow> f = Fraction v \<and> valid_fraction f"
  by (auto simp: fraction_new_def valid_fraction_def)

lemma deserialized_caps_valid:
  "leverage_deserialize p = Inr l \<Longrightarrow> valid_leverage l"
  "fraction_deserialize p' = Inr f \<Longrightarrow> valid_fraction f"
  by (auto simp: leverage_deserialize_def fraction_deserialize_def leverage_new_iff fraction_new_iff
      split: sum.splits)

lemma limit_kind_str_inject: "limit_kind_str k = limit_kind_str k' \<longleftrightarrow> k = k'"
  by (cases k; cases k') simp_all

lemma with_default_outcome_simps [simp]:
  "lb_kind (with_default_outcome k d) = k"
  "lb_outcome (with_default_outcome k d) = default_outcome k"
  by (simp_all add: with_default_outcome_def)

lemma default_outcome_halt [simp]: "default_outcome k = HaltOrders \<longleftrightarrow> k = DrawdownCap"
  by (cases k) simp_all

lemma default_outcome_clamp [simp]: "default_outcome k = ClampOrder \<longleftrightarrow> k \<in> {MaxNotional, MaxLeverage}"
  by (cases k) simp_all

end
