(* ===== verification/Breaker.thy ===== *)
theory Breaker imports Risk_Limits begin

text \<open>
  The three-tier circuit breaker (crate \<open>qe-risk\<close>, \<open>breaker.rs\<close>): the all-time peak and its
  committed seed, the fast-drop window, and the replay the live layer must agree with. The smoothed
  mark that feeds it computes its coefficients in floating point and is not modelled. Differences
  and quotients of decimals that panic make \<open>observe\<close> answer \<open>None\<close>.
\<close>

section \<open>The breaker\<close>

datatype breaker_tier = Slow | Med | Fast

record breaker_thresholds =
  bt_slow_dd :: fraction
  bt_med_dd :: fraction
  bt_fast_drop :: fraction

record circuit_breaker =
  cb_thresholds :: breaker_thresholds
  cb_fast_window :: usize
  cb_peak :: "decimal option"
  cb_seed_peak :: "decimal option"
  cb_recent :: "decimal list"

definition breaker_new :: "breaker_thresholds \<Rightarrow> usize \<Rightarrow> circuit_breaker" where
  "breaker_new t w = \<lparr>cb_thresholds = t, cb_fast_window = max w 1, cb_peak = None,
     cb_seed_peak = None, cb_recent = []\<rparr>"

definition breaker_seed_peak :: "circuit_breaker \<Rightarrow> decimal \<Rightarrow> circuit_breaker" where
  "breaker_seed_peak b p = b\<lparr>cb_seed_peak := Some p, cb_peak := Some p\<rparr>"

definition breaker_with_seed_peak :: "circuit_breaker \<Rightarrow> decimal \<Rightarrow> circuit_breaker" where
  "breaker_with_seed_peak b p = breaker_seed_peak b p"

definition breaker_reset :: "circuit_breaker \<Rightarrow> circuit_breaker" where
  "breaker_reset b =
     (let b1 = b\<lparr>cb_recent := []\<rparr>
      in if cb_seed_peak b1 \<noteq> None then b1\<lparr>cb_seed_peak := cb_peak b1\<rparr> else b1\<lparr>cb_peak := None\<rparr>)"

text \<open>The \<open>while\<close> loop pops the front until at most \<open>fast_window + 1\<close> samples are left.\<close>

definition window_push :: "usize \<Rightarrow> decimal list \<Rightarrow> decimal \<Rightarrow> decimal list" where
  "window_push w recent e = (let xs = recent @ [e] in drop (length xs - u64_add w 1) xs)"

definition window_max :: "decimal list \<Rightarrow> decimal \<Rightarrow> decimal" where
  "window_max xs e = (if xs = [] then e else Max (set xs))"

text \<open>The drop from a reference level, as a fraction of it; zero when the level is not positive.\<close>

definition drop_from :: "dec_arith \<Rightarrow> decimal \<Rightarrow> decimal \<Rightarrow> decimal option" where
  "drop_from A level e =
     (if level > 0 then Option.bind (dec_sub A level e) (\<lambda>d. dec_div A d level) else Some 0)"

definition tier_of :: "breaker_thresholds \<Rightarrow> decimal \<Rightarrow> decimal \<Rightarrow> breaker_tier option" where
  "tier_of t fast_drop drawdown =
     (if fraction_get (bt_fast_drop t) > 0 \<and> fast_drop \<ge> fraction_get (bt_fast_drop t) then Some Fast
      else if drawdown \<ge> fraction_get (bt_med_dd t) then Some Med
      else if drawdown \<ge> fraction_get (bt_slow_dd t) then Some Slow
      else None)"

definition breaker_observe ::
  "dec_arith \<Rightarrow> circuit_breaker \<Rightarrow> decimal \<Rightarrow> (breaker_tier option \<times> circuit_breaker) option" where
  "breaker_observe A b e =
     (let recent = window_push (cb_fast_window b) (cb_recent b) e
      in do {
        fast_drop \<leftarrow> drop_from A (window_max recent e) e;
        let peak = (case cb_peak b of Some p \<Rightarrow> max p e | None \<Rightarrow> e);
        drawdown \<leftarrow> drop_from A peak e;
        Some (tier_of (cb_thresholds b) fast_drop drawdown, b\<lparr>cb_recent := recent, cb_peak := Some peak\<rparr>)
      })"

fun observe_all ::
  "dec_arith \<Rightarrow> circuit_breaker \<Rightarrow> decimal list \<Rightarrow> (breaker_tier option list \<times> circuit_breaker) option" where
  "observe_all A b [] = Some ([], b)"
| "observe_all A b (e # es) = do {
     (t, b') \<leftarrow> breaker_observe A b e;
     (ts, b'') \<leftarrow> observe_all A b' es;
     Some (t # ts, b'')
   }"

fun events_from :: "nat \<Rightarrow> breaker_tier option list \<Rightarrow> (nat \<times> breaker_tier) list" where
  "events_from i [] = []"
| "events_from i (t # ts) = (case t of Some tier \<Rightarrow> (i, tier) # events_from (Suc i) ts
                             | None \<Rightarrow> events_from (Suc i) ts)"

definition breaker_replay ::
  "dec_arith \<Rightarrow> breaker_thresholds \<Rightarrow> usize \<Rightarrow> decimal list \<Rightarrow> (nat \<times> breaker_tier) list option" where
  "breaker_replay A t w es =
     map_option (\<lambda>(ts, b). events_from 0 ts) (observe_all A (breaker_new t w) es)"

section \<open>The anchor\<close>

lemma breaker_observe_Some:
  assumes "breaker_observe A b e = Some (t, b')"
  shows "cb_peak b' = Some (case cb_peak b of Some p \<Rightarrow> max p e | None \<Rightarrow> e)"
    and "cb_seed_peak b' = cb_seed_peak b" and "cb_thresholds b' = cb_thresholds b"
    and "cb_fast_window b' = cb_fast_window b"
    and "cb_recent b' = window_push (cb_fast_window b) (cb_recent b) e"
    and "\<exists>fd dd. drop_from A (window_max (cb_recent b') e) e = Some fd \<and>
           drop_from A (the (cb_peak b')) e = Some dd \<and> t = tier_of (cb_thresholds b) fd dd"
  using assms by (auto simp: breaker_observe_def Let_def panic_simps)

text \<open>The all-time maximum of a starting anchor and a series.\<close>

fun running_peak :: "decimal option \<Rightarrow> decimal list \<Rightarrow> decimal option" where
  "running_peak p [] = p"
| "running_peak p (e # es) = running_peak (Some (case p of Some q \<Rightarrow> max q e | None \<Rightarrow> e)) es"

lemma running_peak_Some: "running_peak (Some p) es = Some (Max (insert p (set es)))"
proof (induction es arbitrary: p)
  case Nil
  then show ?case by simp
next
  case (Cons e es)
  have "Max (insert (max p e) (set es)) = Max (insert p (set (e # es)))"
  proof (cases "es = []")
    case False
    then show ?thesis by (simp add: max.assoc)
  qed simp
  with Cons show ?case by simp
qed

lemma running_peak_None: "es \<noteq> [] \<Longrightarrow> running_peak None es = Some (Max (set es))"
  by (cases es) (simp_all add: running_peak_Some)

lemma observe_all_peak:
  "observe_all A b es = Some (ts, b') \<Longrightarrow> cb_peak b' = running_peak (cb_peak b) es \<and>
     cb_seed_peak b' = cb_seed_peak b \<and> cb_thresholds b' = cb_thresholds b \<and>
     cb_fast_window b' = cb_fast_window b \<and> length ts = length es"
proof (induction es arbitrary: b ts)
  case Nil
  then show ?case by simp
next
  case (Cons e es)
  then obtain t b1 ts1 where s: "breaker_observe A b e = Some (t, b1)"
    and r: "observe_all A b1 es = Some (ts1, b')" "ts = t # ts1"
    by (auto simp: panic_simps)
  from Cons.IH [OF r(1)] breaker_observe_Some [OF s] r(2) show ?case
    by (auto split: option.splits)
qed

lemma observe_all_append:
  "observe_all A b (xs @ ys) = do {
     (ts, b') \<leftarrow> observe_all A b xs;
     (us, b'') \<leftarrow> observe_all A b' ys;
     Some (ts @ us, b'')
   }"
proof (induction xs arbitrary: b)
  case Nil
  show ?case by (cases "observe_all A b ys") auto
next
  case (Cons x xs)
  show ?case
    by (cases "breaker_observe A b x") (auto simp: Cons.IH bind_split split: Option.bind_splits prod.splits)
qed

lemma events_from_empty: "events_from i ts = [] \<longleftrightarrow> (\<forall>t \<in> set ts. t = None)"
  by (induction ts arbitrary: i) (auto split: option.splits)

text \<open>A seeded breaker's anchor never falls, over observations and resets alike.\<close>

datatype breaker_event = Tick decimal | Rollover

fun breaker_step :: "dec_arith \<Rightarrow> circuit_breaker \<Rightarrow> breaker_event \<Rightarrow> circuit_breaker option" where
  "breaker_step A b (Tick e) = map_option snd (breaker_observe A b e)"
| "breaker_step A b Rollover = Some (breaker_reset b)"

definition anchored_at :: "decimal \<Rightarrow> circuit_breaker \<Rightarrow> bool" where
  "anchored_at p b \<longleftrightarrow> cb_seed_peak b \<noteq> None \<and> (\<exists>q. cb_peak b = Some q \<and> p \<le> q)"

lemma breaker_step_anchored:
  assumes "anchored_at p b" "breaker_step A b ev = Some b'"
  shows "anchored_at p b'"
proof (cases ev)
  case (Tick e)
  with assms(2) obtain t where "breaker_observe A b e = Some (t, b')" by auto
  from breaker_observe_Some(1,2) [OF this] assms(1) show ?thesis
    by (auto simp: anchored_at_def)
next
  case Rollover
  with assms show ?thesis
    by (auto simp: anchored_at_def breaker_reset_def Let_def)
qed

interpretation seeded: latch "breaker_step A" "anchored_at p" for A p
  by unfold_locales (rule breaker_step_anchored)

text \<open>
  The drawdown a breaker measures is anchored at the true all-time maximum of its seed and
  every sample observed, never a trailing-window one: on a quiet tick the equity is above the slow
  and medium thresholds below that maximum, and a seeded anchor survives any mix of ticks and
  session resets.
\<close>

theorem breaker_anchor_is_all_time:
  assumes "observe_all A (breaker_seed_peak (breaker_new t w) p) (es @ [e]) = Some (ts, b)"
  shows "cb_peak b = Some (Max (insert p (set (es @ [e])))) \<and>
    (\<exists>fd dd. drop_from A (Max (insert p (set (es @ [e])))) e = Some dd \<and> last ts = tier_of t fd dd \<and>
       (last ts = None \<longrightarrow> dd < fraction_get (bt_slow_dd t) \<and> dd < fraction_get (bt_med_dd t))) \<and>
    (\<forall>evs b'. run_opt (breaker_step A) b evs = Some b' \<longrightarrow>
       (\<exists>q. cb_peak b' = Some q \<and> Max (insert p (set (es @ [e]))) \<le> q))"
proof -
  let ?b = "breaker_seed_peak (breaker_new t w) p"
  let ?m = "Max (insert p (set (es @ [e])))"
  from assms obtain ts1 b1 te where r: "observe_all A ?b es = Some (ts1, b1)"
    and s: "breaker_observe A b1 e = Some (te, b)" and ts: "ts = ts1 @ [te]"
    by (auto simp: observe_all_append panic_simps)
  have all: "cb_peak b = Some ?m" "cb_seed_peak b = Some p"
    using observe_all_peak [OF assms] by (simp_all add: breaker_seed_peak_def running_peak_Some)
  have "cb_thresholds b1 = t"
    using observe_all_peak [OF r] by (simp add: breaker_seed_peak_def breaker_new_def)
  with breaker_observe_Some(6) [OF s] all(1) ts obtain fd dd where
    d: "drop_from A ?m e = Some dd" "last ts = tier_of t fd dd" by auto
  moreover have "dd < fraction_get (bt_slow_dd t) \<and> dd < fraction_get (bt_med_dd t)"
    if "tier_of t fd dd = None"
    using that by (auto simp: tier_of_def not_le split: if_splits)
  ultimately have tier: "\<exists>fd dd. drop_from A ?m e = Some dd \<and> last ts = tier_of t fd dd \<and>
       (last ts = None \<longrightarrow> dd < fraction_get (bt_slow_dd t) \<and> dd < fraction_get (bt_med_dd t))"
    by metis
  have anchored: "anchored_at ?m b"
    unfolding anchored_at_def all by blast
  have "\<exists>q. cb_peak b' = Some q \<and> ?m \<le> q" if "run_opt (breaker_step A) b evs = Some b'" for evs b'
    using seeded.stays_latched [OF that anchored] unfolding anchored_at_def by blast
  with all(1) tier show ?thesis
    by blast
qed

theorem breaker_anchor_is_all_time_witness:
  "\<exists>ts b. observe_all (bounded_dec 1000)
      (breaker_seed_peak (breaker_new \<lparr>bt_slow_dd = Fraction (1/10), bt_med_dd = Fraction (1/2), bt_fast_drop = Fraction 1\<rparr> 1) 200)
      ([100] @ [150]) = Some (ts, b) \<and> cb_peak b = Some 200"
proof -
  let ?t = "\<lparr>bt_slow_dd = Fraction (1/10), bt_med_dd = Fraction (1/2), bt_fast_drop = Fraction 1\<rparr>"
  obtain ts b where run: "observe_all (bounded_dec 1000) (breaker_seed_peak (breaker_new ?t 1) 200) ([100] @ [150])
      = Some (ts, b)"
    by (simp add: breaker_seed_peak_def breaker_new_def breaker_observe_def window_push_def window_max_def
        u64_add_def drop_from_def bounded_dec_def Let_def)
  from breaker_anchor_is_all_time [OF run] run show ?thesis
    by auto
qed

end
