(* ===== verification/Byte_Codec.thy ===== *)
theory Byte_Codec imports Prelude begin

text \<open>
  Big-endian bytes (\<open>to_be_bytes\<close>, \<open>from_be_bytes\<close>), shared by the feature-vector codec and the
  storage keys: the round trip, and that the lexicographic order of equally long encodings is the
  numeric order. A byte is a \<open>nat\<close> below 256.
\<close>

type_synonym bytes = "nat list"

fun be_bytes :: "nat \<Rightarrow> nat \<Rightarrow> bytes" where
  "be_bytes 0 n = []"
| "be_bytes (Suc k) n = be_bytes k (n div 256) @ [n mod 256]"

definition from_be :: "bytes \<Rightarrow> nat" where
  "from_be bs = foldl (\<lambda>n b. 256 * n + b) 0 bs"

definition valid_bytes :: "bytes \<Rightarrow> bool" where
  "valid_bytes bs \<longleftrightarrow> (\<forall>b \<in> set bs. b < 256)"

lemma from_be_simps [simp]:
  "from_be [] = 0"
  "from_be (bs @ [b]) = 256 * from_be bs + b"
  by (simp_all add: from_be_def)

lemma be_bytes_length [simp]: "length (be_bytes k n) = k"
  by (induction k arbitrary: n) simp_all

lemma be_bytes_valid [simp]: "valid_bytes (be_bytes k n)"
  by (induction k arbitrary: n) (auto simp: valid_bytes_def)

lemma from_be_be_bytes [simp]: "from_be (be_bytes k n) = n mod 256 ^ k"
proof (induction k arbitrary: n)
  case 0
  then show ?case by simp
next
  case (Suc k)
  have "256 * (n div 256 mod 256 ^ k) + n mod 256 = n mod (256 * 256 ^ k)"
    by (simp add: mod_mult2_eq)
  then show ?case by (simp add: Suc)
qed

lemma be_bytes_inject:
  "m < 256 ^ k \<Longrightarrow> n < 256 ^ k \<Longrightarrow> be_bytes k m = be_bytes k n \<longleftrightarrow> m = n"
  by (metis from_be_be_bytes mod_less)

section \<open>Byte order\<close>

text \<open>The order LMDB compares keys in: lexicographic on bytes, a proper prefix first.\<close>

fun bytes_less :: "bytes \<Rightarrow> bytes \<Rightarrow> bool" where
  "bytes_less xs [] = False"
| "bytes_less [] (y # ys) = True"
| "bytes_less (x # xs) (y # ys) = (x < y \<or> (x = y \<and> bytes_less xs ys))"

lemma bytes_less_irrefl [simp]: "\<not> bytes_less xs xs"
  by (induction xs) simp_all

lemma bytes_less_prefix [simp]: "bytes_less (p @ xs) (p @ ys) = bytes_less xs ys"
  by (induction p) simp_all

lemma bytes_less_snoc:
  "length xs = length ys \<Longrightarrow>
     bytes_less (xs @ [x]) (ys @ [y]) \<longleftrightarrow> bytes_less xs ys \<or> (xs = ys \<and> x < y)"
  by (induction xs ys rule: list_induct2) auto

lemma div_mod_less:
  fixes m n :: nat
  shows "m < n \<longleftrightarrow> m div 256 < n div 256 \<or> (m div 256 = n div 256 \<and> m mod 256 < n mod 256)"
proof -
  have "m = 256 * (m div 256) + m mod 256" "n = 256 * (n div 256) + n mod 256"
    by simp_all
  moreover have "m mod 256 < 256" "n mod 256 < 256"
    by simp_all
  ultimately show ?thesis
    by linarith
qed

lemma be_bytes_less:
  assumes "m < 256 ^ k" "n < 256 ^ k"
  shows "bytes_less (be_bytes k m) (be_bytes k n) \<longleftrightarrow> m < n"
  using assms
proof (induction k arbitrary: m n)
  case 0
  then show ?case by simp
next
  case (Suc k)
  then have "m div 256 < 256 ^ k" "n div 256 < 256 ^ k"
    by (simp_all add: less_mult_imp_div_less mult.commute)
  note b = this
  have "bytes_less (be_bytes (Suc k) m) (be_bytes (Suc k) n) \<longleftrightarrow>
      m div 256 < n div 256 \<or> (m div 256 = n div 256 \<and> m mod 256 < n mod 256)"
    unfolding be_bytes.simps bytes_less_snoc [OF be_bytes_length [THEN trans, OF be_bytes_length [symmetric]]]
      Suc.IH [OF b] be_bytes_inject [OF b] ..
  then show ?case
    unfolding div_mod_less [of m n] .
qed

end
