(* ===== verification/Feature_Vector.thy ===== *)
theory Feature_Vector imports Byte_Codec begin

text \<open>
  Quantised indicator states and the feature-vector codec (\<open>qe-signal\<close>, \<open>indicator/quant.rs\<close> and
  \<open>feature.rs\<close>). The catalogue of indicators is a list of specs here; the
  indicators' own decimal formulas are in \<open>Price_Kernels\<close> and the identity hash is in \<open>Catalogue\<close>. A
  \<open>u16\<close> or \<open>u32\<close> is a \<open>nat\<close>, bounded where it matters.
\<close>

section \<open>Quantisers\<close>

datatype qstate = QState (qstate_index: nat)

datatype quantiser =
    Linear (lin_min: decimal) (lin_max: decimal) (lin_states: nat)
  | Bands (band_edges: "decimal list")

fun quantiser_states :: "quantiser \<Rightarrow> nat" where
  "quantiser_states (Linear lo hi n) = max n 1"
| "quantiser_states (Bands edges) = (length edges mod 65536 + 1) mod 65536"

text \<open>\<open>floor\<close> of a non-negative decimal that fits a \<open>u64\<close>, else the source's fallback 0.\<close>

definition floor_u64 :: "decimal \<Rightarrow> nat" where
  "floor_u64 x = (if 0 \<le> \<lfloor>x\<rfloor> \<and> \<lfloor>x\<rfloor> < int u64_modulus then nat \<lfloor>x\<rfloor> else 0)"

fun quantise :: "dec_arith \<Rightarrow> quantiser \<Rightarrow> decimal \<Rightarrow> qstate option" where
  "quantise A (Linear lo hi n) v =
     (let states = max n 1
      in if hi \<le> lo then Some (QState 0)
         else if v \<le> lo then Some (QState 0)
         else if v \<ge> hi then Some (QState (states - 1))
         else do {
           num \<leftarrow> dec_sub A v lo;
           den \<leftarrow> dec_sub A hi lo;
           frac \<leftarrow> dec_div A num den;
           scaled \<leftarrow> dec_mul A frac (of_nat states);
           Some (QState (min (floor_u64 scaled mod 65536) (states - 1)))
         })"
| "quantise A (Bands edges) v = Some (QState (length (filter (\<lambda>e. e < v) edges) mod 65536))"

lemma quantise_in_range:
  assumes "quantise A q v = Some s" and "case q of Bands edges \<Rightarrow> length edges < 65535 | _ \<Rightarrow> True"
  shows "qstate_index s < quantiser_states q"
proof (cases q)
  case (Linear lo hi n)
  then show ?thesis using assms(1) by (auto simp: Let_def panic_simps split: if_splits)
next
  case (Bands edges)
  have "length (filter (\<lambda>e. e < v) edges) < Suc (length edges)"
    by (rule le_less_trans [OF length_filter_le lessI])
  moreover from this have "length (filter (\<lambda>e. e < v) edges) mod 65536 = length (filter (\<lambda>e. e < v) edges)"
    using assms(2) Bands by (intro mod_less) simp
  ultimately show ?thesis using assms Bands by auto
qed

lemma bands_monotone:
  assumes "v \<le> w" "length edges < 65536"
    "quantise A (Bands edges) v = Some s" "quantise A (Bands edges) w = Some t"
  shows "qstate_index s \<le> qstate_index t"
proof -
  have "length (filter (\<lambda>e. e < v) edges) \<le> length (filter (\<lambda>e. e < w) edges)"
    using assms(1) by (induction edges) auto
  moreover have "length (filter (\<lambda>e. e < u) edges) mod 65536 = length (filter (\<lambda>e. e < u) edges)" for u
    using assms(2) by (intro mod_less le_less_trans [OF length_filter_le])
  ultimately show ?thesis using assms(3,4) by auto
qed

section \<open>Schema and vectors\<close>

record indicator_spec =
  spec_id :: string
  spec_lookback :: usize
  spec_num_states :: nat

record feature_schema =
  fs_ids :: "string list"
  fs_lookbacks :: "usize list"
  fs_version :: u32
  fs_num_states :: nat

definition schema_from_specs :: "u32 \<Rightarrow> indicator_spec list \<Rightarrow> feature_schema" where
  "schema_from_specs catalogue_version specs =
     foldl (\<lambda>sc sp. sc\<lparr>fs_num_states := spec_num_states sp, fs_ids := fs_ids sc @ [spec_id sp],
                      fs_lookbacks := fs_lookbacks sc @ [spec_lookback sp]\<rparr>)
       \<lparr>fs_ids = [], fs_lookbacks = [], fs_version = catalogue_version, fs_num_states = 0\<rparr> specs"

definition schema_len :: "feature_schema \<Rightarrow> usize" where
  "schema_len sc = length (fs_ids sc)"

definition schema_max_lookback :: "feature_schema \<Rightarrow> usize" where
  "schema_max_lookback sc = (if fs_lookbacks sc = [] then 0 else Max (set (fs_lookbacks sc)))"

record feature_vector =
  fv_time_ms :: i64
  fv_states :: "qstate option list"

definition fv_is_complete :: "feature_vector \<Rightarrow> bool" where
  "fv_is_complete v = list_all (\<lambda>s. s \<noteq> None) (fv_states v)"

section \<open>The codec\<close>

definition none_sentinel :: nat where "none_sentinel = 65535"

definition slot_code :: "qstate option \<Rightarrow> nat" where
  "slot_code s = (case s of None \<Rightarrow> none_sentinel | Some q \<Rightarrow> qstate_index q)"

definition slot_of_code :: "nat \<Rightarrow> qstate option" where
  "slot_of_code c = (if c = none_sentinel then None else Some (QState c))"

definition i64_bytes :: "i64 \<Rightarrow> bytes" where
  "i64_bytes x = be_bytes 8 (as_u64 x)"

definition i64_of_bytes :: "bytes \<Rightarrow> i64" where
  "i64_of_bytes bs = wrap_i64 (int (from_be bs))"

definition fv_to_bytes :: "feature_vector \<Rightarrow> feature_schema \<Rightarrow> bytes" where
  "fv_to_bytes v sc =
     (let width = length (fv_states v) mod 65536
      in be_bytes 4 (fs_version sc) @ be_bytes 2 (fs_num_states sc) @ be_bytes 2 width @
         i64_bytes (fv_time_ms v) @ concat (map (\<lambda>slot. be_bytes 2 (slot_code slot)) (fv_states v)))"

definition slice :: "bytes \<Rightarrow> nat \<Rightarrow> nat \<Rightarrow> bytes" where
  "slice bs i j = take (j - i) (drop i bs)"

definition fv_from_bytes :: "bytes \<Rightarrow> feature_schema \<Rightarrow> feature_vector option" where
  "fv_from_bytes bs sc =
     (let width = schema_len sc
      in if length bs \<noteq> 16 + width * 2 then None
         else
           (let version = from_be (slice bs 0 4); num_states = from_be (slice bs 4 6);
                stored_width = from_be (slice bs 6 8)
            in if version \<noteq> fs_version sc \<or> num_states \<noteq> fs_num_states sc \<or> stored_width \<noteq> width then None
               else Some \<lparr>fv_time_ms = i64_of_bytes (slice bs 8 16),
                          fv_states = map (\<lambda>i. slot_of_code (from_be (slice bs (16 + i * 2) (16 + i * 2 + 2))))
                                        [0..<width]\<rparr>))"

definition valid_schema :: "feature_schema \<Rightarrow> bool" where
  "valid_schema sc \<longleftrightarrow> fs_version sc < u32_modulus \<and> fs_num_states sc < 65536"

definition encodable :: "feature_vector \<Rightarrow> bool" where
  "encodable v \<longleftrightarrow> in_i64 (fv_time_ms v) \<and> length (fv_states v) < 65536 \<and>
     (\<forall>q. Some q \<in> set (fv_states v) \<longrightarrow> qstate_index q < none_sentinel)"

lemma i64_bytes_length [simp]: "length (i64_bytes x) = 8"
  by (simp add: i64_bytes_def)

lemma i64_bytes_round_trip [simp]: "in_i64 x \<Longrightarrow> i64_of_bytes (i64_bytes x) = x"
proof -
  assume x: "in_i64 x"
  have "int (as_u64 x mod 256 ^ 8) = x mod 18446744073709551616"
    by (simp add: as_u64_def nat_less_iff)
  then have "i64_of_bytes (i64_bytes x) = wrap_i64 (x mod 18446744073709551616)"
    by (simp add: i64_of_bytes_def i64_bytes_def)
  also have "\<dots> = wrap_i64 x"
    by (simp add: wrap_i64_def mod_simps)
  finally show ?thesis
    using x by (simp add: i64_simps)
qed

lemma slot_round_trip:
  "(case s of None \<Rightarrow> True | Some q \<Rightarrow> qstate_index q < none_sentinel) \<Longrightarrow>
     slot_of_code (slot_code s mod 65536) = s"
  by (cases s) (auto simp: slot_code_def slot_of_code_def none_sentinel_def)

lemma slice_concat_const:
  assumes "\<forall>x \<in> set xs. length (f x) = 2" "i < length xs" "length p = 16"
  shows "slice (p @ concat (map f xs)) (16 + i * 2) (16 + i * 2 + 2) = f (xs ! i)"
  using assms(1,2)
proof -
  have "drop (i * 2) (concat (map f xs)) = f (xs ! i) @ concat (map f (drop (Suc i) xs))"
    using assms(1,2)
  proof (induction xs arbitrary: i)
    case (Cons x xs)
    then show ?case by (cases i) simp_all
  qed simp
  moreover have "length (f (xs ! i)) = 2"
    using assms(1,2) by simp
  ultimately show ?thesis
    by (simp add: slice_def assms(3))
qed

lemma concat_const_length:
  "\<forall>x \<in> set xs. length (f x) = (2::nat) \<Longrightarrow> length (concat (map f xs)) = 2 * length xs"
  by (induction xs) auto

lemma slot_slice:
  assumes "length p = 16" "i < length ss"
  shows "from_be (slice (p @ concat (map (\<lambda>s. be_bytes 2 (slot_code s)) ss)) (16 + i * 2) (16 + i * 2 + 2))
    = slot_code (ss ! i) mod 65536"
  using slice_concat_const [of ss "\<lambda>s. be_bytes 2 (slot_code s)" i p] assms by simp

text \<open>
  For a vector whose width fits the header and whose state indices stay below the not-warm
  sentinel, decoding its bytes gives the vector back when the schema has the vector's width and
  the encoder's version and state count, and against any other schema the bytes are refused.
\<close>

theorem feature_codec_round_trip:
  assumes "encodable v" and "valid_schema sc" and "valid_schema sc'"
  shows "fv_from_bytes (fv_to_bytes v sc) sc' =
    (if schema_len sc' = length (fv_states v) \<and> fs_version sc' = fs_version sc \<and>
        fs_num_states sc' = fs_num_states sc then Some v else None)"
proof -
  let ?tail = "concat (map (\<lambda>slot. be_bytes 2 (slot_code slot)) (fv_states v))"
  let ?p = "be_bytes 4 (fs_version sc) @ be_bytes 2 (fs_num_states sc) @
    be_bytes 2 (length (fv_states v)) @ i64_bytes (fv_time_ms v)"
  have w: "length (fv_states v) < 65536" "in_i64 (fv_time_ms v)"
    using assms(1) by (simp_all add: encodable_def)
  have enc: "fv_to_bytes v sc = ?p @ ?tail"
    using w by (simp add: fv_to_bytes_def)
  have p: "length ?p = 16" by simp
  have len: "length (?p @ ?tail) = 16 + 2 * length (fv_states v)"
    by (simp add: concat_const_length)
  have hd: "slice (?p @ ?tail) 0 4 = be_bytes 4 (fs_version sc)"
    "slice (?p @ ?tail) 4 6 = be_bytes 2 (fs_num_states sc)"
    "slice (?p @ ?tail) 6 8 = be_bytes 2 (length (fv_states v))"
    "slice (?p @ ?tail) 8 16 = i64_bytes (fv_time_ms v)"
    by (simp_all add: slice_def)
  have sc: "fs_version sc mod 4294967296 = fs_version sc" "fs_num_states sc mod 65536 = fs_num_states sc"
    using assms(2) by (simp_all add: valid_schema_def)
  have slots: "map (\<lambda>i. slot_of_code (from_be (slice (?p @ ?tail) (16 + i * 2) (16 + i * 2 + 2))))
      [0..<length (fv_states v)] = fv_states v"
  proof (rule nth_equalityI)
    fix i assume "i < length (map (\<lambda>i. slot_of_code (from_be (slice (?p @ ?tail) (16 + i * 2) (16 + i * 2 + 2))))
      [0..<length (fv_states v)])"
    then have i: "i < length (fv_states v)" by simp
    have "qstate_index q < none_sentinel" if "fv_states v ! i = Some q" for q
      using assms(1) nth_mem [OF i] that unfolding encodable_def by metis
    then have "case fv_states v ! i of None \<Rightarrow> True | Some q \<Rightarrow> qstate_index q < none_sentinel"
      by (auto split: option.splits)
    then show "map (\<lambda>i. slot_of_code (from_be (slice (?p @ ?tail) (16 + i * 2) (16 + i * 2 + 2))))
      [0..<length (fv_states v)] ! i = fv_states v ! i"
      using slot_slice [OF p i] i by (simp add: slot_round_trip)
  qed simp
  show ?thesis
    unfolding fv_from_bytes_def enc len hd Let_def
    using sc w slots by auto
qed


theorem feature_codec_round_trip_witness:
  "let v = \<lparr>fv_time_ms = -5, fv_states = [Some (QState 3), None]\<rparr>;
       sc = \<lparr>fs_ids = [''rsi'', ''ema''], fs_lookbacks = [14, 20], fs_version = 7, fs_num_states = 5\<rparr>
   in fv_from_bytes (fv_to_bytes v sc) sc = Some v \<and>
      fv_from_bytes (fv_to_bytes v sc) (sc\<lparr>fs_version := 8\<rparr>) = None"
proof -
  let ?v = "\<lparr>fv_time_ms = -5, fv_states = [Some (QState 3), None]\<rparr>"
  let ?sc = "\<lparr>fs_ids = [''rsi'', ''ema''], fs_lookbacks = [14, 20], fs_version = 7, fs_num_states = 5\<rparr>"
  have "encodable ?v" "valid_schema ?sc" "valid_schema (?sc\<lparr>fs_version := 8\<rparr>)"
    by (auto simp: encodable_def valid_schema_def in_i64_def none_sentinel_def)
  then show ?thesis
    using feature_codec_round_trip [of ?v ?sc ?sc] feature_codec_round_trip [of ?v ?sc "?sc\<lparr>fs_version := 8\<rparr>"]
    by (simp add: schema_len_def)
qed

text \<open>A state index equal to the sentinel is read back as a slot that is not warm.\<close>

lemma sentinel_state_is_lost:
  "slot_of_code (from_be (be_bytes 2 (slot_code (Some (QState none_sentinel))))) = None"
  by (simp add: slot_code_def slot_of_code_def none_sentinel_def)

end
