(* ===== verification/Genome.thy ===== *)
theory Genome imports Feature_Vector Domain_Types begin

text \<open>
  Strategy genomes (\<open>qe-signal\<close>, \<open>genome.rs\<close>): band clauses over quantised states, k-of-n entry
  banks, the per-bar decision and the position bookkeeping that goes with it, the validity test
  and the repair operators rely on. The fixed arrays are lists, of length \<open>clauses_per_set\<close> in a
  well-formed genome; \<open>u16\<close> and \<open>u8\<close> fields are \<open>nat\<close>, with the casts and wraps of the source.
\<close>

section \<open>Rule banks\<close>

definition rep_version :: nat where "rep_version = 1"
definition clauses_per_set :: nat where "clauses_per_set = 4"
definition max_size_bps :: nat where "max_size_bps = 10000"

definition graded_strength_floor :: decimal where "graded_strength_floor = 1 / 2"

record clause =
  cl_enabled :: bool
  cl_feature :: nat
  cl_lo :: nat
  cl_hi :: nat

definition clause_satisfied :: "clause \<Rightarrow> feature_vector \<Rightarrow> bool" where
  "clause_satisfied c v =
     (if \<not> cl_enabled c then False
      else case get_opt (fv_states v) (cl_feature c) of
        Some (Some st) \<Rightarrow> cl_lo c \<le> qstate_index st \<and> qstate_index st \<le> cl_hi c
      | _ \<Rightarrow> False)"

record rule_set =
  rs_clauses :: "clause list"
  rs_min_satisfied :: nat

definition active_count :: "rule_set \<Rightarrow> nat" where
  "active_count r = length (filter cl_enabled (rs_clauses r))"

definition rule_fires :: "rule_set \<Rightarrow> feature_vector \<Rightarrow> bool" where
  "rule_fires r v =
     (let active = active_count r
      in if active = 0 then False
         else (let satisfied = length (filter (\<lambda>c. clause_satisfied c v) (rs_clauses r));
                   threshold = max 1 (min (rs_min_satisfied r) active)
               in satisfied \<ge> threshold))"

text \<open>The exact integers of the conviction, then their quotient in the decimal package.\<close>

definition clause_cap :: "clause \<Rightarrow> nat" where
  "clause_cap c = 1 + (cl_hi c - cl_lo c) div 2"

definition clause_contrib :: "clause \<Rightarrow> feature_vector \<Rightarrow> nat" where
  "clause_contrib c v =
     (if clause_satisfied c v
      then (case get_opt (fv_states v) (cl_feature c) of
              Some (Some st) \<Rightarrow> 1 + min (qstate_index st - cl_lo c) (cl_hi c - qstate_index st)
            | _ \<Rightarrow> 0)
      else 0)"

definition conviction_num :: "rule_set \<Rightarrow> feature_vector \<Rightarrow> nat" where
  "conviction_num r v = sum_list (map (\<lambda>c. clause_contrib c v) (filter cl_enabled (rs_clauses r)))"

definition conviction_den :: "rule_set \<Rightarrow> nat" where
  "conviction_den r = sum_list (map clause_cap (filter cl_enabled (rs_clauses r)))"

definition graded_conviction :: "dec_arith \<Rightarrow> rule_set \<Rightarrow> feature_vector \<Rightarrow> decimal option" where
  "graded_conviction A r v =
     (if conviction_den r = 0 then Some 0
      else dec_div A (of_nat (conviction_num r v)) (of_nat (conviction_den r)))"

section \<open>The genome and its decisions\<close>

record exit_params =
  ex_max_holding_bars :: nat
  ex_on_opposite :: bool

datatype risk_params = RiskParams (risk_size_bps: nat)

record position_state =
  pos_dir :: "direction option"
  pos_bars_held :: nat

definition position_flat :: position_state where
  "position_flat = \<lparr>pos_dir = None, pos_bars_held = 0\<rparr>"

definition position_held :: "direction \<Rightarrow> nat \<Rightarrow> position_state" where
  "position_held d n = \<lparr>pos_dir = Some d, pos_bars_held = n\<rparr>"

datatype decision = Hold | Enter direction | Exit

definition position_advance :: "position_state \<Rightarrow> decision \<Rightarrow> position_state" where
  "position_advance p d =
     (case d of
        Enter dir \<Rightarrow> position_held dir 0
      | Exit \<Rightarrow> position_flat
      | Hold \<Rightarrow> (case pos_dir p of
                 Some dir \<Rightarrow> position_held dir ((pos_bars_held p + 1) mod 65536)
               | None \<Rightarrow> position_flat))"

record genome =
  gn_version :: nat
  gn_long_entry :: rule_set
  gn_short_entry :: rule_set
  gn_exit :: exit_params
  gn_risk :: risk_params

definition genome_decide :: "genome \<Rightarrow> feature_vector \<Rightarrow> position_state \<Rightarrow> decision" where
  "genome_decide g v p =
     (case pos_dir p of
        None \<Rightarrow>
          (case (rule_fires (gn_long_entry g) v, rule_fires (gn_short_entry g) v) of
             (True, False) \<Rightarrow> Enter Long
           | (False, True) \<Rightarrow> Enter Short
           | _ \<Rightarrow> Hold)
      | Some dir \<Rightarrow>
          if pos_bars_held p \<ge> ex_max_holding_bars (gn_exit g) then Exit
          else if ex_on_opposite (gn_exit g) \<and>
                  rule_fires (case dir of Long \<Rightarrow> gn_short_entry g | Short \<Rightarrow> gn_long_entry g) v
          then Exit
          else Hold)"

definition entry_bank :: "genome \<Rightarrow> direction \<Rightarrow> rule_set" where
  "entry_bank g dir = (case dir of Long \<Rightarrow> gn_long_entry g | Short \<Rightarrow> gn_short_entry g)"

definition entry_conviction :: "dec_arith \<Rightarrow> genome \<Rightarrow> feature_vector \<Rightarrow> direction \<Rightarrow> decimal option" where
  "entry_conviction A g v dir = graded_conviction A (entry_bank g dir) v"

definition entry_strength :: "dec_arith \<Rightarrow> genome \<Rightarrow> feature_vector \<Rightarrow> direction \<Rightarrow> decimal option" where
  "entry_strength A g v dir =
     (let base = graded_strength_floor
      in do {
        rest \<leftarrow> dec_sub A 1 base;
        conv \<leftarrow> entry_conviction A g v dir;
        scaled \<leftarrow> dec_mul A rest conv;
        dec_add A base scaled
      })"

section \<open>Validity and repair\<close>

definition clause_in_domain :: "feature_schema \<Rightarrow> clause \<Rightarrow> bool" where
  "clause_in_domain sc c \<longleftrightarrow>
     \<not> (cl_feature c \<ge> schema_len sc \<or> cl_hi c \<ge> fs_num_states sc \<or> cl_lo c > cl_hi c)"

definition rule_set_valid :: "feature_schema \<Rightarrow> rule_set \<Rightarrow> bool" where
  "rule_set_valid sc r \<longleftrightarrow>
     1 \<le> rs_min_satisfied r \<and> rs_min_satisfied r \<le> clauses_per_set \<and>
     (schema_len sc = 0 \<or> list_all (clause_in_domain sc) (rs_clauses r))"

definition genome_is_valid :: "feature_schema \<Rightarrow> genome \<Rightarrow> bool" where
  "genome_is_valid sc g \<longleftrightarrow>
     1 \<le> risk_size_bps (gn_risk g) \<and> risk_size_bps (gn_risk g) \<le> max_size_bps \<and>
     ex_max_holding_bars (gn_exit g) \<noteq> 0 \<and>
     list_all (rule_set_valid sc) [gn_long_entry g, gn_short_entry g]"

definition repair_clause :: "nat \<Rightarrow> nat \<Rightarrow> clause \<Rightarrow> clause" where
  "repair_clause max_feature max_state c =
     (let c1 = (if cl_feature c > max_feature then c\<lparr>cl_feature := max_feature\<rparr> else c);
          c2 = (if cl_hi c1 > max_state then c1\<lparr>cl_hi := max_state\<rparr> else c1)
      in if cl_lo c2 > cl_hi c2 then c2\<lparr>cl_lo := cl_hi c2\<rparr> else c2)"

definition repair_set :: "feature_schema \<Rightarrow> rule_set \<Rightarrow> rule_set" where
  "repair_set sc r =
     (let max_feature = (schema_len sc - 1) mod 65536; max_state = fs_num_states sc - 1;
          r1 = r\<lparr>rs_min_satisfied := max 1 (min (rs_min_satisfied r) clauses_per_set)\<rparr>
      in if schema_len sc = 0 then r1
         else r1\<lparr>rs_clauses := map (repair_clause max_feature max_state) (rs_clauses r1)\<rparr>)"

definition genome_repair :: "feature_schema \<Rightarrow> genome \<Rightarrow> genome" where
  "genome_repair sc g =
     g\<lparr>gn_version := rep_version,
       gn_risk := RiskParams (max 1 (min (risk_size_bps (gn_risk g)) max_size_bps)),
       gn_exit := (gn_exit g)\<lparr>ex_max_holding_bars := max (ex_max_holding_bars (gn_exit g)) 1\<rparr>,
       gn_long_entry := repair_set sc (gn_long_entry g),
       gn_short_entry := repair_set sc (gn_short_entry g)\<rparr>"

definition referenced_features :: "genome \<Rightarrow> nat set" where
  "referenced_features g =
     set (map cl_feature (filter cl_enabled (rs_clauses (gn_long_entry g) @ rs_clauses (gn_short_entry g))))"

definition mdl_complexity :: "genome \<Rightarrow> nat" where
  "mdl_complexity g =
     active_count (gn_long_entry g) + active_count (gn_short_entry g) + card (referenced_features g)"

section \<open>Lemmas\<close>

lemma clause_satisfied_enabled: "clause_satisfied c v \<Longrightarrow> cl_enabled c"
  by (simp add: clause_satisfied_def split: if_splits)

lemma clause_contrib_bounds:
  "clause_contrib c v \<le> clause_cap c"
  "clause_satisfied c v \<Longrightarrow> 1 \<le> clause_contrib c v"
  by (auto simp: clause_contrib_def clause_cap_def clause_satisfied_def split: option.splits if_splits)

lemma conviction_le: "conviction_num r v \<le> conviction_den r"
  unfolding conviction_num_def conviction_den_def
  by (intro sum_list_mono) (rule clause_contrib_bounds)

lemma rule_fires_satisfied: "rule_fires r v \<Longrightarrow> \<exists>c \<in> set (rs_clauses r). clause_satisfied c v"
proof -
  assume "rule_fires r v"
  then have "1 \<le> length (filter (\<lambda>c. clause_satisfied c v) (rs_clauses r))"
    by (auto simp: rule_fires_def Let_def split: if_splits)
  then have "filter (\<lambda>c. clause_satisfied c v) (rs_clauses r) \<noteq> []" by auto
  then show ?thesis by (simp add: filter_empty_conv)
qed

lemma rule_fires_conviction: "rule_fires r v \<Longrightarrow> 0 < conviction_num r v"
proof -
  assume "rule_fires r v"
  then obtain c where c: "c \<in> set (rs_clauses r)" "clause_satisfied c v"
    using rule_fires_satisfied by blast
  then have "clause_contrib c v \<in> set (map (\<lambda>c. clause_contrib c v) (filter cl_enabled (rs_clauses r)))"
    using clause_satisfied_enabled by auto
  then have "clause_contrib c v \<le> conviction_num r v"
    unfolding conviction_num_def by (rule member_le_sum_list) simp
  then show ?thesis
    using clause_contrib_bounds(2) [OF c(2)] by simp
qed

lemma no_active_never_fires: "active_count r = 0 \<Longrightarrow> \<not> rule_fires r v"
  by (simp add: rule_fires_def)

lemma repair_clause_in_domain:
  "schema_len sc \<noteq> 0 \<Longrightarrow> fs_num_states sc \<noteq> 0 \<Longrightarrow>
     clause_in_domain sc (repair_clause ((schema_len sc - 1) mod 65536) (fs_num_states sc - 1) c)"
proof -
  assume sc: "schema_len sc \<noteq> 0" "fs_num_states sc \<noteq> 0"
  have "(schema_len sc - 1) mod 65536 \<le> schema_len sc - 1" by simp
  then have m: "(schema_len sc - 1) mod 65536 < schema_len sc" using sc(1) by linarith
  show ?thesis
    using sc m by (auto simp: repair_clause_def clause_in_domain_def Let_def)
qed

lemma repair_clause_id:
  "clause_in_domain sc c \<Longrightarrow> repair_clause (schema_len sc - Suc 0) (fs_num_states sc - Suc 0) c = c"
  by (auto simp: repair_clause_def clause_in_domain_def Let_def)

lemma repair_clause_idem:
  "repair_clause m n (repair_clause m n c) = repair_clause m n c"
  by (auto simp: repair_clause_def Let_def)

lemma repair_set_valid: "fs_num_states sc \<noteq> 0 \<Longrightarrow> rule_set_valid sc (repair_set sc r)"
  by (auto simp: rule_set_valid_def repair_set_def Let_def clauses_per_set_def list_all_iff
      intro: repair_clause_in_domain [simplified])

lemma repair_set_idem: "repair_set sc (repair_set sc r) = repair_set sc r"
  by (simp add: repair_set_def Let_def clauses_per_set_def repair_clause_idem comp_def)

lemma repair_set_id:
  "rule_set_valid sc r \<Longrightarrow> schema_len sc \<le> 65536 \<Longrightarrow> repair_set sc r = r"
  by (cases r) (auto simp: repair_set_def rule_set_valid_def Let_def list_all_iff repair_clause_id
      intro!: map_idI)


section \<open>Trading with a genome\<close>

text \<open>One bar: decide, then advance the position with that decision, as backtest and live both do.\<close>

fun genome_run :: "genome \<Rightarrow> position_state \<Rightarrow> feature_vector list \<Rightarrow> decision list \<times> position_state" where
  "genome_run g p [] = ([], p)"
| "genome_run g p (v # vs) =
     (let d = genome_decide g v p; (ds, p') = genome_run g (position_advance p d) vs in (d # ds, p'))"

definition position_inv :: "genome \<Rightarrow> position_state \<Rightarrow> bool" where
  "position_inv g p \<longleftrightarrow>
     (case pos_dir p of None \<Rightarrow> pos_bars_held p = 0
      | Some d \<Rightarrow> pos_bars_held p \<le> ex_max_holding_bars (gn_exit g))"

lemma decide_flat: "pos_dir p = None \<Longrightarrow> genome_decide g v p \<noteq> Exit"
  by (auto simp: genome_decide_def split: bool.splits)

lemma decide_held: "pos_dir p = Some dir \<Longrightarrow> genome_decide g v p \<in> {Hold, Exit}"
  by (auto simp: genome_decide_def)

lemma decide_hold_bound:
  "pos_dir p = Some dir \<Longrightarrow> genome_decide g v p = Hold \<Longrightarrow>
     pos_bars_held p < ex_max_holding_bars (gn_exit g)"
  by (auto simp: genome_decide_def split: if_splits)

lemma advance_inv:
  assumes "position_inv g p" "ex_max_holding_bars (gn_exit g) < 65536"
  shows "position_inv g (position_advance p (genome_decide g v p))"
proof (cases "pos_dir p")
  case None
  then show ?thesis
    by (auto simp: position_inv_def position_advance_def position_flat_def position_held_def
        split: decision.splits)
next
  case (Some dir)
  show ?thesis
  proof (cases "genome_decide g v p")
    case Hold
    with decide_hold_bound [OF Some this] assms(2) Some show ?thesis
      by (simp add: position_inv_def position_advance_def position_held_def)
  next
    case Exit
    then show ?thesis by (simp add: position_inv_def position_advance_def position_flat_def)
  next
    case (Enter d)
    then show ?thesis using decide_held [OF Some, of g v] by simp
  qed
qed

lemma genome_run_inv:
  "position_inv g p \<Longrightarrow> ex_max_holding_bars (gn_exit g) < 65536 \<Longrightarrow> position_inv g (snd (genome_run g p vs))"
  by (induction vs arbitrary: p) (auto simp: Let_def split_beta intro: advance_inv)

lemma held_exits:
  assumes "pos_dir p = Some dir" "position_inv g p" "ex_max_holding_bars (gn_exit g) < 65536"
    and "ex_max_holding_bars (gn_exit g) - pos_bars_held p < length vs"
  shows "Exit \<in> set (fst (genome_run g p vs))"
  using assms
proof (induction vs arbitrary: p)
  case Nil
  then show ?case by simp
next
  case (Cons v vs)
  show ?case
  proof (cases "genome_decide g v p")
    case Hold
    let ?p = "position_advance p (genome_decide g v p)"
    note h = decide_hold_bound [OF Cons.prems(1) Hold]
    have p: "?p = position_held dir (pos_bars_held p + 1)"
      using Hold Cons.prems(1,3) h by (simp add: position_advance_def)
    have "position_inv g ?p"
      by (rule advance_inv) (use Cons.prems in auto)
    then have "Exit \<in> set (fst (genome_run g ?p vs))"
      by (rule Cons.IH [rotated]) (use Cons.prems(3,4) h in \<open>simp_all add: p position_held_def\<close>)
    then show ?thesis by (simp add: Let_def split_beta)
  next
    case Exit
    then show ?thesis by (simp add: Let_def split_beta)
  next
    case (Enter d)
    then show ?thesis using decide_held [OF Cons.prems(1), of g v] by simp
  qed
qed

text \<open>
  Repair puts any well-formed genome onto the validity manifold of a catalogue that has
  states, repairing twice is repairing once, and a genome that is already valid keeps every gene
  apart from its version stamp.
\<close>

theorem genome_repair_correct:
  assumes "fs_num_states sc \<noteq> 0"
  shows "genome_is_valid sc (genome_repair sc g) \<and>
    genome_repair sc (genome_repair sc g) = genome_repair sc g \<and>
    (genome_is_valid sc g \<and> schema_len sc \<le> 65536 \<longrightarrow> genome_repair sc g = g\<lparr>gn_version := rep_version\<rparr>)"
proof -
  have "genome_is_valid sc (genome_repair sc g)"
    using assms by (auto simp: genome_is_valid_def genome_repair_def max_size_bps_def repair_set_valid)
  moreover have "genome_repair sc (genome_repair sc g) = genome_repair sc g"
    by (simp add: genome_repair_def repair_set_idem max_size_bps_def)
  moreover have "genome_repair sc g = g\<lparr>gn_version := rep_version\<rparr>"
    if "genome_is_valid sc g" "schema_len sc \<le> 65536"
    using that by (cases g) (auto simp: genome_is_valid_def genome_repair_def repair_set_id max_def
        intro!: exit_params.equality risk_params.expand)
  ultimately show ?thesis by blast
qed

theorem genome_repair_correct_witness:
  "genome_is_valid \<lparr>fs_ids = [''rsi'', ''ema''], fs_lookbacks = [14, 20], fs_version = 1, fs_num_states = 5\<rparr>
     (genome_repair \<lparr>fs_ids = [''rsi'', ''ema''], fs_lookbacks = [14, 20], fs_version = 1, fs_num_states = 5\<rparr>
       \<lparr>gn_version = 9,
        gn_long_entry = \<lparr>rs_clauses = [\<lparr>cl_enabled = True, cl_feature = 9, cl_lo = 8, cl_hi = 7\<rparr>], rs_min_satisfied = 0\<rparr>,
        gn_short_entry = \<lparr>rs_clauses = [], rs_min_satisfied = 99\<rparr>,
        gn_exit = \<lparr>ex_max_holding_bars = 0, ex_on_opposite = True\<rparr>, gn_risk = RiskParams 60000\<rparr>)"
  by (rule genome_repair_correct [THEN conjunct1]) simp

text \<open>
  The holding cap is hard: trading any bars from flat, the held count never passes the cap and
  so never wraps its 16 bits, and a position held now is exited within the bars the cap leaves,
  whatever the features do.
\<close>

theorem holding_cap_is_hard:
  assumes "ex_max_holding_bars (gn_exit g) < 65536" and "snd (genome_run g position_flat vs) = p"
    and "pos_dir p = Some dir" and "ex_max_holding_bars (gn_exit g) - pos_bars_held p < length ws"
  shows "pos_bars_held p \<le> ex_max_holding_bars (gn_exit g) \<and> Exit \<in> set (fst (genome_run g p ws))"
proof -
  have "position_inv g position_flat"
    by (simp add: position_inv_def position_flat_def)
  from genome_run_inv [OF this assms(1), of vs] have inv: "position_inv g p"
    unfolding assms(2) .
  then have "pos_bars_held p \<le> ex_max_holding_bars (gn_exit g)"
    using assms(3) by (simp add: position_inv_def)
  with held_exits [OF assms(3) inv assms(1,4)] show ?thesis by blast
qed

theorem holding_cap_is_hard_witness:
  "let r = \<lparr>rs_clauses = [\<lparr>cl_enabled = True, cl_feature = 0, cl_lo = 1, cl_hi = 3\<rparr>], rs_min_satisfied = 1\<rparr>;
       g = \<lparr>gn_version = 1, gn_long_entry = r, gn_short_entry = \<lparr>rs_clauses = [], rs_min_satisfied = 1\<rparr>,
            gn_exit = \<lparr>ex_max_holding_bars = 2, ex_on_opposite = False\<rparr>, gn_risk = RiskParams 100\<rparr>;
       v = \<lparr>fv_time_ms = 0, fv_states = [Some (QState 2)]\<rparr>
   in pos_bars_held (snd (genome_run g position_flat [v, v])) \<le> 2 \<and>
      Exit \<in> set (fst (genome_run g (snd (genome_run g position_flat [v, v])) [v, v]))"
proof -
  let ?r = "\<lparr>rs_clauses = [\<lparr>cl_enabled = True, cl_feature = 0, cl_lo = 1, cl_hi = 3\<rparr>], rs_min_satisfied = 1\<rparr>"
  let ?g = "\<lparr>gn_version = 1, gn_long_entry = ?r, gn_short_entry = \<lparr>rs_clauses = [], rs_min_satisfied = 1\<rparr>,
            gn_exit = \<lparr>ex_max_holding_bars = 2, ex_on_opposite = False\<rparr>, gn_risk = RiskParams 100\<rparr>"
  let ?v = "\<lparr>fv_time_ms = 0, fv_states = [Some (QState 2)]\<rparr>"
  have p: "snd (genome_run ?g position_flat [?v, ?v]) = position_held Long 1"
    by (simp add: genome_decide_def rule_fires_def active_count_def clause_satisfied_def get_opt_def
        position_advance_def position_flat_def position_held_def Let_def)
  show ?thesis
    using holding_cap_is_hard [of ?g "[?v, ?v]" _ Long "[?v, ?v]", OF _ p]
    unfolding Let_def p by (simp add: position_held_def)
qed

text \<open>
  A bank that fires has a strictly positive conviction and no bank's conviction exceeds one:
  the exact integers whose quotient it is satisfy 0 < num <= den, and a bank with no enabled
  clause neither fires nor has any.
\<close>

theorem conviction_is_graded:
  "conviction_num r v \<le> conviction_den r \<and>
   (rule_fires r v \<longrightarrow> 0 < conviction_num r v \<and>
      graded_conviction A r v = dec_div A (of_nat (conviction_num r v)) (of_nat (conviction_den r))) \<and>
   (active_count r = 0 \<longrightarrow> \<not> rule_fires r v \<and> graded_conviction A r v = Some 0)"
proof -
  have "conviction_den r \<noteq> 0" if "rule_fires r v"
    using rule_fires_conviction [OF that] conviction_le [of r v] by linarith
  moreover have "conviction_den r = 0" if "active_count r = 0"
    using that by (simp add: conviction_den_def active_count_def)
  ultimately show ?thesis
    using conviction_le rule_fires_conviction no_active_never_fires by (auto simp: graded_conviction_def)
qed

theorem conviction_is_graded_witness:
  "rule_fires \<lparr>rs_clauses = [\<lparr>cl_enabled = True, cl_feature = 0, cl_lo = 1, cl_hi = 3\<rparr>], rs_min_satisfied = 1\<rparr>
     \<lparr>fv_time_ms = 0, fv_states = [Some (QState 2)]\<rparr> \<and>
   0 < conviction_num \<lparr>rs_clauses = [\<lparr>cl_enabled = True, cl_feature = 0, cl_lo = 1, cl_hi = 3\<rparr>], rs_min_satisfied = 1\<rparr>
     \<lparr>fv_time_ms = 0, fv_states = [Some (QState 2)]\<rparr>"
proof -
  let ?r = "\<lparr>rs_clauses = [\<lparr>cl_enabled = True, cl_feature = 0, cl_lo = 1, cl_hi = 3\<rparr>], rs_min_satisfied = 1\<rparr>"
  let ?v = "\<lparr>fv_time_ms = 0, fv_states = [Some (QState 2)]\<rparr>"
  have "rule_fires ?r ?v"
    by (simp add: rule_fires_def active_count_def clause_satisfied_def get_opt_def)
  with conviction_is_graded [of ?r ?v "bounded_dec 1"] show ?thesis by blast
qed

end
