(* ===== verification/Evaluator.thy ===== *)
theory Evaluator imports Genome Money_Bars begin

text \<open>
  From live bars to per-chromosome decisions: the feature assembler over the catalogue
  (\<open>qe-signal\<close>, \<open>feature.rs\<close>), the live as-of join (\<open>qe-hedger\<close>, \<open>factor_join.rs\<close>) and the
  evaluator session (\<open>evaluator.rs\<close>). The catalogue holds trait objects; an indicator is a state
  \<open>'i\<close> with the trait's \<open>update\<close> and \<open>reset\<close>, for any implementation.
\<close>

section \<open>The assembler\<close>

record sample =
  smp_bar :: bar
  smp_funding :: "decimal option"
  smp_open_interest :: "decimal option"
  smp_premium :: "decimal option"

record 'i indicator_impl =
  ind_update :: "'i \<Rightarrow> sample \<Rightarrow> qstate option \<times> 'i"
  ind_reset :: "'i \<Rightarrow> 'i"

type_synonym 'i catalogue = "'i list"

definition assembler_push :: "'i indicator_impl \<Rightarrow> 'i catalogue \<Rightarrow> sample \<Rightarrow> feature_vector \<times> 'i catalogue" where
  "assembler_push I cat s =
     (\<lparr>fv_time_ms = bar_open_time (smp_bar s), fv_states = map (\<lambda>i. fst (ind_update I i s)) cat\<rparr>,
      map (\<lambda>i. snd (ind_update I i s)) cat)"

definition assembler_reset :: "'i indicator_impl \<Rightarrow> 'i catalogue \<Rightarrow> 'i catalogue" where
  "assembler_reset I cat = map (ind_reset I) cat"

fun assemble_batch :: "'i indicator_impl \<Rightarrow> 'i catalogue \<Rightarrow> sample list \<Rightarrow> feature_vector list" where
  "assemble_batch I cat [] = []"
| "assemble_batch I cat (s # ss) =
     (let (v, cat') = assembler_push I cat s in v # assemble_batch I cat' ss)"

section \<open>The live join\<close>

record 'i factor_join =
  fj_assembler :: "'i catalogue"
  fj_funding :: "decimal option"
  fj_open_interest :: "decimal option"
  fj_premium :: "decimal option"

definition join_new :: "'i catalogue \<Rightarrow> 'i factor_join" where
  "join_new cat = \<lparr>fj_assembler = cat, fj_funding = None, fj_open_interest = None, fj_premium = None\<rparr>"

definition join_observe_funding :: "'i factor_join \<Rightarrow> decimal \<Rightarrow> 'i factor_join" where
  "join_observe_funding j v = j\<lparr>fj_funding := Some v\<rparr>"

definition join_observe_open_interest :: "'i factor_join \<Rightarrow> decimal \<Rightarrow> 'i factor_join" where
  "join_observe_open_interest j v = j\<lparr>fj_open_interest := Some v\<rparr>"

definition join_observe_premium :: "'i factor_join \<Rightarrow> decimal \<Rightarrow> 'i factor_join" where
  "join_observe_premium j v = j\<lparr>fj_premium := Some v\<rparr>"

definition join_on_bar :: "'i indicator_impl \<Rightarrow> 'i factor_join \<Rightarrow> bar \<Rightarrow> feature_vector \<times> 'i factor_join" where
  "join_on_bar I j b =
     (let s = \<lparr>smp_bar = b, smp_funding = fj_funding j, smp_open_interest = fj_open_interest j,
               smp_premium = fj_premium j\<rparr>;
          (v, cat) = assembler_push I (fj_assembler j) s
      in (v, j\<lparr>fj_assembler := cat\<rparr>))"

definition join_reset :: "'i indicator_impl \<Rightarrow> 'i factor_join \<Rightarrow> 'i factor_join" where
  "join_reset I j = j\<lparr>fj_assembler := assembler_reset I (fj_assembler j), fj_funding := None,
     fj_open_interest := None, fj_premium := None\<rparr>"

text \<open>The time-ordered stream a session is fed, each context value with its timestamp.\<close>

datatype market_event = Funding timestamp decimal | OpenInterest timestamp decimal
  | Premium timestamp decimal | BarClosed bar

fun event_time :: "market_event \<Rightarrow> timestamp" where
  "event_time (Funding t v) = t"
| "event_time (OpenInterest t v) = t"
| "event_time (Premium t v) = t"
| "event_time (BarClosed b) = bar_open_time b"

fun join_run :: "'i indicator_impl \<Rightarrow> 'i factor_join \<Rightarrow> market_event list \<Rightarrow> feature_vector list" where
  "join_run I j [] = []"
| "join_run I j (Funding t v # es) = join_run I (join_observe_funding j v) es"
| "join_run I j (OpenInterest t v # es) = join_run I (join_observe_open_interest j v) es"
| "join_run I j (Premium t v # es) = join_run I (join_observe_premium j v) es"
| "join_run I j (BarClosed b # es) =
     (let (fv, j') = join_on_bar I j b in fv # join_run I j' es)"

text \<open>
  The specification: the offline as-of join pairs each bar with the last context value of each
  kind whose timestamp is at most the bar's open time, looking at the whole history.
\<close>

fun funding_obs :: "market_event \<Rightarrow> (timestamp \<times> decimal) option" where
  "funding_obs (Funding t v) = Some (t, v)" | "funding_obs _ = None"

fun open_interest_obs :: "market_event \<Rightarrow> (timestamp \<times> decimal) option" where
  "open_interest_obs (OpenInterest t v) = Some (t, v)" | "open_interest_obs _ = None"

fun premium_obs :: "market_event \<Rightarrow> (timestamp \<times> decimal) option" where
  "premium_obs (Premium t v) = Some (t, v)" | "premium_obs _ = None"

definition as_of :: "(market_event \<Rightarrow> (timestamp \<times> decimal) option) \<Rightarrow> market_event list \<Rightarrow> timestamp \<Rightarrow> decimal option" where
  "as_of obs es t = last_opt (map snd (filter (\<lambda>(u, v). u \<le> t) (List.map_filter obs es)))"

definition as_of_sample :: "market_event list \<Rightarrow> bar \<Rightarrow> sample" where
  "as_of_sample es b = \<lparr>smp_bar = b, smp_funding = as_of funding_obs es (bar_open_time b),
     smp_open_interest = as_of open_interest_obs es (bar_open_time b),
     smp_premium = as_of premium_obs es (bar_open_time b)\<rparr>"

definition bars_of :: "market_event list \<Rightarrow> bar list" where
  "bars_of es = List.map_filter (\<lambda>e. case e of BarClosed b \<Rightarrow> Some b | _ \<Rightarrow> None) es"

text \<open>In order, with the context of an instant before the bar that opens at it.\<close>

fun is_bar :: "market_event \<Rightarrow> bool" where
  "is_bar (BarClosed b) = True" | "is_bar _ = False"

definition in_feed_order :: "market_event list \<Rightarrow> bool" where
  "in_feed_order es \<longleftrightarrow>
     (\<forall>i j. i < j \<longrightarrow> j < length es \<longrightarrow> event_time (es ! i) \<le> event_time (es ! j) \<and>
        (is_bar (es ! i) \<and> \<not> is_bar (es ! j) \<longrightarrow> event_time (es ! i) < event_time (es ! j)))"

lemma in_feed_order_split:
  assumes "in_feed_order (pre @ BarClosed b # post)"
  shows "\<forall>e \<in> set pre. event_time e \<le> bar_open_time b"
    and "\<forall>e \<in> set post. \<not> is_bar e \<longrightarrow> bar_open_time b < event_time e"
proof -
  show "\<forall>e \<in> set pre. event_time e \<le> bar_open_time b"
  proof
    fix e assume "e \<in> set pre"
    then obtain i where i: "i < length pre" "pre ! i = e" by (auto simp: in_set_conv_nth)
    with assms [unfolded in_feed_order_def, rule_format, of i "length pre"] show "event_time e \<le> bar_open_time b"
      by (simp add: nth_append)
  qed
  show "\<forall>e \<in> set post. \<not> is_bar e \<longrightarrow> bar_open_time b < event_time e"
  proof (intro ballI impI)
    fix e assume "e \<in> set post" "\<not> is_bar e"
    then obtain i where i: "i < length post" "post ! i = e" by (auto simp: in_set_conv_nth)
    with assms [unfolded in_feed_order_def, rule_format, of "length pre" "length pre + 1 + i"] \<open>\<not> is_bar e\<close>
    show "bar_open_time b < event_time e"
      by (simp add: nth_append)
  qed
qed


definition latest :: "(market_event \<Rightarrow> (timestamp \<times> decimal) option) \<Rightarrow> market_event list \<Rightarrow> decimal option" where
  "latest obs pre = last_opt (map snd (List.map_filter obs pre))"

lemma latest_simps [simp]:
  "latest obs [] = None"
  "latest obs (pre @ [e]) = (case obs e of Some (t, v) \<Rightarrow> Some v | None \<Rightarrow> latest obs pre)"
  by (auto simp: latest_def List.map_filter_def split: option.splits)

definition timed_obs :: "(market_event \<Rightarrow> (timestamp \<times> decimal) option) \<Rightarrow> bool" where
  "timed_obs obs \<longleftrightarrow> (\<forall>e t v. obs e = Some (t, v) \<longrightarrow> t = event_time e \<and> \<not> is_bar e)"

lemma timed_obs [simp]: "timed_obs funding_obs" "timed_obs open_interest_obs" "timed_obs premium_obs"
  by (auto simp: timed_obs_def elim!: funding_obs.elims open_interest_obs.elims premium_obs.elims)

lemma obs_of_bar [simp]:
  "funding_obs (BarClosed b) = None" "open_interest_obs (BarClosed b) = None" "premium_obs (BarClosed b) = None"
  by simp_all

lemma as_of_latest:
  assumes "in_feed_order (pre @ BarClosed b # post)" "timed_obs obs"
  shows "as_of obs (pre @ BarClosed b # post) (bar_open_time b) = latest obs pre"
proof -
  have none: "obs (BarClosed b) = None"
    using assms(2) unfolding timed_obs_def by (metis is_bar.simps(1) not_None_eq surj_pair)
  have "filter (\<lambda>(u, v). u \<le> bar_open_time b) (List.map_filter obs pre) = List.map_filter obs pre"
    using in_feed_order_split(1) [OF assms(1)] assms(2)
    by (auto simp: filter_id_conv List.map_filter_def timed_obs_def)
  moreover have "filter (\<lambda>(u, v). u \<le> bar_open_time b) (List.map_filter obs post) = []"
    using in_feed_order_split(2) [OF assms(1)] assms(2)
    by (fastforce simp: filter_empty_conv List.map_filter_def timed_obs_def)
  ultimately show ?thesis
    by (simp add: as_of_def latest_def none List.map_filter_def)
qed

lemma join_run_as_of:
  assumes "in_feed_order (pre @ rest)"
    and "fj_funding j = latest funding_obs pre" "fj_open_interest j = latest open_interest_obs pre"
    and "fj_premium j = latest premium_obs pre"
  shows "join_run I j rest =
    assemble_batch I (fj_assembler j) (map (as_of_sample (pre @ rest)) (bars_of rest))"
  using assms
proof (induction rest arbitrary: pre j)
  case Nil
  then show ?case by (simp add: bars_of_def List.map_filter_def)
next
  case (Cons e rest)
  have shift: "in_feed_order ((pre @ [e]) @ rest)" using Cons.prems(1) by simp
  show ?case
  proof (cases e)
    case (Funding t v)
    with Cons.IH [OF shift, of "join_observe_funding j v"] Cons.prems show ?thesis
      by (simp add: join_observe_funding_def bars_of_def List.map_filter_def)
  next
    case (OpenInterest t v)
    with Cons.IH [OF shift, of "join_observe_open_interest j v"] Cons.prems show ?thesis
      by (simp add: join_observe_open_interest_def bars_of_def List.map_filter_def)
  next
    case (Premium t v)
    with Cons.IH [OF shift, of "join_observe_premium j v"] Cons.prems show ?thesis
      by (simp add: join_observe_premium_def bars_of_def List.map_filter_def)
  next
    case (BarClosed b)
    let ?j = "snd (join_on_bar I j b)"
    have feed: "in_feed_order (pre @ BarClosed b # rest)"
      using Cons.prems(1) BarClosed by simp
    have smp: "as_of_sample (pre @ e # rest) b = \<lparr>smp_bar = b, smp_funding = fj_funding j,
        smp_open_interest = fj_open_interest j, smp_premium = fj_premium j\<rparr>"
      using Cons.prems(2-4) as_of_latest [OF feed] by (simp add: as_of_sample_def BarClosed)
    have "join_run I ?j rest = assemble_batch I (fj_assembler ?j) (map (as_of_sample ((pre @ [e]) @ rest)) (bars_of rest))"
      using Cons.IH [OF shift, of ?j] Cons.prems(2-4) BarClosed
      by (simp add: join_on_bar_def Let_def split_beta)
    moreover have "bars_of (e # rest) = b # bars_of rest"
      by (simp add: BarClosed bars_of_def List.map_filter_def)
    ultimately show ?thesis
      using smp by (simp add: BarClosed join_on_bar_def Let_def split_beta)
  qed
qed

text \<open>
  C8. The live join computes the offline as-of join: fed context and bars in time order, with the
  context of an instant before the bar that opens at it, the factor rows it streams out are the
  batch assembly of every bar paired with the last context value at or before its open time.
\<close>

theorem live_join_is_as_of_join:
  assumes "in_feed_order es"
  shows "join_run I (join_new cat) es = assemble_batch I cat (map (as_of_sample es) (bars_of es))"
  using join_run_as_of [of "[]" es "join_new cat" I] assms by (simp add: join_new_def)

theorem live_join_is_as_of_join_witness:
  "let b = \<lparr>bar_open_time = 10, bar_resolution = M5, bar_open = Price 1, bar_high = Price 2,
            bar_low = Price 1, bar_close = Price 2, bar_volume = Qty 1, bar_trades = 1\<rparr>;
       I = \<lparr>ind_update = (\<lambda>n s. (if smp_funding s = None then None else Some (QState n), Suc n)), ind_reset = (\<lambda>n. 0)\<rparr>;
       es = [Funding 10 5, BarClosed b, Funding 11 7]
   in join_run I (join_new [0]) es = [\<lparr>fv_time_ms = 10, fv_states = [Some (QState 0)]\<rparr>] \<and>
      map (as_of_sample es) (bars_of es) =
        [\<lparr>smp_bar = b, smp_funding = Some 5, smp_open_interest = None, smp_premium = None\<rparr>]"
proof -
  let ?b = "\<lparr>bar_open_time = 10, bar_resolution = M5, bar_open = Price 1, bar_high = Price 2,
            bar_low = Price 1, bar_close = Price 2, bar_volume = Qty 1, bar_trades = 1\<rparr>"
  let ?I = "\<lparr>ind_update = (\<lambda>n s. (if smp_funding s = None then None else Some (QState n), Suc n)), ind_reset = (\<lambda>n. 0)\<rparr>"
  let ?es = "[Funding 10 5, BarClosed ?b, Funding 11 7]"
  have order: "in_feed_order ?es"
    by (auto simp: in_feed_order_def less_Suc_eq nth_Cons')
  have smp: "map (as_of_sample ?es) (bars_of ?es) =
        [\<lparr>smp_bar = ?b, smp_funding = Some 5, smp_open_interest = None, smp_premium = None\<rparr>]"
    by (simp add: as_of_sample_def as_of_def bars_of_def List.map_filter_def last_opt_def)
  show ?thesis
    unfolding Let_def live_join_is_as_of_join [OF order] smp
    by (simp add: assembler_push_def)
qed

section \<open>The session\<close>

datatype session_mode = Replay | LiveMode

record chromosome_decision =
  cd_index :: usize
  cd_decision :: decision

record eval_output =
  eo_time_ms :: i64
  eo_mode :: session_mode
  eo_decisions :: "chromosome_decision list"

text \<open>Of the sealed vintage the session reads the chromosomes only; they never change.\<close>

record 'i evaluator_session =
  es_chromosomes :: "genome list"
  es_join :: "'i factor_join"
  es_positions :: "position_state list"
  es_mode :: session_mode

definition session_of :: "genome list \<Rightarrow> 'i catalogue \<Rightarrow> 'i evaluator_session" where
  "session_of gs cat = \<lparr>es_chromosomes = gs, es_join = join_new cat,
     es_positions = replicate (length gs) position_flat, es_mode = Replay\<rparr>"

definition go_live :: "'i evaluator_session \<Rightarrow> 'i evaluator_session" where
  "go_live s = s\<lparr>es_mode := LiveMode\<rparr>"

definition es_observe_funding :: "'i evaluator_session \<Rightarrow> decimal \<Rightarrow> 'i evaluator_session" where
  "es_observe_funding s v = s\<lparr>es_join := join_observe_funding (es_join s) v\<rparr>"

definition es_observe_open_interest :: "'i evaluator_session \<Rightarrow> decimal \<Rightarrow> 'i evaluator_session" where
  "es_observe_open_interest s v = s\<lparr>es_join := join_observe_open_interest (es_join s) v\<rparr>"

definition es_observe_premium :: "'i evaluator_session \<Rightarrow> decimal \<Rightarrow> 'i evaluator_session" where
  "es_observe_premium s v = s\<lparr>es_join := join_observe_premium (es_join s) v\<rparr>"

text \<open>The loop over the chromosomes, at index \<open>i\<close> on: decide, advance, collect.\<close>

fun decide_from :: "usize \<Rightarrow> genome list \<Rightarrow> feature_vector \<Rightarrow> position_state list \<Rightarrow> chromosome_decision list \<times> position_state list" where
  "decide_from i (g # gs) v (p # ps) =
     (let d = genome_decide g v p; (ds, ps') = decide_from (Suc i) gs v ps
      in (\<lparr>cd_index = i, cd_decision = d\<rparr> # ds, position_advance p d # ps'))"
| "decide_from i _ v ps = ([], ps)"

definition es_on_bar :: "'i indicator_impl \<Rightarrow> 'i evaluator_session \<Rightarrow> bar \<Rightarrow> eval_output \<times> 'i evaluator_session" where
  "es_on_bar I s b =
     (let (v, j) = join_on_bar I (es_join s) b;
          (ds, ps) = decide_from 0 (es_chromosomes s) v (es_positions s)
      in (\<lparr>eo_time_ms = fv_time_ms v, eo_mode = es_mode s, eo_decisions = ds\<rparr>,
          s\<lparr>es_join := j, es_positions := ps\<rparr>))"

lemma decide_from_shape:
  "length gs = length ps \<Longrightarrow> length (snd (decide_from i gs v ps)) = length gs \<and>
     map cd_index (fst (decide_from i gs v ps)) = [i..<i + length gs]"
proof (induction gs arbitrary: i ps)
  case Nil
  then show ?case by simp
next
  case (Cons g gs)
  then obtain p qs where ps: "ps = p # qs" "length gs = length qs"
    by (cases ps) auto
  from Cons.IH [OF ps(2), of "Suc i"] show ?case
    by (simp add: ps(1) Let_def split_beta upt_conv_Cons del: upt_Suc)
qed

lemma es_on_bar_simps:
  "eo_time_ms (fst (es_on_bar I s b)) = bar_open_time b"
  "eo_mode (fst (es_on_bar I s b)) = es_mode s"
  "es_mode (snd (es_on_bar I s b)) = es_mode s"
  "es_chromosomes (snd (es_on_bar I s b)) = es_chromosomes s"
  by (simp_all add: es_on_bar_def join_on_bar_def assembler_push_def Let_def split_beta)

lemma es_on_bar_go_live:
  "es_on_bar I (go_live s) b =
     ((fst (es_on_bar I s b))\<lparr>eo_mode := LiveMode\<rparr>, go_live (snd (es_on_bar I s b)))"
  by (simp add: es_on_bar_def go_live_def Let_def split_beta)

text \<open>What a driver can do to a session.\<close>

datatype session_event = SFunding decimal | SOpenInterest decimal | SPremium decimal | SBar bar | SGoLive

fun session_exec :: "'i indicator_impl \<Rightarrow> 'i evaluator_session \<Rightarrow> session_event \<Rightarrow> eval_output list \<times> 'i evaluator_session" where
  "session_exec I s (SFunding v) = ([], es_observe_funding s v)"
| "session_exec I s (SOpenInterest v) = ([], es_observe_open_interest s v)"
| "session_exec I s (SPremium v) = ([], es_observe_premium s v)"
| "session_exec I s (SBar b) = (let (eo, s') = es_on_bar I s b in ([eo], s'))"
| "session_exec I s SGoLive = ([], go_live s)"

fun session_run :: "'i indicator_impl \<Rightarrow> 'i evaluator_session \<Rightarrow> session_event list \<Rightarrow> eval_output list \<times> 'i evaluator_session" where
  "session_run I s [] = ([], s)"
| "session_run I s (e # es) =
     (let (os, s1) = session_exec I s e; (os', s2) = session_run I s1 es in (os @ os', s2))"

definition same_but_mode :: "'i evaluator_session \<Rightarrow> 'i evaluator_session \<Rightarrow> bool" where
  "same_but_mode s t \<longleftrightarrow> es_chromosomes s = es_chromosomes t \<and> es_join s = es_join t \<and>
     es_positions s = es_positions t"

definition decision_view :: "eval_output \<Rightarrow> i64 \<times> chromosome_decision list" where
  "decision_view eo = (eo_time_ms eo, eo_decisions eo)"

lemma session_exec_same:
  assumes "same_but_mode s t"
  shows "map decision_view (fst (session_exec I s e)) = map decision_view (fst (session_exec I t e)) \<and>
    same_but_mode (snd (session_exec I s e)) (snd (session_exec I t e))"
  using assms by (cases e)
    (auto simp: same_but_mode_def go_live_def es_observe_funding_def es_observe_open_interest_def
      es_observe_premium_def es_on_bar_def decision_view_def Let_def split_beta)

lemma session_run_same:
  "same_but_mode s t \<Longrightarrow>
     map decision_view (fst (session_run I s es)) = map decision_view (fst (session_run I t es)) \<and>
     same_but_mode (snd (session_run I s es)) (snd (session_run I t es))"
proof (induction es arbitrary: s t)
  case Nil
  then show ?case by simp
next
  case (Cons e es)
  from session_exec_same [OF Cons.prems, of I e] Cons.IH show ?case
    by (simp add: Let_def split_beta)
qed

lemma session_run_append:
  "session_run I s (xs @ ys) =
     (let (os, s1) = session_run I s xs; (os', s2) = session_run I s1 ys in (os @ os', s2))"
  by (induction xs arbitrary: s) (simp_all add: Let_def split_beta)

text \<open>
  Going live changes nothing but a label: wherever in the stream of context and bars the
  session is flipped live, its decisions, bar by bar, and its positions are those of a session
  that was never flipped; only the mode reported on later bars differs.
\<close>

theorem go_live_is_transparent:
  "map decision_view (fst (session_run I s (xs @ SGoLive # ys))) =
     map decision_view (fst (session_run I s (xs @ ys))) \<and>
   es_positions (snd (session_run I s (xs @ SGoLive # ys))) = es_positions (snd (session_run I s (xs @ ys))) \<and>
   es_join (snd (session_run I s (xs @ SGoLive # ys))) = es_join (snd (session_run I s (xs @ ys)))"
proof -
  let ?s = "snd (session_run I s xs)"
  have "same_but_mode (go_live ?s) ?s"
    by (simp add: same_but_mode_def go_live_def)
  from session_run_same [OF this, of I ys] show ?thesis
    by (simp add: session_run_append Let_def split_beta same_but_mode_def)
qed

end
