(* ===== verification/Live_Breakers.thy ===== *)
theory Live_Breakers imports Breaker Evaluator begin

text \<open>
  Cold-start state and the live breaker layer (\<open>qe-hedger\<close>, \<open>boot_state.rs\<close> and
  \<open>live_breakers.rs\<close>): the committed peak reconstructed from a replay, one breaker per strategy plus
  an ensemble breaker, latched gating, and the clamp that flattens gated strategies before netting.
\<close>

section \<open>Reconstructed state\<close>

datatype boot_state_error = MismatchedEquityPaths (bse_strategies: usize) (bse_paths: usize)

datatype committed_peak = CommittedPeak (committed_peak_get: "decimal option")

definition committed_peak_new :: committed_peak where
  "committed_peak_new = CommittedPeak None"

definition committed_peak_observe :: "committed_peak \<Rightarrow> decimal \<Rightarrow> committed_peak" where
  "committed_peak_observe c e =
     CommittedPeak (Some (case committed_peak_get c of Some p \<Rightarrow> max p e | None \<Rightarrow> e))"

definition committed_peak_from_series :: "decimal list \<Rightarrow> committed_peak" where
  "committed_peak_from_series es = foldl committed_peak_observe committed_peak_new es"

datatype dormancy_latch = DormancyLatch (is_dormant: bool)

definition latch_active :: dormancy_latch where "latch_active = DormancyLatch False"
definition latch_dormant :: dormancy_latch where "latch_dormant = DormancyLatch True"

record strategy_state =
  ss_index :: usize
  ss_position :: position_state
  ss_dormancy :: dormancy_latch
  ss_committed_peak :: "decimal option"

datatype reconstructed_state = ReconstructedState (rst_strategies: "strategy_state list")

text \<open>The \<open>traded\<close> flags: an \<open>Enter\<close> at an index in range sets its flag.\<close>

fun is_enter :: "decision \<Rightarrow> bool" where
  "is_enter (Enter d) = True" | "is_enter _ = False"

definition traded_flags :: "usize \<Rightarrow> eval_output list \<Rightarrow> bool list" where
  "traded_flags n outs =
     foldl (\<lambda>fl cd. if is_enter (cd_decision cd) \<and> cd_index cd < length fl then fl[cd_index cd := True] else fl)
       (replicate n False) (concat (map eo_decisions outs))"

definition from_replay ::
  "position_state list \<Rightarrow> eval_output list \<Rightarrow> decimal list list \<Rightarrow> (boot_state_error, reconstructed_state) result" where
  "from_replay positions outs paths =
     (if length paths \<noteq> length positions
      then Inl (MismatchedEquityPaths (length positions) (length paths))
      else
        (let traded = traded_flags (length positions) outs
         in Inr (ReconstructedState (map (\<lambda>(i, p).
              \<lparr>ss_index = i, ss_position = p,
               ss_dormancy = (if traded ! i then latch_active else latch_dormant),
               ss_committed_peak = committed_peak_get (committed_peak_from_series (paths ! i))\<rparr>)
              (enumerate 0 positions)))))"

definition aggregate_committed_peak :: "dec_arith \<Rightarrow> reconstructed_state \<Rightarrow> decimal option option" where
  "aggregate_committed_peak A st =
     foldl (\<lambda>acc s. Option.bind acc (\<lambda>total.
         case ss_committed_peak s of
           None \<Rightarrow> Some total
         | Some p \<Rightarrow> (case total of None \<Rightarrow> Some (Some p) | Some t \<Rightarrow> map_option Some (dec_add A t p))))
       (Some None) (rst_strategies st)"

lemma committed_peak_foldl:
  "committed_peak_get (foldl committed_peak_observe (CommittedPeak p) es) = running_peak p es"
  by (induction es arbitrary: p) (simp_all add: committed_peak_observe_def)

lemma committed_peak_is_max:
  "committed_peak_get (committed_peak_from_series es) = (if es = [] then None else Some (Max (set es)))"
  unfolding committed_peak_from_series_def committed_peak_new_def committed_peak_foldl
  by (cases "es = []") (simp_all add: running_peak_None)

lemma traded_fold:
  fixes cds :: "chromosome_decision list" and fl :: "bool list"
  shows "length (foldl (\<lambda>fl cd. if is_enter (cd_decision cd) \<and> cd_index cd < length fl then fl[cd_index cd := True] else fl) fl cds)
      = length fl \<and>
    (i < length fl \<longrightarrow>
     foldl (\<lambda>fl cd. if is_enter (cd_decision cd) \<and> cd_index cd < length fl then fl[cd_index cd := True] else fl) fl cds ! i
       = (fl ! i \<or> (\<exists>cd \<in> set cds. cd_index cd = i \<and> is_enter (cd_decision cd))))"
  by (induction cds arbitrary: fl) (auto simp: nth_list_update)

lemma traded_flags_nth:
  "i < n \<Longrightarrow> traded_flags n outs ! i \<longleftrightarrow>
     (\<exists>eo \<in> set outs. \<exists>cd \<in> set (eo_decisions eo). cd_index cd = i \<and> is_enter (cd_decision cd))"
  using traded_fold [of "replicate n False" "concat (map eo_decisions outs)" i]
  by (auto simp: traded_flags_def)

section \<open>The layer\<close>

record breaker_layer =
  bl_strategy :: "circuit_breaker list"
  bl_ensemble :: circuit_breaker
  bl_strategy_gated :: "bool list"
  bl_pre_gated :: "bool list"
  bl_ensemble_gated :: bool

record calibration_profile =
  cp_per_strategy :: "string \<Rightarrow> breaker_thresholds option"
  cp_ensemble_fast_drop :: fraction

definition never_fires :: fraction where "never_fires = fraction_one"

definition fires_immediately :: breaker_thresholds where
  "fires_immediately = \<lparr>bt_slow_dd = fraction_zero, bt_med_dd = fraction_zero, bt_fast_drop = fraction_zero\<rparr>"

definition layer_new :: "breaker_thresholds list \<Rightarrow> fraction \<Rightarrow> usize \<Rightarrow> breaker_layer" where
  "layer_new per_strategy fast_drop w =
     (let n = length per_strategy
      in \<lparr>bl_strategy = map (\<lambda>t. breaker_new t w) per_strategy,
          bl_ensemble = breaker_new \<lparr>bt_slow_dd = never_fires, bt_med_dd = never_fires, bt_fast_drop = fast_drop\<rparr> w,
          bl_strategy_gated = replicate n False, bl_pre_gated = replicate n False,
          bl_ensemble_gated = False\<rparr>)"

definition layer_from_calibration :: "calibration_profile \<Rightarrow> string list \<Rightarrow> usize \<Rightarrow> breaker_layer" where
  "layer_from_calibration profile ids w =
     (let per_strategy = map (\<lambda>i. case cp_per_strategy profile i of Some t \<Rightarrow> t | None \<Rightarrow> fires_immediately) ids;
          uncalibrated = filter (\<lambda>i. cp_per_strategy profile (ids ! i) = None) [0..<length ids];
          l = layer_new per_strategy (cp_ensemble_fast_drop profile) w
      in foldl (\<lambda>l i. l\<lparr>bl_pre_gated := (bl_pre_gated l)[i := True],
                       bl_strategy_gated := (bl_strategy_gated l)[i := True]\<rparr>) l uncalibrated)"

definition seed_strategy :: "circuit_breaker list \<Rightarrow> strategy_state \<Rightarrow> circuit_breaker list" where
  "seed_strategy bs s =
     (case ss_committed_peak s of
        None \<Rightarrow> bs
      | Some p \<Rightarrow> if ss_index s < length bs then bs[ss_index s := breaker_seed_peak (bs ! ss_index s) p] else bs)"

definition seed_committed_peaks :: "dec_arith \<Rightarrow> breaker_layer \<Rightarrow> reconstructed_state \<Rightarrow> breaker_layer option" where
  "seed_committed_peaks A l st =
     (let l1 = l\<lparr>bl_strategy := foldl seed_strategy (bl_strategy l) (rst_strategies st)\<rparr>
      in map_option (\<lambda>agg. case agg of None \<Rightarrow> l1
             | Some p \<Rightarrow> l1\<lparr>bl_ensemble := breaker_seed_peak (bl_ensemble l1) p\<rparr>)
           (aggregate_committed_peak A st))"

text \<open>Indexing the gating flags panics out of range, as the source's does.\<close>

definition observe_strategy ::
  "dec_arith \<Rightarrow> breaker_layer \<Rightarrow> usize \<Rightarrow> decimal \<Rightarrow> (breaker_tier option \<times> breaker_layer) option" where
  "observe_strategy A l i e =
     (case get_opt (bl_strategy l) i of
        None \<Rightarrow> Some (None, l)
      | Some b \<Rightarrow> do {
          (tier, b') \<leftarrow> breaker_observe A b e;
          let l1 = l\<lparr>bl_strategy := (bl_strategy l)[i := b']\<rparr>;
          if tier = None then Some (tier, l1)
          else if i < length (bl_strategy_gated l1)
          then Some (tier, l1\<lparr>bl_strategy_gated := (bl_strategy_gated l1)[i := True]\<rparr>)
          else None
        })"

definition observe_ensemble ::
  "dec_arith \<Rightarrow> breaker_layer \<Rightarrow> decimal \<Rightarrow> (breaker_tier option \<times> breaker_layer) option" where
  "observe_ensemble A l e = do {
     (tier, b') \<leftarrow> breaker_observe A (bl_ensemble l) e;
     let l1 = l\<lparr>bl_ensemble := b'\<rparr>;
     Some (tier, if tier = None then l1 else l1\<lparr>bl_ensemble_gated := True\<rparr>)
   }"

definition is_gated :: "breaker_layer \<Rightarrow> usize \<Rightarrow> bool" where
  "is_gated l i \<longleftrightarrow> bl_ensemble_gated l \<or>
     (case get_opt (bl_strategy_gated l) i of Some g \<Rightarrow> g | None \<Rightarrow> False)"

definition layer_clamp :: "breaker_layer \<Rightarrow> chromosome_decision list \<Rightarrow> chromosome_decision list" where
  "layer_clamp l ds =
     map (\<lambda>cd. if is_gated l (cd_index cd) then \<lparr>cd_index = cd_index cd, cd_decision = Exit\<rparr> else cd) ds"

definition layer_reset :: "breaker_layer \<Rightarrow> breaker_layer" where
  "layer_reset l = l\<lparr>bl_strategy := map breaker_reset (bl_strategy l),
     bl_ensemble := breaker_reset (bl_ensemble l),
     bl_strategy_gated := map snd (zip (bl_strategy_gated l) (bl_pre_gated l)) @
                          drop (length (bl_pre_gated l)) (bl_strategy_gated l),
     bl_ensemble_gated := False\<rparr>"

section \<open>Sequences of ticks\<close>

datatype layer_tick = StrategyTick usize decimal | EnsembleTick decimal

fun layer_step :: "dec_arith \<Rightarrow> breaker_layer \<Rightarrow> layer_tick \<Rightarrow> breaker_layer option" where
  "layer_step A l (StrategyTick i e) = map_option snd (observe_strategy A l i e)"
| "layer_step A l (EnsembleTick e) = map_option snd (observe_ensemble A l e)"

text \<open>The vectors have one slot per strategy.\<close>

definition layer_wf :: "breaker_layer \<Rightarrow> bool" where
  "layer_wf l \<longleftrightarrow> length (bl_strategy_gated l) = length (bl_strategy l) \<and>
     length (bl_pre_gated l) = length (bl_strategy l)"

lemma layer_new_wf [simp]: "layer_wf (layer_new ts f w)"
  by (simp add: layer_wf_def layer_new_def Let_def)

lemma observe_strategy_wf: "layer_wf l \<Longrightarrow> observe_strategy A l i e = Some (t, l') \<Longrightarrow> layer_wf l'"
  by (auto simp: observe_strategy_def layer_wf_def Let_def panic_simps split: option.splits if_splits)

lemma observe_ensemble_wf: "layer_wf l \<Longrightarrow> observe_ensemble A l e = Some (t, l') \<Longrightarrow> layer_wf l'"
  by (auto simp: observe_ensemble_def layer_wf_def Let_def panic_simps split: if_splits)

lemma layer_reset_wf: "layer_wf l \<Longrightarrow> layer_wf (layer_reset l)"
  by (simp add: layer_reset_def layer_wf_def)

lemma layer_reset_gated: "layer_wf l \<Longrightarrow> bl_strategy_gated (layer_reset l) = bl_pre_gated l"
  by (simp add: layer_reset_def layer_wf_def)

lemma layer_step_gated: "is_gated l i \<Longrightarrow> layer_step A l e = Some l' \<Longrightarrow> is_gated l' i"
  by (cases e) (auto simp: observe_strategy_def observe_ensemble_def is_gated_def Let_def panic_simps
      get_opt_def nth_list_update split: option.splits if_splits)

interpretation gating: latch "layer_step A" "\<lambda>l. is_gated l i" for A i
  by unfold_locales (rule layer_step_gated)

lemma foldl_pre_gate:
  fixes l :: breaker_layer
  assumes "\<forall>i \<in> set us. i < length (bl_strategy l)" "layer_wf l"
  shows "let l' = foldl (\<lambda>l i. l\<lparr>bl_pre_gated := (bl_pre_gated l)[i := True],
                       bl_strategy_gated := (bl_strategy_gated l)[i := True]\<rparr>) l us
    in layer_wf l' \<and> bl_strategy l' = bl_strategy l \<and> bl_ensemble l' = bl_ensemble l \<and>
       bl_ensemble_gated l' = bl_ensemble_gated l \<and>
       (\<forall>i < length (bl_strategy l). bl_pre_gated l' ! i = (bl_pre_gated l ! i \<or> i \<in> set us) \<and>
          bl_strategy_gated l' ! i = (bl_strategy_gated l ! i \<or> i \<in> set us))"
  using assms
proof (induction us arbitrary: l)
  case Nil
  then show ?case by simp
next
  case (Cons u us)
  let ?l = "l\<lparr>bl_pre_gated := (bl_pre_gated l)[u := True],
                       bl_strategy_gated := (bl_strategy_gated l)[u := True]\<rparr>"
  have "layer_wf ?l" using Cons.prems(2) by (simp add: layer_wf_def)
  with Cons.IH [of ?l] Cons.prems show ?case
    by (auto simp: Let_def nth_list_update layer_wf_def)
qed

lemma layer_from_calibration_gates:
  "layer_wf (layer_from_calibration profile ids w) \<and>
   length (bl_strategy (layer_from_calibration profile ids w)) = length ids \<and>
   (\<forall>i < length ids. bl_pre_gated (layer_from_calibration profile ids w) ! i = (cp_per_strategy profile (ids ! i) = None) \<and>
      bl_strategy_gated (layer_from_calibration profile ids w) ! i = (cp_per_strategy profile (ids ! i) = None))"
proof -
  let ?ts = "map (\<lambda>i. case cp_per_strategy profile i of Some t \<Rightarrow> t | None \<Rightarrow> fires_immediately) ids"
  let ?l = "layer_new ?ts (cp_ensemble_fast_drop profile) w"
  let ?us = "filter (\<lambda>i. cp_per_strategy profile (ids ! i) = None) [0..<length ids]"
  have "\<forall>i \<in> set ?us. i < length (bl_strategy ?l)"
    by (simp add: layer_new_def Let_def)
  from foldl_pre_gate [OF this layer_new_wf] show ?thesis
    by (simp add: layer_from_calibration_def layer_new_def Let_def)
qed


section \<open>Parity with the replay\<close>

fun ticks_of :: "usize \<Rightarrow> layer_tick list \<Rightarrow> decimal list" where
  "ticks_of i [] = []"
| "ticks_of i (StrategyTick j e # tks) = (if j = i then e # ticks_of i tks else ticks_of i tks)"
| "ticks_of i (EnsembleTick e # tks) = ticks_of i tks"

fun ensemble_ticks :: "layer_tick list \<Rightarrow> decimal list" where
  "ensemble_ticks [] = []"
| "ensemble_ticks (StrategyTick j e # tks) = ensemble_ticks tks"
| "ensemble_ticks (EnsembleTick e # tks) = e # ensemble_ticks tks"

lemma strategy_tick_at:
  assumes "layer_wf l" "i < length (bl_strategy l)" "layer_step A l (StrategyTick i e) = Some l'"
  shows "\<exists>t b. breaker_observe A (bl_strategy l ! i) e = Some (t, b) \<and>
    bl_strategy l' = (bl_strategy l)[i := b] \<and> bl_ensemble l' = bl_ensemble l \<and>
    bl_ensemble_gated l' = bl_ensemble_gated l \<and> bl_pre_gated l' = bl_pre_gated l \<and>
    bl_strategy_gated l' = (if t = None then bl_strategy_gated l else (bl_strategy_gated l)[i := True])"
proof -
  from assms obtain t b where o: "breaker_observe A (bl_strategy l ! i) e = Some (t, b)"
    by (auto simp: observe_strategy_def get_opt_def panic_simps)
  with assms show ?thesis
    by (cases t) (auto simp: observe_strategy_def layer_wf_def get_opt_def Let_def)
qed

lemma strategy_tick_outside:
  "\<not> i < length (bl_strategy l) \<Longrightarrow> layer_step A l (StrategyTick i e) = Some l' \<Longrightarrow> l' = l"
  by (auto simp: observe_strategy_def get_opt_def split: option.splits)

lemma ensemble_tick_at:
  assumes "layer_step A l (EnsembleTick e) = Some l'"
  shows "\<exists>t b. breaker_observe A (bl_ensemble l) e = Some (t, b) \<and> bl_ensemble l' = b \<and>
    bl_strategy l' = bl_strategy l \<and> bl_strategy_gated l' = bl_strategy_gated l \<and>
    bl_pre_gated l' = bl_pre_gated l \<and> (bl_ensemble_gated l' \<longleftrightarrow> bl_ensemble_gated l \<or> t \<noteq> None)"
proof -
  from assms obtain t b where "breaker_observe A (bl_ensemble l) e = Some (t, b)"
    by (auto simp: observe_ensemble_def panic_simps)
  with assms show ?thesis
    by (cases t) (auto simp: observe_ensemble_def Let_def)
qed

lemma layer_step_wf: "layer_wf l \<Longrightarrow> layer_step A l tk = Some l' \<Longrightarrow> layer_wf l' \<and>
    length (bl_strategy l') = length (bl_strategy l)"
proof (cases tk)
  case (StrategyTick i e)
  assume "layer_wf l" "layer_step A l tk = Some l'"
  then show ?thesis
    using strategy_tick_at [of l i A e l'] strategy_tick_outside [of i l A e l'] StrategyTick
    by (cases "i < length (bl_strategy l)") (auto simp: layer_wf_def)
next
  case (EnsembleTick e)
  assume "layer_wf l" "layer_step A l tk = Some l'"
  then show ?thesis
    using ensemble_tick_at [of A l e l'] EnsembleTick by (auto simp: layer_wf_def)
qed

lemma layer_run_strategy:
  assumes "layer_wf l" "i < length (bl_strategy l)" "run_opt (layer_step A) l tks = Some l'"
  shows "\<exists>ts. observe_all A (bl_strategy l ! i) (ticks_of i tks) = Some (ts, bl_strategy l' ! i) \<and>
    (bl_strategy_gated l' ! i \<longleftrightarrow> bl_strategy_gated l ! i \<or> (\<exists>t \<in> set ts. t \<noteq> None))"
  using assms
proof (induction tks arbitrary: l)
  case Nil
  then show ?case by simp
next
  case (Cons tk tks)
  from Cons.prems(3) obtain l1 where s: "layer_step A l tk = Some l1" and r: "run_opt (layer_step A) l1 tks = Some l'"
    by (auto simp: panic_simps)
  note wf = layer_step_wf [OF Cons.prems(1) s]
  with Cons.prems(2) have i1: "i < length (bl_strategy l1)" by simp
  obtain ts where ts: "observe_all A (bl_strategy l1 ! i) (ticks_of i tks) = Some (ts, bl_strategy l' ! i)"
    "bl_strategy_gated l' ! i \<longleftrightarrow> bl_strategy_gated l1 ! i \<or> (\<exists>t \<in> set ts. t \<noteq> None)"
    using Cons.IH [OF _ i1 r] wf by blast
  have len: "i < length (bl_strategy_gated l)" using Cons.prems(1,2) by (simp add: layer_wf_def)
  show ?case
  proof (cases tk)
    case (StrategyTick j e)
    show ?thesis
    proof (cases "j < length (bl_strategy l)")
      case False
      from strategy_tick_outside [OF this] s StrategyTick have "l1 = l" by simp
      moreover have "j \<noteq> i" using False Cons.prems(2) by auto
      ultimately show ?thesis using ts StrategyTick by auto
    next
      case True
      from strategy_tick_at [OF Cons.prems(1) True] s StrategyTick obtain t b where
        o: "breaker_observe A (bl_strategy l ! j) e = Some (t, b)"
        and l1: "bl_strategy l1 = (bl_strategy l)[j := b]"
          "bl_strategy_gated l1 = (if t = None then bl_strategy_gated l else (bl_strategy_gated l)[j := True])"
        by blast
      show ?thesis
        using ts o l1 StrategyTick Cons.prems(2) len by (cases "j = i") auto
    qed
  next
    case (EnsembleTick e)
    from ensemble_tick_at [of A l e l1] s EnsembleTick
    have "bl_strategy l1 = bl_strategy l" "bl_strategy_gated l1 = bl_strategy_gated l" by auto
    with ts EnsembleTick show ?thesis by auto
  qed
qed

lemma layer_run_ensemble:
  assumes "layer_wf l" "run_opt (layer_step A) l tks = Some l'"
  shows "\<exists>ts. observe_all A (bl_ensemble l) (ensemble_ticks tks) = Some (ts, bl_ensemble l') \<and>
    (bl_ensemble_gated l' \<longleftrightarrow> bl_ensemble_gated l \<or> (\<exists>t \<in> set ts. t \<noteq> None))"
  using assms
proof (induction tks arbitrary: l)
  case Nil
  then show ?case by simp
next
  case (Cons tk tks)
  from Cons.prems(2) obtain l1 where s: "layer_step A l tk = Some l1" and r: "run_opt (layer_step A) l1 tks = Some l'"
    by (auto simp: panic_simps)
  note wf = layer_step_wf [OF Cons.prems(1) s]
  from Cons.IH [OF _ r] wf obtain ts where ts: "observe_all A (bl_ensemble l1) (ensemble_ticks tks) = Some (ts, bl_ensemble l')"
    "bl_ensemble_gated l' \<longleftrightarrow> bl_ensemble_gated l1 \<or> (\<exists>t \<in> set ts. t \<noteq> None)" by blast
  show ?case
  proof (cases tk)
    case (StrategyTick j e)
    have "bl_ensemble l1 = bl_ensemble l \<and> bl_ensemble_gated l1 = bl_ensemble_gated l"
      using strategy_tick_at [OF Cons.prems(1), of j A e l1] strategy_tick_outside [of j l A e l1] s StrategyTick
      by (cases "j < length (bl_strategy l)") auto
    with ts StrategyTick show ?thesis by auto
  next
    case (EnsembleTick e)
    from ensemble_tick_at [of A l e l1] s EnsembleTick ts show ?thesis by auto
  qed
qed

lemma replay_fires:
  "observe_all A (breaker_new t w) es = Some (ts, b) \<Longrightarrow>
     \<exists>evs. breaker_replay A t w es = Some evs \<and> (evs \<noteq> [] \<longleftrightarrow> (\<exists>t \<in> set ts. t \<noteq> None))"
  by (simp add: breaker_replay_def events_from_empty)

text \<open>
  C7. The live layer fires exactly as the historical replay does: after any interleaving of
  strategy and ensemble ticks, a strategy is gated if and only if the replay of its own equity
  stream, or the replay of the ensemble stream under the fast-drop-only thresholds, has an event.
\<close>

theorem layer_matches_replay:
  assumes "run_opt (layer_step A) (layer_new ts f w) tks = Some l" and "i < length ts"
  shows "\<exists>evs evs'. breaker_replay A (ts ! i) w (ticks_of i tks) = Some evs \<and>
    breaker_replay A \<lparr>bt_slow_dd = fraction_one, bt_med_dd = fraction_one, bt_fast_drop = f\<rparr> w (ensemble_ticks tks)
      = Some evs' \<and>
    (is_gated l i \<longleftrightarrow> evs \<noteq> [] \<or> evs' \<noteq> [])"
proof -
  let ?l = "layer_new ts f w"
  have i: "i < length (bl_strategy ?l)" "i < length ts"
    using assms(2) by (simp_all add: layer_new_def Let_def)
  from layer_run_strategy [OF layer_new_wf i(1) assms(1)] obtain us where
    us: "observe_all A (breaker_new (ts ! i) w) (ticks_of i tks) = Some (us, bl_strategy l ! i)"
    "bl_strategy_gated l ! i \<longleftrightarrow> (\<exists>t \<in> set us. t \<noteq> None)"
    using i(2) by (auto simp: layer_new_def Let_def)
  from layer_run_ensemble [OF layer_new_wf assms(1)] obtain vs where
    vs: "observe_all A (breaker_new \<lparr>bt_slow_dd = fraction_one, bt_med_dd = fraction_one, bt_fast_drop = f\<rparr> w)
      (ensemble_ticks tks) = Some (vs, bl_ensemble l)"
    "bl_ensemble_gated l \<longleftrightarrow> (\<exists>t \<in> set vs. t \<noteq> None)"
    by (auto simp: layer_new_def never_fires_def Let_def)
  have "layer_wf l \<and> length (bl_strategy l) = length (bl_strategy ?l)"
    using assms(1) by (rule run_opt_invariant) (auto dest: layer_step_wf)
  then have "i < length (bl_strategy_gated l)"
    using i(1) by (simp add: layer_wf_def)
  with replay_fires [OF us(1)] replay_fires [OF vs(1)] us(2) vs(2) show ?thesis
    by (auto simp: is_gated_def get_opt_def)
qed

theorem layer_matches_replay_witness:
  "\<exists>l. run_opt (layer_step (bounded_dec 1000)) (layer_new [\<lparr>bt_slow_dd = Fraction (1/4), bt_med_dd = Fraction (1/2),
        bt_fast_drop = Fraction 1\<rparr>] (Fraction 1) 1) [StrategyTick 0 100, EnsembleTick 70, StrategyTick 0 70] = Some l \<and>
     (is_gated l 0 \<longleftrightarrow> the (breaker_replay (bounded_dec 1000) \<lparr>bt_slow_dd = Fraction (1/4), bt_med_dd = Fraction (1/2),
        bt_fast_drop = Fraction 1\<rparr> 1 [100, 70]) \<noteq> [] \<or>
      the (breaker_replay (bounded_dec 1000) \<lparr>bt_slow_dd = fraction_one, bt_med_dd = fraction_one,
        bt_fast_drop = Fraction 1\<rparr> 1 [70]) \<noteq> [])"
proof -
  let ?t = "\<lparr>bt_slow_dd = Fraction (1/4), bt_med_dd = Fraction (1/2), bt_fast_drop = Fraction 1\<rparr>"
  let ?tks = "[StrategyTick 0 100, EnsembleTick 70, StrategyTick 0 70]"
  obtain l where run: "run_opt (layer_step (bounded_dec 1000)) (layer_new [?t] (Fraction 1) 1) ?tks = Some l"
    by (simp add: layer_new_def observe_strategy_def observe_ensemble_def get_opt_def breaker_observe_def breaker_new_def
        window_push_def window_max_def u64_add_def drop_from_def bounded_dec_def tier_of_def Let_def never_fires_def fraction_one_def)
  from layer_matches_replay [OF run, of 0] run show ?thesis
    by auto
qed


section \<open>The uncalibrated fail-safe and the cold start\<close>

datatype layer_op = OpTick layer_tick | OpReset

fun layer_exec :: "dec_arith \<Rightarrow> breaker_layer \<Rightarrow> layer_op \<Rightarrow> breaker_layer option" where
  "layer_exec A l (OpTick tk) = layer_step A l tk"
| "layer_exec A l OpReset = Some (layer_reset l)"

definition held_flat :: "usize \<Rightarrow> breaker_layer \<Rightarrow> bool" where
  "held_flat i l \<longleftrightarrow> layer_wf l \<and> i < length (bl_strategy l) \<and> bl_pre_gated l ! i \<and> bl_strategy_gated l ! i"

lemma layer_step_held_flat:
  assumes "held_flat i l" "layer_step A l tk = Some l'"
  shows "held_flat i l'"
proof -
  have wf: "layer_wf l" "i < length (bl_strategy l)" "i < length (bl_strategy_gated l)"
    using assms(1) by (simp_all add: held_flat_def layer_wf_def)
  note wf' = layer_step_wf [OF wf(1) assms(2)]
  have "bl_pre_gated l' = bl_pre_gated l \<and> bl_strategy_gated l' ! i"
  proof (cases tk)
    case (StrategyTick j e)
    then show ?thesis
      using strategy_tick_at [OF wf(1), of j A e l'] strategy_tick_outside [of j l A e l'] assms wf(3)
      by (cases "j < length (bl_strategy l)"; cases "j = i") (auto simp: held_flat_def)
  next
    case (EnsembleTick e)
    then show ?thesis
      using ensemble_tick_at [of A l e l'] assms by (auto simp: held_flat_def)
  qed
  with wf' assms(1) show ?thesis by (simp add: held_flat_def)
qed

lemma layer_exec_held_flat: "held_flat i l \<Longrightarrow> layer_exec A l op = Some l' \<Longrightarrow> held_flat i l'"
proof (cases op)
  case OpReset
  assume "held_flat i l" "layer_exec A l op = Some l'"
  then have "l' = layer_reset l" "held_flat i l" using OpReset by simp_all
  moreover have "bl_pre_gated (layer_reset l) = bl_pre_gated l"
    "length (bl_strategy (layer_reset l)) = length (bl_strategy l)"
    by (simp_all add: layer_reset_def)
  ultimately show ?thesis
    by (simp add: held_flat_def layer_reset_wf layer_reset_gated)
qed (auto intro: layer_step_held_flat)

interpretation fail_safe: latch "layer_exec A" "held_flat i" for A i
  by unfold_locales (rule layer_exec_held_flat)

lemma held_flat_gated: "held_flat i l \<Longrightarrow> is_gated l i"
  by (simp add: held_flat_def is_gated_def layer_wf_def get_opt_def)

text \<open>
  A strategy the calibration profile does not know is never traded: from construction on,
  through any ticks and session resets, its every decision is clamped to an exit, while the clamp
  keeps each decision's index and leaves ungated decisions as they are.
\<close>

theorem uncalibrated_never_trades:
  assumes "i < length ids" and "cp_per_strategy profile (ids ! i) = None"
    and "run_opt (layer_exec A) (layer_from_calibration profile ids w) ops = Some l"
    and "cd \<in> set (layer_clamp l ds)"
  shows "(cd_index cd = i \<longrightarrow> cd_decision cd = Exit) \<and>
    map cd_index (layer_clamp l ds) = map cd_index ds \<and>
    (\<not> is_gated l (cd_index cd) \<longrightarrow> cd \<in> set ds)"
proof -
  have "held_flat i (layer_from_calibration profile ids w)"
    using layer_from_calibration_gates [of profile ids w] assms(1,2) by (simp add: held_flat_def)
  from fail_safe.stays_latched [OF assms(3) this] have "is_gated l i"
    by (rule held_flat_gated)
  with assms(4) show ?thesis
    by (auto simp: layer_clamp_def split: if_splits)
qed

theorem uncalibrated_never_trades_witness:
  "cd_decision (hd (layer_clamp (layer_reset (layer_from_calibration
      \<lparr>cp_per_strategy = (\<lambda>_. None), cp_ensemble_fast_drop = Fraction 1\<rparr> [''0''] 5))
      [\<lparr>cd_index = 0, cd_decision = Enter Long\<rparr>])) = Exit"
proof -
  let ?p = "\<lparr>cp_per_strategy = (\<lambda>_. None), cp_ensemble_fast_drop = Fraction 1\<rparr>"
  let ?l = "layer_reset (layer_from_calibration ?p [''0''] 5)"
  let ?ds = "[\<lparr>cd_index = 0, cd_decision = Enter Long\<rparr>]"
  have run: "run_opt (layer_exec (bounded_dec 1)) (layer_from_calibration ?p [''0''] 5) [OpReset] = Some ?l"
    by simp
  have hd: "hd (layer_clamp ?l ?ds) \<in> set (layer_clamp ?l ?ds)" "cd_index (hd (layer_clamp ?l ?ds)) = 0"
    by (simp_all add: layer_clamp_def)
  from uncalibrated_never_trades [OF _ _ run hd(1), of 0] hd(2) show ?thesis by simp
qed

lemma seed_strategy_fold:
  assumes "distinct (map ss_index sts)" "s \<in> set sts" "ss_committed_peak s = Some p" "ss_index s < length bs"
  shows "foldl seed_strategy bs sts ! ss_index s = breaker_seed_peak (bs ! ss_index s) p"
proof -
  have outside: "k \<notin> set (map ss_index xs) \<Longrightarrow> foldl seed_strategy cs xs ! k = cs ! k" for k xs cs
    by (induction xs arbitrary: cs) (auto simp: seed_strategy_def split: option.splits)
  have len: "length (foldl seed_strategy cs xs) = length cs" for xs cs
    by (induction xs arbitrary: cs) (auto simp: seed_strategy_def split: option.splits)
  from assms(2) obtain xs ys where sts: "sts = xs @ s # ys" by (meson split_list)
  with assms(1) have fresh: "ss_index s \<notin> set (map ss_index xs)" "ss_index s \<notin> set (map ss_index ys)"
    by auto
  let ?cs = "foldl seed_strategy bs xs"
  have "foldl seed_strategy bs sts ! ss_index s = seed_strategy ?cs s ! ss_index s"
    by (simp add: sts outside [OF fresh(2)])
  also have "\<dots> = breaker_seed_peak (?cs ! ss_index s) p"
    using assms(3,4) by (simp add: seed_strategy_def len)
  finally show ?thesis by (simp add: outside [OF fresh(1)])
qed

lemma from_replay_nth:
  assumes "from_replay positions outs paths = Inr st"
  shows "length paths = length positions" "length (rst_strategies st) = length positions"
    "map ss_index (rst_strategies st) = [0..<length positions]"
    "i < length positions \<Longrightarrow> ss_committed_peak (rst_strategies st ! i) = committed_peak_get (committed_peak_from_series (paths ! i)) \<and>
       ss_index (rst_strategies st ! i) = i \<and>
       (is_dormant (ss_dormancy (rst_strategies st ! i)) \<longleftrightarrow> \<not> traded_flags (length positions) outs ! i)"
  using assms by (auto simp: from_replay_def Let_def latch_active_def latch_dormant_def enumerate_eq_zip nth_enumerate_eq
      comp_def split_beta intro!: nth_equalityI split: if_splits)

text \<open>
  A cold start measures drawdown from the true historical peak: with a layer seeded from a
  replay, the first live tick of a strategy is judged against the maximum of its whole replayed
  equity path and that tick, and a drawdown past the slow or medium threshold gates it at once.
\<close>

theorem cold_start_is_anchored:
  assumes "from_replay positions outs paths = Inr st" and "i < length positions" and "i < length ts"
    and "paths ! i \<noteq> []" and "seed_committed_peaks A (layer_new ts f w) st = Some l"
    and "observe_strategy A l i e = Some (tier, l')"
  shows "\<exists>dd. drop_from A (max (Max (set (paths ! i))) e) e = Some dd \<and>
    (dd \<ge> fraction_get (bt_slow_dd (ts ! i)) \<or> dd \<ge> fraction_get (bt_med_dd (ts ! i)) \<longrightarrow>
       tier \<noteq> None \<and> is_gated l' i)"
proof -
  let ?p = "Max (set (paths ! i))"
  let ?s = "rst_strategies st ! i"
  note st = from_replay_nth [OF assms(1)]
  have s: "ss_committed_peak ?s = Some ?p" "ss_index ?s = i" "?s \<in> set (rst_strategies st)"
    using st(4) [OF assms(2)] st(2) assms(2,4) by (simp_all add: committed_peak_is_max)
  have l: "bl_strategy l = foldl seed_strategy (map (\<lambda>t. breaker_new t w) ts) (rst_strategies st)"
    "bl_strategy_gated l = replicate (length ts) False"
    using assms(5) by (auto simp: seed_committed_peaks_def layer_new_def Let_def split: option.splits)
  have len: "length (foldl seed_strategy cs xs) = length cs" for xs cs
    by (induction xs arbitrary: cs) (auto simp: seed_strategy_def split: option.splits)
  have b: "bl_strategy l ! i = breaker_seed_peak (breaker_new (ts ! i) w) ?p"
    using seed_strategy_fold [OF _ s(3,1), of "map (\<lambda>t. breaker_new t w) ts"] assms(3) st(3)
    by (simp add: l s(2))
  have wf: "layer_wf l \<and> i < length (bl_strategy l)"
  proof -
    have "bl_pre_gated l = replicate (length ts) False"
      using assms(5) by (auto simp: seed_committed_peaks_def layer_new_def Let_def split: option.splits)
    then show ?thesis using assms(3) by (simp add: layer_wf_def l len)
  qed
  have "layer_step A l (StrategyTick i e) = Some l'" using assms(6) by simp
  from strategy_tick_at [OF _ _ this] wf obtain t b' where
    o: "breaker_observe A (bl_strategy l ! i) e = Some (t, b')"
    and gated: "bl_strategy_gated l' = (if t = None then bl_strategy_gated l else (bl_strategy_gated l)[i := True])"
    by blast
  have tier: "tier = t"
    using assms(6) o wf by (auto simp: observe_strategy_def get_opt_def Let_def split: if_splits)
  from breaker_observe_Some(1,6) [OF o] obtain fd dd where
    "drop_from A (max ?p e) e = Some dd" "t = tier_of (ts ! i) fd dd"
    by (auto simp: b breaker_seed_peak_def breaker_new_def)
  moreover have "is_gated l' i" if "t \<noteq> None"
    using that assms(3) by (auto simp: is_gated_def gated l get_opt_def)
  ultimately show ?thesis
    unfolding tier by (auto simp: tier_of_def)
qed


theorem cold_start_is_anchored_witness:
  "let A = bounded_dec 1000;
       t = \<lparr>bt_slow_dd = Fraction (1/4), bt_med_dd = Fraction (1/2), bt_fast_drop = Fraction 1\<rparr>;
       st = ReconstructedState [\<lparr>ss_index = 0, ss_position = position_flat, ss_dormancy = latch_dormant,
              ss_committed_peak = Some 200\<rparr>];
       l = (layer_new [t] (Fraction 1) 1)\<lparr>bl_strategy := [breaker_seed_peak (breaker_new t 1) 200],
              bl_ensemble := breaker_seed_peak (bl_ensemble (layer_new [t] (Fraction 1) 1)) 200\<rparr>
   in from_replay [position_flat] [] [[200, 150]] = Inr st \<and>
      seed_committed_peaks A (layer_new [t] (Fraction 1) 1) st = Some l \<and>
      (\<exists>tier l'. observe_strategy A l 0 140 = Some (tier, l') \<and> is_gated l' 0)"
proof -
  let ?A = "bounded_dec 1000"
  let ?t = "\<lparr>bt_slow_dd = Fraction (1/4), bt_med_dd = Fraction (1/2), bt_fast_drop = Fraction 1\<rparr>"
  let ?st = "ReconstructedState [\<lparr>ss_index = 0, ss_position = position_flat, ss_dormancy = latch_dormant,
              ss_committed_peak = Some 200\<rparr>]"
  let ?b = "breaker_seed_peak (breaker_new ?t 1) 200"
  let ?l = "(layer_new [?t] (Fraction 1) 1)\<lparr>bl_strategy := [?b],
              bl_ensemble := breaker_seed_peak (bl_ensemble (layer_new [?t] (Fraction 1) 1)) 200\<rparr>"
  have st: "from_replay [position_flat] [] [[200, 150]] = Inr ?st"
    by (simp add: from_replay_def committed_peak_is_max traded_flags_def)
  have l: "seed_committed_peaks ?A (layer_new [?t] (Fraction 1) 1) ?st = Some ?l"
    by (simp add: seed_committed_peaks_def aggregate_committed_peak_def seed_strategy_def layer_new_def)
  obtain tier b where b: "breaker_observe ?A ?b 140 = Some (tier, b)"
    by (simp add: breaker_observe_def breaker_seed_peak_def breaker_new_def window_push_def window_max_def
        u64_add_def drop_from_def bounded_dec_def)
  have "\<exists>l'. observe_strategy ?A ?l 0 140 = Some (tier, l')"
    using b by (cases tier) (auto simp: observe_strategy_def get_opt_def layer_new_def Let_def)
  then obtain l' where o: "observe_strategy ?A ?l 0 140 = Some (tier, l')" ..
  have "drop_from ?A (max (Max (set ([[200, 150]] ! 0))) 140) 140 = Some (3/10)"
    by (simp add: drop_from_def bounded_dec_def)
  moreover have "(0::nat) < length [position_flat]" "0 < length [?t]" "[[200, 150]] ! 0 \<noteq> ([] :: rat list)"
    by simp_all
  note cold_start_is_anchored [OF st this l o]
  ultimately obtain dd :: rat where "dd = 3/10" "dd \<ge> 1/4 \<longrightarrow> is_gated l' 0"
    by auto
  then have "is_gated l' 0" by simp
  then show ?thesis
    using st l o unfolding Let_def by blast
qed

end
