(* ===== verification/Cutover.thy ===== *)
theory Cutover imports Live_Breakers begin

text \<open>
  The bootstrap-to-live cutover (\<open>qe-hedger\<close>, \<open>cutover.rs\<close>): live bars are driven into the warmed
  session with duplicates dropped and gaps refused, the session is flipped live on the first new
  bar, and decisions pass through the breaker layer when one is wired.
\<close>

section \<open>The coordinator\<close>

datatype cutover_error = EmptyReplay | CutoverGap (expected_open_ms: i64) (got_open_ms: i64)

datatype cutover_step = Duplicate | Evaluated eval_output

record 'i reconstructed =
  rc_session :: "'i evaluator_session"
  rc_decisions :: "eval_output list"

record 'i cutover =
  ct_session :: "'i evaluator_session"
  ct_base :: resolution
  ct_last_open_ms :: i64
  ct_interval_ms :: i64
  ct_live :: bool
  ct_breaker :: "breaker_layer option"

definition cutover_with_breaker ::
  "'i evaluator_session \<Rightarrow> i64 \<Rightarrow> resolution \<Rightarrow> breaker_layer option \<Rightarrow> 'i cutover" where
  "cutover_with_breaker s last_open base b =
     \<lparr>ct_session = s, ct_base = base, ct_last_open_ms = last_open,
      ct_interval_ms = wrap_i64 (int (resolution_minutes base) * 60000), ct_live = False, ct_breaker = b\<rparr>"

definition cutover_new :: "'i evaluator_session \<Rightarrow> i64 \<Rightarrow> resolution \<Rightarrow> 'i cutover" where
  "cutover_new s last_open base = cutover_with_breaker s last_open base None"

definition from_reconstructed :: "'i reconstructed \<Rightarrow> resolution \<Rightarrow> (cutover_error, 'i cutover) result" where
  "from_reconstructed r base =
     (case last_opt (map eo_time_ms (rc_decisions r)) of
        None \<Rightarrow> Inl EmptyReplay
      | Some last_open \<Rightarrow> Inr (cutover_with_breaker (rc_session r) last_open base None))"

text \<open>The vintage's calibration is an argument; strategy ids are the positional indices.\<close>

definition strategy_ids :: "'i evaluator_session \<Rightarrow> string list" where
  "strategy_ids s = map show_nat [0..<length (es_chromosomes s)]"

definition from_reconstructed_calibrated ::
  "dec_arith \<Rightarrow> calibration_profile \<Rightarrow> 'i reconstructed \<Rightarrow> reconstructed_state \<Rightarrow> resolution \<Rightarrow> usize
     \<Rightarrow> (cutover_error, 'i cutover) result option" where
  "from_reconstructed_calibrated A profile r st base w =
     map_option (\<lambda>layer.
         case last_opt (map eo_time_ms (rc_decisions r)) of
           None \<Rightarrow> Inl EmptyReplay
         | Some last_open \<Rightarrow> Inr (cutover_with_breaker (rc_session r) last_open base (Some layer)))
       (seed_committed_peaks A (layer_from_calibration profile (strategy_ids (rc_session r)) w) st)"

definition clamp_output :: "breaker_layer option \<Rightarrow> eval_output \<Rightarrow> eval_output" where
  "clamp_output b eo =
     (case b of None \<Rightarrow> eo | Some l \<Rightarrow> eo\<lparr>eo_decisions := layer_clamp l (eo_decisions eo)\<rparr>)"

definition feed_live_bar ::
  "'i indicator_impl \<Rightarrow> 'i cutover \<Rightarrow> bar \<Rightarrow> (cutover_error, cutover_step) result \<times> 'i cutover" where
  "feed_live_bar I c b =
     (let opn = bar_open_time b
      in if opn \<le> ct_last_open_ms c then (Inr Duplicate, c)
         else
           (let expected = wrap_i64 (ct_last_open_ms c + ct_interval_ms c)
            in if opn \<noteq> expected then (Inl (CutoverGap expected opn), c)
               else
                 (let c1 = (if \<not> ct_live c
                            then c\<lparr>ct_session := go_live (ct_session c), ct_live := True\<rparr> else c);
                      (eo, s) = es_on_bar I (ct_session c1) b
                  in (Inr (Evaluated (clamp_output (ct_breaker c1) eo)),
                      c1\<lparr>ct_session := s, ct_last_open_ms := opn\<rparr>))))"

definition ct_observe_strategy_equity ::
  "dec_arith \<Rightarrow> 'i cutover \<Rightarrow> usize \<Rightarrow> decimal \<Rightarrow> (breaker_tier option \<times> 'i cutover) option" where
  "ct_observe_strategy_equity A c i e =
     (case ct_breaker c of
        None \<Rightarrow> Some (None, c)
      | Some l \<Rightarrow> map_option (\<lambda>(t, l'). (t, c\<lparr>ct_breaker := Some l'\<rparr>)) (observe_strategy A l i e))"

definition ct_observe_ensemble_equity ::
  "dec_arith \<Rightarrow> 'i cutover \<Rightarrow> decimal \<Rightarrow> (breaker_tier option \<times> 'i cutover) option" where
  "ct_observe_ensemble_equity A c e =
     (case ct_breaker c of
        None \<Rightarrow> Some (None, c)
      | Some l \<Rightarrow> map_option (\<lambda>(t, l'). (t, c\<lparr>ct_breaker := Some l'\<rparr>)) (observe_ensemble A l e))"

definition ct_observe_funding :: "'i cutover \<Rightarrow> decimal \<Rightarrow> 'i cutover" where
  "ct_observe_funding c v = c\<lparr>ct_session := es_observe_funding (ct_session c) v\<rparr>"

definition ct_observe_open_interest :: "'i cutover \<Rightarrow> decimal \<Rightarrow> 'i cutover" where
  "ct_observe_open_interest c v = c\<lparr>ct_session := es_observe_open_interest (ct_session c) v\<rparr>"

definition ct_observe_premium :: "'i cutover \<Rightarrow> decimal \<Rightarrow> 'i cutover" where
  "ct_observe_premium c v = c\<lparr>ct_session := es_observe_premium (ct_session c) v\<rparr>"

section \<open>Feeding a stream\<close>

fun feed_all :: "'i indicator_impl \<Rightarrow> 'i cutover \<Rightarrow> bar list \<Rightarrow> (bar \<times> (cutover_error, cutover_step) result) list \<times> 'i cutover" where
  "feed_all I c [] = ([], c)"
| "feed_all I c (b # bs) =
     (let (r, c1) = feed_live_bar I c b; (rs, c2) = feed_all I c1 bs in ((b, r) # rs, c2))"

definition evaluated :: "(bar \<times> (cutover_error, cutover_step) result) list \<Rightarrow> (bar \<times> eval_output) list" where
  "evaluated rs = List.map_filter (\<lambda>(b, r). case r of Inr (Evaluated eo) \<Rightarrow> Some (b, eo) | _ \<Rightarrow> None) rs"

lemma evaluated_simps [simp]:
  "evaluated [] = []"
  "evaluated ((b, Inl e) # rs) = evaluated rs"
  "evaluated ((b, Inr Duplicate) # rs) = evaluated rs"
  "evaluated ((b, Inr (Evaluated eo)) # rs) = (b, eo) # evaluated rs"
  by (simp_all add: evaluated_def List.map_filter_def)

lemma feed_live_bar_cases:
  obtains (dup) "bar_open_time b \<le> ct_last_open_ms c" "feed_live_bar I c b = (Inr Duplicate, c)"
    | (gap) "ct_last_open_ms c < bar_open_time b" "bar_open_time b \<noteq> wrap_i64 (ct_last_open_ms c + ct_interval_ms c)"
        "feed_live_bar I c b = (Inl (CutoverGap (wrap_i64 (ct_last_open_ms c + ct_interval_ms c)) (bar_open_time b)), c)"
    | (new) "ct_last_open_ms c < bar_open_time b" "bar_open_time b = wrap_i64 (ct_last_open_ms c + ct_interval_ms c)"
        "feed_live_bar I c b =
           (Inr (Evaluated (clamp_output (ct_breaker c)
              (fst (es_on_bar I (if ct_live c then ct_session c else go_live (ct_session c)) b)))),
            c\<lparr>ct_session := snd (es_on_bar I (if ct_live c then ct_session c else go_live (ct_session c)) b),
              ct_live := True, ct_last_open_ms := bar_open_time b\<rparr>)"
proof (cases "bar_open_time b \<le> ct_last_open_ms c")
  case True
  then show thesis by (intro dup) (simp_all add: feed_live_bar_def)
next
  case False
  show thesis
  proof (cases "bar_open_time b = wrap_i64 (ct_last_open_ms c + ct_interval_ms c)")
    case True
    with False show thesis
      by (intro new) (auto simp: feed_live_bar_def Let_def split_beta)
  next
    case neq: False
    with False show thesis by (intro gap) (simp_all add: feed_live_bar_def Let_def)
  qed
qed

text \<open>What a session is asked to do: flip once, if it has not been, then the bars in order.\<close>

definition live_events :: "bool \<Rightarrow> bar list \<Rightarrow> session_event list" where
  "live_events live bs = (if live \<or> bs = [] then [] else [SGoLive]) @ map SBar bs"

lemma feed_all_session:
  "feed_all I c bs = (rs, c') \<Longrightarrow>
     map snd (evaluated rs) = map (clamp_output (ct_breaker c))
       (fst (session_run I (ct_session c) (live_events (ct_live c) (map fst (evaluated rs))))) \<and>
     ct_session c' = snd (session_run I (ct_session c) (live_events (ct_live c) (map fst (evaluated rs)))) \<and>
     ct_breaker c' = ct_breaker c"
proof (induction bs arbitrary: c rs)
  case Nil
  then show ?case by (auto simp: live_events_def)
next
  case (Cons b bs)
  from Cons.prems obtain rs1 where rs: "rs = (b, fst (feed_live_bar I c b)) # rs1"
    and rest: "feed_all I (snd (feed_live_bar I c b)) bs = (rs1, c')"
    by (auto simp: Let_def split_beta)
  note IH = Cons.IH [OF rest]
  show ?case
  proof (cases rule: feed_live_bar_cases [of b c I])
    case dup
    with IH show ?thesis by (simp add: rs)
  next
    case gap
    with IH show ?thesis by (simp add: rs)
  next
    case new
    with IH show ?thesis
      by (cases "ct_live c") (simp_all add: rs live_events_def Let_def split_beta)
  qed
qed

lemma feed_all_contiguous:
  assumes "feed_all I c bs = (rs, c')" "in_i64 (ct_last_open_ms c)" "0 < ct_interval_ms c"
    and "ct_last_open_ms c + ct_interval_ms c * int (length bs) \<le> i64_max"
  shows "map (bar_open_time \<circ> fst) (evaluated rs) =
      map (\<lambda>k. ct_last_open_ms c + ct_interval_ms c * int (Suc k)) [0..<length (evaluated rs)] \<and>
    ct_last_open_ms c' = ct_last_open_ms c + ct_interval_ms c * int (length (evaluated rs)) \<and>
    length (evaluated rs) \<le> length bs"
  using assms
proof (induction bs arbitrary: c rs)
  case Nil
  then show ?case by auto
next
  case (Cons b bs)
  from Cons.prems(1) obtain rs1 where rs: "rs = (b, fst (feed_live_bar I c b)) # rs1"
    and rest: "feed_all I (snd (feed_live_bar I c b)) bs = (rs1, c')"
    by (auto simp: Let_def split_beta)
  have len: "ct_last_open_ms c + ct_interval_ms c * int (length bs) \<le> i64_max"
    using Cons.prems(3,4) by (simp add: algebra_simps)
  show ?case
  proof (cases rule: feed_live_bar_cases [of b c I])
    case dup
    with Cons.IH [of c rs1] rest Cons.prems(2,3) len show ?thesis by (simp add: rs)
  next
    case gap
    with Cons.IH [of c rs1] rest Cons.prems(2,3) len show ?thesis by (simp add: rs)
  next
    case new
    let ?c = "snd (feed_live_bar I c b)"
    have "0 \<le> ct_interval_ms c * int (length bs)" using Cons.prems(3) by simp
    moreover have "ct_last_open_ms c + (ct_interval_ms c + ct_interval_ms c * int (length bs)) \<le> i64_max"
      using Cons.prems(4) by (simp add: algebra_simps)
    ultimately have "in_i64 (ct_last_open_ms c + ct_interval_ms c)"
      using Cons.prems(2,3) unfolding in_i64_def by linarith
    then have opn: "bar_open_time b = ct_last_open_ms c + ct_interval_ms c"
      using new(2) by (simp add: wrap_i64_id)
    have c1: "ct_last_open_ms ?c = ct_last_open_ms c + ct_interval_ms c" "ct_interval_ms ?c = ct_interval_ms c"
      using new(3) opn by simp_all
    have "map (bar_open_time \<circ> fst) (evaluated rs1) =
        map (\<lambda>k. ct_last_open_ms ?c + ct_interval_ms ?c * int (Suc k)) [0..<length (evaluated rs1)] \<and>
      ct_last_open_ms c' = ct_last_open_ms ?c + ct_interval_ms ?c * int (length (evaluated rs1)) \<and>
      length (evaluated rs1) \<le> length bs"
      by (rule Cons.IH [OF rest]) (use c1 \<open>in_i64 (ct_last_open_ms c + ct_interval_ms c)\<close> Cons.prems(3,4) in
          \<open>simp_all add: algebra_simps\<close>)
    moreover have "[0..<Suc n] = 0 # map Suc [0..<n]" for n
      by (simp add: upt_conv_Cons map_Suc_upt del: upt_Suc)
    ultimately show ?thesis
      using new(3) opn by (simp add: rs c1 algebra_simps comp_def del: upt_Suc)
  qed
qed

text \<open>
  C4. The cutover neither duplicates nor skips: over any stream of live bars, the bars it evaluates
  open exactly one interval apart starting after the last replayed one, every other bar leaves it
  untouched, and the decisions it emits are those of one continuous session flipped live once and
  fed those bars, clamped by the wired breaker.
\<close>

theorem cutover_is_continuous:
  assumes "in_i64 last_open" and "last_open + int (resolution_minutes base) * 60000 * int (length bs) \<le> i64_max"
    and "feed_all I (cutover_with_breaker s last_open base b) bs = (rs, c)"
  shows "map (bar_open_time \<circ> fst) (evaluated rs) =
      map (\<lambda>k. last_open + int (resolution_minutes base) * 60000 * int (Suc k)) [0..<length (evaluated rs)] \<and>
    map snd (evaluated rs) = map (clamp_output b)
      (fst (session_run I s (live_events False (map fst (evaluated rs))))) \<and>
    ct_session c = snd (session_run I s (live_events False (map fst (evaluated rs))))"
proof -
  let ?c = "cutover_with_breaker s last_open base b"
  have "wrap_i64 (int (resolution_minutes base) * 60000) = int (resolution_minutes base) * 60000"
    by (cases base) (simp_all add: wrap_i64_def)
  then have c: "ct_last_open_ms ?c = last_open" "ct_interval_ms ?c = int (resolution_minutes base) * 60000"
    "ct_session ?c = s" "ct_breaker ?c = b" "\<not> ct_live ?c"
    by (simp_all add: cutover_with_breaker_def)
  have "0 < int (resolution_minutes base) * 60000"
    by (cases base) simp_all
  with feed_all_contiguous [OF assms(3)] feed_all_session [OF assms(3)] assms(1,2) show ?thesis
    by (simp add: c)
qed

theorem cutover_is_continuous_witness:
  "let bar = (\<lambda>t. \<lparr>bar_open_time = t, bar_resolution = M1, bar_open = Price 1, bar_high = Price 2,
            bar_low = Price 1, bar_close = Price 2, bar_volume = Qty 1, bar_trades = 1\<rparr>);
       I = \<lparr>ind_update = (\<lambda>n s. (Some (QState n), Suc n)), ind_reset = (\<lambda>n. 0)\<rparr>;
       rs = fst (feed_all I (cutover_with_breaker (session_of [] [0]) 60000 M1 None)
                   [bar 60000, bar 120000, bar 240000, bar 180000])
   in map (bar_open_time \<circ> fst) (evaluated rs) = [120000, 180000]"
proof -
  let ?bar = "\<lambda>t. \<lparr>bar_open_time = t, bar_resolution = M1, bar_open = Price 1, bar_high = Price 2,
            bar_low = Price 1, bar_close = Price 2, bar_volume = Qty 1, bar_trades = 1\<rparr>"
  let ?I = "\<lparr>ind_update = (\<lambda>n s. (Some (QState n), Suc n)), ind_reset = (\<lambda>n. 0)\<rparr>"
  let ?c = "cutover_with_breaker (session_of [] [0]) 60000 M1 None"
  let ?bs = "[?bar 60000, ?bar 120000, ?bar 240000, ?bar 180000]"
  obtain rs c where run: "feed_all ?I ?c ?bs = (rs, c)"
    by (cases "feed_all ?I ?c ?bs")
  have "length (evaluated (fst (feed_all ?I ?c ?bs))) = 2"
    by (simp add: cutover_with_breaker_def feed_live_bar_def wrap_i64_def Let_def split_beta)
  then have two: "length (evaluated rs) = 2" unfolding run fst_conv .
  have "in_i64 60000" "60000 + int (resolution_minutes M1) * 60000 * int (length ?bs) \<le> i64_max"
    by (simp_all add: in_i64_def)
  from cutover_is_continuous [OF this run] two show ?thesis
    unfolding Let_def run by (simp add: upt_rec)
qed

end
