(* ===== verification/User_Data.thy ===== *)
theory User_Data imports Money_Bars Error_Taxonomy begin

text \<open>
  The private user-data stream (\<open>qe-venue\<close>, \<open>userdata.rs\<close>): the fills and position reports the
  venue pushes, the session that owns a listen key and a socket, and the scripted simulator the
  engine uses in sim mode. The three seams (key provider, connector, snapshot source) and the
  socket act on a world \<open>'w\<close>; the session's operations thread it. The locale
  \<open>user_data_venue\<close> states what a session needs of its seams, and the simulator provides it.
\<close>

section \<open>Events\<close>

datatype listen_key = ListenKey (listen_key_str: string)

datatype user_data_error = ListenKeyError string | ConnectError string | SnapshotError string

fun user_data_error_class :: "user_data_error \<Rightarrow> error_class" where
  "user_data_error_class (ListenKeyError _) = Transient"
| "user_data_error_class (ConnectError _) = Transient"
| "user_data_error_class (SnapshotError _) = Transient"

record fill =
  fill_instrument :: instrument_id
  fill_side :: side
  fill_price :: price
  fill_qty :: qty
  fill_order_id :: u64
  fill_trade_id :: u64
  fill_time_ms :: i64

record position_report =
  pr_instrument :: instrument_id
  pr_direction :: "direction option"
  pr_qty :: qty
  pr_entry_price :: price
  pr_time_ms :: i64

record position_snapshot =
  snap_positions :: "position_report list"
  snap_time_ms :: i64

datatype user_data_event =
    FillEvent fill
  | PositionEvent position_report
  | Heartbeat i64
  | ListenKeyExpired i64
  | SnapshotEvent position_snapshot

datatype user_data_poll = PollEvent user_data_event | Disconnected | Idle

section \<open>The session over its seams\<close>

record ('w, 'c) user_data_seams =
  seam_create :: "'w \<Rightarrow> (user_data_error, listen_key) result \<times> 'w"
  seam_keepalive :: "'w \<Rightarrow> listen_key \<Rightarrow> (user_data_error, unit) result \<times> 'w"
  seam_connect :: "'w \<Rightarrow> listen_key \<Rightarrow> (user_data_error, 'c) result \<times> 'w"
  seam_snapshot :: "'w \<Rightarrow> (user_data_error, position_snapshot) result \<times> 'w"
  seam_poll :: "'w \<Rightarrow> 'c \<Rightarrow> user_data_poll \<times> 'c \<times> 'w"

record 'c user_data_session =
  us_key :: "listen_key option"
  us_conn :: "'c option"

record user_data_outcome =
  out_event :: "user_data_event option"
  out_reconnected :: bool

definition outcome_default :: user_data_outcome where
  "outcome_default = \<lparr>out_event = None, out_reconnected = False\<rparr>"

definition session_new :: "'c user_data_session" where
  "session_new = \<lparr>us_key = None, us_conn = None\<rparr>"

definition session_establish ::
  "('w, 'c) user_data_seams \<Rightarrow> 'c user_data_session \<Rightarrow> 'w
     \<Rightarrow> (user_data_error, position_snapshot) result \<times> 'c user_data_session \<times> 'w" where
  "session_establish m s w =
     (case seam_create m w of
        (Inl e, w1) \<Rightarrow> (Inl e, s, w1)
      | (Inr key, w1) \<Rightarrow>
          (case seam_connect m w1 key of
             (Inl e, w2) \<Rightarrow> (Inl e, s, w2)
           | (Inr conn, w2) \<Rightarrow>
               (case seam_snapshot m w2 of
                  (Inl e, w3) \<Rightarrow> (Inl e, s, w3)
                | (Inr snap, w3) \<Rightarrow> (Inr snap, s\<lparr>us_key := Some key, us_conn := Some conn\<rparr>, w3))))"

definition session_connect ::
  "('w, 'c) user_data_seams \<Rightarrow> 'c user_data_session \<Rightarrow> 'w
     \<Rightarrow> (user_data_error, position_snapshot) result \<times> 'c user_data_session \<times> 'w" where
  "session_connect m s w = session_establish m s w"

definition session_keepalive ::
  "('w, 'c) user_data_seams \<Rightarrow> 'c user_data_session \<Rightarrow> 'w
     \<Rightarrow> (user_data_error, unit) result \<times> 'c user_data_session \<times> 'w" where
  "session_keepalive m s w =
     (case us_key s of
        None \<Rightarrow> (Inr (), s, w)
      | Some key \<Rightarrow> (let (r, w') = seam_keepalive m w key in (r, s, w')))"

text \<open>Polling mutates the connection in place before the outcome is looked at.\<close>

definition session_pump ::
  "('w, 'c) user_data_seams \<Rightarrow> 'c user_data_session \<Rightarrow> 'w
     \<Rightarrow> (user_data_error, user_data_outcome) result \<times> 'c user_data_session \<times> 'w" where
  "session_pump m s w =
     (case us_conn s of
        None \<Rightarrow> (Inr outcome_default, s, w)
      | Some conn \<Rightarrow>
          (let (poll, conn', w1) = seam_poll m w conn; s1 = s\<lparr>us_conn := Some conn'\<rparr>;
               renew = (case session_establish m s1 w1 of
                   (Inl e, s2, w2) \<Rightarrow> (Inl e, s2, w2)
                 | (Inr snap, s2, w2) \<Rightarrow>
                     (Inr \<lparr>out_event = Some (SnapshotEvent snap), out_reconnected = True\<rparr>, s2, w2))
           in case poll of
                Idle \<Rightarrow> (Inr outcome_default, s1, w1)
              | Disconnected \<Rightarrow> renew
              | PollEvent (ListenKeyExpired _) \<Rightarrow> renew
              | PollEvent event \<Rightarrow> (Inr \<lparr>out_event = Some event, out_reconnected = False\<rparr>, s1, w1)))"

text \<open>The seam calls of \<open>establish\<close> commit together or not at all.\<close>

lemma session_establish_error:
  "session_establish m s w = (Inl e, s', w') \<Longrightarrow> s' = s"
  by (auto simp: session_establish_def split: prod.splits sum.splits)

lemma session_establish_ok:
  "session_establish m s w = (Inr snap, s', w') \<Longrightarrow>
     \<exists>key conn w1 w2. seam_create m w = (Inr key, w1) \<and> seam_connect m w1 key = (Inr conn, w2) \<and>
       seam_snapshot m w2 = (Inr snap, w') \<and> s' = s\<lparr>us_key := Some key, us_conn := Some conn\<rparr>"
  by (auto simp: session_establish_def split: prod.splits sum.splits)

lemma session_pump_cases:
  assumes "session_pump m s w = (Inr out, s', w')"
  obtains "us_conn s = None" "out = outcome_default" "s' = s" "w' = w"
    | conn conn' where "us_conn s = Some conn" "seam_poll m w conn = (Idle, conn', w')"
        "out = outcome_default" "s' = s\<lparr>us_conn := Some conn'\<rparr>"
    | conn conn' ev where "us_conn s = Some conn" "seam_poll m w conn = (PollEvent ev, conn', w')"
        "\<forall>t. ev \<noteq> ListenKeyExpired t" "out = \<lparr>out_event = Some ev, out_reconnected = False\<rparr>"
        "s' = s\<lparr>us_conn := Some conn'\<rparr>"
    | conn conn' poll w1 snap where "us_conn s = Some conn" "seam_poll m w conn = (poll, conn', w1)"
        "poll = Disconnected \<or> (\<exists>t. poll = PollEvent (ListenKeyExpired t))"
        "session_establish m (s\<lparr>us_conn := Some conn'\<rparr>) w1 = (Inr snap, s', w')"
        "out = \<lparr>out_event = Some (SnapshotEvent snap), out_reconnected = True\<rparr>"
  using assms unfolding session_pump_def Let_def
  by (auto split: option.splits prod.splits user_data_poll.splits user_data_event.splits sum.splits)

section \<open>The scripted simulator\<close>

record scripted =
  sc_conn_scripts :: "user_data_poll list list"
  sc_snapshots :: "position_snapshot list"
  sc_keys_created :: u64
  sc_keepalives :: u64

definition scripted_new :: scripted where
  "scripted_new = \<lparr>sc_conn_scripts = [], sc_snapshots = [], sc_keys_created = 0, sc_keepalives = 0\<rparr>"

definition with_connection :: "scripted \<Rightarrow> user_data_poll list \<Rightarrow> scripted" where
  "with_connection u polls = u\<lparr>sc_conn_scripts := sc_conn_scripts u @ [polls]\<rparr>"

definition with_snapshot :: "scripted \<Rightarrow> position_snapshot \<Rightarrow> scripted" where
  "with_snapshot u snap = u\<lparr>sc_snapshots := sc_snapshots u @ [snap]\<rparr>"

record scripted_connection =
  conn_script :: "user_data_poll list"
  conn_pos :: usize

definition scripted_poll :: "scripted \<Rightarrow> scripted_connection \<Rightarrow> user_data_poll \<times> scripted_connection \<times> scripted" where
  "scripted_poll u c =
     (if conn_pos c < length (conn_script c)
      then (conn_script c ! conn_pos c, c\<lparr>conn_pos := conn_pos c + 1\<rparr>, u)
      else (Idle, c, u))"

definition scripted_create :: "scripted \<Rightarrow> (user_data_error, listen_key) result \<times> scripted" where
  "scripted_create u =
     (let n = u64_add (sc_keys_created u) 1
      in (Inr (ListenKey (''sim-key-'' @ show_nat n)), u\<lparr>sc_keys_created := n\<rparr>))"

definition scripted_keepalive :: "scripted \<Rightarrow> listen_key \<Rightarrow> (user_data_error, unit) result \<times> scripted" where
  "scripted_keepalive u key = (Inr (), u\<lparr>sc_keepalives := u64_add (sc_keepalives u) 1\<rparr>)"

definition scripted_connect :: "scripted \<Rightarrow> listen_key \<Rightarrow> (user_data_error, scripted_connection) result \<times> scripted" where
  "scripted_connect u key =
     (case sc_conn_scripts u of
        [] \<Rightarrow> (Inr \<lparr>conn_script = [], conn_pos = 0\<rparr>, u)
      | script # rest \<Rightarrow> (Inr \<lparr>conn_script = script, conn_pos = 0\<rparr>, u\<lparr>sc_conn_scripts := rest\<rparr>))"

definition scripted_snapshot :: "scripted \<Rightarrow> (user_data_error, position_snapshot) result \<times> scripted" where
  "scripted_snapshot u =
     (case sc_snapshots u of
        [] \<Rightarrow> (Inl (SnapshotError ''no scripted snapshot''), u)
      | [snap] \<Rightarrow> (Inr snap, u)
      | snap # rest \<Rightarrow> (Inr snap, u\<lparr>sc_snapshots := rest\<rparr>))"

definition scripted_seams :: "(scripted, scripted_connection) user_data_seams" where
  "scripted_seams =
     \<lparr>seam_create = scripted_create, seam_keepalive = scripted_keepalive,
      seam_connect = scripted_connect, seam_snapshot = scripted_snapshot, seam_poll = scripted_poll\<rparr>"

section \<open>What a session needs of its venue\<close>

text \<open>
  \<open>issued w\<close> is the number of keys the venue has issued. A venue numbers the keys it creates,
  never reissues one before \<open>u64\<close> wraps, and neither connecting, taking a snapshot nor polling
  issues a key.
\<close>

locale user_data_venue =
  fixes seams :: "('w, 'c) user_data_seams"
    and issued :: "'w \<Rightarrow> nat"
    and key_no :: "nat \<Rightarrow> listen_key"
  assumes create_fresh:
      "issued w + 1 < u64_modulus \<Longrightarrow> seam_create seams w = (Inr key, w') \<Longrightarrow>
         key = key_no (issued w + 1) \<and> issued w' = issued w + 1"
    and key_no_inject: "key_no a = key_no b \<Longrightarrow> a = b"
    and connect_issues: "seam_connect seams w key = (r, w') \<Longrightarrow> issued w' = issued w"
    and snapshot_issues: "seam_snapshot seams w = (r', w') \<Longrightarrow> issued w' = issued w"
    and poll_issues: "seam_poll seams w c = (p, c', w') \<Longrightarrow> issued w' = issued w"
begin

lemma establish_renews:
  assumes "issued w + 1 < u64_modulus"
    and "session_establish seams s w = (Inr snap, s', w')"
  shows "us_key s' = Some (key_no (issued w + 1)) \<and> issued w' = issued w + 1"
proof -
  from session_establish_ok [OF assms(2)] obtain key conn w1 w2 where
    "seam_create seams w = (Inr key, w1)" "seam_connect seams w1 key = (Inr conn, w2)"
    "seam_snapshot seams w2 = (Inr snap, w')" "s' = s\<lparr>us_key := Some key, us_conn := Some conn\<rparr>"
    by blast
  then show ?thesis
    using create_fresh [OF assms(1)] connect_issues snapshot_issues by force
qed

lemma reconnect_key_is_new:
  assumes "issued w + 1 < u64_modulus"
    and "session_pump seams s w = (Inr out, s', w')" and "out_reconnected out"
    and "us_key s = Some (key_no n)" and "n \<le> issued w"
  shows "us_key s' \<noteq> us_key s \<and> us_key s' = Some (key_no (issued w'))"
  using assms(2)
proof (cases rule: session_pump_cases)
  case (4 conn conn' poll w1 snap)
  have "issued w1 = issued w"
    using poll_issues 4(2) by simp
  with establish_renews [OF _ 4(4)] assms(1)
  have "us_key s' = Some (key_no (issued w + 1)) \<and> issued w' = issued w + 1"
    by simp
  then show ?thesis
    using assms(4,5) key_no_inject by fastforce
qed (use assms(3) in \<open>simp_all add: outcome_default_def\<close>)

end

definition sim_key :: "nat \<Rightarrow> listen_key" where
  "sim_key n = ListenKey (''sim-key-'' @ show_nat n)"

interpretation sim: user_data_venue scripted_seams sc_keys_created sim_key
proof unfold_locales
  fix w w' :: scripted and key
  assume "sc_keys_created w + 1 < u64_modulus" "seam_create scripted_seams w = (Inr key, w')"
  then show "key = sim_key (sc_keys_created w + 1) \<and> sc_keys_created w' = sc_keys_created w + 1"
    by (auto simp: scripted_seams_def scripted_create_def sim_key_def u64_add_exact Let_def)
next
  fix w w' :: scripted and r'
  assume "seam_snapshot scripted_seams w = (r', w')"
  then show "sc_keys_created w' = sc_keys_created w"
    by (auto simp: scripted_seams_def scripted_snapshot_def split: list.splits)
qed (auto simp: scripted_seams_def scripted_connect_def scripted_poll_def sim_key_def
    split: list.splits if_splits)

interpretation user_data: classified user_data_error_class "\<lambda>e. class_disposition (user_data_error_class e)"
  by unfold_locales simp

text \<open>
  A pump never lets an expired key's event reach the caller; it reports a reconnect exactly
  when it delivers a snapshot it has just taken over a new key and socket; and a pump that fails
  leaves the session's key as it was, still holding a socket, so the next pump can try again.
\<close>

theorem session_pump_correct:
  "(case session_pump m s w of
      (Inr out, s', w') \<Rightarrow>
        (\<forall>t. out_event out \<noteq> Some (ListenKeyExpired t)) \<and>
        (if out_reconnected out
         then \<exists>key conn snap w1 w2 w3. seam_create m w1 = (Inr key, w2) \<and>
                seam_connect m w2 key = (Inr conn, w3) \<and> seam_snapshot m w3 = (Inr snap, w') \<and>
                us_key s' = Some key \<and> us_conn s' = Some conn \<and> out_event out = Some (SnapshotEvent snap)
         else us_key s' = us_key s)
    | (Inl e, s', w') \<Rightarrow> user_data_error_class e = Transient \<and> us_key s' = us_key s \<and> us_conn s' \<noteq> None)"
proof (cases "session_pump m s w")
  case (fields r s' w')
  show ?thesis
  proof (cases r)
    case (Inr out)
    with fields have "session_pump m s w = (Inr out, s', w')" by simp
    then show ?thesis
    proof (cases rule: session_pump_cases)
      case (4 conn conn' poll w1 snap)
      from session_establish_ok [OF 4(4)] show ?thesis
        using fields Inr 4(5) by fastforce
    qed (use fields Inr in \<open>simp_all add: outcome_default_def\<close>)
  next
    case (Inl e)
    with fields obtain conn poll conn' w1 where
      "us_conn s = Some conn" "seam_poll m w conn = (poll, conn', w1)"
      "session_establish m (s\<lparr>us_conn := Some conn'\<rparr>) w1 = (Inl e, s', w')"
      by (auto simp: session_pump_def Let_def
          split: option.splits prod.splits user_data_poll.splits user_data_event.splits sum.splits)
    then show ?thesis
      using fields Inl session_establish_error by (cases e) fastforce+
  qed
qed

end
