(* ===== verification/Edge_Gateway.thy ===== *)
theory Edge_Gateway imports User_Data begin

text \<open>
  The edge gateway's parts (\<open>qe-edge\<close>, \<open>edge.rs\<close>; seam types of \<open>qe-runtime-core\<close>): the order
  lifecycle, the translation of an absolute target into an order delta, the position keeper fed
  by user-data events, and the in-memory venue of paper mode. Decimal arithmetic that can panic
  makes an operation answer \<open>None\<close>.
\<close>

section \<open>The planner--edge contract types\<close>

record capital_view =
  cv_equity :: notional
  cv_available_margin :: notional

record target_position =
  tp_notional :: notional
  tp_gross :: notional

definition target_single :: "notional \<Rightarrow> target_position" where
  "target_single n = \<lparr>tp_notional = n, tp_gross = Notional \<bar>notional_get n\<bar>\<rparr>"

definition target_direction :: "target_position \<Rightarrow> direction option" where
  "target_direction t =
     (if notional_get (tp_notional t) > 0 then Some Long
      else if notional_get (tp_notional t) < 0 then Some Short else None)"

section \<open>Order lifecycle\<close>

datatype order_state = New | Submitted | PartiallyFilled | Filled | Rejected | Cancelled

record order =
  ord_id :: u64
  ord_side :: side
  ord_qty :: qty
  ord_filled :: qty
  ord_state :: order_state

definition order_new :: "u64 \<Rightarrow> side \<Rightarrow> qty \<Rightarrow> order" where
  "order_new i s q = \<lparr>ord_id = i, ord_side = s, ord_qty = q, ord_filled = qty_zero, ord_state = New\<rparr>"

definition order_is_terminal :: "order \<Rightarrow> bool" where
  "order_is_terminal o' \<longleftrightarrow> ord_state o' \<in> {Filled, Rejected, Cancelled}"

definition order_submit :: "order \<Rightarrow> order" where
  "order_submit o' = (if ord_state o' = New then o'\<lparr>ord_state := Submitted\<rparr> else o')"

definition order_on_fill :: "dec_arith \<Rightarrow> order \<Rightarrow> qty \<Rightarrow> order option" where
  "order_on_fill A o' q =
     (if order_is_terminal o' then Some o'
      else map_option (\<lambda>f. o'\<lparr>ord_filled := f,
               ord_state := (if qty_get f \<ge> qty_get (ord_qty o') then Filled else PartiallyFilled)\<rparr>)
             (qty_add A (ord_filled o') q))"

definition order_reject :: "order \<Rightarrow> order" where
  "order_reject o' = (if \<not> order_is_terminal o' then o'\<lparr>ord_state := Rejected\<rparr> else o')"

definition order_cancel :: "order \<Rightarrow> order" where
  "order_cancel o' = (if \<not> order_is_terminal o' then o'\<lparr>ord_state := Cancelled\<rparr> else o')"

datatype order_event = OSubmit | OFill qty | OReject | OCancel

fun order_step :: "dec_arith \<Rightarrow> order \<Rightarrow> order_event \<Rightarrow> order option" where
  "order_step A o' OSubmit = Some (order_submit o')"
| "order_step A o' (OFill q) = order_on_fill A o' q"
| "order_step A o' OReject = Some (order_reject o')"
| "order_step A o' OCancel = Some (order_cancel o')"

fun order_run :: "dec_arith \<Rightarrow> order \<Rightarrow> order_event list \<Rightarrow> order option" where
  "order_run A o' [] = Some o'"
| "order_run A o' (e # es) = Option.bind (order_step A o' e) (\<lambda>o''. order_run A o'' es)"

text \<open>\<open>Filled\<close> says the cumulative fill reaches the ordered quantity, \<open>PartiallyFilled\<close> that it does not.\<close>

definition order_inv :: "order \<Rightarrow> bool" where
  "order_inv o' \<longleftrightarrow> valid_qty (ord_filled o') \<and>
     (ord_state o' = Filled \<longrightarrow> qty_get (ord_qty o') \<le> qty_get (ord_filled o')) \<and>
     (ord_state o' = PartiallyFilled \<longrightarrow> qty_get (ord_filled o') < qty_get (ord_qty o')) \<and>
     (ord_state o' \<in> {New, Submitted} \<longrightarrow> qty_get (ord_filled o') = 0)"

lemma order_on_fill_inv:
  assumes "dec_rounded A" "order_inv o'" "order_on_fill A o' q = Some o''" "valid_qty q"
  shows "order_inv o'' \<and> qty_get (ord_filled o') \<le> qty_get (ord_filled o'') \<and>
    (ord_id o'', ord_side o'', ord_qty o'') = (ord_id o', ord_side o', ord_qty o')"
proof (cases "order_is_terminal o'")
  case True
  then show ?thesis using assms by (simp add: order_on_fill_def)
next
  case False
  with assms(3) obtain c where c: "dec_add A (qty_get (ord_filled o')) (qty_get q) = Some c"
    and o'': "o'' = o'\<lparr>ord_filled := Qty c,
             ord_state := (if c \<ge> qty_get (ord_qty o') then Filled else PartiallyFilled)\<rparr>"
    by (auto simp: order_on_fill_def qty_add_def)
  have "0 \<le> qty_get q" "0 \<le> qty_get (ord_filled o')"
    using assms(2,4) by (simp_all add: order_inv_def valid_qty_def)
  then have "qty_get (ord_filled o') \<le> c" "0 \<le> c"
    using dec_add_grows [OF assms(1) c] by simp_all
  then show ?thesis
    by (simp add: o'' order_inv_def valid_qty_def not_le)
qed

lemma order_step_inv:
  assumes "dec_rounded A" "order_inv o'" "order_step A o' e = Some o''" "\<forall>q. e = OFill q \<longrightarrow> valid_qty q"
  shows "order_inv o'' \<and> qty_get (ord_filled o') \<le> qty_get (ord_filled o'') \<and>
    (ord_id o'', ord_side o'', ord_qty o'') = (ord_id o', ord_side o', ord_qty o')"
proof (cases e)
  case (OFill q)
  then show ?thesis using assms order_on_fill_inv [OF assms(1,2)] by simp
next
  case OSubmit
  then show ?thesis using assms(2,3) by (auto simp: order_submit_def order_inv_def split: if_splits)
next
  case OReject
  then show ?thesis using assms(2,3) by (auto simp: order_reject_def order_inv_def split: if_splits)
next
  case OCancel
  then show ?thesis using assms(2,3) by (auto simp: order_cancel_def order_inv_def split: if_splits)
qed

lemma order_terminal_stays:
  "order_is_terminal o' \<Longrightarrow> order_step A o' e = Some o'' \<Longrightarrow> o'' = o'"
  by (cases e) (auto simp: order_submit_def order_on_fill_def order_reject_def order_cancel_def
      order_is_terminal_def)

lemma order_terminal_run: "order_is_terminal o' \<Longrightarrow> order_run A o' es = Some o'' \<Longrightarrow> o'' = o'"
  by (induction es arbitrary: o') (auto simp: panic_simps dest: order_terminal_stays)

lemma order_run_inv:
  assumes "dec_rounded A" "order_inv o'" "order_run A o' es = Some o''" "\<forall>q. OFill q \<in> set es \<longrightarrow> valid_qty q"
  shows "order_inv o'' \<and> qty_get (ord_filled o') \<le> qty_get (ord_filled o'') \<and>
    (ord_id o'', ord_side o'', ord_qty o'') = (ord_id o', ord_side o', ord_qty o')"
  using assms(2-4)
proof (induction es arbitrary: o')
  case Nil
  then show ?case by simp
next
  case (Cons e es)
  then obtain o1 where o1: "order_step A o' e = Some o1" "order_run A o1 es = Some o''"
    by (auto simp: panic_simps)
  from order_step_inv [OF assms(1) Cons.prems(1) o1(1)] Cons.prems(3)
  have s: "order_inv o1 \<and> qty_get (ord_filled o') \<le> qty_get (ord_filled o1) \<and>
    (ord_id o1, ord_side o1, ord_qty o1) = (ord_id o', ord_side o', ord_qty o')" by auto
  from Cons.IH [OF _ o1(2)] s Cons.prems(3) show ?case by auto
qed

section \<open>From an absolute target to an order delta\<close>

record edge_intent =
  ei_side :: side
  ei_qty :: qty

text \<open>The outer option is the panic of the division or subtraction, the inner one the code's.\<close>

definition plan_delta :: "dec_arith \<Rightarrow> notional \<Rightarrow> decimal \<Rightarrow> price \<Rightarrow> edge_intent option option" where
  "plan_delta A target current_qty mark =
     (let m = price_get mark
      in if m = 0 then Some None
         else Option.bind (dec_div A (notional_get target) m) (\<lambda>target_qty.
              Option.bind (dec_sub A target_qty current_qty) (\<lambda>delta.
                if delta = 0 then Some None
                else Some (Some \<lparr>ei_side = (if delta < 0 then Sell else Buy),
                                 ei_qty = qty_abs_of delta\<rparr>))))"

fun side_sign :: "side \<Rightarrow> rat" where
  "side_sign Buy = 1"
| "side_sign Sell = -1"

definition signed_size :: "edge_intent \<Rightarrow> decimal" where
  "signed_size i = side_sign (ei_side i) * qty_get (ei_qty i)"

text \<open>Adding to or subtracting from a signed position, as both the keeper and the simulator do.\<close>

definition apply_side :: "dec_arith \<Rightarrow> decimal \<Rightarrow> side \<Rightarrow> qty \<Rightarrow> decimal option" where
  "apply_side A signed s q =
     (case s of Buy \<Rightarrow> dec_add A signed (qty_get q) | Sell \<Rightarrow> dec_sub A signed (qty_get q))"

lemma apply_side_exact:
  "dec_exact A \<Longrightarrow> apply_side A x s q = Some y \<Longrightarrow> y = x + side_sign s * qty_get q"
  by (cases s) (auto simp: apply_side_def dest: dec_exactD)

lemma plan_delta_Some:
  "plan_delta A target cur mark = Some (Some i) \<longleftrightarrow>
     price_get mark \<noteq> 0 \<and>
     (\<exists>tq d. dec_div A (notional_get target) (price_get mark) = Some tq \<and> dec_sub A tq cur = Some d \<and>
        d \<noteq> 0 \<and> i = \<lparr>ei_side = (if d < 0 then Sell else Buy), ei_qty = qty_abs_of d\<rparr>)"
  by (auto simp: plan_delta_def panic_simps Let_def split: if_splits)

lemma plan_delta_size:
  assumes "dec_exact A" and "plan_delta A target cur mark = Some (Some i)"
  shows "\<exists>tq. dec_div A (notional_get target) (price_get mark) = Some tq \<and> cur + signed_size i = tq \<and>
    0 < qty_get (ei_qty i)"
  using assms by (fastforce simp: plan_delta_Some signed_size_def dest: dec_exactD)

section \<open>The position keeper\<close>

definition signed_from_report :: "position_report \<Rightarrow> decimal" where
  "signed_from_report r =
     (case pr_direction r of
        Some Long \<Rightarrow> qty_get (pr_qty r)
      | Some Short \<Rightarrow> - qty_get (pr_qty r)
      | None \<Rightarrow> 0)"

record venue_keeper =
  vk_instrument :: instrument_id
  vk_signed_qty :: decimal
  vk_mark :: price
  vk_equity :: notional
  vk_available_margin :: notional

definition keeper_new :: "instrument_id \<Rightarrow> notional \<Rightarrow> venue_keeper" where
  "keeper_new i equity = \<lparr>vk_instrument = i, vk_signed_qty = 0, vk_mark = price_zero,
     vk_equity = equity, vk_available_margin = equity\<rparr>"

definition keeper_apply :: "dec_arith \<Rightarrow> venue_keeper \<Rightarrow> user_data_event \<Rightarrow> venue_keeper option" where
  "keeper_apply A k event =
     (case event of
        FillEvent f \<Rightarrow>
          (if fill_instrument f = vk_instrument k
           then map_option (\<lambda>q. k\<lparr>vk_signed_qty := q\<rparr>)
                  (apply_side A (vk_signed_qty k) (fill_side f) (fill_qty f))
           else Some k)
      | PositionEvent r \<Rightarrow>
          (if pr_instrument r = vk_instrument k
           then Some (k\<lparr>vk_signed_qty := signed_from_report r\<rparr>) else Some k)
      | SnapshotEvent s \<Rightarrow>
          Some (k\<lparr>vk_signed_qty :=
            (case find (\<lambda>r. pr_instrument r = vk_instrument k) (snap_positions s) of
               Some r \<Rightarrow> signed_from_report r | None \<Rightarrow> 0)\<rparr>)
      | _ \<Rightarrow> Some k)"

definition observe_mark :: "venue_keeper \<Rightarrow> price \<Rightarrow> venue_keeper" where
  "observe_mark k mark = k\<lparr>vk_mark := mark\<rparr>"

definition observe_balance :: "venue_keeper \<Rightarrow> notional \<Rightarrow> notional \<Rightarrow> venue_keeper" where
  "observe_balance k equity avail = k\<lparr>vk_equity := equity, vk_available_margin := avail\<rparr>"

definition position_notional :: "dec_arith \<Rightarrow> venue_keeper \<Rightarrow> notional option" where
  "position_notional A k = map_option Notional (dec_mul A (vk_signed_qty k) (price_get (vk_mark k)))"

definition keeper_capital :: "venue_keeper \<Rightarrow> capital_view" where
  "keeper_capital k = \<lparr>cv_equity = vk_equity k, cv_available_margin = vk_available_margin k\<rparr>"

section \<open>The simulator\<close>

record sim_fill =
  sf_order :: order
  sf_event :: user_data_event

record venue_simulator =
  vs_instrument :: instrument_id
  vs_next_order_id :: u64
  vs_next_trade_id :: u64
  vs_signed_qty :: decimal
  vs_last_price :: price
  vs_submitted :: u64

definition simulator_new :: "instrument_id \<Rightarrow> venue_simulator" where
  "simulator_new i = \<lparr>vs_instrument = i, vs_next_order_id = 1, vs_next_trade_id = 1,
     vs_signed_qty = 0, vs_last_price = price_zero, vs_submitted = 0\<rparr>"

definition simulator_submit ::
  "dec_arith \<Rightarrow> venue_simulator \<Rightarrow> edge_intent \<Rightarrow> price \<Rightarrow> i64 \<Rightarrow> (sim_fill \<times> venue_simulator) option" where
  "simulator_submit A sm intent px event_time =
     (let order_id = vs_next_order_id sm; trade_id = vs_next_trade_id sm
      in Option.bind (order_on_fill A (order_submit (order_new order_id (ei_side intent) (ei_qty intent)))
                        (ei_qty intent)) (\<lambda>ord.
         map_option (\<lambda>signed.
             (\<lparr>sf_order = ord,
               sf_event = FillEvent \<lparr>fill_instrument = vs_instrument sm, fill_side = ei_side intent,
                 fill_price = px, fill_qty = ei_qty intent, fill_order_id = order_id,
                 fill_trade_id = trade_id, fill_time_ms = event_time\<rparr>\<rparr>,
              sm\<lparr>vs_next_order_id := u64_add order_id 1, vs_next_trade_id := u64_add trade_id 1,
                 vs_submitted := u64_add (vs_submitted sm) 1, vs_last_price := px,
                 vs_signed_qty := signed\<rparr>))
           (apply_side A (vs_signed_qty sm) (ei_side intent) (ei_qty intent))))"

definition position_report_of :: "venue_simulator \<Rightarrow> i64 \<Rightarrow> position_report" where
  "position_report_of sm event_time =
     (let (dir, q) =
        (if vs_signed_qty sm = 0 then (None, qty_zero)
         else if vs_signed_qty sm < 0 then (Some Short, qty_abs_of (vs_signed_qty sm))
         else (Some Long, qty_abs_of (vs_signed_qty sm)))
      in \<lparr>pr_instrument = vs_instrument sm, pr_direction = dir, pr_qty = q,
          pr_entry_price = vs_last_price sm, pr_time_ms = event_time\<rparr>)"

lemma signed_from_report_of [simp]: "signed_from_report (position_report_of sm t) = vs_signed_qty sm"
  by (simp add: signed_from_report_def position_report_of_def qty_zero_def)

lemma position_report_of_instrument [simp]: "pr_instrument (position_report_of sm t) = vs_instrument sm"
  by (simp add: position_report_of_def Let_def)

lemma simulator_submit_Some:
  assumes "simulator_submit A sm i p t = Some (f, sm')"
  shows "apply_side A (vs_signed_qty sm) (ei_side i) (ei_qty i) = Some (vs_signed_qty sm')"
    and "vs_instrument sm' = vs_instrument sm"
    and "vs_submitted sm' = u64_add (vs_submitted sm) 1"
    and "\<exists>fl. sf_event f = FillEvent fl \<and> fill_instrument fl = vs_instrument sm \<and>
           fill_side fl = ei_side i \<and> fill_qty fl = ei_qty i"
  using assms by (auto simp: simulator_submit_def Let_def panic_simps)

text \<open>
  Keeper and simulator agree: a keeper that absorbs the simulator's fill event lands on the
  simulator's own position, however the decimal package rounds.
\<close>

lemma keeper_tracks_simulator:
  assumes "simulator_submit A sm i p t = Some (f, sm')"
    and "vk_instrument k = vs_instrument sm" and "vk_signed_qty k = vs_signed_qty sm"
  shows "keeper_apply A k (sf_event f) = Some (k\<lparr>vk_signed_qty := vs_signed_qty sm'\<rparr>)"
  using simulator_submit_Some [OF assms(1)] assms(2,3)
  by (auto simp: keeper_apply_def)

lemma keeper_apply_frame:
  "keeper_apply A k e = Some k' \<Longrightarrow> vk_instrument k' = vk_instrument k \<and> vk_mark k' = vk_mark k \<and>
     keeper_capital k' = keeper_capital k"
  by (auto simp: keeper_apply_def keeper_capital_def split: user_data_event.splits if_splits)

text \<open>
  Over any sequence of lifecycle events an order never leaves a terminal state, its identity
  and ordered quantity never change, its cumulative fill never decreases, and \<open>Filled\<close> means
  filled in full.
\<close>

theorem order_lifecycle:
  assumes "dec_rounded A" and "\<forall>q. OFill q \<in> set (es @ es') \<longrightarrow> valid_qty q"
    and "order_run A (order_new i s q0) es = Some o1" and "order_run A o1 es' = Some o2"
  shows "(order_is_terminal o1 \<longrightarrow> o2 = o1) \<and>
    (ord_id o2, ord_side o2, ord_qty o2) = (i, s, q0) \<and>
    qty_get (ord_filled o1) \<le> qty_get (ord_filled o2) \<and>
    (ord_state o2 = Filled \<longrightarrow> qty_get q0 \<le> qty_get (ord_filled o2))"
proof -
  have "order_inv (order_new i s q0)"
    by (simp add: order_inv_def order_new_def valid_qty_def qty_zero_def)
  from order_run_inv [OF assms(1) this assms(3)] assms(2)
  have o1: "order_inv o1 \<and> (ord_id o1, ord_side o1, ord_qty o1) = (i, s, q0)"
    by (auto simp: order_new_def)
  from order_run_inv [OF assms(1) _ assms(4)] o1 assms(2) show ?thesis
    using order_terminal_run [OF _ assms(4)] by (auto simp: order_inv_def)
qed

theorem order_lifecycle_witness:
  "\<exists>o1 o2. order_run (bounded_dec 100) (order_new 7 Buy (Qty 2)) [OSubmit, OFill (Qty 2)] = Some o1 \<and>
     order_is_terminal o1 \<and> order_run (bounded_dec 100) o1 [OFill (Qty 3), OCancel] = Some o2 \<and> o2 = o1"
proof -
  let ?o1 = "\<lparr>ord_id = 7, ord_side = Buy, ord_qty = Qty 2, ord_filled = Qty 2, ord_state = Filled\<rparr>"
  have r1: "order_run (bounded_dec 100) (order_new 7 Buy (Qty 2)) [OSubmit, OFill (Qty 2)] = Some ?o1"
    by (simp add: order_new_def order_submit_def order_on_fill_def order_is_terminal_def qty_add_def
        qty_zero_def bounded_dec_def)
  have r2: "order_run (bounded_dec 100) ?o1 [OFill (Qty 3), OCancel] = Some ?o1"
    by (simp add: order_on_fill_def order_is_terminal_def order_cancel_def)
  from order_lifecycle [OF bounded_dec_rounded _ r1 r2] have "order_is_terminal ?o1 \<longrightarrow> ?o1 = ?o1"
    by (auto simp: valid_qty_def)
  with r1 r2 show ?thesis
    by (simp add: order_is_terminal_def)
qed

end
