(* ===== verification/Kill_Switch.thy ===== *)
theory Kill_Switch imports Money_Bars Error_Taxonomy begin

text \<open>
  The out-of-band kill switch and the order-gate contract (crate \<open>qe-risk\<close>, \<open>kill.rs\<close> and
  \<open>gate.rs\<close>). A handle is shared by cloning an \<open>Arc\<close>, so all holders read one \<open>kill_state\<close>.
  \<open>trip\<close> holds the reason's mutex while it first writes the reason and then stores the flag;
  \<open>kill_step\<close> is that two-step critical section interleaved with lock-free readers. The
  \<open>OrderGate\<close> trait's default methods are definitions over the state its handle points to, and
  the locale \<open>order_gate\<close> is the contract a gate's clients rely on.
\<close>

section \<open>The latching handle\<close>

record kill_state =
  kill_tripped :: bool
  kill_slot :: "string option"

definition kill_new :: kill_state where
  "kill_new = \<lparr>kill_tripped = False, kill_slot = None\<rparr>"

definition is_tripped :: "kill_state \<Rightarrow> bool" where
  "is_tripped k = kill_tripped k"

definition kill_reason_of :: "kill_state \<Rightarrow> string option" where
  "kill_reason_of k = kill_slot k"

definition trip_write_reason :: "string \<Rightarrow> kill_state \<Rightarrow> kill_state" where
  "trip_write_reason reason k = (if kill_slot k = None then k\<lparr>kill_slot := Some reason\<rparr> else k)"

definition trip_store_flag :: "kill_state \<Rightarrow> kill_state" where
  "trip_store_flag k = k\<lparr>kill_tripped := True\<rparr>"

definition trip :: "kill_state \<Rightarrow> string \<Rightarrow> kill_state" where
  "trip k reason = trip_store_flag (trip_write_reason reason k)"

lemma trip_simps [simp]:
  "is_tripped (trip k r)"
  "kill_reason_of (trip k r) = Some (case kill_reason_of k of None \<Rightarrow> r | Some r0 \<Rightarrow> r0)"
  by (auto simp: trip_def trip_store_flag_def trip_write_reason_def is_tripped_def kill_reason_of_def)

lemma trip_idempotent: "trip (trip k r) r' = trip k r"
  by (simp add: trip_def trip_store_flag_def trip_write_reason_def)

lemma kill_new_live [simp]: "\<not> is_tripped kill_new"
  by (simp add: kill_new_def is_tripped_def)

text \<open>The shared state together with whether some \<open>trip\<close> call is inside its critical section.\<close>

record kill_shared = kill_state +
  mutex_held :: bool

definition kill_init :: kill_shared where
  "kill_init = \<lparr>kill_tripped = False, kill_slot = None, mutex_held = False\<rparr>"

definition shared_view :: "kill_shared \<Rightarrow> kill_state" where
  "shared_view s = \<lparr>kill_tripped = kill_tripped s, kill_slot = kill_slot s\<rparr>"

inductive kill_step :: "kill_shared \<Rightarrow> kill_shared \<Rightarrow> bool" where
  enter: "\<not> mutex_held s \<Longrightarrow>
    kill_step s (s\<lparr>kill_slot := kill_slot (trip_write_reason r (shared_view s)), mutex_held := True\<rparr>)"
| leave: "mutex_held s \<Longrightarrow>
    kill_step s (s\<lparr>kill_tripped := kill_tripped (trip_store_flag (shared_view s)), mutex_held := False\<rparr>)"

inductive kill_reach :: "kill_shared \<Rightarrow> bool" where
  init: "kill_reach kill_init"
| step: "kill_reach s \<Longrightarrow> kill_step s t \<Longrightarrow> kill_reach t"

inductive_cases kill_stepE: "kill_step s t"

definition kill_inv :: "kill_shared \<Rightarrow> bool" where
  "kill_inv s \<longleftrightarrow> (kill_tripped s \<or> mutex_held s \<longrightarrow> kill_slot s \<noteq> None)"

lemma kill_step_slot: "kill_step s t \<Longrightarrow> kill_slot s = Some r \<Longrightarrow> kill_slot t = Some r"
  by (erule kill_stepE) (auto simp: trip_write_reason_def shared_view_def)

lemma kill_step_latched: "kill_step s t \<Longrightarrow> kill_tripped s \<Longrightarrow> kill_tripped t"
  by (erule kill_stepE) (auto simp: trip_store_flag_def)

lemma kill_step_inv: "kill_step s t \<Longrightarrow> kill_inv s \<Longrightarrow> kill_inv t"
  by (erule kill_stepE) (auto simp: kill_inv_def trip_write_reason_def shared_view_def)

lemma kill_reach_inv: "kill_reach s \<Longrightarrow> kill_inv s"
  by (induction rule: kill_reach.induct) (auto simp: kill_inv_def kill_init_def dest: kill_step_inv)

lemma kill_steps_latched:
  assumes "kill_step\<^sup>*\<^sup>* s t"
  shows "(kill_tripped s \<longrightarrow> kill_tripped t) \<and> (\<forall>r. kill_slot s = Some r \<longrightarrow> kill_slot t = Some r)"
  using assms by (induction rule: rtranclp_induct) (auto dest: kill_step_latched kill_step_slot)

section \<open>The order gate\<close>

record order_intent =
  oi_instrument :: instrument_id
  oi_direction :: direction
  oi_qty :: qty
  oi_price :: price

datatype admission = Admit | Clamp qty | Reject string | FlattenAndHalt string

datatype kill_context = KillContext string

type_synonym kill_error = "(kill_context, unit) qe_error"

definition gate_kill_reason :: "kill_state \<Rightarrow> string" where
  "gate_kill_reason k =
     (case kill_reason_of k of Some r \<Rightarrow> r | None \<Rightarrow> ''kill switch tripped'')"

definition kill_precheck :: "kill_state \<Rightarrow> admission option" where
  "kill_precheck k = (if is_tripped k then Some (FlattenAndHalt (gate_kill_reason k)) else None)"

definition gate_admit :: "kill_state \<Rightarrow> (order_intent \<Rightarrow> admission) \<Rightarrow> order_intent \<Rightarrow> admission" where
  "gate_admit k within_limits intent =
     (case kill_precheck k of Some halt \<Rightarrow> halt | None \<Rightarrow> within_limits intent)"

definition ensure_live :: "kill_state \<Rightarrow> (kill_error, unit) result" where
  "ensure_live k =
     (if is_tripped k
      then Inl (qe_fatal (KillContext (case kill_reason_of k of Some r \<Rightarrow> r | None \<Rightarrow> ''out-of-band halt'')))
      else Inr ())"

definition conformance_intent :: order_intent where
  "conformance_intent =
     \<lparr>oi_instrument = InstrumentId ''BTCUSDT'', oi_direction = Long, oi_qty = Qty 1, oi_price = Price 1\<rparr>"

text \<open>
  \<open>assert_honours_kill_switch\<close>: \<open>admit\<close> is the gate's own admission method as a function of the
  state its handle points to; the answer says whether none of the assertions fails.
\<close>

definition is_flatten_and_halt :: "admission \<Rightarrow> bool" where
  "is_flatten_and_halt a = (case a of FlattenAndHalt _ \<Rightarrow> True | _ \<Rightarrow> False)"

definition assert_honours_kill_switch ::
  "(kill_state \<Rightarrow> order_intent \<Rightarrow> admission) \<Rightarrow> kill_state \<Rightarrow> bool" where
  "assert_honours_kill_switch admit k =
     (kill_precheck k = None \<and> ensure_live k = Inr () \<and>
      (let k' = trip k ''conformance''
       in (case kill_precheck k' of Some a \<Rightarrow> is_flatten_and_halt a | None \<Rightarrow> False) \<and>
          is_flatten_and_halt (admit k' conformance_intent) \<and>
          (case ensure_live k' of Inl e \<Rightarrow> qe_disposition e = Halt | Inr _ \<Rightarrow> False)))"

text \<open>
  The contract of the trait: \<open>kill_of\<close> is the required handle, \<open>limits_of\<close> the gate's own limit
  decision and \<open>admit_of\<close> the admission its callers use, which the default method makes the kill
  check followed by \<open>limits_of\<close>.
\<close>

locale order_gate =
  fixes kill_of :: "'g \<Rightarrow> kill_state"
    and limits_of :: "'g \<Rightarrow> order_intent \<Rightarrow> admission"
    and admit_of :: "'g \<Rightarrow> order_intent \<Rightarrow> admission"
  assumes admit_default: "admit_of g i = gate_admit (kill_of g) (limits_of g) i"
begin

lemma tripped_halts:
  "is_tripped (kill_of g) \<Longrightarrow> admit_of g i = FlattenAndHalt (gate_kill_reason (kill_of g))"
  by (simp add: admit_default gate_admit_def kill_precheck_def)

lemma live_decides: "\<not> is_tripped (kill_of g) \<Longrightarrow> admit_of g i = limits_of g i"
  by (simp add: admit_default gate_admit_def kill_precheck_def)

lemma never_submits_while_tripped:
  "is_tripped (kill_of g) \<Longrightarrow> admit_of g i \<noteq> Admit \<and> admit_of g i \<noteq> Clamp q"
  by (simp add: tripped_halts)

end

lemma default_gate_conforms:
  "assert_honours_kill_switch (\<lambda>k. gate_admit k (limits k)) k \<longleftrightarrow> \<not> is_tripped k"
  by (auto simp: assert_honours_kill_switch_def kill_precheck_def ensure_live_def gate_admit_def
      is_flatten_and_halt_def qe_disposition_def qe_fatal_def qe_error_new_def Let_def)

text \<open>
  Under any interleaving of concurrent \<open>trip\<close> calls with readers, the switch latches: once a
  reader has seen it tripped it stays tripped, the first reason stays, and a tripped switch
  always has a reason, so the reason a gate reports is the first trip's and never a fallback.
\<close>

theorem kill_switch_latches:
  assumes "kill_reach s" and "kill_step\<^sup>*\<^sup>* s t" and "is_tripped (shared_view s)"
  shows "is_tripped (shared_view t) \<and>
    (\<exists>r. kill_reason_of (shared_view s) = Some r \<and>
         kill_precheck (shared_view t) = Some (FlattenAndHalt r))"
proof -
  from kill_reach_inv [OF assms(1)] assms(3) obtain r where r: "kill_slot s = Some r"
    by (auto simp: kill_inv_def is_tripped_def shared_view_def)
  have "kill_tripped t" "kill_slot t = Some r"
    using kill_steps_latched [OF assms(2)] assms(3) r by (auto simp: is_tripped_def shared_view_def)
  then show ?thesis
    using r by (simp add: is_tripped_def shared_view_def kill_reason_of_def kill_precheck_def
        gate_kill_reason_def)
qed

theorem kill_switch_latches_witness:
  "kill_precheck \<lparr>kill_tripped = True, kill_slot = Some ''skew''\<rparr> = Some (FlattenAndHalt ''skew'')"
proof -
  let ?s1 = "kill_init\<lparr>kill_slot := Some ''skew'', mutex_held := True\<rparr>"
  let ?s2 = "?s1\<lparr>kill_tripped := True, mutex_held := False\<rparr>"
  have "kill_step kill_init ?s1"
    using kill_step.enter [of kill_init "''skew''"]
    by (simp add: kill_init_def trip_write_reason_def shared_view_def)
  moreover have "kill_step ?s1 ?s2"
    using kill_step.leave [of ?s1] by (simp add: trip_store_flag_def)
  ultimately have reach: "kill_reach ?s2"
    using kill_reach.step [OF kill_reach.step [OF kill_reach.init]] by blast
  have "is_tripped (shared_view ?s2)"
    by (simp add: is_tripped_def shared_view_def kill_init_def)
  from kill_switch_latches [OF reach rtranclp.rtrancl_refl this] show ?thesis
    by (simp add: shared_view_def kill_init_def kill_reason_of_def)
qed

end
