(* ===== verification/Kill_Gate.thy ===== *)
theory Kill_Gate imports Edge_Gateway Kill_Switch begin

text \<open>
  The out-of-band kill switch at the venue adapter (\<open>qe-edge\<close>, \<open>kill_gate.rs\<close>): normal
  submission is refused while the handle is tripped, and \<open>enforce_kill\<close> flattens the kept
  position once. The gate provides the \<open>order_gate\<close> contract of the risk crate. The handle is an
  \<open>Arc\<close>, so the \<open>kill_state\<close> a gate points to is a component of it that others may advance.
\<close>

section \<open>The gate\<close>

datatype kill_halt = KillHalt (halt_reason: string)

datatype kill_outcome = Live | Flattened "sim_fill option" | Halted

record venue_kill_gate =
  vg_kill :: kill_state
  vg_sim :: venue_simulator
  vg_flattened :: bool

definition flatten_intent :: "decimal \<Rightarrow> edge_intent option" where
  "flatten_intent current_qty =
     (if current_qty = 0 then None
      else Some \<lparr>ei_side = (if current_qty < 0 then Buy else Sell), ei_qty = qty_abs_of current_qty\<rparr>)"

definition kill_gate_new :: "kill_state \<Rightarrow> venue_simulator \<Rightarrow> venue_kill_gate" where
  "kill_gate_new k sm = \<lparr>vg_kill = k, vg_sim = sm, vg_flattened = False\<rparr>"

text \<open>The outer option is the panic of the simulator's decimal arithmetic.\<close>

definition kill_gate_submit ::
  "dec_arith \<Rightarrow> venue_kill_gate \<Rightarrow> edge_intent \<Rightarrow> price \<Rightarrow> i64
     \<Rightarrow> ((kill_halt, sim_fill) result \<times> venue_kill_gate) option" where
  "kill_gate_submit A g intent px event_time_ms =
     (if is_tripped (vg_kill g) then Some (Inl (KillHalt (gate_kill_reason (vg_kill g))), g)
      else map_option (\<lambda>(f, sm). (Inr f, g\<lparr>vg_sim := sm\<rparr>))
             (simulator_submit A (vg_sim g) intent px event_time_ms))"

definition enforce_kill ::
  "dec_arith \<Rightarrow> venue_kill_gate \<Rightarrow> decimal \<Rightarrow> price \<Rightarrow> i64 \<Rightarrow> (kill_outcome \<times> venue_kill_gate) option" where
  "enforce_kill A g current_qty px event_time_ms =
     (if \<not> is_tripped (vg_kill g) then Some (Live, g)
      else if vg_flattened g then Some (Halted, g)
      else case flatten_intent current_qty of
        Some intent \<Rightarrow>
          map_option (\<lambda>(f, sm). (Flattened (Some f), g\<lparr>vg_sim := sm, vg_flattened := True\<rparr>))
            (simulator_submit A (vg_sim g) intent px event_time_ms)
      | None \<Rightarrow> Some (Flattened None, g))"

text \<open>The gate as an \<open>OrderGate\<close>: the handle, no limit of its own, and the trait's default \<open>admit\<close>.\<close>

definition kill_gate_within_limits :: "venue_kill_gate \<Rightarrow> order_intent \<Rightarrow> admission" where
  "kill_gate_within_limits g intent = Admit"

definition kill_gate_admit :: "venue_kill_gate \<Rightarrow> order_intent \<Rightarrow> admission" where
  "kill_gate_admit g intent = gate_admit (vg_kill g) (kill_gate_within_limits g) intent"

interpretation vkg: order_gate vg_kill kill_gate_within_limits kill_gate_admit
  by unfold_locales (simp add: kill_gate_admit_def)

section \<open>Classes of the edge's errors\<close>

definition kill_halt_class :: "kill_halt \<Rightarrow> error_class" where
  "kill_halt_class h = Fatal"

definition kill_halt_disposition :: "kill_halt \<Rightarrow> disposition" where
  "kill_halt_disposition h = class_disposition (kill_halt_class h)"

interpretation kill_halt: classified kill_halt_class kill_halt_disposition
  by unfold_locales (simp add: kill_halt_disposition_def)

section \<open>Behaviour\<close>

lemma flatten_intent_Some:
  "flatten_intent q = Some i \<longleftrightarrow> q \<noteq> 0 \<and> q + signed_size i = 0 \<and> ei_qty i = qty_abs_of q \<and>
     ei_side i = (if q < 0 then Buy else Sell)"
  by (cases i) (auto simp: flatten_intent_def signed_size_def)

lemma flatten_intent_None [simp]: "flatten_intent q = None \<longleftrightarrow> q = 0"
  by (simp add: flatten_intent_def)

lemma kill_gate_submit_tripped:
  "is_tripped (vg_kill g) \<Longrightarrow>
     kill_gate_submit A g i p t = Some (Inl (KillHalt (gate_kill_reason (vg_kill g))), g)"
  by (simp add: kill_gate_submit_def)

lemma kill_gate_submit_Inr:
  assumes "kill_gate_submit A g i p t = Some (Inr f, g')"
  shows "\<not> is_tripped (vg_kill g)" and "\<exists>sm. simulator_submit A (vg_sim g) i p t = Some (f, sm) \<and>
    g' = g\<lparr>vg_sim := sm\<rparr>"
  using assms by (auto simp: kill_gate_submit_def split: if_splits)

lemma kill_gate_submit_Inl:
  "kill_gate_submit A g i p t = Some (Inl h, g') \<Longrightarrow>
     is_tripped (vg_kill g) \<and> g' = g \<and> h = KillHalt (gate_kill_reason (vg_kill g))"
  by (auto simp: kill_gate_submit_def split: if_splits)

text \<open>The halt a caller of \<open>submit\<close> sees and the one a caller of \<open>admit\<close> sees give the same reason.\<close>

lemma submit_and_admit_agree:
  "is_tripped (vg_kill g) \<Longrightarrow>
     \<exists>r. kill_gate_submit A g i p t = Some (Inl (KillHalt r), g) \<and> kill_gate_admit g j = FlattenAndHalt r"
  by (simp add: kill_gate_submit_tripped vkg.tripped_halts)

lemma enforce_kill_live: "\<not> is_tripped (vg_kill g) \<Longrightarrow> enforce_kill A g q p t = Some (Live, g)"
  by (simp add: enforce_kill_def)

lemma enforce_kill_halted:
  "is_tripped (vg_kill g) \<Longrightarrow> vg_flattened g \<Longrightarrow> enforce_kill A g q p t = Some (Halted, g)"
  by (simp add: enforce_kill_def)

lemma enforce_kill_armed:
  "is_tripped (vg_kill g) \<Longrightarrow> \<not> vg_flattened g \<Longrightarrow> enforce_kill A g 0 p t = Some (Flattened None, g)"
  by (simp add: enforce_kill_def flatten_intent_def)

lemma enforce_kill_flattens:
  assumes "is_tripped (vg_kill g)" "\<not> vg_flattened g" "q \<noteq> 0"
    and "enforce_kill A g q p t = Some (out, g')"
  obtains i f sm where "flatten_intent q = Some i" "simulator_submit A (vg_sim g) i p t = Some (f, sm)"
    "out = Flattened (Some f)" "g' = g\<lparr>vg_sim := sm, vg_flattened := True\<rparr>"
  using assms by (auto simp: enforce_kill_def split: option.splits)

text \<open>Any sequence of ticks, each with the kept position, a price and a time the caller supplies.\<close>

type_synonym kill_tick = "decimal \<times> price \<times> i64"

fun enforce_ticks ::
  "dec_arith \<Rightarrow> venue_kill_gate \<Rightarrow> kill_tick list \<Rightarrow> (kill_outcome list \<times> venue_kill_gate) option" where
  "enforce_ticks A g [] = Some ([], g)"
| "enforce_ticks A g ((q, p, t) # ts) =
     Option.bind (enforce_kill A g q p t) (\<lambda>(out, g').
       map_option (\<lambda>(outs, g''). (out # outs, g'')) (enforce_ticks A g' ts))"

fun is_flatten_fill :: "kill_outcome \<Rightarrow> bool" where
  "is_flatten_fill (Flattened (Some _)) = True"
| "is_flatten_fill _ = False"

lemma enforce_ticks_halted:
  "is_tripped (vg_kill g) \<Longrightarrow> vg_flattened g \<Longrightarrow>
     enforce_ticks A g ts = Some (replicate (length ts) Halted, g)"
  by (induction ts) (auto simp: enforce_kill_halted)

lemma enforce_ticks_flat:
  "is_tripped (vg_kill g) \<Longrightarrow> \<not> vg_flattened g \<Longrightarrow> \<forall>(q, p, t) \<in> set ts. q = 0 \<Longrightarrow>
     enforce_ticks A g ts = Some (replicate (length ts) (Flattened None), g)"
  by (induction ts) (auto simp: enforce_kill_armed)

lemma enforce_ticks_append:
  "enforce_ticks A g (xs @ ys) = Option.bind (enforce_ticks A g xs) (\<lambda>(outs, g').
     map_option (\<lambda>(outs', g''). (outs @ outs', g'')) (enforce_ticks A g' ys))"
proof (induction xs arbitrary: g)
  case Nil
  show ?case by (cases "enforce_ticks A g ys") auto
next
  case (Cons x xs)
  obtain q p t where x: "x = (q, p, t)" by (cases x)
  show ?case
    by (cases "enforce_kill A g q p t")
      (auto simp: x Cons.IH panic_simps map_option_case split: option.splits)
qed

text \<open>
  C16. Once tripped, the kill gate flattens exactly once over any sequence of ticks: it stays armed
  while the reported position is flat or unknown, closes the first non-flat position it is given
  in full, on the opposite side, and answers \<open>Halted\<close> on every later tick without sending
  another order, even when a lagging keeper keeps reporting the old position.
\<close>

theorem kill_flattens_once:
  assumes "is_tripped (vg_kill g)" and "\<not> vg_flattened g"
    and "\<forall>(q', p', t') \<in> set before. q' = 0" and "q \<noteq> 0"
    and "enforce_ticks A g (before @ (q, p, t) # after) = Some (outs, g')"
  shows "\<exists>i f sm. signed_size i = - q \<and> simulator_submit A (vg_sim g) i p t = Some (f, sm) \<and>
    outs = replicate (length before) (Flattened None) @ Flattened (Some f) # replicate (length after) Halted \<and>
    vg_sim g' = sm \<and> kill_gate_submit A g' j p' t' = Some (Inl (KillHalt (gate_kill_reason (vg_kill g))), g')"
proof -
  from enforce_ticks_flat [OF assms(1-3)] assms(5)
  obtain out g1 rest where tick: "enforce_kill A g q p t = Some (out, g1)"
    and rest: "enforce_ticks A g1 after = Some (rest, g')"
    and outs: "outs = replicate (length before) (Flattened None) @ out # rest"
    by (auto simp: enforce_ticks_append panic_simps)
  from enforce_kill_flattens [OF assms(1,2,4) tick] obtain i f sm where
    i: "flatten_intent q = Some i" and s: "simulator_submit A (vg_sim g) i p t = Some (f, sm)"
    and out: "out = Flattened (Some f)" and g1: "g1 = g\<lparr>vg_sim := sm, vg_flattened := True\<rparr>" .
  have "rest = replicate (length after) Halted" "g' = g1"
    using enforce_ticks_halted [of g1 A after] rest assms(1) by (simp_all add: g1)
  moreover have "signed_size i = - q"
    using i by (simp add: flatten_intent_Some add_eq_0_iff)
  ultimately show ?thesis
    using s out outs g1 assms(1) by (auto simp: kill_gate_submit_tripped)
qed

theorem kill_flattens_once_witness:
  "\<exists>f g'. enforce_ticks (bounded_dec 100)
      \<lparr>vg_kill = trip kill_new ''skew'', vg_sim = (simulator_new (InstrumentId ''BTC''))\<lparr>vs_signed_qty := 3\<rparr>,
       vg_flattened = False\<rparr>
      [(0, Price 9, 1), (3, Price 9, 2), (3, Price 9, 3)]
    = Some ([Flattened None, Flattened (Some f), Halted], g') \<and> vs_signed_qty (vg_sim g') = 0"
proof -
  let ?g = "\<lparr>vg_kill = trip kill_new ''skew'',
    vg_sim = (simulator_new (InstrumentId ''BTC''))\<lparr>vs_signed_qty := 3\<rparr>, vg_flattened = False\<rparr>"
  let ?A = "bounded_dec 100"
  obtain outs g' where run: "enforce_ticks ?A ?g ([(0, Price 9, 1)] @ (3, Price 9, 2) # [(3, Price 9, 3)])
      = Some (outs, g')"
    and z: "vs_signed_qty (vg_sim g') = 0"
    by (simp add: enforce_kill_def flatten_intent_def simulator_submit_def order_on_fill_def
        order_submit_def order_new_def order_is_terminal_def qty_add_def qty_zero_def apply_side_def
        bounded_dec_def simulator_new_def qty_abs_of_def)
  from kill_flattens_once [OF _ _ _ _ run] z run show ?thesis
    by fastforce
qed

end
