(* ===== verification/Planner_Link.thy ===== *)
theory Planner_Link imports Kill_Gate begin

text \<open>
  The planner--adapter transport (\<open>qe-edge\<close>, \<open>transport.rs\<close>, \<open>classify.rs\<close>): a coalescing send
  queue of at most one absolute target, its application through the kill gate, the reports that
  flow back, reconnection, and the journal sink that is offered what was produced. The sink's
  journal is code outside this crate: it is the parameter \<open>sink\<close>, a function of its own state.
\<close>

section \<open>Messages and errors\<close>

record target_revision =
  rev_seq :: u64
  rev_target :: target_position
  rev_time_ms :: i64

datatype venue_health = VenueOk | Degraded string | Down string

datatype adapter_report =
    ReportFill sim_fill
  | ReportPosition position_report
  | ReportHeartbeat (ack_seq: "u64 option") (rep_health: venue_health) (rep_time_ms: i64)

datatype transport_error = LinkDisconnected

datatype append_error = AppendError string

fun transport_error_class :: "transport_error \<Rightarrow> error_class" where
  "transport_error_class LinkDisconnected = Transient"

definition transport_error_disposition :: "transport_error \<Rightarrow> disposition" where
  "transport_error_disposition e = class_disposition (transport_error_class e)"

definition append_error_class :: "append_error \<Rightarrow> error_class" where
  "append_error_class e = Data"

definition append_error_disposition :: "append_error \<Rightarrow> disposition" where
  "append_error_disposition e = class_disposition (append_error_class e)"

interpretation transport_error: classified transport_error_class transport_error_disposition
  by unfold_locales (simp add: transport_error_disposition_def)

interpretation append_error: classified append_error_class append_error_disposition
  by unfold_locales (simp add: append_error_disposition_def)

type_synonym 'a append_sink =
  "'a \<Rightarrow> target_revision \<Rightarrow> adapter_report list \<Rightarrow> (append_error, unit) result \<times> 'a"

definition null_append_sink :: "unit append_sink" where
  "null_append_sink a rv reports = (Inr (), a)"

section \<open>The link\<close>

record 'a planner_link =
  pl_keeper :: venue_keeper
  pl_gate :: venue_kill_gate
  pl_pending :: "target_revision option"
  pl_last_applied :: "target_revision option"
  pl_connected :: bool
  pl_append :: 'a
  pl_append_failures :: u64
  pl_dropped_superseded :: u64
  pl_last_disposition :: "disposition option"

definition link_with_append :: "venue_keeper \<Rightarrow> venue_kill_gate \<Rightarrow> 'a \<Rightarrow> 'a planner_link" where
  "link_with_append k g a =
     \<lparr>pl_keeper = k, pl_gate = g, pl_pending = None, pl_last_applied = None, pl_connected = True,
      pl_append = a, pl_append_failures = 0, pl_dropped_superseded = 0, pl_last_disposition = None\<rparr>"

text \<open>\<open>route\<close> takes the disposition the error's class gives, records it and returns it.\<close>

definition link_route :: "'a planner_link \<Rightarrow> disposition \<Rightarrow> disposition \<times> 'a planner_link" where
  "link_route l d = (d, l\<lparr>pl_last_disposition := Some d\<rparr>)"

definition link_observe_mark :: "'a planner_link \<Rightarrow> price \<Rightarrow> 'a planner_link" where
  "link_observe_mark l mark = l\<lparr>pl_keeper := observe_mark (pl_keeper l) mark\<rparr>"

definition link_observe_balance :: "'a planner_link \<Rightarrow> notional \<Rightarrow> notional \<Rightarrow> 'a planner_link" where
  "link_observe_balance l equity avail = l\<lparr>pl_keeper := observe_balance (pl_keeper l) equity avail\<rparr>"

definition submit_target ::
  "'a planner_link \<Rightarrow> target_revision \<Rightarrow> (transport_error, unit) result \<times> 'a planner_link" where
  "submit_target l rv =
     (if \<not> pl_connected l
      then (let err = LinkDisconnected; (_, l') = link_route l (transport_error_disposition err)
            in (Inl err, l'))
      else (let was = pl_pending l; l' = l\<lparr>pl_pending := Some rv\<rparr>
            in (Inr (), if was \<noteq> None
                        then l'\<lparr>pl_dropped_superseded := u64_add (pl_dropped_superseded l') 1\<rparr> else l')))"

text \<open>Submitting one delta: the fill feeds the keeper, a halt is routed and nothing is sent.\<close>

definition apply_intent ::
  "dec_arith \<Rightarrow> 'a planner_link \<Rightarrow> edge_intent \<Rightarrow> price \<Rightarrow> i64 \<Rightarrow> (adapter_report list \<times> 'a planner_link) option" where
  "apply_intent A l intent mark event_time_ms =
     Option.bind (kill_gate_submit A (pl_gate l) intent mark event_time_ms) (\<lambda>(res, g).
       let l1 = l\<lparr>pl_gate := g\<rparr>
       in case res of
            Inr f \<Rightarrow> map_option (\<lambda>k. ([ReportFill f], l1\<lparr>pl_keeper := k\<rparr>))
                      (keeper_apply A (pl_keeper l1) (sf_event f))
          | Inl halt \<Rightarrow> (let (_, l2) = link_route l1 (kill_halt_disposition halt) in Some ([], l2)))"

definition apply_revision ::
  "dec_arith \<Rightarrow> 'a planner_link \<Rightarrow> target_revision \<Rightarrow> (adapter_report list \<times> 'a planner_link) option" where
  "apply_revision A l rv =
     (let mark = vk_mark (pl_keeper l); current = vk_signed_qty (pl_keeper l)
      in Option.bind (plan_delta A (tp_notional (rev_target rv)) current mark) (\<lambda>planned.
         Option.bind (case planned of
              Some intent \<Rightarrow> apply_intent A l intent mark (rev_time_ms rv)
            | None \<Rightarrow> Some ([], l)) (\<lambda>(reports, l1).
         let position = position_report_of (vg_sim (pl_gate l1)) (rev_time_ms rv);
             health = (if is_tripped (vg_kill (pl_gate l1))
                       then Down (gate_kill_reason (vg_kill (pl_gate l1))) else VenueOk)
         in Some (reports @ [ReportPosition position,
                     ReportHeartbeat (Some (rev_seq rv)) health (rev_time_ms rv)], l1))))"

definition link_offer ::
  "'a append_sink \<Rightarrow> 'a planner_link \<Rightarrow> target_revision \<Rightarrow> adapter_report list \<Rightarrow> 'a planner_link" where
  "link_offer sink l rv reports =
     (let (res, a) = sink (pl_append l) rv reports; l1 = l\<lparr>pl_append := a\<rparr>
      in case res of
           Inr _ \<Rightarrow> l1
         | Inl e \<Rightarrow> (let (d, l2) = link_route l1 (append_error_disposition e)
                    in if d = Continue \<or> d = Retry
                       then l2\<lparr>pl_append_failures := u64_add (pl_append_failures l2) 1\<rparr> else l2))"

definition link_pump ::
  "dec_arith \<Rightarrow> 'a append_sink \<Rightarrow> 'a planner_link \<Rightarrow> (adapter_report list \<times> 'a planner_link) option" where
  "link_pump A sink l =
     (if \<not> pl_connected l then Some ([], l)
      else case pl_pending l of
        None \<Rightarrow> Some ([], l)
      | Some rv \<Rightarrow>
          map_option (\<lambda>(reports, l1). (reports, link_offer sink l1 rv reports))
            (apply_revision A (l\<lparr>pl_pending := None, pl_last_applied := Some rv\<rparr>) rv))"

definition link_disconnect :: "'a planner_link \<Rightarrow> 'a planner_link" where
  "link_disconnect l = l\<lparr>pl_connected := False\<rparr>"

definition link_reconnect :: "dec_arith \<Rightarrow> 'a planner_link \<Rightarrow> (adapter_report list \<times> 'a planner_link) option" where
  "link_reconnect A l =
     (let l1 = l\<lparr>pl_connected := True\<rparr>;
          event_time_ms = (case pl_last_applied l1 of None \<Rightarrow> 0 | Some r \<Rightarrow> rev_time_ms r);
          report = position_report_of (vg_sim (pl_gate l1)) event_time_ms
      in map_option (\<lambda>k. ([ReportPosition report], l1\<lparr>pl_keeper := k\<rparr>))
           (keeper_apply A (pl_keeper l1) (PositionEvent report)))"

section \<open>Interleavings\<close>

text \<open>
  What the planner, the venue loops, the network and any holder of a clone of the kill handle can
  do to a link, in any order. \<open>ETrip\<close> is a trip from outside.
\<close>

datatype link_event =
    ESubmit target_revision | EPump | EDisconnect | EReconnect
  | EMark price | EBalance notional notional | ETrip string

definition link_trip :: "'a planner_link \<Rightarrow> string \<Rightarrow> 'a planner_link" where
  "link_trip l reason =
     l\<lparr>pl_gate := (pl_gate l)\<lparr>vg_kill := trip (vg_kill (pl_gate l)) reason\<rparr>\<rparr>"

fun link_exec ::
  "dec_arith \<Rightarrow> 'a append_sink \<Rightarrow> 'a planner_link \<Rightarrow> link_event \<Rightarrow> (adapter_report list \<times> 'a planner_link) option" where
  "link_exec A sink l (ESubmit rv) = Some ([], snd (submit_target l rv))"
| "link_exec A sink l EPump = link_pump A sink l"
| "link_exec A sink l EDisconnect = Some ([], link_disconnect l)"
| "link_exec A sink l EReconnect = link_reconnect A l"
| "link_exec A sink l (EMark p) = Some ([], link_observe_mark l p)"
| "link_exec A sink l (EBalance e m) = Some ([], link_observe_balance l e m)"
| "link_exec A sink l (ETrip r) = Some ([], link_trip l r)"

fun link_run ::
  "dec_arith \<Rightarrow> 'a append_sink \<Rightarrow> 'a planner_link \<Rightarrow> link_event list \<Rightarrow> (adapter_report list list \<times> 'a planner_link) option" where
  "link_run A sink l [] = Some ([], l)"
| "link_run A sink l (e # es) =
     Option.bind (link_exec A sink l e) (\<lambda>(rs, l').
       map_option (\<lambda>(rss, l''). (rs # rss, l'')) (link_run A sink l' es))"

lemma link_run_Cons:
  "link_run A sink l (e # es) = Some (outs, l'') \<longleftrightarrow>
     (\<exists>rs l' rss. link_exec A sink l e = Some (rs, l') \<and> link_run A sink l' es = Some (rss, l'') \<and>
        outs = rs # rss)"
  by (auto simp: panic_simps)

lemma link_run_invariant:
  assumes "link_run A sink l es = Some (outs, l')" "P l"
    and "\<And>l e rs l'. link_exec A sink l e = Some (rs, l') \<Longrightarrow> P l \<Longrightarrow> P l'"
  shows "P l'"
  using assms(1,2)
proof (induction es arbitrary: l outs)
  case Nil
  then show ?case by simp
next
  case (Cons e es)
  then show ?case using assms(3) by (auto simp: link_run_Cons simp del: link_run.simps)
qed

text \<open>The parts of the link that a sink offer and a routing leave alone.\<close>

lemma link_offer_frame [simp]:
  "pl_keeper (link_offer sink l rv rs) = pl_keeper l" "pl_gate (link_offer sink l rv rs) = pl_gate l"
  "pl_pending (link_offer sink l rv rs) = pl_pending l"
  "pl_last_applied (link_offer sink l rv rs) = pl_last_applied l"
  "pl_connected (link_offer sink l rv rs) = pl_connected l"
  "pl_dropped_superseded (link_offer sink l rv rs) = pl_dropped_superseded l"
  by (simp_all add: link_offer_def link_route_def Let_def split: prod.splits sum.splits)

lemma submit_target_frame [simp]:
  "pl_keeper (snd (submit_target l rv)) = pl_keeper l" "pl_gate (snd (submit_target l rv)) = pl_gate l"
  "pl_last_applied (snd (submit_target l rv)) = pl_last_applied l"
  "pl_connected (snd (submit_target l rv)) = pl_connected l"
  by (simp_all add: submit_target_def link_route_def Let_def)

section \<open>What one step does\<close>

lemma apply_intent_tripped:
  "is_tripped (vg_kill (pl_gate l)) \<Longrightarrow>
     apply_intent A l i p t = Some ([], l\<lparr>pl_last_disposition := Some Halt\<rparr>)"
  by (simp add: apply_intent_def kill_gate_submit_tripped link_route_def Let_def
      kill_halt_disposition_def kill_halt_class_def)

lemma apply_intent_live:
  assumes "apply_intent A l i p t = Some (rs, l')" "\<not> is_tripped (vg_kill (pl_gate l))"
  obtains f sm k where "simulator_submit A (vg_sim (pl_gate l)) i p t = Some (f, sm)"
    "keeper_apply A (pl_keeper l) (sf_event f) = Some k" "rs = [ReportFill f]"
    "l' = l\<lparr>pl_gate := (pl_gate l)\<lparr>vg_sim := sm\<rparr>, pl_keeper := k\<rparr>"
  using assms by (auto simp: apply_intent_def kill_gate_submit_def panic_simps Let_def)

text \<open>
  The step relation of one revision: the intent is planned against the kept position, and what is
  reported afterwards is the simulator's position and the kill state at that moment.
\<close>

lemma apply_revision_Some:
  assumes "apply_revision A l rv = Some (rs, l')"
  obtains planned rs1 where
    "plan_delta A (tp_notional (rev_target rv)) (vk_signed_qty (pl_keeper l)) (vk_mark (pl_keeper l)) = Some planned"
    "(case planned of Some intent \<Rightarrow> apply_intent A l intent (vk_mark (pl_keeper l)) (rev_time_ms rv)
      | None \<Rightarrow> Some ([], l)) = Some (rs1, l')"
    "rs = rs1 @ [ReportPosition (position_report_of (vg_sim (pl_gate l')) (rev_time_ms rv)),
            ReportHeartbeat (Some (rev_seq rv))
              (if is_tripped (vg_kill (pl_gate l')) then Down (gate_kill_reason (vg_kill (pl_gate l')))
               else VenueOk) (rev_time_ms rv)]"
  using assms by (auto simp: apply_revision_def panic_simps Let_def)

lemma apply_revision_induct:
  assumes "apply_revision A l rv = Some (rs, l')"
    and "P l"
    and "\<And>i rs1 l1. apply_intent A l i (vk_mark (pl_keeper l)) (rev_time_ms rv) = Some (rs1, l1) \<Longrightarrow> P l1"
  shows "P l'"
  using apply_revision_Some [OF assms(1)] assms(2,3) by (metis (no_types, lifting) option.case_eq_if option.sel prod.inject)

definition link_inv :: "'a planner_link \<Rightarrow> bool" where
  "link_inv l \<longleftrightarrow>
     vk_instrument (pl_keeper l) = vs_instrument (vg_sim (pl_gate l)) \<and>
     vk_signed_qty (pl_keeper l) = vs_signed_qty (vg_sim (pl_gate l))"

lemma apply_intent_link_inv:
  assumes "apply_intent A l i p t = Some (rs, l')" "link_inv l"
  shows "link_inv l'"
proof (cases "is_tripped (vg_kill (pl_gate l))")
  case True
  then show ?thesis using assms by (auto simp: apply_intent_tripped link_inv_def)
next
  case False
  from apply_intent_live [OF assms(1) this] obtain f sm k where
    s: "simulator_submit A (vg_sim (pl_gate l)) i p t = Some (f, sm)"
    and k: "keeper_apply A (pl_keeper l) (sf_event f) = Some k"
    and l': "l' = l\<lparr>pl_gate := (pl_gate l)\<lparr>vg_sim := sm\<rparr>, pl_keeper := k\<rparr>" .
  from assms(2) keeper_tracks_simulator [OF s, of "pl_keeper l"] k
  have "k = (pl_keeper l)\<lparr>vk_signed_qty := vs_signed_qty sm\<rparr>"
    by (simp add: link_inv_def)
  then show ?thesis
    using simulator_submit_Some(2) [OF s] assms(2) by (simp add: l' link_inv_def)
qed

lemma link_pump_cases:
  assumes "link_pump A sink l = Some (rs, l')"
  obtains "\<not> pl_connected l \<or> pl_pending l = None" "rs = []" "l' = l"
    | rv l1 where "pl_connected l" "pl_pending l = Some rv"
        "apply_revision A (l\<lparr>pl_pending := None, pl_last_applied := Some rv\<rparr>) rv = Some (rs, l1)"
        "l' = link_offer sink l1 rv rs"
  using assms by (auto simp: link_pump_def split: if_splits option.splits)

lemma keeper_apply_report:
  "vk_instrument k = vs_instrument sm \<Longrightarrow>
     keeper_apply A k (PositionEvent (position_report_of sm t)) = Some (k\<lparr>vk_signed_qty := vs_signed_qty sm\<rparr>)"
  by (simp add: keeper_apply_def)

lemma link_reconnect_inv:
  assumes "link_inv l"
  shows "link_reconnect A l = Some ([ReportPosition (position_report_of (vg_sim (pl_gate l))
      (case pl_last_applied l of None \<Rightarrow> 0 | Some r \<Rightarrow> rev_time_ms r))], l\<lparr>pl_connected := True\<rparr>)"
  using assms by (simp add: link_reconnect_def Let_def keeper_apply_report link_inv_def)

lemma link_exec_inv:
  assumes "link_exec A sink l e = Some (rs, l')" "link_inv l"
  shows "link_inv l'"
proof (cases e)
  case EPump
  with assms(1) have "link_pump A sink l = Some (rs, l')" by simp
  then show ?thesis
  proof (cases rule: link_pump_cases)
    case 1
    then show ?thesis using assms(2) by simp
  next
    case (2 rv l1)
    have inv: "link_inv (l\<lparr>pl_pending := None, pl_last_applied := Some rv\<rparr>)"
      using assms(2) by (simp add: link_inv_def)
    with 2(3) have "link_inv l1"
      by (rule apply_revision_induct) (erule apply_intent_link_inv [OF _ inv])
    then show ?thesis using 2(4) by (simp add: link_inv_def)
  qed
qed (use assms in \<open>auto simp: link_inv_def link_disconnect_def link_observe_mark_def observe_mark_def
      link_observe_balance_def observe_balance_def link_trip_def link_reconnect_inv [unfolded link_inv_def]\<close>)

text \<open>Once killed: nothing is sent, whatever the event.\<close>

definition killed_with :: "string \<Rightarrow> u64 \<Rightarrow> 'a planner_link \<Rightarrow> bool" where
  "killed_with r n l \<longleftrightarrow> is_tripped (vg_kill (pl_gate l)) \<and> kill_reason_of (vg_kill (pl_gate l)) = Some r \<and>
     vs_submitted (vg_sim (pl_gate l)) = n"

fun report_quiet :: "string \<Rightarrow> adapter_report \<Rightarrow> bool" where
  "report_quiet r (ReportFill f) = False"
| "report_quiet r (ReportPosition p) = True"
| "report_quiet r (ReportHeartbeat a h t) = (h = Down r)"

lemma killed_apply_revision:
  assumes "apply_revision A l rv = Some (rs, l')" "killed_with r n l"
  shows "killed_with r n l' \<and> pl_gate l' = pl_gate l \<and> pl_keeper l' = pl_keeper l \<and> list_all (report_quiet r) rs"
proof -
  have t: "is_tripped (vg_kill (pl_gate l))"
    using assms(2) by (simp add: killed_with_def)
  from apply_revision_Some [OF assms(1)] obtain planned rs1 where
    c: "(case planned of Some intent \<Rightarrow> apply_intent A l intent (vk_mark (pl_keeper l)) (rev_time_ms rv)
      | None \<Rightarrow> Some ([], l)) = Some (rs1, l')"
    and rs: "rs = rs1 @ [ReportPosition (position_report_of (vg_sim (pl_gate l')) (rev_time_ms rv)),
            ReportHeartbeat (Some (rev_seq rv))
              (if is_tripped (vg_kill (pl_gate l')) then Down (gate_kill_reason (vg_kill (pl_gate l')))
               else VenueOk) (rev_time_ms rv)]" by metis
  have "rs1 = []" "pl_gate l' = pl_gate l" "pl_keeper l' = pl_keeper l"
    using c by (auto simp: apply_intent_tripped [OF t] split: option.splits)
  then show ?thesis
    using assms(2) by (simp add: rs killed_with_def gate_kill_reason_def)
qed

lemma killed_exec:
  assumes "link_exec A sink l e = Some (rs, l')" "killed_with r n l"
  shows "killed_with r n l' \<and> list_all (report_quiet r) rs"
proof (cases e)
  case EPump
  with assms(1) have "link_pump A sink l = Some (rs, l')" by simp
  then show ?thesis
  proof (cases rule: link_pump_cases)
    case 1
    then show ?thesis using assms(2) by simp
  next
    case (2 rv l1)
    have "killed_with r n (l\<lparr>pl_pending := None, pl_last_applied := Some rv\<rparr>)"
      using assms(2) by (simp add: killed_with_def)
    from killed_apply_revision [OF 2(3) this] show ?thesis
      using 2(4) by (auto simp: killed_with_def)
  qed
qed (use assms in \<open>auto simp: killed_with_def link_disconnect_def link_observe_mark_def
      link_observe_balance_def link_trip_def link_reconnect_def Let_def\<close>)

lemma killed_run:
  "link_run A sink l es = Some (outs, l') \<Longrightarrow> killed_with r n l \<Longrightarrow>
     killed_with r n l' \<and> list_all (list_all (report_quiet r)) outs"
proof (induction es arbitrary: l outs)
  case Nil
  then show ?case by simp
next
  case (Cons e es)
  then show ?case using killed_exec by (fastforce simp: link_run_Cons simp del: link_run.simps)
qed


text \<open>The outcome of the journal offer, left out: the part of a link a planner can observe.\<close>

definition dispatch_view ::
  "'a planner_link \<Rightarrow> venue_keeper \<times> venue_kill_gate \<times> target_revision option \<times> target_revision option \<times> bool \<times> u64" where
  "dispatch_view l = (pl_keeper l, pl_gate l, pl_pending l, pl_last_applied l, pl_connected l,
     pl_dropped_superseded l)"

lemma dispatch_view_eq_iff:
  "dispatch_view l = dispatch_view m \<longleftrightarrow>
     pl_keeper l = pl_keeper m \<and> pl_gate l = pl_gate m \<and> pl_pending l = pl_pending m \<and>
     pl_last_applied l = pl_last_applied m \<and> pl_connected l = pl_connected m \<and>
     pl_dropped_superseded l = pl_dropped_superseded m"
  by (simp add: dispatch_view_def)

definition same_dispatch :: "'a planner_link \<Rightarrow> 'b planner_link \<Rightarrow> bool" where
  "same_dispatch l m \<longleftrightarrow> dispatch_view l = dispatch_view m"

abbreviation same_answer ::
  "(adapter_report list \<times> 'a planner_link) option \<Rightarrow> (adapter_report list \<times> 'b planner_link) option \<Rightarrow> bool" where
  "same_answer \<equiv> rel_option (rel_prod (=) same_dispatch)"

lemma apply_intent_same:
  assumes "same_dispatch l m"
  shows "same_answer (apply_intent A l i p t) (apply_intent A m i p t)"
proof -
  from assms have eqs: "pl_gate l = pl_gate m" "pl_keeper l = pl_keeper m"
    by (simp_all add: same_dispatch_def dispatch_view_eq_iff)
  show ?thesis
    using assms unfolding apply_intent_def eqs
    by (cases "kill_gate_submit A (pl_gate m) i p t"; simp)
      (auto simp: link_route_def same_dispatch_def dispatch_view_eq_iff option.rel_map option_rel_Some1
        eqs Let_def intro!: option.rel_refl split: sum.splits prod.splits)
qed

lemma apply_revision_same:
  assumes "same_dispatch l m"
  shows "same_answer (apply_revision A l rv) (apply_revision A m rv)"
proof -
  from assms have eqs: "pl_gate l = pl_gate m" "pl_keeper l = pl_keeper m"
    by (simp_all add: same_dispatch_def dispatch_view_eq_iff)
  let ?step = "\<lambda>l planned. (case planned of
      Some intent \<Rightarrow> apply_intent A l intent (vk_mark (pl_keeper m)) (rev_time_ms rv) | None \<Rightarrow> Some ([], l))"
  have step: "same_answer (?step l planned) (?step m planned)" for planned
    using apply_intent_same [OF assms] assms by (cases planned) simp_all
  show ?thesis
  proof (cases "plan_delta A (tp_notional (rev_target rv)) (vk_signed_qty (pl_keeper m)) (vk_mark (pl_keeper m))")
    case (Some planned)
    from step [of planned] show ?thesis
      by (cases "?step l planned"; cases "?step m planned")
        (auto simp: apply_revision_def eqs Some Let_def same_dispatch_def dispatch_view_eq_iff)
  qed (simp add: apply_revision_def eqs)
qed

lemma link_pump_same:
  assumes "same_dispatch l m"
  shows "same_answer (link_pump A sink l) (link_pump A sink' m)"
proof -
  from assms have eqs: "pl_connected l = pl_connected m" "pl_pending l = pl_pending m"
    by (simp_all add: same_dispatch_def dispatch_view_eq_iff)
  show ?thesis
  proof (cases "pl_connected m \<and> pl_pending m \<noteq> None")
    case True
    then obtain rv where rv: "pl_connected m" "pl_pending m = Some rv" by auto
    let ?f = "\<lambda>n. n\<lparr>pl_pending := None, pl_last_applied := Some rv\<rparr>"
    have "same_dispatch (?f l) (?f m)"
      using assms by (simp add: same_dispatch_def dispatch_view_eq_iff)
    from apply_revision_same [OF this, of A rv] show ?thesis
      by (cases "apply_revision A (?f l) rv"; cases "apply_revision A (?f m) rv")
        (auto simp: link_pump_def eqs rv same_dispatch_def dispatch_view_eq_iff)
  next
    case False
    then show ?thesis using assms by (auto simp: link_pump_def eqs)
  qed
qed

lemma link_exec_same:
  assumes "same_dispatch l m"
  shows "same_answer (link_exec A sink l e) (link_exec A sink' m e)"
proof (cases e)
  case EPump
  then show ?thesis using link_pump_same [OF assms] by simp
next
  case EReconnect
  from assms have "pl_gate l = pl_gate m" "pl_keeper l = pl_keeper m" "pl_last_applied l = pl_last_applied m"
    by (simp_all add: same_dispatch_def dispatch_view_eq_iff)
  with assms EReconnect show ?thesis
    by (auto simp: link_reconnect_def Let_def option.rel_map same_dispatch_def dispatch_view_eq_iff
        intro!: option.rel_refl)
qed (use assms in \<open>auto simp: same_dispatch_def dispatch_view_eq_iff submit_target_def link_route_def Let_def
      link_disconnect_def link_observe_mark_def link_observe_balance_def link_trip_def\<close>)

lemma link_run_same:
  "same_dispatch l m \<Longrightarrow>
     rel_option (rel_prod (=) same_dispatch) (link_run A sink l es) (link_run A sink' m es)"
proof (induction es arbitrary: l m)
  case Nil
  then show ?case by simp
next
  case (Cons e es)
  show ?case
  proof (cases "link_exec A sink l e")
    case None
    with link_exec_same [OF Cons.prems, of A sink e sink'] show ?thesis by simp
  next
    case (Some r)
    with link_exec_same [OF Cons.prems, of A sink e sink'] obtain rs l1 m1 where
      e: "link_exec A sink l e = Some (rs, l1)" "link_exec A sink' m e = Some (rs, m1)" "same_dispatch l1 m1"
      by (cases r) (auto simp: option_rel_Some1)
    from Cons.IH [OF e(3)] show ?thesis
      by (cases "link_run A sink l1 es"; cases "link_run A sink' m1 es") (auto simp: e)
  qed
qed

lemma apply_intent_frame:
  "apply_intent A l i p t = Some (rs, l') \<Longrightarrow>
     pl_pending l' = pl_pending l \<and> pl_last_applied l' = pl_last_applied l \<and>
     pl_connected l' = pl_connected l \<and> pl_dropped_superseded l' = pl_dropped_superseded l \<and>
     pl_append l' = pl_append l \<and> pl_append_failures l' = pl_append_failures l"
  by (cases "is_tripped (vg_kill (pl_gate l))") (auto simp: apply_intent_tripped elim: apply_intent_live)


section \<open>Reaching the target\<close>

text \<open>These facts are about links on which no difference or sum of sizes rounds (\<open>dec_exact\<close>).\<close>

lemma apply_intent_lands:
  assumes "dec_exact A" "link_inv l" "\<not> is_tripped (vg_kill (pl_gate l))"
    and "apply_intent A l i p t = Some (rs, l')"
  shows "vk_signed_qty (pl_keeper l') = vk_signed_qty (pl_keeper l) + signed_size i \<and>
    vk_mark (pl_keeper l') = vk_mark (pl_keeper l) \<and> vg_kill (pl_gate l') = vg_kill (pl_gate l)"
proof -
  from apply_intent_live [OF assms(4,3)] obtain f sm k where
    s: "simulator_submit A (vg_sim (pl_gate l)) i p t = Some (f, sm)"
    and k: "keeper_apply A (pl_keeper l) (sf_event f) = Some k"
    and l': "l' = l\<lparr>pl_gate := (pl_gate l)\<lparr>vg_sim := sm\<rparr>, pl_keeper := k\<rparr>" .
  from apply_side_exact [OF assms(1) simulator_submit_Some(1) [OF s]]
    keeper_tracks_simulator [OF s, of "pl_keeper l"] k assms(2) show ?thesis
    by (simp add: l' link_inv_def signed_size_def)
qed

text \<open>Where a pump of \<open>rv\<close> leaves the position: at the target, in contracts at the kept mark.\<close>

lemma apply_revision_lands:
  assumes "dec_exact A" "link_inv l" "\<not> is_tripped (vg_kill (pl_gate l))"
    and "price_get (vk_mark (pl_keeper l)) \<noteq> 0" "apply_revision A l rv = Some (rs, l')"
  shows "dec_div A (notional_get (tp_notional (rev_target rv))) (price_get (vk_mark (pl_keeper l))) =
      Some (vk_signed_qty (pl_keeper l')) \<and>
    vk_mark (pl_keeper l') = vk_mark (pl_keeper l) \<and> vg_kill (pl_gate l') = vg_kill (pl_gate l)"
proof -
  from apply_revision_Some [OF assms(5)] obtain planned rs1 where
    p: "plan_delta A (tp_notional (rev_target rv)) (vk_signed_qty (pl_keeper l)) (vk_mark (pl_keeper l)) = Some planned"
    and c: "(case planned of Some intent \<Rightarrow> apply_intent A l intent (vk_mark (pl_keeper l)) (rev_time_ms rv)
      | None \<Rightarrow> Some ([], l)) = Some (rs1, l')" by metis
  show ?thesis
  proof (cases planned)
    case None
    with p assms(4) obtain tq where "dec_div A (notional_get (tp_notional (rev_target rv)))
        (price_get (vk_mark (pl_keeper l))) = Some tq" "dec_sub A tq (vk_signed_qty (pl_keeper l)) = Some 0"
      by (auto simp: plan_delta_def Let_def panic_simps split: if_splits)
    with dec_exactD(2) [OF assms(1)] c None show ?thesis
      by fastforce
  next
    case (Some i)
    with plan_delta_size [OF assms(1)] p obtain tq where
      "dec_div A (notional_get (tp_notional (rev_target rv))) (price_get (vk_mark (pl_keeper l))) = Some tq"
      "vk_signed_qty (pl_keeper l) + signed_size i = tq" by blast
    with apply_intent_lands [OF assms(1-3)] c Some show ?thesis
      by fastforce
  qed
qed

lemma link_pump_lands:
  assumes "dec_exact A" "link_inv l" "\<not> is_tripped (vg_kill (pl_gate l))"
    and "price_get (vk_mark (pl_keeper l)) \<noteq> 0" "pl_connected l" "pl_pending l = Some rv"
    and "link_pump A sink l = Some (rs, l')"
  shows "dec_div A (notional_get (tp_notional (rev_target rv))) (price_get (vk_mark (pl_keeper l))) =
      Some (vk_signed_qty (pl_keeper l')) \<and>
    vk_mark (pl_keeper l') = vk_mark (pl_keeper l) \<and> vg_kill (pl_gate l') = vg_kill (pl_gate l) \<and>
    pl_connected l' \<and> pl_pending l' = None \<and> pl_last_applied l' = Some rv \<and> link_inv l'"
proof -
  let ?l = "l\<lparr>pl_pending := None, pl_last_applied := Some rv\<rparr>"
  from assms(7) obtain l1 where r: "apply_revision A ?l rv = Some (rs, l1)"
    and l': "l' = link_offer sink l1 rv rs"
    using assms(5,6) by (auto elim: link_pump_cases)
  have "pl_connected l1 \<and> pl_pending l1 = None \<and> pl_last_applied l1 = Some rv"
    using r by (rule apply_revision_induct) (use assms(5) in \<open>auto dest!: apply_intent_frame\<close>)
  moreover have "link_inv l'"
    using link_exec_inv [of A sink l EPump] assms(2,7) by simp
  moreover have "link_inv ?l" "\<not> is_tripped (vg_kill (pl_gate ?l))" "price_get (vk_mark (pl_keeper ?l)) \<noteq> 0"
    using assms(2-4) by (simp_all add: link_inv_def)
  note apply_revision_lands [OF assms(1) this r]
  ultimately show ?thesis
    by (simp add: l')
qed

text \<open>At the target already, nothing is sent.\<close>

lemma apply_revision_at_target:
  assumes "dec_cancels A"
    and "dec_div A (notional_get (tp_notional (rev_target rv))) (price_get (vk_mark (pl_keeper l))) =
      Some (vk_signed_qty (pl_keeper l))"
  shows "\<exists>h. apply_revision A l rv = Some ([ReportPosition (position_report_of (vg_sim (pl_gate l)) (rev_time_ms rv)),
    ReportHeartbeat (Some (rev_seq rv)) h (rev_time_ms rv)], l)"
proof -
  have "plan_delta A (tp_notional (rev_target rv)) (vk_signed_qty (pl_keeper l)) (vk_mark (pl_keeper l)) = Some None"
    using assms by (simp add: plan_delta_def dec_cancels_def Let_def)
  then show ?thesis
    by (simp add: apply_revision_def Let_def)
qed

section \<open>Properties\<close>

text \<open>
  C1. From the moment the kill switch is tripped, no interleaving of planner submissions, pumps,
  disconnects, reconnects, marks, balances and further trips sends an order: the venue's order
  count stays, no report is a fill, and every heartbeat reports the venue down with the first
  trip's reason, the one an order gate then gives for refusing any intent.
\<close>

theorem kill_stops_orders:
  assumes "link_run A sink l (ETrip r # es) = Some (outs, l')"
  shows "\<exists>r0. r0 = (case kill_reason_of (vg_kill (pl_gate l)) of None \<Rightarrow> r | Some r1 \<Rightarrow> r1) \<and>
    vs_submitted (vg_sim (pl_gate l')) = vs_submitted (vg_sim (pl_gate l)) \<and>
    list_all (list_all (report_quiet r0)) outs \<and>
    kill_gate_admit (pl_gate l') intent = FlattenAndHalt r0"
proof -
  let ?r0 = "case kill_reason_of (vg_kill (pl_gate l)) of None \<Rightarrow> r | Some r1 \<Rightarrow> r1"
  from assms obtain outs' where run: "link_run A sink (link_trip l r) es = Some (outs', l')"
    and outs: "outs = [] # outs'" by (auto simp: panic_simps)
  have "killed_with ?r0 (vs_submitted (vg_sim (pl_gate l))) (link_trip l r)"
    by (simp add: killed_with_def link_trip_def)
  from killed_run [OF run this] show ?thesis
    by (simp add: outs killed_with_def vkg.tripped_halts gate_kill_reason_def)
qed

theorem kill_stops_orders_witness:
  "\<exists>outs l'. link_run (bounded_dec 100) null_append_sink
      (link_with_append ((keeper_new (InstrumentId ''BTC'') (Notional 50))\<lparr>vk_mark := Price 10\<rparr>)
         (kill_gate_new kill_new (simulator_new (InstrumentId ''BTC''))) ())
      [ETrip ''skew'', ESubmit \<lparr>rev_seq = 1, rev_target = target_single (Notional 20), rev_time_ms = 5\<rparr>, EPump]
      = Some (outs, l') \<and> vs_submitted (vg_sim (pl_gate l')) = 0 \<and>
      kill_gate_admit (pl_gate l') conformance_intent = FlattenAndHalt ''skew''"
proof -
  let ?l = "link_with_append ((keeper_new (InstrumentId ''BTC'') (Notional 50))\<lparr>vk_mark := Price 10\<rparr>)
         (kill_gate_new kill_new (simulator_new (InstrumentId ''BTC''))) ()"
  let ?es = "[ESubmit \<lparr>rev_seq = 1, rev_target = target_single (Notional 20), rev_time_ms = 5\<rparr>, EPump]"
  obtain outs l' where run:
    "link_run (bounded_dec 100) null_append_sink ?l (ETrip ''skew'' # ?es) = Some (outs, l')"
    by (simp add: link_with_append_def submit_target_def link_pump_def apply_revision_def plan_delta_def
        keeper_new_def kill_gate_new_def bounded_dec_def link_trip_def target_single_def Let_def
        apply_intent_tripped)
  have "kill_reason_of (vg_kill (pl_gate ?l)) = None" "vs_submitted (vg_sim (pl_gate ?l)) = 0"
    by (simp_all add: link_with_append_def kill_gate_new_def kill_new_def kill_reason_of_def simulator_new_def)
  with kill_stops_orders [OF run, of conformance_intent] run show ?thesis
    by auto
qed

text \<open>
  C9. In every state a link can reach from its start the keeper and the simulator agree on the
  instrument and on the signed position, whatever the decimal package's rounding, so the snapshot
  a reconnect returns is the position the next delta is planned against.
\<close>

theorem keeper_simulator_in_sync:
  assumes "link_run A sink (link_with_append (keeper_new i equity) (kill_gate_new k (simulator_new i)) a) es
      = Some (outs, l)"
  shows "vk_instrument (pl_keeper l) = vs_instrument (vg_sim (pl_gate l)) \<and>
    vk_signed_qty (pl_keeper l) = vs_signed_qty (vg_sim (pl_gate l)) \<and>
    (\<exists>rep. link_reconnect A l = Some ([ReportPosition rep], l\<lparr>pl_connected := True\<rparr>) \<and>
       signed_from_report rep = vk_signed_qty (pl_keeper l))"
proof -
  have "link_inv (link_with_append (keeper_new i equity) (kill_gate_new k (simulator_new i)) a)"
    by (simp add: link_inv_def link_with_append_def keeper_new_def kill_gate_new_def simulator_new_def)
  with assms have inv: "link_inv l"
    by (rule link_run_invariant [where P = link_inv]) (rule link_exec_inv)
  then show ?thesis
    by (simp add: link_reconnect_inv link_inv_def)
qed

theorem keeper_simulator_in_sync_witness:
  "\<exists>outs l. link_run (bounded_dec 100) null_append_sink
      (link_with_append (keeper_new (InstrumentId ''BTC'') (Notional 50))
         (kill_gate_new kill_new (simulator_new (InstrumentId ''BTC''))) ())
      [EMark (Price 10), EDisconnect, EReconnect] = Some (outs, l) \<and>
    vk_signed_qty (pl_keeper l) = vs_signed_qty (vg_sim (pl_gate l))"
proof -
  let ?l = "link_with_append (keeper_new (InstrumentId ''BTC'') (Notional 50))
         (kill_gate_new kill_new (simulator_new (InstrumentId ''BTC''))) ()"
  obtain outs l where run: "link_run (bounded_dec 100) null_append_sink ?l
      [EMark (Price 10), EDisconnect, EReconnect] = Some (outs, l)"
    by (simp add: link_reconnect_def link_disconnect_def link_observe_mark_def observe_mark_def Let_def
        link_with_append_def keeper_new_def kill_gate_new_def simulator_new_def keeper_apply_def
        position_report_of_def)
  from keeper_simulator_in_sync [OF run] run show ?thesis
    by blast
qed

text \<open>
  The journal never gates dispatch: two links in the same trading state, whatever their
  journals and however those journals fail, answer every sequence of events with the same reports
  and end in the same trading state.
\<close>

theorem append_never_gates:
  assumes "dispatch_view l = dispatch_view m"
  shows "map_option (\<lambda>(outs, l'). (outs, dispatch_view l')) (link_run A sink l es) =
    map_option (\<lambda>(outs, m'). (outs, dispatch_view m')) (link_run A sink' m es)"
proof -
  have "same_dispatch l m"
    using assms by (simp add: same_dispatch_def)
  from link_run_same [OF this, of A sink es sink'] show ?thesis
    by (cases "link_run A sink l es"; cases "link_run A sink' m es") (auto simp: same_dispatch_def)
qed

theorem append_never_gates_witness:
  "map_option (\<lambda>(outs, l'). (outs, dispatch_view l'))
      (link_run (bounded_dec 100) (\<lambda>n rv reports. (Inl (AppendError ''disk''), Suc n))
         (link_with_append (keeper_new (InstrumentId ''BTC'') (Notional 50))
            (kill_gate_new kill_new (simulator_new (InstrumentId ''BTC''))) 0) [ESubmit \<lparr>rev_seq = 1, rev_target = target_single (Notional 20), rev_time_ms = 5\<rparr>, EPump]) =
   map_option (\<lambda>(outs, l'). (outs, dispatch_view l'))
      (link_run (bounded_dec 100) null_append_sink
         (link_with_append (keeper_new (InstrumentId ''BTC'') (Notional 50))
            (kill_gate_new kill_new (simulator_new (InstrumentId ''BTC''))) ()) [ESubmit \<lparr>rev_seq = 1, rev_target = target_single (Notional 20), rev_time_ms = 5\<rparr>, EPump])"
  by (rule append_never_gates) (simp add: dispatch_view_def link_with_append_def)

text \<open>Submitting, then pumping, from a live link at a known mark.\<close>

abbreviation link_ready :: "dec_arith \<Rightarrow> 'a planner_link \<Rightarrow> bool" where
  "link_ready A l \<equiv> dec_exact A \<and> link_inv l \<and> \<not> is_tripped (vg_kill (pl_gate l)) \<and>
     price_get (vk_mark (pl_keeper l)) \<noteq> 0 \<and> pl_connected l"

lemma submit_connected:
  "pl_connected l \<Longrightarrow> pl_pending (snd (submit_target l rv)) = Some rv"
  by (simp add: submit_target_def Let_def)

lemma submit_keeps_ready: "link_ready A l \<Longrightarrow> link_ready A (snd (submit_target l rv))"
  by (simp add: link_inv_def)

lemma submit_pump_lands:
  assumes "link_ready A l" "link_run A sink l [ESubmit rv, EPump] = Some (outs, l')"
  shows "link_ready A l' \<and> pl_pending l' = None \<and> vk_mark (pl_keeper l') = vk_mark (pl_keeper l) \<and>
    dec_div A (notional_get (tp_notional (rev_target rv))) (price_get (vk_mark (pl_keeper l))) =
      Some (vk_signed_qty (pl_keeper l'))"
proof -
  from assms(2) obtain rs where "link_pump A sink (snd (submit_target l rv)) = Some (rs, l')"
    by (auto simp: panic_simps)
  moreover have "link_ready A (snd (submit_target l rv))"
    by (rule submit_keeps_ready [OF assms(1)])
  ultimately show ?thesis
    using link_pump_lands [of A "snd (submit_target l rv)" rv sink rs l'] assms(1)
      submit_connected [of l rv] by simp
qed

text \<open>
  As long as no size rounds, re-sending the latest absolute target after a reconnect is idempotent: it returns, sends no
  order, and leaves the position, the simulator and the order count exactly as the first send
  left them.
\<close>

theorem resend_is_idempotent:
  assumes "link_ready A l" and "dec_cancels A"
    and "link_run A sink l [ESubmit rv, EPump] = Some (outs, l1)"
    and "rev_target rv' = rev_target rv"
  shows "\<exists>outs' l2. link_run A sink l1 [EDisconnect, EReconnect, ESubmit rv', EPump] = Some (outs', l2) \<and>
    (\<forall>rs \<in> set outs'. \<forall>f. ReportFill f \<notin> set rs) \<and>
    pl_gate l2 = pl_gate l1 \<and> pl_keeper l2 = pl_keeper l1"
proof -
  note lands = submit_pump_lands [OF assms(1,3)]
  let ?r = "l1\<lparr>pl_connected := True\<rparr>"
  have rec: "link_reconnect A (link_disconnect l1) = Some ([ReportPosition (position_report_of (vg_sim (pl_gate l1))
      (case pl_last_applied l1 of None \<Rightarrow> 0 | Some r \<Rightarrow> rev_time_ms r))], ?r)"
    using link_reconnect_inv [of "link_disconnect l1" A] lands by (simp add: link_disconnect_def link_inv_def)
  let ?p = "snd (submit_target ?r rv')"
  let ?q = "?p\<lparr>pl_pending := None, pl_last_applied := Some rv'\<rparr>"
  have "dec_div A (notional_get (tp_notional (rev_target rv'))) (price_get (vk_mark (pl_keeper ?q))) =
      Some (vk_signed_qty (pl_keeper ?q))"
    using lands assms(4) by simp
  from apply_revision_at_target [OF assms(2) this] obtain h where
    ap: "apply_revision A ?q rv' = Some ([ReportPosition (position_report_of (vg_sim (pl_gate ?q)) (rev_time_ms rv')),
      ReportHeartbeat (Some (rev_seq rv')) h (rev_time_ms rv')], ?q)" ..
  have "pl_connected ?p" "pl_pending ?p = Some rv'"
    using submit_connected [of ?r rv'] by simp_all
  with ap show ?thesis
    by (simp add: rec link_pump_def)
qed

theorem resend_is_idempotent_witness:
  "\<exists>outs l1 outs' l2. link_run (bounded_dec 100) null_append_sink
      (link_with_append ((keeper_new (InstrumentId ''BTC'') (Notional 50))\<lparr>vk_mark := Price 10\<rparr>)
         (kill_gate_new kill_new (simulator_new (InstrumentId ''BTC''))) ())
      [ESubmit \<lparr>rev_seq = 1, rev_target = target_single (Notional 20), rev_time_ms = 5\<rparr>, EPump] = Some (outs, l1) \<and>
    vk_signed_qty (pl_keeper l1) = 2 \<and>
    link_run (bounded_dec 100) null_append_sink l1 [EDisconnect, EReconnect,
      ESubmit \<lparr>rev_seq = 2, rev_target = target_single (Notional 20), rev_time_ms = 6\<rparr>, EPump] = Some (outs', l2) \<and>
    vk_signed_qty (pl_keeper l2) = 2"
proof -
  let ?l = "link_with_append ((keeper_new (InstrumentId ''BTC'') (Notional 50))\<lparr>vk_mark := Price 10\<rparr>)
         (kill_gate_new kill_new (simulator_new (InstrumentId ''BTC''))) ()"
  let ?rv = "\<lparr>rev_seq = 1, rev_target = target_single (Notional 20), rev_time_ms = 5\<rparr>"
  let ?rv' = "\<lparr>rev_seq = 2, rev_target = target_single (Notional 20), rev_time_ms = 6\<rparr>"
  have ready: "link_ready (bounded_dec 100) ?l"
    by (simp add: link_inv_def link_with_append_def keeper_new_def kill_gate_new_def simulator_new_def)
  obtain outs l1 where run: "link_run (bounded_dec 100) null_append_sink ?l [ESubmit ?rv, EPump] = Some (outs, l1)"
    and q: "vk_signed_qty (pl_keeper l1) = 2"
    by (simp add: link_with_append_def submit_target_def link_pump_def apply_revision_def plan_delta_def
        keeper_new_def kill_gate_new_def bounded_dec_def target_single_def Let_def apply_intent_def
        kill_gate_submit_def simulator_submit_def order_on_fill_def order_submit_def order_new_def
        order_is_terminal_def qty_add_def qty_zero_def qty_abs_of_def apply_side_def simulator_new_def
        keeper_apply_def link_offer_def null_append_sink_def)
  have "dec_cancels (bounded_dec 100)" by simp
  from resend_is_idempotent [OF ready this run, of ?rv'] run q show ?thesis
    by fastforce
qed


text \<open>Submissions without a pump between them: the last one is pending, the others are counted.\<close>

lemma submits_coalesce:
  assumes "pl_connected l" "pl_pending l = None" "pl_dropped_superseded l < u64_modulus"
  shows "\<exists>l'. link_run A sink l (map ESubmit (rvs @ [rv])) = Some (replicate (Suc (length rvs)) [], l') \<and>
    l' = l\<lparr>pl_pending := Some rv,
           pl_dropped_superseded := u64_add (pl_dropped_superseded l) (length rvs)\<rparr>"
proof -
  have gen: "pl_connected m \<Longrightarrow> pl_pending m = Some r0 \<Longrightarrow> pl_dropped_superseded m < u64_modulus \<Longrightarrow>
    link_run A sink m (map ESubmit rs) = Some (replicate (length rs) [],
      m\<lparr>pl_pending := Some (last (r0 # rs)),
        pl_dropped_superseded := u64_add (pl_dropped_superseded m) (length rs)\<rparr>)" for m :: "'a planner_link" and r0 rs
  proof (induction rs arbitrary: m r0)
    case Nil
    then show ?case by (simp add: u64_add_def)
  next
    case (Cons r rs)
    let ?m = "m\<lparr>pl_pending := Some r, pl_dropped_superseded := u64_add (pl_dropped_superseded m) 1\<rparr>"
    have step: "link_exec A sink m (ESubmit r) = Some ([], ?m)"
      using Cons.prems by (simp add: submit_target_def Let_def)
    have "pl_dropped_superseded ?m < u64_modulus" by (simp add: u64_add_def)
    from Cons.IH [of ?m r] this Cons.prems(1) step show ?case
      by (simp add: u64_add_def mod_simps)
  qed
  show ?thesis
  proof (cases rvs)
    case Nil
    then show ?thesis using assms by (simp add: submit_target_def u64_add_def Let_def)
  next
    case (Cons r0 rs)
    have "link_exec A sink l (ESubmit r0) = Some ([], l\<lparr>pl_pending := Some r0\<rparr>)"
      using assms by (simp add: submit_target_def Let_def)
    with gen [of "l\<lparr>pl_pending := Some r0\<rparr>" r0 "rs @ [rv]"] assms show ?thesis
      by (simp add: Cons)
  qed
qed

lemma link_run_append:
  "link_run A sink l (es @ es') = Some (outs, l') \<longleftrightarrow>
     (\<exists>o1 l1 o2. link_run A sink l es = Some (o1, l1) \<and> link_run A sink l1 es' = Some (o2, l') \<and> outs = o1 @ o2)"
proof (induction es arbitrary: l outs)
  case Nil
  then show ?case by simp
next
  case (Cons e es)
  show ?case
    unfolding append_Cons link_run_Cons Cons.IH by (metis append_Cons)
qed

lemma pumped_in_turn_lands:
  assumes "link_ready A l" "link_run A sink l (concat (map (\<lambda>r. [ESubmit r, EPump]) (rvs @ [rv]))) = Some (outs, l')"
  shows "link_ready A l' \<and>
    dec_div A (notional_get (tp_notional (rev_target rv))) (price_get (vk_mark (pl_keeper l))) =
      Some (vk_signed_qty (pl_keeper l'))"
  using assms
proof (induction rvs arbitrary: l outs)
  case Nil
  then show ?case using submit_pump_lands [of A l sink rv outs l'] by simp
next
  case (Cons r rvs)
  have "link_run A sink l ([ESubmit r, EPump] @ concat (map (\<lambda>r. [ESubmit r, EPump]) (rvs @ [rv]))) = Some (outs, l')"
    using Cons.prems(2) by simp
  then obtain o1 l1 o2 where r1: "link_run A sink l [ESubmit r, EPump] = Some (o1, l1)"
    and r2: "link_run A sink l1 (concat (map (\<lambda>r. [ESubmit r, EPump]) (rvs @ [rv]))) = Some (o2, l')"
    unfolding link_run_append by blast
  from submit_pump_lands [OF Cons.prems(1) r1] Cons.IH [OF _ r2] Cons.prems(1) show ?case
    by simp
qed

text \<open>
  As long as no size rounds, coalescing is lossless: submitting several targets and pumping once leaves the same position
  as pumping after each of them, drops all but the last and counts each one dropped.
\<close>

theorem coalescing_is_lossless:
  assumes "link_ready A l" and "pl_pending l = None" and "pl_dropped_superseded l < u64_modulus"
    and "link_run A sink l (concat (map (\<lambda>r. [ESubmit r, EPump]) (rvs @ [rv]))) = Some (outs1, l1)"
    and "link_run A sink l (map ESubmit (rvs @ [rv]) @ [EPump]) = Some (outs2, l2)"
  shows "vk_signed_qty (pl_keeper l2) = vk_signed_qty (pl_keeper l1) \<and>
    vs_signed_qty (vg_sim (pl_gate l2)) = vs_signed_qty (vg_sim (pl_gate l1)) \<and>
    pl_pending l2 = None \<and> pl_last_applied l2 = Some rv \<and>
    pl_dropped_superseded l2 = u64_add (pl_dropped_superseded l) (length rvs)"
proof -
  let ?m = "l\<lparr>pl_pending := Some rv,
           pl_dropped_superseded := u64_add (pl_dropped_superseded l) (length rvs)\<rparr>"
  from submits_coalesce [of l A sink rvs rv] assms(1-3)
  have "link_run A sink l (map ESubmit (rvs @ [rv])) = Some (replicate (Suc (length rvs)) [], ?m)"
    by auto
  with assms(5) obtain rs where pump: "link_pump A sink ?m = Some (rs, l2)"
    unfolding link_run_append by (auto simp: panic_simps)
  have ready: "link_ready A ?m"
    using assms(1) by (simp add: link_inv_def)
  from link_pump_lands [OF _ _ _ _ _ _ pump, of rv] ready
  have m: "dec_div A (notional_get (tp_notional (rev_target rv))) (price_get (vk_mark (pl_keeper l))) =
      Some (vk_signed_qty (pl_keeper l2)) \<and> pl_pending l2 = None \<and> pl_last_applied l2 = Some rv \<and> link_inv l2"
    by simp
  have "pl_dropped_superseded l2 = pl_dropped_superseded ?m"
    using pump
  proof (cases rule: link_pump_cases)
    case (2 rv' l1')
    have "pl_dropped_superseded l1' = pl_dropped_superseded ?m"
      using 2(3) by (rule apply_revision_induct) (auto dest!: apply_intent_frame)
    then show ?thesis by (simp add: 2(4))
  qed simp
  with m pumped_in_turn_lands [OF assms(1,4)] show ?thesis
    by (simp add: link_inv_def)
qed


theorem coalescing_is_lossless_witness:
  "\<exists>outs1 l1 outs2 l2.
     (let l = link_with_append ((keeper_new (InstrumentId ''BTC'') (Notional 50))\<lparr>vk_mark := Price 10\<rparr>)
         (kill_gate_new kill_new (simulator_new (InstrumentId ''BTC''))) ();
        a = ESubmit \<lparr>rev_seq = 1, rev_target = target_single (Notional 20), rev_time_ms = 5\<rparr>;
        b = ESubmit \<lparr>rev_seq = 2, rev_target = target_single (Notional (-30)), rev_time_ms = 6\<rparr>
      in link_run (bounded_dec 100) null_append_sink l [a, EPump, b, EPump] = Some (outs1, l1) \<and>
         link_run (bounded_dec 100) null_append_sink l [a, b, EPump] = Some (outs2, l2)) \<and>
     vk_signed_qty (pl_keeper l2) = vk_signed_qty (pl_keeper l1) \<and> pl_dropped_superseded l2 = 1"
proof -
  let ?l = "link_with_append ((keeper_new (InstrumentId ''BTC'') (Notional 50))\<lparr>vk_mark := Price 10\<rparr>)
         (kill_gate_new kill_new (simulator_new (InstrumentId ''BTC''))) ()"
  let ?a = "\<lparr>rev_seq = 1, rev_target = target_single (Notional 20), rev_time_ms = 5\<rparr>"
  let ?b = "\<lparr>rev_seq = 2, rev_target = target_single (Notional (-30)), rev_time_ms = 6\<rparr>"
  let ?run = "link_run (bounded_dec 100) null_append_sink ?l"
  note defs = link_with_append_def submit_target_def link_pump_def apply_revision_def plan_delta_def
        keeper_new_def kill_gate_new_def bounded_dec_def target_single_def Let_def apply_intent_def
        kill_gate_submit_def simulator_submit_def order_on_fill_def order_submit_def order_new_def
        order_is_terminal_def qty_add_def qty_zero_def qty_abs_of_def apply_side_def simulator_new_def
        keeper_apply_def link_offer_def null_append_sink_def
  have ready: "link_ready (bounded_dec 100) ?l" "pl_pending ?l = None" "pl_dropped_superseded ?l < u64_modulus"
    by (simp_all add: link_inv_def link_with_append_def keeper_new_def kill_gate_new_def simulator_new_def)
  obtain outs1 l1 where r1: "?run (concat (map (\<lambda>r. [ESubmit r, EPump]) ([?a] @ [?b]))) = Some (outs1, l1)"
    by (simp add: defs)
  obtain outs2 l2 where r2: "?run (map ESubmit ([?a] @ [?b]) @ [EPump]) = Some (outs2, l2)"
    by (simp add: defs)
  have "pl_dropped_superseded ?l = 0" by (simp add: link_with_append_def)
  with coalescing_is_lossless [OF ready r1 r2] r1 r2 show ?thesis
    unfolding Let_def by (auto simp: u64_add_def simp del: link_run.simps)
qed

end
