(* ===== verification/Pretrade.thy ===== *)
theory Pretrade imports Risk_Limits Edge_Gateway begin

text \<open>
  The pre-trade governor (\<open>qe-hedger\<close>, \<open>pretrade.rs\<close>). \<open>check\<close> is one function of the source;
  here each configured cap is a definition of its own, composed in the source's order. Clamp caps
  carry the sendable magnitude along, reject caps only add breaches. Decimal products, quotients
  and differences outside \<open>checked_div\<close> panic where the package does, and the check is then
  \<open>None\<close>.
\<close>

section \<open>The governor\<close>

datatype pretrade_verdict = Send notional | RejectTarget | HaltTarget

record pretrade_decision =
  pd_verdict :: pretrade_verdict
  pd_breaches :: "limit_breach list"

record pretrade_governor =
  gov_limits :: risk_limits
  gov_maintenance_margin_rate :: fraction
  gov_adv :: "notional option"

fun severity :: "limit_outcome \<Rightarrow> nat" where
  "severity ClampOrder = 0"
| "severity RejectOrder = 1"
| "severity HaltOrders = 2"

text \<open>\<open>max_by_key\<close> keeps the last of several maximal elements.\<close>

definition most_severe :: "limit_breach list \<Rightarrow> limit_outcome option" where
  "most_severe bs =
     foldl (\<lambda>acc out. case acc of None \<Rightarrow> Some out
              | Some a \<Rightarrow> if severity a \<le> severity out then Some out else Some a)
       None (map lb_outcome bs)"

definition governor_new :: "risk_limits \<Rightarrow> fraction \<Rightarrow> pretrade_governor" where
  "governor_new lims mmr = \<lparr>gov_limits = lims, gov_maintenance_margin_rate = mmr, gov_adv = None\<rparr>"

definition with_adv :: "pretrade_governor \<Rightarrow> notional option \<Rightarrow> pretrade_governor" where
  "with_adv g a = g\<lparr>gov_adv := a\<rparr>"

section \<open>Clamp caps\<close>

type_synonym clamp_state = "limit_breach list \<times> decimal"

definition guard_max_notional :: "risk_limits \<Rightarrow> decimal \<Rightarrow> clamp_state \<Rightarrow> clamp_state" where
  "guard_max_notional lims mag s =
     (case lim_max_notional lims of
        None \<Rightarrow> s
      | Some cap \<Rightarrow>
          (let c = notional_get cap
           in if mag > c
              then (fst s @ [with_default_outcome MaxNotional (Detail ''notional {} > max {}'' [mag, c])],
                    min (snd s) c)
              else s))"

definition guard_max_leverage :: "dec_arith \<Rightarrow> risk_limits \<Rightarrow> decimal \<Rightarrow> decimal \<Rightarrow> clamp_state \<Rightarrow> clamp_state option" where
  "guard_max_leverage A lims mag equity s =
     (case lim_max_leverage lims of
        None \<Rightarrow> Some s
      | Some lev \<Rightarrow>
          if equity > 0
          then do {
            cap_notional \<leftarrow> dec_mul A (leverage_get lev) equity;
            if mag > cap_notional
            then do {
              shown \<leftarrow> dec_div A mag equity;
              Some (fst s @ [with_default_outcome MaxLeverage
                       (Detail ''leverage {} > max {}'' [shown, leverage_get lev])],
                    min (snd s) cap_notional)
            }
            else Some s
          }
          else if mag > 0
          then Some (fst s @ [with_default_outcome MaxLeverage
                       (Detail ''leverage undefined (equity {}) with notional {}'' [equity, mag])], 0)
          else Some s)"

section \<open>Reject caps\<close>

definition guard_gross :: "risk_limits \<Rightarrow> decimal \<Rightarrow> limit_breach list" where
  "guard_gross lims gross =
     (case lim_max_gross_exposure lims of
        None \<Rightarrow> []
      | Some cap \<Rightarrow>
          if gross > notional_get cap
          then [with_default_outcome MaxGrossExposure (Detail ''gross {} > max {}'' [gross, notional_get cap])]
          else [])"

definition guard_net :: "risk_limits \<Rightarrow> decimal \<Rightarrow> limit_breach list" where
  "guard_net lims mag =
     (case lim_max_net_exposure lims of
        None \<Rightarrow> []
      | Some cap \<Rightarrow>
          if mag > notional_get cap
          then [with_default_outcome MaxNetExposure (Detail ''net {} > max {}'' [mag, notional_get cap])]
          else [])"

definition guard_liquidation ::
  "dec_arith \<Rightarrow> risk_limits \<Rightarrow> decimal \<Rightarrow> decimal \<Rightarrow> decimal \<Rightarrow> limit_breach list option" where
  "guard_liquidation A lims mag equity mmr =
     (case lim_liquidation_distance_floor lims of
        None \<Rightarrow> Some []
      | Some lo \<Rightarrow>
          if mag > 0
          then do {
            ratio \<leftarrow> dec_div A equity mag;
            distance \<leftarrow> dec_sub A ratio mmr;
            Some (if distance < fraction_get lo
                  then [with_default_outcome LiquidationDistanceFloor
                          (Detail ''liq distance {} < floor {}'' [distance, fraction_get lo])]
                  else [])
          }
          else Some [])"

definition guard_margin ::
  "dec_arith \<Rightarrow> risk_limits \<Rightarrow> decimal \<Rightarrow> decimal \<Rightarrow> decimal \<Rightarrow> limit_breach list option" where
  "guard_margin A lims mag avail mmr =
     (case lim_margin_utilisation_ceiling lims of
        None \<Rightarrow> Some []
      | Some hi \<Rightarrow>
          if avail > 0
          then do {
            need \<leftarrow> dec_mul A mag mmr;
            util \<leftarrow> dec_div A need avail;
            Some (if util > fraction_get hi
                  then [with_default_outcome MarginUtilisationCeiling
                          (Detail ''margin util {} > ceiling {}'' [util, fraction_get hi])]
                  else [])
          }
          else if mag > 0
          then Some [with_default_outcome MarginUtilisationCeiling
                       (Detail ''no available margin ({}) with notional {}'' [avail, mag])]
          else Some [])"

text \<open>Here the quotient is \<open>checked_div\<close>: its failure is a breach, not a panic.\<close>

definition guard_participation ::
  "dec_arith \<Rightarrow> risk_limits \<Rightarrow> decimal \<Rightarrow> notional option \<Rightarrow> limit_breach list" where
  "guard_participation A lims mag adv =
     (case lim_max_participation lims of
        None \<Rightarrow> []
      | Some cap \<Rightarrow>
          if mag > 0
          then (case map_option notional_get adv of
                  Some v \<Rightarrow>
                    if v > 0
                    then (case dec_div A mag v of
                            Some participation \<Rightarrow>
                              if participation > fraction_get cap
                              then [with_default_outcome MaxParticipation
                                      (Detail ''participation {} > cap {}'' [participation, fraction_get cap])]
                              else []
                          | None \<Rightarrow> [with_default_outcome MaxParticipation
                                      (Detail ''participation undefined (notional {} / adv {})'' [mag, v])])
                    else [with_default_outcome MaxParticipation
                            (Detail ''adv unknown/non-positive with notional {}'' [mag])]
                | None \<Rightarrow> [with_default_outcome MaxParticipation
                            (Detail ''adv unknown/non-positive with notional {}'' [mag])])
          else [])"

section \<open>The decision\<close>

definition verdict_of :: "limit_breach list \<Rightarrow> decimal \<Rightarrow> notional \<Rightarrow> pretrade_verdict" where
  "verdict_of bs clamp_mag target_notional =
     (case most_severe bs of
        Some HaltOrders \<Rightarrow> HaltTarget
      | Some RejectOrder \<Rightarrow> RejectTarget
      | Some ClampOrder \<Rightarrow>
          Send (Notional (if notional_get target_notional < 0 then - clamp_mag else clamp_mag))
      | None \<Rightarrow> Send target_notional)"

definition governor_check ::
  "dec_arith \<Rightarrow> pretrade_governor \<Rightarrow> target_position \<Rightarrow> capital_view \<Rightarrow> pretrade_decision option" where
  "governor_check A g target capital =
     (let lims = gov_limits g; mag = \<bar>notional_get (tp_notional target)\<bar>;
          gross = \<bar>notional_get (tp_gross target)\<bar>; equity = notional_get (cv_equity capital);
          avail = notional_get (cv_available_margin capital);
          mmr = fraction_get (gov_maintenance_margin_rate g)
      in do {
        (bs, clamp_mag) \<leftarrow> guard_max_leverage A lims mag equity (guard_max_notional lims mag ([], mag));
        liq \<leftarrow> guard_liquidation A lims mag equity mmr;
        margin \<leftarrow> guard_margin A lims mag avail mmr;
        let breaches = bs @ guard_gross lims gross @ guard_net lims mag @ liq @ margin @
                         guard_participation A lims mag (gov_adv g);
        Some \<lparr>pd_verdict = verdict_of breaches clamp_mag (tp_notional target), pd_breaches = breaches\<rparr>
      })"

section \<open>Reducing the breaches\<close>

lemma most_severe_snoc:
  "most_severe (bs @ [b]) =
     (case most_severe bs of None \<Rightarrow> Some (lb_outcome b)
      | Some a \<Rightarrow> if severity a \<le> severity (lb_outcome b) then Some (lb_outcome b) else Some a)"
  by (simp add: most_severe_def)

lemma most_severe_Nil [simp]: "most_severe [] = None"
  by (simp add: most_severe_def)

lemma most_severe_max:
  "most_severe bs = (if HaltOrders \<in> lb_outcome ` set bs then Some HaltOrders
     else if RejectOrder \<in> lb_outcome ` set bs then Some RejectOrder
     else if bs = [] then None else Some ClampOrder)"
proof (induction bs rule: rev_induct)
  case Nil
  then show ?case by simp
next
  case (snoc b bs)
  then show ?case
    by (cases "lb_outcome b") (auto simp: most_severe_snoc)
qed

definition clamp_kinds :: "limit_kind set" where
  "clamp_kinds = {MaxNotional, MaxLeverage}"

definition standard_breach :: "limit_breach \<Rightarrow> bool" where
  "standard_breach b \<longleftrightarrow> lb_outcome b = default_outcome (lb_kind b) \<and> lb_kind b \<noteq> DrawdownCap"

lemma verdict_of_standard:
  assumes "list_all standard_breach bs"
  shows "verdict_of bs cm t =
    (if \<exists>b \<in> set bs. lb_kind b \<notin> clamp_kinds then RejectTarget
     else if bs = [] then Send t
     else Send (Notional (if notional_get t < 0 then - cm else cm)))"
proof -
  have kinds: "lb_outcome b = RejectOrder \<longleftrightarrow> lb_kind b \<notin> clamp_kinds" if "b \<in> set bs" for b
    using assms that by (cases "lb_kind b") (auto simp: list_all_iff standard_breach_def clamp_kinds_def)
  have "RejectOrder \<in> lb_outcome ` set bs \<longleftrightarrow> (\<exists>b \<in> set bs. lb_kind b \<notin> clamp_kinds)"
    unfolding image_iff using kinds by metis
  moreover have "HaltOrders \<notin> lb_outcome ` set bs"
    using assms by (auto simp: list_all_iff standard_breach_def dest!: sym [of HaltOrders])
  ultimately have "most_severe bs = (if \<exists>b \<in> set bs. lb_kind b \<notin> clamp_kinds then Some RejectOrder
      else if bs = [] then None else Some ClampOrder)"
    by (simp add: most_severe_max)
  then show ?thesis
    by (simp add: verdict_of_def)
qed


section \<open>What each cap guarantees\<close>

definition caps_nonneg :: "risk_limits \<Rightarrow> bool" where
  "caps_nonneg lims \<longleftrightarrow>
     (case lim_max_notional lims of None \<Rightarrow> True | Some cap \<Rightarrow> 0 \<le> notional_get cap) \<and>
     (case lim_max_leverage lims of None \<Rightarrow> True | Some lev \<Rightarrow> valid_leverage lev)"

definition clamp_breach :: "limit_breach \<Rightarrow> bool" where
  "clamp_breach b \<longleftrightarrow> standard_breach b \<and> lb_kind b \<in> clamp_kinds"

definition reject_breach :: "limit_breach \<Rightarrow> bool" where
  "reject_breach b \<longleftrightarrow> standard_breach b \<and> lb_kind b \<notin> clamp_kinds"

lemma guard_max_notional_spec:
  assumes "guard_max_notional lims mag ([], mag) = (bs, cm)" "0 \<le> mag" "caps_nonneg lims"
  shows "0 \<le> cm" "cm \<le> mag" "bs = [] \<longrightarrow> cm = mag" "list_all clamp_breach bs"
    "lim_max_notional lims = Some cap \<Longrightarrow> cm \<le> notional_get cap"
  using assms by (auto simp: guard_max_notional_def caps_nonneg_def clamp_breach_def clamp_kinds_def
      standard_breach_def Let_def split: option.splits if_splits)

definition leverage_ok :: "dec_arith \<Rightarrow> risk_limits \<Rightarrow> decimal \<Rightarrow> decimal \<Rightarrow> bool" where
  "leverage_ok A lims equity m \<longleftrightarrow>
     (case lim_max_leverage lims of None \<Rightarrow> True
      | Some lev \<Rightarrow> if equity > 0
                    then (\<exists>c. dec_mul A (leverage_get lev) equity = Some c \<and> m \<le> c) else m \<le> 0)"

lemma guard_max_leverage_spec:
  assumes "guard_max_leverage A lims mag equity (bs0, cm0) = Some (bs, cm)" "dec_signs A" "caps_nonneg lims"
    and "0 \<le> mag" "0 \<le> cm0" "cm0 \<le> mag" "bs0 = [] \<longrightarrow> cm0 = mag" "list_all clamp_breach bs0"
  shows "0 \<le> cm" "cm \<le> cm0" "bs = [] \<longrightarrow> cm = mag" "list_all clamp_breach bs" "leverage_ok A lims equity cm"
proof -
  have cb: "clamp_breach (with_default_outcome MaxLeverage d)" for d
    by (simp add: clamp_breach_def clamp_kinds_def standard_breach_def)
  have "0 \<le> cm \<and> cm \<le> cm0 \<and> (bs = [] \<longrightarrow> cm = mag) \<and> list_all clamp_breach bs \<and> leverage_ok A lims equity cm"
  proof (cases "lim_max_leverage lims")
    case None
    then show ?thesis using assms by (simp add: guard_max_leverage_def leverage_ok_def)
  next
    case (Some lev)
    then have lev: "0 \<le> leverage_get lev"
      using assms(3) by (simp add: caps_nonneg_def valid_leverage_def)
    show ?thesis
    proof (cases "equity > 0")
      case True
      with assms(1) Some obtain c where c: "dec_mul A (leverage_get lev) equity = Some c"
        by (auto simp: guard_max_leverage_def panic_simps)
      have "0 \<le> c" using dec_signsD [OF assms(2) lev _ c] True by simp
      then show ?thesis
        using assms(1,5-8) True Some c cb
        by (auto simp: guard_max_leverage_def leverage_ok_def panic_simps split: if_splits)
    next
      case False
      then show ?thesis
        using assms(1,4-8) Some cb
        by (auto simp: guard_max_leverage_def leverage_ok_def split: if_splits)
    qed
  qed
  then show "0 \<le> cm" "cm \<le> cm0" "bs = [] \<longrightarrow> cm = mag" "list_all clamp_breach bs" "leverage_ok A lims equity cm"
    by simp_all
qed

lemma reject_guards_standard:
  "list_all reject_breach (guard_gross lims gross)"
  "list_all reject_breach (guard_net lims mag)"
  "guard_liquidation A lims mag equity mmr = Some liq \<Longrightarrow> list_all reject_breach liq"
  "guard_margin A lims mag avail mmr = Some margin \<Longrightarrow> list_all reject_breach margin"
  "list_all reject_breach (guard_participation A lims mag adv)"
  by (auto simp: guard_gross_def guard_net_def guard_liquidation_def guard_margin_def
      guard_participation_def reject_breach_def standard_breach_def clamp_kinds_def panic_simps
      split: option.splits if_splits)

text \<open>The reject caps, as what the target must satisfy for none of them to be breached.\<close>

definition reject_caps_ok ::
  "dec_arith \<Rightarrow> pretrade_governor \<Rightarrow> target_position \<Rightarrow> capital_view \<Rightarrow> bool" where
  "reject_caps_ok A g t c =
     (let lims = gov_limits g; mag = \<bar>notional_get (tp_notional t)\<bar>;
          mmr = fraction_get (gov_maintenance_margin_rate g)
      in (case lim_max_gross_exposure lims of None \<Rightarrow> True
          | Some cap \<Rightarrow> \<bar>notional_get (tp_gross t)\<bar> \<le> notional_get cap) \<and>
         (case lim_max_net_exposure lims of None \<Rightarrow> True | Some cap \<Rightarrow> mag \<le> notional_get cap) \<and>
         (case lim_liquidation_distance_floor lims of None \<Rightarrow> True
          | Some lo \<Rightarrow> mag = 0 \<or> (\<exists>ratio d. dec_div A (notional_get (cv_equity c)) mag = Some ratio \<and>
               dec_sub A ratio mmr = Some d \<and> fraction_get lo \<le> d)) \<and>
         (case lim_margin_utilisation_ceiling lims of None \<Rightarrow> True
          | Some hi \<Rightarrow>
              (if notional_get (cv_available_margin c) > 0
               then (\<exists>need util. dec_mul A mag mmr = Some need \<and>
                      dec_div A need (notional_get (cv_available_margin c)) = Some util \<and> util \<le> fraction_get hi)
               else mag = 0)) \<and>
         (case lim_max_participation lims of None \<Rightarrow> True
          | Some cap \<Rightarrow> mag = 0 \<or>
              (\<exists>adv p. gov_adv g = Some adv \<and> 0 < notional_get adv \<and>
                 dec_div A mag (notional_get adv) = Some p \<and> p \<le> fraction_get cap)))"

lemma reject_guards_empty:
  assumes "guard_liquidation A (gov_limits g) \<bar>notional_get (tp_notional t)\<bar> (notional_get (cv_equity c))
      (fraction_get (gov_maintenance_margin_rate g)) = Some liq"
    and "guard_margin A (gov_limits g) \<bar>notional_get (tp_notional t)\<bar> (notional_get (cv_available_margin c))
      (fraction_get (gov_maintenance_margin_rate g)) = Some margin"
  shows "guard_gross (gov_limits g) \<bar>notional_get (tp_gross t)\<bar> @ guard_net (gov_limits g) \<bar>notional_get (tp_notional t)\<bar>
      @ liq @ margin @ guard_participation A (gov_limits g) \<bar>notional_get (tp_notional t)\<bar> (gov_adv g) = []
    \<longleftrightarrow> reject_caps_ok A g t c"
proof -
  have liq: "liq = [] \<longleftrightarrow> (case lim_liquidation_distance_floor (gov_limits g) of None \<Rightarrow> True
      | Some lo \<Rightarrow> notional_get (tp_notional t) = 0 \<or>
          (\<exists>ratio d. dec_div A (notional_get (cv_equity c)) \<bar>notional_get (tp_notional t)\<bar> = Some ratio \<and>
           dec_sub A ratio (fraction_get (gov_maintenance_margin_rate g)) = Some d \<and> fraction_get lo \<le> d))"
    using assms(1) by (auto simp: guard_liquidation_def panic_simps not_less split: option.splits if_splits)
  have margin: "margin = [] \<longleftrightarrow> (case lim_margin_utilisation_ceiling (gov_limits g) of None \<Rightarrow> True
      | Some hi \<Rightarrow> (if notional_get (cv_available_margin c) > 0
         then (\<exists>need util. dec_mul A \<bar>notional_get (tp_notional t)\<bar> (fraction_get (gov_maintenance_margin_rate g)) = Some need \<and>
            dec_div A need (notional_get (cv_available_margin c)) = Some util \<and> util \<le> fraction_get hi)
         else notional_get (tp_notional t) = 0))"
    using assms(2) by (auto simp: guard_margin_def panic_simps not_less split: option.splits if_splits)
  show ?thesis
    unfolding append_is_Nil_conv liq margin reject_caps_ok_def Let_def
    by (auto simp: guard_gross_def guard_net_def guard_participation_def not_less
        split: option.splits if_splits)
qed


section \<open>The decision as a whole\<close>

lemma governor_check_Some:
  assumes "governor_check A g t c = Some d"
  obtains bs cm liq margin where
    "guard_max_leverage A (gov_limits g) \<bar>notional_get (tp_notional t)\<bar> (notional_get (cv_equity c))
       (guard_max_notional (gov_limits g) \<bar>notional_get (tp_notional t)\<bar> ([], \<bar>notional_get (tp_notional t)\<bar>))
     = Some (bs, cm)"
    "guard_liquidation A (gov_limits g) \<bar>notional_get (tp_notional t)\<bar> (notional_get (cv_equity c))
      (fraction_get (gov_maintenance_margin_rate g)) = Some liq"
    "guard_margin A (gov_limits g) \<bar>notional_get (tp_notional t)\<bar> (notional_get (cv_available_margin c))
      (fraction_get (gov_maintenance_margin_rate g)) = Some margin"
    "pd_breaches d = bs @ (guard_gross (gov_limits g) \<bar>notional_get (tp_gross t)\<bar> @
      guard_net (gov_limits g) \<bar>notional_get (tp_notional t)\<bar> @ liq @ margin @
      guard_participation A (gov_limits g) \<bar>notional_get (tp_notional t)\<bar> (gov_adv g))"
    "pd_verdict d = verdict_of (pd_breaches d) cm (tp_notional t)"
  using assms by (fastforce simp: governor_check_def Let_def panic_simps)

lemma clamp_phase_kinds:
  assumes "guard_max_leverage A lims mag equity (guard_max_notional lims mag ([], mag)) = Some (bs, cm)"
  shows "list_all clamp_breach bs"
  using assms
  by (auto simp: guard_max_leverage_def guard_max_notional_def clamp_breach_def clamp_kinds_def standard_breach_def
      Let_def panic_simps split: option.splits if_splits)

lemma clamp_phase:
  assumes "guard_max_leverage A lims mag equity (guard_max_notional lims mag ([], mag)) = Some (bs, cm)"
    and "dec_signs A" "caps_nonneg lims" "0 \<le> mag"
  shows "0 \<le> cm \<and> cm \<le> mag \<and> (bs = [] \<longrightarrow> cm = mag) \<and> list_all clamp_breach bs \<and>
    leverage_ok A lims equity cm \<and> (\<forall>cap. lim_max_notional lims = Some cap \<longrightarrow> cm \<le> notional_get cap)"
proof -
  obtain bs0 cm0 where n: "guard_max_notional lims mag ([], mag) = (bs0, cm0)"
    by (cases "guard_max_notional lims mag ([], mag)")
  note spec0 = guard_max_notional_spec [OF n assms(4,3)]
  from assms(1) n have "guard_max_leverage A lims mag equity (bs0, cm0) = Some (bs, cm)"
    by simp
  from guard_max_leverage_spec [OF this assms(2-4) spec0(1-4)] spec0 show ?thesis
    by fastforce
qed

text \<open>
  C2. Every decision the governor returns is safe: it never halts, it rejects exactly when a
  gross, net, liquidation, margin or participation cap is breached (unknown or unusable inputs
  counting as breaches), and it sends the target as it is when nothing is breached. If the notional
  cap is not negative and the leverage cap is a valid one (\<open>caps_nonneg\<close>), and the package's products
  keep their sign (\<open>dec_signs\<close>), a target it sends never exceeds the requested magnitude, never
  changes sides, and respects the notional and leverage caps; with a negative notional cap the target
  can change sides (\<open>negative_notional_cap_reverses\<close>).
\<close>

theorem pretrade_decision_is_safe:
  assumes "governor_check A g t c = Some d"
  shows "pd_verdict d \<noteq> HaltTarget \<and>
    (pd_verdict d = RejectTarget \<longleftrightarrow> \<not> reject_caps_ok A g t c) \<and>
    (\<forall>n. dec_signs A \<longrightarrow> caps_nonneg (gov_limits g) \<longrightarrow> pd_verdict d = Send n \<longrightarrow>
       \<bar>notional_get n\<bar> \<le> \<bar>notional_get (tp_notional t)\<bar> \<and>
       0 \<le> notional_get n * notional_get (tp_notional t) \<and>
       (\<forall>cap. lim_max_notional (gov_limits g) = Some cap \<longrightarrow> \<bar>notional_get n\<bar> \<le> notional_get cap) \<and>
       leverage_ok A (gov_limits g) (notional_get (cv_equity c)) \<bar>notional_get n\<bar>) \<and>
    (pd_breaches d = [] \<longrightarrow> pd_verdict d = Send (tp_notional t))"
proof -
  let ?mag = "\<bar>notional_get (tp_notional t)\<bar>"
  from governor_check_Some [OF assms] obtain bs cm liq margin where
    cl: "guard_max_leverage A (gov_limits g) ?mag (notional_get (cv_equity c))
       (guard_max_notional (gov_limits g) ?mag ([], ?mag)) = Some (bs, cm)"
    and liq: "guard_liquidation A (gov_limits g) ?mag (notional_get (cv_equity c))
      (fraction_get (gov_maintenance_margin_rate g)) = Some liq"
    and margin: "guard_margin A (gov_limits g) ?mag (notional_get (cv_available_margin c))
      (fraction_get (gov_maintenance_margin_rate g)) = Some margin"
    and breaches: "pd_breaches d = bs @ (guard_gross (gov_limits g) \<bar>notional_get (tp_gross t)\<bar> @
      guard_net (gov_limits g) ?mag @ liq @ margin @ guard_participation A (gov_limits g) ?mag (gov_adv g))"
      (is "_ = bs @ ?rej")
    and verdict: "pd_verdict d = verdict_of (pd_breaches d) cm (tp_notional t)" by metis
  note c = clamp_phase_kinds [OF cl]
  have rej: "list_all reject_breach ?rej"
    using reject_guards_standard liq margin by simp
  have empty: "?rej = [] \<longleftrightarrow> reject_caps_ok A g t c"
    by (rule reject_guards_empty [OF liq margin])
  have std: "list_all standard_breach (pd_breaches d)"
    using c rej by (auto simp: breaches list_all_iff clamp_breach_def reject_breach_def)
  have some: "(\<exists>b \<in> set (pd_breaches d). lb_kind b \<notin> clamp_kinds) \<longleftrightarrow> ?rej \<noteq> []"
  proof
    assume "?rej \<noteq> []"
    then obtain b where "b \<in> set ?rej" by (meson last_in_set)
    moreover from this rej have "lb_kind b \<notin> clamp_kinds"
      unfolding list_all_iff reject_breach_def by blast
    ultimately show "\<exists>b \<in> set (pd_breaches d). lb_kind b \<notin> clamp_kinds"
      unfolding breaches set_append by blast
  next
    assume "\<exists>b \<in> set (pd_breaches d). lb_kind b \<notin> clamp_kinds"
    then show "?rej \<noteq> []"
      using c unfolding breaches list_all_iff clamp_breach_def by fastforce
  qed
  have v: "pd_verdict d = (if \<not> reject_caps_ok A g t c then RejectTarget
      else if pd_breaches d = [] then Send (tp_notional t)
      else Send (Notional (if notional_get (tp_notional t) < 0 then - cm else cm)))"
    unfolding verdict verdict_of_standard [OF std] some empty ..
  have "bs = [] \<and> reject_caps_ok A g t c" if "pd_breaches d = []"
    using that empty by (simp add: breaches)
  moreover have "\<forall>n. dec_signs A \<longrightarrow> caps_nonneg (gov_limits g) \<longrightarrow> pd_verdict d = Send n \<longrightarrow>
       \<bar>notional_get n\<bar> \<le> ?mag \<and> 0 \<le> notional_get n * notional_get (tp_notional t) \<and>
       (\<forall>cap. lim_max_notional (gov_limits g) = Some cap \<longrightarrow> \<bar>notional_get n\<bar> \<le> notional_get cap) \<and>
       leverage_ok A (gov_limits g) (notional_get (cv_equity c)) \<bar>notional_get n\<bar>"
  proof (intro allI impI)
    fix n assume "dec_signs A" "caps_nonneg (gov_limits g)" "pd_verdict d = Send n"
    then show "\<bar>notional_get n\<bar> \<le> ?mag \<and> 0 \<le> notional_get n * notional_get (tp_notional t) \<and>
       (\<forall>cap. lim_max_notional (gov_limits g) = Some cap \<longrightarrow> \<bar>notional_get n\<bar> \<le> notional_get cap) \<and>
       leverage_ok A (gov_limits g) (notional_get (cv_equity c)) \<bar>notional_get n\<bar>"
      using clamp_phase [OF cl _ _ abs_ge_zero] breaches unfolding v
      by (auto simp: mult_nonneg_nonneg mult_nonneg_nonpos split: if_splits)
  qed
  moreover have "pd_breaches d = [] \<longrightarrow> pd_verdict d = Send (tp_notional t)"
    using \<open>pd_breaches d = [] \<Longrightarrow> _\<close> unfolding v by simp
  ultimately show ?thesis unfolding v by auto
qed


theorem pretrade_decision_is_safe_witness:
  "\<exists>d. governor_check (bounded_dec 1000)
      (governor_new (risk_limits_default\<lparr>lim_max_notional := Some (Notional 8),
         lim_max_leverage := Some (Leverage 2)\<rparr>) (Fraction 0))
      (target_single (Notional (-20))) \<lparr>cv_equity = Notional 3, cv_available_margin = Notional 3\<rparr> = Some d \<and>
    pd_verdict d = Send (Notional (-6)) \<and> \<bar>-6 :: rat\<bar> \<le> 8 \<and>
    leverage_ok (bounded_dec 1000) (risk_limits_default\<lparr>lim_max_notional := Some (Notional 8),
         lim_max_leverage := Some (Leverage 2)\<rparr>) 3 6"
proof -
  let ?A = "bounded_dec 1000"
  let ?lims = "risk_limits_default\<lparr>lim_max_notional := Some (Notional 8), lim_max_leverage := Some (Leverage 2)\<rparr>"
  let ?g = "governor_new ?lims (Fraction 0)"
  let ?t = "target_single (Notional (-20))"
  let ?c = "\<lparr>cv_equity = Notional 3, cv_available_margin = Notional 3\<rparr>"
  obtain d where d: "governor_check ?A ?g ?t ?c = Some d" and v: "pd_verdict d = Send (Notional (-6))"
    by (simp add: governor_check_def governor_new_def target_single_def guard_max_notional_def
        guard_max_leverage_def guard_liquidation_def guard_margin_def guard_gross_def guard_net_def
        guard_participation_def risk_limits_default_def bounded_dec_def Let_def verdict_of_def most_severe_def)
  have caps: "caps_nonneg (gov_limits ?g)"
    by (simp add: caps_nonneg_def governor_new_def valid_leverage_def)
  from pretrade_decision_is_safe [OF d] bounded_dec_signs caps d v show ?thesis
    by (simp add: governor_new_def)
qed

text \<open>
  The notional cap is an unvalidated signed notional. With a negative one, and no other cap
  breached, the clamp does not shrink a long target towards flat: it sends a short target of the
  cap's size.
\<close>

theorem negative_notional_cap_reverses:
  assumes "cap < 0" and "0 < notional_get (tp_notional t)"
  shows "map_option pd_verdict
     (governor_check A (governor_new (risk_limits_default\<lparr>lim_max_notional := Some (Notional cap)\<rparr>) mmr) t c)
   = Some (Send (Notional cap))"
  using assms by (simp add: governor_check_def governor_new_def guard_max_notional_def
      guard_max_leverage_def guard_liquidation_def guard_margin_def guard_gross_def guard_net_def
      guard_participation_def risk_limits_default_def Let_def verdict_of_def most_severe_def)

theorem negative_notional_cap_reverses_witness:
  "map_option pd_verdict
     (governor_check (bounded_dec 100)
        (governor_new (risk_limits_default\<lparr>lim_max_notional := Some (Notional (-5))\<rparr>) (Fraction 0))
        (target_single (Notional 10)) \<lparr>cv_equity = Notional 50, cv_available_margin = Notional 50\<rparr>)
   = Some (Send (Notional (-5)))"
  by (rule negative_notional_cap_reverses) (simp_all add: target_single_def)

text \<open>
  The participation guard divides with \<open>checked_div\<close> and fails closed, but the other quotients
  of the same function are panicking ones: when the equity over a dust target overflows the
  decimal package's range, a governor with a liquidation floor panics instead of deciding.
\<close>

theorem liquidation_guard_panics:
  assumes "lim_liquidation_distance_floor (gov_limits g) = Some lo"
    and "notional_get (tp_notional t) \<noteq> 0"
    and "dec_div A (notional_get (cv_equity c)) \<bar>notional_get (tp_notional t)\<bar> = None"
  shows "governor_check A g t c = None"
  using assms by (auto simp: governor_check_def guard_liquidation_def Let_def panic_simps)

theorem liquidation_guard_panics_witness:
  "governor_check (bounded_dec 79228162514264337593543950335)
     (governor_new (risk_limits_default\<lparr>lim_liquidation_distance_floor := Some (Fraction (1/20))\<rparr>) (Fraction (1/200)))
     (target_single (Notional (1/10000000000000000000000000000)))
     \<lparr>cv_equity = Notional 1000, cv_available_margin = Notional 1000\<rparr> = None"
  by (rule liquidation_guard_panics [where lo = "Fraction (1/20)"])
    (simp_all add: governor_new_def target_single_def bounded_dec_def)

end
