(* ===== verification/Rate_Limiter.thy ===== *)
theory Rate_Limiter imports Prelude begin

text \<open>
  The venue's weight budget (\<open>qe-venue\<close>, \<open>ratelimit.rs\<close>): a pure accountant that charges a
  request's weight to the current window, or answers the instant at which to try again. Every
  instant is an \<open>i64\<close> with saturating sums.
\<close>

section \<open>The limiter\<close>

definition default_weight_budget :: u32 where "default_weight_budget = 1200"
definition default_window_ms :: i64 where "default_window_ms = 60000"

datatype acquire_result = Ready | WaitUntil i64

record rate_limiter =
  rl_budget :: u32
  rl_window_ms :: i64
  rl_window_start_ms :: i64
  rl_used :: u32
  rl_next_allowed_ms :: i64

definition limiter_new :: "u32 \<Rightarrow> i64 \<Rightarrow> rate_limiter" where
  "limiter_new budget window = \<lparr>rl_budget = budget, rl_window_ms = window,
     rl_window_start_ms = i64_min, rl_used = 0, rl_next_allowed_ms = i64_min\<rparr>"

definition limiter_with_defaults :: rate_limiter where
  "limiter_with_defaults = limiter_new default_weight_budget default_window_ms"

definition limiter_acquire :: "rate_limiter \<Rightarrow> u32 \<Rightarrow> i64 \<Rightarrow> acquire_result \<times> rate_limiter" where
  "limiter_acquire l weight now_ms =
     (if now_ms < rl_next_allowed_ms l then (WaitUntil (rl_next_allowed_ms l), l)
      else
        (let l1 = (if now_ms \<ge> sat_i64 (rl_window_start_ms l + rl_window_ms l)
                   then l\<lparr>rl_window_start_ms := now_ms, rl_used := 0\<rparr> else l)
         in if u32_sat_add (rl_used l1) weight \<le> rl_budget l1
            then (Ready, l1\<lparr>rl_used := (rl_used l1 + weight) mod u32_modulus\<rparr>)
            else (WaitUntil (sat_i64 (rl_window_start_ms l1 + rl_window_ms l1)), l1)))"

definition note_retry_after :: "rate_limiter \<Rightarrow> i64 \<Rightarrow> rate_limiter" where
  "note_retry_after l until_ms = l\<lparr>rl_next_allowed_ms := max (rl_next_allowed_ms l) until_ms\<rparr>"

section \<open>What a window can carry\<close>

definition limiter_ok :: "rate_limiter \<Rightarrow> bool" where
  "limiter_ok l \<longleftrightarrow> rl_budget l < u32_modulus \<and> rl_used l \<le> rl_budget l"

lemma limiter_new_ok [simp]: "budget < u32_modulus \<Longrightarrow> limiter_ok (limiter_new budget window)"
  by (simp add: limiter_ok_def limiter_new_def)

lemma sat_add_fits:
  "b < u32_modulus \<Longrightarrow> w < u32_modulus \<Longrightarrow> u32_sat_add u w \<le> b \<Longrightarrow> b < u32_modulus - 1 \<or> u + w \<le> b \<Longrightarrow>
     u + w \<le> b \<and> (u + w) mod u32_modulus = u + w"
  by (auto simp: u32_sat_add_def min_def split: if_splits)

text \<open>A budget of \<open>u32::MAX\<close> would make the saturating test pass and the sum wrap; it is excluded.\<close>

definition sane_budget :: "rate_limiter \<Rightarrow> bool" where
  "sane_budget l \<longleftrightarrow> rl_budget l < u32_modulus - 1"

lemma acquire_frame:
  "rl_budget (snd (limiter_acquire l w t)) = rl_budget l"
  "rl_window_ms (snd (limiter_acquire l w t)) = rl_window_ms l"
  "rl_next_allowed_ms (snd (limiter_acquire l w t)) = rl_next_allowed_ms l"
  by (simp_all add: limiter_acquire_def Let_def)

lemma acquire_ready_cases:
  assumes "limiter_acquire l w t = (Ready, l')" "limiter_ok l" "sane_budget l" "w < u32_modulus"
  shows "rl_next_allowed_ms l \<le> t"
    and "(rl_window_start_ms l' = t \<and> rl_used l' = w) \<or>
         (rl_window_start_ms l' = rl_window_start_ms l \<and> rl_used l' = rl_used l + w \<and>
          t < sat_i64 (rl_window_start_ms l + rl_window_ms l))"
    and "rl_used l' \<le> rl_budget l"
proof -
  let ?roll = "t \<ge> sat_i64 (rl_window_start_ms l + rl_window_ms l)"
  let ?l1 = "if ?roll then l\<lparr>rl_window_start_ms := t, rl_used := 0\<rparr> else l"
  from assms(1) show nxt: "rl_next_allowed_ms l \<le> t"
    by (auto simp: limiter_acquire_def Let_def split: if_splits)
  from assms(1) nxt have fit: "u32_sat_add (rl_used ?l1) w \<le> rl_budget ?l1"
    and l': "l' = ?l1\<lparr>rl_used := (rl_used ?l1 + w) mod u32_modulus\<rparr>"
    by (simp_all add: limiter_acquire_def Let_def split: if_splits)
  have b: "rl_budget ?l1 < u32_modulus - 1" using assms(3) by (simp add: sane_budget_def)
  with fit have sum: "rl_used ?l1 + w \<le> rl_budget ?l1 \<and> (rl_used ?l1 + w) mod u32_modulus = rl_used ?l1 + w"
    by (intro sat_add_fits assms(4)) auto
  from sum show "rl_used l' \<le> rl_budget l" unfolding l' by (cases ?roll) simp_all
  from sum show "(rl_window_start_ms l' = t \<and> rl_used l' = w) \<or>
         (rl_window_start_ms l' = rl_window_start_ms l \<and> rl_used l' = rl_used l + w \<and>
          t < sat_i64 (rl_window_start_ms l + rl_window_ms l))"
    unfolding l' by auto
qed

lemma acquire_ok:
  "limiter_ok l \<Longrightarrow> sane_budget l \<Longrightarrow> w < u32_modulus \<Longrightarrow> limiter_ok (snd (limiter_acquire l w t))"
proof -
  assume a: "limiter_ok l" "sane_budget l" "w < u32_modulus"
  show ?thesis
  proof (cases "fst (limiter_acquire l w t)")
    case Ready
    then have "limiter_acquire l w t = (Ready, snd (limiter_acquire l w t))" by (metis prod.collapse)
    from acquire_ready_cases(3) [OF this a] a(1) show ?thesis
      by (simp add: limiter_ok_def acquire_frame)
  next
    case (WaitUntil d)
    with a(1) show ?thesis
      by (auto simp: limiter_acquire_def limiter_ok_def Let_def split: if_splits)
  qed
qed

text \<open>
  A run of calls, each a weight and the instant it is made at. The grants are recorded with their
  instants; those since the window in force opened are the ones \<open>rl_used\<close> accounts for.
\<close>

fun acquire_run :: "rate_limiter \<Rightarrow> (u32 \<times> i64) list \<Rightarrow> (u32 \<times> i64) list \<times> rate_limiter" where
  "acquire_run l [] = ([], l)"
| "acquire_run l ((w, t) # cs) =
     (let (r, l1) = limiter_acquire l w t; (gs, l2) = acquire_run l1 cs
      in (if r = Ready then (w, t) # gs else gs, l2))"

definition granted_from :: "i64 \<Rightarrow> (u32 \<times> i64) list \<Rightarrow> nat" where
  "granted_from s gs = sum_list (map fst (filter (\<lambda>(w, t). s \<le> t) gs))"

lemma granted_from_snoc [simp]:
  "granted_from s (gs @ [(w, t)]) = granted_from s gs + (if s \<le> t then w else 0)"
  by (simp add: granted_from_def)

lemma granted_from_none: "\<forall>(w, t) \<in> set gs. t < s \<Longrightarrow> granted_from s gs = 0"
proof -
  assume "\<forall>(w, t) \<in> set gs. t < s"
  then have "filter (\<lambda>(w, t). s \<le> t) gs = []" by (auto simp: filter_empty_conv)
  then show ?thesis by (simp add: granted_from_def)
qed

text \<open>\<open>rl_used\<close> is what was granted since the window opened, and all of it inside the window.\<close>

definition accounted :: "rate_limiter \<Rightarrow> (u32 \<times> i64) list \<Rightarrow> i64 \<Rightarrow> bool" where
  "accounted l gs now \<longleftrightarrow> limiter_ok l \<and> sane_budget l \<and> 0 < rl_window_ms l \<and>
     rl_window_start_ms l \<le> now \<and>
     (\<forall>(w, t) \<in> set gs. t < sat_i64 (rl_window_start_ms l + rl_window_ms l)) \<and>
     granted_from (rl_window_start_ms l) gs = rl_used l"

lemma acquire_accounted:
  assumes "accounted l gs now" "now \<le> t" "in_i64 t" "t < i64_max" "w < u32_modulus"
    and "limiter_acquire l w t = (r, l')"
  shows "accounted l' (if r = Ready then gs @ [(w, t)] else gs) t"
proof -
  let ?stop = "sat_i64 (rl_window_start_ms l + rl_window_ms l)"
  have ok: "limiter_ok l" "sane_budget l" "0 < rl_window_ms l" "rl_window_start_ms l \<le> t"
    "\<forall>(w, t) \<in> set gs. t < ?stop" "granted_from (rl_window_start_ms l) gs = rl_used l"
    using assms(1,2) by (auto simp: accounted_def)
  have ok': "limiter_ok l'" "sane_budget l'" "rl_window_ms l' = rl_window_ms l"
    using acquire_ok [OF ok(1,2) assms(5), of t] acquire_frame [of l w t] assms(6) ok(2)
    by (simp_all add: sane_budget_def)
  have later: "t < sat_i64 (t + rl_window_ms l)"
    using ok(3) assms(3,4) by (auto simp: sat_i64_def in_i64_def)
  have rolled: "(\<forall>(w, u) \<in> set gs. u < sat_i64 (t + rl_window_ms l)) \<and> granted_from t gs = 0" if "?stop \<le> t"
  proof -
    have "\<forall>(w, u) \<in> set gs. u < t" using ok(5) that by fastforce
    then show ?thesis using later granted_from_none by fastforce
  qed
  show ?thesis
  proof (cases r)
    case Ready
    then have "limiter_acquire l w t = (Ready, l')" using assms(6) by simp
    note acq = this
    show ?thesis
    proof (cases "?stop \<le> t")
      case True
      with acq have "rl_window_start_ms l' = t" by (auto simp: limiter_acquire_def Let_def split: if_splits)
      moreover have "rl_used l' = w"
        using acquire_ready_cases(2) [OF acq ok(1,2) assms(5)] True by auto
      ultimately show ?thesis
        using ok' ok(3) rolled [OF True] later Ready by (auto simp: accounted_def)
    next
      case False
      with acq have ws: "rl_window_start_ms l' = rl_window_start_ms l"
        by (auto simp: limiter_acquire_def Let_def split: if_splits)
      have "rl_used l' = (rl_used l + w) mod u32_modulus"
        using acq False by (auto simp: limiter_acquire_def Let_def split: if_splits)
      moreover have "u32_sat_add (rl_used l) w \<le> rl_budget l"
        using acq False by (auto simp: limiter_acquire_def Let_def split: if_splits)
      ultimately have "rl_used l' = rl_used l + w"
        using sat_add_fits [of "rl_budget l" w "rl_used l"] ok(2) assms(5) by (simp add: sane_budget_def)
      then show ?thesis
        using ok' ok(3-6) False ws Ready by (auto simp: accounted_def)
    qed
  next
    case (WaitUntil d)
    with assms(6) have "l' = l \<or> (?stop \<le> t \<and> l' = l\<lparr>rl_window_start_ms := t, rl_used := 0\<rparr>)"
      by (auto simp: limiter_acquire_def Let_def split: if_splits)
    then show ?thesis
    proof
      assume "l' = l"
      then show ?thesis using ok WaitUntil by (auto simp: accounted_def)
    next
      assume "?stop \<le> t \<and> l' = l\<lparr>rl_window_start_ms := t, rl_used := 0\<rparr>"
      then show ?thesis using ok' ok(3) rolled WaitUntil by (auto simp: accounted_def)
    qed
  qed
qed

lemma acquire_run_accounted:
  assumes "accounted l gs now" "sorted (now # map snd cs)"
    and "\<forall>(w, t) \<in> set cs. w < u32_modulus \<and> in_i64 t \<and> t < i64_max"
    and "acquire_run l cs = (gs', l')"
  shows "\<exists>now'. accounted l' (gs @ gs') now'"
  using assms
proof (induction cs arbitrary: l gs now gs')
  case Nil
  then show ?case by auto
next
  case (Cons c cs)
  obtain w t where c: "c = (w, t)" by (cases c)
  obtain r l1 where r: "limiter_acquire l w t = (r, l1)" by (cases "limiter_acquire l w t")
  obtain gs1 where rest: "acquire_run l1 cs = (gs1, l')"
    and gs': "gs' = (if r = Ready then (w, t) # gs1 else gs1)"
    using Cons.prems(4) r by (cases "acquire_run l1 cs") (auto simp: c)
  have "accounted l1 (if r = Ready then gs @ [(w, t)] else gs) t"
    by (rule acquire_accounted [OF Cons.prems(1) _ _ _ _ r]) (use Cons.prems(2,3) in \<open>auto simp: c\<close>)
  from Cons.IH [OF this _ _ rest] Cons.prems(2,3) gs' show ?case
    by (auto simp: c split: if_splits)
qed

text \<open>
  The limiter never overspends its window: over any sequence of calls at non-decreasing
  instants, the weight granted since the window in force opened is exactly what it has accounted
  for and at most the budget, and nothing is granted before a venue's retry-after instant.
\<close>

theorem limiter_never_overspends:
  assumes "budget < u32_modulus - 1" and "0 < window" and "sorted (map snd cs)"
    and "\<forall>(w, t) \<in> set cs. w < u32_modulus \<and> in_i64 t \<and> t < i64_max"
    and "acquire_run (limiter_new budget window) cs = (gs, l)"
  shows "granted_from (rl_window_start_ms l) gs = rl_used l \<and> rl_used l \<le> budget \<and>
    (\<forall>w t until_ms. t < until_ms \<longrightarrow> fst (limiter_acquire (note_retry_after l until_ms) w t) \<noteq> Ready)"
proof -
  have "accounted (limiter_new budget window) [] i64_min"
    using assms(1,2) by (simp add: accounted_def sane_budget_def limiter_new_def limiter_ok_def granted_from_def)
  moreover have "sorted (i64_min # map snd cs)"
    using assms(3,4) by (auto simp: in_i64_def)
  ultimately obtain now where "accounted l gs now"
    using acquire_run_accounted [of "limiter_new budget window" "[]" i64_min cs gs l] assms(4,5) by auto
  moreover have "rl_budget (snd (acquire_run l0 cs')) = rl_budget l0" for l0 cs'
    by (induction cs' arbitrary: l0) (auto simp: Let_def split_beta acquire_frame)
  from this [of "limiter_new budget window" cs] assms(5) have "rl_budget l = budget"
    by (simp add: limiter_new_def)
  ultimately show ?thesis
    by (auto simp: accounted_def limiter_ok_def limiter_new_def limiter_acquire_def note_retry_after_def)
qed

theorem limiter_never_overspends_witness:
  "let (gs, l) = acquire_run (limiter_new 10 1000) [(6, 0), (5, 1), (4, 2)]
   in gs = [(6, 0), (4, 2)] \<and> granted_from (rl_window_start_ms l) gs = rl_used l \<and> rl_used l \<le> 10"
proof -
  let ?cs = "[(6::nat, 0::int), (5, 1), (4, 2)]"
  obtain gs l where run: "acquire_run (limiter_new 10 1000) ?cs = (gs, l)"
    by (cases "acquire_run (limiter_new 10 1000) ?cs")
  moreover have "fst (acquire_run (limiter_new 10 1000) ?cs) = [(6, 0), (4, 2)]"
    by (simp add: limiter_new_def limiter_acquire_def sat_i64_def u32_sat_add_def)
  moreover have "sorted (map snd ?cs)" "\<forall>(w, t) \<in> set ?cs. w < u32_modulus \<and> in_i64 t \<and> t < i64_max"
    by (auto simp: in_i64_def)
  ultimately show ?thesis
    using limiter_never_overspends [of 10 1000 ?cs gs l] by auto
qed

text \<open>
  The window tumbles, it does not roll: a window opened by a light call lets nearly the whole
  budget through in its last millisecond and the whole of the next budget one millisecond later,
  so two adjacent milliseconds carry almost twice the budget.
\<close>

theorem window_tumbles:
  assumes "1 \<le> budget" and "budget < u32_modulus - 1" and "1 < window" and "window < i64_max"
  shows "fst (acquire_run (limiter_new budget window) [(1, 0), (budget - 1, window - 1), (budget, window)])
      = [(1, 0), (budget - 1, window - 1), (budget, window)] \<and>
    granted_from (window - 1) (fst (acquire_run (limiter_new budget window)
        [(1, 0), (budget - 1, window - 1), (budget, window)])) = 2 * budget - 1"
proof -
  have "sat_i64 (i64_min + window) \<le> 0" "sat_i64 (0 + window) = window"
    using assms(3,4) by (simp_all add: sat_i64_def)
  then have "fst (acquire_run (limiter_new budget window) [(1, 0), (budget - 1, window - 1), (budget, window)])
      = [(1, 0), (budget - 1, window - 1), (budget, window)]"
    using assms by (simp add: limiter_new_def limiter_acquire_def u32_sat_add_def Let_def)
  then show ?thesis
    using assms(1,3) by (simp add: granted_from_def)
qed

theorem window_tumbles_witness:
  "granted_from 999 (fst (acquire_run (limiter_new 10 1000) [(1, 0), (9, 999), (10, 1000)])) = 19"
  using window_tumbles [of 10 1000, THEN conjunct2] by (simp del: acquire_run.simps)

end
