(* ===== verification/Rest_Client.thy ===== *)
theory Rest_Client
  imports Rate_Limiter Domain_Types Error_Taxonomy
    "HOL-Library.Char_ord" "HOL-Library.List_Lexorder" "HOL-Library.Product_Lexorder"
begin

text \<open>
  The venue's REST client (\<open>qe-venue\<close>, \<open>rest.rs\<close> and \<open>cache.rs\<close>): rate-limit gate, bounded retries
  with backoff, and a memo of closed-window responses. The transport and the clock are the seams
  of the source: a record of functions on a world \<open>'w\<close>. The gate may loop for ever on a clock
  that does not advance, so it is a partial function.
\<close>

section \<open>Requests, keys and errors\<close>

type_synonym response_bytes = "nat list"

record venue_request =
  vr_endpoint :: string
  vr_instrument :: instrument_id
  vr_params :: "(string \<times> string) list"
  vr_window :: time_interval
  vr_weight :: u32

definition is_closed_window :: "venue_request \<Rightarrow> i64 \<Rightarrow> bool" where
  "is_closed_window r now_ms \<longleftrightarrow> ti_end (vr_window r) \<le> now_ms"

fun join_with :: "string \<Rightarrow> string list \<Rightarrow> string" where
  "join_with sep [] = []"
| "join_with sep [s] = s"
| "join_with sep (s # ss) = s @ sep @ join_with sep ss"

definition cache_key :: "venue_request \<Rightarrow> string" where
  "cache_key r =
     (let params = sort (vr_params r);
          joined = join_with ''&'' (map (\<lambda>(k, v). k @ ''='' @ v) params)
      in vr_endpoint r @ ''|'' @ instrument_str (vr_instrument r) @ ''|'' @ joined @ ''|'' @
         show_int (ti_start (vr_window r)) @ ''-'' @ show_int (ti_end (vr_window r)))"

text \<open>Formatted messages as values: the transport's own text, and the client's with their numbers.\<close>

datatype rest_message = NoMessage | TransportMsg string | RateLimitedMsg u64 | TransientMsg string
  | OverweightMsg u32 u32

datatype rest_error =
    RateLimited u64 | TransientRest string | FatalRest rest_message | Exhausted u32 rest_message

fun rest_error_class :: "rest_error \<Rightarrow> error_class" where
  "rest_error_class (RateLimited _) = Transient"
| "rest_error_class (TransientRest _) = Transient"
| "rest_error_class (FatalRest _) = Fatal"
| "rest_error_class (Exhausted _ _) = Fatal"

definition rest_error_disposition :: "rest_error \<Rightarrow> disposition" where
  "rest_error_disposition e = class_disposition (rest_error_class e)"

interpretation rest_error: classified rest_error_class rest_error_disposition
  by unfold_locales (simp add: rest_error_disposition_def)

section \<open>The client\<close>

record 'w rest_env =
  env_now :: "'w \<Rightarrow> i64"
  env_sleep_until :: "'w \<Rightarrow> i64 \<Rightarrow> 'w"
  env_send :: "'w \<Rightarrow> venue_request \<Rightarrow> (rest_error, response_bytes) result \<times> 'w"

type_synonym rest_cache = "string \<Rightarrow> response_bytes option"

definition cache_get :: "rest_cache \<Rightarrow> string \<Rightarrow> response_bytes option" where
  "cache_get c k = c k"

definition cache_put :: "rest_cache \<Rightarrow> string \<Rightarrow> response_bytes \<Rightarrow> rest_cache" where
  "cache_put c k bytes = c(k \<mapsto> bytes)"

record rest_client =
  rc_limiter :: rate_limiter
  rc_cache :: rest_cache
  rc_max_attempts :: u32

definition default_max_attempts :: u32 where "default_max_attempts = 8"
definition default_transient_backoff_ms :: i64 where "default_transient_backoff_ms = 500"

definition client_new :: rest_client where
  "client_new = \<lparr>rc_limiter = limiter_with_defaults, rc_cache = Map.empty,
     rc_max_attempts = default_max_attempts\<rparr>"

definition with_limiter :: "rest_client \<Rightarrow> rate_limiter \<Rightarrow> rest_client" where
  "with_limiter c l = c\<lparr>rc_limiter := l\<rparr>"

definition with_max_attempts :: "rest_client \<Rightarrow> u32 \<Rightarrow> rest_client" where
  "with_max_attempts c n = c\<lparr>rc_max_attempts := n\<rparr>"

text \<open>The inner \<open>loop\<close>: acquire, or sleep until the instant the limiter names and try again.\<close>

partial_function (option) gate_loop ::
  "'w rest_env \<Rightarrow> u32 \<Rightarrow> rate_limiter \<Rightarrow> 'w \<Rightarrow> (rate_limiter \<times> 'w) option" where
  "gate_loop E weight l w =
     (case limiter_acquire l weight (env_now E w) of
        (Ready, l') \<Rightarrow> Some (l', w)
      | (WaitUntil deadline, l') \<Rightarrow> gate_loop E weight l' (env_sleep_until E w deadline))"

definition backoff_ms :: "u32 \<Rightarrow> i64" where
  "backoff_ms attempt = sat_i64 (default_transient_backoff_ms * 2 ^ min (attempt - 1) 16)"

text \<open>
  The \<open>while\<close> loop, on the attempts left. The first argument is \<open>max_attempts\<close>; the attempt in
  progress is that less the ones left.
\<close>

fun fetch_loop ::
  "'w rest_env \<Rightarrow> u32 \<Rightarrow> bool \<Rightarrow> venue_request \<Rightarrow> nat \<Rightarrow> rest_message \<Rightarrow> rest_client \<Rightarrow> 'w
     \<Rightarrow> ((rest_error, response_bytes) result \<times> rest_client \<times> 'w) option" where
  "fetch_loop E m cacheable r 0 lst c w = Some (Inl (Exhausted m lst), c, w)"
| "fetch_loop E m cacheable r (Suc left) lst c w =
     (case gate_loop E (vr_weight r) (rc_limiter c) w of
        None \<Rightarrow> None
      | Some (l, w1) \<Rightarrow>
          (let attempt = m - left; c1 = c\<lparr>rc_limiter := l\<rparr>; (res, w2) = env_send E w1 r
           in case res of
                Inr bytes \<Rightarrow>
                  Some (Inr bytes,
                    if cacheable then c1\<lparr>rc_cache := cache_put (rc_cache c1) (cache_key r) bytes\<rparr> else c1, w2)
              | Inl (RateLimited retry_after_ms) \<Rightarrow>
                  (let deadline = sat_i64 (env_now E w2 + wrap_i64 (int retry_after_ms));
                       c2 = c1\<lparr>rc_limiter := note_retry_after (rc_limiter c1) deadline\<rparr>
                   in fetch_loop E m cacheable r left (RateLimitedMsg retry_after_ms) c2
                        (env_sleep_until E w2 deadline))
              | Inl (TransientRest msg) \<Rightarrow>
                  fetch_loop E m cacheable r left (TransientMsg msg) c1
                    (env_sleep_until E w2 (sat_i64 (env_now E w2 + backoff_ms attempt)))
              | Inl e \<Rightarrow> Some (Inl e, c1, w2)))"

definition rest_fetch ::
  "'w rest_env \<Rightarrow> rest_client \<Rightarrow> venue_request \<Rightarrow> 'w
     \<Rightarrow> ((rest_error, response_bytes) result \<times> rest_client \<times> 'w) option" where
  "rest_fetch E c r w =
     (let cacheable = is_closed_window r (env_now E w)
      in case (if cacheable then cache_get (rc_cache c) (cache_key r) else None) of
           Some bytes \<Rightarrow> Some (Inr bytes, c, w)
         | None \<Rightarrow>
             if vr_weight r > rl_budget (rc_limiter c)
             then Some (Inl (FatalRest (OverweightMsg (vr_weight r) (rl_budget (rc_limiter c)))), c, w)
             else fetch_loop E (rc_max_attempts c) cacheable r (rc_max_attempts c) NoMessage c w)"

text \<open>\<open>next\<close> is the caller's; a pager that never stops makes the source loop, and this one too.\<close>

partial_function (option) rest_paginate ::
  "'w rest_env \<Rightarrow> (response_bytes \<Rightarrow> venue_request \<Rightarrow> venue_request option) \<Rightarrow> response_bytes list
     \<Rightarrow> rest_client \<Rightarrow> venue_request \<Rightarrow> 'w
     \<Rightarrow> ((rest_error, response_bytes list) result \<times> rest_client \<times> 'w) option" where
  "rest_paginate E nxt pages c r w =
     (case rest_fetch E c r w of
        None \<Rightarrow> None
      | Some (Inl e, c1, w1) \<Rightarrow> Some (Inl e, c1, w1)
      | Some (Inr resp, c1, w1) \<Rightarrow>
          (case nxt resp r of
             None \<Rightarrow> Some (Inr (pages @ [resp]), c1, w1)
           | Some r' \<Rightarrow> rest_paginate E nxt (pages @ [resp]) c1 r' w1))"

section \<open>The gate always opens\<close>

text \<open>
  The clock's contract: sleeping until an instant returns no earlier than it, and never moves the
  clock back.
\<close>

definition clock_ok :: "'w rest_env \<Rightarrow> bool" where
  "clock_ok E \<longleftrightarrow> (\<forall>w d. d \<le> env_now E (env_sleep_until E w d) \<and> env_now E w \<le> env_now E (env_sleep_until E w d))"

lemma acquire_after_roll:
  assumes "rl_next_allowed_ms l \<le> t" "sat_i64 (rl_window_start_ms l + rl_window_ms l) \<le> t" "weight \<le> rl_budget l"
  shows "fst (limiter_acquire l weight t) = Ready"
  using assms by (auto simp: limiter_acquire_def u32_sat_add_def Let_def)

lemma acquire_blocked:
  assumes "rl_next_allowed_ms l \<le> t" "weight \<le> rl_budget l" "limiter_acquire l weight t = (WaitUntil d, l')"
  shows "l' = l \<and> d = sat_i64 (rl_window_start_ms l + rl_window_ms l)"
  using assms by (auto simp: limiter_acquire_def u32_sat_add_def Let_def split: if_splits)

lemma gate_step_ready:
  "fst (limiter_acquire l weight (env_now E w)) = Ready \<Longrightarrow>
     gate_loop E weight l w = Some (snd (limiter_acquire l weight (env_now E w)), w)"
  by (subst gate_loop.simps) (auto split: prod.splits acquire_result.splits)

lemma gate_step_wait:
  "limiter_acquire l weight (env_now E w) = (WaitUntil d, l') \<Longrightarrow>
     gate_loop E weight l w = gate_loop E weight l' (env_sleep_until E w d)"
  by (subst gate_loop.simps) simp

text \<open>A count of the sends a world has seen; waiting does not send.\<close>

definition counts_sends :: "'w rest_env \<Rightarrow> ('w \<Rightarrow> nat) \<Rightarrow> bool" where
  "counts_sends E sends \<longleftrightarrow> (\<forall>w d. sends (env_sleep_until E w d) = sends w) \<and>
     (\<forall>w r. sends (snd (env_send E w r)) = Suc (sends w))"

lemma counts_sendsD:
  "counts_sends E sends \<Longrightarrow> sends (env_sleep_until E w d) = sends w"
  "counts_sends E sends \<Longrightarrow> env_send E w r = (res, w') \<Longrightarrow> sends w' = Suc (sends w)"
  unfolding counts_sends_def by (simp, metis snd_conv)

definition gate_ok :: "'w rest_env \<Rightarrow> ('w \<Rightarrow> nat) \<Rightarrow> u32 \<Rightarrow> rate_limiter \<Rightarrow> 'w \<Rightarrow> bool" where
  "gate_ok E sends weight l w \<longleftrightarrow> (\<exists>l' w'. gate_loop E weight l w = Some (l', w') \<and>
     rl_budget l' = rl_budget l \<and> sends w' = sends w)"

lemma gate_opens_past_retry:
  assumes "clock_ok E" "counts_sends E sends" "weight \<le> rl_budget l" "rl_next_allowed_ms l \<le> env_now E w"
  shows "gate_ok E sends weight l w"
proof (cases "limiter_acquire l weight (env_now E w)")
  case (Pair r l1)
  show ?thesis
  proof (cases r)
    case Ready
    then show ?thesis
      using gate_step_ready [of l weight E w] Pair acquire_frame(1) [of l weight "env_now E w"]
      by (simp add: gate_ok_def)
  next
    case (WaitUntil d)
    with acquire_blocked [OF assms(4,3)] Pair
    have blocked: "sat_i64 (rl_window_start_ms l1 + rl_window_ms l1) = d \<and>
        rl_next_allowed_ms l1 = rl_next_allowed_ms l \<and> rl_budget l1 = rl_budget l"
      by auto
    let ?w = "env_sleep_until E w d"
    have "d \<le> env_now E ?w" "env_now E w \<le> env_now E ?w"
      using assms(1) by (simp_all add: clock_ok_def)
    with assms(3,4) blocked have "fst (limiter_acquire l1 weight (env_now E ?w)) = Ready"
      by (intro acquire_after_roll) auto
    from gate_step_ready [OF this] show ?thesis
      using gate_step_wait [of l weight E w d l1] Pair WaitUntil blocked
        acquire_frame(1) [of l1 weight "env_now E ?w"] counts_sendsD(1) [OF assms(2), of w d]
      by (simp add: gate_ok_def)
  qed
qed

lemma gate_opens:
  assumes "clock_ok E" "counts_sends E sends" "weight \<le> rl_budget l"
  shows "gate_ok E sends weight l w"
proof (cases "rl_next_allowed_ms l \<le> env_now E w")
  case True
  then show ?thesis by (rule gate_opens_past_retry [OF assms])
next
  case False
  then have "limiter_acquire l weight (env_now E w) = (WaitUntil (rl_next_allowed_ms l), l)"
    by (simp add: limiter_acquire_def)
  note gate_step_wait [OF this]
  moreover have "rl_next_allowed_ms l \<le> env_now E (env_sleep_until E w (rl_next_allowed_ms l))"
    using assms(1) by (simp add: clock_ok_def)
  note gate_opens_past_retry [OF assms this]
  ultimately show ?thesis using counts_sendsD(1) [OF assms(2)] by (simp add: gate_ok_def)
qed

section \<open>A fetch is bounded\<close>

definition fetch_ok where
  "fetch_ok sends w n (out :: ((rest_error, response_bytes) result \<times> rest_client \<times> 'w) option) \<longleftrightarrow>
     (\<exists>res c' w'. out = Some (res, c', w') \<and> sends w' \<le> sends w + n \<and>
        (\<forall>e. res = Inl e \<longrightarrow> rest_error_class e = Fatal))"

lemma fetch_ok_later: "fetch_ok sends w1 n out \<Longrightarrow> sends w1 = Suc (sends w) \<Longrightarrow> fetch_ok sends w (Suc n) out"
  by (auto simp: fetch_ok_def)

lemma fetch_loop_ok:
  assumes "clock_ok E" "counts_sends E sends" "vr_weight r \<le> rl_budget (rc_limiter c)"
  shows "fetch_ok sends w left (fetch_loop E m cacheable r left lst c w)"
  using assms(3)
proof (induction left arbitrary: lst c w)
  case 0
  then show ?case by (simp add: fetch_ok_def)
next
  case (Suc left)
  from gate_opens [OF assms(1,2) Suc.prems, of w] obtain l w1
    where gate: "gate_loop E (vr_weight r) (rc_limiter c) w = Some (l, w1)"
      and l: "rl_budget l = rl_budget (rc_limiter c)" and w1: "sends w1 = sends w"
    unfolding gate_ok_def by blast
  obtain res w2 where send: "env_send E w1 r = (res, w2)" by (cases "env_send E w1 r")
  have w2: "sends w2 = Suc (sends w)" using counts_sendsD(2) [OF assms(2) send] w1 by simp
  have sleeps: "sends (env_sleep_until E w2 d) = Suc (sends w)" for d
    using counts_sendsD(1) [OF assms(2)] w2 by simp
  have again: "fetch_ok sends w (Suc left) (fetch_loop E m cacheable r left lst' c' (env_sleep_until E w2 d))"
    if "rl_budget (rc_limiter c') = rl_budget (rc_limiter c)" for lst' c' d
    by (rule fetch_ok_later [OF Suc.IH sleeps]) (use that Suc.prems in simp)
  show ?case
  proof (cases res)
    case (Inr bytes)
    then show ?thesis using w2 by (simp add: gate send fetch_ok_def Let_def)
  next
    case (Inl e)
    then show ?thesis using l w2
      by (cases e) (auto simp: gate send Let_def note_retry_after_def fetch_ok_def [of sends w _ "Some _"] intro!: again)
  qed
qed

text \<open>
  C17. On a clock that reaches the instants it sleeps to and never runs back, a fetch always returns. It makes at most
  \<open>max_attempts\<close> calls to the transport, whatever the venue answers, and the error it may return is
  Fatal by its class: a rate limit or a transient failure is retried or counted into
  \<open>Exhausted\<close>, never handed to the caller.
\<close>

theorem fetch_is_bounded:
  assumes "clock_ok E" "counts_sends E sends"
  shows "\<exists>res c' w'. rest_fetch E c r w = Some (res, c', w') \<and> sends w' \<le> sends w + rc_max_attempts c \<and>
           (\<forall>e. res = Inl e \<longrightarrow> rest_error_class e = Fatal)"
proof -
  have "fetch_ok sends w (rc_max_attempts c) (rest_fetch E c r w)"
    using fetch_loop_ok [OF assms, of r c w "rc_max_attempts c"]
    by (auto simp: rest_fetch_def Let_def fetch_ok_def [of sends w _ "Some _"] split: option.splits)
  then show ?thesis by (simp add: fetch_ok_def)
qed

text \<open>A manual clock over a transport that is always busy, counting its sends.\<close>

definition busy_env :: "(int \<times> nat) rest_env" where
  "busy_env = \<lparr>env_now = fst, env_sleep_until = (\<lambda>(t, n) d. (max t d, n)),
     env_send = (\<lambda>(t, n) r. (Inl (RateLimited 250), (t, Suc n)))\<rparr>"

definition probe_request :: venue_request where
  "probe_request = \<lparr>vr_endpoint = ''/fapi/v1/klines'', vr_instrument = InstrumentId ''BTCUSDT'',
     vr_params = [(''limit'', ''5''), (''interval'', ''5m'')],
     vr_window = \<lparr>ti_start = 1000, ti_end = 2000\<rparr>, vr_weight = 700\<rparr>"

lemma busy_env_ok [simp]: "clock_ok busy_env" "counts_sends busy_env snd"
  by (auto simp: clock_ok_def counts_sends_def busy_env_def split: prod.splits)

theorem fetch_is_bounded_witness:
  "\<exists>res c' w'. rest_fetch busy_env (with_max_attempts client_new 3) probe_request (5000, 0) = Some (res, c', w') \<and>
     snd w' \<le> snd (5000 :: int, 0 :: nat) + rc_max_attempts (with_max_attempts client_new 3) \<and>
     (\<forall>e. res = Inl e \<longrightarrow> rest_error_class e = Fatal)"
  by (rule fetch_is_bounded) simp_all

section \<open>The memo\<close>

lemma fetch_loop_cached:
  assumes "fetch_loop E m True r left lst c w = Some (Inr bytes, c', w')"
  shows "rc_cache c' (cache_key r) = Some bytes"
  using assms
proof (induction left arbitrary: lst c w)
  case 0
  then show ?case by simp
next
  case (Suc left)
  then show ?case
    by (auto simp: Let_def cache_put_def split: option.splits prod.splits sum.splits rest_error.splits)
qed

lemma fetch_loop_open:
  assumes "fetch_loop E m False r left lst c w = Some (res, c', w')"
  shows "rc_cache c' = rc_cache c"
  using assms
proof (induction left arbitrary: lst c w)
  case 0
  then show ?case by simp
next
  case (Suc left)
  from Suc.prems show ?case
    by (auto simp: Let_def split: option.splits prod.splits sum.splits rest_error.splits dest!: Suc.IH)
qed

text \<open>
  A window that has closed is fetched once. After a successful fetch of a closed window every
  later fetch of the same request answers the same bytes from the memo: the limiter is not
  charged, no call is made, the world is as it was. A window still open at the call never enters
  the memo, whatever the venue answered.
\<close>

theorem closed_window_is_memoised:
  assumes "rest_fetch E c r w = Some (Inr bytes, c', w')" "env_now E w \<le> env_now E later"
  shows "if is_closed_window r (env_now E w)
         then rest_fetch E c' r later = Some (Inr bytes, c', later)
         else rc_cache c' = rc_cache c"
proof (cases "is_closed_window r (env_now E w)")
  case True
  with assms(2) have closed: "is_closed_window r (env_now E later)"
    by (simp add: is_closed_window_def)
  have "rc_cache c' (cache_key r) = Some bytes"
    using assms(1) True
    by (auto simp: rest_fetch_def cache_get_def split: option.splits if_splits dest: fetch_loop_cached)
  with closed True show ?thesis by (simp add: rest_fetch_def cache_get_def)
next
  case False
  with assms(1) show ?thesis
    by (auto simp: rest_fetch_def dest: fetch_loop_open split: if_splits)
qed

definition quiet_env :: "(int \<times> nat) rest_env" where
  "quiet_env = busy_env\<lparr>env_send := (\<lambda>(t, n) r. (Inr [n], (t, Suc n)))\<rparr>"

lemma probe_fields [simp]: "vr_weight probe_request = 700" "ti_end (vr_window probe_request) = 2000"
  by (simp_all add: probe_request_def)

lemma quiet_fetch:
  "\<exists>c'. rest_fetch quiet_env (with_max_attempts client_new 1) probe_request (5000, 7) = Some (Inr [7], c', (5000, 8))"
proof -
  have gate: "gate_loop quiet_env 700 limiter_with_defaults (5000, 7) =
      Some (limiter_with_defaults\<lparr>rl_window_start_ms := 5000, rl_used := 700\<rparr>, (5000, 7))"
    by (subst gate_loop.simps)
      (simp add: limiter_acquire_def limiter_with_defaults_def limiter_new_def u32_sat_add_def
        sat_i64_def quiet_env_def busy_env_def default_weight_budget_def default_window_ms_def)
  have budget: "rl_budget limiter_with_defaults = 1200"
    by (simp add: limiter_with_defaults_def limiter_new_def default_weight_budget_def)
  have env: "env_now quiet_env (5000, 7) = 5000" "env_send quiet_env (5000, 7) r = (Inr [7], (5000, 8))" for r
    by (simp_all add: quiet_env_def busy_env_def)
  show ?thesis
    by (simp add: rest_fetch_def with_max_attempts_def client_new_def is_closed_window_def cache_get_def
        gate budget env Let_def)
qed

theorem closed_window_is_memoised_witness:
  "\<exists>c'. rest_fetch quiet_env (with_max_attempts client_new 1) probe_request (5000, 7) = Some (Inr [7], c', (5000, 8)) \<and>
     rest_fetch quiet_env c' probe_request (9000, 8) = Some (Inr [7], c', (9000, 8))"
proof -
  have now: "env_now quiet_env (5000, 7) \<le> env_now quiet_env (9000, 8)"
    and closed: "is_closed_window probe_request (env_now quiet_env (5000, 7))"
    by (simp_all add: quiet_env_def busy_env_def is_closed_window_def)
  obtain c' where c': "rest_fetch quiet_env (with_max_attempts client_new 1) probe_request (5000, 7) =
      Some (Inr [7], c', (5000, 8))"
    using quiet_fetch by blast
  from closed_window_is_memoised [OF c' now] closed c' show ?thesis by auto
qed

section \<open>Distinct requests have distinct keys\<close>

definition plain :: "string \<Rightarrow> bool" where
  "plain s \<longleftrightarrow> (\<forall>c \<in> set s. c \<notin> set ''|&='')"

definition plain_params :: "(string \<times> string) list \<Rightarrow> bool" where
  "plain_params ps \<longleftrightarrow> (\<forall>p \<in> set ps. plain (fst p) \<and> plain (snd p))"

definition plain_request :: "venue_request \<Rightarrow> bool" where
  "plain_request r \<longleftrightarrow> plain (vr_endpoint r) \<and> valid_instrument (vr_instrument r) \<and>
     plain_params (vr_params r)"

lemma plain_free: "plain s \<Longrightarrow> CHR ''|'' \<notin> set s" "plain s \<Longrightarrow> CHR ''&'' \<notin> set s" "plain s \<Longrightarrow> CHR ''='' \<notin> set s"
  by (auto simp: plain_def)

lemma valid_instrument_no_bar: "valid_instrument i \<Longrightarrow> CHR ''|'' \<notin> set (instrument_str i)"
  by (auto simp: valid_instrument_def is_ascii_alphanumeric_def)

lemma show_int_no_bar: "CHR ''|'' \<notin> set (show_int x)"
  by (auto simp: show_int_def is_ascii_digit_def dest: show_nat_digits)

lemma digits_no_dash: "CHR ''-'' \<notin> set (show_nat n)"
  by (auto simp: is_ascii_digit_def dest: show_nat_digits)

lemma show_int_dash_split:
  "show_int a @ CHR ''-'' # ys = show_int b @ CHR ''-'' # zs \<longleftrightarrow> a = b \<and> ys = zs"
proof -
  have head: "show_nat n @ s \<noteq> CHR ''-'' # t" for n s t
    using digits_no_dash [of n] show_nat_nonempty [of n] by (cases "show_nat n") auto
  have "nat (- a) = nat (- b) \<longleftrightarrow> a = b" if "a < 0" "b < 0" using that by auto
  then show ?thesis
    using split_at_delim [OF digits_no_dash digits_no_dash] head head [symmetric]
    by (auto simp: show_int_def)
qed

lemma show_int_inject [simp]: "show_int a = show_int b \<longleftrightarrow> a = b"
  using show_int_dash_split [of a "[]" b "[]"] by simp

abbreviation kv_string :: "string \<times> string \<Rightarrow> string" where
  "kv_string \<equiv> \<lambda>(k, v). k @ ''='' @ v"

lemma kv_string_inject:
  "plain k \<Longrightarrow> plain k' \<Longrightarrow> kv_string (k, v) = kv_string (k', v') \<longleftrightarrow> (k, v) = (k', v')"
  using split_at_delim [OF plain_free(3) plain_free(3)] by simp

lemma join_with_Cons: "ss \<noteq> [] \<Longrightarrow> join_with sep (s # ss) = s @ sep @ join_with sep ss"
  by (cases ss) simp_all

lemma join_with_inject:
  assumes "\<forall>s \<in> set xs. c \<notin> set s \<and> s \<noteq> []" "\<forall>s \<in> set ys. c \<notin> set s \<and> s \<noteq> []"
    and "join_with [c] xs = join_with [c] ys"
  shows "xs = ys"
  using assms
proof (induction xs arbitrary: ys)
  case Nil
  then show ?case by (cases ys; cases "tl ys") auto
next
  case (Cons x xs)
  then obtain y ys' where ys: "ys = y # ys'" by (cases ys; cases xs) auto
  show ?case
  proof (cases "xs = [] \<or> ys' = []")
    case True
    with Cons.prems ys show ?thesis
      by (cases xs; cases ys'; force simp: join_with_Cons)
  next
    case False
    with Cons.prems(3) ys have "x @ c # join_with [c] xs = y @ c # join_with [c] ys'"
      by (simp add: join_with_Cons)
    moreover have "c \<notin> set x" "c \<notin> set y" using Cons.prems(1,2) ys by auto
    ultimately have "x = y" "join_with [c] xs = join_with [c] ys'"
      by (simp_all add: split_at_delim)
    with Cons.IH [of ys'] Cons.prems(1,2) ys show ?thesis by auto
  qed
qed

lemma kv_string_parts: "plain_params ps \<Longrightarrow> \<forall>s \<in> set (map kv_string ps). CHR ''&'' \<notin> set s \<and> s \<noteq> []"
  by (auto simp: plain_params_def dest!: plain_free(2) bspec)

lemma map_kv_string_inject:
  "plain_params ps \<Longrightarrow> plain_params qs \<Longrightarrow> map kv_string ps = map kv_string qs \<Longrightarrow> ps = qs"
proof (induction ps arbitrary: qs)
  case Nil
  then show ?case by simp
next
  case (Cons p ps)
  then obtain q qs' where qs: "qs = q # qs'" by (cases qs) auto
  have "plain (fst p)" "plain (fst q)" "plain_params ps" "plain_params qs'"
    using Cons.prems(1,2) qs by (simp_all add: plain_params_def)
  moreover have "kv_string p = kv_string q" "map kv_string ps = map kv_string qs'"
    using Cons.prems(3) qs by simp_all
  ultimately show ?case
    using Cons.IH [of qs'] kv_string_inject [of "fst p" "fst q" "snd p" "snd q"] qs
    by (simp add: prod_eq_iff)
qed

lemma join_params_inject:
  assumes "plain_params ps" "plain_params qs"
    and "join_with ''&'' (map kv_string ps) = join_with ''&'' (map kv_string qs)"
  shows "ps = qs"
  by (rule map_kv_string_inject [OF assms(1,2)])
    (rule join_with_inject [OF kv_string_parts [OF assms(1)] kv_string_parts [OF assms(2)] assms(3)])

lemma join_with_set: "set (join_with sep ss) \<subseteq> set sep \<union> (\<Union>s \<in> set ss. set s)"
  by (induction sep ss rule: join_with.induct) auto

lemma join_no_bar: "plain_params ps \<Longrightarrow> CHR ''|'' \<notin> set (join_with ''&'' (map kv_string ps))"
  using join_with_set [of "''&''" "map kv_string ps"] by (fastforce simp: plain_params_def dest: plain_free(1))

text \<open>
  The memo never confuses two requests. When endpoints and parameters are free of the three
  delimiters, two requests have the same key exactly when they agree on the endpoint, the
  instrument, the parameters up to order and both bounds of the window: the sort makes the order
  irrelevant, the weight is not part of it, and a window with negative bounds is still told apart.
\<close>

theorem cache_key_injective:
  assumes "plain_request r" "plain_request r'"
  shows "cache_key r = cache_key r' \<longleftrightarrow>
     vr_endpoint r = vr_endpoint r' \<and> vr_instrument r = vr_instrument r' \<and>
     sort (vr_params r) = sort (vr_params r') \<and>
     ti_start (vr_window r) = ti_start (vr_window r') \<and> ti_end (vr_window r) = ti_end (vr_window r')"
proof -
  let ?J = "\<lambda>r. join_with ''&'' (map kv_string (sort (vr_params r)))"
  have params: "plain_params (sort (vr_params x))" if "plain_request x" for x
    using that by (simp add: plain_request_def plain_params_def)
  have no_bar: "CHR ''|'' \<notin> set (?J x)" if "plain_request x" for x
    by (rule join_no_bar [OF params [OF that]])
  have key: "cache_key x = vr_endpoint x @ CHR ''|'' # instrument_str (vr_instrument x) @ CHR ''|'' # ?J x @
      CHR ''|'' # show_int (ti_start (vr_window x)) @ CHR ''-'' # show_int (ti_end (vr_window x))" for x
    by (simp add: cache_key_def)
  have ends: "CHR ''|'' \<notin> set (vr_endpoint x)" "CHR ''|'' \<notin> set (instrument_str (vr_instrument x))"
    if "plain_request x" for x
    using that by (auto simp: plain_request_def dest: plain_free valid_instrument_no_bar)
  have "?J r = ?J r' \<longleftrightarrow> sort (vr_params r) = sort (vr_params r')"
  proof
    show "sort (vr_params r) = sort (vr_params r')" if "?J r = ?J r'"
      by (rule join_params_inject [OF params [OF assms(1)] params [OF assms(2)] that])
  qed simp
  moreover have "instrument_str (vr_instrument r) = instrument_str (vr_instrument r') \<longleftrightarrow> vr_instrument r = vr_instrument r'"
    by (cases "vr_instrument r"; cases "vr_instrument r'") simp
  moreover have "cache_key r = cache_key r' \<longleftrightarrow>
      vr_endpoint r = vr_endpoint r' \<and> instrument_str (vr_instrument r) = instrument_str (vr_instrument r') \<and>
      ?J r = ?J r' \<and>
      ti_start (vr_window r) = ti_start (vr_window r') \<and> ti_end (vr_window r) = ti_end (vr_window r')"
    unfolding key split_at_delim [OF ends(1) [OF assms(1)] ends(1) [OF assms(2)]]
      split_at_delim [OF ends(2) [OF assms(1)] ends(2) [OF assms(2)]]
      split_at_delim [OF no_bar [OF assms(1)] no_bar [OF assms(2)]] show_int_dash_split show_int_inject
    by (rule refl)
  ultimately show ?thesis by (simp only:)
qed

theorem cache_key_injective_witness:
  "cache_key probe_request \<noteq> cache_key (probe_request\<lparr>vr_window := \<lparr>ti_start = -1000, ti_end = 2000\<rparr>\<rparr>)"
proof -
  have "plain_request probe_request" "plain_request (probe_request\<lparr>vr_window := \<lparr>ti_start = -1000, ti_end = 2000\<rparr>\<rparr>)"
    by (simp_all add: plain_request_def plain_params_def probe_request_def plain_def valid_instrument_def
        is_ascii_alphanumeric_def to_ascii_uppercase_def)
  from cache_key_injective [OF this] show ?thesis by (simp add: probe_request_def)
qed

end
