(* ===== verification/Stream_Registry.thy ===== *)
theory Stream_Registry imports Domain_Types Error_Taxonomy begin

text \<open>
  The websocket registry of \<open>qe-venue\<close> (\<open>stream.rs\<close>, \<open>ws.rs\<close>, \<open>registry.rs\<close>): one slot per tier
  with its connection, the subscriptions it recorded and the last event time of each stream. The
  connector and the connections are the seams of the source: a record of functions over a type of
  connections and a world.
\<close>

section \<open>Streams\<close>

definition mark_price_cadence_ms :: i64 where "mark_price_cadence_ms = 1000"
definition depth20_cadence_ms :: i64 where "depth20_cadence_ms = 100"

datatype stream_tier = Market | Realtime

definition all_tiers :: "stream_tier list" where "all_tiers = [Market, Realtime]"

datatype stream_channel = Kline resolution | MarkPrice | BookTicker | Depth20 | AggTrade

fun cadence_ms :: "stream_channel \<Rightarrow> i64 option" where
  "cadence_ms (Kline res) = Some (wrap_i64 (int (resolution_minutes res) * 60000))"
| "cadence_ms MarkPrice = Some mark_price_cadence_ms"
| "cadence_ms Depth20 = Some depth20_cadence_ms"
| "cadence_ms BookTicker = None"
| "cadence_ms AggTrade = None"

fun channel_suffix :: "stream_channel \<Rightarrow> string" where
  "channel_suffix (Kline res) = ''kline_'' @ resolution_str res"
| "channel_suffix MarkPrice = ''markPrice@1s''"
| "channel_suffix BookTicker = ''bookTicker''"
| "channel_suffix Depth20 = ''depth20@100ms''"
| "channel_suffix AggTrade = ''aggTrade''"

record subscription =
  sub_instrument :: instrument_id
  sub_channel :: stream_channel

definition subscription_new :: "instrument_id \<Rightarrow> stream_channel \<Rightarrow> subscription" where
  "subscription_new i ch = \<lparr>sub_instrument = i, sub_channel = ch\<rparr>"

definition sub_tier :: "subscription \<Rightarrow> stream_tier" where
  "sub_tier s = (case sub_channel s of Kline _ \<Rightarrow> Market | MarkPrice \<Rightarrow> Market
     | BookTicker \<Rightarrow> Realtime | Depth20 \<Rightarrow> Realtime | AggTrade \<Rightarrow> Realtime)"

text \<open>\<open>to_lowercase\<close> on the ASCII symbols an instrument id may hold.\<close>

definition to_ascii_lowercase :: "char \<Rightarrow> char" where
  "to_ascii_lowercase c =
     (let n = of_char c :: nat in if 65 \<le> n \<and> n \<le> 90 then char_of (n + 32) else c)"

definition stream_name :: "subscription \<Rightarrow> string" where
  "stream_name s = map to_ascii_lowercase (instrument_str (sub_instrument s)) @ ''@'' @ channel_suffix (sub_channel s)"

record stream_message =
  sm_subscription :: subscription
  sm_event_time_ms :: i64
  sm_payload :: string

record gap =
  gap_stream :: string
  gap_from_ms :: i64
  gap_to_ms :: i64

definition missed_ms :: "gap \<Rightarrow> i64" where
  "missed_ms g = wrap_i64 (gap_to_ms g - gap_from_ms g)"

section \<open>The transport seam\<close>

datatype ws_error = WsConnect string | WsSubscribe string | WsClosed

fun ws_error_class :: "ws_error \<Rightarrow> error_class" where
  "ws_error_class (WsConnect _) = Transient"
| "ws_error_class (WsSubscribe _) = Transient"
| "ws_error_class WsClosed = Transient"

definition ws_error_disposition :: "ws_error \<Rightarrow> disposition" where
  "ws_error_disposition e = class_disposition (ws_error_class e)"

interpretation ws_error: classified ws_error_class ws_error_disposition
  by unfold_locales (simp add: ws_error_disposition_def)

datatype ws_poll = WsMessage stream_message | WsDisconnected | WsIdle

record ('c, 'w) ws_seam =
  ws_connect :: "stream_tier \<Rightarrow> 'w \<Rightarrow> (ws_error, 'c) result \<times> 'w"
  ws_subscribe :: "'c \<Rightarrow> subscription list \<Rightarrow> 'w \<Rightarrow> (ws_error, unit) result \<times> 'c \<times> 'w"
  ws_poll_next :: "'c \<Rightarrow> 'w \<Rightarrow> ws_poll \<times> 'c \<times> 'w"

section \<open>The registry\<close>

record pump_outcome =
  po_message :: "stream_message option"
  po_gap :: "gap option"
  po_reconnected :: bool

definition pump_nothing :: pump_outcome where
  "pump_nothing = \<lparr>po_message = None, po_gap = None, po_reconnected = False\<rparr>"

record 'c tier_conn =
  tc_conn :: 'c
  tc_subs :: "subscription list"
  tc_last_event_ms :: "string \<Rightarrow> i64 option"

type_synonym 'c registry = "stream_tier \<Rightarrow> 'c tier_conn option"

definition registry_new :: "'c registry" where "registry_new = Map.empty"

definition record_sub :: "subscription list \<Rightarrow> subscription \<Rightarrow> subscription list" where
  "record_sub recorded s = (if s \<in> set recorded then recorded else recorded @ [s])"

definition subscribe_open ::
  "('c, 'w) ws_seam \<Rightarrow> 'c registry \<Rightarrow> stream_tier \<Rightarrow> 'c tier_conn \<Rightarrow> subscription list \<Rightarrow> 'w
     \<Rightarrow> (ws_error, unit) result \<times> 'c registry \<times> 'w" where
  "subscribe_open S g t e subs w =
     (let (r, conn, w1) = ws_subscribe S (tc_conn e) subs w
      in case r of
           Inl err \<Rightarrow> (Inl err, g(t \<mapsto> e\<lparr>tc_conn := conn\<rparr>), w1)
         | Inr _ \<Rightarrow> (Inr (), g(t \<mapsto> e\<lparr>tc_conn := conn, tc_subs := foldl record_sub (tc_subs e) subs\<rparr>), w1))"

definition registry_subscribe ::
  "('c, 'w) ws_seam \<Rightarrow> 'c registry \<Rightarrow> stream_tier \<Rightarrow> subscription list \<Rightarrow> 'w
     \<Rightarrow> (ws_error, unit) result \<times> 'c registry \<times> 'w" where
  "registry_subscribe S g t subs w =
     (case g t of
        Some e \<Rightarrow> subscribe_open S g t e subs w
      | None \<Rightarrow>
          (case ws_connect S t w of
             (Inl err, w1) \<Rightarrow> (Inl err, g, w1)
           | (Inr conn, w1) \<Rightarrow>
               subscribe_open S g t \<lparr>tc_conn = conn, tc_subs = [], tc_last_event_ms = Map.empty\<rparr> subs w1))"

definition gap_after :: "(string \<Rightarrow> i64 option) \<Rightarrow> stream_message \<Rightarrow> gap option" where
  "gap_after seen msg =
     (let stream = stream_name (sm_subscription msg)
      in case cadence_ms (sub_channel (sm_subscription msg)) of
           None \<Rightarrow> None
         | Some cadence \<Rightarrow>
             (case seen stream of
                None \<Rightarrow> None
              | Some lst \<Rightarrow>
                  if wrap_i64 (sm_event_time_ms msg - lst) > cadence
                  then Some \<lparr>gap_stream = stream, gap_from_ms = lst, gap_to_ms = sm_event_time_ms msg\<rparr>
                  else None))"

definition pump ::
  "('c, 'w) ws_seam \<Rightarrow> 'c registry \<Rightarrow> stream_tier \<Rightarrow> 'w
     \<Rightarrow> (ws_error, pump_outcome) result \<times> 'c registry \<times> 'w" where
  "pump S g t w =
     (case g t of
        None \<Rightarrow> (Inr pump_nothing, g, w)
      | Some e0 \<Rightarrow>
          (let (poll, conn, w1) = ws_poll_next S (tc_conn e0) w; e = e0\<lparr>tc_conn := conn\<rparr>
           in case poll of
                WsIdle \<Rightarrow> (Inr pump_nothing, g(t \<mapsto> e), w1)
              | WsMessage msg \<Rightarrow>
                  (Inr \<lparr>po_message = Some msg, po_gap = gap_after (tc_last_event_ms e) msg, po_reconnected = False\<rparr>,
                   g(t \<mapsto> e\<lparr>tc_last_event_ms :=
                       (tc_last_event_ms e)(stream_name (sm_subscription msg) \<mapsto> sm_event_time_ms msg)\<rparr>), w1)
              | WsDisconnected \<Rightarrow>
                  (case ws_connect S t w1 of
                     (Inl err, w2) \<Rightarrow> (Inl err, g(t \<mapsto> e), w2)
                   | (Inr new_conn, w2) \<Rightarrow>
                       (let (r, conn', w3) = ws_subscribe S new_conn (tc_subs e) w2;
                            g' = g(t \<mapsto> e\<lparr>tc_conn := conn'\<rparr>)
                        in case r of
                             Inl err \<Rightarrow> (Inl err, g', w3)
                           | Inr _ \<Rightarrow> (Inr (pump_nothing\<lparr>po_reconnected := True\<rparr>), g', w3)))))"

definition active_tiers :: "'c registry \<Rightarrow> stream_tier list" where
  "active_tiers g = [t \<leftarrow> all_tiers. g t \<noteq> None]"

definition subscriptions :: "'c registry \<Rightarrow> stream_tier \<Rightarrow> subscription list" where
  "subscriptions g t = (case g t of None \<Rightarrow> [] | Some e \<Rightarrow> tc_subs e)"

section \<open>Runs\<close>

text \<open>A session of calls on one registry, with what each answered.\<close>

datatype reg_op = Subscribe stream_tier "subscription list" | Pump stream_tier

datatype reg_answer =
    Subscribed stream_tier "subscription list" "(ws_error, unit) result"
  | Pumped stream_tier "(ws_error, pump_outcome) result"

fun reg_step :: "('c, 'w) ws_seam \<Rightarrow> 'c registry \<Rightarrow> reg_op \<Rightarrow> 'w \<Rightarrow> reg_answer \<times> 'c registry \<times> 'w" where
  "reg_step S g (Subscribe t subs) w =
     (let (r, g', w') = registry_subscribe S g t subs w in (Subscribed t subs r, g', w'))"
| "reg_step S g (Pump t) w = (let (r, g', w') = pump S g t w in (Pumped t r, g', w'))"

fun reg_run :: "('c, 'w) ws_seam \<Rightarrow> 'c registry \<Rightarrow> reg_op list \<Rightarrow> 'w \<Rightarrow> reg_answer list \<times> 'c registry \<times> 'w" where
  "reg_run S g [] w = ([], g, w)"
| "reg_run S g (op # ops) w =
     (let (a, g1, w1) = reg_step S g op w; (as, g2, w2) = reg_run S g1 ops w1 in (a # as, g2, w2))"

text \<open>What the answers alone say: the last event time seen on each tier's streams, and the subscriptions.\<close>

type_synonym seen_times = "stream_tier \<Rightarrow> string \<Rightarrow> i64 option"

fun note_answer :: "seen_times \<Rightarrow> reg_answer \<Rightarrow> seen_times" where
  "note_answer seen (Pumped t (Inr \<lparr>po_message = Some m, po_gap = _, po_reconnected = _\<rparr>)) =
     seen(t := (seen t)(stream_name (sm_subscription m) \<mapsto> sm_event_time_ms m))"
| "note_answer seen _ = seen"

text \<open>
  What a message must carry, stated over the integers and from the exchange's intervals: the interval a
  channel promises, and a gap from the time last seen to this one when they are further apart than that.
\<close>

fun promised_ms :: "stream_channel \<Rightarrow> int option" where
  "promised_ms (Kline res) = Some (int (resolution_minutes res) * 60 * 1000)"
| "promised_ms MarkPrice = Some 1000"
| "promised_ms Depth20 = Some 100"
| "promised_ms BookTicker = None"
| "promised_ms AggTrade = None"

definition hole_reported :: "(string \<Rightarrow> i64 option) \<Rightarrow> stream_message \<Rightarrow> gap option \<Rightarrow> bool" where
  "hole_reported seen m g \<longleftrightarrow>
     (case (promised_ms (sub_channel (sm_subscription m)), seen (stream_name (sm_subscription m))) of
        (Some every, Some before) \<Rightarrow>
          if sm_event_time_ms m > before + every
          then g = Some \<lparr>gap_stream = stream_name (sm_subscription m), gap_from_ms = before, gap_to_ms = sm_event_time_ms m\<rparr>
          else g = None
      | _ \<Rightarrow> g = None)"

text \<open>Event times are milliseconds since the epoch.\<close>

definition epoch_ms :: "i64 \<Rightarrow> bool" where
  "epoch_ms t \<longleftrightarrow> 0 \<le> t \<and> t \<le> i64_max"

fun answer_timed :: "reg_answer \<Rightarrow> bool" where
  "answer_timed (Pumped t (Inr \<lparr>po_message = Some m, po_gap = _, po_reconnected = _\<rparr>)) = epoch_ms (sm_event_time_ms m)"
| "answer_timed _ = True"

definition seen_timed :: "seen_times \<Rightarrow> bool" where
  "seen_timed seen \<longleftrightarrow> (\<forall>t name before. seen t name = Some before \<longrightarrow> epoch_ms before)"

lemma cadence_is_promised: "cadence_ms c = promised_ms c"
proof (cases c)
  case (Kline r)
  have "wrap_i64 (int (resolution_minutes r) * 60000) = int (resolution_minutes r) * 60000"
    using resolution_minutes_le [of r] by (intro wrap_i64_id) (simp add: in_i64_def)
  then show ?thesis by (simp add: Kline)
qed (simp_all add: mark_price_cadence_ms_def depth20_cadence_ms_def)

lemma gap_after_reports:
  assumes "epoch_ms (sm_event_time_ms m)" "seen_timed seen"
  shows "hole_reported (seen t) m (gap_after (seen t) m)"
proof (cases "seen t (stream_name (sm_subscription m))")
  case (Some before)
  then have "wrap_i64 (sm_event_time_ms m - before) = sm_event_time_ms m - before"
    using assms by (intro wrap_i64_id) (force simp: in_i64_def epoch_ms_def seen_timed_def)
  then show ?thesis using Some
    by (auto simp: hole_reported_def gap_after_def cadence_is_promised Let_def algebra_simps split: option.splits)
qed (simp add: hole_reported_def gap_after_def Let_def split: option.splits)

fun answer_ok :: "seen_times \<Rightarrow> reg_answer \<Rightarrow> bool" where
  "answer_ok seen (Pumped t (Inr \<lparr>po_message = Some m, po_gap = g, po_reconnected = _\<rparr>)) = hole_reported (seen t) m g"
| "answer_ok seen (Pumped t (Inr \<lparr>po_message = None, po_gap = g, po_reconnected = _\<rparr>)) = (g = None)"
| "answer_ok seen _ = True"

fun gaps_ok :: "seen_times \<Rightarrow> reg_answer list \<Rightarrow> bool" where
  "gaps_ok seen [] = True"
| "gaps_ok seen (a # as) \<longleftrightarrow> answer_ok seen a \<and> gaps_ok (note_answer seen a) as"

definition times_of :: "'c registry \<Rightarrow> seen_times" where
  "times_of g t = (case g t of None \<Rightarrow> Map.empty | Some e \<Rightarrow> tc_last_event_ms e)"

lemma fun_upd_same: "f t = m \<Longrightarrow> f(t := m) = f"
  by auto

lemma times_of_upd [simp]: "times_of (g(t \<mapsto> e)) = (times_of g)(t := tc_last_event_ms e)"
  by (auto simp: times_of_def)

lemma subscribe_open_times:
  "subscribe_open S g t e subs w = (r, g', w') \<Longrightarrow> times_of g' = (times_of g)(t := tc_last_event_ms e)"
  by (auto simp: subscribe_open_def Let_def split: prod.splits sum.splits)

lemma registry_subscribe_times:
  assumes "registry_subscribe S g t subs w = (r, g', w')"
  shows "times_of g' = times_of g"
proof (cases "g t")
  case None
  then have "times_of g t = Map.empty" by (simp add: times_of_def)
  with assms None show ?thesis
    by (auto simp: registry_subscribe_def fun_upd_same split: prod.splits sum.splits dest!: subscribe_open_times)
next
  case (Some e)
  then have "times_of g t = tc_last_event_ms e" by (simp add: times_of_def)
  with assms Some show ?thesis
    by (auto simp: registry_subscribe_def fun_upd_same dest!: subscribe_open_times)
qed

lemma pump_times:
  assumes "pump S g t w = (r, g', w')"
  shows "times_of g' = note_answer (times_of g) (Pumped t r) \<and>
    (seen_timed (times_of g) \<longrightarrow> answer_timed (Pumped t r) \<longrightarrow> answer_ok (times_of g) (Pumped t r))"
proof (cases "g t")
  case None
  with assms show ?thesis by (auto simp: pump_def pump_nothing_def)
next
  case (Some e)
  then have t: "times_of g t = tc_last_event_ms e" by (simp add: times_of_def)
  obtain poll conn w1 where p: "ws_poll_next S (tc_conn e) w = (poll, conn, w1)"
    by (cases "ws_poll_next S (tc_conn e) w") auto
  show ?thesis
  proof (cases poll)
    case (WsMessage m)
    with assms Some p t show ?thesis using gap_after_reports [of m "times_of g" t] by (auto simp: pump_def)
  next
    case WsDisconnected
    with assms Some p t show ?thesis
      by (auto simp: pump_def pump_nothing_def Let_def fun_upd_same split: prod.splits sum.splits)
  next
    case WsIdle
    with assms Some p t show ?thesis by (auto simp: pump_def pump_nothing_def fun_upd_same)
  qed
qed

lemma note_answer_timed: "seen_timed seen \<Longrightarrow> answer_timed a \<Longrightarrow> seen_timed (note_answer seen a)"
  by (induction seen a rule: note_answer.induct) (auto simp: seen_timed_def split: if_splits)

lemma reg_run_gaps:
  "reg_run S g ops w = (as, g', w') \<Longrightarrow> seen_timed (times_of g) \<Longrightarrow> list_all answer_timed as \<Longrightarrow> gaps_ok (times_of g) as"
proof (induction ops arbitrary: g w as g' w')
  case Nil
  then show ?case by simp
next
  case (Cons op ops)
  obtain a g1 w1 where st: "reg_step S g op w = (a, g1, w1)" by (cases "reg_step S g op w") auto
  obtain as1 g2 w2 where rn: "reg_run S g1 ops w1 = (as1, g2, w2)" by (cases "reg_run S g1 ops w1") auto
  have as: "as = a # as1" using Cons.prems(1) st rn by simp
  have "answer_ok (times_of g) a \<and> times_of g1 = note_answer (times_of g) a"
  proof (cases op)
    case (Subscribe t subs)
    with st show ?thesis by (auto simp: Let_def split: prod.splits dest: registry_subscribe_times)
  next
    case (Pump t)
    with st Cons.prems(2,3) as show ?thesis by (auto simp: Let_def split: prod.splits dest!: pump_times)
  qed
  with Cons.IH [OF rn] Cons.prems(2,3) note_answer_timed [of "times_of g" a] as show ?case by simp
qed

text \<open>
  C18. Holes are reported against what was delivered, across everything that happened in between.
  In any session from an empty registry (subscriptions, pumps of both tiers, idle polls,
  disconnects, reconnects that fail or succeed, resubscriptions that fail) whose messages carry
  epoch times, every message carries a gap exactly when its channel promises an interval (the bar's
  length, a second of mark prices, a tenth of depth) and it is more than that after the last message
  delivered on its own tier and stream; the gap names the stream, that message's time and its own. No
  answer without a message carries a gap.
\<close>

theorem every_hole_is_reported:
  assumes "reg_run S registry_new ops w = (as, g', w')" "list_all answer_timed as"
  shows "gaps_ok (\<lambda>t. Map.empty) as"
proof -
  have "times_of registry_new = (\<lambda>t. Map.empty)" by (simp add: times_of_def registry_new_def fun_eq_iff)
  from reg_run_gaps [OF assms(1) _ assms(2), unfolded this] show ?thesis by (simp add: seen_timed_def)
qed

text \<open>
  A scripted seam: a connection is a queue of poll results; the world holds the scripts still to
  hand out and the subscriptions sent, and refuses a resubscription while \<open>fails\<close> is set.
\<close>

record script_world =
  pending :: "ws_poll list list"
  sent :: "subscription list list"
  fails :: bool

definition script_seam :: "(ws_poll list, script_world) ws_seam" where
  "script_seam = \<lparr>
     ws_connect = (\<lambda>t w. case pending w of [] \<Rightarrow> (Inl (WsConnect ''refused''), w)
        | q # qs \<Rightarrow> (Inr q, w\<lparr>pending := qs\<rparr>)),
     ws_subscribe = (\<lambda>c subs w. if fails w then (Inl (WsSubscribe ''refused''), c, w)
        else (Inr (), c, w\<lparr>sent := sent w @ [subs]\<rparr>)),
     ws_poll_next = (\<lambda>c w. case c of [] \<Rightarrow> (WsIdle, c, w) | p # ps \<Rightarrow> (p, ps, w))\<rparr>"

definition mark_btc :: subscription where
  "mark_btc = subscription_new (InstrumentId ''BTCUSDT'') MarkPrice"

definition mark_at :: "i64 \<Rightarrow> ws_poll" where
  "mark_at t = WsMessage \<lparr>sm_subscription = mark_btc, sm_event_time_ms = t, sm_payload = []\<rparr>"

definition outage_world :: script_world where
  "outage_world = \<lparr>pending = [[mark_at 1000, WsDisconnected], [mark_at 9000]], sent = [], fails = False\<rparr>"

definition outage_ops :: "reg_op list" where
  "outage_ops = [Subscribe Market [mark_btc], Pump Market, Pump Market, Pump Market]"

definition outage_run :: "reg_answer list \<times> ws_poll list registry \<times> script_world" where
  "outage_run = reg_run script_seam registry_new outage_ops outage_world"

lemma outage_run_last:
  "last (fst outage_run) = Pumped Market (Inr \<lparr>po_message = Some \<lparr>sm_subscription = mark_btc, sm_event_time_ms = 9000, sm_payload = []\<rparr>,
     po_gap = Some \<lparr>gap_stream = stream_name mark_btc, gap_from_ms = 1000, gap_to_ms = 9000\<rparr>, po_reconnected = False\<rparr>)"
  by (simp add: outage_run_def outage_ops_def outage_world_def script_seam_def registry_new_def
      registry_subscribe_def subscribe_open_def pump_def gap_after_def mark_at_def pump_nothing_def
      mark_btc_def subscription_new_def mark_price_cadence_ms_def wrap_i64_def Let_def)

lemma outage_run_timed: "list_all answer_timed (fst outage_run)"
  by (simp add: outage_run_def outage_ops_def outage_world_def script_seam_def registry_new_def
      registry_subscribe_def subscribe_open_def pump_def mark_at_def pump_nothing_def epoch_ms_def Let_def)

theorem every_hole_is_reported_witness:
  "gaps_ok (\<lambda>t. Map.empty) (fst outage_run) \<and>
   (\<exists>out. last (fst outage_run) = Pumped Market (Inr out) \<and> po_gap out \<noteq> None)"
proof -
  obtain as g' w' where r: "outage_run = (as, g', w')" by (cases outage_run) auto
  have "list_all answer_timed as"
    using arg_cong [OF r, of "list_all answer_timed \<circ> fst"] outage_run_timed by simp
  from every_hole_is_reported [of script_seam outage_ops outage_world as g' w'] this r outage_run_last
  show ?thesis by (auto simp: outage_run_def)
qed

section \<open>What a slot has recorded\<close>

fun note_subs :: "(stream_tier \<Rightarrow> subscription list) \<Rightarrow> reg_answer \<Rightarrow> (stream_tier \<Rightarrow> subscription list)" where
  "note_subs rec (Subscribed t subs (Inr _)) = rec(t := foldl record_sub (rec t) subs)"
| "note_subs rec _ = rec"

lemma subscriptions_upd [simp]: "subscriptions (g(t \<mapsto> e)) = (subscriptions g)(t := tc_subs e)"
  by (auto simp: subscriptions_def)

lemma subscribe_open_subs:
  assumes "subscribe_open S g t e subs w = (r, g', w')" "subscriptions g t = tc_subs e"
  shows "subscriptions g' = note_subs (subscriptions g) (Subscribed t subs r)"
  using assms by (auto simp: subscribe_open_def Let_def fun_upd_same split: prod.splits sum.splits)

lemma registry_subscribe_subs:
  assumes "registry_subscribe S g t subs w = (r, g', w')"
  shows "subscriptions g' = note_subs (subscriptions g) (Subscribed t subs r)"
proof (cases "g t")
  case None
  then have "subscriptions g t = []" by (simp add: subscriptions_def)
  with assms None show ?thesis
    by (auto simp: registry_subscribe_def split: prod.splits sum.splits dest!: subscribe_open_subs)
next
  case (Some e)
  then have "subscriptions g t = tc_subs e" by (simp add: subscriptions_def)
  with assms Some show ?thesis
    by (auto simp: registry_subscribe_def dest!: subscribe_open_subs)
qed

lemma pump_subs:
  assumes "pump S g t w = (r, g', w')"
  shows "subscriptions g' = subscriptions g"
proof (cases "g t")
  case None
  with assms show ?thesis by (auto simp: pump_def)
next
  case (Some e)
  then have t: "subscriptions g t = tc_subs e" by (simp add: subscriptions_def)
  with assms Some show ?thesis
    by (auto simp: pump_def Let_def fun_upd_same split: prod.splits sum.splits ws_poll.splits)
qed

lemma reg_run_subs: "reg_run S g ops w = (as, g', w') \<Longrightarrow> subscriptions g' = foldl note_subs (subscriptions g) as"
proof (induction ops arbitrary: g w as g' w')
  case Nil
  then show ?case by simp
next
  case (Cons op ops)
  obtain a g1 w1 where st: "reg_step S g op w = (a, g1, w1)" by (cases "reg_step S g op w") auto
  obtain as1 g2 w2 where rn: "reg_run S g1 ops w1 = (as1, g2, w2)" by (cases "reg_run S g1 ops w1") auto
  have "subscriptions g1 = note_subs (subscriptions g) a"
  proof (cases op)
    case (Subscribe t subs)
    with st show ?thesis by (auto simp: Let_def split: prod.splits dest: registry_subscribe_subs)
  next
    case (Pump t)
    with st show ?thesis by (auto simp: Let_def split: prod.splits dest: pump_subs)
  qed
  with Cons.IH [OF rn] Cons.prems st rn show ?case by auto
qed

lemma record_sub_facts: "set (foldl record_sub xs ys) = set xs \<union> set ys"
  "distinct xs \<Longrightarrow> distinct (foldl record_sub xs ys)"
  by (induction ys arbitrary: xs) (auto simp: record_sub_def)

lemma note_subs_distinct: "(\<forall>t. distinct (rec t)) \<Longrightarrow> distinct (foldl note_subs rec as t)"
proof (induction as arbitrary: rec)
  case Nil
  then show ?case by simp
next
  case (Cons a as)
  have "distinct (note_subs rec a u)" for u
    using Cons.prems by (cases "(rec, a)" rule: note_subs.cases) (auto simp: record_sub_facts(2))
  with Cons.IH show ?case by simp
qed

text \<open>
  A reconnect replays exactly what was subscribed. In a session from an empty registry the
  subscriptions recorded for a tier are those of the calls on that tier that succeeded, once each
  and in the order first asked for; pumps, disconnects, failed calls and the other tier change
  nothing. And when a later pump answers that it reconnected, the connection now in the slot is a
  fresh one on which exactly that list was subscribed, with the tier's event times kept.
\<close>

theorem reconnect_replays_subscriptions:
  assumes "reg_run S registry_new ops w = (as, g, w')" "pump S g t w' = (Inr out, g', w'')" "po_reconnected out"
  shows "let recorded = foldl note_subs (\<lambda>t. []) as t
         in distinct recorded \<and> subscriptions g' t = recorded \<and>
            (\<exists>w1 fresh w2 conn e. ws_connect S t w1 = (Inr fresh, w2) \<and>
               ws_subscribe S fresh recorded w2 = (Inr (), conn, w'') \<and>
               g t = Some e \<and> g' = g(t \<mapsto> e\<lparr>tc_conn := conn\<rparr>))"
proof -
  have new: "subscriptions registry_new = (\<lambda>t. [])" by (simp add: subscriptions_def registry_new_def fun_eq_iff)
  have rec: "subscriptions g t = foldl note_subs (\<lambda>t. []) as t"
    using reg_run_subs [OF assms(1)] by (simp add: new)
  obtain e where e: "g t = Some e"
    using assms(2,3) by (cases "g t") (auto simp: pump_def pump_nothing_def)
  then have es: "tc_subs e = foldl note_subs (\<lambda>t. []) as t"
    using rec by (simp add: subscriptions_def)
  have "\<exists>w1 fresh w2 conn. ws_connect S t w1 = (Inr fresh, w2) \<and>
      ws_subscribe S fresh (tc_subs e) w2 = (Inr (), conn, w'') \<and> g' = g(t \<mapsto> e\<lparr>tc_conn := conn\<rparr>)"
    using assms(2,3) e
    by (auto simp: pump_def pump_nothing_def Let_def split: prod.splits sum.splits ws_poll.splits)
  with e es pump_subs [OF assms(2)] rec note_subs_distinct [of "\<lambda>t. []" as t] show ?thesis
    by (auto simp: Let_def)
qed

lemma outage_prefix:
  "\<exists>as g w g' w'. reg_run script_seam registry_new (take 2 outage_ops) outage_world = (as, g, w) \<and>
     pump script_seam g Market w = (Inr (pump_nothing\<lparr>po_reconnected := True\<rparr>), g', w') \<and>
     foldl note_subs (\<lambda>t. []) as Market = [mark_btc]"
  by (simp add: outage_ops_def outage_world_def script_seam_def registry_new_def record_sub_def
      registry_subscribe_def subscribe_open_def pump_def gap_after_def mark_at_def pump_nothing_def
      mark_btc_def subscription_new_def mark_price_cadence_ms_def Let_def)

theorem reconnect_replays_subscriptions_witness:
  "\<exists>g w g' w'. pump script_seam g Market w = (Inr (pump_nothing\<lparr>po_reconnected := True\<rparr>), g', w') \<and>
     subscriptions g' Market = [mark_btc]"
proof -
  from outage_prefix obtain as g w g' w' where
    run: "reg_run script_seam registry_new (take 2 outage_ops) outage_world = (as, g, w)" and
    p: "pump script_seam g Market w = (Inr (pump_nothing\<lparr>po_reconnected := True\<rparr>), g', w')" and
    rec: "foldl note_subs (\<lambda>t. []) as Market = [mark_btc]" by blast
  from reconnect_replays_subscriptions [OF run p] rec p show ?thesis by (auto simp: Let_def)
qed

section \<open>A resubscription that fails\<close>

text \<open>A connection nothing arrives on: it was never subscribed, and it stays up.\<close>

definition silent :: "('c, 'w) ws_seam \<Rightarrow> 'c \<Rightarrow> bool" where
  "silent S c \<longleftrightarrow> (\<forall>w. \<exists>w'. ws_poll_next S c w = (WsIdle, c, w'))"

definition slot_silent :: "('c, 'w) ws_seam \<Rightarrow> 'c registry \<Rightarrow> stream_tier \<Rightarrow> bool" where
  "slot_silent S g t \<longleftrightarrow> (\<exists>e. g t = Some e \<and> silent S (tc_conn e))"

lemma silent_pump:
  assumes "slot_silent S g t" "pump S g t w = (r, g', w')"
  shows "r = Inr pump_nothing \<and> slot_silent S g' t"
proof -
  obtain e where e: "g t = Some e" "silent S (tc_conn e)" using assms(1) by (auto simp: slot_silent_def)
  obtain w1 where "ws_poll_next S (tc_conn e) w = (WsIdle, tc_conn e, w1)"
    using e(2) by (auto simp: silent_def)
  with e assms(2) show ?thesis by (auto simp: pump_def slot_silent_def)
qed

lemma silent_pumps:
  "slot_silent S g t \<Longrightarrow> reg_run S g (replicate n (Pump t)) w = (as, g', w') \<Longrightarrow>
     as = replicate n (Pumped t (Inr pump_nothing))"
proof (induction n arbitrary: g w as g' w')
  case 0
  then show ?case by simp
next
  case (Suc n)
  obtain r g1 w1 where p: "pump S g t w = (r, g1, w1)" by (cases "pump S g t w") auto
  obtain as1 g2 w2 where rn: "reg_run S g1 (replicate n (Pump t)) w1 = (as1, g2, w2)"
    by (cases "reg_run S g1 (replicate n (Pump t)) w1") auto
  from silent_pump [OF Suc.prems(1) p] Suc.IH [OF _ rn] Suc.prems(2) p rn show ?case by auto
qed

text \<open>
  A reconnect whose resubscription fails is not retried. The pump answers the (transient)
  error, but the fresh connection has already replaced the dropped one: if nothing arrives on a
  connection that was never subscribed, every later pump of the tier answers idle, for ever,
  although the tier's subscriptions are still recorded.
\<close>

theorem failed_resubscribe_goes_silent:
  assumes "g t = Some e" "ws_poll_next S (tc_conn e) w = (WsDisconnected, dropped, w1)"
    and "ws_connect S t w1 = (Inr fresh, w2)" "ws_subscribe S fresh (tc_subs e) w2 = (Inl err, fresh', w3)"
    and "silent S fresh'" "reg_run S g (replicate (Suc n) (Pump t)) w = (as, g', w')"
  shows "as = Pumped t (Inl err) # replicate n (Pumped t (Inr pump_nothing)) \<and> ws_error_class err = Transient"
proof -
  let ?g = "g(t \<mapsto> e\<lparr>tc_conn := fresh'\<rparr>)"
  have p: "pump S g t w = (Inl err, ?g, w3)" using assms(1-4) by (simp add: pump_def)
  have quiet: "slot_silent S ?g t" using assms(5) by (simp add: slot_silent_def)
  obtain as1 g2 w4 where rn: "reg_run S ?g (replicate n (Pump t)) w3 = (as1, g2, w4)"
    by (cases "reg_run S ?g (replicate n (Pump t)) w3") auto
  from silent_pumps [OF quiet rn] rn assms(6) p have "as = Pumped t (Inl err) # replicate n (Pumped t (Inr pump_nothing))"
    by (simp add: fun_upd_def)
  moreover have "ws_error_class err = Transient" by (cases err) simp_all
  ultimately show ?thesis by simp
qed

definition dropped_slot :: "ws_poll list tier_conn" where
  "dropped_slot = \<lparr>tc_conn = [WsDisconnected], tc_subs = [mark_btc], tc_last_event_ms = Map.empty\<rparr>"

definition refusing_world :: script_world where
  "refusing_world = \<lparr>pending = [[]], sent = [], fails = True\<rparr>"

theorem failed_resubscribe_goes_silent_witness:
  "fst (reg_run script_seam [Market \<mapsto> dropped_slot] (replicate (Suc 3) (Pump Market)) refusing_world) =
     Pumped Market (Inl (WsSubscribe ''refused'')) # replicate 3 (Pumped Market (Inr pump_nothing))"
proof -
  let ?g = "[Market \<mapsto> dropped_slot]"
  obtain as g' w' where run: "reg_run script_seam ?g (replicate (Suc 3) (Pump Market)) refusing_world = (as, g', w')"
    by (cases "reg_run script_seam ?g (replicate (Suc 3) (Pump Market)) refusing_world") auto
  have "as = Pumped Market (Inl (WsSubscribe ''refused'')) # replicate 3 (Pumped Market (Inr pump_nothing)) \<and>
      ws_error_class (WsSubscribe ''refused'') = Transient"
    by (rule failed_resubscribe_goes_silent [where e = dropped_slot and dropped = "[]" and ?w1.0 = refusing_world
          and fresh = "[]" and fresh' = "[]" and ?w2.0 = "refusing_world\<lparr>pending := []\<rparr>"
          and ?w3.0 = "refusing_world\<lparr>pending := []\<rparr>", OF _ _ _ _ _ run])
      (simp_all add: dropped_slot_def refusing_world_def script_seam_def silent_def)
  with run show ?thesis by simp
qed

end
