(* ===== verification/Storage_Key.thy ===== *)
theory Storage_Key imports Byte_Codec Domain_Types begin

unbundle bit_operations_syntax

text \<open>
  The key encoding of \<open>qe-storage\<close> (\<open>key.rs\<close>): byte keys whose lexicographic order under one
  prefix is the order of time, and prefixes that never run into each other. A time is an \<open>i64\<close>;
  \<open>time_from_key\<close> slices the last eight bytes and panics on a shorter key.
\<close>

section \<open>The encoding\<close>

definition key_delim :: nat where "key_delim = 0"

definition order_i64 :: "i64 \<Rightarrow> bytes" where
  "order_i64 v = be_bytes 8 (as_u64 v XOR 2 ^ 63)"

text \<open>\<open>x as i64\<close> for a \<open>u64\<close>.\<close>

definition u64_as_i64 :: "u64 \<Rightarrow> i64" where
  "u64_as_i64 n = wrap_i64 (int n)"

definition unorder_i64 :: "bytes \<Rightarrow> i64" where
  "unorder_i64 bs = u64_as_i64 (from_be bs XOR 2 ^ 63)"

fun position_of :: "'a \<Rightarrow> 'a list \<Rightarrow> nat option" where
  "position_of x [] = None"
| "position_of x (y # ys) = (if y = x then Some 0 else map_option Suc (position_of x ys))"

definition resolution_ordinal :: "resolution \<Rightarrow> nat option" where
  "resolution_ordinal r = map_option (\<lambda>i. i mod 256) (position_of r resolution_all)"

definition instrument_bytes :: "instrument_id \<Rightarrow> bytes" where
  "instrument_bytes i = map of_char (instrument_str i)"

definition series_prefix :: "instrument_id \<Rightarrow> bytes" where
  "series_prefix i = instrument_bytes i @ [key_delim]"

definition series_key :: "instrument_id \<Rightarrow> timestamp \<Rightarrow> bytes" where
  "series_key i t = series_prefix i @ order_i64 t"

text \<open>The ordinal's \<open>expect\<close> cannot fail (below), so the prefix is total.\<close>

definition bar_prefix :: "instrument_id \<Rightarrow> resolution \<Rightarrow> bytes" where
  "bar_prefix i r = series_prefix i @ [the (resolution_ordinal r)]"

definition bar_key :: "instrument_id \<Rightarrow> resolution \<Rightarrow> timestamp \<Rightarrow> bytes" where
  "bar_key i r t = bar_prefix i r @ order_i64 t"

definition indicator_key :: "instrument_id \<Rightarrow> resolution \<Rightarrow> bytes \<Rightarrow> u32 \<Rightarrow> timestamp \<Rightarrow> bytes" where
  "indicator_key i r ident lookback t =
     be_bytes 2 (length (instrument_bytes i)) @ instrument_bytes i @ [the (resolution_ordinal r)] @
     be_bytes 2 (length ident) @ ident @ be_bytes 4 lookback @ order_i64 t"

definition time_from_key :: "bytes \<Rightarrow> timestamp option" where
  "time_from_key k = (if length k < 8 then None else Some (unorder_i64 (drop (length k - 8) k)))"

section \<open>Time order\<close>

lemma resolution_ordinal_Some: "resolution_ordinal r = Some (the (resolution_ordinal r))"
  by (cases r) (simp_all add: resolution_ordinal_def resolution_all_def)

lemma resolution_ordinal_inject [simp]:
  "the (resolution_ordinal r) = the (resolution_ordinal r') \<longleftrightarrow> r = r'"
  by (cases r; cases r') (simp_all add: resolution_ordinal_def resolution_all_def)

lemma set_top_bit: "(n :: nat) < 2 ^ 63 \<Longrightarrow> n XOR 2 ^ 63 = n + 2 ^ 63"
proof -
  assume n: "n < 2 ^ 63"
  have "flip_bit 63 n = n XOR 2 ^ 63" by (simp add: flip_bit_eq_xor)
  moreover have "\<not> bit n 63" using n by (simp add: bit_iff_odd)
  ultimately show ?thesis by (simp add: flip_bit_eq_if set_bit_eq)
qed

lemma flip_top_bit:
  assumes "n < u64_modulus"
  shows "n XOR 2 ^ 63 = (if n < 2 ^ 63 then n + 2 ^ 63 else n - 2 ^ 63)"
proof (cases "n < 2 ^ 63")
  case True
  then show ?thesis using set_top_bit by simp
next
  case False
  define m where "m = n - 2 ^ 63"
  have "m XOR 2 ^ 63 = n" using False assms by (subst set_top_bit) (simp_all add: m_def)
  then have "n XOR 2 ^ 63 = m XOR (2 ^ 63 XOR 2 ^ 63)" by (metis xor.assoc)
  with False show ?thesis by (simp add: m_def)
qed

lemma as_u64_below [simp]: "as_u64 v < u64_modulus"
proof -
  have "v mod 18446744073709551616 < 18446744073709551616" by simp
  then show ?thesis unfolding as_u64_def by linarith
qed

lemma as_u64_cases:
  "in_i64 v \<Longrightarrow> as_u64 v = (if 0 \<le> v then nat v else nat (v + 18446744073709551616))"
proof (cases "0 \<le> v")
  case True
  assume "in_i64 v"
  with True show ?thesis by (simp add: as_u64_def in_i64_def)
next
  case False
  assume "in_i64 v"
  with False have "v mod 18446744073709551616 = v + 18446744073709551616"
    by (intro mod_pos_pos_trivial [of "v + 18446744073709551616" 18446744073709551616, simplified mod_add_self2])
      (simp_all add: in_i64_def)
  with False show ?thesis by (simp add: as_u64_def)
qed

lemma u64_as_i64_of: "in_i64 v \<Longrightarrow> wrap_i64 (int (as_u64 v)) = v"
proof -
  assume v: "in_i64 v"
  have "int (as_u64 v) = v mod 18446744073709551616" by (simp add: as_u64_def)
  then have "wrap_i64 (int (as_u64 v)) = wrap_i64 v" by (simp add: wrap_i64_def mod_add_left_eq)
  with v show ?thesis by (simp add: wrap_i64_id)
qed

lemma order_offset: "in_i64 v \<Longrightarrow> as_u64 v XOR 2 ^ 63 = nat (v + 9223372036854775808)"
  unfolding flip_top_bit [OF as_u64_below] by (auto simp: as_u64_cases in_i64_def)

lemma offset_below: "in_i64 v \<Longrightarrow> nat (v + 9223372036854775808) < 256 ^ 8"
  by (auto simp: in_i64_def)

lemma order_i64_length [simp]: "length (order_i64 v) = 8"
  by (simp add: order_i64_def)

lemma order_i64_less:
  "in_i64 s \<Longrightarrow> in_i64 t \<Longrightarrow> bytes_less (order_i64 s) (order_i64 t) \<longleftrightarrow> s < t"
  unfolding order_i64_def order_offset
  by (simp only: be_bytes_less [OF offset_below offset_below]) (auto simp: in_i64_def)

lemma unorder_order_i64 [simp]: "in_i64 v \<Longrightarrow> unorder_i64 (order_i64 v) = v"
proof -
  assume v: "in_i64 v"
  have "from_be (order_i64 v) = nat (v + 9223372036854775808)"
    unfolding order_i64_def order_offset [OF v] using offset_below [OF v] by simp
  moreover have "nat (v + 9223372036854775808) XOR 2 ^ 63 = as_u64 v"
    by (simp flip: order_offset [OF v] add: ac_simps)
  moreover have "wrap_i64 (int (as_u64 v)) = v"
    using v by (rule u64_as_i64_of)
  ultimately show ?thesis by (simp add: unorder_i64_def u64_as_i64_def)
qed

lemma order_i64_inject: "in_i64 s \<Longrightarrow> in_i64 t \<Longrightarrow> order_i64 s = order_i64 t \<longleftrightarrow> s = t"
  by (metis unorder_order_i64)

section \<open>Keys in time order under one prefix\<close>

text \<open>
  What a table of timed rows relies on: under one prefix, keys compare as their times do, give
  their time back, and no other row is under the prefix.
\<close>

locale time_keyed =
  fixes pre :: bytes and key :: "i64 \<Rightarrow> bytes"
  assumes key_order: "in_i64 s \<Longrightarrow> in_i64 t \<Longrightarrow> bytes_less (key s) (key t) \<longleftrightarrow> s < t"
    and key_time: "in_i64 t \<Longrightarrow> time_from_key (key t) = Some t"
    and key_prefix: "prefix pre (key t)"
begin

lemma key_inject: "in_i64 s \<Longrightarrow> in_i64 t \<Longrightarrow> key s = key t \<longleftrightarrow> s = t"
  using key_time by (metis option.inject)

lemma sorted_times:
  assumes "sorted_wrt (\<lambda>x y. bytes_less (fst x) (fst y)) kvs"
    and "\<forall>kv \<in> set kvs. in_i64 (tm kv) \<and> fst kv = key (tm kv)"
  shows "sorted_wrt (<) (map tm kvs)"
  using assms by (induction kvs) (auto simp: key_order)

end

lemma time_from_key_append [simp]: "in_i64 t \<Longrightarrow> time_from_key (p @ order_i64 t) = Some t"
  by (simp add: time_from_key_def)

interpretation series_rows: time_keyed "series_prefix i" "series_key i" for i
  by unfold_locales (simp_all add: series_key_def order_i64_less)

interpretation bar_rows: time_keyed "bar_prefix i r" "bar_key i r" for i r
  by unfold_locales (simp_all add: bar_key_def order_i64_less)

section \<open>Prefixes do not run into each other\<close>

lemma instrument_bytes_no_delim: "valid_instrument i \<Longrightarrow> key_delim \<notin> set (instrument_bytes i)"
  by (auto simp: valid_instrument_def instrument_bytes_def key_delim_def dest!: alnum_not_nul)

lemma instrument_bytes_inject: "instrument_bytes i = instrument_bytes j \<longleftrightarrow> i = j"
proof
  assume "instrument_bytes i = instrument_bytes j"
  then have "map char_of (instrument_bytes i) = (map char_of (instrument_bytes j) :: string)" by simp
  then show "i = j" by (cases i; cases j) (simp add: instrument_bytes_def comp_def)
qed simp

lemma series_prefix_split:
  assumes "valid_instrument i" "valid_instrument j"
  shows "series_prefix i @ xs = series_prefix j @ ys \<longleftrightarrow> i = j \<and> xs = ys"
  using split_at_delim [OF instrument_bytes_no_delim [OF assms(1)] instrument_bytes_no_delim [OF assms(2)]]
  by (simp add: series_prefix_def instrument_bytes_inject)

lemma series_prefix_iff:
  assumes "valid_instrument i" "valid_instrument j"
  shows "prefix (series_prefix i) (series_key j t) \<longleftrightarrow> i = j"
  unfolding prefix_def series_key_def using series_prefix_split [OF assms(2,1)] by auto

lemma bar_prefix_iff:
  assumes "valid_instrument i" "valid_instrument j"
  shows "prefix (bar_prefix i r) (bar_key j q t) \<longleftrightarrow> i = j \<and> r = q"
  unfolding prefix_def bar_key_def bar_prefix_def append_assoc series_prefix_split [OF assms(2,1)]
  by auto

lemma bar_key_inject:
  assumes "valid_instrument i" "valid_instrument j" "in_i64 s" "in_i64 t"
  shows "bar_key i r s = bar_key j q t \<longleftrightarrow> i = j \<and> r = q \<and> s = t"
  unfolding bar_key_def bar_prefix_def append_assoc series_prefix_split [OF assms(1,2)]
  using order_i64_inject [OF assms(3,4)] by auto

lemma series_key_inject:
  assumes "valid_instrument i" "valid_instrument j" "in_i64 s" "in_i64 t"
  shows "series_key i s = series_key j t \<longleftrightarrow> i = j \<and> s = t"
  unfolding series_key_def series_prefix_split [OF assms(1,2)] using order_i64_inject [OF assms(3,4)] by auto

end
