(* ===== verification/Store_Engine.thy ===== *)
theory Store_Engine imports Storage_Key begin

text \<open>
  What the two stores of \<open>qe-storage\<close> share (\<open>engine.rs\<close>, \<open>scan_series\<close> of \<open>store.rs\<close>). LMDB itself
  (the \<open>heed\<close> package) is a parameter: a record of operations on a database's contents, the
  transaction boundary, and a codec per value type (\<open>SerdeJson\<close>). \<open>lmdb_laws\<close> and \<open>codec_ok\<close> are
  their documented behaviour. A cursor yields a list of items, each of which may be an error. A
  write transaction that is not committed leaves the environment as it was.
\<close>

section \<open>The engine\<close>

datatype storage_error = StoreIo string | Lmdb string | SchemaMismatch u32 u32 | SchemaCorrupt string

type_synonym 'r items = "(storage_error, bytes \<times> 'r) result list"

record ('d, 'r) lmdb =
  db_put :: "'d \<Rightarrow> bytes \<Rightarrow> 'r \<Rightarrow> (storage_error, 'd) result"
  db_get :: "'d \<Rightarrow> bytes \<Rightarrow> (storage_error, 'r option) result"
  db_iter :: "'d \<Rightarrow> (storage_error, 'r items) result"
  db_prefix_iter :: "'d \<Rightarrow> bytes \<Rightarrow> (storage_error, 'r items) result"

record 's txn_env =
  txn_write :: "'s \<Rightarrow> storage_error option"
  txn_read :: "'s \<Rightarrow> storage_error option"
  txn_commit :: "'s \<Rightarrow> storage_error option"

record ('v, 'r) codec =
  cod_enc :: "'v \<Rightarrow> (storage_error, 'r) result"
  cod_dec :: "'r \<Rightarrow> (storage_error, 'v) result"

definition write_txn :: "'s txn_env \<Rightarrow> 's \<Rightarrow> ('s \<Rightarrow> (storage_error, 's) result) \<Rightarrow> (storage_error, unit) result \<times> 's" where
  "write_txn E s body =
     (case txn_write E s of
        Some e \<Rightarrow> (Inl e, s)
      | None \<Rightarrow>
          (case body s of
             Inl e \<Rightarrow> (Inl e, s)
           | Inr s' \<Rightarrow> (case txn_commit E s' of Some e \<Rightarrow> (Inl e, s) | None \<Rightarrow> (Inr (), s'))))"

definition read_txn :: "'s txn_env \<Rightarrow> 's \<Rightarrow> ('s \<Rightarrow> (storage_error, 'a) result) \<Rightarrow> (storage_error, 'a) result" where
  "read_txn E s body = (case txn_read E s of Some e \<Rightarrow> Inl e | None \<Rightarrow> body s)"

definition put_value :: "('v, 'r) codec \<Rightarrow> ('d, 'r) lmdb \<Rightarrow> 'd \<Rightarrow> bytes \<Rightarrow> 'v \<Rightarrow> (storage_error, 'd) result" where
  "put_value C L d k v = res_bind (cod_enc C v) (db_put L d k)"

definition get_value :: "('v, 'r) codec \<Rightarrow> ('d, 'r) lmdb \<Rightarrow> 'd \<Rightarrow> bytes \<Rightarrow> (storage_error, 'v option) result" where
  "get_value C L d k =
     res_bind (db_get L d k)
       (\<lambda>found. case found of None \<Rightarrow> Inr None | Some r \<Rightarrow> res_bind (cod_dec C r) (\<lambda>v. Inr (Some v)))"

text \<open>A batch of rows, each under its own key.\<close>

definition put_rows ::
  "('v, 'r) codec \<Rightarrow> ('d, 'r) lmdb \<Rightarrow> ('v \<Rightarrow> bytes) \<Rightarrow> 'd \<Rightarrow> 'v list \<Rightarrow> (storage_error, 'd) result" where
  "put_rows C L key d vs = try_fold (\<lambda>d v. put_value C L d (key v) v) d vs"

text \<open>
  The loop of \<open>scan_series\<close>; \<open>None\<close> is the panic of \<open>time_from_key\<close> on a short key. The item is
  decoded before its time is looked at, so a value that does not decode is an error even past \<open>to\<close>.
\<close>

fun scan_items ::
  "('v, 'r) codec \<Rightarrow> i64 \<Rightarrow> i64 \<Rightarrow> 'r items \<Rightarrow> (storage_error, 'v list) result option" where
  "scan_items C start stop [] = Some (Inr [])"
| "scan_items C start stop (Inl e # rest) = Some (Inl e)"
| "scan_items C start stop (Inr (k, raw) # rest) =
     (case cod_dec C raw of
        Inl e \<Rightarrow> Some (Inl e)
      | Inr v \<Rightarrow>
          (case time_from_key k of
             None \<Rightarrow> None
           | Some t \<Rightarrow>
               if t \<ge> stop then Some (Inr [])
               else (case scan_items C start stop rest of
                       None \<Rightarrow> None
                     | Some (Inl e) \<Rightarrow> Some (Inl e)
                     | Some (Inr vs) \<Rightarrow> Some (Inr (if t \<ge> start then v # vs else vs)))))"

definition scan_series ::
  "('v, 'r) codec \<Rightarrow> ('d, 'r) lmdb \<Rightarrow> 'd \<Rightarrow> bytes \<Rightarrow> i64 \<Rightarrow> i64 \<Rightarrow> (storage_error, 'v list) result option" where
  "scan_series C L d pre start stop =
     (case db_prefix_iter L d pre of Inl e \<Rightarrow> Some (Inl e) | Inr items \<Rightarrow> scan_items C start stop items)"

section \<open>The documented behaviour\<close>

definition lmdb_laws :: "('d, 'r) lmdb \<Rightarrow> bool" where
  "lmdb_laws L \<longleftrightarrow>
     (\<forall>d k v d' k'. db_put L d k v = Inr d' \<longrightarrow> db_get L d' k' = (if k' = k then Inr (Some v) else db_get L d k')) \<and>
     (\<forall>d k. \<exists>r. db_get L d k = Inr r) \<and>
     (\<forall>d. \<exists>kvs. db_iter L d = Inr (map Inr kvs) \<and> sorted_wrt (\<lambda>x y. bytes_less (fst x) (fst y)) kvs \<and>
        set kvs = {(k, v). db_get L d k = Inr (Some v)}) \<and>
     (\<forall>d p. \<exists>kvs. db_prefix_iter L d p = Inr (map Inr kvs) \<and> sorted_wrt (\<lambda>x y. bytes_less (fst x) (fst y)) kvs \<and>
        set kvs = {(k, v). db_get L d k = Inr (Some v) \<and> prefix p k})"

definition codec_ok :: "('v, 'r) codec \<Rightarrow> bool" where
  "codec_ok C \<longleftrightarrow> (\<forall>v r. cod_enc C v = Inr r \<longrightarrow> cod_dec C r = Inr v)"

lemma codec_okD: "codec_ok C \<Longrightarrow> cod_enc C v = Inr r \<Longrightarrow> cod_dec C r = Inr v"
  by (simp add: codec_ok_def)

lemma lmdb_put: "lmdb_laws L \<Longrightarrow> db_put L d k v = Inr d' \<Longrightarrow>
    db_get L d' k' = (if k' = k then Inr (Some v) else db_get L d k')"
  unfolding lmdb_laws_def by blast

lemma lmdb_get: "lmdb_laws L \<Longrightarrow> \<exists>r. db_get L d k = Inr r"
  unfolding lmdb_laws_def by blast

lemma lmdb_prefix: "lmdb_laws L \<Longrightarrow> \<exists>kvs. db_prefix_iter L d p = Inr (map Inr kvs) \<and>
    sorted_wrt (\<lambda>x y. bytes_less (fst x) (fst y)) kvs \<and>
    set kvs = {(k, v). db_get L d k = Inr (Some v) \<and> prefix p k}"
  unfolding lmdb_laws_def by blast

section \<open>A table as a map\<close>

text \<open>The contents of a database as a map from keys to values, and that every value in it decodes.\<close>

definition view :: "('v, 'r) codec \<Rightarrow> ('d, 'r) lmdb \<Rightarrow> 'd \<Rightarrow> bytes \<Rightarrow> 'v option" where
  "view C L d k = (case get_value C L d k of Inr found \<Rightarrow> found | Inl _ \<Rightarrow> None)"

definition healthy :: "('v, 'r) codec \<Rightarrow> ('d, 'r) lmdb \<Rightarrow> 'd \<Rightarrow> bool" where
  "healthy C L d \<longleftrightarrow> (\<forall>k r. db_get L d k = Inr (Some r) \<longrightarrow> (\<exists>v. cod_dec C r = Inr v))"

definition empty_db :: "('d, 'r) lmdb \<Rightarrow> 'd \<Rightarrow> bool" where
  "empty_db L d \<longleftrightarrow> (\<forall>k. db_get L d k = Inr None)"

lemma empty_healthy: "empty_db L d \<Longrightarrow> healthy C L d"
  by (simp add: empty_db_def healthy_def)

lemma empty_view: "empty_db L d \<Longrightarrow> view C L d = Map.empty"
  by (simp add: empty_db_def view_def get_value_def fun_eq_iff)

lemma healthy_get:
  assumes "lmdb_laws L" "healthy C L d"
  shows "get_value C L d k = Inr (view C L d k)"
proof -
  obtain o' where "db_get L d k = Inr o'" using lmdb_get [OF assms(1)] by blast
  with assms(2) show ?thesis
    by (cases o') (force simp: view_def get_value_def healthy_def)+
qed

lemma put_value_view:
  assumes "lmdb_laws L" "codec_ok C" "put_value C L d k v = Inr d'"
  shows "view C L d' = (view C L d)(k \<mapsto> v)" and "healthy C L d \<Longrightarrow> healthy C L d'"
proof -
  from assms(3) obtain r where r: "cod_enc C v = Inr r" "db_put L d k r = Inr d'"
    by (auto simp: put_value_def res_bind_Inr)
  note get = lmdb_put [OF assms(1) r(2)] and dec = codec_okD [OF assms(2) r(1)]
  show "view C L d' = (view C L d)(k \<mapsto> v)"
    by (rule ext) (simp add: view_def get_value_def get dec)
  show "healthy C L d'" if "healthy C L d"
    using that dec by (auto simp: healthy_def get)
qed

lemma put_rows_view:
  assumes "lmdb_laws L" "codec_ok C" "put_rows C L key d vs = Inr d'"
  shows "view C L d' = foldl (\<lambda>m v. m(key v \<mapsto> v)) (view C L d) vs \<and> (healthy C L d \<longrightarrow> healthy C L d')"
  using assms(3) unfolding put_rows_def
proof (induction vs arbitrary: d)
  case Nil
  then show ?case by simp
next
  case (Cons v vs)
  from Cons.prems obtain d1 where d1: "put_value C L d (key v) v = Inr d1"
    and rest: "try_fold (\<lambda>d v. put_value C L d (key v) v) d1 vs = Inr d'"
    by (auto split: sum.splits)
  from Cons.IH [OF rest] put_value_view [OF assms(1,2) d1] show ?case by auto
qed

section \<open>Scans\<close>

text \<open>The rows under a prefix, decoded, with their times.\<close>

definition timed_rows :: "('v, 'r) codec \<Rightarrow> ('d, 'r) lmdb \<Rightarrow> 'd \<Rightarrow> bytes \<Rightarrow> (i64 \<times> 'v) list" where
  "timed_rows C L d pre =
     (case db_prefix_iter L d pre of
        Inl _ \<Rightarrow> []
      | Inr items \<Rightarrow> map (\<lambda>item. case item of Inr (k, r) \<Rightarrow>
          (the (time_from_key k), case cod_dec C r of Inr v \<Rightarrow> v)) items)"

lemma scan_items_rows:
  assumes "\<forall>(k, r) \<in> set kvs. time_from_key k \<noteq> None \<and> (\<exists>v. cod_dec C r = Inr v)"
    and "rows = map (\<lambda>(k, r). (the (time_from_key k), case cod_dec C r of Inr v \<Rightarrow> v)) kvs"
    and "sorted_wrt (<) (map fst rows)"
  shows "scan_items C start stop (map Inr kvs) = Some (Inr (map snd (filter (\<lambda>(t, v). start \<le> t \<and> t < stop) rows)))"
  using assms
proof (induction kvs arbitrary: rows)
  case Nil
  then show ?case by simp
next
  case (Cons kv kvs)
  obtain k r where kv: "kv = (k, r)" by (cases kv)
  with Cons.prems(1) obtain t v where tv: "time_from_key k = Some t" "cod_dec C r = Inr v" by auto
  obtain rest where rows: "rows = (t, v) # rest"
    and rest: "rest = map (\<lambda>(k, r). (the (time_from_key k), case cod_dec C r of Inr v \<Rightarrow> v)) kvs"
    using Cons.prems(2) kv tv by simp
  have IH: "scan_items C start stop (map Inr kvs) = Some (Inr (map snd (filter (\<lambda>(t, v). start \<le> t \<and> t < stop) rest)))"
    using Cons.prems rows rest by (intro Cons.IH) auto
  show ?case
  proof (cases "t \<ge> stop")
    case True
    have "\<forall>row \<in> set rest. t < fst row" using Cons.prems(3) rows by simp
    with True have "filter (\<lambda>(t, v). start \<le> t \<and> t < stop) rest = []" by (auto simp: filter_empty_conv)
    with True show ?thesis by (simp add: kv tv rows)
  next
    case False
    then show ?thesis by (simp add: kv tv rows IH)
  qed
qed

context time_keyed
begin

text \<open>Every row under the prefix is one of its timed rows.\<close>

definition only_timed :: "(bytes \<Rightarrow> 'v option) \<Rightarrow> bool" where
  "only_timed m \<longleftrightarrow> (\<forall>k v. m k = Some v \<longrightarrow> prefix pre k \<longrightarrow> (\<exists>t. in_i64 t \<and> k = key t))"

lemma timed_rows_facts:
  assumes "lmdb_laws L" "healthy C L d" "only_timed (view C L d)"
  shows "sorted_wrt (<) (map fst (timed_rows C L d pre))"
    and "set (timed_rows C L d pre) = {(t, v). in_i64 t \<and> view C L d (key t) = Some v}"
    and "scan_series C L d pre start stop =
      Some (Inr (map snd (filter (\<lambda>(t, v). start \<le> t \<and> t < stop) (timed_rows C L d pre))))"
    and "\<exists>kvs. db_prefix_iter L d pre = Inr (map Inr kvs) \<and>
      map (\<lambda>(k, r). (time_from_key k, cod_dec C r)) kvs = map (\<lambda>(t, v). (Some t, Inr v)) (timed_rows C L d pre)"
proof -
  obtain kvs where iter: "db_prefix_iter L d pre = Inr (map Inr kvs)"
    and srt: "sorted_wrt (\<lambda>x y. bytes_less (fst x) (fst y)) kvs"
    and st: "set kvs = {(k, v). db_get L d k = Inr (Some v) \<and> prefix pre k}"
    using lmdb_prefix [OF assms(1)] by blast
  let ?row = "\<lambda>(k, r). (the (time_from_key k), case cod_dec C r of Inr v \<Rightarrow> v)"
  have rows: "timed_rows C L d pre = map ?row kvs"
    by (simp add: timed_rows_def iter split_def)
  have kv: "\<exists>t v. in_i64 t \<and> k = key t \<and> cod_dec C r = Inr v \<and> view C L d (key t) = Some v"
    if "(k, r) \<in> set kvs" for k r
  proof -
    from that st have get: "db_get L d k = Inr (Some r)" and pk: "prefix pre k" by auto
    from assms(2) get obtain v where v: "cod_dec C r = Inr v" by (auto simp: healthy_def)
    with get have vw: "view C L d k = Some v" by (simp add: view_def get_value_def)
    with pk assms(3) obtain t where "in_i64 t" "k = key t" by (auto simp: only_timed_def)
    with v vw show ?thesis by auto
  qed
  have "sorted_wrt (<) (map (\<lambda>kv. the (time_from_key (fst kv))) kvs)"
    using kv by (intro sorted_times [OF srt]) (force simp: key_time)
  then show srtd: "sorted_wrt (<) (map fst (timed_rows C L d pre))"
    by (simp add: rows comp_def split_def)
  show "set (timed_rows C L d pre) = {(t, v). in_i64 t \<and> view C L d (key t) = Some v}"
  proof (intro equalityI subsetI)
    fix row assume "row \<in> set (timed_rows C L d pre)"
    then obtain k r where "(k, r) \<in> set kvs" "row = ?row (k, r)" unfolding rows by auto
    with kv [of k r] show "row \<in> {(t, v). in_i64 t \<and> view C L d (key t) = Some v}"
      by (auto simp: key_time)
  next
    fix row assume "row \<in> {(t, v). in_i64 t \<and> view C L d (key t) = Some v}"
    then obtain t v where row: "row = (t, v)" "in_i64 t" "view C L d (key t) = Some v" by auto
    then obtain r where r: "db_get L d (key t) = Inr (Some r)" "cod_dec C r = Inr v"
      by (auto simp: view_def get_value_def res_bind_def split: sum.splits option.splits)
    then have "(key t, r) \<in> set kvs" using st key_prefix by auto
    then have "?row (key t, r) \<in> set (timed_rows C L d pre)" unfolding rows set_map by (rule imageI)
    then show "row \<in> set (timed_rows C L d pre)" by (simp add: row(1) r(2) key_time [OF row(2)])
  qed
  have "scan_items C start stop (map Inr kvs) =
      Some (Inr (map snd (filter (\<lambda>(t, v). start \<le> t \<and> t < stop) (map ?row kvs))))"
    using kv srtd unfolding rows by (intro scan_items_rows [OF _ refl]) (force simp: key_time)+
  then show "scan_series C L d pre start stop =
      Some (Inr (map snd (filter (\<lambda>(t, v). start \<le> t \<and> t < stop) (timed_rows C L d pre))))"
    by (simp add: scan_series_def iter rows)
  have "map (\<lambda>(k, r). (time_from_key k, cod_dec C r)) kvs = map (\<lambda>(t, v). (Some t, Inr v)) (map ?row kvs)"
    using kv by (force simp: key_time)
  with iter show "\<exists>kvs. db_prefix_iter L d pre = Inr (map Inr kvs) \<and>
      map (\<lambda>(k, r). (time_from_key k, cod_dec C r)) kvs = map (\<lambda>(t, v). (Some t, Inr v)) (timed_rows C L d pre)"
    unfolding rows by blast
qed

end

lemma write_txn_atomic:
  "write_txn E s body = (r, s') \<Longrightarrow> (\<exists>e. r = Inl e \<and> s' = s) \<or> (r = Inr () \<and> body s = Inr s')"
  by (auto simp: write_txn_def split: option.splits sum.splits)

end
