(* ===== verification/Market_Store.thy ===== *)
theory Market_Store imports Store_Engine Money_Bars begin

text \<open>
  The market store of \<open>qe-storage\<close> (\<open>store.rs\<close>, \<open>provenance.rs\<close>, \<open>coverage.rs\<close>, \<open>records.rs\<close> and
  the schema check of \<open>engine.rs\<close>): one LMDB environment with a database per record kind, written
  in single transactions and read by prefix scans over the order-preserving keys.
\<close>

section \<open>Records\<close>

record funding_rate_sample =
  fr_instrument :: instrument_id
  fr_time :: timestamp
  fr_rate :: decimal

record premium_sample =
  pm_instrument :: instrument_id
  pm_time :: timestamp
  pm_premium :: decimal

record open_interest_sample =
  oi_instrument :: instrument_id
  oi_time :: timestamp
  oi_open_interest :: decimal

record futures_metrics =
  fm_instrument :: instrument_id
  fm_time :: timestamp
  fm_long_short_ratio :: decimal
  fm_open_interest :: decimal
  fm_taker_buy_sell_ratio :: decimal

datatype provenance = Real | Synthetic | Unknown

fun provenance_str :: "provenance \<Rightarrow> string" where
  "provenance_str Real = ''real''"
| "provenance_str Synthetic = ''synthetic''"
| "provenance_str Unknown = ''unknown''"

datatype calibration = Calibrated | Uncalibrated

definition is_calibrated :: "calibration \<Rightarrow> bool" where
  "is_calibrated c \<longleftrightarrow> c = Calibrated"

record provenance_segment =
  seg_end_ms :: i64
  seg_provenance :: provenance
  seg_calibration :: calibration

datatype provenance_summary = EmptySummary | RealSummary | SyntheticSummary | MixedSummary | UnknownSummary

definition from_provenances :: "provenance list \<Rightarrow> provenance_summary" where
  "from_provenances items =
     (let (any, real, synthetic, unknown) =
        foldl (\<lambda>(any, real, synthetic, unknown) p.
          case p of Real \<Rightarrow> (True, True, synthetic, unknown)
          | Synthetic \<Rightarrow> (True, real, True, unknown)
          | Unknown \<Rightarrow> (True, real, synthetic, True)) (False, False, False, False) items
      in if \<not> any then EmptySummary
         else if real \<and> synthetic then MixedSummary
         else if real \<and> \<not> synthetic \<and> \<not> unknown then RealSummary
         else if \<not> real \<and> synthetic \<and> \<not> unknown then SyntheticSummary
         else if (real \<and> \<not> synthetic \<and> unknown) \<or> (\<not> real \<and> synthetic \<and> unknown) then MixedSummary
         else UnknownSummary)"

section \<open>The store\<close>

record 'd market_store =
  ms_bars :: 'd
  ms_funding :: 'd
  ms_premium :: 'd
  ms_open_interest :: 'd
  ms_futures :: 'd
  ms_provenance :: 'd
  ms_meta :: 'd

text \<open>The environment: the engine, the transactions, and the codec of each database.\<close>

record ('d, 'r) market_env =
  me_db :: "('d, 'r) lmdb"
  me_txn :: "'d market_store txn_env"
  me_bar :: "(bar, 'r) codec"
  me_funding :: "(funding_rate_sample, 'r) codec"
  me_premium :: "(premium_sample, 'r) codec"
  me_open_interest :: "(open_interest_sample, 'r) codec"
  me_futures :: "(futures_metrics, 'r) codec"
  me_segment :: "(provenance_segment, 'r) codec"
  me_text :: "(string, 'r) codec"

definition schema_version_number :: u32 where "schema_version_number = 1"

definition text_key :: "string \<Rightarrow> bytes" where "text_key s = map of_char s"

definition key_schema_version :: bytes where "key_schema_version = text_key ''schema_version''"

text \<open>\<open>str::parse::<u32>\<close>: an optional plus sign, at least one digit, and no overflow.\<close>

definition parse_u32 :: "string \<Rightarrow> u32 option" where
  "parse_u32 s =
     (let ds = (case s of [] \<Rightarrow> [] | c # cs \<Rightarrow> if c = CHR ''+'' then cs else s)
      in if ds = [] \<or> \<not> list_all is_ascii_digit ds then None
         else if parse_digits ds < u32_modulus then Some (parse_digits ds) else None)"

definition check_or_init_schema ::
  "('d, 'r) lmdb \<Rightarrow> (string, 'r) codec \<Rightarrow> u32 \<Rightarrow> 'd \<Rightarrow> (storage_error, 'd) result" where
  "check_or_init_schema L C expected meta =
     res_bind (get_value C L meta key_schema_version)
       (\<lambda>found. case found of
          Some txt \<Rightarrow>
            (case parse_u32 txt of
               None \<Rightarrow> Inl (SchemaCorrupt txt)
             | Some n \<Rightarrow> if n \<noteq> expected then Inl (SchemaMismatch expected n) else Inr meta)
        | None \<Rightarrow> put_value C L meta key_schema_version (show_nat expected))"

definition read_schema_version ::
  "('d, 'r) lmdb \<Rightarrow> (string, 'r) codec \<Rightarrow> 'd \<Rightarrow> (storage_error, u32) result" where
  "read_schema_version L C meta =
     res_bind (get_value C L meta key_schema_version)
       (\<lambda>found. case found of
          Some txt \<Rightarrow> (case parse_u32 txt of None \<Rightarrow> Inl (SchemaCorrupt txt) | Some n \<Rightarrow> Inr n)
        | None \<Rightarrow> Inl (SchemaCorrupt ''missing''))"

text \<open>The environment's databases exist once the transaction that creates them has begun: \<open>s\<close>.\<close>

definition store_open :: "('d, 'r) market_env \<Rightarrow> 'd market_store \<Rightarrow> (storage_error, unit) result \<times> 'd market_store" where
  "store_open M s = write_txn (me_txn M) s
     (\<lambda>s. res_bind (check_or_init_schema (me_db M) (me_text M) schema_version_number (ms_meta s))
        (\<lambda>d. Inr (s\<lparr>ms_meta := d\<rparr>)))"

definition schema_version :: "('d, 'r) market_env \<Rightarrow> 'd market_store \<Rightarrow> (storage_error, u32) result" where
  "schema_version M s = read_txn (me_txn M) s (\<lambda>s. read_schema_version (me_db M) (me_text M) (ms_meta s))"

section \<open>Bars\<close>

definition key_of_bar :: "instrument_id \<Rightarrow> bar \<Rightarrow> bytes" where
  "key_of_bar i b = bar_key i (bar_resolution b) (bar_open_time b)"

definition put_bars ::
  "('d, 'r) market_env \<Rightarrow> instrument_id \<Rightarrow> bar list \<Rightarrow> 'd market_store \<Rightarrow> (storage_error, unit) result \<times> 'd market_store" where
  "put_bars M i bars s = write_txn (me_txn M) s
     (\<lambda>s. res_bind (put_rows (me_bar M) (me_db M) (key_of_bar i) (ms_bars s) bars) (\<lambda>d. Inr (s\<lparr>ms_bars := d\<rparr>)))"

definition get_bar ::
  "('d, 'r) market_env \<Rightarrow> instrument_id \<Rightarrow> resolution \<Rightarrow> timestamp \<Rightarrow> 'd market_store \<Rightarrow> (storage_error, bar option) result" where
  "get_bar M i res t s = read_txn (me_txn M) s (\<lambda>s. get_value (me_bar M) (me_db M) (ms_bars s) (bar_key i res t))"

text \<open>A read that may panic: \<open>None\<close> is the panic, as in the scans below.\<close>

definition read_txn_opt :: "'s txn_env \<Rightarrow> 's \<Rightarrow> ('s \<Rightarrow> (storage_error, 'a) result option) \<Rightarrow> (storage_error, 'a) result option" where
  "read_txn_opt E s body = (case txn_read E s of Some e \<Rightarrow> Some (Inl e) | None \<Rightarrow> body s)"

definition scan_bars ::
  "('d, 'r) market_env \<Rightarrow> instrument_id \<Rightarrow> resolution \<Rightarrow> timestamp \<Rightarrow> timestamp \<Rightarrow> 'd market_store
     \<Rightarrow> (storage_error, bar list) result option" where
  "scan_bars M i res start stop s = read_txn_opt (me_txn M) s
     (\<lambda>s. scan_series (me_bar M) (me_db M) (ms_bars s) (bar_prefix i res) start stop)"

text \<open>
  A symbol's bytes as an id. Bytes that are not ASCII never make one: either they are not UTF-8 or
  \<open>InstrumentId::new\<close> refuses them.
\<close>

definition instrument_of_bytes :: "bytes \<Rightarrow> instrument_id option" where
  "instrument_of_bytes bs =
     (if \<exists>b \<in> set bs. 128 \<le> b then None
      else case instrument_new (map char_of bs) of Inl _ \<Rightarrow> None | Inr i \<Rightarrow> Some i)"

fun instruments_items :: "instrument_id list \<Rightarrow> 'r items \<Rightarrow> (storage_error, instrument_id list) result" where
  "instruments_items out [] = Inr out"
| "instruments_items out (Inl e # rest) = Inl e"
| "instruments_items out (Inr (k, _) # rest) =
     (case instrument_of_bytes (takeWhile (\<lambda>b. b \<noteq> 0) k) of
        None \<Rightarrow> instruments_items out rest
      | Some i \<Rightarrow> instruments_items (if last_opt out \<noteq> Some i then out @ [i] else out) rest)"

definition bar_instruments :: "('d, 'r) market_env \<Rightarrow> 'd market_store \<Rightarrow> (storage_error, instrument_id list) result" where
  "bar_instruments M s = read_txn (me_txn M) s
     (\<lambda>s. res_bind (db_iter (me_db M) (ms_bars s)) (instruments_items []))"

fun bounds_items ::
  "i64 option \<Rightarrow> i64 \<Rightarrow> usize \<Rightarrow> 'r items \<Rightarrow> (storage_error, (timestamp \<times> timestamp \<times> usize) option) result option" where
  "bounds_items first lst count [] = Some (Inr (map_option (\<lambda>f. (f, lst, count)) first))"
| "bounds_items first lst count (Inl e # rest) = Some (Inl e)"
| "bounds_items first lst count (Inr (k, _) # rest) =
     (case time_from_key k of
        None \<Rightarrow> None
      | Some t \<Rightarrow> bounds_items (if first = None then Some t else first) t (count + 1) rest)"

definition coverage_bounds ::
  "('d, 'r) market_env \<Rightarrow> instrument_id \<Rightarrow> resolution \<Rightarrow> 'd market_store
     \<Rightarrow> (storage_error, (timestamp \<times> timestamp \<times> usize) option) result option" where
  "coverage_bounds M i res s = read_txn_opt (me_txn M) s
     (\<lambda>s. case db_prefix_iter (me_db M) (ms_bars s) (bar_prefix i res) of
        Inl e \<Rightarrow> Some (Inl e) | Inr items \<Rightarrow> bounds_items None 0 0 items)"

fun count_items :: "i64 \<Rightarrow> i64 \<Rightarrow> usize \<Rightarrow> 'r items \<Rightarrow> (storage_error, usize) result option" where
  "count_items start stop count [] = Some (Inr count)"
| "count_items start stop count (Inl e # rest) = Some (Inl e)"
| "count_items start stop count (Inr (k, _) # rest) =
     (case time_from_key k of
        None \<Rightarrow> None
      | Some t \<Rightarrow> count_items start stop (if t \<ge> start \<and> t \<le> stop then count + 1 else count) rest)"

definition count_bars_in_range ::
  "('d, 'r) market_env \<Rightarrow> instrument_id \<Rightarrow> resolution \<Rightarrow> timestamp \<Rightarrow> timestamp \<Rightarrow> 'd market_store
     \<Rightarrow> (storage_error, usize) result option" where
  "count_bars_in_range M i res start stop s = read_txn_opt (me_txn M) s
     (\<lambda>s. case db_prefix_iter (me_db M) (ms_bars s) (bar_prefix i res) of
        Inl e \<Rightarrow> Some (Inl e) | Inr items \<Rightarrow> count_items start stop 0 items)"

section \<open>Provenance\<close>

text \<open>The segment of one resolution in a batch: nothing when the batch has no bar of it.\<close>

definition put_segment ::
  "('d, 'r) market_env \<Rightarrow> instrument_id \<Rightarrow> bar list \<Rightarrow> provenance \<Rightarrow> calibration \<Rightarrow> 'd \<Rightarrow> resolution
     \<Rightarrow> (storage_error, 'd) result" where
  "put_segment M i bars p c d res =
     (let times = map bar_open_time (filter (\<lambda>b. bar_resolution b = res) bars)
      in if times = [] then Inr d
         else put_value (me_segment M) (me_db M) d (bar_key i res (Min (set times)))
                \<lparr>seg_end_ms = Max (set times), seg_provenance = p, seg_calibration = c\<rparr>)"

definition put_bars_with_provenance ::
  "('d, 'r) market_env \<Rightarrow> instrument_id \<Rightarrow> bar list \<Rightarrow> provenance \<Rightarrow> calibration \<Rightarrow> 'd market_store
     \<Rightarrow> (storage_error, unit) result \<times> 'd market_store" where
  "put_bars_with_provenance M i bars p c s = write_txn (me_txn M) s
     (\<lambda>s. res_bind (put_rows (me_bar M) (me_db M) (key_of_bar i) (ms_bars s) bars)
        (\<lambda>db. res_bind (try_fold (put_segment M i bars p c) (ms_provenance s) resolution_all)
           (\<lambda>dp. Inr (s\<lparr>ms_bars := db, ms_provenance := dp\<rparr>))))"

fun segments_items ::
  "(provenance_segment, 'r) codec \<Rightarrow> (timestamp \<times> timestamp \<times> provenance \<times> calibration) list \<Rightarrow> 'r items
     \<Rightarrow> (storage_error, (timestamp \<times> timestamp \<times> provenance \<times> calibration) list) result option" where
  "segments_items C out [] = Some (Inr out)"
| "segments_items C out (Inl e # rest) = Some (Inl e)"
| "segments_items C out (Inr (k, raw) # rest) =
     (case cod_dec C raw of
        Inl e \<Rightarrow> Some (Inl e)
      | Inr seg \<Rightarrow>
          (case time_from_key k of
             None \<Rightarrow> None
           | Some t \<Rightarrow> segments_items C (out @ [(t, seg_end_ms seg, seg_provenance seg, seg_calibration seg)]) rest))"

definition provenance_segments ::
  "('d, 'r) market_env \<Rightarrow> instrument_id \<Rightarrow> resolution \<Rightarrow> 'd market_store
     \<Rightarrow> (storage_error, (timestamp \<times> timestamp \<times> provenance \<times> calibration) list) result option" where
  "provenance_segments M i res s = read_txn_opt (me_txn M) s
     (\<lambda>s. case db_prefix_iter (me_db M) (ms_provenance s) (bar_prefix i res) of
        Inl e \<Rightarrow> Some (Inl e) | Inr items \<Rightarrow> segments_items (me_segment M) [] items)"

definition bind_read :: "(storage_error, 'a) result option \<Rightarrow> ('a \<Rightarrow> (storage_error, 'b) result option) \<Rightarrow> (storage_error, 'b) result option" where
  "bind_read x f = (case x of None \<Rightarrow> None | Some (Inl e) \<Rightarrow> Some (Inl e) | Some (Inr a) \<Rightarrow> f a)"

lemma bind_read_Inr [simp]: "bind_read (Some (Inr a)) f = f a"
  by (simp add: bind_read_def)

fun collect_provenances ::
  "('d, 'r) market_env \<Rightarrow> resolution \<Rightarrow> 'd market_store \<Rightarrow> instrument_id list \<Rightarrow> (storage_error, provenance list) result option" where
  "collect_provenances M res s [] = Some (Inr [])"
| "collect_provenances M res s (i # is) =
     bind_read (provenance_segments M i res s) (\<lambda>segments.
       bind_read (if segments = []
                  then bind_read (coverage_bounds M i res s) (\<lambda>b. Some (Inr (if b \<noteq> None then [Unknown] else [])))
                  else Some (Inr (map (\<lambda>(_, _, p, _). p) segments)))
         (\<lambda>ps. bind_read (collect_provenances M res s is) (\<lambda>rest. Some (Inr (ps @ rest)))))"

definition store_provenance_summary ::
  "('d, 'r) market_env \<Rightarrow> instrument_id list \<Rightarrow> resolution \<Rightarrow> 'd market_store \<Rightarrow> (storage_error, provenance_summary) result option" where
  "store_provenance_summary M is res s =
     bind_read (collect_provenances M res s is) (\<lambda>ps. Some (Inr (from_provenances ps)))"

section \<open>Timed series\<close>

definition put_funding ::
  "('d, 'r) market_env \<Rightarrow> funding_rate_sample list \<Rightarrow> 'd market_store \<Rightarrow> (storage_error, unit) result \<times> 'd market_store" where
  "put_funding M xs s = write_txn (me_txn M) s
     (\<lambda>s. res_bind (put_rows (me_funding M) (me_db M) (\<lambda>x. series_key (fr_instrument x) (fr_time x)) (ms_funding s) xs)
        (\<lambda>d. Inr (s\<lparr>ms_funding := d\<rparr>)))"

definition get_funding ::
  "('d, 'r) market_env \<Rightarrow> instrument_id \<Rightarrow> timestamp \<Rightarrow> 'd market_store \<Rightarrow> (storage_error, funding_rate_sample option) result" where
  "get_funding M i t s = read_txn (me_txn M) s (\<lambda>s. get_value (me_funding M) (me_db M) (ms_funding s) (series_key i t))"

definition scan_funding ::
  "('d, 'r) market_env \<Rightarrow> instrument_id \<Rightarrow> timestamp \<Rightarrow> timestamp \<Rightarrow> 'd market_store
     \<Rightarrow> (storage_error, funding_rate_sample list) result option" where
  "scan_funding M i start stop s = read_txn_opt (me_txn M) s
     (\<lambda>s. scan_series (me_funding M) (me_db M) (ms_funding s) (series_prefix i) start stop)"

definition put_premium ::
  "('d, 'r) market_env \<Rightarrow> premium_sample list \<Rightarrow> 'd market_store \<Rightarrow> (storage_error, unit) result \<times> 'd market_store" where
  "put_premium M xs s = write_txn (me_txn M) s
     (\<lambda>s. res_bind (put_rows (me_premium M) (me_db M) (\<lambda>x. series_key (pm_instrument x) (pm_time x)) (ms_premium s) xs)
        (\<lambda>d. Inr (s\<lparr>ms_premium := d\<rparr>)))"

definition get_premium ::
  "('d, 'r) market_env \<Rightarrow> instrument_id \<Rightarrow> timestamp \<Rightarrow> 'd market_store \<Rightarrow> (storage_error, premium_sample option) result" where
  "get_premium M i t s = read_txn (me_txn M) s (\<lambda>s. get_value (me_premium M) (me_db M) (ms_premium s) (series_key i t))"

definition scan_premium ::
  "('d, 'r) market_env \<Rightarrow> instrument_id \<Rightarrow> timestamp \<Rightarrow> timestamp \<Rightarrow> 'd market_store
     \<Rightarrow> (storage_error, premium_sample list) result option" where
  "scan_premium M i start stop s = read_txn_opt (me_txn M) s
     (\<lambda>s. scan_series (me_premium M) (me_db M) (ms_premium s) (series_prefix i) start stop)"

definition put_open_interest ::
  "('d, 'r) market_env \<Rightarrow> open_interest_sample list \<Rightarrow> 'd market_store \<Rightarrow> (storage_error, unit) result \<times> 'd market_store" where
  "put_open_interest M xs s = write_txn (me_txn M) s
     (\<lambda>s. res_bind (put_rows (me_open_interest M) (me_db M) (\<lambda>x. series_key (oi_instrument x) (oi_time x)) (ms_open_interest s) xs)
        (\<lambda>d. Inr (s\<lparr>ms_open_interest := d\<rparr>)))"

definition get_open_interest ::
  "('d, 'r) market_env \<Rightarrow> instrument_id \<Rightarrow> timestamp \<Rightarrow> 'd market_store \<Rightarrow> (storage_error, open_interest_sample option) result" where
  "get_open_interest M i t s = read_txn (me_txn M) s
     (\<lambda>s. get_value (me_open_interest M) (me_db M) (ms_open_interest s) (series_key i t))"

definition scan_open_interest ::
  "('d, 'r) market_env \<Rightarrow> instrument_id \<Rightarrow> timestamp \<Rightarrow> timestamp \<Rightarrow> 'd market_store
     \<Rightarrow> (storage_error, open_interest_sample list) result option" where
  "scan_open_interest M i start stop s = read_txn_opt (me_txn M) s
     (\<lambda>s. scan_series (me_open_interest M) (me_db M) (ms_open_interest s) (series_prefix i) start stop)"

definition put_futures ::
  "('d, 'r) market_env \<Rightarrow> futures_metrics list \<Rightarrow> 'd market_store \<Rightarrow> (storage_error, unit) result \<times> 'd market_store" where
  "put_futures M xs s = write_txn (me_txn M) s
     (\<lambda>s. res_bind (put_rows (me_futures M) (me_db M) (\<lambda>x. series_key (fm_instrument x) (fm_time x)) (ms_futures s) xs)
        (\<lambda>d. Inr (s\<lparr>ms_futures := d\<rparr>)))"

definition get_futures ::
  "('d, 'r) market_env \<Rightarrow> instrument_id \<Rightarrow> timestamp \<Rightarrow> 'd market_store \<Rightarrow> (storage_error, futures_metrics option) result" where
  "get_futures M i t s = read_txn (me_txn M) s (\<lambda>s. get_value (me_futures M) (me_db M) (ms_futures s) (series_key i t))"

definition scan_futures ::
  "('d, 'r) market_env \<Rightarrow> instrument_id \<Rightarrow> timestamp \<Rightarrow> timestamp \<Rightarrow> 'd market_store
     \<Rightarrow> (storage_error, futures_metrics list) result option" where
  "scan_futures M i start stop s = read_txn_opt (me_txn M) s
     (\<lambda>s. scan_series (me_futures M) (me_db M) (ms_futures s) (series_prefix i) start stop)"

section \<open>The lineage ledger\<close>

definition lineage_prefix :: string where "lineage_prefix = ''lineage:''"

definition lineage_key :: "string \<Rightarrow> bytes" where
  "lineage_key lineage_id = text_key (lineage_prefix @ lineage_id)"

text \<open>Whether the id was new is read inside the write transaction; it is answered only on commit.\<close>

definition record_lineage ::
  "('d, 'r) market_env \<Rightarrow> string \<Rightarrow> 'd market_store \<Rightarrow> (storage_error, bool) result \<times> 'd market_store" where
  "record_lineage M lineage_id s =
     (case txn_write (me_txn M) s of
        Some e \<Rightarrow> (Inl e, s)
      | None \<Rightarrow>
          (case get_value (me_text M) (me_db M) (ms_meta s) (lineage_key lineage_id) of
             Inl e \<Rightarrow> (Inl e, s)
           | Inr found \<Rightarrow>
               let existed = found \<noteq> None
               in case (if existed then Inr (ms_meta s)
                        else put_value (me_text M) (me_db M) (ms_meta s) (lineage_key lineage_id) ''1'') of
                    Inl e \<Rightarrow> (Inl e, s)
                  | Inr d \<Rightarrow>
                      (case txn_commit (me_txn M) (s\<lparr>ms_meta := d\<rparr>) of
                         Some e \<Rightarrow> (Inl e, s)
                       | None \<Rightarrow> (Inr (\<not> existed), s\<lparr>ms_meta := d\<rparr>))))"

definition has_lineage :: "('d, 'r) market_env \<Rightarrow> string \<Rightarrow> 'd market_store \<Rightarrow> (storage_error, bool) result" where
  "has_lineage M lineage_id s = read_txn (me_txn M) s
     (\<lambda>s. res_bind (get_value (me_text M) (me_db M) (ms_meta s) (lineage_key lineage_id)) (\<lambda>found. Inr (found \<noteq> None)))"

fun lineage_items :: "(string, 'r) codec \<Rightarrow> 'r items \<Rightarrow> (storage_error, string list) result" where
  "lineage_items C [] = Inr []"
| "lineage_items C (Inl e # rest) = Inl e"
| "lineage_items C (Inr (k, raw) # rest) =
     res_bind (cod_dec C raw) (\<lambda>_. res_bind (lineage_items C rest)
       (\<lambda>ids. let key = map char_of k
              in Inr (if prefix lineage_prefix key then drop (length lineage_prefix) key # ids else ids)))"

definition lineages :: "('d, 'r) market_env \<Rightarrow> 'd market_store \<Rightarrow> (storage_error, string list) result" where
  "lineages M s = read_txn (me_txn M) s
     (\<lambda>s. res_bind (db_prefix_iter (me_db M) (ms_meta s) (text_key lineage_prefix)) (lineage_items (me_text M)))"

section \<open>Coverage\<close>

record coverage_row =
  cr_symbol :: string
  cr_resolution :: string
  cr_from :: i64
  cr_to :: i64
  cr_bars :: usize
  cr_provenance :: string
  cr_calibrated :: bool

fun segment_rows ::
  "('d, 'r) market_env \<Rightarrow> instrument_id \<Rightarrow> resolution \<Rightarrow> 'd market_store
     \<Rightarrow> (timestamp \<times> timestamp \<times> provenance \<times> calibration) list \<Rightarrow> (storage_error, coverage_row list) result option" where
  "segment_rows M i res s [] = Some (Inr [])"
| "segment_rows M i res s ((seg_from, seg_to, p, c) # segs) =
     bind_read (count_bars_in_range M i res seg_from seg_to s) (\<lambda>n.
       bind_read (segment_rows M i res s segs) (\<lambda>rows.
         Some (Inr (\<lparr>cr_symbol = instrument_str i, cr_resolution = resolution_str res, cr_from = seg_from,
           cr_to = seg_to, cr_bars = n, cr_provenance = provenance_str p, cr_calibrated = is_calibrated c\<rparr> # rows))))"

definition pair_rows ::
  "('d, 'r) market_env \<Rightarrow> 'd market_store \<Rightarrow> instrument_id \<times> resolution \<Rightarrow> (storage_error, coverage_row list) result option" where
  "pair_rows M s = (\<lambda>(i, res).
     bind_read (coverage_bounds M i res s) (\<lambda>bounds. case bounds of
         None \<Rightarrow> Some (Inr [])
       | Some (first, lst, n) \<Rightarrow>
           bind_read (provenance_segments M i res s) (\<lambda>segments.
             if segments = []
             then Some (Inr [\<lparr>cr_symbol = instrument_str i, cr_resolution = resolution_str res, cr_from = first,
               cr_to = lst, cr_bars = n, cr_provenance = provenance_str Unknown, cr_calibrated = False\<rparr>])
             else segment_rows M i res s segments)))"

fun all_rows ::
  "('d, 'r) market_env \<Rightarrow> 'd market_store \<Rightarrow> (instrument_id \<times> resolution) list \<Rightarrow> (storage_error, coverage_row list) result option" where
  "all_rows M s [] = Some (Inr [])"
| "all_rows M s (p # ps) = bind_read (pair_rows M s p)
     (\<lambda>rows. bind_read (all_rows M s ps) (\<lambda>rest. Some (Inr (rows @ rest))))"

definition coverage ::
  "('d, 'r) market_env \<Rightarrow> instrument_id list \<Rightarrow> 'd market_store \<Rightarrow> (storage_error, coverage_row list) result option" where
  "coverage M is s = all_rows M s (concat (map (\<lambda>i. map (Pair i) resolution_all) is))"

definition coverage_all :: "('d, 'r) market_env \<Rightarrow> 'd market_store \<Rightarrow> (storage_error, coverage_row list) result option" where
  "coverage_all M s = bind_read (Some (bar_instruments M s)) (\<lambda>is. coverage M is s)"

end
