(* ===== verification/Store_Facts.thy ===== *)
theory Store_Facts imports Market_Store "HOL-Library.Finite_Map" "HOL-Library.List_Lexorder" begin

text \<open>
  What the market store promises: the store as the corpus of bars written to it, single
  transactions, coverage counted from keys, provenance and the lineage ledger. \<open>market_ok\<close> is the
  engine's documented behaviour with read transactions that can be opened; writes may fail. The last section has an instance.
\<close>

section \<open>The engine's contract\<close>

definition market_ok :: "('d, 'r) market_env \<Rightarrow> bool" where
  "market_ok M \<longleftrightarrow> lmdb_laws (me_db M) \<and> codec_ok (me_bar M) \<and> codec_ok (me_segment M) \<and> codec_ok (me_text M) \<and>
     (\<forall>s. txn_read (me_txn M) s = None)"

lemma market_okD:
  assumes "market_ok M"
  shows "lmdb_laws (me_db M)" "codec_ok (me_bar M)" "codec_ok (me_segment M)" "codec_ok (me_text M)"
    "txn_read (me_txn M) s = None"
  using assms by (simp_all add: market_ok_def)

text \<open>An instance: finite maps for databases, values kept as they are, every transaction succeeding.\<close>

lemma bytes_less_lexord: "bytes_less xs ys \<longleftrightarrow> xs < ys"
  by (induction xs ys rule: bytes_less.induct) auto

definition fm_rows :: "(bytes, 'r) fmap \<Rightarrow> (bytes \<times> 'r) list" where
  "fm_rows d = map (\<lambda>k. (k, the (fmlookup d k))) (sorted_list_of_set (fset (fmdom d)))"

definition fm_lmdb :: "((bytes, 'r) fmap, 'r) lmdb" where
  "fm_lmdb = \<lparr>db_put = (\<lambda>d k v. Inr (fmupd k v d)), db_get = (\<lambda>d k. Inr (fmlookup d k)),
     db_iter = (\<lambda>d. Inr (map Inr (fm_rows d))),
     db_prefix_iter = (\<lambda>d p. Inr (map Inr (filter (\<lambda>kv. prefix p (fst kv)) (fm_rows d))))\<rparr>"

lemma fm_rows_facts:
  "sorted_wrt (\<lambda>x y. bytes_less (fst x) (fst y)) (fm_rows d)"
  "set (fm_rows d) = {(k, v). fmlookup d k = Some v}"
proof -
  have "sorted_wrt (<) (sorted_list_of_set (fset (fmdom d)))" by simp
  then show "sorted_wrt (\<lambda>x y. bytes_less (fst x) (fst y)) (fm_rows d)"
    by (simp add: fm_rows_def sorted_wrt_map bytes_less_lexord)
  show "set (fm_rows d) = {(k, v). fmlookup d k = Some v}"
    by (auto simp: fm_rows_def image_iff) (auto dest: fmdomI)
qed

lemma fm_iter: "\<exists>kvs. map Inr (fm_rows d) = map Inr kvs \<and>
    sorted_wrt (\<lambda>x y. bytes_less (fst x) (fst y)) kvs \<and> set kvs = {(k, v). fmlookup d k = Some v}"
  by (rule exI [of _ "fm_rows d"]) (simp add: fm_rows_facts)

lemma fm_prefix_iter: "\<exists>kvs. map Inr (filter (\<lambda>kv. prefix p (fst kv)) (fm_rows d)) = map Inr kvs \<and>
    sorted_wrt (\<lambda>x y. bytes_less (fst x) (fst y)) kvs \<and> set kvs = {(k, v). fmlookup d k = Some v \<and> prefix p k}"
  by (rule exI [of _ "filter (\<lambda>kv. prefix p (fst kv)) (fm_rows d)"])
    (auto simp: fm_rows_facts intro: sorted_wrt_filter)

lemma fm_lmdb_laws [simp]: "lmdb_laws fm_lmdb"
  unfolding lmdb_laws_def fm_lmdb_def lmdb.simps sum.inject
  by (intro conjI allI fm_iter fm_prefix_iter) auto

datatype raw_value = RawBar bar | RawSegment provenance_segment | RawText string

definition undecodable :: storage_error where "undecodable = Lmdb ''decode''"

definition fm_env :: "((bytes, raw_value) fmap, raw_value) market_env" where
  "fm_env = \<lparr>me_db = fm_lmdb,
     me_txn = \<lparr>txn_write = (\<lambda>s. None), txn_read = (\<lambda>s. None), txn_commit = (\<lambda>s. None)\<rparr>,
     me_bar = \<lparr>cod_enc = (\<lambda>v. Inr (RawBar v)), cod_dec = (\<lambda>r. case r of RawBar v \<Rightarrow> Inr v | _ \<Rightarrow> Inl undecodable)\<rparr>,
     me_funding = \<lparr>cod_enc = (\<lambda>v. Inl undecodable), cod_dec = (\<lambda>r. Inl undecodable)\<rparr>,
     me_premium = \<lparr>cod_enc = (\<lambda>v. Inl undecodable), cod_dec = (\<lambda>r. Inl undecodable)\<rparr>,
     me_open_interest = \<lparr>cod_enc = (\<lambda>v. Inl undecodable), cod_dec = (\<lambda>r. Inl undecodable)\<rparr>,
     me_futures = \<lparr>cod_enc = (\<lambda>v. Inl undecodable), cod_dec = (\<lambda>r. Inl undecodable)\<rparr>,
     me_segment = \<lparr>cod_enc = (\<lambda>v. Inr (RawSegment v)), cod_dec = (\<lambda>r. case r of RawSegment v \<Rightarrow> Inr v | _ \<Rightarrow> Inl undecodable)\<rparr>,
     me_text = \<lparr>cod_enc = (\<lambda>v. Inr (RawText v)), cod_dec = (\<lambda>r. case r of RawText v \<Rightarrow> Inr v | _ \<Rightarrow> Inl undecodable)\<rparr>\<rparr>"

lemma fm_env_ok [simp]: "market_ok fm_env"
  by (simp add: market_ok_def fm_env_def codec_ok_def)

definition fm_store :: "(bytes, raw_value) fmap market_store" where
  "fm_store = \<lparr>ms_bars = fmempty, ms_funding = fmempty, ms_premium = fmempty, ms_open_interest = fmempty,
     ms_futures = fmempty, ms_provenance = fmempty, ms_meta = fmempty\<rparr>"

lemma fm_env_empty [simp]: "empty_db (me_db fm_env) fmempty"
  by (simp add: fm_env_def fm_lmdb_def empty_db_def)

section \<open>The corpus\<close>

text \<open>Writes to the bars, and the map they add up to: a later bar at a key replaces an earlier one.\<close>

datatype bar_write = Untagged instrument_id "bar list" | Tagged instrument_id "bar list" provenance calibration

fun bar_write_step ::
  "('d, 'r) market_env \<Rightarrow> bar_write \<Rightarrow> 'd market_store \<Rightarrow> (storage_error, unit) result \<times> 'd market_store" where
  "bar_write_step M (Untagged i bars) s = put_bars M i bars s"
| "bar_write_step M (Tagged i bars p c) s = put_bars_with_provenance M i bars p c s"

fun bar_write_run ::
  "('d, 'r) market_env \<Rightarrow> bar_write list \<Rightarrow> 'd market_store \<Rightarrow> (storage_error, unit) result list \<times> 'd market_store" where
  "bar_write_run M [] s = ([], s)"
| "bar_write_run M (wr # wrs) s =
     (let (r, s1) = bar_write_step M wr s; (rs, s2) = bar_write_run M wrs s1 in (r # rs, s2))"

fun write_of :: "bar_write \<Rightarrow> instrument_id \<times> bar list" where
  "write_of (Untagged i bars) = (i, bars)"
| "write_of (Tagged i bars _ _) = (i, bars)"

type_synonym corpus_map = "instrument_id \<times> resolution \<times> i64 \<Rightarrow> bar option"

definition add_batch :: "corpus_map \<Rightarrow> instrument_id \<times> bar list \<Rightarrow> corpus_map" where
  "add_batch m ib = foldl (\<lambda>m b. m((fst ib, bar_resolution b, bar_open_time b) \<mapsto> b)) m (snd ib)"

fun corpus :: "corpus_map \<Rightarrow> bar_write list \<Rightarrow> (storage_error, unit) result list \<Rightarrow> corpus_map" where
  "corpus m (wr # wrs) (r # rs) = corpus (if r = Inr () then add_batch m (write_of wr) else m) wrs rs"
| "corpus m _ _ = m"

definition sane_write :: "bar_write \<Rightarrow> bool" where
  "sane_write wr \<longleftrightarrow> valid_instrument (fst (write_of wr)) \<and> (\<forall>b \<in> set (snd (write_of wr)). in_i64 (bar_open_time b))"

definition holds :: "(bytes \<Rightarrow> bar option) \<Rightarrow> corpus_map \<Rightarrow> bool" where
  "holds v m \<longleftrightarrow>
     (\<forall>i r t. valid_instrument i \<longrightarrow> in_i64 t \<longrightarrow> v (bar_key i r t) = m (i, r, t)) \<and>
     (\<forall>k b. v k = Some b \<longrightarrow> (\<exists>i. valid_instrument i \<and> in_i64 (bar_open_time b) \<and> k = key_of_bar i b))"

lemma holds_upd:
  assumes "holds v m" "valid_instrument i" "in_i64 (bar_open_time b)"
  shows "holds (v(key_of_bar i b \<mapsto> b)) (m((i, bar_resolution b, bar_open_time b) \<mapsto> b))"
  using assms by (auto simp: holds_def key_of_bar_def bar_key_inject)

lemma holds_batch:
  "holds v m \<Longrightarrow> valid_instrument i \<Longrightarrow> \<forall>b \<in> set bars. in_i64 (bar_open_time b) \<Longrightarrow>
     holds (foldl (\<lambda>m b. m(key_of_bar i b \<mapsto> b)) v bars) (add_batch m (i, bars))"
  unfolding add_batch_def fst_conv snd_conv
  by (induction bars arbitrary: v m) (simp_all add: holds_upd)

lemma bar_write_step_cases:
  assumes "market_ok M" "bar_write_step M wr s = (r, s')"
  shows "(\<exists>e. r = Inl e \<and> s' = s) \<or>
    (r = Inr () \<and> view (me_bar M) (me_db M) (ms_bars s') =
        foldl (\<lambda>m b. m(key_of_bar (fst (write_of wr)) b \<mapsto> b)) (view (me_bar M) (me_db M) (ms_bars s)) (snd (write_of wr)) \<and>
      (healthy (me_bar M) (me_db M) (ms_bars s) \<longrightarrow> healthy (me_bar M) (me_db M) (ms_bars s')))"
proof (cases wr)
  case (Untagged i bars)
  with write_txn_atomic [OF assms(2) [unfolded Untagged bar_write_step.simps put_bars_def]]
    put_rows_view [OF market_okD(1,2) [OF assms(1)], of "key_of_bar i" "ms_bars s" bars]
  show ?thesis by (auto simp: res_bind_Inr)
next
  case (Tagged i bars p c)
  with write_txn_atomic [OF assms(2) [unfolded Tagged bar_write_step.simps put_bars_with_provenance_def]]
    put_rows_view [OF market_okD(1,2) [OF assms(1)], of "key_of_bar i" "ms_bars s" bars]
  show ?thesis by (auto simp: res_bind_Inr)
qed

lemma bar_write_run_holds:
  assumes "market_ok M" "bar_write_run M wrs s = (rs, s')" "\<forall>wr \<in> set wrs. sane_write wr"
    and "holds (view (me_bar M) (me_db M) (ms_bars s)) m" "healthy (me_bar M) (me_db M) (ms_bars s)"
  shows "holds (view (me_bar M) (me_db M) (ms_bars s')) (corpus m wrs rs) \<and>
    healthy (me_bar M) (me_db M) (ms_bars s')"
  using assms(2-)
proof (induction wrs arbitrary: s m rs)
  case Nil
  then show ?case by simp
next
  case (Cons wr wrs)
  obtain r s1 where st: "bar_write_step M wr s = (r, s1)" by (cases "bar_write_step M wr s")
  obtain rs1 s2 where rn: "bar_write_run M wrs s1 = (rs1, s2)" by (cases "bar_write_run M wrs s1")
  from Cons.prems(1) st rn have out: "rs = r # rs1" "s' = s2" by auto
  have "holds (view (me_bar M) (me_db M) (ms_bars s1)) (if r = Inr () then add_batch m (write_of wr) else m) \<and>
      healthy (me_bar M) (me_db M) (ms_bars s1)"
    using bar_write_step_cases [OF assms(1) st] Cons.prems(2-)
      holds_batch [OF Cons.prems(3), of "fst (write_of wr)" "snd (write_of wr)"]
    by (auto simp: sane_write_def)
  with Cons.IH [OF rn [folded out(2)], of "if r = Inr () then add_batch m (write_of wr) else m"] Cons.prems(2)
  show ?case by (simp add: out)
qed

lemma holds_row:
  "holds v m \<Longrightarrow> v k = Some b \<Longrightarrow> \<exists>i. valid_instrument i \<and> in_i64 (bar_open_time b) \<and> k = key_of_bar i b"
  unfolding holds_def by blast

lemma holds_only_timed:
  assumes "holds v m" "valid_instrument i"
  shows "time_keyed.only_timed (bar_prefix i r) (bar_key i r) v"
  unfolding bar_rows.only_timed_def
proof (intro allI impI)
  fix k b assume "v k = Some b" "prefix (bar_prefix i r) k"
  with assms(1) obtain j where j: "valid_instrument j" "in_i64 (bar_open_time b)" "k = key_of_bar j b"
    by (blast dest: holds_row)
  with \<open>prefix (bar_prefix i r) k\<close> have "i = j" "r = bar_resolution b"
    by (simp_all add: key_of_bar_def bar_prefix_iff [OF assms(2)])
  with j show "\<exists>t. in_i64 t \<and> k = bar_key i r t" by (auto simp: key_of_bar_def)
qed

lemma holds_value:
  assumes "holds v m" "valid_instrument i" "in_i64 t" "v (bar_key i r t) = Some b"
  shows "bar_open_time b = t \<and> bar_resolution b = r"
proof -
  from assms(1,4) obtain j where "valid_instrument j" "in_i64 (bar_open_time b)" "bar_key i r t = key_of_bar j b"
    by (blast dest: holds_row)
  with assms show ?thesis by (auto simp: key_of_bar_def bar_key_inject)
qed

text \<open>Every entry of a corpus sits at its own bar's resolution and open time.\<close>

definition placed :: "corpus_map \<Rightarrow> bool" where
  "placed m \<longleftrightarrow> (\<forall>i r t x. m (i, r, t) = Some x \<longrightarrow> in_i64 t \<and> bar_resolution x = r \<and> bar_open_time x = t)"

lemma placed_upd: "placed m \<Longrightarrow> in_i64 (bar_open_time b) \<Longrightarrow> placed (m((i, bar_resolution b, bar_open_time b) \<mapsto> b))"
  by (simp add: placed_def)

lemma placed_batch: "placed m \<Longrightarrow> \<forall>b \<in> set (snd ib). in_i64 (bar_open_time b) \<Longrightarrow> placed (add_batch m ib)"
proof (cases ib)
  case (Pair i bars)
  show "placed m \<Longrightarrow> \<forall>b \<in> set (snd ib). in_i64 (bar_open_time b) \<Longrightarrow> placed (add_batch m ib)"
    unfolding Pair add_batch_def fst_conv snd_conv
    by (induction bars arbitrary: m) (simp_all add: placed_upd)
qed

lemma placed_corpus: "\<forall>wr \<in> set wrs. sane_write wr \<Longrightarrow> placed m \<Longrightarrow> placed (corpus m wrs rs)"
  by (induction m wrs rs rule: corpus.induct) (simp_all add: sane_write_def placed_batch)

lemma corpus_support:
  assumes "\<forall>wr \<in> set wrs. sane_write wr" "corpus Map.empty wrs rs (i, r, t) = Some x"
  shows "in_i64 t \<and> bar_resolution x = r \<and> bar_open_time x = t"
  using placed_corpus [OF assms(1), of Map.empty rs] assms(2) by (simp add: placed_def)

lemma strict_sorted_ends:
  "sorted_wrt (<) ts \<Longrightarrow> ts \<noteq> [] \<Longrightarrow> Min (set ts) = hd ts \<and> Max (set ts) = last ts \<and> card (set ts) = length ts"
  for ts :: "'a :: linorder list"
proof (induction ts)
  case Nil
  then show ?case by simp
next
  case (Cons t ts)
  show ?case
  proof (cases "ts = []")
    case False
    with Cons have ends: "Min (set ts) = hd ts" "Max (set ts) = last ts" "card (set ts) = length ts" by auto
    have below: "\<forall>u \<in> set ts. t < u" using Cons.prems by simp
    with False have "t < hd ts" "t < last ts" "t \<le> hd ts" "t \<le> last ts" "t \<notin> set ts" by (auto intro: less_imp_le)
    with False ends show ?thesis by (simp add: min_def max_def)
  qed simp
qed

section \<open>Scans and coverage\<close>

definition stored_rows :: "('d, 'r) market_env \<Rightarrow> 'd market_store \<Rightarrow> instrument_id \<Rightarrow> resolution \<Rightarrow> (i64 \<times> bar) list" where
  "stored_rows M s i r = timed_rows (me_bar M) (me_db M) (ms_bars s) (bar_prefix i r)"

lemma run_rows:
  assumes "market_ok M" "empty_db (me_db M) (ms_bars s0)" "bar_write_run M wrs s0 = (rs, s)"
    and "\<forall>wr \<in> set wrs. sane_write wr" "valid_instrument i"
  shows "sorted_wrt (<) (map fst (stored_rows M s i r))"
    and "set (stored_rows M s i r) = {(t, b). corpus Map.empty wrs rs (i, r, t) = Some b}"
    and "scan_bars M i r start stop s = Some (Inr (map snd (filter (\<lambda>(t, v). start \<le> t \<and> t < stop) (stored_rows M s i r))))"
    and "\<exists>kvs. db_prefix_iter (me_db M) (ms_bars s) (bar_prefix i r) = Inr (map Inr kvs) \<and>
      map (\<lambda>(k, r). (time_from_key k, cod_dec (me_bar M) r)) kvs = map (\<lambda>(t, v). (Some t, Inr v)) (stored_rows M s i r)"
    and "in_i64 t \<Longrightarrow> get_bar M i r t s = Inr (corpus Map.empty wrs rs (i, r, t))"
proof -
  have "holds (view (me_bar M) (me_db M) (ms_bars s0)) Map.empty"
    by (simp add: empty_view [OF assms(2)] holds_def)
  with bar_write_run_holds [OF assms(1,3,4) _ empty_healthy [OF assms(2)]]
  have h: "holds (view (me_bar M) (me_db M) (ms_bars s)) (corpus Map.empty wrs rs)"
    and ok: "healthy (me_bar M) (me_db M) (ms_bars s)" by auto
  note facts = bar_rows.timed_rows_facts [OF market_okD(1) [OF assms(1)] ok holds_only_timed [OF h assms(5)], of r,
      folded stored_rows_def]
  show "sorted_wrt (<) (map fst (stored_rows M s i r))" by (rule facts(1))
  have dom: "in_i64 t" if "corpus Map.empty wrs rs (i, r, t) = Some b" for t b
    using corpus_support [OF assms(4) that] by simp
  have at: "view (me_bar M) (me_db M) (ms_bars s) (bar_key i r t) = corpus Map.empty wrs rs (i, r, t)" if "in_i64 t" for t
    using h assms(5) that by (simp add: holds_def)
  show "set (stored_rows M s i r) = {(t, b). corpus Map.empty wrs rs (i, r, t) = Some b}"
    unfolding facts(2) using dom at by auto
  show "scan_bars M i r start stop s = Some (Inr (map snd (filter (\<lambda>(t, v). start \<le> t \<and> t < stop) (stored_rows M s i r))))"
    by (simp add: scan_bars_def read_txn_opt_def market_okD(5) [OF assms(1)] facts(3))
  show "\<exists>kvs. db_prefix_iter (me_db M) (ms_bars s) (bar_prefix i r) = Inr (map Inr kvs) \<and>
      map (\<lambda>(k, r). (time_from_key k, cod_dec (me_bar M) r)) kvs = map (\<lambda>(t, v). (Some t, Inr v)) (stored_rows M s i r)"
    by (rule facts(4))
  show "get_bar M i r t s = Inr (corpus Map.empty wrs rs (i, r, t))" if "in_i64 t"
    by (simp add: get_bar_def read_txn_def market_okD(5) [OF assms(1)]
        healthy_get [OF market_okD(1) [OF assms(1)] ok] at [OF that])
qed

text \<open>
  C19. The store is the corpus it was given. After any run of plain and tagged writes, some of
  which may have failed, a scan of one instrument and resolution over \<open>[start, stop)\<close> returns, in
  strictly increasing time and nothing else, exactly the bars in the span that a successful write
  put there and no later one replaced; bars of other instruments and resolutions never appear,
  and an exact read agrees.
\<close>

theorem scan_is_corpus_slice:
  assumes "market_ok M" "empty_db (me_db M) (ms_bars s0)" "bar_write_run M wrs s0 = (rs, s)"
    and "\<forall>wr \<in> set wrs. sane_write wr" "valid_instrument i"
  shows "\<exists>bars. scan_bars M i r start stop s = Some (Inr bars) \<and> sorted_wrt (<) (map bar_open_time bars) \<and>
     set bars = {b. start \<le> bar_open_time b \<and> bar_open_time b < stop \<and>
                    corpus Map.empty wrs rs (i, r, bar_open_time b) = Some b} \<and>
     (\<forall>t. in_i64 t \<longrightarrow> get_bar M i r t s = Inr (corpus Map.empty wrs rs (i, r, t)))"
proof -
  note rows = run_rows [OF assms, where r = r]
  let ?rows = "stored_rows M s i r"
  have open_t: "bar_open_time b = t" if "(t, b) \<in> set ?rows" for t b
    using that corpus_support [OF assms(4), of rs i r t b] rows(2) by auto
  have times: "map bar_open_time (map snd (filter P ?rows)) = map fst (filter P ?rows)" for P
    using open_t by auto
  have "sorted_wrt (<) (map fst (filter P ?rows))" for P
    using rows(1) by (simp add: sorted_wrt_map sorted_wrt_filter)
  then have srt: "sorted_wrt (<) (map bar_open_time (map snd (filter P ?rows)))" for P
    unfolding times .
  have "set (map snd (filter (\<lambda>(t, v). start \<le> t \<and> t < stop) ?rows)) =
      {b. start \<le> bar_open_time b \<and> bar_open_time b < stop \<and> corpus Map.empty wrs rs (i, r, bar_open_time b) = Some b}"
    (is "?L = ?R")
  proof (intro equalityI subsetI)
    fix b assume "b \<in> ?L"
    then obtain t where "(t, b) \<in> set ?rows" "start \<le> t" "t < stop" by auto
    with open_t rows(2) show "b \<in> ?R" by auto
  next
    fix b assume "b \<in> ?R"
    then have "(bar_open_time b, b) \<in> set (filter (\<lambda>(t, v). start \<le> t \<and> t < stop) ?rows)" using rows(2) by simp
    then have "snd (bar_open_time b, b) \<in> snd ` set (filter (\<lambda>(t, v). start \<le> t \<and> t < stop) ?rows)" by (rule imageI)
    then show "b \<in> ?L" unfolding set_map snd_conv .
  qed
  with rows(3) [of start stop] srt rows(5) show ?thesis by blast
qed

lemma bounds_items_times:
  "map (\<lambda>(k, r). (time_from_key k, f r)) kvs = map (\<lambda>(t, v). (Some t, Inr v)) rows \<Longrightarrow>
     bounds_items first lst n (map Inr kvs) =
       Some (Inr (if rows = [] then map_option (\<lambda>f. (f, lst, n)) first
                  else Some (case first of None \<Rightarrow> fst (hd rows) | Some f \<Rightarrow> f, fst (last rows), n + length rows)))"
proof (induction kvs arbitrary: first lst n rows)
  case Nil
  then show ?case by simp
next
  case (Cons kv kvs)
  then obtain t v rest where rows: "rows = (t, v) # rest" by (cases rows) auto
  obtain k r where kv: "kv = (k, r)" by (cases kv)
  with Cons.prems rows have k: "time_from_key k = Some t"
    and tl: "map (\<lambda>(k, r). (time_from_key k, f r)) kvs = map (\<lambda>(t, v). (Some t, Inr v)) rest" by auto
  show ?case
    by (cases first) (auto simp: kv k Cons.IH [OF tl] rows)
qed

text \<open>
  Coverage counted from keys alone is the coverage of the bars: the earliest and the latest
  open time of the corpus for that instrument and resolution and how many bars it has, or nothing
  when it has none. No value is decoded for it, and no key makes it panic.
\<close>

theorem coverage_bounds_correct:
  assumes "market_ok M" "empty_db (me_db M) (ms_bars s0)" "bar_write_run M wrs s0 = (rs, s)"
    and "\<forall>wr \<in> set wrs. sane_write wr" "valid_instrument i"
  shows "coverage_bounds M i r s =
     (let T = {t. corpus Map.empty wrs rs (i, r, t) \<noteq> None}
      in Some (Inr (if T = {} then None else Some (Min T, Max T, card T))))"
proof -
  note rows = run_rows [OF assms, where r = r]
  let ?rows = "stored_rows M s i r" and ?T = "{t. corpus Map.empty wrs rs (i, r, t) \<noteq> None}"
  obtain kvs where kvs: "db_prefix_iter (me_db M) (ms_bars s) (bar_prefix i r) = Inr (map Inr kvs)"
    and tm: "map (\<lambda>(k, r). (time_from_key k, cod_dec (me_bar M) r)) kvs = map (\<lambda>(t, v). (Some t, Inr v)) ?rows"
    using rows(4) by blast
  have T: "?T = set (map fst ?rows)"
    unfolding set_map rows(2) by force
  have "Min ?T = fst (hd ?rows) \<and> Max ?T = fst (last ?rows) \<and> card ?T = length ?rows" if "?rows \<noteq> []"
    unfolding T using strict_sorted_ends [OF rows(1)] that by (simp add: hd_map last_map del: set_map)
  then show ?thesis
    using T by (auto simp: coverage_bounds_def read_txn_opt_def market_okD(5) [OF assms(1)] kvs
        bounds_items_times [OF tm] Let_def)
qed

text \<open>Two bars an hour apart and a third batch that rewrites the first of them.\<close>

definition flat_bar :: "i64 \<Rightarrow> rat \<Rightarrow> bar" where
  "flat_bar t p = \<lparr>bar_open_time = t, bar_resolution = H1, bar_open = Price p, bar_high = Price p,
     bar_low = Price p, bar_close = Price p, bar_volume = Qty 1, bar_trades = 1\<rparr>"

definition eth :: instrument_id where "eth = InstrumentId ''ETHUSDT''"

definition real_batch :: "bar list" where "real_batch = [flat_bar 0 10, flat_bar 3600000 11]"

definition demo_writes :: "bar_write list" where
  "demo_writes = [Tagged eth real_batch Real Uncalibrated, Tagged eth [flat_bar 0 12] Synthetic Uncalibrated]"

lemma eth_valid [simp]: "valid_instrument eth"
  by (simp add: eth_def valid_instrument_def is_ascii_alphanumeric_def to_ascii_uppercase_def)

lemma demo_sane: "\<forall>wr \<in> set demo_writes. sane_write wr"
  by (simp add: demo_writes_def sane_write_def real_batch_def flat_bar_def in_i64_def)

lemma fm_write_txn: "write_txn (me_txn fm_env) s body = (case body s of Inl e \<Rightarrow> (Inl e, s) | Inr s' \<Rightarrow> (Inr (), s'))"
  by (simp add: write_txn_def fm_env_def split: sum.splits)

lemma fm_put_rows: "put_rows (me_bar fm_env) (me_db fm_env) key d bars = Inr (foldl (\<lambda>d b. fmupd (key b) (RawBar b) d) d bars)"
  unfolding put_rows_def
  by (induction bars arbitrary: d) (simp_all add: put_value_def fm_env_def fm_lmdb_def)

lemma fm_put_segments: "\<exists>d'. try_fold (put_segment fm_env i bars p c) d rs = Inr d'"
proof (induction rs arbitrary: d)
  case Nil
  then show ?case by simp
next
  case (Cons r rs)
  have "put_value (me_segment fm_env) (me_db fm_env) d k v = Inr (fmupd k (RawSegment v) d)" for k v
    by (simp add: put_value_def fm_env_def fm_lmdb_def)
  then have "\<exists>d1. put_segment fm_env i bars p c d r = Inr d1"
    by (simp add: put_segment_def Let_def)
  with Cons.IH show ?case by auto
qed

lemma fm_tagged: "\<exists>s'. put_bars_with_provenance fm_env i bars p c s = (Inr (), s')"
  using fm_put_segments [of i bars p c "ms_provenance s" resolution_all]
  by (auto simp: put_bars_with_provenance_def fm_write_txn fm_put_rows)

lemma demo_run: "\<exists>s. bar_write_run fm_env demo_writes fm_store = ([Inr (), Inr ()], s)"
proof -
  obtain s1 where s1: "put_bars_with_provenance fm_env eth real_batch Real Uncalibrated fm_store = (Inr (), s1)"
    using fm_tagged by blast
  obtain s2 where "put_bars_with_provenance fm_env eth [flat_bar 0 12] Synthetic Uncalibrated s1 = (Inr (), s2)"
    using fm_tagged by blast
  with s1 show ?thesis by (simp add: demo_writes_def)
qed

lemma demo_corpus:
  "corpus Map.empty demo_writes [Inr (), Inr ()] = [(eth, H1, 0) \<mapsto> flat_bar 0 12, (eth, H1, 3600000) \<mapsto> flat_bar 3600000 11]"
  by (auto simp: demo_writes_def add_batch_def real_batch_def flat_bar_def)

lemma fm_store_empty: "empty_db (me_db fm_env) (ms_bars fm_store)"
  by (simp add: fm_store_def)

theorem scan_is_corpus_slice_witness:
  "\<exists>s bars. bar_write_run fm_env demo_writes fm_store = ([Inr (), Inr ()], s) \<and>
     scan_bars fm_env eth H1 0 3600000 s = Some (Inr bars) \<and> set bars = {flat_bar 0 12}"
proof -
  obtain s where s: "bar_write_run fm_env demo_writes fm_store = ([Inr (), Inr ()], s)" using demo_run by blast
  obtain bars where "scan_bars fm_env eth H1 0 3600000 s = Some (Inr bars)"
    "set bars = {b. 0 \<le> bar_open_time b \<and> bar_open_time b < 3600000 \<and>
        corpus Map.empty demo_writes [Inr (), Inr ()] (eth, H1, bar_open_time b) = Some b}"
    using scan_is_corpus_slice [OF fm_env_ok fm_store_empty s demo_sane eth_valid, of H1 0 3600000] by blast
  moreover have "{b. 0 \<le> bar_open_time b \<and> bar_open_time b < 3600000 \<and>
      corpus Map.empty demo_writes [Inr (), Inr ()] (eth, H1, bar_open_time b) = Some b} = {flat_bar 0 12}"
    unfolding demo_corpus by (auto simp: flat_bar_def split: if_splits)
  ultimately show ?thesis using s by auto
qed

theorem coverage_bounds_correct_witness:
  "\<exists>s. bar_write_run fm_env demo_writes fm_store = ([Inr (), Inr ()], s) \<and>
     coverage_bounds fm_env eth H1 s = Some (Inr (Some (0, 3600000, 2)))"
proof -
  obtain s where s: "bar_write_run fm_env demo_writes fm_store = ([Inr (), Inr ()], s)" using demo_run by blast
  have T: "{t. corpus Map.empty demo_writes [Inr (), Inr ()] (eth, H1, t) \<noteq> None} = {0, 3600000}"
    unfolding demo_corpus by auto
  have "coverage_bounds fm_env eth H1 s = Some (Inr (Some (0, 3600000, 2)))"
    unfolding coverage_bounds_correct [OF fm_env_ok fm_store_empty s demo_sane eth_valid, of H1] T by simp
  with s show ?thesis by blast
qed

section \<open>Tagged writes\<close>

lemma put_segment_view:
  assumes "market_ok M" "put_segment M i bars p c d r = Inr d'"
  shows "view (me_segment M) (me_db M) d' =
    (let times = map bar_open_time (filter (\<lambda>b. bar_resolution b = r) bars)
     in if times = [] then view (me_segment M) (me_db M) d
        else (view (me_segment M) (me_db M) d)(bar_key i r (Min (set times)) \<mapsto>
               \<lparr>seg_end_ms = Max (set times), seg_provenance = p, seg_calibration = c\<rparr>))"
    and "healthy (me_segment M) (me_db M) d \<Longrightarrow> healthy (me_segment M) (me_db M) d'"
  using assms(2) put_value_view [OF market_okD(1,3) [OF assms(1)], of d _ _ d']
  by (auto simp: put_segment_def Let_def split: if_splits)

definition batch_times :: "bar list \<Rightarrow> resolution \<Rightarrow> i64 list" where
  "batch_times bars r = map bar_open_time (filter (\<lambda>b. bar_resolution b = r) bars)"

definition batch_segment :: "bar list \<Rightarrow> provenance \<Rightarrow> calibration \<Rightarrow> resolution \<Rightarrow> provenance_segment" where
  "batch_segment bars p c r = \<lparr>seg_end_ms = Max (set (batch_times bars r)), seg_provenance = p, seg_calibration = c\<rparr>"

definition add_segment ::
  "instrument_id \<Rightarrow> bar list \<Rightarrow> provenance \<Rightarrow> calibration \<Rightarrow> (bytes \<Rightarrow> provenance_segment option) \<Rightarrow> resolution
     \<Rightarrow> (bytes \<Rightarrow> provenance_segment option)" where
  "add_segment i bars p c m r =
     (if batch_times bars r = [] then m
      else m(bar_key i r (Min (set (batch_times bars r))) \<mapsto> batch_segment bars p c r))"

lemma put_segments_view:
  assumes "market_ok M" "try_fold (put_segment M i bars p c) d rs = Inr d'"
  shows "view (me_segment M) (me_db M) d' = foldl (add_segment i bars p c) (view (me_segment M) (me_db M) d) rs \<and>
    (healthy (me_segment M) (me_db M) d \<longrightarrow> healthy (me_segment M) (me_db M) d')"
  using assms(2)
proof (induction rs arbitrary: d)
  case Nil
  then show ?case by simp
next
  case (Cons r rs)
  then obtain d1 where d1: "put_segment M i bars p c d r = Inr d1"
    and rest: "try_fold (put_segment M i bars p c) d1 rs = Inr d'" by (auto split: sum.splits)
  have "view (me_segment M) (me_db M) d1 = add_segment i bars p c (view (me_segment M) (me_db M) d) r"
    using put_segment_view(1) [OF assms(1) d1] by (simp add: add_segment_def batch_segment_def batch_times_def Let_def)
  with Cons.IH [OF rest] put_segment_view(2) [OF assms(1) d1] show ?case by simp
qed

text \<open>A key of another resolution is left alone.\<close>

lemma add_segments_other:
  assumes "valid_instrument i" "\<forall>b \<in> set bars. in_i64 (bar_open_time b)" "in_i64 t" "r \<notin> set rs"
  shows "foldl (add_segment i bars p c) m rs (bar_key i r t) = m (bar_key i r t)"
  using assms(4)
proof (induction rs arbitrary: m)
  case Nil
  then show ?case by simp
next
  case (Cons q rs)
  have "in_i64 (Min (set (batch_times bars q)))" if "batch_times bars q \<noteq> []"
  proof -
    have "Min (set (batch_times bars q)) \<in> set (batch_times bars q)" using that by simp
    with assms(2) show ?thesis by (auto simp: batch_times_def)
  qed
  with Cons.prems assms(1,3) have "add_segment i bars p c m q (bar_key i r t) = m (bar_key i r t)"
    by (auto simp: add_segment_def bar_key_inject)
  with Cons show ?case by simp
qed

lemma add_segments_own:
  assumes "valid_instrument i" "\<forall>b \<in> set bars. in_i64 (bar_open_time b)" "distinct rs" "r \<in> set rs"
    and "batch_times bars r \<noteq> []"
  shows "foldl (add_segment i bars p c) m rs (bar_key i r (Min (set (batch_times bars r)))) = Some (batch_segment bars p c r)"
  using assms(3,4)
proof (induction rs arbitrary: m)
  case Nil
  then show ?case by simp
next
  case (Cons q rs)
  have "Min (set (batch_times bars r)) \<in> set (batch_times bars r)" using assms(5) by simp
  then have t: "in_i64 (Min (set (batch_times bars r)))" using assms(2) by (auto simp: batch_times_def)
  show ?case
  proof (cases "r = q")
    case True
    have "add_segment i bars p c m r (bar_key i r (Min (set (batch_times bars r)))) = Some (batch_segment bars p c r)"
      by (simp add: add_segment_def assms(5))
    moreover have "r \<notin> set rs" using True Cons.prems(1) by simp
    ultimately show ?thesis
      using add_segments_other [OF assms(1,2) t, of r rs p c "add_segment i bars p c m r"] True by simp
  next
    case False
    with Cons show ?thesis by simp
  qed
qed

lemma put_rows_present:
  "foldl (\<lambda>m b. m(k b \<mapsto> b)) m bars x = None \<Longrightarrow> m x = None \<and> (\<forall>b \<in> set bars. k b \<noteq> x)"
proof (induction bars arbitrary: m)
  case Nil
  then show ?case by simp
next
  case (Cons b bars)
  from Cons.IH [of "m(k b \<mapsto> b)"] Cons.prems show ?case by (auto split: if_splits)
qed

text \<open>
  A tagged write is all or nothing. It either fails and leaves the whole store as it was, or
  every bar of the batch is readable and lies inside a segment with the batch's provenance and
  calibration, found at the earliest open time of its resolution and reaching to the latest. So no
  bar is ever stored by it without its tag, whichever write, codec or commit fails.
\<close>

theorem tagged_write_is_atomic:
  assumes "market_ok M" "put_bars_with_provenance M i bars p c s = (res, s')"
    and "valid_instrument i" "\<forall>b \<in> set bars. in_i64 (bar_open_time b)"
  shows "(\<exists>e. res = Inl e \<and> s' = s) \<or>
    (res = Inr () \<and> (\<forall>b \<in> set bars.
       view (me_bar M) (me_db M) (ms_bars s') (key_of_bar i b) \<noteq> None \<and>
       (\<exists>start seg. view (me_segment M) (me_db M) (ms_provenance s') (bar_key i (bar_resolution b) start) = Some seg \<and>
          start \<le> bar_open_time b \<and> bar_open_time b \<le> seg_end_ms seg \<and>
          seg_provenance seg = p \<and> seg_calibration seg = c)))"
proof -
  let ?body = "\<lambda>s. res_bind (put_rows (me_bar M) (me_db M) (key_of_bar i) (ms_bars s) bars)
      (\<lambda>db. res_bind (try_fold (put_segment M i bars p c) (ms_provenance s) resolution_all)
         (\<lambda>dp. Inr (s\<lparr>ms_bars := db, ms_provenance := dp\<rparr>)))"
  from write_txn_atomic [OF assms(2) [unfolded put_bars_with_provenance_def]]
  consider (failed) e where "res = Inl e" "s' = s" | (committed) "res = Inr ()" "?body s = Inr s'" by blast
  then show ?thesis
  proof cases
    case committed
    then obtain db dp where db: "put_rows (me_bar M) (me_db M) (key_of_bar i) (ms_bars s) bars = Inr db"
      and dp: "try_fold (put_segment M i bars p c) (ms_provenance s) resolution_all = Inr dp"
      and s': "s' = s\<lparr>ms_bars := db, ms_provenance := dp\<rparr>" by (auto simp: res_bind_Inr)
    have "view (me_bar M) (me_db M) (ms_bars s') (key_of_bar i b) \<noteq> None" if "b \<in> set bars" for b
    proof
      assume "view (me_bar M) (me_db M) (ms_bars s') (key_of_bar i b) = None"
      then have "foldl (\<lambda>m b. m(key_of_bar i b \<mapsto> b)) (view (me_bar M) (me_db M) (ms_bars s)) bars (key_of_bar i b) = None"
        using put_rows_view [OF market_okD(1,2) [OF assms(1)] db] by (simp add: s')
      from put_rows_present [OF this] that show False by blast
    qed
    moreover have "\<exists>start seg. view (me_segment M) (me_db M) (ms_provenance s') (bar_key i (bar_resolution b) start) = Some seg \<and>
        start \<le> bar_open_time b \<and> bar_open_time b \<le> seg_end_ms seg \<and> seg_provenance seg = p \<and> seg_calibration seg = c"
      if "b \<in> set bars" for b
    proof -
      let ?r = "bar_resolution b"
      have in_t: "bar_open_time b \<in> set (batch_times bars ?r)" using that by (auto simp: batch_times_def)
      then have ne: "batch_times bars ?r \<noteq> []" by auto
      have "distinct resolution_all" "?r \<in> set resolution_all"
        by (simp_all add: resolution_all_def, cases ?r) simp_all
      from add_segments_own [OF assms(3,4) this ne] put_segments_view [OF assms(1) dp]
      have "view (me_segment M) (me_db M) (ms_provenance s') (bar_key i ?r (Min (set (batch_times bars ?r)))) =
          Some (batch_segment bars p c ?r)" by (simp add: s')
      with in_t show ?thesis by (intro exI conjI) (auto simp: batch_segment_def)
    qed
    ultimately show ?thesis using committed(1) by blast
  qed blast
qed

theorem tagged_write_is_atomic_witness:
  "\<exists>s'. put_bars_with_provenance fm_env eth real_batch Real Uncalibrated fm_store = (Inr (), s') \<and>
     (\<exists>start seg. view (me_segment fm_env) (me_db fm_env) (ms_provenance s') (bar_key eth H1 start) = Some seg \<and>
        start \<le> 3600000 \<and> 3600000 \<le> seg_end_ms seg \<and> seg_provenance seg = Real)"
proof -
  obtain s' where s': "put_bars_with_provenance fm_env eth real_batch Real Uncalibrated fm_store = (Inr (), s')"
    using fm_tagged by blast
  have "\<forall>b \<in> set real_batch. in_i64 (bar_open_time b)"
    by (simp add: real_batch_def flat_bar_def in_i64_def)
  from tagged_write_is_atomic [OF fm_env_ok s' eth_valid this] s' show ?thesis
    by (auto simp: real_batch_def flat_bar_def)
qed

section \<open>Provenance\<close>

lemma from_provenances_fold:
  "foldl (\<lambda>(any, real, synthetic, unknown) p.
      case p of Real \<Rightarrow> (True, True, synthetic, unknown) | Synthetic \<Rightarrow> (True, real, True, unknown)
      | Unknown \<Rightarrow> (True, real, synthetic, True)) (a, r, sy, u) ps =
   (a \<or> ps \<noteq> [], r \<or> Real \<in> set ps, sy \<or> Synthetic \<in> set ps, u \<or> Unknown \<in> set ps)"
proof (induction ps arbitrary: a r sy u)
  case Nil
  then show ?case by simp
next
  case (Cons p ps)
  then show ?case by (cases p) auto
qed

text \<open>
  The provenance verdict depends only on which origins occur. It is Real, Synthetic or Unknown
  exactly when segments exist and all have that one origin, Empty exactly when there are none, and
  Mixed for every combination of two or more: an unknown segment next to real ones already makes
  the whole Mixed, so nothing partly untagged reads as real.
\<close>

theorem provenance_verdict:
  "(from_provenances ps = EmptySummary \<longleftrightarrow> set ps = {}) \<and>
   (from_provenances ps = RealSummary \<longleftrightarrow> set ps = {Real}) \<and>
   (from_provenances ps = SyntheticSummary \<longleftrightarrow> set ps = {Synthetic}) \<and>
   (from_provenances ps = UnknownSummary \<longleftrightarrow> set ps = {Unknown}) \<and>
   (from_provenances ps = MixedSummary \<longleftrightarrow> 2 \<le> card (set ps))"
proof -
  define a b c where "a \<longleftrightarrow> Real \<in> set ps" and "b \<longleftrightarrow> Synthetic \<in> set ps" and "c \<longleftrightarrow> Unknown \<in> set ps"
  have S: "set ps = {x. x = Real \<and> a} \<union> {x. x = Synthetic \<and> b} \<union> {x. x = Unknown \<and> c}"
  proof (rule set_eqI)
    show "x \<in> set ps \<longleftrightarrow> x \<in> {x. x = Real \<and> a} \<union> {x. x = Synthetic \<and> b} \<union> {x. x = Unknown \<and> c}" for x
      by (cases x) (simp_all add: a_def b_def c_def)
  qed
  have ne: "ps \<noteq> [] \<longleftrightarrow> a \<or> b \<or> c"
    by (cases ps; cases "hd ps") (auto simp: a_def b_def c_def)
  show ?thesis
    unfolding from_provenances_def from_provenances_fold ne a_def [symmetric] b_def [symmetric] c_def [symmetric] S
      Let_def split
    by (cases a; cases b; cases c) (simp_all add: Collect_conv_if insert_commute)
qed

lemma segments_items_rows:
  "map (\<lambda>(k, r). (time_from_key k, cod_dec C r)) kvs = map (\<lambda>(t, v). (Some t, Inr v)) rows \<Longrightarrow>
     segments_items C out (map Inr kvs) =
       Some (Inr (out @ map (\<lambda>(t, seg). (t, seg_end_ms seg, seg_provenance seg, seg_calibration seg)) rows))"
proof (induction kvs arbitrary: out rows)
  case Nil
  then show ?case by simp
next
  case (Cons kv kvs)
  then obtain t v rest where rows: "rows = (t, v) # rest" by (cases rows) auto
  obtain k r where kv: "kv = (k, r)" by (cases kv)
  with Cons.prems rows have k: "time_from_key k = Some t" "cod_dec C r = Inr v"
    and tl: "map (\<lambda>(k, r). (time_from_key k, cod_dec C r)) kvs = map (\<lambda>(t, v). (Some t, Inr v)) rest" by auto
  show ?case by (simp add: kv k Cons.IH [OF tl] rows)
qed

text \<open>The one segment of an instrument whose index holds one key.\<close>

lemma single_segment:
  assumes "market_ok M" "healthy (me_segment M) (me_db M) (ms_provenance s)" "valid_instrument i" "in_i64 t"
    and "view (me_segment M) (me_db M) (ms_provenance s) = [bar_key i r t \<mapsto> seg]"
  shows "provenance_segments M i r s = Some (Inr [(t, seg_end_ms seg, seg_provenance seg, seg_calibration seg)])"
proof -
  let ?rows = "timed_rows (me_segment M) (me_db M) (ms_provenance s) (bar_prefix i r)"
  have "time_keyed.only_timed (bar_prefix i r) (bar_key i r) (view (me_segment M) (me_db M) (ms_provenance s))"
    using assms(4) by (auto simp: bar_rows.only_timed_def assms(5))
  note facts = bar_rows.timed_rows_facts [OF market_okD(1) [OF assms(1)] assms(2) this]
  have "set ?rows = {(t, seg)}"
    unfolding facts(2) assms(5) using assms(3,4) by (auto simp: bar_key_inject split: if_splits)
  moreover have "distinct ?rows" using facts(1) by (simp add: strict_sorted_iff distinct_map)
  ultimately have rows: "?rows = [(t, seg)]"
    using distinct_card [of ?rows] by (cases ?rows; cases "tl ?rows") auto
  from facts(4) rows show ?thesis
    by (auto simp: provenance_segments_def read_txn_opt_def market_okD(5) [OF assms(1)]
        segments_items_rows [where rows = "[(t, seg)]"] simp del: map_eq_Cons_conv)
qed

text \<open>
  A shorter rerun takes the tag off the bars of the longer one. A segment is kept under the
  earliest open time of its batch, so a second tagged batch that starts at the same time and ends
  earlier replaces the first segment whole: the bars past the second batch's end are still stored
  and no segment contains them any more. The summary then reports only the second origin; a store
  of real and synthetic bars reads as purely synthetic (or, the other way round, purely real).
\<close>

theorem shorter_rerun_drops_the_tag:
  assumes "market_ok M" "empty_db (me_db M) (ms_bars s0)" "empty_db (me_db M) (ms_provenance s0)"
    and "bar_write_run M [Tagged i longer p c, Tagged i shorter q c'] s0 = ([Inr (), Inr ()], s)"
    and "valid_instrument i" "\<forall>b \<in> set (longer @ shorter). in_i64 (bar_open_time b) \<and> bar_resolution b = r"
    and "longer \<noteq> []" "shorter \<noteq> []"
    and "Min (set (batch_times longer r)) = Min (set (batch_times shorter r))"
    and "b \<in> set longer" "Max (set (batch_times shorter r)) < bar_open_time b"
  shows "provenance_segments M i r s =
      Some (Inr [(Min (set (batch_times shorter r)), Max (set (batch_times shorter r)), q, c')]) \<and>
    store_provenance_summary M [i] r s = Some (Inr (from_provenances [q])) \<and>
    get_bar M i r (bar_open_time b) s \<noteq> Inr None"
proof -
  let ?v = "view (me_segment M) (me_db M)"
  obtain s1 where w1: "put_bars_with_provenance M i longer p c s0 = (Inr (), s1)"
    and w2: "put_bars_with_provenance M i shorter q c' s1 = (Inr (), s)"
    using assms(4) by (auto split: prod.splits)
  have step: "?v (ms_provenance t') = foldl (add_segment i bs o' k) (?v (ms_provenance t)) resolution_all \<and>
      (healthy (me_segment M) (me_db M) (ms_provenance t) \<longrightarrow> healthy (me_segment M) (me_db M) (ms_provenance t'))"
    if "put_bars_with_provenance M i bs o' k t = (Inr (), t')" for bs o' k t t'
    using write_txn_atomic [OF that [unfolded put_bars_with_provenance_def]] put_segments_view [OF assms(1), of i bs o' k]
    by (auto simp: res_bind_Inr)
  have one: "foldl (add_segment i bs o' k) m resolution_all = m(bar_key i r (Min (set (batch_times bs r))) \<mapsto> batch_segment bs o' k r)"
    if "\<forall>b \<in> set bs. bar_resolution b = r" "bs \<noteq> []" for bs o' k m
  proof -
    have "batch_times bs x = (if x = r then map bar_open_time bs else [])" for x
      using that(1) by (auto simp: batch_times_def filter_empty_conv)
    then show ?thesis using that(2) by (cases r) (simp_all add: resolution_all_def add_segment_def)
  qed
  have v: "?v (ms_provenance s) = [bar_key i r (Min (set (batch_times shorter r))) \<mapsto> batch_segment shorter q c' r]"
    using step [OF w1] step [OF w2] one [of longer] one [of shorter] assms(6-9) by (simp add: empty_view [OF assms(3)])
  have ok: "healthy (me_segment M) (me_db M) (ms_provenance s)"
    using step [OF w1] step [OF w2] empty_healthy [OF assms(3)] by blast
  have "batch_times shorter r \<noteq> []" using assms(6,8) by (cases shorter) (auto simp: batch_times_def)
  then have "Min (set (batch_times shorter r)) \<in> set (batch_times shorter r)" by simp
  then have t: "in_i64 (Min (set (batch_times shorter r)))" using assms(6) by (auto simp: batch_times_def)
  from single_segment [OF assms(1) ok assms(5) t v]
  have segs: "provenance_segments M i r s = Some (Inr [(Min (set (batch_times shorter r)), Max (set (batch_times shorter r)), q, c')])"
    by (simp add: batch_segment_def)
  moreover have "store_provenance_summary M [i] r s = Some (Inr (from_provenances [q]))"
    by (simp add: store_provenance_summary_def segs)
  moreover have "get_bar M i r (bar_open_time b) s \<noteq> Inr None"
  proof -
    let ?ws = "[Tagged i longer p c, Tagged i shorter q c']"
    have sane: "\<forall>wr \<in> set ?ws. sane_write wr" using assms(5,6) by (auto simp: sane_write_def)
    have "foldl (\<lambda>m b. m((i, bar_resolution b, bar_open_time b) \<mapsto> b)) Map.empty (longer @ shorter) (i, r, bar_open_time b) \<noteq> None"
      using put_rows_present [of "\<lambda>b. (i, bar_resolution b, bar_open_time b)" Map.empty "longer @ shorter" "(i, r, bar_open_time b)"]
        assms(6,10) by auto
    then have "corpus Map.empty ?ws [Inr (), Inr ()] (i, r, bar_open_time b) \<noteq> None"
      by (simp add: add_batch_def)
    moreover have "in_i64 (bar_open_time b)" using assms(6,10) by simp
    ultimately show ?thesis
      using run_rows(5) [OF assms(1,2,4) sane assms(5), of "bar_open_time b" r] by simp
  qed
  ultimately show ?thesis by blast
qed

theorem shorter_rerun_drops_the_tag_witness:
  "\<exists>s. bar_write_run fm_env demo_writes fm_store = ([Inr (), Inr ()], s) \<and>
     store_provenance_summary fm_env [eth] H1 s = Some (Inr SyntheticSummary) \<and>
     get_bar fm_env eth H1 3600000 s \<noteq> Inr None"
proof -
  obtain s where s: "bar_write_run fm_env demo_writes fm_store = ([Inr (), Inr ()], s)" using demo_run by blast
  have e: "empty_db (me_db fm_env) (ms_provenance fm_store)" by (simp add: fm_store_def)
  have "from_provenances [Synthetic] = SyntheticSummary" by (simp add: from_provenances_def)
  moreover from shorter_rerun_drops_the_tag [OF fm_env_ok fm_store_empty e s [unfolded demo_writes_def] eth_valid,
      of H1 "flat_bar 3600000 11"]
  have "store_provenance_summary fm_env [eth] H1 s = Some (Inr (from_provenances [Synthetic])) \<and>
      get_bar fm_env eth H1 3600000 s \<noteq> Inr None"
    by (simp add: real_batch_def flat_bar_def batch_times_def in_i64_def)
  ultimately show ?thesis using s by auto
qed

section \<open>The ledger and the schema record\<close>

lemma text_key_inject [simp]: "text_key a = text_key b \<longleftrightarrow> a = b"
proof
  assume "text_key a = text_key b"
  then have "map char_of (text_key a) = (map char_of (text_key b) :: string)" by simp
  then show "a = b" by (simp add: text_key_def comp_def)
qed simp

lemma lineage_key_inject [simp]: "lineage_key a = lineage_key b \<longleftrightarrow> a = b"
  by (simp add: lineage_key_def)

lemma lineage_key_not_schema [simp]: "lineage_key a \<noteq> key_schema_version" "key_schema_version \<noteq> lineage_key a"
  by (simp_all add: lineage_key_def key_schema_version_def lineage_prefix_def)

abbreviation meta_view :: "('d, 'r) market_env \<Rightarrow> 'd market_store \<Rightarrow> bytes \<Rightarrow> string option" where
  "meta_view M s \<equiv> view (me_text M) (me_db M) (ms_meta s)"

abbreviation meta_ok :: "('d, 'r) market_env \<Rightarrow> 'd market_store \<Rightarrow> bool" where
  "meta_ok M s \<equiv> healthy (me_text M) (me_db M) (ms_meta s)"

lemma has_lineage_view:
  "market_ok M \<Longrightarrow> meta_ok M s \<Longrightarrow> has_lineage M a s = Inr (meta_view M s (lineage_key a) \<noteq> None)"
  by (simp add: has_lineage_def read_txn_def market_okD healthy_get)

lemma record_lineage_view:
  assumes "market_ok M" "meta_ok M s" "record_lineage M a s = (Inr new, s')"
  shows "new \<longleftrightarrow> meta_view M s (lineage_key a) = None" "meta_ok M s'"
    "meta_view M s' = (if new then (meta_view M s)(lineage_key a \<mapsto> ''1'') else meta_view M s)"
    "s' = s\<lparr>ms_meta := ms_meta s'\<rparr>"
proof -
  let ?old = "meta_view M s (lineage_key a)"
  from assms(3) obtain d where d: "(if ?old \<noteq> None then Inr (ms_meta s)
      else put_value (me_text M) (me_db M) (ms_meta s) (lineage_key a) ''1'') = Inr d"
    and out: "new = (?old = None)" "s' = s\<lparr>ms_meta := d\<rparr>"
    by (auto simp: record_lineage_def healthy_get [OF market_okD(1) [OF assms(1)] assms(2)] Let_def
        split: option.splits sum.splits if_splits)
  show "new \<longleftrightarrow> ?old = None" by (rule out(1))
  show "s' = s\<lparr>ms_meta := ms_meta s'\<rparr>" by (simp add: out(2))
  have "meta_ok M s' \<and> meta_view M s' = (if new then (meta_view M s)(lineage_key a \<mapsto> ''1'') else meta_view M s)"
    using d put_value_view [OF market_okD(1,4) [OF assms(1)], of "ms_meta s" "lineage_key a" "''1''" d] assms(2) out
    by (auto split: if_splits)
  then show "meta_ok M s'" "meta_view M s' = (if new then (meta_view M s)(lineage_key a \<mapsto> ''1'') else meta_view M s)"
    by auto
qed

text \<open>
  A vintage is persisted once. Recording a lineage answers true exactly when the ledger did not
  have it; after it the ledger has it, every other lineage is as it was, and recording it again, if
  the transaction commits, answers false and changes nothing that can be read. The ledger shares
  its database with the schema version and never touches it.
\<close>

theorem lineage_recorded_once:
  assumes "market_ok M" "healthy (me_text M) (me_db M) (ms_meta s)" "record_lineage M a s = (Inr new, s')"
  shows "has_lineage M a s = Inr (\<not> new) \<and> has_lineage M a s' = Inr True \<and>
    (\<forall>b. b \<noteq> a \<longrightarrow> has_lineage M b s' = has_lineage M b s) \<and> schema_version M s' = schema_version M s \<and>
    (\<forall>again s''. record_lineage M a s' = (Inr again, s'') \<longrightarrow>
       again = False \<and> (\<forall>b. has_lineage M b s'' = has_lineage M b s'))"
proof -
  note rec = record_lineage_view [OF assms]
  have version: "schema_version M t = (case meta_view M t key_schema_version of
      Some txt \<Rightarrow> (case parse_u32 txt of None \<Rightarrow> Inl (SchemaCorrupt txt) | Some n \<Rightarrow> Inr n)
    | None \<Rightarrow> Inl (SchemaCorrupt ''missing''))" if "meta_ok M t" for t
    by (simp add: schema_version_def read_txn_def market_okD [OF assms(1)] read_schema_version_def
        healthy_get [OF market_okD(1) [OF assms(1)] that])
  have again: "again = False \<and> (\<forall>b. has_lineage M b s'' = has_lineage M b s')"
    if "record_lineage M a s' = (Inr again, s'')" for again s''
    using record_lineage_view [OF assms(1) rec(2) that] rec(1,3)
    by (auto simp: has_lineage_view [OF assms(1)] rec(2) split: if_splits)
  show ?thesis
    using rec(1,3) again
    by (auto simp: has_lineage_view [OF assms(1) assms(2)] has_lineage_view [OF assms(1) rec(2)]
        version [OF assms(2)] version [OF rec(2)] split: if_splits)
qed

lemma fm_record: "\<exists>s'. record_lineage fm_env ''vt-1'' fm_store = (Inr True, s')"
  by (simp add: record_lineage_def fm_env_def fm_lmdb_def get_value_def put_value_def fm_store_def Let_def)

theorem lineage_recorded_once_witness:
  "\<exists>s'. record_lineage fm_env ''vt-1'' fm_store = (Inr True, s') \<and> has_lineage fm_env ''vt-1'' s' = Inr True \<and>
     has_lineage fm_env ''vt-2'' s' = has_lineage fm_env ''vt-2'' fm_store"
proof -
  obtain s' where s': "record_lineage fm_env ''vt-1'' fm_store = (Inr True, s')" using fm_record by blast
  have "healthy (me_text fm_env) (me_db fm_env) (ms_meta fm_store)"
    by (rule empty_healthy) (simp add: fm_store_def)
  from lineage_recorded_once [OF fm_env_ok this s'] s' show ?thesis by auto
qed

lemma parse_u32_show [simp]: "n < u32_modulus \<Longrightarrow> parse_u32 (show_nat n) = Some n"
proof -
  assume n: "n < u32_modulus"
  obtain c cs where ds: "show_nat n = c # cs" by (cases "show_nat n") auto
  then have "is_ascii_digit c" using show_nat_digits [of c n] by simp
  then have "c \<noteq> CHR ''+''" by (auto simp: is_ascii_digit_def)
  moreover have "list_all is_ascii_digit (show_nat n)" by (auto simp: list_all_iff dest: show_nat_digits)
  ultimately show ?thesis using n parse_show_nat [of n] by (simp add: parse_u32_def ds Let_def)
qed

text \<open>
  A store is only ever used under its own schema. Opening succeeds exactly for a store without
  a version, which it then records, and for one whose record is this build's; afterwards the
  version reads as this build's and a second open changes nothing readable. A store recorded under
  another version, or with an unreadable record, is refused and left untouched.
\<close>

theorem schema_guard:
  assumes "market_ok M" "healthy (me_text M) (me_db M) (ms_meta s)" "store_open M s = (r, s')"
  shows "(r = Inr () \<longrightarrow> schema_version M s' = Inr schema_version_number \<and>
            (\<forall>a. has_lineage M a s' = has_lineage M a s) \<and> ms_bars s' = ms_bars s) \<and>
    (\<forall>n. schema_version M s = Inr n \<longrightarrow> n \<noteq> schema_version_number \<longrightarrow> (\<exists>e. r = Inl e) \<and> s' = s) \<and>
    (\<forall>t. schema_version M s = Inl (SchemaCorrupt t) \<longrightarrow> t \<noteq> ''missing'' \<longrightarrow> (\<exists>e. r = Inl e) \<and> s' = s)"
proof -
  have get: "get_value (me_text M) (me_db M) (ms_meta t) k = Inr (meta_view M t k)" if "meta_ok M t" for t k
    by (rule healthy_get [OF market_okD(1) [OF assms(1)] that])
  note simps = store_open_def check_or_init_schema_def schema_version_def read_txn_def read_schema_version_def
    market_okD [OF assms(1)]
  let ?body = "\<lambda>s. res_bind (check_or_init_schema (me_db M) (me_text M) schema_version_number (ms_meta s))
      (\<lambda>d. Inr (s\<lparr>ms_meta := d\<rparr>))"
  have atom: "(\<exists>e. r = Inl e \<and> s' = s) \<or> (r = Inr () \<and> ?body s = Inr s')"
    by (rule write_txn_atomic [OF assms(3) [unfolded store_open_def]])
  have body: "(\<exists>n. meta_view M s key_schema_version = Some n \<and> parse_u32 n = Some schema_version_number \<and> s' = s) \<or>
      (meta_view M s key_schema_version = None \<and> meta_ok M s' \<and> ms_bars s' = ms_bars s \<and>
       meta_view M s' = (meta_view M s)(key_schema_version \<mapsto> show_nat schema_version_number))"
    if b: "?body s = Inr s'"
  proof (cases "meta_view M s key_schema_version")
    case None
    with b get [OF assms(2)] obtain d where
      "put_value (me_text M) (me_db M) (ms_meta s) key_schema_version (show_nat schema_version_number) = Inr d"
      "s' = s\<lparr>ms_meta := d\<rparr>"
      by (auto simp: check_or_init_schema_def res_bind_Inr)
    with put_value_view [OF market_okD(1,4) [OF assms(1)], of "ms_meta s" key_schema_version _ d] assms(2) None
    show ?thesis by auto
  next
    case (Some n)
    with b get [OF assms(2)] show ?thesis
      by (auto simp: check_or_init_schema_def res_bind_Inr split: option.splits if_splits)
  qed
  have version: "schema_version M t = (case meta_view M t key_schema_version of
      Some txt \<Rightarrow> (case parse_u32 txt of None \<Rightarrow> Inl (SchemaCorrupt txt) | Some n \<Rightarrow> Inr n)
    | None \<Rightarrow> Inl (SchemaCorrupt ''missing''))" if "meta_ok M t" for t
    by (simp add: simps get [OF that])
  have small: "schema_version_number < u32_modulus" by (simp add: schema_version_number_def)
  from atom body show ?thesis
    using small
    by (auto simp: version assms(2) has_lineage_view [OF assms(1)] split: option.splits)
qed

theorem schema_guard_witness:
  "\<exists>s'. store_open fm_env fm_store = (Inr (), s') \<and> schema_version fm_env s' = Inr schema_version_number"
proof -
  have ok: "healthy (me_text fm_env) (me_db fm_env) (ms_meta fm_store)"
    by (rule empty_healthy) (simp add: fm_store_def)
  have "\<exists>s'. store_open fm_env fm_store = (Inr (), s')"
    by (simp add: store_open_def fm_write_txn check_or_init_schema_def)
      (simp add: fm_env_def fm_lmdb_def get_value_def put_value_def fm_store_def)
  then obtain s' where s': "store_open fm_env fm_store = (Inr (), s')" by blast
  from schema_guard [OF fm_env_ok ok s'] s' show ?thesis by blast
qed

end
