(* ===== verification/Artefact_Fs.thy ===== *)
theory Artefact_Fs imports Prelude Byte_Codec "HOL-Library.AList" begin

text \<open>
  What the sealed artefacts of the engine share: the file system they are kept in (the standard
  library's calls the source makes, each of which may fail), the hex rendering of a digest, and
  the seal/verify/load discipline as a locale. A path is a directory and a file name; identifiers
  are taken to hold no path separator.
\<close>

section \<open>Files\<close>

type_synonym path = "string \<times> string"

text \<open>
  \<open>NotFound\<close> is the one kind the source tells apart. A failing write leaves the first \<open>n\<close> bytes
  in the file that was truncated before it.
\<close>

datatype io_error = NotFound | OtherIo string

record fs =
  fs_files :: "(path \<times> bytes) list"
  fs_open_fault :: "path \<Rightarrow> io_error option"
  fs_create_fault :: "path \<Rightarrow> io_error option"
  fs_write_fault :: "path \<Rightarrow> (io_error \<times> nat) option"
  fs_dir_fault :: "string \<Rightarrow> io_error option"

definition fs_read :: "fs \<Rightarrow> path \<Rightarrow> (io_error, bytes) result" where
  "fs_read f p =
     (case fs_open_fault f p of
        Some e \<Rightarrow> Inl e
      | None \<Rightarrow> (case map_of (fs_files f) p of None \<Rightarrow> Inl NotFound | Some b \<Rightarrow> Inr b))"

text \<open>\<open>File::create\<close> then \<open>write_all\<close>: create or truncate, then append the bytes.\<close>

definition fs_put :: "fs \<Rightarrow> path \<Rightarrow> bytes \<Rightarrow> fs" where
  "fs_put f p b = f\<lparr>fs_files := AList.update p b (fs_files f)\<rparr>"

definition fs_create :: "fs \<Rightarrow> path \<Rightarrow> (io_error, unit) result \<times> fs" where
  "fs_create f p = (case fs_create_fault f p of Some e \<Rightarrow> (Inl e, f) | None \<Rightarrow> (Inr (), fs_put f p []))"

definition fs_write_all :: "fs \<Rightarrow> path \<Rightarrow> bytes \<Rightarrow> (io_error, unit) result \<times> fs" where
  "fs_write_all f p b =
     (case fs_write_fault f p of
        Some (e, n) \<Rightarrow> (Inl e, fs_put f p (take n b))
      | None \<Rightarrow> (Inr (), fs_put f p b))"

definition fs_create_dir_all :: "fs \<Rightarrow> string \<Rightarrow> (io_error, unit) result" where
  "fs_create_dir_all f d = (case fs_dir_fault f d of Some e \<Rightarrow> Inl e | None \<Rightarrow> Inr ())"

text \<open>The directory's entries, in the order the file system has them. A directory with no file reads as missing.\<close>

definition fs_read_dir :: "fs \<Rightarrow> string \<Rightarrow> (io_error, path list) result" where
  "fs_read_dir f d =
     (case fs_dir_fault f d of
        Some e \<Rightarrow> Inl e
      | None \<Rightarrow> (case filter (\<lambda>p. fst p = d) (map fst (fs_files f)) of [] \<Rightarrow> Inl NotFound | ps \<Rightarrow> Inr ps))"

text \<open>\<open>Path::extension\<close>: what follows the last dot, if something precedes it.\<close>

definition file_extension :: "string \<Rightarrow> string option" where
  "file_extension name =
     (let tl = takeWhile (\<lambda>c. c \<noteq> CHR ''.'') (rev name); stem = drop (Suc (length tl)) (rev name)
      in if CHR ''.'' \<notin> set name \<or> stem = [] then None else Some (rev tl))"

definition json_name :: "string \<Rightarrow> string" where
  "json_name ident = ident @ ''.json''"

lemma json_name_inject [simp]: "json_name a = json_name b \<longleftrightarrow> a = b"
  by (simp add: json_name_def)

lemma json_extension: "ident \<noteq> [] \<Longrightarrow> file_extension (json_name ident) = Some ''json''"
  by (simp add: file_extension_def json_name_def Let_def)

lemma fs_put_read [simp]:
  "map_of (fs_files (fs_put f p b)) q = (if q = p then Some b else map_of (fs_files f) q)"
  by (simp add: fs_put_def update_conv')

section \<open>Digests\<close>

definition hex_digit :: "nat \<Rightarrow> char" where
  "hex_digit d = (if d < 10 then char_of (48 + d) else char_of (87 + d))"

definition hex :: "bytes \<Rightarrow> string" where
  "hex bs = concat (map (\<lambda>b. [hex_digit (b div 16), hex_digit (b mod 16)]) bs)"

lemma hex_length [simp]: "length (hex bs) = 2 * length bs"
  by (induction bs) (simp_all add: hex_def)

lemma hex_digit_code: "d < 16 \<Longrightarrow> (of_char (hex_digit d) :: nat) = (if d < 10 then 48 + d else 87 + d)"
  by (simp add: hex_digit_def of_char_of)

lemma hex_digit_inject:
  assumes "c < 16" "d < 16"
  shows "hex_digit c = hex_digit d \<longleftrightarrow> c = d"
proof
  note d = assms
  assume "hex_digit c = hex_digit d"
  with d have "(if c < 10 then 48 + c else 87 + c) = (if d < 10 then 48 + d else 87 + d)"
    using hex_digit_code [of c] hex_digit_code [of d] by simp
  then show "c = d" using d by (cases "c < 10"; cases "d < 10"; simp)
qed simp

lemma hex_inject: "valid_bytes as \<Longrightarrow> valid_bytes bs \<Longrightarrow> hex as = hex bs \<longleftrightarrow> as = bs"
proof (induction as arbitrary: bs)
  case Nil
  then show ?case by (cases bs) (simp_all add: hex_def)
next
  case (Cons a as)
  show ?case
  proof (cases bs)
    case Nil
    then show ?thesis by (simp add: hex_def)
  next
    case (Cons b bs')
    with Cons.prems have byte: "a < 256" "b < 256" and rest: "valid_bytes as" "valid_bytes bs'"
      by (auto simp: valid_bytes_def)
    have "a div 16 < 16" "b div 16 < 16" using byte by auto
    moreover have "a div 16 = b div 16 \<and> a mod 16 = b mod 16 \<longleftrightarrow> a = b" by (metis div_mult_mod_eq)
    ultimately have "hex_digit (a div 16) = hex_digit (b div 16) \<and> hex_digit (a mod 16) = hex_digit (b mod 16) \<longleftrightarrow> a = b"
      by (simp add: hex_digit_inject)
    then show ?thesis
      using Cons.IH [OF rest] Cons unfolding hex_def by auto
  qed
qed

section \<open>Seal, verify, load\<close>

text \<open>
  The discipline two artefacts follow. \<open>ok\<close> says that the JSON package reads back what it wrote;
  only the round trip rests on it.
\<close>

locale sealed_artefact =
  fixes ok :: bool
    and seal :: "'c \<Rightarrow> ('e, 'a) result"
    and verify :: "'a \<Rightarrow> ('e, unit) result"
    and encode :: "'a \<Rightarrow> ('e, bytes) result"
    and load :: "bytes \<Rightarrow> ('e, 'a) result"
  assumes seal_verifies: "seal c = Inr a \<Longrightarrow> verify a = Inr ()"
    and load_verifies: "load b = Inr a \<Longrightarrow> verify a = Inr ()"
    and load_encode: "ok \<Longrightarrow> encode a = Inr b \<Longrightarrow> verify a = Inr () \<Longrightarrow> load b = Inr a"
begin

lemma seal_round_trip: "ok \<Longrightarrow> seal c = Inr a \<Longrightarrow> encode a = Inr b \<Longrightarrow> load b = Inr a"
  by (blast intro: load_encode dest: seal_verifies)

lemma load_idempotent: "ok \<Longrightarrow> load b = Inr a \<Longrightarrow> encode a = Inr b' \<Longrightarrow> load b' = Inr a"
  by (blast intro: load_encode dest: load_verifies)

text \<open>A listing that keeps what loads holds only what verifies.\<close>

lemma listed_verify:
  "a \<in> set (concat (map (\<lambda>b. case load b of Inl _ \<Rightarrow> [] | Inr a \<Rightarrow> [a]) bs)) \<Longrightarrow> verify a = Inr ()"
proof -
  assume "a \<in> set (concat (map (\<lambda>b. case load b of Inl _ \<Rightarrow> [] | Inr a \<Rightarrow> [a]) bs))"
  then obtain b where "load b = Inr a" by (auto split: sum.splits)
  then show ?thesis by (rule load_verifies)
qed

end

end
