(* ===== verification/Formula_Pool.thy ===== *)
theory Formula_Pool imports Artefact_Fs "HOL-Library.Char_ord" "HOL-Library.List_Lexorder" begin

text \<open>
  The formula-pool artefact (\<open>qe-formula-pool\<close>, \<open>lib.rs\<close>): its content, structural validation, the
  sealed hash, and the repository of one JSON file per pool. \<open>serde_json\<close> and SHA-256 are
  parameters. Strings compare by their characters' codes, as UTF-8 bytes do.
\<close>

section \<open>Content\<close>

definition pool_format_version :: nat where "pool_format_version = 1"
definition max_pool_size :: usize where "max_pool_size = 16"

datatype pool_mode = Sandbox | Production

record pool_formula =
  pf_sexpr :: string
  pf_hash :: string

record deflation_summary =
  ds_gp_aware :: bool
  ds_distinct_evaluations :: u64
  ds_n_trials :: u64
  ds_analytic_floor :: u64
  ds_variance_trials :: u64
  ds_trial_variance :: decimal
  ds_expected_max_sharpe :: decimal
  ds_champion_dsr :: decimal
  ds_uncensored_pbo :: "decimal option"

definition max_turnover_frac :: decimal where "max_turnover_frac = 1 / 4"
definition capacity_floor_usd :: i64 where "capacity_floor_usd = 250000"

record formula_gate_evidence =
  ge_formula_hash :: string
  ge_ic_pass :: bool
  ge_cost_stress_min_net_log_growth :: decimal
  ge_realised_turnover_frac :: decimal
  ge_capacity_usd :: decimal
  ge_within_caps :: bool
  ge_random_entry_null_pass :: bool

definition evidence_passes :: "formula_gate_evidence \<Rightarrow> bool" where
  "evidence_passes e \<longleftrightarrow>
     ge_ic_pass e \<and> ge_cost_stress_min_net_log_growth e > 0 \<and>
     ge_realised_turnover_frac e \<le> max_turnover_frac \<and>
     ge_capacity_usd e \<ge> of_int capacity_floor_usd \<and>
     ge_within_caps e \<and> ge_random_entry_null_pass e"

record pool_lineage =
  pl_campaign_id :: string
  pl_seed :: u64
  pl_mode :: pool_mode
  pl_code_commit :: string
  pl_input_snapshot_id :: string
  pl_config_hash :: string
  pl_pool_hash :: string

record formula_pool_content =
  pc_format_version :: nat
  pc_pool_id :: string
  pc_mode :: pool_mode
  pc_formulas :: "pool_formula list"
  pc_deflation :: deflation_summary
  pc_gate_evidence :: "formula_gate_evidence list option"
  pc_lineage :: pool_lineage

datatype pool_error =
    PoolSerialize string | PoolDeserialize string | PoolHashMismatch string string | PoolTooLarge usize
  | InvalidFormulaHash usize | FormulasNotSorted | NotProductionEligible pool_mode | PoolIo io_error

definition is_ascii_hexdigit :: "char \<Rightarrow> bool" where
  "is_ascii_hexdigit c \<longleftrightarrow> (let n = of_char c :: nat in (48 \<le> n \<and> n \<le> 57) \<or> (65 \<le> n \<and> n \<le> 70) \<or> (97 \<le> n \<and> n \<le> 102))"

definition bad_hash :: "string \<Rightarrow> bool" where
  "bad_hash h \<longleftrightarrow> length h \<noteq> 64 \<or> \<not> list_all is_ascii_hexdigit h"

fun check_hashes :: "usize \<Rightarrow> pool_formula list \<Rightarrow> (pool_error, unit) result" where
  "check_hashes i [] = Inr ()"
| "check_hashes i (f # fs) = (if bad_hash (pf_hash f) then Inl (InvalidFormulaHash i) else check_hashes (i + 1) fs)"

fun check_sorted :: "pool_formula list \<Rightarrow> (pool_error, unit) result" where
  "check_sorted (f # g # fs) = (if pf_hash f \<ge> pf_hash g then Inl FormulasNotSorted else check_sorted (g # fs))"
| "check_sorted _ = Inr ()"

definition pool_validate :: "formula_pool_content \<Rightarrow> (pool_error, unit) result" where
  "pool_validate c =
     (if length (pc_formulas c) > max_pool_size then Inl (PoolTooLarge (length (pc_formulas c)))
      else res_bind (check_hashes 0 (pc_formulas c)) (\<lambda>_. check_sorted (pc_formulas c)))"

section \<open>The sealed artefact\<close>

record formula_pool =
  fp_content :: formula_pool_content
  fp_hash :: string

text \<open>The JSON package on the two types it is used at, and the digest.\<close>

record pool_env =
  pe_content_json :: "formula_pool_content \<Rightarrow> (string, bytes) result"
  pe_to_json :: "formula_pool \<Rightarrow> (string, bytes) result"
  pe_from_json :: "bytes \<Rightarrow> (string, formula_pool) result"
  pe_sha256 :: "bytes \<Rightarrow> bytes"

definition pool_json_ok :: "pool_env \<Rightarrow> bool" where
  "pool_json_ok E \<longleftrightarrow> (\<forall>a b. pe_to_json E a = Inr b \<longrightarrow> pe_from_json E b = Inr a)"

definition pool_content_hash :: "pool_env \<Rightarrow> formula_pool_content \<Rightarrow> (pool_error, string) result" where
  "pool_content_hash E c =
     (case pe_content_json E c of Inl e \<Rightarrow> Inl (PoolSerialize e) | Inr b \<Rightarrow> Inr (hex (pe_sha256 E b)))"

definition assert_production_eligible :: "formula_pool_content \<Rightarrow> (pool_error, unit) result" where
  "assert_production_eligible c = (if pc_mode c \<noteq> Production then Inl (NotProductionEligible (pc_mode c)) else Inr ())"

definition formula_hashes :: "formula_pool_content \<Rightarrow> string list" where
  "formula_hashes c = map pf_hash (pc_formulas c)"

definition pool_seal :: "pool_env \<Rightarrow> formula_pool_content \<Rightarrow> (pool_error, formula_pool) result" where
  "pool_seal E c = res_bind (pool_validate c) (\<lambda>_. res_bind (pool_content_hash E c)
     (\<lambda>h. Inr \<lparr>fp_content = c, fp_hash = h\<rparr>))"

definition pool_verify :: "pool_env \<Rightarrow> formula_pool \<Rightarrow> (pool_error, unit) result" where
  "pool_verify E p = res_bind (pool_content_hash E (fp_content p))
     (\<lambda>recomputed. if recomputed \<noteq> fp_hash p then Inl (PoolHashMismatch (fp_hash p) recomputed) else Inr ())"

definition pool_encode :: "pool_env \<Rightarrow> formula_pool \<Rightarrow> (pool_error, bytes) result" where
  "pool_encode E p = (case pe_to_json E p of Inl e \<Rightarrow> Inl (PoolSerialize e) | Inr b \<Rightarrow> Inr b)"

definition pool_load :: "pool_env \<Rightarrow> bytes \<Rightarrow> (pool_error, formula_pool) result" where
  "pool_load E b =
     (case pe_from_json E b of
        Inl e \<Rightarrow> Inl (PoolDeserialize e)
      | Inr p \<Rightarrow> res_bind (pool_verify E p) (\<lambda>_. Inr p))"

interpretation pool_artefact: sealed_artefact "pool_json_ok E" "pool_seal E" "pool_verify E" "pool_encode E" "pool_load E" for E
proof unfold_locales
  show "pool_verify E a = Inr ()" if "pool_seal E c = Inr a" for c a
    using that by (auto simp: pool_seal_def pool_verify_def res_bind_Inr)
  show "pool_verify E a = Inr ()" if "pool_load E b = Inr a" for a b
    using that by (auto simp: pool_load_def res_bind_Inr split: sum.splits)
  show "pool_load E b = Inr a" if "pool_json_ok E" "pool_encode E a = Inr b" "pool_verify E a = Inr ()" for a b
    using that by (auto simp: pool_load_def pool_encode_def pool_json_ok_def split: sum.splits)
qed

section \<open>The repository\<close>

definition pool_path :: "string \<Rightarrow> string \<Rightarrow> path" where
  "pool_path dir pool_id = (dir, json_name pool_id)"

definition pool_repo_write :: "pool_env \<Rightarrow> string \<Rightarrow> formula_pool \<Rightarrow> fs \<Rightarrow> (pool_error, path) result \<times> fs" where
  "pool_repo_write E dir p f =
     (case fs_create_dir_all f dir of
        Inl e \<Rightarrow> (Inl (PoolIo e), f)
      | Inr _ \<Rightarrow>
          (let path = pool_path dir (pc_pool_id (fp_content p)); (created, f1) = fs_create f path
           in case created of
                Inl e \<Rightarrow> (Inl (PoolIo e), f1)
              | Inr _ \<Rightarrow>
                  (case pool_encode E p of
                     Inl e \<Rightarrow> (Inl e, f1)
                   | Inr b \<Rightarrow>
                       (case fs_write_all f1 path b of
                          (Inl e, f2) \<Rightarrow> (Inl (PoolIo e), f2)
                        | (Inr _, f2) \<Rightarrow> (Inr path, f2)))))"

definition pool_repo_load :: "pool_env \<Rightarrow> string \<Rightarrow> string \<Rightarrow> fs \<Rightarrow> (pool_error, formula_pool) result" where
  "pool_repo_load E dir pool_id f =
     (case fs_read f (pool_path dir pool_id) of Inl e \<Rightarrow> Inl (PoolIo e) | Inr b \<Rightarrow> pool_load E b)"

definition pool_repo_list :: "pool_env \<Rightarrow> string \<Rightarrow> fs \<Rightarrow> (pool_error, formula_pool list) result" where
  "pool_repo_list E dir f =
     (case fs_read_dir f dir of
        Inl NotFound \<Rightarrow> Inr []
      | Inl e \<Rightarrow> Inl (PoolIo e)
      | Inr entries \<Rightarrow>
          Inr (sort_key (\<lambda>p. pc_pool_id (fp_content p))
            (concat (map (\<lambda>path. case fs_read f path of Inl _ \<Rightarrow> [] | Inr b \<Rightarrow>
                 (case pool_load E b of Inl _ \<Rightarrow> [] | Inr p \<Rightarrow> [p]))
               (filter (\<lambda>path. file_extension (snd path) = Some ''json'') entries)))))"

section \<open>What a pool is\<close>

lemma check_hashes_iff: "check_hashes i fs = Inr () \<longleftrightarrow> (\<forall>f \<in> set fs. \<not> bad_hash (pf_hash f))"
  by (induction i fs rule: check_hashes.induct) auto

lemma check_sorted_iff: "check_sorted fs = Inr () \<longleftrightarrow> sorted_wrt (<) (map pf_hash fs)"
proof (induction fs rule: check_sorted.induct)
  case (1 f g fs)
  then show ?case by (auto simp: not_le intro: less_trans)
qed simp_all

lemma pool_validate_iff:
  "pool_validate c = Inr () \<longleftrightarrow> length (pc_formulas c) \<le> 16 \<and>
     (\<forall>h \<in> set (formula_hashes c). length h = 64 \<and> list_all is_ascii_hexdigit h) \<and> sorted_wrt (<) (formula_hashes c)"
  by (auto simp: pool_validate_def max_pool_size_def res_bind_Inr check_hashes_iff check_sorted_iff bad_hash_def
      formula_hashes_def)

lemma ex_nat_split: "(\<exists>i :: nat. P i) \<longleftrightarrow> P 0 \<or> (\<exists>j. P (Suc j))"
  by (metis not0_implies_Suc)

lemma check_hashes_first:
  "check_hashes k fs = Inl e \<longleftrightarrow> (\<exists>i. e = InvalidFormulaHash (k + i) \<and> i < length fs \<and>
      bad_hash (pf_hash (fs ! i)) \<and> (\<forall>j < i. \<not> bad_hash (pf_hash (fs ! j))))"
proof (induction k fs rule: check_hashes.induct)
  case (1 i)
  then show ?case by simp
next
  case (2 i f fs)
  show ?case
  proof (cases "bad_hash (pf_hash f)")
    case True
    then show ?thesis by (auto simp: less_Suc_eq_0_disj)
  next
    case False
    then show ?thesis
      by (subst ex_nat_split) (simp add: "2.IH" [OF False, simplified] All_less_Suc2)
  qed
qed

lemma check_sorted_error: "check_sorted fs = Inl e \<longleftrightarrow> e = FormulasNotSorted \<and> \<not> sorted_wrt (<) (map pf_hash fs)"
  unfolding check_sorted_iff [symmetric]
  by (induction fs rule: check_sorted.induct) auto

lemma pool_validate_error:
  "pool_validate c = Inl e \<longleftrightarrow>
     (if 16 < length (pc_formulas c) then e = PoolTooLarge (length (pc_formulas c))
      else if \<exists>h \<in> set (formula_hashes c). bad_hash h
      then \<exists>i. e = InvalidFormulaHash i \<and> i < length (formula_hashes c) \<and>
             bad_hash (formula_hashes c ! i) \<and> (\<forall>j < i. \<not> bad_hash (formula_hashes c ! j))
      else e = FormulasNotSorted \<and> \<not> sorted_wrt (<) (formula_hashes c))"
proof (cases "check_hashes 0 (pc_formulas c)")
  case (Inl e')
  with check_hashes_iff [of 0 "pc_formulas c"] have bad: "\<exists>h \<in> set (formula_hashes c). bad_hash h"
    by (auto simp: formula_hashes_def)
  from Inl check_hashes_first [of 0 "pc_formulas c" e] show ?thesis
    using bad by (auto simp: pool_validate_def max_pool_size_def formula_hashes_def)
next
  case (Inr u)
  with check_hashes_iff [of 0 "pc_formulas c"] have "\<not> (\<exists>h \<in> set (formula_hashes c). bad_hash h)"
    by (auto simp: formula_hashes_def)
  with Inr show ?thesis
    by (auto simp: pool_validate_def max_pool_size_def check_sorted_error formula_hashes_def)
qed

lemma pool_seal_Inr:
  "pool_seal E c = Inr p \<longleftrightarrow> pool_validate c = Inr () \<and>
      (\<exists>b. pe_content_json E c = Inr b \<and> p = \<lparr>fp_content = c, fp_hash = hex (pe_sha256 E b)\<rparr>)"
  by (auto simp: pool_seal_def res_bind_Inr pool_content_hash_def split: sum.splits)

lemma pool_seal_Inl: "(\<forall>t. e \<noteq> PoolSerialize t) \<Longrightarrow> pool_seal E c = Inl e \<longleftrightarrow> pool_validate c = Inl e"
  by (auto simp: pool_seal_def pool_content_hash_def res_bind_def split: sum.splits)

text \<open>
  A content seals exactly when it is a pool: at most sixteen formulas, every hash 64 hex
  digits, the hashes strictly ascending (hence pairwise distinct), and it serialises; the sealed
  pool carries the content unchanged and the digest of its JSON. Otherwise the error names the
  first check that fails: the size, then the first malformed hash, then the order.
\<close>

theorem pool_seal_correct:
  "(pool_seal E c = Inr p \<longleftrightarrow>
     length (pc_formulas c) \<le> 16 \<and> (\<forall>h \<in> set (formula_hashes c). length h = 64 \<and> list_all is_ascii_hexdigit h) \<and>
     sorted_wrt (<) (formula_hashes c) \<and> distinct (formula_hashes c) \<and>
     (\<exists>b. pe_content_json E c = Inr b \<and> p = \<lparr>fp_content = c, fp_hash = hex (pe_sha256 E b)\<rparr>)) \<and>
   (pool_seal E c = Inl (PoolTooLarge n) \<longleftrightarrow> 16 < length (pc_formulas c) \<and> n = length (pc_formulas c)) \<and>
   (pool_seal E c = Inl (InvalidFormulaHash i) \<longleftrightarrow> length (pc_formulas c) \<le> 16 \<and> i < length (pc_formulas c) \<and>
      bad_hash (formula_hashes c ! i) \<and> (\<forall>j < i. \<not> bad_hash (formula_hashes c ! j))) \<and>
   (pool_seal E c = Inl FormulasNotSorted \<longleftrightarrow> length (pc_formulas c) \<le> 16 \<and>
      (\<forall>h \<in> set (formula_hashes c). \<not> bad_hash h) \<and> \<not> sorted_wrt (<) (formula_hashes c))"
proof -
  have len: "length (formula_hashes c) = length (pc_formulas c)" by (simp add: formula_hashes_def)
  have mem: "bad_hash (formula_hashes c ! i) \<Longrightarrow> i < length (pc_formulas c) \<Longrightarrow> \<exists>h \<in> set (formula_hashes c). bad_hash h" for i
    using nth_mem [of i "formula_hashes c"] len by auto
  show ?thesis
    unfolding pool_seal_Inr pool_validate_iff
    by (auto simp: pool_seal_Inl pool_validate_error strict_sorted_iff len split: if_splits dest: mem)
qed

text \<open>A content for the witnesses, and an environment whose JSON is a pairing of what matters here.\<close>

definition plain_deflation :: deflation_summary where
  "plain_deflation = \<lparr>ds_gp_aware = True, ds_distinct_evaluations = 10, ds_n_trials = 10, ds_analytic_floor = 5,
     ds_variance_trials = 8, ds_trial_variance = 1, ds_expected_max_sharpe = 1, ds_champion_dsr = 1,
     ds_uncensored_pbo = None\<rparr>"

definition plain_lineage :: pool_lineage where
  "plain_lineage = \<lparr>pl_campaign_id = ''camp'', pl_seed = 7, pl_mode = Sandbox, pl_code_commit = [],
     pl_input_snapshot_id = [], pl_config_hash = [], pl_pool_hash = []\<rparr>"

definition plain_content :: "string \<Rightarrow> pool_formula list \<Rightarrow> formula_pool_content" where
  "plain_content ident fs = \<lparr>pc_format_version = pool_format_version, pc_pool_id = ident, pc_mode = Sandbox,
     pc_formulas = fs, pc_deflation = plain_deflation, pc_gate_evidence = None, pc_lineage = plain_lineage\<rparr>"

definition ident_env :: pool_env where
  "ident_env = \<lparr>pe_content_json = (\<lambda>c. Inr (map of_char (pc_pool_id c))),
     pe_to_json = (\<lambda>p. if pc_formulas (fp_content p) = [] \<and> p = \<lparr>fp_content = plain_content (pc_pool_id (fp_content p)) [], fp_hash = fp_hash p\<rparr>
        \<and> fp_hash p = hex (map of_char (pc_pool_id (fp_content p)))
        then Inr (map of_char (pc_pool_id (fp_content p))) else Inl ''unsupported''),
     pe_from_json = (\<lambda>b. Inr \<lparr>fp_content = plain_content (map char_of b) [], fp_hash = hex b\<rparr>),
     pe_sha256 = (\<lambda>b. b)\<rparr>"

lemma ident_env_ok [simp]: "pool_json_ok ident_env"
  by (auto simp: pool_json_ok_def ident_env_def comp_def split: if_splits)

section \<open>The repository keeps what it was given\<close>

lemma pool_repo_write_frame:
  assumes "pool_repo_write E dir p f = (r, f')" "q \<noteq> pool_path dir (pc_pool_id (fp_content p))"
  shows "map_of (fs_files f') q = map_of (fs_files f) q"
  using assms by (auto simp: pool_repo_write_def Let_def fs_create_def fs_write_all_def split: sum.splits option.splits prod.splits)

lemma pool_repo_write_faults:
  "pool_repo_write E dir p f = (r, f') \<Longrightarrow> fs_open_fault f' = fs_open_fault f"
  by (auto simp: pool_repo_write_def Let_def fs_create_def fs_write_all_def fs_put_def split: sum.splits option.splits prod.splits)

lemma pool_repo_write_done:
  assumes "pool_repo_write E dir p f = (Inr path, f')"
  shows "path = pool_path dir (pc_pool_id (fp_content p)) \<and>
    (\<exists>b. pool_encode E p = Inr b \<and> map_of (fs_files f') path = Some b)"
  using assms by (auto simp: pool_repo_write_def Let_def fs_create_def fs_write_all_def split: sum.splits option.splits prod.splits)

text \<open>
  The repository never hands out an unverified pool, and gives back what was stored. Whatever
  is on the disk (a truncated file after a failed write, a foreign or edited one) a load or a
  listing yields only pools whose recomputed hash is the stored one, the listing ascending by id.
  A write touches no other pool, succeeding or not; a sealed pool whose write succeeded loads back
  identical.
\<close>

theorem pool_repository_correct:
  assumes "pool_json_ok E" "pool_seal E c = Inr p" "pool_repo_write E dir p f = (r, f')"
  shows "(\<forall>i q. pool_repo_load E dir i f' = Inr q \<longrightarrow> pool_verify E q = Inr ()) \<and>
    (\<forall>qs. pool_repo_list E dir f' = Inr qs \<longrightarrow> (\<forall>q \<in> set qs. pool_verify E q = Inr ()) \<and>
        sorted (map (\<lambda>q. pc_pool_id (fp_content q)) qs)) \<and>
    (\<forall>i. i \<noteq> pc_pool_id c \<longrightarrow> pool_repo_load E dir i f' = pool_repo_load E dir i f) \<and>
    (\<forall>path. r = Inr path \<longrightarrow> fs_open_fault f path = None \<longrightarrow> pool_repo_load E dir (pc_pool_id c) f' = Inr p)"
proof -
  have c: "fp_content p = c" using assms(2) by (auto simp: pool_seal_Inr)
  have loads: "pool_verify E q = Inr ()" if "pool_repo_load E dir i f' = Inr q" for i q
    using that by (auto simp: pool_repo_load_def split: sum.splits dest: pool_artefact.load_verifies)
  have lists: "(\<forall>q \<in> set qs. pool_verify E q = Inr ()) \<and> sorted (map (\<lambda>q. pc_pool_id (fp_content q)) qs)"
    if "pool_repo_list E dir f' = Inr qs" for qs
  proof -
    from that obtain ps where qs: "qs = sort_key (\<lambda>p. pc_pool_id (fp_content p)) (concat (map (\<lambda>path.
        case fs_read f' path of Inl _ \<Rightarrow> [] | Inr b \<Rightarrow> (case pool_load E b of Inl _ \<Rightarrow> [] | Inr p \<Rightarrow> [p])) ps)) \<or> qs = []"
      by (auto simp: pool_repo_list_def split: sum.splits io_error.splits)
    have "pool_verify E q = Inr ()" if "pool_load E b = Inr q" for q b
      using that by (rule pool_artefact.load_verifies)
    with qs show ?thesis by (auto split: sum.splits)
  qed
  have others: "pool_repo_load E dir i f' = pool_repo_load E dir i f" if "i \<noteq> pc_pool_id c" for i
    using pool_repo_write_frame [OF assms(3), of "pool_path dir i"] pool_repo_write_faults [OF assms(3)] that c
    by (simp add: pool_repo_load_def fs_read_def pool_path_def split: option.split)
  have restored: "pool_repo_load E dir (pc_pool_id c) f' = Inr p" if "r = Inr path" "fs_open_fault f path = None" for path
  proof -
    from pool_repo_write_done [of E dir p f path f'] assms(3) that(1) c obtain b where
      path: "path = pool_path dir (pc_pool_id c)" and b: "pool_encode E p = Inr b" "map_of (fs_files f') path = Some b"
      by auto
    from pool_artefact.seal_round_trip [OF assms(1,2) b(1)] that(2) b(2) show ?thesis
      by (simp add: pool_repo_load_def fs_read_def path pool_repo_write_faults [OF assms(3)])
  qed
  from loads lists others restored show ?thesis by blast
qed

definition quiet_fs :: fs where
  "quiet_fs = \<lparr>fs_files = [((''pools'', ''b.json''), [1, 2])], fs_open_fault = (\<lambda>p. None), fs_create_fault = (\<lambda>p. None),
     fs_write_fault = (\<lambda>p. None), fs_dir_fault = (\<lambda>d. None)\<rparr>"

theorem pool_repository_correct_witness:
  "\<exists>p f'. pool_seal ident_env (plain_content ''a'' []) = Inr p \<and>
     pool_repo_write ident_env ''pools'' p quiet_fs = (Inr (''pools'', ''a.json''), f') \<and>
     pool_repo_load ident_env ''pools'' ''a'' f' = Inr p"
proof -
  let ?p = "\<lparr>fp_content = plain_content ''a'' [], fp_hash = hex [97]\<rparr>"
  have seal: "pool_seal ident_env (plain_content ''a'' []) = Inr ?p"
    by (simp add: pool_seal_Inr pool_validate_def ident_env_def plain_content_def)
  have "\<exists>f'. pool_repo_write ident_env ''pools'' ?p quiet_fs = (Inr (''pools'', ''a.json''), f')"
    by (simp add: Let_def pool_repo_write_def quiet_fs_def fs_create_dir_all_def fs_create_def fs_write_all_def fs_put_def
        pool_encode_def ident_env_def plain_content_def pool_path_def json_name_def)
  then obtain f' where w: "pool_repo_write ident_env ''pools'' ?p quiet_fs = (Inr (''pools'', ''a.json''), f')" by blast
  have "fs_open_fault quiet_fs (''pools'', ''a.json'') = None" by (simp add: quiet_fs_def)
  with pool_repository_correct [OF ident_env_ok seal w] seal w show ?thesis
    by (auto simp: plain_content_def)
qed

text \<open>What is relied on of SHA-256 over the JSON: two contents with the same digest are the same.\<close>

definition collision_free :: "pool_env \<Rightarrow> bool" where
  "collision_free E \<longleftrightarrow> (\<forall>x y a b. pe_content_json E x = Inr a \<longrightarrow> pe_content_json E y = Inr b \<longrightarrow>
     valid_bytes (pe_sha256 E a) \<and> (pe_sha256 E a = pe_sha256 E b \<longrightarrow> x = y))"

text \<open>
  A sealed pool cannot be altered unnoticed. Where the digest is collision-free, any content
  that verifies next to a sealed pool's hash is the sealed content. In particular the mode cannot
  be flipped: next to the hash of a pool sealed in sandbox mode, whatever verifies is refused on
  the production path.
\<close>

theorem pool_tamper_evident:
  assumes "collision_free E" "pool_seal E c = Inr p" "pool_verify E \<lparr>fp_content = c', fp_hash = fp_hash p\<rparr> = Inr ()"
  shows "c' = c \<and> (pc_mode c = Sandbox \<longrightarrow> assert_production_eligible c' = Inl (NotProductionEligible Sandbox))"
proof -
  from assms(2) obtain b where b: "pe_content_json E c = Inr b" "fp_hash p = hex (pe_sha256 E b)"
    by (auto simp: pool_seal_Inr)
  from assms(3) obtain b' where b': "pe_content_json E c' = Inr b'" "hex (pe_sha256 E b') = fp_hash p"
    by (auto simp: pool_verify_def res_bind_Inr pool_content_hash_def split: sum.splits if_splits)
  have "valid_bytes (pe_sha256 E b)" "valid_bytes (pe_sha256 E b')"
    using assms(1) b(1) b'(1) unfolding collision_free_def by blast+
  with b(2) b'(2) have "pe_sha256 E b' = pe_sha256 E b" by (simp add: hex_inject)
  with assms(1) b(1) b'(1) have "c' = c" unfolding collision_free_def by blast
  then show ?thesis by (simp add: assert_production_eligible_def)
qed

definition strict_env :: pool_env where
  "strict_env = ident_env\<lparr>pe_content_json := (\<lambda>c. if c = plain_content (pc_pool_id c) []
     then Inr (map of_char (pc_pool_id c)) else Inl ''unsupported'')\<rparr>"

theorem pool_tamper_evident_witness:
  "\<exists>p. pool_seal strict_env (plain_content ''a'' []) = Inr p \<and>
     (\<forall>c'. pool_verify strict_env \<lparr>fp_content = c', fp_hash = fp_hash p\<rparr> = Inr () \<longrightarrow>
        assert_production_eligible c' = Inl (NotProductionEligible Sandbox))"
proof -
  have inj: "map of_char s = (map of_char t :: nat list) \<Longrightarrow> s = t" for s t :: string
    by (rule injD [OF inj_mapI [OF inj_onI]]) simp_all
  have free: "collision_free strict_env"
    by (auto simp: collision_free_def strict_env_def ident_env_def valid_bytes_def split: if_splits dest!: inj)
  have seal: "pool_seal strict_env (plain_content ''a'' []) = Inr \<lparr>fp_content = plain_content ''a'' [], fp_hash = hex [97]\<rparr>"
    by (simp add: pool_seal_Inr pool_validate_def strict_env_def ident_env_def plain_content_def)
  from pool_tamper_evident [OF free seal] seal show ?thesis by (auto simp: plain_content_def)
qed

text \<open>
  The doc of \<open>validate\<close> asks for lowercase hex; the check accepts both cases. So the same digest
  can be in one sealed pool twice, in two spellings.
\<close>

theorem digest_sealed_twice:
  "\<exists>p. pool_seal ident_env (plain_content ''a'' [\<lparr>pf_sexpr = ''x'', pf_hash = replicate 64 CHR ''A''\<rparr>,
      \<lparr>pf_sexpr = ''x'', pf_hash = replicate 64 CHR ''a''\<rparr>]) = Inr p"
proof -
  have "replicate 64 CHR ''A'' < replicate 64 CHR ''a''"
    by (simp add: numeral_eq_Suc less_char_def)
  then show ?thesis
    by (simp add: pool_seal_Inr pool_validate_iff formula_hashes_def plain_content_def ident_env_def
        is_ascii_hexdigit_def list_all_iff)
qed

end
