(* ===== verification/Pool_Lifecycle.thy ===== *)
theory Pool_Lifecycle imports Formula_Pool begin

text \<open>
  The governance of a formula pool (\<open>lifecycle.rs\<close>, \<open>governance_record.rs\<close>): a guarded state
  machine with an append-only history, the directory of governance records, and the forward-only
  set of revocations.
\<close>

section \<open>The state machine\<close>

datatype lifecycle_state = Draft | Approved | Sealed | Rejected | Revoked

datatype pool_transition = Approve | Reject | Seal | Revoke

datatype lifecycle_error = Illegal lifecycle_state pool_transition

fun state_str :: "lifecycle_state \<Rightarrow> string" where
  "state_str Draft = ''draft''"
| "state_str Approved = ''approved''"
| "state_str Sealed = ''sealed''"
| "state_str Rejected = ''rejected''"
| "state_str Revoked = ''revoked''"

fun transition_str :: "pool_transition \<Rightarrow> string" where
  "transition_str Approve = ''approve''"
| "transition_str Reject = ''reject''"
| "transition_str Seal = ''seal''"
| "transition_str Revoke = ''revoke''"

definition is_terminal :: "lifecycle_state \<Rightarrow> bool" where
  "is_terminal s \<longleftrightarrow> s = Rejected \<or> s = Revoked"

fun state_apply :: "lifecycle_state \<Rightarrow> pool_transition \<Rightarrow> (lifecycle_error, lifecycle_state) result" where
  "state_apply Draft Approve = Inr Approved"
| "state_apply Draft Reject = Inr Rejected"
| "state_apply Approved Seal = Inr Sealed"
| "state_apply Approved Revoke = Inr Revoked"
| "state_apply Sealed Revoke = Inr Revoked"
| "state_apply s t = Inl (Illegal s t)"

record transition_record =
  tr_transition :: pool_transition
  tr_actor :: string
  tr_ts_ms :: u64
  tr_from :: lifecycle_state
  tr_to :: lifecycle_state

record pool_governance =
  pg_pool_id :: string
  pg_state :: lifecycle_state
  pg_history :: "transition_record list"

definition governance_draft :: "string \<Rightarrow> pool_governance" where
  "governance_draft pool_id = \<lparr>pg_pool_id = pool_id, pg_state = Draft, pg_history = []\<rparr>"

definition governance_apply ::
  "pool_governance \<Rightarrow> pool_transition \<Rightarrow> string \<Rightarrow> u64 \<Rightarrow> (lifecycle_error, lifecycle_state) result \<times> pool_governance" where
  "governance_apply g t actor ts =
     (case state_apply (pg_state g) t of
        Inl e \<Rightarrow> (Inl e, g)
      | Inr target \<Rightarrow>
          (Inr target, g\<lparr>pg_history := pg_history g @ [\<lparr>tr_transition = t, tr_actor = actor, tr_ts_ms = ts,
                            tr_from = pg_state g, tr_to = target\<rparr>],
                     pg_state := target\<rparr>))"

section \<open>Reachable governance\<close>

inductive reachable :: "string \<Rightarrow> pool_governance \<Rightarrow> bool" for ident where
  fresh: "reachable ident (governance_draft ident)"
| act: "reachable ident g \<Longrightarrow> governance_apply g t actor ts = (r, g') \<Longrightarrow> reachable ident g'"

text \<open>The history as one path of the graph from \<open>Draft\<close>, ending in the state.\<close>

fun is_path :: "lifecycle_state \<Rightarrow> transition_record list \<Rightarrow> lifecycle_state \<Rightarrow> bool" where
  "is_path s [] u \<longleftrightarrow> s = u"
| "is_path s (e # es) u \<longleftrightarrow> tr_from e = s \<and> state_apply s (tr_transition e) = Inr (tr_to e) \<and> is_path (tr_to e) es u"

lemma is_path_snoc: "is_path s (es @ [e]) u \<longleftrightarrow> is_path s es (tr_from e) \<and>
    state_apply (tr_from e) (tr_transition e) = Inr (tr_to e) \<and> tr_to e = u"
  by (induction s es u rule: is_path.induct) auto

lemma reachable_path: "reachable ident g \<Longrightarrow> pg_pool_id g = ident \<and> is_path Draft (pg_history g) (pg_state g)"
proof (induction rule: reachable.induct)
  case fresh
  then show ?case by (simp add: governance_draft_def)
next
  case (act g t actor ts r g')
  then show ?case
    by (cases "state_apply (pg_state g) t") (auto simp: governance_apply_def is_path_snoc)
qed

fun_cases state_apply_InrE: "state_apply s t = Inr u"

lemma terminal_stuck: "is_terminal s \<Longrightarrow> state_apply s t = Inl (Illegal s t)"
  by (cases s; cases t) (simp_all add: is_terminal_def)

lemma terminal_path: "is_terminal s \<Longrightarrow> is_path s es u \<longleftrightarrow> es = [] \<and> u = s"
  by (cases es) (auto simp: terminal_stuck)

lemma path_from_Sealed: "is_path Sealed es u \<longleftrightarrow>
    (es = [] \<and> u = Sealed) \<or> (\<exists>e. es = [e] \<and> tr_transition e = Revoke \<and> tr_from e = Sealed \<and> tr_to e = Revoked \<and> u = Revoked)"
proof (cases es)
  case (Cons e es')
  then show ?thesis
    by (cases "tr_transition e") (auto simp: terminal_path is_terminal_def)
qed auto

lemma path_shapes:
  assumes "is_path Draft es u"
  shows "(map tr_transition es, u) \<in> {([], Draft), ([Approve], Approved), ([Reject], Rejected), ([Approve, Seal], Sealed),
     ([Approve, Revoke], Revoked), ([Approve, Seal, Revoke], Revoked)}"
proof (cases es)
  case Nil
  with assms show ?thesis by simp
next
  case (Cons e es')
  with assms have e: "(tr_transition e = Approve \<and> tr_to e = Approved) \<or> (tr_transition e = Reject \<and> tr_to e = Rejected)"
    by (cases "tr_transition e") auto
  then show ?thesis
  proof
    assume "tr_transition e = Reject \<and> tr_to e = Rejected"
    with assms Cons show ?thesis by (auto simp: terminal_path is_terminal_def)
  next
    assume a: "tr_transition e = Approve \<and> tr_to e = Approved"
    show ?thesis
    proof (cases es')
      case Nil
      with a assms Cons show ?thesis by auto
    next
      case (Cons f es'')
      with a assms \<open>es = e # es'\<close> show ?thesis
        by (cases "tr_transition f") (auto simp: path_from_Sealed terminal_path is_terminal_def)
    qed
  qed
qed

text \<open>
  C35. A pool's governance is one of six histories. Whatever transitions are attempted, by whom and
  in what order, the recorded history chains from Draft to the current state and its transitions
  are nothing, approve, reject, approve-seal, approve-revoke or approve-seal-revoke: a pool is
  never sealed without an approval, never approved, sealed or revoked twice, and never leaves
  Rejected or Revoked. A refused attempt changes nothing.
\<close>

theorem governance_histories:
  assumes "reachable ident g"
  shows "is_path Draft (pg_history g) (pg_state g) \<and>
    (map tr_transition (pg_history g), pg_state g) \<in> {([], Draft), ([Approve], Approved), ([Reject], Rejected),
       ([Approve, Seal], Sealed), ([Approve, Revoke], Revoked), ([Approve, Seal, Revoke], Revoked)} \<and>
    (\<forall>t actor ts e g'. governance_apply g t actor ts = (Inl e, g') \<longrightarrow> g' = g \<and> e = Illegal (pg_state g) t) \<and>
    (is_terminal (pg_state g) \<longrightarrow> (\<forall>t actor ts. snd (governance_apply g t actor ts) = g))"
proof -
  note path = reachable_path [OF assms, THEN conjunct2]
  have refused: "e = Illegal s t" if "state_apply s t = Inl e" for s t e
    using that by (cases s; cases t) auto
  have "\<forall>t actor ts e g'. governance_apply g t actor ts = (Inl e, g') \<longrightarrow> g' = g \<and> e = Illegal (pg_state g) t"
    by (auto simp: governance_apply_def dest: refused split: sum.splits)
  moreover have "is_terminal (pg_state g) \<longrightarrow> (\<forall>t actor ts. snd (governance_apply g t actor ts) = g)"
    by (simp add: governance_apply_def terminal_stuck)
  ultimately show ?thesis using path path_shapes [OF path] by blast
qed

definition sealed_demo :: pool_governance where
  "sealed_demo = snd (governance_apply (snd (governance_apply (governance_draft ''p'') Approve ''ann'' 1)) Seal ''bob'' 2)"

lemma sealed_demo_reachable: "reachable ''p'' sealed_demo"
  unfolding sealed_demo_def
  by (rule reachable.act [OF reachable.act [OF reachable.fresh surjective_pairing] surjective_pairing])

theorem governance_histories_witness:
  "map tr_transition (pg_history sealed_demo) = [Approve, Seal] \<and> pg_state sealed_demo = Sealed"
proof -
  have "pg_state sealed_demo = Sealed" by (simp add: sealed_demo_def governance_apply_def governance_draft_def)
  with governance_histories [OF sealed_demo_reachable] show ?thesis by auto
qed

section \<open>The directory of records\<close>

record governance_json =
  gj_enc :: "pool_governance \<Rightarrow> (string, bytes) result"
  gj_dec :: "bytes \<Rightarrow> (string, pool_governance) result"

definition governance_json_ok :: "governance_json \<Rightarrow> bool" where
  "governance_json_ok J \<longleftrightarrow> (\<forall>g b. gj_enc J g = Inr b \<longrightarrow> gj_dec J b = Inr g)"

definition governance_encode :: "governance_json \<Rightarrow> pool_governance \<Rightarrow> (pool_error, bytes) result" where
  "governance_encode J g = (case gj_enc J g of Inl e \<Rightarrow> Inl (PoolSerialize e) | Inr b \<Rightarrow> Inr b)"

definition governance_load :: "governance_json \<Rightarrow> bytes \<Rightarrow> (pool_error, pool_governance) result" where
  "governance_load J b = (case gj_dec J b of Inl e \<Rightarrow> Inl (PoolDeserialize e) | Inr g \<Rightarrow> Inr g)"

definition governance_read :: "governance_json \<Rightarrow> string \<Rightarrow> string \<Rightarrow> fs \<Rightarrow> (pool_error, pool_governance) result" where
  "governance_read J dir pool_id f =
     (case fs_read f (dir, json_name pool_id) of
        Inr b \<Rightarrow> governance_load J b
      | Inl NotFound \<Rightarrow> Inr (governance_draft pool_id)
      | Inl e \<Rightarrow> Inl (PoolIo e))"

definition governance_write :: "governance_json \<Rightarrow> string \<Rightarrow> pool_governance \<Rightarrow> fs \<Rightarrow> (pool_error, path) result \<times> fs" where
  "governance_write J dir g f =
     (case fs_create_dir_all f dir of
        Inl e \<Rightarrow> (Inl (PoolIo e), f)
      | Inr _ \<Rightarrow>
          (let path = (dir, json_name (pg_pool_id g)); (created, f1) = fs_create f path
           in case created of
                Inl e \<Rightarrow> (Inl (PoolIo e), f1)
              | Inr _ \<Rightarrow>
                  (case governance_encode J g of
                     Inl e \<Rightarrow> (Inl e, f1)
                   | Inr b \<Rightarrow>
                       (case fs_write_all f1 path b of
                          (Inl e, f2) \<Rightarrow> (Inl (PoolIo e), f2)
                        | (Inr _, f2) \<Rightarrow> (Inr path, f2)))))"

section \<open>Governance records and revocations\<close>

record governance_record =
  gr_vintage_content_hash :: string
  gr_pool_formula_hashes :: "string list"
  gr_launch_entry_hash :: string
  gr_approval_entry_hashes :: "string list"
  gr_evidence_hash :: string

record revocation_record =
  rv_pool_id :: string
  rv_pool_hash :: string
  rv_revoked_by :: string
  rv_ts_ms :: u64
  rv_revoke_entry_hash :: string

type_synonym revocations = "string \<Rightarrow> revocation_record option"

definition revocations_new :: revocations where "revocations_new = Map.empty"

definition is_revoked :: "revocations \<Rightarrow> string \<Rightarrow> bool" where
  "is_revoked rs h \<longleftrightarrow> rs h \<noteq> None"

definition retain_active :: "revocations \<Rightarrow> string list \<Rightarrow> string list" where
  "retain_active rs hs = filter (\<lambda>h. \<not> is_revoked rs h) hs"

definition revocations_insert :: "revocations \<Rightarrow> revocation_record \<Rightarrow> revocations" where
  "revocations_insert rs r = rs(rv_pool_hash r \<mapsto> r)"

lemma retain_after_inserts:
  "set (retain_active (foldl revocations_insert rs recs) hs) =
     {h \<in> set hs. \<not> is_revoked rs h \<and> h \<notin> rv_pool_hash ` set recs}"
proof (induction recs arbitrary: rs)
  case Nil
  then show ?case by (auto simp: retain_active_def)
next
  case (Cons r recs)
  then show ?case by (auto simp: revocations_insert_def is_revoked_def)
qed

text \<open>
  What the live path may still use. A record written for a pool reads back as it was and no
  other pool's changes; a pool with no record reads as a fresh draft, so nothing reads as approved
  or sealed that was not written so. Revocation is forward-only: after any further revocations the
  active pools are those of before whose hash none of them names, in the order they were listed.
\<close>

theorem governance_store_correct:
  assumes "governance_json_ok J" "governance_write J dir g f = (Inr path, f')" "fs_open_fault f = (\<lambda>p. None)"
  shows "governance_read J dir (pg_pool_id g) f' = Inr g \<and>
    (\<forall>i. i \<noteq> pg_pool_id g \<longrightarrow> governance_read J dir i f' = governance_read J dir i f) \<and>
    (\<forall>i. map_of (fs_files f) (dir, json_name i) = None \<longrightarrow> governance_read J dir i f = Inr (governance_draft i)) \<and>
    retain_active (foldl revocations_insert rs recs) hs =
      filter (\<lambda>h. h \<notin> rv_pool_hash ` set recs) (retain_active rs hs)"
proof -
  from assms(2) obtain b where b: "gj_enc J g = Inr b" "path = (dir, json_name (pg_pool_id g))"
    and files: "\<And>q. map_of (fs_files f') q = (if q = path then Some b else map_of (fs_files f) q)"
    and faults: "fs_open_fault f' = fs_open_fault f"
    by (auto simp: governance_write_def governance_encode_def fs_create_def fs_write_all_def Let_def fs_put_def update_conv'
        split: sum.splits option.splits prod.splits)
  have "governance_read J dir (pg_pool_id g) f' = Inr g"
    using assms(1,3) b by (simp add: governance_read_def fs_read_def files faults governance_load_def governance_json_ok_def)
  moreover have "governance_read J dir i f' = governance_read J dir i f" if "i \<noteq> pg_pool_id g" for i
    using that b(2) by (simp add: governance_read_def fs_read_def files faults split: option.split)
  moreover have "governance_read J dir i f = Inr (governance_draft i)" if "map_of (fs_files f) (dir, json_name i) = None" for i
    using that assms(3) by (simp add: governance_read_def fs_read_def)
  moreover have "retain_active (foldl revocations_insert rs recs) hs =
      filter (\<lambda>h. h \<notin> rv_pool_hash ` set recs) (retain_active rs hs)"
  proof -
    have "is_revoked (foldl revocations_insert rs recs) h \<longleftrightarrow> is_revoked rs h \<or> h \<in> rv_pool_hash ` set recs" for h
      by (induction recs arbitrary: rs) (auto simp: revocations_insert_def is_revoked_def)
    then show ?thesis by (auto simp: retain_active_def intro: filter_cong)
  qed
  ultimately show ?thesis by blast
qed

definition one_pool_json :: governance_json where
  "one_pool_json = \<lparr>gj_enc = (\<lambda>g. if g = sealed_demo then Inr [1] else Inl ''unsupported''),
     gj_dec = (\<lambda>b. Inr sealed_demo)\<rparr>"

theorem governance_store_correct_witness:
  "\<exists>f'. governance_write one_pool_json ''gov'' sealed_demo quiet_fs = (Inr (''gov'', ''p.json''), f') \<and>
     governance_read one_pool_json ''gov'' ''p'' f' = Inr sealed_demo \<and>
     governance_read one_pool_json ''gov'' ''q'' f' = Inr (governance_draft ''q'')"
proof -
  have ident: "pg_pool_id sealed_demo = ''p''" using reachable_path [OF sealed_demo_reachable] by simp
  have ok: "governance_json_ok one_pool_json" by (simp add: governance_json_ok_def one_pool_json_def)
  have "\<exists>f'. governance_write one_pool_json ''gov'' sealed_demo quiet_fs = (Inr (''gov'', ''p.json''), f')"
    by (simp add: governance_write_def quiet_fs_def fs_create_dir_all_def fs_create_def fs_write_all_def fs_put_def
        governance_encode_def one_pool_json_def ident json_name_def Let_def)
  then obtain f' where w: "governance_write one_pool_json ''gov'' sealed_demo quiet_fs = (Inr (''gov'', ''p.json''), f')" by blast
  have quiet: "fs_open_fault quiet_fs = (\<lambda>p. None)" by (simp add: quiet_fs_def)
  have "map_of (fs_files quiet_fs) (''gov'', json_name ''q'') = None" by (simp add: quiet_fs_def)
  with governance_store_correct [OF ok w quiet] w ident show ?thesis by auto
qed

end
