(* ===== verification/Rolling.thy ===== *)
theory Rolling imports Evaluator begin

text \<open>
  Finite windows over exact decimals (\<open>qe-signal\<close>, \<open>indicator/roll.rs\<close>), the bar view built on
  them and the \<open>Kernel\<close> trait with its blanket \<open>Indicator\<close> implementation (\<open>indicator/mod.rs\<close>).

  A computation on decimals has two ways not to answer: it panics (the outer option, as in the
  rest of the development) or it returns Rust's \<open>None\<close> (the inner one, of a \<open>val\<close>), which says
  that the value is undefined on this window. The package's square root is the parameter
  \<open>dm_sqrt\<close>.
\<close>

section \<open>Values\<close>

record dec_math =
  dm_arith :: dec_arith
  dm_sqrt :: "decimal \<Rightarrow> decimal option"

type_synonym val = "decimal option option"

text \<open>\<open>?\<close> on a Rust \<open>Option\<close>, and the value of an arithmetic operation.\<close>

fun q_bind :: "'a option option \<Rightarrow> ('a \<Rightarrow> 'b option option) \<Rightarrow> 'b option option" where
  "q_bind None f = None"
| "q_bind (Some None) f = Some None"
| "q_bind (Some (Some x)) f = f x"

definition some_val :: "decimal option \<Rightarrow> val" where
  "some_val r = map_option Some r"

lemma q_bind_Some_Some: "q_bind v f = Some (Some y) \<longleftrightarrow> (\<exists>x. v = Some (Some x) \<and> f x = Some (Some y))"
  by (cases "(v, f)" rule: q_bind.cases) auto

lemma some_val_simps [simp]:
  "some_val None = None" "some_val (Some x) = Some (Some x)"
  "some_val r = Some (Some y) \<longleftrightarrow> r = Some y" "some_val r \<noteq> Some None"
  by (cases r; simp add: some_val_def)+

text \<open>What the windows rely on of the package: sums and differences are rounded in order, squares
  and quotients of non-negative numbers are not negative, and non-negative numbers have a root.\<close>

definition dec_math_ok :: "dec_math \<Rightarrow> bool" where
  "dec_math_ok M \<longleftrightarrow> dec_rounded (dm_arith M) \<and>
     (\<forall>a c. dec_mul (dm_arith M) a a = Some c \<longrightarrow> 0 \<le> c) \<and>
     (\<forall>a b c. 0 \<le> a \<longrightarrow> 0 < b \<longrightarrow> dec_div (dm_arith M) a b = Some c \<longrightarrow> 0 \<le> c) \<and>
     (\<forall>a. 0 \<le> a \<longrightarrow> (\<exists>r. dm_sqrt M a = Some r \<and> 0 \<le> r))"

section \<open>The last values of a sequence\<close>

definition lastn :: "nat \<Rightarrow> 'a list \<Rightarrow> 'a list" where
  "lastn n xs = drop (length xs - n) xs"

lemma lastn_length [simp]: "length (lastn n xs) = min n (length xs)"
  by (simp add: lastn_def)

lemma lastn_all [simp]: "length xs \<le> n \<Longrightarrow> lastn n xs = xs"
  by (simp add: lastn_def)

lemma lastn_map: "lastn n (map f xs) = map f (lastn n xs)"
  by (simp add: lastn_def drop_map)

lemma lastn_append: "n \<le> length ys \<Longrightarrow> lastn n (xs @ ys) = lastn n ys"
  by (simp add: lastn_def)

lemma lastn_snoc:
  "lastn (Suc n) (xs @ [x]) = lastn n xs @ [x]"
  by (cases "n \<le> length xs") (simp_all add: lastn_def)

lemma lastn_tl: "n \<le> length xs \<Longrightarrow> 0 < n \<Longrightarrow> tl (lastn n xs) = lastn (n - 1) xs"
  by (simp add: lastn_def tl_drop drop_Suc [symmetric] Suc_diff_le [symmetric] flip: drop_Suc)

section \<open>The ring buffer\<close>

record roll =
  ro_cap :: usize
  ro_buf :: "decimal list"

definition roll_new :: "usize \<Rightarrow> roll" where
  "roll_new cap = \<lparr>ro_cap = max cap 1, ro_buf = []\<rparr>"

definition roll_push :: "roll \<Rightarrow> decimal \<Rightarrow> roll" where
  "roll_push r v = r\<lparr>ro_buf := (if length (ro_buf r) = ro_cap r then tl (ro_buf r) else ro_buf r) @ [v]\<rparr>"

definition roll_is_full :: "roll \<Rightarrow> bool" where
  "roll_is_full r \<longleftrightarrow> length (ro_buf r) = ro_cap r"

definition roll_last :: "roll \<Rightarrow> decimal option" where
  "roll_last r = last_opt (ro_buf r)"

definition roll_first :: "roll \<Rightarrow> decimal option" where
  "roll_first r = get_opt (ro_buf r) 0"

text \<open>\<open>Iterator::sum\<close> over decimals adds from zero and panics on overflow.\<close>

definition dec_sum :: "dec_arith \<Rightarrow> decimal list \<Rightarrow> decimal option" where
  "dec_sum A xs = run_opt (dec_add A) 0 xs"

definition roll_sum :: "dec_math \<Rightarrow> roll \<Rightarrow> decimal option" where
  "roll_sum M r = dec_sum (dm_arith M) (ro_buf r)"

definition roll_mean :: "dec_math \<Rightarrow> roll \<Rightarrow> val" where
  "roll_mean M r =
     (if ro_buf r = [] then Some None
      else Option.bind (roll_sum M r) (\<lambda>s. some_val (dec_div (dm_arith M) s (of_nat (length (ro_buf r))))))"

definition roll_max :: "roll \<Rightarrow> decimal option" where
  "roll_max r = (if ro_buf r = [] then None else Some (Max (set (ro_buf r))))"

definition roll_min :: "roll \<Rightarrow> decimal option" where
  "roll_min r = (if ro_buf r = [] then None else Some (Min (set (ro_buf r))))"

text \<open>A map whose function may panic.\<close>

definition squared_dev :: "dec_arith \<Rightarrow> decimal \<Rightarrow> decimal \<Rightarrow> decimal option" where
  "squared_dev A mean v = Option.bind (dec_sub A v mean) (\<lambda>d. dec_mul A d d)"

definition roll_std_pop :: "dec_math \<Rightarrow> roll \<Rightarrow> val" where
  "roll_std_pop M r = q_bind (roll_mean M r) (\<lambda>mean.
     Option.bind (map_opt (squared_dev (dm_arith M) mean) (ro_buf r)) (\<lambda>sq.
     Option.bind (dec_sum (dm_arith M) sq) (\<lambda>s.
     Option.bind (dec_div (dm_arith M) s (of_nat (length (ro_buf r)))) (\<lambda>var. Some (dm_sqrt M var)))))"

definition roll_mean_abs_dev :: "dec_math \<Rightarrow> roll \<Rightarrow> val" where
  "roll_mean_abs_dev M r = q_bind (roll_mean M r) (\<lambda>mean.
     Option.bind (map_opt (\<lambda>v. map_option abs (dec_sub (dm_arith M) v mean)) (ro_buf r)) (\<lambda>ds.
     Option.bind (dec_sum (dm_arith M) ds) (\<lambda>s.
     some_val (dec_div (dm_arith M) s (of_nat (length (ro_buf r)))))))"

definition roll_push_all :: "roll \<Rightarrow> decimal list \<Rightarrow> roll" where
  "roll_push_all r vs = foldl roll_push r vs"

lemma roll_push_all_snoc [simp]: "roll_push_all r (vs @ [v]) = roll_push (roll_push_all r vs) v"
  by (simp add: roll_push_all_def)

lemma roll_push_all_Nil [simp]: "roll_push_all r [] = r"
  by (simp add: roll_push_all_def)

text \<open>A window holds exactly the last values pushed, as many as fit.\<close>

lemma roll_window: "roll_push_all (roll_new n) vs = \<lparr>ro_cap = max n 1, ro_buf = lastn (max n 1) vs\<rparr>"
proof (induction vs rule: rev_induct)
  case Nil
  then show ?case by (simp add: roll_new_def)
next
  case (snoc v vs)
  obtain m where m: "max n (Suc 0) = Suc m" by (cases "max n (Suc 0)") auto
  show ?case
  proof (cases "length vs < Suc m")
    case True
    then show ?thesis by (simp add: snoc roll_push_def m lastn_snoc)
  next
    case False
    then have "tl (lastn (Suc m) vs) = lastn m vs" using lastn_tl [of "Suc m" vs] by simp
    with False show ?thesis by (simp add: snoc roll_push_def m lastn_snoc)
  qed
qed

lemma roll_push_all_append: "roll_push_all r (us @ vs) = roll_push_all (roll_push_all r us) vs"
  by (simp add: roll_push_all_def)

lemma roll_forgets:
  "max n 1 \<le> length vs \<Longrightarrow> roll_push_all (roll_push_all (roll_new n) us) vs = roll_push_all (roll_new n) vs"
  using roll_window [of n "us @ vs"] by (simp add: roll_push_all_append lastn_append) (simp add: roll_window)

lemma roll_full_iff: "roll_is_full (roll_push_all (roll_new n) vs) \<longleftrightarrow> max n 1 \<le> length vs"
  by (auto simp: roll_is_full_def roll_window)

section \<open>Standard deviations are defined\<close>

lemma run_add_nonneg:
  "dec_rounded A \<Longrightarrow> run_opt (dec_add A) a xs = Some s \<Longrightarrow> 0 \<le> a \<Longrightarrow> (\<And>x. x \<in> set xs \<Longrightarrow> 0 \<le> x) \<Longrightarrow> 0 \<le> s"
proof (induction xs arbitrary: a)
  case (Cons x xs)
  then obtain b where "dec_add A a x = Some b" "run_opt (dec_add A) b xs = Some s"
    by (auto simp: bind_eq_Some_conv)
  with Cons.IH [of b] Cons.prems dec_add_nonneg [of A a x b] show ?case by simp
qed simp

lemma dec_sum_nonneg: "dec_rounded A \<Longrightarrow> dec_sum A xs = Some s \<Longrightarrow> (\<And>x. x \<in> set xs \<Longrightarrow> 0 \<le> x) \<Longrightarrow> 0 \<le> s"
  using run_add_nonneg [of A 0 xs s] by (simp add: dec_sum_def)

lemma roll_mean_cases: "roll_mean M r = Some v \<Longrightarrow> ro_buf r \<noteq> [] \<Longrightarrow> \<exists>m. v = Some m"
  by (auto simp: roll_mean_def bind_eq_Some_conv some_val_def)

lemma std_pop_defined:
  assumes "dec_math_ok M" "ro_buf r \<noteq> []" "roll_std_pop M r = Some v"
  shows "\<exists>sd. v = Some sd \<and> 0 \<le> sd"
proof -
  have ex: "dec_rounded (dm_arith M)" using assms(1) by (simp add: dec_math_ok_def)
  from assms(2,3) obtain mean sq s var where sq: "map_opt (squared_dev (dm_arith M) mean) (ro_buf r) = Some sq"
      "dec_sum (dm_arith M) sq = Some s" "dec_div (dm_arith M) s (of_nat (length (ro_buf r))) = Some var" "v = dm_sqrt M var"
    by (cases "roll_mean M r") (auto simp: roll_std_pop_def bind_eq_Some_conv dest!: roll_mean_cases)
  have "0 \<le> x" if "x \<in> set sq" for x
    using map_opt_all [OF sq(1) that] assms(1) by (auto simp: squared_dev_def bind_eq_Some_conv dec_math_ok_def)
  then have "0 \<le> s" by (rule dec_sum_nonneg [OF ex sq(2)])
  then have "0 \<le> var" using assms(1,2) sq(3) unfolding dec_math_ok_def by (metis length_greater_0_conv of_nat_0_less_iff)
  with assms(1) sq(4) show ?thesis by (auto simp: dec_math_ok_def)
qed

section \<open>The bar view\<close>

record bars =
  bs_close :: roll
  bs_high :: roll
  bs_low :: roll
  bs_volume :: roll
  bs_typical :: roll

definition bars_new :: "usize \<Rightarrow> bars" where
  "bars_new cap = \<lparr>bs_close = roll_new cap, bs_high = roll_new cap, bs_low = roll_new cap,
     bs_volume = roll_new cap, bs_typical = roll_new cap\<rparr>"

definition typical_price :: "dec_arith \<Rightarrow> decimal \<Rightarrow> decimal \<Rightarrow> decimal \<Rightarrow> decimal option" where
  "typical_price A h l c = do { hl \<leftarrow> dec_add A h l; hlc \<leftarrow> dec_add A hl c; dec_div A hlc 3 }"

definition bars_observe :: "dec_math \<Rightarrow> bars \<Rightarrow> bar \<Rightarrow> bars option" where
  "bars_observe M s b =
     (let h = price_get (bar_high b); l = price_get (bar_low b); c = price_get (bar_close b)
      in map_option (\<lambda>t. \<lparr>bs_close = roll_push (bs_close s) c, bs_high = roll_push (bs_high s) h,
             bs_low = roll_push (bs_low s) l, bs_volume = roll_push (bs_volume s) (qty_get (bar_volume b)),
             bs_typical = roll_push (bs_typical s) t\<rparr>)
           (typical_price (dm_arith M) h l c))"

definition bars_is_full :: "bars \<Rightarrow> bool" where
  "bars_is_full s \<longleftrightarrow> roll_is_full (bs_close s)"

definition bars_clear :: "bars \<Rightarrow> bars" where
  "bars_clear s = bars_new (ro_cap (bs_close s))"

section \<open>The kernel trait\<close>

text \<open>
  \<open>Kernel\<close> for a state \<open>'k\<close>; \<open>observe\<close> and \<open>raw\<close> may panic. \<open>Indicator\<close> is implemented for
  every kernel by \<open>indicator_update\<close>, and \<open>compute_batch\<close> is that update over a slice.
\<close>

record 'k kernel_impl =
  kn_observe :: "'k \<Rightarrow> sample \<Rightarrow> 'k option"
  kn_warm :: "'k \<Rightarrow> bool"
  kn_raw :: "'k \<Rightarrow> val"
  kn_lookback :: "'k \<Rightarrow> usize"
  kn_quantiser :: "'k \<Rightarrow> quantiser"
  kn_id :: "'k \<Rightarrow> string"
  kn_clear :: "'k \<Rightarrow> 'k"

definition indicator_update ::
  "dec_math \<Rightarrow> 'k kernel_impl \<Rightarrow> 'k \<Rightarrow> sample \<Rightarrow> (qstate option \<times> 'k) option" where
  "indicator_update M K k s = do {
     k' \<leftarrow> kn_observe K k s;
     if kn_warm K k' then do {
       v \<leftarrow> kn_raw K k';
       case v of None \<Rightarrow> Some (None, k')
       | Some x \<Rightarrow> map_option (\<lambda>q. (Some q, k')) (quantise (dm_arith M) (kn_quantiser K k') x)
     }
     else Some (None, k')
   }"

fun compute_batch :: "dec_math \<Rightarrow> 'k kernel_impl \<Rightarrow> 'k \<Rightarrow> sample list \<Rightarrow> (qstate option list \<times> 'k) option" where
  "compute_batch M K k [] = Some ([], k)"
| "compute_batch M K k (s # ss) = do {
     r \<leftarrow> indicator_update M K k s;
     rs \<leftarrow> compute_batch M K (snd r) ss;
     Some (fst r # fst rs, snd rs)
   }"

lemma compute_batch_observes:
  "compute_batch M K k ss = Some (qs, k') \<Longrightarrow> run_opt (kn_observe K) k ss = Some k' \<and> length qs = length ss"
  by (induction ss arbitrary: k qs) (fastforce simp: indicator_update_def bind_eq_Some_conv split: if_splits option.splits)+

lemma compute_batch_append:
  "compute_batch M K k (us @ vs) = do { r \<leftarrow> compute_batch M K k us; q \<leftarrow> compute_batch M K (snd r) vs; Some (fst r @ fst q, snd q) }"
  by (induction us arbitrary: k) (auto simp: Option.bind_assoc intro!: Option.bind_cong)

text \<open>An update's answer is read off the state after the observation.\<close>

definition kernel_output :: "dec_math \<Rightarrow> 'k kernel_impl \<Rightarrow> 'k \<Rightarrow> qstate option option" where
  "kernel_output M K k =
     (if kn_warm K k
      then Option.bind (kn_raw K k) (\<lambda>v. case v of None \<Rightarrow> Some None
             | Some x \<Rightarrow> map_option Some (quantise (dm_arith M) (kn_quantiser K k) x))
      else Some None)"

lemma indicator_update_output: "indicator_update M K k s = Some (q, k') \<Longrightarrow> kernel_output M K k' = Some q"
  by (auto simp: indicator_update_def kernel_output_def bind_eq_Some_conv split: if_splits option.splits)

lemma compute_batch_last: "compute_batch M K k (vs @ [s]) = Some (qs, k') \<Longrightarrow> kernel_output M K k' = Some (last qs)"
  by (auto simp: compute_batch_append bind_eq_Some_conv dest: indicator_update_output)

text \<open>
  The finite-window contract: a kernel is built by observing from \<open>fresh\<close>, and once as many
  samples that \<open>counts\<close> have gone by as it declares, what came before them is forgotten. What the
  latest quantised value may depend on follows.
\<close>

locale fir_kernel =
  fixes K :: "'k kernel_impl" and fresh :: 'k and counts :: "sample \<Rightarrow> bool"
  assumes forgets: "kn_lookback K fresh \<le> length (filter counts vs) \<Longrightarrow> run_opt (kn_observe K) fresh us = Some k \<Longrightarrow>
      run_opt (kn_observe K) k vs = Some k' \<Longrightarrow> run_opt (kn_observe K) fresh vs = Some k'"
    and cold: "run_opt (kn_observe K) fresh vs = Some k \<Longrightarrow> kn_warm K k \<Longrightarrow> kn_lookback K fresh \<le> length (filter counts vs)"
begin

lemma same_history:
  assumes "kn_lookback K fresh \<le> length (filter counts (vs @ [s]))"
    and "compute_batch M K fresh (us @ vs @ [s]) = Some (qs, k)" "compute_batch M K fresh (vs @ [s]) = Some (rs, l)"
  shows "last qs = last rs \<and> k = l"
proof -
  obtain k1 where "run_opt (kn_observe K) fresh us = Some k1" "run_opt (kn_observe K) k1 (vs @ [s]) = Some k"
    using compute_batch_observes [OF assms(2)] by (auto simp: run_opt_append bind_eq_Some_conv)
  from forgets [OF assms(1) this] have "k = l"
    using compute_batch_observes [OF assms(3)] by simp
  moreover have "kernel_output M K k = Some (last qs)"
    using compute_batch_last [of M K fresh "us @ vs" s qs k] assms(2) by simp
  moreover have "kernel_output M K l = Some (last rs)"
    using compute_batch_last [OF assms(3)] .
  ultimately show ?thesis by simp
qed

lemma silent_until_warm:
  assumes "compute_batch M K fresh vs = Some (qs, k)" "length (filter counts vs) < kn_lookback K fresh"
  shows "set qs \<subseteq> {None}"
  using assms
proof (induction vs arbitrary: qs k rule: rev_induct)
  case Nil
  then show ?case by simp
next
  case (snoc s vs)
  then obtain q1 k1 q where pre: "compute_batch M K fresh vs = Some (q1, k1)" and qs: "qs = q1 @ [q]"
    by (auto simp: compute_batch_append bind_eq_Some_conv)
  have "\<not> kn_warm K k"
    using cold compute_batch_observes [OF snoc.prems(1)] snoc.prems(2) by fastforce
  then have "q = None" using compute_batch_last [OF snoc.prems(1)] qs by (simp add: kernel_output_def)
  moreover have "set q1 \<subseteq> {None}" using snoc.IH [OF pre] snoc.prems(2) by (auto split: if_splits)
  ultimately show ?case by (simp add: qs)
qed

end

end
