(* ===== verification/Price_Kernels.thy ===== *)
theory Price_Kernels imports Rolling begin

text \<open>
  The indicator kernels of the catalogue (\<open>qe-signal\<close>, \<open>indicator/price.rs\<close> and
  \<open>indicator/flow.rs\<close>): one value function per indicator over a finite window, the two kernels that
  drive them, and the list each module appends to the catalogue. A slice index outside its slice is
  a panic. The square-root and division behaviour of the package stays a parameter.
\<close>

section \<open>The bar kernel\<close>

record bars_kernel =
  bk_id :: string
  bk_q :: quantiser
  bk_bars :: bars
  bk_value :: "bars \<Rightarrow> val"

definition bars_kernel_impl :: "dec_math \<Rightarrow> bars_kernel kernel_impl" where
  "bars_kernel_impl M = \<lparr>
     kn_observe = (\<lambda>k s. map_option (\<lambda>b. k\<lparr>bk_bars := b\<rparr>) (bars_observe M (bk_bars k) (smp_bar s))),
     kn_warm = (\<lambda>k. bars_is_full (bk_bars k)),
     kn_raw = (\<lambda>k. bk_value k (bk_bars k)),
     kn_lookback = (\<lambda>k. ro_cap (bs_close (bk_bars k))),
     kn_quantiser = bk_q, kn_id = bk_id,
     kn_clear = (\<lambda>k. k\<lparr>bk_bars := bars_clear (bk_bars k)\<rparr>)\<rparr>"

definition lin :: "int \<Rightarrow> int \<Rightarrow> nat \<Rightarrow> quantiser" where
  "lin lo hi states = Linear (of_int lo) (of_int hi) states"

definition bars_indicator :: "string \<Rightarrow> usize \<Rightarrow> quantiser \<Rightarrow> (bars \<Rightarrow> val) \<Rightarrow> bars_kernel" where
  "bars_indicator ident lookback q v = \<lparr>bk_id = ident, bk_q = q, bk_bars = bars_new lookback, bk_value = v\<rparr>"

section \<open>Value functions\<close>

definition pct_change :: "dec_arith \<Rightarrow> decimal \<Rightarrow> decimal \<Rightarrow> val" where
  "pct_change A frm till =
     (if frm = 0 then Some None
      else do { q \<leftarrow> dec_div A till frm; d \<leftarrow> dec_sub A q 1; some_val (dec_mul A d 100) })"

definition ema_window :: "dec_arith \<Rightarrow> decimal list \<Rightarrow> nat \<Rightarrow> val" where
  "ema_window A values period =
     (case values of [] \<Rightarrow> Some None
      | first # rest \<Rightarrow> do {
          k \<leftarrow> dec_div A 2 (of_nat (period + 1));
          some_val (run_opt (\<lambda>ema v. do { d \<leftarrow> dec_sub A v ema; m \<leftarrow> dec_mul A k d; dec_add A ema m }) first rest)
        })"

definition sma_ratio :: "dec_math \<Rightarrow> bars \<Rightarrow> val" where
  "sma_ratio M b = q_bind (roll_mean M (bs_close b)) (\<lambda>m. q_bind (Some (roll_last (bs_close b))) (pct_change (dm_arith M) m))"

definition ema_ratio :: "dec_math \<Rightarrow> bars \<Rightarrow> val" where
  "ema_ratio M b = q_bind (ema_window (dm_arith M) (ro_buf (bs_close b)) (length (ro_buf (bs_close b)))) (\<lambda>e.
     q_bind (Some (roll_last (bs_close b))) (pct_change (dm_arith M) e))"

text \<open>The step of \<open>rsi\<close>'s loop; a zero difference counts as positive.\<close>

definition gain_loss :: "dec_arith \<Rightarrow> decimal \<times> decimal \<Rightarrow> decimal \<times> decimal \<Rightarrow> (decimal \<times> decimal) option" where
  "gain_loss A gl w = do {
     d \<leftarrow> dec_sub A (snd w) (fst w);
     if 0 \<le> d then map_option (\<lambda>g. (g, snd gl)) (dec_add A (fst gl) d)
     else map_option (\<lambda>l. (fst gl, l)) (dec_add A (snd gl) (- d))
   }"

text \<open>\<open>HUNDRED - HUNDRED / (ONE + x / y)\<close>, the shared tail of \<open>rsi\<close> and \<open>mfi\<close>.\<close>

definition strength :: "dec_arith \<Rightarrow> decimal \<Rightarrow> decimal \<Rightarrow> val" where
  "strength A up down =
     (if down = 0 then Some (Some 100)
      else do { rs \<leftarrow> dec_div A up down; one_rs \<leftarrow> dec_add A 1 rs; q \<leftarrow> dec_div A 100 one_rs; some_val (dec_sub A 100 q) })"

definition rsi :: "dec_math \<Rightarrow> bars \<Rightarrow> val" where
  "rsi M b = do {
     gl \<leftarrow> run_opt (gain_loss (dm_arith M)) (0, 0) (zip (ro_buf (bs_close b)) (tl (ro_buf (bs_close b))));
     strength (dm_arith M) (fst gl) (snd gl)
   }"

definition stoch_k :: "dec_math \<Rightarrow> bars \<Rightarrow> val" where
  "stoch_k M b = q_bind (Some (roll_max (bs_high b))) (\<lambda>hi. q_bind (Some (roll_min (bs_low b))) (\<lambda>lo.
     q_bind (Some (roll_last (bs_close b))) (\<lambda>c. do {
       range \<leftarrow> dec_sub (dm_arith M) hi lo;
       if range = 0 then some_val (dec_div (dm_arith M) 100 2)
       else do { n \<leftarrow> dec_sub (dm_arith M) c lo; q \<leftarrow> dec_div (dm_arith M) n range; some_val (dec_mul (dm_arith M) q 100) }
     })))"

definition williams_r :: "dec_math \<Rightarrow> bars \<Rightarrow> val" where
  "williams_r M b = q_bind (Some (roll_max (bs_high b))) (\<lambda>hi. q_bind (Some (roll_min (bs_low b))) (\<lambda>lo.
     q_bind (Some (roll_last (bs_close b))) (\<lambda>c. do {
       range \<leftarrow> dec_sub (dm_arith M) hi lo;
       if range = 0 then some_val (dec_div (dm_arith M) (- 100) 2)
       else do { n \<leftarrow> dec_sub (dm_arith M) hi c; q \<leftarrow> dec_div (dm_arith M) n range; some_val (dec_mul (dm_arith M) q (- 100)) }
     })))"

definition roc :: "dec_math \<Rightarrow> bars \<Rightarrow> val" where
  "roc M b = q_bind (Some (roll_first (bs_close b))) (\<lambda>f. q_bind (Some (roll_last (bs_close b))) (pct_change (dm_arith M) f))"

definition cci :: "dec_math \<Rightarrow> bars \<Rightarrow> val" where
  "cci M b = q_bind (Some (roll_last (bs_typical b))) (\<lambda>tp. q_bind (roll_mean M (bs_typical b)) (\<lambda>sma.
     q_bind (roll_mean_abs_dev M (bs_typical b)) (\<lambda>mad.
       if mad = 0 then Some (Some 0)
       else do { n \<leftarrow> dec_sub (dm_arith M) tp sma; d \<leftarrow> dec_mul (dm_arith M) (15 / 1000) mad; some_val (dec_div (dm_arith M) n d) })))"

definition bollinger_bounds :: "dec_math \<Rightarrow> bars \<Rightarrow> (decimal \<times> decimal \<times> decimal \<times> decimal) option option" where
  "bollinger_bounds M b = q_bind (roll_mean M (bs_close b)) (\<lambda>mean. q_bind (roll_std_pop M (bs_close b)) (\<lambda>sd. do {
     two_sd \<leftarrow> dec_mul (dm_arith M) 2 sd;
     lower \<leftarrow> dec_sub (dm_arith M) mean two_sd;
     upper \<leftarrow> dec_add (dm_arith M) mean two_sd;
     Some (Some (mean, sd, lower, upper))
   }))"

definition bb_percent :: "dec_math \<Rightarrow> bars \<Rightarrow> val" where
  "bb_percent M b = q_bind (bollinger_bounds M b) (\<lambda>(mean, sd, lower, upper). do {
     width \<leftarrow> dec_sub (dm_arith M) upper lower;
     if width = 0 then Some (Some (5 / 10))
     else q_bind (Some (roll_last (bs_close b))) (\<lambda>c. do { n \<leftarrow> dec_sub (dm_arith M) c lower; some_val (dec_div (dm_arith M) n width) })
   })"

definition bb_bandwidth :: "dec_math \<Rightarrow> bars \<Rightarrow> val" where
  "bb_bandwidth M b = q_bind (bollinger_bounds M b) (\<lambda>(mean, sd, lower, upper).
     if mean = 0 then Some None
     else do { w \<leftarrow> dec_sub (dm_arith M) upper lower; q \<leftarrow> dec_div (dm_arith M) w mean; some_val (dec_mul (dm_arith M) q 100) })"

definition money_flow :: "dec_arith \<Rightarrow> decimal list \<Rightarrow> decimal list \<Rightarrow> decimal \<times> decimal \<Rightarrow> nat \<Rightarrow> (decimal \<times> decimal) option" where
  "money_flow A tp vol pn i = do {
     t \<leftarrow> get_opt tp i;
     v \<leftarrow> get_opt vol i;
     flow \<leftarrow> dec_mul A t v;
     t0 \<leftarrow> get_opt tp (i - 1);
     if t0 < t then map_option (\<lambda>p. (p, snd pn)) (dec_add A (fst pn) flow)
     else if t < t0 then map_option (\<lambda>n. (fst pn, n)) (dec_add A (snd pn) flow)
     else Some pn
   }"

definition mfi :: "dec_math \<Rightarrow> bars \<Rightarrow> val" where
  "mfi M b = do {
     pn \<leftarrow> run_opt (money_flow (dm_arith M) (ro_buf (bs_typical b)) (ro_buf (bs_volume b))) (0, 0)
             [1..<length (ro_buf (bs_typical b))];
     strength (dm_arith M) (fst pn) (snd pn)
   }"

definition extremes :: "decimal list \<Rightarrow> decimal list \<Rightarrow> nat \<times> nat \<Rightarrow> nat \<Rightarrow> (nat \<times> nat) option" where
  "extremes highs lows e i = do {
     hi \<leftarrow> get_opt highs i;
     hx \<leftarrow> get_opt highs (fst e);
     li \<leftarrow> get_opt lows i;
     lx \<leftarrow> get_opt lows (snd e);
     Some (if hx \<le> hi then i else fst e, if li \<le> lx then i else snd e)
   }"

definition aroon_side :: "dec_arith \<Rightarrow> decimal \<Rightarrow> decimal \<Rightarrow> decimal option" where
  "aroon_side A denom since = do { n \<leftarrow> dec_sub A denom since; q \<leftarrow> dec_div A n denom; dec_mul A q 100 }"

definition aroon_osc :: "dec_math \<Rightarrow> bars \<Rightarrow> val" where
  "aroon_osc M b =
     (let n = length (ro_buf (bs_high b))
      in if n < 2 then Some None
         else do {
           e \<leftarrow> run_opt (extremes (ro_buf (bs_high b)) (ro_buf (bs_low b))) (0, 0) [1..<n];
           up \<leftarrow> aroon_side (dm_arith M) (of_nat (n - 1)) (of_nat (n - 1 - fst e));
           down \<leftarrow> aroon_side (dm_arith M) (of_nat (n - 1)) (of_nat (n - 1 - snd e));
           some_val (dec_sub (dm_arith M) up down)
         })"

definition true_range :: "dec_arith \<Rightarrow> decimal list \<Rightarrow> decimal list \<Rightarrow> decimal list \<Rightarrow> nat \<Rightarrow> decimal option" where
  "true_range A h l c i = do {
     hi \<leftarrow> get_opt h i;
     li \<leftarrow> get_opt l i;
     c0 \<leftarrow> get_opt c (i - 1);
     a \<leftarrow> dec_sub A hi li;
     b \<leftarrow> dec_sub A hi c0;
     d \<leftarrow> dec_sub A li c0;
     Some (max (max a \<bar>b\<bar>) \<bar>d\<bar>)
   }"

definition atr_pct :: "dec_math \<Rightarrow> bars \<Rightarrow> val" where
  "atr_pct M b =
     (let h = ro_buf (bs_high b)
      in do {
        sum \<leftarrow> run_opt (\<lambda>s i. do { tr \<leftarrow> true_range (dm_arith M) h (ro_buf (bs_low b)) (ro_buf (bs_close b)) i; dec_add (dm_arith M) s tr })
                 0 [1..<length h];
        atr \<leftarrow> dec_div (dm_arith M) sum (of_int (int (length h) - 1));
        q_bind (Some (roll_last (bs_close b))) (\<lambda>last.
          if last = 0 then Some None
          else do { q \<leftarrow> dec_div (dm_arith M) atr last; some_val (dec_mul (dm_arith M) q 100) })
      })"

fun returns_of :: "dec_arith \<Rightarrow> decimal list \<Rightarrow> decimal list option option" where
  "returns_of A (x # y # ys) =
     (if x = 0 then Some None
      else do { q \<leftarrow> dec_div A y x; r \<leftarrow> dec_sub A q 1; q_bind (returns_of A (y # ys)) (\<lambda>rs. Some (Some (r # rs))) })"
| "returns_of A xs = Some (Some [])"

definition std_returns :: "dec_math \<Rightarrow> bars \<Rightarrow> val" where
  "std_returns M b = q_bind (returns_of (dm_arith M) (ro_buf (bs_close b))) (\<lambda>rets. do {
     s \<leftarrow> dec_sum (dm_arith M) rets;
     mean \<leftarrow> dec_div (dm_arith M) s (of_nat (length rets));
     sq \<leftarrow> map_opt (squared_dev (dm_arith M) mean) rets;
     s2 \<leftarrow> dec_sum (dm_arith M) sq;
     var \<leftarrow> dec_div (dm_arith M) s2 (of_nat (length rets));
     q_bind (Some (dm_sqrt M var)) (\<lambda>sd. some_val (dec_mul (dm_arith M) sd 100))
   })"

definition volume_ratio :: "dec_math \<Rightarrow> bars \<Rightarrow> val" where
  "volume_ratio M b = q_bind (roll_mean M (bs_volume b)) (\<lambda>mean.
     if mean = 0 then Some None
     else q_bind (Some (roll_last (bs_volume b))) (\<lambda>v. some_val (dec_div (dm_arith M) v mean)))"

definition signed_step :: "dec_arith \<Rightarrow> decimal list \<Rightarrow> decimal list \<Rightarrow> decimal \<times> decimal \<Rightarrow> nat \<Rightarrow> (decimal \<times> decimal) option" where
  "signed_step A c v st i = do {
     vi \<leftarrow> get_opt v i;
     total \<leftarrow> dec_add A (snd st) vi;
     ci \<leftarrow> get_opt c i;
     c0 \<leftarrow> get_opt c (i - 1);
     if c0 < ci then map_option (\<lambda>s. (s, total)) (dec_add A (fst st) vi)
     else if ci < c0 then map_option (\<lambda>s. (s, total)) (dec_sub A (fst st) vi)
     else Some (fst st, total)
   }"

definition signed_volume_ratio :: "dec_math \<Rightarrow> bars \<Rightarrow> val" where
  "signed_volume_ratio M b = do {
     st \<leftarrow> run_opt (signed_step (dm_arith M) (ro_buf (bs_close b)) (ro_buf (bs_volume b))) (0, 0)
             [1..<length (ro_buf (bs_close b))];
     if snd st = 0 then Some None else some_val (dec_div (dm_arith M) (fst st) (snd st))
   }"

definition money_multiplier :: "dec_arith \<Rightarrow> decimal \<Rightarrow> decimal \<Rightarrow> decimal \<Rightarrow> decimal option" where
  "money_multiplier A h l c = do {
     range \<leftarrow> dec_sub A h l;
     if range = 0 then Some 0
     else do { up \<leftarrow> dec_sub A c l; down \<leftarrow> dec_sub A h c; n \<leftarrow> dec_sub A up down; dec_div A n range }
   }"

definition cmf_step :: "dec_arith \<Rightarrow> bars \<Rightarrow> decimal \<times> decimal \<Rightarrow> nat \<Rightarrow> (decimal \<times> decimal) option" where
  "cmf_step A b st i = do {
     h \<leftarrow> get_opt (ro_buf (bs_high b)) i;
     l \<leftarrow> get_opt (ro_buf (bs_low b)) i;
     c \<leftarrow> get_opt (ro_buf (bs_close b)) i;
     mfm \<leftarrow> money_multiplier A h l c;
     v \<leftarrow> get_opt (ro_buf (bs_volume b)) i;
     fv \<leftarrow> dec_mul A mfm v;
     mfv \<leftarrow> dec_add A (fst st) fv;
     vol \<leftarrow> dec_add A (snd st) v;
     Some (mfv, vol)
   }"

definition cmf :: "dec_math \<Rightarrow> bars \<Rightarrow> val" where
  "cmf M b = do {
     st \<leftarrow> run_opt (cmf_step (dm_arith M) b) (0, 0) [0..<length (ro_buf (bs_high b))];
     if snd st = 0 then Some None else some_val (dec_div (dm_arith M) (fst st) (snd st))
   }"

text \<open>One value of the MACD line, for a window of closes ending at position \<open>till\<close>.\<close>

definition macd_value :: "dec_arith \<Rightarrow> decimal list \<Rightarrow> nat \<Rightarrow> val" where
  "macd_value A c till =
     q_bind (ema_window A (take 12 (drop (till + 1 - 12) c)) 12) (\<lambda>fast.
     q_bind (ema_window A (take 26 (drop (till + 1 - 26) c)) 26) (\<lambda>slow. some_val (dec_sub A fast slow)))"

fun macd_line :: "dec_arith \<Rightarrow> decimal list \<Rightarrow> nat list \<Rightarrow> decimal list option option" where
  "macd_line A c [] = Some (Some [])"
| "macd_line A c (e # es) = q_bind (macd_value A c e) (\<lambda>v. q_bind (macd_line A c es) (\<lambda>vs. Some (Some (v # vs))))"

definition macd_hist :: "dec_math \<Rightarrow> bars \<Rightarrow> val" where
  "macd_hist M b =
     (let c = ro_buf (bs_close b)
      in if length c < 34 then Some None
         else q_bind (macd_line (dm_arith M) c [25..<length c]) (\<lambda>line. do {
           s \<leftarrow> dec_sum (dm_arith M) line;
           signal \<leftarrow> dec_div (dm_arith M) s (of_nat (length line));
           q_bind (Some (last_opt line)) (\<lambda>macd. do {
             hist \<leftarrow> dec_sub (dm_arith M) macd signal;
             q_bind (Some (last_opt c)) (\<lambda>last.
               if last = 0 then Some None
               else do { q \<leftarrow> dec_div (dm_arith M) hist last; some_val (dec_mul (dm_arith M) q 100) })
           })
         }))"

definition bb_percent_quant :: "nat \<Rightarrow> quantiser" where
  "bb_percent_quant states = Linear (- 5 / 10) (15 / 10) states"

definition signed_unit_quant :: "nat \<Rightarrow> quantiser" where
  "signed_unit_quant states = Linear (- 1) 1 states"

definition price_catalogue :: "dec_math \<Rightarrow> nat \<Rightarrow> bars_kernel list" where
  "price_catalogue M states = [
     bars_indicator ''sma_ratio_20'' 20 (lin (- 10) 10 states) (sma_ratio M),
     bars_indicator ''ema_ratio_20'' 20 (lin (- 10) 10 states) (ema_ratio M),
     bars_indicator ''rsi_14'' 15 (lin 0 100 states) (rsi M),
     bars_indicator ''stoch_k_14'' 14 (lin 0 100 states) (stoch_k M),
     bars_indicator ''williams_r_14'' 14 (lin (- 100) 0 states) (williams_r M),
     bars_indicator ''roc_10'' 11 (lin (- 25) 25 states) (roc M),
     bars_indicator ''return_1'' 2 (lin (- 5) 5 states) (roc M),
     bars_indicator ''cci_20'' 20 (lin (- 200) 200 states) (cci M),
     bars_indicator ''bb_percent_20'' 20 (bb_percent_quant states) (bb_percent M),
     bars_indicator ''bb_bandwidth_20'' 20 (lin 0 20 states) (bb_bandwidth M),
     bars_indicator ''mfi_14'' 15 (lin 0 100 states) (mfi M),
     bars_indicator ''aroon_osc_25'' 25 (lin (- 100) 100 states) (aroon_osc M),
     bars_indicator ''atr_pct_14'' 15 (lin 0 10 states) (atr_pct M),
     bars_indicator ''std_returns_20'' 21 (lin 0 10 states) (std_returns M),
     bars_indicator ''volume_ratio_20'' 20 (lin 0 4 states) (volume_ratio M),
     bars_indicator ''signed_volume_ratio_14'' 15 (signed_unit_quant states) (signed_volume_ratio M),
     bars_indicator ''cmf_20'' 20 (signed_unit_quant states) (cmf M),
     bars_indicator ''macd_hist_12_26_9'' 34 (lin (- 2) 2 states) (macd_hist M)]"

section \<open>The scalar kernel\<close>

record scalar_kernel =
  sk_id :: string
  sk_q :: quantiser
  sk_roll :: roll
  sk_select :: "sample \<Rightarrow> decimal option"
  sk_value :: "roll \<Rightarrow> val"

definition scalar_kernel_impl :: "scalar_kernel kernel_impl" where
  "scalar_kernel_impl = \<lparr>
     kn_observe = (\<lambda>k s. Some (case sk_select k s of None \<Rightarrow> k | Some v \<Rightarrow> k\<lparr>sk_roll := roll_push (sk_roll k) v\<rparr>)),
     kn_warm = (\<lambda>k. roll_is_full (sk_roll k)),
     kn_raw = (\<lambda>k. sk_value k (sk_roll k)),
     kn_lookback = (\<lambda>k. ro_cap (sk_roll k)),
     kn_quantiser = sk_q, kn_id = sk_id,
     kn_clear = (\<lambda>k. k\<lparr>sk_roll := roll_new (ro_cap (sk_roll k))\<rparr>)\<rparr>"

definition scalar_indicator :: "string \<Rightarrow> usize \<Rightarrow> quantiser \<Rightarrow> (sample \<Rightarrow> decimal option) \<Rightarrow> (roll \<Rightarrow> val) \<Rightarrow> scalar_kernel" where
  "scalar_indicator ident lookback q sel v =
     \<lparr>sk_id = ident, sk_q = q, sk_roll = roll_new lookback, sk_select = sel, sk_value = v\<rparr>"

definition flow_latest :: "roll \<Rightarrow> val" where
  "flow_latest r = Some (roll_last r)"

definition flow_roc :: "dec_arith \<Rightarrow> roll \<Rightarrow> val" where
  "flow_roc A r = q_bind (Some (roll_first r)) (\<lambda>first.
     if first = 0 then Some None
     else q_bind (Some (roll_last r)) (\<lambda>last.
       do { q \<leftarrow> dec_div A last first; d \<leftarrow> dec_sub A q 1; some_val (dec_mul A d 100) }))"

definition rate_quant :: "nat \<Rightarrow> quantiser" where
  "rate_quant states = Linear (- 1 / 100) (1 / 100) states"

definition flow_catalogue :: "dec_math \<Rightarrow> nat \<Rightarrow> scalar_kernel list" where
  "flow_catalogue M states = [
     scalar_indicator ''funding_state'' 1 (rate_quant states) smp_funding flow_latest,
     scalar_indicator ''funding_avg_8'' 8 (rate_quant states) smp_funding (roll_mean M),
     scalar_indicator ''oi_roc_10'' 11 (Linear (- 25) 25 states) smp_open_interest (flow_roc (dm_arith M)),
     scalar_indicator ''premium_state'' 1 (rate_quant states) smp_premium flow_latest]"

end
