(* ===== verification/Expr_Tree.thy ===== *)
theory Expr_Tree imports Price_Kernels begin

text \<open>
  The evolved indicator formulas (\<open>qe-signal\<close>, \<open>indicator/expr.rs\<close>): expression trees, their
  declared lookback, the compiled tree that folds one bar at a time, and the indicator built on it.
  The type of constants is a parameter, since evaluation reads a decimal's value and printing its
  written form. The reference semantics \<open>naive\<close> recomputes a formula from a whole history.
\<close>

section \<open>Trees\<close>

datatype price_field = Close | High | Low | Volume | Typical
datatype unop = Abs_Op | Sign_Op | Neg_Op
datatype binop = Add_Op | Sub_Op | Mul_Op | Div_Op
datatype winop = Mean_Win | Max_Win | Min_Win | Std_Win | MeanAbsDev_Win | Delta_Win | Lag_Win | Rank_Win | Zscore_Win

datatype 'd expr =
    Input price_field
  | Const 'd
  | Unary unop "'d expr"
  | Binary binop "'d expr" "'d expr"
  | Window winop "'d expr" usize

definition is_normalising :: "winop \<Rightarrow> bool" where
  "is_normalising w \<longleftrightarrow> w = Rank_Win \<or> w = Zscore_Win"

fun max_lookback :: "'d expr \<Rightarrow> usize" where
  "max_lookback (Input f) = 1"
| "max_lookback (Const c) = 0"
| "max_lookback (Unary op e) = max_lookback e"
| "max_lookback (Binary op a b) = max (max_lookback a) (max_lookback b)"
| "max_lookback (Window op e cap) = (cap - 1) + max_lookback e"

section \<open>The compiled tree\<close>

datatype node =
    NInput price_field
  | NConst decimal
  | NUnary unop node
  | NBinary binop node node
  | NWindow winop node roll

fun compile_node :: "decimal expr \<Rightarrow> node" where
  "compile_node (Input f) = NInput f"
| "compile_node (Const c) = NConst c"
| "compile_node (Unary op e) = NUnary op (compile_node e)"
| "compile_node (Binary op a b) = NBinary op (compile_node a) (compile_node b)"
| "compile_node (Window op e cap) = NWindow op (compile_node e) (roll_new (max cap 1))"

fun field_value :: "dec_math \<Rightarrow> price_field \<Rightarrow> sample \<Rightarrow> decimal option" where
  "field_value M Close s = Some (price_get (bar_close (smp_bar s)))"
| "field_value M High s = Some (price_get (bar_high (smp_bar s)))"
| "field_value M Low s = Some (price_get (bar_low (smp_bar s)))"
| "field_value M Volume s = Some (qty_get (bar_volume (smp_bar s)))"
| "field_value M Typical s =
     typical_price (dm_arith M) (price_get (bar_high (smp_bar s))) (price_get (bar_low (smp_bar s))) (price_get (bar_close (smp_bar s)))"

fun apply_unary :: "unop \<Rightarrow> decimal \<Rightarrow> decimal" where
  "apply_unary Abs_Op v = \<bar>v\<bar>"
| "apply_unary Neg_Op v = - v"
| "apply_unary Sign_Op v = (if v = 0 then 0 else if 0 < v then 1 else - 1)"

definition div_epsilon :: decimal where
  "div_epsilon = 1 / 1000000000"

fun apply_binary :: "dec_arith \<Rightarrow> binop \<Rightarrow> decimal \<Rightarrow> decimal \<Rightarrow> decimal option" where
  "apply_binary A Add_Op x y = dec_add A x y"
| "apply_binary A Sub_Op x y = dec_sub A x y"
| "apply_binary A Mul_Op x y = dec_mul A x y"
| "apply_binary A Div_Op x y = (if \<bar>y\<bar> < div_epsilon then Some 0 else dec_div A x y)"

definition zscore_clip :: decimal where
  "zscore_clip = 4"

fun aggregate :: "dec_math \<Rightarrow> winop \<Rightarrow> roll \<Rightarrow> val" where
  "aggregate M Mean_Win r = roll_mean M r"
| "aggregate M Max_Win r = Some (roll_max r)"
| "aggregate M Min_Win r = Some (roll_min r)"
| "aggregate M Std_Win r = roll_std_pop M r"
| "aggregate M MeanAbsDev_Win r = roll_mean_abs_dev M r"
| "aggregate M Delta_Win r =
     q_bind (Some (roll_last r)) (\<lambda>new. q_bind (Some (roll_first r)) (\<lambda>old. some_val (dec_sub (dm_arith M) new old)))"
| "aggregate M Lag_Win r = Some (roll_first r)"
| "aggregate M Rank_Win r =
     q_bind (Some (roll_last r)) (\<lambda>current.
       let below = length (filter (\<lambda>v. v < current) (ro_buf r))
       in some_val (dec_div (dm_arith M) (of_nat below) (of_nat (ro_cap r))))"
| "aggregate M Zscore_Win r =
     q_bind (Some (roll_last r)) (\<lambda>current. q_bind (roll_mean M r) (\<lambda>mean. q_bind (roll_std_pop M r) (\<lambda>std.
       if std = 0 then Some (Some 0)
       else do {
         d \<leftarrow> dec_sub (dm_arith M) current mean;
         z \<leftarrow> dec_div (dm_arith M) d std;
         Some (Some (max (- zscore_clip) (min zscore_clip z)))
       })))"

text \<open>One fold of the tree for a bar; both children of a binary node are always evaluated.\<close>

fun eval :: "dec_math \<Rightarrow> node \<Rightarrow> sample \<Rightarrow> (decimal option \<times> node) option" where
  "eval M (NInput f) s = map_option (\<lambda>v. (Some v, NInput f)) (field_value M f s)"
| "eval M (NConst c) s = Some (Some c, NConst c)"
| "eval M (NUnary op n) s = map_option (\<lambda>r. (map_option (apply_unary op) (fst r), NUnary op (snd r))) (eval M n s)"
| "eval M (NBinary op a b) s = do {
     ra \<leftarrow> eval M a s;
     rb \<leftarrow> eval M b s;
     v \<leftarrow> (case (fst ra, fst rb) of
             (Some x, Some y) \<Rightarrow> map_option Some (apply_binary (dm_arith M) op x y)
           | _ \<Rightarrow> Some None);
     Some (v, NBinary op (snd ra) (snd rb))
   }"
| "eval M (NWindow op n r) s = do {
     rn \<leftarrow> eval M n s;
     let r' = (case fst rn of Some v \<Rightarrow> roll_push r v | None \<Rightarrow> r);
     v \<leftarrow> (if roll_is_full r' then aggregate M op r' else Some None);
     Some (v, NWindow op (snd rn) r')
   }"

fun clear_node :: "node \<Rightarrow> node" where
  "clear_node (NInput f) = NInput f"
| "clear_node (NConst c) = NConst c"
| "clear_node (NUnary op n) = NUnary op (clear_node n)"
| "clear_node (NBinary op a b) = NBinary op (clear_node a) (clear_node b)"
| "clear_node (NWindow op n r) = NWindow op (clear_node n) (roll_new (ro_cap r))"

fun eval_nodes :: "dec_math \<Rightarrow> node \<Rightarrow> sample list \<Rightarrow> decimal option list option" where
  "eval_nodes M n [] = Some []"
| "eval_nodes M n (s # ss) = do { r \<leftarrow> eval M n s; vs \<leftarrow> eval_nodes M (snd r) ss; Some (fst r # vs) }"

definition eval_stream :: "dec_math \<Rightarrow> decimal expr \<Rightarrow> sample list \<Rightarrow> decimal option list option" where
  "eval_stream M e ss = eval_nodes M (compile_node e) ss"

record expr_indicator =
  ei_id :: string
  ei_q :: quantiser
  ei_root :: node
  ei_lookback :: usize
  ei_cached :: "decimal option"

definition expr_kernel_impl :: "dec_math \<Rightarrow> expr_indicator kernel_impl" where
  "expr_kernel_impl M = \<lparr>
     kn_observe = (\<lambda>k s. map_option (\<lambda>r. k\<lparr>ei_root := snd r, ei_cached := fst r\<rparr>) (eval M (ei_root k) s)),
     kn_warm = (\<lambda>k. ei_cached k \<noteq> None),
     kn_raw = (\<lambda>k. Some (ei_cached k)),
     kn_lookback = ei_lookback, kn_quantiser = ei_q, kn_id = ei_id,
     kn_clear = (\<lambda>k. k\<lparr>ei_root := clear_node (ei_root k), ei_cached := None\<rparr>)\<rparr>"

definition compile_expr :: "string \<Rightarrow> decimal expr \<Rightarrow> quantiser \<Rightarrow> expr_indicator" where
  "compile_expr ident e q = \<lparr>ei_id = ident, ei_q = q, ei_root = compile_node e, ei_lookback = max_lookback e, ei_cached = None\<rparr>"

section \<open>The reference semantics\<close>

definition histories :: "'a list \<Rightarrow> 'a list list" where
  "histories ss = map (\<lambda>i. take (Suc i) ss) [0..<length ss]"

definition somes :: "'a option list \<Rightarrow> 'a list" where
  "somes vs = map the (filter (\<lambda>v. v \<noteq> None) vs)"

primrec naive :: "dec_math \<Rightarrow> decimal expr \<Rightarrow> sample list \<Rightarrow> val" where
  "naive M (Input f) = (\<lambda>ss. some_val (field_value M f (last ss)))"
| "naive M (Const c) = (\<lambda>ss. Some (Some c))"
| "naive M (Unary op e) = (\<lambda>ss. map_option (map_option (apply_unary op)) (naive M e ss))"
| "naive M (Binary op a b) = (\<lambda>ss. do {
     va \<leftarrow> naive M a ss;
     vb \<leftarrow> naive M b ss;
     (case (va, vb) of (Some x, Some y) \<Rightarrow> some_val (apply_binary (dm_arith M) op x y) | _ \<Rightarrow> Some None)
   })"
| "naive M (Window op e cap) = (\<lambda>ss. do {
     vs \<leftarrow> map_opt (naive M e) (histories ss);
     if max cap 1 \<le> length (somes vs)
     then aggregate M op \<lparr>ro_cap = max cap 1, ro_buf = lastn (max cap 1) (somes vs)\<rparr>
     else Some None
   })"

lemma histories_snoc [simp]: "histories (ss @ [s]) = histories ss @ [ss @ [s]]"
  by (simp add: histories_def)

lemma somes_simps [simp]: "somes [] = []" "somes (us @ vs) = somes us @ somes vs" "somes [None] = []" "somes [Some x] = [x]"
  by (simp_all add: somes_def)

lemma map_opt_append: "map_opt f (us @ vs) = do { a \<leftarrow> map_opt f us; b \<leftarrow> map_opt f vs; Some (a @ b) }"
  by (induction us) (auto simp: Option.bind_assoc intro!: Option.bind_cong)

section \<open>Streaming is recomputing\<close>

text \<open>The compiled tree after a history that did not panic.\<close>

primrec node_after :: "dec_math \<Rightarrow> decimal expr \<Rightarrow> sample list \<Rightarrow> node option" where
  "node_after M (Input f) = (\<lambda>ss. Some (NInput f))"
| "node_after M (Const c) = (\<lambda>ss. Some (NConst c))"
| "node_after M (Unary op e) = (\<lambda>ss. map_option (NUnary op) (node_after M e ss))"
| "node_after M (Binary op a b) = (\<lambda>ss. do { na \<leftarrow> node_after M a ss; nb \<leftarrow> node_after M b ss; Some (NBinary op na nb) })"
| "node_after M (Window op e cap) = (\<lambda>ss. do {
     n \<leftarrow> node_after M e ss;
     vs \<leftarrow> map_opt (naive M e) (histories ss);
     Some (NWindow op n (roll_push_all (roll_new (max cap 1)) (somes vs)))
   })"

lemma node_after_Nil [simp]: "node_after M e [] = Some (compile_node e)"
  by (induction e) (simp_all add: histories_def)

lemma eval_node_after:
  "node_after M e ss = Some n \<Longrightarrow>
     eval M n s = (case naive M e (ss @ [s]) of None \<Rightarrow> None | Some v \<Rightarrow> map_option (Pair v) (node_after M e (ss @ [s]))) \<and>
     (naive M e (ss @ [s]) \<noteq> None \<longrightarrow> node_after M e (ss @ [s]) \<noteq> None)"
proof (induction e arbitrary: n)
  case (Input f)
  then show ?case by (cases "field_value M f s") auto
next
  case (Const c)
  then show ?case by auto
next
  case (Unary op e)
  from Unary.prems obtain n' where n: "node_after M e ss = Some n'" "n = NUnary op n'" by auto
  from Unary.IH [OF n(1)] show ?case
    by (cases "naive M e (ss @ [s])"; cases "node_after M e (ss @ [s])") (auto simp: n(2))
next
  case (Binary op a b)
  from Binary.prems obtain na nb where n: "node_after M a ss = Some na" "node_after M b ss = Some nb" "n = NBinary op na nb"
    by (auto simp: bind_eq_Some_conv)
  from Binary.IH(1) [OF n(1)] Binary.IH(2) [OF n(2)] show ?case
    by (cases "naive M a (ss @ [s])"; cases "naive M b (ss @ [s])"; cases "node_after M a (ss @ [s])"; cases "node_after M b (ss @ [s])")
      (auto simp: n(3) some_val_def bind_eq_Some_conv split: option.splits)
next
  case (Window op e cap)
  from Window.prems obtain m vs where n: "node_after M e ss = Some m" "map_opt (naive M e) (histories ss) = Some vs"
      "n = NWindow op m (roll_push_all (roll_new (max cap 1)) (somes vs))"
    by (auto simp: bind_eq_Some_conv)
  note IH = Window.IH [OF n(1)]
  show ?case
  proof (cases "naive M e (ss @ [s])")
    case None
    with IH n show ?thesis by (simp add: map_opt_append)
  next
    case (Some v)
    with IH obtain m' where m': "node_after M e (ss @ [s]) = Some m'" by auto
    let ?r = "roll_push_all (roll_new (max cap 1)) (somes (vs @ [v]))"
    have push: "(case v of Some x \<Rightarrow> roll_push (roll_push_all (roll_new (max cap 1)) (somes vs)) x
        | None \<Rightarrow> roll_push_all (roll_new (max cap 1)) (somes vs)) = ?r"
      by (cases v) simp_all
    have full: "roll_is_full ?r \<longleftrightarrow> max cap 1 \<le> length (somes (vs @ [v]))" using roll_full_iff [of "max cap 1"] by simp
    have r: "?r = \<lparr>ro_cap = max cap 1, ro_buf = lastn (max cap 1) (somes (vs @ [v]))\<rparr>"
      using roll_window [of "max cap 1"] by simp
    have vs': "map_opt (naive M e) (histories (ss @ [s])) = Some (vs @ [v])"
      using n(2) Some by (simp add: map_opt_append)
    have after: "node_after M (Window op e cap) (ss @ [s]) = Some (NWindow op m' ?r)" using m' vs' by simp
    have evm: "eval M m s = Some (v, m')" using IH Some m' by simp
    have ev: "eval M n s = do { w \<leftarrow> (if roll_is_full ?r then aggregate M op ?r else Some None); Some (w, NWindow op m' ?r) }"
      by (simp only: n(3) eval.simps evm Option.bind.simps fst_conv snd_conv push Let_def)
    have nv: "naive M (Window op e cap) (ss @ [s]) = (if roll_is_full ?r then aggregate M op ?r else Some None)"
      unfolding naive.simps vs' full by (simp only: Option.bind.simps r)
    show ?thesis unfolding after ev nv by (simp split: option.splits)
  qed
qed

end
