(* ===== verification/Expr_Repair.thy ===== *)
theory Expr_Repair imports Expr_Tree begin

text \<open>
  The structure of evolved formulas and their repair (\<open>qe-signal\<close>, \<open>indicator/expr.rs\<close>): node
  counts and indexing, snapping to the period lattice and the constant grid, pruning, and
  \<open>ExprTree::repair\<close>, which puts any tree on the manifold of valid ones.
\<close>

section \<open>Counting and indexing\<close>

fun count_nodes :: "'d expr \<Rightarrow> usize" where
  "count_nodes (Input f) = 1"
| "count_nodes (Const c) = 1"
| "count_nodes (Unary op e) = 1 + count_nodes e"
| "count_nodes (Binary op a b) = 1 + count_nodes a + count_nodes b"
| "count_nodes (Window op e n) = 1 + count_nodes e"

fun tree_depth :: "'d expr \<Rightarrow> usize" where
  "tree_depth (Input f) = 1"
| "tree_depth (Const c) = 1"
| "tree_depth (Unary op e) = 1 + tree_depth e"
| "tree_depth (Binary op a b) = 1 + max (tree_depth a) (tree_depth b)"
| "tree_depth (Window op e n) = 1 + tree_depth e"

text \<open>The walk of \<open>nth_node\<close>, with its running counter; \<open>nth_node_mut\<close> is the same walk with a change at its end.\<close>

fun walk :: "'d expr \<Rightarrow> nat \<Rightarrow> nat \<Rightarrow> 'd expr option \<times> nat" where
  "walk (Input f) target cur = (if cur = target then (Some (Input f), cur) else (None, cur + 1))"
| "walk (Const c) target cur = (if cur = target then (Some (Const c), cur) else (None, cur + 1))"
| "walk (Unary op e) target cur = (if cur = target then (Some (Unary op e), cur) else walk e target (cur + 1))"
| "walk (Window op e n) target cur = (if cur = target then (Some (Window op e n), cur) else walk e target (cur + 1))"
| "walk (Binary op a b) target cur =
     (if cur = target then (Some (Binary op a b), cur)
      else case walk a target (cur + 1) of (Some e, c) \<Rightarrow> (Some e, c) | (None, c) \<Rightarrow> walk b target c)"

definition nth_node :: "'d expr \<Rightarrow> nat \<Rightarrow> 'd expr option" where
  "nth_node e i = fst (walk e i 0)"

fun walk_mut :: "('d expr \<Rightarrow> 'd expr) \<Rightarrow> 'd expr \<Rightarrow> nat \<Rightarrow> nat \<Rightarrow> 'd expr option \<times> nat" where
  "walk_mut f (Input x) target cur = (if cur = target then (Some (f (Input x)), cur) else (None, cur + 1))"
| "walk_mut f (Const c) target cur = (if cur = target then (Some (f (Const c)), cur) else (None, cur + 1))"
| "walk_mut f (Unary op e) target cur =
     (if cur = target then (Some (f (Unary op e)), cur) else apfst (map_option (Unary op)) (walk_mut f e target (cur + 1)))"
| "walk_mut f (Window op e n) target cur =
     (if cur = target then (Some (f (Window op e n)), cur)
      else apfst (map_option (\<lambda>e. Window op e n)) (walk_mut f e target (cur + 1)))"
| "walk_mut f (Binary op a b) target cur =
     (if cur = target then (Some (f (Binary op a b)), cur)
      else case walk_mut f a target (cur + 1) of
        (Some a', c) \<Rightarrow> (Some (Binary op a' b), c)
      | (None, c) \<Rightarrow> apfst (map_option (Binary op a)) (walk_mut f b target c))"

definition update_nth_node :: "('d expr \<Rightarrow> 'd expr) \<Rightarrow> 'd expr \<Rightarrow> nat \<Rightarrow> 'd expr option" where
  "update_nth_node f e i = fst (walk_mut f e i 0)"

text \<open>The nodes in pre-order.\<close>

fun preorder :: "'d expr \<Rightarrow> 'd expr list" where
  "preorder (Input f) = [Input f]"
| "preorder (Const c) = [Const c]"
| "preorder (Unary op e) = Unary op e # preorder e"
| "preorder (Binary op a b) = Binary op a b # preorder a @ preorder b"
| "preorder (Window op e n) = Window op e n # preorder e"

lemma preorder_length [simp]: "length (preorder e) = count_nodes e"
  by (induction e) auto

lemma get_opt_Cons: "get_opt (x # xs) i = (if i = 0 then Some x else get_opt xs (i - 1))"
  by (cases i) (simp_all add: get_opt_def)

lemma get_opt_append: "get_opt (xs @ ys) i = (if i < length xs then get_opt xs i else get_opt ys (i - length xs))"
  by (auto simp: get_opt_def nth_append)

lemma walk_preorder:
  "cur \<le> target \<Longrightarrow> walk e target cur =
     (case get_opt (preorder e) (target - cur) of Some x \<Rightarrow> (Some x, target) | None \<Rightarrow> (None, cur + count_nodes e))"
proof (induction e arbitrary: cur)
  case (Binary op a b)
  show ?case
  proof (cases "cur = target")
    case True
    then show ?thesis by (simp add: get_opt_Cons)
  next
    case False
    with Binary.prems have lt: "Suc cur \<le> target" by simp
    show ?thesis
    proof (cases "target - Suc cur < count_nodes a")
      case True
      then show ?thesis using lt Binary.IH(1) [OF lt] False
        by (simp add: get_opt_Cons get_opt_append split: option.splits)
    next
      case False
      then have b: "Suc cur + count_nodes a \<le> target" using lt by simp
      have "walk a target (Suc cur) = (None, Suc cur + count_nodes a)"
        using Binary.IH(1) [OF lt] False by (simp split: option.splits)
      with b False show ?thesis using lt Binary.IH(2) [OF b]
        by (auto simp: get_opt_Cons get_opt_append split: option.splits)
    qed
  qed
qed (auto simp: get_opt_Cons split: option.splits)

section \<open>Lattice, grid and caps\<close>

definition period_lattice :: "nat list" where
  "period_lattice = [5, 10, 20, 50, 100]"

definition default_rank_period :: nat where "default_rank_period = 50"
definition max_depth :: nat where "max_depth = 4"
definition max_nodes :: nat where "max_nodes = 16"
definition max_total_lookback :: nat where "max_total_lookback = 200"

definition const_grid :: "decimal list" where
  "const_grid = [- 100, - 10, - 5, - 2, - 1, - 5 / 10, - 25 / 100, 0, 25 / 100, 5 / 10, 1, 2, 5, 10, 100]"

definition abs_diff :: "nat \<Rightarrow> nat \<Rightarrow> nat" where
  "abs_diff a b = (if a < b then b - a else a - b)"

text \<open>The nearest element, scanning in order and replacing on a strictly smaller distance.\<close>

definition snap_period :: "nat \<Rightarrow> nat" where
  "snap_period period =
     fst (foldl (\<lambda>best p. if abs_diff period p < snd best then (p, abs_diff period p) else best)
            (hd period_lattice, abs_diff period (hd period_lattice)) (tl period_lattice))"

definition snap_const :: "dec_arith \<Rightarrow> decimal \<Rightarrow> decimal option" where
  "snap_const A v = do {
     d0 \<leftarrow> dec_sub A v (hd const_grid);
     best \<leftarrow> run_opt (\<lambda>best g. do { d \<leftarrow> dec_sub A v g; Some (if \<bar>d\<bar> < snd best then (g, \<bar>d\<bar>) else best) })
               (hd const_grid, \<bar>d0\<bar>) (tl const_grid);
     Some (fst best)
   }"

fun snap_in_place :: "dec_arith \<Rightarrow> decimal expr \<Rightarrow> decimal expr option" where
  "snap_in_place A (Input f) = Some (Input f)"
| "snap_in_place A (Const c) = map_option Const (snap_const A c)"
| "snap_in_place A (Unary op e) = map_option (Unary op) (snap_in_place A e)"
| "snap_in_place A (Binary op a b) = do { a' \<leftarrow> snap_in_place A a; b' \<leftarrow> snap_in_place A b; Some (Binary op a' b') }"
| "snap_in_place A (Window op e n) = map_option (\<lambda>e'. Window op e' (snap_period n)) (snap_in_place A e)"

fun expr_is_terminal :: "'d expr \<Rightarrow> bool" where
  "expr_is_terminal (Input f) = True"
| "expr_is_terminal (Const c) = True"
| "expr_is_terminal e = False"

text \<open>Collapse the leftmost bottom-most internal node; the flag says whether one was collapsed.\<close>

fun prune :: "'d expr \<Rightarrow> bool \<Rightarrow> bool \<times> 'd expr" where
  "prune (Input f) is_root = (False, Input f)"
| "prune (Const c) is_root = (False, Const c)"
| "prune (Unary op e) is_root =
     (let (hit, e') = prune e False
      in if hit then (True, Unary op e')
         else if is_root then (False, Unary op e)
         else if expr_is_terminal e then (True, Input Close) else (False, Unary op e))"
| "prune (Window op e n) is_root =
     (let (hit, e') = prune e False
      in if hit then (True, Window op e' n)
         else if is_root then (False, Window op e n)
         else if expr_is_terminal e then (True, Input Close) else (False, Window op e n))"
| "prune (Binary op a b) is_root =
     (let (hit, a') = prune a False
      in if hit then (True, Binary op a' b)
         else let (hit, b') = prune b False
              in if hit then (True, Binary op a b')
                 else if is_root then (False, Binary op a b)
                 else if expr_is_terminal a \<and> expr_is_terminal b then (True, Input Close) else (False, Binary op a b))"

definition prune_deepest_descendant :: "'d expr \<Rightarrow> bool \<times> 'd expr" where
  "prune_deepest_descendant e = prune e True"

definition over_caps :: "'d expr \<Rightarrow> bool" where
  "over_caps e \<longleftrightarrow> max_total_lookback < max_lookback e \<or> max_depth < tree_depth e \<or> max_nodes < count_nodes e"

lemma count_nodes_pos [simp]: "0 < count_nodes e"
  by (cases e) auto

lemma prune_shrinks: "prune e r = (True, e') \<Longrightarrow> count_nodes e' < count_nodes e"
  by (induction e r arbitrary: e' rule: prune.induct) (auto simp: Let_def split: prod.splits if_splits)

function repair_loop :: "'d expr \<Rightarrow> 'd expr" where
  "repair_loop e =
     (if over_caps e
      then (case prune_deepest_descendant e of (True, e') \<Rightarrow> repair_loop e' | (False, e') \<Rightarrow> e')
      else e)"
  by pat_completeness auto
termination
  by (relation "measure count_nodes") (auto simp: prune_deepest_descendant_def dest: prune_shrinks [OF sym])

declare repair_loop.simps [simp del]

record 'd expr_tree =
  et_root :: "'d expr"
  et_lookback :: usize

definition expr_tree_new :: "'d expr \<Rightarrow> 'd expr_tree" where
  "expr_tree_new e = \<lparr>et_root = e, et_lookback = max_lookback e\<rparr>"

definition root_op :: "'d expr_tree \<Rightarrow> winop option" where
  "root_op t = (case et_root t of Window op e n \<Rightarrow> Some op | _ \<Rightarrow> None)"

definition already_normalising :: "'d expr \<Rightarrow> bool" where
  "already_normalising e \<longleftrightarrow> (case e of Window op _ _ \<Rightarrow> is_normalising op | _ \<Rightarrow> False)"

definition expr_repair :: "dec_arith \<Rightarrow> decimal expr_tree \<Rightarrow> decimal expr_tree option" where
  "expr_repair A t =
     (let wrapped = (if already_normalising (et_root t) then et_root t else Window Rank_Win (et_root t) default_rank_period)
      in map_option (\<lambda>snapped. expr_tree_new (repair_loop snapped)) (snap_in_place A wrapped))"

definition repaired :: "dec_arith \<Rightarrow> decimal expr \<Rightarrow> decimal expr_tree option" where
  "repaired A e = expr_repair A (expr_tree_new e)"

section \<open>Snapping\<close>

lemma snap_period_on_lattice: "snap_period p \<in> set period_lattice"
  by (simp add: snap_period_def period_lattice_def Let_def)

lemma snap_period_nearest: "q \<in> set period_lattice \<Longrightarrow> abs_diff p (snap_period p) \<le> abs_diff p q"
  by (auto simp: snap_period_def period_lattice_def)

lemma snap_period_id: "p \<in> set period_lattice \<Longrightarrow> snap_period p = p"
  using snap_period_nearest [of p p] by (auto simp: abs_diff_def split: if_splits)

lemma snap_scan:
  assumes "dec_rounded A"
  shows "run_opt (\<lambda>best g. do { d \<leftarrow> dec_sub A v g; Some (if \<bar>d\<bar> < snd best then (g, \<bar>d\<bar>) else best) }) b gs = Some r \<Longrightarrow>
     \<exists>d. dec_sub A v (fst b) = Some d \<and> snd b = \<bar>d\<bar> \<Longrightarrow>
     fst r \<in> insert (fst b) (set gs) \<and> (\<exists>d. dec_sub A v (fst r) = Some d \<and> snd r = \<bar>d\<bar>) \<and>
     (v \<in> insert (fst b) (set gs) \<longrightarrow> fst r = v)"
proof (induction gs arbitrary: b)
  case Nil
  then show ?case by simp
next
  case (Cons g gs)
  then obtain d where d: "dec_sub A v g = Some d"
    and run: "run_opt (\<lambda>best g. do { d \<leftarrow> dec_sub A v g; Some (if \<bar>d\<bar> < snd best then (g, \<bar>d\<bar>) else best) })
      (if \<bar>d\<bar> < snd b then (g, \<bar>d\<bar>) else b) gs = Some r" by (auto simp: bind_eq_Some_conv)
  obtain d0 where d0: "dec_sub A v (fst b) = Some d0" "snd b = \<bar>d0\<bar>" using Cons.prems(2) by blast
  define b1 where "b1 = (if \<bar>d\<bar> < snd b then (g, \<bar>d\<bar>) else b)"
  have "\<exists>d. dec_sub A v (fst b1) = Some d \<and> snd b1 = \<bar>d\<bar>" using d d0 by (simp add: b1_def)
  note rest = Cons.IH [OF run [folded b1_def] this]
  have "fst b1 = v" if "v = g \<or> v = fst b"
    using that d0(2) dec_sub_zero_iff [OF assms d] dec_sub_zero_iff [OF assms d0(1)] unfolding b1_def
    by (cases "d = 0"; cases "d0 = 0") auto
  moreover have "fst b1 = g \<or> fst b1 = fst b" by (simp add: b1_def)
  ultimately show ?case using rest by (metis insert_iff list.simps(15))
qed

text \<open>Snapping gives a constant of the grid, and the same one when the constant is one of them.\<close>

lemma snap_const_grid:
  assumes "dec_rounded A" "snap_const A v = Some g"
  shows "g \<in> set const_grid \<and> (v \<in> set const_grid \<longrightarrow> g = v)"
proof -
  from assms(2) obtain d r where "dec_sub A v (hd const_grid) = Some d" and g: "g = fst r"
    and r: "run_opt (\<lambda>best g. do { d \<leftarrow> dec_sub A v g; Some (if \<bar>d\<bar> < snd best then (g, \<bar>d\<bar>) else best) })
      (hd const_grid, \<bar>d\<bar>) (tl const_grid) = Some r"
    by (auto simp: snap_const_def bind_eq_Some_conv)
  moreover have "insert (hd const_grid) (set (tl const_grid)) = set const_grid"
    by (metis const_grid_def list.collapse list.distinct(1) list.simps(15))
  ultimately show ?thesis using snap_scan [OF assms(1) r] by auto
qed

section \<open>Valid trees\<close>

text \<open>The typing of the grammar: a body over lattice periods and grid constants, and a root that normalises one.\<close>

inductive body :: "decimal expr \<Rightarrow> bool" where
  T_Input: "body (Input f)"
| T_Const: "c \<in> set const_grid \<Longrightarrow> body (Const c)"
| T_Unary: "body e \<Longrightarrow> body (Unary op e)"
| T_Binary: "body a \<Longrightarrow> body b \<Longrightarrow> body (Binary op a b)"
| T_Window: "body e \<Longrightarrow> n \<in> set period_lattice \<Longrightarrow> body (Window op e n)"

inductive formula_typed :: "decimal expr \<Rightarrow> bool" where
  T_Root: "body e \<Longrightarrow> n \<in> set period_lattice \<Longrightarrow> is_normalising op \<Longrightarrow> formula_typed (Window op e n)"

inductive_simps body_simps [simp]: "body (Input f)" "body (Const c)" "body (Unary op e)" "body (Binary op a b)" "body (Window op e n)"
inductive_simps formula_typed_simps: "formula_typed (Window op e n)"
inductive_cases formula_typedE: "formula_typed e"

definition valid_formula :: "decimal expr \<Rightarrow> bool" where
  "valid_formula e \<longleftrightarrow> formula_typed e \<and> \<not> over_caps e"

lemma snap_body: "dec_rounded A \<Longrightarrow> snap_in_place A e = Some e' \<Longrightarrow> body e'"
  by (induction e arbitrary: e')
    (auto simp: bind_eq_Some_conv snap_period_on_lattice dest: snap_const_grid)

lemma snap_id: "dec_rounded A \<Longrightarrow> body e \<Longrightarrow> snap_in_place A e = Some e' \<Longrightarrow> e' = e"
  by (induction e arbitrary: e') (auto simp: bind_eq_Some_conv snap_period_id dest: snap_const_grid)

lemma prune_body: "prune e r = (h, e') \<Longrightarrow> body e \<Longrightarrow> body e'"
  by (induction e r arbitrary: h e' rule: prune.induct) (auto simp: Let_def split: prod.splits if_splits)

lemma prune_hits_or: "expr_is_terminal e \<or> fst (prune e False)"
  by (induction e) (auto simp: Let_def split: prod.splits)

lemma prune_hits: "\<not> expr_is_terminal e \<Longrightarrow> fst (prune e False)"
  using prune_hits_or by blast

lemma prune_root: "prune (Window op e n) True = (if expr_is_terminal e then (False, Window op e n) else (True, Window op (snd (prune e False)) n))"
  using prune_hits [of e] by (cases e) (auto simp: Let_def split: prod.splits if_splits)

lemma lattice_le: "n \<in> set period_lattice \<Longrightarrow> n \<le> 100"
  by (auto simp: period_lattice_def)

lemma terminal_in_caps: "expr_is_terminal e \<Longrightarrow> n \<in> set period_lattice \<Longrightarrow> \<not> over_caps (Window op e n)"
  using lattice_le [of n] by (cases e) (auto simp: over_caps_def max_total_lookback_def max_depth_def max_nodes_def)

lemma repair_loop_valid: "formula_typed e \<Longrightarrow> valid_formula (repair_loop e)"
proof (induction e rule: repair_loop.induct)
  case (1 e)
  from "1.prems" obtain op c n where e: "e = Window op c n" "body c" "n \<in> set period_lattice" "is_normalising op"
    by (auto elim: formula_typedE)
  show ?case
  proof (cases "over_caps e")
    case True
    then have "\<not> expr_is_terminal c" using e terminal_in_caps by blast
    then have p: "prune_deepest_descendant e = (True, Window op (snd (prune c False)) n)"
      by (simp add: prune_deepest_descendant_def e(1) prune_root del: prune.simps)
    moreover have "formula_typed (Window op (snd (prune c False)) n)"
      using e prune_body [of c False "fst (prune c False)" "snd (prune c False)"] by (auto simp: formula_typed_simps)
    ultimately show ?thesis using "1.IH" [OF True p [symmetric]] True by (simp add: repair_loop.simps [of e])
  next
    case False
    with "1.prems" show ?thesis by (simp add: repair_loop.simps [of e] valid_formula_def)
  qed
qed

text \<open>
  C13. Repair puts any tree on the valid manifold and leaves valid trees alone. Unless the package
  overflows on one of its constants, and with its differences rounded or not as long as those of
  different decimals stay different from zero (\<open>dec_rounded\<close>), the repaired root is well typed (a
  normalising window over a body with lattice periods and grid constants) and within the caps on
  lookback, depth and nodes, with its lookback cached exactly; repairing again changes nothing, and
  neither does repairing a tree that was valid.
\<close>

theorem repair_types:
  assumes "dec_rounded A" "repaired A e = Some t"
  shows "valid_formula (et_root t) \<and> et_lookback t = max_lookback (et_root t) \<and>
    (\<exists>op. root_op t = Some op \<and> is_normalising op) \<and>
    (\<forall>t'. expr_repair A t = Some t' \<longrightarrow> t' = t) \<and> (valid_formula e \<longrightarrow> et_root t = e)"
proof -
  let ?w = "if already_normalising e then e else Window Rank_Win e default_rank_period"
  from assms(2) obtain s where s: "snap_in_place A ?w = Some s" and t: "t = expr_tree_new (repair_loop s)"
    by (auto simp: repaired_def expr_repair_def expr_tree_new_def Let_def split: if_splits)
  have root: "valid_formula u \<Longrightarrow> \<exists>op c n. u = Window op c n \<and> is_normalising op" for u
    by (auto simp: valid_formula_def elim: formula_typedE)
  have fixed: "u' = u" if "valid_formula u" "expr_repair A (expr_tree_new u) = Some (expr_tree_new u')" for u u'
  proof -
    from that(1) obtain op c n where u: "u = Window op c n" "is_normalising op" using root by blast
    have body: "body u" using that(1) by (auto simp: valid_formula_def u formula_typed_simps)
    from that(2) obtain v where v: "snap_in_place A u = Some v" and u': "u' = repair_loop v"
      by (auto simp: expr_repair_def expr_tree_new_def u already_normalising_def Let_def simp del: snap_in_place.simps)
    have "v = u" by (rule snap_id [OF assms(1) body v])
    then show ?thesis using that(1) by (simp add: u' valid_formula_def repair_loop.simps [of u])
  qed
  have "\<exists>op c n. ?w = Window op c n \<and> is_normalising op"
    by (auto simp: already_normalising_def is_normalising_def split: expr.splits)
  then obtain op c n where w: "?w = Window op c n" "is_normalising op" by blast
  then have "formula_typed s"
    using s snap_body [OF assms(1) s] by (auto simp: formula_typed_simps)
  then have valid: "valid_formula (repair_loop s)" by (rule repair_loop_valid)
  moreover have "\<forall>t'. expr_repair A t = Some t' \<longrightarrow> t' = t"
  proof (intro allI impI)
    fix t' assume again: "expr_repair A t = Some t'"
    then obtain u where "t' = expr_tree_new u" by (auto simp: expr_repair_def Let_def)
    with fixed [OF valid, of u] again show "t' = t" by (simp add: t)
  qed
  moreover have "et_root t = e" if "valid_formula e"
    using fixed [OF that, of "et_root t"] assms(2) by (simp add: repaired_def t expr_tree_new_def)
  ultimately show ?thesis using root [OF valid] by (auto simp: t expr_tree_new_def root_op_def)
qed

definition overgrown :: "decimal expr" where
  "overgrown = Binary Mul_Op (Unary Abs_Op (Unary Neg_Op (Unary Abs_Op (Input High)))) (Const 3)"

theorem repair_types_witness:
  "\<exists>t. repaired (bounded_dec 1000000) overgrown = Some t \<and> valid_formula (et_root t) \<and> et_lookback t = 50"
proof -
  have "snap_const (bounded_dec 1000000) 3 = Some 2"
    by (simp add: snap_const_def const_grid_def bounded_dec_def Let_def)
  then have "repaired (bounded_dec 1000000) overgrown =
      Some (expr_tree_new (Window Rank_Win (Binary Mul_Op (Unary Abs_Op (Input Close)) (Const 2)) 50))"
    by (simp add: repaired_def expr_repair_def expr_tree_new_def overgrown_def already_normalising_def default_rank_period_def
        snap_period_id period_lattice_def repair_loop.simps over_caps_def max_total_lookback_def max_depth_def max_nodes_def
        prune_deepest_descendant_def)
  with repair_types [OF bounded_dec_rounded this] show ?thesis by (simp add: expr_tree_new_def)
qed

end
