(* ===== verification/Expr_Text.thy ===== *)
theory Expr_Text imports Expr_Repair begin

text \<open>
  The written form of evolved formulas (\<open>qe-signal\<close>, \<open>indicator/expr.rs\<close>): the S-expression
  writer, the tokenizer and the bounded recursive-descent parser, and the theorem that reading
  is the inverse of writing exactly up to the parser's depth cap.

  Constants are any type with the package's \<open>Display\<close> and \<open>from_str_exact\<close>; strings are ASCII.
\<close>

section \<open>Tags\<close>

fun field_tag :: "price_field \<Rightarrow> string" where
  "field_tag Close = ''close''"
| "field_tag High = ''high''"
| "field_tag Low = ''low''"
| "field_tag Volume = ''volume''"
| "field_tag Typical = ''typical''"

fun unop_tag :: "unop \<Rightarrow> string" where
  "unop_tag Abs_Op = ''abs''"
| "unop_tag Sign_Op = ''sign''"
| "unop_tag Neg_Op = ''neg''"

fun binop_tag :: "binop \<Rightarrow> string" where
  "binop_tag Add_Op = ''add''"
| "binop_tag Sub_Op = ''sub''"
| "binop_tag Mul_Op = ''mul''"
| "binop_tag Div_Op = ''div''"

fun winop_tag :: "winop \<Rightarrow> string" where
  "winop_tag Mean_Win = ''mean''"
| "winop_tag Max_Win = ''max''"
| "winop_tag Min_Win = ''min''"
| "winop_tag Std_Win = ''std''"
| "winop_tag MeanAbsDev_Win = ''mad''"
| "winop_tag Delta_Win = ''delta''"
| "winop_tag Lag_Win = ''lag''"
| "winop_tag Rank_Win = ''rank''"
| "winop_tag Zscore_Win = ''zscore''"

definition field_from_tag :: "string \<Rightarrow> price_field option" where
  "field_from_tag tag =
     (if tag = ''close'' then Some Close
      else if tag = ''high'' then Some High
      else if tag = ''low'' then Some Low
      else if tag = ''volume'' then Some Volume
      else if tag = ''typical'' then Some Typical
      else None)"

definition unop_from_tag :: "string \<Rightarrow> unop option" where
  "unop_from_tag tag =
     (if tag = ''abs'' then Some Abs_Op
      else if tag = ''sign'' then Some Sign_Op
      else if tag = ''neg'' then Some Neg_Op
      else None)"

definition binop_from_tag :: "string \<Rightarrow> binop option" where
  "binop_from_tag tag =
     (if tag = ''add'' then Some Add_Op
      else if tag = ''sub'' then Some Sub_Op
      else if tag = ''mul'' then Some Mul_Op
      else if tag = ''div'' then Some Div_Op
      else None)"

definition winop_from_tag :: "string \<Rightarrow> winop option" where
  "winop_from_tag tag =
     (if tag = ''mean'' then Some Mean_Win
      else if tag = ''max'' then Some Max_Win
      else if tag = ''min'' then Some Min_Win
      else if tag = ''std'' then Some Std_Win
      else if tag = ''mad'' then Some MeanAbsDev_Win
      else if tag = ''delta'' then Some Delta_Win
      else if tag = ''lag'' then Some Lag_Win
      else if tag = ''rank'' then Some Rank_Win
      else if tag = ''zscore'' then Some Zscore_Win
      else None)"

section \<open>Writing\<close>

fun write_sexpr :: "('d \<Rightarrow> string) \<Rightarrow> 'd expr \<Rightarrow> string" where
  "write_sexpr sh (Input f) = field_tag f"
| "write_sexpr sh (Const c) = CHR ''#'' # sh c"
| "write_sexpr sh (Unary op e) = ''('' @ unop_tag op @ '' '' @ write_sexpr sh e @ '')''"
| "write_sexpr sh (Binary op a b) = ''('' @ binop_tag op @ '' '' @ write_sexpr sh a @ '' '' @ write_sexpr sh b @ '')''"
| "write_sexpr sh (Window op e n) = ''('' @ winop_tag op @ '' '' @ show_nat n @ '' '' @ write_sexpr sh e @ '')''"

section \<open>Reading\<close>

datatype parse_error =
    UnexpectedEnd | UnexpectedToken string | UnknownOp string | UnknownAtom string | BadPeriod string
  | BadConst string | TrailingTokens string | TooDeep

definition is_paren :: "char \<Rightarrow> bool" where
  "is_paren c \<longleftrightarrow> c = CHR ''('' \<or> c = CHR '')''"

definition is_space :: "char \<Rightarrow> bool" where
  "is_space c \<longleftrightarrow> (of_char c :: nat) \<in> {9, 10, 11, 12, 13, 32}"

definition flush :: "string \<Rightarrow> string list" where
  "flush cur = (if cur = [] then [] else [cur])"

fun tokenize_from :: "string \<Rightarrow> string \<Rightarrow> string list" where
  "tokenize_from cur [] = flush cur"
| "tokenize_from cur (c # cs) =
     (if is_paren c then flush cur @ [c] # tokenize_from [] cs
      else if is_space c then flush cur @ tokenize_from [] cs
      else tokenize_from (cur @ [c]) cs)"

definition tokenize :: "string \<Rightarrow> string list" where
  "tokenize s = tokenize_from [] s"

text \<open>\<open>str::parse\<close> for \<open>usize\<close>: an optional plus sign, then digits that fit.\<close>

definition parse_usize :: "string \<Rightarrow> nat option" where
  "parse_usize s =
     (let t = (case s of c # cs \<Rightarrow> if c = CHR ''+'' then cs else s | [] \<Rightarrow> s)
      in if t \<noteq> [] \<and> list_all is_ascii_digit t \<and> parse_digits t < u64_modulus then Some (parse_digits t) else None)"

definition parse_atom :: "(string \<Rightarrow> 'd option) \<Rightarrow> string \<Rightarrow> (parse_error, 'd expr) result" where
  "parse_atom rd atom =
     (case atom of
        c # lit \<Rightarrow>
          if c = CHR ''#'' then (case rd lit of Some v \<Rightarrow> Inr (Const v) | None \<Rightarrow> Inl (BadConst atom))
          else (case field_from_tag atom of Some f \<Rightarrow> Inr (Input f) | None \<Rightarrow> Inl (UnknownAtom atom))
      | [] \<Rightarrow> Inl (UnknownAtom atom))"

definition max_parse_depth :: nat where "max_parse_depth = 64"

definition close_paren :: "string list \<Rightarrow> 'd expr \<Rightarrow> nat \<Rightarrow> (parse_error, 'd expr \<times> nat) result" where
  "close_paren tokens node i =
     (case get_opt tokens i of
        Some t \<Rightarrow> if t = '')'' then Inr (node, i + 1) else Inl (UnexpectedToken t)
      | None \<Rightarrow> Inl UnexpectedEnd)"

function parse_node :: "(string \<Rightarrow> 'd option) \<Rightarrow> string list \<Rightarrow> nat \<Rightarrow> nat \<Rightarrow> (parse_error, 'd expr \<times> nat) result" where
  "parse_node rd tokens i depth =
     (if max_parse_depth < depth then Inl TooDeep
      else case get_opt tokens i of
        None \<Rightarrow> Inl UnexpectedEnd
      | Some tok \<Rightarrow>
          if tok = '')'' then Inl (UnexpectedToken tok)
          else if tok \<noteq> ''('' then (case parse_atom rd tok of Inl e \<Rightarrow> Inl e | Inr a \<Rightarrow> Inr (a, i + 1))
          else case get_opt tokens (i + 1) of
            None \<Rightarrow> Inl UnexpectedEnd
          | Some head \<Rightarrow>
              (case unop_from_tag head of
                 Some op \<Rightarrow>
                   (case parse_node rd tokens (i + 2) (depth + 1) of
                      Inl e \<Rightarrow> Inl e
                    | Inr (c, j) \<Rightarrow> close_paren tokens (Unary op c) j)
               | None \<Rightarrow>
              (case binop_from_tag head of
                 Some op \<Rightarrow>
                   (case parse_node rd tokens (i + 2) (depth + 1) of
                      Inl e \<Rightarrow> Inl e
                    | Inr (a, j) \<Rightarrow>
                        (case parse_node rd tokens j (depth + 1) of
                           Inl e \<Rightarrow> Inl e
                         | Inr (b, k) \<Rightarrow> close_paren tokens (Binary op a b) k))
               | None \<Rightarrow>
              (case winop_from_tag head of
                 Some op \<Rightarrow>
                   (case get_opt tokens (i + 2) of
                      None \<Rightarrow> Inl UnexpectedEnd
                    | Some period_tok \<Rightarrow>
                        (case parse_usize period_tok of
                           None \<Rightarrow> Inl (BadPeriod period_tok)
                         | Some n \<Rightarrow>
                             (case parse_node rd tokens (i + 3) (depth + 1) of
                                Inl e \<Rightarrow> Inl e
                              | Inr (c, j) \<Rightarrow> close_paren tokens (Window op c n) j)))
               | None \<Rightarrow> Inl (UnknownOp head)))))"
  by pat_completeness auto
termination
  by (relation "measure (\<lambda>(rd, tokens, i, depth). Suc max_parse_depth - depth)") (auto simp: max_parse_depth_def)

declare parse_node.simps [simp del]

definition parse_sexpr :: "(string \<Rightarrow> 'd option) \<Rightarrow> string \<Rightarrow> (parse_error, 'd expr) result" where
  "parse_sexpr rd s =
     (let tokens = tokenize s
      in case parse_node rd tokens 0 0 of
           Inl e \<Rightarrow> Inl e
         | Inr (e, i) \<Rightarrow> if i \<noteq> length tokens then Inl (TrailingTokens (tokens ! i)) else Inr e)"

section \<open>Tokens of a written formula\<close>

definition text_ok :: "('d \<Rightarrow> string) \<Rightarrow> (string \<Rightarrow> 'd option) \<Rightarrow> bool" where
  "text_ok sh rd \<longleftrightarrow> (\<forall>d. rd (sh d) = Some d) \<and> (\<forall>d. \<forall>c \<in> set (sh d). \<not> is_paren c \<and> \<not> is_space c)"

fun tokens_of :: "('d \<Rightarrow> string) \<Rightarrow> 'd expr \<Rightarrow> string list" where
  "tokens_of sh (Input f) = [field_tag f]"
| "tokens_of sh (Const c) = [CHR ''#'' # sh c]"
| "tokens_of sh (Unary op e) = [''('', unop_tag op] @ tokens_of sh e @ ['')'']"
| "tokens_of sh (Binary op a b) = [''('', binop_tag op] @ tokens_of sh a @ tokens_of sh b @ ['')'']"
| "tokens_of sh (Window op e n) = [''('', winop_tag op, show_nat n] @ tokens_of sh e @ ['')'']"

definition plain_word :: "string \<Rightarrow> bool" where
  "plain_word w \<longleftrightarrow> w \<noteq> [] \<and> (\<forall>c \<in> set w. \<not> is_paren c \<and> \<not> is_space c)"

definition delimited :: "string \<Rightarrow> bool" where
  "delimited rest \<longleftrightarrow> (case rest of [] \<Rightarrow> True | c # cs \<Rightarrow> is_paren c \<or> is_space c)"

lemma tokenize_word_from:
  "\<forall>c \<in> set w. \<not> is_paren c \<and> \<not> is_space c \<Longrightarrow> tokenize_from cur (w @ rest) = tokenize_from (cur @ w) rest"
  by (induction w arbitrary: cur) auto

lemma tokenize_word: "plain_word w \<Longrightarrow> delimited rest \<Longrightarrow> tokenize_from [] (w @ rest) = w # tokenize_from [] rest"
  using tokenize_word_from [of w "[]" rest] by (cases rest) (auto simp: plain_word_def delimited_def flush_def)

lemma plain_field [simp]: "plain_word (field_tag f)"
  by (cases f) (simp_all add: plain_word_def is_paren_def is_space_def)

lemma plain_unop [simp]: "plain_word (unop_tag u)"
  by (cases u) (simp_all add: plain_word_def is_paren_def is_space_def)

lemma plain_binop [simp]: "plain_word (binop_tag b)"
  by (cases b) (simp_all add: plain_word_def is_paren_def is_space_def)

lemma plain_winop [simp]: "plain_word (winop_tag w)"
  by (cases w) (simp_all add: plain_word_def is_paren_def is_space_def)

lemma plain_number [simp]: "plain_word (show_nat n)"
  using show_nat_digits [of _ n] by (fastforce simp: plain_word_def is_paren_def is_space_def is_ascii_digit_def)

lemma plain_const: "text_ok sh rd \<Longrightarrow> plain_word (CHR ''#'' # sh c)"
  by (auto simp: text_ok_def plain_word_def is_paren_def is_space_def)

lemma delimited_simps [simp]: "delimited []" "delimited (CHR '' '' # cs)" "delimited (CHR '')'' # cs)"
  by (simp_all add: delimited_def is_paren_def is_space_def)

lemma tokenize_punct [simp]:
  "tokenize_from [] (CHR ''('' # cs) = ''('' # tokenize_from [] cs"
  "tokenize_from [] (CHR '')'' # cs) = '')'' # tokenize_from [] cs"
  "tokenize_from [] (CHR '' '' # cs) = tokenize_from [] cs"
  by (simp_all add: is_paren_def is_space_def flush_def)

lemma tokenize_const:
  "text_ok sh rd \<Longrightarrow> delimited rest \<Longrightarrow> tokenize_from [] (CHR ''#'' # sh c @ rest) = (CHR ''#'' # sh c) # tokenize_from [] rest"
  using tokenize_word [OF plain_const [of sh rd c], of rest] by (simp del: tokenize_from.simps)

lemma tokenize_written:
  "text_ok sh rd \<Longrightarrow> delimited rest \<Longrightarrow> tokenize_from [] (write_sexpr sh e @ rest) = tokens_of sh e @ tokenize_from [] rest"
  by (induction e arbitrary: rest)
    (simp_all add: tokenize_word tokenize_const del: tokenize_from.simps)

section \<open>Reading what was written\<close>

lemma field_from [simp]: "field_from_tag (field_tag f) = Some f"
  by (cases f) (simp_all add: field_from_tag_def)

lemma unop_from [simp]: "unop_from_tag (unop_tag u) = Some u"
  by (cases u) (simp_all add: unop_from_tag_def)

lemma binop_from [simp]: "unop_from_tag (binop_tag b) = None" "binop_from_tag (binop_tag b) = Some b"
  by (cases b; simp add: unop_from_tag_def binop_from_tag_def)+

lemma winop_from [simp]:
  "unop_from_tag (winop_tag w) = None" "binop_from_tag (winop_tag w) = None" "winop_from_tag (winop_tag w) = Some w"
  by (cases w; simp add: unop_from_tag_def binop_from_tag_def winop_from_tag_def)+

lemma parse_usize_show: "n < u64_modulus \<Longrightarrow> parse_usize (show_nat n) = Some n"
proof -
  assume n: "n < u64_modulus"
  obtain c cs where s: "show_nat n = c # cs" by (cases "show_nat n") auto
  have "is_ascii_digit c" using show_nat_digits [of c n] s by simp
  then have "c \<noteq> CHR ''+''" by (auto simp: is_ascii_digit_def)
  moreover have "list_all is_ascii_digit (c # cs)" using show_nat_digits [of _ n] s by (simp add: list_all_iff)
  moreover have "parse_digits (c # cs) = n" using parse_show_nat [of n] s by simp
  ultimately show ?thesis using n by (simp add: parse_usize_def s)
qed

fun periods_fit :: "'d expr \<Rightarrow> bool" where
  "periods_fit (Input f) = True"
| "periods_fit (Const c) = True"
| "periods_fit (Unary op e) = periods_fit e"
| "periods_fit (Binary op a b) = (periods_fit a \<and> periods_fit b)"
| "periods_fit (Window op e n) = (n < u64_modulus \<and> periods_fit e)"

definition placed_at :: "'a list \<Rightarrow> nat \<Rightarrow> 'a list \<Rightarrow> bool" where
  "placed_at tokens i part \<longleftrightarrow> (\<exists>pre suf. tokens = pre @ part @ suf \<and> length pre = i)"

lemma placed_Cons: "placed_at tokens i (x # xs) \<Longrightarrow> get_opt tokens i = Some x \<and> placed_at tokens (Suc i) xs"
proof -
  assume "placed_at tokens i (x # xs)"
  then obtain pre suf where "tokens = pre @ (x # xs) @ suf" "length pre = i" by (auto simp: placed_at_def)
  then show ?thesis unfolding placed_at_def by (auto simp: nth_append intro: exI [of _ "pre @ [x]"])
qed

lemma placed_append: "placed_at tokens i (xs @ ys) \<Longrightarrow> placed_at tokens i xs \<and> placed_at tokens (i + length xs) ys"
proof -
  assume "placed_at tokens i (xs @ ys)"
  then obtain pre suf where "tokens = pre @ (xs @ ys) @ suf" "length pre = i" by (auto simp: placed_at_def)
  then have "tokens = pre @ xs @ (ys @ suf)" "tokens = (pre @ xs) @ ys @ suf" "length (pre @ xs) = i + length xs" by simp_all
  then show ?thesis unfolding placed_at_def using \<open>length pre = i\<close> by metis
qed

lemma not_parens [simp]: "plain_word w \<Longrightarrow> w \<noteq> ''(''" "plain_word w \<Longrightarrow> w \<noteq> '')''"
  by (intro notI; simp add: plain_word_def is_paren_def)+

lemma tag_not_hash: "field_tag f = c # cs \<Longrightarrow> c \<noteq> CHR ''#''"
  by (cases f) auto

lemma parse_atom_field [simp]: "parse_atom rd (field_tag f) = Inr (Input f)"
proof -
  obtain c cs where "field_tag f = c # cs" by (cases f) simp_all
  moreover from this have "c \<noteq> CHR ''#''" by (rule tag_not_hash)
  moreover have "field_from_tag (c # cs) = Some f" using field_from [of f] calculation(1) by simp
  ultimately show ?thesis by (simp add: parse_atom_def)
qed

lemma parse_atom_const [simp]: "text_ok sh rd \<Longrightarrow> parse_atom rd (CHR ''#'' # sh c) = Inr (Const c)"
  by (simp add: parse_atom_def text_ok_def)

lemma tree_depth_pos [simp]: "0 < tree_depth e"
  by (cases e) auto

lemma parse_leaf:
  assumes "placed_at tokens i [w]" "plain_word w" "parse_atom rd w = Inr e"
  shows "parse_node rd tokens i depth = (if depth + 1 \<le> 65 then Inr (e, i + 1) else Inl TooDeep)"
proof -
  have "get_opt tokens i = Some w" using placed_Cons [OF assms(1)] by blast
  moreover have "w \<noteq> ''(''" "w \<noteq> '')''" using assms(2) by simp_all
  ultimately show ?thesis
    using assms(3) by (subst parse_node.simps) (simp add: max_parse_depth_def del: get_opt_Some)
qed

lemma close_placed: "placed_at tokens i ['')''] \<Longrightarrow> close_paren tokens node i = Inr (node, i + 1)"
  using placed_Cons [of tokens i "'')''" "[]"] by (simp add: close_paren_def del: get_opt_Some)

text \<open>A written formula is read back whole, or refused as too deep, wherever it stands.\<close>

lemma parse_written:
  assumes "text_ok sh rd"
  shows "periods_fit e \<Longrightarrow> placed_at tokens i (tokens_of sh e) \<Longrightarrow>
    parse_node rd tokens i depth = (if depth + tree_depth e \<le> 65 then Inr (e, i + length (tokens_of sh e)) else Inl TooDeep)"
proof (induction e arbitrary: i depth)
  case (Input f)
  then show ?case using parse_leaf [of tokens i "field_tag f" rd "Input f" depth] by simp
next
  case (Const c)
  then show ?case using parse_leaf [OF _ plain_const [OF assms] parse_atom_const [OF assms], of tokens i c depth] by simp
next
  case (Unary op e)
  from placed_Cons [of tokens i "''(''" "unop_tag op # tokens_of sh e @ ['')'']"] Unary.prems(2)
  have t: "get_opt tokens i = Some ''(''" "placed_at tokens (Suc i) (unop_tag op # tokens_of sh e @ ['')''])" by simp_all
  from placed_Cons [OF t(2)] have h: "get_opt tokens (i + 1) = Some (unop_tag op)" "placed_at tokens (i + 2) (tokens_of sh e @ ['')''])" by simp_all
  from placed_append [OF h(2)] have e: "placed_at tokens (i + 2) (tokens_of sh e)" "placed_at tokens (i + 2 + length (tokens_of sh e)) ['')'']"
    by simp_all
  show ?case
    using Unary.IH [OF _ e(1), of "depth + 1"] Unary.prems(1) t(1) h(1) close_placed [OF e(2), of "Unary op e"]
    by (subst parse_node.simps) (auto simp: max_parse_depth_def simp del: get_opt_Some)
next
  case (Binary op a b)
  from placed_Cons [of tokens i "''(''" "binop_tag op # tokens_of sh a @ tokens_of sh b @ ['')'']"] Binary.prems(2)
  have t: "get_opt tokens i = Some ''(''" "placed_at tokens (Suc i) (binop_tag op # tokens_of sh a @ tokens_of sh b @ ['')''])" by simp_all
  from placed_Cons [OF t(2)] have h: "get_opt tokens (i + 1) = Some (binop_tag op)"
    "placed_at tokens (i + 2) (tokens_of sh a @ tokens_of sh b @ ['')''])" by simp_all
  from placed_append [OF h(2)] have a: "placed_at tokens (i + 2) (tokens_of sh a)"
    "placed_at tokens (i + 2 + length (tokens_of sh a)) (tokens_of sh b @ ['')''])" by simp_all
  from placed_append [OF a(2)] have b: "placed_at tokens (i + 2 + length (tokens_of sh a)) (tokens_of sh b)"
    "placed_at tokens (i + 2 + length (tokens_of sh a) + length (tokens_of sh b)) ['')'']" by simp_all
  show ?case
    using Binary.IH(1) [OF _ a(1), of "depth + 1"] Binary.IH(2) [OF _ b(1), of "depth + 1"] Binary.prems(1) t(1) h(1)
      close_placed [OF b(2), of "Binary op a b"]
    by (subst parse_node.simps) (auto simp: max_parse_depth_def add.assoc simp del: get_opt_Some)
next
  case (Window op e n)
  from placed_Cons [of tokens i "''(''" "winop_tag op # show_nat n # tokens_of sh e @ ['')'']"] Window.prems(2)
  have t: "get_opt tokens i = Some ''(''" "placed_at tokens (Suc i) (winop_tag op # show_nat n # tokens_of sh e @ ['')''])" by simp_all
  from placed_Cons [OF t(2)] have h: "get_opt tokens (i + 1) = Some (winop_tag op)"
    "placed_at tokens (i + 2) (show_nat n # tokens_of sh e @ ['')''])" by simp_all
  from placed_Cons [OF h(2)] have p: "get_opt tokens (i + 2) = Some (show_nat n)" "placed_at tokens (i + 3) (tokens_of sh e @ ['')''])"
    by (simp_all add: numeral_3_eq_3)
  from placed_append [OF p(2)] have e: "placed_at tokens (i + 3) (tokens_of sh e)" "placed_at tokens (i + 3 + length (tokens_of sh e)) ['')'']"
    by simp_all
  show ?case
    using Window.IH [OF _ e(1), of "depth + 1"] Window.prems(1) t(1) h(1) p(1) close_placed [OF e(2), of "Window op e n"]
    by (subst parse_node.simps) (auto simp: max_parse_depth_def parse_usize_show simp del: get_opt_Some)
qed

text \<open>
  C37. Reading a formula inverts writing it, up to the parser's depth cap and no further. The written
  form of any formula nested at most 65 deep parses back to that formula, constants and periods
  included; a deeper one is refused as too deep, so nesting never overflows the parser. Hence two
  formulas with one written form are equal.
\<close>

theorem sexpr_round_trip:
  assumes "text_ok sh rd" "periods_fit e"
  shows "parse_sexpr rd (write_sexpr sh e) = (if tree_depth e \<le> max_parse_depth + 1 then Inr e else Inl TooDeep) \<and>
    (tree_depth e \<le> 65 \<longrightarrow> tree_depth f \<le> 65 \<longrightarrow> periods_fit f \<longrightarrow> write_sexpr sh e = write_sexpr sh f \<longrightarrow> e = f)"
proof -
  have read: "parse_sexpr rd (write_sexpr sh u) = (if tree_depth u \<le> 65 then Inr u else Inl TooDeep)" if "periods_fit u" for u
  proof -
    have "tokenize (write_sexpr sh u) = tokens_of sh u"
      using tokenize_written [OF assms(1), of "[]" u] by (simp add: tokenize_def flush_def)
    moreover have "placed_at (tokens_of sh u) 0 (tokens_of sh u)" by (simp add: placed_at_def)
    ultimately show ?thesis
      using parse_written [OF assms(1) that, of "tokens_of sh u" 0 0] by (simp add: parse_sexpr_def Let_def)
  qed
  show ?thesis
  proof (intro conjI impI)
    show "parse_sexpr rd (write_sexpr sh e) = (if tree_depth e \<le> max_parse_depth + 1 then Inr e else Inl TooDeep)"
      using read [OF assms(2)] by (simp add: max_parse_depth_def)
    assume d: "tree_depth e \<le> 65" "tree_depth f \<le> 65" "periods_fit f" and eq: "write_sexpr sh e = write_sexpr sh f"
    have "parse_sexpr rd (write_sexpr sh e) = Inr e" using read [OF assms(2)] if_P [OF d(1)] by (rule trans)
    moreover have "parse_sexpr rd (write_sexpr sh f) = Inr f" using read [OF d(3)] if_P [OF d(2)] by (rule trans)
    ultimately have "(Inr e :: (parse_error, 'a expr) result) = Inr f" using arg_cong [OF eq, of "parse_sexpr rd"] by metis
    then show "e = f" by (rule sum.inject(2) [THEN iffD1])
  qed
qed

lemma int_text_ok:
  "text_ok show_nat (\<lambda>s. Some (parse_digits s))"
  using show_nat_digits by (fastforce simp: text_ok_def is_paren_def is_space_def is_ascii_digit_def)

theorem sexpr_round_trip_witness:
  "let e = Window Rank_Win (Binary Add_Op (Input Close) (Const 2)) 50
   in parse_sexpr (\<lambda>s. Some (parse_digits s)) (write_sexpr show_nat e) = Inr e"
proof -
  let ?e = "Window Rank_Win (Binary Add_Op (Input Close) (Const 2)) 50 :: nat expr"
  have "periods_fit ?e" "tree_depth ?e = 3" by simp_all
  then show ?thesis
    using conjunct1 [OF sexpr_round_trip [OF int_text_ok]] by (simp add: max_parse_depth_def del: write_sexpr.simps)
qed

end
