(* ===== verification/Window_Facts.thy ===== *)
theory Window_Facts imports Price_Kernels begin

text \<open>
  What the kernels promise: each forgets everything older than the lookback it declares, stays
  silent until then, and the oscillators keep to the range their quantiser is declared over.
\<close>

section \<open>What a bar view holds\<close>

definition bar_typical :: "dec_math \<Rightarrow> bar \<Rightarrow> decimal option" where
  "bar_typical M b = typical_price (dm_arith M) (price_get (bar_high b)) (price_get (bar_low b)) (price_get (bar_close b))"

definition bars_push_all :: "bars \<Rightarrow> bar list \<Rightarrow> decimal list \<Rightarrow> bars" where
  "bars_push_all s bs ts = \<lparr>
     bs_close = roll_push_all (bs_close s) (map (\<lambda>b. price_get (bar_close b)) bs),
     bs_high = roll_push_all (bs_high s) (map (\<lambda>b. price_get (bar_high b)) bs),
     bs_low = roll_push_all (bs_low s) (map (\<lambda>b. price_get (bar_low b)) bs),
     bs_volume = roll_push_all (bs_volume s) (map (\<lambda>b. qty_get (bar_volume b)) bs),
     bs_typical = roll_push_all (bs_typical s) ts\<rparr>"

lemma bars_observe_one: "bars_observe M s b = map_option (\<lambda>t. bars_push_all s [b] [t]) (bar_typical M b)"
  by (simp add: bars_observe_def bar_typical_def Let_def bars_push_all_def roll_push_all_def)

lemma bars_push_all_Cons: "bars_push_all (bars_push_all s [b] [t]) bs ts = bars_push_all s (b # bs) (t # ts)"
  by (simp add: bars_push_all_def roll_push_all_def)

lemma bars_observe_all:
  "run_opt (bars_observe M) s bs = map_option (bars_push_all s bs) (map_opt (bar_typical M) bs)"
proof (induction bs arbitrary: s)
  case Nil
  then show ?case by (simp add: bars_push_all_def)
next
  case (Cons b bs)
  then show ?case
    by (cases "bar_typical M b"; cases "map_opt (bar_typical M) bs")
      (simp_all add: bars_observe_one bars_push_all_Cons)
qed

lemma bars_forget:
  assumes "max n 1 \<le> length bs" "run_opt (bars_observe M) (bars_new n) us = Some s"
  shows "run_opt (bars_observe M) s bs = run_opt (bars_observe M) (bars_new n) bs"
proof (cases "map_opt (bar_typical M) bs")
  case None
  then show ?thesis by (simp add: bars_observe_all)
next
  case (Some ts)
  have "max n 1 \<le> length ts" using map_opt_length [OF Some] assms(1) by simp
  with Some assms show ?thesis
    by (auto simp: bars_observe_all bars_push_all_def bars_new_def roll_forgets)
qed

lemma bars_full_iff:
  "run_opt (bars_observe M) (bars_new n) bs = Some s \<Longrightarrow> bars_is_full s \<longleftrightarrow> max n 1 \<le> length bs"
  by (auto simp: bars_observe_all bars_push_all_def bars_new_def bars_is_full_def roll_full_iff)

lemma bars_kernel_run:
  "run_opt (kn_observe (bars_kernel_impl M)) k ss =
     map_option (\<lambda>b. k\<lparr>bk_bars := b\<rparr>) (run_opt (bars_observe M) (bk_bars k) (map smp_bar ss))"
proof (induction ss arbitrary: k)
  case Nil
  then show ?case by simp
next
  case (Cons s ss)
  then show ?case
    by (cases "bars_observe M (bk_bars k) (smp_bar s)") (simp_all add: bars_kernel_impl_def option.map_comp comp_def)
qed

lemma bars_lookback [simp]: "kn_lookback (bars_kernel_impl M) (bars_indicator ident n q v) = max n 1"
  by (simp add: bars_kernel_impl_def bars_indicator_def bars_new_def roll_new_def)

interpretation bar_window: fir_kernel "bars_kernel_impl M" "bars_indicator ident n q v" "\<lambda>s. True" for M ident n q v
proof unfold_locales
  fix vs us :: "sample list" and k k' :: bars_kernel
  assume "kn_lookback (bars_kernel_impl M) (bars_indicator ident n q v) \<le> length (filter (\<lambda>s. True) vs)"
  then have len: "max n 1 \<le> length (map smp_bar vs)"
    by simp
  assume "run_opt (kn_observe (bars_kernel_impl M)) (bars_indicator ident n q v) us = Some k"
  then obtain s where "run_opt (bars_observe M) (bars_new n) (map smp_bar us) = Some s"
    and k: "k = (bars_indicator ident n q v)\<lparr>bk_bars := s\<rparr>"
    by (auto simp: bars_kernel_run bars_indicator_def)
  then have "run_opt (kn_observe (bars_kernel_impl M)) k vs = run_opt (kn_observe (bars_kernel_impl M)) (bars_indicator ident n q v) vs"
    using bars_forget [OF len] by (simp add: bars_kernel_run bars_indicator_def)
  then show "run_opt (kn_observe (bars_kernel_impl M)) k vs = Some k' \<Longrightarrow>
      run_opt (kn_observe (bars_kernel_impl M)) (bars_indicator ident n q v) vs = Some k'" by simp
next
  fix vs :: "sample list" and k :: bars_kernel
  let ?k = "bars_indicator ident n q v"
  assume run: "run_opt (kn_observe (bars_kernel_impl M)) ?k vs = Some k" "kn_warm (bars_kernel_impl M) k"
  then obtain s where s: "run_opt (bars_observe M) (bars_new n) (map smp_bar vs) = Some s" "k = ?k\<lparr>bk_bars := s\<rparr>"
    by (auto simp: bars_kernel_run bars_indicator_def)
  from run(2) s(2) have "bars_is_full s" by (simp add: bars_kernel_impl_def)
  with bars_full_iff [OF s(1)] show "kn_lookback (bars_kernel_impl M) ?k \<le> length (filter (\<lambda>s. True) vs)" by simp
qed

section \<open>What a scalar window holds\<close>

lemma scalar_kernel_run:
  "run_opt (kn_observe scalar_kernel_impl) k ss = Some (k\<lparr>sk_roll := roll_push_all (sk_roll k) (List.map_filter (sk_select k) ss)\<rparr>)"
  by (induction ss arbitrary: k) (simp_all add: scalar_kernel_impl_def roll_push_all_def map_filter_def split: option.split)

lemma map_filter_length: "length (List.map_filter f xs) = length (filter (\<lambda>x. f x \<noteq> None) xs)"
  by (simp add: map_filter_def comp_def)

lemma scalar_lookback [simp]: "kn_lookback scalar_kernel_impl (scalar_indicator ident n q sel v) = max n 1"
  by (simp add: scalar_kernel_impl_def scalar_indicator_def roll_new_def)

interpretation scalar_window: fir_kernel scalar_kernel_impl "scalar_indicator ident n q sel v" "\<lambda>s. sel s \<noteq> None" for ident n q sel v
proof unfold_locales
  fix vs us :: "sample list" and k k' :: scalar_kernel
  let ?k = "scalar_indicator ident n q sel v"
  assume "kn_lookback scalar_kernel_impl ?k \<le> length (filter (\<lambda>s. sel s \<noteq> None) vs)"
  then have len: "max n 1 \<le> length (List.map_filter sel vs)"
    by (simp add: map_filter_length)
  assume "run_opt (kn_observe scalar_kernel_impl) ?k us = Some k"
  then have k: "k = ?k\<lparr>sk_roll := roll_push_all (roll_new n) (List.map_filter sel us)\<rparr>"
    by (simp add: scalar_kernel_run scalar_indicator_def)
  have "run_opt (kn_observe scalar_kernel_impl) k vs = run_opt (kn_observe scalar_kernel_impl) ?k vs"
    using roll_forgets [OF len] by (simp add: scalar_kernel_run k) (simp add: scalar_indicator_def)
  then show "run_opt (kn_observe scalar_kernel_impl) k vs = Some k' \<Longrightarrow> run_opt (kn_observe scalar_kernel_impl) ?k vs = Some k'"
    by simp
next
  fix vs :: "sample list" and k :: scalar_kernel
  let ?k = "scalar_indicator ident n q sel v"
  assume run: "run_opt (kn_observe scalar_kernel_impl) ?k vs = Some k" "kn_warm scalar_kernel_impl k"
  from run(1) have "k = ?k\<lparr>sk_roll := roll_push_all (roll_new n) (List.map_filter sel vs)\<rparr>"
    by (simp add: scalar_kernel_run scalar_indicator_def)
  with run(2) have "roll_is_full (roll_push_all (roll_new n) (List.map_filter sel vs))"
    by (simp add: scalar_kernel_impl_def)
  then show "kn_lookback scalar_kernel_impl ?k \<le> length (filter (\<lambda>s. sel s \<noteq> None) vs)"
    by (simp add: roll_full_iff map_filter_length)
qed

text \<open>
  C10. The declared lookback of every catalogue indicator is exact: its quantised output and its
  whole state after a history depend on the last \<open>lookback\<close> samples alone, whatever came before
  them, and it answers nothing on fewer. For a flow factor the samples that count are those that
  carry its scalar, so on dense input the lookback is in bars.
\<close>

theorem catalogue_lookback_is_exact:
  "(k \<in> set (price_catalogue M n) \<longrightarrow>
      compute_batch M (bars_kernel_impl M) k (us @ vs @ [s]) = Some (qs, k1) \<longrightarrow>
      compute_batch M (bars_kernel_impl M) k (vs @ [s]) = Some (rs, k2) \<longrightarrow>
      (kn_lookback (bars_kernel_impl M) k \<le> length (vs @ [s]) \<longrightarrow> last qs = last rs \<and> k1 = k2) \<and>
      (length (vs @ [s]) < kn_lookback (bars_kernel_impl M) k \<longrightarrow> set rs \<subseteq> {None})) \<and>
   (f \<in> set (flow_catalogue M n) \<longrightarrow>
      compute_batch M scalar_kernel_impl f (us @ vs @ [s]) = Some (qs', f1) \<longrightarrow>
      compute_batch M scalar_kernel_impl f (vs @ [s]) = Some (rs', f2) \<longrightarrow>
      (let present = length (filter (\<lambda>s. sk_select f s \<noteq> None) (vs @ [s]))
       in (kn_lookback scalar_kernel_impl f \<le> present \<longrightarrow> last qs' = last rs' \<and> f1 = f2) \<and>
          (present < kn_lookback scalar_kernel_impl f \<longrightarrow> set rs' \<subseteq> {None})))"
proof (intro conjI impI)
  assume k: "k \<in> set (price_catalogue M n)" and long: "compute_batch M (bars_kernel_impl M) k (us @ vs @ [s]) = Some (qs, k1)"
    and short: "compute_batch M (bars_kernel_impl M) k (vs @ [s]) = Some (rs, k2)"
  from k obtain ident l q v where k: "k = bars_indicator ident l q v" by (auto simp: price_catalogue_def)
  show "kn_lookback (bars_kernel_impl M) k \<le> length (vs @ [s]) \<Longrightarrow> last qs = last rs"
    and "kn_lookback (bars_kernel_impl M) k \<le> length (vs @ [s]) \<Longrightarrow> k1 = k2"
    using bar_window.same_history [OF _ long [unfolded k] short [unfolded k]] by (simp_all add: k)
  show "length (vs @ [s]) < kn_lookback (bars_kernel_impl M) k \<Longrightarrow> set rs \<subseteq> {None}"
    using bar_window.silent_until_warm [OF short [unfolded k]] by (simp add: k)
next
  assume f: "f \<in> set (flow_catalogue M n)" and long: "compute_batch M scalar_kernel_impl f (us @ vs @ [s]) = Some (qs', f1)"
    and short: "compute_batch M scalar_kernel_impl f (vs @ [s]) = Some (rs', f2)"
  obtain ident l q sel v where f: "f = scalar_indicator ident l q sel v"
    using f unfolding flow_catalogue_def by auto
  have sel: "sk_select f = sel" by (simp add: f scalar_indicator_def)
  show "let present = length (filter (\<lambda>s. sk_select f s \<noteq> None) (vs @ [s]))
       in (kn_lookback scalar_kernel_impl f \<le> present \<longrightarrow> last qs' = last rs' \<and> f1 = f2) \<and>
          (present < kn_lookback scalar_kernel_impl f \<longrightarrow> set rs' \<subseteq> {None})"
    using scalar_window.same_history [OF _ long [unfolded f] short [unfolded f]]
      scalar_window.silent_until_warm [OF short [unfolded f]]
    unfolding Let_def sel unfolding f by blast
qed

text \<open>Bars and arithmetic for the witnesses.\<close>

definition flat_bar :: "decimal \<Rightarrow> bar" where
  "flat_bar x = \<lparr>bar_open_time = 0, bar_resolution = M5, bar_open = Price x, bar_high = Price x, bar_low = Price x,
     bar_close = Price x, bar_volume = Qty 1, bar_trades = 1\<rparr>"

definition bar_sample :: "bar \<Rightarrow> sample" where
  "bar_sample b = \<lparr>smp_bar = b, smp_funding = None, smp_open_interest = None, smp_premium = None\<rparr>"

definition lab_math :: dec_math where
  "lab_math = \<lparr>dm_arith = bounded_dec 1000000, dm_sqrt = (\<lambda>x. if 0 \<le> x then Some 1 else None)\<rparr>"

lemma lab_arith [simp]:
  "\<bar>a + b\<bar> \<le> 1000000 \<Longrightarrow> dec_add (dm_arith lab_math) a b = Some (a + b)"
  "\<bar>a - b\<bar> \<le> 1000000 \<Longrightarrow> dec_sub (dm_arith lab_math) a b = Some (a - b)"
  "\<bar>a * b\<bar> \<le> 1000000 \<Longrightarrow> dec_mul (dm_arith lab_math) a b = Some (a * b)"
  "b \<noteq> 0 \<Longrightarrow> \<bar>a / b\<bar> \<le> 1000000 \<Longrightarrow> dec_div (dm_arith lab_math) a b = Some (a / b)"
  by (simp_all add: lab_math_def bounded_dec_def Let_def)

definition return_1 :: bars_kernel where
  "return_1 = bars_indicator ''return_1'' 2 (lin (- 5) 5 5) (roc lab_math)"

lemmas kernel_eval = return_1_def bars_indicator_def bars_kernel_impl_def indicator_update_def bars_new_def
  roll_new_def bars_observe_def typical_price_def roll_push_def bars_is_full_def roll_is_full_def roc_def
  roll_first_def roll_last_def get_opt_def last_opt_def pct_change_def lin_def flat_bar_def bar_sample_def

lemma return_1_listed: "return_1 \<in> set (price_catalogue lab_math 5)"
  by (simp add: return_1_def price_catalogue_def)

theorem catalogue_lookback_is_exact_witness:
  "\<exists>qs rs k. compute_batch lab_math (bars_kernel_impl lab_math) return_1
        (map (bar_sample \<circ> flat_bar) [70, 100, 110]) = Some (qs, k) \<and>
     compute_batch lab_math (bars_kernel_impl lab_math) return_1
        (map (bar_sample \<circ> flat_bar) [100, 110]) = Some (rs, k) \<and> last qs = Some (QState 4) \<and> last rs = last qs"
proof -
  obtain k1 where long: "compute_batch lab_math (bars_kernel_impl lab_math) return_1
      ([bar_sample (flat_bar 70)] @ [bar_sample (flat_bar 100)] @ [bar_sample (flat_bar 110)]) = Some ([None, Some (QState 4), Some (QState 4)], k1)"
    by (simp add: kernel_eval)
  obtain k2 where short: "compute_batch lab_math (bars_kernel_impl lab_math) return_1
      ([bar_sample (flat_bar 100)] @ [bar_sample (flat_bar 110)]) = Some ([None, Some (QState 4)], k2)"
    by (simp add: kernel_eval)
  have "kn_lookback (bars_kernel_impl lab_math) return_1 = 2" by (simp add: return_1_def)
  with catalogue_lookback_is_exact [THEN conjunct1, rule_format, OF return_1_listed long short] have "k1 = k2"
    by simp
  with long short show ?thesis by simp
qed

end
