(* ===== verification/Expr_Window.thy ===== *)
theory Expr_Window imports Expr_Tree Window_Facts begin

text \<open>
  Evolved formulas keep the finite-window contract: the streaming fold is the recomputation, and
  the declared lookback is exact for a formula whose windows all read a price or volume.
\<close>

section \<open>Streaming\<close>

lemma eval_nodes_naive:
  "node_after M e us = Some n \<Longrightarrow> eval_nodes M n ss = map_opt (naive M e) (map (\<lambda>i. us @ take (Suc i) ss) [0..<length ss])"
proof (induction ss arbitrary: us n)
  case Nil
  then show ?case by simp
next
  case (Cons s ss)
  have hist: "map (\<lambda>i. us @ take (Suc i) (s # ss)) [0..<length (s # ss)] =
      (us @ [s]) # map (\<lambda>i. (us @ [s]) @ take (Suc i) ss) [0..<length ss]"
    by (simp add: upt_conv_Cons map_Suc_upt [symmetric] del: upt_Suc)
  note step = eval_node_after [OF Cons.prems, of s]
  show ?case
  proof (cases "naive M e (us @ [s])")
    case None
    with step show ?thesis unfolding hist by simp
  next
    case (Some v)
    with step obtain n' where "node_after M e (us @ [s]) = Some n'" by auto
    with step Some Cons.IH [OF this] show ?thesis unfolding hist by simp
  qed
qed

text \<open>
  C12. Streaming a formula is recomputing it: fold the compiled tree over any series and the value
  at each bar is the one the formula has on the history up to that bar, computed from scratch,
  undefined values included; the fold panics exactly when one of those recomputations does.
\<close>

theorem streaming_is_recomputing:
  "eval_stream M e ss = map_opt (naive M e) (histories ss)"
  using eval_nodes_naive [of M e "[]"] by (simp add: eval_stream_def histories_def)

section \<open>Warmup\<close>

text \<open>The bars a formula needs before it has a value; a constant has one from the first bar.\<close>

fun warmup :: "'d expr \<Rightarrow> usize" where
  "warmup (Input f) = 1"
| "warmup (Const c) = 1"
| "warmup (Unary op e) = warmup e"
| "warmup (Binary op a b) = max (warmup a) (warmup b)"
| "warmup (Window op e cap) = (cap - 1) + warmup e"

fun reads_market :: "'d expr \<Rightarrow> bool" where
  "reads_market (Input f) = True"
| "reads_market (Const c) = False"
| "reads_market (Unary op e) = reads_market e"
| "reads_market (Binary op a b) = (reads_market a \<or> reads_market b)"
| "reads_market (Window op e cap) = reads_market e"

fun live_windows :: "'d expr \<Rightarrow> bool" where
  "live_windows (Input f) = True"
| "live_windows (Const c) = True"
| "live_windows (Unary op e) = live_windows e"
| "live_windows (Binary op a b) = (live_windows a \<and> live_windows b)"
| "live_windows (Window op e cap) = (live_windows e \<and> reads_market e)"

lemma warmup_pos [simp]: "0 < warmup e"
  by (induction e) auto

lemma warmup_lookback:
  "live_windows e \<Longrightarrow> warmup e = max 1 (max_lookback e) \<and> (reads_market e \<longrightarrow> 1 \<le> max_lookback e) \<and>
     (\<not> reads_market e \<longrightarrow> max_lookback e = 0)"
  by (induction e) auto

lemma aggregate_defined:
  assumes "dec_math_ok M" "ro_buf r \<noteq> []" "aggregate M op r = Some v"
  shows "v \<noteq> None"
proof -
  have ends: "\<exists>x. roll_last r = Some x" "\<exists>x. roll_first r = Some x" "\<exists>x. roll_max r = Some x" "\<exists>x. roll_min r = Some x"
    using assms(2) by (simp_all add: roll_last_def last_opt_def roll_first_def roll_max_def roll_min_def)
  note mean = roll_mean_cases [OF _ assms(2), of M]
  note std = std_pop_defined [OF assms(1,2)]
  show ?thesis
  proof (cases op)
    case Zscore_Win
    then show ?thesis
      using assms(3) ends by (cases "roll_mean M r"; cases "roll_std_pop M r")
        (auto simp: bind_eq_Some_conv split: if_splits dest!: mean std)
  next
    case MeanAbsDev_Win
    then show ?thesis
      using assms(3) by (cases "roll_mean M r") (auto simp: roll_mean_abs_dev_def bind_eq_Some_conv some_val_def dest!: mean)
  qed (use assms(3) ends in \<open>auto simp: Let_def some_val_def dest: mean std\<close>)
qed

lemma histories_length [simp]: "length (histories ss) = length ss"
  by (simp add: histories_def)

lemma histories_nth: "i < length ss \<Longrightarrow> histories ss ! i = take (Suc i) ss"
  by (simp add: histories_def)

text \<open>Values that are undefined up to a point and defined from there on.\<close>

lemma somes_suffix:
  assumes "\<And>i. i < length vs \<Longrightarrow> vs ! i \<noteq> None \<longleftrightarrow> k \<le> i"
  shows "somes vs = map the (drop k vs)"
proof -
  have "vs = take k vs @ drop k vs" by simp
  moreover have "vs ! i = None" if "i < length vs" "i < k" for i using assms [OF that(1)] that(2) by auto
  then have "somes (take k vs) = []"
    by (auto simp: somes_def filter_empty_conv in_set_conv_nth)
  moreover have "filter (\<lambda>v. v \<noteq> None) (drop k vs) = drop k vs"
    using assms by (auto simp: filter_id_conv in_set_conv_nth)
  ultimately show ?thesis by (metis append_Nil somes_def somes_simps(2))
qed

text \<open>Once the bars of the warmup have gone by, and only then, a formula has a value.\<close>

lemma naive_defined:
  assumes "dec_math_ok M"
  shows "ss \<noteq> [] \<Longrightarrow> naive M e ss = Some v \<Longrightarrow> v \<noteq> None \<longleftrightarrow> warmup e \<le> length ss"
proof (induction e arbitrary: ss v)
  case (Input f)
  then show ?case by (cases ss) (auto simp: some_val_def)
next
  case (Const c)
  then show ?case by (cases ss) auto
next
  case (Unary op e)
  then show ?case by (fastforce simp: map_option_case split: option.splits)
next
  case (Binary op a b)
  from Binary.prems(2) obtain va vb where ab: "naive M a ss = Some va" "naive M b ss = Some vb"
      and v: "(case (va, vb) of (Some x, Some y) \<Rightarrow> some_val (apply_binary (dm_arith M) op x y) | _ \<Rightarrow> Some None) = Some v"
    by (auto simp: bind_eq_Some_conv)
  have "v \<noteq> None \<longleftrightarrow> va \<noteq> None \<and> vb \<noteq> None" using v by (auto simp: some_val_def split: option.splits)
  with Binary.IH(1) [OF Binary.prems(1) ab(1)] Binary.IH(2) [OF Binary.prems(1) ab(2)] show ?case by simp
next
  case (Window op e cap)
  from Window.prems(2) obtain vs where vs: "map_opt (naive M e) (histories ss) = Some vs"
      and v: "(if max cap 1 \<le> length (somes vs) then aggregate M op \<lparr>ro_cap = max cap 1, ro_buf = lastn (max cap 1) (somes vs)\<rparr>
        else Some None) = Some v"
    by (auto simp: bind_eq_Some_conv)
  have len: "length vs = length ss" using map_opt_length [OF vs] by simp
  have "vs ! i \<noteq> None \<longleftrightarrow> warmup e - 1 \<le> i" if "i < length vs" for i
    using Window.IH [of "take (Suc i) ss" "vs ! i"] map_opt_nth [OF vs, of i] that len Window.prems(1)
    by (auto simp: histories_nth)
  then have "length (somes vs) = length ss - (warmup e - 1)" using somes_suffix [of vs "warmup e - 1"] len by simp
  then have full: "max cap 1 \<le> length (somes vs) \<longleftrightarrow> warmup (Window op e cap) \<le> length ss"
    using warmup_pos [of e] by (auto simp: le_diff_conv2)
  show ?case
  proof (cases "max cap 1 \<le> length (somes vs)")
    case True
    then have "v \<noteq> None" using v aggregate_defined [OF assms, of "\<lparr>ro_cap = max cap 1, ro_buf = lastn (max cap 1) (somes vs)\<rparr>" op v]
      by (auto simp: lastn_def)
    with True full show ?thesis by simp
  next
    case False
    with v full show ?thesis by auto
  qed
qed

section \<open>The lookback is exact\<close>

lemma histories_append: "histories (us @ vs) = histories us @ map ((@) us) (histories vs)"
proof (induction vs rule: rev_induct)
  case Nil
  then show ?case by (simp add: histories_def)
next
  case (snoc s vs)
  have "histories (us @ vs @ [s]) = histories (us @ vs) @ [(us @ vs) @ [s]]" by (metis append_assoc histories_snoc)
  then show ?case by (simp add: snoc)
qed

lemma map_opt_weaken:
  "map_opt f (map h xs) = Some ys \<Longrightarrow> (\<And>x y. x \<in> set xs \<Longrightarrow> f (h x) = Some y \<Longrightarrow> \<exists>w. g x = Some w \<and> R w y) \<Longrightarrow>
     \<exists>ws. map_opt g xs = Some ws \<and> list_all2 R ws ys"
proof (induction xs arbitrary: ys)
  case Nil
  then show ?case by simp
next
  case (Cons x xs)
  from Cons.prems(1) obtain y ys' where y: "f (h x) = Some y" "map_opt f (map h xs) = Some ys'" "ys = y # ys'"
    by (auto simp: bind_eq_Some_conv)
  from Cons.prems(2) [OF _ y(1)] obtain w where "g x = Some w" "R w y" by auto
  with Cons.IH [OF y(2) Cons.prems(2)] y(3) show ?case by auto
qed

definition forgetful :: "dec_math \<Rightarrow> decimal expr \<Rightarrow> bool" where
  "forgetful M e \<longleftrightarrow> (\<forall>us vs v. vs \<noteq> [] \<longrightarrow> naive M e (us @ vs) = Some v \<longrightarrow> (\<exists>w. naive M e vs = Some w \<and> (w = None \<or> w = v)))"

lemma window_values:
  assumes "dec_math_ok M" "forgetful M e" "map_opt (naive M e) (histories (us @ vs)) = Some ls"
  obtains ws where "map_opt (naive M e) (histories vs) = Some ws"
    "\<And>m. m \<le> length (somes ws) \<Longrightarrow> m \<le> length (somes ls) \<and> lastn m (somes ls) = lastn m (somes ws)"
    "warmup e \<le> length vs \<Longrightarrow> length (somes ws) = length vs - (warmup e - 1)"
proof -
  from assms(3) obtain l1 l2 where l: "ls = l1 @ l2" and l2: "map_opt (naive M e) (map ((@) us) (histories vs)) = Some l2"
    by (auto simp: histories_append map_opt_append bind_eq_Some_conv)
  have "x \<noteq> []" if "x \<in> set (histories vs)" for x using that by (auto simp: histories_def)
  then have "\<exists>w. naive M e x = Some w \<and> (w = None \<or> w = y)" if "x \<in> set (histories vs)" "naive M e (us @ x) = Some y" for x y
    using assms(2) that unfolding forgetful_def by blast
  note weaken = map_opt_weaken [where g = "naive M e" and R = "\<lambda>w y. w = None \<or> w = y", OF l2 this]
  then obtain ws where ws: "map_opt (naive M e) (histories vs) = Some ws"
      and rel: "list_all2 (\<lambda>w y. w = None \<or> w = y) ws l2" by blast
  have len: "length ws = length vs" "length l2 = length ws" using map_opt_length [OF ws] list_all2_lengthD [OF rel] by simp_all
  let ?k = "warmup e - 1"
  have def: "ws ! i \<noteq> None \<longleftrightarrow> ?k \<le> i" if "i < length ws" for i
  proof -
    have "take (Suc i) vs \<noteq> []" using that len by (cases vs) auto
    then show ?thesis
      using naive_defined [OF assms(1), of "take (Suc i) vs" e "ws ! i"] map_opt_nth [OF ws, of i] that len
      by (auto simp: histories_nth)
  qed
  have s: "somes ws = map the (drop ?k ws)" by (rule somes_suffix) (rule def)
  have "drop ?k ws = drop ?k l2"
  proof (rule nth_equalityI)
    fix i assume "i < length (drop ?k ws)"
    then show "drop ?k ws ! i = drop ?k l2 ! i"
      using list_all2_nthD [OF rel, of "?k + i"] def [of "?k + i"] len by (auto simp: add.commute less_diff_conv)
  qed (simp add: len)
  moreover have "somes l2 = somes (take ?k l2) @ somes (drop ?k l2)" by (metis append_take_drop_id somes_simps(2))
  moreover have "somes (drop ?k ws) = somes ws"
    using somes_suffix [of "drop ?k ws" 0] def s by auto
  ultimately have split: "somes ls = (somes l1 @ somes (take ?k l2)) @ somes ws" using l by simp
  show thesis
  proof (rule that [OF ws])
    show "m \<le> length (somes ws) \<Longrightarrow> m \<le> length (somes ls) \<and> lastn m (somes ls) = lastn m (somes ws)" for m
      by (simp add: split lastn_append del: append_assoc)
    show "length (somes ws) = length vs - ?k" by (simp add: s len)
  qed
qed

lemma naive_forgetful:
  assumes "dec_math_ok M"
  shows "forgetful M e"
proof (induction e)
  case (Unary op e)
  show ?case unfolding forgetful_def
  proof (intro allI impI)
    fix us vs v assume "vs \<noteq> []" and v: "naive M (Unary op e) (us @ vs) = Some v"
    then obtain u where "naive M e (us @ vs) = Some u" "v = map_option (apply_unary op) u" by auto
    with Unary \<open>vs \<noteq> []\<close> show "\<exists>w. naive M (Unary op e) vs = Some w \<and> (w = None \<or> w = v)"
      unfolding forgetful_def by fastforce
  qed
next
  case (Binary op a b)
  show ?case unfolding forgetful_def
  proof (intro allI impI)
    fix us vs v assume vs: "vs \<noteq> []" and v: "naive M (Binary op a b) (us @ vs) = Some v"
    then obtain va vb where ab: "naive M a (us @ vs) = Some va" "naive M b (us @ vs) = Some vb"
        and v: "(case (va, vb) of (Some x, Some y) \<Rightarrow> some_val (apply_binary (dm_arith M) op x y) | _ \<Rightarrow> Some None) = Some v"
      by (auto simp: bind_eq_Some_conv)
    from Binary vs ab obtain wa wb where "naive M a vs = Some wa" "wa = None \<or> wa = va" "naive M b vs = Some wb" "wb = None \<or> wb = vb"
      unfolding forgetful_def by blast
    with v show "\<exists>w. naive M (Binary op a b) vs = Some w \<and> (w = None \<or> w = v)"
      by (auto split: option.splits)
  qed
next
  case (Window op e cap)
  show ?case unfolding forgetful_def
  proof (intro allI impI)
    fix us vs v assume vs: "vs \<noteq> []" and "naive M (Window op e cap) (us @ vs) = Some v"
    then obtain ls where ls: "map_opt (naive M e) (histories (us @ vs)) = Some ls"
        and v: "(if max cap 1 \<le> length (somes ls) then aggregate M op \<lparr>ro_cap = max cap 1, ro_buf = lastn (max cap 1) (somes ls)\<rparr>
          else Some None) = Some v"
      by (auto simp: bind_eq_Some_conv)
    obtain ws where ws: "map_opt (naive M e) (histories vs) = Some ws"
        and same: "\<And>m. m \<le> length (somes ws) \<Longrightarrow> m \<le> length (somes ls) \<and> lastn m (somes ls) = lastn m (somes ws)"
      using window_values [OF assms Window ls] by blast
    show "\<exists>w. naive M (Window op e cap) vs = Some w \<and> (w = None \<or> w = v)"
    proof (cases "max cap 1 \<le> length (somes ws)")
      case True
      from same [OF this] v have "aggregate M op \<lparr>ro_cap = max cap 1, ro_buf = lastn (max cap 1) (somes ws)\<rparr> = Some v"
        by (simp only: if_True)
      with True show ?thesis by (simp add: ws)
    next
      case False
      then have "naive M (Window op e cap) vs = Some None" by (simp only: naive.simps ws Option.bind.simps if_False)
      then show ?thesis by blast
    qed
  qed
qed (fastforce simp: forgetful_def some_val_def)+

lemma node_after_local:
  assumes "dec_math_ok M"
  shows "warmup e \<le> length vs \<Longrightarrow> node_after M e (us @ vs) = Some n \<Longrightarrow> node_after M e vs = Some n"
proof (induction e arbitrary: n)
  case (Window op e cap)
  from Window.prems(2) obtain m ls where m: "node_after M e (us @ vs) = Some m" and ls: "map_opt (naive M e) (histories (us @ vs)) = Some ls"
      and n: "n = NWindow op m (roll_push_all (roll_new (max cap 1)) (somes ls))"
    by (auto simp: bind_eq_Some_conv)
  obtain ws where ws: "map_opt (naive M e) (histories vs) = Some ws"
      and same: "\<And>m. m \<le> length (somes ws) \<Longrightarrow> m \<le> length (somes ls) \<and> lastn m (somes ls) = lastn m (somes ws)"
      and count: "warmup e \<le> length vs \<Longrightarrow> length (somes ws) = length vs - (warmup e - 1)"
    using window_values [OF assms naive_forgetful [OF assms] ls] by blast
  have "max cap 1 \<le> length (somes ws)" using count Window.prems(1) warmup_pos [of e] by (simp del: warmup_pos) linarith
  then have "roll_push_all (roll_new (max cap 1)) (somes ls) = roll_push_all (roll_new (max cap 1)) (somes ws)"
    using same by (simp add: roll_window)
  with Window.IH [OF _ m] Window.prems(1) show ?case by (simp add: ws n)
qed (auto simp: bind_eq_Some_conv)

section \<open>Formulas as indicators\<close>

abbreviation expr_observe :: "dec_math \<Rightarrow> expr_indicator \<Rightarrow> sample \<Rightarrow> expr_indicator option" where
  "expr_observe M \<equiv> kn_observe (expr_kernel_impl M)"

lemma expr_observe_step:
  assumes "node_after M e ss = Some (ei_root k)"
  shows "expr_observe M k s = Some k' \<longleftrightarrow>
    (\<exists>v n. naive M e (ss @ [s]) = Some v \<and> node_after M e (ss @ [s]) = Some n \<and> k' = k\<lparr>ei_root := n, ei_cached := v\<rparr>)"
  using eval_node_after [OF assms, of s]
  by (cases "naive M e (ss @ [s])"; cases "node_after M e (ss @ [s])") (auto simp: expr_kernel_impl_def)

lemma expr_run_state:
  assumes "ei_root k = compile_node e"
  shows "run_opt (expr_observe M) k ss = Some k' \<Longrightarrow> node_after M e ss = Some (ei_root k') \<and>
    (ss \<noteq> [] \<longrightarrow> naive M e ss = Some (ei_cached k')) \<and> k' = k\<lparr>ei_root := ei_root k', ei_cached := ei_cached k'\<rparr>"
proof (induction ss arbitrary: k' rule: rev_induct)
  case Nil
  then show ?case using assms by auto
next
  case (snoc s ss)
  then obtain k1 where k1: "run_opt (expr_observe M) k ss = Some k1" "expr_observe M k1 s = Some k'"
    by (auto simp: run_opt_append bind_eq_Some_conv)
  note IH = snoc.IH [OF k1(1)]
  then have root: "node_after M e ss = Some (ei_root k1)" and eq: "k1 = k\<lparr>ei_root := ei_root k1, ei_cached := ei_cached k1\<rparr>" by blast+
  from k1(2) obtain v n where "naive M e (ss @ [s]) = Some v" "node_after M e (ss @ [s]) = Some n" "k' = k1\<lparr>ei_root := n, ei_cached := v\<rparr>"
    unfolding expr_observe_step [OF root] by blast
  with eq show ?case by (simp, cases k, cases k1) simp
qed

lemma expr_run_some:
  assumes "ei_root k = compile_node e"
  shows "\<forall>i < length ss. naive M e (take (Suc i) ss) \<noteq> None \<Longrightarrow> \<exists>k'. run_opt (expr_observe M) k ss = Some k'"
proof (induction ss rule: rev_induct)
  case Nil
  then show ?case by simp
next
  case (snoc s ss)
  have "naive M e (take (Suc i) ss) \<noteq> None" if "i < length ss" for i
    using snoc.prems that by (simp add: Suc_le_eq less_SucI split: if_splits) (metis Suc_le_eq append_Nil2 diff_is_0_eq less_SucI take_0)
  then obtain k1 where k1: "run_opt (expr_observe M) k ss = Some k1" using snoc.IH by blast
  have root: "node_after M e ss = Some (ei_root k1)" using expr_run_state [OF assms k1] by simp
  have "naive M e (ss @ [s]) \<noteq> None" using snoc.prems by (metis length_append_singleton lessI take_all_iff order_refl)
  then show ?case
    using k1 expr_observe_step [OF root] eval_node_after [OF root, of s] by (fastforce simp: run_opt_append)
qed

text \<open>A formula whose windows all read the market, driven by sound arithmetic.\<close>

locale market_formula =
  fixes M :: dec_math and e :: "decimal expr" and ident :: string and q :: quantiser
  assumes math: "dec_math_ok M" and live: "live_windows e" "reads_market e"
begin

lemma lookback_warmup: "kn_lookback (expr_kernel_impl M) (compile_expr ident e q) = warmup e"
  using warmup_lookback [OF live(1)] live(2) by (simp add: expr_kernel_impl_def compile_expr_def)

lemma root: "ei_root (compile_expr ident e q) = compile_node e"
  by (simp add: compile_expr_def)

end

sublocale market_formula \<subseteq> formula: fir_kernel "expr_kernel_impl M" "compile_expr ident e q" "\<lambda>s. True"
proof unfold_locales
  fix us vs :: "sample list" and k k' :: expr_indicator
  let ?f = "compile_expr ident e q"
  assume "kn_lookback (expr_kernel_impl M) ?f \<le> length (filter (\<lambda>s. True) vs)"
  then have len: "warmup e \<le> length vs" by (simp add: lookback_warmup)
  assume us: "run_opt (expr_observe M) ?f us = Some k" and vs: "run_opt (expr_observe M) k vs = Some k'"
  have ne: "vs \<noteq> []" using len warmup_pos [of e] by (metis le_zero_eq list.size(3) less_numeral_extra(3))
  have long: "run_opt (expr_observe M) ?f (us @ vs) = Some k'" using us vs by (simp add: run_opt_append)
  note forget = naive_forgetful [OF math, of e, unfolded forgetful_def, rule_format]
  have "naive M e (take (Suc i) vs) \<noteq> None" if "i < length vs" for i
  proof -
    obtain k1 where "run_opt (expr_observe M) ?f (us @ take (Suc i) vs) = Some k1"
      using long run_opt_append [of "expr_observe M" ?f "us @ take (Suc i) vs" "drop (Suc i) vs"]
      by (cases "run_opt (expr_observe M) ?f (us @ take (Suc i) vs)") simp_all
    from expr_run_state [OF root this] show ?thesis using forget [of "take (Suc i) vs" us "ei_cached k1"] ne by auto
  qed
  then obtain l where l: "run_opt (expr_observe M) ?f vs = Some l" using expr_run_some [OF root] by blast
  note sl = expr_run_state [OF root l] and sk = expr_run_state [OF root long]
  have "node_after M e vs = Some (ei_root k')" using node_after_local [OF math len, of us] sk by blast
  then have "ei_root k' = ei_root l" using sl by simp
  moreover have "ei_cached k' = ei_cached l"
    using forget [OF ne, of us "ei_cached k'"] sk sl ne naive_defined [OF math ne, of e "ei_cached l"] len by auto
  ultimately have "k' = l" using sk sl by metis
  with l show "run_opt (expr_observe M) ?f vs = Some k'" by simp
next
  fix vs :: "sample list" and k :: expr_indicator
  let ?f = "compile_expr ident e q"
  assume run: "run_opt (expr_observe M) ?f vs = Some k" and warm: "kn_warm (expr_kernel_impl M) k"
  have "vs \<noteq> []" using run warm by (auto simp: compile_expr_def expr_kernel_impl_def)
  moreover from this have "naive M e vs = Some (ei_cached k)" using expr_run_state [OF root run] by simp
  moreover have "ei_cached k \<noteq> None" using warm by (simp add: expr_kernel_impl_def)
  ultimately have "warmup e \<le> length vs" using naive_defined [OF math] by blast
  then show "kn_lookback (expr_kernel_impl M) ?f \<le> length (filter (\<lambda>s. True) vs)" by (simp add: lookback_warmup)
qed

context market_formula begin

lemma exact_lookback:
  assumes "compute_batch M (expr_kernel_impl M) (compile_expr ident e q) (us @ vs @ [s]) = Some (qs, k)"
    and "compute_batch M (expr_kernel_impl M) (compile_expr ident e q) (vs @ [s]) = Some (rs, l)"
  shows "(max_lookback e \<le> length (vs @ [s]) \<longrightarrow> last qs = last rs \<and> k = l) \<and>
    (length (vs @ [s]) < max_lookback e \<longrightarrow> set rs \<subseteq> {None})"
proof -
  have "kn_lookback (expr_kernel_impl M) (compile_expr ident e q) = max_lookback e"
    by (simp add: expr_kernel_impl_def compile_expr_def)
  with formula.same_history [OF _ assms] formula.silent_until_warm [OF assms(2)] show ?thesis by auto
qed

end

lemma lab_math_ok [simp]: "dec_math_ok lab_math"
  unfolding dec_math_ok_def by (simp add: lab_math_def) (auto simp: bounded_dec_def Let_def split: if_splits)

interpretation field_window: market_formula lab_math "Window op (Input f) n" ident q for op f n ident q
  by unfold_locales simp_all

text \<open>
  C11. The lookback an evolved formula declares is exact. For a formula that reads the market and
  whose windows all do, and whatever the package rounds as long as its sums keep the order, its squares and
  quotients the sign, and non-negative numbers have roots (\<open>dec_math_ok\<close>), the compiled indicator's
  quantised output and its whole state depend on the last \<open>max_lookback\<close> bars alone, whatever came
  before them, through any nesting of windows; on fewer bars it answers nothing.
\<close>

theorem formula_lookback_is_exact:
  assumes "dec_math_ok M" "live_windows e" "reads_market e"
    and "compute_batch M (expr_kernel_impl M) (compile_expr ident e q) (us @ vs @ [s]) = Some (qs, k)"
    and "compute_batch M (expr_kernel_impl M) (compile_expr ident e q) (vs @ [s]) = Some (rs, l)"
  shows "(max_lookback e \<le> length (vs @ [s]) \<longrightarrow> last qs = last rs \<and> k = l) \<and>
    (length (vs @ [s]) < max_lookback e \<longrightarrow> set rs \<subseteq> {None})"
  by (rule market_formula.exact_lookback [OF _ assms(4,5)]) (unfold_locales, fact assms(1), fact assms(2), fact assms(3))

definition swing :: "decimal expr" where
  "swing = Window Delta_Win (Window Max_Win (Input High) 2) 2"

lemmas expr_eval = compile_expr_def expr_kernel_impl_def indicator_update_def swing_def roll_new_def roll_push_def
  roll_is_full_def roll_first_def roll_last_def roll_max_def get_opt_def last_opt_def lin_def flat_bar_def bar_sample_def Let_def zero_less_iff_neq_zero

theorem formula_lookback_is_exact_witness:
  "\<exists>qs rs k. compute_batch lab_math (expr_kernel_impl lab_math) (compile_expr ''f'' swing (lin (- 5) 5 5))
        (map (bar_sample \<circ> flat_bar) [70, 100, 110, 90]) = Some (qs, k) \<and>
     compute_batch lab_math (expr_kernel_impl lab_math) (compile_expr ''f'' swing (lin (- 5) 5 5))
        (map (bar_sample \<circ> flat_bar) [100, 110, 90]) = Some (rs, k) \<and> last rs = last qs"
proof -
  let ?run = "\<lambda>xs. compute_batch lab_math (expr_kernel_impl lab_math) (compile_expr ''f'' swing (lin (- 5) 5 5)) (map (bar_sample \<circ> flat_bar) xs)"
  have "\<exists>qs k. ?run [70, 100, 110, 90] = Some (qs, k)" by (simp add: expr_eval)
  then obtain qs k where long: "?run [70, 100, 110, 90] = Some (qs, k)" by blast
  have "\<exists>rs l. ?run [100, 110, 90] = Some (rs, l)" by (simp add: expr_eval)
  then obtain rs l where short: "?run [100, 110, 90] = Some (rs, l)" by blast
  have "max_lookback swing = 3" "live_windows swing" "reads_market swing" by (simp_all add: swing_def)
  then have "last qs = last rs \<and> k = l"
    using formula_lookback_is_exact [of lab_math swing "''f''" "lin (- 5) 5 5" "map (bar_sample \<circ> flat_bar) [70]"
        "map (bar_sample \<circ> flat_bar) [100, 110]" "bar_sample (flat_bar 90)" qs k rs l] long short by simp
  with long short show ?thesis by metis
qed

text \<open>
  A window over a constant needs one bar more than it declares: at its declared lookback it has no
  value, although with an older history it has one.
\<close>

theorem constant_window_under_declares:
  assumes "length ss = max_lookback (Window Max_Win (Const c) n)" "2 \<le> n"
  shows "naive M (Window Max_Win (Const c) n) ss = Some None \<and>
    (\<exists>v. naive M (Window Max_Win (Const c) n) (s # ss) = Some (Some v))"
proof -
  have all: "map_opt (\<lambda>ss. Some (Some c)) xs = Some (replicate (length xs) (Some c))" for xs :: "sample list list"
    by (induction xs) simp_all
  have "somes (replicate m (Some c)) = replicate m c" for m by (induction m) (simp_all add: somes_def)
  with assms show ?thesis by (auto simp: all roll_max_def lastn_def max_def)
qed

end
