(* ===== verification/Expr_Canon.thy ===== *)
theory Expr_Canon imports Expr_Text Expr_Window Artefact_Fs "HOL-Library.Char_ord" "HOL-Library.List_Lexorder" begin

text \<open>
  Canonical forms of evolved formulas (\<open>qe-signal\<close>, \<open>indicator/expr.rs\<close>): constant folding, the
  order of commutative operands, the stripping of monotone wrappers under a normalising root, and
  the content hash taken over the canonical text. A written decimal is of any type with the package's
  operations and the number it denotes; two written forms can denote one number.
\<close>

section \<open>Written decimals\<close>

record 'd written =
  wr_value :: "'d \<Rightarrow> decimal"
  wr_show :: "'d \<Rightarrow> string"
  wr_parse :: "string \<Rightarrow> 'd option"
  wr_zero :: 'd
  wr_one :: 'd
  wr_abs :: "'d \<Rightarrow> 'd"
  wr_neg :: "'d \<Rightarrow> 'd"
  wr_add :: "'d \<Rightarrow> 'd \<Rightarrow> 'd option"
  wr_sub :: "'d \<Rightarrow> 'd \<Rightarrow> 'd option"
  wr_mul :: "'d \<Rightarrow> 'd \<Rightarrow> 'd option"
  wr_div :: "'d \<Rightarrow> 'd \<Rightarrow> 'd option"

text \<open>The operations on written forms are those of the arithmetic on what they denote.\<close>

definition denotes :: "'d written \<Rightarrow> dec_arith \<Rightarrow> bool" where
  "denotes D A \<longleftrightarrow> wr_value D (wr_zero D) = 0 \<and> wr_value D (wr_one D) = 1 \<and>
     (\<forall>x. wr_value D (wr_abs D x) = \<bar>wr_value D x\<bar>) \<and> (\<forall>x. wr_value D (wr_neg D x) = - wr_value D x) \<and>
     (\<forall>x y. map_option (wr_value D) (wr_add D x y) = dec_add A (wr_value D x) (wr_value D y)) \<and>
     (\<forall>x y. map_option (wr_value D) (wr_sub D x y) = dec_sub A (wr_value D x) (wr_value D y)) \<and>
     (\<forall>x y. map_option (wr_value D) (wr_mul D x y) = dec_mul A (wr_value D x) (wr_value D y)) \<and>
     (\<forall>x y. map_option (wr_value D) (wr_div D x y) = dec_div A (wr_value D x) (wr_value D y))"

fun fold_unary :: "'d written \<Rightarrow> unop \<Rightarrow> 'd \<Rightarrow> 'd" where
  "fold_unary D Abs_Op v = wr_abs D v"
| "fold_unary D Neg_Op v = wr_neg D v"
| "fold_unary D Sign_Op v =
     (if wr_value D v = 0 then wr_zero D else if 0 < wr_value D v then wr_one D else wr_neg D (wr_one D))"

fun fold_binary :: "'d written \<Rightarrow> binop \<Rightarrow> 'd \<Rightarrow> 'd \<Rightarrow> 'd option" where
  "fold_binary D Add_Op x y = wr_add D x y"
| "fold_binary D Sub_Op x y = wr_sub D x y"
| "fold_binary D Mul_Op x y = wr_mul D x y"
| "fold_binary D Div_Op x y = (if \<bar>wr_value D y\<bar> < div_epsilon then Some (wr_zero D) else wr_div D x y)"

section \<open>Canonical forms\<close>

definition canon_key :: "'d written \<Rightarrow> 'd expr \<Rightarrow> string" where
  "canon_key D e = write_sexpr (wr_show D) e"

fun canon_fold :: "'d written \<Rightarrow> 'd expr \<Rightarrow> 'd expr option" where
  "canon_fold D (Input f) = Some (Input f)"
| "canon_fold D (Const c) = Some (Const c)"
| "canon_fold D (Unary op e) = do {
     c \<leftarrow> canon_fold D e;
     (case c of Const v \<Rightarrow> Some (Const (fold_unary D op v)) | _ \<Rightarrow> Some (Unary op c))
   }"
| "canon_fold D (Binary op a b) = do {
     fa \<leftarrow> canon_fold D a;
     fb \<leftarrow> canon_fold D b;
     (case (fa, fb) of
        (Const x, Const y) \<Rightarrow> map_option Const (fold_binary D op x y)
      | _ \<Rightarrow> Some (if (op = Add_Op \<or> op = Mul_Op) \<and> canon_key D fb < canon_key D fa then Binary op fb fa else Binary op fa fb))
   }"
| "canon_fold D (Window op e n) = map_option (\<lambda>e. Window op e n) (canon_fold D e)"

fun is_const :: "'d expr \<Rightarrow> bool" where
  "is_const (Const c) = True"
| "is_const e = False"

fun positive_const :: "'d written \<Rightarrow> 'd expr \<Rightarrow> bool" where
  "positive_const D (Const c) = (0 < wr_value D c)"
| "positive_const D e = False"

fun strip_monotone_incr :: "'d written \<Rightarrow> 'd expr \<Rightarrow> 'd expr" where
  "strip_monotone_incr D (Binary Add_Op a b) =
     (if is_const a then strip_monotone_incr D b
      else if is_const b then strip_monotone_incr D a
      else Binary Add_Op a b)"
| "strip_monotone_incr D (Binary Sub_Op a b) = (if is_const b then strip_monotone_incr D a else Binary Sub_Op a b)"
| "strip_monotone_incr D (Binary Mul_Op a b) =
     (if positive_const D a then strip_monotone_incr D b
      else if positive_const D b then strip_monotone_incr D a
      else Binary Mul_Op a b)"
| "strip_monotone_incr D (Binary Div_Op a b) = (if positive_const D b then strip_monotone_incr D a else Binary Div_Op a b)"
| "strip_monotone_incr D e = e"

definition canonicalize :: "'d written \<Rightarrow> 'd expr \<Rightarrow> 'd expr option" where
  "canonicalize D e = map_option (\<lambda>folded.
     case folded of
       Window op c n \<Rightarrow> if is_normalising op then Window op (strip_monotone_incr D c) n else folded
     | _ \<Rightarrow> folded) (canon_fold D e)"

definition canonical_sexpr :: "'d written \<Rightarrow> 'd expr \<Rightarrow> string option" where
  "canonical_sexpr D e = map_option (write_sexpr (wr_show D)) (canonicalize D e)"

definition canonical_hash :: "'d written \<Rightarrow> (bytes \<Rightarrow> bytes) \<Rightarrow> 'd expr \<Rightarrow> string option" where
  "canonical_hash D sha256 e = map_option (\<lambda>s. hex (sha256 (map of_char s))) (canonical_sexpr D e)"

section \<open>Canonicalising twice\<close>

text \<open>What folding leaves alone: no operator over constants only, commutative operands in order.\<close>

fun folded :: "'d written \<Rightarrow> 'd expr \<Rightarrow> bool" where
  "folded D (Input f) = True"
| "folded D (Const c) = True"
| "folded D (Unary op e) = (folded D e \<and> \<not> is_const e)"
| "folded D (Binary op a b) = (folded D a \<and> folded D b \<and> \<not> (is_const a \<and> is_const b) \<and>
     (op = Add_Op \<or> op = Mul_Op \<longrightarrow> \<not> canon_key D b < canon_key D a))"
| "folded D (Window op e n) = folded D e"

lemma const_pair_case:
  "(case u of Const x \<Rightarrow> (case v of Const y \<Rightarrow> p x y | _ \<Rightarrow> q) | _ \<Rightarrow> q) = Some c \<longleftrightarrow>
     (\<exists>x y. u = Const x \<and> v = Const y \<and> p x y = Some c) \<or> (\<not> (is_const u \<and> is_const v) \<and> q = Some c)"
  by (cases u; cases v) auto

lemma const_case:
  "(case u of Const v \<Rightarrow> p v | _ \<Rightarrow> q) = Some c \<longleftrightarrow> (\<exists>v. u = Const v \<and> p v = Some c) \<or> (\<not> is_const u \<and> q = Some c)"
  by (cases u) auto

lemma canon_fold_Binary:
  assumes "canon_fold D (Binary op a b) = Some c"
  obtains (literals) x y z where "canon_fold D a = Some (Const x)" "canon_fold D b = Some (Const y)"
      "fold_binary D op x y = Some z" "c = Const z"
    | (kept) fa fb where "canon_fold D a = Some fa" "canon_fold D b = Some fb" "\<not> (is_const fa \<and> is_const fb)"
      "c = Binary op fa fb" "op = Add_Op \<or> op = Mul_Op \<longrightarrow> \<not> canon_key D fb < canon_key D fa"
    | (swapped) fa fb where "canon_fold D a = Some fa" "canon_fold D b = Some fb" "\<not> (is_const fa \<and> is_const fb)"
      "c = Binary op fb fa" "op = Add_Op \<or> op = Mul_Op" "canon_key D fb < canon_key D fa"
proof -
  let ?kept = "\<lambda>fa fb. Some (if (op = Add_Op \<or> op = Mul_Op) \<and> canon_key D fb < canon_key D fa then Binary op fb fa else Binary op fa fb)"
  from assms obtain fa fb where f: "canon_fold D a = Some fa" "canon_fold D b = Some fb"
    and raw: "(case fa of Const x \<Rightarrow> (case fb of Const y \<Rightarrow> map_option Const (fold_binary D op x y) | _ \<Rightarrow> ?kept fa fb) | _ \<Rightarrow> ?kept fa fb) = Some c"
    unfolding canon_fold.simps bind_eq_Some_conv prod.case by blast
  note c = raw [unfolded const_pair_case]
  from c show thesis
  proof (elim disjE exE conjE)
    fix x y assume "fa = Const x" "fb = Const y" "map_option Const (fold_binary D op x y) = Some c"
    with f that(1) show thesis by auto
  next
    assume "\<not> (is_const fa \<and> is_const fb)"
      and "Some (if (op = Add_Op \<or> op = Mul_Op) \<and> canon_key D fb < canon_key D fa then Binary op fb fa else Binary op fa fb) = Some c"
    with f that(2) [of fa fb] that(3) [of fa fb] show thesis
      by (cases "(op = Add_Op \<or> op = Mul_Op) \<and> canon_key D fb < canon_key D fa") (simp_all, blast+)
  qed
qed

lemma canon_fold_folded: "canon_fold D e = Some c \<Longrightarrow> folded D c"
proof (induction e arbitrary: c)
  case (Unary op e)
  then show ?case by (auto simp: bind_eq_Some_conv const_case)
next
  case (Binary op a b)
  from Binary.prems show ?case
    by (cases rule: canon_fold_Binary) (use Binary.IH in \<open>auto dest: less_asym\<close>)
qed auto

lemma folded_fixed: "folded D c \<Longrightarrow> canon_fold D c = Some c"
proof (induction c)
  case (Unary op e)
  then show ?case by (simp add: const_case)
next
  case (Binary op a b)
  then show ?case by (auto simp: const_pair_case)
qed auto

lemma canon_fold_idem: "canon_fold D e = Some c \<Longrightarrow> canon_fold D c = Some c"
  by (intro folded_fixed canon_fold_folded)

lemma folded_strip: "folded D c \<Longrightarrow> folded D (strip_monotone_incr D c)"
  by (induction D c rule: strip_monotone_incr.induct) auto

lemma strip_idem: "strip_monotone_incr D (strip_monotone_incr D c) = strip_monotone_incr D c"
  by (induction D c rule: strip_monotone_incr.induct) auto

lemma canonicalize_idem: "canonicalize D e = Some c \<Longrightarrow> canonicalize D c = Some c"
proof -
  assume "canonicalize D e = Some c"
  then obtain f where f: "canon_fold D e = Some f"
      and c: "c = (case f of Window op c n \<Rightarrow> if is_normalising op then Window op (strip_monotone_incr D c) n else f | _ \<Rightarrow> f)"
    by (auto simp: canonicalize_def)
  note ff = canon_fold_idem [OF f]
  show ?thesis
  proof (cases "\<exists>op d n. f = Window op d n \<and> is_normalising op")
    case True
    then obtain op d n where w: "f = Window op d n" "is_normalising op" by blast
    with canon_fold_folded [OF f] have "folded D d" by simp
    from folded_fixed [OF folded_strip [OF this]] w c show ?thesis by (simp add: canonicalize_def strip_idem)
  next
    case False
    then show ?thesis using ff c by (cases f) (auto simp: canonicalize_def)
  qed
qed

text \<open>
  A sealed formula's hash is reproducible from its stored text alone. Whatever tree was evolved,
  parsing its canonical text gives a formula whose canonical text, and so whose content hash, are
  the stored ones, for any digest function; it needs the canonical form within the parser's depth
  cap and periods that fit a machine word.
\<close>

theorem canonical_hash_reproducible:
  assumes "text_ok (wr_show D) (wr_parse D)" "canonicalize D e = Some c" "periods_fit c" "tree_depth c \<le> 65"
    and "canonical_sexpr D e = Some s"
  shows "parse_sexpr (wr_parse D) s = Inr c \<and> canonical_sexpr D c = Some s \<and> canonical_hash D sha256 c = canonical_hash D sha256 e"
  using conjunct1 [OF sexpr_round_trip [OF assms(1,3)]] assms canonicalize_idem [OF assms(2)]
  by (simp add: canonical_sexpr_def canonical_hash_def max_parse_depth_def)

definition digits_written :: "nat written" where
  "digits_written = \<lparr>wr_value = of_nat, wr_show = show_nat, wr_parse = (\<lambda>s. Some (parse_digits s)), wr_zero = 0, wr_one = 1,
     wr_abs = (\<lambda>x. x), wr_neg = (\<lambda>x. 0), wr_add = (\<lambda>x y. Some (x + y)), wr_sub = (\<lambda>x y. if y \<le> x then Some (x - y) else None),
     wr_mul = (\<lambda>x y. Some (x * y)), wr_div = (\<lambda>x y. if y dvd x \<and> y \<noteq> 0 then Some (x div y) else None)\<rparr>"

theorem canonical_hash_reproducible_witness:
  "\<exists>s. canonical_sexpr digits_written (Window Rank_Win (Binary Sub_Op (Input Close) (Binary Add_Op (Const 1) (Const 2))) 20) = Some s \<and>
     parse_sexpr (wr_parse digits_written) s = Inr (Window Rank_Win (Input Close) 20)"
proof -
  let ?e = "Window Rank_Win (Binary Sub_Op (Input Close) (Binary Add_Op (Const 1) (Const 2))) 20"
  have c: "canonicalize digits_written ?e = Some (Window Rank_Win (Input Close) 20)"
    by (simp add: canonicalize_def digits_written_def is_normalising_def)
  then obtain s where s: "canonical_sexpr digits_written ?e = Some s" by (simp add: canonical_sexpr_def)
  have "text_ok (wr_show digits_written) (wr_parse digits_written)" using int_text_ok by (simp add: digits_written_def)
  from canonical_hash_reproducible [OF this c _ _ s] s show ?thesis by simp
qed

section \<open>Folding keeps the meaning\<close>

abbreviation meaning :: "'d written \<Rightarrow> 'd expr \<Rightarrow> decimal expr" where
  "meaning D e \<equiv> map_expr (wr_value D) e"

definition dec_commutes :: "dec_arith \<Rightarrow> bool" where
  "dec_commutes A \<longleftrightarrow> (\<forall>a b. dec_add A a b = dec_add A b a \<and> dec_mul A a b = dec_mul A b a)"

lemma fold_unary_value: "denotes D A \<Longrightarrow> wr_value D (fold_unary D op v) = apply_unary op (wr_value D v)"
  by (cases op) (auto simp: denotes_def)

lemma fold_binary_value: "denotes D A \<Longrightarrow> map_option (wr_value D) (fold_binary D op x y) = apply_binary A op (wr_value D x) (wr_value D y)"
  by (cases op) (auto simp: denotes_def)

lemma apply_binary_commutes: "dec_commutes A \<Longrightarrow> op = Add_Op \<or> op = Mul_Op \<Longrightarrow> apply_binary A op x y = apply_binary A op y x"
  by (auto simp: dec_commutes_def)

lemma naive_commutes:
  "dec_commutes (dm_arith M) \<Longrightarrow> op = Add_Op \<or> op = Mul_Op \<Longrightarrow> naive M (Binary op a b) ss = naive M (Binary op b a) ss"
  using apply_binary_commutes [of "dm_arith M" op]
  by (cases "naive M a ss"; cases "naive M b ss") (auto split: option.splits)

lemma canon_fold_sound:
  assumes "denotes D (dm_arith M)" "dec_commutes (dm_arith M)"
  shows "canon_fold D e = Some c \<Longrightarrow> naive M (meaning D c) = naive M (meaning D e)"
proof (induction e arbitrary: c)
  case (Unary op e)
  then obtain f where f: "canon_fold D e = Some f" and c: "(case f of Const v \<Rightarrow> Some (Const (fold_unary D op v)) | _ \<Rightarrow> Some (Unary op f)) = Some c"
    by (auto simp: bind_eq_Some_conv)
  with Unary.IH [OF f] show ?case
    by (cases f) (auto simp: fold_unary_value [OF assms(1)] fun_eq_iff dest!: sym [of _ "naive M (meaning D e) _"])
next
  case (Binary op a b)
  from Binary.prems show ?case
  proof (cases rule: canon_fold_Binary)
    case (literals x y z)
    then have "apply_binary (dm_arith M) op (wr_value D x) (wr_value D y) = Some (wr_value D z)"
      using fold_binary_value [OF assms(1), of op x y] by simp
    with literals Binary.IH(1) [OF literals(1)] Binary.IH(2) [OF literals(2)] show ?thesis
      by (auto simp: fun_eq_iff dest!: sym [of _ "naive M (meaning D _) _"])
  next
    case (kept fa fb)
    with Binary.IH(1) [OF kept(1)] Binary.IH(2) [OF kept(2)] show ?thesis by simp
  next
    case (swapped fa fb)
    have "naive M (Binary op (meaning D fb) (meaning D fa)) = naive M (Binary op (meaning D fa) (meaning D fb))"
      using naive_commutes [OF assms(2) swapped(5)] by blast
    with swapped(4) Binary.IH(1) [OF swapped(1)] Binary.IH(2) [OF swapped(2)] show ?thesis by simp
  qed
next
  case (Window op e n)
  then show ?case by auto
qed auto

section \<open>Stripping keeps the ranks\<close>

text \<open>Arithmetic without rounding or overflow, the setting in which a monotone wrapper is monotone.\<close>

definition exact_math :: "(decimal \<Rightarrow> decimal option) \<Rightarrow> dec_math" where
  "exact_math sq = \<lparr>dm_arith = \<lparr>dec_add = (\<lambda>a b. Some (a + b)), dec_sub = (\<lambda>a b. Some (a - b)),
     dec_mul = (\<lambda>a b. Some (a * b)), dec_div = (\<lambda>a b. if b = 0 then None else Some (a / b))\<rparr>, dm_sqrt = sq\<rparr>"

lemma exact_math_simps [simp]:
  "dec_add (dm_arith (exact_math sq)) a b = Some (a + b)"
  "dec_sub (dm_arith (exact_math sq)) a b = Some (a - b)"
  "dec_mul (dm_arith (exact_math sq)) a b = Some (a * b)"
  "dec_div (dm_arith (exact_math sq)) a b = (if b = 0 then None else Some (a / b))"
  "dec_commutes (dm_arith (exact_math sq))"
  by (simp_all add: exact_math_def dec_commutes_def add.commute mult.commute)

text \<open>No positive divisor below the protected division's cutoff.\<close>

fun sane_divisors :: "'d written \<Rightarrow> 'd expr \<Rightarrow> bool" where
  "sane_divisors D (Input f) = True"
| "sane_divisors D (Const c) = True"
| "sane_divisors D (Unary op e) = sane_divisors D e"
| "sane_divisors D (Binary op a b) = (sane_divisors D a \<and> sane_divisors D b \<and>
     (op = Div_Op \<longrightarrow> (case b of Const k \<Rightarrow> 0 < wr_value D k \<longrightarrow> div_epsilon \<le> wr_value D k | _ \<Rightarrow> True)))"
| "sane_divisors D (Window op e n) = sane_divisors D e"

definition increasing_of :: "dec_math \<Rightarrow> decimal expr \<Rightarrow> decimal expr \<Rightarrow> bool" where
  "increasing_of M e c \<longleftrightarrow> (\<exists>g. strict_mono g \<and> (\<forall>ss. naive M e ss = map_option (map_option g) (naive M c ss)))"

lemma increasing_refl [simp]: "increasing_of M e e"
proof -
  have "map_option (\<lambda>x. x) = (\<lambda>x. x :: decimal option)" by (simp add: fun_eq_iff option.map_ident)
  then show ?thesis
    unfolding increasing_of_def by (intro exI [of _ "\<lambda>x. x"]) (simp add: strict_mono_def option.map_ident)
qed

lemma increasing_step:
  assumes "increasing_of M a c" "strict_mono h" "\<And>ss. naive M e ss = map_option (map_option h) (naive M a ss)"
  shows "increasing_of M e c"
proof -
  from assms(1) obtain g where g: "strict_mono g" "\<And>ss. naive M a ss = map_option (map_option g) (naive M c ss)"
    by (auto simp: increasing_of_def)
  have "strict_mono (h \<circ> g)" using g(1) assms(2) by (simp add: strict_mono_def)
  moreover have "naive M e ss = map_option (map_option (h \<circ> g)) (naive M c ss)" for ss
    by (simp add: assms(3) g(2) option.map_comp comp_def)
  ultimately show ?thesis unfolding increasing_of_def by blast
qed

lemma positive_constE: "positive_const D e \<Longrightarrow> \<exists>k. e = Const k \<and> 0 < wr_value D k"
  by (cases e) auto

lemma is_constE: "is_const e \<Longrightarrow> \<exists>k. e = Const k"
  by (cases e) auto

lemma strip_increasing:
  "sane_divisors D c \<Longrightarrow> increasing_of (exact_math sq) (meaning D c) (meaning D (strip_monotone_incr D c))"
proof (induction D c rule: strip_monotone_incr.induct)
  case (1 D a b)
  have l: "increasing_of (exact_math sq) (Binary Add_Op (Const v) u) c" if "increasing_of (exact_math sq) u c" for v u c
    by (rule increasing_step [OF that, of "(+) v"])
      (auto simp: strict_mono_def map_option_case split: option.splits)
  have r: "increasing_of (exact_math sq) (Binary Add_Op u (Const v)) c" if "increasing_of (exact_math sq) u c" for v u c
    by (rule increasing_step [OF that, of "\<lambda>x. x + v"])
      (auto simp: strict_mono_def map_option_case bind_eq_Some_conv split: option.splits)
  show ?case
  proof (cases "is_const a")
    case True
    with "1.IH"(1) "1.prems" show ?thesis using is_constE [OF True] by (auto intro!: l)
  next
    case False
    with "1.IH"(2) "1.prems" show ?thesis by (auto dest!: is_constE intro!: r)
  qed
next
  case (2 D a b)
  have r: "increasing_of (exact_math sq) (Binary Sub_Op u (Const v)) c" if "increasing_of (exact_math sq) u c" for v u c
    by (rule increasing_step [OF that, of "\<lambda>x. x - v"])
      (auto simp: strict_mono_def map_option_case bind_eq_Some_conv split: option.splits)
  show ?case using "2.IH" "2.prems" by (auto dest!: is_constE intro!: r)
next
  case (3 D a b)
  have l: "increasing_of (exact_math sq) (Binary Mul_Op (Const v) u) c"
    if "increasing_of (exact_math sq) u c" "0 < v" for v u c
    by (rule increasing_step [OF that(1), of "(*) v"])
      (use that(2) in \<open>auto simp: strict_mono_def map_option_case split: option.splits\<close>)
  have r: "increasing_of (exact_math sq) (Binary Mul_Op u (Const v)) c"
    if "increasing_of (exact_math sq) u c" "0 < v" for v u c
    by (rule increasing_step [OF that(1), of "\<lambda>x. x * v"])
      (use that(2) in \<open>auto simp: strict_mono_def map_option_case bind_eq_Some_conv split: option.splits\<close>)
  show ?case
  proof (cases "positive_const D a")
    case True
    with "3.IH"(1) "3.prems" show ?thesis using positive_constE [OF True] by (auto intro!: l)
  next
    case False
    with "3.IH"(2) "3.prems" show ?thesis by (auto dest!: positive_constE intro!: r)
  qed
next
  case (4 D a b)
  have r: "increasing_of (exact_math sq) (Binary Div_Op u (Const v)) c"
    if "increasing_of (exact_math sq) u c" "div_epsilon \<le> v" for v u c
  proof -
    have "0 < v" using that(2) by (auto simp: div_epsilon_def intro: less_le_trans)
    then show ?thesis
      by (intro increasing_step [OF that(1), of "\<lambda>x. x / v"])
        (use that(2) in \<open>auto simp: strict_mono_def map_option_case bind_eq_Some_conv divide_strict_right_mono split: option.splits\<close>)
  qed
  show ?case using "4.IH" "4.prems" by (auto dest!: positive_constE intro!: r)
qed simp_all

lemma map_opt_increasing:
  assumes "\<And>ss. naive M e ss = map_option (map_option g) (naive M c ss)"
  shows "map_opt (naive M e) hs = map_option (map (map_option g)) (map_opt (naive M c) hs)"
  by (induction hs) (auto simp: assms map_option_case bind_eq_Some_conv split: option.splits)

lemma somes_map: "somes (map (map_option g) vs) = map g (somes vs)"
  by (induction vs) (auto simp: somes_def)

lemma last_opt_map: "last_opt (map g xs) = map_option g (last_opt xs)"
  by (simp add: last_opt_def last_map)

lemma rank_increasing:
  assumes "increasing_of M e c"
  shows "naive M (Window Rank_Win e n) ss = naive M (Window Rank_Win c n) ss"
proof -
  from assms obtain g where g: "strict_mono g" "\<And>ss. naive M e ss = map_option (map_option g) (naive M c ss)"
    by (auto simp: increasing_of_def)
  have "aggregate M Rank_Win \<lparr>ro_cap = m, ro_buf = map g xs\<rparr> = aggregate M Rank_Win \<lparr>ro_cap = m, ro_buf = xs\<rparr>" for m xs
    using g(1) by (cases "last_opt xs") (simp_all add: roll_last_def last_opt_map filter_map comp_def strict_mono_less)
  then show ?thesis
    by (cases "map_opt (naive M c) (histories ss)")
      (simp_all add: map_opt_increasing [OF g(2)] somes_map lastn_map del: aggregate.simps)
qed

text \<open>
  C14. Canonicalisation does not change what a formula means. Folding constants and ordering operands
  keeps its value at every bar, with any commutative arithmetic, unless folding itself overflows;
  stripping the monotone wrappers under a ranking root keeps the rank at every bar, in exact arithmetic
  and for divisors the protected division does not cut off. So formulas that share a canonical form
  are the same ranking indicator. (Under a z-score root the claim would need a square root that is
  exact, and is not made.)
\<close>

theorem canonical_form_keeps_meaning:
  assumes "canonicalize D e = Some c"
  shows "(denotes D (dm_arith M) \<longrightarrow> dec_commutes (dm_arith M) \<longrightarrow> root_op (expr_tree_new e) \<noteq> Some Rank_Win \<longrightarrow>
       root_op (expr_tree_new e) \<noteq> Some Zscore_Win \<longrightarrow> naive M (meaning D c) ss = naive M (meaning D e) ss) \<and>
    (denotes D (dm_arith (exact_math sq)) \<longrightarrow> root_op (expr_tree_new e) = Some Rank_Win \<longrightarrow>
       (\<forall>f. canon_fold D e = Some f \<longrightarrow> sane_divisors D f) \<longrightarrow>
       naive (exact_math sq) (meaning D c) ss = naive (exact_math sq) (meaning D e) ss)"
proof -
  from assms obtain f where f: "canon_fold D e = Some f"
      and c: "c = (case f of Window op d n \<Rightarrow> if is_normalising op then Window op (strip_monotone_incr D d) n else f | _ \<Rightarrow> f)"
    by (auto simp: canonicalize_def)
  have root: "root_op (expr_tree_new f) = root_op (expr_tree_new e)"
    using f by (cases e) (auto simp: root_op_def expr_tree_new_def const_case elim!: canon_fold_Binary dest!: bind_eq_Some_conv [THEN iffD1])
  have "c = f" if "root_op (expr_tree_new f) \<noteq> Some Rank_Win" "root_op (expr_tree_new f) \<noteq> Some Zscore_Win"
    using c that by (cases f) (auto simp: root_op_def expr_tree_new_def is_normalising_def)
  moreover have "naive (exact_math sq) (meaning D c) ss = naive (exact_math sq) (meaning D f) ss"
    if "root_op (expr_tree_new f) = Some Rank_Win" "sane_divisors D f"
  proof -
    from that(1) obtain d n where w: "f = Window Rank_Win d n" by (cases f) (auto simp: root_op_def expr_tree_new_def)
    then have "increasing_of (exact_math sq) (meaning D d) (meaning D (strip_monotone_incr D d))"
      using that(2) by (intro strip_increasing) simp
    from rank_increasing [OF this] show ?thesis by (simp add: c w is_normalising_def del: naive.simps)
  qed
  ultimately show ?thesis
    using canon_fold_sound [OF _ _ f] f root by (metis exact_math_simps(5))
qed

definition exact_written :: "decimal written" where
  "exact_written = \<lparr>wr_value = (\<lambda>x. x), wr_show = (\<lambda>x. ''0''), wr_parse = (\<lambda>s. None), wr_zero = 0, wr_one = 1, wr_abs = abs, wr_neg = uminus,
     wr_add = (\<lambda>x y. Some (x + y)), wr_sub = (\<lambda>x y. Some (x - y)), wr_mul = (\<lambda>x y. Some (x * y)),
     wr_div = (\<lambda>x y. if y = 0 then None else Some (x / y))\<rparr>"

lemma exact_written_denotes: "denotes exact_written (dm_arith (exact_math sq))"
  by (simp add: denotes_def exact_written_def option.map_ident)

lemma exact_meaning [simp]: "meaning exact_written e = e"
  by (simp add: exact_written_def expr.map_ident)

theorem canonical_form_keeps_meaning_witness:
  "\<forall>sq ss. naive (exact_math sq) (Window Rank_Win (Input Close) 20) ss =
     naive (exact_math sq) (Window Rank_Win (Binary Div_Op (Binary Sub_Op (Input Close) (Const 3)) (Const 2)) 20) ss"
proof (intro allI)
  fix sq ss
  let ?e = "Window Rank_Win (Binary Div_Op (Binary Sub_Op (Input Close) (Const 3)) (Const 2)) 20"
  have fold: "canon_fold exact_written ?e = Some ?e" by simp
  have c: "canonicalize exact_written ?e = Some (Window Rank_Win (Input Close) 20)"
    by (simp add: canonicalize_def is_normalising_def) (simp add: exact_written_def)
  have "sane_divisors exact_written ?e" by (simp add: exact_written_def div_epsilon_def)
  then show "naive (exact_math sq) (Window Rank_Win (Input Close) 20) ss = naive (exact_math sq) ?e ss"
    using conjunct2 [OF canonical_form_keeps_meaning [OF c, of lab_math ss sq], simplified exact_meaning] fold exact_written_denotes
    by (simp add: root_op_def expr_tree_new_def del: naive.simps canon_fold.simps sane_divisors.simps)
qed

text \<open>
  Below the cutoff of the protected division the wrapper is not monotone: dividing by a positive
  constant smaller than \<open>10^-9\<close> yields zero, so every rank is zero, while the canonical form ranks
  the bare input.
\<close>

theorem tiny_divisor_changes_ranks:
  "strip_monotone_incr exact_written (Binary Div_Op (Input Close) (Const (1 / 10 ^ 10))) = Input Close \<and>
   naive (exact_math sq) (Window Rank_Win (Binary Div_Op (Input Close) (Const (1 / 10 ^ 10))) 2)
     [bar_sample (flat_bar 1), bar_sample (flat_bar 2)] = Some (Some 0) \<and>
   naive (exact_math sq) (Window Rank_Win (Input Close) 2)
     [bar_sample (flat_bar 1), bar_sample (flat_bar 2)] = Some (Some (1 / 2))"
  by (simp add: exact_written_def histories_def bar_sample_def flat_bar_def div_epsilon_def somes_def lastn_def roll_last_def last_opt_def)

end
