(* ===== verification/Oscillators.thy ===== *)
theory Oscillators imports Window_Facts begin

text \<open>
  The oscillators of the catalogue keep to the range their quantiser is declared over, for every
  window of bars the domain constructors accept.
\<close>

section \<open>Rounding\<close>

text \<open>
  The package rounds to the nearest representable decimal, so a quotient or product never crosses
  a small integer, and scaling a number by at most one does not make it larger.
\<close>

definition dec_rounds :: "dec_arith \<Rightarrow> bool" where
  "dec_rounds A \<longleftrightarrow>
     (\<forall>a b c k. 0 < b \<longrightarrow> dec_div A a b = Some c \<longrightarrow> \<bar>k\<bar> \<le> 100 \<longrightarrow>
        (a \<le> of_int k * b \<longrightarrow> c \<le> of_int k) \<and> (of_int k * b \<le> a \<longrightarrow> of_int k \<le> c)) \<and>
     (\<forall>a b c k. dec_mul A a b = Some c \<longrightarrow> \<bar>k\<bar> \<le> 100 \<longrightarrow>
        (a * b \<le> of_int k \<longrightarrow> c \<le> of_int k) \<and> (of_int k \<le> a * b \<longrightarrow> of_int k \<le> c)) \<and>
     (\<forall>a v c. 0 \<le> v \<longrightarrow> \<bar>a\<bar> \<le> 1 \<longrightarrow> dec_mul A a v = Some c \<longrightarrow> \<bar>c\<bar> \<le> v)"

lemma div_between:
  assumes "dec_rounds A" "0 < b" "dec_div A a b = Some c" "\<bar>k\<bar> \<le> 100" "\<bar>l\<bar> \<le> 100"
    and "of_int k * b \<le> a" "a \<le> of_int l * b"
  shows "of_int k \<le> c \<and> c \<le> of_int l"
  using assms unfolding dec_rounds_def by blast

lemma mul_between:
  assumes "dec_rounds A" "dec_mul A a b = Some c" "\<bar>k\<bar> \<le> 100" "\<bar>l\<bar> \<le> 100"
    and "of_int k \<le> a * b" "a * b \<le> of_int l"
  shows "of_int k \<le> c \<and> c \<le> of_int l"
  using assms unfolding dec_rounds_def by blast

lemma mul_nonneg: "dec_rounds A \<Longrightarrow> dec_mul A a b = Some c \<Longrightarrow> 0 \<le> a \<Longrightarrow> 0 \<le> b \<Longrightarrow> 0 \<le> c"
  unfolding dec_rounds_def by (metis abs_zero mult_nonneg_nonneg of_int_0 zero_le_numeral)

lemma div_nonneg: "dec_rounds A \<Longrightarrow> dec_div A a b = Some c \<Longrightarrow> 0 \<le> a \<Longrightarrow> 0 < b \<Longrightarrow> 0 \<le> c"
  unfolding dec_rounds_def by (metis abs_zero mult_zero_left of_int_0 zero_le_numeral)

lemma mul_shrinks: "dec_rounds A \<Longrightarrow> 0 \<le> v \<Longrightarrow> \<bar>a\<bar> \<le> 1 \<Longrightarrow> dec_mul A a v = Some c \<Longrightarrow> \<bar>c\<bar> \<le> v"
  unfolding dec_rounds_def by blast

lemma bounded_dec_rounds [simp]: "dec_rounds (bounded_dec m)"
proof -
  have "\<bar>a * v\<bar> \<le> v" if "0 \<le> v" "\<bar>a\<bar> \<le> 1" for a v :: rat
    using that mult_right_mono [OF that(2,1)] by (simp add: abs_mult)
  note shrink = this
  have div: "dec_div (bounded_dec m) a b = Some c \<Longrightarrow> c = a / b" for a b c
    by (auto simp: bounded_dec_def Let_def split: if_splits)
  show ?thesis
    unfolding dec_rounds_def
    by (auto dest!: div bounded_dec_mul simp: shrink pos_divide_le_eq pos_le_divide_eq)
qed

text \<open>A fraction of a range, in percent.\<close>

lemma ratio_unit:
  "dec_rounds A \<Longrightarrow> dec_div A n r = Some q \<Longrightarrow> 0 \<le> n \<Longrightarrow> n \<le> r \<Longrightarrow> 0 < r \<Longrightarrow> 0 \<le> q \<and> q \<le> 1"
  using div_between [of A r n q 0 1] by simp

lemma percent: "dec_rounds A \<Longrightarrow> dec_mul A q 100 = Some p \<Longrightarrow> 0 \<le> q \<Longrightarrow> q \<le> 1 \<Longrightarrow> 0 \<le> p \<and> p \<le> 100"
  using mul_between [of A q 100 p 0 100] by simp

lemma minus_percent: "dec_rounds A \<Longrightarrow> dec_mul A q (- 100) = Some p \<Longrightarrow> 0 \<le> q \<Longrightarrow> q \<le> 1 \<Longrightarrow> - 100 \<le> p \<and> p \<le> 0"
  using mul_between [of A q "- 100" p "- 100" 0] by simp

lemma strength_bounds:
  assumes A: "dec_rounded A" "dec_rounds A" and "0 \<le> up" "0 \<le> down" "strength A up down = Some (Some v)"
  shows "0 \<le> v \<and> v \<le> 100"
proof (cases "down = 0")
  case True
  with assms show ?thesis by (simp add: strength_def)
next
  case False
  with assms obtain rs s q where d: "dec_div A up down = Some rs" "dec_add A 1 rs = Some s" "dec_div A 100 s = Some q"
      "dec_sub A 100 q = Some v"
    by (auto simp: strength_def bind_eq_Some_conv)
  have rs: "0 \<le> rs" using div_nonneg [OF A(2) d(1)] False assms by simp
  have s: "1 \<le> s" using dec_int_bounds(1) [OF A(1) d(2), of 1] rs by simp
  then have "0 \<le> q \<and> q \<le> 100" using div_between [OF A(2) _ d(3), of 0 100] by simp
  then show ?thesis using dec_int_bounds(3) [OF A(1) d(4), of 0] dec_int_bounds(4) [OF A(1) d(4), of 100] by simp
qed

section \<open>Windows of sound bars\<close>

definition sound_bar :: "bar \<Rightarrow> bool" where
  "sound_bar b \<longleftrightarrow> valid_bar b \<and> valid_price (bar_high b) \<and> valid_price (bar_low b) \<and> valid_price (bar_close b) \<and>
     valid_qty (bar_volume b)"

lemma lastn_set: "x \<in> set (lastn n xs) \<Longrightarrow> x \<in> set xs"
  by (simp add: lastn_def in_set_dropD)

text \<open>The windows of a view, read off one list of bars.\<close>

definition views :: "bars \<Rightarrow> bar list \<Rightarrow> decimal list \<Rightarrow> bool" where
  "views s ws ts \<longleftrightarrow> ro_buf (bs_close s) = map (\<lambda>b. price_get (bar_close b)) ws \<and>
     ro_buf (bs_high s) = map (\<lambda>b. price_get (bar_high b)) ws \<and> ro_buf (bs_low s) = map (\<lambda>b. price_get (bar_low b)) ws \<and>
     ro_buf (bs_volume s) = map (\<lambda>b. qty_get (bar_volume b)) ws \<and> ro_buf (bs_typical s) = ts \<and> length ts = length ws \<and>
     (\<forall>b \<in> set ws. sound_bar b) \<and> (\<forall>t \<in> set ts. 0 \<le> t)"

lemma typical_nonneg:
  "dec_rounded A \<Longrightarrow> dec_rounds A \<Longrightarrow> typical_price A h l c = Some t \<Longrightarrow> 0 \<le> h \<Longrightarrow> 0 \<le> l \<Longrightarrow> 0 \<le> c \<Longrightarrow> 0 \<le> t"
proof -
  assume A: "dec_rounded A" "dec_rounds A" and "typical_price A h l c = Some t" "0 \<le> h" "0 \<le> l" "0 \<le> c"
  then obtain u w where d: "dec_add A h l = Some u" "dec_add A u c = Some w" "dec_div A w 3 = Some t"
    by (auto simp: typical_price_def bind_eq_Some_conv)
  have "0 \<le> w" using dec_add_nonneg [OF A(1) d(1)] dec_add_nonneg [OF A(1) d(2)] \<open>0 \<le> h\<close> \<open>0 \<le> l\<close> \<open>0 \<le> c\<close> by simp
  then show "0 \<le> t" using div_nonneg [OF A(2) d(3)] by simp
qed

lemma run_views:
  assumes A: "dec_rounded (dm_arith M)" "dec_rounds (dm_arith M)"
    and "run_opt (bars_observe M) (bars_new n) bs = Some s" "\<forall>b \<in> set bs. sound_bar b"
  shows "\<exists>ws ts. views s ws ts"
proof -
  from assms(3) obtain ts where ts: "map_opt (bar_typical M) bs = Some ts" and s: "s = bars_push_all (bars_new n) bs ts"
    by (auto simp: bars_observe_all)
  have "0 \<le> t" if "t \<in> set ts" for t
    using map_opt_all [OF ts that] assms(4) typical_nonneg [OF A]
    by (auto simp: bar_typical_def sound_bar_def valid_price_def)
  then have "views s (lastn (max n 1) bs) (lastn (max n 1) ts)"
    using assms(4) map_opt_length [OF ts]
    by (auto simp: views_def s bars_push_all_def bars_new_def roll_window lastn_map dest!: lastn_set)
  then show ?thesis by blast
qed

lemma nth_bounds:
  assumes "views s ws ts" "i < length ws"
  shows "price_get (bar_low (ws ! i)) \<le> price_get (bar_close (ws ! i))" "price_get (bar_close (ws ! i)) \<le> price_get (bar_high (ws ! i))"
    "0 \<le> qty_get (bar_volume (ws ! i))"
  using assms nth_mem [OF assms(2)] by (auto simp: views_def sound_bar_def valid_bar_def valid_qty_def)

section \<open>Each oscillator\<close>

lemma rsi_bounds:
  assumes A: "dec_rounded (dm_arith M)" "dec_rounds (dm_arith M)" and "rsi M s = Some (Some v)"
  shows "0 \<le> v \<and> v \<le> 100"
proof -
  from assms(3) obtain gl where run: "run_opt (gain_loss (dm_arith M)) (0, 0) (zip (ro_buf (bs_close s)) (tl (ro_buf (bs_close s)))) = Some gl"
      and v: "strength (dm_arith M) (fst gl) (snd gl) = Some (Some v)"
    by (auto simp: rsi_def bind_eq_Some_conv)
  have "0 \<le> fst gl \<and> 0 \<le> snd gl"
    by (rule run_opt_invariant [OF run, where P = "\<lambda>gl. 0 \<le> fst gl \<and> 0 \<le> snd gl"])
      (auto simp: gain_loss_def bind_eq_Some_conv split: if_splits dest: dec_add_nonneg [OF A(1)])
  then show ?thesis using strength_bounds [OF A _ _ v] by simp
qed

lemma mfi_bounds:
  assumes A: "dec_rounded (dm_arith M)" "dec_rounds (dm_arith M)" and w: "views s ws ts" and "mfi M s = Some (Some v)"
  shows "0 \<le> v \<and> v \<le> 100"
proof -
  from assms(4) obtain pn where run: "run_opt (money_flow (dm_arith M) (ro_buf (bs_typical s)) (ro_buf (bs_volume s))) (0, 0)
        [1..<length (ro_buf (bs_typical s))] = Some pn"
      and v: "strength (dm_arith M) (fst pn) (snd pn) = Some (Some v)"
    by (auto simp: mfi_def bind_eq_Some_conv)
  have vol: "0 \<le> ro_buf (bs_volume s) ! i" if "i < length (ro_buf (bs_volume s))" for i
    using that nth_bounds(3) [OF w] w by (simp add: views_def)
  have flows: "0 \<le> ro_buf (bs_typical s) ! i" if "i < length (ro_buf (bs_typical s))" for i
    using that w nth_mem [OF that] by (simp add: views_def)
  have "0 \<le> fst pn \<and> 0 \<le> snd pn"
    by (rule run_opt_invariant [OF run, where P = "\<lambda>gl. 0 \<le> fst gl \<and> 0 \<le> snd gl"])
      (auto simp: money_flow_def bind_eq_Some_conv split: if_splits
        dest: dec_add_nonneg [OF A(1)] mul_nonneg [OF A(2) _ flows vol])
  then show ?thesis using strength_bounds [OF A _ _ v] by simp
qed

lemma close_in_range:
  assumes w: "views s ws ts" and "roll_max (bs_high s) = Some hi" "roll_min (bs_low s) = Some lo" "roll_last (bs_close s) = Some c"
  shows "lo \<le> c \<and> c \<le> hi"
proof -
  have ne: "ws \<noteq> []" using assms by (auto simp: roll_last_def last_opt_def views_def split: if_splits)
  then have l: "last ws \<in> set ws" by simp
  then have "price_get (bar_low (last ws)) \<le> price_get (bar_close (last ws)) \<and> price_get (bar_close (last ws)) \<le> price_get (bar_high (last ws))"
    using w by (auto simp: views_def sound_bar_def valid_bar_def)
  moreover have "c = price_get (bar_close (last ws))" "hi = Max ((\<lambda>b. price_get (bar_high b)) ` set ws)"
      "lo = Min ((\<lambda>b. price_get (bar_low b)) ` set ws)"
    using assms ne by (simp_all add: roll_last_def last_opt_def roll_max_def roll_min_def views_def last_map split: if_splits)
  ultimately show ?thesis using l Max_ge [of "(\<lambda>b. price_get (bar_high b)) ` set ws"] Min_le [of "(\<lambda>b. price_get (bar_low b)) ` set ws"]
    by (metis (no_types, lifting) List.finite_set finite_imageI imageI order_trans)
qed

lemma stoch_bounds:
  assumes A: "dec_rounded (dm_arith M)" "dec_rounds (dm_arith M)" and w: "views s ws ts" and "stoch_k M s = Some (Some v)"
  shows "0 \<le> v \<and> v \<le> 100"
proof -
  from assms(4) obtain hi lo c r where ext: "roll_max (bs_high s) = Some hi" "roll_min (bs_low s) = Some lo" "roll_last (bs_close s) = Some c"
      and r: "dec_sub (dm_arith M) hi lo = Some r"
      and v: "(if r = 0 then some_val (dec_div (dm_arith M) 100 2)
        else do { n \<leftarrow> dec_sub (dm_arith M) c lo; q \<leftarrow> dec_div (dm_arith M) n r; some_val (dec_mul (dm_arith M) q 100) }) = Some (Some v)"
    by (auto simp: stoch_k_def q_bind_Some_Some bind_eq_Some_conv)
  have range: "lo \<le> c" "c \<le> hi" using close_in_range [OF w ext] by simp_all
  then have r0: "0 \<le> r" using dec_int_bounds(3) [OF A(1) r, of 0] by simp
  show ?thesis
  proof (cases "r = 0")
    case True
    with v show ?thesis using div_between [OF A(2), of 2 100 v 0 100] by simp
  next
    case False
    with v obtain n q where d: "dec_sub (dm_arith M) c lo = Some n" "dec_div (dm_arith M) n r = Some q" "dec_mul (dm_arith M) q 100 = Some v"
      by (auto simp: bind_eq_Some_conv)
    have "0 \<le> n" "n \<le> r" using dec_int_bounds(3) [OF A(1) d(1), of 0] dec_sub_mono [OF A(1) d(1) r] range by simp_all
    then show ?thesis using ratio_unit [OF A(2) d(2)] percent [OF A(2) d(3)] r0 False by simp
  qed
qed

lemma williams_bounds:
  assumes A: "dec_rounded (dm_arith M)" "dec_rounds (dm_arith M)" and w: "views s ws ts" and "williams_r M s = Some (Some v)"
  shows "- 100 \<le> v \<and> v \<le> 0"
proof -
  from assms(4) obtain hi lo c r where ext: "roll_max (bs_high s) = Some hi" "roll_min (bs_low s) = Some lo" "roll_last (bs_close s) = Some c"
      and r: "dec_sub (dm_arith M) hi lo = Some r"
      and v: "(if r = 0 then some_val (dec_div (dm_arith M) (- 100) 2)
        else do { n \<leftarrow> dec_sub (dm_arith M) hi c; q \<leftarrow> dec_div (dm_arith M) n r; some_val (dec_mul (dm_arith M) q (- 100)) }) = Some (Some v)"
    by (auto simp: williams_r_def q_bind_Some_Some bind_eq_Some_conv)
  have range: "lo \<le> c" "c \<le> hi" using close_in_range [OF w ext] by simp_all
  then have r0: "0 \<le> r" using dec_int_bounds(3) [OF A(1) r, of 0] by simp
  show ?thesis
  proof (cases "r = 0")
    case True
    with v show ?thesis using div_between [OF A(2), of 2 "- 100" v "- 100" 0] by simp
  next
    case False
    with v obtain n q where d: "dec_sub (dm_arith M) hi c = Some n" "dec_div (dm_arith M) n r = Some q" "dec_mul (dm_arith M) q (- 100) = Some v"
      by (auto simp: bind_eq_Some_conv)
    have "0 \<le> n" "n \<le> r" using dec_int_bounds(3) [OF A(1) d(1), of 0] dec_sub_mono [OF A(1) d(1) r] range by simp_all
    then show ?thesis using ratio_unit [OF A(2) d(2)] minus_percent [OF A(2) d(3)] r0 False by simp
  qed
qed

lemma aroon_bounds:
  assumes A: "dec_rounded (dm_arith M)" "dec_rounds (dm_arith M)" and "aroon_osc M s = Some (Some v)"
  shows "- 100 \<le> v \<and> v \<le> 100"
proof -
  let ?n = "length (ro_buf (bs_high s))"
  from assms(3) obtain e up down where n: "\<not> ?n < 2"
      and up: "aroon_side (dm_arith M) (of_nat (?n - 1)) (of_nat (?n - 1 - fst e)) = Some up"
      and down: "aroon_side (dm_arith M) (of_nat (?n - 1)) (of_nat (?n - 1 - snd e)) = Some down"
      and v: "dec_sub (dm_arith M) up down = Some v"
    by (auto simp: aroon_osc_def Let_def bind_eq_Some_conv split: if_splits)
  have side: "0 \<le> x \<and> x \<le> 100" if "aroon_side (dm_arith M) (of_nat (?n - 1)) (of_nat (?n - 1 - i)) = Some x" for x i
  proof -
    from that obtain m q where d: "dec_sub (dm_arith M) (of_nat (?n - 1)) (of_nat (?n - 1 - i)) = Some m"
        "dec_div (dm_arith M) m (of_nat (?n - 1)) = Some q" "dec_mul (dm_arith M) q 100 = Some x"
      by (auto simp: aroon_side_def bind_eq_Some_conv)
    have "(of_nat (?n - 1 - i) :: rat) \<le> of_nat (?n - 1)" by (simp del: of_nat_diff)
    then have "0 \<le> m" "m \<le> of_nat (?n - 1)" "(0::rat) < of_nat (?n - 1)"
      using n dec_int_bounds(3) [OF A(1) d(1), of 0] dec_int_bounds(4) [OF A(1) d(1), of "int (?n - 1)"] by simp_all
    then show ?thesis using ratio_unit [OF A(2) d(2)] percent [OF A(2) d(3)] by simp
  qed
  show ?thesis using side [OF up] side [OF down] dec_int_bounds(3) [OF A(1) v, of "- 100"] dec_int_bounds(4) [OF A(1) v, of 100] by simp
qed

lemma signed_bounds:
  assumes A: "dec_rounded (dm_arith M)" "dec_rounds (dm_arith M)" and w: "views s ws ts" and "signed_volume_ratio M s = Some (Some v)"
  shows "- 1 \<le> v \<and> v \<le> 1"
proof -
  let ?step = "signed_step (dm_arith M) (ro_buf (bs_close s)) (ro_buf (bs_volume s))"
  from assms(4) obtain st where run: "run_opt ?step (0, 0) [1..<length (ro_buf (bs_close s))] = Some st"
      and st: "snd st \<noteq> 0" "dec_div (dm_arith M) (fst st) (snd st) = Some v"
    by (auto simp: signed_volume_ratio_def bind_eq_Some_conv split: if_splits)
  have vol: "0 \<le> ro_buf (bs_volume s) ! i" if "i < length (ro_buf (bs_volume s))" for i
    using that nth_bounds(3) [OF w] w by (simp add: views_def)
  have "\<bar>fst u'\<bar> \<le> snd u'" if le: "\<bar>fst u\<bar> \<le> snd u" and st: "?step u i = Some u'" for u i u'
  proof -
    obtain vi where vi: "0 \<le> vi" "dec_add (dm_arith M) (snd u) vi = Some (snd u')"
        "fst u' = fst u \<or> dec_add (dm_arith M) (fst u) vi = Some (fst u') \<or> dec_sub (dm_arith M) (fst u) vi = Some (fst u')"
      using st vol [of i] by (auto simp: signed_step_def bind_eq_Some_conv split: if_splits)
    then show ?thesis
      using le dec_signed_sum [OF A(1) le _ vi(2), of vi "fst u'"] dec_add_grows [OF A(1) vi(2)] by auto
  qed
  then have "\<bar>fst st\<bar> \<le> snd st"
    by (intro run_opt_invariant [OF run, where P = "\<lambda>st. \<bar>fst st\<bar> \<le> snd st"]) auto
  with st(1) show ?thesis using div_between [OF A(2) _ st(2), of "- 1" 1] by (simp add: abs_le_iff)
qed

lemma multiplier_unit:
  assumes A: "dec_rounded A" "dec_rounds A" and "l \<le> c" "c \<le> h" "money_multiplier A h l c = Some m"
  shows "\<bar>m\<bar> \<le> 1"
proof -
  from assms(5) obtain r where r: "dec_sub A h l = Some r"
    and m: "(if r = 0 then Some 0 else do { up \<leftarrow> dec_sub A c l; down \<leftarrow> dec_sub A h c; n \<leftarrow> dec_sub A up down; dec_div A n r }) = Some m"
    by (auto simp: money_multiplier_def bind_eq_Some_conv)
  show ?thesis
  proof (cases "r = 0")
    case False
    with m obtain up down n where d: "dec_sub A c l = Some up" "dec_sub A h c = Some down" "dec_sub A up down = Some n" "dec_div A n r = Some m"
      by (auto simp: bind_eq_Some_conv)
    have "0 \<le> up" "up \<le> r" "0 \<le> down" "down \<le> r"
      using dec_int_bounds(3) [OF A(1) d(1), of 0] dec_int_bounds(3) [OF A(1) d(2), of 0] dec_sub_mono [OF A(1) d(1) r]
        dec_sub_mono [OF A(1) d(2) r] assms(3,4) by simp_all
    then have "\<bar>n\<bar> \<le> r" using dec_sub_within [OF A(1) d(3) r] by (simp add: abs_le_iff)
    then show ?thesis using div_between [OF A(2) _ d(4), of "- 1" 1] False by (simp add: abs_le_iff)
  qed (use m in simp)
qed

lemma cmf_bounds:
  assumes A: "dec_rounded (dm_arith M)" "dec_rounds (dm_arith M)" and w: "views s ws ts" and "cmf M s = Some (Some v)"
  shows "- 1 \<le> v \<and> v \<le> 1"
proof -
  from assms(4) obtain st where run: "run_opt (cmf_step (dm_arith M) s) (0, 0) [0..<length (ro_buf (bs_high s))] = Some st"
      and st: "snd st \<noteq> 0" "dec_div (dm_arith M) (fst st) (snd st) = Some v"
    by (auto simp: cmf_def bind_eq_Some_conv split: if_splits)
  have "\<bar>fst u'\<bar> \<le> snd u'" if u: "\<bar>fst u\<bar> \<le> snd u" "cmf_step (dm_arith M) s u i = Some u'" for u i u'
  proof -
    let ?b = "ws ! i"
    from u(2) w obtain m f where i: "i < length ws"
        and m: "money_multiplier (dm_arith M) (price_get (bar_high ?b)) (price_get (bar_low ?b)) (price_get (bar_close ?b)) = Some m"
        and f: "dec_mul (dm_arith M) m (qty_get (bar_volume ?b)) = Some f"
        and u': "dec_add (dm_arith M) (fst u) f = Some (fst u')" "dec_add (dm_arith M) (snd u) (qty_get (bar_volume ?b)) = Some (snd u')"
      by (auto simp: cmf_step_def views_def bind_eq_Some_conv)
    have "\<bar>f\<bar> \<le> qty_get (bar_volume ?b)"
      by (rule mul_shrinks [OF A(2) nth_bounds(3) [OF w i] multiplier_unit [OF A nth_bounds(1,2) [OF w i] m] f])
    then show ?thesis by (rule dec_signed_sum(1) [OF A(1) u(1) _ u'(2,1)])
  qed
  then have "\<bar>fst st\<bar> \<le> snd st"
    by (intro run_opt_invariant [OF run, where P = "\<lambda>st. \<bar>fst st\<bar> \<le> snd st"]) auto
  with st(1) show ?thesis using div_between [OF A(2) _ st(2), of "- 1" 1] by (simp add: abs_le_iff)
qed

text \<open>
  C40. Every oscillator stays in the range its quantiser is declared over. After any run of bars that
  the domain constructors accept, whatever the window length, a value of RSI, stochastic %K and
  MFI is within 0 and 100, of Williams %R within -100 and 0, of the Aroon oscillator within -100
  and 100, of the signed-volume ratio and of CMF within -1 and 1. The operations may round: sums and
  differences by one rounding that keeps order, sign and integers (\<open>dec_rounded\<close>), products and quotients
  without crossing an integer up to 100, or the size of the factor a unit scales (\<open>dec_rounds\<close>).
\<close>

theorem oscillators_stay_in_range:
  assumes "dec_rounded (dm_arith M)" "dec_rounds (dm_arith M)" "\<forall>b \<in> set bs. sound_bar b"
    and "run_opt (bars_observe M) (bars_new n) bs = Some s"
  shows "(rsi M s = Some (Some v) \<longrightarrow> 0 \<le> v \<and> v \<le> 100) \<and> (mfi M s = Some (Some v) \<longrightarrow> 0 \<le> v \<and> v \<le> 100) \<and>
    (stoch_k M s = Some (Some v) \<longrightarrow> 0 \<le> v \<and> v \<le> 100) \<and> (williams_r M s = Some (Some v) \<longrightarrow> - 100 \<le> v \<and> v \<le> 0) \<and>
    (aroon_osc M s = Some (Some v) \<longrightarrow> - 100 \<le> v \<and> v \<le> 100) \<and>
    (signed_volume_ratio M s = Some (Some v) \<longrightarrow> - 1 \<le> v \<and> v \<le> 1) \<and> (cmf M s = Some (Some v) \<longrightarrow> - 1 \<le> v \<and> v \<le> 1)"
proof -
  obtain ws ts where w: "views s ws ts" using run_views [OF assms(1,2,4,3)] by blast
  show ?thesis
    using rsi_bounds [OF assms(1,2)] mfi_bounds [OF assms(1,2) w] stoch_bounds [OF assms(1,2) w] williams_bounds [OF assms(1,2) w]
      aroon_bounds [OF assms(1,2)] signed_bounds [OF assms(1,2) w] cmf_bounds [OF assms(1,2) w] by blast
qed

definition rising_bar :: bar where
  "rising_bar = \<lparr>bar_open_time = 0, bar_resolution = M5, bar_open = Price 10, bar_high = Price 14, bar_low = Price 10,
     bar_close = Price 13, bar_volume = Qty 2, bar_trades = 1\<rparr>"

text \<open>Over arithmetic that rounds: the close is six sevenths up the range, of which two digits are kept.\<close>

definition short_math :: dec_math where
  "short_math = \<lparr>dm_arith = short_dec, dm_sqrt = (\<lambda>_. None)\<rparr>"

lemma short_dec_mul: "dec_mul short_dec a b = Some c \<Longrightarrow> short_round a = a \<and> short_round b = b \<and> c = short_round (a * b)"
  by (auto simp: short_dec_def Let_def split: if_splits)

lemma short_dec_div: "dec_div short_dec a b = Some c \<Longrightarrow> c = short_round (a / b)"
  by (auto simp: short_dec_def Let_def split: if_splits)

lemma short_dec_rounds: "dec_rounds short_dec"
proof -
  have le: "x \<le> of_int k \<Longrightarrow> short_round x \<le> of_int k" "of_int k \<le> x \<Longrightarrow> of_int k \<le> short_round x" for x k
    using short_round_mono [of x "of_int k"] short_round_mono [of "of_int k" x] by (simp_all add: short_round_int)
  have shrink: "\<bar>short_round (a * v)\<bar> \<le> v" if "0 \<le> v" "\<bar>a\<bar> \<le> 1" "short_round v = v" for a v
  proof -
    have "\<bar>a * v\<bar> \<le> v" using mult_right_mono [OF that(2,1)] that(1) by (simp add: abs_mult)
    from roundingD(6) [OF short_rounding this] show ?thesis by (simp add: that(3))
  qed
  show ?thesis
    unfolding dec_rounds_def
    by (auto dest!: short_dec_div short_dec_mul simp: shrink pos_divide_le_eq pos_le_divide_eq intro!: le)
qed

theorem oscillators_stay_in_range_witness:
  "\<exists>s. run_opt (bars_observe short_math) (bars_new 2) [flat_bar 7, rising_bar] = Some s \<and>
     stoch_k short_math s = Some (Some 85) \<and> 0 \<le> (85 :: decimal) \<and> 85 \<le> (100 :: decimal)"
proof -
  have "\<exists>s. run_opt (bars_observe short_math) (bars_new 2) [flat_bar 7, rising_bar] = Some s \<and> stoch_k short_math s = Some (Some 85)"
    by (simp add: bars_observe_def rising_bar_def flat_bar_def typical_price_def bars_new_def roll_new_def roll_push_def
        stoch_k_def roll_max_def roll_min_def roll_last_def last_opt_def short_math_def short_dec_def short_round_pos)
  then obtain s where s: "run_opt (bars_observe short_math) (bars_new 2) [flat_bar 7, rising_bar] = Some s"
      and v: "stoch_k short_math s = Some (Some 85)" by blast
  have "\<forall>b \<in> set [flat_bar 7, rising_bar]. sound_bar b"
    by (simp add: sound_bar_def flat_bar_def rising_bar_def valid_bar_def valid_price_def valid_qty_def)
  moreover have "dec_rounded (dm_arith short_math)" "dec_rounds (dm_arith short_math)" by (simp_all add: short_math_def short_dec_rounds)
  ultimately have "0 \<le> (85 :: decimal) \<and> 85 \<le> (100 :: decimal)"
    using oscillators_stay_in_range [OF _ _ _ s, of 85] v by blast
  with s v show ?thesis by blast
qed

end
