(* ===== verification/Vintage.thy ===== *)
theory Vintage imports Artefact_Fs Genome "HOL-Library.Char_ord" "HOL-Library.List_Lexorder" begin

text \<open>
  Sealed vintages and their rollover (\<open>qe-vintage\<close>, \<open>lib.rs\<close> and \<open>schema.rs\<close>; \<open>qe-hedger\<close>,
  \<open>vintage_rollover.rs\<close>). The floating-point figures of a content (weights, calibrations, seal
  evidence, holdout returns) are one opaque component, and the two passes over them at the seal,
  canonicalisation and the finiteness checks, are parameters with \<open>serde_json\<close> and SHA-256.
\<close>

section \<open>Content and schema identity\<close>

record lineage =
  ln_config_hash :: string
  ln_input_snapshot_id :: string
  ln_code_commit :: string
  ln_seeds :: "u64 list"

record catalogue_identity =
  ci_catalogue_version :: u32
  ci_num_states :: nat
  ci_id_hash :: string
  ci_formula_pool :: "string list"

record 'x vintage_content =
  vc_format_version :: nat
  vc_vintage_id :: string
  vc_chromosomes :: "genome list"
  vc_catalogue :: catalogue_identity
  vc_lineage :: lineage
  vc_figures :: 'x

text \<open>\<open>BadFigures\<close> stands for the variants that name a weight, loss, return or evidence figure.\<close>

datatype vintage_error =
    VintageSerialize string | VintageDeserialize string | VintageHashMismatch string string | BadFigures string
  | SchemaIdentityMismatch catalogue_identity catalogue_identity | GenomeRepMismatch usize nat nat | VintageIo io_error

record 'x vintage =
  vt_content :: "'x vintage_content"
  vt_hash :: string

record 'x vintage_env =
  ve_canonicalize :: "'x vintage_content \<Rightarrow> 'x vintage_content"
  ve_validate :: "'x vintage_content \<Rightarrow> (vintage_error, unit) result"
  ve_content_json :: "'x vintage_content \<Rightarrow> (string, bytes) result"
  ve_to_json :: "'x vintage \<Rightarrow> (string, bytes) result"
  ve_from_json :: "bytes \<Rightarrow> (string, 'x vintage) result"
  ve_sha256 :: "bytes \<Rightarrow> bytes"
  ve_current :: catalogue_identity
  ve_genome_rep :: nat

definition vintage_json_ok :: "'x vintage_env \<Rightarrow> bool" where
  "vintage_json_ok E \<longleftrightarrow> (\<forall>a b. ve_to_json E a = Inr b \<longrightarrow> ve_from_json E b = Inr a)"

fun check_chromosomes :: "nat \<Rightarrow> usize \<Rightarrow> genome list \<Rightarrow> (vintage_error, unit) result" where
  "check_chromosomes rep i [] = Inr ()"
| "check_chromosomes rep i (g # gs) =
     (if gn_version g \<noteq> rep then Inl (GenomeRepMismatch i rep (gn_version g)) else check_chromosomes rep (i + 1) gs)"

definition assert_schema_against :: "nat \<Rightarrow> catalogue_identity \<Rightarrow> 'x vintage_content \<Rightarrow> (vintage_error, unit) result" where
  "assert_schema_against rep expected c =
     (if vc_catalogue c \<noteq> expected then Inl (SchemaIdentityMismatch expected (vc_catalogue c))
      else check_chromosomes rep 0 (vc_chromosomes c))"

definition assert_schema :: "'x vintage_env \<Rightarrow> 'x vintage_content \<Rightarrow> (vintage_error, unit) result" where
  "assert_schema E c = assert_schema_against (ve_genome_rep E) (ve_current E) c"

section \<open>Seal, verify, load\<close>

definition vintage_content_hash :: "'x vintage_env \<Rightarrow> 'x vintage_content \<Rightarrow> (vintage_error, string) result" where
  "vintage_content_hash E c =
     (case ve_content_json E c of Inl e \<Rightarrow> Inl (VintageSerialize e) | Inr b \<Rightarrow> Inr (hex (ve_sha256 E b)))"

definition vintage_seal :: "'x vintage_env \<Rightarrow> 'x vintage_content \<Rightarrow> (vintage_error, 'x vintage) result" where
  "vintage_seal E c0 =
     (let c = ve_canonicalize E c0
      in res_bind (ve_validate E c) (\<lambda>_. res_bind (vintage_content_hash E c)
           (\<lambda>h. Inr \<lparr>vt_content = c, vt_hash = h\<rparr>)))"

definition vintage_verify :: "'x vintage_env \<Rightarrow> 'x vintage \<Rightarrow> (vintage_error, unit) result" where
  "vintage_verify E v = res_bind (vintage_content_hash E (vt_content v))
     (\<lambda>recomputed. if recomputed \<noteq> vt_hash v then Inl (VintageHashMismatch (vt_hash v) recomputed) else Inr ())"

definition vintage_encode :: "'x vintage_env \<Rightarrow> 'x vintage \<Rightarrow> (vintage_error, bytes) result" where
  "vintage_encode E v = (case ve_to_json E v of Inl e \<Rightarrow> Inl (VintageSerialize e) | Inr b \<Rightarrow> Inr b)"

definition vintage_load :: "'x vintage_env \<Rightarrow> bytes \<Rightarrow> (vintage_error, 'x vintage) result" where
  "vintage_load E b =
     (case ve_from_json E b of
        Inl e \<Rightarrow> Inl (VintageDeserialize e)
      | Inr v \<Rightarrow> res_bind (vintage_verify E v) (\<lambda>_. Inr v))"

interpretation vintage_artefact:
  sealed_artefact "vintage_json_ok E" "vintage_seal E" "vintage_verify E" "vintage_encode E" "vintage_load E" for E
proof unfold_locales
  show "vintage_verify E a = Inr ()" if "vintage_seal E c = Inr a" for c a
    using that by (auto simp: vintage_seal_def vintage_verify_def res_bind_Inr Let_def)
  show "vintage_verify E a = Inr ()" if "vintage_load E b = Inr a" for a b
    using that by (auto simp: vintage_load_def res_bind_Inr split: sum.splits)
  show "vintage_load E b = Inr a" if "vintage_json_ok E" "vintage_encode E a = Inr b" "vintage_verify E a = Inr ()" for a b
    using that by (auto simp: vintage_load_def vintage_encode_def vintage_json_ok_def split: sum.splits)
qed

section \<open>The repository\<close>

definition vintage_path :: "string \<Rightarrow> string \<Rightarrow> path" where
  "vintage_path dir vintage_id = (dir, json_name vintage_id)"

definition vintage_repo_write :: "'x vintage_env \<Rightarrow> string \<Rightarrow> 'x vintage \<Rightarrow> fs \<Rightarrow> (vintage_error, path) result \<times> fs" where
  "vintage_repo_write E dir v f =
     (case fs_create_dir_all f dir of
        Inl e \<Rightarrow> (Inl (VintageIo e), f)
      | Inr _ \<Rightarrow>
          (let path = vintage_path dir (vc_vintage_id (vt_content v)); (created, f1) = fs_create f path
           in case created of
                Inl e \<Rightarrow> (Inl (VintageIo e), f1)
              | Inr _ \<Rightarrow>
                  (case vintage_encode E v of
                     Inl e \<Rightarrow> (Inl e, f1)
                   | Inr b \<Rightarrow>
                       (case fs_write_all f1 path b of
                          (Inl e, f2) \<Rightarrow> (Inl (VintageIo e), f2)
                        | (Inr _, f2) \<Rightarrow> (Inr path, f2)))))"

definition vintage_repo_load :: "'x vintage_env \<Rightarrow> string \<Rightarrow> string \<Rightarrow> fs \<Rightarrow> (vintage_error, 'x vintage) result" where
  "vintage_repo_load E dir vintage_id f =
     (case fs_read f (vintage_path dir vintage_id) of
        Inl e \<Rightarrow> Inl (VintageIo e)
      | Inr b \<Rightarrow> res_bind (vintage_load E b) (\<lambda>v. res_bind (assert_schema E (vt_content v)) (\<lambda>_. Inr v)))"

definition vintage_repo_list :: "'x vintage_env \<Rightarrow> string \<Rightarrow> fs \<Rightarrow> (vintage_error, 'x vintage list) result" where
  "vintage_repo_list E dir f =
     (case fs_read_dir f dir of
        Inl NotFound \<Rightarrow> Inr []
      | Inl e \<Rightarrow> Inl (VintageIo e)
      | Inr entries \<Rightarrow>
          Inr (sort_key (\<lambda>v. vc_vintage_id (vt_content v))
            (concat (map (\<lambda>path. case fs_read f path of Inl _ \<Rightarrow> [] | Inr b \<Rightarrow>
                 (case vintage_load E b of Inl _ \<Rightarrow> [] | Inr v \<Rightarrow> [v]))
               (filter (\<lambda>path. file_extension (snd path) = Some ''json'') entries)))))"

section \<open>Rollover\<close>

record rollover_record =
  rr_from_vintage_id :: string
  rr_to_vintage_id :: string
  rr_from_lineage :: lineage
  rr_to_lineage :: lineage

record 'x active_vintage =
  av_current :: "'x vintage"
  av_history :: "rollover_record list"

definition active_load :: "'x vintage_env \<Rightarrow> string \<Rightarrow> string \<Rightarrow> fs \<Rightarrow> (vintage_error, 'x active_vintage) result" where
  "active_load E dir vintage_id f =
     res_bind (vintage_repo_load E dir vintage_id f) (\<lambda>v. Inr \<lparr>av_current = v, av_history = []\<rparr>)"

definition active_from_vintage :: "'x vintage_env \<Rightarrow> 'x vintage \<Rightarrow> (vintage_error, 'x active_vintage) result" where
  "active_from_vintage E v = res_bind (vintage_verify E v) (\<lambda>_. Inr \<lparr>av_current = v, av_history = []\<rparr>)"

definition rollover :: "'x vintage_env \<Rightarrow> 'x vintage \<Rightarrow> 'x active_vintage \<Rightarrow> (vintage_error, rollover_record) result \<times> 'x active_vintage" where
  "rollover E nxt a =
     (case vintage_verify E nxt of
        Inl e \<Rightarrow> (Inl e, a)
      | Inr _ \<Rightarrow>
          (let r = \<lparr>rr_from_vintage_id = vc_vintage_id (vt_content (av_current a)),
                    rr_to_vintage_id = vc_vintage_id (vt_content nxt),
                    rr_from_lineage = vc_lineage (vt_content (av_current a)),
                    rr_to_lineage = vc_lineage (vt_content nxt)\<rparr>
           in (Inr r, a\<lparr>av_current := nxt, av_history := av_history a @ [r]\<rparr>)))"

definition rollover_from ::
  "'x vintage_env \<Rightarrow> string \<Rightarrow> string \<Rightarrow> fs \<Rightarrow> 'x active_vintage \<Rightarrow> (vintage_error, rollover_record) result \<times> 'x active_vintage" where
  "rollover_from E dir next_id f a =
     (case vintage_repo_load E dir next_id f of Inl e \<Rightarrow> (Inl e, a) | Inr v \<Rightarrow> rollover E v a)"

section \<open>The repository is a verified boundary\<close>

lemma check_chromosomes_iff: "check_chromosomes rep i gs = Inr () \<longleftrightarrow> (\<forall>g \<in> set gs. gn_version g = rep)"
  by (induction rep i gs rule: check_chromosomes.induct) auto

lemma assert_schema_iff: "assert_schema E c = Inr () \<longleftrightarrow>
    vc_catalogue c = ve_current E \<and> (\<forall>g \<in> set (vc_chromosomes c). gn_version g = ve_genome_rep E)"
  by (simp add: assert_schema_def assert_schema_against_def check_chromosomes_iff)

lemma vintage_repo_load_Inr: "vintage_repo_load E dir i f = Inr v \<longleftrightarrow>
    (\<exists>b. fs_read f (vintage_path dir i) = Inr b \<and> vintage_load E b = Inr v \<and> assert_schema E (vt_content v) = Inr ())"
  by (auto simp: vintage_repo_load_def res_bind_Inr split: sum.splits)

lemma vintage_repo_write_done:
  assumes "vintage_repo_write E dir v f = (Inr path, f')"
  shows "path = vintage_path dir (vc_vintage_id (vt_content v)) \<and> fs_open_fault f' = fs_open_fault f \<and>
    (\<exists>b. vintage_encode E v = Inr b \<and> (\<forall>q. map_of (fs_files f') q = (if q = path then Some b else map_of (fs_files f) q)))"
  using assms by (auto simp: vintage_repo_write_def Let_def fs_create_def fs_write_all_def fs_put_def update_conv'
      split: sum.splits option.splits prod.splits)

text \<open>
  What the runtime loads is what was sealed, under this build's schema. A vintage that seals and
  is written loads back identical exactly when its catalogue identity is this build's and every
  chromosome has this build's representation; otherwise the load names the mismatch. Whatever is
  on the disk, a load yields only a vintage whose hash verifies and whose schema is this build's.
\<close>

theorem vintage_repository_correct:
  assumes "vintage_json_ok E" "vintage_seal E c = Inr v" "vintage_repo_write E dir v f = (Inr path, f')"
    and "fs_open_fault f path = None"
  shows "(vintage_repo_load E dir (vc_vintage_id (vt_content v)) f' = Inr v \<longleftrightarrow>
       vc_catalogue (vt_content v) = ve_current E \<and> (\<forall>g \<in> set (vc_chromosomes (vt_content v)). gn_version g = ve_genome_rep E)) \<and>
    (vc_catalogue (vt_content v) \<noteq> ve_current E \<longrightarrow>
       vintage_repo_load E dir (vc_vintage_id (vt_content v)) f' =
         Inl (SchemaIdentityMismatch (ve_current E) (vc_catalogue (vt_content v)))) \<and>
    (\<forall>i w g. vintage_repo_load E dir i g = Inr w \<longrightarrow> vintage_verify E w = Inr () \<and>
       vc_catalogue (vt_content w) = ve_current E \<and> (\<forall>g \<in> set (vc_chromosomes (vt_content w)). gn_version g = ve_genome_rep E))"
proof -
  note written = vintage_repo_write_done [OF assms(3)]
  then obtain b where b: "vintage_encode E v = Inr b"
    and all: "\<forall>q. map_of (fs_files f') q = (if q = path then Some b else map_of (fs_files f) q)" by blast
  from written have path: "path = vintage_path dir (vc_vintage_id (vt_content v))" by blast
  have files: "map_of (fs_files f') path = Some b" using spec [OF all, of path] by simp
  have fault: "fs_open_fault f' path = None" using written assms(4) by simp
  have "vintage_load E b = Inr v" by (rule vintage_artefact.seal_round_trip [OF assms(1,2) b])
  then have load: "vintage_repo_load E dir (vc_vintage_id (vt_content v)) f' =
      res_bind (assert_schema E (vt_content v)) (\<lambda>_. Inr v)"
    using files fault unfolding path by (simp add: vintage_repo_load_def fs_read_def)
  have "vintage_verify E w = Inr () \<and> vc_catalogue (vt_content w) = ve_current E \<and>
      (\<forall>g \<in> set (vc_chromosomes (vt_content w)). gn_version g = ve_genome_rep E)"
    if "vintage_repo_load E dir i g = Inr w" for i w g
    using that by (auto simp: vintage_repo_load_Inr assert_schema_iff dest: vintage_artefact.load_verifies)
  then show ?thesis
    by (auto simp: load res_bind_Inr assert_schema_iff)
      (simp add: assert_schema_def assert_schema_against_def)
qed

text \<open>An instance: contents without chromosomes or figures, rendered by their id.\<close>

definition house_catalogue :: catalogue_identity where
  "house_catalogue = \<lparr>ci_catalogue_version = 1, ci_num_states = 3, ci_id_hash = ''ab'', ci_formula_pool = []\<rparr>"

definition bare_content :: "catalogue_identity \<Rightarrow> string \<Rightarrow> unit vintage_content" where
  "bare_content cat ident = \<lparr>vc_format_version = 1, vc_vintage_id = ident, vc_chromosomes = [], vc_catalogue = cat,
     vc_lineage = \<lparr>ln_config_hash = [], ln_input_snapshot_id = [], ln_code_commit = [], ln_seeds = [7]\<rparr>,
     vc_figures = ()\<rparr>"

definition bare_env :: "unit vintage_env" where
  "bare_env = \<lparr>ve_canonicalize = (\<lambda>c. c), ve_validate = (\<lambda>c. Inr ()),
     ve_content_json = (\<lambda>c. Inr (map of_char (vc_vintage_id c))),
     ve_to_json = (\<lambda>v. if v = \<lparr>vt_content = bare_content house_catalogue (vc_vintage_id (vt_content v)),
            vt_hash = hex (map of_char (vc_vintage_id (vt_content v)))\<rparr>
        then Inr (map of_char (vc_vintage_id (vt_content v))) else Inl ''unsupported''),
     ve_from_json = (\<lambda>b. Inr \<lparr>vt_content = bare_content house_catalogue (map char_of b), vt_hash = hex b\<rparr>),
     ve_sha256 = (\<lambda>b. b), ve_current = house_catalogue, ve_genome_rep = 1\<rparr>"

lemma bare_env_ok [simp]: "vintage_json_ok bare_env"
  by (auto simp: vintage_json_ok_def bare_env_def comp_def split: if_splits)

definition bare_vintage :: "catalogue_identity \<Rightarrow> string \<Rightarrow> unit vintage" where
  "bare_vintage cat ident = \<lparr>vt_content = bare_content cat ident, vt_hash = hex (map of_char ident)\<rparr>"

lemma bare_seal: "vintage_seal bare_env (bare_content cat ident) = Inr (bare_vintage cat ident)"
  by (simp add: vintage_seal_def vintage_content_hash_def bare_env_def bare_content_def bare_vintage_def Let_def)

definition calm_fs :: fs where
  "calm_fs = \<lparr>fs_files = [], fs_open_fault = (\<lambda>p. None), fs_create_fault = (\<lambda>p. None),
     fs_write_fault = (\<lambda>p. None), fs_dir_fault = (\<lambda>d. None)\<rparr>"

lemma bare_write:
  "\<exists>f'. vintage_repo_write bare_env ''vt'' (bare_vintage house_catalogue ident) calm_fs = (Inr (''vt'', json_name ident), f')"
  by (simp add: vintage_repo_write_def calm_fs_def fs_create_dir_all_def fs_create_def fs_write_all_def fs_put_def
      vintage_encode_def bare_env_def bare_content_def bare_vintage_def vintage_path_def Let_def)

theorem vintage_repository_correct_witness:
  "\<exists>f'. vintage_repo_write bare_env ''vt'' (bare_vintage house_catalogue ''q1'') calm_fs = (Inr (''vt'', ''q1.json''), f') \<and>
     vintage_repo_load bare_env ''vt'' ''q1'' f' = Inr (bare_vintage house_catalogue ''q1'')"
proof -
  obtain f' where w: "vintage_repo_write bare_env ''vt'' (bare_vintage house_catalogue ''q1'') calm_fs =
      (Inr (''vt'', json_name ''q1''), f')" using bare_write by blast
  have "fs_open_fault calm_fs (''vt'', json_name ''q1'') = None" by (simp add: calm_fs_def)
  from vintage_repository_correct [OF bare_env_ok bare_seal w this] w show ?thesis
    by (simp add: bare_vintage_def bare_content_def bare_env_def json_name_def)
qed

section \<open>Rollover keeps one verified vintage and its history\<close>

datatype 'x rollover_op = InHand "'x vintage" | FromRepo string string fs

fun rollover_step :: "'x vintage_env \<Rightarrow> 'x rollover_op \<Rightarrow> 'x active_vintage \<Rightarrow> (vintage_error, rollover_record) result \<times> 'x active_vintage" where
  "rollover_step E (InHand v) a = rollover E v a"
| "rollover_step E (FromRepo dir i f) a = rollover_from E dir i f a"

definition rollover_run :: "'x vintage_env \<Rightarrow> 'x rollover_op list \<Rightarrow> 'x active_vintage \<Rightarrow> 'x active_vintage" where
  "rollover_run E ops a = foldl (\<lambda>a op. snd (rollover_step E op a)) a ops"

text \<open>A history from one vintage to another: each record starts where the one before it ended.\<close>

fun links :: "string \<times> lineage \<Rightarrow> rollover_record list \<Rightarrow> string \<times> lineage \<Rightarrow> bool" where
  "links s [] e \<longleftrightarrow> s = e"
| "links s (r # rs) e \<longleftrightarrow> (rr_from_vintage_id r, rr_from_lineage r) = s \<and> links (rr_to_vintage_id r, rr_to_lineage r) rs e"

lemma links_snoc: "links s (rs @ [r]) e \<longleftrightarrow>
    links s rs (rr_from_vintage_id r, rr_from_lineage r) \<and> (rr_to_vintage_id r, rr_to_lineage r) = e"
  by (induction s rs e rule: links.induct) auto

definition identity_of :: "'x vintage \<Rightarrow> string \<times> lineage" where
  "identity_of v = (vc_vintage_id (vt_content v), vc_lineage (vt_content v))"

lemma rollover_cases:
  "rollover E v a = (r, a') \<Longrightarrow> (\<exists>e. r = Inl e \<and> vintage_verify E v = Inl e \<and> a' = a) \<or>
     (vintage_verify E v = Inr () \<and> av_current a' = v \<and>
      (\<exists>rec. r = Inr rec \<and> av_history a' = av_history a @ [rec] \<and>
         (rr_from_vintage_id rec, rr_from_lineage rec) = identity_of (av_current a) \<and>
         (rr_to_vintage_id rec, rr_to_lineage rec) = identity_of v))"
  by (auto simp: rollover_def Let_def identity_of_def split: sum.splits)

lemma rollover_step_cases:
  assumes "rollover_step E op a = (r, a')"
  shows "(\<exists>e. r = Inl e \<and> a' = a) \<or> (vintage_verify E (av_current a') = Inr () \<and>
      (\<exists>rec. r = Inr rec \<and> av_history a' = av_history a @ [rec] \<and>
         (rr_from_vintage_id rec, rr_from_lineage rec) = identity_of (av_current a) \<and>
         (rr_to_vintage_id rec, rr_to_lineage rec) = identity_of (av_current a')))"
proof (cases op)
  case (InHand v)
  with assms rollover_cases [of E v a r a'] show ?thesis by auto
next
  case (FromRepo dir i f)
  with assms show ?thesis
    by (auto simp: rollover_from_def split: sum.splits dest!: rollover_cases)
qed

definition active_ok :: "'x vintage_env \<Rightarrow> string \<times> lineage \<Rightarrow> 'x active_vintage \<Rightarrow> bool" where
  "active_ok E start a \<longleftrightarrow> vintage_verify E (av_current a) = Inr () \<and> links start (av_history a) (identity_of (av_current a))"

lemma rollover_run_ok: "active_ok E start a \<Longrightarrow> active_ok E start (rollover_run E ops a)"
  unfolding rollover_run_def
proof (induction ops arbitrary: a)
  case Nil
  then show ?case by simp
next
  case (Cons op ops)
  obtain r a' where st: "rollover_step E op a = (r, a')" by (cases "rollover_step E op a")
  have "active_ok E start a'"
    using rollover_step_cases [OF st] Cons.prems by (auto simp: active_ok_def links_snoc)
  with Cons.IH show ?case by (simp add: st)
qed

text \<open>
  C36. The live vintage is always a verified one, and the history says how it came to be live. After
  any sequence of rollovers from one loaded or held at the start, in hand or from a repository in
  whatever state, failing ones included, the current vintage's hash verifies and the records chain,
  by id and by lineage, from the first vintage to the current one. A rollover that fails leaves the
  vintage and the history as they were; one that succeeds appends exactly one record.
\<close>

theorem rollover_history_chains:
  assumes "active_from_vintage E v = Inr a \<or> active_load E dir i f = Inr a"
  shows "(let b = rollover_run E ops a in
      vintage_verify E (av_current b) = Inr () \<and> links (identity_of (av_current a)) (av_history b) (identity_of (av_current b))) \<and>
    (\<forall>op b r b'. rollover_step E op b = (r, b') \<longrightarrow>
       (case r of Inl e \<Rightarrow> b' = b | Inr rec \<Rightarrow> av_history b' = av_history b @ [rec]))"
proof -
  have "active_ok E (identity_of (av_current a)) a"
    using assms by (auto simp: active_from_vintage_def active_load_def active_ok_def res_bind_Inr vintage_repo_load_Inr
        dest: vintage_artefact.load_verifies)
  from rollover_run_ok [OF this, of ops] show ?thesis
    by (auto simp: active_ok_def Let_def split: sum.split dest!: rollover_step_cases)
qed

theorem rollover_history_chains_witness:
  "let a = \<lparr>av_current = bare_vintage house_catalogue ''q1'', av_history = []\<rparr>;
       ops = [InHand (bare_vintage house_catalogue ''q2''), FromRepo ''vt'' ''q3'' calm_fs]
   in links (identity_of (av_current a)) (av_history (rollover_run bare_env ops a)) (identity_of (bare_vintage house_catalogue ''q2''))"
proof -
  let ?a = "\<lparr>av_current = bare_vintage house_catalogue ''q1'', av_history = []\<rparr>"
  let ?ops = "[InHand (bare_vintage house_catalogue ''q2''), FromRepo ''vt'' ''q3'' calm_fs]"
  have verify: "vintage_verify bare_env (bare_vintage cat ident) = Inr ()" for cat ident
    using vintage_artefact.seal_verifies [OF bare_seal] .
  have "active_from_vintage bare_env (bare_vintage house_catalogue ''q1'') = Inr ?a"
    by (simp add: active_from_vintage_def verify)
  moreover have "av_current (rollover_run bare_env ?ops ?a) = bare_vintage house_catalogue ''q2''"
    by (simp add: rollover_run_def rollover_def verify rollover_from_def vintage_repo_load_def fs_read_def calm_fs_def Let_def)
  ultimately show ?thesis
    using rollover_history_chains [of bare_env _ ?a _ _ _ ?ops] by (metis (no_types, lifting))
qed

text \<open>
  A rollover in hand checks the hash only: a vintage sealed against another catalogue becomes live,
  where the repository's load refuses it.
\<close>

theorem in_hand_rollover_skips_schema:
  assumes "vintage_verify E v = Inr ()" "vc_catalogue (vt_content v) \<noteq> ve_current E"
  shows "av_current (snd (rollover E v a)) = v \<and> assert_schema E (vt_content v) \<noteq> Inr ()"
  using assms by (simp add: rollover_def assert_schema_iff Let_def)

end
