(* ===== verification/Catalogue.thy ===== *)
theory Catalogue imports Expr_Canon Oscillators Vintage "HOL-Library.Multiset" begin

text \<open>
  The shared catalogue (\<open>qe-signal\<close>, \<open>indicator/mod.rs\<close>): the price and flow kernels followed by the
  injected evolved formulas in the order of their ids, its largest lookback, and the five formulas
  seeded to reproduce catalogue indicators (\<open>indicator/expr.rs\<close>).
\<close>

section \<open>The catalogue\<close>

text \<open>A boxed \<open>Indicator\<close> is one of its three implementations.\<close>

datatype indicator = Bar_Ind bars_kernel | Scalar_Ind scalar_kernel | Formula_Ind expr_indicator

record compiled_formula =
  cf_id :: string
  cf_expr :: "decimal expr"
  cf_quantiser :: quantiser

record catalogue_config =
  cc_states :: nat
  cc_formula_pool :: "compiled_formula list"

definition catalogue_config_default :: catalogue_config where
  "catalogue_config_default = \<lparr>cc_states = 5, cc_formula_pool = []\<rparr>"

definition cfg_states :: "catalogue_config \<Rightarrow> nat" where
  "cfg_states cfg = max (cc_states cfg) 2"

definition catalogue_of :: "dec_math \<Rightarrow> catalogue_config \<Rightarrow> indicator list" where
  "catalogue_of M cfg =
     (let s = cfg_states cfg
      in map Bar_Ind (price_catalogue M s) @ map Scalar_Ind (flow_catalogue M s) @
         map (\<lambda>f. Formula_Ind (compile_expr (cf_id f) (cf_expr f) (cf_quantiser f))) (sort_key cf_id (cc_formula_pool cfg)))"

fun ind_spec :: "dec_math \<Rightarrow> indicator \<Rightarrow> indicator_spec" where
  "ind_spec M (Bar_Ind k) = \<lparr>spec_id = bk_id k, spec_lookback = kn_lookback (bars_kernel_impl M) k, spec_num_states = quantiser_states (bk_q k)\<rparr>"
| "ind_spec M (Scalar_Ind k) = \<lparr>spec_id = sk_id k, spec_lookback = kn_lookback scalar_kernel_impl k, spec_num_states = quantiser_states (sk_q k)\<rparr>"
| "ind_spec M (Formula_Ind k) = \<lparr>spec_id = ei_id k, spec_lookback = ei_lookback k, spec_num_states = quantiser_states (ei_q k)\<rparr>"

definition catalogue_max_lookback :: "dec_math \<Rightarrow> catalogue_config \<Rightarrow> usize" where
  "catalogue_max_lookback M cfg = (let ls = map (spec_lookback \<circ> ind_spec M) (catalogue_of M cfg) in if ls = [] then 0 else Max (set ls))"

definition catalogue_version :: nat where "catalogue_version = 1"

definition schema_from_catalogue :: "dec_math \<Rightarrow> catalogue_config \<Rightarrow> feature_schema" where
  "schema_from_catalogue M cfg = schema_from_specs catalogue_version (map (ind_spec M) (catalogue_of M cfg))"

section \<open>The catalogue's identity\<close>

definition hash_ids :: "(bytes \<Rightarrow> bytes) \<Rightarrow> string list \<Rightarrow> string" where
  "hash_ids sha256 ids = hex (sha256 (map of_char (concat (map (\<lambda>i. i @ [CHR 0x0A]) ids))))"

definition identity_from_schema :: "(bytes \<Rightarrow> bytes) \<Rightarrow> feature_schema \<Rightarrow> catalogue_identity" where
  "identity_from_schema sha256 sc = \<lparr>ci_catalogue_version = fs_version sc, ci_num_states = fs_num_states sc,
     ci_id_hash = hash_ids sha256 (fs_ids sc), ci_formula_pool = []\<rparr>"

text \<open>\<open>sort\<close> then \<open>dedup\<close>, which drops consecutive repeats.\<close>

definition sorted_dedup :: "string list \<Rightarrow> string list" where
  "sorted_dedup hs = remdups_adj (sort hs)"

definition with_formula_pool :: "catalogue_identity \<Rightarrow> string list \<Rightarrow> catalogue_identity" where
  "with_formula_pool i hashes = i\<lparr>ci_formula_pool := sorted_dedup hashes\<rparr>"

definition identity_from_config :: "dec_math \<Rightarrow> (bytes \<Rightarrow> bytes) \<Rightarrow> catalogue_config \<Rightarrow> catalogue_identity" where
  "identity_from_config M sha256 cfg =
     with_formula_pool (identity_from_schema sha256 (schema_from_catalogue M cfg)) (map cf_id (cc_formula_pool cfg))"

definition identity_current :: "dec_math \<Rightarrow> (bytes \<Rightarrow> bytes) \<Rightarrow> catalogue_identity" where
  "identity_current M sha256 = identity_from_config M sha256 catalogue_config_default"

definition current_with_pool :: "dec_math \<Rightarrow> (bytes \<Rightarrow> bytes) \<Rightarrow> string list \<Rightarrow> catalogue_identity" where
  "current_with_pool M sha256 hashes =
     (let base = schema_from_catalogue M catalogue_config_default; srt = sorted_dedup hashes
      in \<lparr>ci_catalogue_version = fs_version base, ci_num_states = fs_num_states base,
          ci_id_hash = hash_ids sha256 (fs_ids base @ srt), ci_formula_pool = srt\<rparr>)"

lemma schema_from_specs_fields:
  "fs_ids (schema_from_specs v sps) = map spec_id sps"
  "fs_version (schema_from_specs v sps) = v"
  "fs_num_states (schema_from_specs v sps) = (if sps = [] then 0 else spec_num_states (last sps))"
  by (induction sps rule: rev_induct) (simp_all add: schema_from_specs_def)

lemma sort_distinct_dedup: "distinct xs \<Longrightarrow> remdups_adj (sort xs) = sort xs" for xs :: "string list"
  by (simp add: remdups_adj_distinct)

lemma catalogue_ids:
  "map spec_id (map (ind_spec M) (catalogue_of M cfg)) =
     map spec_id (map (ind_spec M) (catalogue_of M \<lparr>cc_states = cc_states cfg, cc_formula_pool = []\<rparr>)) @ sort (map cf_id (cc_formula_pool cfg))"
proof -
  have "sort (map cf_id fs) = map cf_id (sort_key cf_id fs)" for fs :: "compiled_formula list"
    by (rule properties_for_sort) simp_all
  then show ?thesis by (simp add: catalogue_of_def cfg_states_def Let_def comp_def compile_expr_def)
qed

lemma catalogue_default_states: "spec_num_states (last (map (ind_spec M) (catalogue_of M catalogue_config_default))) = 5"
  by (simp add: catalogue_of_def catalogue_config_default_def cfg_states_def price_catalogue_def flow_catalogue_def
      scalar_indicator_def rate_quant_def)

lemma catalogue_nonempty: "catalogue_of M cfg \<noteq> []"
  by (simp add: catalogue_of_def price_catalogue_def Let_def)

lemma pool_num_states:
  assumes "\<forall>f \<in> set fs. quantiser_states (cf_quantiser f) = 5"
  shows "spec_num_states (last (map (ind_spec M) (catalogue_of M \<lparr>cc_states = 5, cc_formula_pool = fs\<rparr>))) = 5"
proof (cases "fs = []")
  case True
  then show ?thesis using catalogue_default_states [of M] by (simp add: catalogue_config_default_def)
next
  case False
  let ?g = "\<lambda>f. Formula_Ind (compile_expr (cf_id f) (cf_expr f) (cf_quantiser f))"
  have ne: "sort_key cf_id fs \<noteq> []" using False by (metis length_0_conv length_sort)
  then have "last (sort_key cf_id fs) \<in> set fs" by (metis last_in_set set_sort)
  with assms have "quantiser_states (cf_quantiser (last (sort_key cf_id fs))) = 5" by blast
  with ne show ?thesis
    by (simp add: catalogue_of_def Let_def last_map compile_expr_def catalogue_nonempty)
qed

lemma no_newline_concat:
  assumes "\<forall>x \<in> set xs. c \<notin> set x" "\<forall>y \<in> set ys. c \<notin> set y"
  shows "concat (map (\<lambda>i. i @ [c]) xs) = concat (map (\<lambda>i. i @ [c]) ys) \<longleftrightarrow> xs = ys"
  using assms
proof (induction xs arbitrary: ys)
  case Nil
  then show ?case by (cases ys) auto
next
  case (Cons x xs)
  then show ?case by (cases ys) (auto simp: split_at_delim)
qed

definition digest_injective :: "(bytes \<Rightarrow> bytes) \<Rightarrow> bool" where
  "digest_injective sha256 \<longleftrightarrow> (\<forall>a b. sha256 a = sha256 b \<longrightarrow> a = b) \<and> (\<forall>a. valid_bytes (sha256 a))"

lemma hash_ids_inject:
  assumes "digest_injective sha256" "\<forall>x \<in> set xs \<union> set ys. CHR 0x0A \<notin> set x"
  shows "hash_ids sha256 xs = hash_ids sha256 ys \<longleftrightarrow> xs = ys"
proof
  assume "hash_ids sha256 xs = hash_ids sha256 ys"
  then have "map of_char (concat (map (\<lambda>i. i @ [CHR 0x0A]) xs)) = (map of_char (concat (map (\<lambda>i. i @ [CHR 0x0A]) ys)) :: nat list)"
    using assms(1) hex_inject unfolding hash_ids_def digest_injective_def by metis
  then have "concat (map (\<lambda>i. i @ [CHR 0x0A]) xs) = concat (map (\<lambda>i. i @ [CHR 0x0A]) ys)"
    by (simp add: inj_map_eq_map inj_of_char)
  then show "xs = ys" using no_newline_concat [of xs "CHR 0x0A" ys] assms(2) by simp
qed simp

text \<open>
  The catalogue identity binds exactly the injected pool. For distinct formulas quantised to the
  default state count, the identity a training run seals is the one the load boundary rebuilds from
  the sanctioned hashes alone, in whatever order either lists them. Two id lists hash alike only when
  they are equal in order, so a reorder or a rename changes the identity. A vintage sealed with a
  non-empty pool never passes the assertion of a build without one: loading it names the mismatch.
\<close>

theorem identity_binds_the_pool:
  assumes "digest_injective sha256" "distinct (map cf_id fs)" "\<forall>f \<in> set fs. quantiser_states (cf_quantiser f) = 5"
    and "mset hashes = mset (map cf_id fs)"
  shows "identity_from_config M sha256 \<lparr>cc_states = 5, cc_formula_pool = fs\<rparr> = current_with_pool M sha256 hashes \<and>
    (\<forall>xs ys. (\<forall>x \<in> set xs \<union> set ys. CHR 0x0A \<notin> set x) \<longrightarrow> (hash_ids sha256 xs = hash_ids sha256 ys \<longleftrightarrow> xs = ys)) \<and>
    (fs \<noteq> [] \<longrightarrow> ve_current E = identity_current M sha256 \<longrightarrow> vc_catalogue (vt_content v) = current_with_pool M sha256 hashes \<longrightarrow>
       vintage_repo_load E dir i f \<noteq> Inr v)"
proof -
  have sorted: "sort hashes = sort (map cf_id fs)" using assms(4) by (metis mset_sort properties_for_sort sorted_sort)
  have dd: "sorted_dedup hashes = sort (map cf_id fs)" "sorted_dedup (map cf_id fs) = sort (map cf_id fs)"
    using sort_distinct_dedup [OF assms(2)] by (simp_all add: sorted_dedup_def sorted)
  have "identity_from_config M sha256 \<lparr>cc_states = 5, cc_formula_pool = fs\<rparr> = current_with_pool M sha256 hashes"
    using catalogue_ids [of M "\<lparr>cc_states = 5, cc_formula_pool = fs\<rparr>"] pool_num_states [OF assms(3), of M] catalogue_default_states [of M]
    by (simp add: identity_from_config_def current_with_pool_def with_formula_pool_def identity_from_schema_def
        schema_from_catalogue_def schema_from_specs_fields catalogue_nonempty dd Let_def catalogue_config_default_def del: map_map)
  moreover have "\<forall>xs ys. (\<forall>x \<in> set xs \<union> set ys. CHR 0x0A \<notin> set x) \<longrightarrow> (hash_ids sha256 xs = hash_ids sha256 ys \<longleftrightarrow> xs = ys)"
    using hash_ids_inject [OF assms(1)] by blast
  moreover have "vintage_repo_load E dir i f \<noteq> Inr v"
    if "fs \<noteq> []" "ve_current E = identity_current M sha256" "vc_catalogue (vt_content v) = current_with_pool M sha256 hashes"
  proof
    assume "vintage_repo_load E dir i f = Inr v"
    then have "current_with_pool M sha256 hashes = identity_current M sha256"
      using that by (auto simp: vintage_repo_load_Inr assert_schema_iff)
    moreover have "ci_formula_pool (current_with_pool M sha256 hashes) \<noteq> []"
      using that(1) dd(1) by (simp add: current_with_pool_def Let_def) (metis length_0_conv length_map length_sort)
    moreover have "ci_formula_pool (identity_current M sha256) = []"
      by (simp add: identity_current_def identity_from_config_def with_formula_pool_def catalogue_config_default_def sorted_dedup_def)
    ultimately show False by simp
  qed
  ultimately show ?thesis by blast
qed

definition unary_digest :: "bytes \<Rightarrow> bytes" where
  "unary_digest bs = concat (map (\<lambda>i. i @ [0]) (map (\<lambda>n. replicate n 1) bs))"

lemma unary_digest_injective: "digest_injective unary_digest"
proof -
  have inj: "inj (\<lambda>n. replicate n (1::nat))" by (rule injI) (metis length_replicate)
  have "a = b" if "unary_digest a = unary_digest b" for a b
  proof -
    have "map (\<lambda>n. replicate n 1) a = map (\<lambda>n. replicate n (1::nat)) b"
      using that unfolding unary_digest_def by (subst (asm) no_newline_concat) auto
    then show ?thesis by (simp only: inj_map_eq_map [OF inj])
  qed
  moreover have "valid_bytes (unary_digest a)" for a by (auto simp: unary_digest_def valid_bytes_def)
  ultimately show ?thesis unfolding digest_injective_def by blast
qed

definition swing_formula :: compiled_formula where
  "swing_formula = \<lparr>cf_id = ''ab'', cf_expr = swing, cf_quantiser = lin 0 100 5\<rparr>"

theorem identity_binds_the_pool_witness:
  "identity_from_config lab_math unary_digest \<lparr>cc_states = 5, cc_formula_pool = [swing_formula]\<rparr> =
     current_with_pool lab_math unary_digest [''ab'']"
  by (rule conjunct1 [OF identity_binds_the_pool [OF unary_digest_injective, of "[swing_formula]" "[''ab'']" lab_math]])
    (simp_all add: swing_formula_def lin_def)

section \<open>The seeded formulas\<close>

definition seed_pct_change :: "decimal expr \<Rightarrow> decimal expr \<Rightarrow> decimal expr" where
  "seed_pct_change a b = Binary Mul_Op (Binary Sub_Op (Binary Div_Op a b) (Const 1)) (Const 100)"

definition seed_window :: "winop \<Rightarrow> price_field \<Rightarrow> usize \<Rightarrow> decimal expr" where
  "seed_window op f cap = Window op (Input f) cap"

definition seed_catalogue_subset :: "nat \<Rightarrow> (string \<times> decimal expr \<times> quantiser) list" where
  "seed_catalogue_subset states = [
     (''sma_ratio_20'', seed_pct_change (Input Close) (seed_window Mean_Win Close 20), lin (- 10) 10 states),
     (''volume_ratio_20'', Binary Div_Op (Input Volume) (seed_window Mean_Win Volume 20), lin 0 4 states),
     (''return_1'', seed_pct_change (Input Close) (Window Lag_Win (Input Close) 2), lin (- 5) 5 states),
     (''roc_10'', seed_pct_change (Input Close) (Window Lag_Win (Input Close) 11), lin (- 25) 25 states),
     (''stoch_k_14'',
        (let min_low = seed_window Min_Win Low 14; max_high = seed_window Max_Win High 14
         in Binary Mul_Op (Binary Div_Op (Binary Sub_Op (Input Close) min_low) (Binary Sub_Op max_high min_low)) (Const 100)),
      lin 0 100 states)]"

definition seed_indicators :: "nat \<Rightarrow> expr_indicator list" where
  "seed_indicators states = map (\<lambda>(ident, e, q). compile_expr ident e q) (seed_catalogue_subset states)"

text \<open>The value a seeded formula has after a history.\<close>

definition seed_value :: "dec_math \<Rightarrow> string \<Rightarrow> bar list \<Rightarrow> val" where
  "seed_value M ident bs =
     (case map_of (seed_catalogue_subset 5) ident of Some (e, q) \<Rightarrow> naive M e (map bar_sample bs) | None \<Rightarrow> Some None)"

fun plain_field :: "price_field \<Rightarrow> bar \<Rightarrow> decimal" where
  "plain_field Close b = price_get (bar_close b)"
| "plain_field High b = price_get (bar_high b)"
| "plain_field Low b = price_get (bar_low b)"
| "plain_field Volume b = qty_get (bar_volume b)"
| "plain_field Typical b = 0"

lemma field_plain: "f \<noteq> Typical \<Longrightarrow> field_value M f (bar_sample b) = Some (plain_field f b)"
  by (cases f) (simp_all add: bar_sample_def)

lemma histories_Nil: "histories [] = []"
  by (simp add: histories_def)

lemma naive_field_window:
  assumes "f \<noteq> Typical"
  shows "naive M (Window op (Input f) n) (map bar_sample bs) =
    (if max n 1 \<le> length bs then aggregate M op \<lparr>ro_cap = max n 1, ro_buf = lastn (max n 1) (map (plain_field f) bs)\<rparr> else Some None)"
proof -
  have "map_opt (naive M (Input f)) (histories (map bar_sample bs)) = Some (map (\<lambda>b. Some (plain_field f b)) bs)"
    by (induction bs rule: rev_induct) (simp_all add: histories_Nil map_opt_append field_plain [OF assms])
  moreover have "somes (map (\<lambda>b. Some (plain_field f b)) bs) = map (plain_field f) bs"
    by (induction bs) (simp_all add: somes_def)
  ultimately show ?thesis by (simp add: naive.simps(5))
qed

lemma kernel_windows:
  assumes "run_opt (bars_observe M) (bars_new n) bs = Some s"
  shows "bs_close s = \<lparr>ro_cap = max n 1, ro_buf = lastn (max n 1) (map (plain_field Close) bs)\<rparr>"
    "bs_high s = \<lparr>ro_cap = max n 1, ro_buf = lastn (max n 1) (map (plain_field High) bs)\<rparr>"
    "bs_low s = \<lparr>ro_cap = max n 1, ro_buf = lastn (max n 1) (map (plain_field Low) bs)\<rparr>"
    "bs_volume s = \<lparr>ro_cap = max n 1, ro_buf = lastn (max n 1) (map (plain_field Volume) bs)\<rparr>"
  using assms by (auto simp: bars_observe_all bars_push_all_def bars_new_def roll_window cong: map_cong)

lemma last_field: "f \<noteq> Typical \<Longrightarrow> bs \<noteq> [] \<Longrightarrow> naive M (Input f) (map bar_sample bs) = Some (Some (plain_field f (last bs)))"
  by (simp add: last_map field_plain)

lemma last_window: "0 < n \<Longrightarrow> xs \<noteq> [] \<Longrightarrow> last_opt (lastn n xs) = Some (last xs)"
  using diff_less [of n "length xs"] by (simp add: last_opt_def lastn_def last_drop not_le)

lemma naive_Const: "naive M (Const c) ss = Some (Some c)"
  by simp

lemma naive_Binary: "naive M (Binary op a b) ss = do {
     va \<leftarrow> naive M a ss;
     vb \<leftarrow> naive M b ss;
     (case (va, vb) of (Some x, Some y) \<Rightarrow> some_val (apply_binary (dm_arith M) op x y) | _ \<Rightarrow> Some None)
   }"
  by simp

lemma seed_pct:
  "naive M a ss = Some (Some x) \<Longrightarrow> naive M b ss = Some (Some y) \<Longrightarrow> div_epsilon \<le> \<bar>y\<bar> \<Longrightarrow>
     naive M (seed_pct_change a b) ss = pct_change (dm_arith M) y x"
proof -
  assume ab: "naive M a ss = Some (Some x)" "naive M b ss = Some (Some y)" and y: "div_epsilon \<le> \<bar>y\<bar>"
  then have "y \<noteq> 0" by (auto simp: div_epsilon_def)
  with ab y show ?thesis
    by (cases "dec_div (dm_arith M) x y"; cases "dec_sub (dm_arith M) (the (dec_div (dm_arith M) x y)) 1")
      (simp_all add: seed_pct_change_def pct_change_def)
qed

lemma seed_windows:
  assumes "run_opt (bars_observe M) (bars_new n) bs = Some s" "n \<le> length bs" "1 \<le> n"
  shows "naive M (seed_window op Close n) (map bar_sample bs) = aggregate M op (bs_close s)"
    "naive M (seed_window op High n) (map bar_sample bs) = aggregate M op (bs_high s)"
    "naive M (seed_window op Low n) (map bar_sample bs) = aggregate M op (bs_low s)"
    "naive M (seed_window op Volume n) (map bar_sample bs) = aggregate M op (bs_volume s)"
    "roll_last (bs_close s) = Some (plain_field Close (last bs))" "roll_last (bs_volume s) = Some (plain_field Volume (last bs))"
proof -
  have n: "max n 1 = n" "bs \<noteq> []" using assms(2,3) by auto
  note windows = kernel_windows [OF assms(1), unfolded n(1)]
  note naive_windows = naive_field_window [of _ M op n bs, unfolded n(1) if_P [OF assms(2)]]
  show "naive M (seed_window op Close n) (map bar_sample bs) = aggregate M op (bs_close s)"
    "naive M (seed_window op High n) (map bar_sample bs) = aggregate M op (bs_high s)"
    "naive M (seed_window op Low n) (map bar_sample bs) = aggregate M op (bs_low s)"
    "naive M (seed_window op Volume n) (map bar_sample bs) = aggregate M op (bs_volume s)"
    unfolding seed_window_def windows by (rule naive_windows, simp)+
  show "roll_last (bs_close s) = Some (plain_field Close (last bs))" "roll_last (bs_volume s) = Some (plain_field Volume (last bs))"
    using n(2) assms(3) by (simp_all add: windows roll_last_def last_window last_map del: plain_field.simps)
qed

lemmas seed_tags = seed_value_def seed_catalogue_subset_def

text \<open>
  The seeded formulas are the catalogue indicators they name. On any history that fills the window
  each formula has the value of the hand-written kernel, panics and rounding included, as long as
  the divisor is not cut off by the formulas' protected division.
\<close>

theorem seeds_match_the_catalogue:
  assumes "run_opt (bars_observe M) (bars_new n) bs = Some s" "n \<le> length bs"
  shows "(n = 20 \<longrightarrow> roll_mean M (bs_close s) = Some (Some m) \<longrightarrow> div_epsilon \<le> \<bar>m\<bar> \<longrightarrow>
       seed_value M ''sma_ratio_20'' bs = sma_ratio M s) \<and>
    (n = 20 \<longrightarrow> roll_mean M (bs_volume s) = Some (Some m) \<longrightarrow> div_epsilon \<le> \<bar>m\<bar> \<longrightarrow>
       seed_value M ''volume_ratio_20'' bs = volume_ratio M s) \<and>
    (n = 2 \<longrightarrow> roll_first (bs_close s) = Some m \<longrightarrow> div_epsilon \<le> \<bar>m\<bar> \<longrightarrow> seed_value M ''return_1'' bs = roc M s) \<and>
    (n = 11 \<longrightarrow> roll_first (bs_close s) = Some m \<longrightarrow> div_epsilon \<le> \<bar>m\<bar> \<longrightarrow> seed_value M ''roc_10'' bs = roc M s) \<and>
    (n = 14 \<longrightarrow> roll_max (bs_high s) = Some hi \<longrightarrow> roll_min (bs_low s) = Some lo \<longrightarrow>
       dec_sub (dm_arith M) hi lo = Some m \<longrightarrow> div_epsilon \<le> \<bar>m\<bar> \<longrightarrow> seed_value M ''stoch_k_14'' bs = stoch_k M s)"
proof -
  note win = seed_windows [OF assms]
  have close: "naive M (Input Close) (map bar_sample bs) = Some (Some (plain_field Close (last bs)))"
    and volume: "naive M (Input Volume) (map bar_sample bs) = Some (Some (plain_field Volume (last bs)))" if "1 \<le> n"
    using that assms(2) by (cases bs, simp, intro last_field, simp, simp)+
  have lag: "naive M (Window Lag_Win (Input Close) n) (map bar_sample bs) = Some (roll_first (bs_close s))" if "1 \<le> n"
    using win(1) [OF that, of Lag_Win] by (simp add: seed_window_def del: naive.simps)
  have eps: "div_epsilon \<le> \<bar>m\<bar> \<Longrightarrow> m \<noteq> 0 \<and> \<not> \<bar>m\<bar> < div_epsilon" by (auto simp: div_epsilon_def)
  have roc: "naive M (seed_pct_change (Input Close) (Window Lag_Win (Input Close) n)) (map bar_sample bs) = roc M s"
    if "roll_first (bs_close s) = Some m" "div_epsilon \<le> \<bar>m\<bar>" "1 \<le> n"
    using seed_pct [OF close [OF that(3)], of "Window Lag_Win (Input Close) n" m] lag that win(5) by (simp add: roc_def del: naive.simps)
  have sma: "naive M (seed_pct_change (Input Close) (seed_window Mean_Win Close n)) (map bar_sample bs) = sma_ratio M s"
    if "roll_mean M (bs_close s) = Some (Some m)" "div_epsilon \<le> \<bar>m\<bar>" "1 \<le> n"
    using seed_pct [OF close [OF that(3)], of "seed_window Mean_Win Close n" m] that win(1,5) by (simp add: sma_ratio_def del: naive.simps)
  have vol: "naive M (Binary Div_Op (Input Volume) (seed_window Mean_Win Volume n)) (map bar_sample bs) = volume_ratio M s"
    if "roll_mean M (bs_volume s) = Some (Some m)" "div_epsilon \<le> \<bar>m\<bar>" "1 \<le> n"
    using volume [OF that(3)] win(4) [OF that(3), of Mean_Win] win(6) [OF that(3)] that eps
    by (simp add: volume_ratio_def naive_Binary del: naive.simps)
  have stoch: "naive M (Binary Mul_Op (Binary Div_Op (Binary Sub_Op (Input Close) (seed_window Min_Win Low n))
        (Binary Sub_Op (seed_window Max_Win High n) (seed_window Min_Win Low n))) (Const 100)) (map bar_sample bs) = stoch_k M s"
    if "roll_max (bs_high s) = Some hi" "roll_min (bs_low s) = Some lo" "dec_sub (dm_arith M) hi lo = Some m" "div_epsilon \<le> \<bar>m\<bar>" "1 \<le> n"
  proof (cases "dec_sub (dm_arith M) (plain_field Close (last bs)) lo")
    case None
    with close [OF that(5)] win(2,3) [OF that(5)] win(5) [OF that(5)] that eps show ?thesis
      by (simp add: stoch_k_def naive_Binary naive_Const del: naive.simps plain_field.simps)
  next
    case (Some d)
    with close [OF that(5)] win(2,3) [OF that(5)] win(5) [OF that(5)] that eps show ?thesis
      by (cases "dec_div (dm_arith M) d m") (simp_all add: stoch_k_def naive_Binary naive_Const del: naive.simps plain_field.simps)
  qed
  show ?thesis using sma vol roc stoch
    by (intro conjI impI) (simp_all add: seed_tags seed_window_def Let_def del: naive.simps)
qed

theorem seeds_match_the_catalogue_witness:
  "\<exists>s v. run_opt (bars_observe lab_math) (bars_new 2) [flat_bar 100, flat_bar 110] = Some s \<and>
     seed_value lab_math ''return_1'' [flat_bar 100, flat_bar 110] = Some v \<and> roc lab_math s = Some v"
proof -
  have "\<exists>s v. run_opt (bars_observe lab_math) (bars_new 2) [flat_bar 100, flat_bar 110] = Some s \<and> roc lab_math s = Some v \<and>
      roll_first (bs_close s) = Some 100"
    by (simp add: bars_observe_def flat_bar_def typical_price_def bars_new_def roll_new_def roll_push_def
        roc_def roll_first_def roll_last_def get_opt_def last_opt_def pct_change_def)
  then obtain s v where s: "run_opt (bars_observe lab_math) (bars_new 2) [flat_bar 100, flat_bar 110] = Some s"
      and v: "roc lab_math s = Some v" "roll_first (bs_close s) = Some 100" by blast
  from seeds_match_the_catalogue [OF s, of 100] v(2) have "seed_value lab_math ''return_1'' [flat_bar 100, flat_bar 110] = roc lab_math s"
    by (simp add: div_epsilon_def)
  with s v(1) show ?thesis by auto
qed

text \<open>On a window without a range the seeded stochastic answers 0 where the kernel answers 50.\<close>

theorem flat_window_diverges:
  assumes "run_opt (bars_observe lab_math) (bars_new 14) (replicate 14 (flat_bar 10)) = Some s"
  shows "stoch_k lab_math s = Some (Some 50) \<and> seed_value lab_math ''stoch_k_14'' (replicate 14 (flat_bar 10)) = Some (Some 0)"
proof -
  let ?bs = "replicate 14 (flat_bar 10)"
  note windows = kernel_windows [OF assms] and win = seed_windows [OF assms]
  have all: "lastn 14 (map (plain_field f) ?bs) = replicate 14 (plain_field f (flat_bar 10))" for f by simp
  have ext: "roll_max (bs_high s) = Some 10" "roll_min (bs_low s) = Some 10" "roll_last (bs_close s) = Some 10"
    by (simp_all add: windows all roll_max_def roll_min_def roll_last_def last_opt_def flat_bar_def)
  then have "stoch_k lab_math s = Some (Some 50)" by (simp add: stoch_k_def)
  moreover have "naive lab_math (Input Close) (map bar_sample ?bs) = Some (Some 10)"
    using last_field [of Close ?bs lab_math] by (simp add: flat_bar_def del: naive.simps)
  then have "seed_value lab_math ''stoch_k_14'' ?bs = Some (Some 0)"
    using win(2) [of Max_Win] win(3) [of Min_Win] ext
    by (simp add: seed_tags Let_def naive_Binary naive_Const div_epsilon_def del: naive.simps)
  ultimately show ?thesis by blast
qed

end
