(* ===== verification/Ordered_Map.thy ===== *)
theory Ordered_Map imports Prelude begin

text \<open>
  The standard library's ordered collections as the source uses them: a \<open>BTreeSet\<close> is the ascending
  list of its elements, a \<open>BTreeMap\<close> the list of its entries, ascending by key, and collecting into a
  map lets the last value of a key win. Then a counting loop over machine integers, \<open>while t < stop\<close>,
  that the gap, fill and download planners share.
\<close>

section \<open>Ordered sets and maps\<close>

definition btree_set :: "'a::linorder list \<Rightarrow> 'a list" where
  "btree_set xs = sort (remdups xs)"

fun ord_insert :: "'k::linorder \<Rightarrow> 'v \<Rightarrow> ('k \<times> 'v) list \<Rightarrow> ('k \<times> 'v) list" where
  "ord_insert k v [] = [(k, v)]"
| "ord_insert k v ((k', v') # m) =
     (if k < k' then (k, v) # (k', v') # m else if k = k' then (k, v) # m else (k', v') # ord_insert k v m)"

definition btree_map :: "('k::linorder \<times> 'v) list \<Rightarrow> ('k \<times> 'v) list" where
  "btree_map kvs = foldl (\<lambda>m kv. ord_insert (fst kv) (snd kv) m) [] kvs"

definition ordered_map :: "('k::linorder \<times> 'v) list \<Rightarrow> bool" where
  "ordered_map m \<longleftrightarrow> sorted_wrt (<) (map fst m)"

lemma btree_set_set [simp]: "set (btree_set xs) = set xs"
  by (simp add: btree_set_def)

lemma btree_set_ascending: "sorted_wrt (<) (btree_set xs)"
  by (simp add: btree_set_def strict_sorted_iff)

lemma ascending_unique:
  fixes xs ys :: "'a::linorder list"
  shows "sorted_wrt (<) xs \<Longrightarrow> sorted_wrt (<) ys \<Longrightarrow> set xs = set ys \<Longrightarrow> xs = ys"
  by (rule sorted_distinct_set_unique) (simp_all add: strict_sorted_iff)

lemma ascending_last: "sorted_wrt (<) (xs :: 'a::linorder list) \<Longrightarrow> a \<in> set xs \<Longrightarrow> a \<le> last xs"
  by (induction xs rule: rev_induct) (auto simp: sorted_wrt_append intro: less_imp_le)

lemma last_filter_greatest:
  fixes xs :: "'a::linorder list"
  assumes "sorted_wrt (<) xs"
  shows "last_opt (filter Q xs) = Some u \<longleftrightarrow> u \<in> set xs \<and> Q u \<and> (\<forall>w \<in> set xs. Q w \<longrightarrow> w \<le> u)"
  using assms
proof (induction xs rule: rev_induct)
  case (snoc x xs)
  then show ?case by (auto simp: sorted_wrt_append last_opt_def split: if_splits dest: less_imp_le leD)
qed simp

lemma last_opt_None [simp]: "last_opt xs = None \<longleftrightarrow> xs = []"
  by (simp add: last_opt_def)

lemma btree_set_length [simp]: "length (btree_set xs) = card (set xs)"
  by (simp add: btree_set_def length_remdups_card_conv)

lemma ord_insert_keys: "set (map fst (ord_insert k v m)) = insert k (set (map fst m))"
  by (induction k v m rule: ord_insert.induct) auto

lemma ord_insert_ordered [simp]: "ordered_map m \<Longrightarrow> ordered_map (ord_insert k v m)"
proof (induction k v m rule: ord_insert.induct)
  case (2 k v k' v' m)
  then show ?case
    using ord_insert_keys [of k v m] by (auto simp: ordered_map_def)
qed (simp add: ordered_map_def)

lemma map_of_ord_insert [simp]: "ordered_map m \<Longrightarrow> map_of (ord_insert k v m) = (map_of m)(k \<mapsto> v)"
proof (induction k v m rule: ord_insert.induct)
  case (2 k v k' v' m)
  then show ?case by (auto simp: ordered_map_def fun_eq_iff)
qed simp

lemma btree_map_snoc: "btree_map (kvs @ [kv]) = ord_insert (fst kv) (snd kv) (btree_map kvs)"
  by (simp add: btree_map_def)

lemma btree_map_ordered [simp]: "ordered_map (btree_map kvs)"
proof (induction kvs rule: rev_induct)
  case Nil
  then show ?case by (simp add: btree_map_def ordered_map_def)
qed (simp add: btree_map_snoc)

lemma map_of_btree_map [simp]: "map_of (btree_map kvs) = map_of (rev kvs)"
proof (induction kvs rule: rev_induct)
  case Nil
  then show ?case by (simp add: btree_map_def)
qed (auto simp: btree_map_snoc)

lemma ordered_map_distinct: "ordered_map m \<Longrightarrow> distinct (map fst m)"
  by (simp add: ordered_map_def strict_sorted_iff)

lemma btree_map_keys [simp]: "fst ` set (btree_map kvs) = fst ` set kvs"
  using dom_map_of_conv_image_fst [of "btree_map kvs"] dom_map_of_conv_image_fst [of "rev kvs"] by simp

lemma btree_map_in: "(k, v) \<in> set (btree_map kvs) \<longleftrightarrow> map_of (rev kvs) k = Some v"
  using map_of_eq_Some_iff [OF ordered_map_distinct [OF btree_map_ordered], of kvs k v] by simp

lemma ordered_map_unique:
  assumes "ordered_map m" "ordered_map n" "map_of m = map_of n"
  shows "m = n"
proof -
  have rebuild: "ms = map (\<lambda>k. (k, the (map_of ms k))) (map fst ms)" if "ordered_map ms" for ms :: "('a \<times> 'b) list"
  proof -
    have "map ((\<lambda>k. (k, the (map_of ms k))) \<circ> fst) ms = ms"
      using ordered_map_distinct [OF that] by (intro map_idI) auto
    then show ?thesis by simp
  qed
  have "fst ` set m = fst ` set n"
    using assms(3) dom_map_of_conv_image_fst [of m] dom_map_of_conv_image_fst [of n] by simp
  then have "map fst m = map fst n"
    using assms(1,2) by (intro ascending_unique) (simp_all add: ordered_map_def)
  then show ?thesis
    using rebuild [OF assms(1)] rebuild [OF assms(2)] assms(3) by simp
qed

section \<open>Neighbours\<close>

definition neighbours :: "'a list \<Rightarrow> ('a \<times> 'a) list" where
  "neighbours xs = zip xs (tl xs)"

lemma neighbours_simps [simp]:
  "neighbours [] = []" "neighbours [x] = []" "neighbours (x # y # xs) = (x, y) # neighbours (y # xs)"
  by (simp_all add: neighbours_def)

lemma neighbours_ascending:
  fixes xs :: "'a::linorder list"
  shows "sorted_wrt (<) xs \<longleftrightarrow> (\<forall>(a, b) \<in> set (neighbours xs). a < b)"
proof (induction xs rule: induct_list012)
  case (3 x y zs)
  then show ?case by (auto simp: less_trans)
qed simp_all

lemma ascending_neighbours_gap:
  fixes xs :: "'a::linorder list"
  assumes "sorted_wrt (<) xs"
  shows "(a, b) \<in> set (neighbours xs) \<longleftrightarrow> a \<in> set xs \<and> b \<in> set xs \<and> a < b \<and> (\<forall>c \<in> set xs. \<not> (a < c \<and> c < b))"
  using assms
proof (induction xs rule: induct_list012)
  case (3 x y zs)
  then have tl: "sorted_wrt (<) (y # zs)" and above: "\<forall>c \<in> set (y # zs). x < c" by auto
  note IH = "3.IH"(2) [OF tl]
  have y: "\<forall>c \<in> set zs. y < c" using tl by simp
  show ?case
  proof
    assume "(a, b) \<in> set (neighbours (x # y # zs))"
    then consider "a = x" "b = y" | "(a, b) \<in> set (neighbours (y # zs))" by auto
    then show "a \<in> set (x # y # zs) \<and> b \<in> set (x # y # zs) \<and> a < b \<and> (\<forall>c \<in> set (x # y # zs). \<not> (a < c \<and> c < b))"
    proof cases
      case 1
      then show ?thesis using above y by auto
    next
      case 2
      then show ?thesis using IH above by (auto dest: less_asym)
    qed
  next
    assume r: "a \<in> set (x # y # zs) \<and> b \<in> set (x # y # zs) \<and> a < b \<and> (\<forall>c \<in> set (x # y # zs). \<not> (a < c \<and> c < b))"
    show "(a, b) \<in> set (neighbours (x # y # zs))"
    proof (cases "a = x")
      case True
      then have "b = y" using r above y by (metis list.set_intros less_irrefl set_ConsD)
      then show ?thesis using True by simp
    next
      case False
      then have "a \<in> set (y # zs)" using r by simp
      moreover have "b \<noteq> x" using r above calculation by (metis less_asym)
      ultimately show ?thesis using r IH by simp
    qed
  qed
qed auto

section \<open>Counting loops\<close>

text \<open>
  \<open>while t < stop { body; t += step }\<close>. The addition wraps, so with \<open>stop\<close> close to the largest
  integer the loop may never end: that is the value \<open>None\<close>.
\<close>

partial_function (option) slot_loop :: "(i64 \<Rightarrow> 's \<Rightarrow> 's) \<Rightarrow> i64 \<Rightarrow> i64 \<Rightarrow> i64 \<Rightarrow> 's \<Rightarrow> 's option" where
  "slot_loop body step stop t s = (if t < stop then slot_loop body step stop (wrap_i64 (t + step)) (body t s) else Some s)"

definition slots_from :: "i64 \<Rightarrow> i64 \<Rightarrow> i64 \<Rightarrow> i64 list" where
  "slots_from step stop t = map (\<lambda>k. t + int k * step) [0..<nat ((stop - t + step - 1) div step)]"

lemma slots_from_empty: "stop \<le> t \<Longrightarrow> 0 < step \<Longrightarrow> slots_from step stop t = []"
  by (simp add: slots_from_def) (metis add.commute add_le_same_cancel1 diff_ge_0_iff_ge diff_le_0_iff_le div_pos_pos_trivial int_one_le_iff_zero_less linorder_not_le nonneg1_imp_zdiv_pos_iff not_less_iff_gr_or_eq pos_imp_zdiv_pos_iff zle_diff1_eq)

lemma slots_from_step:
  assumes "t < stop" "0 < step"
  shows "slots_from step stop t = t # slots_from step stop (t + step)"
proof -
  have "(stop - t + step - 1) div step = (stop - (t + step) + step - 1) div step + 1"
    using assms div_add_self2 [of step "stop - (t + step) + step - 1"] by (simp add: algebra_simps)
  moreover have "0 \<le> (stop - (t + step) + step - 1) div step"
    using assms by (simp add: pos_imp_zdiv_nonneg_iff)
  ultimately have "nat ((stop - t + step - 1) div step) = Suc (nat ((stop - (t + step) + step - 1) div step))"
    by linarith
  moreover have "map (\<lambda>k. t + int k * step) [0..<Suc n] = t # map (\<lambda>k. t + step + int k * step) [0..<n]" for n
    by (simp add: upt_conv_Cons map_Suc_upt [symmetric] algebra_simps del: upt_Suc)
  ultimately show ?thesis unfolding slots_from_def by (simp only: add.assoc)
qed

lemma slots_from_ascending: "0 < step \<Longrightarrow> sorted_wrt (<) (slots_from step stop t)"
  by (simp add: slots_from_def sorted_wrt_map sorted_wrt_upt)

lemma slots_from_mem:
  assumes "0 < step"
  shows "x \<in> set (slots_from step stop t) \<longleftrightarrow> t \<le> x \<and> x < stop \<and> (x - t) mod step = 0"
proof
  assume "x \<in> set (slots_from step stop t)"
  then obtain k where k: "x = t + int k * step" "k < nat ((stop - t + step - 1) div step)"
    by (auto simp only: slots_from_def set_map set_upt image_iff atLeastLessThan_iff)
  then have "int k + 1 \<le> (stop - t + step - 1) div step" by linarith
  then have "(int k + 1) * step \<le> (stop - t + step - 1) div step * step"
    using assms by (intro mult_right_mono) simp_all
  also have "\<dots> \<le> stop - t + step - 1"
    using div_mult_mod_eq [of "stop - t + step - 1" step] pos_mod_sign [OF assms, of "stop - t + step - 1"] by linarith
  finally show "t \<le> x \<and> x < stop \<and> (x - t) mod step = 0"
    using k(1) assms by (simp add: algebra_simps)
next
  assume x: "t \<le> x \<and> x < stop \<and> (x - t) mod step = 0"
  define k where "k = (x - t) div step"
  have k: "x = t + k * step" "0 \<le> k"
    using x assms div_mult_mod_eq [of "x - t" step] by (simp_all add: k_def pos_imp_zdiv_nonneg_iff)
  have "k + 1 \<le> (stop - t + step - 1) div step"
    using zdiv_mono1 [of "(k + 1) * step" "stop - t + step - 1" step] x k assms by (simp add: algebra_simps)
  then show "x \<in> set (slots_from step stop t)"
    unfolding slots_from_def set_map image_iff using k by (intro bexI [of _ "nat k"]) auto
qed

lemma slots_from_length: "length (slots_from step stop t) = nat ((stop - t + step - 1) div step)"
  by (simp add: slots_from_def)

lemma slots_from_whole:
  assumes "0 < step" "t \<le> stop" "(stop - t) mod step = 0"
  shows "length (slots_from step stop t) = nat ((stop - t) div step)"
proof -
  obtain m where "stop - t = m * step" using assms(3) by (metis mod_0_imp_dvd dvdE mult.commute)
  then have "(stop - t + step - 1) div step = (stop - t) div step"
    using assms(1) by (simp add: div_pos_pos_trivial [of "step - 1" step] flip: add_diff_eq)
  then show ?thesis by (simp add: slots_from_length)
qed

lemma slot_loop_visits:
  assumes "0 < step" "stop + step \<le> i64_max + 1" "i64_min \<le> t"
  shows "slot_loop body step stop t s = Some (fold body (slots_from step stop t) s)"
  using assms(3)
proof (induction "nat (stop - t)" arbitrary: t s rule: less_induct)
  case less
  show ?case
  proof (cases "t < stop")
    case True
    with less.prems assms have "wrap_i64 (t + step) = t + step"
      by (intro wrap_i64_id) (simp add: in_i64_def)
    then show ?thesis
      using less.hyps [of "t + step" "body t s"] True less.prems assms
      by (simp add: slot_loop.simps [of body step stop t] slots_from_step)
  next
    case False
    then show ?thesis
      using assms by (simp add: slot_loop.simps [of body step stop t] slots_from_empty)
  qed
qed

end
