(* ===== verification/Ingest_Series.thy ===== *)
theory Ingest_Series imports Ordered_Map begin

text \<open>
  Checks of a fixed-interval series (crate \<open>qe-ingest\<close>): gaps, duplicates and order (\<open>integrity.rs\<close>),
  coverage accounting (\<open>coverage.rs\<close>) and the leakage-safe forward fill (\<open>fill.rs\<close>). Timestamps are
  \<open>i64\<close>; their differences wrap as the code's do, and the facts assume the series spans less than the
  integer's range.
\<close>

section \<open>Integrity\<close>

record gap =
  gap_from_ms :: i64
  gap_to_ms :: i64
  gap_missing :: u64

definition gap_span_ms :: "gap \<Rightarrow> i64" where
  "gap_span_ms g = wrap_i64 (gap_to_ms g - gap_from_ms g)"

record series_integrity =
  si_gaps :: "gap list"
  si_duplicates :: "i64 list"
  si_out_of_order :: "i64 list"

definition si_is_monotonic :: "series_integrity \<Rightarrow> bool" where
  "si_is_monotonic s \<longleftrightarrow> si_duplicates s = [] \<and> si_out_of_order s = []"

definition si_is_clean :: "series_integrity \<Rightarrow> bool" where
  "si_is_clean s \<longleftrightarrow> si_gaps s = [] \<and> si_is_monotonic s"

text \<open>The loop \<open>if !seen.insert(t) { duplicates.push(t) }\<close>.\<close>

fun repeats :: "i64 list \<Rightarrow> i64 list \<Rightarrow> i64 list" where
  "repeats seen [] = []"
| "repeats seen (t # ts) = (if t \<in> set seen then t # repeats seen ts else repeats (t # seen) ts)"

definition gap_between :: "i64 \<Rightarrow> i64 \<times> i64 \<Rightarrow> gap option" where
  "gap_between interval_ms w =
     (let delta = wrap_i64 (snd w - fst w)
      in if delta > interval_ms
         then Some \<lparr>gap_from_ms = fst w, gap_to_ms = snd w,
                    gap_missing = as_u64 (max 0 (wrap_i64 (tdiv delta interval_ms - 1)))\<rparr>
         else None)"

definition check_series :: "i64 list \<Rightarrow> i64 \<Rightarrow> series_integrity" where
  "check_series timestamps interval_ms =
     (if timestamps = [] then \<lparr>si_gaps = [], si_duplicates = [], si_out_of_order = []\<rparr>
      else \<lparr>si_gaps = (if interval_ms > 0
                        then List.map_filter (gap_between interval_ms) (neighbours (btree_set timestamps)) else []),
            si_duplicates = repeats [] timestamps,
            si_out_of_order = map snd (filter (\<lambda>w. snd w < fst w) (neighbours timestamps))\<rparr>)"

section \<open>Coverage\<close>

record coverage =
  cov_first_ms :: "i64 option"
  cov_last_ms :: "i64 option"
  cov_present :: u64
  cov_expected :: u64
  cov_missing :: u64

definition coverage_of :: "i64 list \<Rightarrow> i64 \<Rightarrow> coverage" where
  "coverage_of timestamps interval_ms =
     (let st = btree_set timestamps;
          first = (case st of [] \<Rightarrow> None | t # _ \<Rightarrow> Some t);
          lst = last_opt st;
          present = length st;
          expected = (case (first, lst) of
              (Some f, Some l) \<Rightarrow>
                if interval_ms > 0 then as_u64 (wrap_i64 (tdiv (wrap_i64 (l - f)) interval_ms + 1)) else present
            | _ \<Rightarrow> present)
      in \<lparr>cov_first_ms = first, cov_last_ms = lst, cov_present = present, cov_expected = expected,
          cov_missing = expected - present\<rparr>)"

record short_coverage =
  sc_series :: string
  sc_starts_late :: bool
  sc_ends_early :: bool

definition flag_short_history :: "coverage \<Rightarrow> (string \<times> coverage) list \<Rightarrow> short_coverage list" where
  "flag_short_history base others =
     List.map_filter (\<lambda>(label, cov).
       let late = (case (cov_first_ms base, cov_first_ms cov) of (Some b, Some c) \<Rightarrow> c > b | _ \<Rightarrow> False);
           early = (case (cov_last_ms base, cov_last_ms cov) of (Some b, Some c) \<Rightarrow> c < b | _ \<Rightarrow> False)
       in if late \<or> early then Some \<lparr>sc_series = label, sc_starts_late = late, sc_ends_early = early\<rparr> else None) others"

section \<open>Forward fill\<close>

record hole =
  hole_from_ms :: i64
  hole_to_ms :: i64
  hole_missing :: u64

record filled_point =
  fp_slot_ms :: i64
  fp_from_ms :: i64

record fill_plan =
  fl_filled :: "filled_point list"
  fl_holes :: "hole list"

text \<open>The loop's variables: the plan so far, the last present sample, the start of the open hole.\<close>

record fill_state =
  fs_plan :: fill_plan
  fs_last_present :: "i64 option"
  fs_hole_start :: "i64 option"

definition make_hole :: "i64 \<Rightarrow> i64 \<Rightarrow> i64 \<Rightarrow> hole" where
  "make_hole from_ms to_ms interval_ms =
     \<lparr>hole_from_ms = from_ms, hole_to_ms = to_ms,
      hole_missing = as_u64 (max 0 (tdiv (wrap_i64 (to_ms - from_ms)) interval_ms))\<rparr>"

definition push_hole :: "i64 \<Rightarrow> i64 \<Rightarrow> fill_state \<Rightarrow> fill_state" where
  "push_hole interval_ms stop st =
     (case fs_hole_start st of
        None \<Rightarrow> st
      | Some h0 \<Rightarrow> st\<lparr>fs_plan := (fs_plan st)\<lparr>fl_holes := fl_holes (fs_plan st) @ [make_hole h0 stop interval_ms]\<rparr>,
                     fs_hole_start := None\<rparr>)"

definition fill_slot :: "i64 list \<Rightarrow> i64 \<Rightarrow> i64 \<Rightarrow> i64 \<Rightarrow> fill_state \<Rightarrow> fill_state" where
  "fill_slot present interval_ms max_gap_ms slot st =
     (if slot \<in> set present then (push_hole interval_ms slot st)\<lparr>fs_last_present := Some slot\<rparr>
      else case fs_last_present st of
        Some src \<Rightarrow>
          if wrap_i64 (slot - src) \<le> max_gap_ms
          then st\<lparr>fs_plan := (fs_plan st)\<lparr>fl_filled := fl_filled (fs_plan st) @ [\<lparr>fp_slot_ms = slot, fp_from_ms = src\<rparr>]\<rparr>\<rparr>
          else st\<lparr>fs_hole_start := (case fs_hole_start st of None \<Rightarrow> Some slot | h \<Rightarrow> h)\<rparr>
      | None \<Rightarrow> st\<lparr>fs_hole_start := (case fs_hole_start st of None \<Rightarrow> Some slot | h \<Rightarrow> h)\<rparr>)"

text \<open>\<open>None\<close> is the loop that does not end.\<close>

definition fill_start :: fill_state where
  "fill_start = \<lparr>fs_plan = \<lparr>fl_filled = [], fl_holes = []\<rparr>, fs_last_present = None, fs_hole_start = None\<rparr>"

definition plan_fill :: "i64 list \<Rightarrow> i64 \<Rightarrow> i64 \<Rightarrow> i64 \<Rightarrow> i64 \<Rightarrow> fill_plan option" where
  "plan_fill present interval_ms start_ms end_ms max_gap_ms =
     (if interval_ms \<le> 0 then Some (fs_plan fill_start)
      else map_option (\<lambda>st. fs_plan (push_hole interval_ms end_ms st))
             (slot_loop (fill_slot (btree_set present) interval_ms max_gap_ms) interval_ms end_ms start_ms fill_start))"

section \<open>What the checks find\<close>

lemma repeats_count:
  "count_list (repeats seen ts) t = (if t \<in> set seen then count_list ts t else count_list ts t - 1)"
  by (induction seen ts rule: repeats.induct) auto

lemma repeats_empty_iff: "repeats seen ts = [] \<longleftrightarrow> distinct ts \<and> set seen \<inter> set ts = {}"
  by (induction seen ts rule: repeats.induct) auto

lemma sorted_neighbours: "sorted (xs :: i64 list) \<longleftrightarrow> (\<forall>w \<in> set (neighbours xs). fst w \<le> snd w)"
  by (induction xs rule: induct_list012) auto

lemma monotonic_iff_ascending: "si_is_monotonic (check_series ts i) \<longleftrightarrow> sorted_wrt (<) ts"
proof -
  have "map snd (filter (\<lambda>w. snd w < fst w) (neighbours ts)) = [] \<longleftrightarrow> sorted ts"
    by (auto simp: sorted_neighbours filter_empty_conv)
  then show ?thesis
    by (auto simp: si_is_monotonic_def check_series_def repeats_empty_iff strict_sorted_iff)
qed

definition narrow :: "i64 list \<Rightarrow> bool" where
  "narrow ts \<longleftrightarrow> (\<forall>a \<in> set ts. \<forall>b \<in> set ts. b - a < i64_max)"

lemma narrow_diff: "narrow ts \<Longrightarrow> a \<in> set ts \<Longrightarrow> b \<in> set ts \<Longrightarrow> wrap_i64 (b - a) = b - a"
  unfolding narrow_def by (intro wrap_i64_id) (force simp: in_i64_def)

lemma div_int_le: "0 \<le> (x :: int) \<Longrightarrow> 0 < i \<Longrightarrow> x div i \<le> x"
  using int_div_le_self [of x i] by (cases "x = 0") auto

lemma gap_between_narrow:
  assumes "wrap_i64 (b - a) = b - a" "a < b" "0 < i" "b - a \<le> i64_max"
  shows "gap_between i (a, b) = (if b - a > i then Some \<lparr>gap_from_ms = a, gap_to_ms = b, gap_missing = nat ((b - a) div i - 1)\<rparr> else None)"
proof -
  have "0 \<le> (b - a) div i" "(b - a) div i \<le> b - a"
    using assms by (simp_all add: pos_imp_zdiv_nonneg_iff div_int_le)
  then show ?thesis
    using assms by (simp add: gap_between_def Let_def tdiv_pos wrap_i64_id in_i64_def as_u64_nonneg max_def)
qed

lemma narrow_subset: "narrow ts \<Longrightarrow> set us \<subseteq> set ts \<Longrightarrow> narrow us"
  unfolding narrow_def by blast

text \<open>Along an ascending series on one phase, what the gaps miss is what the span expects beyond what is there.\<close>

lemma gaps_account:
  assumes "sorted_wrt (<) (x # xs)" "0 < i" "narrow (x # xs)" "\<forall>t \<in> set xs. (t - x) mod i = 0"
  shows "int (sum_list (map gap_missing (List.map_filter (gap_between i) (neighbours (x # xs))))) =
      (last (x # xs) - x) div i + 1 - int (length (x # xs))"
  using assms
proof (induction xs arbitrary: x)
  case (Cons y ys)
  let ?missing = "\<lambda>zs. int (sum_list (map gap_missing (List.map_filter (gap_between i) (neighbours zs))))"
  have xy: "x < y" "(y - x) mod i = 0" using Cons.prems by auto
  then obtain m where m: "y - x = m * i" by (metis mult.commute mod_0_imp_dvd dvdE)
  have "(t - y) mod i = 0" if "t \<in> set ys" for t
  proof -
    have "(t - x) mod i = 0" using Cons.prems(4) that by simp
    then have "(t - y + m * i) mod i = 0" using m by (simp add: algebra_simps)
    then show ?thesis by simp
  qed
  then have IH: "?missing (y # ys) = (last (y # ys) - y) div i + 1 - int (length (y # ys))"
    using Cons.prems narrow_subset [OF Cons.prems(3), of "y # ys"] by (intro Cons.IH) auto
  have "0 < m" using m xy(1) Cons.prems(2) by (metis diff_gt_0_iff_gt zero_less_mult_pos2)
  have "wrap_i64 (y - x) = y - x" "y - x \<le> i64_max"
    using Cons.prems(3) narrow_diff [OF Cons.prems(3), of x y] by (simp_all add: narrow_def)
  then have one: "gap_between i (x, y) = (if y - x > i then Some \<lparr>gap_from_ms = x, gap_to_ms = y, gap_missing = nat ((y - x) div i - 1)\<rparr> else None)"
    using gap_between_narrow [of y x i] xy Cons.prems(2) by simp
  have big: "y - x > i \<longleftrightarrow> 1 < m" using m Cons.prems(2) by simp
  have "?missing (x # y # ys) = (m - 1) + ?missing (y # ys)"
    using \<open>0 < m\<close> Cons.prems(2) m by (auto simp: List.map_filter_simps one big)
  moreover have "(last (y # ys) - x) div i = (last (y # ys) - y) div i + m"
  proof -
    have "last (y # ys) - x = (last (y # ys) - y) + m * i" using m by linarith
    then show ?thesis using Cons.prems(2) by (simp only: div_mult_self3) simp
  qed
  ultimately show ?case using IH by simp
qed (simp add: List.map_filter_simps)

lemma gap_between_neighbours:
  assumes "sorted_wrt (<) ws" "narrow ws" "0 < i" "(a, b) \<in> set (neighbours ws)"
  shows "gap_between i (a, b) = (if b - a > i then Some \<lparr>gap_from_ms = a, gap_to_ms = b, gap_missing = nat ((b - a) div i - 1)\<rparr> else None)"
    and "wrap_i64 (b - a) = b - a"
proof -
  have ab: "a \<in> set ws" "b \<in> set ws" "a < b" using assms(1,4) by (simp_all add: ascending_neighbours_gap)
  show wrap: "wrap_i64 (b - a) = b - a" using ab assms(2) by (intro narrow_diff)
  have "b - a \<le> i64_max" using ab assms(2) by (auto simp: narrow_def less_imp_le)
  then show "gap_between i (a, b) = (if b - a > i then Some \<lparr>gap_from_ms = a, gap_to_ms = b, gap_missing = nat ((b - a) div i - 1)\<rparr> else None)"
    using wrap ab(3) assms(3) by (intro gap_between_narrow)
qed

definition one_phase :: "i64 list \<Rightarrow> i64 \<Rightarrow> bool" where
  "one_phase ts i \<longleftrightarrow> (\<forall>a \<in> set ts. \<forall>b \<in> set ts. (b - a) mod i = 0)"

text \<open>
  On a series of one phase the three reports agree: coverage expects exactly what is present plus
  what is missing, and what is missing is what the gaps skip; a gap is reported between two present
  timestamps just when they are neighbours further than one interval apart; a timestamp is listed as a
  duplicate once per extra appearance, and the series is monotonic just when it ascends strictly.
\<close>

theorem series_accounting:
  assumes "ts \<noteq> []" "0 < i" "narrow ts" "one_phase ts i"
  shows "cov_expected (coverage_of ts i) = cov_present (coverage_of ts i) + cov_missing (coverage_of ts i) \<and>
     cov_missing (coverage_of ts i) = sum_list (map gap_missing (si_gaps (check_series ts i))) \<and>
     cov_present (coverage_of ts i) = card (set ts) \<and>
     (\<forall>a b. (\<exists>n. \<lparr>gap_from_ms = a, gap_to_ms = b, gap_missing = n\<rparr> \<in> set (si_gaps (check_series ts i))) \<longleftrightarrow>
        a \<in> set ts \<and> b \<in> set ts \<and> i < b - a \<and> (\<forall>c \<in> set ts. c \<le> a \<or> b \<le> c)) \<and>
     (\<forall>t. count_list (si_duplicates (check_series ts i)) t = count_list ts t - 1) \<and>
     (si_is_monotonic (check_series ts i) \<longleftrightarrow> sorted_wrt (<) ts)"
proof -
  obtain x xs where st: "btree_set ts = x # xs"
    using assms(1) by (metis btree_set_set list.exhaust set_empty)
  have asc: "sorted_wrt (<) (x # xs)" and mem: "set (x # xs) = set ts"
    using btree_set_ascending [of ts] btree_set_set [of ts] unfolding st by simp_all
  have nar: "narrow (x # xs)" using assms(3) mem by (simp add: narrow_def)
  have phase: "\<forall>t \<in> set xs. (t - x) mod i = 0" using assms(4) mem unfolding one_phase_def by auto
  let ?l = "last (x # xs)"
  have l: "0 \<le> ?l - x" "?l - x < i64_max"
    using ascending_last [OF asc, of x] nar last_in_set [of "x # xs"] unfolding narrow_def by (auto simp del: last.simps)
  then have span: "0 \<le> (?l - x) div i" "(?l - x) div i < i64_max"
    using div_int_le [OF l(1) assms(2)] assms(2) by (simp_all add: pos_imp_zdiv_nonneg_iff)
  have cov: "cov_present (coverage_of ts i) = length (x # xs)"
    "cov_expected (coverage_of ts i) = nat ((?l - x) div i + 1)"
    "cov_missing (coverage_of ts i) = nat ((?l - x) div i + 1) - length (x # xs)"
    using l span assms(2) unfolding coverage_of_def st
    by (simp_all add: Let_def last_opt_def tdiv_pos wrap_i64_id in_i64_def as_u64_nonneg del: last.simps)
  let ?gaps = "List.map_filter (gap_between i) (neighbours (x # xs))"
  have gaps: "si_gaps (check_series ts i) = ?gaps" using assms(1,2) by (simp add: check_series_def st)
  have total: "int (sum_list (map gap_missing ?gaps)) = (?l - x) div i + 1 - int (length (x # xs))"
    using asc assms(2) nar phase by (rule gaps_account)
  have gap: "(\<exists>n. \<lparr>gap_from_ms = a, gap_to_ms = b, gap_missing = n\<rparr> \<in> set ?gaps) \<longleftrightarrow>
      a \<in> set ts \<and> b \<in> set ts \<and> i < b - a \<and> (\<forall>c \<in> set ts. c \<le> a \<or> b \<le> c)" for a b
  proof -
    note between = gap_between_neighbours [OF asc nar assms(2)]
    have "(\<exists>n. \<lparr>gap_from_ms = a, gap_to_ms = b, gap_missing = n\<rparr> \<in> set ?gaps) \<longleftrightarrow> (a, b) \<in> set (neighbours (x # xs)) \<and> i < b - a"
    proof
      assume "\<exists>n. \<lparr>gap_from_ms = a, gap_to_ms = b, gap_missing = n\<rparr> \<in> set ?gaps"
      then obtain n c d where "(c, d) \<in> set (neighbours (x # xs))" "gap_between i (c, d) = Some \<lparr>gap_from_ms = a, gap_to_ms = b, gap_missing = n\<rparr>"
        by (auto simp: List.map_filter_def)
      then show "(a, b) \<in> set (neighbours (x # xs)) \<and> i < b - a" using between by (auto split: if_splits)
    next
      assume "(a, b) \<in> set (neighbours (x # xs)) \<and> i < b - a"
      then have "(a, b) \<in> set (neighbours (x # xs))"
        "gap_between i (a, b) = Some \<lparr>gap_from_ms = a, gap_to_ms = b, gap_missing = nat ((b - a) div i - 1)\<rparr>"
        using between by auto
      then show "\<exists>n. \<lparr>gap_from_ms = a, gap_to_ms = b, gap_missing = n\<rparr> \<in> set ?gaps"
        by (intro exI) (force simp: List.map_filter_def)
    qed
    then show ?thesis
      using assms(2) unfolding ascending_neighbours_gap [OF asc] mem by (auto simp: not_less)
  qed
  have "cov_missing (coverage_of ts i) = sum_list (map gap_missing ?gaps)" using cov(3) total span by linarith
  moreover have "cov_expected (coverage_of ts i) = cov_present (coverage_of ts i) + cov_missing (coverage_of ts i)"
    unfolding cov using total span by linarith
  moreover have "cov_present (coverage_of ts i) = card (set ts)" using btree_set_length [of ts] by (simp add: cov st)
  moreover have "count_list (si_duplicates (check_series ts i)) t = count_list ts t - 1" for t
    using assms(1) by (simp add: check_series_def repeats_count)
  ultimately show ?thesis using gap monotonic_iff_ascending unfolding gaps by blast
qed

theorem series_accounting_witness:
  "cov_missing (coverage_of [0, 5, 20, 5] 5) = 2 \<and> sum_list (map gap_missing (si_gaps (check_series [0, 5, 20, 5] 5))) = 2"
proof -
  have "narrow [0, 5, 20, 5]" "one_phase [0, 5, 20, 5] 5" by (simp_all add: narrow_def one_phase_def)
  then have "cov_missing (coverage_of [0, 5, 20, 5] 5) = sum_list (map gap_missing (si_gaps (check_series [0, 5, 20, 5] 5)))"
    using series_accounting [of "[0, 5, 20, 5]" 5] by simp
  moreover have "cov_missing (coverage_of [0, 5, 20, 5] 5) = 2"
    by (simp add: coverage_of_def btree_set_def last_opt_def Let_def tdiv_def wrap_i64_def as_u64_def)
  ultimately show ?thesis by simp
qed

section \<open>What the fill leaves out\<close>

definition carried_from :: "i64 set \<Rightarrow> i64 list \<Rightarrow> i64 \<Rightarrow> i64 option" where
  "carried_from P slots t = last_opt (filter (\<lambda>u. u \<in> P \<and> u < t) slots)"

definition unfillable :: "i64 set \<Rightarrow> i64 \<Rightarrow> i64 list \<Rightarrow> i64 \<Rightarrow> bool" where
  "unfillable P gap slots t \<longleftrightarrow> t \<notin> P \<and> (\<forall>u. carried_from P slots t = Some u \<longrightarrow> \<not> t - u \<le> gap)"

definition in_hole :: "hole \<Rightarrow> i64 \<Rightarrow> bool" where
  "in_hole h t \<longleftrightarrow> hole_from_ms h \<le> t \<and> t < hole_to_ms h"

text \<open>The loop invariant over the slots visited so far.\<close>

definition fill_inv :: "i64 set \<Rightarrow> i64 \<Rightarrow> i64 \<Rightarrow> i64 list \<Rightarrow> fill_state \<Rightarrow> bool" where
  "fill_inv P i gap xs st \<longleftrightarrow>
     fs_last_present st = last_opt (filter (\<lambda>u. u \<in> P) xs) \<and>
     set (fl_filled (fs_plan st)) = {\<lparr>fp_slot_ms = t, fp_from_ms = u\<rparr> | t u.
        t \<in> set xs \<and> t \<notin> P \<and> carried_from P xs t = Some u \<and> t - u \<le> gap} \<and>
     sorted_wrt (<) (map fp_slot_ms (fl_filled (fs_plan st))) \<and>
     (\<forall>t \<in> set xs. unfillable P gap xs t \<longleftrightarrow>
        (\<exists>h \<in> set (fl_holes (fs_plan st)). in_hole h t) \<or> (\<exists>h0. fs_hole_start st = Some h0 \<and> h0 \<le> t)) \<and>
     (\<forall>h0. fs_hole_start st = Some h0 \<longrightarrow> h0 \<in> set xs \<and> (\<forall>u \<in> set xs. h0 \<le> u \<longrightarrow> u \<notin> P) \<and>
        (\<forall>h \<in> set (fl_holes (fs_plan st)). hole_to_ms h < h0)) \<and>
     (\<forall>h \<in> set (fl_holes (fs_plan st)). hole_from_ms h \<in> set xs \<and> hole_to_ms h \<in> set xs \<and> hole_from_ms h < hole_to_ms h \<and>
        hole_missing h = nat ((hole_to_ms h - hole_from_ms h) div i)) \<and>
     sorted_wrt (\<lambda>h h'. hole_to_ms h < hole_from_ms h') (fl_holes (fs_plan st))"

lemma carried_snoc: "\<forall>u \<in> set xs. u < x \<Longrightarrow> t \<in> set xs \<Longrightarrow> carried_from P (xs @ [x]) t = carried_from P xs t"
  by (auto simp: carried_from_def dest: less_asym)

lemma carried_new: "\<forall>u \<in> set xs. u < x \<Longrightarrow> carried_from P (xs @ [x]) x = last_opt (filter (\<lambda>u. u \<in> P) xs)"
  by (auto simp: carried_from_def intro!: arg_cong [where f = last_opt] filter_cong)

lemma unfillable_snoc: "\<forall>u \<in> set xs. u < x \<Longrightarrow> t \<in> set xs \<Longrightarrow> unfillable P gap (xs @ [x]) t = unfillable P gap xs t"
  by (simp add: unfillable_def carried_snoc)

lemma unfillable_new: "\<forall>u \<in> set xs. u < x \<Longrightarrow> unfillable P gap (xs @ [x]) x \<longleftrightarrow>
    x \<notin> P \<and> (\<forall>u. last_opt (filter (\<lambda>u. u \<in> P) xs) = Some u \<longrightarrow> \<not> x - u \<le> gap)"
  by (simp add: unfillable_def carried_new)

lemma filled_snoc:
  assumes "\<forall>u \<in> set xs. u < x"
  shows "{\<lparr>fp_slot_ms = t, fp_from_ms = u\<rparr> | t u. t \<in> set (xs @ [x]) \<and> t \<notin> P \<and> carried_from P (xs @ [x]) t = Some u \<and> t - u \<le> gap} =
     {\<lparr>fp_slot_ms = t, fp_from_ms = u\<rparr> | t u. t \<in> set xs \<and> t \<notin> P \<and> carried_from P xs t = Some u \<and> t - u \<le> gap} \<union>
     {\<lparr>fp_slot_ms = x, fp_from_ms = u\<rparr> | u. x \<notin> P \<and> last_opt (filter (\<lambda>u. u \<in> P) xs) = Some u \<and> x - u \<le> gap}"
  using carried_snoc [OF assms] carried_new [OF assms] by auto

lemma make_hole_narrow:
  assumes "a < b" "b - a \<le> i64_max" "0 < i"
  shows "make_hole a b i = \<lparr>hole_from_ms = a, hole_to_ms = b, hole_missing = nat ((b - a) div i)\<rparr>"
proof -
  have "0 \<le> (b - a) div i" "(b - a) div i \<le> b - a"
    using assms by (simp_all add: pos_imp_zdiv_nonneg_iff div_int_le)
  then show ?thesis
    using assms by (simp add: make_hole_def tdiv_pos wrap_i64_id in_i64_def as_u64_nonneg)
qed

lemma fill_inv_start: "fill_inv P i gap [] fill_start"
  by (simp add: fill_inv_def fill_start_def)

lemma fill_inv_step:
  assumes inv: "fill_inv (set P) i gap xs st" and new: "\<forall>u \<in> set xs. u < x" "\<forall>u \<in> set xs. x - u \<le> i64_max" and i: "0 < i"
  shows "fill_inv (set P) i gap (xs @ [x]) (fill_slot P i gap x st)"
proof -
  have past: "\<not> in_hole h x" if "h \<in> set (fl_holes (fs_plan st))" for h
  proof -
    have "hole_to_ms h \<in> set xs" using that inv by (simp add: fill_inv_def)
    then show ?thesis using new(1) by (auto simp: in_hole_def not_less intro: less_imp_le)
  qed
  show ?thesis
  proof (cases "x \<in> set P")
  case True
  show ?thesis
  proof (cases "fs_hole_start st")
    case None
    with True inv new(1) show ?thesis
      unfolding fill_inv_def filled_snoc [OF new(1)]
      by (auto simp: fill_slot_def push_hole_def unfillable_snoc unfillable_new past)
  next
    case (Some h0)
    then have "h0 \<in> set xs" using inv by (simp add: fill_inv_def)
    with new have h: "make_hole h0 x i = \<lparr>hole_from_ms = h0, hole_to_ms = x, hole_missing = nat ((x - h0) div i)\<rparr>" "h0 < x"
      using make_hole_narrow [of h0 x i] i by auto
    show ?thesis
      using Some True inv new(1) h(2) unfolding fill_inv_def filled_snoc [OF new(1)]
      by (auto simp: fill_slot_def push_hole_def unfillable_snoc unfillable_new past h(1) sorted_wrt_append) (auto simp: in_hole_def)
  qed
next
    case absent: False
    show ?thesis
    proof (cases "\<exists>src. fs_last_present st = Some src \<and> x - src \<le> gap")
      case True
      then obtain src where src: "fs_last_present st = Some src" "x - src \<le> gap" by blast
      then have mem: "src \<in> set xs" and lp: "last_opt (filter (\<lambda>u. u \<in> set P) xs) = Some src"
        using inv by (auto simp: fill_inv_def last_opt_def split: if_splits dest: last_in_set)
      have wrap: "wrap_i64 (x - src) = x - src"
        using new mem by (intro wrap_i64_id) (force simp: in_i64_def)
      have None: "fs_hole_start st = None"
      proof (rule ccontr)
        assume "fs_hole_start st \<noteq> None"
        then obtain h0 where h0: "fs_hole_start st = Some h0" by blast
        then have "h0 \<in> set xs" "\<forall>u \<in> set xs. h0 \<le> u \<longrightarrow> u \<notin> set P" "unfillable (set P) gap xs h0"
          using inv by (auto simp: fill_inv_def)
        moreover have "carried_from (set P) xs h0 = last_opt (filter (\<lambda>u. u \<in> set P) xs)"
          using calculation(2) by (auto simp: carried_from_def not_le intro!: arg_cong [where f = last_opt] filter_cong)
        ultimately have "\<not> h0 - src \<le> gap" "h0 < x" using lp new(1) by (auto simp: unfillable_def)
        with src(2) show False by simp
      qed
      show ?thesis
        using absent src wrap None inv new(1) mem lp unfolding fill_inv_def filled_snoc [OF new(1)]
        by (auto simp: fill_slot_def unfillable_snoc unfillable_new past sorted_wrt_append)
    next
      case False
      have step: "fill_slot P i gap x st = st\<lparr>fs_hole_start := (case fs_hole_start st of None \<Rightarrow> Some x | h \<Rightarrow> h)\<rparr>"
      proof (cases "fs_last_present st")
        case (Some src)
        then have "src \<in> set xs" using inv by (auto simp: fill_inv_def last_opt_def split: if_splits dest: last_in_set)
        then have "wrap_i64 (x - src) = x - src" using new by (intro wrap_i64_id) (force simp: in_i64_def)
        then show ?thesis using Some False absent by (simp add: fill_slot_def)
      qed (simp add: fill_slot_def absent)
      show ?thesis
        using False absent inv new(1) unfolding fill_inv_def filled_snoc [OF new(1)] step
        by (auto simp: unfillable_snoc unfillable_new past split: option.splits intro: less_imp_le)
    qed
  qed
qed

lemma fill_inv_fold:
  assumes "sorted_wrt (<) xs" "\<forall>a \<in> set xs. \<forall>b \<in> set xs. b - a \<le> i64_max" "0 < i"
  shows "fill_inv (set P) i gap xs (fold (fill_slot P i gap) xs fill_start)"
  using assms(1,2)
proof (induction xs rule: rev_induct)
  case (snoc x xs)
  then have "fill_inv (set P) i gap xs (fold (fill_slot P i gap) xs fill_start)"
    by (intro snoc.IH) (simp_all add: sorted_wrt_append)
  then show ?case
    using snoc.prems assms(3) by (simp add: fill_inv_step sorted_wrt_append)
qed (simp add: fill_inv_start)

text \<open>A grid whose last step stays within the integers.\<close>

definition grid_in_range :: "i64 \<Rightarrow> i64 \<Rightarrow> i64 \<Rightarrow> bool" where
  "grid_in_range i start stop \<longleftrightarrow> 0 < i \<and> in_i64 start \<and> stop + i \<le> i64_max + 1 \<and> stop - start \<le> i64_max"

definition fill_outcome :: "i64 list \<Rightarrow> i64 \<Rightarrow> i64 \<Rightarrow> i64 \<Rightarrow> i64 \<Rightarrow> fill_state" where
  "fill_outcome present i start stop gap = fold (fill_slot (btree_set present) i gap) (slots_from i stop start) fill_start"

lemma plan_fill_outcome:
  "grid_in_range i start stop \<Longrightarrow>
     plan_fill present i start stop gap = Some (fs_plan (push_hole i stop (fill_outcome present i start stop gap)))"
  by (simp add: grid_in_range_def plan_fill_def fill_outcome_def slot_loop_visits in_i64_def)

lemma fill_outcome_inv:
  assumes "grid_in_range i start stop"
  shows "fill_inv (set present) i gap (slots_from i stop start) (fill_outcome present i start stop gap)"
proof -
  have "fill_inv (set (btree_set present)) i gap (slots_from i stop start) (fill_outcome present i start stop gap)"
    unfolding fill_outcome_def using assms
    by (intro fill_inv_fold) (auto simp: grid_in_range_def slots_from_mem slots_from_ascending)
  then show ?thesis by simp
qed

lemma plan_fill_filled:
  assumes "grid_in_range i start stop" "plan_fill present i start stop gap = Some plan"
  shows "set (fl_filled plan) = {\<lparr>fp_slot_ms = t, fp_from_ms = u\<rparr> | t u. t \<in> set (slots_from i stop start) \<and>
      t \<notin> set present \<and> carried_from (set present) (slots_from i stop start) t = Some u \<and> t - u \<le> gap}"
    and "sorted_wrt (<) (map fp_slot_ms (fl_filled plan))"
proof -
  let ?st = "fill_outcome present i start stop gap"
  have "fl_filled plan = fl_filled (fs_plan ?st)"
    using assms(2) unfolding plan_fill_outcome [OF assms(1)] by (auto simp: push_hole_def split: option.splits)
  then show "set (fl_filled plan) = {\<lparr>fp_slot_ms = t, fp_from_ms = u\<rparr> | t u. t \<in> set (slots_from i stop start) \<and>
      t \<notin> set present \<and> carried_from (set present) (slots_from i stop start) t = Some u \<and> t - u \<le> gap}"
    and "sorted_wrt (<) (map fp_slot_ms (fl_filled plan))"
    using fill_outcome_inv [OF assms(1), of present gap] unfolding fill_inv_def by (simp_all only:)
qed

lemma carried_from_Some:
  "0 < i \<Longrightarrow> carried_from P (slots_from i stop start) t = Some u \<longleftrightarrow>
     u \<in> set (slots_from i stop start) \<and> u \<in> P \<and> u < t \<and> (\<forall>w \<in> set (slots_from i stop start). w \<in> P \<longrightarrow> w < t \<longrightarrow> w \<le> u)"
  unfolding carried_from_def last_filter_greatest [OF slots_from_ascending] by blast

lemma plan_fill_holes:
  assumes "grid_in_range i start stop" "plan_fill present i start stop gap = Some plan"
  shows "t \<in> set (slots_from i stop start) \<Longrightarrow>
      unfillable (set present) gap (slots_from i stop start) t \<longleftrightarrow> (\<exists>h \<in> set (fl_holes plan). in_hole h t)"
    and "sorted_wrt (\<lambda>h h'. hole_to_ms h < hole_from_ms h') (fl_holes plan)"
    and "h \<in> set (fl_holes plan) \<Longrightarrow> hole_from_ms h \<in> set (slots_from i stop start) \<and> hole_from_ms h < hole_to_ms h \<and>
      (hole_to_ms h \<in> set (slots_from i stop start) \<or> hole_to_ms h = stop) \<and> hole_missing h = nat ((hole_to_ms h - hole_from_ms h) div i)"
proof -
  let ?st = "fill_outcome present i start stop gap" and ?xs = "slots_from i stop start"
  note inv = fill_outcome_inv [OF assms(1), of present gap]
  have i: "0 < i" using assms(1) by (simp add: grid_in_range_def)
  have plan: "plan = fs_plan (push_hole i stop ?st)" using assms(2) unfolding plan_fill_outcome [OF assms(1)] by simp
  have below: "u < stop" if "u \<in> set ?xs" for u using that i by (simp add: slots_from_mem)
  have last_hole: "make_hole h0 stop i = \<lparr>hole_from_ms = h0, hole_to_ms = stop, hole_missing = nat ((stop - h0) div i)\<rparr>"
    and last_in: "h0 \<in> set ?xs" if "fs_hole_start ?st = Some h0" for h0
  proof -
    show "h0 \<in> set ?xs" using inv that by (simp add: fill_inv_def)
    then show "make_hole h0 stop i = \<lparr>hole_from_ms = h0, hole_to_ms = stop, hole_missing = nat ((stop - h0) div i)\<rparr>"
      using assms(1) i by (intro make_hole_narrow) (auto simp: slots_from_mem grid_in_range_def)
  qed
  have holes: "fl_holes plan = fl_holes (fs_plan ?st) @
      (case fs_hole_start ?st of None \<Rightarrow> [] | Some h0 \<Rightarrow> [\<lparr>hole_from_ms = h0, hole_to_ms = stop, hole_missing = nat ((stop - h0) div i)\<rparr>])"
    using last_hole by (auto simp: plan push_hole_def split: option.splits)
  have known: "h \<in> set (fl_holes (fs_plan ?st)) \<Longrightarrow> hole_from_ms h \<in> set ?xs \<and> hole_to_ms h \<in> set ?xs \<and>
      hole_from_ms h < hole_to_ms h \<and> hole_missing h = nat ((hole_to_ms h - hole_from_ms h) div i)" for h
    using inv unfolding fill_inv_def by blast
  have cover: "t \<in> set ?xs \<Longrightarrow> unfillable (set present) gap ?xs t \<longleftrightarrow>
      (\<exists>h \<in> set (fl_holes (fs_plan ?st)). in_hole h t) \<or> (\<exists>h0. fs_hole_start ?st = Some h0 \<and> h0 \<le> t)"
    using inv unfolding fill_inv_def by blast
  have chain: "sorted_wrt (\<lambda>h h'. hole_to_ms h < hole_from_ms h') (fl_holes (fs_plan ?st))"
    and before: "fs_hole_start ?st = Some h0 \<Longrightarrow> h \<in> set (fl_holes (fs_plan ?st)) \<Longrightarrow> hole_to_ms h < h0" for h h0
    using inv unfolding fill_inv_def by blast+
  show "t \<in> set ?xs \<Longrightarrow> unfillable (set present) gap ?xs t \<longleftrightarrow> (\<exists>h \<in> set (fl_holes plan). in_hole h t)"
    using below [of t] cover by (auto simp: holes in_hole_def split: option.splits)
  show "sorted_wrt (\<lambda>h h'. hole_to_ms h < hole_from_ms h') (fl_holes plan)"
    using chain before by (auto simp: holes sorted_wrt_append split: option.splits)
  show "h \<in> set (fl_holes plan) \<Longrightarrow> hole_from_ms h \<in> set ?xs \<and> hole_from_ms h < hole_to_ms h \<and>
      (hole_to_ms h \<in> set (slots_from i stop start) \<or> hole_to_ms h = stop) \<and> hole_missing h = nat ((hole_to_ms h - hole_from_ms h) div i)"
    using known [of h] below last_in by (auto simp: holes split: option.splits)
qed

lemma hole_counts_slots:
  assumes i: "0 < i" and f: "a \<in> set (slots_from i stop start)" and b: "b \<in> set (slots_from i stop start) \<or> b = stop"
    and "a < b" and whole: "(stop - start) mod i = 0"
  shows "nat ((b - a) div i) = card {t \<in> set (slots_from i stop start). a \<le> t \<and> t < b}"
proof -
  have a: "start \<le> a" "(a - start) mod i = 0" using f i by (simp_all add: slots_from_mem)
  have "(b - start) mod i = 0" "b \<le> stop" using b i whole by (auto simp: slots_from_mem)
  then have ph: "(b - a) mod i = 0" using mod_diff_cong [of "b - start" i 0 "a - start" 0] a(2) by simp
  have "{t \<in> set (slots_from i stop start). a \<le> t \<and> t < b} = set (slots_from i b a)"
  proof (rule set_eqI)
    fix t
    have "(t - start) mod i = (t - a) mod i"
      using mod_add_cong [of "t - a" i "t - a" "a - start" 0] a(2) by simp
    then show "t \<in> {t \<in> set (slots_from i stop start). a \<le> t \<and> t < b} \<longleftrightarrow> t \<in> set (slots_from i b a)"
      using i a(1) \<open>b \<le> stop\<close> by (auto simp: slots_from_mem)
  qed
  moreover have "distinct (slots_from i b a)" using slots_from_ascending [OF i] by (simp add: strict_sorted_iff)
  ultimately show ?thesis
    using slots_from_whole [OF i _ ph] assms(4) by (simp add: distinct_card)
qed

definition filled_at :: "fill_plan \<Rightarrow> i64 \<Rightarrow> i64 \<Rightarrow> bool" where
  "filled_at plan t u \<longleftrightarrow> \<lparr>fp_slot_ms = t, fp_from_ms = u\<rparr> \<in> set (fl_filled plan)"

definition holed_at :: "fill_plan \<Rightarrow> i64 \<Rightarrow> bool" where
  "holed_at plan t \<longleftrightarrow> (\<exists>h \<in> set (fl_holes plan). in_hole h t)"

text \<open>
  The fill plan never carries a value across more than the bound: a filled slot takes the nearest
  earlier present slot, at most \<open>gap\<close> away. Every slot of the grid is present, filled from one source,
  or in a hole, and only one of the three; the holes are disjoint and in order; and on a grid of whole
  intervals a hole's count is the number of slots it leaves empty.
\<close>

theorem fill_is_leakage_safe:
  assumes "grid_in_range i start stop"
  shows "\<exists>plan. plan_fill present i start stop gap = Some plan \<and>
     (\<forall>t u. filled_at plan t u \<longleftrightarrow>
        t \<in> set (slots_from i stop start) \<and> t \<notin> set present \<and> t - u \<le> gap \<and>
        u \<in> set (slots_from i stop start) \<and> u \<in> set present \<and> u < t \<and>
        (\<forall>w \<in> set (slots_from i stop start). w \<in> set present \<longrightarrow> w < t \<longrightarrow> w \<le> u)) \<and>
     (\<forall>t \<in> set (slots_from i stop start).
        (if t \<in> set present then (\<nexists>u. filled_at plan t u) \<and> \<not> holed_at plan t
         else (\<exists>!u. filled_at plan t u) \<noteq> holed_at plan t)) \<and>
     sorted_wrt (\<lambda>h h'. hole_to_ms h < hole_from_ms h') (fl_holes plan) \<and>
     ((stop - start) mod i = 0 \<longrightarrow> (\<forall>h \<in> set (fl_holes plan).
        hole_missing h = card {t \<in> set (slots_from i stop start). in_hole h t}))"
proof -
  let ?xs = "slots_from i stop start"
  have i: "0 < i" using assms by (simp add: grid_in_range_def)
  obtain plan where plan: "plan_fill present i start stop gap = Some plan"
    using plan_fill_outcome [OF assms] by blast
  note filled = plan_fill_filled [OF assms plan] and holes = plan_fill_holes [OF assms plan]
  have at: "filled_at plan t u \<longleftrightarrow> t \<in> set ?xs \<and> t \<notin> set present \<and> carried_from (set present) ?xs t = Some u \<and> t - u \<le> gap" for t u
    unfolding filled_at_def filled(1) by blast
  have partition: "if t \<in> set present then (\<nexists>u. filled_at plan t u) \<and> \<not> holed_at plan t
      else (\<exists>!u. filled_at plan t u) \<noteq> holed_at plan t" if t: "t \<in> set ?xs" for t
  proof -
    have "holed_at plan t \<longleftrightarrow> unfillable (set present) gap ?xs t" unfolding holed_at_def using holes(1) [OF t] by simp
    then show ?thesis using t unfolding at unfillable_def by (cases "carried_from (set present) ?xs t") auto
  qed
  have counts: "hole_missing h = card {t \<in> set ?xs. in_hole h t}" if "(stop - start) mod i = 0" "h \<in> set (fl_holes plan)" for h
    using hole_counts_slots [OF i _ _ _ that(1)] holes(3) [OF that(2)] unfolding in_hole_def by metis
  have sources: "filled_at plan t u \<longleftrightarrow> t \<in> set ?xs \<and> t \<notin> set present \<and> t - u \<le> gap \<and> u \<in> set ?xs \<and> u \<in> set present \<and> u < t \<and>
      (\<forall>w \<in> set ?xs. w \<in> set present \<longrightarrow> w < t \<longrightarrow> w \<le> u)" for t u
    unfolding at carried_from_Some [OF i] by blast
  show ?thesis
    by (intro exI [of _ plan] conjI allI ballI impI plan holes(2) sources partition counts)
qed

definition sparse_plan :: fill_plan where
  "sparse_plan = \<lparr>fl_filled = [\<lparr>fp_slot_ms = 5, fp_from_ms = 0\<rparr>],
     fl_holes = [\<lparr>hole_from_ms = 10, hole_to_ms = 20, hole_missing = 2\<rparr>]\<rparr>"

theorem fill_is_leakage_safe_witness:
  "plan_fill [0, 20] 5 0 25 5 = Some sparse_plan \<and> holed_at sparse_plan 15 \<and> \<not> filled_at sparse_plan 15 0"
proof -
  have "grid_in_range 5 0 25" by (simp add: grid_in_range_def in_i64_def)
  note safe = fill_is_leakage_safe [OF this, of "[0, 20]" 5]
  moreover have "plan_fill [0, 20] 5 0 25 5 = Some sparse_plan"
    by (simp add: plan_fill_def slot_loop.simps wrap_i64_def fill_slot_def btree_set_def fill_start_def push_hole_def
        make_hole_def tdiv_def as_u64_def sparse_plan_def)
  moreover have "holed_at sparse_plan 15" by (simp add: holed_at_def sparse_plan_def in_hole_def)
  ultimately show ?thesis by auto
qed

text \<open>
  Off the phase of the grid's end the last hole counts one slot too few: here the slots 0, 5 and 10 are
  all empty and the hole says two.
\<close>

lemma last_hole_undercounts:
  "plan_fill [] 5 0 12 60 = Some \<lparr>fl_filled = [], fl_holes = [\<lparr>hole_from_ms = 0, hole_to_ms = 12, hole_missing = 2\<rparr>]\<rparr> \<and>
   length (slots_from 5 12 0) = 3"
  by (simp add: plan_fill_def slot_loop.simps wrap_i64_def fill_slot_def btree_set_def fill_start_def push_hole_def
      make_hole_def tdiv_def as_u64_def slots_from_length)

end
