(* ===== verification/Ingest_Fuse.thy ===== *)
theory Ingest_Fuse imports Ingest_Series Money_Bars begin

text \<open>
  Fusion (crate \<open>qe-ingest\<close>): merging bar partitions (\<open>coalesce.rs\<close>), derived fields (\<open>derive.rs\<close>),
  the canonical series (\<open>canonical.rs\<close>), and the alignment of every series onto the base grid
  (\<open>fuse.rs\<close>), which takes its fill decisions from \<open>plan_fill\<close>. An answer of \<open>None\<close> is a panic: the
  decimal package's overflow, a missing map key, or the grid loop that does not end.
\<close>

section \<open>Canonical series\<close>

datatype canonical_series = Perp_Klines | Funding_Rates | Premium_Index | Spot_Klines | Futures_Metrics | Spread_To_Underlier

definition canonical_all :: "canonical_series list" where
  "canonical_all = [Perp_Klines, Funding_Rates, Premium_Index, Spot_Klines, Futures_Metrics, Spread_To_Underlier]"

fun canonical_str :: "canonical_series \<Rightarrow> string" where
  "canonical_str Perp_Klines = ''perp_klines''"
| "canonical_str Funding_Rates = ''funding''"
| "canonical_str Premium_Index = ''premium_index''"
| "canonical_str Spot_Klines = ''spot_klines''"
| "canonical_str Futures_Metrics = ''futures_metrics''"
| "canonical_str Spread_To_Underlier = ''spread_to_underlier''"

section \<open>Coalescing\<close>

definition coalesce_bars :: "bar list list \<Rightarrow> bar list" where
  "coalesce_bars partitions = map snd (btree_map (map (\<lambda>b. (bar_open_time b, b)) (concat partitions)))"

section \<open>Derived fields\<close>

definition derived_typical_price :: "dec_arith \<Rightarrow> bar \<Rightarrow> decimal option" where
  "derived_typical_price A b =
     Option.bind (dec_add A (price_get (bar_high b)) (price_get (bar_low b))) (\<lambda>hl.
     Option.bind (dec_add A hl (price_get (bar_close b))) (\<lambda>hlc. dec_div A hlc 3))"

fun vwap_sums :: "dec_arith \<Rightarrow> decimal \<Rightarrow> decimal \<Rightarrow> bar list \<Rightarrow> (decimal \<times> decimal) option" where
  "vwap_sums A num den [] = Some (num, den)"
| "vwap_sums A num den (b # bs) =
     (let v = qty_get (bar_volume b)
      in Option.bind (derived_typical_price A b) (\<lambda>t.
         Option.bind (dec_mul A t v) (\<lambda>tv.
         Option.bind (dec_add A num tv) (\<lambda>num'.
         Option.bind (dec_add A den v) (\<lambda>den'. vwap_sums A num' den' bs)))))"

text \<open>The outer \<open>None\<close> is the panic, the inner one the undefined average.\<close>

definition vwap :: "dec_arith \<Rightarrow> bar list \<Rightarrow> decimal option option" where
  "vwap A bars = Option.bind (vwap_sums A 0 0 bars)
     (\<lambda>(num, den). if den = 0 then Some None else map_option Some (dec_div A num den))"

record adjustment =
  adj_price_factor :: decimal
  adj_qty_factor :: decimal

definition adjustment_identity :: adjustment where
  "adjustment_identity = \<lparr>adj_price_factor = 1, adj_qty_factor = 1\<rparr>"

definition scale_price :: "dec_arith \<Rightarrow> adjustment \<Rightarrow> price \<Rightarrow> (domain_error, price) result option" where
  "scale_price A adj p = map_option price_new (dec_mul A (price_get p) (adj_price_factor adj))"

definition adjust_bar :: "dec_arith \<Rightarrow> bar \<Rightarrow> adjustment \<Rightarrow> (domain_error, bar) result option" where
  "adjust_bar A b adj =
     try_bind (scale_price A adj (bar_open b)) (\<lambda>opn.
     try_bind (scale_price A adj (bar_high b)) (\<lambda>high.
     try_bind (scale_price A adj (bar_low b)) (\<lambda>low.
     try_bind (scale_price A adj (bar_close b)) (\<lambda>close.
     try_bind (map_option qty_new (dec_mul A (qty_get (bar_volume b)) (adj_qty_factor adj))) (\<lambda>vol.
       Some (bar_new (bar_open_time b) (bar_resolution b) opn high low close vol (bar_trades b)))))))"

definition spread_to_underlier :: "dec_arith \<Rightarrow> price \<Rightarrow> price \<Rightarrow> decimal option" where
  "spread_to_underlier A perp_close spot_close = dec_sub A (price_get perp_close) (price_get spot_close)"

section \<open>The grid\<close>

record grid =
  grid_start :: timestamp
  grid_end :: timestamp
  grid_interval_ms :: i64

definition grid_from_window :: "time_interval \<Rightarrow> resolution \<Rightarrow> grid" where
  "grid_from_window window res =
     \<lparr>grid_start = ti_start window, grid_end = ti_end window, grid_interval_ms = int (resolution_minutes res) * 60000\<rparr>"

definition grid_slots :: "grid \<Rightarrow> i64 list option" where
  "grid_slots g =
     (if grid_interval_ms g \<le> 0 then Some []
      else slot_loop (\<lambda>t out. out @ [t]) (grid_interval_ms g) (grid_end g) (grid_start g) [])"

section \<open>Alignment\<close>

datatype cell = Cell_Value decimal i64 | Cell_Hole

fun cell_value :: "cell \<Rightarrow> decimal option" where
  "cell_value (Cell_Value v _) = Some v"
| "cell_value Cell_Hole = None"

type_synonym samples = "(i64 \<times> decimal) list"

definition align_slot :: "samples \<Rightarrow> (i64 \<times> i64) list \<Rightarrow> i64 \<Rightarrow> cell option" where
  "align_slot present_map filled slot =
     (case map_of present_map slot of
        Some v \<Rightarrow> Some (Cell_Value v slot)
      | None \<Rightarrow>
          (case map_of filled slot of
             Some from_ms \<Rightarrow> map_option (\<lambda>v. Cell_Value v from_ms) (map_of present_map from_ms)
           | None \<Rightarrow> Some Cell_Hole))"

definition align_onto_grid :: "samples \<Rightarrow> grid \<Rightarrow> i64 \<Rightarrow> cell list option" where
  "align_onto_grid present g max_gap_ms =
     (let present_map = btree_map present
      in Option.bind (plan_fill (map fst present_map) (grid_interval_ms g) (grid_start g) (grid_end g) max_gap_ms) (\<lambda>plan.
           let filled = btree_map (map (\<lambda>f. (fp_slot_ms f, fp_from_ms f)) (fl_filled plan))
           in Option.bind (grid_slots g) (map_opt (align_slot present_map filled))))"

section \<open>Fusion\<close>

record fused_column =
  fc_series :: canonical_series
  fc_cells :: "cell list"

record fused_corpus =
  fu_instrument :: instrument_id
  fu_resolution :: resolution
  fu_grid :: grid
  fu_slots :: "i64 list"
  fu_columns :: "fused_column list"

record fusion_input =
  fi_instrument :: instrument_id
  fi_window :: time_interval
  fi_resolution :: resolution
  fi_max_gap_ms :: i64
  fi_adjustment :: adjustment
  fi_perp_partitions :: "bar list list"
  fi_spot_partitions :: "bar list list"
  fi_funding :: samples
  fi_premium_index :: samples
  fi_futures_metrics :: samples

definition corpus_column :: "fused_corpus \<Rightarrow> canonical_series \<Rightarrow> fused_column option" where
  "corpus_column c s = find (\<lambda>col. fc_series col = s) (fu_columns c)"

definition adjusted_closes :: "dec_arith \<Rightarrow> bar list list \<Rightarrow> adjustment \<Rightarrow> (domain_error, samples) result option" where
  "adjusted_closes A partitions adj =
     try_map (\<lambda>b. try_bind (adjust_bar A b adj) (\<lambda>a. Some (Inr (bar_open_time a, price_get (bar_close a)))))
       (coalesce_bars partitions)"

definition subtract_cell :: "dec_arith \<Rightarrow> (cell \<times> cell) \<times> i64 \<Rightarrow> cell option" where
  "subtract_cell A = (\<lambda>((ca, cb), slot).
     (case (cell_value ca, cell_value cb) of
        (Some va, Some vb) \<Rightarrow> map_option (\<lambda>v. Cell_Value v slot) (dec_sub A va vb)
      | _ \<Rightarrow> Some Cell_Hole))"

definition subtract_columns :: "dec_arith \<Rightarrow> cell list \<Rightarrow> cell list \<Rightarrow> i64 list \<Rightarrow> cell list option" where
  "subtract_columns A as bs slots = map_opt (subtract_cell A) (zip (zip as bs) slots)"

definition fuse :: "dec_arith \<Rightarrow> fusion_input \<Rightarrow> (domain_error, fused_corpus) result option" where
  "fuse A inp =
     (let g = grid_from_window (fi_window inp) (fi_resolution inp); gap = fi_max_gap_ms inp
      in Option.bind (grid_slots g) (\<lambda>slots.
         try_bind (adjusted_closes A (fi_perp_partitions inp) (fi_adjustment inp)) (\<lambda>perp.
         try_bind (adjusted_closes A (fi_spot_partitions inp) (fi_adjustment inp)) (\<lambda>spot.
         Option.bind (align_onto_grid perp g gap) (\<lambda>perp_col.
         Option.bind (align_onto_grid (fi_funding inp) g gap) (\<lambda>funding_col.
         Option.bind (align_onto_grid (fi_premium_index inp) g gap) (\<lambda>premium_col.
         Option.bind (align_onto_grid spot g gap) (\<lambda>spot_col.
         Option.bind (align_onto_grid (fi_futures_metrics inp) g gap) (\<lambda>metrics_col.
         Option.bind (subtract_columns A perp_col spot_col slots) (\<lambda>spread_col.
           Some (Inr \<lparr>fu_instrument = fi_instrument inp, fu_resolution = fi_resolution inp, fu_grid = g, fu_slots = slots,
             fu_columns = [\<lparr>fc_series = Perp_Klines, fc_cells = perp_col\<rparr>, \<lparr>fc_series = Funding_Rates, fc_cells = funding_col\<rparr>,
               \<lparr>fc_series = Premium_Index, fc_cells = premium_col\<rparr>, \<lparr>fc_series = Spot_Klines, fc_cells = spot_col\<rparr>,
               \<lparr>fc_series = Futures_Metrics, fc_cells = metrics_col\<rparr>,
               \<lparr>fc_series = Spread_To_Underlier, fc_cells = spread_col\<rparr>]\<rparr>)))))))))))"

section \<open>Alignment carries the last sample forward\<close>

definition aligned_cell :: "(i64 \<Rightarrow> decimal option) \<Rightarrow> i64 list \<Rightarrow> i64 \<Rightarrow> i64 \<Rightarrow> cell" where
  "aligned_cell V slots gap t =
     (case last_opt (filter (\<lambda>u. u \<le> t \<and> V u \<noteq> None) slots) of
        None \<Rightarrow> Cell_Hole
      | Some u \<Rightarrow> if u = t \<or> t - u \<le> gap then Cell_Value (the (V u)) u else Cell_Hole)"

lemma map_of_distinct: "distinct (map fst kvs) \<Longrightarrow> map_of (rev kvs) k = Some v \<longleftrightarrow> (k, v) \<in> set kvs"
  by (metis distinct_rev map_of_eq_Some_iff rev_map set_rev)

lemma filled_pair: "(t, u) \<in> (\<lambda>f. (fp_slot_ms f, fp_from_ms f)) ` S \<longleftrightarrow> \<lparr>fp_slot_ms = t, fp_from_ms = u\<rparr> \<in> S"
proof
  assume "(t, u) \<in> (\<lambda>f. (fp_slot_ms f, fp_from_ms f)) ` S"
  then obtain f where "f \<in> S" "fp_slot_ms f = t" "fp_from_ms f = u" by auto
  then show "\<lparr>fp_slot_ms = t, fp_from_ms = u\<rparr> \<in> S" by (cases f) simp
qed force

lemma grid_slots_list:
  assumes "grid_in_range (grid_interval_ms g) (grid_start g) (grid_end g)"
  shows "grid_slots g = Some (slots_from (grid_interval_ms g) (grid_end g) (grid_start g))"
proof -
  have "fold (\<lambda>t out. out @ [t]) xs acc = acc @ xs" for xs acc :: "i64 list"
    by (induction xs arbitrary: acc) simp_all
  then show ?thesis
    using assms by (simp add: grid_slots_def grid_in_range_def slot_loop_visits in_i64_def)
qed

lemma align_is_carrying:
  assumes "grid_in_range (grid_interval_ms g) (grid_start g) (grid_end g)"
  defines "slots \<equiv> slots_from (grid_interval_ms g) (grid_end g) (grid_start g)"
  shows "align_onto_grid present g gap = Some (map (aligned_cell (map_of (rev present)) slots gap) slots)"
proof -
  let ?i = "grid_interval_ms g" and ?V = "map_of (rev present)"
  let ?P = "set (map fst (btree_map present))"
  have i: "0 < ?i" using assms(1) by (simp add: grid_in_range_def)
  have P: "u \<in> ?P \<longleftrightarrow> ?V u \<noteq> None" for u
    using btree_map_keys [of present] by (simp add: map_of_eq_None_iff)
  obtain plan where plan: "plan_fill (map fst (btree_map present)) ?i (grid_start g) (grid_end g) gap = Some plan"
    using plan_fill_outcome [OF assms(1)] by blast
  let ?filled = "btree_map (map (\<lambda>f. (fp_slot_ms f, fp_from_ms f)) (fl_filled plan))"
  have filled: "map_of ?filled t = Some u \<longleftrightarrow> t \<in> set slots \<and> t \<notin> ?P \<and> carried_from ?P slots t = Some u \<and> t - u \<le> gap" for t u
  proof -
    have "distinct (map fst (map (\<lambda>f. (fp_slot_ms f, fp_from_ms f)) (fl_filled plan)))"
      using plan_fill_filled(2) [OF assms(1) plan] by (simp add: strict_sorted_iff comp_def)
    then have "map_of ?filled t = Some u \<longleftrightarrow> \<lparr>fp_slot_ms = t, fp_from_ms = u\<rparr> \<in> set (fl_filled plan)"
      by (simp only: map_of_btree_map map_of_distinct set_map filled_pair)
    also have "\<dots> \<longleftrightarrow> t \<in> set slots \<and> t \<notin> ?P \<and> carried_from ?P slots t = Some u \<and> t - u \<le> gap"
      unfolding plan_fill_filled(1) [OF assms(1) plan] slots_def by blast
    finally show ?thesis .
  qed
  have "align_slot (btree_map present) ?filled t = Some (aligned_cell ?V slots gap t)" if t: "t \<in> set slots" for t
  proof (cases "?V t")
    case (Some v)
    have "last_opt (filter (\<lambda>u. u \<le> t \<and> ?V u \<noteq> None) slots) = Some t"
      using t Some i unfolding slots_def by (subst last_filter_greatest) (simp_all add: slots_from_ascending)
    with Some show ?thesis by (simp add: align_slot_def aligned_cell_def)
  next
    case None
    have "filter (\<lambda>u. u \<le> t \<and> ?V u \<noteq> None) slots = filter (\<lambda>u. u \<in> ?P \<and> u < t) slots"
      using None P by (intro filter_cong) (auto simp: less_le)
    then have carried: "last_opt (filter (\<lambda>u. u \<le> t \<and> ?V u \<noteq> None) slots) = carried_from ?P slots t"
      by (simp add: carried_from_def)
    have noP: "t \<notin> ?P" using None P by blast
    show ?thesis
    proof (cases "map_of ?filled t")
      case (Some u)
      then have u: "carried_from ?P slots t = Some u" "t - u \<le> gap" using filled by blast+
      then have "?V u \<noteq> None" using P carried_from_Some [OF i] unfolding slots_def by blast
      then obtain v where "?V u = Some v" by blast
      with u Some None show ?thesis unfolding align_slot_def aligned_cell_def carried by simp
    next
      case nofill: None
      then have "\<not> t - u \<le> gap" if "carried_from ?P slots t = Some u" for u
        using filled [of t u] that t noP by simp
      moreover have "u \<noteq> t" if "carried_from ?P slots t = Some u" for u
        using that carried_from_Some [OF i] unfolding slots_def by blast
      ultimately have "carried_from ?P slots t = Some u \<Longrightarrow> \<not> (u = t \<or> t - u \<le> gap)" for u
        by blast
      with nofill None show ?thesis unfolding align_slot_def aligned_cell_def carried by (simp split: option.splits)
    qed
  qed
  then show ?thesis
    using plan grid_slots_list [OF assms(1)] by (simp add: align_onto_grid_def Let_def map_opt_total flip: slots_def)
qed

text \<open>The close a fusion sees at one time: the last bar of that time, adjusted.\<close>

definition adjusted_close_at :: "dec_arith \<Rightarrow> bar list list \<Rightarrow> adjustment \<Rightarrow> i64 \<Rightarrow> decimal option" where
  "adjusted_close_at A partitions adj u =
     Option.bind (map_of (rev (map (\<lambda>b. (bar_open_time b, b)) (concat partitions))) u)
       (\<lambda>b. case adjust_bar A b adj of Some (Inr a) \<Rightarrow> Some (price_get (bar_close a)) | _ \<Rightarrow> None)"

lemma adjust_bar_time: "adjust_bar A b adj = Some (Inr a) \<Longrightarrow> bar_open_time a = bar_open_time b"
  by (auto simp: adjust_bar_def try_bind_Inr bar_new_iff)

lemma closes_of_map:
  assumes "list_all2 (\<lambda>b pt. try_bind (adjust_bar A b adj) (\<lambda>a. Some (Inr (bar_open_time a, price_get (bar_close a)))) = Some (Inr pt)) (map snd m) pts"
    and "\<forall>(k, b) \<in> set m. bar_open_time b = k"
  shows "map fst pts = map fst m \<and> map_of pts u = Option.bind (map_of m u)
      (\<lambda>b. case adjust_bar A b adj of Some (Inr a) \<Rightarrow> Some (price_get (bar_close a)) | _ \<Rightarrow> None)"
  using assms
proof (induction m arbitrary: pts)
  case (Cons kb m)
  obtain k b where kb: "kb = (k, b)" by (cases kb)
  with Cons.prems(1) obtain a rest where a: "adjust_bar A b adj = Some (Inr a)"
      "pts = (bar_open_time a, price_get (bar_close a)) # rest"
    and rest: "list_all2 (\<lambda>b pt. try_bind (adjust_bar A b adj) (\<lambda>a. Some (Inr (bar_open_time a, price_get (bar_close a)))) = Some (Inr pt)) (map snd m) rest"
    by (auto simp: list_all2_Cons1 try_bind_Inr)
  have "bar_open_time a = k" using adjust_bar_time [OF a(1)] Cons.prems(2) kb by simp
  with Cons.IH [OF rest] Cons.prems(2) a kb show ?case by simp
qed simp

lemma adjusted_closes_at:
  assumes "adjusted_closes A partitions adj = Some (Inr pts)"
  shows "map_of (rev pts) u = adjusted_close_at A partitions adj u"
proof -
  let ?kvs = "map (\<lambda>b. (bar_open_time b, b)) (concat partitions)"
  have timed: "\<forall>(k, b) \<in> set (btree_map ?kvs). bar_open_time b = k"
    using map_of_SomeD by (fastforce simp: btree_map_in simp flip: rev_map)
  have pts: "map fst pts = map fst (btree_map ?kvs) \<and> map_of pts u = Option.bind (map_of (btree_map ?kvs) u)
      (\<lambda>b. case adjust_bar A b adj of Some (Inr a) \<Rightarrow> Some (price_get (bar_close a)) | _ \<Rightarrow> None)"
    using assms timed unfolding adjusted_closes_def coalesce_bars_def try_map_Inr by (intro closes_of_map)
  then have "distinct (map fst pts)" using ordered_map_distinct [OF btree_map_ordered] by simp
  then have "map_of (rev pts) u = map_of pts u"
    by (metis (no_types, lifting) map_of_distinct map_of_eq_Some_iff not_None_eq)
  then show ?thesis using pts by (simp add: adjusted_close_at_def)
qed

definition spread_cell :: "dec_arith \<Rightarrow> cell \<Rightarrow> cell \<Rightarrow> i64 \<Rightarrow> cell option" where
  "spread_cell A ca cb slot = subtract_cell A ((ca, cb), slot)"

definition window_grid_ok :: "fusion_input \<Rightarrow> bool" where
  "window_grid_ok inp \<longleftrightarrow>
     grid_in_range (int (resolution_minutes (fi_resolution inp)) * 60000) (ti_start (fi_window inp)) (ti_end (fi_window inp))"

lemma map_opt_zip: "map_opt f (zip (zip (map ca xs) (map cb xs)) xs) = map_opt (\<lambda>s. f ((ca s, cb s), s)) xs"
  by (induction xs) simp_all

text \<open>What a successful fusion is, column by column.\<close>

lemma fuse_columns:
  assumes "window_grid_ok inp" "fuse A inp = Some (Inr c)"
  defines "slots \<equiv> slots_from (int (resolution_minutes (fi_resolution inp)) * 60000) (ti_end (fi_window inp)) (ti_start (fi_window inp))"
    and "carry \<equiv> (\<lambda>V. aligned_cell V (slots_from (int (resolution_minutes (fi_resolution inp)) * 60000) (ti_end (fi_window inp)) (ti_start (fi_window inp)))
           (fi_max_gap_ms inp))"
  shows "\<exists>spread. fu_slots c = slots \<and>
     fu_columns c = [\<lparr>fc_series = Perp_Klines, fc_cells = map (carry (adjusted_close_at A (fi_perp_partitions inp) (fi_adjustment inp))) slots\<rparr>,
       \<lparr>fc_series = Funding_Rates, fc_cells = map (carry (map_of (rev (fi_funding inp)))) slots\<rparr>,
       \<lparr>fc_series = Premium_Index, fc_cells = map (carry (map_of (rev (fi_premium_index inp)))) slots\<rparr>,
       \<lparr>fc_series = Spot_Klines, fc_cells = map (carry (adjusted_close_at A (fi_spot_partitions inp) (fi_adjustment inp))) slots\<rparr>,
       \<lparr>fc_series = Futures_Metrics, fc_cells = map (carry (map_of (rev (fi_futures_metrics inp)))) slots\<rparr>,
       \<lparr>fc_series = Spread_To_Underlier, fc_cells = spread\<rparr>] \<and>
     map_opt (\<lambda>s. spread_cell A (carry (adjusted_close_at A (fi_perp_partitions inp) (fi_adjustment inp)) s)
                    (carry (adjusted_close_at A (fi_spot_partitions inp) (fi_adjustment inp)) s) s) slots = Some spread"
proof -
  let ?g = "grid_from_window (fi_window inp) (fi_resolution inp)"
  have range: "grid_in_range (grid_interval_ms ?g) (grid_start ?g) (grid_end ?g)"
    using assms(1) by (simp add: window_grid_ok_def grid_from_window_def)
  have align: "align_onto_grid present ?g (fi_max_gap_ms inp) = Some (map (carry (map_of (rev present))) slots)" for present
    using align_is_carrying [OF range] unfolding slots_def carry_def by (simp add: grid_from_window_def)
  have grid: "grid_slots ?g = Some slots"
    using grid_slots_list [OF range] unfolding slots_def by (simp add: grid_from_window_def)
  from assms(2) obtain perp spot spread where closes:
      "adjusted_closes A (fi_perp_partitions inp) (fi_adjustment inp) = Some (Inr perp)"
      "adjusted_closes A (fi_spot_partitions inp) (fi_adjustment inp) = Some (Inr spot)"
    and spread: "subtract_columns A (map (carry (map_of (rev perp))) slots) (map (carry (map_of (rev spot))) slots) slots = Some spread"
    and c: "c = \<lparr>fu_instrument = fi_instrument inp, fu_resolution = fi_resolution inp, fu_grid = ?g, fu_slots = slots,
       fu_columns = [\<lparr>fc_series = Perp_Klines, fc_cells = map (carry (map_of (rev perp))) slots\<rparr>,
         \<lparr>fc_series = Funding_Rates, fc_cells = map (carry (map_of (rev (fi_funding inp)))) slots\<rparr>,
         \<lparr>fc_series = Premium_Index, fc_cells = map (carry (map_of (rev (fi_premium_index inp)))) slots\<rparr>,
         \<lparr>fc_series = Spot_Klines, fc_cells = map (carry (map_of (rev spot))) slots\<rparr>,
         \<lparr>fc_series = Futures_Metrics, fc_cells = map (carry (map_of (rev (fi_futures_metrics inp)))) slots\<rparr>,
         \<lparr>fc_series = Spread_To_Underlier, fc_cells = spread\<rparr>]\<rparr>"
    unfolding fuse_def Let_def grid align by (auto simp: try_bind_Inr bind_eq_Some_conv)
  have "map_of (rev perp) = adjusted_close_at A (fi_perp_partitions inp) (fi_adjustment inp)"
    "map_of (rev spot) = adjusted_close_at A (fi_spot_partitions inp) (fi_adjustment inp)"
    using adjusted_closes_at [OF closes(1)] adjusted_closes_at [OF closes(2)] by (simp_all add: fun_eq_iff)
  with c spread show ?thesis by (simp add: subtract_columns_def spread_cell_def map_opt_zip)
qed

section \<open>No look-ahead\<close>

definition until :: "i64 \<Rightarrow> (i64 \<times> 'a) list \<Rightarrow> (i64 \<times> 'a) list" where
  "until t kvs = filter (\<lambda>kv. fst kv \<le> t) kvs"

definition bars_until :: "i64 \<Rightarrow> bar list list \<Rightarrow> bar list" where
  "bars_until t partitions = filter (\<lambda>b. bar_open_time b \<le> t) (concat partitions)"

text \<open>Inputs of one request that agree on everything up to \<open>t\<close>.\<close>

definition agree_until :: "i64 \<Rightarrow> fusion_input \<Rightarrow> fusion_input \<Rightarrow> bool" where
  "agree_until t a b \<longleftrightarrow>
     fi_window a = fi_window b \<and> fi_resolution a = fi_resolution b \<and> fi_max_gap_ms a = fi_max_gap_ms b \<and>
     fi_adjustment a = fi_adjustment b \<and>
     bars_until t (fi_perp_partitions a) = bars_until t (fi_perp_partitions b) \<and>
     bars_until t (fi_spot_partitions a) = bars_until t (fi_spot_partitions b) \<and>
     until t (fi_funding a) = until t (fi_funding b) \<and>
     until t (fi_premium_index a) = until t (fi_premium_index b) \<and>
     until t (fi_futures_metrics a) = until t (fi_futures_metrics b)"

lemma map_of_until: "map_of (until t kvs) u = (if u \<le> t then map_of kvs u else None)"
  by (induction kvs) (auto simp: until_def)

lemma until_lookup:
  assumes "until t kvs = until t kvs'" "u \<le> t"
  shows "map_of (rev kvs) u = map_of (rev kvs') u"
proof -
  have "until t (rev kvs) = until t (rev kvs')" using assms(1) by (simp add: until_def flip: rev_filter)
  then show ?thesis using assms(2) map_of_until [of t "rev kvs" u] map_of_until [of t "rev kvs'" u] by simp
qed

lemma until_close:
  assumes "bars_until t ps = bars_until t ps'" "u \<le> t"
  shows "adjusted_close_at A ps adj u = adjusted_close_at A ps' adj u"
proof -
  let ?kvs = "\<lambda>ps. map (\<lambda>b. (bar_open_time b, b)) (concat ps)"
  have "until t (?kvs ps) = until t (?kvs ps')"
    using arg_cong [OF assms(1), of "map (\<lambda>b. (bar_open_time b, b))"]
    by (simp add: until_def bars_until_def filter_map comp_def)
  from until_lookup [OF this assms(2)] show ?thesis by (simp only: adjusted_close_at_def)
qed

lemma aligned_until:
  assumes "\<And>u. u \<le> t \<Longrightarrow> V u = V' u" "s \<le> t"
  shows "aligned_cell V slots gap s = aligned_cell V' slots gap s"
proof -
  have "filter (\<lambda>u. u \<le> s \<and> V u \<noteq> None) slots = filter (\<lambda>u. u \<le> s \<and> V' u \<noteq> None) slots"
    using assms by (intro filter_cong) auto
  moreover have "V u = V' u" if "last_opt (filter (\<lambda>u. u \<le> s \<and> V' u \<noteq> None) slots) = Some u" for u
  proof -
    have "u \<le> s"
      using that last_in_set [of "filter (\<lambda>u. u \<le> s \<and> V' u \<noteq> None) slots"] by (auto simp: last_opt_def split: if_splits)
    then show ?thesis using assms by simp
  qed
  ultimately show ?thesis by (auto simp: aligned_cell_def split: option.splits)
qed

text \<open>
  C20. Fusion never looks ahead. Two requests that agree on every sample and bar up to a time have the
  same cells in all six columns at every slot up to that time, whatever follows; and each cell that
  carries a value carries one stamped no later than its own slot and no older than the fill bound. The grid
  of the window lies within the 64-bit range.
\<close>

theorem fusion_has_no_lookahead:
  assumes "window_grid_ok a" "agree_until t a b" "fuse A a = Some (Inr c)" "fuse A b = Some (Inr d)"
    and "k < length (fu_slots c)" "fu_slots c ! k \<le> t" "j < 6"
  shows "fu_slots d = fu_slots c \<and> map fc_series (fu_columns c) = canonical_all \<and>
     fc_cells (fu_columns c ! j) ! k = fc_cells (fu_columns d ! j) ! k \<and>
     (\<forall>v from_ms. fc_cells (fu_columns c ! j) ! k = Cell_Value v from_ms \<longrightarrow>
        from_ms \<le> fu_slots c ! k \<and> (from_ms = fu_slots c ! k \<or> fu_slots c ! k - from_ms \<le> fi_max_gap_ms a))"
proof -
  define slots where "slots = slots_from (int (resolution_minutes (fi_resolution a)) * 60000) (ti_end (fi_window a)) (ti_start (fi_window a))"
  define carry where "carry = (\<lambda>V. aligned_cell V slots (fi_max_gap_ms a))"
  have same: "fi_window b = fi_window a" "fi_resolution b = fi_resolution a" "fi_max_gap_ms b = fi_max_gap_ms a"
    "fi_adjustment b = fi_adjustment a" using assms(2) by (simp_all add: agree_until_def)
  define perp spot where "perp = (\<lambda>x :: fusion_input. adjusted_close_at A (fi_perp_partitions x) (fi_adjustment a))"
    and "spot = (\<lambda>x :: fusion_input. adjusted_close_at A (fi_spot_partitions x) (fi_adjustment a))"
  define cols where "cols = (\<lambda>(x :: fusion_input) spread. [\<lparr>fc_series = Perp_Klines, fc_cells = map (carry (perp x)) slots\<rparr>,
       \<lparr>fc_series = Funding_Rates, fc_cells = map (carry (map_of (rev (fi_funding x)))) slots\<rparr>,
       \<lparr>fc_series = Premium_Index, fc_cells = map (carry (map_of (rev (fi_premium_index x)))) slots\<rparr>,
       \<lparr>fc_series = Spot_Klines, fc_cells = map (carry (spot x)) slots\<rparr>,
       \<lparr>fc_series = Futures_Metrics, fc_cells = map (carry (map_of (rev (fi_futures_metrics x)))) slots\<rparr>,
       \<lparr>fc_series = Spread_To_Underlier, fc_cells = spread\<rparr>])"
  define spread_at where "spread_at = (\<lambda>(x :: fusion_input) s. spread_cell A (carry (perp x) s) (carry (spot x) s) s)"
  obtain sc where c: "fu_slots c = slots" "fu_columns c = cols a sc" "map_opt (spread_at a) slots = Some sc"
    using fuse_columns [OF assms(1,3)] unfolding slots_def carry_def perp_def spot_def cols_def spread_at_def by blast
  have "window_grid_ok b" using assms(1) same by (simp add: window_grid_ok_def)
  from fuse_columns [OF this assms(4)] obtain sd
    where d: "fu_slots d = slots" "fu_columns d = cols b sd" "map_opt (spread_at b) slots = Some sd"
    unfolding same slots_def carry_def perp_def spot_def cols_def spread_at_def by blast
  have k: "k < length slots" "slots ! k \<le> t" using assms(5,6) c by simp_all
  have carry: "carry V (slots ! k) = carry V' (slots ! k)" if "\<And>u. u \<le> t \<Longrightarrow> V u = V' u" for V V'
    unfolding carry_def using that k(2) by (rule aligned_until)
  note look = until_lookup [where t = t] until_close [where t = t]
  have eqs: "carry (perp a) (slots ! k) = carry (perp b) (slots ! k)" "carry (spot a) (slots ! k) = carry (spot b) (slots ! k)"
    "carry (map_of (rev (fi_funding a))) (slots ! k) = carry (map_of (rev (fi_funding b))) (slots ! k)"
    "carry (map_of (rev (fi_premium_index a))) (slots ! k) = carry (map_of (rev (fi_premium_index b))) (slots ! k)"
    "carry (map_of (rev (fi_futures_metrics a))) (slots ! k) = carry (map_of (rev (fi_futures_metrics b))) (slots ! k)"
    using assms(2) unfolding agree_until_def perp_def spot_def by (auto intro!: carry look)
  moreover have spread: "spread_at a (slots ! k) = Some (sc ! k)" "spread_at b (slots ! k) = Some (sd ! k)"
    using map_opt_nth [OF c(3) k(1)] map_opt_nth [OF d(3) k(1)] by simp_all
  ultimately have "sc ! k = sd ! k" by (simp add: spread_at_def)
  have stamp: "from_ms \<le> slots ! k \<and> (from_ms = slots ! k \<or> slots ! k - from_ms \<le> fi_max_gap_ms a)"
    if "carry V (slots ! k) = Cell_Value v from_ms" for V v from_ms
    using that unfolding carry_def aligned_cell_def
    by (auto simp: last_opt_def split: option.splits if_splits dest!: arg_cong [where f = set] last_in_set)
  have stamp_spread: "from_ms = slots ! k" if "sc ! k = Cell_Value v from_ms" for v from_ms
    using that spread(1) by (auto simp: spread_at_def spread_cell_def subtract_cell_def split: option.splits)
  have j: "j \<in> {0, 1, 2, 3, 4, 5}" using assms(7) by auto
  let ?cell = "fc_cells (fu_columns c ! j) ! k"
  have "(\<exists>V. ?cell = carry V (slots ! k)) \<or> ?cell = sc ! k"
    using j k(1) unfolding c cols_def by auto
  then have "from_ms \<le> slots ! k \<and> (from_ms = slots ! k \<or> slots ! k - from_ms \<le> fi_max_gap_ms a)"
    if "?cell = Cell_Value v from_ms" for v from_ms
    using that stamp stamp_spread by (metis order_refl)
  moreover have "?cell = fc_cells (fu_columns d ! j) ! k"
    using j k(1) eqs \<open>sc ! k = sd ! k\<close> unfolding c d cols_def by auto
  moreover have "map fc_series (fu_columns c) = canonical_all" unfolding c cols_def by (simp add: canonical_all_def)
  ultimately show ?thesis unfolding c d by blast
qed

definition candle :: "i64 \<Rightarrow> decimal \<Rightarrow> bar" where
  "candle t x = \<lparr>bar_open_time = t, bar_resolution = M5, bar_open = Price x, bar_high = Price x, bar_low = Price x,
     bar_close = Price x, bar_volume = Qty 1, bar_trades = 1\<rparr>"

definition sample_request :: "bar list \<Rightarrow> fusion_input" where
  "sample_request perp = \<lparr>fi_instrument = InstrumentId ''BTC'', fi_window = \<lparr>ti_start = 0, ti_end = 600000\<rparr>,
     fi_resolution = M5, fi_max_gap_ms = 300000, fi_adjustment = adjustment_identity, fi_perp_partitions = [perp],
     fi_spot_partitions = [[candle 0 90]], fi_funding = [], fi_premium_index = [], fi_futures_metrics = []\<rparr>"

lemmas fuse_eval = fuse_def sample_request_def grid_from_window_def grid_slots_def slot_loop.simps wrap_i64_def
  adjusted_closes_def coalesce_bars_def btree_map_def candle_def adjust_bar_def scale_price_def adjustment_identity_def
  price_new_def qty_new_def bar_new_def align_onto_grid_def plan_fill_def fill_slot_def btree_set_def fill_start_def
  push_hole_def make_hole_def align_slot_def subtract_columns_def subtract_cell_def bounded_dec_def

theorem fusion_has_no_lookahead_witness:
  "\<exists>c d. fuse (bounded_dec 1000) (sample_request [candle 0 100]) = Some (Inr c) \<and>
     fuse (bounded_dec 1000) (sample_request [candle 0 100, candle 300000 70]) = Some (Inr d) \<and>
     fc_cells (fu_columns c ! 5) ! 0 = fc_cells (fu_columns d ! 5) ! 0 \<and> c \<noteq> d"
proof -
  let ?a = "sample_request [candle 0 100]" and ?b = "sample_request [candle 0 100, candle 300000 70]"
  obtain c where c: "fuse (bounded_dec 1000) ?a = Some (Inr c)" "fu_slots c = [0, 300000]" "fc_cells (fu_columns c ! 0) ! 1 = Cell_Value 100 0"
    by (simp add: fuse_eval Let_def tdiv_def as_u64_def)
  obtain d where d: "fuse (bounded_dec 1000) ?b = Some (Inr d)" "fc_cells (fu_columns d ! 0) ! 1 = Cell_Value 70 300000"
    by (simp add: fuse_eval Let_def tdiv_def as_u64_def)
  have "window_grid_ok ?a" by (simp add: window_grid_ok_def sample_request_def grid_in_range_def in_i64_def)
  moreover have "agree_until 0 ?a ?b"
    by (simp add: agree_until_def sample_request_def bars_until_def candle_def)
  ultimately have "fc_cells (fu_columns c ! 5) ! 0 = fc_cells (fu_columns d ! 5) ! 0"
    using fusion_has_no_lookahead [OF _ _ c(1) d(1), of 0 0 5] c(2) by simp
  then show ?thesis using c d by auto
qed

end
