(* ===== verification/Ingest_Persist.thy ===== *)
theory Ingest_Persist imports Ingest_Fuse Store_Facts begin

text \<open>
  Persisting the fused market into the store (crate \<open>qe-ingest\<close>, \<open>persist.rs\<close>). The five writes are
  five transactions, any of which may fail, with the lineage recorded last.
\<close>

record fused_market =
  fk_instrument :: instrument_id
  fk_bars :: "bar list"
  fk_funding :: "funding_rate_sample list"
  fk_premium :: "premium_sample list"
  fk_futures :: "futures_metrics list"

definition fused_bars :: "dec_arith \<Rightarrow> bar list list \<Rightarrow> adjustment \<Rightarrow> (domain_error, bar list) result option" where
  "fused_bars A perp_partitions adj = try_map (\<lambda>b. adjust_bar A b adj) (coalesce_bars perp_partitions)"

datatype persist_status = Persisted | AlreadyPersisted

record persist_report =
  pr_lineage_id :: string
  pr_status :: persist_status
  pr_bars :: usize
  pr_funding :: usize
  pr_premium :: usize
  pr_futures :: usize

text \<open>\<open>?\<close> on a write: an error ends the call with the store as the failing write left it.\<close>

definition then_write ::
  "(storage_error, 'a) result \<times> 's \<Rightarrow> ('s \<Rightarrow> (storage_error, 'b) result \<times> 's) \<Rightarrow> (storage_error, 'b) result \<times> 's" where
  "then_write rs f = (case rs of (Inl e, s) \<Rightarrow> (Inl e, s) | (Inr _, s) \<Rightarrow> f s)"

definition persist_fused ::
  "('d, 'r) market_env \<Rightarrow> string \<Rightarrow> fused_market \<Rightarrow> 'd market_store
     \<Rightarrow> (storage_error, persist_report) result \<times> 'd market_store" where
  "persist_fused M lineage_id market s =
     (case has_lineage M lineage_id s of
        Inl e \<Rightarrow> (Inl e, s)
      | Inr True \<Rightarrow> (Inr \<lparr>pr_lineage_id = lineage_id, pr_status = AlreadyPersisted, pr_bars = 0, pr_funding = 0,
                       pr_premium = 0, pr_futures = 0\<rparr>, s)
      | Inr False \<Rightarrow>
          then_write (put_bars M (fk_instrument market) (fk_bars market) s) (\<lambda>s.
          then_write (put_funding M (fk_funding market) s) (\<lambda>s.
          then_write (put_premium M (fk_premium market) s) (\<lambda>s.
          then_write (put_futures M (fk_futures market) s) (\<lambda>s.
          then_write (record_lineage M lineage_id s) (\<lambda>s.
            (Inr \<lparr>pr_lineage_id = lineage_id, pr_status = Persisted, pr_bars = length (fk_bars market),
                pr_funding = length (fk_funding market), pr_premium = length (fk_premium market),
                pr_futures = length (fk_futures market)\<rparr>, s)))))))"

section \<open>Repeated attempts\<close>

text \<open>The same store under changing faults.\<close>

definition same_store :: "('d, 'r) market_env \<Rightarrow> ('d, 'r) market_env \<Rightarrow> bool" where
  "same_store M N \<longleftrightarrow> me_db N = me_db M \<and> me_bar N = me_bar M \<and> me_funding N = me_funding M \<and>
     me_premium N = me_premium M \<and> me_futures N = me_futures M \<and> me_text N = me_text M"

fun persist_attempts ::
  "('d, 'r) market_env list \<Rightarrow> string \<Rightarrow> fused_market \<Rightarrow> 'd market_store
     \<Rightarrow> (storage_error, persist_report) result list \<times> 'd market_store" where
  "persist_attempts [] lineage_id market s = ([], s)"
| "persist_attempts (M # Ms) lineage_id market s =
     (let (r, s1) = persist_fused M lineage_id market s; (rs, s2) = persist_attempts Ms lineage_id market s1
      in (r # rs, s2))"

definition upserts :: "('v \<Rightarrow> bytes) \<Rightarrow> 'v list \<Rightarrow> (bytes \<Rightarrow> 'v option) \<Rightarrow> bytes \<Rightarrow> 'v option" where
  "upserts key rows v = foldl (\<lambda>m x. m(key x \<mapsto> x)) v rows"

lemma upserts_add: "upserts key rows v = v ++ map_of (rev (map (\<lambda>x. (key x, x)) rows))"
  unfolding upserts_def by (induction rows rule: rev_induct) (simp_all add: map_add_upd flip: fun_upd_def)

lemma upserts_idem [simp]: "upserts key rows (upserts key rows v) = upserts key rows v"
  by (simp add: upserts_add map_add_def fun_eq_iff split: option.split)

definition funding_key :: "funding_rate_sample \<Rightarrow> bytes" where "funding_key x = series_key (fr_instrument x) (fr_time x)"
definition premium_key :: "premium_sample \<Rightarrow> bytes" where "premium_key x = series_key (pm_instrument x) (pm_time x)"
definition futures_key :: "futures_metrics \<Rightarrow> bytes" where "futures_key x = series_key (fm_instrument x) (fm_time x)"

text \<open>The four tables a market is written to, read back.\<close>

definition tables ::
  "('d, 'r) market_env \<Rightarrow> 'd market_store \<Rightarrow> (bytes \<Rightarrow> bar option) \<times> (bytes \<Rightarrow> funding_rate_sample option) \<times>
     (bytes \<Rightarrow> premium_sample option) \<times> (bytes \<Rightarrow> futures_metrics option)" where
  "tables M s = (view (me_bar M) (me_db M) (ms_bars s), view (me_funding M) (me_db M) (ms_funding s),
     view (me_premium M) (me_db M) (ms_premium s), view (me_futures M) (me_db M) (ms_futures s))"

definition with_market where
  "with_market market = (\<lambda>(b, f, p, u). (upserts (key_of_bar (fk_instrument market)) (fk_bars market) b,
     upserts funding_key (fk_funding market) f, upserts premium_key (fk_premium market) p,
     upserts futures_key (fk_futures market) u))"

definition persist_ok :: "('d, 'r) market_env \<Rightarrow> bool" where
  "persist_ok M \<longleftrightarrow> market_ok M \<and> codec_ok (me_funding M) \<and> codec_ok (me_premium M) \<and> codec_ok (me_futures M)"

text \<open>A table that an interrupted attempt may or may not have written.\<close>

definition partly :: "('a \<Rightarrow> 'a) \<Rightarrow> 'a \<Rightarrow> 'a \<Rightarrow> bool" where
  "partly f v w \<longleftrightarrow> w = v \<or> w = f v"

lemma table_write:
  assumes "lmdb_laws L" "codec_ok C"
    and "write_txn E s (\<lambda>s. res_bind (put_rows C L key (get s) rows) (\<lambda>d. Inr (upd d s))) = (r, s')"
    and "\<And>d. get (upd d s) = d"
  shows "(\<exists>e. r = Inl e) \<and> s' = s \<or> r = Inr () \<and> (\<exists>d. s' = upd d s) \<and> view C L (get s') = upserts key rows (view C L (get s))"
  using write_txn_atomic [OF assms(3)] put_rows_view [OF assms(1,2)] assms(4)
  by (auto simp: res_bind_Inr upserts_def)


definition partial_market where
  "partial_market market = (\<lambda>(b, f, p, u) (b', f', p', u').
     partly (upserts (key_of_bar (fk_instrument market)) (fk_bars market)) b b' \<and>
     partly (upserts funding_key (fk_funding market)) f f' \<and>
     partly (upserts premium_key (fk_premium market)) p p' \<and>
     partly (upserts futures_key (fk_futures market)) u u')"

lemma partial_market_refl [simp]: "partial_market market t t"
  by (simp add: partial_market_def partly_def split: prod.split)

lemma partial_market_trans: "partial_market market t t' \<Longrightarrow> partial_market market t' t'' \<Longrightarrow> partial_market market t t''"
  unfolding partial_market_def partly_def by (auto split: prod.splits)

lemma partial_then_whole: "partial_market market t t' \<Longrightarrow> with_market market t' = with_market market t"
  unfolding partial_market_def with_market_def partly_def by (auto split: prod.splits)

abbreviation recorded where
  "recorded M lineage_id s \<equiv> meta_view M s (lineage_key lineage_id) \<noteq> None"

lemma record_lineage_failed: "record_lineage M a s = (Inl e, s') \<Longrightarrow> s' = s"
  by (auto simp: record_lineage_def Let_def split: option.splits sum.splits)

lemma then_write_cases:
  assumes "then_write rs f = (r, s')"
  obtains e where "rs = (Inl e, s')" "r = Inl e" | a s1 where "rs = (Inr a, s1)" "f s1 = (r, s')"
  using assms by (cases rs) (auto simp: then_write_def split: sum.splits)

lemma put_effects:
  assumes "persist_ok M"
  shows "put_bars M (fk_instrument market) (fk_bars market) s = (r, s') \<Longrightarrow> (\<exists>e. r = Inl e) \<and> s' = s \<or>
      r = Inr () \<and> ms_meta s' = ms_meta s \<and> tables M s' = (case tables M s of (b, f, p, u) \<Rightarrow>
        (upserts (key_of_bar (fk_instrument market)) (fk_bars market) b, f, p, u))"
    and "put_funding M (fk_funding market) s = (r, s') \<Longrightarrow> (\<exists>e. r = Inl e) \<and> s' = s \<or>
      r = Inr () \<and> ms_meta s' = ms_meta s \<and> tables M s' = (case tables M s of (b, f, p, u) \<Rightarrow>
        (b, upserts funding_key (fk_funding market) f, p, u))"
    and "put_premium M (fk_premium market) s = (r, s') \<Longrightarrow> (\<exists>e. r = Inl e) \<and> s' = s \<or>
      r = Inr () \<and> ms_meta s' = ms_meta s \<and> tables M s' = (case tables M s of (b, f, p, u) \<Rightarrow>
        (b, f, upserts premium_key (fk_premium market) p, u))"
    and "put_futures M (fk_futures market) s = (r, s') \<Longrightarrow> (\<exists>e. r = Inl e) \<and> s' = s \<or>
      r = Inr () \<and> ms_meta s' = ms_meta s \<and> tables M s' = (case tables M s of (b, f, p, u) \<Rightarrow>
        (b, f, p, upserts futures_key (fk_futures market) u))"
proof -
  have laws: "lmdb_laws (me_db M)" "codec_ok (me_bar M)" "codec_ok (me_funding M)" "codec_ok (me_premium M)" "codec_ok (me_futures M)"
    using assms by (simp_all add: persist_ok_def market_ok_def)
  show "put_bars M (fk_instrument market) (fk_bars market) s = (r, s') \<Longrightarrow> (\<exists>e. r = Inl e) \<and> s' = s \<or>
      r = Inr () \<and> ms_meta s' = ms_meta s \<and> tables M s' = (case tables M s of (b, f, p, u) \<Rightarrow>
        (upserts (key_of_bar (fk_instrument market)) (fk_bars market) b, f, p, u))"
    unfolding put_bars_def by (drule table_write [OF laws(1,2)]) (auto simp: tables_def)
  show "put_funding M (fk_funding market) s = (r, s') \<Longrightarrow> (\<exists>e. r = Inl e) \<and> s' = s \<or>
      r = Inr () \<and> ms_meta s' = ms_meta s \<and> tables M s' = (case tables M s of (b, f, p, u) \<Rightarrow>
        (b, upserts funding_key (fk_funding market) f, p, u))"
    unfolding put_funding_def funding_key_def [symmetric] by (drule table_write [OF laws(1,3)]) (auto simp: tables_def)
  show "put_premium M (fk_premium market) s = (r, s') \<Longrightarrow> (\<exists>e. r = Inl e) \<and> s' = s \<or>
      r = Inr () \<and> ms_meta s' = ms_meta s \<and> tables M s' = (case tables M s of (b, f, p, u) \<Rightarrow>
        (b, f, upserts premium_key (fk_premium market) p, u))"
    unfolding put_premium_def premium_key_def [symmetric] by (drule table_write [OF laws(1,4)]) (auto simp: tables_def)
  show "put_futures M (fk_futures market) s = (r, s') \<Longrightarrow> (\<exists>e. r = Inl e) \<and> s' = s \<or>
      r = Inr () \<and> ms_meta s' = ms_meta s \<and> tables M s' = (case tables M s of (b, f, p, u) \<Rightarrow>
        (b, f, p, upserts futures_key (fk_futures market) u))"
    unfolding put_futures_def futures_key_def [symmetric] by (drule table_write [OF laws(1,5)]) (auto simp: tables_def)
qed

lemma persist_writes:
  assumes ok: "persist_ok M" and new: "\<not> recorded M lineage_id s" and meta: "meta_ok M s"
    and run: "persist_fused M lineage_id market s = (r, s')"
  shows "meta_ok M s' \<and>
    ((\<exists>e. r = Inl e) \<and> \<not> recorded M lineage_id s' \<and> partial_market market (tables M s) (tables M s') \<or>
     (\<exists>rep. r = Inr rep \<and> pr_status rep = Persisted) \<and> recorded M lineage_id s' \<and>
       tables M s' = with_market market (tables M s))"
proof -
  have m: "market_ok M" using ok by (simp add: persist_ok_def)
  note laws = market_okD [OF m]
  obtain b f p u where t: "tables M s = (b, f, p, u)" by (cases "tables M s") auto
  note effects = put_effects [OF ok, where market = market]
  have fresh: "has_lineage M lineage_id s = Inr False" using has_lineage_view [OF m meta] new by simp
  note stop = partial_market_def partly_def t
  from run show ?thesis
    unfolding persist_fused_def fresh sum.case bool.case
  proof (cases rule: then_write_cases)
    case (1 e)
    with effects(1) [OF 1(1)] new meta show ?thesis by auto
  next
    case w1: (2 a s1)
    with effects(1) [OF w1(1)] t
    have s1: "ms_meta s1 = ms_meta s" "tables M s1 = (upserts (key_of_bar (fk_instrument market)) (fk_bars market) b, f, p, u)" by auto
    from w1(2) show ?thesis
    proof (cases rule: then_write_cases)
      case (1 e)
      with effects(2) [OF 1(1)] s1 new meta show ?thesis by (auto simp: stop)
    next
      case w2: (2 a s2)
      with effects(2) [OF w2(1)] s1
      have s2: "ms_meta s2 = ms_meta s" "tables M s2 = (upserts (key_of_bar (fk_instrument market)) (fk_bars market) b,
          upserts funding_key (fk_funding market) f, p, u)" by auto
      from w2(2) show ?thesis
      proof (cases rule: then_write_cases)
        case (1 e)
        with effects(3) [OF 1(1)] s2 new meta show ?thesis by (auto simp: stop)
      next
        case w3: (2 a s3)
        with effects(3) [OF w3(1)] s2
        have s3: "ms_meta s3 = ms_meta s" "tables M s3 = (upserts (key_of_bar (fk_instrument market)) (fk_bars market) b,
            upserts funding_key (fk_funding market) f, upserts premium_key (fk_premium market) p, u)" by auto
        from w3(2) show ?thesis
        proof (cases rule: then_write_cases)
          case (1 e)
          with effects(4) [OF 1(1)] s3 new meta show ?thesis by (auto simp: stop)
        next
          case w4: (2 a s4)
          with effects(4) [OF w4(1)] s3 t have s4: "ms_meta s4 = ms_meta s" "tables M s4 = with_market market (tables M s)"
            by (auto simp: with_market_def)
          from w4(2) show ?thesis
          proof (cases rule: then_write_cases)
            case (1 e)
            then show ?thesis using record_lineage_failed [OF 1(1)] s4 new meta by (auto simp: with_market_def stop)
          next
            case (2 isnew s5)
            have "meta_ok M s4" using meta s4(1) by simp
            note rec = record_lineage_view [OF m this 2(1)]
            have "isnew" using rec(1) s4(1) new by simp
            moreover have "tables M s5 = tables M s4" using rec(4) by (simp add: tables_def) (metis market_store.ext_inject market_store.surjective market_store.update_convs(7))
            ultimately show ?thesis using rec(2,3) 2(2) s4(2) by auto
          qed
        qed
      qed
    qed
  qed
qed

lemma persist_skips:
  assumes "persist_ok M" "meta_ok M s" "recorded M lineage_id s"
  shows "\<exists>rep. persist_fused M lineage_id market s = (Inr rep, s) \<and> pr_status rep = AlreadyPersisted"
  using has_lineage_view [of M s lineage_id] assms by (simp add: persist_fused_def persist_ok_def)

definition persisted :: "(storage_error, persist_report) result \<Rightarrow> bool" where
  "persisted r \<longleftrightarrow> (case r of Inl _ \<Rightarrow> False | Inr rep \<Rightarrow> pr_status rep = Persisted)"

lemma persisted_simps [simp]: "\<not> persisted (Inl e)" "persisted (Inr rep) \<longleftrightarrow> pr_status rep = Persisted"
  by (simp_all add: persisted_def)

lemma same_store_reads:
  "same_store M N \<Longrightarrow> tables N s = tables M s \<and> meta_view N s = meta_view M s \<and> meta_ok N s = meta_ok M s"
  by (simp add: same_store_def tables_def)

lemma recorded_attempts:
  assumes "\<forall>N \<in> set Ms. persist_ok N \<and> same_store M N" "meta_ok M s" "recorded M lineage_id s"
    and "persist_attempts Ms lineage_id market s = (rs, s')"
  shows "s' = s \<and> filter persisted rs = []"
  using assms
proof (induction Ms arbitrary: rs s')
  case (Cons N Ms)
  then have N: "persist_ok N" "same_store M N" by simp_all
  then obtain rep where "persist_fused N lineage_id market s = (Inr rep, s)" "pr_status rep = AlreadyPersisted"
    using persist_skips [of N s lineage_id market] same_store_reads [OF N(2), of s] Cons.prems(2,3) by auto
  with Cons.prems Cons.IH show ?case by (auto split: prod.splits)
qed simp

text \<open>
  A vintage is persisted exactly once, whatever fails on the way. Over any sequence of attempts,
  each under its own faults, at most one reports that it wrote; the ledger has the lineage just when one
  did; then all four tables hold their old rows overridden by the market's, with no trace of the attempts
  that failed; and before that each table is either untouched or completely written.
\<close>

theorem persist_once:
  assumes "persist_ok M" "\<forall>N \<in> set Ms. persist_ok N \<and> same_store M N" "meta_ok M s"
    and "has_lineage M lineage_id s = Inr False" "persist_attempts Ms lineage_id market s = (rs, s')"
  shows "length (filter persisted rs) \<le> 1 \<and>
    has_lineage M lineage_id s' = Inr (filter persisted rs \<noteq> []) \<and>
    (if filter persisted rs \<noteq> [] then tables M s' = with_market market (tables M s)
     else partial_market market (tables M s) (tables M s'))"
proof -
  have m: "market_ok M" using assms(1) by (simp add: persist_ok_def)
  have "\<not> recorded M lineage_id s" using has_lineage_view [OF m assms(3)] assms(4) by simp
  then have "length (filter persisted rs) \<le> 1 \<and> meta_ok M s' \<and> recorded M lineage_id s' = (filter persisted rs \<noteq> []) \<and>
    (if filter persisted rs \<noteq> [] then tables M s' = with_market market (tables M s)
     else partial_market market (tables M s) (tables M s'))"
    using assms(2,3,5)
  proof (induction Ms arbitrary: s rs)
    case (Cons N Ms)
    then have N: "persist_ok N" "same_store M N" by simp_all
    obtain r s1 rs' where step: "persist_fused N lineage_id market s = (r, s1)"
      and rest: "persist_attempts Ms lineage_id market s1 = (rs', s')" and rs: "rs = r # rs'"
      using Cons.prems(4) by (auto split: prod.splits)
    note reads = same_store_reads [OF N(2)]
    have writes: "meta_ok M s1 \<and> ((\<exists>e. r = Inl e) \<and> \<not> recorded M lineage_id s1 \<and> partial_market market (tables M s) (tables M s1) \<or>
        (\<exists>rep. r = Inr rep \<and> pr_status rep = Persisted) \<and> recorded M lineage_id s1 \<and>
         tables M s1 = with_market market (tables M s))"
      using persist_writes [OF N(1) _ _ step] Cons.prems(1,3) reads by simp
    show ?case
    proof (cases "recorded M lineage_id s1")
      case True
      then have "s' = s1 \<and> filter persisted rs' = []"
        using recorded_attempts [OF _ _ True rest] Cons.prems(2) writes by simp
      with writes True rs show ?thesis by auto
    next
      case False
      then have "filter persisted rs = filter persisted rs'" using writes rs False by auto
      moreover have "partial_market market (tables M s) (tables M s1)" using writes False by blast
      ultimately show ?thesis
        using Cons.IH [OF False _ _ rest] Cons.prems(2) writes partial_then_whole partial_market_trans
        by (metis (no_types, lifting) list.set_intros(2))
    qed
  qed simp
  with has_lineage_view [OF m] show ?thesis by auto
qed

definition one_bar_market :: fused_market where
  "one_bar_market = \<lparr>fk_instrument = eth, fk_bars = [candle 0 10], fk_funding = [], fk_premium = [], fk_futures = []\<rparr>"

definition faulty_env :: "((bytes, raw_value) fmap, raw_value) market_env" where
  "faulty_env = fm_env\<lparr>me_txn := \<lparr>txn_write = (\<lambda>s. if ms_bars s = fmempty then None else Some (Lmdb ''full'')),
     txn_read = (\<lambda>s. None), txn_commit = (\<lambda>s. None)\<rparr>\<rparr>"

theorem persist_once_witness:
  "\<exists>rs s'. persist_attempts [faulty_env, fm_env, fm_env] ''vt-1'' one_bar_market fm_store = (rs, s') \<and>
     map persisted rs = [False, True, False] \<and> has_lineage fm_env ''vt-1'' s' = Inr True"
proof -
  have ok: "persist_ok fm_env" by (simp add: persist_ok_def) (simp add: fm_env_def codec_ok_def)
  have "\<forall>N \<in> set [faulty_env, fm_env, fm_env]. persist_ok N \<and> same_store fm_env N"
    using ok by (simp add: same_store_def faulty_env_def persist_ok_def market_ok_def)
  moreover have "meta_ok fm_env fm_store" by (rule empty_healthy) (simp add: fm_store_def)
  moreover have "has_lineage fm_env ''vt-1'' fm_store = Inr False"
    by (simp add: has_lineage_def read_txn_def fm_env_def fm_lmdb_def get_value_def fm_store_def)
  moreover obtain rs s' where run: "persist_attempts [faulty_env, fm_env, fm_env] ''vt-1'' one_bar_market fm_store = (rs, s')"
    and rs: "map persisted rs = [False, True, False]"
    by (simp add: persist_fused_def has_lineage_def read_txn_def faulty_env_def fm_env_def fm_lmdb_def get_value_def
        put_value_def fm_store_def one_bar_market_def then_write_def put_bars_def put_funding_def put_premium_def
        put_futures_def put_rows_def write_txn_def record_lineage_def Let_def)
  ultimately have "has_lineage fm_env ''vt-1'' s' = Inr (filter persisted rs \<noteq> [])"
    using persist_once [OF ok _ _ _ run] by blast
  moreover have "filter persisted rs \<noteq> []" using rs by (cases rs; cases "tl rs") auto
  ultimately show ?thesis using run rs by auto
qed

end
