(* ===== verification/Ingest_Quality.thy ===== *)
theory Ingest_Quality imports Ingest_Series begin

text \<open>
  The data-quality gate (crate \<open>qe-ingest\<close>): diffing the overlap of two sources within a tolerance
  (\<open>reconcile.rs\<close>), and the report whose hard violations fail a run (\<open>quality.rs\<close>). Values are
  doubles, a parameter with its operations.
\<close>

section \<open>Reconciliation\<close>

record 'f tolerance =
  tol_abs :: 'f
  tol_rel :: 'f

definition within_tolerance :: "'f f64_ops \<Rightarrow> 'f tolerance \<Rightarrow> 'f \<Rightarrow> 'f \<Rightarrow> bool" where
  "within_tolerance F tol a b =
     (let diff = fl_abs F (fl_sub F a b)
      in fl_le F diff (tol_abs tol) \<or> fl_le F diff (fl_mul F (tol_rel tol) (fl_max F (fl_abs F a) (fl_abs F b))))"

datatype 'f divergence =
    Value_Divergence (dv_ts_ms: i64) (dv_vendor: 'f) (dv_rest: 'f)
  | Missing_In (dv_ts_ms: i64) (dv_absent_from: string)

text \<open>The loop's \<open>unreachable!\<close> is \<open>None\<close>.\<close>

definition diff_at ::
  "'f f64_ops \<Rightarrow> 'f tolerance \<Rightarrow> (i64 \<times> 'f) list \<Rightarrow> (i64 \<times> 'f) list \<Rightarrow> i64 \<Rightarrow> 'f divergence list option" where
  "diff_at F tol v r ts =
     (case (map_of v ts, map_of r ts) of
        (Some a, Some b) \<Rightarrow> Some (if within_tolerance F tol a b then [] else [Value_Divergence ts a b])
      | (Some _, None) \<Rightarrow> Some [Missing_In ts ''rest'']
      | (None, Some _) \<Rightarrow> Some [Missing_In ts ''vendor'']
      | (None, None) \<Rightarrow> None)"

definition diff_overlap ::
  "'f f64_ops \<Rightarrow> (i64 \<times> 'f) list \<Rightarrow> (i64 \<times> 'f) list \<Rightarrow> 'f tolerance \<Rightarrow> 'f divergence list option" where
  "diff_overlap F vendor rest tol =
     (let v = btree_map vendor; r = btree_map rest
      in map_option concat (map_opt (diff_at F tol v r) (btree_set (map fst v @ map fst r))))"

section \<open>The quality report\<close>

record series_quality =
  sq_series :: string
  sq_integrity :: series_integrity
  sq_coverage :: coverage
  sq_fill :: fill_plan

record 'f data_quality_report =
  dq_vintage_id :: string
  dq_series :: "series_quality list"
  dq_short_history :: "short_coverage list"
  dq_divergences :: "'f divergence list"

record hard_violation_policy =
  hv_max_gap_ms :: i64
  hv_allow_duplicates :: bool
  hv_allow_out_of_order :: bool
  hv_max_divergences :: usize

definition default_violation_policy :: hard_violation_policy where
  "default_violation_policy = \<lparr>hv_max_gap_ms = i64_max, hv_allow_duplicates = False, hv_allow_out_of_order = False,
     hv_max_divergences = u64_modulus - 1\<rparr>"

record violation =
  vi_series :: "string option"
  vi_kind :: string
  vi_detail :: string

definition gap_detail :: "hard_violation_policy \<Rightarrow> gap \<Rightarrow> string" where
  "gap_detail pol g =
     ''gap '' @ show_int (gap_from_ms g) @ ''..'' @ show_int (gap_to_ms g) @ '' ('' @ show_nat (gap_missing g) @
     '' missing) spans '' @ show_int (gap_span_ms g) @ ''ms > bound '' @ show_int (hv_max_gap_ms pol) @ ''ms''"

definition series_violations :: "hard_violation_policy \<Rightarrow> series_quality \<Rightarrow> violation list" where
  "series_violations pol s =
     map (\<lambda>g. \<lparr>vi_series = Some (sq_series s), vi_kind = ''gap_exceeds_bound'', vi_detail = gap_detail pol g\<rparr>)
       (filter (\<lambda>g. gap_span_ms g > hv_max_gap_ms pol) (si_gaps (sq_integrity s))) @
     (if \<not> hv_allow_duplicates pol \<and> si_duplicates (sq_integrity s) \<noteq> []
      then [\<lparr>vi_series = Some (sq_series s), vi_kind = ''duplicates'',
             vi_detail = show_nat (length (si_duplicates (sq_integrity s))) @ '' duplicate timestamps''\<rparr>] else []) @
     (if \<not> hv_allow_out_of_order pol \<and> si_out_of_order (sq_integrity s) \<noteq> []
      then [\<lparr>vi_series = Some (sq_series s), vi_kind = ''out_of_order'',
             vi_detail = show_nat (length (si_out_of_order (sq_integrity s))) @ '' out-of-order timestamps''\<rparr>] else [])"

definition evaluate :: "'f data_quality_report \<Rightarrow> hard_violation_policy \<Rightarrow> (violation list, unit) result" where
  "evaluate rep pol =
     (let v = concat (map (series_violations pol) (dq_series rep)) @
        (if length (dq_divergences rep) > hv_max_divergences pol
         then [\<lparr>vi_series = None, vi_kind = ''too_many_divergences'',
                vi_detail = show_nat (length (dq_divergences rep)) @ '' divergences > max '' @ show_nat (hv_max_divergences pol)\<rparr>]
         else [])
      in if v = [] then Inr () else Inl v)"

section \<open>What the gate lets through\<close>

lemma concat_ascending:
  fixes xs :: "'a::linorder list"
  assumes "\<And>x. x \<in> set xs \<Longrightarrow> (\<forall>e \<in> set (f x). g e = x) \<and> length (f x) \<le> 1" "sorted_wrt (<) xs"
  shows "sorted_wrt (<) (map g (concat (map f xs)))"
  using assms
proof (induction xs)
  case (Cons x xs)
  have "\<forall>e \<in> set (f y). x < g e" if "y \<in> set xs" for y using Cons.prems(1) [of y] Cons.prems(2) that by auto
  moreover have "sorted_wrt (<) (map g (concat (map f xs)))" using Cons by simp
  moreover have "f x = [] \<or> (\<exists>e. f x = [e] \<and> g e = x)"
    using Cons.prems(1) [of x] by (cases "f x") auto
  ultimately show ?case by (auto simp: sorted_wrt_append)
qed simp

lemma diff_overlap_exact:
  "\<exists>ds. diff_overlap F vendor rest tol = Some ds \<and> sorted_wrt (<) (map dv_ts_ms ds) \<and>
     (\<forall>t a b. Value_Divergence t a b \<in> set ds \<longleftrightarrow>
        map_of (rev vendor) t = Some a \<and> map_of (rev rest) t = Some b \<and> \<not> within_tolerance F tol a b) \<and>
     (\<forall>t src. Missing_In t src \<in> set ds \<longleftrightarrow>
        (src = ''rest'' \<and> t \<in> fst ` set vendor \<and> t \<notin> fst ` set rest) \<or>
        (src = ''vendor'' \<and> t \<notin> fst ` set vendor \<and> t \<in> fst ` set rest))"
proof -
  let ?v = "btree_map vendor" and ?r = "btree_map rest"
  let ?ts = "btree_set (map fst ?v @ map fst ?r)"
  define d where "d = (\<lambda>ts. the (diff_at F tol ?v ?r ts))"
  have mem: "t \<in> set ?ts \<longleftrightarrow> map_of ?v t \<noteq> None \<or> map_of ?r t \<noteq> None" for t
    by (auto simp: map_of_eq_None_iff)
  have "diff_at F tol ?v ?r t = Some (d t)" if "t \<in> set ?ts" for t
    using that mem [of t]
    by (auto simp: d_def diff_at_def simp del: btree_set_set map_of_btree_map btree_map_keys split: option.splits)
  then have "map_opt (diff_at F tol ?v ?r) ?ts = Some (map d ?ts)" by (intro map_opt_total ballI)
  then have ds: "diff_overlap F vendor rest tol = Some (concat (map d ?ts))"
    by (simp add: diff_overlap_def Let_def)
  have one: "\<forall>x \<in> set (d t). dv_ts_ms x = t" "length (d t) \<le> 1" if "t \<in> set ?ts" for t
    using that mem [of t] by (auto simp: d_def diff_at_def split: option.splits)
  have srt: "sorted_wrt (<) (map dv_ts_ms (concat (map d ?ts)))"
    using one btree_set_ascending by (intro concat_ascending) blast+
  have keys: "t \<in> fst ` set kvs \<longleftrightarrow> map_of (rev kvs) t \<noteq> None" for t and kvs :: "(i64 \<times> 'a) list"
    by (metis map_of_eq_None_iff set_rev)
  have el: "x \<in> set (concat (map d ?ts)) \<longleftrightarrow> dv_ts_ms x \<in> set ?ts \<and> x \<in> set (d (dv_ts_ms x))" for x
  proof -
    have "x \<in> set (concat (map d ?ts)) \<longleftrightarrow> (\<exists>t \<in> set ?ts. x \<in> set (d t))" by (auto simp del: btree_set_set)
    then show ?thesis using one(1) by metis
  qed
  have vals: "Value_Divergence t a b \<in> set (concat (map d ?ts)) \<longleftrightarrow>
      map_of (rev vendor) t = Some a \<and> map_of (rev rest) t = Some b \<and> \<not> within_tolerance F tol a b" for t a b
    unfolding el mem by (auto simp: d_def diff_at_def split: option.splits)
  have missing: "Missing_In t src \<in> set (concat (map d ?ts)) \<longleftrightarrow>
        (src = ''rest'' \<and> t \<in> fst ` set vendor \<and> t \<notin> fst ` set rest) \<or>
        (src = ''vendor'' \<and> t \<notin> fst ` set vendor \<and> t \<in> fst ` set rest)" for t src
    unfolding el mem keys by (auto simp: d_def diff_at_def split: option.splits)
  show ?thesis
    by (intro exI [of _ "concat (map d ?ts)"] conjI ds srt allI vals missing)
qed

lemma evaluate_ok:
  "evaluate rep pol = Inr () \<longleftrightarrow>
     (\<forall>s \<in> set (dq_series rep).
        (\<forall>g \<in> set (si_gaps (sq_integrity s)). gap_span_ms g \<le> hv_max_gap_ms pol) \<and>
        (hv_allow_duplicates pol \<or> si_duplicates (sq_integrity s) = []) \<and>
        (hv_allow_out_of_order pol \<or> si_out_of_order (sq_integrity s) = [])) \<and>
     length (dq_divergences rep) \<le> hv_max_divergences pol"
proof -
  have "series_violations pol s = [] \<longleftrightarrow>
      (\<forall>g \<in> set (si_gaps (sq_integrity s)). gap_span_ms g \<le> hv_max_gap_ms pol) \<and>
      (hv_allow_duplicates pol \<or> si_duplicates (sq_integrity s) = []) \<and>
      (hv_allow_out_of_order pol \<or> si_out_of_order (sq_integrity s) = [])" for s
    by (auto simp: series_violations_def filter_empty_conv not_less)
  then show ?thesis by (auto simp: evaluate_def Let_def not_less)
qed

lemma gaps_bounded:
  assumes "narrow ts" "0 < i"
  shows "(\<forall>g \<in> set (si_gaps (check_series ts i)). gap_span_ms g \<le> bound) \<longleftrightarrow>
    (\<forall>(a, b) \<in> set (neighbours (btree_set ts)). b - a \<le> max i bound)"
proof (cases "ts = []")
  case True
  then show ?thesis by (simp add: check_series_def btree_set_def)
next
  case False
  have nar: "narrow (btree_set ts)" using assms(1) by (simp add: narrow_def)
  note between = gap_between_neighbours [OF btree_set_ascending nar assms(2)]
  have "si_gaps (check_series ts i) = List.map_filter (gap_between i) (neighbours (btree_set ts))"
    using False assms(2) by (simp add: check_series_def)
  then have "(\<forall>g \<in> set (si_gaps (check_series ts i)). gap_span_ms g \<le> bound) \<longleftrightarrow>
      (\<forall>w \<in> set (neighbours (btree_set ts)). case gap_between i w of None \<Rightarrow> True | Some g \<Rightarrow> gap_span_ms g \<le> bound)"
    by (force simp: List.map_filter_def split: option.splits)
  also have "\<dots> \<longleftrightarrow> (\<forall>(a, b) \<in> set (neighbours (btree_set ts)). b - a \<le> max i bound)"
    using between by (intro ball_cong) (auto simp: gap_span_ms_def max_def split: if_splits)
  finally show ?thesis .
qed

definition quality_of :: "i64 \<Rightarrow> fill_plan \<Rightarrow> string \<times> i64 list \<Rightarrow> series_quality" where
  "quality_of i plan lts = \<lparr>sq_series = fst lts, sq_integrity = check_series (snd lts) i,
     sq_coverage = coverage_of (snd lts) i, sq_fill = plan\<rparr>"

text \<open>
  What the gate lets through. A report made of the integrity checks of its series passes the strict
  policy exactly when every series ascends strictly with no neighbours further apart than the bound (or
  than one interval), and the two sources disagree no more often than allowed; and the disagreements it
  counts are exactly the timestamps whose values differ beyond the tolerance and those one source lacks.
\<close>

theorem quality_gate_is_exact:
  assumes "0 < i" "\<forall>lts \<in> set raw. narrow (snd lts)" "dq_series rep = map (quality_of i plan) raw"
    and "\<not> hv_allow_duplicates pol" "\<not> hv_allow_out_of_order pol"
    and "diff_overlap F vendor rest tol = Some (dq_divergences rep)"
  shows "(evaluate rep pol = Inr () \<longleftrightarrow>
      (\<forall>lts \<in> set raw. sorted_wrt (<) (snd lts) \<and> (\<forall>(a, b) \<in> set (neighbours (snd lts)). b - a \<le> max i (hv_max_gap_ms pol))) \<and>
      card {t. (t \<in> fst ` set vendor) \<noteq> (t \<in> fst ` set rest) \<or>
         (\<exists>a b. map_of (rev vendor) t = Some a \<and> map_of (rev rest) t = Some b \<and> \<not> within_tolerance F tol a b)}
        \<le> hv_max_divergences pol)"
proof -
  let ?ds = "dq_divergences rep"
  from diff_overlap_exact [of F vendor rest tol] obtain ds
    where exact: "diff_overlap F vendor rest tol = Some ds \<and> sorted_wrt (<) (map dv_ts_ms ds) \<and>
     (\<forall>t a b. Value_Divergence t a b \<in> set ds \<longleftrightarrow>
        map_of (rev vendor) t = Some a \<and> map_of (rev rest) t = Some b \<and> \<not> within_tolerance F tol a b) \<and>
     (\<forall>t src. Missing_In t src \<in> set ds \<longleftrightarrow>
        (src = ''rest'' \<and> t \<in> fst ` set vendor \<and> t \<notin> fst ` set rest) \<or>
        (src = ''vendor'' \<and> t \<notin> fst ` set vendor \<and> t \<in> fst ` set rest))" by (rule exE)
  note ds = exact [THEN conjunct1] exact [THEN conjunct2, THEN conjunct1]
    exact [THEN conjunct2, THEN conjunct2, THEN conjunct1, rule_format]
    exact [THEN conjunct2, THEN conjunct2, THEN conjunct2, rule_format]
  have same: "ds = ?ds" using assms(6) ds(1) by simp
  have "dv_ts_ms ` set ds = {t. (t \<in> fst ` set vendor) \<noteq> (t \<in> fst ` set rest) \<or>
         (\<exists>a b. map_of (rev vendor) t = Some a \<and> map_of (rev rest) t = Some b \<and> \<not> within_tolerance F tol a b)}"
  proof (intro equalityI subsetI)
    fix t assume "t \<in> dv_ts_ms ` set ds"
    then obtain x where "x \<in> set ds" "t = dv_ts_ms x" by blast
    then consider a b where "Value_Divergence t a b \<in> set ds" | src where "Missing_In t src \<in> set ds"
      by - (cases x, auto)
    then show "t \<in> {t. (t \<in> fst ` set vendor) \<noteq> (t \<in> fst ` set rest) \<or>
         (\<exists>a b. map_of (rev vendor) t = Some a \<and> map_of (rev rest) t = Some b \<and> \<not> within_tolerance F tol a b)}"
      unfolding ds(3,4) mem_Collect_eq by cases blast+
  next
    fix t assume "t \<in> {t. (t \<in> fst ` set vendor) \<noteq> (t \<in> fst ` set rest) \<or>
         (\<exists>a b. map_of (rev vendor) t = Some a \<and> map_of (rev rest) t = Some b \<and> \<not> within_tolerance F tol a b)}"
    then consider a b where "Value_Divergence t a b \<in> set ds" | src where "Missing_In t src \<in> set ds"
      unfolding mem_Collect_eq ds(3,4) by blast
    then show "t \<in> dv_ts_ms ` set ds" by cases (force intro: rev_image_eqI)+
  qed
  moreover have "length ds = card (dv_ts_ms ` set ds)"
    using ds(2) by (metis distinct_card length_map list.set_map strict_sorted_iff)
  ultimately have count: "length ?ds = card {t. (t \<in> fst ` set vendor) \<noteq> (t \<in> fst ` set rest) \<or>
         (\<exists>a b. map_of (rev vendor) t = Some a \<and> map_of (rev rest) t = Some b \<and> \<not> within_tolerance F tol a b)}"
    using same by simp
  have series: "(\<forall>g \<in> set (si_gaps (check_series ts i)). gap_span_ms g \<le> hv_max_gap_ms pol) \<and>
      si_duplicates (check_series ts i) = [] \<and> si_out_of_order (check_series ts i) = [] \<longleftrightarrow>
      sorted_wrt (<) ts \<and> (\<forall>(a, b) \<in> set (neighbours ts). b - a \<le> max i (hv_max_gap_ms pol))" if "narrow ts" for ts
  proof -
    have "btree_set ts = ts" if "sorted_wrt (<) ts" using that btree_set_ascending by (intro ascending_unique) simp_all
    then show ?thesis
      using gaps_bounded [OF that assms(1)] monotonic_iff_ascending [of ts i] unfolding si_is_monotonic_def by metis
  qed
  have "(\<forall>lts \<in> set raw. (\<forall>g \<in> set (si_gaps (check_series (snd lts) i)). gap_span_ms g \<le> hv_max_gap_ms pol) \<and>
      si_duplicates (check_series (snd lts) i) = [] \<and> si_out_of_order (check_series (snd lts) i) = []) \<longleftrightarrow>
      (\<forall>lts \<in> set raw. sorted_wrt (<) (snd lts) \<and> (\<forall>(a, b) \<in> set (neighbours (snd lts)). b - a \<le> max i (hv_max_gap_ms pol)))"
    using assms(2) series by (intro ball_cong refl) blast
  then show ?thesis
    unfolding evaluate_ok count [symmetric] assms(3) using assms(4,5) by (simp add: quality_of_def)
qed

theorem quality_gate_is_exact_witness:
  "\<exists>ds. diff_overlap rat_ops [(0, 10), (5, 11)] [(0, 10), (5, 12), (9, 1)] \<lparr>tol_abs = 0, tol_rel = 0\<rparr> = Some ds \<and>
     evaluate \<lparr>dq_vintage_id = ''v'', dq_series = [quality_of 5 \<lparr>fl_filled = [], fl_holes = []\<rparr> (''s'', [0, 5, 20])],
        dq_short_history = [], dq_divergences = ds\<rparr> \<lparr>hv_max_gap_ms = 15, hv_allow_duplicates = False, hv_allow_out_of_order = False,
          hv_max_divergences = 2\<rparr> = Inr ()"
proof -
  let ?tol = "\<lparr>tol_abs = 0, tol_rel = 0 :: rat\<rparr>" and ?pol = "\<lparr>hv_max_gap_ms = 15, hv_allow_duplicates = False,
      hv_allow_out_of_order = False, hv_max_divergences = 2\<rparr>"
  let ?v = "[(0, 10), (5, 11)] :: (i64 \<times> rat) list" and ?r = "[(0, 10), (5, 12), (9, 1)] :: (i64 \<times> rat) list"
  have diff: "diff_overlap rat_ops ?v ?r ?tol = Some [Value_Divergence 5 11 12, Missing_In 9 ''vendor'']"
    by (simp add: diff_overlap_def btree_map_def btree_set_def diff_at_def within_tolerance_def rat_ops_def Let_def)
  let ?rep = "\<lparr>dq_vintage_id = ''v'', dq_series = [quality_of 5 \<lparr>fl_filled = [], fl_holes = []\<rparr> (''s'', [0, 5, 20])],
        dq_short_history = [], dq_divergences = [Value_Divergence 5 (11 :: rat) 12, Missing_In 9 ''vendor'']\<rparr>"
  have "{t. (t \<in> fst ` set ?v) \<noteq> (t \<in> fst ` set ?r) \<or>
         (\<exists>a b. map_of (rev ?v) t = Some a \<and> map_of (rev ?r) t = Some b \<and> \<not> within_tolerance rat_ops ?tol a b)} \<subseteq> {5, 9}"
    by (auto simp: within_tolerance_def rat_ops_def split: if_splits)
  then have "card {t. (t \<in> fst ` set ?v) \<noteq> (t \<in> fst ` set ?r) \<or>
         (\<exists>a b. map_of (rev ?v) t = Some a \<and> map_of (rev ?r) t = Some b \<and> \<not> within_tolerance rat_ops ?tol a b)} \<le> card {5, 9 :: i64}"
    by (intro card_mono) simp_all
  moreover have "card {5, 9 :: i64} = 2" by simp
  moreover have "narrow [0, 5, 20]" by (simp add: narrow_def)
  ultimately have "evaluate ?rep ?pol = Inr ()"
    using quality_gate_is_exact [of 5 "[(''s'', [0, 5, 20])]" ?rep "\<lparr>fl_filled = [], fl_holes = []\<rparr>" ?pol rat_ops ?v ?r ?tol] diff
    by simp
  then show ?thesis using diff by blast
qed

end
