(* ===== verification/Universe.thy ===== *)
theory Universe imports Domain_Types begin

text \<open>
  The point-in-time instrument universe (crate \<open>qe-config\<close>, \<open>universe.rs\<close>): listings with their half-open
  windows, the as-of query, and the civil-date arithmetic behind configured dates. A string is its
  bytes; a year is an \<open>i64\<close> small enough that its arithmetic stays in range.
\<close>

section \<open>Listings\<close>

definition open_listing :: timestamp where "open_listing = i64_min"

record instrument_listing =
  il_instrument :: instrument_id
  il_listed :: timestamp
  il_delisted :: "timestamp option"

definition listing_new :: "instrument_id \<Rightarrow> timestamp \<Rightarrow> timestamp option \<Rightarrow> (string, instrument_listing) result" where
  "listing_new i listed delisted =
     (let ok = Inr \<lparr>il_instrument = i, il_listed = listed, il_delisted = delisted\<rparr>
      in case delisted of
           Some d \<Rightarrow> if d < listed then Inl ''delisted date must not be before listed date'' else ok
         | None \<Rightarrow> ok)"

definition open_ended :: "instrument_id \<Rightarrow> instrument_listing" where
  "open_ended i = \<lparr>il_instrument = i, il_listed = open_listing, il_delisted = None\<rparr>"

definition is_tradable_at :: "instrument_listing \<Rightarrow> timestamp \<Rightarrow> bool" where
  "is_tradable_at l as_of \<longleftrightarrow> il_listed l \<le> as_of \<and> (case il_delisted l of None \<Rightarrow> True | Some d \<Rightarrow> as_of < d)"

type_synonym universe = "instrument_listing list"

definition members_at :: "universe \<Rightarrow> timestamp \<Rightarrow> instrument_id list" where
  "members_at u as_of = map il_instrument (filter (\<lambda>l. is_tradable_at l as_of) u)"

definition is_member_at :: "universe \<Rightarrow> instrument_id \<Rightarrow> timestamp \<Rightarrow> bool" where
  "is_member_at u i as_of \<longleftrightarrow> list_ex (\<lambda>l. il_instrument l = i \<and> is_tradable_at l as_of) u"

section \<open>Civil dates\<close>

definition is_leap_year :: "i64 \<Rightarrow> bool" where
  "is_leap_year year \<longleftrightarrow> (year mod 4 = 0 \<and> year mod 100 \<noteq> 0) \<or> year mod 400 = 0"

definition days_in_month :: "i64 \<Rightarrow> u32 \<Rightarrow> u32" where
  "days_in_month year month =
     (if month \<in> {1, 3, 5, 7, 8, 10, 12} then 31
      else if month \<in> {4, 6, 9, 11} then 30
      else if month = 2 then if is_leap_year year then 29 else 28
      else 0)"

definition days_from_civil :: "i64 \<Rightarrow> u32 \<Rightarrow> u32 \<Rightarrow> i64" where
  "days_from_civil y0 m0 d0 =
     (let y = (if m0 \<le> 2 then y0 - 1 else y0);
          era = tdiv (if y \<ge> 0 then y else y - 399) 400;
          yoe = y - era * 400;
          m = int m0; d = int d0;
          doy = tdiv (153 * (if m > 2 then m - 3 else m + 9) + 2) 5 + d - 1;
          doe = yoe * 365 + tdiv yoe 4 - tdiv yoe 100 + doy
      in era * 146097 + doe - 719468)"

definition date_error :: string where "date_error = ''date must be ISO `YYYY-MM-DD`''"

definition parse_iso_date :: "string \<Rightarrow> (string, timestamp) result" where
  "parse_iso_date s =
     (if length s \<noteq> 10 \<or> s ! 4 \<noteq> CHR ''-'' \<or> s ! 7 \<noteq> CHR ''-'' then Inl date_error
      else
        let ys = take 4 s; ms = take 2 (drop 5 s); ds = drop 8 s
        in if \<not> (list_all is_ascii_digit ys \<and> list_all is_ascii_digit ms \<and> list_all is_ascii_digit ds) then Inl date_error
           else
             let year = int (parse_digits ys); month = parse_digits ms; day = parse_digits ds
             in if \<not> (1 \<le> month \<and> month \<le> 12) then Inl ''month out of range 1..=12''
                else if day < 1 \<or> day > days_in_month year month then Inl ''day out of range for month''
                else Inr (days_from_civil year month day * 86400000))"

section \<open>The calendar is right\<close>

definition valid_date :: "i64 \<Rightarrow> u32 \<Rightarrow> u32 \<Rightarrow> bool" where
  "valid_date y m d \<longleftrightarrow> 1 \<le> m \<and> m \<le> 12 \<and> 1 \<le> d \<and> d \<le> days_in_month y m"

text \<open>The days before the March a shifted year starts in, in closed form.\<close>

definition march_days :: "int \<Rightarrow> int" where
  "march_days y = 365 * y + y div 4 - y div 100 + y div 400"

definition month_offset :: "u32 \<Rightarrow> int" where
  "month_offset m = (153 * (if m > 2 then int m - 3 else int m + 9) + 2) div 5"

lemma era_div: "tdiv (if y \<ge> 0 then y else y - 399) 400 = y div 400"
proof (cases "0 \<le> y")
  case True
  then show ?thesis by (simp add: tdiv_pos)
next
  case False
  have "(399 - y) div 400 = - (y div 400)"
  proof (rule int_div_pos_eq)
    show "399 - y = 400 * - (y div 400) + (399 - y mod 400)" using mult_div_mod_eq [of 400 y] by linarith
  qed (simp_all add: pos_mod_bound [of 400 y, simplified le_diff_eq])
  then show ?thesis using False by (simp add: tdiv_def)
qed

lemma div_within_era: "0 < k \<Longrightarrow> (y - e * (n * k)) div k = y div k - e * n" for y k n e :: int
  using div_mult_self1 [of k y "- (e * n)"] by (simp add: mult.assoc)

lemma days_from_civil_closed:
  assumes "1 \<le> m"
  shows "days_from_civil y m d = march_days (if m \<le> 2 then y - 1 else y) + month_offset m + int d - 1 - 719468"
proof -
  define Y where "Y = (if m \<le> 2 then y - 1 else y)"
  define e where "e = Y div 400"
  have yoe: "0 \<le> Y - e * 400" unfolding e_def by (simp add: minus_div_mult_eq_mod)
  have "tdiv (Y - e * 400) 4 = Y div 4 - e * 100" "tdiv (Y - e * 400) 100 = Y div 100 - e * 4"
    using yoe div_within_era [of 4 Y e 100] div_within_era [of 100 Y e 4] by (simp_all add: tdiv_pos)
  moreover have "tdiv (153 * (if int m > 2 then int m - 3 else int m + 9) + 2) 5 = month_offset m"
    using assms by (simp add: month_offset_def tdiv_pos)
  ultimately show ?thesis
    unfolding days_from_civil_def march_days_def Let_def era_div Y_def [symmetric] e_def [symmetric] by simp
qed

lemma div_pred: "0 < k \<Longrightarrow> y div k - (y - 1) div k = (if y mod k = 0 then 1 else 0)" for y k :: int
proof (cases "y mod k = 0")
  case True
  assume "0 < k"
  then have "(y - 1) div k = y div k - 1"
    using True mult_div_mod_eq [of k y] by (intro int_div_pos_eq [where r = "k - 1"]) (simp_all add: algebra_simps)
  then show ?thesis using True by simp
next
  case False
  assume k: "0 < k"
  then have "0 < y mod k" "y mod k < k"
    using False pos_mod_bound [of k y] pos_mod_sign [of k y] by linarith+
  then have "(y - 1) div k = y div k"
    using mult_div_mod_eq [of k y] by (intro int_div_pos_eq [where r = "y mod k - 1"]) simp_all
  then show ?thesis using False by simp
qed

lemma march_days_step: "march_days y - march_days (y - 1) = (if is_leap_year y then 366 else 365)"
proof -
  have "march_days y - march_days (y - 1) =
      365 + (if y mod 4 = 0 then 1 else 0) - (if y mod 100 = 0 then 1 else 0) + (if y mod 400 = 0 then 1 else 0)"
  proof -
    have split: "(365 * y + (a + p) - (b + q) + (c + r)) - (365 * (y - 1) + a - b + c) = 365 + p - q + r" for a b c p q r :: int
      by (simp add: algebra_simps)
    have "y div k = (y - 1) div k + (if y mod k = 0 then 1 else 0)" if "0 < k" for k
      using div_pred [OF that, of y] by simp
    then show ?thesis
      using split [of "(y - 1) div 4" "if y mod 4 = 0 then 1 else 0" "(y - 1) div 100" "if y mod 100 = 0 then 1 else 0"
          "(y - 1) div 400" "if y mod 400 = 0 then 1 else 0"]
      by (simp only: march_days_def zero_less_numeral)
  qed
  moreover have "y mod 400 = 0 \<Longrightarrow> y mod 100 = 0" "y mod 100 = 0 \<Longrightarrow> y mod 4 = 0"
    using mod_mod_cancel [of 100 400 y] mod_mod_cancel [of 4 100 y] by simp_all
  ultimately show ?thesis
    by (cases "y mod 400 = 0"; cases "y mod 100 = 0"; cases "y mod 4 = 0") (auto simp: is_leap_year_def)
qed

text \<open>The day after a date.\<close>

definition next_date :: "i64 \<times> u32 \<times> u32 \<Rightarrow> i64 \<times> u32 \<times> u32" where
  "next_date = (\<lambda>(y, m, d). if d < days_in_month y m then (y, m, d + 1) else if m < 12 then (y, m + 1, 1) else (y + 1, 1, 1))"

lemma month_cases: "1 \<le> m \<Longrightarrow> m \<le> 12 \<Longrightarrow> m \<in> {1, 2, 3, 4, 5, 6, 7, 8, 9, 10, 11, 12 :: nat}"
  unfolding insert_iff empty_iff by presburger

lemma next_day:
  assumes "valid_date y m d" "next_date (y, m, d) = (y', m', d')"
  shows "days_from_civil y' m' d' = days_from_civil y m d + 1 \<and> valid_date y' m' d'"
proof -
  have m: "1 \<le> m" "m \<le> 12" "1 \<le> d" "d \<le> days_in_month y m" using assms(1) by (simp_all add: valid_date_def)
  show ?thesis
  proof (cases "d < days_in_month y m")
    case True
    then show ?thesis using assms m by (auto simp: next_date_def days_from_civil_closed valid_date_def)
  next
    case False
    then have d: "d = days_in_month y m" using m by simp
    have step: "march_days y = march_days (y - 1) + (if is_leap_year y then 366 else 365)"
      using march_days_step [of y] by linarith
    show ?thesis
      using month_cases [OF m(1,2)] assms(2) d step
      by (elim insertE emptyE)
        (auto simp: next_date_def days_from_civil_closed month_offset_def valid_date_def days_in_month_def)
  qed
qed

section \<open>Dates as text\<close>

text \<open>\<open>{:04}\<close> and \<open>{:02}\<close>: zeros between the sign and the digits, up to the width.\<close>

definition pad_nat :: "nat \<Rightarrow> nat \<Rightarrow> string" where
  "pad_nat w n = replicate (w - length (show_nat n)) CHR ''0'' @ show_nat n"

definition pad_int :: "nat \<Rightarrow> int \<Rightarrow> string" where
  "pad_int w x = (if x < 0 then CHR ''-'' # pad_nat (w - 1) (nat (- x)) else pad_nat w (nat x))"

definition iso_date :: "int \<Rightarrow> u32 \<Rightarrow> u32 \<Rightarrow> string" where
  "iso_date y m d = pad_int 4 y @ ''-'' @ pad_nat 2 m @ ''-'' @ pad_nat 2 d"

lemma show_nat_length: "n < 10 ^ Suc w \<Longrightarrow> length (show_nat n) \<le> Suc w"
proof (induction w arbitrary: n)
  case 0
  then show ?case by (simp add: show_nat.simps [of n])
next
  case (Suc w)
  then have "n div 10 < 10 ^ Suc w" by (simp add: less_mult_imp_div_less)
  then show ?case using Suc.IH [of "n div 10"] by (simp add: show_nat.simps [of n])
qed

lemma pad_nat_length: "n < 10 ^ w \<Longrightarrow> 0 < w \<Longrightarrow> length (pad_nat w n) = w"
  using show_nat_length [of n "w - 1"] by (simp add: pad_nat_def)

lemma parse_pad_nat [simp]: "parse_digits (pad_nat w n) = n"
proof -
  have "parse_digits (replicate k CHR ''0'' @ t) = parse_digits t" for k t
    by (induction k) (simp_all add: parse_digits_def char_digit_def)
  then show ?thesis by (simp add: pad_nat_def)
qed

lemma pad_nat_digits: "list_all is_ascii_digit (pad_nat w n)"
  by (auto simp: list_all_iff pad_nat_def is_ascii_digit_def dest: show_nat_digits)

lemma days_in_month_le: "days_in_month y m \<le> 31"
  by (simp add: days_in_month_def)

lemma parse_iso_text:
  assumes "valid_date y m d" "0 \<le> y" "y \<le> 9999"
  shows "parse_iso_date (iso_date y m d) = Inr (days_from_civil y m d * 86400000)"
proof -
  define ys ms ds where "ys = pad_nat 4 (nat y)" and "ms = pad_nat 2 m" and "ds = pad_nat 2 d"
  have bounds: "nat y < 10 ^ 4" "m < 10 ^ 2" "d < 10 ^ 2"
    using assms days_in_month_le [of y m] by (simp_all add: valid_date_def)
  then have len: "length ys = 4" "length ms = 2" "length ds = 2" by (simp_all add: ys_def ms_def ds_def pad_nat_length)
  have iso: "iso_date y m d = ys @ ''-'' @ ms @ ''-'' @ ds"
    using assms(2) by (simp add: iso_date_def pad_int_def ys_def ms_def ds_def)
  have "list_all is_ascii_digit ys \<and> list_all is_ascii_digit ms \<and> list_all is_ascii_digit ds"
    by (simp add: ys_def ms_def ds_def pad_nat_digits)
  moreover have "int (parse_digits ys) = y" "parse_digits ms = m" "parse_digits ds = d"
    using assms(2) by (simp_all add: ys_def ms_def ds_def)
  ultimately show ?thesis
    using assms(1) len unfolding iso parse_iso_date_def valid_date_def
    by (simp add: nth_append)
qed

lemma parse_iso_valid:
  assumes "parse_iso_date s = Inr t"
  shows "\<exists>y m d. valid_date y m d \<and> t = days_from_civil y m d * 86400000"
proof (intro exI)
  let ?y = "int (parse_digits (take 4 s))" and ?m = "parse_digits (take 2 (drop 5 s))" and ?d = "parse_digits (drop 8 s)"
  show "valid_date ?y ?m ?d \<and> t = days_from_civil ?y ?m ?d * 86400000"
    using assms unfolding parse_iso_date_def valid_date_def Let_def by (auto split: if_splits)
qed

text \<open>
  The calendar is right. The epoch is day zero, the date after a valid date is the next day and again
  valid, across month ends, leap days and years; a date text parses to its midnight, and whatever parses
  is a date that exists.
\<close>

theorem civil_calendar_correct:
  "days_from_civil 1970 1 1 = 0 \<and>
   (valid_date y m d \<longrightarrow> (case next_date (y, m, d) of (y', m', d') \<Rightarrow>
      valid_date y' m' d' \<and> days_from_civil y' m' d' = days_from_civil y m d + 1)) \<and>
   (valid_date y m d \<longrightarrow> 0 \<le> y \<longrightarrow> y \<le> 9999 \<longrightarrow>
      parse_iso_date (iso_date y m d) = Inr (days_from_civil y m d * 86400000)) \<and>
   (parse_iso_date s = Inr t \<longrightarrow> (\<exists>y m d. valid_date y m d \<and> t = days_from_civil y m d * 86400000))"
proof (intro conjI impI)
  show "days_from_civil 1970 1 1 = 0" by (simp add: days_from_civil_def tdiv_def)
  show "valid_date y m d \<Longrightarrow> case next_date (y, m, d) of (y', m', d') \<Rightarrow>
      valid_date y' m' d' \<and> days_from_civil y' m' d' = days_from_civil y m d + 1"
    using next_day [of y m d] by (cases "next_date (y, m, d)") simp
qed (simp_all add: parse_iso_text parse_iso_valid)

theorem civil_calendar_correct_witness:
  "valid_date 2024 3 1 \<and> days_from_civil 2024 3 1 = days_from_civil 2024 2 29 + 1"
proof -
  have "valid_date 2024 2 29" by (simp add: valid_date_def days_in_month_def is_leap_year_def)
  moreover have "next_date (2024, 2, 29) = (2024, 3, 1)" by (simp add: next_date_def days_in_month_def is_leap_year_def)
  ultimately show ?thesis using civil_calendar_correct [of 2024 2 29] by simp
qed

section \<open>As-of membership\<close>

lemma members_at_iff: "i \<in> set (members_at u t) \<longleftrightarrow> is_member_at u i t"
  by (auto simp: members_at_def is_member_at_def list_ex_iff)

lemma listing_new_ordered: "listing_new i a d = Inr l \<Longrightarrow> il_delisted l = Some e \<Longrightarrow> il_listed l \<le> e"
  by (auto simp: listing_new_def Let_def split: option.splits if_splits)

end
