(* ===== verification/Dump_Plan.thy ===== *)
theory Dump_Plan imports Universe begin

text \<open>
  What to download (crate \<open>qe-ingest\<close>): the layout of the public dumps (\<open>source.rs\<close>), the enumeration
  of files against the universe's listing windows (\<open>plan.rs\<close>), the fetch-all resolution
  (\<open>fetch_all.rs\<close>) and the liquidity screen (\<open>liquidity.rs\<close>). The month loop recurses until it passes
  the last month; with years at the edge of the integers it would wrap and never end, which is \<open>None\<close>.
\<close>

section \<open>Periods\<close>

record date =
  dt_year :: i32
  dt_month :: u32
  dt_day :: u32

record year_month =
  ym_year :: i32
  ym_month :: u32

definition ym_succ :: "year_month \<Rightarrow> year_month" where
  "ym_succ ym =
     (if ym_month ym = 12 then \<lparr>ym_year = wrap_i32 (ym_year ym + 1), ym_month = 1\<rparr>
      else \<lparr>ym_year = ym_year ym, ym_month = (ym_month ym + 1) mod u32_modulus\<rparr>)"

definition ym_iso :: "year_month \<Rightarrow> string" where
  "ym_iso ym = pad_int 4 (ym_year ym) @ ''-'' @ pad_nat 2 (ym_month ym)"

definition date_iso :: "date \<Rightarrow> string" where
  "date_iso d = iso_date (dt_year d) (dt_month d) (dt_day d)"

datatype period = Daily date | Monthly year_month

fun period_segment :: "period \<Rightarrow> string" where
  "period_segment (Daily _) = ''daily''"
| "period_segment (Monthly _) = ''monthly''"

fun period_label :: "period \<Rightarrow> string" where
  "period_label (Daily d) = date_iso d"
| "period_label (Monthly m) = ym_iso m"

definition period_start :: "period \<Rightarrow> timestamp option" where
  "period_start p =
     (case parse_iso_date (case p of Daily d \<Rightarrow> date_iso d | Monthly m \<Rightarrow> ym_iso m @ ''-01'') of
        Inl _ \<Rightarrow> None | Inr t \<Rightarrow> Some t)"

section \<open>Dump files\<close>

datatype data_kind = Klines resolution | Premium_Index_Klines resolution | Funding_Rate | Metrics

fun kind_dir :: "data_kind \<Rightarrow> string" where
  "kind_dir (Klines _) = ''klines''"
| "kind_dir (Premium_Index_Klines _) = ''premiumIndexKlines''"
| "kind_dir Funding_Rate = ''fundingRate''"
| "kind_dir Metrics = ''metrics''"

definition kind_file_token :: "data_kind \<Rightarrow> string" where "kind_file_token k = kind_dir k"

fun kind_resolution :: "data_kind \<Rightarrow> resolution option" where
  "kind_resolution (Klines r) = Some r"
| "kind_resolution (Premium_Index_Klines r) = Some r"
| "kind_resolution _ = None"

record dump_file =
  df_instrument :: instrument_id
  df_kind :: data_kind
  df_period :: period

definition relative_path :: "dump_file \<Rightarrow> string" where
  "relative_path f =
     (let sym = instrument_str (df_instrument f); seg = period_segment (df_period f); dir = kind_dir (df_kind f);
          token = kind_file_token (df_kind f); label = period_label (df_period f)
      in case kind_resolution (df_kind f) of
           Some res \<Rightarrow> let iv = resolution_str res
             in ''data/futures/um/'' @ seg @ ''/'' @ dir @ ''/'' @ sym @ ''/'' @ iv @ ''/'' @ sym @ ''-'' @ iv @ ''-'' @ label @ ''.zip''
         | None \<Rightarrow> ''data/futures/um/'' @ seg @ ''/'' @ dir @ ''/'' @ sym @ ''/'' @ sym @ ''-'' @ token @ ''-'' @ label @ ''.zip'')"

definition dump_url :: "dump_file \<Rightarrow> string \<Rightarrow> string" where
  "dump_url f base = base @ ''/'' @ relative_path f"

definition checksum_relative_path :: "dump_file \<Rightarrow> string" where
  "checksum_relative_path f = relative_path f @ ''.CHECKSUM''"

definition checksum_url :: "dump_file \<Rightarrow> string \<Rightarrow> string" where
  "checksum_url f base = base @ ''/'' @ checksum_relative_path f"

section \<open>Enumerating targets\<close>

datatype granularity = Per_Day | Per_Month

fun kind_granularity :: "data_kind \<Rightarrow> granularity" where
  "kind_granularity Metrics = Per_Day"
| "kind_granularity (Klines _) = Per_Month"
| "kind_granularity (Premium_Index_Klines _) = Per_Month"
| "kind_granularity Funding_Rate = Per_Month"

definition month_days :: "year_month \<Rightarrow> u32" where
  "month_days ym =
     (let y = ym_year ym; m = ym_month ym; leap = (y mod 4 = 0 \<and> y mod 100 \<noteq> 0) \<or> y mod 400 = 0
      in if m \<in> {1, 3, 5, 7, 8, 10, 12} then 31
         else if m \<in> {4, 6, 9, 11} then 30
         else if m = 2 then if leap then 29 else 28
         else 0)"

definition ym_le :: "year_month \<Rightarrow> year_month \<Rightarrow> bool" where
  "ym_le a b \<longleftrightarrow> ym_year a < ym_year b \<or> ym_year a = ym_year b \<and> ym_month a \<le> ym_month b"

partial_function (option) months :: "year_month \<Rightarrow> year_month \<Rightarrow> year_month list option" where
  "months cur stop =
     (if ym_le cur stop then Option.bind (months (ym_succ cur) stop) (\<lambda>rest. Some (cur # rest)) else Some [])"

definition overlaps :: "period \<Rightarrow> i64 \<Rightarrow> i64 \<Rightarrow> i64 option \<Rightarrow> bool" where
  "overlaps p p_end listed delisted =
     (case period_start p of
        None \<Rightarrow> False
      | Some p_start \<Rightarrow> listed < p_end \<and> (case delisted of None \<Rightarrow> True | Some d \<Rightarrow> p_start < d))"

definition month_end :: "year_month \<Rightarrow> i64" where
  "month_end ym = (case period_start (Monthly (ym_succ ym)) of None \<Rightarrow> i64_max | Some t \<Rightarrow> t)"

definition day_end :: "date \<Rightarrow> i64" where
  "day_end d = (case period_start (Daily d) of None \<Rightarrow> i64_max | Some t \<Rightarrow> wrap_i64 (t + 86400000))"

definition days_of :: "year_month \<Rightarrow> date list" where
  "days_of ym = map (\<lambda>day. \<lparr>dt_year = ym_year ym, dt_month = ym_month ym, dt_day = day\<rparr>) [1..<Suc (month_days ym)]"

definition kind_targets :: "instrument_listing \<Rightarrow> year_month list \<Rightarrow> data_kind \<Rightarrow> dump_file list" where
  "kind_targets l yms kind =
     (let file = (\<lambda>p. \<lparr>df_instrument = il_instrument l, df_kind = kind, df_period = p\<rparr>)
      in case kind_granularity kind of
           Per_Month \<Rightarrow> map (file \<circ> Monthly) (filter (\<lambda>ym. overlaps (Monthly ym) (month_end ym) (il_listed l) (il_delisted l)) yms)
         | Per_Day \<Rightarrow> map (file \<circ> Daily)
             (filter (\<lambda>d. overlaps (Daily d) (day_end d) (il_listed l) (il_delisted l)) (concat (map days_of yms))))"

definition enumerate_targets :: "universe \<Rightarrow> data_kind list \<Rightarrow> year_month \<Rightarrow> year_month \<Rightarrow> dump_file list option" where
  "enumerate_targets u kinds from_ym to_ym =
     map_option (\<lambda>yms. concat (map (\<lambda>l. concat (map (kind_targets l yms) kinds)) u)) (months from_ym to_ym)"

section \<open>Fetch-all and the liquidity screen\<close>

record fetch_all_resolution =
  far_instruments :: "instrument_id list"
  far_survivorship_unsafe :: bool

definition resolve_fetch_all :: "universe \<Rightarrow> fetch_all_resolution" where
  "resolve_fetch_all u = \<lparr>far_instruments = map il_instrument u,
     far_survivorship_unsafe = (u = [] \<or> list_all (\<lambda>l. il_listed l = open_listing) u)\<rparr>"

record liquidity_input =
  li_instrument :: instrument_id
  li_rolling_adv_usd :: "decimal option"

datatype liquidity_verdict = Tradable | Thin | Uncalibrated_Adv

definition default_min_adv_usd :: decimal where "default_min_adv_usd = 2000000"

fun liquidity_str :: "liquidity_verdict \<Rightarrow> string" where
  "liquidity_str Tradable = ''tradable''"
| "liquidity_str Thin = ''thin''"
| "liquidity_str Uncalibrated_Adv = ''uncalibrated''"

record screened_instrument =
  sc_instrument :: instrument_id
  sc_verdict :: liquidity_verdict

definition screen_liquidity :: "liquidity_input list \<Rightarrow> decimal \<Rightarrow> screened_instrument list" where
  "screen_liquidity candidates min_adv =
     map (\<lambda>c. \<lparr>sc_instrument = li_instrument c,
        sc_verdict = (case li_rolling_adv_usd c of
            None \<Rightarrow> Uncalibrated_Adv
          | Some adv \<Rightarrow> if adv < min_adv then Thin else Tradable)\<rparr>) candidates"

definition tradable_only :: "screened_instrument list \<Rightarrow> instrument_id list" where
  "tradable_only screened = map sc_instrument (filter (\<lambda>s. sc_verdict s = Tradable) screened)"

section \<open>Months and days tile time\<close>

definition valid_ym :: "year_month \<Rightarrow> bool" where
  "valid_ym ym \<longleftrightarrow> 1 \<le> ym_month ym \<and> ym_month ym \<le> 12 \<and> 0 \<le> ym_year ym \<and> ym_year ym \<le> 9999"

lemma month_days_calendar: "month_days ym = days_in_month (ym_year ym) (ym_month ym)"
  by (simp add: month_days_def days_in_month_def is_leap_year_def Let_def)

text \<open>A month as a number, so that the month after is the next number.\<close>

definition ym_index :: "year_month \<Rightarrow> int" where
  "ym_index ym = 12 * ym_year ym + int (ym_month ym)"

lemma ym_succ_index:
  "valid_ym ym \<Longrightarrow> ym_index (ym_succ ym) = ym_index ym + 1 \<and> 1 \<le> ym_month (ym_succ ym) \<and> ym_month (ym_succ ym) \<le> 12 \<and>
     0 \<le> ym_year (ym_succ ym) \<and> ym_year (ym_succ ym) \<le> 10000"
  by (auto simp: ym_succ_def ym_index_def valid_ym_def wrap_i32_def)

lemma ym_le_index:
  "1 \<le> ym_month a \<Longrightarrow> ym_month a \<le> 12 \<Longrightarrow> 1 \<le> ym_month b \<Longrightarrow> ym_month b \<le> 12 \<Longrightarrow> ym_le a b \<longleftrightarrow> ym_index a \<le> ym_index b"
  unfolding ym_le_def ym_index_def by linarith

lemma ym_index_inject:
  assumes "1 \<le> ym_month a" "ym_month a \<le> 12" "1 \<le> ym_month b" "ym_month b \<le> 12" "ym_index a = ym_index b"
  shows "a = b"
proof -
  have y: "ym_year a = ym_year b" using assms unfolding ym_index_def by linarith
  then have "int (ym_month a) = int (ym_month b)" using assms(5) unfolding ym_index_def by linarith
  note y this
  then show ?thesis by (cases a; cases b) simp
qed

lemma months_between:
  assumes "1 \<le> ym_month a" "ym_month a \<le> 12" "0 \<le> ym_year a" "ym_year a \<le> 10000" "valid_ym b"
  shows "\<exists>yms. months a b = Some yms \<and> set yms = {ym. valid_ym ym \<and> ym_index a \<le> ym_index ym \<and> ym_index ym \<le> ym_index b} \<and>
    sorted_wrt (\<lambda>x y. ym_index x < ym_index y) yms"
  using assms(1-4)
proof (induction "nat (ym_index b + 1 - ym_index a)" arbitrary: a rule: less_induct)
  case less
  have b: "1 \<le> ym_month b" "ym_month b \<le> 12" using assms(5) by (simp_all add: valid_ym_def)
  note le = ym_le_index [OF less.prems(1,2) b]
  show ?case
  proof (cases "ym_le a b")
    case True
    then have a: "valid_ym a" using less.prems assms(5) by (auto simp: valid_ym_def ym_le_def)
    have idx: "ym_index (ym_succ a) = ym_index a + 1" using ym_succ_index [OF a] by simp
    obtain rest where rest: "months (ym_succ a) b = Some rest"
      "set rest = {ym. valid_ym ym \<and> ym_index (ym_succ a) \<le> ym_index ym \<and> ym_index ym \<le> ym_index b}"
      "sorted_wrt (\<lambda>x y. ym_index x < ym_index y) rest"
      using less.hyps [of "ym_succ a"] ym_succ_index [OF a] True le by auto
    have "set (a # rest) = {ym. valid_ym ym \<and> ym_index a \<le> ym_index ym \<and> ym_index ym \<le> ym_index b}"
    proof (intro equalityI subsetI)
      fix ym assume "ym \<in> {ym. valid_ym ym \<and> ym_index a \<le> ym_index ym \<and> ym_index ym \<le> ym_index b}"
      moreover have "ym = a" if "ym_index ym = ym_index a" "valid_ym ym"
        using that a by (intro ym_index_inject) (simp_all add: valid_ym_def)
      ultimately show "ym \<in> set (a # rest)" using rest(2) idx by force
    qed (use a True le rest(2) idx in auto)
    then show ?thesis
      using True rest idx by (subst months.simps) auto
  next
    case False
    then have "\<not> ym_index a \<le> ym_index b" using le by simp
    then have "{ym. valid_ym ym \<and> ym_index a \<le> ym_index ym \<and> ym_index ym \<le> ym_index b} = {}" by auto
    with False show ?thesis by (subst months.simps) simp
  qed
qed

lemma pad_one: "pad_nat 2 1 = ''01''"
  by code_simp

lemma iso_month: "ym_iso ym @ ''-01'' = iso_date (ym_year ym) (ym_month ym) 1"
  unfolding ym_iso_def iso_date_def pad_one by simp

lemma days_in_month_pos: "1 \<le> m \<Longrightarrow> m \<le> 12 \<Longrightarrow> 28 \<le> days_in_month y m"
  using month_cases [of m] by (auto simp: days_in_month_def)

lemma day_start:
  "valid_date y m d \<Longrightarrow> 0 \<le> y \<Longrightarrow> y \<le> 9999 \<Longrightarrow>
     period_start (Daily \<lparr>dt_year = y, dt_month = m, dt_day = d\<rparr>) = Some (days_from_civil y m d * 86400000)"
  by (simp add: period_start_def date_iso_def parse_iso_text)

lemma month_start:
  "valid_ym ym \<Longrightarrow> period_start (Monthly ym) = Some (days_from_civil (ym_year ym) (ym_month ym) 1 * 86400000)"
  using days_in_month_pos [of "ym_month ym" "ym_year ym"]
  by (simp add: period_start_def iso_month parse_iso_text valid_date_def valid_ym_def)

text \<open>A month's days run up to the next month's first.\<close>

lemma month_length:
  assumes "valid_ym ym"
  shows "days_from_civil (ym_year (ym_succ ym)) (ym_month (ym_succ ym)) 1 =
    days_from_civil (ym_year ym) (ym_month ym) 1 + int (month_days ym)"
proof -
  let ?y = "ym_year ym" and ?m = "ym_month ym" and ?d = "days_in_month (ym_year ym) (ym_month ym)"
  have v: "1 \<le> ?m" "?m \<le> 12" "0 \<le> ?y" "?y \<le> 9999" using assms by (simp_all add: valid_ym_def)
  have "valid_date ?y ?m ?d" using v days_in_month_pos [of ?m ?y] by (simp add: valid_date_def)
  moreover have "next_date (?y, ?m, ?d) = (ym_year (ym_succ ym), ym_month (ym_succ ym), 1)"
    using v by (auto simp: next_date_def ym_succ_def wrap_i32_def)
  ultimately have "days_from_civil (ym_year (ym_succ ym)) (ym_month (ym_succ ym)) 1 = days_from_civil ?y ?m ?d + 1"
    using next_day by blast
  then show ?thesis using v by (simp add: days_from_civil_closed month_days_calendar)
qed

section \<open>Targets cover the listing windows\<close>

definition period_end :: "period \<Rightarrow> i64" where
  "period_end p = (case p of Daily d \<Rightarrow> day_end d | Monthly ym \<Rightarrow> month_end ym)"

definition covers :: "period \<Rightarrow> i64 \<Rightarrow> bool" where
  "covers p t \<longleftrightarrow> (\<exists>a. period_start p = Some a \<and> a \<le> t) \<and> t < period_end p"

abbreviation first_of :: "year_month \<Rightarrow> i64" where
  "first_of ym \<equiv> days_from_civil (ym_year ym) (ym_month ym) 1 * 86400000"

definition near_ym :: "year_month \<Rightarrow> bool" where
  "near_ym ym \<longleftrightarrow> valid_ym ym \<and> ym_year ym < 9999"

lemma near_succ: "near_ym ym \<Longrightarrow> valid_ym ym \<and> valid_ym (ym_succ ym)"
  by (auto simp: near_ym_def valid_ym_def ym_succ_def wrap_i32_def)

lemma month_end_first: "near_ym ym \<Longrightarrow> month_end ym = first_of (ym_succ ym)"
  using near_succ [of ym] by (simp add: month_end_def month_start)

lemma month_span: "near_ym ym \<Longrightarrow> month_end ym = first_of ym + int (month_days ym) * 86400000"
  using near_succ [of ym] month_length [of ym] by (simp add: month_end_first distrib_right)

lemma month_covers: "near_ym ym \<Longrightarrow> covers (Monthly ym) t \<longleftrightarrow> first_of ym \<le> t \<and> t < month_end ym"
  using near_succ [of ym] by (simp add: covers_def period_end_def month_start)

lemma some_month:
  assumes "near_ym a" "near_ym b" "ym_index a \<le> ym_index b" "first_of a \<le> t" "t < month_end b"
  shows "\<exists>ym. near_ym ym \<and> ym_index a \<le> ym_index ym \<and> ym_index ym \<le> ym_index b \<and> covers (Monthly ym) t"
  using assms
proof (induction "nat (ym_index b - ym_index a)" arbitrary: a rule: less_induct)
  case less
  show ?case
  proof (cases "t < month_end a")
    case True
    then show ?thesis using less.prems by (intro exI [of _ a]) (simp add: month_covers)
  next
    case False
    have succ: "ym_index (ym_succ a) = ym_index a + 1" "valid_ym (ym_succ a)"
      using ym_succ_index [of a] near_succ [OF less.prems(1)] by simp_all
    have "ym_index a \<noteq> ym_index b"
    proof
      assume "ym_index a = ym_index b"
      then have "a = b" using less.prems(1,2) by (intro ym_index_inject) (simp_all add: near_ym_def valid_ym_def)
      then show False using False less.prems(5) by simp
    qed
    then have le: "ym_index (ym_succ a) \<le> ym_index b" using succ less.prems(3) by simp
    have v: "1 \<le> ym_month (ym_succ a)" "ym_month (ym_succ a) \<le> 12" "1 \<le> ym_month b" "ym_month b \<le> 12"
      using succ(2) less.prems(2) by (simp_all add: near_ym_def valid_ym_def)
    then have "ym_le (ym_succ a) b" using le by (simp add: ym_le_index)
    then have near: "near_ym (ym_succ a)" using succ(2) less.prems(2) by (auto simp: near_ym_def ym_le_def)
    moreover have "first_of (ym_succ a) \<le> t" using False month_end_first [OF less.prems(1)] by simp
    ultimately show ?thesis
      using less.hyps [of "ym_succ a"] le less.prems succ(1) by (auto intro: order_trans [of _ "ym_index a + 1"])
  qed
qed

lemma days_small: "valid_date y m d \<Longrightarrow> 0 \<le> y \<Longrightarrow> y \<le> 9999 \<Longrightarrow> \<bar>days_from_civil y m d\<bar> \<le> 5000000"
proof -
  assume v: "valid_date y m d" "0 \<le> y" "y \<le> 9999"
  define Y where "Y = (if m \<le> 2 then y - 1 else y)"
  have Y: "- 1 \<le> Y" "Y \<le> 9999" using v by (simp_all add: Y_def)
  then have "- 1 \<le> Y div 4" "Y div 4 \<le> 2500" "- 1 \<le> Y div 100" "Y div 100 \<le> 100" "- 1 \<le> Y div 400" "Y div 400 \<le> 25"
    using zdiv_mono1 [of "- 1" Y 4] zdiv_mono1 [of Y 9999 4] zdiv_mono1 [of "- 1" Y 100] zdiv_mono1 [of Y 9999 100]
      zdiv_mono1 [of "- 1" Y 400] zdiv_mono1 [of Y 9999 400] by simp_all
  then have "\<bar>march_days Y\<bar> \<le> 3660000" using Y unfolding march_days_def by linarith
  moreover have "1 \<le> m" "m \<le> 12" "d \<le> 31" using v(1) days_in_month_le [of y m] by (simp_all add: valid_date_def)
  moreover have "0 \<le> month_offset m \<and> month_offset m \<le> 400"
    using month_cases [OF \<open>1 \<le> m\<close> \<open>m \<le> 12\<close>] by (auto simp: month_offset_def)
  ultimately show ?thesis unfolding days_from_civil_closed [OF \<open>1 \<le> m\<close>] Y_def [symmetric] by linarith
qed

lemma day_span:
  assumes "valid_date y m d" "0 \<le> y" "y \<le> 9999"
  shows "day_end \<lparr>dt_year = y, dt_month = m, dt_day = d\<rparr> = days_from_civil y m d * 86400000 + 86400000"
  using days_small [OF assms] by (simp add: day_end_def day_start [OF assms] wrap_i64_id in_i64_def abs_le_iff)

lemma some_day:
  assumes "near_ym ym" "covers (Monthly ym) t"
  shows "\<exists>d \<in> set (days_of ym). covers (Daily d) t"
proof -
  define k where "k = (t - first_of ym) div 86400000"
  have t: "0 \<le> t - first_of ym" "t - first_of ym < int (month_days ym) * 86400000"
    using assms month_covers month_span by simp_all
  then have k: "0 \<le> k" "k < int (month_days ym)"
    unfolding k_def by (simp_all add: pos_imp_zdiv_nonneg_iff div_less_iff_less_mult)
  let ?d = "Suc (nat k)"
  have v: "1 \<le> ym_month ym" "ym_month ym \<le> 12" "0 \<le> ym_year ym" "ym_year ym \<le> 9999"
    using assms(1) by (simp_all add: near_ym_def valid_ym_def)
  have date: "valid_date (ym_year ym) (ym_month ym) ?d"
    using k v by (simp add: valid_date_def month_days_calendar)
  have "days_from_civil (ym_year ym) (ym_month ym) ?d * 86400000 = first_of ym + k * 86400000"
    using k v by (simp add: days_from_civil_closed algebra_simps)
  moreover have "k * 86400000 \<le> t - first_of ym" "t - first_of ym < k * 86400000 + 86400000"
    using div_mult_mod_eq [of "t - first_of ym" 86400000] pos_mod_bound [of 86400000 "t - first_of ym"]
      pos_mod_sign [of 86400000 "t - first_of ym"] unfolding k_def by linarith+
  ultimately have "covers (Daily \<lparr>dt_year = ym_year ym, dt_month = ym_month ym, dt_day = ?d\<rparr>) t"
    using day_start [OF date v(3,4)] day_span [OF date v(3,4)] by (simp add: covers_def period_end_def)
  moreover have "\<lparr>dt_year = ym_year ym, dt_month = ym_month ym, dt_day = ?d\<rparr> \<in> set (days_of ym)"
    unfolding days_of_def set_map set_upt by (rule image_eqI [OF refl]) (use k in auto)
  ultimately show ?thesis by blast
qed

lemma kind_targets_mem:
  "f \<in> set (kind_targets l yms kind) \<longleftrightarrow> df_instrument f = il_instrument l \<and> df_kind f = kind \<and>
     (\<exists>p. df_period f = p \<and> overlaps p (period_end p) (il_listed l) (il_delisted l) \<and>
        (case kind_granularity kind of
           Per_Month \<Rightarrow> \<exists>ym \<in> set yms. p = Monthly ym
         | Per_Day \<Rightarrow> \<exists>ym \<in> set yms. \<exists>d \<in> set (days_of ym). p = Daily d))"
  unfolding kind_targets_def Let_def
  by (cases f; cases "kind_granularity kind") (auto simp: period_end_def)

definition listed_some_time :: "instrument_listing \<Rightarrow> bool" where
  "listed_some_time l \<longleftrightarrow> (case il_delisted l of None \<Rightarrow> True | Some d \<Rightarrow> il_listed l < d)"

text \<open>
  The download plan is point in time and complete. Planning ends; every file planned is of a known
  instrument and covers an instant at which that instrument was trading, delisted ones included; and
  every instant of the requested months at which an instrument was trading is covered by a planned
  file of each requested kind. So no data is asked for outside a listing window and none inside is missed.
\<close>

theorem targets_cover_listing_windows:
  assumes "near_ym a" "near_ym b" "ym_index a \<le> ym_index b"
  shows "\<exists>files. enumerate_targets u kinds a b = Some files \<and>
     (\<forall>f \<in> set files. \<exists>l \<in> set u. df_instrument f = il_instrument l \<and> df_kind f \<in> set kinds \<and>
        (listed_some_time l \<longrightarrow> (\<exists>t. covers (df_period f) t \<and> is_tradable_at l t))) \<and>
     (\<forall>l \<in> set u. \<forall>kind \<in> set kinds. \<forall>t. is_tradable_at l t \<longrightarrow> first_of a \<le> t \<longrightarrow> t < month_end b \<longrightarrow>
        (\<exists>f \<in> set files. df_instrument f = il_instrument l \<and> df_kind f = kind \<and> covers (df_period f) t))"
proof -
  have "1 \<le> ym_month a" "ym_month a \<le> 12" "0 \<le> ym_year a" "ym_year a \<le> 10000" "valid_ym b"
    using assms(1,2) by (simp_all add: near_ym_def valid_ym_def)
  then obtain yms where yms: "months a b = Some yms"
    "set yms = {ym. valid_ym ym \<and> ym_index a \<le> ym_index ym \<and> ym_index ym \<le> ym_index b}"
    using months_between by blast
  define files where "files = concat (map (\<lambda>l. concat (map (kind_targets l yms) kinds)) u)"
  have files: "enumerate_targets u kinds a b = Some files" by (simp add: enumerate_targets_def yms(1) files_def)
  have mem: "f \<in> set files \<longleftrightarrow> (\<exists>l \<in> set u. \<exists>kind \<in> set kinds. f \<in> set (kind_targets l yms kind))" for f
    by (auto simp: files_def)
  have near: "near_ym ym" if "ym \<in> set yms" for ym
  proof -
    have "valid_ym ym" "ym_index ym \<le> ym_index b" using that yms(2) by simp_all
    moreover from this have "ym_le ym b" using assms(2) by (subst ym_le_index) (simp_all add: near_ym_def valid_ym_def)
    ultimately show ?thesis using assms(2) by (auto simp: near_ym_def ym_le_def)
  qed
  have nonempty: "\<exists>s. period_start p = Some s \<and> s < period_end p"
    if "(\<exists>ym \<in> set yms. p = Monthly ym) \<or> (\<exists>ym \<in> set yms. \<exists>d \<in> set (days_of ym). p = Daily d)" for p
    using that
  proof
    assume "\<exists>ym \<in> set yms. p = Monthly ym"
    then obtain ym where p: "p = Monthly ym" and ym: "near_ym ym" using near by blast
    then have "28 \<le> month_days ym"
      using days_in_month_pos by (simp add: near_ym_def valid_ym_def month_days_calendar)
    then show ?thesis
      using p month_start [of ym] month_span [OF ym] near_succ [OF ym] by (simp add: period_end_def)
  next
    assume "\<exists>ym \<in> set yms. \<exists>d \<in> set (days_of ym). p = Daily d"
    then obtain ym d where p: "p = Daily d" and d: "d \<in> set (days_of ym)" and ym: "near_ym ym" using near by blast
    then obtain day where "d = \<lparr>dt_year = ym_year ym, dt_month = ym_month ym, dt_day = day\<rparr>" "1 \<le> day" "day \<le> month_days ym"
      by (auto simp: days_of_def simp del: upt_Suc)
    moreover from this ym have "valid_date (ym_year ym) (ym_month ym) day" "0 \<le> ym_year ym" "ym_year ym \<le> 9999"
      by (simp_all add: valid_date_def near_ym_def valid_ym_def month_days_calendar)
    ultimately show ?thesis using p day_start day_span by (simp add: period_end_def)
  qed
  have sound: "\<exists>l \<in> set u. df_instrument f = il_instrument l \<and> df_kind f \<in> set kinds \<and>
      (listed_some_time l \<longrightarrow> (\<exists>t. covers (df_period f) t \<and> is_tradable_at l t))" if f: "f \<in> set files" for f
  proof -
    obtain l where l: "l \<in> set u" "df_kind f \<in> set kinds" "df_instrument f = il_instrument l"
      "overlaps (df_period f) (period_end (df_period f)) (il_listed l) (il_delisted l)"
      "(\<exists>ym \<in> set yms. df_period f = Monthly ym) \<or> (\<exists>ym \<in> set yms. \<exists>d \<in> set (days_of ym). df_period f = Daily d)"
      using f unfolding mem kind_targets_mem by (auto split: granularity.splits)
    obtain s where s: "period_start (df_period f) = Some s" "s < period_end (df_period f)" using nonempty [OF l(5)] by blast
    have "\<exists>t. covers (df_period f) t \<and> is_tradable_at l t" if "listed_some_time l"
      using that s l(4) by (intro exI [of _ "max s (il_listed l)"])
        (auto simp: covers_def is_tradable_at_def overlaps_def listed_some_time_def split: option.splits)
    with l show ?thesis by blast
  qed
  have complete: "\<exists>f \<in> set files. df_instrument f = il_instrument l \<and> df_kind f = kind \<and> covers (df_period f) t"
    if l: "l \<in> set u" "kind \<in> set kinds" and t: "is_tradable_at l t" "first_of a \<le> t" "t < month_end b" for l kind t
  proof -
    obtain ym where ym: "near_ym ym" "ym_index a \<le> ym_index ym" "ym_index ym \<le> ym_index b" "covers (Monthly ym) t"
      using some_month [OF assms t(2,3)] by blast
    then have mem_ym: "ym \<in> set yms" using yms(2) near_succ by simp
    have hit: "overlaps p (period_end p) (il_listed l) (il_delisted l)" if "covers p t" for p
      using that t(1) by (auto simp: covers_def overlaps_def is_tradable_at_def split: option.splits)
    obtain p where p: "covers p t" "case kind_granularity kind of Per_Month \<Rightarrow> \<exists>ym \<in> set yms. p = Monthly ym
        | Per_Day \<Rightarrow> \<exists>ym \<in> set yms. \<exists>d \<in> set (days_of ym). p = Daily d"
      using ym(4) mem_ym some_day [OF ym(1,4)] by (cases "kind_granularity kind") auto
    let ?f = "\<lparr>df_instrument = il_instrument l, df_kind = kind, df_period = p\<rparr>"
    have "?f \<in> set (kind_targets l yms kind)" unfolding kind_targets_mem using hit [OF p(1)] p(2) by simp
    then have "?f \<in> set files" using mem l by blast
    then show ?thesis using p(1) by (intro bexI [of _ ?f]) simp_all
  qed
  show ?thesis
    by (intro exI [of _ files] conjI ballI allI impI files sound complete)
qed

definition btc_listing :: instrument_listing where
  "btc_listing = \<lparr>il_instrument = InstrumentId ''BTC'', il_listed = 0, il_delisted = Some 86400000\<rparr>"

theorem targets_cover_listing_windows_witness:
  "\<exists>files. enumerate_targets [btc_listing] [Metrics] \<lparr>ym_year = 1970, ym_month = 1\<rparr> \<lparr>ym_year = 1970, ym_month = 2\<rparr> = Some files \<and>
     (\<exists>f \<in> set files. covers (df_period f) 5000)"
proof -
  let ?a = "\<lparr>ym_year = 1970, ym_month = 1\<rparr>" and ?b = "\<lparr>ym_year = 1970, ym_month = 2\<rparr>"
  have near: "near_ym ?a" "near_ym ?b" "ym_index ?a \<le> ym_index ?b" by (simp_all add: near_ym_def valid_ym_def ym_index_def)
  have "month_end ?b = 5097600000"
    using month_span [OF near(2)] by (simp add: days_from_civil_def tdiv_def month_days_def Let_def)
  moreover have "first_of ?a = 0" by (simp add: days_from_civil_def tdiv_def)
  moreover have "is_tradable_at btc_listing 5000" by (simp add: is_tradable_at_def btc_listing_def)
  ultimately show ?thesis
    using targets_cover_listing_windows [OF near, of "[btc_listing]" "[Metrics]"] by auto
qed

end
