(* ===== verification/Text_Ascii.thy ===== *)
theory Text_Ascii imports Prelude begin

text \<open>
  The standard library's operations on strings as the source uses them, over ASCII: trimming, case,
  hexadecimal digits, splitting at a character.
\<close>

section \<open>Text\<close>

definition is_ascii_space :: "char \<Rightarrow> bool" where
  "is_ascii_space c \<longleftrightarrow> (of_char c :: nat) \<in> {9, 10, 11, 12, 13, 32}"

definition trim_end :: "string \<Rightarrow> string" where
  "trim_end s = rev (dropWhile is_ascii_space (rev s))"

definition trim :: "string \<Rightarrow> string" where
  "trim s = trim_end (dropWhile is_ascii_space s)"

definition to_ascii_lowercase :: "char \<Rightarrow> char" where
  "to_ascii_lowercase c = (let n = of_char c :: nat in if 65 \<le> n \<and> n \<le> 90 then char_of (n + 32) else c)"

definition is_ascii_hexdigit :: "char \<Rightarrow> bool" where
  "is_ascii_hexdigit c = (let n = of_char c :: nat in (48 \<le> n \<and> n \<le> 57) \<or> (65 \<le> n \<and> n \<le> 70) \<or> (97 \<le> n \<and> n \<le> 102))"

fun split_on :: "char \<Rightarrow> string \<Rightarrow> string list" where
  "split_on d [] = [[]]"
| "split_on d (c # cs) =
     (if c = d then [] # split_on d cs
      else case split_on d cs of [] \<Rightarrow> [[c]] | w # ws \<Rightarrow> (c # w) # ws)"

lemma trim_id: "\<forall>c \<in> set s. \<not> is_ascii_space c \<Longrightarrow> trim s = s"
proof -
  assume no: "\<forall>c \<in> set s. \<not> is_ascii_space c"
  have keep: "\<forall>c \<in> set t. \<not> is_ascii_space c \<Longrightarrow> dropWhile is_ascii_space t = t" for t by (cases t) auto
  show ?thesis using keep [OF no] keep [of "rev s"] no by (simp add: trim_def trim_end_def)
qed

end
