(* ===== verification/Dump_Sync.thy ===== *)
theory Dump_Sync imports Dump_Plan Artefact_Fs Text_Ascii begin

text \<open>
  Downloading the dumps (crate \<open>qe-ingest\<close>): checksum sidecars (\<open>checksum.rs\<close>), the raw cache
  (\<open>cache.rs\<close>), the downloader (\<open>downloader.rs\<close>) and schema drift (\<open>drift.rs\<close>). The fetcher is the
  source's seam, a stateful function; SHA-256 and the zip reader are packages, UTF-8 decoding the
  standard library's: parameters. A text is its decoded characters; whitespace is ASCII.
\<close>

section \<open>Errors and the seams\<close>

datatype ingest_error =
    Transport string string
  | Checksum_Mismatch string
  | Checksum_Unparseable string
  | Archive string
  | Rest string
  | Ingest_Io path io_error

datatype fetch_error = Fetch_Not_Found string | Fetch_Transport string string

record 's sync_env =
  se_get :: "'s \<Rightarrow> string \<Rightarrow> (fetch_error, bytes) result \<times> 's"
  se_sha256 :: "bytes \<Rightarrow> bytes"
  se_utf8 :: "bytes \<Rightarrow> string option"
  se_utf8_lossy :: "bytes \<Rightarrow> string"
  se_root :: string
  se_base_url :: string

definition sha256_hex :: "'s sync_env \<Rightarrow> bytes \<Rightarrow> string" where
  "sha256_hex E b = hex (se_sha256 E b)"

section \<open>Checksums\<close>

definition parse_checksum_file :: "string \<Rightarrow> string option" where
  "parse_checksum_file s =
     (let token = map to_ascii_lowercase (takeWhile (\<lambda>c. \<not> is_ascii_space c) (dropWhile is_ascii_space s))
      in if length token = 64 \<and> list_all is_ascii_hexdigit token then Some token else None)"

definition verify_checksum :: "'s sync_env \<Rightarrow> bytes \<Rightarrow> string \<Rightarrow> bool" where
  "verify_checksum E b checksum_text =
     (case parse_checksum_file checksum_text of None \<Rightarrow> False | Some expected \<Rightarrow> expected = sha256_hex E b)"

section \<open>The raw cache\<close>

definition path_of :: "'s sync_env \<Rightarrow> dump_file \<Rightarrow> path" where
  "path_of E f = (se_root E, relative_path f)"

definition sidecar_of :: "'s sync_env \<Rightarrow> dump_file \<Rightarrow> path" where
  "sidecar_of E f = (se_root E, relative_path f @ ''.sha256'')"

definition cache_read_bytes :: "fs \<Rightarrow> path \<Rightarrow> (ingest_error, bytes) result" where
  "cache_read_bytes fs p = (case fs_read fs p of Inl e \<Rightarrow> Inl (Ingest_Io p e) | Inr b \<Rightarrow> Inr b)"

definition invalid_utf8 :: io_error where "invalid_utf8 = OtherIo ''stream did not contain valid UTF-8''"

definition read_to_string :: "'s sync_env \<Rightarrow> fs \<Rightarrow> path \<Rightarrow> (ingest_error, string) result" where
  "read_to_string E fs p =
     (case fs_read fs p of
        Inl e \<Rightarrow> Inl (Ingest_Io p e)
      | Inr b \<Rightarrow> (case se_utf8 E b of None \<Rightarrow> Inl (Ingest_Io p invalid_utf8) | Some s \<Rightarrow> Inr s))"

text \<open>\<open>std::fs::write\<close>: create or truncate, then write everything.\<close>

definition write_file :: "fs \<Rightarrow> path \<Rightarrow> bytes \<Rightarrow> (ingest_error, unit) result \<times> fs" where
  "write_file fs p b =
     (case fs_create fs p of
        (Inl e, fs') \<Rightarrow> (Inl (Ingest_Io p e), fs')
      | (Inr _, fs') \<Rightarrow>
          (case fs_write_all fs' p b of (Inl e, fs'') \<Rightarrow> (Inl (Ingest_Io p e), fs'') | (Inr _, fs'') \<Rightarrow> (Inr (), fs'')))"

definition file_exists :: "fs \<Rightarrow> path \<Rightarrow> bool" where
  "file_exists fs p \<longleftrightarrow> map_of (fs_files fs) p \<noteq> None"

definition is_verified :: "'s sync_env \<Rightarrow> fs \<Rightarrow> dump_file \<Rightarrow> (ingest_error, bool) result" where
  "is_verified E fs f =
     (let p = path_of E f; sidecar = sidecar_of E f
      in if \<not> file_exists fs p \<or> \<not> file_exists fs sidecar then Inr False
         else res_bind (cache_read_bytes fs p) (\<lambda>b.
              res_bind (read_to_string E fs sidecar) (\<lambda>stored. Inr (trim stored = sha256_hex E b))))"

definition cache_store :: "'s sync_env \<Rightarrow> dump_file \<Rightarrow> bytes \<Rightarrow> string \<Rightarrow> fs \<Rightarrow> (ingest_error, unit) result \<times> fs" where
  "cache_store E f b digest fs =
     (case fs_create_dir_all fs (se_root E) of
        Inl e \<Rightarrow> (Inl (Ingest_Io (path_of E f) e), fs)
      | Inr _ \<Rightarrow>
          (case write_file fs (path_of E f) b of
             (Inl e, fs') \<Rightarrow> (Inl e, fs')
           | (Inr _, fs') \<Rightarrow> write_file fs' (sidecar_of E f) (map of_char digest)))"

definition cache_read :: "'s sync_env \<Rightarrow> fs \<Rightarrow> dump_file \<Rightarrow> (ingest_error, bytes) result" where
  "cache_read E fs f = cache_read_bytes fs (path_of E f)"

section \<open>The downloader\<close>

datatype file_outcome = Skipped | Fetched | Refetched | Missing

record sync_report =
  sr_skipped :: usize
  sr_fetched :: usize
  sr_refetched :: usize
  sr_missing :: usize
  sr_failed :: "(string \<times> ingest_error) list"

definition empty_report :: sync_report where
  "empty_report = \<lparr>sr_skipped = 0, sr_fetched = 0, sr_refetched = 0, sr_missing = 0, sr_failed = []\<rparr>"

fun record_outcome :: "file_outcome \<Rightarrow> sync_report \<Rightarrow> sync_report" where
  "record_outcome Skipped r = r\<lparr>sr_skipped := sr_skipped r + 1\<rparr>"
| "record_outcome Fetched r = r\<lparr>sr_fetched := sr_fetched r + 1\<rparr>"
| "record_outcome Refetched r = r\<lparr>sr_refetched := sr_refetched r + 1\<rparr>"
| "record_outcome Missing r = r\<lparr>sr_missing := sr_missing r + 1\<rparr>"

definition fetch_opt :: "'s sync_env \<Rightarrow> string \<Rightarrow> 's \<Rightarrow> (ingest_error, bytes option) result \<times> 's" where
  "fetch_opt E url net =
     (case se_get E net url of
        (Inr b, net') \<Rightarrow> (Inr (Some b), net')
      | (Inl (Fetch_Not_Found _), net') \<Rightarrow> (Inr None, net')
      | (Inl (Fetch_Transport u m), net') \<Rightarrow> (Inl (Transport u m), net'))"

text \<open>The attempts still allowed count down; the first one makes the outcome \<open>Fetched\<close>.\<close>

fun fetch_verified ::
  "'s sync_env \<Rightarrow> dump_file \<Rightarrow> string \<Rightarrow> file_outcome list \<Rightarrow> 's \<Rightarrow> fs \<Rightarrow> (ingest_error, file_outcome) result \<times> 's \<times> fs" where
  "fetch_verified E f expected [] net fs = (Inl (Checksum_Mismatch (relative_path f)), net, fs)"
| "fetch_verified E f expected (outcome # later) net fs =
     (case fetch_opt E (dump_url f (se_base_url E)) net of
        (Inl e, net') \<Rightarrow> (Inl e, net', fs)
      | (Inr None, net') \<Rightarrow> (Inr Missing, net', fs)
      | (Inr (Some b), net') \<Rightarrow>
          if sha256_hex E b = expected
          then (case cache_store E f b expected fs of
                  (Inl e, fs') \<Rightarrow> (Inl e, net', fs')
                | (Inr _, fs') \<Rightarrow> (Inr outcome, net', fs'))
          else fetch_verified E f expected later net' fs)"

definition sync_file :: "'s sync_env \<Rightarrow> dump_file \<Rightarrow> 's \<Rightarrow> fs \<Rightarrow> (ingest_error, file_outcome) result \<times> 's \<times> fs" where
  "sync_file E f net fs =
     (case is_verified E fs f of
        Inl e \<Rightarrow> (Inl e, net, fs)
      | Inr True \<Rightarrow> (Inr Skipped, net, fs)
      | Inr False \<Rightarrow>
          (case fetch_opt E (checksum_url f (se_base_url E)) net of
             (Inl e, net') \<Rightarrow> (Inl e, net', fs)
           | (Inr None, net') \<Rightarrow> (Inr Missing, net', fs)
           | (Inr (Some cb), net') \<Rightarrow>
               (case parse_checksum_file (se_utf8_lossy E cb) of
                  None \<Rightarrow> (Inl (Checksum_Unparseable (checksum_relative_path f)), net', fs)
                | Some expected \<Rightarrow> fetch_verified E f expected [Fetched, Refetched] net' fs)))"

definition note_result :: "dump_file \<Rightarrow> (ingest_error, file_outcome) result \<Rightarrow> sync_report \<Rightarrow> sync_report" where
  "note_result f r rep =
     (case r of Inr outcome \<Rightarrow> record_outcome outcome rep
      | Inl e \<Rightarrow> rep\<lparr>sr_failed := sr_failed rep @ [(relative_path f, e)]\<rparr>)"

fun sync_each ::
  "'s sync_env \<Rightarrow> dump_file list \<Rightarrow> sync_report \<Rightarrow> 's \<Rightarrow> fs \<Rightarrow> sync_report \<times> 's \<times> fs" where
  "sync_each E [] rep net fs = (rep, net, fs)"
| "sync_each E (f # rest) rep net fs =
     (case sync_file E f net fs of (r, net', fs') \<Rightarrow> sync_each E rest (note_result f r rep) net' fs')"

definition sync_all :: "'s sync_env \<Rightarrow> dump_file list \<Rightarrow> 's \<Rightarrow> fs \<Rightarrow> sync_report \<times> 's \<times> fs" where
  "sync_all E fls net fs = sync_each E fls empty_report net fs"

section \<open>Schema drift\<close>

datatype drift_status = In_Sync | Drift (drift_added: "string list") (drift_removed: "string list") (drift_reordered: bool)

definition detect_drift :: "string list \<Rightarrow> string list \<Rightarrow> drift_status" where
  "detect_drift baseline observed =
     (if baseline = observed then In_Sync
      else let added = filter (\<lambda>c. c \<notin> set baseline) observed; removed = filter (\<lambda>c. c \<notin> set observed) baseline
           in Drift added removed (added = [] \<and> removed = []))"

record 'z zip_reader =
  zip_open :: "bytes \<Rightarrow> (string, 'z) result"
  zip_is_empty :: "'z \<Rightarrow> bool"
  zip_entry_line :: "'z \<Rightarrow> (string, string) result"

definition csv_header :: "'z zip_reader \<Rightarrow> bytes \<Rightarrow> (ingest_error, string list) result" where
  "csv_header Z zb =
     (case zip_open Z zb of
        Inl m \<Rightarrow> Inl (Archive m)
      | Inr archive \<Rightarrow>
          if zip_is_empty Z archive then Inl (Archive ''empty archive'')
          else (case zip_entry_line Z archive of
                  Inl m \<Rightarrow> Inl (Archive m)
                | Inr first \<Rightarrow>
                    if first = [] then Inl (Archive ''empty CSV'')
                    else Inr (map trim (split_on CHR '','' (trim_end first)))))"

type_synonym schema_registry = "data_kind \<rightharpoonup> string list"

definition registry_check :: "schema_registry \<Rightarrow> data_kind \<Rightarrow> string list \<Rightarrow> drift_status \<times> schema_registry" where
  "registry_check reg kind header =
     (case reg kind of
        Some baseline \<Rightarrow> (detect_drift baseline header, reg)
      | None \<Rightarrow> (In_Sync, reg(kind \<mapsto> header)))"

section \<open>Verified stays verified\<close>

definition readable :: "fs \<Rightarrow> bool" where
  "readable fs \<longleftrightarrow> (\<forall>p. fs_open_fault fs p = None)"

definition utf8_ok :: "'s sync_env \<Rightarrow> bool" where
  "utf8_ok E \<longleftrightarrow> (\<forall>s. (\<forall>c \<in> set s. (of_char c :: nat) < 128) \<longrightarrow> se_utf8 E (map of_char s) = Some s)"

lemma relative_path_zip: "\<exists>stem. relative_path f = stem @ ''.zip''"
  by (auto simp: relative_path_def Let_def split: option.split)

lemma path_not_sidecar [simp]: "path_of E g \<noteq> sidecar_of E f"
proof
  assume "path_of E g = sidecar_of E f"
  then have "last (relative_path g) = last (relative_path f @ ''.sha256'')" by (simp add: path_of_def sidecar_of_def)
  moreover obtain stem where "relative_path g = stem @ ''.zip''" using relative_path_zip by blast
  ultimately show False by simp
qed

lemma sidecar_inject [simp]: "sidecar_of E g = sidecar_of E f \<longleftrightarrow> path_of E g = path_of E f"
  by (simp add: path_of_def sidecar_of_def)

lemma write_file_elsewhere:
  "write_file fs p b = (r, fs') \<Longrightarrow> fs_open_fault fs' = fs_open_fault fs \<and> (q \<noteq> p \<longrightarrow> map_of (fs_files fs') q = map_of (fs_files fs) q)"
  by (auto simp: write_file_def fs_create_def fs_write_all_def fs_put_def update_conv' split: option.splits)

lemma write_file_ok:
  "write_file fs p b = (Inr u, fs') \<Longrightarrow> map_of (fs_files fs') p = Some b"
  by (auto simp: write_file_def fs_create_def fs_write_all_def fs_put_def update_conv' split: option.splits)

lemma cache_store_elsewhere:
  "cache_store E f b digest fs = (r, fs') \<Longrightarrow> fs_open_fault fs' = fs_open_fault fs \<and>
     (q \<noteq> path_of E f \<longrightarrow> q \<noteq> sidecar_of E f \<longrightarrow> map_of (fs_files fs') q = map_of (fs_files fs) q)"
  by (auto simp: cache_store_def split: sum.splits prod.splits dest!: write_file_elsewhere [where q = q])

lemma cache_store_ok:
  assumes "cache_store E f b digest fs = (Inr u, fs')"
  shows "map_of (fs_files fs') (path_of E f) = Some b \<and> map_of (fs_files fs') (sidecar_of E f) = Some (map of_char digest)"
proof -
  obtain fs1 v where one: "write_file fs (path_of E f) b = (Inr v, fs1)"
    and two: "write_file fs1 (sidecar_of E f) (map of_char digest) = (Inr u, fs')"
    using assms by (auto simp: cache_store_def split: sum.splits prod.splits)
  show ?thesis
    using write_file_ok [OF one] write_file_ok [OF two] write_file_elsewhere [OF two, of "path_of E f"] by simp
qed

lemma fetch_verified_elsewhere:
  "fetch_verified E f expected outs net fs = (r, net', fs') \<Longrightarrow> fs_open_fault fs' = fs_open_fault fs \<and>
     (q \<noteq> path_of E f \<longrightarrow> q \<noteq> sidecar_of E f \<longrightarrow> map_of (fs_files fs') q = map_of (fs_files fs) q)"
proof (induction outs arbitrary: net)
  case (Cons o' outs)
  then show ?case
    by (auto split: sum.splits prod.splits option.splits if_splits dest!: cache_store_elsewhere [where q = q])
qed simp

lemma sync_file_elsewhere:
  assumes "sync_file E f net fs = (r, net', fs')"
  shows "fs_open_fault fs' = fs_open_fault fs"
    and "q \<noteq> path_of E f \<Longrightarrow> q \<noteq> sidecar_of E f \<Longrightarrow> map_of (fs_files fs') q = map_of (fs_files fs) q"
  using assms unfolding sync_file_def
  by (auto simp del: fetch_verified.simps split: sum.splits prod.splits option.splits bool.splits
      dest!: fetch_verified_elsewhere [where q = q])

lemma is_verified_cong:
  assumes "fs_open_fault fs' = fs_open_fault fs" "path_of E g = path_of E f"
    and "map_of (fs_files fs') (path_of E f) = map_of (fs_files fs) (path_of E f)"
    and "map_of (fs_files fs') (sidecar_of E f) = map_of (fs_files fs) (sidecar_of E f)"
  shows "is_verified E fs' g = is_verified E fs f"
proof -
  have side: "sidecar_of E g = sidecar_of E f" using assms(2) by simp
  have reads: "fs_read fs' (path_of E f) = fs_read fs (path_of E f)" "fs_read fs' (sidecar_of E f) = fs_read fs (sidecar_of E f)"
    "file_exists fs' (path_of E f) = file_exists fs (path_of E f)" "file_exists fs' (sidecar_of E f) = file_exists fs (sidecar_of E f)"
    using assms by (simp_all add: fs_read_def file_exists_def split: option.split)
  show ?thesis
    by (simp only: is_verified_def cache_read_bytes_def read_to_string_def side assms(2) reads Let_def)
qed

lemma sync_keeps_verified:
  assumes "is_verified E fs g = Inr True" "sync_file E f net fs = (r, net', fs')"
  shows "is_verified E fs' g = Inr True"
proof (cases "path_of E g = path_of E f")
  case True
  then have "is_verified E fs f = Inr True" using assms(1) is_verified_cong [of fs fs E g f] by simp
  then have "fs' = fs" using assms(2) by (simp add: sync_file_def)
  then show ?thesis using assms(1) by simp
next
  case False
  then have "is_verified E fs' g = is_verified E fs g"
    using sync_file_elsewhere [OF assms(2)] by (intro is_verified_cong) (simp_all add: path_not_sidecar [symmetric])
  then show ?thesis using assms(1) by simp
qed

text \<open>What a checksum text can say is lowercase hex, which reads back as it was written.\<close>

lemma parsed_digest:
  assumes "parse_checksum_file s = Some d"
  shows "length d = 64 \<and> (\<forall>c \<in> set d. (of_char c :: nat) < 128 \<and> \<not> is_ascii_space c)"
proof -
  have "length d = 64" "list_all is_ascii_hexdigit d"
    using assms by (auto simp: parse_checksum_file_def Let_def split: if_splits)
  then show ?thesis by (auto simp: list_all_iff is_ascii_hexdigit_def is_ascii_space_def Let_def dest!: bspec)
qed

lemma readable_open: "readable fs \<Longrightarrow> fs_open_fault fs p = None"
  by (simp only: readable_def)

lemma store_verifies:
  assumes "utf8_ok E" "readable fs" "parse_checksum_file s = Some (sha256_hex E b)"
    and "cache_store E f b (sha256_hex E b) fs = (Inr u, fs')"
  shows "is_verified E fs' f = Inr True"
proof -
  have "se_utf8 E (map of_char (sha256_hex E b)) = Some (sha256_hex E b)" "trim (sha256_hex E b) = sha256_hex E b"
    using assms(1) parsed_digest [OF assms(3)] trim_id unfolding utf8_ok_def by blast+
  moreover have "readable fs'" using assms(2) cache_store_elsewhere [OF assms(4)] by (simp add: readable_def)
  then have "fs_read fs' (path_of E f) = Inr b" "fs_read fs' (sidecar_of E f) = Inr (map of_char (sha256_hex E b))"
    "file_exists fs' (path_of E f)" "file_exists fs' (sidecar_of E f)"
    using cache_store_ok [OF assms(4)] readable_open [of fs'] by (simp_all add: fs_read_def file_exists_def)
  ultimately show ?thesis
    by (simp add: is_verified_def cache_read_bytes_def read_to_string_def Let_def)
qed

lemma fetch_verified_result:
  assumes "utf8_ok E" "readable fs" "parse_checksum_file s = Some expected"
    and "fetch_verified E f expected outs net fs = (r, net', fs')"
  shows "(\<forall>o'. r = Inr o' \<longrightarrow> o' \<noteq> Missing \<longrightarrow> is_verified E fs' f = Inr True \<and>
        (\<exists>b. map_of (fs_files fs') (path_of E f) = Some b \<and> sha256_hex E b = expected)) \<and>
     (r = Inr Missing \<longrightarrow> Missing \<notin> set outs \<longrightarrow> fs' = fs) \<and> (\<forall>p. r = Inl (Checksum_Mismatch p) \<longrightarrow> fs' = fs)"
  using assms(4)
proof (induction outs arbitrary: net)
  case (Cons o' outs)
  obtain g net1 where g: "fetch_opt E (dump_url f (se_base_url E)) net = (g, net1)" by (cases "fetch_opt E (dump_url f (se_base_url E)) net")
  show ?case
  proof (cases g)
    case (Inl e)
    then show ?thesis using Cons.prems g
      by (auto simp: fetch_opt_def split: prod.splits sum.splits fetch_error.splits)
  next
    case (Inr got)
    show ?thesis
    proof (cases got)
      case None
      then show ?thesis using Cons.prems g Inr by auto
    next
      case (Some b)
      show ?thesis
      proof (cases "sha256_hex E b = expected")
        case True
        obtain st fs1 where st: "cache_store E f b expected fs = (st, fs1)" by (cases "cache_store E f b expected fs")
        show ?thesis
        proof (cases st)
          case (Inl e)
          have "e \<noteq> Checksum_Mismatch p" for p
            using st Inl by (auto simp: cache_store_def write_file_def split: sum.splits prod.splits)
          then show ?thesis using Cons.prems g Inr Some True st Inl by auto
        next
          case (Inr u)
          then have "is_verified E fs1 f = Inr True" "map_of (fs_files fs1) (path_of E f) = Some b"
            using store_verifies [OF assms(1,2)] assms(3) True st cache_store_ok by blast+
          then show ?thesis using Cons.prems g \<open>g = Inr got\<close> Some True st Inr by auto
        qed
      next
        case False
        then show ?thesis using Cons.IH [of net1] Cons.prems g Inr Some by simp
      qed
    qed
  qed
qed auto

text \<open>What the disk must hold for a file to be there: its bytes, and a sidecar that says their digest.\<close>

definition stored_with_digest :: "'s sync_env \<Rightarrow> fs \<Rightarrow> dump_file \<Rightarrow> bytes \<Rightarrow> bool" where
  "stored_with_digest E fs f b \<longleftrightarrow>
     (\<exists>side text. map_of (fs_files fs) (se_root E, relative_path f) = Some b \<and>
        map_of (fs_files fs) (se_root E, relative_path f @ ''.sha256'') = Some side \<and>
        se_utf8 E side = Some text \<and> trim text = hex (se_sha256 E b))"

lemma is_verified_stored:
  assumes "readable fs"
  shows "is_verified E fs f = Inr True \<longleftrightarrow> (\<exists>b. stored_with_digest E fs f b)"
  using readable_open [OF assms]
  by (auto simp: is_verified_def file_exists_def cache_read_bytes_def read_to_string_def fs_read_def stored_with_digest_def
      path_of_def sidecar_of_def sha256_hex_def Let_def res_bind_Inr split: option.splits)

lemma sync_keeps_stored:
  assumes "readable fs" "sync_file E f net fs = (r, net', fs')" "stored_with_digest E fs g b"
  shows "stored_with_digest E fs' g b"
proof (cases "path_of E g = path_of E f")
  case True
  then have "stored_with_digest E fs f b" using assms(3) by (simp add: stored_with_digest_def path_of_def)
  then have "is_verified E fs f = Inr True" using is_verified_stored [OF assms(1)] by blast
  then show ?thesis using assms(2,3) by (simp add: sync_file_def)
next
  case False
  then show ?thesis
    using assms(3) sync_file_elsewhere(2) [OF assms(2), of "path_of E g"] sync_file_elsewhere(2) [OF assms(2), of "sidecar_of E g"]
    by (simp add: stored_with_digest_def path_not_sidecar [symmetric] flip: path_of_def sidecar_of_def)
qed

lemma sync_file_result:
  assumes "utf8_ok E" "readable fs" "sync_file E f net fs = (r, net', fs')"
  shows "(\<forall>o'. r = Inr o' \<longrightarrow> o' \<noteq> Missing \<longrightarrow> is_verified E fs' f = Inr True) \<and>
     (r = Inr Fetched \<or> r = Inr Refetched \<longrightarrow> (\<exists>cb net1 b. fetch_opt E (checksum_url f (se_base_url E)) net = (Inr (Some cb), net1) \<and>
        map_of (fs_files fs') (path_of E f) = Some b \<and> verify_checksum E b (se_utf8_lossy E cb))) \<and>
     ((\<exists>p. r = Inl (Checksum_Mismatch p)) \<or> r = Inr Missing \<or> r = Inr Skipped \<longrightarrow> fs' = fs) \<and>
     (r = Inr Skipped \<longleftrightarrow> is_verified E fs f = Inr True)"
proof -
  obtain v where v: "is_verified E fs f = v" by simp
  show ?thesis
  proof (cases "v = Inr False")
    case False
    then have "(v = Inr True \<and> r = Inr Skipped \<or> (\<exists>e. v = Inl e \<and> r = Inl e)) \<and> fs' = fs"
      using assms(3) v by (auto simp: sync_file_def split: sum.splits bool.splits)
    then show ?thesis using v by auto
  next
    case fresh: True
    obtain g net1 where g: "fetch_opt E (checksum_url f (se_base_url E)) net = (g, net1)"
      by (cases "fetch_opt E (checksum_url f (se_base_url E)) net")
    have step: "(case g of Inl e \<Rightarrow> (Inl e, net1, fs) | Inr None \<Rightarrow> (Inr Missing, net1, fs)
        | Inr (Some cb) \<Rightarrow> (case parse_checksum_file (se_utf8_lossy E cb) of
             None \<Rightarrow> (Inl (Checksum_Unparseable (checksum_relative_path f)), net1, fs)
           | Some expected \<Rightarrow> fetch_verified E f expected [Fetched, Refetched] net1 fs)) = (r, net', fs')"
      using assms(3) fresh v g by (simp add: sync_file_def del: fetch_verified.simps)
    show ?thesis
    proof (cases "\<exists>cb expected. g = Inr (Some cb) \<and> parse_checksum_file (se_utf8_lossy E cb) = Some expected")
      case False
      then have "fs' = fs \<and> ((\<exists>e. r = Inl e) \<or> r = Inr Missing)"
        using step by (auto simp del: fetch_verified.simps split: sum.splits option.splits)
      then show ?thesis using v fresh by auto
    next
      case True
      then obtain cb expected where cb: "g = Inr (Some cb)" "parse_checksum_file (se_utf8_lossy E cb) = Some expected" by blast
      then have "fetch_verified E f expected [Fetched, Refetched] net1 fs = (r, net', fs')"
        using step by (simp del: fetch_verified.simps)
      note result = fetch_verified_result [OF assms(1,2) cb(2) this]
      have "r \<noteq> Inr Skipped"
      proof
        assume "r = Inr Skipped"
        with \<open>fetch_verified E f expected [Fetched, Refetched] net1 fs = (r, net', fs')\<close> show False
          by (auto split: prod.splits sum.splits option.splits if_splits)
      qed
      then show ?thesis using result v fresh g cb by (auto simp: verify_checksum_def)
    qed
  qed
qed

text \<open>
  C33. Only a verified file counts as downloaded. On a disk whose files can be opened, and with a decoder that
  reads ASCII as it is (\<open>utf8_ok\<close>), a file is skipped exactly when its bytes are there with a sidecar that says
  their digest; after a download that succeeds they are, and the digest is the one the venue published for the
  file; a transfer that stays corrupt, and a file the venue does not have, leave the disk as it was; and a file
  that is there stays there through every later download, of any file, that succeeds or fails.
\<close>

theorem cache_holds_only_verified:
  assumes "utf8_ok E" "readable fs" "sync_file E f net fs = (r, net', fs')"
  shows "(r = Inr Skipped \<longleftrightarrow> (\<exists>b. stored_with_digest E fs f b)) \<and>
     (r = Inr Fetched \<or> r = Inr Refetched \<longrightarrow> (\<exists>cb net1 b. fetch_opt E (checksum_url f (se_base_url E)) net = (Inr (Some cb), net1) \<and>
        stored_with_digest E fs' f b \<and> verify_checksum E b (se_utf8_lossy E cb))) \<and>
     ((\<exists>p. r = Inl (Checksum_Mismatch p)) \<or> r = Inr Missing \<or> r = Inr Skipped \<longrightarrow> fs' = fs) \<and>
     (\<forall>g b. stored_with_digest E fs g b \<longrightarrow> stored_with_digest E fs' g b)"
proof -
  note res = sync_file_result [OF assms]
  have open': "readable fs'" using assms(2) sync_file_elsewhere(1) [OF assms(3)] by (simp add: readable_def)
  have stored: "stored_with_digest E fs' f b" if "r = Inr Fetched \<or> r = Inr Refetched" "map_of (fs_files fs') (path_of E f) = Some b" for b
  proof -
    have "is_verified E fs' f = Inr True" using res that(1) by auto
    then obtain b' where "stored_with_digest E fs' f b'" using is_verified_stored [OF open'] by blast
    moreover from this have "b' = b" using that(2) by (simp add: stored_with_digest_def path_of_def)
    ultimately show ?thesis by simp
  qed
  show ?thesis
    using res stored sync_keeps_stored [OF assms(2,3)] is_verified_stored [OF assms(2), of E f] by blast
qed

text \<open>A venue that serves one body and its checksum, with a checksum byte as its digest, is such an environment.\<close>

definition sample_file :: dump_file where
  "sample_file = \<lparr>df_instrument = InstrumentId ''A'', df_kind = Metrics, df_period = Monthly \<lparr>ym_year = 2024, ym_month = 1\<rparr>\<rparr>"

definition sample_env :: "bytes \<Rightarrow> unit sync_env" where
  "sample_env body = \<lparr>se_get = (\<lambda>net url. (Inr (if last url = CHR ''p'' then body
       else map of_char (hex (replicate 31 0 @ [sum_list body mod 256]))), net)),
     se_sha256 = (\<lambda>b. replicate 31 0 @ [sum_list b mod 256]), se_utf8 = (\<lambda>b. Some (map char_of b)),
     se_utf8_lossy = map char_of, se_root = ''r'', se_base_url = ''h''\<rparr>"

definition empty_disk :: fs where
  "empty_disk = \<lparr>fs_files = [], fs_open_fault = (\<lambda>_. None), fs_create_fault = (\<lambda>_. None),
     fs_write_fault = (\<lambda>_. None), fs_dir_fault = (\<lambda>_. None)\<rparr>"

lemma sample_ok: "utf8_ok (sample_env body)" "readable empty_disk"
  by (simp_all add: utf8_ok_def sample_env_def readable_def empty_disk_def map_idI)

lemma sample_urls: "last (dump_url f base) = CHR ''p''" "last (checksum_url f base) = CHR ''M''"
  using relative_path_zip [of f] by (auto simp: dump_url_def checksum_url_def checksum_relative_path_def)

lemma sample_digest: "parse_checksum_file (hex (replicate 31 0 @ [3])) = Some (hex (replicate 31 0 @ [3]))"
  by code_simp

lemma sample_downloads: "fst (sync_file (sample_env [1, 2]) sample_file () empty_disk) = Inr Fetched"
  using sample_digest
  by (simp add: sync_file_def is_verified_def file_exists_def empty_disk_def fetch_opt_def sample_env_def sample_urls
      map_idI sha256_hex_def cache_store_def write_file_def fs_create_def fs_write_all_def fs_put_def fs_create_dir_all_def)

theorem cache_holds_only_verified_witness:
  "\<exists>net' fs' b. sync_file (sample_env [1, 2]) sample_file () empty_disk = (Inr Fetched, net', fs') \<and>
     stored_with_digest (sample_env [1, 2]) fs' sample_file b"
proof -
  obtain net' fs' where run: "sync_file (sample_env [1, 2]) sample_file () empty_disk = (Inr Fetched, net', fs')"
    using sample_downloads by (metis prod.collapse)
  show ?thesis using run cache_holds_only_verified [OF sample_ok run] by blast
qed

section \<open>Runs\<close>

lemma record_outcome_count:
  "sr_skipped (note_result f r rep) + sr_fetched (note_result f r rep) + sr_refetched (note_result f r rep)
     + sr_missing (note_result f r rep) + length (sr_failed (note_result f r rep)) =
   Suc (sr_skipped rep + sr_fetched rep + sr_refetched rep + sr_missing rep + length (sr_failed rep))"
  by (cases r; cases "projr r") (auto simp: note_result_def)

lemma note_result_mono:
  "sr_missing rep \<le> sr_missing (note_result f r rep) \<and> length (sr_failed rep) \<le> length (sr_failed (note_result f r rep))"
  by (cases r; cases "projr r") (auto simp: note_result_def)

lemma note_result_clean:
  "sr_failed (note_result f r rep) = [] \<Longrightarrow> sr_missing (note_result f r rep) = 0 \<Longrightarrow> \<exists>o'. r = Inr o' \<and> o' \<noteq> Missing"
  by (cases r; cases "projr r") (auto simp: note_result_def)

lemma sync_each_accounts:
  "sync_each E fls rep net fs = (rep', net', fs') \<Longrightarrow>
     sr_skipped rep' + sr_fetched rep' + sr_refetched rep' + sr_missing rep' + length (sr_failed rep') =
       length fls + (sr_skipped rep + sr_fetched rep + sr_refetched rep + sr_missing rep + length (sr_failed rep)) \<and>
     sr_missing rep \<le> sr_missing rep' \<and> length (sr_failed rep) \<le> length (sr_failed rep')"
proof (induction fls arbitrary: rep net fs)
  case (Cons f fls)
  obtain r net1 fs1 where one: "sync_file E f net fs = (r, net1, fs1)" by (metis prod_cases3)
  have "sync_each E fls (note_result f r rep) net1 fs1 = (rep', net', fs')" using Cons.prems one by simp
  from Cons.IH [OF this] show ?case using record_outcome_count [of f r rep] note_result_mono [of rep f r] by simp
qed simp

lemma sync_each_keeps_verified:
  "sync_each E fls rep net fs = (rep', net', fs') \<Longrightarrow> is_verified E fs g = Inr True \<Longrightarrow> is_verified E fs' g = Inr True"
proof (induction fls arbitrary: rep net fs)
  case (Cons f fls)
  obtain r net1 fs1 where one: "sync_file E f net fs = (r, net1, fs1)" by (metis prod_cases3)
  have "sync_each E fls (note_result f r rep) net1 fs1 = (rep', net', fs')" using Cons.prems(1) one by simp
  then show ?case using Cons.IH sync_keeps_verified [OF Cons.prems(2) one] by blast
qed simp

lemma sync_file_verifies:
  assumes "utf8_ok E" "readable fs" "sync_file E f net fs = (r, net', fs')" "r = Inr o'" "o' \<noteq> Missing"
  shows "is_verified E fs' f = Inr True"
proof (cases "is_verified E fs f")
  case (Inl e)
  then show ?thesis using assms(3,4) by (simp add: sync_file_def)
next
  case (Inr v)
  show ?thesis
  proof (cases v)
    case True
    then show ?thesis using Inr assms(3) by (simp add: sync_file_def)
  next
    case False
    obtain g net1 where g: "fetch_opt E (checksum_url f (se_base_url E)) net = (g, net1)"
      by (cases "fetch_opt E (checksum_url f (se_base_url E)) net")
    obtain cb expected where cb: "parse_checksum_file (se_utf8_lossy E cb) = Some expected"
      and fv: "fetch_verified E f expected [Fetched, Refetched] net1 fs = (r, net', fs')"
      using assms(3-5) Inr False g
      by (auto simp: sync_file_def simp del: fetch_verified.simps split: sum.splits option.splits)
    then show ?thesis using fetch_verified_result [OF assms(1,2) cb fv] assms(4,5) by blast
  qed
qed

lemma sync_each_verifies:
  "utf8_ok E \<Longrightarrow> readable fs \<Longrightarrow> sync_each E fls rep net fs = (rep', net', fs') \<Longrightarrow>
     sr_failed rep' = [] \<Longrightarrow> sr_missing rep' = 0 \<Longrightarrow> \<forall>f \<in> set fls. is_verified E fs' f = Inr True"
proof (induction fls arbitrary: rep net fs)
  case (Cons f fls)
  obtain r net1 fs1 where one: "sync_file E f net fs = (r, net1, fs1)" by (metis prod_cases3)
  have rest: "sync_each E fls (note_result f r rep) net1 fs1 = (rep', net', fs')" using Cons.prems(3) one by simp
  then have "sr_failed (note_result f r rep) = []" "sr_missing (note_result f r rep) = 0"
    using sync_each_accounts [OF rest] Cons.prems(4,5) by auto
  then obtain o' where "r = Inr o'" "o' \<noteq> Missing" using note_result_clean by blast
  then have "is_verified E fs1 f = Inr True" using sync_file_verifies [OF Cons.prems(1,2) one] by blast
  then have "is_verified E fs' f = Inr True" using sync_each_keeps_verified [OF rest] by blast
  moreover have "readable fs1" using Cons.prems(2) sync_file_elsewhere(1) [OF one] by (simp add: readable_def)
  ultimately show ?case using Cons.IH [OF Cons.prems(1) _ rest Cons.prems(4,5)] by simp
qed simp

lemma sync_each_all_skipped:
  "\<forall>f \<in> set fls. is_verified E fs f = Inr True \<Longrightarrow>
     sync_each E fls rep net fs = (rep\<lparr>sr_skipped := sr_skipped rep + length fls\<rparr>, net, fs)"
  by (induction fls arbitrary: rep) (simp_all add: sync_file_def note_result_def)

text \<open>
  A run accounts for every file it is given, once; and running again after a run with nothing missing
  and nothing failed contacts the venue for nothing, changes nothing on disk, and reports every file skipped.
\<close>

theorem sync_is_resumable:
  assumes "utf8_ok E" "readable fs" "sync_all E fls net fs = (rep, net', fs')"
  shows "sr_skipped rep + sr_fetched rep + sr_refetched rep + sr_missing rep + length (sr_failed rep) = length fls \<and>
     (sr_failed rep = [] \<and> sr_missing rep = 0 \<longrightarrow>
       (\<forall>later. sync_all E fls later fs' = (empty_report\<lparr>sr_skipped := length fls\<rparr>, later, fs')))"
  using sync_each_accounts [OF assms(3) [unfolded sync_all_def]]
    sync_each_all_skipped [OF sync_each_verifies [OF assms(1,2) assms(3) [unfolded sync_all_def]], of empty_report]
  by (auto simp: sync_all_def empty_report_def)

lemma sample_runs: "fst (sync_all (sample_env [1, 2]) [sample_file] () empty_disk) = empty_report\<lparr>sr_fetched := 1\<rparr>"
  using sample_downloads by (auto simp: sync_all_def empty_report_def note_result_def split: prod.splits)

theorem sync_is_resumable_witness:
  "\<exists>net' fs'. sync_all (sample_env [1, 2]) [sample_file] () empty_disk = (empty_report\<lparr>sr_fetched := 1\<rparr>, net', fs') \<and>
     sync_all (sample_env [1, 2]) [sample_file] () fs' = (empty_report\<lparr>sr_skipped := 1\<rparr>, (), fs')"
proof -
  obtain net' fs' where run: "sync_all (sample_env [1, 2]) [sample_file] () empty_disk = (empty_report\<lparr>sr_fetched := 1\<rparr>, net', fs')"
    using sample_runs by (metis prod.collapse)
  show ?thesis using sync_is_resumable [OF sample_ok run] run by (auto simp: empty_report_def)
qed

section \<open>Drift\<close>

text \<open>
  A header is in sync exactly when it is the baseline; the added and removed columns are exactly those of
  one header and not of the other. Two headers can differ in how often they repeat a column and still
  be reported as a pure reordering, which the code's comment takes to mean the same columns.
\<close>

lemma detect_drift_exact:
  "(detect_drift b h = In_Sync \<longleftrightarrow> b = h) \<and>
   (\<forall>a r re. detect_drift b h = Drift a r re \<longrightarrow> set a = set h - set b \<and> set r = set b - set h \<and> (re \<longleftrightarrow> set b = set h))"
  by (auto simp: detect_drift_def Let_def filter_empty_conv)

lemma duplicate_column_reads_as_reorder: "detect_drift [''a'', ''b''] [''a'', ''b'', ''b''] = Drift [] [] True"
  by (simp add: detect_drift_def)

text \<open>The first header of a kind becomes its baseline, and no later one replaces it.\<close>

lemma baseline_is_sticky:
  "reg kind = Some base \<Longrightarrow> registry_check reg kind h = (detect_drift base h, reg)"
  by (simp add: registry_check_def)
end
