(* ===== verification/Ingest_Backfill.thy ===== *)
theory Ingest_Backfill imports Dump_Sync begin

text \<open>
  The REST backfill (crate \<open>qe-ingest\<close>): page requests and the row parser (\<open>rest.rs\<close>), and the
  paginated, retried backfiller (\<open>backfill.rs\<close>). The row source and the sleeper are the source's seams,
  here one environment with a state of its own; the JSON package is a record of its readers.
\<close>

section \<open>Requests and rows\<close>

datatype rest_endpoint =
    Ep_Klines resolution
  | Ep_Mark_Price_Klines resolution
  | Ep_Premium_Index_Klines resolution
  | Ep_Funding_Rate
  | Ep_Open_Interest_Hist resolution

fun endpoint_path :: "rest_endpoint \<Rightarrow> string" where
  "endpoint_path (Ep_Klines _) = ''/fapi/v1/klines''"
| "endpoint_path (Ep_Mark_Price_Klines _) = ''/fapi/v1/markPriceKlines''"
| "endpoint_path (Ep_Premium_Index_Klines _) = ''/fapi/v1/premiumIndexKlines''"
| "endpoint_path Ep_Funding_Rate = ''/fapi/v1/fundingRate''"
| "endpoint_path (Ep_Open_Interest_Hist _) = ''/futures/data/openInterestHist''"

fun interval_param :: "rest_endpoint \<Rightarrow> (string \<times> string) option" where
  "interval_param (Ep_Klines r) = Some (''interval'', resolution_str r)"
| "interval_param (Ep_Mark_Price_Klines r) = Some (''interval'', resolution_str r)"
| "interval_param (Ep_Premium_Index_Klines r) = Some (''interval'', resolution_str r)"
| "interval_param (Ep_Open_Interest_Hist r) = Some (''period'', resolution_str r)"
| "interval_param Ep_Funding_Rate = None"

record page_request =
  pq_endpoint :: rest_endpoint
  pq_symbol :: instrument_id
  pq_start_ms :: i64
  pq_limit :: u32

definition page_url :: "page_request \<Rightarrow> string \<Rightarrow> string" where
  "page_url q base =
     base @ endpoint_path (pq_endpoint q) @ ''?symbol='' @ instrument_str (pq_symbol q) @
     (case interval_param (pq_endpoint q) of None \<Rightarrow> [] | Some (k, v) \<Rightarrow> ''&'' @ k @ ''='' @ v) @
     ''&startTime='' @ show_int (pq_start_ms q) @ ''&limit='' @ show_nat (pq_limit q)"

record timed_row =
  tr_open_time_ms :: i64
  tr_raw :: string

datatype rest_error = Rate_Limited (retry_after_ms: u64) | Transient string | Rest_Fatal string

fun rest_error_str :: "rest_error \<Rightarrow> string" where
  "rest_error_str (Rate_Limited ms) = ''rate limited; retry after '' @ show_nat ms @ ''ms''"
| "rest_error_str (Transient m) = ''transient rest error: '' @ m"
| "rest_error_str (Rest_Fatal m) = ''fatal rest error: '' @ m"

record 'j json =
  js_parse :: "bytes \<Rightarrow> (string, 'j) result"
  js_parse_str :: "string \<Rightarrow> (string, 'j) result"
  js_array :: "'j \<Rightarrow> 'j list option"
  js_object :: "'j \<Rightarrow> (string \<Rightarrow> 'j option) option"
  js_i64 :: "'j \<Rightarrow> i64 option"
  js_str :: "'j \<Rightarrow> string option"
  js_text :: "'j \<Rightarrow> string"

definition row_open_time :: "'j json \<Rightarrow> 'j \<Rightarrow> (rest_error, i64) result" where
  "row_open_time J row =
     (case js_array J row of
        Some cols \<Rightarrow>
          (case Option.bind (if cols = [] then None else Some (hd cols)) (js_i64 J) of
             Some t \<Rightarrow> Inr t | None \<Rightarrow> Inl (Rest_Fatal ''kline row missing open_time''))
      | None \<Rightarrow>
          (case js_object J row of
             Some m \<Rightarrow>
               (case Option.bind (case m ''timestamp'' of Some v \<Rightarrow> Some v | None \<Rightarrow> m ''fundingTime'') (js_i64 J) of
                  Some t \<Rightarrow> Inr t | None \<Rightarrow> Inl (Rest_Fatal ''data row missing timestamp/fundingTime''))
           | None \<Rightarrow> Inl (Rest_Fatal ''unexpected row shape'')))"

definition parse_klines_json :: "'j json \<Rightarrow> bytes \<Rightarrow> (rest_error, timed_row list) result" where
  "parse_klines_json J body =
     (case js_parse J body of
        Inl e \<Rightarrow> Inl (Rest_Fatal (''bad json: '' @ e))
      | Inr doc \<Rightarrow>
          (case js_array J doc of
             None \<Rightarrow> Inl (Rest_Fatal ''expected a JSON array'')
           | Some rows \<Rightarrow>
               try_fold (\<lambda>out row. res_bind (row_open_time J row) (\<lambda>t.
                 Inr (out @ [\<lparr>tr_open_time_ms = t, tr_raw = js_text J row\<rparr>]))) [] rows))"

section \<open>The backfiller\<close>

record retry_policy =
  rp_max_retries :: u32
  rp_base_delay_ms :: u64

definition default_retry_policy :: retry_policy where
  "default_retry_policy = \<lparr>rp_max_retries = 5, rp_base_delay_ms = 500\<rparr>"

record 's backfill_env =
  bf_fetch_page :: "page_request \<Rightarrow> 's \<Rightarrow> (rest_error, timed_row list) result \<times> 's"
  bf_sleep_ms :: "u64 \<Rightarrow> 's \<Rightarrow> 's"
  bf_retry :: retry_policy

record backfill_request =
  bq_endpoint :: rest_endpoint
  bq_symbol :: instrument_id
  bq_interval_ms :: i64
  bq_from_ms :: i64
  bq_now_ms :: i64
  bq_overlap_ms :: i64
  bq_limit :: u32

record backfill_result =
  br_fresh :: "timed_row list"
  br_overlap :: "timed_row list"
  br_latest_open_time_ms :: "i64 option"

definition retry_wait :: "retry_policy \<Rightarrow> nat \<Rightarrow> rest_error \<Rightarrow> u64" where
  "retry_wait p attempts e =
     (case e of Rate_Limited ms \<Rightarrow> max ms (rp_base_delay_ms p)
      | _ \<Rightarrow> (rp_base_delay_ms p * attempts) mod u64_modulus)"

text \<open>The loop of \<open>fetch_with_retry\<close>, from the number of attempts made.\<close>

function retry_loop ::
  "'s backfill_env \<Rightarrow> page_request \<Rightarrow> nat \<Rightarrow> 's \<Rightarrow> (ingest_error, timed_row list) result \<times> 's" where
  "retry_loop E q attempts s =
     (case bf_fetch_page E q s of
        (Inr rows, s') \<Rightarrow> (Inr rows, s')
      | (Inl (Rest_Fatal m), s') \<Rightarrow> (Inl (Rest (''fatal: '' @ m)), s')
      | (Inl e, s') \<Rightarrow>
          if attempts \<ge> rp_max_retries (bf_retry E)
          then (Inl (Rest (''giving up after '' @ show_nat attempts @ '' retries: '' @ rest_error_str e)), s')
          else retry_loop E q (attempts + 1) (bf_sleep_ms E (retry_wait (bf_retry E) (attempts + 1) e) s'))"
  by pat_completeness auto
termination
  by (relation "measure (\<lambda>(E, q, attempts, s). rp_max_retries (bf_retry E) - attempts)") auto

declare retry_loop.simps [simp del]

definition fetch_with_retry ::
  "'s backfill_env \<Rightarrow> page_request \<Rightarrow> 's \<Rightarrow> (ingest_error, timed_row list) result \<times> 's" where
  "fetch_with_retry E q s = retry_loop E q 0 s"

definition last_time :: "i64 \<Rightarrow> timed_row list \<Rightarrow> i64" where
  "last_time d rows = (if rows = [] then d else tr_open_time_ms (last rows))"

lemma last_time_append: "last_time d (xs @ ys) = (if ys = [] then last_time d xs else tr_open_time_ms (last ys))"
  by (simp add: last_time_def)

text \<open>
  One page request per turn. The loop ends because a turn that goes on has moved the newest row
  forward and not reached the target.
\<close>

function backfill_loop ::
  "'s backfill_env \<Rightarrow> backfill_request \<Rightarrow> timed_row list \<Rightarrow> i64 \<Rightarrow> 's
     \<Rightarrow> (ingest_error, timed_row list) result \<times> 's" where
  "backfill_loop E b rows cursor s =
     (case fetch_with_retry E \<lparr>pq_endpoint = bq_endpoint b, pq_symbol = bq_symbol b, pq_start_ms = cursor,
          pq_limit = bq_limit b\<rparr> s of
        (Inl e, s') \<Rightarrow> (Inl e, s')
      | (Inr page, s') \<Rightarrow>
          if page = [] then (Inr rows, s')
          else let new = filter (\<lambda>r. tr_open_time_ms r > last_time i64_min rows) page;
                   rows' = rows @ new;
                   newest = last_time cursor rows'
               in if new = [] \<or> newest \<ge> wrap_i64 (bq_now_ms b - bq_interval_ms b) then (Inr rows', s')
                  else backfill_loop E b rows' (wrap_i64 (newest + bq_interval_ms b)) s')"
  by pat_completeness auto

termination
proof (relation "measure (\<lambda>(E, b, rows, cursor, s). nat (wrap_i64 (bq_now_ms b - bq_interval_ms b) - last_time i64_min rows))", goal_cases)
  case (2 E b rows cursor s x s' page new rows' newest)
  then have new: "new \<noteq> []" "newest < wrap_i64 (bq_now_ms b - bq_interval_ms b)" by auto
  then have "last new \<in> set new" by simp
  then have "last_time i64_min rows < tr_open_time_ms (last new)" using 2 by auto
  then show ?case using new 2 by (simp add: last_time_append)
qed simp

declare backfill_loop.simps [simp del]

definition backfill :: "'s backfill_env \<Rightarrow> backfill_request \<Rightarrow> 's \<Rightarrow> (ingest_error, backfill_result) result \<times> 's" where
  "backfill E b s =
     (case backfill_loop E b [] (sat_i64 (bq_from_ms b - bq_overlap_ms b)) s of
        (Inl e, s') \<Rightarrow> (Inl e, s')
      | (Inr rows, s') \<Rightarrow>
          (Inr \<lparr>br_fresh = filter (\<lambda>r. \<not> tr_open_time_ms r < bq_from_ms b) rows,
                br_overlap = filter (\<lambda>r. tr_open_time_ms r < bq_from_ms b) rows,
                br_latest_open_time_ms = map_option tr_open_time_ms (last_opt rows)\<rparr>, s'))"

section \<open>Retries\<close>

definition is_fatal_rest :: "rest_error \<Rightarrow> bool" where
  "is_fatal_rest e = (case e of Rest_Fatal _ \<Rightarrow> True | _ \<Rightarrow> False)"

text \<open>The venue after \<open>n\<close> failed attempts, each followed by its wait.\<close>

fun state_at :: "'s backfill_env \<Rightarrow> page_request \<Rightarrow> nat \<Rightarrow> 's \<Rightarrow> 's" where
  "state_at E q 0 s = s"
| "state_at E q (Suc n) s =
     (case bf_fetch_page E q (state_at E q n s) of
        (Inl e, s') \<Rightarrow> bf_sleep_ms E (retry_wait (bf_retry E) (Suc n) e) s' | (Inr _, s') \<Rightarrow> s')"

definition retryable_at :: "'s backfill_env \<Rightarrow> page_request \<Rightarrow> 's \<Rightarrow> bool" where
  "retryable_at E q s = (case fst (bf_fetch_page E q s) of Inl e \<Rightarrow> \<not> is_fatal_rest e | Inr _ \<Rightarrow> False)"

definition settled_as :: "'s backfill_env \<Rightarrow> page_request \<Rightarrow> nat \<Rightarrow> 's \<Rightarrow> (ingest_error, timed_row list) result \<Rightarrow> 's \<Rightarrow> bool" where
  "settled_as E q n s r s' \<longleftrightarrow>
     (case bf_fetch_page E q s of
        (Inr rows, s1) \<Rightarrow> r = Inr rows \<and> s' = s1
      | (Inl e, s1) \<Rightarrow> s' = s1 \<and>
          (case e of Rest_Fatal m \<Rightarrow> r = Inl (Rest (''fatal: '' @ m))
           | _ \<Rightarrow> n = rp_max_retries (bf_retry E) \<and>
               r = Inl (Rest (''giving up after '' @ show_nat n @ '' retries: '' @ rest_error_str e))))"

lemma retry_loop_settles:
  "retry_loop E q n (state_at E q n s) = (r, s') \<Longrightarrow> n \<le> rp_max_retries (bf_retry E) \<Longrightarrow>
     \<exists>m. n \<le> m \<and> m \<le> rp_max_retries (bf_retry E) \<and> (\<forall>i. n \<le> i \<and> i < m \<longrightarrow> retryable_at E q (state_at E q i s)) \<and>
         settled_as E q m (state_at E q m s) r s'"
proof (induction "rp_max_retries (bf_retry E) - n" arbitrary: n)
  case 0
  obtain f s1 where f: "bf_fetch_page E q (state_at E q n s) = (f, s1)" by (cases "bf_fetch_page E q (state_at E q n s)")
  have "settled_as E q n (state_at E q n s) r s'"
    using 0 f by (auto simp: settled_as_def retry_loop.simps [of E q n] split: sum.splits rest_error.splits)
  then show ?case using 0 by auto
next
  case (Suc k)
  obtain f s1 where f: "bf_fetch_page E q (state_at E q n s) = (f, s1)" by (cases "bf_fetch_page E q (state_at E q n s)")
  show ?case
  proof (cases "retryable_at E q (state_at E q n s)")
    case True
    then obtain e where e: "f = Inl e" "\<not> is_fatal_rest e" using f by (auto simp: retryable_at_def split: sum.splits)
    have more: "\<not> rp_max_retries (bf_retry E) \<le> n" using Suc.hyps(2) by simp
    have step: "retry_loop E q (Suc n) (state_at E q (Suc n) s) = (r, s')"
      using Suc.prems(1) f more e by (auto simp: retry_loop.simps [of E q n] is_fatal_rest_def split: rest_error.splits)
    have left: "k = rp_max_retries (bf_retry E) - Suc n" "Suc n \<le> rp_max_retries (bf_retry E)"
      using Suc.hyps(2) by simp_all
    obtain m where m: "Suc n \<le> m" "m \<le> rp_max_retries (bf_retry E)"
        "\<forall>i. Suc n \<le> i \<and> i < m \<longrightarrow> retryable_at E q (state_at E q i s)" "settled_as E q m (state_at E q m s) r s'"
      using Suc.hyps(1) [OF left(1) step left(2)] by blast
    have "retryable_at E q (state_at E q i s)" if "n \<le> i \<and> i < m" for i
      using that True m(3) by (cases "i = n") auto
    then show ?thesis using m Suc_leD by blast
  next
    case False
    then have "settled_as E q n (state_at E q n s) r s'"
      using Suc.prems(1) f
      by (auto simp: settled_as_def retryable_at_def is_fatal_rest_def retry_loop.simps [of E q n] split: sum.splits rest_error.splits)
    then show ?thesis using Suc.prems(2) by auto
  qed
qed

text \<open>
  A page is asked for at most one time more than the policy allows retries. Every attempt before the
  last failed with an error worth retrying and was followed by its wait; the last one is what the caller
  sees: its rows, its fatal error at once, or, only after the last allowed retry, giving up. A rate limit
  is waited out for at least what the venue asked.
\<close>

theorem retries_are_bounded:
  assumes "fetch_with_retry E q s = (r, s')"
  shows "(\<exists>n \<le> rp_max_retries (bf_retry E). (\<forall>i < n. retryable_at E q (state_at E q i s)) \<and> settled_as E q n (state_at E q n s) r s') \<and>
     (\<forall>n ms. ms \<le> retry_wait (bf_retry E) n (Rate_Limited ms))"
  using retry_loop_settles [of E q 0 s r s'] assms by (auto simp: fetch_with_retry_def retry_wait_def)

definition scripted_venue :: "(rest_error, timed_row list) result list backfill_env" where
  "scripted_venue = \<lparr>bf_fetch_page = (\<lambda>q s. case s of [] \<Rightarrow> (Inr [], []) | r # rest \<Rightarrow> (r, rest)),
     bf_sleep_ms = (\<lambda>ms s. s), bf_retry = default_retry_policy\<rparr>"

definition sample_query :: page_request where
  "sample_query = \<lparr>pq_endpoint = Ep_Funding_Rate, pq_symbol = InstrumentId ''A'', pq_start_ms = 0, pq_limit = 2\<rparr>"

lemma scripted_runs: "fetch_with_retry scripted_venue sample_query [Inl (Transient ''x''), Inl (Rest_Fatal ''y'')] = (Inl (Rest ''fatal: y''), [])"
  by (simp add: fetch_with_retry_def scripted_venue_def default_retry_policy_def retry_loop.simps)

theorem retries_are_bounded_witness:
  "\<exists>n \<le> 5. (\<forall>i < n. retryable_at scripted_venue sample_query (state_at scripted_venue sample_query i [Inl (Transient ''x''), Inl (Rest_Fatal ''y'')])) \<and>
     settled_as scripted_venue sample_query n (state_at scripted_venue sample_query n [Inl (Transient ''x''), Inl (Rest_Fatal ''y'')]) (Inl (Rest ''fatal: y'')) []"
  using retries_are_bounded [OF scripted_runs] by (simp add: scripted_venue_def default_retry_policy_def)

section \<open>Pages cover the span\<close>

text \<open>
  What the venue documents: a page holds the first \<open>limit\<close> rows, ascending, at or after its start. It
  may fail at any time.
\<close>

definition serves :: "'s backfill_env \<Rightarrow> timed_row list \<Rightarrow> bool" where
  "serves E V \<longleftrightarrow> (\<forall>q s rows s'. bf_fetch_page E q s = (Inr rows, s') \<longrightarrow>
     rows = take (pq_limit q) (filter (\<lambda>r. pq_start_ms q \<le> tr_open_time_ms r) V))"

definition spaced :: "i64 \<Rightarrow> timed_row list \<Rightarrow> bool" where
  "spaced d V \<longleftrightarrow> sorted_wrt (\<lambda>a b. tr_open_time_ms a + d \<le> tr_open_time_ms b) V \<and>
     (\<forall>r \<in> set V. i64_min < tr_open_time_ms r \<and> tr_open_time_ms r + d \<le> i64_max)"

lemma fetch_with_retry_serves:
  assumes "serves E V" "fetch_with_retry E q s = (Inr rows, s')"
  shows "rows = take (pq_limit q) (filter (\<lambda>r. pq_start_ms q \<le> tr_open_time_ms r) V)"
proof -
  obtain n where "settled_as E q n (state_at E q n s) (Inr rows) s'"
    using retry_loop_settles [of E q 0 s "Inr rows" s'] assms(2) by (auto simp: fetch_with_retry_def)
  then have "bf_fetch_page E q (state_at E q n s) = (Inr rows, s')"
    by (auto simp: settled_as_def split: prod.splits sum.splits rest_error.splits)
  then show ?thesis using assms(1) unfolding serves_def by blast
qed

lemma spaced_after:
  assumes "spaced d (xs @ y # ys)" "0 < d"
  shows "filter (\<lambda>r. tr_open_time_ms y + d \<le> tr_open_time_ms r) (xs @ y # ys) = ys"
proof -
  have "\<forall>r \<in> set xs. \<not> tr_open_time_ms y + d \<le> tr_open_time_ms r" "\<forall>r \<in> set ys. tr_open_time_ms y + d \<le> tr_open_time_ms r"
    using assms by (auto simp: spaced_def sorted_wrt_append)
  then show ?thesis using assms(2) by (simp add: filter_empty_conv filter_id_conv)
qed

lemma last_time_last: "rows \<noteq> [] \<Longrightarrow> last_time d rows = tr_open_time_ms (last rows)"
  by (simp add: last_time_def)

lemma spaced_suffix: "spaced d (xs @ ys) \<Longrightarrow> spaced d ys"
  by (simp add: spaced_def sorted_wrt_append)

lemma turn_takes_the_page:
  assumes "spaced d V" "0 < d" "V = before @ rows @ page @ later" "page \<noteq> []"
  shows "filter (\<lambda>r. tr_open_time_ms r > last_time i64_min rows) page = page"
    and "last_time c (rows @ page) = tr_open_time_ms (last page)"
    and "filter (\<lambda>r. wrap_i64 (tr_open_time_ms (last page) + d) \<le> tr_open_time_ms r) V = later"
proof -
  have sp: "spaced d (rows @ page @ later)" using assms(1,3) spaced_suffix by simp
  have "last_time i64_min rows < tr_open_time_ms r" if "r \<in> set page" for r
  proof (cases "rows = []")
    case True
    then show ?thesis using sp that by (simp add: last_time_def spaced_def)
  next
    case False
    then have "last rows \<in> set rows" by simp
    then have "tr_open_time_ms (last rows) + d \<le> tr_open_time_ms r" using sp that by (auto simp: spaced_def sorted_wrt_append)
    then show ?thesis using False assms(2) by (simp add: last_time_def)
  qed
  then show "filter (\<lambda>r. tr_open_time_ms r > last_time i64_min rows) page = page" by (simp add: filter_id_conv)
  show "last_time c (rows @ page) = tr_open_time_ms (last page)" using assms(4) by (simp add: last_time_append)
  have V: "V = (before @ rows @ butlast page) @ last page # later" using assms(3,4) by simp
  have bounds: "i64_min < tr_open_time_ms (last page)" "tr_open_time_ms (last page) + d \<le> i64_max"
    using assms(1) V by (simp_all add: spaced_def)
  have "wrap_i64 (tr_open_time_ms (last page) + d) = tr_open_time_ms (last page) + d"
    using bounds assms(2) by (intro wrap_i64_id) (simp add: in_i64_def)
  then show "filter (\<lambda>r. wrap_i64 (tr_open_time_ms (last page) + d) \<le> tr_open_time_ms r) V = later"
    using spaced_after [of d "before @ rows @ butlast page" "last page" later] assms(1,2) V by simp
qed

lemma backfill_loop_covers:
  assumes "serves E V" "spaced (bq_interval_ms b) V" "0 < bq_interval_ms b" "0 < bq_limit b"
    and "backfill_loop E b rows cursor s = (Inr got, s')"
    and "V = before @ rows @ rest" "filter (\<lambda>r. cursor \<le> tr_open_time_ms r) V = rest"
  shows "\<exists>more later. rest = more @ later \<and> got = rows @ more \<and>
     (later \<noteq> [] \<longrightarrow> got \<noteq> [] \<and> wrap_i64 (bq_now_ms b - bq_interval_ms b) \<le> tr_open_time_ms (last got)) \<and>
     length (filter (\<lambda>r. wrap_i64 (bq_now_ms b - bq_interval_ms b) < tr_open_time_ms r) more) \<le> bq_limit b"
  using assms
proof (induction E b rows cursor s arbitrary: rest rule: backfill_loop.induct)
  case (1 E b rows cursor s)
  let ?q = "\<lparr>pq_endpoint = bq_endpoint b, pq_symbol = bq_symbol b, pq_start_ms = cursor, pq_limit = bq_limit b\<rparr>"
  let ?target = "wrap_i64 (bq_now_ms b - bq_interval_ms b)"
  obtain p s1 where fw: "fetch_with_retry E ?q s = (p, s1)" by (cases "fetch_with_retry E ?q s")
  obtain page where p: "p = Inr page" using "1.prems"(5) fw by (cases p) (auto simp: backfill_loop.simps [of E b rows])
  have page: "page = take (bq_limit b) rest"
    using fetch_with_retry_serves [OF "1.prems"(1) fw [unfolded p]] "1.prems"(7) by simp
  define later where "later = drop (bq_limit b) rest"
  show ?case
  proof (cases "page = []")
    case True
    then have "rest = []" using page "1.prems"(4) by simp
    moreover have "got = rows" using "1.prems"(5) fw p True by (simp add: backfill_loop.simps [of E b rows])
    ultimately show ?thesis by simp
  next
    case False
    have rest: "rest = page @ later" by (simp add: page later_def)
    have size: "length (filter P page) \<le> bq_limit b" for P
      using length_filter_le [of P page] by (simp add: page)
    note turn = turn_takes_the_page [OF "1.prems"(2,3) _ False, of before rows later]
    have V: "V = before @ rows @ page @ later" using "1.prems"(6) rest by simp
    note turn = turn [OF V]
    show ?thesis
    proof (cases "?target \<le> tr_open_time_ms (last page)")
      case True
      then have "got = rows @ page"
        using "1.prems"(5) fw p False turn(1) turn(2) [of cursor] by (simp add: backfill_loop.simps [of E b rows])
      then show ?thesis using rest True False size by auto
    next
      case go: False
      then have step: "backfill_loop E b (rows @ page) (wrap_i64 (tr_open_time_ms (last page) + bq_interval_ms b)) s1 = (Inr got, s')"
        using "1.prems"(5) fw p False turn(1) turn(2) [of cursor] by (simp add: backfill_loop.simps [of E b rows])
      have on: "\<not> (page = [] \<or> ?target \<le> tr_open_time_ms (last page))" using go False by simp
      have V': "V = before @ (rows @ page) @ later" using V by simp
      have "sorted_wrt (\<lambda>a b. tr_open_time_ms a + bq_interval_ms b' \<le> tr_open_time_ms b) page" if "b' = b" for b'
        using "1.prems"(2) that V by (simp add: spaced_def sorted_wrt_append)
      then have "tr_open_time_ms r \<le> tr_open_time_ms (last page)" if "r \<in> set page" for r
        using that "1.prems"(3) False by (cases page rule: rev_cases) (force simp: sorted_wrt_append)+
      then have within: "filter (\<lambda>r. ?target < tr_open_time_ms r) page = []"
        using go by (fastforce simp: filter_empty_conv)
      have "\<exists>more later'. later = more @ later' \<and> got = (rows @ page) @ more \<and>
          (later' \<noteq> [] \<longrightarrow> got \<noteq> [] \<and> ?target \<le> tr_open_time_ms (last got)) \<and>
          length (filter (\<lambda>r. ?target < tr_open_time_ms r) more) \<le> bq_limit b"
        by (rule "1.IH" [OF fw [symmetric] p False turn(1) [symmetric] refl turn(2) [symmetric] on "1.prems"(1-4) step V' turn(3)])
      then obtain more later' where "later = more @ later'" "got = (rows @ page) @ more"
          "later' \<noteq> [] \<longrightarrow> got \<noteq> [] \<and> ?target \<le> tr_open_time_ms (last got)"
          "length (filter (\<lambda>r. ?target < tr_open_time_ms r) more) \<le> bq_limit b" by blast
      then show ?thesis using rest within by (intro exI [of _ "page @ more"] exI [of _ later']) simp
    qed
  qed
qed

lemma ascending_suffix:
  fixes f :: "'a \<Rightarrow> int"
  shows "sorted_wrt (\<lambda>a b. f a < f b) xs \<Longrightarrow> xs = takeWhile (\<lambda>r. \<not> c \<le> f r) xs @ filter (\<lambda>r. c \<le> f r) xs"
proof (induction xs)
  case (Cons x xs)
  then have "c \<le> f x \<Longrightarrow> filter (\<lambda>r. c \<le> f r) xs = xs" by (auto simp: filter_id_conv)
  then show ?case using Cons by simp
qed simp

lemma ascending_parts:
  fixes f :: "'a \<Rightarrow> int"
  shows "sorted_wrt (\<lambda>a b. f a < f b) xs \<Longrightarrow> filter (\<lambda>r. f r < c) xs @ filter (\<lambda>r. \<not> f r < c) xs = xs"
proof (induction xs)
  case (Cons x xs)
  then have "\<not> f x < c \<Longrightarrow> filter (\<lambda>r. f r < c) xs = []" by (auto simp: filter_empty_conv)
  then show ?case using Cons by auto
qed simp

text \<open>
  C32. Against a venue that answers from a fixed set of rows at least one interval apart, whatever it
  fails in between, a backfill that returns has left no hole. Its rows are an unbroken run of the venue's
  that begins at the start of the overlap and has every row up to the freshness target; past the target
  there is no more than one page of them, those the last page brought along. The rows before the
  vendor's edge are the overlap and the rest are fresh, both in order, and the latest time reported is
  the last row's. The interval and the page size are positive and the target is a timestamp.
\<close>

theorem backfill_leaves_no_hole:
  assumes "serves E V" "spaced (bq_interval_ms b) V" "0 < bq_interval_ms b" "0 < bq_limit b"
    and "in_i64 (bq_now_ms b - bq_interval_ms b)" "backfill E b s = (Inr res, s')"
  shows "(\<exists>later. filter (\<lambda>r. sat_i64 (bq_from_ms b - bq_overlap_ms b) \<le> tr_open_time_ms r) V = br_overlap res @ br_fresh res @ later) \<and>
     (\<forall>r \<in> set V. sat_i64 (bq_from_ms b - bq_overlap_ms b) \<le> tr_open_time_ms r \<longrightarrow>
        tr_open_time_ms r \<le> bq_now_ms b - bq_interval_ms b \<longrightarrow>
        r \<in> set (if tr_open_time_ms r < bq_from_ms b then br_overlap res else br_fresh res)) \<and>
     length (filter (\<lambda>r. bq_now_ms b - bq_interval_ms b < tr_open_time_ms r) (br_overlap res @ br_fresh res)) \<le> bq_limit b \<and>
     (\<forall>r \<in> set (br_overlap res). tr_open_time_ms r < bq_from_ms b) \<and> (\<forall>r \<in> set (br_fresh res). bq_from_ms b \<le> tr_open_time_ms r) \<and>
     br_latest_open_time_ms res = map_option tr_open_time_ms (last_opt (br_overlap res @ br_fresh res))"
proof -
  let ?start = "sat_i64 (bq_from_ms b - bq_overlap_ms b)"
  let ?early = "\<lambda>r. tr_open_time_ms r < bq_from_ms b"
  obtain got s1 where run: "backfill_loop E b [] ?start s = (Inr got, s1)"
    and res: "res = \<lparr>br_fresh = filter (\<lambda>r. \<not> ?early r) got, br_overlap = filter ?early got,
      br_latest_open_time_ms = map_option tr_open_time_ms (last_opt got)\<rparr>"
    using assms(6) by (auto simp: backfill_def split: prod.splits sum.splits)
  have asc: "sorted_wrt (\<lambda>a b. tr_open_time_ms a < tr_open_time_ms b) V"
    using assms(2,3) by (auto simp: spaced_def elim: sorted_wrt_mono_rel [rotated])
  have suffix: "V = takeWhile (\<lambda>r. \<not> ?start \<le> tr_open_time_ms r) V @ filter (\<lambda>r. ?start \<le> tr_open_time_ms r) V"
    using ascending_suffix [OF asc] .
  obtain later where later: "filter (\<lambda>r. ?start \<le> tr_open_time_ms r) V = got @ later"
    "later \<noteq> [] \<longrightarrow> got \<noteq> [] \<and> wrap_i64 (bq_now_ms b - bq_interval_ms b) \<le> tr_open_time_ms (last got)"
    "length (filter (\<lambda>r. bq_now_ms b - bq_interval_ms b < tr_open_time_ms r) got) \<le> bq_limit b"
    using wrap_i64_id [OF assms(5)] backfill_loop_covers [OF assms(1-4) run, of "takeWhile (\<lambda>r. \<not> ?start \<le> tr_open_time_ms r) V"] suffix by auto
  have asc_got: "sorted_wrt (\<lambda>a b. tr_open_time_ms a < tr_open_time_ms b) (got @ later)"
    using asc later(1) sorted_wrt_filter by metis
  have parts: "br_overlap res @ br_fresh res = got"
    using ascending_parts [of tr_open_time_ms got "bq_from_ms b"] asc_got res by (simp add: sorted_wrt_append)
  have inside: "r \<in> set got" if "r \<in> set V" "?start \<le> tr_open_time_ms r" "tr_open_time_ms r \<le> bq_now_ms b - bq_interval_ms b" for r
  proof (rule ccontr)
    assume "r \<notin> set got"
    moreover have "r \<in> set (got @ later)" using that(1,2) by (simp add: later(1) [symmetric])
    ultimately have "r \<in> set later" by simp
    with later(2) have "got \<noteq> []" "bq_now_ms b - bq_interval_ms b \<le> tr_open_time_ms (last got)"
      using assms(5) by (auto simp: wrap_i64_id)
    moreover have "tr_open_time_ms (last got) < tr_open_time_ms r"
      using asc_got \<open>r \<in> set later\<close> \<open>got \<noteq> []\<close> by (simp add: sorted_wrt_append)
    ultimately show False using that(3) by simp
  qed
  have "filter (\<lambda>r. ?start \<le> tr_open_time_ms r) V = br_overlap res @ br_fresh res @ later"
    using later(1) parts by (simp flip: append_assoc)
  moreover have "r \<in> set (if ?early r then br_overlap res else br_fresh res)"
    if "r \<in> set V" "?start \<le> tr_open_time_ms r" "tr_open_time_ms r \<le> bq_now_ms b - bq_interval_ms b" for r
    using inside [OF that] by (simp add: res)
  moreover have "\<forall>r \<in> set (br_overlap res). ?early r" "\<forall>r \<in> set (br_fresh res). bq_from_ms b \<le> tr_open_time_ms r"
    by (simp_all add: res)
  moreover have "br_latest_open_time_ms res = map_option tr_open_time_ms (last_opt (br_overlap res @ br_fresh res))"
    unfolding parts by (simp add: res)
  ultimately show ?thesis using later(3) unfolding parts by blast
qed

definition sample_venue :: "timed_row list" where
  "sample_venue = map (\<lambda>t. \<lparr>tr_open_time_ms = t, tr_raw = []\<rparr>) [0, 10, 20, 30, 40]"

definition ideal :: "timed_row list \<Rightarrow> unit backfill_env" where
  "ideal V = \<lparr>bf_fetch_page = (\<lambda>q s. (Inr (take (pq_limit q) (filter (\<lambda>r. pq_start_ms q \<le> tr_open_time_ms r) V)), s)),
     bf_sleep_ms = (\<lambda>ms s. s), bf_retry = default_retry_policy\<rparr>"

definition sample_backfill :: backfill_request where
  "sample_backfill = \<lparr>bq_endpoint = Ep_Funding_Rate, bq_symbol = InstrumentId ''A'', bq_interval_ms = 10, bq_from_ms = 20,
     bq_now_ms = 40, bq_overlap_ms = 10, bq_limit = 2\<rparr>"

lemma ideal_serves: "serves (ideal V) V"
  by (simp add: serves_def ideal_def)

lemma ideal_fetch: "fetch_with_retry (ideal V) q s = (Inr (take (pq_limit q) (filter (\<lambda>r. pq_start_ms q \<le> tr_open_time_ms r) V)), s)"
  by (simp add: fetch_with_retry_def ideal_def retry_loop.simps)

lemma ideal_run:
  "backfill (ideal sample_venue) sample_backfill () =
     (Inr \<lparr>br_fresh = take 2 (drop 2 sample_venue) @ [last sample_venue], br_overlap = [sample_venue ! 1], br_latest_open_time_ms = Some 40\<rparr>, ())"
  by (simp add: backfill_def sample_backfill_def sample_venue_def backfill_loop.simps ideal_fetch last_time_def sat_i64_def wrap_i64_def Let_def last_opt_def)

theorem backfill_leaves_no_hole_witness:
  "list_all (\<lambda>r. r \<in> set (if tr_open_time_ms r < 20 then [sample_venue ! 1] else take 2 (drop 2 sample_venue) @ [last sample_venue]))
     (filter (\<lambda>r. 10 \<le> tr_open_time_ms r \<and> tr_open_time_ms r \<le> 30) sample_venue)"
proof -
  have hyps: "spaced (bq_interval_ms sample_backfill) sample_venue" "0 < bq_interval_ms sample_backfill" "0 < bq_limit sample_backfill"
    "in_i64 (bq_now_ms sample_backfill - bq_interval_ms sample_backfill)"
    by (simp_all add: spaced_def sample_venue_def sample_backfill_def in_i64_def)
  show ?thesis
    using backfill_leaves_no_hole [OF ideal_serves hyps ideal_run]
    by (auto simp: list_all_iff sample_backfill_def sat_i64_def)
qed

text \<open>
  Rows closer than one interval can be lost at the seam of two pages: the next page starts a whole
  interval after the last row, as with a funding settlement stamped a few milliseconds late.
\<close>

lemma close_row_is_skipped:
  "backfill (ideal (map (\<lambda>t. \<lparr>tr_open_time_ms = t, tr_raw = []\<rparr>) [0, 13, 20, 30])) (sample_backfill\<lparr>bq_from_ms := 0, bq_overlap_ms := 0\<rparr>) () =
     (Inr \<lparr>br_fresh = map (\<lambda>t. \<lparr>tr_open_time_ms = t, tr_raw = []\<rparr>) [0, 13, 30], br_overlap = [], br_latest_open_time_ms = Some 30\<rparr>, ())"
  by (simp add: backfill_def sample_backfill_def backfill_loop.simps ideal_fetch last_time_def sat_i64_def wrap_i64_def Let_def last_opt_def)
end
