(* ===== verification/Ingest_Binance.thy ===== *)
theory Ingest_Binance imports Ingest_Backfill Ordered_Map Money_Bars begin

text \<open>
  The historical decoder (crate \<open>qe-ingest\<close>, \<open>binance.rs\<close>): row decoders over the JSON readers, the
  closed-window filters, the planner of missing runs, and the window fetch that composes them over the
  backfiller. Decimal parsing and the errors' texts are parameters. A planner loop whose grid reaches
  past the largest timestamp may not end, which is the value \<open>None\<close>.
\<close>

section \<open>Decoding\<close>

record 'j decode_env =
  de_json :: "'j json"
  de_decimal :: "string \<Rightarrow> (string, decimal) result"
  de_domain_error_str :: "domain_error \<Rightarrow> string"

definition rest_err :: "string \<Rightarrow> (ingest_error, 'a) result" where
  "rest_err m = Inl (Rest m)"

definition dec_err :: "'j decode_env \<Rightarrow> (domain_error, 'a) result \<Rightarrow> (ingest_error, 'a) result" where
  "dec_err D r = (case r of Inl e \<Rightarrow> rest_err (''decode: '' @ de_domain_error_str D e) | Inr a \<Rightarrow> Inr a)"

definition ok_or :: "'a option \<Rightarrow> string \<Rightarrow> (ingest_error, 'a) result" where
  "ok_or v m = (case v of None \<Rightarrow> rest_err m | Some a \<Rightarrow> Inr a)"

definition col_i64 :: "'j decode_env \<Rightarrow> 'j list \<Rightarrow> nat \<Rightarrow> string \<Rightarrow> (ingest_error, i64) result" where
  "col_i64 D cols idx name =
     ok_or (Option.bind (get_opt cols idx) (js_i64 (de_json D)))
       (''kline column '' @ show_nat idx @ '' ('' @ name @ '') missing/not int'')"

definition col_dec :: "'j decode_env \<Rightarrow> 'j list \<Rightarrow> nat \<Rightarrow> string \<Rightarrow> (ingest_error, decimal) result" where
  "col_dec D cols idx name =
     res_bind (ok_or (Option.bind (get_opt cols idx) (js_str (de_json D)))
       (''kline column '' @ show_nat idx @ '' ('' @ name @ '') missing/not str'')) (\<lambda>s.
     (case de_decimal D s of
        Inl e \<Rightarrow> rest_err (''kline column '' @ show_nat idx @ '' ('' @ name @ '') bad decimal '' @ s @ '': '' @ e)
      | Inr d \<Rightarrow> Inr d))"

definition parse_raw :: "'j decode_env \<Rightarrow> string \<Rightarrow> string \<Rightarrow> (ingest_error, 'j) result" where
  "parse_raw D kind raw = (case js_parse_str (de_json D) raw of Inl e \<Rightarrow> rest_err (kind @ '' json: '' @ e) | Inr v \<Rightarrow> Inr v)"

definition decode_kline_row :: "'j decode_env \<Rightarrow> string \<Rightarrow> resolution \<Rightarrow> (ingest_error, bar) result" where
  "decode_kline_row D raw res =
     res_bind (parse_raw D ''kline'' raw) (\<lambda>v.
     res_bind (ok_or (js_array (de_json D) v) ''kline row is not a JSON array'') (\<lambda>cols.
     res_bind (col_i64 D cols 0 ''openTime'') (\<lambda>open_time.
     res_bind (col_i64 D cols 8 ''numberOfTrades'') (\<lambda>n.
     res_bind (col_dec D cols 1 ''open'') (\<lambda>o0. res_bind (dec_err D (price_new o0)) (\<lambda>opn.
     res_bind (col_dec D cols 2 ''high'') (\<lambda>h0. res_bind (dec_err D (price_new h0)) (\<lambda>high.
     res_bind (col_dec D cols 3 ''low'') (\<lambda>l0. res_bind (dec_err D (price_new l0)) (\<lambda>low.
     res_bind (col_dec D cols 4 ''close'') (\<lambda>c0. res_bind (dec_err D (price_new c0)) (\<lambda>close.
     res_bind (col_dec D cols 5 ''volume'') (\<lambda>v0. res_bind (dec_err D (qty_new v0)) (\<lambda>volume.
       dec_err D (bar_new open_time res opn high low close volume (nat (max 0 n)))))))))))))))))"

definition collect_rows :: "(timed_row \<Rightarrow> (ingest_error, 'a) result) \<Rightarrow> timed_row list \<Rightarrow> (ingest_error, 'a list) result" where
  "collect_rows f rows = try_fold (\<lambda>out r. res_bind (f r) (\<lambda>a. Inr (out @ [a]))) [] rows"

definition decode_klines :: "'j decode_env \<Rightarrow> resolution \<Rightarrow> timed_row list \<Rightarrow> (ingest_error, bar list) result" where
  "decode_klines D res rows = collect_rows (\<lambda>r. decode_kline_row D (tr_raw r) res) rows"

definition decode_funding_row :: "'j decode_env \<Rightarrow> string \<Rightarrow> (ingest_error, i64 \<times> decimal) result" where
  "decode_funding_row D raw =
     res_bind (parse_raw D ''funding'' raw) (\<lambda>v.
     res_bind (ok_or (js_object (de_json D) v) ''funding row is not a JSON object'') (\<lambda>obj.
     res_bind (ok_or (Option.bind (obj ''fundingTime'') (js_i64 (de_json D))) ''funding row missing fundingTime'') (\<lambda>ts.
     res_bind (ok_or (Option.bind (obj ''fundingRate'') (js_str (de_json D))) ''funding row missing fundingRate'') (\<lambda>s.
     (case de_decimal D s of
        Inl e \<Rightarrow> rest_err (''funding rate bad decimal '' @ s @ '': '' @ e) | Inr rate \<Rightarrow> Inr (ts, rate))))))"

definition decode_funding :: "'j decode_env \<Rightarrow> timed_row list \<Rightarrow> (ingest_error, (i64 \<times> decimal) list) result" where
  "decode_funding D rows = collect_rows (\<lambda>r. decode_funding_row D (tr_raw r)) rows"

definition decode_open_interest_row :: "'j decode_env \<Rightarrow> string \<Rightarrow> (ingest_error, i64 \<times> decimal) result" where
  "decode_open_interest_row D raw =
     res_bind (parse_raw D ''open-interest'' raw) (\<lambda>v.
     res_bind (ok_or (js_object (de_json D) v) ''open-interest row is not a JSON object'') (\<lambda>obj.
     res_bind (ok_or (Option.bind (obj ''timestamp'') (js_i64 (de_json D))) ''open-interest row missing timestamp'') (\<lambda>ts.
     res_bind (ok_or (Option.bind (obj ''sumOpenInterest'') (js_str (de_json D))) ''open-interest row missing sumOpenInterest'') (\<lambda>s.
     (case de_decimal D s of
        Inl e \<Rightarrow> rest_err (''open-interest bad decimal '' @ s @ '': '' @ e) | Inr oi \<Rightarrow> Inr (ts, oi))))))"

definition decode_open_interest :: "'j decode_env \<Rightarrow> timed_row list \<Rightarrow> (ingest_error, (i64 \<times> decimal) list) result" where
  "decode_open_interest D rows = collect_rows (\<lambda>r. decode_open_interest_row D (tr_raw r)) rows"

definition decode_premium_row :: "'j decode_env \<Rightarrow> string \<Rightarrow> (ingest_error, i64 \<times> decimal) result" where
  "decode_premium_row D raw =
     res_bind (parse_raw D ''premium'' raw) (\<lambda>v.
     res_bind (ok_or (js_array (de_json D) v) ''premium row is not a JSON array'') (\<lambda>cols.
     res_bind (col_i64 D cols 0 ''openTime'') (\<lambda>open_time.
     res_bind (col_dec D cols 4 ''close'') (\<lambda>close. Inr (open_time, close)))))"

definition decode_premium :: "'j decode_env \<Rightarrow> timed_row list \<Rightarrow> (ingest_error, (i64 \<times> decimal) list) result" where
  "decode_premium D rows = collect_rows (\<lambda>r. decode_premium_row D (tr_raw r)) rows"

section \<open>Closed windows\<close>

text \<open>\<open>sort_by_key\<close> is stable and \<open>dedup_by_key\<close> keeps the first of a run of equal keys.\<close>

fun dedup_by_key :: "('a \<Rightarrow> 'k) \<Rightarrow> 'a list \<Rightarrow> 'a list" where
  "dedup_by_key f (x # y # ys) = (if f x = f y then dedup_by_key f (x # ys) else x # dedup_by_key f (y # ys))"
| "dedup_by_key f xs = xs"

definition closed_klines :: "bar list \<Rightarrow> i64 \<Rightarrow> i64 \<Rightarrow> bar list" where
  "closed_klines bars now_ms interval =
     dedup_by_key bar_open_time (sort_key bar_open_time (filter (\<lambda>b. sat_i64 (bar_open_time b + interval) \<le> now_ms) bars))"

definition closed_funding :: "(i64 \<times> decimal) list \<Rightarrow> i64 \<Rightarrow> (i64 \<times> decimal) list" where
  "closed_funding funding now_ms = dedup_by_key fst (sort_key fst (filter (\<lambda>o'. fst o' \<le> now_ms) funding))"

definition closed_series :: "(i64 \<times> decimal) list \<Rightarrow> i64 \<Rightarrow> i64 \<Rightarrow> (i64 \<times> decimal) list" where
  "closed_series obs now_ms step =
     dedup_by_key fst (sort_key fst (filter (\<lambda>o'. sat_i64 (fst o' + step) \<le> now_ms) obs))"

section \<open>Missing runs\<close>

definition floor_to_grid :: "i64 \<Rightarrow> i64 \<Rightarrow> i64" where
  "floor_to_grid t step = wrap_i64 (t - t mod step)"

type_synonym runs = "(i64 \<times> i64) list"

definition take_run :: "(i64 \<times> i64) option \<Rightarrow> runs \<Rightarrow> runs" where
  "take_run run out = (case run of None \<Rightarrow> out | Some r \<Rightarrow> out @ [r])"

definition plan_slot :: "i64 set \<Rightarrow> i64 \<Rightarrow> (i64 \<times> i64) option \<times> runs \<Rightarrow> (i64 \<times> i64) option \<times> runs" where
  "plan_slot present t st =
     (if t \<in> present then (None, take_run (fst st) (snd st))
      else (Some (case fst st of None \<Rightarrow> (t, t) | Some (s, _) \<Rightarrow> (s, t)), snd st))"

text \<open>The loop runs while \<open>t \<le> to\<close>, that is while \<open>t < to + 1\<close> over the integers.\<close>

definition plan_missing :: "i64 \<Rightarrow> i64 \<Rightarrow> i64 \<Rightarrow> i64 set \<Rightarrow> runs option" where
  "plan_missing from_ms to_ms step present =
     (if step \<le> 0 \<or> to_ms < from_ms then Some []
      else map_option (\<lambda>st. take_run (fst st) (snd st))
             (slot_loop (plan_slot present) step (to_ms + 1) (floor_to_grid from_ms step) (None, [])))"

section \<open>The window fetch\<close>

definition funding_interval_ms :: i64 where "funding_interval_ms = 8 * 60 * 60 * 1000"

datatype calibration_source = Measured | Uncalibrated

record ingested_window =
  iw_base :: resolution
  iw_bars :: "bar list"
  iw_funding :: "(i64 \<times> decimal) list"
  iw_open_interest :: "(i64 \<times> decimal) list"
  iw_premium :: "(i64 \<times> decimal) list"
  iw_calibration_source :: calibration_source

record window_request =
  wq_symbol :: instrument_id
  wq_resolution :: resolution
  wq_from_ms :: i64
  wq_to_ms :: i64
  wq_now_ms :: i64
  wq_limit :: u32

definition page_window ::
  "'s backfill_env \<Rightarrow> rest_endpoint \<Rightarrow> instrument_id \<Rightarrow> i64 \<Rightarrow> i64 \<Rightarrow> i64 \<Rightarrow> u32 \<Rightarrow> 's \<Rightarrow> (ingest_error, timed_row list) result \<times> 's" where
  "page_window E ep inst step a b limit s =
     (case backfill E \<lparr>bq_endpoint = ep, bq_symbol = inst, bq_interval_ms = step, bq_from_ms = a,
          bq_now_ms = wrap_i64 (b + step), bq_overlap_ms = 0, bq_limit = limit\<rparr> s of
        (Inl e, s') \<Rightarrow> (Inl e, s')
      | (Inr res, s') \<Rightarrow>
          (Inr (filter (\<lambda>r. tr_open_time_ms r \<ge> a \<and> tr_open_time_ms r \<le> b) (br_fresh res @ br_overlap res)), s'))"

text \<open>\<open>for (a, b) in runs { rows = page(a, b)?; out.extend(decode(rows)?) }\<close>.\<close>

fun page_runs ::
  "'s backfill_env \<Rightarrow> window_request \<Rightarrow> rest_endpoint \<Rightarrow> i64 \<Rightarrow> (timed_row list \<Rightarrow> (ingest_error, 'a list) result)
     \<Rightarrow> runs \<Rightarrow> 'a list \<Rightarrow> 's \<Rightarrow> (ingest_error, 'a list) result \<times> 's" where
  "page_runs E q ep step decode [] out s = (Inr out, s)"
| "page_runs E q ep step decode ((a, b) # rest) out s =
     (case page_window E ep (wq_symbol q) step a b (wq_limit q) s of
        (Inl e, s') \<Rightarrow> (Inl e, s')
      | (Inr rows, s') \<Rightarrow>
          (case decode rows of
             Inl e \<Rightarrow> (Inl e, s')
           | Inr new \<Rightarrow> page_runs E q ep step decode rest (out @ new) s'))"

definition fetch_context_series ::
  "'s backfill_env \<Rightarrow> window_request \<Rightarrow> rest_endpoint \<Rightarrow> i64 \<Rightarrow> i64 \<Rightarrow> (timed_row list \<Rightarrow> (ingest_error, (i64 \<times> decimal) list) result)
     \<Rightarrow> 's \<Rightarrow> ((ingest_error, (i64 \<times> decimal) list) result \<times> 's) option" where
  "fetch_context_series E q ep step to_ms decode s =
     map_option (\<lambda>runs.
       (case page_runs E q ep step decode runs [] s of
          (Inl e, s') \<Rightarrow> (Inl e, s')
        | (Inr out, s') \<Rightarrow> (Inr (closed_series out (wq_now_ms q) step), s')))
     (plan_missing (wq_from_ms q) to_ms step {})"

definition unwrap_or_default :: "('e, 'a list) result \<Rightarrow> 'a list" where
  "unwrap_or_default r = (case r of Inl _ \<Rightarrow> [] | Inr a \<Rightarrow> a)"

definition fetch_window ::
  "'s backfill_env \<Rightarrow> 'j decode_env \<Rightarrow> window_request \<Rightarrow> i64 set \<Rightarrow> i64 set \<Rightarrow> 's
     \<Rightarrow> ((ingest_error, ingested_window) result \<times> 's) option" where
  "fetch_window E D q present_bars present_funding s =
     (let interval = int (resolution_minutes (wq_resolution q)) * 60000; stop = min (wq_to_ms q) (wq_now_ms q)
      in Option.bind (plan_missing (wq_from_ms q) stop interval present_bars) (\<lambda>bar_runs.
         (case page_runs E q (Ep_Klines (wq_resolution q)) interval (decode_klines D (wq_resolution q)) bar_runs [] s of
            (Inl e, s1) \<Rightarrow> Some (Inl e, s1)
          | (Inr bars, s1) \<Rightarrow>
              Option.bind (plan_missing (wq_from_ms q) stop funding_interval_ms present_funding) (\<lambda>funding_runs.
              (case page_runs E q Ep_Funding_Rate funding_interval_ms (decode_funding D) funding_runs [] s1 of
                 (Inl e, s2) \<Rightarrow> Some (Inl e, s2)
               | (Inr funding, s2) \<Rightarrow>
                   Option.bind (fetch_context_series E q (Ep_Open_Interest_Hist (wq_resolution q)) interval stop (decode_open_interest D) s2)
                   (\<lambda>(oi, s3).
                   Option.bind (fetch_context_series E q (Ep_Premium_Index_Klines (wq_resolution q)) interval stop (decode_premium D) s3)
                   (\<lambda>(premium, s4).
                     Some (Inr \<lparr>iw_base = wq_resolution q, iw_bars = closed_klines bars (wq_now_ms q) interval,
                                iw_funding = closed_funding funding (wq_now_ms q),
                                iw_open_interest = unwrap_or_default oi, iw_premium = unwrap_or_default premium,
                                iw_calibration_source = Uncalibrated\<rparr>, s4))))))))"

section \<open>The plan is exact\<close>

definition covered :: "runs \<Rightarrow> i64 \<Rightarrow> bool" where
  "covered runs t \<longleftrightarrow> (\<exists>(a, b) \<in> set runs. a \<le> t \<and> t \<le> b)"

definition plan_inv :: "i64 \<Rightarrow> i64 \<Rightarrow> i64 set \<Rightarrow> i64 \<Rightarrow> (i64 \<times> i64) option \<times> runs \<Rightarrow> bool" where
  "plan_inv g step present t st \<longleftrightarrow>
     (let runs = take_run (fst st) (snd st) in
        (\<forall>u. g \<le> u \<and> u < t \<and> u mod step = 0 \<longrightarrow> (covered runs u \<longleftrightarrow> u \<notin> present)) \<and>
        (\<forall>(a, b) \<in> set runs. g \<le> a \<and> a \<le> b \<and> b + step \<le> t \<and> a mod step = 0 \<and> b mod step = 0) \<and>
        sorted_wrt (\<lambda>r r'. snd r + step < fst r') runs \<and>
        (case fst st of None \<Rightarrow> (\<forall>(a, b) \<in> set runs. b + step < t) | Some (a, b) \<Rightarrow> b + step = t))"

lemma grid_between: "(t :: int) mod d = 0 \<Longrightarrow> u mod d = 0 \<Longrightarrow> t \<le> u \<Longrightarrow> u < t + d \<Longrightarrow> u = t"
proof -
  assume a: "t mod d = 0" "u mod d = 0" "t \<le> u" "u < t + d"
  then obtain m n where "t = d * m" "u = d * n" by (metis mod_0_imp_dvd dvdE)
  moreover from this a have "d * (n - m) < d * 1" "0 \<le> d * (n - m)" "0 < d" by (simp_all add: algebra_simps)
  then have "n - m < 1" "0 \<le> n - m" by (simp_all only: mult_less_cancel_left_pos zero_le_mult_iff) auto
  ultimately show "u = t" by simp
qed

lemma plan_inv_None:
  "plan_inv g step present t (None, runs) \<longleftrightarrow>
     (\<forall>u. g \<le> u \<and> u < t \<and> u mod step = 0 \<longrightarrow> (covered runs u \<longleftrightarrow> u \<notin> present)) \<and>
     (\<forall>a b. (a, b) \<in> set runs \<longrightarrow> g \<le> a \<and> a \<le> b \<and> b + step \<le> t \<and> a mod step = 0 \<and> b mod step = 0) \<and>
     sorted_wrt (\<lambda>r r'. snd r + step < fst r') runs \<and> (\<forall>a b. (a, b) \<in> set runs \<longrightarrow> b + step < t)"
  by (auto simp: plan_inv_def take_run_def)

lemma plan_inv_Some:
  "plan_inv g step present t (Some (a, b), out) \<longleftrightarrow>
     (\<forall>u. g \<le> u \<and> u < t \<and> u mod step = 0 \<longrightarrow> (covered (out @ [(a, b)]) u \<longleftrightarrow> u \<notin> present)) \<and>
     (g \<le> a \<and> a \<le> b \<and> a mod step = 0 \<and> b mod step = 0) \<and>
     (\<forall>c d. (c, d) \<in> set out \<longrightarrow> g \<le> c \<and> c \<le> d \<and> d + step < a \<and> c mod step = 0 \<and> d mod step = 0) \<and>
     sorted_wrt (\<lambda>r r'. snd r + step < fst r') out \<and> b + step = t" if "0 < step"
proof -
  have "(\<forall>r \<in> set out. snd r + step < a) \<longleftrightarrow> (\<forall>c d. (c, d) \<in> set out \<longrightarrow> d + step < a)" by auto
  moreover have "d + step < a \<Longrightarrow> a \<le> b \<Longrightarrow> b + step = t \<Longrightarrow> d + step \<le> t" for d using that by linarith
  ultimately show ?thesis unfolding plan_inv_def take_run_def by (auto simp: sorted_wrt_append)
qed

lemma plan_slot_inv:
  assumes "0 < step" "t mod step = 0" "g \<le> t" "plan_inv g step present t st"
  shows "plan_inv g step present (t + step) (plan_slot present t st)"
proof -
  obtain run out where st: "st = (run, out)" by (cases st)
  have next': "u < t \<or> u = t" if "u < t + step" "u mod step = 0" for u
    using grid_between [of t step u] assms(2) that by force
  show ?thesis
  proof (cases run)
    case None
    then have inv: "plan_inv g step present t (None, out)" using assms(4) st by simp
    note cov = inv [unfolded plan_inv_None, THEN conjunct1, rule_format]
    have runs: "\<forall>a b. (a, b) \<in> set out \<longrightarrow> g \<le> a \<and> a \<le> b \<and> b + step < t \<and> a mod step = 0 \<and> b mod step = 0"
      "sorted_wrt (\<lambda>r r'. snd r + step < fst r') out" using inv by (auto simp: plan_inv_None)
    then have here: "\<not> covered out t" using assms(1) by (force simp: covered_def)
    show ?thesis
    proof (cases "t \<in> present")
      case True
      have "covered out u \<longleftrightarrow> u \<notin> present" if "g \<le> u" "u < t + step" "u mod step = 0" for u
        using next' [OF that(2,3)] cov [of u] that(1,3) here True by (cases "u = t") simp_all
      moreover have "g \<le> a \<and> a \<le> b \<and> b + step \<le> t + step \<and> a mod step = 0 \<and> b mod step = 0" "b + step < t + step"
        if "(a, b) \<in> set out" for a b
      proof -
        have "g \<le> a \<and> a \<le> b \<and> a mod step = 0 \<and> b mod step = 0" "b + step < t" using runs(1) that by blast+
        moreover from this(2) have "b + step \<le> t + step" "b + step < t + step" using assms(1) by linarith+
        ultimately show "g \<le> a \<and> a \<le> b \<and> b + step \<le> t + step \<and> a mod step = 0 \<and> b mod step = 0" "b + step < t + step"
          by blast+
      qed
      ultimately show ?thesis unfolding plan_slot_def st None take_run_def using True runs(2) by (simp add: plan_inv_None)
    next
      case False
      have "covered (out @ [(t, t)]) u \<longleftrightarrow> u \<notin> present" if "g \<le> u" "u < t + step" "u mod step = 0" for u
        using next' [OF that(2,3)] cov [of u] that False by (auto simp: covered_def)
      then show ?thesis using False runs assms by (simp add: plan_slot_def st None plan_inv_Some)
    qed
  next
    case (Some ab)
    obtain a b where ab: "ab = (a, b)" by (cases ab)
    then have inv: "plan_inv g step present t (Some (a, b), out)" using assms(4) st Some by simp
    note cov = inv [unfolded plan_inv_Some [OF assms(1)], THEN conjunct1, rule_format]
    have runs: "g \<le> a \<and> a \<le> b \<and> a mod step = 0 \<and> b mod step = 0" "b + step = t"
        "\<forall>c d. (c, d) \<in> set out \<longrightarrow> g \<le> c \<and> c \<le> d \<and> d + step < a \<and> c mod step = 0 \<and> d mod step = 0"
        "sorted_wrt (\<lambda>r r'. snd r + step < fst r') out"
      using inv by (auto simp: plan_inv_Some [OF assms(1)])
    show ?thesis
    proof (cases "t \<in> present")
      case True
      have "\<not> covered (out @ [(a, b)]) t" using runs assms(1) by (force simp: covered_def)
      then have "covered (out @ [(a, b)]) u \<longleftrightarrow> u \<notin> present" if "g \<le> u" "u < t + step" "u mod step = 0" for u
        using next' [OF that(2,3)] cov [of u] that(1,3) True by (cases "u = t") simp_all
      moreover have "sorted_wrt (\<lambda>r r'. snd r + step < fst r') (out @ [(a, b)])" using runs by (force simp: sorted_wrt_append)
      moreover have "g \<le> c \<and> c \<le> d \<and> d + step \<le> t + step \<and> c mod step = 0 \<and> d mod step = 0" "d + step < t + step"
        if "(c, d) \<in> set (out @ [(a, b)])" for c d
      proof -
        have w: "g \<le> c \<and> c \<le> d \<and> c mod step = 0 \<and> d mod step = 0" using runs that by auto
        have "d = b \<or> d + step < a" using runs(3) that by auto
        then have "d + step \<le> t + step" "d + step < t + step" using runs(1,2) assms(1) by linarith+
        then show "g \<le> c \<and> c \<le> d \<and> d + step \<le> t + step \<and> c mod step = 0 \<and> d mod step = 0" "d + step < t + step"
          using w by blast+
      qed
      ultimately show ?thesis using True unfolding plan_slot_def st Some ab take_run_def
        by (simp add: plan_inv_None)
    next
      case False
      have "covered (out @ [(a, t)]) u \<longleftrightarrow> u \<notin> present" if "g \<le> u" "u < t + step" "u mod step = 0" for u
      proof (cases "u = t")
        case True
        then show ?thesis using False runs(1,2) assms(1) by (simp add: covered_def)
      next
        case other: False
        then have "u < t" using next' [OF that(2,3)] by blast
        have "u \<le> b"
        proof (rule ccontr)
          assume "\<not> u \<le> b"
          then have "b \<le> u" "u < b + step" using \<open>u < t\<close> runs(2) by linarith+
          then show False using grid_between [of b step u] runs(1) that(3) \<open>\<not> u \<le> b\<close> by blast
        qed
        then have "covered (out @ [(a, t)]) u \<longleftrightarrow> covered (out @ [(a, b)]) u" using \<open>u < t\<close> runs(2) assms(1) by (auto simp: covered_def)
        then show ?thesis using cov [of u] that \<open>u < t\<close> by simp
      qed
      then show ?thesis using False runs assms(1,2) by (simp add: plan_slot_def st Some ab plan_inv_Some)
    qed
  qed
qed

lemma plan_fold_inv:
  assumes "0 < step"
  shows "t mod step = 0 \<Longrightarrow> g \<le> t \<Longrightarrow> plan_inv g step present t st \<Longrightarrow>
     \<exists>t'. stop \<le> t' \<and> (t < stop \<longrightarrow> t' < stop + step) \<and> (stop \<le> t \<longrightarrow> t' = t) \<and> plan_inv g step present t' (fold (plan_slot present) (slots_from step stop t) st)"
proof (induction "nat (stop - t)" arbitrary: t st rule: less_induct)
  case less
  show ?case
  proof (cases "t < stop")
    case True
    have "(t + step) mod step = 0" using less.prems(1) by simp
    then have "\<exists>t'. stop \<le> t' \<and> (t + step < stop \<longrightarrow> t' < stop + step) \<and> (stop \<le> t + step \<longrightarrow> t' = t + step) \<and>
        plan_inv g step present t' (fold (plan_slot present) (slots_from step stop (t + step)) (plan_slot present t st))"
      using less.prems plan_slot_inv [OF assms less.prems] True assms by (intro less.hyps) auto
    then obtain t' where t': "stop \<le> t'" "t + step < stop \<longrightarrow> t' < stop + step" "stop \<le> t + step \<longrightarrow> t' = t + step"
        "plan_inv g step present t' (fold (plan_slot present) (slots_from step stop (t + step)) (plan_slot present t st))" by blast
    then have "t' < stop + step" using True by linarith
    then show ?thesis using t' True by (intro exI [of _ t']) (simp add: slots_from_step [OF True assms])
  next
    case False
    then show ?thesis using less.prems(3) assms by (intro exI [of _ t]) (simp add: slots_from_empty)
  qed
qed

definition plan_fits :: "i64 \<Rightarrow> i64 \<Rightarrow> i64 \<Rightarrow> bool" where
  "plan_fits from_ms to_ms step \<longleftrightarrow> 0 < step \<and> i64_min + step \<le> from_ms \<and> from_ms \<le> i64_max \<and> to_ms + step \<le> i64_max"

lemma floor_to_grid_fits:
  assumes "plan_fits from_ms to_ms step"
  shows "floor_to_grid from_ms step = from_ms - from_ms mod step" "floor_to_grid from_ms step mod step = 0"
    "i64_min \<le> floor_to_grid from_ms step" "floor_to_grid from_ms step \<le> from_ms" "from_ms < floor_to_grid from_ms step + step"
proof -
  have m: "0 \<le> from_ms mod step" "from_ms mod step < step" using assms by (simp_all add: plan_fits_def)
  then show eq: "floor_to_grid from_ms step = from_ms - from_ms mod step"
    using assms m unfolding floor_to_grid_def plan_fits_def by (intro wrap_i64_id) (simp add: in_i64_def)
  show "floor_to_grid from_ms step mod step = 0" by (simp add: eq minus_mod_eq_mult_div)
  show "i64_min \<le> floor_to_grid from_ms step" "floor_to_grid from_ms step \<le> from_ms" "from_ms < floor_to_grid from_ms step + step"
    using m assms by (simp_all add: eq plan_fits_def)
qed

lemma plan_is_exact:
  assumes "plan_fits from_ms to_ms step" "from_ms \<le> to_ms"
  shows "\<exists>runs. plan_missing from_ms to_ms step present = Some runs \<and>
     (\<forall>t. floor_to_grid from_ms step \<le> t \<and> t \<le> to_ms \<and> t mod step = 0 \<longrightarrow> (covered runs t \<longleftrightarrow> t \<notin> present)) \<and>
     (\<forall>(a, b) \<in> set runs. floor_to_grid from_ms step \<le> a \<and> a \<le> b \<and> b \<le> to_ms \<and> a mod step = 0 \<and> b mod step = 0) \<and>
     sorted_wrt (\<lambda>r r'. snd r + step < fst r') runs"
proof -
  let ?g = "floor_to_grid from_ms step"
  note fits = floor_to_grid_fits [OF assms(1)]
  have step: "0 < step" using assms(1) by (simp add: plan_fits_def)
  define st where "st = fold (plan_slot present) (slots_from step (to_ms + 1) ?g) (None, [])"
  have loop: "slot_loop (plan_slot present) step (to_ms + 1) ?g (None, []) = Some st"
    using assms(1) fits(3) unfolding st_def plan_fits_def by (intro slot_loop_visits) auto
  have "plan_inv ?g step present ?g (None, [])" by (auto simp: plan_inv_None)
  then obtain t' where t': "to_ms + 1 \<le> t'" "t' < to_ms + 1 + step" "plan_inv ?g step present t' st"
    using plan_fold_inv [OF step fits(2) order.refl, of present "(None, [])" "to_ms + 1"] fits(4) assms(2)
    unfolding st_def by auto
  then show ?thesis
    using loop step assms(2) by (fastforce simp: plan_missing_def plan_inv_def Let_def)
qed

text \<open>
  The planner returns, and what it returns is exact: a slot of the grid over the window is in one of
  its runs if and only if the store does not hold it, so covered slots are never fetched again and an
  internal hole is never missed; the runs lie in the window, in order, and are maximal: more than one
  step, hence a slot that is present, separates any two.
\<close>

theorem missing_runs_are_exact:
  assumes "plan_fits from_ms to_ms step" "from_ms \<le> to_ms"
  shows "\<exists>runs. plan_missing from_ms to_ms step present = Some runs \<and>
     (\<forall>t. floor_to_grid from_ms step \<le> t \<and> t \<le> to_ms \<and> t mod step = 0 \<longrightarrow> (covered runs t \<longleftrightarrow> t \<notin> present)) \<and>
     (\<forall>(a, b) \<in> set runs. floor_to_grid from_ms step \<le> a \<and> a \<le> b \<and> b \<le> to_ms \<and> a mod step = 0 \<and> b mod step = 0) \<and>
     sorted_wrt (\<lambda>r r'. snd r + step < fst r') runs"
  by (rule plan_is_exact [OF assms])

lemma sample_plan_fits: "plan_fits 7 50 10" by (simp add: plan_fits_def)

theorem missing_runs_are_exact_witness:
  "\<exists>runs. plan_missing 7 50 10 {10, 40} = Some runs \<and> covered runs 0 \<and> \<not> covered runs 10 \<and> covered runs 20 \<and> covered runs 50"
proof -
  obtain runs where "plan_missing 7 50 10 {10, 40} = Some runs"
    "\<forall>t. floor_to_grid 7 10 \<le> t \<and> t \<le> 50 \<and> t mod 10 = 0 \<longrightarrow> (covered runs t \<longleftrightarrow> t \<notin> {10, 40})"
    using missing_runs_are_exact [OF sample_plan_fits, of "{10, 40}"] by auto
  then show ?thesis by (simp add: floor_to_grid_def wrap_i64_def)
qed

section \<open>What a window holds\<close>

lemma dedup_by_key_strict:
  fixes f :: "'a \<Rightarrow> 'k::linorder"
  shows "sorted (map f xs) \<Longrightarrow> sorted_wrt (<) (map f (dedup_by_key f xs)) \<and> set (dedup_by_key f xs) \<subseteq> set xs \<and>
     f ` set (dedup_by_key f xs) = f ` set xs"
proof (induction f xs rule: dedup_by_key.induct)
  case (1 f x y ys)
  show ?case
  proof (cases "f x = f y")
    case True
    then show ?thesis using 1 by auto
  next
    case False
    then have "sorted_wrt (<) (map f (dedup_by_key f (y # ys)))" "set (dedup_by_key f (y # ys)) \<subseteq> set (y # ys)"
      "f ` set (dedup_by_key f (y # ys)) = f ` set (y # ys)" using 1 by auto
    moreover have "f x < f z" if "z \<in> set (y # ys)" for z
      using that 1(3) False by (auto simp: less_le)
    ultimately show ?thesis using False by auto
  qed
qed auto

lemma closed_by_key:
  fixes f :: "'a \<Rightarrow> 'k::linorder"
  shows "sorted_wrt (<) (map f (dedup_by_key f (sort_key f xs)))"
    and "x \<in> set (dedup_by_key f (sort_key f xs)) \<Longrightarrow> x \<in> set xs"
  using dedup_by_key_strict [of f "sort_key f xs"] by auto

definition delivers :: "'s backfill_env \<Rightarrow> (timed_row \<Rightarrow> bool) \<Rightarrow> bool" where
  "delivers E P \<longleftrightarrow> (\<forall>q s rows s'. bf_fetch_page E q s = (Inr rows, s') \<longrightarrow> list_all P rows)"

lemma retry_delivers:
  assumes "delivers E P" "fetch_with_retry E q s = (Inr rows, s')"
  shows "list_all P rows"
proof -
  obtain n where "settled_as E q n (state_at E q n s) (Inr rows) s'"
    using retry_loop_settles [of E q 0 s "Inr rows" s'] assms(2) by (auto simp: fetch_with_retry_def)
  then have "bf_fetch_page E q (state_at E q n s) = (Inr rows, s')"
    by (auto simp: settled_as_def split: prod.splits sum.splits rest_error.splits)
  then show ?thesis using assms(1) unfolding delivers_def by blast
qed

lemma backfill_loop_delivers:
  "delivers E P \<Longrightarrow> list_all P rows \<Longrightarrow> backfill_loop E b rows cursor s = (Inr got, s') \<Longrightarrow> list_all P got"
proof (induction E b rows cursor s rule: backfill_loop.induct)
  case (1 E b rows cursor s)
  let ?q = "\<lparr>pq_endpoint = bq_endpoint b, pq_symbol = bq_symbol b, pq_start_ms = cursor, pq_limit = bq_limit b\<rparr>"
  let ?new = "\<lambda>page. filter (\<lambda>r. last_time i64_min rows < tr_open_time_ms r) page"
  obtain p s1 where fw: "fetch_with_retry E ?q s = (p, s1)" by (cases "fetch_with_retry E ?q s")
  obtain page where p: "p = Inr page" using "1.prems"(3) fw by (cases p) (auto simp: backfill_loop.simps [of E b rows])
  have "list_all P page" using retry_delivers [OF "1.prems"(1) fw [unfolded p]] .
  then have more: "list_all P (rows @ ?new page)" using "1.prems"(2) by (auto simp: list_all_iff)
  show ?case
  proof (cases "page = [] \<or> ?new page = [] \<or> wrap_i64 (bq_now_ms b - bq_interval_ms b) \<le> last_time cursor (rows @ ?new page)")
    case True
    then show ?thesis using "1.prems" fw p more by (auto simp: backfill_loop.simps [of E b rows] Let_def split: if_splits)
  next
    case False
    then have step: "backfill_loop E b (rows @ ?new page) (wrap_i64 (last_time cursor (rows @ ?new page) + bq_interval_ms b)) s1 = (Inr got, s')"
      using "1.prems"(3) fw p by (simp add: backfill_loop.simps [of E b rows] Let_def)
    show ?thesis by (rule "1.IH" [OF fw [symmetric] p _ refl refl refl _ "1.prems"(1) more step]) (use False in auto)
  qed
qed

lemma page_window_within:
  assumes "delivers E P" "page_window E ep inst step a b limit s = (Inr rows, s')"
  shows "\<forall>r \<in> set rows. P r \<and> a \<le> tr_open_time_ms r \<and> tr_open_time_ms r \<le> b"
proof -
  obtain bq res where res: "backfill E bq s = (Inr res, s')"
    and rows: "rows = filter (\<lambda>r. tr_open_time_ms r \<ge> a \<and> tr_open_time_ms r \<le> b) (br_fresh res @ br_overlap res)"
    using assms(2) by (auto simp: page_window_def split: prod.splits sum.splits)
  then obtain got where "list_all P got" "set (br_fresh res @ br_overlap res) = set got"
    using backfill_loop_delivers [OF assms(1), of "[]" bq] by (fastforce simp: backfill_def split: prod.splits sum.splits)
  then show ?thesis using rows by (auto simp: list_all_iff)
qed

lemma collect_rows_Inr: "collect_rows f rows = Inr xs \<Longrightarrow> x \<in> set xs \<Longrightarrow> \<exists>r \<in> set rows. f r = Inr x"
proof -
  have "try_fold (\<lambda>out r. res_bind (f r) (\<lambda>a. Inr (out @ [a]))) out rows = Inr xs \<Longrightarrow> x \<in> set xs \<Longrightarrow>
      x \<in> set out \<or> (\<exists>r \<in> set rows. f r = Inr x)" for out
    by (induction rows arbitrary: out) (fastforce split: sum.splits simp: res_bind_def)+
  from this [of "[]"] show "collect_rows f rows = Inr xs \<Longrightarrow> x \<in> set xs \<Longrightarrow> \<exists>r \<in> set rows. f r = Inr x"
    by (simp add: collect_rows_def)
qed

lemma page_runs_within:
  assumes "delivers E P"
  shows "page_runs E q ep step (collect_rows f) runs out s = (Inr got, s') \<Longrightarrow> x \<in> set got \<Longrightarrow>
     x \<in> set out \<or> (\<exists>r. P r \<and> f r = Inr x \<and> covered runs (tr_open_time_ms r))"
proof (induction runs arbitrary: out s)
  case (Cons ab rest)
  obtain a b where ab: "ab = (a, b)" by (cases ab)
  obtain rows s1 where page: "page_window E ep (wq_symbol q) step a b (wq_limit q) s = (Inr rows, s1)"
    using Cons.prems(1) ab by (auto split: prod.splits sum.splits)
  obtain new where new: "collect_rows f rows = Inr new" using Cons.prems(1) ab page by (auto split: sum.splits)
  have "page_runs E q ep step (collect_rows f) rest (out @ new) s1 = (Inr got, s')" using Cons.prems(1) ab page new by simp
  from Cons.IH [OF this Cons.prems(2)] consider "x \<in> set out" | "x \<in> set new"
    | "\<exists>r. P r \<and> f r = Inr x \<and> covered rest (tr_open_time_ms r)" by auto
  then show ?case
  proof cases
    case 2
    then show ?thesis using collect_rows_Inr [OF new] page_window_within [OF assms page] ab by (auto simp: covered_def)
  qed (auto simp: covered_def)
qed simp

lemma plan_covers_only_missing:
  assumes "plan_fits from_ms to_ms step"
  shows "\<exists>runs. plan_missing from_ms to_ms step present = Some runs \<and>
     (\<forall>t. covered runs t \<longrightarrow> floor_to_grid from_ms step \<le> t \<and> t \<le> to_ms \<and> (t mod step = 0 \<longrightarrow> t \<notin> present))"
proof (cases "from_ms \<le> to_ms")
  case True
  obtain runs where runs: "plan_missing from_ms to_ms step present = Some runs"
     "\<forall>t. floor_to_grid from_ms step \<le> t \<and> t \<le> to_ms \<and> t mod step = 0 \<longrightarrow> (covered runs t \<longleftrightarrow> t \<notin> present)"
     "\<forall>(a, b) \<in> set runs. floor_to_grid from_ms step \<le> a \<and> a \<le> b \<and> b \<le> to_ms \<and> a mod step = 0 \<and> b mod step = 0"
    using plan_is_exact [OF assms True, of present] by (elim exE conjE) (rule that)
  have span: "floor_to_grid from_ms step \<le> t \<and> t \<le> to_ms" if "covered runs t" for t
    using that runs(3) by (fastforce simp: covered_def)
  then have "\<forall>t. covered runs t \<longrightarrow> floor_to_grid from_ms step \<le> t \<and> t \<le> to_ms \<and> (t mod step = 0 \<longrightarrow> t \<notin> present)"
    using runs(2) [rule_format, THEN iffD1] span by (intro allI impI conjI) metis+
  then show ?thesis using runs(1) by (intro exI conjI)
qed (simp add: plan_missing_def covered_def)

definition window_fits :: "window_request \<Rightarrow> bool" where
  "window_fits q \<longleftrightarrow> i64_min + 86400000 \<le> wq_from_ms q \<and> wq_from_ms q \<le> i64_max \<and>
     min (wq_to_ms q) (wq_now_ms q) + 86400000 \<le> i64_max"

definition bar_interval :: "window_request \<Rightarrow> i64" where
  "bar_interval q = int (resolution_minutes (wq_resolution q)) * 60000"

lemma bar_interval_bounds: "0 < bar_interval q" "bar_interval q \<le> 86400000"
  using resolution_minutes_le [of "wq_resolution q"] resolution_minutes_pos [of "wq_resolution q"] by (simp_all add: bar_interval_def)

lemma fetch_context_closed:
  assumes "plan_fits (wq_from_ms q) to_ms step"
  shows "\<exists>r s'. fetch_context_series E q ep step to_ms decode s = Some (r, s') \<and>
     sorted_wrt (<) (map fst (unwrap_or_default r)) \<and> (\<forall>x \<in> set (unwrap_or_default r). sat_i64 (fst x + step) \<le> wq_now_ms q)"
proof -
  obtain runs where runs: "plan_missing (wq_from_ms q) to_ms step {} = Some runs"
    using plan_covers_only_missing [OF assms] by blast
  obtain r s' where page: "page_runs E q ep step decode runs [] s = (r, s')" by (cases "page_runs E q ep step decode runs [] s")
  show ?thesis
    using runs page closed_by_key(1) [of fst]
    by (auto dest!: closed_by_key(2) simp: fetch_context_series_def closed_series_def unwrap_or_default_def split: sum.splits)
qed

definition window_correct :: "window_request \<Rightarrow> i64 set \<Rightarrow> i64 set \<Rightarrow> ingested_window \<Rightarrow> bool" where
  "window_correct q present_bars present_funding w \<longleftrightarrow>
     sorted_wrt (<) (map bar_open_time (iw_bars w)) \<and>
     (\<forall>b \<in> set (iw_bars w). bar_open_time b + bar_interval q \<le> wq_now_ms q \<and>
        wq_from_ms q - wq_from_ms q mod bar_interval q \<le> bar_open_time b \<and> bar_open_time b \<le> wq_to_ms q \<and>
        (bar_open_time b mod bar_interval q = 0 \<longrightarrow> bar_open_time b \<notin> present_bars)) \<and>
     sorted_wrt (<) (map fst (iw_funding w)) \<and>
     (\<forall>x \<in> set (iw_funding w). fst x \<le> wq_now_ms q \<and>
        wq_from_ms q - wq_from_ms q mod funding_interval_ms \<le> fst x \<and> fst x \<le> wq_to_ms q \<and> (fst x mod funding_interval_ms = 0 \<longrightarrow> fst x \<notin> present_funding)) \<and>
     (\<forall>xs \<in> {iw_open_interest w, iw_premium w}. sorted_wrt (<) (map fst xs) \<and>
        (\<forall>x \<in> set xs. sat_i64 (fst x + bar_interval q) \<le> wq_now_ms q)) \<and>
     iw_base w = wq_resolution q \<and> iw_calibration_source w = Uncalibrated"

definition decodes_in_place :: "'s backfill_env \<Rightarrow> 'j decode_env \<Rightarrow> resolution \<Rightarrow> bool" where
  "decodes_in_place E D res \<longleftrightarrow> delivers E (\<lambda>r.
     (\<forall>b. decode_kline_row D (tr_raw r) res = Inr b \<longrightarrow> bar_open_time b = tr_open_time_ms r) \<and>
     (\<forall>x. decode_funding_row D (tr_raw r) = Inr x \<longrightarrow> fst x = tr_open_time_ms r))"

lemma window_plans_fit:
  assumes "window_fits q"
  shows "plan_fits (wq_from_ms q) (min (wq_to_ms q) (wq_now_ms q)) (bar_interval q)"
    "plan_fits (wq_from_ms q) (min (wq_to_ms q) (wq_now_ms q)) funding_interval_ms"
  using assms bar_interval_bounds [of q] by (auto simp: window_fits_def plan_fits_def funding_interval_ms_def)

text \<open>The two series a window cannot do without, fetched in the order of the code.\<close>

definition required_fetched :: "'s backfill_env \<Rightarrow> 'j decode_env \<Rightarrow> window_request \<Rightarrow> i64 set \<Rightarrow> i64 set \<Rightarrow> 's \<Rightarrow> bool" where
  "required_fetched E D q present_bars present_funding s \<longleftrightarrow>
     (\<exists>runs fruns bars funding s1 s2.
        plan_missing (wq_from_ms q) (min (wq_to_ms q) (wq_now_ms q)) (bar_interval q) present_bars = Some runs \<and>
        page_runs E q (Ep_Klines (wq_resolution q)) (bar_interval q) (decode_klines D (wq_resolution q)) runs [] s = (Inr bars, s1) \<and>
        plan_missing (wq_from_ms q) (min (wq_to_ms q) (wq_now_ms q)) funding_interval_ms present_funding = Some fruns \<and>
        page_runs E q Ep_Funding_Rate funding_interval_ms (decode_funding D) fruns [] s1 = (Inr funding, s2))"

text \<open>
  C31. A window fetch always returns, and fails exactly when the bars or the funding cannot be fetched and
  decoded: the optional series never fail the window. A window it returns is closed and incremental: bars,
  funding and the two optional series are strictly ascending; every bar's interval has ended by now and
  every settlement has happened; no bar or settlement is after the request's right edge or before the
  grid slot that holds its left edge (an edge off the grid is floored, so the first may come before it); no bar or
  settlement sits on a slot the store already holds; and the result is marked uncalibrated. Assumed: the
  edges are a day inside the 64-bit range (\<open>window_fits\<close>), and a row the venue delivers decodes to the
  time the pager read for it (\<open>decodes_in_place\<close>).
\<close>

theorem fetched_window_is_closed:
  assumes "window_fits q" "decodes_in_place E D (wq_resolution q)"
  shows "\<exists>r s'. fetch_window E D q present_bars present_funding s = Some (r, s') \<and>
     ((\<exists>w. r = Inr w) \<longleftrightarrow> required_fetched E D q present_bars present_funding s) \<and>
     (\<forall>w. r = Inr w \<longrightarrow> window_correct q present_bars present_funding w)"
proof -
  let ?stop = "min (wq_to_ms q) (wq_now_ms q)"
  let ?P = "\<lambda>r. (\<forall>b. decode_kline_row D (tr_raw r) (wq_resolution q) = Inr b \<longrightarrow> bar_open_time b = tr_open_time_ms r) \<and>
     (\<forall>x. decode_funding_row D (tr_raw r) = Inr x \<longrightarrow> fst x = tr_open_time_ms r)"
  have P: "delivers E ?P" using assms(2) by (simp add: decodes_in_place_def)
  note fits = window_plans_fit [OF assms(1)]
  obtain runs where runs: "plan_missing (wq_from_ms q) ?stop (bar_interval q) present_bars = Some runs"
    "\<forall>t. covered runs t \<longrightarrow> floor_to_grid (wq_from_ms q) (bar_interval q) \<le> t \<and> t \<le> ?stop \<and> (t mod bar_interval q = 0 \<longrightarrow> t \<notin> present_bars)"
    using plan_covers_only_missing [OF fits(1), of present_bars] by (elim exE conjE) (rule that)
  obtain fruns where fruns: "plan_missing (wq_from_ms q) ?stop funding_interval_ms present_funding = Some fruns"
    "\<forall>t. covered fruns t \<longrightarrow> floor_to_grid (wq_from_ms q) funding_interval_ms \<le> t \<and> t \<le> ?stop \<and> (t mod funding_interval_ms = 0 \<longrightarrow> t \<notin> present_funding)"
    using plan_covers_only_missing [OF fits(2), of present_funding] by (elim exE conjE) (rule that)
  obtain rb s1 where rb: "page_runs E q (Ep_Klines (wq_resolution q)) (bar_interval q) (decode_klines D (wq_resolution q)) runs [] s = (rb, s1)"
    by (cases "page_runs E q (Ep_Klines (wq_resolution q)) (bar_interval q) (decode_klines D (wq_resolution q)) runs [] s")
  obtain rf s2 where rf: "page_runs E q Ep_Funding_Rate funding_interval_ms (decode_funding D) fruns [] s1 = (rf, s2)"
    by (cases "page_runs E q Ep_Funding_Rate funding_interval_ms (decode_funding D) fruns [] s1")
  obtain ro s3 where ro: "fetch_context_series E q (Ep_Open_Interest_Hist (wq_resolution q)) (bar_interval q) ?stop (decode_open_interest D) s2 = Some (ro, s3)"
    "sorted_wrt (<) (map fst (unwrap_or_default ro))" "\<forall>x \<in> set (unwrap_or_default ro). sat_i64 (fst x + bar_interval q) \<le> wq_now_ms q"
    using fetch_context_closed [OF fits(1)] by metis
  obtain rp s4 where rp: "fetch_context_series E q (Ep_Premium_Index_Klines (wq_resolution q)) (bar_interval q) ?stop (decode_premium D) s3 = Some (rp, s4)"
    "sorted_wrt (<) (map fst (unwrap_or_default rp))" "\<forall>x \<in> set (unwrap_or_default rp). sat_i64 (fst x + bar_interval q) \<le> wq_now_ms q"
    using fetch_context_closed [OF fits(1)] by metis
  have req: "required_fetched E D q present_bars present_funding s \<longleftrightarrow> (\<exists>bars funding. rb = Inr bars \<and> rf = Inr funding)"
    by (auto simp: required_fetched_def runs(1) fruns(1) rb rf)
  note unfold = fetch_window_def Let_def bar_interval_def [symmetric] runs(1) fruns(1) rb rf ro(1) rp(1)
  show ?thesis
  proof (cases rb)
    case (Inl e)
    then show ?thesis by (simp add: unfold req)
  next
    case bars: (Inr bars)
    show ?thesis
    proof (cases rf)
      case (Inl e)
      then show ?thesis by (simp add: unfold bars req)
    next
      case funding: (Inr funding)
      let ?w = "\<lparr>iw_base = wq_resolution q, iw_bars = closed_klines bars (wq_now_ms q) (bar_interval q),
        iw_funding = closed_funding funding (wq_now_ms q), iw_open_interest = unwrap_or_default ro,
        iw_premium = unwrap_or_default rp, iw_calibration_source = Uncalibrated\<rparr>"
      have bar: "covered runs (bar_open_time b)" if "b \<in> set bars" for b
        using page_runs_within [OF P rb [unfolded bars decode_klines_def [abs_def]] that] by auto
      have settled: "covered fruns (fst x)" if "x \<in> set funding" for x
        using page_runs_within [OF P rf [unfolded funding decode_funding_def [abs_def]] that] by (cases x) auto
      have kept: "bar_open_time b + bar_interval q \<le> wq_now_ms q" "b \<in> set bars" if "b \<in> set (iw_bars ?w)" for b
      proof -
        have in_bars: "b \<in> set bars" "sat_i64 (bar_open_time b + bar_interval q) \<le> wq_now_ms q"
          using that closed_by_key(2) by (force simp: closed_klines_def)+
        then have "floor_to_grid (wq_from_ms q) (bar_interval q) \<le> bar_open_time b" "bar_open_time b \<le> ?stop"
          using runs(2) [THEN spec, THEN mp, OF bar [OF in_bars(1)]] by simp_all
        then have "in_i64 (bar_open_time b + bar_interval q)"
          using floor_to_grid_fits(3) [OF fits(1)] fits(1) by (auto simp: in_i64_def plan_fits_def)
        then show "bar_open_time b + bar_interval q \<le> wq_now_ms q" "b \<in> set bars" using in_bars by (simp_all add: sat_i64_id)
      qed
      have kept_funding: "fst x \<le> wq_now_ms q" "x \<in> set funding" if "x \<in> set (iw_funding ?w)" for x
        using that closed_by_key(2) by (force simp: closed_funding_def)+
      have "window_correct q present_bars present_funding ?w"
        unfolding window_correct_def
      proof (intro conjI ballI impI)
        show "sorted_wrt (<) (map bar_open_time (iw_bars ?w))" "sorted_wrt (<) (map fst (iw_funding ?w))"
          by (simp_all add: closed_klines_def closed_funding_def closed_by_key(1))
      next
        fix b assume "b \<in> set (iw_bars ?w)"
        note k = kept [OF this]
        show "bar_open_time b + bar_interval q \<le> wq_now_ms q" by (rule k)
        show "wq_from_ms q - wq_from_ms q mod bar_interval q \<le> bar_open_time b" "bar_open_time b \<le> wq_to_ms q"
          using runs(2) [THEN spec, THEN mp, OF bar [OF k(2)]] floor_to_grid_fits(1) [OF fits(1)] by simp_all
        show "bar_open_time b \<notin> present_bars" if "bar_open_time b mod bar_interval q = 0"
          using runs(2) [THEN spec, THEN mp, OF bar [OF k(2)]] that by simp
      next
        fix x assume "x \<in> set (iw_funding ?w)"
        note k = kept_funding [OF this]
        show "fst x \<le> wq_now_ms q" by (rule k)
        show "wq_from_ms q - wq_from_ms q mod funding_interval_ms \<le> fst x" "fst x \<le> wq_to_ms q"
          using fruns(2) [THEN spec, THEN mp, OF settled [OF k(2)]] floor_to_grid_fits(1) [OF fits(2)] by simp_all
        show "fst x \<notin> present_funding" if "fst x mod funding_interval_ms = 0" using fruns(2) [THEN spec, THEN mp, OF settled [OF k(2)]] that by simp
      next
        fix xs assume "xs \<in> {iw_open_interest ?w, iw_premium ?w}"
        then show "sorted_wrt (<) (map fst xs)" using ro(2) rp(2) by auto
        fix x assume "x \<in> set xs"
        then show "sat_i64 (fst x + bar_interval q) \<le> wq_now_ms q" using \<open>xs \<in> _\<close> ro(3) rp(3) by auto
      qed simp_all
      then show ?thesis by (simp add: unfold bars funding req)
    qed
  qed
qed

text \<open>A reader for which a text of digits is a row of that number in every column and field.\<close>

definition digits_env :: "string decode_env" where
  "digits_env = \<lparr>de_json = \<lparr>js_parse = (\<lambda>b. Inr (map char_of b)), js_parse_str = Inr, js_array = (\<lambda>v. Some (replicate 9 v)),
     js_object = (\<lambda>v. Some (\<lambda>k. Some v)), js_i64 = (\<lambda>v. Some (int (parse_digits v))), js_str = Some, js_text = id\<rparr>,
     de_decimal = (\<lambda>s. Inr (of_nat (parse_digits s))), de_domain_error_str = (\<lambda>_. [])\<rparr>"

definition digit_rows :: "nat list \<Rightarrow> timed_row list" where
  "digit_rows ts = map (\<lambda>t. \<lparr>tr_open_time_ms = int t, tr_raw = show_nat t\<rparr>) ts"

lemma digits_decode_in_place: "decodes_in_place (ideal (digit_rows ts)) digits_env res"
proof -
  have bar: "bar_open_time b = int t" if "decode_kline_row digits_env (show_nat t) res = Inr b" for t b
    using that by (auto simp: decode_kline_row_def digits_env_def parse_raw_def ok_or_def col_i64_def get_opt_def res_bind_def
        dec_err_def rest_err_def bar_new_def Let_def split: sum.splits option.splits if_splits)
  have funding: "fst x = int t" if "decode_funding_row digits_env (show_nat t) = Inr x" for t x
    using that by (auto simp: decode_funding_row_def digits_env_def parse_raw_def ok_or_def)
  have rows: "list_all P (take n (filter Q (digit_rows ts)))" if "\<And>t. P \<lparr>tr_open_time_ms = int t, tr_raw = show_nat t\<rparr>" for P Q n
    using that by (auto simp: list_all_iff digit_rows_def dest!: in_set_takeD)
  show ?thesis
    unfolding decodes_in_place_def delivers_def
  proof (intro allI impI)
    fix q s rs s'
    assume "bf_fetch_page (ideal (digit_rows ts)) q s = (Inr rs, s')"
    then have "rs = take (pq_limit q) (filter (\<lambda>r. pq_start_ms q \<le> tr_open_time_ms r) (digit_rows ts))" by (simp add: ideal_def)
    then show "list_all (\<lambda>r. (\<forall>b. decode_kline_row digits_env (tr_raw r) res = Inr b \<longrightarrow> bar_open_time b = tr_open_time_ms r) \<and>
       (\<forall>x. decode_funding_row digits_env (tr_raw r) = Inr x \<longrightarrow> fst x = tr_open_time_ms r)) rs"
      using bar funding by (simp only:) (rule rows, simp)
  qed
qed

definition sample_window :: window_request where
  "sample_window = \<lparr>wq_symbol = InstrumentId ''A'', wq_resolution = M5, wq_from_ms = 0, wq_to_ms = 900000, wq_now_ms = 900000, wq_limit = 2\<rparr>"

lemma digits_decode:
  "decode_kline_row digits_env (show_nat t) res = Inr \<lparr>bar_open_time = int t, bar_resolution = res, bar_open = Price (of_nat t),
     bar_high = Price (of_nat t), bar_low = Price (of_nat t), bar_close = Price (of_nat t), bar_volume = Qty (of_nat t), bar_trades = t\<rparr>"
  "decode_funding_row digits_env (show_nat t) = Inr (int t, of_nat t)"
  by (simp_all add: decode_kline_row_def decode_funding_row_def digits_env_def parse_raw_def ok_or_def col_i64_def col_dec_def get_opt_def
      res_bind_def dec_err_def price_new_def qty_new_def bar_new_def Let_def)

lemma sample_window_required:
  "required_fetched (ideal (digit_rows [0, 300000, 600000, 900000])) digits_env sample_window {300000} {} ()"
  by (simp add: required_fetched_def sample_window_def bar_interval_def plan_missing_def slot_loop.simps plan_slot_def floor_to_grid_def
      take_run_def wrap_i64_def funding_interval_ms_def page_window_def backfill_def backfill_loop.simps ideal_fetch last_time_def sat_i64_def
      last_opt_def digit_rows_def decode_klines_def decode_funding_def collect_rows_def digits_decode Let_def)

theorem fetched_window_is_closed_witness:
  "\<exists>w s'. fetch_window (ideal (digit_rows [0, 300000, 600000, 900000])) digits_env sample_window {300000} {} () = Some (Inr w, s') \<and>
     window_correct sample_window {300000} {} w"
proof -
  have fits: "window_fits sample_window" by (simp add: window_fits_def sample_window_def)
  show ?thesis
    using fetched_window_is_closed [OF fits digits_decode_in_place, of "[0, 300000, 600000, 900000]" "{300000}" "{}" "()"]
      sample_window_required by auto
qed
end
