(* ===== verification/Run_Model.thy ===== *)
theory Run_Model imports Artefact_Fs Text_Ascii "HOL-Library.Word" begin

text \<open>
  The run protocol (crate \<open>qe-run-protocol\<close>), the run model of the admin server (\<open>server/src/runs/model.rs\<close>),
  the guardrails a create request must pass (\<open>manager.rs\<close>, \<open>validation/src/steer.rs\<close>, \<open>basis.rs\<close>), the
  command line a run is spawned with (\<open>spawn.rs\<close>) and the recorded steer delta (\<open>steer.rs\<close>). A double is a
  type parameter and a JSON value another; a text is its UTF-8 characters.
\<close>

section \<open>Parameters of a run\<close>

record 'f backtest_params =
  bp_vintage :: string
  bp_strategy :: "string option"
  bp_start :: string
  bp_end :: string
  bp_resolution :: string
  bp_universe :: "string list"
  bp_taker_fee_bps :: 'f
  bp_slippage_model :: string

record 'f train_params =
  tp_start :: string
  tp_end :: string
  tp_resolution :: string
  tp_seed :: "u64 option"
  tp_generations :: "usize option"
  tp_population :: "usize option"
  tp_holdout :: "usize option"
  tp_embargo :: "usize option"
  tp_config :: "string option"
  tp_profile :: "string option"
  tp_indicator_subset :: "string list option"
  tp_evolved_pool :: "string option"
  tp_evolved_formulas :: "string list option"
  tp_windows :: "usize option"
  tp_folds :: "usize option"
  tp_cost_stress_multiplier :: "'f option"
  tp_max_turnover_frac :: "'f option"
  tp_capacity_floor_usd :: "i64 option"
  tp_dsr_cutoff :: "'f option"
  tp_pbo_cutoff :: "'f option"
  tp_ic_fdr_threshold :: "'f option"
  tp_purge :: "usize option"

datatype evolve_mode = Sandbox | Production

fun evolve_mode_str :: "evolve_mode \<Rightarrow> string" where
  "evolve_mode_str Sandbox = ''sandbox''"
| "evolve_mode_str Production = ''production''"

definition evolve_max_depth :: usize where "evolve_max_depth = 4"
definition evolve_max_nodes :: usize where "evolve_max_nodes = 16"
definition evolve_max_lookback :: usize where "evolve_max_lookback = 200"
definition evolve_max_pool :: usize where "evolve_max_pool = 16"
definition evolve_window_lattice :: "usize list" where "evolve_window_lattice = [5, 10, 20, 50, 100]"

record evolve_params =
  ep_seed :: u64
  ep_mode :: evolve_mode
  ep_start :: string
  ep_end :: string
  ep_resolution :: string
  ep_generations :: "usize option"
  ep_offspring :: "usize option"
  ep_states :: "nat option"
  ep_depth :: "usize option"
  ep_nodes :: "usize option"
  ep_lookback :: "usize option"
  ep_windows :: "usize list option"
  ep_k :: "usize option"
  ep_config :: "string option"
  ep_profile :: "string option"

record 'f flow_params =
  flp_seed :: u64
  flp_start :: string
  flp_end :: string
  flp_resolution :: string
  flp_generations :: "usize option"
  flp_population :: "usize option"
  flp_holdout :: "usize option"
  flp_embargo :: "usize option"
  flp_config :: "string option"
  flp_profile :: "string option"
  flp_indicator_subset :: "string list option"
  flp_evolved_pool :: "string option"
  flp_evolved_formulas :: "string list option"
  flp_windows :: "usize option"
  flp_folds :: "usize option"
  flp_cost_stress_multiplier :: "'f option"
  flp_max_turnover_frac :: "'f option"
  flp_capacity_floor_usd :: "i64 option"
  flp_dsr_cutoff :: "'f option"
  flp_pbo_cutoff :: "'f option"
  flp_ic_fdr_threshold :: "'f option"
  flp_purge :: "usize option"

definition to_train_params :: "'f flow_params \<Rightarrow> 'f train_params" where
  "to_train_params p =
     \<lparr>tp_start = flp_start p, tp_end = flp_end p, tp_resolution = flp_resolution p, tp_seed = Some (flp_seed p),
      tp_generations = flp_generations p, tp_population = flp_population p, tp_holdout = flp_holdout p,
      tp_embargo = flp_embargo p, tp_config = flp_config p, tp_profile = flp_profile p,
      tp_indicator_subset = flp_indicator_subset p, tp_evolved_pool = flp_evolved_pool p,
      tp_evolved_formulas = flp_evolved_formulas p, tp_windows = flp_windows p, tp_folds = flp_folds p,
      tp_cost_stress_multiplier = flp_cost_stress_multiplier p, tp_max_turnover_frac = flp_max_turnover_frac p,
      tp_capacity_floor_usd = flp_capacity_floor_usd p, tp_dsr_cutoff = flp_dsr_cutoff p, tp_pbo_cutoff = flp_pbo_cutoff p,
      tp_ic_fdr_threshold = flp_ic_fdr_threshold p, tp_purge = flp_purge p\<rparr>"

record ingest_params =
  ip_instruments :: "string list"
  ip_fetch_all :: bool
  ip_start :: string
  ip_end :: string
  ip_resolution :: string
  ip_synthetic :: bool

section \<open>Progress lines\<close>

definition protocol_version :: u32 where "protocol_version = 3"

datatype 'f progress_line =
    Progress_Line nat string string
  | Gen_Line nat usize usize usize usize usize "'f option"
  | Ensemble_Line nat usize usize "'f option"
  | Gate_Line nat bool "string list" "'f option" "'f option" "'f option" "'f option" usize "'f option" "u64 option" "u64 option"
  | Done_Line string u32 "string option" "string option" bool
  | Error_Line string

section \<open>Runs\<close>

datatype run_status = Queued | Running | Succeeded | Failed

definition is_live :: "run_status \<Rightarrow> bool" where
  "is_live s \<longleftrightarrow> s = Queued \<or> s = Running"

record progress =
  pr_pct :: nat
  pr_stage :: string
  pr_msg :: string

definition default_progress :: progress where
  "default_progress = \<lparr>pr_pct = 0, pr_stage = [], pr_msg = []\<rparr>"

datatype 'f run_spec =
    Backtest "'f backtest_params"
  | Train "'f train_params"
  | Evolve evolve_params
  | Flow "'f flow_params"
  | Ingest ingest_params

fun run_type_of :: "'f run_spec \<Rightarrow> string" where
  "run_type_of (Backtest _) = ''backtest''"
| "run_type_of (Train _) = ''train''"
| "run_type_of (Evolve _) = ''evolve''"
| "run_type_of (Flow _) = ''flow''"
| "run_type_of (Ingest _) = ''ingest''"

definition right_arrow :: string where "right_arrow = map char_of [226 :: nat, 134, 146]"
definition less_eq_sign :: string where "less_eq_sign = map char_of [226 :: nat, 137, 164]"
definition em_dash :: string where "em_dash = map char_of [226 :: nat, 128, 148]"

definition joined :: "string \<Rightarrow> string list \<Rightarrow> string" where
  "joined sep ss = (case ss of [] \<Rightarrow> [] | s # rest \<Rightarrow> s @ concat (map ((@) sep) rest))"

fun run_label :: "'f run_spec \<Rightarrow> string" where
  "run_label (Backtest p) = bp_vintage p"
| "run_label (Train p) = ''train '' @ tp_start p @ right_arrow @ tp_end p"
| "run_label (Evolve p) = ''evolve '' @ ep_start p @ right_arrow @ ep_end p @ '' ('' @ evolve_mode_str (ep_mode p) @ '')''"
| "run_label (Flow p) = ''flow '' @ flp_start p @ right_arrow @ flp_end p"
| "run_label (Ingest p) =
     ''ingest '' @ (if ip_fetch_all p then ''fetch-all'' else joined '','' (ip_instruments p)) @ '' '' @
     ip_start p @ right_arrow @ ip_end p @ '' ('' @ (if ip_synthetic p then ''synthetic'' else ''real'') @ '')''"

fun writes_vintage :: "'f run_spec \<Rightarrow> bool" where
  "writes_vintage (Train _) = True"
| "writes_vintage (Flow _) = True"
| "writes_vintage _ = False"

record 'f gen_snapshot =
  gn_generation :: usize
  gn_generations :: usize
  gn_coverage :: usize
  gn_coverage_long :: usize
  gn_coverage_short :: usize
  gn_best_fitness :: "'f option"

record 'f ensemble_snapshot =
  en_folds :: usize
  en_members :: usize
  en_score :: "'f option"

record 'f gate_snapshot =
  ga_promoted :: bool
  ga_failed :: "string list"
  ga_in_sample_sharpe :: "'f option"
  ga_holdout_sharpe :: "'f option"
  ga_dsr :: "'f option"
  ga_spa_pvalue :: "'f option"
  ga_n_trials :: usize
  ga_uncensored_pbo :: "'f option"
  ga_variance_trials :: "u64 option"
  ga_distinct_evaluations :: "u64 option"

record 'f train_progress =
  tr_generation :: "'f gen_snapshot option"
  tr_ensemble :: "'f ensemble_snapshot option"
  tr_gate :: "'f gate_snapshot option"
  tr_vintage :: "string option"
  tr_pool :: "string option"

definition default_train_progress :: "'f train_progress" where
  "default_train_progress = \<lparr>tr_generation = None, tr_ensemble = None, tr_gate = None, tr_vintage = None, tr_pool = None\<rparr>"

record flow_progress =
  flw_train_run :: "string option"
  flw_backtest_run :: "string option"
  flw_vintage :: "string option"
  flw_holdout_start :: "string option"
  flw_holdout_end :: "string option"

definition default_flow_progress :: flow_progress where
  "default_flow_progress = \<lparr>flw_train_run = None, flw_backtest_run = None, flw_vintage = None, flw_holdout_start = None, flw_holdout_end = None\<rparr>"

record ('f, 'v) run_meta =
  rm_id :: string
  rm_type :: string
  rm_status :: run_status
  rm_params :: 'v
  rm_progress :: progress
  rm_train :: "'f train_progress option"
  rm_flow :: "flow_progress option"
  rm_created_ms :: u64
  rm_started_ms :: "u64 option"
  rm_finished_ms :: "u64 option"
  rm_exit :: "int option"
  rm_error :: "string option"
  rm_artifacts :: "string list"

record index_entry =
  ie_id :: string
  ie_type :: string
  ie_created_ms :: u64
  ie_label :: string

section \<open>Guardrails\<close>

definition min_wfo_windows :: usize where "min_wfo_windows = 4"
definition min_wfo_folds :: usize where "min_wfo_folds = 2"
definition holdout_floor :: usize where "holdout_floor = 250"
definition embargo_floor :: usize where "embargo_floor = 1"
definition purge_floor :: usize where "purge_floor = 1"

datatype create_error = Validation string | Shutting_Down | Create_Io io_error

definition show_usizes :: "usize list \<Rightarrow> string" where
  "show_usizes ns = ''['' @ joined '', '' (map show_nat ns) @ '']''"

definition show_strs :: "string list \<Rightarrow> string" where
  "show_strs ss = ''['' @ joined '', '' (map (\<lambda>s. [CHR 0x22] @ s @ [CHR 0x22]) ss) @ '']''"

definition tick :: string where "tick = [CHR 0x60]"

definition require :: "string \<Rightarrow> string \<Rightarrow> (create_error, unit) result" where
  "require name value = (if trim value = [] then Inl (Validation (tick @ name @ tick @ '' is required'')) else Inr ())"

definition and_then :: "(create_error, unit) result \<Rightarrow> (create_error, unit) result \<Rightarrow> (create_error, unit) result" where
  "and_then a b = (case a of Inl e \<Rightarrow> Inl e | Inr _ \<Rightarrow> b)"

definition validate_backtest :: "'f backtest_params \<Rightarrow> (create_error, unit) result" where
  "validate_backtest p =
     and_then (require ''vintage'' (bp_vintage p)) (
     and_then (require ''start'' (bp_start p)) (
     and_then (require ''end'' (bp_end p)) (
     and_then (require ''resolution'' (bp_resolution p)) (
       if bp_universe p = [] \<or> list_all (\<lambda>s. trim s = []) (bp_universe p)
       then Inl (Validation (tick @ ''universe'' @ tick @ '' must contain at least one instrument'')) else Inr ()))))"

definition reject_if_present :: "string \<Rightarrow> 'a option \<Rightarrow> (create_error, unit) result" where
  "reject_if_present name value =
     (case value of
        Some _ \<Rightarrow> Inl (Validation (tick @ name @ tick @ '' is not steerable '' @ em_dash @
          '' it rides the G1 gate decision and stays pinned at its compiled floor server-side; a request cannot set it''))
      | None \<Rightarrow> Inr ())"

definition floor_usize :: "string \<Rightarrow> usize option \<Rightarrow> usize \<Rightarrow> (create_error, unit) result" where
  "floor_usize name value least =
     (case value of
        Some v \<Rightarrow> if v < least
          then Inl (Validation (tick @ name @ tick @ '' cannot be set below its compiled floor '' @ show_nat least @ '' (got '' @ show_nat v @ '')''))
          else Inr ()
      | None \<Rightarrow> Inr ())"

definition validate_train :: "'f train_params \<Rightarrow> (create_error, unit) result" where
  "validate_train p =
     and_then (require ''start'' (tp_start p)) (
     and_then (require ''end'' (tp_end p)) (
     and_then (require ''resolution'' (tp_resolution p)) (
     and_then (reject_if_present ''cost_stress_multiplier'' (tp_cost_stress_multiplier p)) (
     and_then (reject_if_present ''max_turnover_frac'' (tp_max_turnover_frac p)) (
     and_then (reject_if_present ''capacity_floor_usd'' (tp_capacity_floor_usd p)) (
     and_then (reject_if_present ''dsr_cutoff'' (tp_dsr_cutoff p)) (
     and_then (reject_if_present ''pbo_cutoff'' (tp_pbo_cutoff p)) (
     and_then (reject_if_present ''ic_fdr_threshold'' (tp_ic_fdr_threshold p)) (
     and_then (floor_usize ''holdout'' (tp_holdout p) holdout_floor) (
     and_then (floor_usize ''embargo'' (tp_embargo p) embargo_floor) (
     and_then (floor_usize ''purge'' (tp_purge p) purge_floor) (
     and_then (floor_usize ''windows'' (tp_windows p) min_wfo_windows) (
     and_then (floor_usize ''folds'' (tp_folds p) min_wfo_folds) (
       if tp_evolved_pool p \<noteq> None \<or> tp_evolved_formulas p \<noteq> None
       then Inl (Validation (''evolved-pool-as-indicator steering ('' @ tick @ ''evolved_pool'' @ tick @ '' / '' @ tick @
         ''evolved_formulas'' @ tick @ '') is not yet supported on the live train search '' @ em_dash @ '' use '' @ tick @
         ''indicator_subset'' @ tick @ '' / '' @ tick @ ''windows'' @ tick @ '' / '' @ tick @ ''folds'' @ tick @
         '' / budget steering (a QE-402-safe feature-space extension is a follow-up)''))
       else Inr ()))))))))))))))"

definition validate_flow :: "'f flow_params \<Rightarrow> (create_error, unit) result" where
  "validate_flow p = validate_train (to_train_params p)"

definition validate_ingest :: "ingest_params \<Rightarrow> (create_error, unit) result" where
  "validate_ingest p =
     and_then (require ''start'' (ip_start p)) (
     and_then (require ''end'' (ip_end p)) (
     and_then (require ''resolution'' (ip_resolution p)) (
       if \<not> list_ex (\<lambda>s. trim s \<noteq> []) (ip_instruments p) \<and> \<not> ip_fetch_all p
       then Inl (Validation (''ingest requires either a non-empty '' @ tick @ ''instruments'' @ tick @ '' list or '' @ tick @ ''fetch_all: true'' @ tick))
       else Inr ())))"

section \<open>The deflation basis\<close>

definition basis_bits :: "(32 word \<times> string) list" where
  "basis_bits =
     [(push_bit 0 1, ''QE-430 ensemble-correlation deflation''), (push_bit 1 1, ''QE-432 slow reference oracle''),
      (push_bit 2 1, ''QE-434 IC screening''), (push_bit 3 1, ''QE-436 parsimony/MDL''), (push_bit 4 1, ''QE-439 DSR trial basis'')]"

definition required_deflation_basis :: "32 word" where
  "required_deflation_basis = or (or (or (or (push_bit 0 1) (push_bit 1 1)) (push_bit 2 1)) (push_bit 3 1)) (push_bit 4 1)"

definition deflation_basis_version :: "32 word" where
  "deflation_basis_version = required_deflation_basis"

definition basis_satisfied :: "32 word \<Rightarrow> bool" where
  "basis_satisfied version \<longleftrightarrow> and version required_deflation_basis = required_deflation_basis"

definition missing_basis_prereqs :: "32 word \<Rightarrow> string list" where
  "missing_basis_prereqs version = map snd (filter (\<lambda>(bit, _). and version bit = 0) basis_bits)"

definition validate_evolve_basis :: "evolve_mode \<Rightarrow> 32 word \<Rightarrow> (create_error, unit) result" where
  "validate_evolve_basis mode version =
     (if mode = Production \<and> \<not> basis_satisfied version
      then Inl (Validation (''production evolve campaigns are gated on the compiled deflation-basis prerequisites (DEFLATION_BASIS_VERSION); missing: '' @
             show_strs (missing_basis_prereqs version)))
      else Inr ())"

definition cap :: "string \<Rightarrow> usize option \<Rightarrow> usize \<Rightarrow> (create_error, unit) result" where
  "cap name value most =
     (case value of
        Some v \<Rightarrow> if v > most
          then Inl (Validation (tick @ name @ tick @ '' must be '' @ less_eq_sign @ '' '' @ show_nat most @ '' (got '' @ show_nat v @ '')''))
          else Inr ()
      | None \<Rightarrow> Inr ())"

definition off_lattice :: "usize list option \<Rightarrow> (create_error, unit) result" where
  "off_lattice windows =
     (case windows of
        None \<Rightarrow> Inr ()
      | Some ws \<Rightarrow>
          (case find (\<lambda>w. w \<notin> set evolve_window_lattice) ws of
             Some w \<Rightarrow> Inl (Validation (tick @ ''windows'' @ tick @ '' entry '' @ tick @ show_nat w @ tick @
               '' is off the lattice (allowed: '' @ show_usizes evolve_window_lattice @ '')''))
           | None \<Rightarrow> Inr ()))"

definition validate_evolve :: "evolve_params \<Rightarrow> (create_error, unit) result" where
  "validate_evolve p =
     and_then (require ''start'' (ep_start p)) (
     and_then (require ''end'' (ep_end p)) (
     and_then (require ''resolution'' (ep_resolution p)) (
     and_then (validate_evolve_basis (ep_mode p) deflation_basis_version) (
     and_then (cap ''depth'' (ep_depth p) evolve_max_depth) (
     and_then (cap ''nodes'' (ep_nodes p) evolve_max_nodes) (
     and_then (cap ''lookback'' (ep_lookback p) evolve_max_lookback) (
     and_then (cap ''k'' (ep_k p) evolve_max_pool) (off_lattice (ep_windows p)))))))))"

section \<open>From a request to a run\<close>

text \<open>The JSON package: the typed readers of the parameters, and their serialised form.\<close>

record ('f, 'v) params_env =
  pe_is_null :: "'v \<Rightarrow> bool"
  pe_empty :: 'v
  pe_backtest :: "'v \<Rightarrow> (string, 'f backtest_params) result"
  pe_train :: "'v \<Rightarrow> (string, 'f train_params) result"
  pe_evolve :: "'v \<Rightarrow> (string, evolve_params) result"
  pe_flow :: "'v \<Rightarrow> (string, 'f flow_params) result"
  pe_ingest :: "'v \<Rightarrow> (string, ingest_params) result"
  pe_value :: "'f run_spec \<Rightarrow> 'v"

record 'v create_request =
  cr_type :: string
  cr_params :: 'v

definition typed ::
  "string \<Rightarrow> (string, 'a) result \<Rightarrow> ('a \<Rightarrow> (create_error, unit) result) \<Rightarrow> ('a \<Rightarrow> 'f run_spec) \<Rightarrow> (create_error, 'f run_spec) result" where
  "typed kind parsed validate mk =
     (case parsed of
        Inl e \<Rightarrow> Inl (Validation (''invalid '' @ kind @ '' params: '' @ e))
      | Inr p \<Rightarrow> (case validate p of Inl e \<Rightarrow> Inl e | Inr _ \<Rightarrow> Inr (mk p)))"

definition build_spec :: "('f, 'v) params_env \<Rightarrow> 'v create_request \<Rightarrow> (create_error, 'f run_spec) result" where
  "build_spec J req =
     (let params = if pe_is_null J (cr_params req) then pe_empty J else cr_params req; kind = cr_type req
      in if kind = ''backtest'' then typed kind (pe_backtest J params) validate_backtest Backtest
         else if kind = ''train'' then typed kind (pe_train J params) validate_train Train
         else if kind = ''evolve'' then typed kind (pe_evolve J params) validate_evolve Evolve
         else if kind = ''flow'' then typed kind (pe_flow J params) validate_flow Flow
         else if kind = ''ingest'' then typed kind (pe_ingest J params) validate_ingest Ingest
         else Inl (Validation (''unsupported run type '' @ tick @ kind @ tick @ '' (expected '' @ tick @ ''backtest'' @ tick @ '', '' @
                tick @ ''train'' @ tick @ '', '' @ tick @ ''evolve'' @ tick @ '', '' @ tick @ ''flow'' @ tick @ '', or '' @ tick @ ''ingest'' @ tick @ '')'')))"

section \<open>Spawning\<close>

text \<open>The command line, after the binary. A double is rendered by the standard library's \<open>Display\<close>.\<close>

definition opt_arg :: "string \<Rightarrow> ('a \<Rightarrow> string) \<Rightarrow> 'a option \<Rightarrow> string list" where
  "opt_arg flag render v = (case v of None \<Rightarrow> [] | Some a \<Rightarrow> [flag, render a])"

definition rep_arg :: "string \<Rightarrow> string list \<Rightarrow> string list" where
  "rep_arg flag vs = concat (map (\<lambda>v. [flag, v]) vs)"

definition window_args :: "string \<Rightarrow> string \<Rightarrow> string \<Rightarrow> string list" where
  "window_args start stop res = [''--start'', start, ''--end'', stop, ''--resolution'', res]"

definition backtest_args :: "('f \<Rightarrow> string) \<Rightarrow> 'f backtest_params \<Rightarrow> string \<Rightarrow> string list" where
  "backtest_args show_f64 p run_dir =
     [''backtest'', ''--vintage'', bp_vintage p] @ opt_arg ''--strategy'' id (bp_strategy p) @
     window_args (bp_start p) (bp_end p) (bp_resolution p) @ rep_arg ''--universe'' (bp_universe p) @
     [''--taker-fee-bps'', show_f64 (bp_taker_fee_bps p), ''--slippage-model'', bp_slippage_model p, ''--run-dir'', run_dir, ''--json'']"

definition train_args :: "'f train_params \<Rightarrow> string \<Rightarrow> bool \<Rightarrow> string list" where
  "train_args p run_dir flow =
     [''train''] @ (if flow then [''--flow''] else []) @ opt_arg ''--config'' id (tp_config p) @ opt_arg ''--profile'' id (tp_profile p) @
     window_args (tp_start p) (tp_end p) (tp_resolution p) @ opt_arg ''--seed'' show_nat (tp_seed p) @
     opt_arg ''--generations'' show_nat (tp_generations p) @ opt_arg ''--population'' show_nat (tp_population p) @
     opt_arg ''--holdout'' show_nat (tp_holdout p) @ opt_arg ''--embargo'' show_nat (tp_embargo p) @
     rep_arg ''--indicator'' (case tp_indicator_subset p of None \<Rightarrow> [] | Some ids \<Rightarrow> ids) @
     opt_arg ''--windows'' show_nat (tp_windows p) @ opt_arg ''--folds'' show_nat (tp_folds p) @ [''--run-dir'', run_dir, ''--json'']"

definition evolve_args :: "evolve_params \<Rightarrow> string \<Rightarrow> string list" where
  "evolve_args p run_dir =
     [''evolve''] @ opt_arg ''--config'' id (ep_config p) @ opt_arg ''--profile'' id (ep_profile p) @
     [''--mode'', evolve_mode_str (ep_mode p)] @ window_args (ep_start p) (ep_end p) (ep_resolution p) @
     [''--seed'', show_nat (ep_seed p)] @ opt_arg ''--generations'' show_nat (ep_generations p) @
     opt_arg ''--offspring'' show_nat (ep_offspring p) @ opt_arg ''--states'' show_nat (ep_states p) @
     opt_arg ''--k'' show_nat (ep_k p) @ [''--run-dir'', run_dir, ''--json'']"

definition ingest_args :: "ingest_params \<Rightarrow> string \<Rightarrow> string list" where
  "ingest_args p run_dir =
     [''ingest''] @ window_args (ip_start p) (ip_end p) (ip_resolution p) @ rep_arg ''--instrument'' (ip_instruments p) @
     (if ip_fetch_all p then [''--fetch-all''] else []) @ (if ip_synthetic p then [''--synthetic''] else []) @
     [''--run-dir'', run_dir, ''--json'']"

text \<open>What is spawned for a specification; a composite flow is never one process.\<close>

fun spawn_args :: "('f \<Rightarrow> string) \<Rightarrow> 'f run_spec \<Rightarrow> string \<Rightarrow> (io_error, string list) result" where
  "spawn_args show_f64 (Backtest p) run_dir = Inr (backtest_args show_f64 p run_dir)"
| "spawn_args show_f64 (Train p) run_dir = Inr (train_args p run_dir False)"
| "spawn_args show_f64 (Evolve p) run_dir = Inr (evolve_args p run_dir)"
| "spawn_args show_f64 (Ingest p) run_dir = Inr (ingest_args p run_dir)"
| "spawn_args show_f64 (Flow p) run_dir =
     Inl (OtherIo (''a composite '' @ tick @ ''flow'' @ tick @ '' run is sequenced by the supervisor, not spawned as one process''))"

section \<open>Only guarded requests become runs\<close>

definition filled :: "string \<Rightarrow> bool" where "filled s \<longleftrightarrow> trim s \<noteq> []"

definition at_least :: "usize \<Rightarrow> usize option \<Rightarrow> bool" where
  "at_least n v \<longleftrightarrow> (case v of None \<Rightarrow> True | Some k \<Rightarrow> n \<le> k)"

definition at_most :: "usize \<Rightarrow> usize option \<Rightarrow> bool" where
  "at_most n v \<longleftrightarrow> (case v of None \<Rightarrow> True | Some k \<Rightarrow> k \<le> n)"

text \<open>A search that moves no gate: no gate knob named, no floored knob below its floor.\<close>

definition gate_untouched :: "'f train_params \<Rightarrow> bool" where
  "gate_untouched p \<longleftrightarrow> tp_cost_stress_multiplier p = None \<and> tp_max_turnover_frac p = None \<and> tp_capacity_floor_usd p = None \<and>
     tp_dsr_cutoff p = None \<and> tp_pbo_cutoff p = None \<and> tp_ic_fdr_threshold p = None \<and>
     at_least 250 (tp_holdout p) \<and> at_least 1 (tp_embargo p) \<and> at_least 1 (tp_purge p) \<and> at_least 4 (tp_windows p) \<and> at_least 2 (tp_folds p) \<and>
     tp_evolved_pool p = None \<and> tp_evolved_formulas p = None"

definition search_guarded :: "'f train_params \<Rightarrow> bool" where
  "search_guarded p \<longleftrightarrow> list_all filled [tp_start p, tp_end p, tp_resolution p] \<and> gate_untouched p"

fun guarded :: "'f run_spec \<Rightarrow> bool" where
  "guarded (Backtest p) \<longleftrightarrow> list_all filled [bp_vintage p, bp_start p, bp_end p, bp_resolution p] \<and> (\<exists>s \<in> set (bp_universe p). filled s)"
| "guarded (Train p) \<longleftrightarrow> search_guarded p"
| "guarded (Flow p) \<longleftrightarrow> search_guarded (to_train_params p)"
| "guarded (Evolve p) \<longleftrightarrow> list_all filled [ep_start p, ep_end p, ep_resolution p] \<and>
     at_most 4 (ep_depth p) \<and> at_most 16 (ep_nodes p) \<and> at_most 200 (ep_lookback p) \<and> at_most 16 (ep_k p) \<and>
     (case ep_windows p of None \<Rightarrow> True | Some ws \<Rightarrow> set ws \<subseteq> {5, 10, 20, 50, 100})"
| "guarded (Ingest p) \<longleftrightarrow> list_all filled [ip_start p, ip_end p, ip_resolution p] \<and> ((\<exists>s \<in> set (ip_instruments p). filled s) \<or> ip_fetch_all p)"

definition parsed_spec :: "('f, 'v) params_env \<Rightarrow> 'v create_request \<Rightarrow> 'f run_spec option" where
  "parsed_spec J req =
     (let v = if pe_is_null J (cr_params req) then pe_empty J else cr_params req; kind = cr_type req
      in if kind = ''backtest'' then (case pe_backtest J v of Inl _ \<Rightarrow> None | Inr p \<Rightarrow> Some (Backtest p))
         else if kind = ''train'' then (case pe_train J v of Inl _ \<Rightarrow> None | Inr p \<Rightarrow> Some (Train p))
         else if kind = ''evolve'' then (case pe_evolve J v of Inl _ \<Rightarrow> None | Inr p \<Rightarrow> Some (Evolve p))
         else if kind = ''flow'' then (case pe_flow J v of Inl _ \<Rightarrow> None | Inr p \<Rightarrow> Some (Flow p))
         else if kind = ''ingest'' then (case pe_ingest J v of Inl _ \<Rightarrow> None | Inr p \<Rightarrow> Some (Ingest p))
         else None)"

lemma and_then_Inr [simp]: "and_then a b = Inr () \<longleftrightarrow> a = Inr () \<and> b = Inr ()"
  by (cases a) (auto simp: and_then_def)

lemma require_Inr [simp]: "require name v = Inr () \<longleftrightarrow> filled v"
  by (simp add: require_def filled_def)

lemma reject_Inr [simp]: "reject_if_present name v = Inr () \<longleftrightarrow> v = None"
  by (simp add: reject_if_present_def split: option.split)

lemma floor_Inr [simp]: "floor_usize name v n = Inr () \<longleftrightarrow> at_least n v"
  by (auto simp: floor_usize_def at_least_def split: option.split)

lemma cap_Inr [simp]: "cap name v n = Inr () \<longleftrightarrow> at_most n v"
  by (auto simp: cap_def at_most_def split: option.split)

lemma basis_compiled: "basis_satisfied deflation_basis_version"
  by (simp add: basis_satisfied_def deflation_basis_version_def)

lemma validate_backtest_Inr: "validate_backtest p = Inr () \<longleftrightarrow> guarded (Backtest p)"
  by (auto simp: validate_backtest_def list_all_iff filled_def)

lemma validate_train_Inr: "validate_train p = Inr () \<longleftrightarrow> guarded (Train p)"
  by (auto simp: validate_train_def search_guarded_def gate_untouched_def holdout_floor_def embargo_floor_def purge_floor_def min_wfo_windows_def min_wfo_folds_def)

lemma validate_ingest_Inr: "validate_ingest p = Inr () \<longleftrightarrow> guarded (Ingest p)"
  by (auto simp: validate_ingest_def list_ex_iff filled_def)

lemma off_lattice_Inr: "off_lattice ws = Inr () \<longleftrightarrow> (case ws of None \<Rightarrow> True | Some l \<Rightarrow> set l \<subseteq> set evolve_window_lattice)"
proof (cases ws)
  case (Some l)
  show ?thesis
    using find_None_iff [of "\<lambda>w. w \<notin> set evolve_window_lattice" l]
    by (cases "find (\<lambda>w. w \<notin> set evolve_window_lattice) l") (auto simp: Some off_lattice_def)
qed (simp add: off_lattice_def)

lemma validate_evolve_Inr: "validate_evolve p = Inr () \<longleftrightarrow> guarded (Evolve p)"
  using basis_compiled
  by (auto simp: validate_evolve_def validate_evolve_basis_def off_lattice_Inr evolve_max_depth_def evolve_max_nodes_def
      evolve_max_lookback_def evolve_max_pool_def evolve_window_lattice_def split: option.splits)

lemma typed_Inr:
  "typed kind r validate mk = Inr spec \<longleftrightarrow> (\<exists>p. r = Inr p \<and> validate p = Inr () \<and> spec = mk p)"
  by (auto simp: typed_def split: sum.splits)

lemma typed_guarded:
  "(\<And>p. validate p = Inr () \<longleftrightarrow> guarded (mk p)) \<Longrightarrow>
     typed kind r validate mk = Inr spec \<longleftrightarrow> (case r of Inl _ \<Rightarrow> None | Inr p \<Rightarrow> Some (mk p)) = Some spec \<and> guarded spec"
  by (auto simp: typed_Inr split: sum.splits)

lemma validate_flow_Inr: "validate_flow p = Inr () \<longleftrightarrow> guarded (Flow p)"
  by (simp only: validate_flow_def validate_train_Inr guarded.simps)

text \<open>
  A create request becomes a run exactly when its parameters parse for its type and pass the type's
  guardrails; in particular no search or flow that runs names a knob of the promotion gate or lowers the
  holdout, embargo, purge, window or fold counts below their floors, every evolution campaign is within
  its caps, and the run has the type that was asked for.
\<close>

theorem only_guarded_runs_start:
  "(build_spec J req = Inr spec \<longleftrightarrow> parsed_spec J req = Some spec \<and> guarded spec) \<and>
   (build_spec J req = Inr spec \<longrightarrow> run_type_of spec = cr_type req)"
proof -
  note parts = typed_guarded [OF validate_backtest_Inr] typed_guarded [OF validate_train_Inr] typed_guarded [OF validate_evolve_Inr]
    typed_guarded [OF validate_flow_Inr] typed_guarded [OF validate_ingest_Inr]
  have "build_spec J req = Inr spec \<longleftrightarrow> parsed_spec J req = Some spec \<and> guarded spec"
    unfolding build_spec_def parsed_spec_def Let_def by (simp add: parts del: guarded.simps)
  moreover have "run_type_of spec = cr_type req" if "build_spec J req = Inr spec"
    using that by (auto simp: build_spec_def Let_def typed_Inr split: if_splits)
  ultimately show ?thesis by blast
qed

definition bare_search :: "rat train_params" where
  "bare_search = \<lparr>tp_start = ''a'', tp_end = ''b'', tp_resolution = ''1h'', tp_seed = None, tp_generations = Some 3, tp_population = None,
     tp_holdout = Some 300, tp_embargo = None, tp_config = None, tp_profile = None, tp_indicator_subset = None, tp_evolved_pool = None,
     tp_evolved_formulas = None, tp_windows = Some 4, tp_folds = None, tp_cost_stress_multiplier = None, tp_max_turnover_frac = None,
     tp_capacity_floor_usd = None, tp_dsr_cutoff = None, tp_pbo_cutoff = None, tp_ic_fdr_threshold = None, tp_purge = None\<rparr>"

definition one_reader :: "rat train_params \<Rightarrow> (rat, unit) params_env" where
  "one_reader p = \<lparr>pe_is_null = (\<lambda>_. False), pe_empty = (), pe_backtest = (\<lambda>_. Inl []), pe_train = (\<lambda>_. Inr p),
     pe_evolve = (\<lambda>_. Inl []), pe_flow = (\<lambda>_. Inl []), pe_ingest = (\<lambda>_. Inl []), pe_value = (\<lambda>_. ())\<rparr>"

theorem only_guarded_runs_start_witness:
  "build_spec (one_reader bare_search) \<lparr>cr_type = ''train'', cr_params = ()\<rparr> = Inr (Train bare_search) \<and>
   (\<forall>spec. build_spec (one_reader (bare_search\<lparr>tp_windows := Some 3\<rparr>)) \<lparr>cr_type = ''train'', cr_params = ()\<rparr> \<noteq> Inr spec)"
  using only_guarded_runs_start [of "one_reader bare_search" "\<lparr>cr_type = ''train'', cr_params = ()\<rparr>" "Train bare_search"]
    only_guarded_runs_start [of "one_reader (bare_search\<lparr>tp_windows := Some 3\<rparr>)" "\<lparr>cr_type = ''train'', cr_params = ()\<rparr>"]
  by (auto simp: parsed_spec_def one_reader_def bare_search_def search_guarded_def gate_untouched_def at_least_def filled_def trim_def trim_end_def is_ascii_space_def)

text \<open>Of the knobs a request may set, some never reach the command line.\<close>

lemma evolve_caps_are_dropped:
  "evolve_args (p\<lparr>ep_depth := d, ep_nodes := n, ep_lookback := l, ep_windows := w\<rparr>) run_dir = evolve_args p run_dir"
  by (simp add: evolve_args_def)

lemma raised_purge_is_dropped: "train_args (p\<lparr>tp_purge := v\<rparr>) run_dir flow = train_args p run_dir flow"
  by (simp add: train_args_def)

text \<open>What does reach it is readable back: the window, and every repeated flag in order.\<close>

lemma rep_arg_inject: "rep_arg flag xs = rep_arg flag ys \<longleftrightarrow> xs = ys"
proof
  show "rep_arg flag xs = rep_arg flag ys \<Longrightarrow> xs = ys"
  proof (induction xs arbitrary: ys)
    case Nil
    then show ?case by (cases ys) (simp_all add: rep_arg_def)
  next
    case (Cons x xs)
    then show ?case by (cases ys) (simp_all add: rep_arg_def)
  qed
qed simp
end
