(* ===== verification/Steer.thy ===== *)
theory Steer imports Run_Model Catalogue Formula_Pool begin

text \<open>
  Steering a search (crates \<open>qe-server\<close> \<open>runs/steer.rs\<close>, \<open>qe-vintage\<close> \<open>SteerDelta\<close>, \<open>qe-validation\<close>
  \<open>steer.rs\<close> and \<open>dsr.rs\<close>): what is recorded of a steered request, which sealed formulas it may use, and the
  count of trials the deflation charges for it.
\<close>

record steer_delta =
  sd_indicator_subset_hash :: string
  sd_generations :: u64
  sd_population :: u64
  sd_windows :: u64
  sd_folds :: u64

definition is_steered :: "'f train_params \<Rightarrow> bool" where
  "is_steered p \<longleftrightarrow> tp_indicator_subset p \<noteq> None \<or> tp_evolved_pool p \<noteq> None \<or> tp_evolved_formulas p \<noteq> None \<or>
     tp_windows p \<noteq> None \<or> tp_folds p \<noteq> None \<or> tp_generations p \<noteq> None \<or> tp_population p \<noteq> None"

definition subset_items :: "string list \<Rightarrow> string list \<Rightarrow> string list" where
  "subset_items catalogue_ids evolved =
     remdups_adj (sort (map ((@) ''cat:'') catalogue_ids @ map ((@) ''evo:'') evolved))"

definition subset_hash :: "(bytes \<Rightarrow> bytes) \<Rightarrow> string list \<Rightarrow> string list \<Rightarrow> string" where
  "subset_hash sha256 catalogue_ids evolved =
     hex (sha256 (concat (map (\<lambda>item. map of_char item @ [0]) (subset_items catalogue_ids evolved))))"

definition included_evolved_formulas :: "pool_formula list \<Rightarrow> string list option \<Rightarrow> nat \<times> string list" where
  "included_evolved_formulas sealed_formulas requested =
     (let sealed = map pf_hash sealed_formulas
      in case requested of
           None \<Rightarrow> (length sealed, sealed)
         | Some req \<Rightarrow> (let included = filter (\<lambda>h. h \<in> set req) sealed in (length included, included)))"

definition or_zero :: "usize option \<Rightarrow> u64" where
  "or_zero v = (case v of None \<Rightarrow> 0 | Some n \<Rightarrow> n)"

definition steer_delta_for :: "(bytes \<Rightarrow> bytes) \<Rightarrow> 'f train_params \<Rightarrow> string list \<Rightarrow> string list \<Rightarrow> steer_delta option" where
  "steer_delta_for sha256 p catalogue_ids evolved =
     (if \<not> is_steered p then None
      else Some \<lparr>sd_indicator_subset_hash = subset_hash sha256 catalogue_ids evolved, sd_generations = or_zero (tp_generations p),
             sd_population = or_zero (tp_population p), sd_windows = or_zero (tp_windows p), sd_folds = or_zero (tp_folds p)\<rparr>)"

definition steer_delta_from_parts ::
  "(bytes \<Rightarrow> bytes) \<Rightarrow> string list \<Rightarrow> string list \<Rightarrow> u64 \<Rightarrow> u64 \<Rightarrow> u64 \<Rightarrow> u64 \<Rightarrow> steer_delta" where
  "steer_delta_from_parts sha256 catalogue_ids evolved generations population windows folds =
     \<lparr>sd_indicator_subset_hash = subset_hash sha256 catalogue_ids evolved, sd_generations = generations,
      sd_population = population, sd_windows = windows, sd_folds = folds\<rparr>"

section \<open>The trial count\<close>

definition usize_sat :: "nat \<Rightarrow> usize" where
  "usize_sat n = min (u64_modulus - 1) n"

definition effective_trials :: "usize \<Rightarrow> usize \<Rightarrow> usize \<Rightarrow> usize" where
  "effective_trials cells generations windows = usize_sat (usize_sat (cells * generations) * windows)"

definition available_feature_space :: "usize \<Rightarrow> usize \<Rightarrow> usize" where
  "available_feature_space catalogue_count evolved_count = usize_sat (catalogue_count + evolved_count)"

definition effective_trials_with_features :: "usize \<Rightarrow> usize \<Rightarrow> usize \<Rightarrow> usize \<Rightarrow> usize" where
  "effective_trials_with_features cells generations windows feature_space =
     usize_sat (effective_trials cells generations windows * max feature_space 1)"

definition descriptor_space_cells :: usize where "descriptor_space_cells = 45"
definition min_occupied_niches :: usize where "min_occupied_niches = 5"

definition archive_coverage :: "'f f64_ops \<Rightarrow> usize \<Rightarrow> usize \<Rightarrow> 'f" where
  "archive_coverage F occupied cells =
     (if cells = 0 then fl_of_int F 0 else fl_div F (fl_of_int F (int occupied)) (fl_of_int F (int cells)))"

definition coverage_floor_ok :: "usize \<Rightarrow> bool" where
  "coverage_floor_ok occupied \<longleftrightarrow> min_occupied_niches \<le> occupied"

section \<open>What is recorded\<close>

lemma usize_sat_mono: "m \<le> n \<Longrightarrow> usize_sat m \<le> usize_sat n"
  by (auto simp: usize_sat_def)

lemma trials_mono:
  assumes "c \<le> c'" "g \<le> g'" "w \<le> w'" "f \<le> f'"
  shows "effective_trials_with_features c g w f \<le> effective_trials_with_features c' g' w' f'"
  unfolding effective_trials_with_features_def effective_trials_def
  using assms by (intro usize_sat_mono mult_le_mono max.mono) auto

lemma effective_trials_le_features: "effective_trials c g w \<le> effective_trials_with_features c g w f"
proof -
  have "effective_trials c g w * 1 \<le> effective_trials c g w * max f 1" by (intro mult_le_mono) auto
  moreover have "effective_trials c g w \<le> u64_modulus - 1" by (simp add: effective_trials_def usize_sat_def)
  ultimately show ?thesis unfolding effective_trials_with_features_def usize_sat_def by simp
qed

lemma sorted_distinct_remdups_adj: "sorted (xs :: 'a::linorder list) \<Longrightarrow> distinct (remdups_adj xs)"
  by (induction xs rule: remdups_adj.induct) auto

lemma remdups_adj_sort_set:
  fixes xs ys :: "string list"
  shows "remdups_adj (sort xs) = remdups_adj (sort ys) \<longleftrightarrow> set xs = set ys"
proof
  assume "remdups_adj (sort xs) = remdups_adj (sort ys)"
  then have "set (remdups_adj (sort xs)) = set (remdups_adj (sort ys))" by simp
  then show "set xs = set ys" by simp
next
  have distinct: "distinct (remdups_adj (sort zs))" for zs :: "string list"
    by (rule sorted_distinct_remdups_adj) simp
  assume "set xs = set ys"
  then show "remdups_adj (sort xs) = remdups_adj (sort ys)"
    by (intro sorted_distinct_set_unique) (simp_all add: sorted_remdups_adj distinct)
qed

lemma tagged_sets:
  "set (map ((@) ''cat:'') a @ map ((@) ''evo:'') b) = set (map ((@) ''cat:'') c @ map ((@) ''evo:'') d) \<longleftrightarrow> set a = set c \<and> set b = set d"
proof
  assume eq: "set (map ((@) ''cat:'') a @ map ((@) ''evo:'') b) = set (map ((@) ''cat:'') c @ map ((@) ''evo:'') d)"
  have a: "x \<in> set a \<longleftrightarrow> ''cat:'' @ x \<in> set (map ((@) ''cat:'') a @ map ((@) ''evo:'') b)"
    "x \<in> set b \<longleftrightarrow> ''evo:'' @ x \<in> set (map ((@) ''cat:'') a @ map ((@) ''evo:'') b)" for x a b by auto
  show "set a = set c \<and> set b = set d" by (auto simp only: set_eq_iff a [where a = a and b = b] eq a [where a = c and b = d, symmetric])
qed auto

text \<open>
  Steering is recorded by what was in play, not by how it was written, and it is never free: two
  steered requests get the same subset hash exactly when the catalogue ids and the evolved formulas they
  put in play are the same sets; the server and the seal path record the same delta; a formula a request
  names but the pool did not seal adds nothing; and raising any knob never lowers the number of trials the
  deflation charges.
\<close>

theorem steering_is_recorded_and_charged:
  assumes "digest_injective sha256" "\<forall>x \<in> set a \<union> set b \<union> set c \<union> set d. CHR 0x00 \<notin> set x"
  shows "(subset_hash sha256 a b = subset_hash sha256 c d \<longleftrightarrow> set a = set c \<and> set b = set d) \<and>
     (\<forall>p. is_steered p \<longrightarrow> steer_delta_for sha256 (p :: 'f train_params) a b =
        Some (steer_delta_from_parts sha256 a b (or_zero (tp_generations p)) (or_zero (tp_population p)) (or_zero (tp_windows p)) (or_zero (tp_folds p)))) \<and>
     (\<forall>p. \<not> is_steered p \<longrightarrow> steer_delta_for sha256 (p :: 'f train_params) a b = None) \<and>
     (\<forall>sealed req. set (snd (included_evolved_formulas sealed req)) \<subseteq> pf_hash ` set sealed) \<and>
     (\<forall>k k' g g' w w' f f'. k \<le> k' \<longrightarrow> g \<le> g' \<longrightarrow> w \<le> w' \<longrightarrow> f \<le> f' \<longrightarrow>
        effective_trials k g w \<le> effective_trials_with_features k' g' w' f' \<and>
        effective_trials_with_features k g w f \<le> effective_trials_with_features k' g' w' f')"
proof (intro conjI allI impI)
  let ?bytes = "\<lambda>items. concat (map (\<lambda>item. map of_char item @ [0 :: nat]) items)"
  let ?chars = "\<lambda>items. concat (map (\<lambda>item. item @ [CHR 0x00]) items)"
  have bytes: "?bytes items = map of_char (?chars items)" for items by (induction items) simp_all
  have clean: "CHR 0x00 \<notin> set x" if "x \<in> set (subset_items as bs)" "\<forall>x \<in> set as \<union> set bs. CHR 0x00 \<notin> set x" for x as bs
    using that by (auto simp: subset_items_def)
  have "subset_hash sha256 a b = subset_hash sha256 c d \<longleftrightarrow> ?bytes (subset_items a b) = ?bytes (subset_items c d)"
    using assms(1) hex_inject unfolding subset_hash_def digest_injective_def by metis
  also have "\<dots> \<longleftrightarrow> ?chars (subset_items a b) = ?chars (subset_items c d)"
    by (simp add: bytes inj_map_eq_map inj_of_char)
  also have "\<dots> \<longleftrightarrow> subset_items a b = subset_items c d"
    using clean assms(2) by (intro no_newline_concat) blast+
  also have "\<dots> \<longleftrightarrow> set a = set c \<and> set b = set d"
    unfolding subset_items_def remdups_adj_sort_set tagged_sets ..
  finally show "subset_hash sha256 a b = subset_hash sha256 c d \<longleftrightarrow> set a = set c \<and> set b = set d" .
next
  fix k k' g g' w w' f f' :: nat
  assume le: "k \<le> k'" "g \<le> g'" "w \<le> w'" "f \<le> f'"
  then show "effective_trials_with_features k g w f \<le> effective_trials_with_features k' g' w' f'" by (rule trials_mono)
  then show "effective_trials k g w \<le> effective_trials_with_features k' g' w' f'"
    using effective_trials_le_features order_trans by blast
qed (auto simp: steer_delta_for_def steer_delta_from_parts_def included_evolved_formulas_def Let_def split: option.splits)


theorem steering_is_recorded_and_charged_witness:
  "subset_hash unary_digest [''b'', ''a'', ''b''] [''f''] = subset_hash unary_digest [''a'', ''b''] [''f''] \<and>
   subset_hash unary_digest [''a''] [''b''] \<noteq> subset_hash unary_digest [''a'', ''b''] []"
proof -
  have clean: "\<forall>x \<in> set as \<union> set bs \<union> set cs \<union> set ds. CHR 0x00 \<notin> set x"
    if "set as \<union> set bs \<union> set cs \<union> set ds \<subseteq> {''a'', ''b'', ''f''}" for as bs cs ds using that by auto
  have "subset_hash unary_digest [''b'', ''a'', ''b''] [''f''] = subset_hash unary_digest [''a'', ''b''] [''f''] \<longleftrightarrow>
      set [''b'', ''a'', ''b''] = set [''a'', ''b''] \<and> set [''f''] = set [''f'']"
    by (rule steering_is_recorded_and_charged [OF unary_digest_injective clean, THEN conjunct1]) auto
  moreover have "subset_hash unary_digest [''a''] [''b''] = subset_hash unary_digest [''a'', ''b''] [] \<longleftrightarrow>
      set [''a''] = set [''a'', ''b''] \<and> set [''b''] = set []"
    by (rule steering_is_recorded_and_charged [OF unary_digest_injective clean, THEN conjunct1]) auto
  ultimately show ?thesis by auto
qed
end
