(* ===== verification/Run_Store.thy ===== *)
theory Run_Store imports Run_Model "HOL-Library.Char_ord" "HOL-Library.List_Lexorder" "HOL-Library.Product_Lexorder" begin

text \<open>
  The file-based run store (\<open>server/src/runs/store.rs\<close>). One atomic file write is modelled over the
  standard library's calls; since it replaces a file whole or not at all, the store is then the records
  its files hold, with a fault per call: \<open>meta.json\<close> per run, the index, the captured log and the
  artefacts the jobs write. The JSON text of a record is not modelled.
\<close>

section \<open>One atomic write\<close>

definition fs_remove :: "fs \<Rightarrow> path \<Rightarrow> fs" where
  "fs_remove f p = f\<lparr>fs_files := filter (\<lambda>kv. fst kv \<noteq> p) (fs_files f)\<rparr>"

definition fs_rename :: "fs \<Rightarrow> path \<Rightarrow> path \<Rightarrow> io_error option \<Rightarrow> (io_error, unit) result \<times> fs" where
  "fs_rename f a b fault =
     (case fault of
        Some e \<Rightarrow> (Inl e, f)
      | None \<Rightarrow> (case map_of (fs_files f) a of
                   None \<Rightarrow> (Inl NotFound, f)
                 | Some bs \<Rightarrow> (Inr (), (fs_remove f a)\<lparr>fs_files := AList.update b bs (fs_files (fs_remove f a))\<rparr>)))"

definition atomic_write :: "fs \<Rightarrow> path \<Rightarrow> path \<Rightarrow> io_error option \<Rightarrow> bytes \<Rightarrow> (io_error, unit) result \<times> fs" where
  "atomic_write f p tmp rename_fault bs =
     (case fs_create_dir_all f (fst p) of
        Inl e \<Rightarrow> (Inl e, f)
      | Inr _ \<Rightarrow>
          (let (w, f1) = (case fs_create f tmp of (Inl e, g) \<Rightarrow> (Inl e, g) | (Inr _, g) \<Rightarrow> fs_write_all g tmp bs)
           in case w of
                Inl e \<Rightarrow> (Inl e, fs_remove f1 tmp)
              | Inr _ \<Rightarrow> (case fs_rename f1 tmp p rename_fault of
                            (Inl e, f2) \<Rightarrow> (Inl e, fs_remove f2 tmp)
                          | (Inr _, f2) \<Rightarrow> (Inr (), f2))))"

lemma atomic_write_whole_or_nothing:
  assumes "p \<noteq> tmp" "map_of (fs_files f) tmp = None" "atomic_write f p tmp fault bs = (r, f')"
  shows "map_of (fs_files f') q = (if r = Inr () \<and> q = p then Some bs else map_of (fs_files f) q)"
proof -
  have filt: "map_of (filter (\<lambda>kv. fst kv \<noteq> a) kvs) q = (if q = a then None else map_of kvs q)" for a and kvs :: "(path \<times> bytes) list"
    by (induction kvs) auto
  note unfold = atomic_write_def fs_create_def fs_write_all_def fs_rename_def fs_remove_def filt update_conv' Let_def
  obtain d where d: "fs_create_dir_all f (fst p) = d" by simp
  show ?thesis
  proof (cases d)
    case (Inl e)
    then show ?thesis using assms d by (auto simp: atomic_write_def)
  next
    case (Inr u)
    note run = assms(3) [unfolded atomic_write_def d Inr sum.case]
    show ?thesis using assms(1,2) run by (auto simp: unfold split: prod.splits option.splits if_splits)
  qed
qed

section \<open>The store\<close>

text \<open>A missing or unreadable record is told apart; a run's artefacts are named relative to its directory.\<close>

record ('f, 'v) run_store =
  rs_meta :: "string \<Rightarrow> ('f, 'v) run_meta option"
  rs_index :: "index_entry list"
  rs_log :: "string \<Rightarrow> string list"
  rs_files :: "string \<times> string \<Rightarrow> bytes option"
  rs_meta_read_fault :: "string \<Rightarrow> io_error option"
  rs_meta_write_fault :: "string \<Rightarrow> io_error option"
  rs_index_read_fault :: "io_error option"
  rs_index_write_fault :: "io_error option"
  rs_log_fault :: "string \<Rightarrow> io_error option"
  rs_dir_fault :: "string \<Rightarrow> io_error option"

definition read_meta :: "('f, 'v) run_store \<Rightarrow> string \<Rightarrow> (io_error, ('f, 'v) run_meta option) result" where
  "read_meta st ident = (case rs_meta_read_fault st ident of Some e \<Rightarrow> Inl e | None \<Rightarrow> Inr (rs_meta st ident))"

definition write_meta :: "('f, 'v) run_store \<Rightarrow> ('f, 'v) run_meta \<Rightarrow> (io_error, unit) result \<times> ('f, 'v) run_store" where
  "write_meta st m =
     (case rs_meta_write_fault st (rm_id m) of
        Some e \<Rightarrow> (Inl e, st)
      | None \<Rightarrow> (Inr (), st\<lparr>rs_meta := (rs_meta st)(rm_id m \<mapsto> m)\<rparr>))"

text \<open>\<open>let _ = store.write_meta(meta)\<close>.\<close>

definition save_meta :: "('f, 'v) run_meta \<Rightarrow> ('f, 'v) run_store \<Rightarrow> ('f, 'v) run_store" where
  "save_meta m st = snd (write_meta st m)"

definition init_run :: "('f, 'v) run_store \<Rightarrow> ('f, 'v) run_meta \<Rightarrow> (io_error, unit) result \<times> ('f, 'v) run_store" where
  "init_run st m =
     (case rs_dir_fault st (rm_id m) of
        Some e \<Rightarrow> (Inl e, st)
      | None \<Rightarrow> (case rs_log_fault st (rm_id m) of Some e \<Rightarrow> (Inl e, st) | None \<Rightarrow> write_meta st m))"

definition read_index :: "('f, 'v) run_store \<Rightarrow> (io_error, index_entry list) result" where
  "read_index st = (case rs_index_read_fault st of Some e \<Rightarrow> Inl e | None \<Rightarrow> Inr (rs_index st))"

definition write_index :: "('f, 'v) run_store \<Rightarrow> index_entry list \<Rightarrow> (io_error, unit) result \<times> ('f, 'v) run_store" where
  "write_index st entries =
     (case rs_index_write_fault st of Some e \<Rightarrow> (Inl e, st) | None \<Rightarrow> (Inr (), st\<lparr>rs_index := entries\<rparr>))"

definition result_exists :: "('f, 'v) run_store \<Rightarrow> string \<Rightarrow> string \<Rightarrow> bool" where
  "result_exists st ident rel \<longleftrightarrow> rs_files st (ident, rel) \<noteq> None"

definition read_result :: "('f, 'v) run_store \<Rightarrow> string \<Rightarrow> (io_error, bytes) result" where
  "read_result st ident = (case rs_files st (ident, ''result.json'') of None \<Rightarrow> Inl NotFound | Some b \<Rightarrow> Inr b)"

definition produced_pool :: "('f, 'v) run_meta \<Rightarrow> string option" where
  "produced_pool m = Option.bind (rm_train m) tr_pool"

definition produced_vintage :: "('f, 'v) run_meta \<Rightarrow> string option" where
  "produced_vintage m = Option.bind (rm_train m) tr_vintage"

fun first_pool_run :: "('f, 'v) run_store \<Rightarrow> string \<Rightarrow> index_entry list \<Rightarrow> (io_error, string option) result" where
  "first_pool_run st pool_id [] = Inr None"
| "first_pool_run st pool_id (e # rest) =
     (if ie_type e \<noteq> ''evolve'' then first_pool_run st pool_id rest
      else case read_meta st (ie_id e) of
             Inl err \<Rightarrow> Inl err
           | Inr None \<Rightarrow> first_pool_run st pool_id rest
           | Inr (Some m) \<Rightarrow> if produced_pool m = Some pool_id then Inr (Some (rm_id m)) else first_pool_run st pool_id rest)"

definition find_run_id_by_pool :: "('f, 'v) run_store \<Rightarrow> string \<Rightarrow> (io_error, string option) result" where
  "find_run_id_by_pool st pool_id = res_bind (read_index st) (\<lambda>index. first_pool_run st pool_id (rev index))"

definition producers_among ::
  "('f, 'v) run_store \<Rightarrow> string \<Rightarrow> index_entry list \<Rightarrow> (io_error, ('f, 'v) run_meta list) result" where
  "producers_among st vintage_id index =
     try_fold (\<lambda>out e. res_bind (read_meta st (ie_id e)) (\<lambda>m.
       Inr (case m of Some m \<Rightarrow> if produced_vintage m = Some vintage_id then out @ [m] else out | None \<Rightarrow> out))) [] index"

definition find_runs_by_vintage :: "('f, 'v) run_store \<Rightarrow> string \<Rightarrow> (io_error, ('f, 'v) run_meta list) result" where
  "find_runs_by_vintage st vintage_id =
     res_bind (read_index st) (\<lambda>index. res_bind (producers_among st vintage_id index) (\<lambda>ms.
       Inr (sort_key (\<lambda>m. (rm_created_ms m, rm_id m)) ms)))"

lemma save_meta_simps [simp]:
  "rs_meta (save_meta m st) = (if rs_meta_write_fault st (rm_id m) = None then (rs_meta st)(rm_id m \<mapsto> m) else rs_meta st)"
  "rs_index (save_meta m st) = rs_index st" "rs_log (save_meta m st) = rs_log st" "rs_files (save_meta m st) = rs_files st"
  "rs_meta_write_fault (save_meta m st) = rs_meta_write_fault st" "rs_meta_read_fault (save_meta m st) = rs_meta_read_fault st"
  "rs_index_read_fault (save_meta m st) = rs_index_read_fault st" "rs_index_write_fault (save_meta m st) = rs_index_write_fault st"
  "rs_log_fault (save_meta m st) = rs_log_fault st" "rs_dir_fault (save_meta m st) = rs_dir_fault st"
  by (simp_all add: save_meta_def write_meta_def split: option.split)
end
