(* ===== verification/Run_Drain.thy ===== *)
theory Run_Drain imports Run_Store begin

text \<open>
  The drain worker of a run's standard output (\<open>server/src/runs/manager.rs\<close>): every line goes to the
  captured log, a progress line updates the worker's own copy of the record, and the record is written at
  a stage change, when the flush interval has passed, at the terminal line and at the end. Whether the
  interval has passed is an input of each turn, as the clock decides it.
\<close>

section \<open>The worker\<close>

definition train_mut :: "('f, 'v) run_meta \<Rightarrow> 'f train_progress" where
  "train_mut m = (case rm_train m of None \<Rightarrow> default_train_progress | Some t \<Rightarrow> t)"

definition coarse :: "nat \<Rightarrow> string \<Rightarrow> string \<Rightarrow> progress" where
  "coarse pct stage msg = \<lparr>pr_pct = pct, pr_stage = stage, pr_msg = msg\<rparr>"

text \<open>The record after a parsed line; an error line leaves it.\<close>

fun apply_line :: "bool \<Rightarrow> 'f progress_line \<Rightarrow> ('f, 'v) run_meta \<Rightarrow> ('f, 'v) run_meta" where
  "apply_line ev (Progress_Line pct stage msg) m = m\<lparr>rm_progress := coarse pct stage msg\<rparr>"
| "apply_line ev (Gen_Line pct g gs cov cl cs best) m =
     m\<lparr>rm_progress := coarse pct ''search'' (''generation '' @ show_nat g @ ''/'' @ show_nat gs),
       rm_train := Some ((train_mut m)\<lparr>tr_generation := Some \<lparr>gn_generation = g, gn_generations = gs, gn_coverage = cov,
         gn_coverage_long = cl, gn_coverage_short = cs, gn_best_fitness = best\<rparr>\<rparr>)\<rparr>"
| "apply_line ev (Ensemble_Line pct folds members score) m =
     m\<lparr>rm_progress := coarse pct ''ensemble'' (''ensemble: '' @ show_nat members @ '' members over '' @ show_nat folds @ '' folds''),
       rm_train := Some ((train_mut m)\<lparr>tr_ensemble := Some \<lparr>en_folds = folds, en_members = members, en_score = score\<rparr>\<rparr>)\<rparr>"
| "apply_line ev (Gate_Line pct promoted failed is hs dsr spa n pbo vt de) m =
     m\<lparr>rm_progress := coarse pct ''gate'' (''G1 '' @ (if promoted then ''passed'' else ''failed'')),
       rm_train := Some ((train_mut m)\<lparr>tr_gate := Some \<lparr>ga_promoted = promoted, ga_failed = failed, ga_in_sample_sharpe = is,
         ga_holdout_sharpe = hs, ga_dsr = dsr, ga_spa_pvalue = spa, ga_n_trials = n, ga_uncensored_pbo = pbo,
         ga_variance_trials = vt, ga_distinct_evaluations = de\<rparr>\<rparr>)\<rparr>"
| "apply_line ev (Done_Line result version vintage pool synthetic) m =
     (if ev then (case pool of Some p \<Rightarrow> m\<lparr>rm_train := Some ((train_mut m)\<lparr>tr_pool := Some p\<rparr>)\<rparr> | None \<Rightarrow> m)
      else (case vintage of Some v \<Rightarrow> m\<lparr>rm_train := Some ((train_mut m)\<lparr>tr_vintage := Some v\<rparr>)\<rparr> | None \<Rightarrow> m))"
| "apply_line ev (Error_Line msg) m = m"

fun bears_progress :: "'f progress_line \<Rightarrow> bool" where
  "bears_progress (Done_Line _ _ _ _ _) = False"
| "bears_progress (Error_Line _) = False"
| "bears_progress _ = True"

fun is_done :: "'f progress_line \<Rightarrow> bool" where
  "is_done (Done_Line _ _ _ _ _) = True"
| "is_done _ = False"

record ('f, 'v) drain_state =
  dr_meta :: "('f, 'v) run_meta"
  dr_done :: bool
  dr_pending :: bool
  dr_last_stage :: "string option"

definition drain_start :: "('f, 'v) run_meta \<Rightarrow> ('f, 'v) drain_state" where
  "drain_start m = \<lparr>dr_meta = m, dr_done = False, dr_pending = False, dr_last_stage = None\<rparr>"

definition append_log :: "string \<Rightarrow> string \<Rightarrow> ('f, 'v) run_store \<Rightarrow> ('f, 'v) run_store" where
  "append_log ident line st =
     (if rs_log_fault st ident = None then st\<lparr>rs_log := (rs_log st)(ident := rs_log st ident @ [line])\<rparr> else st)"

definition flush :: "('f, 'v) drain_state \<Rightarrow> ('f, 'v) run_store \<Rightarrow> ('f, 'v) drain_state \<times> ('f, 'v) run_store" where
  "flush d st = (d\<lparr>dr_pending := False, dr_last_stage := Some (pr_stage (rm_progress (dr_meta d)))\<rparr>, save_meta (dr_meta d) st)"

definition drain_line ::
  "(string \<Rightarrow> 'f progress_line option) \<Rightarrow> bool \<Rightarrow> string \<times> bool \<Rightarrow> ('f, 'v) drain_state \<times> ('f, 'v) run_store
     \<Rightarrow> ('f, 'v) drain_state \<times> ('f, 'v) run_store" where
  "drain_line parse ev le ds =
     (let d = fst ds; st = append_log (rm_id (dr_meta d)) (fst le) (snd ds);
          d1 = (case parse (fst le) of
                  None \<Rightarrow> d
                | Some l \<Rightarrow> d\<lparr>dr_meta := apply_line ev l (dr_meta d), dr_done := dr_done d \<or> is_done l,
                              dr_pending := dr_pending d \<or> bears_progress l\<rparr>)
      in if (case parse (fst le) of Some l \<Rightarrow> is_done l | None \<Rightarrow> False) then flush d1 st
         else if dr_pending d1 \<and> (dr_last_stage d1 \<noteq> Some (pr_stage (rm_progress (dr_meta d1))) \<or> snd le)
         then flush d1 st else (d1, st))"

definition drain_end :: "('f, 'v) drain_state \<Rightarrow> ('f, 'v) run_store \<Rightarrow> ('f, 'v) run_store" where
  "drain_end d st = (if dr_pending d then save_meta (dr_meta d) st else st)"

definition drain_worker ::
  "(string \<Rightarrow> 'f progress_line option) \<Rightarrow> bool \<Rightarrow> (string \<times> bool) list \<Rightarrow> ('f, 'v) run_meta \<Rightarrow> ('f, 'v) run_store
     \<Rightarrow> (('f, 'v) run_meta \<times> bool) \<times> ('f, 'v) run_store" where
  "drain_worker parse ev les m st =
     (case fold (drain_line parse ev) les (drain_start m, st) of
        (d, st') \<Rightarrow> ((dr_meta d, dr_done d), drain_end d st'))"

section \<open>Coalescing loses nothing\<close>

definition parsed_lines :: "(string \<Rightarrow> 'f progress_line option) \<Rightarrow> (string \<times> bool) list \<Rightarrow> 'f progress_line list" where
  "parsed_lines parse les = List.map_filter (\<lambda>le. parse (fst le)) les"

definition told :: "'f progress_line list \<Rightarrow> bool" where
  "told ls \<longleftrightarrow> (\<exists>l \<in> set ls. bears_progress l \<or> is_done l)"

lemma apply_line_keeps [simp]:
  "rm_id (apply_line ev l m) = rm_id m" "rm_status (apply_line ev l m) = rm_status m" "rm_type (apply_line ev l m) = rm_type m"
  "rm_flow (apply_line ev l m) = rm_flow m" "rm_error (apply_line ev l m) = rm_error m" "rm_exit (apply_line ev l m) = rm_exit m"
  "rm_artifacts (apply_line ev l m) = rm_artifacts m" "rm_params (apply_line ev l m) = rm_params m"
  "rm_started_ms (apply_line ev l m) = rm_started_ms m" "rm_finished_ms (apply_line ev l m) = rm_finished_ms m"
  by (cases l; auto split: option.split)+

text \<open>The worker's record is the fold of its lines, and what is stored is that record unless something is pending.\<close>

definition drain_inv ::
  "string \<Rightarrow> ('f, 'v) run_store \<Rightarrow> ('f, 'v) run_meta \<Rightarrow> bool \<Rightarrow> 'f progress_line list \<Rightarrow> ('f, 'v) drain_state \<times> ('f, 'v) run_store \<Rightarrow> bool" where
  "drain_inv ident st0 m ev ls ds \<longleftrightarrow>
     (let d = fst ds; st = snd ds in
        dr_meta d = fold (apply_line ev) ls m \<and> (dr_done d \<longleftrightarrow> (\<exists>l \<in> set ls. is_done l)) \<and>
        (\<forall>k. k \<noteq> ident \<longrightarrow> rs_meta st k = rs_meta st0 k) \<and> rs_index st = rs_index st0 \<and> rs_files st = rs_files st0 \<and>
        rs_meta_write_fault st = rs_meta_write_fault st0 \<and> rs_log_fault st = rs_log_fault st0 \<and>
        (rs_meta_write_fault st0 ident = None \<longrightarrow> \<not> dr_pending d \<longrightarrow>
           rs_meta st ident = (if told ls then Some (dr_meta d) else rs_meta st0 ident)) \<and>
        (dr_pending d \<longrightarrow> told ls) \<and> (rs_meta_write_fault st0 ident \<noteq> None \<longrightarrow> rs_meta st ident = rs_meta st0 ident))"

lemma append_log_simps [simp]:
  "rs_meta (append_log i l st) = rs_meta st" "rs_index (append_log i l st) = rs_index st" "rs_files (append_log i l st) = rs_files st"
  "rs_meta_write_fault (append_log i l st) = rs_meta_write_fault st" "rs_log_fault (append_log i l st) = rs_log_fault st"
  "rs_log (append_log i l st) = (if rs_log_fault st i = None then (rs_log st)(i := rs_log st i @ [l]) else rs_log st)"
  by (simp_all add: append_log_def)

lemma told_snoc [simp]: "told (ls @ [l]) \<longleftrightarrow> told ls \<or> bears_progress l \<or> is_done l"
  by (auto simp: told_def)

lemma error_line_keeps: "\<not> bears_progress l \<Longrightarrow> \<not> is_done l \<Longrightarrow> apply_line ev l m = m"
  by (cases l) simp_all

lemma fold_apply_id [simp]: "rm_id (fold (apply_line ev) ls m) = rm_id m" "rm_status (fold (apply_line ev) ls m) = rm_status m"
  by (induction ls arbitrary: m) simp_all

lemma drain_line_inv:
  assumes "drain_inv (rm_id m) st0 m ev ls ds"
  shows "drain_inv (rm_id m) st0 m ev (ls @ (case parse (fst le) of None \<Rightarrow> [] | Some l \<Rightarrow> [l])) (drain_line parse ev le ds)"
proof -
  obtain d st where ds: "ds = (d, st)" by (cases ds)
  have d: "rm_id (dr_meta d) = rm_id m" using assms by (simp add: drain_inv_def ds)
  show ?thesis
  proof (cases "parse (fst le)")
    case None
    then show ?thesis using assms d by (auto simp: drain_inv_def drain_line_def flush_def ds Let_def split: option.splits)
  next
    case (Some l)
    show ?thesis
    proof (cases "is_done l \<or> bears_progress l")
      case True
      then show ?thesis using assms d Some by (auto simp: drain_inv_def drain_line_def flush_def ds Let_def split: option.splits)
    next
      case False
      then show ?thesis using assms d Some error_line_keeps [of l ev "dr_meta d"]
        by (auto simp: drain_inv_def drain_line_def flush_def ds Let_def split: option.splits)
    qed
  qed
qed

lemma drain_fold_inv:
  "drain_inv (rm_id m) st0 m ev ls ds \<Longrightarrow> drain_inv (rm_id m) st0 m ev (ls @ parsed_lines parse les) (fold (drain_line parse ev) les ds)"
proof (induction les arbitrary: ls ds)
  case Nil
  then show ?case by (simp add: parsed_lines_def List.map_filter_simps)
next
  case (Cons le les)
  from Cons.IH [OF drain_line_inv [OF Cons.prems, of parse le]] show ?case
    by (simp add: parsed_lines_def List.map_filter_simps split: option.splits)
qed

lemma drain_line_log:
  "rs_log_fault st i = None \<Longrightarrow> i = rm_id (dr_meta d) \<Longrightarrow>
     rs_log (snd (drain_line parse ev le (d, st))) i = rs_log st i @ [fst le] \<and>
     rs_log_fault (snd (drain_line parse ev le (d, st))) = rs_log_fault st \<and> rm_id (dr_meta (fst (drain_line parse ev le (d, st)))) = i"
  by (auto simp: drain_line_def flush_def Let_def split: option.splits)

lemma drain_fold_log:
  "rs_log_fault st i = None \<Longrightarrow> i = rm_id (dr_meta d) \<Longrightarrow>
     rs_log (snd (fold (drain_line parse ev) les (d, st))) i = rs_log st i @ map fst les"
proof (induction les arbitrary: d st)
  case (Cons le les)
  obtain d' st' where step: "drain_line parse ev le (d, st) = (d', st')" by (cases "drain_line parse ev le (d, st)")
  note one = drain_line_log [OF Cons.prems, of parse ev le, unfolded step fst_conv snd_conv]
  have "rs_log_fault st' i = None" "i = rm_id (dr_meta d')" using one Cons.prems(1) by auto
  from Cons.IH [OF this] show ?case using one step by simp
qed simp

lemma evolve_keeps_vintage: "produced_vintage (fold (apply_line True) ls m) = produced_vintage m"
proof (induction ls arbitrary: m)
  case (Cons l ls)
  have mut: "tr_vintage (train_mut m) = produced_vintage m"
    by (simp add: produced_vintage_def train_mut_def default_train_progress_def split: option.split)
  have "produced_vintage (apply_line True l m) = produced_vintage m"
  proof (cases l)
    case (Progress_Line a b c)
    then show ?thesis by (simp add: produced_vintage_def)
  next
    case (Done_Line a b c d e)
    then show ?thesis using mut by (cases d) (simp_all add: produced_vintage_def)
  next
    case (Error_Line a)
    then show ?thesis by simp
  qed (use mut in \<open>simp_all add: produced_vintage_def\<close>)
  then show ?case using Cons by simp
qed simp

text \<open>
  C29. Coalescing loses nothing. As long as the record and the log of the run can be written, and whatever
  the clock says between lines, the worker ends with the fold of its
  lines, that record is what is stored once any line told something, no other run's record and no
  artefact is touched, the status is never changed, and the captured log holds every line in order; the
  run is seen done exactly when a terminal line arrived; and an evolution run records no vintage, even
  when its terminal line carries one.
\<close>

theorem drain_loses_nothing:
  assumes "drain_worker parse ev les m st = ((m', done'), st')" "rs_meta_write_fault st (rm_id m) = None" "rs_log_fault st (rm_id m) = None"
  shows "m' = fold (apply_line ev) (parsed_lines parse les) m \<and>
     rs_meta st' (rm_id m) = (if told (parsed_lines parse les) then Some m' else rs_meta st (rm_id m)) \<and>
     (\<forall>k. k \<noteq> rm_id m \<longrightarrow> rs_meta st' k = rs_meta st k) \<and> rs_index st' = rs_index st \<and> rs_files st' = rs_files st \<and>
     rm_status m' = rm_status m \<and> rs_log st' (rm_id m) = rs_log st (rm_id m) @ map fst les \<and>
     (done' \<longleftrightarrow> (\<exists>l \<in> set (parsed_lines parse les). is_done l)) \<and> (ev \<longrightarrow> produced_vintage m' = produced_vintage m)"
proof -
  obtain d st1 where run: "fold (drain_line parse ev) les (drain_start m, st) = (d, st1)"
    by (cases "fold (drain_line parse ev) les (drain_start m, st)")
  then have out: "m' = dr_meta d" "done' = dr_done d" "st' = drain_end d st1" using assms(1) by (simp_all add: drain_worker_def)
  have "drain_inv (rm_id m) st m ev [] (drain_start m, st)" by (simp add: drain_inv_def drain_start_def told_def)
  from drain_fold_inv [OF this, of parse les] have inv: "drain_inv (rm_id m) st m ev (parsed_lines parse les) (d, st1)" by (simp add: run)
  have m': "m' = fold (apply_line ev) (parsed_lines parse les) m" using inv out by (simp add: drain_inv_def Let_def)
  moreover have "rs_log st1 (rm_id m) = rs_log st (rm_id m) @ map fst les"
    using drain_fold_log [OF assms(3), of "drain_start m" parse ev les] run by (simp add: drain_start_def)
  moreover have "ev \<longrightarrow> produced_vintage m' = produced_vintage m" using evolve_keeps_vintage m' by (cases ev) simp_all
  ultimately show ?thesis using inv out assms(2) by (auto simp: drain_inv_def drain_end_def Let_def)
qed

definition blank_store :: "(rat, unit) run_store" where
  "blank_store = \<lparr>rs_meta = (\<lambda>_. None), rs_index = [], rs_log = (\<lambda>_. []), rs_files = (\<lambda>_. None), rs_meta_read_fault = (\<lambda>_. None),
     rs_meta_write_fault = (\<lambda>_. None), rs_index_read_fault = None, rs_index_write_fault = None, rs_log_fault = (\<lambda>_. None), rs_dir_fault = (\<lambda>_. None)\<rparr>"

definition running_meta :: "(rat, unit) run_meta" where
  "running_meta = \<lparr>rm_id = ''r'', rm_type = ''evolve'', rm_status = Running, rm_params = (), rm_progress = default_progress, rm_train = None,
     rm_flow = None, rm_created_ms = 1, rm_started_ms = Some 2, rm_finished_ms = None, rm_exit = None, rm_error = None, rm_artifacts = []\<rparr>"

definition toy_line :: "string \<Rightarrow> rat progress_line option" where
  "toy_line s = (if s = ''p'' then Some (Progress_Line 10 ''scan'' []) else if s = ''d'' then Some (Done_Line [] 3 (Some ''v'') (Some ''k'') False) else None)"

theorem drain_loses_nothing_witness:
  "\<exists>m' st'. drain_worker toy_line True [(''p'', False), (''x'', True), (''p'', False), (''d'', False)] running_meta blank_store = ((m', True), st') \<and>
     rs_meta st' ''r'' = Some m' \<and> produced_vintage m' = None \<and> rs_log st' ''r'' = [''p'', ''x'', ''p'', ''d'']"
proof -
  let ?les = "[(''p'', False), (''x'', True), (''p'', False), (''d'', False)]"
  obtain m' done' st' where run: "drain_worker toy_line True ?les running_meta blank_store = ((m', done'), st')" by (metis prod.collapse)
  have parsed: "parsed_lines toy_line ?les = [Progress_Line 10 ''scan'' [], Progress_Line 10 ''scan'' [], Done_Line [] 3 (Some ''v'') (Some ''k'') False]"
    by (simp add: parsed_lines_def toy_line_def List.map_filter_simps)
  show ?thesis using drain_loses_nothing [OF run] run unfolding parsed
    by (simp add: blank_store_def running_meta_def told_def produced_vintage_def train_mut_def default_train_progress_def)
qed
end
