(* ===== verification/Run_Manager.thy ===== *)
theory Run_Manager imports Run_Drain begin

text \<open>
  The run manager (\<open>server/src/runs/manager.rs\<close>): supervisors as tasks that step from one await point to
  the next, the worker pool and its two lanes, the registry, halting, shutdown and the startup
  reconciler. A step is one event: what the venue of a run does (a line, an exit, an artefact), what the
  clock does, or what a caller asks. A drain worker runs on a blocking thread, which cancelling its
  supervisor does not stop: it is then an orphan.
\<close>

section \<open>The environment\<close>

record ('f, 'v) run_env =
  re_params :: "('f, 'v) params_env"
  re_line :: "string \<Rightarrow> 'f progress_line option"
  re_parse :: "bytes \<Rightarrow> 'v option"
  re_get :: "'v \<Rightarrow> string \<Rightarrow> 'v option"
  re_str :: "'v \<Rightarrow> string option"
  re_f64 :: "'v \<Rightarrow> 'f option"
  re_ops :: "'f f64_ops"
  re_epsilon :: 'f

text \<open>What the operating system answers a step with: creating a directory, and spawning a job.\<close>

record io =
  io_dir :: "(string, unit) result"
  io_spawn :: "(string, unit) result"

section \<open>Tasks\<close>

record ('f, 'v) worker =
  wk_state :: "('f, 'v) drain_state"
  wk_evolve :: bool
  wk_queue :: "string list"

datatype phase = Single | Flow_Train flow_progress | Flow_Backtest flow_progress

datatype stage =
    Wait_Pool
  | Wait_Evolve
  | Wait_Flow
  | Reading phase
  | Joining phase string bool
  | Exiting phase string bool bool
  | Ended

text \<open>A run that was created, or a flow resumed from its sealed vintage.\<close>

datatype 'f job = Fresh "'f run_spec" | Resumed string

record ('f, 'v) task =
  tk_meta :: "('f, 'v) run_meta"
  tk_job :: "'f job"
  tk_stage :: stage
  tk_worker :: "('f, 'v) worker option"
  tk_pool :: bool
  tk_evolve :: bool
  tk_flow :: bool

record ('f, 'v) manager =
  mg_store :: "('f, 'v) run_store"
  mg_pool_free :: nat
  mg_pool_closed :: bool
  mg_evolve_free :: nat
  mg_flow_free :: nat
  mg_accepting :: bool
  mg_registry :: "string set"
  mg_draining :: "string set"
  mg_creating :: "string \<Rightarrow> (('f, 'v) run_meta \<times> 'f run_spec \<times> bool) option"
  mg_tasks :: "string \<Rightarrow> ('f, 'v) task option"
  mg_orphans :: "('f, 'v) worker list"

definition channel_bound :: nat where "channel_bound = 256"

definition manager_new :: "('f, 'v) run_store \<Rightarrow> nat \<Rightarrow> nat \<Rightarrow> nat \<Rightarrow> ('f, 'v) manager" where
  "manager_new st max_concurrency max_evolve max_flow =
     \<lparr>mg_store = st, mg_pool_free = max max_concurrency 1, mg_pool_closed = False, mg_evolve_free = max max_evolve 1,
      mg_flow_free = max max_flow 1, mg_accepting = True, mg_registry = {}, mg_draining = {}, mg_creating = (\<lambda>_. None),
      mg_tasks = (\<lambda>_. None), mg_orphans = []\<rparr>"

text \<open>The outcome of one poll of a supervisor: the task at its next await point, and the store.\<close>

type_synonym ('f, 'v) polled = "('f, 'v) task \<times> ('f, 'v) run_store"

definition finish_failed :: "('f, 'v) run_meta \<Rightarrow> int option \<Rightarrow> string \<Rightarrow> u64 \<Rightarrow> ('f, 'v) run_meta" where
  "finish_failed m exit err now =
     m\<lparr>rm_status := Failed, rm_exit := exit, rm_finished_ms := Some (case rm_finished_ms m of None \<Rightarrow> now | Some t \<Rightarrow> t),
       rm_error := Some err\<rparr>"

definition fail_task :: "('f, 'v) task \<Rightarrow> ('f, 'v) run_meta \<Rightarrow> int option \<Rightarrow> string \<Rightarrow> u64 \<Rightarrow> ('f, 'v) run_store \<Rightarrow> ('f, 'v) polled" where
  "fail_task t m exit err now st =
     (let m' = finish_failed m exit err now in (t\<lparr>tk_meta := m', tk_stage := Ended, tk_worker := None\<rparr>, save_meta m' st))"

definition begin_reading :: "('f, 'v) task \<Rightarrow> ('f, 'v) run_meta \<Rightarrow> phase \<Rightarrow> bool \<Rightarrow> ('f, 'v) task" where
  "begin_reading t m ph ev =
     t\<lparr>tk_meta := m, tk_stage := Reading ph, tk_worker := Some \<lparr>wk_state = drain_start m, wk_evolve = ev, wk_queue = []\<rparr>\<rparr>"

section \<open>Starting a run\<close>

definition run_deadline_reason :: string where "run_deadline_reason = ''run exceeded the wall-clock ceiling''"
definition halt_reason :: string where "halt_reason = ''run halted by operator request''"
definition reconcile_reason :: string where "reconcile_reason = ''run was interrupted by a server restart (no live supervisor)''"
definition shutdown_drain_reason :: string where "shutdown_drain_reason = ''run did not finish before server shutdown''"
definition flow_slippage_model :: string where "flow_slippage_model = ''square-root-impact''"
definition flow_single_consultation_note :: string where
  "flow_single_consultation_note = ''flow backtest evaluates ON the frozen holdout (single recorded consultation, no independent credit)''"

text \<open>\<open>supervise_flow\<close> up to its first await.\<close>

definition start_flow :: "('f, 'v) task \<Rightarrow> ('f, 'v) run_meta \<Rightarrow> io \<Rightarrow> u64 \<Rightarrow> ('f, 'v) run_store \<Rightarrow> ('f, 'v) polled" where
  "start_flow t m w now st =
     (case io_dir w of
        Inl e \<Rightarrow> fail_task t m None (''failed to create flow train dir: '' @ e) now st
      | Inr _ \<Rightarrow>
          (let flow = default_flow_progress\<lparr>flw_train_run := Some ''train''\<rparr>;
               m1 = m\<lparr>rm_flow := Some flow, rm_progress := coarse 5 ''flow-train'' ''flow: training over the frozen holdout''\<rparr>;
               st1 = save_meta m1 st
           in case io_spawn w of
                Inl e \<Rightarrow> fail_task t m1 None (''failed to spawn flow train: '' @ e) now st1
              | Inr _ \<Rightarrow> (begin_reading t m1 (Flow_Train flow) False, st1)))"

definition is_evolve :: "'f run_spec \<Rightarrow> bool" where
  "is_evolve spec = (case spec of Evolve _ \<Rightarrow> True | _ \<Rightarrow> False)"

definition is_flow :: "'f run_spec \<Rightarrow> bool" where
  "is_flow spec = (case spec of Flow _ \<Rightarrow> True | _ \<Rightarrow> False)"

text \<open>\<open>supervise\<close> once it holds its permits, up to its next await.\<close>

definition start_run :: "('f, 'v) task \<Rightarrow> 'f run_spec \<Rightarrow> io \<Rightarrow> u64 \<Rightarrow> ('f, 'v) run_store \<Rightarrow> ('f, 'v) polled" where
  "start_run t spec w now st =
     (let m = (tk_meta t)\<lparr>rm_status := Running, rm_started_ms := Some now\<rparr>; st1 = save_meta m st
      in if is_flow spec then start_flow t m w now st1
         else case io_spawn w of
                Inl e \<Rightarrow> fail_task t m None (''failed to spawn job: '' @ e) now st1
              | Inr _ \<Rightarrow> (begin_reading t m Single (is_evolve spec), st1))"

section \<open>The backtest phase of a flow\<close>

record 'f train_handoff =
  th_holdout_start :: string
  th_holdout_end :: string
  th_resolution :: string
  th_instrument :: string
  th_gate_taker_fee_bps :: 'f

definition read_train_handoff :: "('f, 'v) run_env \<Rightarrow> ('f, 'v) run_store \<Rightarrow> string \<Rightarrow> 'f train_handoff option" where
  "read_train_handoff E st ident =
     Option.bind (rs_files st (ident, ''train/result.json'')) (\<lambda>b.
     Option.bind (re_parse E b) (\<lambda>v.
     Option.bind (re_get E v ''holdout_window'') (\<lambda>hw.
     Option.bind (Option.bind (re_get E hw ''start'') (re_str E)) (\<lambda>start.
     Option.bind (Option.bind (re_get E hw ''end'') (re_str E)) (\<lambda>stop.
     Option.bind (Option.bind (re_get E hw ''resolution'') (re_str E)) (\<lambda>res.
     Option.bind (Option.bind (re_get E v ''instrument'') (re_str E)) (\<lambda>inst.
     Option.bind (Option.bind (re_get E v ''gate_taker_fee_bps'') (re_f64 E)) (\<lambda>fee.
       Some \<lparr>th_holdout_start = start, th_holdout_end = stop, th_resolution = res, th_instrument = inst,
             th_gate_taker_fee_bps = fee\<rparr>))))))))"

definition flow_backtest_params :: "string \<Rightarrow> string \<Rightarrow> string \<Rightarrow> string \<Rightarrow> string \<Rightarrow> 'f \<Rightarrow> 'f backtest_params" where
  "flow_backtest_params vintage start stop res instrument fee =
     \<lparr>bp_vintage = vintage, bp_strategy = None, bp_start = start, bp_end = stop, bp_resolution = res, bp_universe = [instrument],
      bp_taker_fee_bps = fee, bp_slippage_model = flow_slippage_model\<rparr>"

definition flow_cost_parity_ok :: "('f, 'v) run_env \<Rightarrow> 'f backtest_params \<Rightarrow> 'f \<Rightarrow> bool" where
  "flow_cost_parity_ok E bp fee \<longleftrightarrow>
     fl_less (re_ops E) (fl_abs (re_ops E) (fl_sub (re_ops E) (bp_taker_fee_bps bp) fee)) (re_epsilon E) \<and>
     bp_slippage_model bp = flow_slippage_model"

definition flow_backtest_phase ::
  "('f, 'v) run_env \<Rightarrow> ('f, 'v) task \<Rightarrow> ('f, 'v) run_meta \<Rightarrow> flow_progress \<Rightarrow> string \<Rightarrow> io \<Rightarrow> u64 \<Rightarrow> ('f, 'v) run_store \<Rightarrow> ('f, 'v) polled" where
  "flow_backtest_phase E t m flow vintage w now st =
     (case read_train_handoff E st (rm_id m) of
        None \<Rightarrow> fail_task t m (rm_exit m) ''flow train result.json missing the holdout handoff (holdout_window/instrument)'' now st
      | Some h \<Rightarrow>
          (let bp = flow_backtest_params vintage (th_holdout_start h) (th_holdout_end h) (th_resolution h) (th_instrument h)
                 (th_gate_taker_fee_bps h)
           in if \<not> flow_cost_parity_ok E bp (th_gate_taker_fee_bps h)
              then fail_task t m (rm_exit m) ''flow backtest cost model diverged from the sealed gate calibration (cost-parity breach)'' now st
              else case io_dir w of
                Inl e \<Rightarrow> fail_task t m (rm_exit m) (''failed to create flow backtest dir: '' @ e) now st
              | Inr _ \<Rightarrow>
                  (let flow1 = flow\<lparr>flw_holdout_start := Some (th_holdout_start h), flw_holdout_end := Some (th_holdout_end h),
                         flw_backtest_run := Some ''backtest''\<rparr>;
                       m1 = m\<lparr>rm_flow := Some flow1, rm_progress := coarse 90 ''flow-backtest''
                         (''flow: backtesting sealed vintage on the holdout ('' @ flow_single_consultation_note @ '')'')\<rparr>;
                       st1 = save_meta m1 st
                   in case io_spawn w of
                        Inl e \<Rightarrow> fail_task t m1 (rm_exit m1) (''failed to spawn flow backtest: '' @ e) now st1
                      | Inr _ \<Rightarrow> (begin_reading t m1 (Flow_Backtest flow1) False, st1))))"

text \<open>\<open>supervise_flow_resume\<close> once it holds its permits.\<close>

definition resume_flow :: "('f, 'v) run_env \<Rightarrow> ('f, 'v) task \<Rightarrow> string \<Rightarrow> io \<Rightarrow> u64 \<Rightarrow> ('f, 'v) run_store \<Rightarrow> ('f, 'v) polled" where
  "resume_flow E t vintage w now st =
     (let flow = (case rm_flow (tk_meta t) of None \<Rightarrow> default_flow_progress | Some f \<Rightarrow> f);
          m = (tk_meta t)\<lparr>rm_status := Running, rm_progress := coarse 88 ''flow-resume''
                ''flow: resuming backtest from the sealed-vintage checkpoint''\<rparr>
      in flow_backtest_phase E t m flow vintage w now (save_meta m st))"

section \<open>When the job has exited\<close>

definition show_exit :: "int option \<Rightarrow> string" where
  "show_exit e = (case e of None \<Rightarrow> ''None'' | Some n \<Rightarrow> ''Some('' @ show_int n @ '')'')"

definition success_progress :: "'f job \<Rightarrow> progress \<Rightarrow> progress" where
  "success_progress job p =
     (case job of
        Fresh (Train _) \<Rightarrow> coarse 100 ''done'' ''training complete''
      | Fresh (Evolve _) \<Rightarrow> coarse 100 ''done'' ''evolution complete''
      | Fresh (Ingest _) \<Rightarrow> coarse 100 ''done'' ''ingest complete''
      | _ \<Rightarrow> p)"

definition single_exit ::
  "('f, 'v) task \<Rightarrow> string \<Rightarrow> bool \<Rightarrow> bool \<Rightarrow> int option \<Rightarrow> u64 \<Rightarrow> ('f, 'v) run_store \<Rightarrow> ('f, 'v) polled" where
  "single_exit t err_tail deadline done' exit now st =
     (let m = (tk_meta t)\<lparr>rm_exit := exit, rm_finished_ms := Some now\<rparr>
      in if deadline then fail_task t m exit run_deadline_reason now st
         else if done' \<and> exit = Some 0 \<and> result_exists st (rm_id m) ''result.json''
         then (let m1 = m\<lparr>rm_status := Succeeded, rm_error := None, rm_artifacts := [''result.json''],
                     rm_progress := success_progress (tk_job t) (rm_progress m)\<rparr>
               in (t\<lparr>tk_meta := m1, tk_stage := Ended, tk_worker := None\<rparr>, save_meta m1 st))
         else if done' \<and> exit = Some 0 then fail_task t m exit ''job reported done but wrote no result.json'' now st
         else fail_task t m exit
                (if trim err_tail = [] then ''job exited with status '' @ show_exit exit @ '' without a '' @ tick @ ''done'' @ tick @ '' line''
                 else err_tail) now st)"

definition gate_promoted :: "('f, 'v) run_meta \<Rightarrow> bool" where
  "gate_promoted m = (case Option.bind (rm_train m) tr_gate of None \<Rightarrow> False | Some g \<Rightarrow> ga_promoted g)"

definition train_exit ::
  "('f, 'v) run_env \<Rightarrow> ('f, 'v) task \<Rightarrow> flow_progress \<Rightarrow> string \<Rightarrow> bool \<Rightarrow> bool \<Rightarrow> int option \<Rightarrow> io \<Rightarrow> u64 \<Rightarrow> ('f, 'v) run_store
     \<Rightarrow> ('f, 'v) polled" where
  "train_exit E t flow err_tail deadline done' exit w now st =
     (let m = tk_meta t; vintage = produced_vintage m;
          sealed_ok = \<not> deadline \<and> done' \<and> exit = Some 0 \<and> result_exists st (rm_id m) ''train/result.json'' \<and> vintage \<noteq> None
      in if \<not> sealed_ok \<or> \<not> gate_promoted m
         then fail_task t m exit
                (if deadline then run_deadline_reason
                 else if sealed_ok \<and> \<not> gate_promoted m then ''flow train failed the G1 gate '' @ em_dash @ '' nothing promoted, no backtest run''
                 else if done' \<and> exit = Some 0 \<and> vintage = None then ''flow train sealed no vintage '' @ em_dash @ '' no backtest run''
                 else if trim err_tail \<noteq> [] then err_tail
                 else ''flow train sub-job failed (exit '' @ show_exit exit @ '')'') now st
         else flow_backtest_phase E t m (flow\<lparr>flw_vintage := vintage\<rparr>) (the vintage) w now st)"

definition backtest_exit ::
  "('f, 'v) task \<Rightarrow> flow_progress \<Rightarrow> string \<Rightarrow> bool \<Rightarrow> bool \<Rightarrow> int option \<Rightarrow> u64 \<Rightarrow> ('f, 'v) run_store \<Rightarrow> ('f, 'v) polled" where
  "backtest_exit t flow err_tail deadline done' exit now st =
     (let m = tk_meta t
      in if \<not> (\<not> deadline \<and> done' \<and> exit = Some 0 \<and> result_exists st (rm_id m) ''backtest/result.json'')
         then fail_task t m exit
                (if deadline then run_deadline_reason else if trim err_tail \<noteq> [] then err_tail
                 else ''flow backtest sub-job failed (exit '' @ show_exit exit @ '')'') now st
         else (let m1 = m\<lparr>rm_status := Succeeded, rm_error := None, rm_exit := Some 0, rm_finished_ms := Some now,
                     rm_artifacts := [''train/result.json'', ''backtest/result.json''],
                     rm_progress := coarse 100 ''done'' ''flow complete: train sealed + holdout backtest'', rm_flow := Some flow\<rparr>
               in (t\<lparr>tk_meta := m1, tk_stage := Ended, tk_worker := None\<rparr>, save_meta m1 st)))"

definition job_exited ::
  "('f, 'v) run_env \<Rightarrow> ('f, 'v) task \<Rightarrow> phase \<Rightarrow> string \<Rightarrow> bool \<Rightarrow> bool \<Rightarrow> int option \<Rightarrow> io \<Rightarrow> u64 \<Rightarrow> ('f, 'v) run_store \<Rightarrow> ('f, 'v) polled" where
  "job_exited E t ph err_tail deadline done' exit w now st =
     (case ph of
        Single \<Rightarrow> single_exit t err_tail deadline done' exit now st
      | Flow_Train flow \<Rightarrow> train_exit E t flow err_tail deadline done' exit w now st
      | Flow_Backtest flow \<Rightarrow> backtest_exit t flow err_tail deadline done' exit now st)"

section \<open>The startup reconciler\<close>

datatype orphan_action = Fail_Orphan | Resume_Backtest

definition classify_orphan :: "('f, 'v) run_store \<Rightarrow> ('f, 'v) run_meta \<Rightarrow> orphan_action" where
  "classify_orphan st m =
     (if rm_type m \<noteq> ''flow'' then Fail_Orphan
      else if (produced_vintage m \<noteq> None \<and> result_exists st (rm_id m) ''train/result.json'') \<and>
              \<not> result_exists st (rm_id m) ''backtest/result.json''
      then Resume_Backtest else Fail_Orphan)"

fun reconcile_each :: "u64 \<Rightarrow> index_entry list \<Rightarrow> nat \<Rightarrow> ('f, 'v) run_store \<Rightarrow> (io_error, nat) result \<times> ('f, 'v) run_store" where
  "reconcile_each now [] n st = (Inr n, st)"
| "reconcile_each now (e # rest) n st =
     (case read_meta st (ie_id e) of
        Inl err \<Rightarrow> (Inl err, st)
      | Inr None \<Rightarrow> reconcile_each now rest n st
      | Inr (Some m) \<Rightarrow>
          if is_live (rm_status m) \<and> classify_orphan st m = Fail_Orphan
          then reconcile_each now rest (n + 1) (save_meta (finish_failed m (rm_exit m) reconcile_reason now) st)
          else reconcile_each now rest n st)"

definition reconcile_orphans :: "u64 \<Rightarrow> ('f, 'v) run_store \<Rightarrow> (io_error, nat) result \<times> ('f, 'v) run_store" where
  "reconcile_orphans now st = (case read_index st of Inl e \<Rightarrow> (Inl e, st) | Inr index \<Rightarrow> reconcile_each now index 0 st)"

definition new_task :: "('f, 'v) run_meta \<Rightarrow> 'f job \<Rightarrow> ('f, 'v) task" where
  "new_task m job =
     \<lparr>tk_meta = m, tk_job = job, tk_stage = Wait_Pool, tk_worker = None, tk_pool = False, tk_evolve = False, tk_flow = False\<rparr>"

definition register :: "string \<Rightarrow> ('f, 'v) task \<Rightarrow> ('f, 'v) manager \<Rightarrow> ('f, 'v) manager" where
  "register ident t mg = mg\<lparr>mg_tasks := (mg_tasks mg)(ident \<mapsto> t), mg_registry := insert ident (mg_registry mg)\<rparr>"

definition spawn_flow_backtest_resume :: "('f, 'v) run_meta \<Rightarrow> ('f, 'v) manager \<Rightarrow> ('f, 'v) manager" where
  "spawn_flow_backtest_resume m mg =
     (case produced_vintage m of None \<Rightarrow> mg | Some v \<Rightarrow> register (rm_id m) (new_task m (Resumed v)) mg)"

fun resume_each :: "index_entry list \<Rightarrow> nat \<Rightarrow> ('f, 'v) manager \<Rightarrow> (io_error, nat) result \<times> ('f, 'v) manager" where
  "resume_each [] n mg = (Inr n, mg)"
| "resume_each (e # rest) n mg =
     (case read_meta (mg_store mg) (ie_id e) of
        Inl err \<Rightarrow> (Inl err, mg)
      | Inr None \<Rightarrow> resume_each rest n mg
      | Inr (Some m) \<Rightarrow>
          if is_live (rm_status m) \<and> classify_orphan (mg_store mg) m = Resume_Backtest
          then resume_each rest (n + 1) (spawn_flow_backtest_resume m mg) else resume_each rest n mg)"

definition resume_orphaned_flows :: "('f, 'v) manager \<Rightarrow> (io_error, nat) result \<times> ('f, 'v) manager" where
  "resume_orphaned_flows mg = (case read_index (mg_store mg) of Inl e \<Rightarrow> (Inl e, mg) | Inr index \<Rightarrow> resume_each index 0 mg)"

section \<open>Creating a run\<close>

definition initial_meta :: "('f, 'v) run_env \<Rightarrow> string \<Rightarrow> 'f run_spec \<Rightarrow> u64 \<Rightarrow> ('f, 'v) run_meta" where
  "initial_meta E ident spec now =
     \<lparr>rm_id = ident, rm_type = run_type_of spec, rm_status = Queued, rm_params = pe_value (re_params E) spec, rm_progress = default_progress,
      rm_train = None, rm_flow = None, rm_created_ms = now, rm_started_ms = None, rm_finished_ms = None, rm_exit = None, rm_error = None,
      rm_artifacts = []\<rparr>"

text \<open>\<open>create\<close> awaits twice: after the run directory is written, and for the index lock.\<close>

definition create_begin ::
  "('f, 'v) run_env \<Rightarrow> string \<Rightarrow> 'v create_request \<Rightarrow> u64 \<Rightarrow> ('f, 'v) manager \<Rightarrow> (create_error, string) result \<times> ('f, 'v) manager" where
  "create_begin E ident req now mg =
     (if \<not> mg_accepting mg then (Inl Shutting_Down, mg)
      else case build_spec (re_params E) req of
        Inl e \<Rightarrow> (Inl e, mg)
      | Inr spec \<Rightarrow>
          (let m = initial_meta E ident spec now
           in case init_run (mg_store mg) m of
                (Inl e, st) \<Rightarrow> (Inl (Create_Io e), mg\<lparr>mg_store := st\<rparr>)
              | (Inr _, st) \<Rightarrow> (Inr ident, mg\<lparr>mg_store := st, mg_creating := (mg_creating mg)(ident \<mapsto> (m, spec, False))\<rparr>)))"

definition create_index :: "string \<Rightarrow> ('f, 'v) run_meta \<Rightarrow> 'f run_spec \<Rightarrow> ('f, 'v) manager \<Rightarrow> (create_error, string) result \<times> ('f, 'v) manager" where
  "create_index ident m spec mg =
     (let entry = \<lparr>ie_id = ident, ie_type = run_type_of spec, ie_created_ms = rm_created_ms m, ie_label = run_label spec\<rparr>;
          dropped = mg\<lparr>mg_creating := (mg_creating mg)(ident := None)\<rparr>
      in case read_index (mg_store mg) of
           Inl e \<Rightarrow> (Inl (Create_Io e), dropped)
         | Inr index \<Rightarrow>
             (case write_index (mg_store mg) (index @ [entry]) of
                (Inl e, st) \<Rightarrow> (Inl (Create_Io e), dropped\<lparr>mg_store := st\<rparr>)
              | (Inr _, st) \<Rightarrow> (Inr ident, mg\<lparr>mg_store := st, mg_creating := (mg_creating mg)(ident \<mapsto> (m, spec, True))\<rparr>)))"

definition create_spawn :: "string \<Rightarrow> ('f, 'v) run_meta \<Rightarrow> 'f run_spec \<Rightarrow> ('f, 'v) manager \<Rightarrow> ('f, 'v) manager" where
  "create_spawn ident m spec mg = register ident (new_task m (Fresh spec)) (mg\<lparr>mg_creating := (mg_creating mg)(ident := None)\<rparr>)"

section \<open>Halting and shutting down\<close>

text \<open>The permits a supervisor holds go back when it ends or is dropped.\<close>

definition release :: "('f, 'v) task \<Rightarrow> ('f, 'v) manager \<Rightarrow> ('f, 'v) manager" where
  "release t mg = mg\<lparr>mg_pool_free := mg_pool_free mg + of_bool (tk_pool t), mg_evolve_free := mg_evolve_free mg + of_bool (tk_evolve t),
     mg_flow_free := mg_flow_free mg + of_bool (tk_flow t)\<rparr>"

definition drop_permits :: "('f, 'v) task \<Rightarrow> ('f, 'v) task" where
  "drop_permits t = t\<lparr>tk_pool := False, tk_evolve := False, tk_flow := False\<rparr>"

text \<open>\<open>handle.abort()\<close> and the await of it: the supervisor is dropped where it waits; its drain worker is not.\<close>

definition abort_task :: "string \<Rightarrow> ('f, 'v) manager \<Rightarrow> ('f, 'v) manager" where
  "abort_task ident mg =
     (case mg_tasks mg ident of
        None \<Rightarrow> mg
      | Some t \<Rightarrow> (release t mg)\<lparr>mg_tasks := (mg_tasks mg)(ident := None),
                     mg_orphans := mg_orphans mg @ (case tk_worker t of None \<Rightarrow> [] | Some w \<Rightarrow> [w])\<rparr>)"

definition terminally_mark :: "string \<Rightarrow> string \<Rightarrow> u64 \<Rightarrow> ('f, 'v) run_store \<Rightarrow> ('f, 'v) run_store" where
  "terminally_mark ident reason now st =
     (case read_meta st ident of
        Inr (Some m) \<Rightarrow> if is_live (rm_status m) then save_meta (finish_failed m (rm_exit m) reason now) st else st
      | _ \<Rightarrow> st)"

datatype halt_outcome = Halted run_status | Not_Found | Already_Terminal run_status

definition mark_halted :: "string \<Rightarrow> u64 \<Rightarrow> ('f, 'v) run_store \<Rightarrow> halt_outcome \<times> ('f, 'v) run_store" where
  "mark_halted ident now st =
     (case read_meta st ident of
        Inr (Some m) \<Rightarrow>
          if is_live (rm_status m) then (Halted Failed, save_meta (finish_failed m (rm_exit m) halt_reason now) st)
          else (Halted (rm_status m), st)
      | _ \<Rightarrow> (Not_Found, st))"

definition halt :: "string \<Rightarrow> u64 \<Rightarrow> ('f, 'v) manager \<Rightarrow> halt_outcome \<times> ('f, 'v) manager" where
  "halt ident now mg =
     (if ident \<in> mg_registry mg
      then (let mg1 = abort_task ident (mg\<lparr>mg_registry := mg_registry mg - {ident}\<rparr>)
            in case mark_halted ident now (mg_store mg1) of (out, st) \<Rightarrow> (out, mg1\<lparr>mg_store := st\<rparr>))
      else (case read_meta (mg_store mg) ident of
              Inr (Some m) \<Rightarrow> (Already_Terminal (rm_status m), mg)
            | _ \<Rightarrow> (Not_Found, mg)))"

definition shutdown_begin :: "('f, 'v) manager \<Rightarrow> ('f, 'v) manager" where
  "shutdown_begin mg = mg\<lparr>mg_accepting := False, mg_pool_closed := True, mg_draining := mg_draining mg \<union> mg_registry mg, mg_registry := {}\<rparr>"

text \<open>The drain window of one handle has passed.\<close>

definition shutdown_abort :: "string \<Rightarrow> u64 \<Rightarrow> ('f, 'v) manager \<Rightarrow> ('f, 'v) manager" where
  "shutdown_abort ident now mg =
     (let mg1 = abort_task ident (mg\<lparr>mg_draining := mg_draining mg - {ident}\<rparr>)
      in mg1\<lparr>mg_store := terminally_mark ident shutdown_drain_reason now (mg_store mg1)\<rparr>)"
end
