(* ===== verification/Run_Events.thy ===== *)
theory Run_Events imports Run_Manager begin

text \<open>
  The run manager's steps. A supervisor runs from one await point to the next in one step; the steps of
  different supervisors, of drain workers, of callers and of the jobs interleave in any order. A step that
  cannot happen in a state is \<open>None\<close>. A run's id is drawn fresh, and the ids of a stored index are distinct.
\<close>

datatype ('f, 'v) event =
    Create_Begin string "'v create_request" u64
  | Create_Index string
  | Create_Spawn string
  | Get_Pool string u64 io
  | Get_Evolve string u64 io
  | Get_Flow string u64 io
  | Emit string string
  | Drain string bool
  | Read_End string string
  | Deadline string
  | Joined string
  | Child_Exit string u64 "int option" io
  | Deregister string
  | Halt string u64
  | Orphan_Drain nat bool
  | Orphan_End nat
  | Shutdown
  | Drained string
  | Abort_Drain string u64
  | Artefact string string bytes

section \<open>Steps of a supervisor\<close>

text \<open>The task after a poll; when it has ended, its permits are back.\<close>

definition settle :: "string \<Rightarrow> ('f, 'v) polled \<Rightarrow> ('f, 'v) manager \<Rightarrow> ('f, 'v) manager" where
  "settle ident p mg =
     (let t = fst p; mg1 = mg\<lparr>mg_store := snd p\<rparr>
      in if tk_stage t = Ended then (release t mg1)\<lparr>mg_tasks := (mg_tasks mg)(ident \<mapsto> drop_permits t)\<rparr>
         else mg1\<lparr>mg_tasks := (mg_tasks mg)(ident \<mapsto> t)\<rparr>)"

text \<open>The supervisor holds every permit it asks for.\<close>

definition begin_job :: "('f, 'v) run_env \<Rightarrow> ('f, 'v) task \<Rightarrow> u64 \<Rightarrow> io \<Rightarrow> ('f, 'v) run_store \<Rightarrow> ('f, 'v) polled" where
  "begin_job E t now w st =
     (case tk_job t of Fresh spec \<Rightarrow> start_run t spec w now st | Resumed v \<Rightarrow> resume_flow E t v w now st)"

definition job_evolves :: "('f, 'v) task \<Rightarrow> bool" where
  "job_evolves t = (case tk_job t of Fresh spec \<Rightarrow> is_evolve spec | Resumed _ \<Rightarrow> False)"

definition job_flows :: "('f, 'v) task \<Rightarrow> bool" where
  "job_flows t = (case tk_job t of Fresh spec \<Rightarrow> is_flow spec | Resumed _ \<Rightarrow> True)"

text \<open>The pool permit: a fresh run fails with no exit code, a resumed one with the code it had.\<close>

definition get_pool :: "('f, 'v) run_env \<Rightarrow> string \<Rightarrow> ('f, 'v) task \<Rightarrow> u64 \<Rightarrow> io \<Rightarrow> ('f, 'v) manager \<Rightarrow> ('f, 'v) manager option" where
  "get_pool E ident t now w mg =
     (if mg_pool_closed mg
      then Some (settle ident (fail_task t (tk_meta t) (case tk_job t of Fresh _ \<Rightarrow> None | Resumed _ \<Rightarrow> rm_exit (tk_meta t))
                   ''worker pool closed'' now (mg_store mg)) mg)
      else if mg_pool_free mg = 0 then None
      else (let t1 = t\<lparr>tk_pool := True\<rparr>; mg1 = mg\<lparr>mg_pool_free := mg_pool_free mg - 1\<rparr>
            in if job_evolves t then Some (settle ident (t1\<lparr>tk_stage := Wait_Evolve\<rparr>, mg_store mg) mg1)
               else if job_flows t then Some (settle ident (t1\<lparr>tk_stage := Wait_Flow\<rparr>, mg_store mg) mg1)
               else Some (settle ident (begin_job E t1 now w (mg_store mg)) mg1)))"

definition get_evolve :: "('f, 'v) run_env \<Rightarrow> string \<Rightarrow> ('f, 'v) task \<Rightarrow> u64 \<Rightarrow> io \<Rightarrow> ('f, 'v) manager \<Rightarrow> ('f, 'v) manager option" where
  "get_evolve E ident t now w mg =
     (if mg_evolve_free mg = 0 then None
      else Some (settle ident (begin_job E (t\<lparr>tk_evolve := True\<rparr>) now w (mg_store mg)) (mg\<lparr>mg_evolve_free := mg_evolve_free mg - 1\<rparr>)))"

definition get_flow :: "('f, 'v) run_env \<Rightarrow> string \<Rightarrow> ('f, 'v) task \<Rightarrow> u64 \<Rightarrow> io \<Rightarrow> ('f, 'v) manager \<Rightarrow> ('f, 'v) manager option" where
  "get_flow E ident t now w mg =
     (if mg_flow_free mg = 0 then None
      else Some (settle ident (begin_job E (t\<lparr>tk_flow := True\<rparr>) now w (mg_store mg)) (mg\<lparr>mg_flow_free := mg_flow_free mg - 1\<rparr>)))"

text \<open>A line into the bounded channel, and out of it into the drain worker.\<close>

definition emit :: "string \<Rightarrow> ('f, 'v) worker \<Rightarrow> ('f, 'v) worker option" where
  "emit line k = (if length (wk_queue k) < channel_bound then Some (k\<lparr>wk_queue := wk_queue k @ [line]\<rparr>) else None)"

definition drain_one :: "('f, 'v) run_env \<Rightarrow> bool \<Rightarrow> ('f, 'v) worker \<Rightarrow> ('f, 'v) run_store \<Rightarrow> (('f, 'v) worker \<times> ('f, 'v) run_store) option" where
  "drain_one E elapsed k st =
     (case wk_queue k of
        [] \<Rightarrow> None
      | line # rest \<Rightarrow> (case drain_line (re_line E) (wk_evolve k) (line, elapsed) (wk_state k, st) of
                         (d, st') \<Rightarrow> Some (k\<lparr>wk_state := d, wk_queue := rest\<rparr>, st')))"

definition joined :: "('f, 'v) task \<Rightarrow> phase \<Rightarrow> string \<Rightarrow> bool \<Rightarrow> ('f, 'v) worker \<Rightarrow> ('f, 'v) run_store \<Rightarrow> ('f, 'v) polled" where
  "joined t ph err deadline k st =
     (t\<lparr>tk_meta := dr_meta (wk_state k), tk_stage := Exiting ph err deadline (dr_done (wk_state k)), tk_worker := None\<rparr>,
      drain_end (wk_state k) st)"

section \<open>One step\<close>

definition task_step ::
  "('f, 'v) run_env \<Rightarrow> string \<Rightarrow> ('f, 'v) event \<Rightarrow> ('f, 'v) task \<Rightarrow> ('f, 'v) manager \<Rightarrow> ('f, 'v) manager option" where
  "task_step E ident ev t mg =
     (case (ev, tk_stage t, tk_worker t) of
        (Get_Pool _ now w, Wait_Pool, _) \<Rightarrow> get_pool E ident t now w mg
      | (Get_Evolve _ now w, Wait_Evolve, _) \<Rightarrow> get_evolve E ident t now w mg
      | (Get_Flow _ now w, Wait_Flow, _) \<Rightarrow> get_flow E ident t now w mg
      | (Emit _ line, Reading _, Some k) \<Rightarrow>
          map_option (\<lambda>k'. settle ident (t\<lparr>tk_worker := Some k'\<rparr>, mg_store mg) mg) (emit line k)
      | (Drain _ elapsed, _, Some k) \<Rightarrow>
          map_option (\<lambda>p. settle ident (t\<lparr>tk_worker := Some (fst p)\<rparr>, snd p) mg) (drain_one E elapsed k (mg_store mg))
      | (Read_End _ err, Reading ph, _) \<Rightarrow> Some (settle ident (t\<lparr>tk_stage := Joining ph err False\<rparr>, mg_store mg) mg)
      | (Deadline _, Reading ph, _) \<Rightarrow> Some (settle ident (t\<lparr>tk_stage := Joining ph [] True\<rparr>, mg_store mg) mg)
      | (Joined _, Joining ph err deadline, Some k) \<Rightarrow>
          (if wk_queue k = [] then Some (settle ident (joined t ph err deadline k (mg_store mg)) mg) else None)
      | (Child_Exit _ now code w, Exiting ph err deadline done', _) \<Rightarrow>
          Some (settle ident (job_exited E t ph err deadline done' code w now (mg_store mg)) mg)
      | (Deregister _, Ended, _) \<Rightarrow> Some (mg\<lparr>mg_tasks := (mg_tasks mg)(ident := None), mg_registry := mg_registry mg - {ident}\<rparr>)
      | _ \<Rightarrow> None)"

fun event_task :: "('f, 'v) event \<Rightarrow> string option" where
  "event_task (Get_Pool i _ _) = Some i"
| "event_task (Get_Evolve i _ _) = Some i"
| "event_task (Get_Flow i _ _) = Some i"
| "event_task (Emit i _) = Some i"
| "event_task (Drain i _) = Some i"
| "event_task (Read_End i _) = Some i"
| "event_task (Deadline i) = Some i"
| "event_task (Joined i) = Some i"
| "event_task (Child_Exit i _ _ _) = Some i"
| "event_task (Deregister i) = Some i"
| "event_task _ = None"

definition fresh_id :: "('f, 'v) manager \<Rightarrow> string \<Rightarrow> bool" where
  "fresh_id mg ident \<longleftrightarrow> rs_meta (mg_store mg) ident = None"

text \<open>An orphaned worker drains what was in its channel, then ends: its sender is gone.\<close>

definition orphan_drain :: "('f, 'v) run_env \<Rightarrow> nat \<Rightarrow> bool \<Rightarrow> ('f, 'v) manager \<Rightarrow> ('f, 'v) manager option" where
  "orphan_drain E k elapsed mg =
     (if k < length (mg_orphans mg)
      then map_option (\<lambda>p. mg\<lparr>mg_orphans := (mg_orphans mg)[k := fst p], mg_store := snd p\<rparr>)
             (drain_one E elapsed (mg_orphans mg ! k) (mg_store mg))
      else None)"

definition orphan_end :: "nat \<Rightarrow> ('f, 'v) manager \<Rightarrow> ('f, 'v) manager option" where
  "orphan_end k mg =
     (if k < length (mg_orphans mg) \<and> wk_queue (mg_orphans mg ! k) = []
      then Some (mg\<lparr>mg_orphans := take k (mg_orphans mg) @ drop (Suc k) (mg_orphans mg),
                    mg_store := drain_end (wk_state (mg_orphans mg ! k)) (mg_store mg)\<rparr>)
      else None)"

fun mstep :: "('f, 'v) run_env \<Rightarrow> ('f, 'v) manager \<Rightarrow> ('f, 'v) event \<Rightarrow> ('f, 'v) manager option" where
  "mstep E mg (Create_Begin ident req now) = (if fresh_id mg ident then Some (snd (create_begin E ident req now mg)) else None)"
| "mstep E mg (Create_Index ident) =
     (case mg_creating mg ident of Some (m, spec, False) \<Rightarrow> Some (snd (create_index ident m spec mg)) | _ \<Rightarrow> None)"
| "mstep E mg (Create_Spawn ident) =
     (case mg_creating mg ident of Some (m, spec, True) \<Rightarrow> Some (create_spawn ident m spec mg) | _ \<Rightarrow> None)"
| "mstep E mg (Halt ident now) = Some (snd (halt ident now mg))"
| "mstep E mg (Orphan_Drain k elapsed) = orphan_drain E k elapsed mg"
| "mstep E mg (Orphan_End k) = orphan_end k mg"
| "mstep E mg Shutdown = Some (shutdown_begin mg)"
| "mstep E mg (Drained ident) =
     (if ident \<in> mg_draining mg \<and> mg_tasks mg ident = None then Some (mg\<lparr>mg_draining := mg_draining mg - {ident}\<rparr>) else None)"
| "mstep E mg (Abort_Drain ident now) = (if ident \<in> mg_draining mg then Some (shutdown_abort ident now mg) else None)"
| "mstep E mg (Artefact ident rel b) =
     Some (mg\<lparr>mg_store := (mg_store mg)\<lparr>rs_files := (rs_files (mg_store mg))((ident, rel) \<mapsto> b)\<rparr>\<rparr>)"
| "mstep E mg ev =
     (case event_task ev of None \<Rightarrow> None | Some ident \<Rightarrow> Option.bind (mg_tasks mg ident) (\<lambda>t. task_step E ident ev t mg))"

text \<open>A manager as the server boots it: the dead runs failed, the resumable flows given supervisors.\<close>

definition boot :: "u64 \<Rightarrow> ('f, 'v) run_store \<Rightarrow> nat \<Rightarrow> nat \<Rightarrow> nat \<Rightarrow> ('f, 'v) manager" where
  "boot now st max_concurrency max_evolve max_flow =
     snd (resume_orphaned_flows (manager_new (snd (reconcile_orphans now st)) max_concurrency max_evolve max_flow))"
end
