(* ===== verification/Run_Facts.thy ===== *)
theory Run_Facts imports Run_Events begin

text \<open>
  What every interleaving of the run manager's steps keeps: the permits of the three lanes add up, a
  record belongs to its run, a run that ended stays ended, success is backed by artefacts, and an evolution
  run records no vintage.
\<close>

section \<open>What a task is\<close>

definition meta_fits :: "string \<Rightarrow> 'f job \<Rightarrow> ('f, 'v) run_meta \<Rightarrow> bool" where
  "meta_fits i job m \<longleftrightarrow> rm_id m = i \<and> (rm_type m = ''evolve'' \<longrightarrow> produced_vintage m = None) \<and>
     (case job of Fresh spec \<Rightarrow> rm_type m = run_type_of spec | Resumed _ \<Rightarrow> rm_type m = ''flow'')"

definition flow_artefacts :: "string list" where "flow_artefacts = [''train/result.json'', ''backtest/result.json'']"

definition honest :: "(string \<times> string \<Rightarrow> bytes option) \<Rightarrow> ('f, 'v) run_meta \<Rightarrow> bool" where
  "honest files m \<longleftrightarrow> rm_exit m = Some 0 \<and> rm_artifacts m = (if rm_type m = ''flow'' then flow_artefacts else [''result.json'']) \<and>
     (\<forall>a \<in> set (rm_artifacts m). files (rm_id m, a) \<noteq> None)"

definition stored_ok :: "(string \<times> string \<Rightarrow> bytes option) \<Rightarrow> string \<Rightarrow> ('f, 'v) run_meta \<Rightarrow> bool" where
  "stored_ok files i m \<longleftrightarrow> rm_id m = i \<and> (rm_type m = ''evolve'' \<longrightarrow> produced_vintage m = None) \<and>
     (rm_status m = Succeeded \<longrightarrow> honest files m)"

definition worker_ok :: "string \<Rightarrow> ('f, 'v) worker \<Rightarrow> bool" where
  "worker_ok i k \<longleftrightarrow> (let m = dr_meta (wk_state k) in rm_id m = i \<and> is_live (rm_status m) \<and>
     (rm_type m = ''evolve'' \<longrightarrow> produced_vintage m = None) \<and> (wk_evolve k \<longleftrightarrow> rm_type m = ''evolve''))"

fun phase_of :: "stage \<Rightarrow> phase option" where
  "phase_of (Reading ph) = Some ph"
| "phase_of (Joining ph _ _) = Some ph"
| "phase_of (Exiting ph _ _ _) = Some ph"
| "phase_of _ = None"

fun drains :: "stage \<Rightarrow> bool" where
  "drains (Reading _) = True"
| "drains (Joining _ _ _) = True"
| "drains _ = False"

fun phase_ok :: "(string \<times> string \<Rightarrow> bytes option) \<Rightarrow> string \<Rightarrow> bool \<Rightarrow> phase \<Rightarrow> bool" where
  "phase_ok files i flows Single = (\<not> flows)"
| "phase_ok files i flows (Flow_Train _) = flows"
| "phase_ok files i flows (Flow_Backtest _) = (flows \<and> files (i, ''train/result.json'') \<noteq> None)"

definition task_ok :: "(string \<times> string \<Rightarrow> bytes option) \<Rightarrow> string \<Rightarrow> ('f, 'v) task \<Rightarrow> bool" where
  "task_ok files i t \<longleftrightarrow>
     meta_fits i (tk_job t) (tk_meta t) \<and> (tk_stage t \<noteq> Ended \<longrightarrow> is_live (rm_status (tk_meta t))) \<and>
     (tk_stage t = Wait_Pool \<longrightarrow> \<not> tk_pool t \<and> \<not> tk_evolve t \<and> \<not> tk_flow t) \<and>
     (tk_stage t = Wait_Evolve \<longrightarrow> tk_pool t \<and> \<not> tk_evolve t \<and> \<not> tk_flow t \<and> job_evolves t) \<and>
     (tk_stage t = Wait_Flow \<longrightarrow> tk_pool t \<and> \<not> tk_evolve t \<and> \<not> tk_flow t \<and> job_flows t) \<and>
     (\<forall>ph. phase_of (tk_stage t) = Some ph \<longrightarrow>
        tk_pool t \<and> (job_evolves t \<longrightarrow> tk_evolve t) \<and> (job_flows t \<longrightarrow> tk_flow t) \<and> phase_ok files i (job_flows t) ph) \<and>
     (tk_worker t \<noteq> None \<longleftrightarrow> drains (tk_stage t)) \<and>
     (\<forall>k. tk_worker t = Some k \<longrightarrow> worker_ok i k \<and> rm_type (dr_meta (wk_state k)) = rm_type (tk_meta t))"

section \<open>One poll\<close>

text \<open>What a step of run i does to the store: only that run's record, and only to something sound.\<close>

definition writes_run :: "string \<Rightarrow> bool \<Rightarrow> ('f, 'v) run_store \<Rightarrow> ('f, 'v) run_store \<Rightarrow> bool" where
  "writes_run i ended st st' \<longleftrightarrow>
     rs_files st' = rs_files st \<and> rs_index st' = rs_index st \<and>
     (\<forall>j. j \<noteq> i \<longrightarrow> rs_meta st' j = rs_meta st j) \<and>
     (rs_meta st' i = rs_meta st i \<or> (\<exists>m. rs_meta st' i = Some m \<and> stored_ok (rs_files st) i m \<and> (ended \<or> is_live (rm_status m))))"

definition poll_ok :: "string \<Rightarrow> ('f, 'v) run_store \<Rightarrow> ('f, 'v) polled \<Rightarrow> bool" where
  "poll_ok i st p \<longleftrightarrow> writes_run i (tk_stage (fst p) = Ended) st (snd p) \<and> task_ok (rs_files st) i (fst p)"

lemma writes_refl [simp]: "writes_run i e st st"
  by (simp add: writes_run_def)

lemma writes_trans:
  "writes_run i False st st1 \<Longrightarrow> writes_run i e st1 st2 \<Longrightarrow> writes_run i e st st2"
  by (auto simp: writes_run_def)

lemma writes_weaken: "writes_run i False st st' \<Longrightarrow> writes_run i e st st'"
  by (auto simp: writes_run_def)

lemma writes_save:
  "stored_ok (rs_files st) i m \<Longrightarrow> e \<or> is_live (rm_status m) \<Longrightarrow> writes_run i e st (save_meta m st)"
  by (auto simp: writes_run_def stored_ok_def)

lemma live_statuses [simp]: "is_live Queued" "is_live Running" "\<not> is_live Succeeded" "\<not> is_live Failed"
  by (simp_all add: is_live_def)

lemma finish_failed_simps [simp]:
  "rm_id (finish_failed m e r n) = rm_id m" "rm_type (finish_failed m e r n) = rm_type m" "rm_status (finish_failed m e r n) = Failed"
  "rm_train (finish_failed m e r n) = rm_train m"
  by (simp_all add: finish_failed_def)

lemma stored_live:
  "rm_id m = i \<Longrightarrow> (rm_type m = ''evolve'' \<Longrightarrow> produced_vintage m = None) \<Longrightarrow> rm_status m \<noteq> Succeeded \<Longrightarrow> stored_ok files i m"
  by (auto simp: stored_ok_def)

lemma fits_stored: "meta_fits i job m \<Longrightarrow> rm_status m \<noteq> Succeeded \<Longrightarrow> stored_ok files i m"
  by (simp add: meta_fits_def stored_ok_def)

lemma fits_same:
  "meta_fits i job m \<Longrightarrow> rm_id m' = rm_id m \<Longrightarrow> rm_type m' = rm_type m \<Longrightarrow> rm_train m' = rm_train m \<Longrightarrow> meta_fits i job m'"
  by (simp add: meta_fits_def produced_vintage_def split: job.splits)

lemma fail_task_poll:
  "meta_fits i (tk_job t) m \<Longrightarrow> poll_ok i st (fail_task t m e r now st)"
  by (auto simp: poll_ok_def fail_task_def Let_def task_ok_def intro!: writes_save fits_stored elim: fits_same)

lemma types_apart [simp]:
  "job_evolves t \<Longrightarrow> \<not> job_flows t" "meta_fits i (tk_job t) m \<Longrightarrow> job_evolves t \<longleftrightarrow> rm_type m = ''evolve''"
  "meta_fits i (tk_job t) m \<Longrightarrow> job_flows t \<longleftrightarrow> rm_type m = ''flow''"
  by (auto simp: job_evolves_def job_flows_def meta_fits_def is_evolve_def is_flow_def split: job.splits run_spec.splits)

lemma begin_reading_ok:
  assumes "meta_fits i (tk_job t) m" "is_live (rm_status m)" "tk_pool t" "job_evolves t \<Longrightarrow> tk_evolve t" "job_flows t \<Longrightarrow> tk_flow t"
    "phase_ok files i (job_flows t) ph" "ev \<longleftrightarrow> job_evolves t"
  shows "task_ok files i (begin_reading t m ph ev)"
proof -
  have same: "job_evolves (begin_reading t m ph ev) = job_evolves t" "job_flows (begin_reading t m ph ev) = job_flows t"
    by (simp_all add: begin_reading_def job_evolves_def job_flows_def)
  have "worker_ok i \<lparr>wk_state = drain_start m, wk_evolve = ev, wk_queue = []\<rparr>"
    using assms(1,2,7) types_apart(2) [OF assms(1)] by (auto simp: worker_ok_def drain_start_def meta_fits_def)
  then show ?thesis using assms unfolding task_ok_def same by (simp add: begin_reading_def drain_start_def)
qed

lemma poll_after:
  "writes_run i False st st1 \<Longrightarrow> poll_ok i st1 p \<Longrightarrow> poll_ok i st p"
proof -
  assume a: "writes_run i False st st1" "poll_ok i st1 p"
  then have "rs_files st1 = rs_files st" by (simp add: writes_run_def)
  with a show ?thesis by (auto simp: poll_ok_def intro: writes_trans)
qed

lemma poll_reading:
  "task_ok (rs_files st) i (begin_reading t m ph ev) \<Longrightarrow> poll_ok i st (begin_reading t m ph ev, st)"
  by (simp add: poll_ok_def)

definition ready :: "string \<Rightarrow> ('f, 'v) task \<Rightarrow> bool" where
  "ready i t \<longleftrightarrow> tk_pool t \<and> (job_evolves t \<longrightarrow> tk_evolve t) \<and> (job_flows t \<longrightarrow> tk_flow t)"

lemma start_flow_poll:
  assumes "meta_fits i (tk_job t) m" "rm_status m = Running" "ready i t" "job_flows t"
  shows "poll_ok i st (start_flow t m w now st)"
proof (cases "io_dir w")
  case (Inl e)
  then show ?thesis by (simp add: start_flow_def fail_task_poll assms(1))
next
  case (Inr u)
  define flow where "flow = default_flow_progress\<lparr>flw_train_run := Some ''train''\<rparr>"
  define m1 where "m1 = m\<lparr>rm_flow := Some flow, rm_progress := coarse 5 ''flow-train'' ''flow: training over the frozen holdout''\<rparr>"
  have m1: "meta_fits i (tk_job t) m1" "rm_status m1 = Running"
    unfolding m1_def by (rule fits_same [OF assms(1)], simp_all add: assms(2))
  have w1: "writes_run i False st (save_meta m1 st)" using m1 by (intro writes_save fits_stored) auto
  have "poll_ok i (save_meta m1 st) (case io_spawn w of
          Inl e \<Rightarrow> fail_task t m1 None (''failed to spawn flow train: '' @ e) now (save_meta m1 st)
        | Inr _ \<Rightarrow> (begin_reading t m1 (Flow_Train flow) False, save_meta m1 st))"
    using m1 assms by (auto split: sum.split simp: ready_def intro!: fail_task_poll poll_reading begin_reading_ok)
  from poll_after [OF w1 this] show ?thesis unfolding start_flow_def Inr sum.case Let_def flow_def [symmetric] m1_def [symmetric] .
qed

lemma start_run_poll:
  assumes "task_ok (rs_files st) i t0" "tk_meta t = tk_meta t0" "tk_job t = Fresh spec" "tk_job t0 = Fresh spec" "ready i t"
  shows "poll_ok i st (start_run t spec w now st)"
proof -
  define m where "m = (tk_meta t)\<lparr>rm_status := Running, rm_started_ms := Some now\<rparr>"
  have fits: "meta_fits i (tk_job t) (tk_meta t)" using assms by (simp add: task_ok_def)
  have m: "meta_fits i (tk_job t) m" "rm_status m = Running" unfolding m_def by (rule fits_same [OF fits], simp_all)
  have w1: "writes_run i False st (save_meta m st)" using m by (intro writes_save fits_stored) auto
  have flows: "job_flows t = is_flow spec" "job_evolves t = is_evolve spec" by (simp_all add: job_flows_def job_evolves_def assms)
  have "poll_ok i (save_meta m st) (if is_flow spec then start_flow t m w now (save_meta m st)
      else case io_spawn w of Inl e \<Rightarrow> fail_task t m None (''failed to spawn job: '' @ e) now (save_meta m st)
         | Inr _ \<Rightarrow> (begin_reading t m Single (is_evolve spec), save_meta m st))"
    using m assms(5) flows
    by (auto split: sum.split simp: ready_def intro!: start_flow_poll fail_task_poll poll_reading begin_reading_ok)
  from poll_after [OF w1 this] show ?thesis unfolding start_run_def Let_def m_def [symmetric] .
qed

lemma handoff_needs_result: "read_train_handoff E st i = Some h \<Longrightarrow> rs_files st (i, ''train/result.json'') \<noteq> None"
  by (auto simp: read_train_handoff_def bind_eq_Some_conv)

lemma flow_backtest_poll:
  assumes "meta_fits i (tk_job t) m" "is_live (rm_status m)" "ready i t" "job_flows t"
  shows "poll_ok i st (flow_backtest_phase E t m flow v w now st)"
proof -
  have mid: "rm_id m = i" using assms(1) by (simp add: meta_fits_def)
  show ?thesis
  proof (cases "read_train_handoff E st (rm_id m)")
    case None
    then show ?thesis by (simp add: flow_backtest_phase_def fail_task_poll assms(1))
  next
    case (Some h)
    define flow1 where "flow1 = flow\<lparr>flw_holdout_start := Some (th_holdout_start h), flw_holdout_end := Some (th_holdout_end h),
      flw_backtest_run := Some ''backtest''\<rparr>"
    define m1 where "m1 = m\<lparr>rm_flow := Some flow1, rm_progress := coarse 90 ''flow-backtest''
      (''flow: backtesting sealed vintage on the holdout ('' @ flow_single_consultation_note @ '')'')\<rparr>"
    have m1: "meta_fits i (tk_job t) m1" "is_live (rm_status m1)"
      unfolding m1_def by (rule fits_same [OF assms(1)], simp_all add: assms(2))
    have w1: "writes_run i False st (save_meta m1 st)" using m1 by (intro writes_save fits_stored) (auto simp: is_live_def)
    have train: "rs_files st (i, ''train/result.json'') \<noteq> None" using handoff_needs_result [OF Some] mid by simp
    have "poll_ok i (save_meta m1 st) (case io_spawn w of
          Inl e \<Rightarrow> fail_task t m1 (rm_exit m1) (''failed to spawn flow backtest: '' @ e) now (save_meta m1 st)
        | Inr _ \<Rightarrow> (begin_reading t m1 (Flow_Backtest flow1) False, save_meta m1 st))"
      using m1 assms train by (auto split: sum.split simp: ready_def intro!: fail_task_poll poll_reading begin_reading_ok)
    note spawn = poll_after [OF w1 this]
    show ?thesis unfolding flow_backtest_phase_def Some option.case Let_def flow1_def [symmetric] m1_def [symmetric]
      using spawn assms(1) by (cases "io_dir w") (simp_all add: fail_task_poll)
  qed
qed

lemma resume_flow_poll:
  assumes "task_ok (rs_files st) i t0" "tk_meta t = tk_meta t0" "tk_job t = Resumed v" "tk_job t0 = Resumed v" "ready i t"
  shows "poll_ok i st (resume_flow E t v w now st)"
proof -
  define m where "m = (tk_meta t)\<lparr>rm_status := Running, rm_progress := coarse 88 ''flow-resume''
    ''flow: resuming backtest from the sealed-vintage checkpoint''\<rparr>"
  have fits: "meta_fits i (tk_job t) (tk_meta t)" using assms by (simp add: task_ok_def)
  have m: "meta_fits i (tk_job t) m" "rm_status m = Running" unfolding m_def by (rule fits_same [OF fits], simp_all)
  have w1: "writes_run i False st (save_meta m st)" using m by (intro writes_save fits_stored) auto
  have "job_flows t" by (simp add: job_flows_def assms(3))
  with m assms(5) have "poll_ok i (save_meta m st) (flow_backtest_phase E t m flow v w now (save_meta m st))" for flow
    by (intro flow_backtest_poll) auto
  from poll_after [OF w1 this] show ?thesis unfolding resume_flow_def Let_def m_def [symmetric] .
qed

section \<open>When the job has exited\<close>

lemma success_poll:
  assumes "meta_fits i (tk_job t) m" "honest (rs_files st) m"
  shows "poll_ok i st (t\<lparr>tk_meta := m, tk_stage := Ended, tk_worker := None\<rparr>, save_meta m st)"
proof -
  have "stored_ok (rs_files st) i m" using assms by (simp add: stored_ok_def meta_fits_def)
  then show ?thesis using assms(1) by (simp add: poll_ok_def task_ok_def writes_save)
qed

lemma single_exit_poll:
  assumes "meta_fits i (tk_job t) (tk_meta t)" "\<not> job_flows t"
  shows "poll_ok i st (single_exit t err deadline done' code now st)"
proof -
  define m where "m = (tk_meta t)\<lparr>rm_exit := code, rm_finished_ms := Some now\<rparr>"
  define m1 where "m1 = m\<lparr>rm_status := Succeeded, rm_error := None, rm_artifacts := [''result.json''],
    rm_progress := success_progress (tk_job t) (rm_progress m)\<rparr>"
  have m: "meta_fits i (tk_job t) m" unfolding m_def by (rule fits_same [OF assms(1)]) simp_all
  have m1: "meta_fits i (tk_job t) m1" unfolding m1_def by (rule fits_same [OF m]) simp_all
  have "rm_type m1 \<noteq> ''flow''" using types_apart(3) [OF m1] assms(2) by simp
  moreover have "rm_id m1 = rm_id m" "rm_exit m1 = code" "rm_artifacts m1 = [''result.json'']" by (simp_all add: m1_def m_def)
  ultimately have "honest (rs_files st) m1" if "code = Some 0" "result_exists st (rm_id m) ''result.json''"
    using that by (simp add: honest_def result_exists_def)
  note done_ok = success_poll [OF m1 this]
  show ?thesis unfolding single_exit_def Let_def m_def [symmetric] m1_def [symmetric]
    using done_ok fail_task_poll [OF m] by simp
qed

lemma train_exit_poll:
  assumes "meta_fits i (tk_job t) (tk_meta t)" "is_live (rm_status (tk_meta t))" "ready i t" "job_flows t"
  shows "poll_ok i st (train_exit E t flow err deadline done' code w now st)"
  unfolding train_exit_def Let_def using fail_task_poll [OF assms(1)] flow_backtest_poll [OF assms] by simp

lemma backtest_exit_poll:
  assumes "meta_fits i (tk_job t) (tk_meta t)" "job_flows t" "rs_files st (i, ''train/result.json'') \<noteq> None"
  shows "poll_ok i st (backtest_exit t flow err deadline done' code now st)"
proof -
  define m1 where "m1 = (tk_meta t)\<lparr>rm_status := Succeeded, rm_error := None, rm_exit := Some 0, rm_finished_ms := Some now,
    rm_artifacts := [''train/result.json'', ''backtest/result.json''],
    rm_progress := coarse 100 ''done'' ''flow complete: train sealed + holdout backtest'', rm_flow := Some flow\<rparr>"
  have m1: "meta_fits i (tk_job t) m1" unfolding m1_def by (rule fits_same [OF assms(1)]) simp_all
  have "rm_type m1 = ''flow''" using types_apart(3) [OF m1] assms(2) by simp
  moreover have "rm_id m1 = i" using m1 by (simp add: meta_fits_def)
  moreover have "rm_exit m1 = Some 0" "rm_artifacts m1 = flow_artefacts" by (simp_all add: m1_def flow_artefacts_def)
  moreover have "rm_id (tk_meta t) = i" using assms(1) by (simp add: meta_fits_def)
  ultimately have "honest (rs_files st) m1" if "result_exists st (rm_id (tk_meta t)) ''backtest/result.json''"
    using that assms(3) by (simp add: honest_def result_exists_def flow_artefacts_def)
  note done_ok = success_poll [OF m1 this]
  show ?thesis unfolding backtest_exit_def Let_def m1_def [symmetric] using done_ok fail_task_poll [OF assms(1)] by simp
qed

lemma job_exited_poll:
  assumes "task_ok (rs_files st) i t" "tk_stage t = Exiting ph err deadline done'"
  shows "poll_ok i st (job_exited E t ph err deadline done' code w now st)"
proof -
  have "meta_fits i (tk_job t) (tk_meta t)" "is_live (rm_status (tk_meta t))" "ready i t" "phase_ok (rs_files st) i (job_flows t) ph"
    using assms by (simp_all add: task_ok_def ready_def)
  then show ?thesis
    by (cases ph) (auto simp: job_exited_def intro: single_exit_poll train_exit_poll backtest_exit_poll)
qed

section \<open>Draining\<close>

lemma evolve_line_keeps [simp]: "produced_vintage (apply_line True l m) = produced_vintage m"
  using evolve_keeps_vintage [of "[l]" m] by simp

definition worker_keeps :: "('f, 'v) worker \<Rightarrow> ('f, 'v) worker \<Rightarrow> bool" where
  "worker_keeps k k' \<longleftrightarrow> rm_type (dr_meta (wk_state k')) = rm_type (dr_meta (wk_state k))"

definition after_line :: "(string \<Rightarrow> 'f progress_line option) \<Rightarrow> bool \<Rightarrow> string \<Rightarrow> ('f, 'v) drain_state \<Rightarrow> ('f, 'v) drain_state" where
  "after_line parse ev line d = (case parse line of None \<Rightarrow> d
     | Some l \<Rightarrow> d\<lparr>dr_meta := apply_line ev l (dr_meta d), dr_done := dr_done d \<or> is_done l, dr_pending := dr_pending d \<or> bears_progress l\<rparr>)"

lemma drain_line_outcome:
  "drain_line parse ev (line, el) (d, st) =
     (if (case parse line of Some l \<Rightarrow> is_done l | None \<Rightarrow> False) \<or> (dr_pending (after_line parse ev line d) \<and>
          (dr_last_stage (after_line parse ev line d) \<noteq> Some (pr_stage (rm_progress (dr_meta (after_line parse ev line d)))) \<or> el))
      then flush (after_line parse ev line d) (append_log (rm_id (dr_meta d)) line st)
      else (after_line parse ev line d, append_log (rm_id (dr_meta d)) line st))"
  unfolding drain_line_def Let_def fst_conv snd_conv after_line_def [symmetric] by auto

lemma drain_one_ok:
  assumes "worker_ok i k" "drain_one E elapsed k st = Some (k', st')"
  shows "worker_ok i k' \<and> worker_keeps k k' \<and> writes_run i False st st'"
proof -
  obtain line rest where q: "wk_queue k = line # rest" using assms(2) by (cases "wk_queue k") (auto simp: drain_one_def)
  define ev where "ev = wk_evolve k"
  define d where "d = wk_state k"
  define d1 where "d1 = after_line (re_line E) ev line d"
  define st1 where "st1 = append_log (rm_id (dr_meta d)) line st"
  have d: "rm_id (dr_meta d) = i" "is_live (rm_status (dr_meta d))" "ev \<longleftrightarrow> rm_type (dr_meta d) = ''evolve''"
    "ev \<Longrightarrow> produced_vintage (dr_meta d) = None"
    using assms(1) by (auto simp: worker_ok_def Let_def d_def ev_def)
  have d1: "rm_id (dr_meta d1) = i" "rm_status (dr_meta d1) = rm_status (dr_meta d)" "rm_type (dr_meta d1) = rm_type (dr_meta d)"
    "ev \<Longrightarrow> produced_vintage (dr_meta d1) = None"
    using d by (auto simp: d1_def after_line_def split: option.split)
  have w0: "writes_run i False st st1" by (simp add: st1_def writes_run_def)
  have stored: "stored_ok (rs_files st1) i (dr_meta d1)" using d d1 by (auto simp: stored_ok_def)
  have w1: "writes_run i False st1 (save_meta (dr_meta d1) st1)" using stored d d1 by (intro writes_save) auto
  have out: "(wk_state k', st') = flush d1 st1 \<or> (wk_state k', st') = (d1, st1)" and same: "wk_evolve k' = ev"
    using assms(2) q by (auto simp: drain_one_def drain_line_outcome d1_def d_def ev_def st1_def split: prod.splits if_splits)
  have meta: "dr_meta (wk_state k') = dr_meta d1" using out by (auto simp: flush_def)
  have "writes_run i False st st'" using out w0 writes_trans [OF w0 w1] by (auto simp: flush_def)
  then show ?thesis using d d1 same by (simp add: worker_ok_def worker_keeps_def meta flip: d_def)
qed

lemma drain_end_ok: "worker_ok i k \<Longrightarrow> writes_run i False st (drain_end (wk_state k) st)"
  by (auto simp: drain_end_def worker_ok_def Let_def stored_ok_def intro!: writes_save)

lemma joined_poll:
  assumes "task_ok (rs_files st) i t" "tk_stage t = Joining ph err deadline" "tk_worker t = Some k"
  shows "poll_ok i st (joined t ph err deadline k st)"
proof -
  have k: "worker_ok i k" "rm_type (dr_meta (wk_state k)) = rm_type (tk_meta t)" using assms by (auto simp: task_ok_def)
  have fits: "meta_fits i (tk_job t) (dr_meta (wk_state k))" using assms k
    by (simp add: task_ok_def meta_fits_def worker_ok_def Let_def split: job.splits)
  have "task_ok (rs_files st) i (fst (joined t ph err deadline k st))" using assms fits k
    by (auto simp: task_ok_def joined_def worker_ok_def Let_def job_evolves_def job_flows_def)
  then show ?thesis using drain_end_ok [OF k(1)] by (simp add: poll_ok_def joined_def)
qed
end
