(* ===== verification/Run_Invariant.thy ===== *)
theory Run_Invariant imports Run_Facts begin

text \<open>The invariant of the run manager, and that every step keeps it.\<close>

section \<open>The invariant\<close>

definition stores_ok :: "('f, 'v) run_store \<Rightarrow> bool" where
  "stores_ok st \<longleftrightarrow> (\<forall>i m. rs_meta st i = Some m \<longrightarrow> stored_ok (rs_files st) i m)"

definition known :: "('f, 'v) run_store \<Rightarrow> string \<Rightarrow> bool" where
  "known st i \<longleftrightarrow> rs_meta st i \<noteq> None"

definition stored_final :: "('f, 'v) run_store \<Rightarrow> string \<Rightarrow> bool" where
  "stored_final st i \<longleftrightarrow> (\<exists>m. rs_meta st i = Some m \<and> \<not> is_live (rm_status m))"

definition orphan_id :: "('f, 'v) worker \<Rightarrow> string" where
  "orphan_id k = rm_id (dr_meta (wk_state k))"

definition mg_ok :: "('f, 'v) manager \<Rightarrow> bool" where
  "mg_ok mg \<longleftrightarrow>
     (let st = mg_store mg; files = rs_files st in
        stores_ok st \<and>
        (\<forall>i t. mg_tasks mg i = Some t \<longrightarrow> task_ok files i t \<and> known st i) \<and>
        (\<forall>k \<in> set (mg_orphans mg). worker_ok (orphan_id k) k \<and> known st (orphan_id k)) \<and>
        (\<forall>i m spec b. mg_creating mg i = Some (m, spec, b) \<longrightarrow> meta_fits i (Fresh spec) m \<and> rm_status m = Queued \<and> known st i \<and>
            mg_tasks mg i = None \<and> i \<notin> mg_registry mg \<and> i \<notin> mg_draining mg) \<and>
        (\<forall>i. i \<in> mg_registry mg \<or> i \<in> mg_draining mg \<longrightarrow> known st i) \<and>
        (\<forall>i. stored_final st i \<longrightarrow> mg_creating mg i = None \<and> (\<forall>t. mg_tasks mg i = Some t \<longrightarrow> tk_stage t = Ended)))"

lemma mg_okD:
  assumes "mg_ok mg"
  shows "stores_ok (mg_store mg)"
    and "mg_tasks mg i = Some t \<Longrightarrow> task_ok (rs_files (mg_store mg)) i t"
    and "mg_tasks mg i = Some t \<Longrightarrow> known (mg_store mg) i"
    and "mg_tasks mg i = Some t \<Longrightarrow> mg_creating mg i = None"
    and "k \<in> set (mg_orphans mg) \<Longrightarrow> worker_ok (orphan_id k) k"
    and "k \<in> set (mg_orphans mg) \<Longrightarrow> known (mg_store mg) (orphan_id k)"
    and "mg_creating mg i = Some (m, spec, b) \<Longrightarrow>
      meta_fits i (Fresh spec) m \<and> rm_status m = Queued \<and> known (mg_store mg) i \<and> mg_tasks mg i = None \<and> i \<notin> mg_registry mg \<and> i \<notin> mg_draining mg"
    and "i \<in> mg_registry mg \<or> i \<in> mg_draining mg \<Longrightarrow> known (mg_store mg) i \<and> mg_creating mg i = None"
    and "stored_final (mg_store mg) i \<Longrightarrow> mg_creating mg i = None"
    and "stored_final (mg_store mg) i \<Longrightarrow> mg_tasks mg i = Some t \<Longrightarrow> tk_stage t = Ended"
  using assms unfolding mg_ok_def Let_def
  by (blast, blast, blast, metis option.exhaust option.distinct(1) surj_pair, blast, blast, blast, metis option.exhaust surj_pair, blast, blast)

lemma mg_okI:
  assumes "stores_ok (mg_store mg)"
    and "\<And>i t. mg_tasks mg i = Some t \<Longrightarrow> task_ok (rs_files (mg_store mg)) i t \<and> known (mg_store mg) i"
    and "\<And>k. k \<in> set (mg_orphans mg) \<Longrightarrow> worker_ok (orphan_id k) k \<and> known (mg_store mg) (orphan_id k)"
    and "\<And>i m spec b. mg_creating mg i = Some (m, spec, b) \<Longrightarrow>
      meta_fits i (Fresh spec) m \<and> rm_status m = Queued \<and> known (mg_store mg) i \<and> mg_tasks mg i = None \<and> i \<notin> mg_registry mg \<and> i \<notin> mg_draining mg"
    and "\<And>i. i \<in> mg_registry mg \<or> i \<in> mg_draining mg \<Longrightarrow> known (mg_store mg) i"
    and "\<And>i. stored_final (mg_store mg) i \<Longrightarrow> mg_creating mg i = None \<and> (\<forall>t. mg_tasks mg i = Some t \<longrightarrow> tk_stage t = Ended)"
  shows "mg_ok mg"
  unfolding mg_ok_def Let_def using assms by blast

lemma writes_stores: "writes_run i e st st' \<Longrightarrow> stores_ok st \<Longrightarrow> stores_ok st'"
  unfolding writes_run_def stores_ok_def by (metis option.inject)

lemma writes_known: "writes_run i e st st' \<Longrightarrow> known st j \<Longrightarrow> known st' j"
  unfolding writes_run_def known_def by (metis option.distinct(1))

lemma writes_final: "writes_run i e st st' \<Longrightarrow> stored_final st' j \<Longrightarrow> stored_final st j \<or> (j = i \<and> e)"
  unfolding writes_run_def stored_final_def by (metis option.inject)

lemma writes_files: "writes_run i e st st' \<Longrightarrow> rs_files st' = rs_files st"
  by (simp add: writes_run_def)

lemma run_updates:
  "mg_store (mg\<lparr>mg_store := st\<rparr>) = st" "mg_tasks (mg\<lparr>mg_store := st\<rparr>) = mg_tasks mg" "mg_orphans (mg\<lparr>mg_store := st\<rparr>) = mg_orphans mg"
  "mg_creating (mg\<lparr>mg_store := st\<rparr>) = mg_creating mg" "mg_registry (mg\<lparr>mg_store := st\<rparr>) = mg_registry mg"
  "mg_draining (mg\<lparr>mg_store := st\<rparr>) = mg_draining mg"
  "mg_tasks (mg\<lparr>mg_tasks := f\<rparr>) = f" "mg_store (mg\<lparr>mg_tasks := f\<rparr>) = mg_store mg" "mg_orphans (mg\<lparr>mg_tasks := f\<rparr>) = mg_orphans mg"
  "mg_creating (mg\<lparr>mg_tasks := f\<rparr>) = mg_creating mg" "mg_registry (mg\<lparr>mg_tasks := f\<rparr>) = mg_registry mg"
  "mg_draining (mg\<lparr>mg_tasks := f\<rparr>) = mg_draining mg"
  by simp_all

text \<open>A write of run i, with no supervisor left when it is the run's last.\<close>

lemma store_write_ok:
  assumes ok: "mg_ok mg" and w: "writes_run i e (mg_store mg) st'"
    and last: "e \<Longrightarrow> mg_creating mg i = None \<and> (\<forall>t. mg_tasks mg i = Some t \<longrightarrow> tk_stage t = Ended)"
  shows "mg_ok (mg\<lparr>mg_store := st'\<rparr>)"
proof -
  note D = mg_okD [OF ok] and K = writes_known [OF w] and F = writes_final [OF w]
  have final: "mg_creating mg j = None \<and> (\<forall>t. mg_tasks mg j = Some t \<longrightarrow> tk_stage t = Ended)" if "stored_final st' j" for j
    using F [OF that] D(9) [of j] D(10) [of j] last by auto
  have creating: "meta_fits j (Fresh spec) m \<and> rm_status m = Queued \<and> known st' j \<and> mg_tasks mg j = None \<and> j \<notin> mg_registry mg \<and> j \<notin> mg_draining mg"
    if "mg_creating mg j = Some (m, spec, b)" for j m spec b
    using D(7) [OF that] K by blast
  have stores: "stores_ok st'" by (rule writes_stores [OF w D(1)])
  have orphans: "worker_ok (orphan_id k) k \<and> known st' (orphan_id k)" if "k \<in> set (mg_orphans mg)" for k
    using D(5,6) [OF that] K by simp
  have tracked: "known st' j" if "j \<in> mg_registry mg \<or> j \<in> mg_draining mg" for j using D(8) [OF that] K by simp
  have tasks: "task_ok (rs_files (mg_store mg)) j t \<and> known st' j" if "mg_tasks mg j = Some t" for j t
    using D(2,3) [OF that] K by simp
  show ?thesis
    by (rule mg_okI, unfold run_updates writes_files [OF w]) (fact stores tasks orphans creating tracked final)+
qed

lemma task_write_ok:
  assumes ok: "mg_ok mg" and t: "mg_tasks mg i = Some t0" and w: "writes_run i e (mg_store mg) st'"
    and x: "\<And>t. x = Some t \<Longrightarrow> task_ok (rs_files (mg_store mg)) i t \<and> (e \<longrightarrow> tk_stage t = Ended) \<and> (tk_stage t0 = Ended \<longrightarrow> tk_stage t = Ended)"
  shows "mg_ok (mg\<lparr>mg_store := st', mg_tasks := (mg_tasks mg)(i := x)\<rparr>)"
proof -
  note D = mg_okD [OF ok] and K = writes_known [OF w] and F = writes_final [OF w]
  have final: "mg_creating mg j = None \<and> (\<forall>t. ((mg_tasks mg)(i := x)) j = Some t \<longrightarrow> tk_stage t = Ended)" if "stored_final st' j" for j
    using F [OF that] D(4) [OF t] D(9) [of j] D(10) [of j] t x by (cases "j = i") auto
  have creating: "meta_fits j (Fresh spec) m \<and> rm_status m = Queued \<and> known st' j \<and> ((mg_tasks mg)(i := x)) j = None \<and>
      j \<notin> mg_registry mg \<and> j \<notin> mg_draining mg"
    if "mg_creating mg j = Some (m, spec, b)" for j m spec b
    using D(7) [OF that] K [of j] D(4) [OF t] that by (cases "j = i") simp_all
  have tasks: "task_ok (rs_files (mg_store mg)) j t \<and> known st' j" if "((mg_tasks mg)(i := x)) j = Some t" for j t
    using that x [of t] D(2,3) [of j t] K [of j] D(3) [OF t] by (cases "j = i") auto
  have stores: "stores_ok st'" by (rule writes_stores [OF w D(1)])
  have orphans: "worker_ok (orphan_id k) k \<and> known st' (orphan_id k)" if "k \<in> set (mg_orphans mg)" for k
    using D(5,6) [OF that] K by simp
  have tracked: "known st' j" if "j \<in> mg_registry mg \<or> j \<in> mg_draining mg" for j using D(8) [OF that] K by simp
  show ?thesis
    by (rule mg_okI, unfold run_updates writes_files [OF w]) (fact stores tasks orphans creating tracked final)+
qed

lemma mg_ok_lanes [simp]:
  "mg_ok (mg\<lparr>mg_pool_free := a\<rparr>) = mg_ok mg" "mg_ok (mg\<lparr>mg_evolve_free := a\<rparr>) = mg_ok mg" "mg_ok (mg\<lparr>mg_flow_free := a\<rparr>) = mg_ok mg"
  "mg_ok (mg\<lparr>mg_accepting := b\<rparr>) = mg_ok mg" "mg_ok (mg\<lparr>mg_pool_closed := b\<rparr>) = mg_ok mg"
  by (simp_all add: mg_ok_def)

lemma release_simps [simp]:
  "mg_ok (release t mg) = mg_ok mg" "mg_store (release t mg) = mg_store mg" "mg_tasks (release t mg) = mg_tasks mg"
  "(release t mg)\<lparr>mg_tasks := f\<rparr> = release t (mg\<lparr>mg_tasks := f\<rparr>)"
  by (simp_all add: release_def)

lemma ended_task_ok:
  "task_ok files i t \<Longrightarrow> tk_stage t = Ended \<Longrightarrow> task_ok files i (drop_permits t)"
  by (simp add: task_ok_def drop_permits_def)

lemma settle_ok:
  assumes ok: "mg_ok mg" and t: "mg_tasks mg i = Some t0" "tk_stage t0 \<noteq> Ended" and p: "poll_ok i (mg_store mg) p"
  shows "mg_ok (settle i p mg)"
proof -
  have w: "writes_run i (tk_stage (fst p) = Ended) (mg_store mg) (snd p)" and fits: "task_ok (rs_files (mg_store mg)) i (fst p)"
    using p by (simp_all add: poll_ok_def)
  show ?thesis
  proof (cases "tk_stage (fst p) = Ended")
    case True
    have "mg_ok (mg\<lparr>mg_store := snd p, mg_tasks := (mg_tasks mg)(i := Some (drop_permits (fst p)))\<rparr>)"
      by (rule task_write_ok [OF ok t(1) w]) (use True t(2) ended_task_ok [OF fits] in \<open>auto simp: drop_permits_def\<close>)
    then show ?thesis using True by (simp add: settle_def Let_def)
  next
    case False
    have "mg_ok (mg\<lparr>mg_store := snd p, mg_tasks := (mg_tasks mg)(i := Some (fst p))\<rparr>)"
      by (rule task_write_ok [OF ok t(1) w]) (use False t(2) fits in auto)
    then show ?thesis using False by (simp add: settle_def Let_def)
  qed
qed

section \<open>Steps of a supervisor\<close>

lemma begin_job_poll:
  assumes "task_ok (rs_files st) i t0" "tk_meta t = tk_meta t0" "tk_job t = tk_job t0" "ready i t"
  shows "poll_ok i st (begin_job E t now w st)"
proof (cases "tk_job t0")
  case (Fresh spec)
  show ?thesis using start_run_poll [OF assms(1,2) _ Fresh assms(4)] assms(3) Fresh by (simp add: begin_job_def)
next
  case (Resumed v)
  show ?thesis using resume_flow_poll [OF assms(1,2) _ Resumed assms(4)] assms(3) Resumed by (simp add: begin_job_def)
qed

lemma ready_lanes [simp]:
  "job_evolves (t\<lparr>tk_pool := b\<rparr>) = job_evolves t" "job_flows (t\<lparr>tk_pool := b\<rparr>) = job_flows t"
  "job_evolves (t\<lparr>tk_evolve := b\<rparr>) = job_evolves t" "job_flows (t\<lparr>tk_evolve := b\<rparr>) = job_flows t"
  "job_evolves (t\<lparr>tk_flow := b\<rparr>) = job_evolves t" "job_flows (t\<lparr>tk_flow := b\<rparr>) = job_flows t"
  "job_evolves (t\<lparr>tk_stage := s\<rparr>) = job_evolves t" "job_flows (t\<lparr>tk_stage := s\<rparr>) = job_flows t"
  "job_evolves (t\<lparr>tk_worker := k\<rparr>) = job_evolves t" "job_flows (t\<lparr>tk_worker := k\<rparr>) = job_flows t"
  by (simp_all add: job_evolves_def job_flows_def)

text \<open>A task step polls its supervisor, with a permit taken first when it waited for one.\<close>

definition apart_from_lanes :: "('f, 'v) manager \<Rightarrow> ('f, 'v) manager \<Rightarrow> bool" where
  "apart_from_lanes mg mg1 \<longleftrightarrow> (\<exists>a b c. mg1 = mg\<lparr>mg_pool_free := a, mg_evolve_free := b, mg_flow_free := c\<rparr>)"

lemma apart_lanes [simp]:
  "apart_from_lanes mg mg" "apart_from_lanes mg (mg\<lparr>mg_pool_free := x\<rparr>)" "apart_from_lanes mg (mg\<lparr>mg_evolve_free := x\<rparr>)"
  "apart_from_lanes mg (mg\<lparr>mg_flow_free := x\<rparr>)"
proof -
  have "\<exists>a b c. mg = mg\<lparr>mg_pool_free := a, mg_evolve_free := b, mg_flow_free := c\<rparr>"
    by (rule exI [of _ "mg_pool_free mg"], rule exI [of _ "mg_evolve_free mg"], rule exI [of _ "mg_flow_free mg"]) simp
  then show "apart_from_lanes mg mg" by (simp add: apart_from_lanes_def)
  show "apart_from_lanes mg (mg\<lparr>mg_pool_free := x\<rparr>)" unfolding apart_from_lanes_def
    by (rule exI [of _ x], rule exI [of _ "mg_evolve_free mg"], rule exI [of _ "mg_flow_free mg"]) simp
  show "apart_from_lanes mg (mg\<lparr>mg_evolve_free := x\<rparr>)" unfolding apart_from_lanes_def
    by (rule exI [of _ "mg_pool_free mg"], rule exI [of _ x], rule exI [of _ "mg_flow_free mg"]) simp
  show "apart_from_lanes mg (mg\<lparr>mg_flow_free := x\<rparr>)" unfolding apart_from_lanes_def
    by (rule exI [of _ "mg_pool_free mg"], rule exI [of _ "mg_evolve_free mg"], rule exI [of _ x]) simp
qed

lemma get_pool_poll:
  assumes t_ok: "task_ok (rs_files (mg_store mg)) i t" and t: "tk_stage t = Wait_Pool" and run: "get_pool E i t now w mg = Some mg'"
  shows "\<exists>p mg1. mg' = settle i p mg1 \<and> apart_from_lanes mg mg1 \<and> poll_ok i (mg_store mg) p"
proof -
  let ?mg = "mg\<lparr>mg_pool_free := mg_pool_free mg - 1\<rparr>"
  have fits: "meta_fits i (tk_job t) (tk_meta t)" using t_ok by (simp add: task_ok_def)
  have fail: "poll_ok i (mg_store mg) (fail_task t (tk_meta t) e r now (mg_store mg))" for e r by (rule fail_task_poll [OF fits])
  have evolve: "poll_ok i (mg_store mg) (t\<lparr>tk_pool := True, tk_stage := Wait_Evolve\<rparr>, mg_store mg)" if "job_evolves t"
    using t_ok t that by (simp add: poll_ok_def task_ok_def)
  have flow: "poll_ok i (mg_store mg) (t\<lparr>tk_pool := True, tk_stage := Wait_Flow\<rparr>, mg_store mg)" if "job_flows t"
    using t_ok t that by (simp add: poll_ok_def task_ok_def)
  have job: "poll_ok i (mg_store mg) (begin_job E (t\<lparr>tk_pool := True\<rparr>) now w (mg_store mg))" if "\<not> job_evolves t" "\<not> job_flows t"
    by (rule begin_job_poll [OF t_ok]) (use that in \<open>simp_all add: ready_def\<close>)
  show ?thesis
  proof (cases "mg_pool_closed mg")
    case True
    then show ?thesis using run fail apart_lanes(1) unfolding get_pool_def by (metis option.inject)
  next
    case False
    then have "mg_pool_free mg \<noteq> 0" using run by (cases "mg_pool_free mg = 0") (simp_all add: get_pool_def)
    then show ?thesis using run evolve flow job apart_lanes(2) [of mg "mg_pool_free mg - 1"] False unfolding get_pool_def Let_def
      by (simp only: if_False if_True) (metis option.inject)
  qed
qed

lemma get_lane_poll:
  assumes t_ok: "task_ok (rs_files (mg_store mg)) i t"
    and run: "(tk_stage t = Wait_Evolve \<and> get_evolve E i t now w mg = Some mg') \<or> (tk_stage t = Wait_Flow \<and> get_flow E i t now w mg = Some mg')"
  shows "\<exists>p mg1. mg' = settle i p mg1 \<and> apart_from_lanes mg mg1 \<and> poll_ok i (mg_store mg) p"
proof -
  have ready: "tk_stage t = Wait_Evolve \<Longrightarrow> ready i (t\<lparr>tk_evolve := True\<rparr>)" "tk_stage t = Wait_Flow \<Longrightarrow> ready i (t\<lparr>tk_flow := True\<rparr>)"
    using t_ok by (auto simp: task_ok_def ready_def dest: types_apart(1))
  then have "tk_stage t = Wait_Evolve \<Longrightarrow> poll_ok i (mg_store mg) (begin_job E (t\<lparr>tk_evolve := True\<rparr>) now w (mg_store mg))"
    "tk_stage t = Wait_Flow \<Longrightarrow> poll_ok i (mg_store mg) (begin_job E (t\<lparr>tk_flow := True\<rparr>) now w (mg_store mg))"
    by (simp_all add: begin_job_poll [OF t_ok])
  with run show ?thesis using apart_lanes(3) [of mg "mg_evolve_free mg - 1"] apart_lanes(4) [of mg "mg_flow_free mg - 1"]
    unfolding get_evolve_def get_flow_def by (metis option.distinct(1) option.inject)
qed

lemma worker_moves_ok:
  assumes "task_ok files i t" "tk_worker t = Some k" "worker_ok i k'" "worker_keeps k k'"
  shows "task_ok files i (t\<lparr>tk_worker := Some k'\<rparr>)"
  using assms by (auto simp: task_ok_def worker_keeps_def)

lemma emit_ok: "worker_ok i k \<Longrightarrow> emit line k = Some k' \<Longrightarrow> worker_ok i k' \<and> worker_keeps k k'"
  by (auto simp: emit_def worker_ok_def worker_keeps_def split: if_splits)

lemma task_step_poll:
  assumes ok: "mg_ok mg" and t: "mg_tasks mg i = Some t" and run: "task_step E i ev t mg = Some mg'"
  obtains (Polls) p mg1 where "mg' = settle i p mg1" "apart_from_lanes mg mg1" "poll_ok i (mg_store mg) p" "tk_stage t \<noteq> Ended"
    | (Leaves) "mg' = mg\<lparr>mg_tasks := (mg_tasks mg)(i := None), mg_registry := mg_registry mg - {i}\<rparr>"
proof -
  have t_ok: "task_ok (rs_files (mg_store mg)) i t" by (rule mg_okD(2) [OF ok t])
  then have k_ok: "worker_ok i k" and draining: "drains (tk_stage t)" if "tk_worker t = Some k" for k
    using that by (auto simp: task_ok_def)
  have emits: "poll_ok i (mg_store mg) (t\<lparr>tk_worker := Some k'\<rparr>, mg_store mg)" if "tk_worker t = Some k" "emit line k = Some k'" for line k k'
    using worker_moves_ok [OF t_ok that(1)] emit_ok [OF k_ok [OF that(1)] that(2)] by (simp add: poll_ok_def)
  have drained: "poll_ok i (mg_store mg) (t\<lparr>tk_worker := Some (fst p)\<rparr>, snd p)"
    if "tk_worker t = Some k" "drain_one E elapsed k (mg_store mg) = Some p" for elapsed k p
  proof -
    have "worker_ok i (fst p) \<and> worker_keeps k (fst p) \<and> writes_run i False (mg_store mg) (snd p)"
      using drain_one_ok [OF k_ok [OF that(1)], of E elapsed "mg_store mg" "fst p" "snd p"] that(2) by simp
    then show ?thesis using worker_moves_ok [OF t_ok that(1)] draining [OF that(1)]
      by (auto simp: poll_ok_def intro: writes_weaken)
  qed
  have joins: "poll_ok i (mg_store mg) (t\<lparr>tk_stage := Joining ph err b\<rparr>, mg_store mg)" if "tk_stage t = Reading ph" for ph err b
    using t_ok that by (auto simp: poll_ok_def task_ok_def)
  show ?thesis
  proof (cases "tk_stage t")
    case Wait_Pool
    then have "\<exists>now w. get_pool E i t now w mg = Some mg'"
      using run t_ok by (auto simp: task_step_def task_ok_def split: event.splits)
    then show ?thesis using get_pool_poll [OF t_ok Wait_Pool] Wait_Pool Polls by (metis stage.distinct(11))
  next
    case Wait_Evolve
    then have "\<exists>now w. get_evolve E i t now w mg = Some mg'"
      using run t_ok by (auto simp: task_step_def task_ok_def split: event.splits)
    then show ?thesis using get_lane_poll [OF t_ok] Wait_Evolve Polls by (metis stage.distinct(21))
  next
    case Wait_Flow
    then have "\<exists>now w. get_flow E i t now w mg = Some mg'"
      using run t_ok by (auto simp: task_step_def task_ok_def split: event.splits)
    then show ?thesis using get_lane_poll [OF t_ok] Wait_Flow Polls by (metis stage.distinct(29))
  next
    case (Reading ph)
    then show ?thesis using run emits drained joins
      by (auto simp: task_step_def split: event.splits option.splits intro: Polls [OF _ apart_lanes(1)])
  next
    case (Joining ph err b)
    then show ?thesis using run drained joined_poll [OF t_ok Joining]
      by (auto simp: task_step_def split: event.splits option.splits if_splits intro: Polls [OF _ apart_lanes(1)])
  next
    case (Exiting ph err b d)
    then have "tk_worker t = None" using t_ok by (simp add: task_ok_def)
    then show ?thesis using Exiting run job_exited_poll [OF t_ok Exiting]
      by (auto simp: task_step_def split: event.splits intro: Polls [OF _ apart_lanes(1)])
  next
    case Ended
    then have "tk_worker t = None" using t_ok by (simp add: task_ok_def)
    then show ?thesis using Ended run by (auto simp: task_step_def split: event.splits intro: Leaves)
  qed
qed

section \<open>Every step\<close>

text \<open>Tracking fewer runs, and orphaning a sound worker.\<close>

lemma tracked_ok:
  assumes "mg_ok mg" "R \<union> D \<subseteq> mg_registry mg \<union> mg_draining mg"
  shows "mg_ok (mg\<lparr>mg_registry := R, mg_draining := D\<rparr>)"
  using assms unfolding mg_ok_def Let_def by (simp, blast)

lemma registry_ok: "mg_ok mg \<Longrightarrow> mg_ok (mg\<lparr>mg_registry := mg_registry mg - A\<rparr>)"
  using tracked_ok [of mg "mg_registry mg - A" "mg_draining mg"] by auto

lemma draining_ok: "mg_ok mg \<Longrightarrow> mg_ok (mg\<lparr>mg_draining := mg_draining mg - A\<rparr>)"
  using tracked_ok [of mg "mg_registry mg" "mg_draining mg - A"] by auto

lemma orphan_ok:
  assumes "mg_ok mg" "\<And>k. k \<in> set ks \<Longrightarrow> worker_ok (orphan_id k) k \<and> known (mg_store mg) (orphan_id k)"
  shows "mg_ok (mg\<lparr>mg_orphans := ks\<rparr>)"
  using assms unfolding mg_ok_def Let_def by simp

lemma leaves_ok:
  assumes ok: "mg_ok mg" and t: "mg_tasks mg i = Some t"
  shows "mg_ok (mg\<lparr>mg_tasks := (mg_tasks mg)(i := None)\<rparr>)"
  using task_write_ok [OF ok t, of False "mg_store mg" None] by simp

lemma worker_id: "worker_ok i k \<Longrightarrow> orphan_id k = i"
  by (simp add: worker_ok_def orphan_id_def Let_def)

lemma abort_ok:
  assumes ok: "mg_ok mg"
  shows "mg_ok (abort_task i mg)"
proof (cases "mg_tasks mg i")
  case None
  then show ?thesis using ok by (simp add: abort_task_def)
next
  case (Some t)
  let ?mg = "mg\<lparr>mg_tasks := (mg_tasks mg)(i := None)\<rparr>"
  let ?ks = "mg_orphans mg @ (case tk_worker t of None \<Rightarrow> [] | Some k \<Rightarrow> [k])"
  have "mg_ok (?mg\<lparr>mg_orphans := ?ks\<rparr>)"
  proof (rule orphan_ok [OF leaves_ok [OF ok Some]])
    fix k assume k: "k \<in> set ?ks"
    show "worker_ok (orphan_id k) k \<and> known (mg_store ?mg) (orphan_id k)"
    proof (cases "k \<in> set (mg_orphans mg)")
      case True
      then show ?thesis using mg_okD(5,6) [OF ok True] by simp
    next
      case False
      then have "worker_ok i k" using k mg_okD(2) [OF ok Some] by (auto simp: task_ok_def split: option.splits)
      then show ?thesis using mg_okD(3) [OF ok Some] worker_id [of i k] by simp
    qed
  qed
  then have "mg_ok (release t (?mg\<lparr>mg_orphans := ?ks\<rparr>))" by (simp only: release_simps)
  moreover have "abort_task i mg = release t (?mg\<lparr>mg_orphans := ?ks\<rparr>)"
    unfolding abort_task_def Some option.case release_def by simp
  ultimately show ?thesis by (simp only:)
qed

lemma abort_simps [simp]:
  "mg_tasks (abort_task i mg) = (mg_tasks mg)(i := None)" "mg_store (abort_task i mg) = mg_store mg"
  "mg_creating (abort_task i mg) = mg_creating mg" "mg_registry (abort_task i mg) = mg_registry mg"
  "mg_draining (abort_task i mg) = mg_draining mg"
  by (auto simp: abort_task_def release_def split: option.split)

lemma finish_failed_ok: "stores_ok st \<Longrightarrow> rs_meta st i = Some m \<Longrightarrow> stored_ok (rs_files st) i (finish_failed m e r now)"
  by (auto simp: stores_ok_def stored_ok_def produced_vintage_def)

lemma failed_write: "stores_ok st \<Longrightarrow> rs_meta st i = Some m \<Longrightarrow> writes_run i True st (save_meta (finish_failed m e r now) st)"
  by (rule writes_save [OF finish_failed_ok]) simp_all

lemma mark_writes: "stores_ok st \<Longrightarrow> writes_run i True st (snd (mark_halted i now st))"
  by (auto simp: mark_halted_def read_meta_def failed_write split: option.splits)

lemma terminally_writes: "stores_ok st \<Longrightarrow> writes_run i True st (terminally_mark i r now st)"
  by (auto simp: terminally_mark_def read_meta_def failed_write split: option.splits)

lemma halt_ok:
  assumes ok: "mg_ok mg"
  shows "mg_ok (snd (halt i now mg))"
proof (cases "i \<in> mg_registry mg")
  case False
  then show ?thesis using ok by (simp add: halt_def split: sum.split option.split)
next
  case True
  let ?mg = "abort_task i (mg\<lparr>mg_registry := mg_registry mg - {i}\<rparr>)"
  have ok1: "mg_ok ?mg" by (rule abort_ok [OF registry_ok [OF ok]])
  have "mg_creating ?mg i = None" using mg_okD(8) [OF ok] True by simp
  then have "mg_ok (?mg\<lparr>mg_store := snd (mark_halted i now (mg_store ?mg))\<rparr>)"
    by (intro store_write_ok [OF ok1 mark_writes [OF mg_okD(1) [OF ok1]]]) simp
  then show ?thesis using True by (cases "mark_halted i now (mg_store mg)") (simp add: halt_def Let_def)
qed

lemma shutdown_abort_ok:
  assumes ok: "mg_ok mg" and i: "i \<in> mg_draining mg"
  shows "mg_ok (shutdown_abort i now mg)"
proof -
  let ?mg = "abort_task i (mg\<lparr>mg_draining := mg_draining mg - {i}\<rparr>)"
  have ok1: "mg_ok ?mg" by (rule abort_ok [OF draining_ok [OF ok]])
  have "mg_creating ?mg i = None" using mg_okD(8) [OF ok] i by simp
  then have "mg_ok (?mg\<lparr>mg_store := terminally_mark i shutdown_drain_reason now (mg_store ?mg)\<rparr>)"
    by (intro store_write_ok [OF ok1 terminally_writes [OF mg_okD(1) [OF ok1]]]) simp
  then show ?thesis by (simp add: shutdown_abort_def Let_def)
qed

lemma orphans_then_store: "mg\<lparr>mg_orphans := ks, mg_store := st\<rparr> = mg\<lparr>mg_store := st, mg_orphans := ks\<rparr>"
  by (cases mg) simp

lemma orphan_drain_ok:
  assumes ok: "mg_ok mg" and run: "orphan_drain E n elapsed mg = Some mg'"
  shows "mg_ok mg'"
proof -
  define k where "k = mg_orphans mg ! n"
  obtain k' st' where n: "n < length (mg_orphans mg)" and step: "drain_one E elapsed k (mg_store mg) = Some (k', st')"
    and mg': "mg' = mg\<lparr>mg_orphans := (mg_orphans mg)[n := k'], mg_store := st'\<rparr>"
    using run by (auto simp: orphan_drain_def k_def split: if_splits)
  have k: "k \<in> set (mg_orphans mg)" using n by (simp add: k_def)
  note moved = drain_one_ok [OF mg_okD(5) [OF ok k] step]
  have ok1: "mg_ok (mg\<lparr>mg_store := st'\<rparr>)" using moved by (intro store_write_ok [OF ok, of "orphan_id k" False]) auto
  have "mg_ok ((mg\<lparr>mg_store := st'\<rparr>)\<lparr>mg_orphans := (mg_orphans mg)[n := k']\<rparr>)"
  proof (rule orphan_ok [OF ok1])
    fix x assume "x \<in> set ((mg_orphans mg)[n := k'])"
    then have "x = k' \<or> x \<in> set (mg_orphans mg)" using set_update_subset_insert by fastforce
    then show "worker_ok (orphan_id x) x \<and> known (mg_store (mg\<lparr>mg_store := st'\<rparr>)) (orphan_id x)"
    proof
      assume "x = k'"
      then show ?thesis using moved worker_id [of "orphan_id k" k'] mg_okD(6) [OF ok1, of k] k by simp
    next
      assume "x \<in> set (mg_orphans mg)"
      then show ?thesis using mg_okD(5,6) [OF ok1, of x] by simp
    qed
  qed
  then show ?thesis unfolding mg' orphans_then_store .
qed

lemma orphan_end_ok:
  assumes ok: "mg_ok mg" and run: "orphan_end n mg = Some mg'"
  shows "mg_ok mg'"
proof -
  define k where "k = mg_orphans mg ! n"
  let ?ks = "take n (mg_orphans mg) @ drop (Suc n) (mg_orphans mg)"
  have n: "n < length (mg_orphans mg)" and mg': "mg' = mg\<lparr>mg_orphans := ?ks, mg_store := drain_end (wk_state k) (mg_store mg)\<rparr>"
    using run by (auto simp: orphan_end_def k_def split: if_splits)
  have k: "k \<in> set (mg_orphans mg)" using n by (simp add: k_def)
  let ?mg = "mg\<lparr>mg_store := drain_end (wk_state k) (mg_store mg)\<rparr>"
  have ok1: "mg_ok ?mg" using drain_end_ok [OF mg_okD(5) [OF ok k]] by (intro store_write_ok [OF ok, of "orphan_id k" False]) auto
  have "mg_ok (?mg\<lparr>mg_orphans := ?ks\<rparr>)"
  proof (rule orphan_ok [OF ok1])
    fix x assume "x \<in> set ?ks"
    then have "x \<in> set (mg_orphans ?mg)" by (auto dest: in_set_takeD in_set_dropD)
    then show "worker_ok (orphan_id x) x \<and> known (mg_store ?mg) (orphan_id x)" using mg_okD(5,6) [OF ok1, of x] by simp
  qed
  then show ?thesis unfolding mg' orphans_then_store .
qed

section \<open>Creating a run\<close>

lemma initial_fits: "meta_fits i (Fresh spec) (initial_meta E i spec now)" "rm_status (initial_meta E i spec now) = Queued"
  "rm_id (initial_meta E i spec now) = i"
  by (simp_all add: meta_fits_def initial_meta_def produced_vintage_def)

lemma creating_ok:
  assumes ok: "mg_ok mg" and final: "x \<noteq> None \<Longrightarrow> \<not> stored_final (mg_store mg) i"
    and x: "\<And>m spec b. x = Some (m, spec, b) \<Longrightarrow> meta_fits i (Fresh spec) m \<and> rm_status m = Queued \<and> known (mg_store mg) i \<and>
      mg_tasks mg i = None \<and> i \<notin> mg_registry mg \<and> i \<notin> mg_draining mg"
  shows "mg_ok (mg\<lparr>mg_creating := (mg_creating mg)(i := x)\<rparr>)"
proof (rule mg_okI)
  let ?mg = "mg\<lparr>mg_creating := (mg_creating mg)(i := x)\<rparr>"
  note D = mg_okD [OF ok]
  show "stores_ok (mg_store ?mg)" using D(1) by simp
  show "task_ok (rs_files (mg_store ?mg)) j t \<and> known (mg_store ?mg) j" if "mg_tasks ?mg j = Some t" for j t using D(2,3) that by simp
  show "worker_ok (orphan_id k) k \<and> known (mg_store ?mg) (orphan_id k)" if "k \<in> set (mg_orphans ?mg)" for k using D(5,6) that by simp
  show "meta_fits j (Fresh spec) m \<and> rm_status m = Queued \<and> known (mg_store ?mg) j \<and> mg_tasks ?mg j = None \<and> j \<notin> mg_registry ?mg \<and>
      j \<notin> mg_draining ?mg" if "mg_creating ?mg j = Some (m, spec, b)" for j m spec b
    using that x [of m spec b] D(7) [of j m spec b] by (cases "j = i") simp_all
  show "known (mg_store ?mg) j" if "j \<in> mg_registry ?mg \<or> j \<in> mg_draining ?mg" for j using D(8) [of j] that by simp
  show "mg_creating ?mg j = None \<and> (\<forall>t. mg_tasks ?mg j = Some t \<longrightarrow> tk_stage t = Ended)" if "stored_final (mg_store ?mg) j" for j
    using that final D(9) [of j] D(10) [of j] by (cases "j = i"; cases x) auto
qed

lemma create_moves_ok:
  assumes ok: "mg_ok mg" and c: "mg_creating mg i = Some (m, spec, b)"
  shows "mg_ok (mg\<lparr>mg_creating := (mg_creating mg)(i := None)\<rparr>)" "mg_ok (mg\<lparr>mg_creating := (mg_creating mg)(i \<mapsto> (m, spec, b'))\<rparr>)"
proof -
  have "\<not> stored_final (mg_store mg) i" using mg_okD(9) [OF ok, of i] c by auto
  then show "mg_ok (mg\<lparr>mg_creating := (mg_creating mg)(i := None)\<rparr>)" "mg_ok (mg\<lparr>mg_creating := (mg_creating mg)(i \<mapsto> (m, spec, b'))\<rparr>)"
    using mg_okD(7) [OF ok c] by (auto intro!: creating_ok [OF ok])
qed

lemma create_begin_ok:
  assumes ok: "mg_ok mg" and fresh: "fresh_id mg i"
  shows "mg_ok (snd (create_begin E i req now mg))"
proof (cases "mg_accepting mg")
  case False
  then show ?thesis using ok by (simp add: create_begin_def)
next
  case True
  have unknown: "\<not> known (mg_store mg) i" using fresh by (simp add: known_def fresh_id_def)
  have none: "mg_tasks mg i = None" "i \<notin> mg_registry mg" "i \<notin> mg_draining mg"
    using mg_okD(3) [OF ok, of i] mg_okD(8) [OF ok, of i] unknown by (cases "mg_tasks mg i", simp_all, blast+)
  show ?thesis
  proof (cases "build_spec (re_params E) req")
    case (Inl e)
    then show ?thesis using ok True by (simp add: create_begin_def)
  next
    case (Inr spec)
    define m where "m = initial_meta E i spec now"
    define st where "st = save_meta m (mg_store mg)"
    have m: "meta_fits i (Fresh spec) m" "rm_status m = Queued" "rm_id m = i" unfolding m_def by (rule initial_fits)+
    have "writes_run i False (mg_store mg) st" unfolding st_def using m by (intro writes_save fits_stored) auto
    then have ok1: "mg_ok (mg\<lparr>mg_store := st\<rparr>)" by (rule store_write_ok [OF ok]) simp
    have same: "mg\<lparr>mg_store := mg_store mg\<rparr> = mg" by simp
    show ?thesis
    proof (cases "fst (init_run (mg_store mg) m)")
      case (Inl e)
      then have "snd (init_run (mg_store mg) m) = mg_store mg"
        by (auto simp: init_run_def write_meta_def split: option.splits)
      then show ?thesis using True \<open>build_spec (re_params E) req = Inr spec\<close> Inl ok
        by (cases "init_run (mg_store mg) m") (simp add: create_begin_def Let_def m_def [symmetric])
    next
      case (Inr u)
      then have st: "snd (init_run (mg_store mg) m) = st" and saved: "rs_meta st i = Some m"
        using m(3) by (auto simp: init_run_def st_def save_meta_def write_meta_def split: option.splits)
      have "mg_ok ((mg\<lparr>mg_store := st\<rparr>)\<lparr>mg_creating := (mg_creating (mg\<lparr>mg_store := st\<rparr>))(i \<mapsto> (m, spec, False))\<rparr>)"
        by (rule creating_ok [OF ok1]) (use none m saved in \<open>simp_all add: stored_final_def known_def\<close>)
      then show ?thesis using True \<open>build_spec (re_params E) req = Inr spec\<close> Inr st
        by (cases "init_run (mg_store mg) m") (simp add: create_begin_def Let_def m_def [symmetric])
    qed
  qed
qed

lemma index_keeps [simp]:
  "rs_meta (snd (write_index st x)) = rs_meta st" "rs_files (snd (write_index st x)) = rs_files st"
  by (auto simp: write_index_def split: option.split)

lemma mg_ok_same_files:
  "mg_ok mg \<Longrightarrow> rs_meta st = rs_meta (mg_store mg) \<Longrightarrow> rs_files st = rs_files (mg_store mg) \<Longrightarrow> mg_ok (mg\<lparr>mg_store := st\<rparr>)"
  unfolding mg_ok_def Let_def stores_ok_def known_def stored_final_def by simp

lemma creating_then_store: "mg\<lparr>mg_creating := c, mg_store := st\<rparr> = mg\<lparr>mg_store := st, mg_creating := c\<rparr>"
  by (cases mg) simp

lemma create_index_ok:
  assumes ok: "mg_ok mg" and c: "mg_creating mg i = Some (m, spec, b)"
  shows "mg_ok (snd (create_index i m spec mg))"
proof (cases "read_index (mg_store mg)")
  case (Inl e)
  then show ?thesis using create_moves_ok(1) [OF ok c] by (simp add: create_index_def Let_def)
next
  case (Inr index)
  define w where "w = write_index (mg_store mg) (index @ [\<lparr>ie_id = i, ie_type = run_type_of spec, ie_created_ms = rm_created_ms m, ie_label = run_label spec\<rparr>])"
  have ok1: "mg_ok (mg\<lparr>mg_store := snd w\<rparr>)" unfolding w_def by (rule mg_ok_same_files [OF ok]) simp_all
  have "mg_creating (mg\<lparr>mg_store := snd w\<rparr>) i = Some (m, spec, b)" using c by simp
  note both = create_moves_ok(1) [OF ok1 this, simplified] create_moves_ok(2) [OF ok1 this, of True, simplified]
  show ?thesis unfolding create_index_def Let_def Inr sum.case w_def [symmetric]
    using both by (cases w; cases "fst w") (simp_all add: creating_then_store)
qed

lemma register_ok:
  assumes ok: "mg_ok mg" and none: "mg_tasks mg i = None" "mg_creating mg i = None" and kn: "known (mg_store mg) i"
    and final: "\<not> stored_final (mg_store mg) i" and t: "task_ok (rs_files (mg_store mg)) i t"
  shows "mg_ok (register i t mg)"
  using assms unfolding mg_ok_def Let_def register_def by auto

lemma new_task_ok: "meta_fits i job m \<Longrightarrow> is_live (rm_status m) \<Longrightarrow> task_ok files i (new_task m job)"
  by (simp add: new_task_def task_ok_def)

lemma create_spawn_ok:
  assumes ok: "mg_ok mg" and c: "mg_creating mg i = Some (m, spec, b)"
  shows "mg_ok (create_spawn i m spec mg)"
proof -
  note C = mg_okD(7) [OF ok c]
  have "\<not> stored_final (mg_store mg) i" using mg_okD(9) [OF ok, of i] c by auto
  moreover have "task_ok (rs_files (mg_store mg)) i (new_task m (Fresh spec))" using C by (intro new_task_ok) simp_all
  ultimately show ?thesis unfolding create_spawn_def
    using C by (intro register_ok [OF create_moves_ok(1) [OF ok c]]) simp_all
qed

section \<open>Every step keeps the invariant\<close>

lemma honest_mono: "honest files m \<Longrightarrow> honest (files(k \<mapsto> b)) m"
  by (simp add: honest_def)

lemma phase_ok_mono: "phase_ok files i fl ph \<Longrightarrow> phase_ok (files(k \<mapsto> b)) i fl ph"
  by (cases ph) simp_all

lemma stored_ok_mono: "stored_ok files i m \<Longrightarrow> stored_ok (files(k \<mapsto> b)) i m"
  by (simp add: stored_ok_def honest_mono)

lemma task_ok_mono: "task_ok files i t \<Longrightarrow> task_ok (files(k \<mapsto> b)) i t"
  unfolding task_ok_def using phase_ok_mono by blast

lemma artefact_ok:
  assumes ok: "mg_ok mg"
  shows "mg_ok (mg\<lparr>mg_store := (mg_store mg)\<lparr>rs_files := (rs_files (mg_store mg))((i, rel) \<mapsto> b)\<rparr>\<rparr>)"
proof (rule mg_okI)
  let ?st = "(mg_store mg)\<lparr>rs_files := (rs_files (mg_store mg))((i, rel) \<mapsto> b)\<rparr>"
  let ?mg = "mg\<lparr>mg_store := ?st\<rparr>"
  note D = mg_okD [OF ok]
  have same: "known ?st j = known (mg_store mg) j" "stored_final ?st j = stored_final (mg_store mg) j" for j
    by (simp_all add: known_def stored_final_def)
  show "stores_ok (mg_store ?mg)" using D(1) stored_ok_mono unfolding stores_ok_def by fastforce
  show "task_ok (rs_files (mg_store ?mg)) j t \<and> known (mg_store ?mg) j" if "mg_tasks ?mg j = Some t" for j t
    using D(2,3) [of j t] that by (simp add: task_ok_mono same)
  show "worker_ok (orphan_id k) k \<and> known (mg_store ?mg) (orphan_id k)" if "k \<in> set (mg_orphans ?mg)" for k
    using D(5,6) that by (simp add: same)
  show "meta_fits j (Fresh spec) m \<and> rm_status m = Queued \<and> known (mg_store ?mg) j \<and> mg_tasks ?mg j = None \<and> j \<notin> mg_registry ?mg \<and>
      j \<notin> mg_draining ?mg" if "mg_creating ?mg j = Some (m, spec, b)" for j m spec b
    using D(7) [of j m spec b] that by (simp add: same)
  show "known (mg_store ?mg) j" if "j \<in> mg_registry ?mg \<or> j \<in> mg_draining ?mg" for j using D(8) [of j] that by (simp add: same)
  show "mg_creating ?mg j = None \<and> (\<forall>t. mg_tasks ?mg j = Some t \<longrightarrow> tk_stage t = Ended)" if "stored_final (mg_store ?mg) j" for j
    using that D(9) [of j] D(10) [of j] by (auto simp: same)
qed

lemma shutdown_ok: "mg_ok mg \<Longrightarrow> mg_ok (shutdown_begin mg)"
  by (rule mg_okI) (auto simp: shutdown_begin_def dest: mg_okD intro: mg_okD)

lemma mstep_task:
  "event_task ev = Some i \<Longrightarrow> mstep E mg ev = Option.bind (mg_tasks mg i) (\<lambda>t. task_step E i ev t mg)"
  by (cases ev) simp_all

lemma mstep_ok:
  assumes ok: "mg_ok mg" and run: "mstep E mg ev = Some mg'"
  shows "mg_ok mg'"
proof (cases "event_task ev")
  case (Some i)
  then obtain t where t: "mg_tasks mg i = Some t" and step: "task_step E i ev t mg = Some mg'"
    using run by (auto simp: mstep_task bind_eq_Some_conv)
  from ok t step show ?thesis
  proof (cases rule: task_step_poll)
    case (Polls p mg1)
    then have "mg_ok mg1" "mg_tasks mg1 i = Some t" "mg_store mg1 = mg_store mg" using ok t by (auto simp: apart_from_lanes_def)
    then show ?thesis using settle_ok [of mg1 i t p] Polls by simp
  next
    case Leaves
    then show ?thesis using registry_ok [OF leaves_ok [OF ok t], of "{i}"] by simp
  qed
next
  case None
  then show ?thesis using run ok
    by (cases ev) (auto split: if_splits option.splits bool.splits intro: shutdown_ok create_begin_ok create_index_ok create_spawn_ok
      halt_ok orphan_drain_ok orphan_end_ok shutdown_abort_ok artefact_ok draining_ok)
qed

section \<open>Booting\<close>

lemma new_ok: "stores_ok st \<Longrightarrow> mg_ok (manager_new st a b c)"
  by (simp add: mg_ok_def manager_new_def)

lemma finish_stores: "stores_ok st \<Longrightarrow> rs_meta st i = Some m \<Longrightarrow> stores_ok (save_meta (finish_failed m e r now) st)"
  by (rule writes_stores [OF failed_write])

lemma reconcile_each_ok: "stores_ok st \<Longrightarrow> stores_ok (snd (reconcile_each now es n st))"
proof (induction es arbitrary: n st)
  case (Cons e es)
  then show ?case by (auto simp: read_meta_def finish_stores split: option.split sum.split)
qed simp

lemma reconcile_ok: "stores_ok st \<Longrightarrow> stores_ok (snd (reconcile_orphans now st))"
  by (auto simp: reconcile_orphans_def reconcile_each_ok split: sum.split)

lemma classify_resume:
  "classify_orphan st m = Resume_Backtest \<longleftrightarrow> rm_type m = ''flow'' \<and> produced_vintage m \<noteq> None \<and> result_exists st (rm_id m) ''train/result.json'' \<and>
     \<not> result_exists st (rm_id m) ''backtest/result.json''"
  by (auto simp: classify_orphan_def)

text \<open>While the manager boots it has no worker, nothing being created, and only tasks that wait.\<close>

definition booting :: "('f, 'v) manager \<Rightarrow> bool" where
  "booting mg \<longleftrightarrow> mg_ok mg \<and> mg_orphans mg = [] \<and> mg_creating mg = (\<lambda>_. None)"

lemma reregister_ok:
  assumes ok: "mg_ok mg" and none: "mg_creating mg i = None" and kn: "known (mg_store mg) i"
    and final: "\<not> stored_final (mg_store mg) i" and t: "task_ok (rs_files (mg_store mg)) i t"
  shows "mg_ok (register i t mg)"
  using assms unfolding mg_ok_def Let_def register_def by auto

lemma resume_one_ok:
  assumes b: "booting mg" and m: "rs_meta (mg_store mg) i = Some m" "is_live (rm_status m)" "classify_orphan (mg_store mg) m = Resume_Backtest"
  shows "booting (spawn_flow_backtest_resume m mg)"
proof -
  obtain v where v: "produced_vintage m = Some v" and flow: "rm_type m = ''flow''" using m(3) by (auto simp: classify_resume)
  have mid: "rm_id m = i" using b m(1) by (auto simp: booting_def mg_ok_def Let_def stores_ok_def stored_ok_def)
  have "meta_fits i (Resumed v) m" using mid flow by (simp add: meta_fits_def)
  with m have "mg_ok (register i (new_task m (Resumed v)) mg)" using b
    by (intro reregister_ok new_task_ok) (auto simp: booting_def known_def stored_final_def)
  then show ?thesis using b mid by (simp add: spawn_flow_backtest_resume_def v booting_def) (simp add: register_def)
qed

lemma resume_keeps_store [simp]: "mg_store (spawn_flow_backtest_resume m mg) = mg_store mg"
  by (simp add: spawn_flow_backtest_resume_def register_def split: option.split)

lemma resume_each_ok: "booting mg \<Longrightarrow> booting (snd (resume_each es n mg))"
proof (induction es arbitrary: n mg)
  case (Cons e es)
  then show ?case by (auto simp: read_meta_def resume_one_ok split: option.split sum.split)
qed simp

lemma boot_ok:
  assumes "stores_ok st"
  shows "mg_ok (boot now st a b c)"
proof -
  have "booting (manager_new (snd (reconcile_orphans now st)) a b c)"
    using new_ok [OF reconcile_ok [OF assms]] by (auto simp: booting_def manager_new_def)
  then have "booting (boot now st a b c)"
    by (auto simp: boot_def resume_orphaned_flows_def resume_each_ok split: sum.split)
  then show ?thesis by (simp add: booting_def)
qed

lemma runs_ok: "mg_ok mg \<Longrightarrow> run_opt (mstep E) mg es = Some mg' \<Longrightarrow> mg_ok mg'"
  by (rule run_opt_invariant [where P = mg_ok]) (auto intro: mstep_ok)
end
