(* ===== verification/Run_Lanes.thy ===== *)
theory Run_Lanes imports Run_Invariant begin

text \<open>The three lanes of the worker pool: permits free and permits held add up, whatever happens.\<close>

definition held :: "(('f, 'v) task \<Rightarrow> bool) \<Rightarrow> (string \<Rightarrow> ('f, 'v) task option) \<Rightarrow> nat" where
  "held holds tasks = card {i. \<exists>t. tasks i = Some t \<and> holds t}"

lemma held_set_finite: "finite (dom tasks) \<Longrightarrow> finite {i. \<exists>t. tasks i = Some t \<and> holds t}"
  by (erule rev_finite_subset) auto

definition holds_at :: "(('f, 'v) task \<Rightarrow> bool) \<Rightarrow> ('f, 'v) task option \<Rightarrow> nat" where
  "holds_at holds x = of_bool (case x of None \<Rightarrow> False | Some t \<Rightarrow> holds t)"

lemma held_update:
  assumes "finite (dom tasks)"
  shows "held holds (tasks(i := x)) + holds_at holds (tasks i) = held holds tasks + holds_at holds x"
proof -
  let ?A = "{j. j \<noteq> i \<and> (\<exists>t. tasks j = Some t \<and> holds t)}"
  have fin: "finite ?A" using held_set_finite [OF assms, of holds] by (rule rev_finite_subset) auto
  have split: "held holds f = card ?A + holds_at holds (f i)" if "\<And>j. j \<noteq> i \<Longrightarrow> f j = tasks j" for f
  proof -
    have "{j. \<exists>t. f j = Some t \<and> holds t} = ?A \<union> (if holds_at holds (f i) = 1 then {i} else {})"
    proof (rule set_eqI)
      fix j
      show "j \<in> {j. \<exists>t. f j = Some t \<and> holds t} \<longleftrightarrow> j \<in> ?A \<union> (if holds_at holds (f i) = 1 then {i} else {})"
        using that [of j] by (cases "j = i") (auto simp: holds_at_def split: option.splits)
    qed
    then show ?thesis using fin by (auto simp: held_def holds_at_def)
  qed
  show ?thesis using split [of tasks] split [of "tasks(i := x)"] by simp
qed

section \<open>A lane\<close>

text \<open>What the proof asks of a lane: releasing gives back what the task holds, and other updates leave it.\<close>

locale lane =
  fixes free :: "('f, 'v) manager \<Rightarrow> nat"
    and holds :: "('f, 'v) task \<Rightarrow> bool"
  assumes gives_back: "free (release t mg) = free mg + of_bool (holds t)"
    and store_apart: "free (mg\<lparr>mg_store := st\<rparr>) = free mg"
    and tasks_apart: "free (mg\<lparr>mg_tasks := f\<rparr>) = free mg"
    and orphans_apart: "free (mg\<lparr>mg_orphans := ks\<rparr>) = free mg"
    and tracking_apart: "free (mg\<lparr>mg_registry := R\<rparr>) = free mg" "free (mg\<lparr>mg_draining := R\<rparr>) = free mg"
    and creating_apart: "free (mg\<lparr>mg_creating := c\<rparr>) = free mg"
    and closing_apart: "free (mg\<lparr>mg_accepting := b\<rparr>) = free mg" "free (mg\<lparr>mg_pool_closed := b\<rparr>) = free mg"
    and dropped: "\<not> holds (drop_permits t)"
begin

lemmas apart = store_apart tasks_apart orphans_apart tracking_apart creating_apart closing_apart

lemma settle_total:
  assumes "finite (dom (mg_tasks mg))" "mg_tasks mg i = Some t0"
  shows "free (settle i p mg) + held holds (mg_tasks (settle i p mg)) + of_bool (holds t0) =
    free mg + held holds (mg_tasks mg) + of_bool (holds (fst p))"
proof (cases "tk_stage (fst p) = Ended")
  case True
  have "mg_tasks (settle i p mg) = (mg_tasks mg)(i := Some (drop_permits (fst p)))" using True by (simp add: settle_def Let_def release_def)
  moreover have "free (settle i p mg) = free mg + of_bool (holds (fst p))"
    using True by (simp add: settle_def Let_def apart gives_back del: release_simps)
  ultimately show ?thesis using held_update [OF assms(1), of holds i "Some (drop_permits (fst p))"] assms(2)
    by (simp add: holds_at_def dropped)
next
  case False
  have "mg_tasks (settle i p mg) = (mg_tasks mg)(i := Some (fst p))" using False by (simp add: settle_def Let_def)
  moreover have "free (settle i p mg) = free mg" using False by (simp add: settle_def Let_def apart)
  ultimately show ?thesis using held_update [OF assms(1), of holds i "Some (fst p)"] assms(2) by (simp add: holds_at_def)
qed

lemma abort_total:
  assumes "finite (dom (mg_tasks mg))"
  shows "free (abort_task i mg) + held holds (mg_tasks (abort_task i mg)) = free mg + held holds (mg_tasks mg)"
proof (cases "mg_tasks mg i")
  case None
  then show ?thesis by (simp add: abort_task_def)
next
  case (Some t)
  have "free (abort_task i mg) = free mg + of_bool (holds t)"
    unfolding abort_task_def Some option.case by (simp add: apart gives_back del: release_simps)
  then show ?thesis using held_update [OF assms, of holds i None] Some by (simp add: holds_at_def)
qed

end

interpretation pool_lane: lane mg_pool_free tk_pool
  by unfold_locales (simp_all add: release_def drop_permits_def)

interpretation evolve_lane: lane mg_evolve_free tk_evolve
  by unfold_locales (simp_all add: release_def drop_permits_def)

interpretation flow_lane: lane mg_flow_free tk_flow
  by unfold_locales (simp_all add: release_def drop_permits_def)

section \<open>A poll keeps the permits\<close>

definition same_lanes :: "('f, 'v) task \<Rightarrow> ('f, 'v) task \<Rightarrow> bool" where
  "same_lanes t t' \<longleftrightarrow> tk_pool t' = tk_pool t \<and> tk_evolve t' = tk_evolve t \<and> tk_flow t' = tk_flow t"

lemma fail_lanes [simp]: "same_lanes t (fst (fail_task t m e r now st))"
  by (simp add: fail_task_def same_lanes_def Let_def)

lemma reading_lanes [simp]: "same_lanes t (begin_reading t m ph ev)"
  by (simp add: begin_reading_def same_lanes_def)

lemma start_flow_lanes: "same_lanes t (fst (start_flow t m w now st))"
  by (auto simp: start_flow_def Let_def split: sum.split)

lemma flow_backtest_lanes: "same_lanes t (fst (flow_backtest_phase E t m fl v w now st))"
  by (auto simp: flow_backtest_phase_def Let_def split: sum.split option.split)

lemma begin_job_lanes: "same_lanes t (fst (begin_job E t now w st))"
  by (auto simp: begin_job_def start_run_def resume_flow_def Let_def start_flow_lanes flow_backtest_lanes split: sum.split job.split)

lemma same_lanes_upd [simp]: "same_lanes t (t\<lparr>tk_meta := m, tk_stage := s, tk_worker := k\<rparr>)" "same_lanes t (t\<lparr>tk_stage := s\<rparr>)"
  "same_lanes t (t\<lparr>tk_worker := k\<rparr>)"
  by (simp_all add: same_lanes_def)

lemma job_exited_lanes: "same_lanes t (fst (job_exited E t ph err dl d code w now st))"
proof (cases ph)
  case Single
  then show ?thesis by (simp add: job_exited_def single_exit_def Let_def)
next
  case (Flow_Train fl)
  then show ?thesis by (simp add: job_exited_def train_exit_def Let_def flow_backtest_lanes)
next
  case (Flow_Backtest fl)
  then show ?thesis by (simp add: job_exited_def backtest_exit_def Let_def)
qed

lemma joined_lanes: "same_lanes t (fst (joined t ph err dl k st))"
  by (simp add: joined_def)

section \<open>Every step keeps the totals\<close>

definition lanes_ok :: "nat \<Rightarrow> nat \<Rightarrow> nat \<Rightarrow> ('f, 'v) manager \<Rightarrow> bool" where
  "lanes_ok a b c mg \<longleftrightarrow> finite (dom (mg_tasks mg)) \<and> mg_pool_free mg + held tk_pool (mg_tasks mg) = a \<and>
     mg_evolve_free mg + held tk_evolve (mg_tasks mg) = b \<and> mg_flow_free mg + held tk_flow (mg_tasks mg) = c \<and>
     (\<forall>i t. mg_tasks mg i = Some t \<longrightarrow> tk_stage t = Ended \<longrightarrow> \<not> tk_pool t \<and> \<not> tk_evolve t \<and> \<not> tk_flow t)"

lemma settle_dom: "mg_tasks mg i = Some t0 \<Longrightarrow> dom (mg_tasks (settle i p mg)) = dom (mg_tasks mg)"
  by (auto simp: settle_def Let_def release_def)

lemma settle_ended:
  assumes "\<And>j t. mg_tasks mg j = Some t \<Longrightarrow> tk_stage t = Ended \<Longrightarrow> \<not> tk_pool t \<and> \<not> tk_evolve t \<and> \<not> tk_flow t"
    "mg_tasks (settle i p mg) j = Some t" "tk_stage t = Ended"
  shows "\<not> tk_pool t \<and> \<not> tk_evolve t \<and> \<not> tk_flow t"
  using assms by (auto simp: settle_def Let_def release_def drop_permits_def split: if_splits)

lemma taken_lanes:
  assumes ok: "lanes_ok a b c mg" and t: "mg_tasks mg i = Some t" and p: "mg_tasks mg1 = mg_tasks mg"
    and pool: "mg_pool_free mg1 + of_bool (tk_pool (fst p)) = mg_pool_free mg + of_bool (tk_pool t)"
    and ev: "mg_evolve_free mg1 + of_bool (tk_evolve (fst p)) = mg_evolve_free mg + of_bool (tk_evolve t)"
    and fl: "mg_flow_free mg1 + of_bool (tk_flow (fst p)) = mg_flow_free mg + of_bool (tk_flow t)"
  shows "lanes_ok a b c (settle i p mg1)"
proof -
  have fin: "finite (dom (mg_tasks mg1))" and t1: "mg_tasks mg1 i = Some t" using ok t p by (simp_all add: lanes_ok_def)
  have "finite (dom (mg_tasks (settle i p mg1)))" using fin settle_dom [OF t1, of p] by simp
  moreover have "\<forall>j t. mg_tasks (settle i p mg1) j = Some t \<longrightarrow> tk_stage t = Ended \<longrightarrow> \<not> tk_pool t \<and> \<not> tk_evolve t \<and> \<not> tk_flow t"
    using settle_ended [of mg1 i p] ok p unfolding lanes_ok_def by metis
  moreover have "mg_pool_free (settle i p mg1) + held tk_pool (mg_tasks (settle i p mg1)) = a"
    using ok pool pool_lane.settle_total [OF fin t1, of p] unfolding lanes_ok_def p by linarith
  moreover have "mg_evolve_free (settle i p mg1) + held tk_evolve (mg_tasks (settle i p mg1)) = b"
    using ok ev evolve_lane.settle_total [OF fin t1, of p] unfolding lanes_ok_def p by linarith
  moreover have "mg_flow_free (settle i p mg1) + held tk_flow (mg_tasks (settle i p mg1)) = c"
    using ok fl flow_lane.settle_total [OF fin t1, of p] unfolding lanes_ok_def p by linarith
  ultimately show ?thesis unfolding lanes_ok_def by blast
qed

lemma settle_lanes:
  "lanes_ok a b c mg \<Longrightarrow> mg_tasks mg i = Some t \<Longrightarrow> same_lanes t (fst p) \<Longrightarrow> lanes_ok a b c (settle i p mg)"
  by (rule taken_lanes) (simp_all add: same_lanes_def)

lemma get_pool_lanes:
  assumes ok: "lanes_ok a b c mg" and t: "mg_tasks mg i = Some t" "\<not> tk_pool t" and run: "get_pool E i t now w mg = Some mg'"
  shows "lanes_ok a b c mg'"
proof (cases "mg_pool_closed mg")
  case True
  then show ?thesis using run settle_lanes [OF ok t(1) fail_lanes] by (auto simp: get_pool_def)
next
  case False
  let ?mg = "mg\<lparr>mg_pool_free := mg_pool_free mg - 1\<rparr>"
  have free: "mg_pool_free mg \<noteq> 0" using run False by (cases "mg_pool_free mg = 0") (simp_all add: get_pool_def)
  have "lanes_ok a b c (settle i p ?mg)" if "same_lanes (t\<lparr>tk_pool := True\<rparr>) (fst p)" for p
    using that free t by (intro taken_lanes [OF ok t(1)]) (simp_all add: same_lanes_def)
  note taken = this [of "(_, _)", unfolded fst_conv]
  have "same_lanes (t\<lparr>tk_pool := True\<rparr>) (fst (begin_job E (t\<lparr>tk_pool := True\<rparr>) now w (mg_store mg)))" by (rule begin_job_lanes)
  then have "lanes_ok a b c (settle i (begin_job E (t\<lparr>tk_pool := True\<rparr>) now w (mg_store mg)) ?mg)"
    using taken by (metis prod.collapse)
  then show ?thesis using run False free taken [OF same_lanes_upd(2)] by (auto simp: get_pool_def Let_def split: if_splits)
qed

lemma get_evolve_lanes:
  assumes ok: "lanes_ok a b c mg" and t: "mg_tasks mg i = Some t" "\<not> tk_evolve t" and run: "get_evolve E i t now w mg = Some mg'"
  shows "lanes_ok a b c mg'"
  using run t begin_job_lanes [of "t\<lparr>tk_evolve := True\<rparr>" E now w "mg_store mg"]
  by (auto simp: get_evolve_def same_lanes_def split: if_splits intro!: taken_lanes [OF ok t(1)])

lemma get_flow_lanes:
  assumes ok: "lanes_ok a b c mg" and t: "mg_tasks mg i = Some t" "\<not> tk_flow t" and run: "get_flow E i t now w mg = Some mg'"
  shows "lanes_ok a b c mg'"
  using run t begin_job_lanes [of "t\<lparr>tk_flow := True\<rparr>" E now w "mg_store mg"]
  by (auto simp: get_flow_def same_lanes_def split: if_splits intro!: taken_lanes [OF ok t(1)])

lemma task_step_lanes:
  assumes ok: "lanes_ok a b c mg" and fits: "mg_ok mg" and t: "mg_tasks mg i = Some t" and run: "task_step E i ev t mg = Some mg'"
    and live: "tk_stage t \<noteq> Ended"
  shows "lanes_ok a b c mg'"
proof -
  have t_ok: "task_ok (rs_files (mg_store mg)) i t" by (rule mg_okD(2) [OF fits t])
  note out = settle_lanes [OF ok t]
  show ?thesis
  proof (cases "tk_stage t")
    case Wait_Pool
    then show ?thesis using run t_ok get_pool_lanes [OF ok t] by (auto simp: task_step_def task_ok_def split: event.splits)
  next
    case Wait_Evolve
    then show ?thesis using run t_ok get_evolve_lanes [OF ok t] by (auto simp: task_step_def task_ok_def split: event.splits)
  next
    case Wait_Flow
    then show ?thesis using run t_ok get_flow_lanes [OF ok t] by (auto simp: task_step_def task_ok_def split: event.splits)
  next
    case (Reading ph)
    then show ?thesis using run by (auto simp: task_step_def split: event.splits option.splits intro!: out)
  next
    case (Joining ph err dl)
    then show ?thesis using run by (auto simp: task_step_def joined_lanes split: event.splits option.splits if_splits intro!: out)
  next
    case (Exiting ph err dl d)
    then have "tk_worker t = None" using t_ok by (simp add: task_ok_def)
    then show ?thesis using Exiting run by (auto simp: task_step_def job_exited_lanes split: event.splits intro!: out)
  qed (use live in simp)
qed

lemma leave_lanes:
  assumes ok: "lanes_ok a b c mg" and t: "mg_tasks mg i = Some t" "tk_stage t = Ended"
  shows "lanes_ok a b c (mg\<lparr>mg_tasks := (mg_tasks mg)(i := None), mg_registry := R\<rparr>)"
proof -
  have fin: "finite (dom (mg_tasks mg))" and none: "\<not> tk_pool t" "\<not> tk_evolve t" "\<not> tk_flow t"
    using ok t unfolding lanes_ok_def by blast+
  show ?thesis using ok none t held_update [OF fin, of tk_pool i None] held_update [OF fin, of tk_evolve i None]
      held_update [OF fin, of tk_flow i None]
    by (auto simp: lanes_ok_def holds_at_def)
qed

lemma abort_lanes:
  assumes ok: "lanes_ok a b c mg"
  shows "lanes_ok a b c (abort_task i mg)"
proof -
  have fin: "finite (dom (mg_tasks mg))" using ok by (simp add: lanes_ok_def)
  show ?thesis using ok pool_lane.abort_total [OF fin, of i] evolve_lane.abort_total [OF fin, of i] flow_lane.abort_total [OF fin, of i]
    by (simp add: lanes_ok_def)
qed

lemma register_lanes:
  assumes ok: "lanes_ok a b c mg" and none: "mg_tasks mg i = None \<or> (\<exists>t. mg_tasks mg i = Some t \<and> same_lanes (new_task m' job') t)"
  shows "lanes_ok a b c (register i (new_task m job) mg)"
proof -
  have fin: "finite (dom (mg_tasks mg))" using ok by (simp add: lanes_ok_def)
  show ?thesis using ok none held_update [OF fin, of tk_pool i "Some (new_task m job)"]
      held_update [OF fin, of tk_evolve i "Some (new_task m job)"] held_update [OF fin, of tk_flow i "Some (new_task m job)"]
    by (auto simp: lanes_ok_def register_def holds_at_def new_task_def same_lanes_def split: option.splits)
qed

lemma lanes_same:
  "mg_tasks mg' = mg_tasks mg \<Longrightarrow> mg_pool_free mg' = mg_pool_free mg \<Longrightarrow> mg_evolve_free mg' = mg_evolve_free mg \<Longrightarrow>
     mg_flow_free mg' = mg_flow_free mg \<Longrightarrow> lanes_ok a b c mg \<Longrightarrow> lanes_ok a b c mg'"
  by (simp add: lanes_ok_def)

lemma halt_lanes: "lanes_ok a b c mg \<Longrightarrow> lanes_ok a b c (snd (halt i now mg))"
proof (cases "i \<in> mg_registry mg")
  case True
  assume "lanes_ok a b c mg"
  then have "lanes_ok a b c (abort_task i (mg\<lparr>mg_registry := mg_registry mg - {i}\<rparr>))"
    by (intro abort_lanes) (simp add: lanes_ok_def)
  then show ?thesis using True
    by (cases "mark_halted i now (mg_store mg)") (auto simp: halt_def Let_def intro: lanes_same [rotated 4])
qed (auto simp: halt_def split: sum.split option.split)

lemma shutdown_abort_lanes: "lanes_ok a b c mg \<Longrightarrow> lanes_ok a b c (shutdown_abort i now mg)"
proof -
  assume "lanes_ok a b c mg"
  then have "lanes_ok a b c (abort_task i (mg\<lparr>mg_draining := mg_draining mg - {i}\<rparr>))"
    by (intro abort_lanes) (simp add: lanes_ok_def)
  then show ?thesis by (auto simp: shutdown_abort_def Let_def intro: lanes_same [rotated 4])
qed

lemma mstep_lanes:
  assumes fits: "mg_ok mg" and ok: "lanes_ok a b c mg" and run: "mstep E mg ev = Some mg'"
  shows "lanes_ok a b c mg'"
proof (cases "event_task ev")
  case (Some i)
  then obtain t where t: "mg_tasks mg i = Some t" and step: "task_step E i ev t mg = Some mg'"
    using run by (auto simp: mstep_task bind_eq_Some_conv)
  show ?thesis
  proof (cases "tk_stage t = Ended")
    case True
    have "tk_worker t = None" using mg_okD(2) [OF fits t] True by (simp add: task_ok_def)
    then show ?thesis using step True leave_lanes [OF ok t True] by (auto simp: task_step_def split: event.splits)
  next
    case False
    then show ?thesis using task_step_lanes [OF ok fits t step] by simp
  qed
next
  case None
  have creates: "lanes_ok a b c (snd (create_begin E i req now mg))" for i req now
    by (rule lanes_same [OF _ _ _ _ ok]) (auto simp: create_begin_def Let_def split: sum.split prod.split)
  have index: "lanes_ok a b c (snd (create_index i m spec mg))" for i m spec
    by (rule lanes_same [OF _ _ _ _ ok]) (auto simp: create_index_def Let_def split: sum.split prod.split)
  have spawn: "lanes_ok a b c (create_spawn i m spec mg)" if "mg_creating mg i = Some (m, spec, f)" for i m spec f
    unfolding create_spawn_def
    by (rule register_lanes [OF lanes_same [OF _ _ _ _ ok]]) (use mg_okD(7) [OF fits that] in simp_all)
  have orphans: "lanes_ok a b c x" if "orphan_drain E n el mg = Some x \<or> orphan_end n mg = Some x" for n el x
    using that by (auto simp: orphan_drain_def orphan_end_def split: if_splits intro!: lanes_same [OF _ _ _ _ ok])
  have others: "lanes_ok a b c (shutdown_begin mg)" "lanes_ok a b c (mg\<lparr>mg_draining := D\<rparr>)" "lanes_ok a b c (mg\<lparr>mg_store := st\<rparr>)" for D st
    using ok by (simp_all add: lanes_ok_def shutdown_begin_def)
  show ?thesis using run None
    by (cases ev) (auto split: if_splits option.splits bool.splits simp del: One_nat_def
      intro: creates index spawn halt_lanes [OF ok] shutdown_abort_lanes [OF ok] orphans others)
qed

lemma resume_each_lanes:
  "booting mg \<Longrightarrow> lanes_ok a b c mg \<Longrightarrow> (\<And>i t. mg_tasks mg i = Some t \<Longrightarrow> \<exists>m job. t = new_task m job) \<Longrightarrow> lanes_ok a b c (snd (resume_each es n mg))"
proof (induction es arbitrary: n mg)
  case (Cons e es)
  have one: "lanes_ok a b c (spawn_flow_backtest_resume m mg) \<and> (\<forall>i t. mg_tasks (spawn_flow_backtest_resume m mg) i = Some t \<longrightarrow> (\<exists>m job. t = new_task m job))" for m
  proof (cases "produced_vintage m")
    case None
    then show ?thesis using Cons.prems by (simp add: spawn_flow_backtest_resume_def)
  next
    case (Some v)
    have "mg_tasks mg (rm_id m) = None \<or> (\<exists>t. mg_tasks mg (rm_id m) = Some t \<and> same_lanes (new_task m (Resumed v)) t)"
      using Cons.prems(3) [of "rm_id m"] by (cases "mg_tasks mg (rm_id m)") (auto simp: new_task_def same_lanes_def)
    from register_lanes [OF Cons.prems(2) this] show ?thesis using Cons.prems(3) Some
      by (auto simp: spawn_flow_backtest_resume_def register_def)
  qed
  show ?case using Cons.prems one resume_one_ok [OF Cons.prems(1)]
    by (auto simp: read_meta_def split: option.split sum.split intro!: Cons.IH)
qed simp

lemma boot_lanes:
  assumes "stores_ok st"
  shows "lanes_ok (max a 1) (max b 1) (max c 1) (boot now st a b c)"
proof -
  let ?mg = "manager_new (snd (reconcile_orphans now st)) a b c"
  have "booting ?mg" using new_ok [OF reconcile_ok [OF assms]] by (auto simp: booting_def manager_new_def)
  moreover have "lanes_ok (max a 1) (max b 1) (max c 1) ?mg" by (simp add: lanes_ok_def manager_new_def held_def)
  ultimately show ?thesis by (auto simp: boot_def resume_orphaned_flows_def manager_new_def intro!: resume_each_lanes split: sum.split)
qed
end
