(* ===== verification/Run_Safety.thy ===== *)
theory Run_Safety imports Run_Lanes begin

text \<open>What the run manager promises over every interleaving, and two histories that break what its source says.\<close>

section \<open>The worker pool\<close>

text \<open>A run has a job under it from the spawn until its exit is taken.\<close>

definition has_job :: "('f, 'v) task \<Rightarrow> bool" where
  "has_job t \<longleftrightarrow> phase_of (tk_stage t) \<noteq> None"

lemma held_mono: "finite (dom tasks) \<Longrightarrow> (\<And>i t. tasks i = Some t \<Longrightarrow> P t \<Longrightarrow> Q t) \<Longrightarrow> held P tasks \<le> held Q tasks"
  unfolding held_def by (rule card_mono [OF held_set_finite]) auto

lemma runs_lanes:
  assumes "mg_ok mg" "lanes_ok a b c mg" "run_opt (mstep E) mg es = Some mg'"
  shows "mg_ok mg' \<and> lanes_ok a b c mg'"
  using assms(3) conjI [OF assms(1,2)] by (rule run_opt_invariant) (auto intro: mstep_ok mstep_lanes)

text \<open>
  C21. The worker pool is never oversubscribed and never leaks. From any boot over a store the program wrote
  (\<open>stores_ok\<close>) and whatever happens next
  (creations, exits, deadlines, halts, shutdowns, failed spawns), the permits free and the permits held add
  up to each lane's size; so at most that many jobs run at once, at most the evolve lane's size of
  evolution campaigns, and at most the flow lane's size of flows.
\<close>

theorem pool_never_oversubscribed:
  assumes "stores_ok st" "run_opt (mstep E) (boot now st p e f) evs = Some mg"
  shows "mg_pool_free mg + held tk_pool (mg_tasks mg) = max p 1 \<and> mg_evolve_free mg + held tk_evolve (mg_tasks mg) = max e 1 \<and>
     mg_flow_free mg + held tk_flow (mg_tasks mg) = max f 1 \<and> held has_job (mg_tasks mg) \<le> max p 1 \<and>
     held (\<lambda>t. has_job t \<and> job_evolves t) (mg_tasks mg) \<le> max e 1 \<and> held (\<lambda>t. has_job t \<and> job_flows t) (mg_tasks mg) \<le> max f 1"
proof -
  have ok: "mg_ok mg" "lanes_ok (max p 1) (max e 1) (max f 1) mg"
    using runs_lanes [OF boot_ok [OF assms(1)] boot_lanes [OF assms(1)] assms(2)] by simp_all
  then have fin: "finite (dom (mg_tasks mg))" by (simp add: lanes_ok_def)
  have t: "has_job t \<Longrightarrow> tk_pool t \<and> (job_evolves t \<longrightarrow> tk_evolve t) \<and> (job_flows t \<longrightarrow> tk_flow t)" if "mg_tasks mg i = Some t" for i t
    using mg_okD(2) [OF ok(1) that] by (auto simp: task_ok_def has_job_def)
  have "held has_job (mg_tasks mg) \<le> held tk_pool (mg_tasks mg)" "held (\<lambda>t. has_job t \<and> job_evolves t) (mg_tasks mg) \<le> held tk_evolve (mg_tasks mg)"
    "held (\<lambda>t. has_job t \<and> job_flows t) (mg_tasks mg) \<le> held tk_flow (mg_tasks mg)"
    using t by (auto intro!: held_mono [OF fin])
  then show ?thesis using ok(2) unfolding lanes_ok_def by linarith
qed

section \<open>A finished run stays finished\<close>

definition orphans_of :: "('f, 'v) manager \<Rightarrow> string \<Rightarrow> ('f, 'v) worker list" where
  "orphans_of mg i = filter (\<lambda>k. orphan_id k = i) (mg_orphans mg)"

definition finished_as :: "string \<Rightarrow> ('f, 'v) run_meta \<Rightarrow> ('f, 'v) manager \<Rightarrow> bool" where
  "finished_as i m mg \<longleftrightarrow> mg_ok mg \<and> rs_meta (mg_store mg) i = Some m \<and> \<not> is_live (rm_status m) \<and> orphans_of mg i = []"

lemma orphans_of_apart [simp]:
  "orphans_of (mg\<lparr>mg_draining := D\<rparr>) i = orphans_of mg i" "orphans_of (mg\<lparr>mg_store := st\<rparr>) i = orphans_of mg i"
  "orphans_of (shutdown_begin mg) i = orphans_of mg i" "mg_store (shutdown_begin mg) = mg_store mg"
  by (simp_all add: orphans_of_def shutdown_begin_def)

lemma abort_orphans:
  "mg_tasks mg i = None \<or> (\<exists>t. mg_tasks mg i = Some t \<and> tk_stage t = Ended \<and> task_ok files i t) \<Longrightarrow> mg_orphans (abort_task i mg) = mg_orphans mg"
  by (auto simp: abort_task_def release_def task_ok_def split: option.split)

lemma finished_task:
  assumes "finished_as i m mg"
  shows "mg_tasks mg i = None \<or> (\<exists>t. mg_tasks mg i = Some t \<and> tk_stage t = Ended \<and> task_ok (rs_files (mg_store mg)) i t)"
proof (cases "mg_tasks mg i")
  case (Some t)
  have ok: "mg_ok mg" and "stored_final (mg_store mg) i" using assms by (auto simp: finished_as_def stored_final_def)
  then show ?thesis using mg_okD(2) [OF ok Some] mg_okD(10) [OF ok] Some by auto
qed simp

lemma abort_other_orphans:
  assumes "mg_ok mg" "j \<noteq> i"
  shows "filter (\<lambda>k. orphan_id k = i) (mg_orphans (abort_task j mg)) = filter (\<lambda>k. orphan_id k = i) (mg_orphans mg)"
proof (cases "mg_tasks mg j")
  case (Some t)
  have "orphan_id k = j" if "tk_worker t = Some k" for k
    using mg_okD(2) [OF assms(1) Some] that by (auto simp: task_ok_def intro: worker_id)
  then show ?thesis using Some assms(2) by (auto simp: abort_task_def release_def split: option.split)
qed (simp add: abort_task_def)

lemma abort_finished:
  assumes "finished_as i m mg"
  shows "orphans_of (abort_task j mg) i = []"
  using assms abort_orphans [OF finished_task [OF assms]] abort_other_orphans [of mg j i]
  by (cases "j = i") (auto simp: orphans_of_def finished_as_def)

lemma tracked_finished [simp]:
  "finished_as i m mg \<Longrightarrow> finished_as i m (mg\<lparr>mg_registry := mg_registry mg - A\<rparr>)"
  "finished_as i m mg \<Longrightarrow> finished_as i m (mg\<lparr>mg_draining := mg_draining mg - A\<rparr>)"
  by (auto simp: finished_as_def orphans_of_def intro: registry_ok draining_ok)

lemma marks_finished:
  assumes "rs_meta st i = Some m" "\<not> is_live (rm_status m)" "stores_ok st"
  shows "rs_meta (snd (mark_halted j now st)) i = Some m" "rs_meta (terminally_mark j r now st) i = Some m"
proof -
  have "rm_id m' = k" if "rs_meta st k = Some m'" for k m' using assms(3) that by (auto simp: stores_ok_def stored_ok_def)
  then show "rs_meta (snd (mark_halted j now st)) i = Some m" "rs_meta (terminally_mark j r now st) i = Some m"
    using assms(1,2) by (auto simp: mark_halted_def terminally_mark_def read_meta_def split: option.split)
qed

lemma drain_other:
  "worker_ok j k \<Longrightarrow> drain_one E el k st = Some (k', st') \<Longrightarrow> j \<noteq> i \<Longrightarrow> rs_meta st' i = rs_meta st i"
  using drain_one_ok [of j k E el st k' st'] by (auto simp: writes_run_def)

lemma mstep_finished:
  assumes fin: "finished_as i m mg" and run: "mstep E mg ev = Some mg'"
  shows "finished_as i m mg'"
proof -
  have ok: "mg_ok mg" and stored: "rs_meta (mg_store mg) i = Some m" and final: "\<not> is_live (rm_status m)" and none: "orphans_of mg i = []"
    using fin by (simp_all add: finished_as_def)
  have ok': "mg_ok mg'" by (rule mstep_ok [OF ok run])
  have apart: "orphan_id k \<noteq> i" if "k \<in> set (mg_orphans mg)" for k
    using none that unfolding orphans_of_def by (metis (mono_tags, lifting) filter_empty_conv)
  have "rs_meta (mg_store mg') i = Some m \<and> orphans_of mg' i = []"
  proof (cases "event_task ev")
    case (Some j)
    then obtain t where t: "mg_tasks mg j = Some t" and step: "task_step E j ev t mg = Some mg'"
      using run by (auto simp: mstep_task bind_eq_Some_conv)
    from ok t step show ?thesis
    proof (cases rule: task_step_poll)
      case (Polls p mg1)
      have "j \<noteq> i" using finished_task [OF fin] t Polls(4) by auto
      moreover have "mg_store (settle j p mg1) = snd p" "mg_orphans (settle j p mg1) = mg_orphans mg"
        using Polls(2) by (auto simp: settle_def Let_def release_def apart_from_lanes_def)
      ultimately show ?thesis using Polls(1,3) stored none by (simp add: poll_ok_def writes_run_def orphans_of_def)
    qed (use stored none in \<open>simp add: orphans_of_def\<close>)
  next
    case None
    have aborts: "rs_meta (mg_store (abort_task j mg1)) i = Some m" "orphans_of (abort_task j mg1) i = []" if "finished_as i m mg1" for j mg1
      using that abort_finished [OF that] by (simp_all add: finished_as_def)
    have stores: "stores_ok (mg_store mg)" by (rule mg_okD(1) [OF ok])
    have halts: "rs_meta (mg_store (snd (halt j now mg))) i = Some m \<and> orphans_of (snd (halt j now mg)) i = []" for j now
      using stored none aborts(2) [OF tracked_finished(1) [OF fin, of "{j}"], of j] marks_finished(1) [OF stored final stores, of j now]
      by (cases "mark_halted j now (mg_store mg)") (auto simp: halt_def Let_def orphans_of_def split: sum.split option.split)
    have shuts: "rs_meta (mg_store (shutdown_abort j now mg)) i = Some m \<and> orphans_of (shutdown_abort j now mg) i = []" for j now
      using aborts(2) [OF tracked_finished(2) [OF fin, of "{j}"], of j] marks_finished(2) [OF stored final stores]
      by (auto simp: shutdown_abort_def Let_def orphans_of_def)
    have creates: "rs_meta (mg_store (snd (create_begin E j req now mg))) i = Some m \<and> orphans_of (snd (create_begin E j req now mg)) i = []"
      if "fresh_id mg j" for j req now
    proof -
      have "j \<noteq> i" using that stored by (auto simp: fresh_id_def)
      then show ?thesis using stored none
        by (auto simp: initial_fits(3) create_begin_def Let_def orphans_of_def init_run_def write_meta_def split: sum.split prod.split option.splits)
    qed
    have index: "rs_meta (mg_store (snd (create_index j mm spec mg))) i = Some m \<and> orphans_of (snd (create_index j mm spec mg)) i = []" for j mm spec
      using stored none by (auto simp: create_index_def Let_def orphans_of_def write_index_def split: sum.split prod.split option.splits)
    have spawn: "rs_meta (mg_store (create_spawn j mm spec mg)) i = Some m \<and> orphans_of (create_spawn j mm spec mg) i = []" for j mm spec
      using stored none by (simp add: create_spawn_def register_def orphans_of_def)
    have odrain: "rs_meta (mg_store x) i = Some m \<and> orphans_of x i = []" if orp: "orphan_drain E n el mg = Some x" for n el x
    proof -
      obtain k' st' where n: "n < length (mg_orphans mg)" and d: "drain_one E el (mg_orphans mg ! n) (mg_store mg) = Some (k', st')"
        and x: "x = mg\<lparr>mg_orphans := (mg_orphans mg)[n := k'], mg_store := st'\<rparr>"
        using orp by (auto simp: orphan_drain_def split: if_splits)
      have k: "mg_orphans mg ! n \<in> set (mg_orphans mg)" using n by simp
      note w = mg_okD(5) [OF ok k]
      have moved: "orphan_id k' \<noteq> i" using drain_one_ok [OF w d] worker_id apart [OF k] by metis
      have "\<forall>y \<in> set ((mg_orphans mg)[n := k']). orphan_id y \<noteq> i"
      proof
        fix y assume "y \<in> set ((mg_orphans mg)[n := k'])"
        then have "y = k' \<or> y \<in> set (mg_orphans mg)" using set_update_subset_insert by fastforce
        then show "orphan_id y \<noteq> i" using moved apart by blast
      qed
      then show ?thesis using drain_other [OF w d apart [OF k]] stored by (simp add: x orphans_of_def filter_empty_conv)
    qed
    have oend: "rs_meta (mg_store x) i = Some m \<and> orphans_of x i = []" if orp: "orphan_end n mg = Some x" for n x
    proof -
      have n: "n < length (mg_orphans mg)"
        and x: "x = mg\<lparr>mg_orphans := take n (mg_orphans mg) @ drop (Suc n) (mg_orphans mg), mg_store := drain_end (wk_state (mg_orphans mg ! n)) (mg_store mg)\<rparr>"
        using orp by (auto simp: orphan_end_def split: if_splits)
      have k: "mg_orphans mg ! n \<in> set (mg_orphans mg)" using n by simp
      have "rs_meta (drain_end (wk_state (mg_orphans mg ! n)) (mg_store mg)) i = rs_meta (mg_store mg) i"
        using apart [OF k] by (auto simp: drain_end_def orphan_id_def)
      then show ?thesis using apart stored by (auto simp: x orphans_of_def filter_empty_conv dest: in_set_takeD in_set_dropD)
    qed
    show ?thesis using run None stored none
      by (cases ev) (auto split: if_splits option.splits bool.splits simp: halts shuts creates index spawn dest: odrain oend)
  qed
  then show ?thesis using ok' final by (simp add: finished_as_def)
qed

interpretation finished: latch "mstep E" "finished_as i m"
  by unfold_locales (rule mstep_finished)

text \<open>
  C22. A finished run stays finished. Once a run's stored record is terminal and no orphaned drain worker of
  it is left, no interleaving of later steps (other runs, a halt of this one, a shutdown, its own supervisor
  still to be deregistered) changes the record; and its id is never given a second supervisor.
\<close>

theorem finished_run_stays_finished:
  assumes "stores_ok st" "run_opt (mstep E) (boot now st p e f) evs = Some mg" "rs_meta (mg_store mg) i = Some m" "\<not> is_live (rm_status m)"
    "orphans_of mg i = []" "run_opt (mstep E) mg later = Some mg'"
  shows "rs_meta (mg_store mg') i = Some m \<and> (\<forall>t. mg_tasks mg' i = Some t \<longrightarrow> tk_stage t = Ended)"
proof -
  have "mg_ok mg" by (rule runs_ok [OF boot_ok [OF assms(1)] assms(2)])
  then have "finished_as i m mg" using assms(3,4,5) by (simp add: finished_as_def)
  from finished.stays_latched [OF assms(6) this] have done': "finished_as i m mg'" .
  then show ?thesis using finished_task [OF done'] by (auto simp: finished_as_def)
qed

section \<open>Success is backed\<close>

text \<open>
  C23. Success is honest. In every reachable state a stored \<open>Succeeded\<close> record belongs to its run, has exit
  code zero, and each artefact it lists is on disk: \<open>result.json\<close>, or for a flow both sub-runs' results; and
  no evolution run's record ever carries a sealed vintage, whatever its job printed.
\<close>

theorem success_is_backed:
  assumes "stores_ok st" "run_opt (mstep E) (boot now st p e f) evs = Some mg" "rs_meta (mg_store mg) i = Some m"
  shows "rm_id m = i \<and> (rm_status m = Succeeded \<longrightarrow> rm_exit m = Some 0 \<and>
       rm_artifacts m = (if rm_type m = ''flow'' then [''train/result.json'', ''backtest/result.json''] else [''result.json'']) \<and>
       (\<forall>a \<in> set (rm_artifacts m). result_exists (mg_store mg) i a)) \<and>
     (rm_type m = ''evolve'' \<longrightarrow> produced_vintage m = None)"
proof -
  have "mg_ok mg" by (rule runs_ok [OF boot_ok [OF assms(1)] assms(2)])
  then have "stored_ok (rs_files (mg_store mg)) i m" using assms(3) mg_okD(1) by (auto simp: stores_ok_def)
  then show ?thesis by (auto simp: stored_ok_def honest_def flow_artefacts_def result_exists_def)
qed

section \<open>Halting while lines are queued\<close>

text \<open>
  C30. Halting can strand a run. Dropping a supervisor drops its handle on the drain worker, which the runtime
  does not cancel. When a progress line is still queued for the worker of a run, halting the run records it
  as failed, and the orphaned worker then writes its own copy back: the run is stored as running again, it
  has no supervisor and no registry entry, and halting it again answers that it is already terminal.
\<close>

theorem halting_can_strand_a_run:
  assumes "mg_ok mg" "i \<in> mg_registry mg" "mg_tasks mg i = Some t" "tk_worker t = Some k" "wk_queue k = [line]"
    "re_line E line = Some l" "bears_progress l" "rs_meta_write_fault (mg_store mg) i = None" "rs_meta_read_fault (mg_store mg) i = None"
    "rs_meta (mg_store mg) i = Some m" "is_live (rm_status m)"
  shows "\<exists>mg1 mg2. mstep E mg (Halt i now) = Some mg1 \<and> map_option rm_status (rs_meta (mg_store mg1) i) = Some Failed \<and>
     run_opt (mstep E) mg1 [Orphan_Drain (length (mg_orphans mg)) True, Orphan_End (length (mg_orphans mg))] = Some mg2 \<and>
     (\<exists>m'. rs_meta (mg_store mg2) i = Some m' \<and> is_live (rm_status m')) \<and> mg_tasks mg2 i = None \<and> i \<notin> mg_registry mg2 \<and>
     mg_orphans mg2 = mg_orphans mg \<and> (\<exists>s. is_live s \<and> fst (halt i later mg2) = Already_Terminal s)"
proof -
  have id: "rm_id m = i" using mg_okD(1) [OF assms(1)] assms(10) by (auto simp: stores_ok_def stored_ok_def)
  have k: "worker_ok i k" using mg_okD(2) [OF assms(1,3)] assms(4) by (auto simp: task_ok_def)
  define st where "st = save_meta (finish_failed m (rm_exit m) halt_reason now) (mg_store mg)"
  define mg1 where "mg1 = (abort_task i (mg\<lparr>mg_registry := mg_registry mg - {i}\<rparr>))\<lparr>mg_store := st\<rparr>"
  have halted: "mstep E mg (Halt i now) = Some mg1"
    using assms(2,9,10,11) by (simp add: halt_def Let_def mark_halted_def read_meta_def mg1_def st_def)
  have failed: "rs_meta st i = Some (finish_failed m (rm_exit m) halt_reason now)" using assms(8) id by (simp add: st_def)
  have orphans: "mg_orphans mg1 = mg_orphans mg @ [k]" using assms(3,4) by (simp add: mg1_def abort_task_def release_def)
  have store1: "mg_store mg1 = st" by (simp add: mg1_def)
  define d1 where "d1 = after_line (re_line E) (wk_evolve k) line (wk_state k)"
  define k2 where "k2 = k\<lparr>wk_state := fst (flush d1 (append_log i line st)), wk_queue := []\<rparr>"
  define st2 where "st2 = save_meta (dr_meta d1) (append_log i line st)"
  have kid: "rm_id (dr_meta (wk_state k)) = i" "is_live (rm_status (dr_meta (wk_state k)))" using k by (simp_all add: worker_ok_def Let_def)
  have d1: "dr_pending d1" "rm_id (dr_meta d1) = i" "is_live (rm_status (dr_meta d1))"
    using kid assms(6,7) by (simp_all add: d1_def after_line_def)
  have "drain_one E True k st = Some (k2, st2)"
    using assms(5) d1(1) kid(1) by (simp add: drain_one_def drain_line_outcome k2_def st2_def flush_def flip: d1_def)
  then have drained: "mstep E mg1 (Orphan_Drain (length (mg_orphans mg)) True) = Some (mg1\<lparr>mg_orphans := mg_orphans mg @ [k2], mg_store := st2\<rparr>)"
    by (simp add: orphan_drain_def orphans store1)
  have "\<not> dr_pending (wk_state k2)" by (simp add: k2_def flush_def)
  then have ended: "mstep E (mg1\<lparr>mg_orphans := mg_orphans mg @ [k2], mg_store := st2\<rparr>) (Orphan_End (length (mg_orphans mg))) =
      Some (mg1\<lparr>mg_orphans := mg_orphans mg, mg_store := st2\<rparr>)"
    by (simp add: orphan_end_def k2_def drain_end_def)
  define mg2 where "mg2 = mg1\<lparr>mg_orphans := mg_orphans mg, mg_store := st2\<rparr>"
  have run: "run_opt (mstep E) mg1 [Orphan_Drain (length (mg_orphans mg)) True, Orphan_End (length (mg_orphans mg))] = Some mg2"
    using drained ended by (simp add: mg2_def)
  have stored: "rs_meta (mg_store mg2) i = Some (dr_meta d1)" using assms(8) d1(2) by (simp add: mg2_def st2_def st_def)
  have gone: "mg_tasks mg2 i = None" "i \<notin> mg_registry mg2" "mg_orphans mg2 = mg_orphans mg" by (simp_all add: mg2_def mg1_def)
  have "rs_meta_read_fault (mg_store mg2) i = None" using assms(9) by (simp add: mg2_def st2_def st_def append_log_def)
  then have "fst (halt i later mg2) = Already_Terminal (rm_status (dr_meta d1))"
    using gone(2) stored by (simp add: halt_def read_meta_def)
  then show ?thesis using halted failed run stored gone d1(3) by (auto simp: mg1_def)
qed
end
