(* ===== verification/Run_Histories.thy ===== *)
theory Run_Histories imports Run_Safety begin

text \<open>Concrete histories of the run manager, and what a restart does.\<close>

section \<open>A toy job\<close>

definition toy_flow :: "rat flow_params" where
  "toy_flow = \<lparr>flp_seed = 7, flp_start = ''a'', flp_end = ''b'', flp_resolution = ''1h'', flp_generations = None, flp_population = None,
     flp_holdout = None, flp_embargo = None, flp_config = None, flp_profile = None, flp_indicator_subset = None, flp_evolved_pool = None,
     flp_evolved_formulas = None, flp_windows = None, flp_folds = None, flp_cost_stress_multiplier = None, flp_max_turnover_frac = None,
     flp_capacity_floor_usd = None, flp_dsr_cutoff = None, flp_pbo_cutoff = None, flp_ic_fdr_threshold = None, flp_purge = None\<rparr>"

text \<open>Lines: \<open>p\<close> a progress line, \<open>g\<close> a failed gate, \<open>d\<close> the end of a search that sealed a vintage.\<close>

definition toy_job_line :: "string \<Rightarrow> rat progress_line option" where
  "toy_job_line s =
     (if s = ''p'' then Some (Progress_Line 10 ''scan'' [])
      else if s = ''g'' then Some (Gate_Line 90 False [''dsr''] None None None None 3 None None None)
      else if s = ''d'' then Some (Done_Line [] 3 (Some ''v'') None False) else None)"

definition toy_env :: "(rat, unit) run_env" where
  "toy_env = \<lparr>re_params = (one_reader bare_search)\<lparr>pe_flow := (\<lambda>_. Inr toy_flow)\<rparr>, re_line = toy_job_line, re_parse = (\<lambda>_. Some ()),
     re_get = (\<lambda>_ _. Some ()), re_str = (\<lambda>_. Some ''x''), re_f64 = (\<lambda>_. Some 1), re_ops = rat_ops, re_epsilon = 1 / 1000\<rparr>"

definition fine_io :: io where "fine_io = \<lparr>io_dir = Inr (), io_spawn = Inr ()\<rparr>"

definition toy_create :: "string \<Rightarrow> string \<Rightarrow> (rat, unit) event list" where
  "toy_create i ty = [Create_Begin i \<lparr>cr_type = ty, cr_params = ()\<rparr> 1, Create_Index i, Create_Spawn i]"

definition two_searches :: "(rat, unit) event list" where
  "two_searches = toy_create ''r'' ''train'' @ toy_create ''s'' ''train'' @ [Get_Pool ''r'' 2 fine_io, Emit ''r'' ''p'']"


lemma blank_ok: "stores_ok blank_store"
  by (simp add: stores_ok_def blank_store_def)

lemma two_searches_run:
  "map_option (\<lambda>mg. (mg_pool_free mg, map_option tk_stage (mg_tasks mg ''r''), mstep toy_env mg (Get_Pool ''s'' 3 fine_io) = None))
     (run_opt (mstep toy_env) (boot 0 blank_store 1 1 1) two_searches) = Some (0, Some (Reading Single), True)"
  unfolding map_option_case Option.is_none_def [symmetric] by code_simp

theorem pool_never_oversubscribed_witness:
  "\<exists>mg. run_opt (mstep toy_env) (boot 0 blank_store 1 1 1) two_searches = Some mg \<and> mg_pool_free mg = 0 \<and>
     mstep toy_env mg (Get_Pool ''s'' 3 fine_io) = None \<and> held has_job (mg_tasks mg) \<le> 1"
proof -
  obtain mg where run: "run_opt (mstep toy_env) (boot 0 blank_store 1 1 1) two_searches = Some mg" and free: "mg_pool_free mg = 0"
    and blocked: "mstep toy_env mg (Get_Pool ''s'' 3 fine_io) = None"
    using two_searches_run by auto
  show ?thesis using run free blocked pool_never_oversubscribed [OF blank_ok run] by auto
qed

text \<open>One search that succeeds; then its supervisor deregisters, and it is halted in vain.\<close>

definition good_search :: "(rat, unit) event list" where
  "good_search = toy_create ''r'' ''train'' @ [Get_Pool ''r'' 2 fine_io, Emit ''r'' ''p'', Drain ''r'' False, Emit ''r'' ''d'', Drain ''r'' False,
     Read_End ''r'' [], Joined ''r'', Artefact ''r'' ''result.json'' [], Child_Exit ''r'' 5 (Some 0) fine_io]"

definition aftermath :: "(rat, unit) event list" where
  "aftermath = [Halt ''r'' 6, Shutdown, Create_Begin ''q'' \<lparr>cr_type = ''train'', cr_params = ()\<rparr> 7]"

lemma good_search_run:
  "map_option (\<lambda>mg. (map_option (\<lambda>m. (rm_status m, rm_artifacts m, produced_vintage m)) (rs_meta (mg_store mg) ''r''), mg_orphans mg,
        map_option (\<lambda>_. ()) (run_opt (mstep toy_env) mg aftermath)))
     (run_opt (mstep toy_env) (boot 0 blank_store 1 1 1) good_search) = Some (Some (Succeeded, [''result.json''], Some ''v''), [], Some ())"
  by code_simp

theorem finished_run_stays_finished_witness:
  "\<exists>mg mg' m. run_opt (mstep toy_env) (boot 0 blank_store 1 1 1) good_search = Some mg \<and> run_opt (mstep toy_env) mg aftermath = Some mg' \<and>
     rs_meta (mg_store mg') ''r'' = Some m \<and> rm_status m = Succeeded"
proof -
  obtain mg mg' m where run: "run_opt (mstep toy_env) (boot 0 blank_store 1 1 1) good_search = Some mg"
    and m: "rs_meta (mg_store mg) ''r'' = Some m" "rm_status m = Succeeded" and none: "mg_orphans mg = []"
    and later: "run_opt (mstep toy_env) mg aftermath = Some mg'"
    using good_search_run by auto
  have "\<not> is_live (rm_status m)" "orphans_of mg ''r'' = []" using m none by (simp_all add: orphans_of_def)
  from finished_run_stays_finished [OF blank_ok run m(1) this later] show ?thesis using run later m(2) by blast
qed

theorem success_is_backed_witness:
  "\<exists>mg m. run_opt (mstep toy_env) (boot 0 blank_store 1 1 1) good_search = Some mg \<and> rs_meta (mg_store mg) ''r'' = Some m \<and>
     rm_exit m = Some 0 \<and> result_exists (mg_store mg) ''r'' ''result.json''"
proof -
  obtain mg m where run: "run_opt (mstep toy_env) (boot 0 blank_store 1 1 1) good_search = Some mg"
    and m: "rs_meta (mg_store mg) ''r'' = Some m" "rm_status m = Succeeded" "rm_artifacts m = [''result.json'']"
    using good_search_run by auto
  show ?thesis using run m success_is_backed [OF blank_ok run m(1)] by auto
qed

text \<open>The hypotheses of the stranded run, met after one queued line.\<close>

definition one_search :: "(rat, unit) event list" where
  "one_search = toy_create ''r'' ''train'' @ [Get_Pool ''r'' 2 fine_io, Emit ''r'' ''p'']"

lemma one_search_run:
  "map_option (\<lambda>mg. (''r'' \<in> mg_registry mg, map_option (\<lambda>t. map_option wk_queue (tk_worker t)) (mg_tasks mg ''r''),
        map_option rm_status (rs_meta (mg_store mg) ''r''), rs_meta_write_fault (mg_store mg) ''r'', rs_meta_read_fault (mg_store mg) ''r''))
     (run_opt (mstep toy_env) (boot 0 blank_store 1 1 1) one_search) = Some (True, Some (Some [''p'']), Some Running, None, None)"
  by code_simp

theorem halting_can_strand_a_run_witness:
  "\<exists>mg. run_opt (mstep toy_env) (boot 0 blank_store 1 1 1)
       (one_search @ [Halt ''r'' 9, Orphan_Drain 0 True, Orphan_End 0]) = Some mg \<and>
     map_option rm_status (rs_meta (mg_store mg) ''r'') = Some Running \<and> fst (halt ''r'' 10 mg) = Already_Terminal Running"
proof -
  have whole: "map_option (\<lambda>mg. (mg_orphans mg, map_option rm_status (rs_meta (mg_store mg) ''r''), fst (halt ''r'' 10 mg)))
      (run_opt (mstep toy_env) (boot 0 blank_store 1 1 1) (one_search @ [Halt ''r'' 9, Orphan_Drain 0 True, Orphan_End 0])) =
      Some ([], Some Running, Already_Terminal Running)" by code_simp
  obtain mg where run: "run_opt (mstep toy_env) (boot 0 blank_store 1 1 1) one_search = Some mg"
    and reg: "''r'' \<in> mg_registry mg" and wf: "rs_meta_write_fault (mg_store mg) ''r'' = None" and rf: "rs_meta_read_fault (mg_store mg) ''r'' = None"
    using one_search_run by auto
  obtain t k m where t: "mg_tasks mg ''r'' = Some t" "tk_worker t = Some k" "wk_queue k = [''p'']" and m: "rs_meta (mg_store mg) ''r'' = Some m" "rm_status m = Running"
    using one_search_run run by auto
  have line: "re_line toy_env ''p'' = Some (Progress_Line 10 ''scan'' [])" by (simp add: toy_env_def toy_job_line_def)
  have live: "is_live (rm_status m)" using m(2) by simp
  note strand = halting_can_strand_a_run [OF runs_ok [OF boot_ok [OF blank_ok] run] reg t line _ wf rf m(1) live, of 9 10]
  then show ?thesis using whole by (auto simp: strand)
qed

section \<open>A flow interrupted after its search\<close>

definition flow_search :: "(rat, unit) event list" where
  "flow_search = toy_create ''r'' ''flow'' @ [Get_Pool ''r'' 2 fine_io, Get_Flow ''r'' 3 fine_io, Emit ''r'' ''g'', Emit ''r'' ''d'',
     Drain ''r'' False, Drain ''r'' False, Artefact ''r'' ''train/result.json'' []]"

definition flow_finish :: "(rat, unit) event list" where
  "flow_finish = [Read_End ''r'' [], Joined ''r'', Child_Exit ''r'' 5 (Some 0) fine_io]"

definition flow_restarted :: "(rat, unit) event list" where
  "flow_restarted = [Get_Pool ''r'' 10 fine_io, Get_Flow ''r'' 11 fine_io, Emit ''r'' ''d'', Drain ''r'' False,
     Artefact ''r'' ''backtest/result.json'' []] @ flow_finish"

text \<open>
  A restart lets a flow skip its gate. The search of a flow reports that its candidate failed the
  promotion gate, and seals its vintage as every search does. Left alone the flow then fails and runs no
  backtest. When the server is restarted before the supervisor has recorded that, the flow counts as
  resumable: its backtest is run on the refused vintage and the flow is recorded as succeeded, with the
  failed gate in its own record.
\<close>

theorem restart_skips_the_gate:
  "\<exists>mg left restarted m m'. run_opt (mstep toy_env) (boot 0 blank_store 1 1 1) flow_search = Some mg \<and>
     run_opt (mstep toy_env) mg flow_finish = Some left \<and> rs_meta (mg_store left) ''r'' = Some m \<and> rm_status m = Failed \<and>
     run_opt (mstep toy_env) (boot 9 (mg_store mg) 1 1 1) flow_restarted = Some restarted \<and>
     rs_meta (mg_store restarted) ''r'' = Some m' \<and> rm_status m' = Succeeded \<and> \<not> gate_promoted m'"
proof -
  have "map_option (\<lambda>mg. (map_option (\<lambda>l. map_option rm_status (rs_meta (mg_store l) ''r'')) (run_opt (mstep toy_env) mg flow_finish),
          map_option (\<lambda>l. map_option (\<lambda>m. (rm_status m, gate_promoted m)) (rs_meta (mg_store l) ''r''))
            (run_opt (mstep toy_env) (boot 9 (mg_store mg) 1 1 1) flow_restarted)))
      (run_opt (mstep toy_env) (boot 0 blank_store 1 1 1) flow_search) = Some (Some (Some Failed), Some (Some (Succeeded, False)))"
    by code_simp
  then show ?thesis by auto
qed
end
