(* ===== verification/Run_Restart.thy ===== *)
theory Run_Restart imports Run_Safety begin

text \<open>What booting over a store left by a dead process does: every live run is failed or resumed.\<close>

text \<open>No access the boot makes of the store fails: neither a read, nor the write of a record it fails.\<close>

definition store_works :: "('f, 'v) run_store \<Rightarrow> bool" where
  "store_works st \<longleftrightarrow> rs_index_read_fault st = None \<and> (\<forall>i. rs_meta_read_fault st i = None) \<and> (\<forall>i. rs_meta_write_fault st i = None)"

text \<open>The record the reconciler leaves for a run.\<close>

definition reconciled :: "u64 \<Rightarrow> ('f, 'v) run_store \<Rightarrow> ('f, 'v) run_meta \<Rightarrow> ('f, 'v) run_meta" where
  "reconciled now st m =
     (if is_live (rm_status m) \<and> classify_orphan st m = Fail_Orphan then finish_failed m (rm_exit m) reconcile_reason now else m)"

lemma classify_same_files: "rs_files st' = rs_files st \<Longrightarrow> classify_orphan st' m = classify_orphan st m"
  by (simp add: classify_orphan_def result_exists_def)

lemma reconciled_twice: "rs_files st' = rs_files st \<Longrightarrow> reconciled now st' (reconciled now st m) = reconciled now st m"
  using classify_same_files [of st' st m] by (simp add: reconciled_def)

lemma reconcile_each_spec:
  assumes "store_works st" "stores_ok st"
  shows "\<exists>n'. reconcile_each now es n st = (Inr n', st\<lparr>rs_meta := (\<lambda>i. if i \<in> ie_id ` set es then map_option (reconciled now st) (rs_meta st i) else rs_meta st i)\<rparr>)"
  using assms
proof (induction es arbitrary: n st)
  case Nil
  then show ?case by simp
next
  case (Cons e es)
  let ?i = "ie_id e"
  have rd: "read_meta st ?i = Inr (rs_meta st ?i)" using Cons.prems by (simp add: read_meta_def store_works_def)
  show ?case
  proof (cases "rs_meta st ?i")
    case None
    then have "(\<lambda>i. if i \<in> ie_id ` set es then map_option (reconciled now st) (rs_meta st i) else rs_meta st i) =
        (\<lambda>i. if i \<in> ie_id ` set (e # es) then map_option (reconciled now st) (rs_meta st i) else rs_meta st i)"
      by (intro ext) auto
    then show ?thesis using Cons.IH [OF Cons.prems, of n] rd None by simp
  next
    case (Some m)
    have mid: "rm_id m = ?i" using Cons.prems Some by (auto simp: stores_ok_def stored_ok_def)
    show ?thesis
    proof (cases "is_live (rm_status m) \<and> classify_orphan st m = Fail_Orphan")
      case False
      then have "reconciled now st m = m" by (auto simp: reconciled_def)
      with Some have "(\<lambda>i. if i \<in> ie_id ` set es then map_option (reconciled now st) (rs_meta st i) else rs_meta st i) =
          (\<lambda>i. if i \<in> ie_id ` set (e # es) then map_option (reconciled now st) (rs_meta st i) else rs_meta st i)"
        by (intro ext) auto
      then show ?thesis using Cons.IH [OF Cons.prems, of n] rd Some False by auto
    next
      case True
      define m1 where "m1 = finish_failed m (rm_exit m) reconcile_reason now"
      have m1: "reconciled now st m = m1" using True by (simp add: reconciled_def m1_def)
      define st1 where "st1 = save_meta m1 st"
      have st1: "rs_meta st1 = (rs_meta st)(?i \<mapsto> m1)" "rs_files st1 = rs_files st" "store_works st1"
        using Cons.prems mid by (simp_all add: st1_def m1_def store_works_def)
      have same: "reconciled now st1 = reconciled now st" using classify_same_files [OF st1(2)] by (intro ext) (simp add: reconciled_def)
      have again: "reconciled now st m1 = m1" using reconciled_twice [of st st now m] m1 by simp
      have upd: "st1\<lparr>rs_meta := f\<rparr> = st\<lparr>rs_meta := f\<rparr>" for f
        using Cons.prems mid by (simp add: st1_def m1_def save_meta_def write_meta_def store_works_def)
      have "stores_ok st1" unfolding st1_def m1_def by (rule finish_stores [OF Cons.prems(2) Some])
      from Cons.IH [OF st1(3) this, of "n + 1", unfolded upd same st1(1)] obtain n' where
        run: "reconcile_each now es (n + 1) st1 = (Inr n', st\<lparr>rs_meta := (\<lambda>i. if i \<in> ie_id ` set es then map_option (reconciled now st) (((rs_meta st)(?i \<mapsto> m1)) i)
            else ((rs_meta st)(?i \<mapsto> m1)) i)\<rparr>)"
        by blast
      have "(\<lambda>i. if i \<in> ie_id ` set es then map_option (reconciled now st) (((rs_meta st)(?i \<mapsto> m1)) i) else ((rs_meta st)(?i \<mapsto> m1)) i) =
          (\<lambda>i. if i \<in> ie_id ` set (e # es) then map_option (reconciled now st) (rs_meta st i) else rs_meta st i)"
        using Some again m1 by (intro ext) auto
      note run' = run [unfolded this]
      then have "reconcile_each now es (n + 1) st1 =
          (Inr n', st\<lparr>rs_meta := (\<lambda>i. if i \<in> ie_id ` set (e # es) then map_option (reconciled now st) (rs_meta st i) else rs_meta st i)\<rparr>)" .
      moreover have "reconcile_each now (e # es) n st = reconcile_each now es (n + 1) st1" using rd Some True by (simp add: st1_def m1_def)
      ultimately show ?thesis by (intro exI [of _ n']) (simp only:)
    qed
  qed
qed

text \<open>Every live run of the index has a supervisor waiting for the pool, which will run only the backtest.\<close>

definition resumes :: "('f, 'v) manager \<Rightarrow> string \<Rightarrow> ('f, 'v) run_meta \<Rightarrow> bool" where
  "resumes mg i m \<longleftrightarrow> (\<exists>v. produced_vintage m = Some v \<and> mg_tasks mg i = Some (new_task m (Resumed v)) \<and> i \<in> mg_registry mg)"

lemma resume_each_spec:
  assumes "store_works (mg_store mg)" "stores_ok (mg_store mg)"
    "\<And>i m. rs_meta (mg_store mg) i = Some m \<Longrightarrow> i \<in> ie_id ` set done' \<Longrightarrow> is_live (rm_status m) \<Longrightarrow> classify_orphan (mg_store mg) m = Resume_Backtest \<Longrightarrow> resumes mg i m"
    "resume_each es n mg = (r, mg')"
  shows "(\<exists>n'. r = Inr n') \<and> mg_store mg' = mg_store mg \<and>
    (\<forall>i m. rs_meta (mg_store mg) i = Some m \<longrightarrow> i \<in> ie_id ` set (done' @ es) \<longrightarrow> is_live (rm_status m) \<longrightarrow>
       classify_orphan (mg_store mg) m = Resume_Backtest \<longrightarrow> resumes mg' i m)"
  using assms
proof (induction es arbitrary: n mg done')
  case Nil
  then show ?case by auto
next
  case (Cons e es)
  let ?i = "ie_id e"
  have rd: "read_meta (mg_store mg) ?i = Inr (rs_meta (mg_store mg) ?i)" using Cons.prems(1) by (simp add: read_meta_def store_works_def)
  define due where "due m \<longleftrightarrow> is_live (rm_status m) \<and> classify_orphan (mg_store mg) m = Resume_Backtest" for m
  define mg1 where "mg1 = (case rs_meta (mg_store mg) ?i of Some m \<Rightarrow> if due m then spawn_flow_backtest_resume m mg else mg | None \<Rightarrow> mg)"
  define n1 where "n1 = (case rs_meta (mg_store mg) ?i of Some m \<Rightarrow> if due m then n + 1 else n | None \<Rightarrow> n)"
  have step: "resume_each (e # es) n mg = resume_each es n1 mg1"
    using rd by (simp add: mg1_def n1_def due_def split: option.split)
  have store: "mg_store mg1 = mg_store mg" by (simp add: mg1_def split: option.split)
  have mid: "rm_id m = i" if "rs_meta (mg_store mg) i = Some m" for i m using Cons.prems(2) that by (auto simp: stores_ok_def stored_ok_def)
  have known: "resumes mg1 i m" if m: "rs_meta (mg_store mg) i = Some m" and i: "i \<in> ie_id ` set (done' @ [e])" and d: "due m" for i m
  proof (cases "i = ?i")
    case True
    obtain v where "produced_vintage m = Some v" using d by (auto simp: due_def classify_resume)
    then show ?thesis using True m d mid [OF m] by (simp add: mg1_def resumes_def spawn_flow_backtest_resume_def register_def)
  next
    case False
    then have "resumes mg i m" using Cons.prems(3) [OF m] i d by (auto simp: due_def)
    then show ?thesis using False mid
      by (auto simp: mg1_def resumes_def spawn_flow_backtest_resume_def register_def split: option.split)
  qed
  have "resume_each es n1 mg1 = (r, mg')" using Cons.prems(4) step by simp
  from Cons.IH [of mg1 "done' @ [e]" n1, unfolded store, OF Cons.prems(1,2) _ this] known show ?case by (simp add: due_def store)
qed

text \<open>No other run gets a supervisor.\<close>

lemma resume_each_only:
  "stores_ok (mg_store mg) \<Longrightarrow> resume_each es n mg = (r, mg') \<Longrightarrow> mg_tasks mg' i \<noteq> None \<Longrightarrow>
     mg_tasks mg i \<noteq> None \<or> (\<exists>m. rs_meta (mg_store mg) i = Some m \<and> is_live (rm_status m) \<and> classify_orphan (mg_store mg) m = Resume_Backtest)"
proof (induction es arbitrary: n mg)
  case (Cons e es)
  have spawn: "mg_store (spawn_flow_backtest_resume m mg) = mg_store mg"
    "mg_tasks (spawn_flow_backtest_resume m mg) i \<noteq> None \<Longrightarrow> mg_tasks mg i \<noteq> None \<or> i = rm_id m" for m
    by (auto simp: spawn_flow_backtest_resume_def register_def split: option.splits if_splits)
  have mid: "rm_id m = j" if "rs_meta (mg_store mg) j = Some m" for j m using Cons.prems(1) that by (auto simp: stores_ok_def stored_ok_def)
  consider "\<exists>n1. resume_each es n1 mg = (r, mg')" | "r \<noteq> r \<or> mg' = mg"
    | m n1 where "rs_meta (mg_store mg) (ie_id e) = Some m" "is_live (rm_status m)" "classify_orphan (mg_store mg) m = Resume_Backtest"
        "resume_each es n1 (spawn_flow_backtest_resume m mg) = (r, mg')"
    using Cons.prems(2) by (auto simp: read_meta_def split: option.splits if_splits)
  then show ?case
  proof cases
    case 1
    then show ?thesis using Cons.IH Cons.prems(1,3) by blast
  next
    case 3
    then show ?thesis
      using Cons.IH [OF _ 3(4) Cons.prems(3)] Cons.prems(1) spawn(1) [of m] spawn(2) [of m] mid [OF 3(1)] by auto
  qed (use Cons.prems(3) in auto)
qed auto

text \<open>A flow whose vintage is sealed, whose search result is on disk and whose backtest has not finished.\<close>

definition interrupted_backtest :: "('f, 'v) run_store \<Rightarrow> string \<Rightarrow> ('f, 'v) run_meta \<Rightarrow> string \<Rightarrow> bool" where
  "interrupted_backtest st i m v \<longleftrightarrow>
     rm_type m = ''flow'' \<and> (\<exists>tp. rm_train m = Some tp \<and> tr_vintage tp = Some v) \<and>
     rs_files st (i, ''train/result.json'') \<noteq> None \<and> rs_files st (i, ''backtest/result.json'') = None"

lemma classify_interrupted:
  "classify_orphan st m = Resume_Backtest \<longleftrightarrow> (\<exists>v. interrupted_backtest st (rm_id m) m v)"
  by (auto simp: classify_resume interrupted_backtest_def produced_vintage_def result_exists_def bind_eq_Some_conv)

definition failed_record :: "u64 \<Rightarrow> ('f, 'v) run_meta \<Rightarrow> ('f, 'v) run_meta" where
  "failed_record now m = m\<lparr>rm_status := Failed, rm_error := Some reconcile_reason,
     rm_finished_ms := Some (case rm_finished_ms m of None \<Rightarrow> now | Some t \<Rightarrow> t)\<rparr>"

definition waits_for_pool :: "('f, 'v) run_meta \<Rightarrow> string \<Rightarrow> ('f, 'v) task" where
  "waits_for_pool m v = \<lparr>tk_meta = m, tk_job = Resumed v, tk_stage = Wait_Pool, tk_worker = None, tk_pool = False,
     tk_evolve = False, tk_flow = False\<rparr>"

text \<open>
  C24. After a restart nothing is left half-alive. Over a store whose index and records can be read and written
  (\<open>store_works\<close>; records name their own runs, \<open>stores_ok\<close>), booting leaves every finished record as it
  was and without a supervisor; an interrupted flow whose vintage is sealed, whose search result is on disk and
  whose backtest has not finished keeps its record and has exactly one supervisor, waiting for the pool
  without a worker or a permit, which will run the backtest of its recorded vintage; and every other
  interrupted run of the index is recorded as failed with the reconciler's reason and has no supervisor.
\<close>

theorem restart_leaves_no_zombie:
  assumes "store_works st" "stores_ok st" "e \<in> set (rs_index st)" "rs_meta st (ie_id e) = Some m"
  shows "(let mg = boot now st a b c; record = rs_meta (mg_store mg) (ie_id e); supervisor = mg_tasks mg (ie_id e) in
     (rm_status m \<notin> {Queued, Running} \<longrightarrow> record = Some m \<and> supervisor = None) \<and>
     (\<forall>v. rm_status m \<in> {Queued, Running} \<longrightarrow> interrupted_backtest st (ie_id e) m v \<longrightarrow>
        record = Some m \<and> supervisor = Some (waits_for_pool m v) \<and> ie_id e \<in> mg_registry mg) \<and>
     (rm_status m \<in> {Queued, Running} \<longrightarrow> (\<forall>v. \<not> interrupted_backtest st (ie_id e) m v) \<longrightarrow>
        record = Some (failed_record now m) \<and> supervisor = None))"
proof -
  obtain n' where rec: "reconcile_each now (rs_index st) 0 st =
      (Inr n', st\<lparr>rs_meta := (\<lambda>i. if i \<in> ie_id ` set (rs_index st) then map_option (reconciled now st) (rs_meta st i) else rs_meta st i)\<rparr>)"
    using reconcile_each_spec [OF assms(1,2), of now "rs_index st" 0] by auto
  define st1 where "st1 = snd (reconcile_orphans now st)"
  have st1: "st1 = st\<lparr>rs_meta := (\<lambda>i. if i \<in> ie_id ` set (rs_index st) then map_option (reconciled now st) (rs_meta st i) else rs_meta st i)\<rparr>"
    using rec assms(1) by (simp add: st1_def reconcile_orphans_def read_index_def store_works_def)
  have rd: "store_works st1" and files: "rs_files st1 = rs_files st" and index: "rs_index st1 = rs_index st" "rs_index_read_fault st1 = None"
    using assms(1) by (simp_all add: st1 store_works_def)
  have ok: "stores_ok st1" unfolding st1_def by (rule reconcile_ok [OF assms(2)])
  have m1: "rs_meta st1 (ie_id e) = Some (reconciled now st m)" using assms(3,4) by (simp add: st1)
  let ?mg = "manager_new st1 a b c"
  obtain r mg' where res: "resume_each (rs_index st1) 0 ?mg = (r, mg')" by (cases "resume_each (rs_index st1) 0 ?mg")
  have mg: "mg_store ?mg = st1" by (simp add: manager_new_def)
  have boot: "boot now st a b c = mg'"
    using res index by (simp add: boot_def resume_orphaned_flows_def read_index_def mg flip: st1_def)
  have spec: "mg_store mg' = st1 \<and> (\<forall>i m. rs_meta st1 i = Some m \<longrightarrow> i \<in> ie_id ` set (rs_index st1) \<longrightarrow> is_live (rm_status m) \<longrightarrow>
      classify_orphan st1 m = Resume_Backtest \<longrightarrow> resumes mg' i m)"
    using resume_each_spec [of ?mg "[]" "rs_index st1" 0 r mg', unfolded mg, OF rd ok _ res] by simp
  have mid: "rm_id m = ie_id e" using assms(2,4) by (auto simp: stores_ok_def stored_ok_def)
  have lv: "rm_status m \<in> {Queued, Running} \<longleftrightarrow> is_live (rm_status m)" by (simp add: is_live_def)
  have store: "mg_store mg' = st1" using spec by simp
  have cls: "classify_orphan st1 x = classify_orphan st x" for x by (rule classify_same_files [OF files])
  have none: "mg_tasks mg' (ie_id e) = None" if "\<not> (is_live (rm_status m) \<and> classify_orphan st m = Resume_Backtest)"
  proof (rule ccontr)
    assume "mg_tasks mg' (ie_id e) \<noteq> None"
    then have "is_live (rm_status (reconciled now st m)) \<and> classify_orphan st (reconciled now st m) = Resume_Backtest"
      using resume_each_only [of ?mg "rs_index st1" 0 r mg' "ie_id e", unfolded mg, OF ok res] m1 cls by (simp add: manager_new_def)
    then show False using that by (auto simp: reconciled_def finish_failed_def is_live_def split: if_splits)
  qed
  show ?thesis
  proof (cases "is_live (rm_status m)")
    case False
    then show ?thesis using m1 none lv by (simp add: boot store reconciled_def Let_def)
  next
    case True
    show ?thesis
    proof (cases "classify_orphan st m = Resume_Backtest")
      case resume: True
      then have "reconciled now st m = m" by (simp add: reconciled_def)
      then have "resumes mg' (ie_id e) m" using spec m1 True resume cls assms(3) index(1) by simp
      then have "mg_tasks mg' (ie_id e) = Some (waits_for_pool m v) \<and> ie_id e \<in> mg_registry mg'"
        if "interrupted_backtest st (ie_id e) m v" for v
        using that by (auto simp: resumes_def interrupted_backtest_def produced_vintage_def new_task_def waits_for_pool_def)
      then show ?thesis using True m1 \<open>reconciled now st m = m\<close> resume mid lv
        by (auto simp: boot store Let_def classify_interrupted)
    next
      case False
      then have "classify_orphan st m = Fail_Orphan" by (cases "classify_orphan st m") simp_all
      moreover have "\<not> interrupted_backtest st (ie_id e) m v" for v using False mid by (auto simp: classify_interrupted)
      moreover have "finish_failed m (rm_exit m) reconcile_reason now = failed_record now m"
        by (simp add: finish_failed_def failed_record_def)
      ultimately show ?thesis using True False m1 none lv by (simp add: boot store reconciled_def Let_def)
    qed
  qed
qed

definition sealed_flow :: "(rat, unit) run_meta" where
  "sealed_flow = running_meta\<lparr>rm_id := ''f'', rm_type := ''flow'', rm_train := Some (default_train_progress\<lparr>tr_vintage := Some ''v''\<rparr>)\<rparr>"

definition crashed_store :: "(rat, unit) run_store" where
  "crashed_store = blank_store\<lparr>rs_meta := [''r'' \<mapsto> running_meta, ''f'' \<mapsto> sealed_flow],
     rs_index := [\<lparr>ie_id = ''r'', ie_type = ''evolve'', ie_created_ms = 1, ie_label = []\<rparr>, \<lparr>ie_id = ''f'', ie_type = ''flow'', ie_created_ms = 1, ie_label = []\<rparr>],
     rs_files := [(''f'', ''train/result.json'') \<mapsto> []]\<rparr>"

theorem restart_leaves_no_zombie_witness:
  "rs_meta (mg_store (boot 9 crashed_store 1 1 1)) ''r'' = Some (failed_record 9 running_meta) \<and>
   mg_tasks (boot 9 crashed_store 1 1 1) ''r'' = None \<and>
   rs_meta (mg_store (boot 9 crashed_store 1 1 1)) ''f'' = Some sealed_flow \<and>
   mg_tasks (boot 9 crashed_store 1 1 1) ''f'' = Some (waits_for_pool sealed_flow ''v'')"
proof -
  have ok: "store_works crashed_store" "stores_ok crashed_store"
    by (auto simp: store_works_def stores_ok_def stored_ok_def crashed_store_def blank_store_def sealed_flow_def running_meta_def produced_vintage_def)
  have resumable: "interrupted_backtest crashed_store ''f'' sealed_flow ''v''" "\<And>v. \<not> interrupted_backtest crashed_store ''r'' running_meta v"
    by (simp_all add: interrupted_backtest_def sealed_flow_def running_meta_def crashed_store_def blank_store_def)
  have live: "rm_status running_meta \<in> {Queued, Running}" "rm_status sealed_flow \<in> {Queued, Running}"
    by (simp_all add: running_meta_def sealed_flow_def)
  have known: "rs_meta crashed_store ''r'' = Some running_meta" "rs_meta crashed_store ''f'' = Some sealed_flow" by (simp_all add: crashed_store_def)
  have e: "\<lparr>ie_id = ''r'', ie_type = ''evolve'', ie_created_ms = 1, ie_label = []\<rparr> \<in> set (rs_index crashed_store)"
    "\<lparr>ie_id = ''f'', ie_type = ''flow'', ie_created_ms = 1, ie_label = []\<rparr> \<in> set (rs_index crashed_store)" by (simp_all add: crashed_store_def)
  note failed = restart_leaves_no_zombie [OF ok e(1), of running_meta 9 1 1 1, unfolded Let_def index_entry.simps]
    and kept = restart_leaves_no_zombie [OF ok e(2), of sealed_flow 9 1 1 1, unfolded Let_def index_entry.simps]
  show ?thesis using failed [OF known(1)] kept [OF known(2)] live resumable by blast
qed
end
