(* ===== verification/Audit_Log.thy ===== *)
theory Audit_Log imports Artefact_Fs Text_Ascii Byte_Codec Domain_Types begin

text \<open>
  The tamper-evident audit log (\<open>server/src/audit.rs\<close>): one JSON line per entry, each bound to its
  predecessor by a digest over its content and the predecessor's digest, and authenticated by a MAC over
  the same bytes. The JSON package, SHA-256 and HMAC are parameters; text is read as ASCII.
\<close>

section \<open>Entries\<close>

datatype audit_action = Act_Launch | Act_Approve | Act_Reject | Act_Revoke | Act_Role_Change

record entry_core =
  ec_seq :: u64
  ec_ts_ms :: u64
  ec_actor_email :: string
  ec_action :: audit_action
  ec_subject_hash :: string
  ec_run_id :: string
  ec_vintage_id :: string
  ec_evidence_hash :: string

record audit_entry =
  ae_seq :: u64
  ae_ts_ms :: u64
  ae_actor_email :: string
  ae_action :: audit_action
  ae_subject_hash :: string
  ae_run_id :: string
  ae_vintage_id :: string
  ae_evidence_hash :: string
  ae_prev_hash :: string
  ae_entry_hash :: string
  ae_hmac :: string

definition entry_core_of :: "audit_entry \<Rightarrow> entry_core" where
  "entry_core_of e =
     \<lparr>ec_seq = ae_seq e, ec_ts_ms = ae_ts_ms e, ec_actor_email = ae_actor_email e, ec_action = ae_action e,
      ec_subject_hash = ae_subject_hash e, ec_run_id = ae_run_id e, ec_vintage_id = ae_vintage_id e,
      ec_evidence_hash = ae_evidence_hash e\<rparr>"

record audit_env =
  av_core_json :: "entry_core \<Rightarrow> (string, bytes) result"
  av_line_json :: "audit_entry \<Rightarrow> (string, string) result"
  av_parse_line :: "string \<Rightarrow> (string, audit_entry) result"
  av_sha256 :: "bytes \<Rightarrow> bytes"
  av_hmac :: "bytes \<Rightarrow> bytes \<Rightarrow> bytes"

definition genesis_prev :: string where "genesis_prev = replicate 64 (CHR ''0'')"

definition text_bytes :: "string \<Rightarrow> bytes" where "text_bytes s = map of_char s"

definition preimage :: "audit_env \<Rightarrow> audit_entry \<Rightarrow> (io_error, bytes) result" where
  "preimage E e =
     (case av_core_json E (entry_core_of e) of Inl m \<Rightarrow> Inl (OtherIo m) | Inr b \<Rightarrow> Inr (b @ text_bytes (ae_prev_hash e)))"

definition seal_entry :: "audit_env \<Rightarrow> bytes \<Rightarrow> audit_entry \<Rightarrow> (io_error, string \<times> string) result" where
  "seal_entry E key e = res_bind (preimage E e) (\<lambda>p. Inr (hex (av_sha256 E p), hex (av_hmac E key p)))"

text \<open>\<open>char::to_digit(16)\<close>, and the decoding of pairs of digits.\<close>

definition hex_value :: "char \<Rightarrow> nat option" where
  "hex_value c =
     (let n = of_char c :: nat
      in if 48 \<le> n \<and> n \<le> 57 then Some (n - 48) else if 97 \<le> n \<and> n \<le> 102 then Some (n - 87)
         else if 65 \<le> n \<and> n \<le> 70 then Some (n - 55) else None)"

fun decode_pairs :: "string \<Rightarrow> bytes option" where
  "decode_pairs [] = Some []"
| "decode_pairs [c] = None"
| "decode_pairs (a # b # cs) =
     Option.bind (hex_value a) (\<lambda>hi. Option.bind (hex_value b) (\<lambda>lo. map_option ((#) (hi * 16 + lo)) (decode_pairs cs)))"

definition decode_hex :: "string \<Rightarrow> bytes option" where
  "decode_hex s = (if length s mod 2 \<noteq> 0 then None else decode_pairs s)"

section \<open>The file\<close>

record audit_log =
  al_text :: "string option"
  al_key :: bytes
  al_ephemeral :: bool
  al_read_fault :: "io_error option"
  al_write_fault :: "io_error option"

definition newline :: char where "newline = char_of (10 :: nat)"

definition strip_cr :: "string \<Rightarrow> string" where
  "strip_cr s = (if s \<noteq> [] \<and> last s = char_of (13 :: nat) then butlast s else s)"

text \<open>\<open>str::lines\<close>: what follows the last newline keeps a carriage return.\<close>

definition text_lines :: "string \<Rightarrow> string list" where
  "text_lines t = (let ps = split_on newline t in map strip_cr (butlast ps) @ [last ps])"

fun parse_lines :: "audit_env \<Rightarrow> string list \<Rightarrow> (io_error, audit_entry list) result" where
  "parse_lines E [] = Inr []"
| "parse_lines E (l # ls) =
     (if trim l = [] then parse_lines E ls
      else case av_parse_line E l of
             Inl m \<Rightarrow> Inl (OtherIo m)
           | Inr e \<Rightarrow> res_bind (parse_lines E ls) (\<lambda>es. Inr (e # es)))"

definition read_all :: "audit_env \<Rightarrow> audit_log \<Rightarrow> (io_error, audit_entry list) result" where
  "read_all E lg =
     (case al_read_fault lg of
        Some e \<Rightarrow> Inl e
      | None \<Rightarrow> (case al_text lg of None \<Rightarrow> Inr [] | Some t \<Rightarrow> parse_lines E (text_lines t)))"

fun render_lines :: "audit_env \<Rightarrow> audit_entry list \<Rightarrow> (io_error, string) result" where
  "render_lines E [] = Inr []"
| "render_lines E (e # es) =
     (case av_line_json E e of
        Inl m \<Rightarrow> Inl (OtherIo m)
      | Inr l \<Rightarrow> res_bind (render_lines E es) (\<lambda>t. Inr (l @ [newline] @ t)))"

definition write_all :: "audit_env \<Rightarrow> audit_entry list \<Rightarrow> audit_log \<Rightarrow> (io_error, unit) result \<times> audit_log" where
  "write_all E es lg =
     (case render_lines E es of
        Inl e \<Rightarrow> (Inl e, lg)
      | Inr t \<Rightarrow> (case al_write_fault lg of Some e \<Rightarrow> (Inl e, lg) | None \<Rightarrow> (Inr (), lg\<lparr>al_text := Some t\<rparr>)))"

section \<open>Appending and verifying\<close>

definition new_entry :: "audit_entry list \<Rightarrow> string \<Rightarrow> audit_action \<Rightarrow> string \<Rightarrow> string \<Rightarrow> string \<Rightarrow> string \<Rightarrow> u64 \<Rightarrow> audit_entry" where
  "new_entry entries actor act subject run_id vintage_id evidence ts =
     \<lparr>ae_seq = length entries, ae_ts_ms = ts, ae_actor_email = actor, ae_action = act, ae_subject_hash = subject, ae_run_id = run_id,
      ae_vintage_id = vintage_id, ae_evidence_hash = evidence,
      ae_prev_hash = (if entries = [] then genesis_prev else ae_entry_hash (last entries)), ae_entry_hash = [], ae_hmac = []\<rparr>"

definition audit_append ::
  "audit_env \<Rightarrow> string \<Rightarrow> audit_action \<Rightarrow> string \<Rightarrow> string \<Rightarrow> string \<Rightarrow> string \<Rightarrow> u64 \<Rightarrow> audit_log \<Rightarrow> (io_error, audit_entry) result \<times> audit_log" where
  "audit_append E actor act subject run_id vintage_id evidence ts lg =
     (case read_all E lg of
        Inl e \<Rightarrow> (Inl e, lg)
      | Inr entries \<Rightarrow>
          (let entry = new_entry entries actor act subject run_id vintage_id evidence ts
           in case seal_entry E (al_key lg) entry of
                Inl e \<Rightarrow> (Inl e, lg)
              | Inr (h, mac) \<Rightarrow>
                  (let sealed = entry\<lparr>ae_entry_hash := h, ae_hmac := mac\<rparr>
                   in case write_all E (entries @ [sealed]) lg of
                        (Inl e, lg') \<Rightarrow> (Inl e, lg')
                      | (Inr _, lg') \<Rightarrow> (Inr sealed, lg'))))"

datatype chain_status = Chain_Ok | Broken_At u64

fun verify_from :: "audit_env \<Rightarrow> bytes \<Rightarrow> nat \<Rightarrow> string \<Rightarrow> audit_entry list \<Rightarrow> chain_status" where
  "verify_from E key i expected_prev [] = Chain_Ok"
| "verify_from E key i expected_prev (e # es) =
     (if ae_seq e \<noteq> i \<or> ae_prev_hash e \<noteq> expected_prev then Broken_At i
      else case seal_entry E key e of
        Inl _ \<Rightarrow> Broken_At (ae_seq e)
      | Inr (h, _) \<Rightarrow>
          if h \<noteq> ae_entry_hash e then Broken_At (ae_seq e)
          else case preimage E e of
            Inl _ \<Rightarrow> Broken_At (ae_seq e)
          | Inr p \<Rightarrow>
              (case decode_hex (ae_hmac e) of
                 None \<Rightarrow> Broken_At (ae_seq e)
               | Some mac \<Rightarrow> if mac \<noteq> av_hmac E key p then Broken_At (ae_seq e)
                             else verify_from E key (i + 1) (ae_entry_hash e) es))"

definition verify_chain :: "audit_env \<Rightarrow> bytes \<Rightarrow> audit_entry list \<Rightarrow> chain_status" where
  "verify_chain E key es = verify_from E key 0 genesis_prev es"

section \<open>What the log says\<close>

datatype signoff_state = No_Signoff | Awaiting_Second_Signoff | Two_Distinct_Signoffs

definition email_lower :: "string \<Rightarrow> string" where "email_lower s = map to_ascii_lowercase s"

definition approvers_of :: "audit_entry list \<Rightarrow> string \<Rightarrow> string option \<Rightarrow> string list" where
  "approvers_of es pool_hash launcher =
     remdups (filter (\<lambda>a. map_option email_lower launcher \<noteq> Some a)
       (map (\<lambda>e. email_lower (ae_actor_email e)) (filter (\<lambda>e. ae_action e = Act_Approve \<and> ae_subject_hash e = pool_hash) es)))"

definition derive_signoff :: "audit_entry list \<Rightarrow> string \<Rightarrow> string option \<Rightarrow> signoff_state" where
  "derive_signoff es pool_hash launcher =
     (let n = length (approvers_of es pool_hash launcher)
      in if n = 0 then No_Signoff else if n = 1 then Awaiting_Second_Signoff else Two_Distinct_Signoffs)"

definition launcher_for_pool :: "audit_entry list \<Rightarrow> string \<Rightarrow> string option" where
  "launcher_for_pool es pool_id = map_option ae_actor_email (find (\<lambda>e. ae_action e = Act_Launch \<and> ae_subject_hash e = pool_id) es)"

definition launcher_for_run :: "audit_entry list \<Rightarrow> string \<Rightarrow> string option" where
  "launcher_for_run es run_id =
     (if run_id = [] then None else map_option ae_actor_email (find (\<lambda>e. ae_action e = Act_Launch \<and> ae_run_id e = run_id) es))"

definition production_seal_capability_allowed :: "bool \<Rightarrow> bool" where
  "production_seal_capability_allowed ephemeral \<longleftrightarrow> \<not> ephemeral"

section \<open>The page a reader gets\<close>

definition default_audit_limit :: usize where "default_audit_limit = 100"
definition max_audit_limit :: usize where "max_audit_limit = 500"

record audit_page =
  ap_entries :: "audit_entry list"
  ap_total :: usize
  ap_chain :: chain_status
  ap_next_offset :: "u64 option"

definition get_audit :: "audit_env \<Rightarrow> audit_log \<Rightarrow> usize option \<Rightarrow> u64 option \<Rightarrow> (io_error, audit_page) result" where
  "get_audit E lg limit offset =
     (case read_all E lg of
        Inl e \<Rightarrow> Inl e
      | Inr es \<Rightarrow>
          (let off = (case offset of None \<Rightarrow> 0 | Some n \<Rightarrow> n);
               lim = min (max (case limit of None \<Rightarrow> default_audit_limit | Some n \<Rightarrow> n) 1) max_audit_limit;
               page = take lim (drop off es)
           in Inr \<lparr>ap_entries = page, ap_total = length es, ap_chain = verify_chain E (al_key lg) es,
                   ap_next_offset = (if off + length page < length es then Some (off + length page) else None)\<rparr>))"

section \<open>Lines come back\<close>

definition audit_lines_ok :: "audit_env \<Rightarrow> bool" where
  "audit_lines_ok E \<longleftrightarrow> (\<forall>e l. av_line_json E e = Inr l \<longrightarrow>
     av_parse_line E l = Inr e \<and> trim l \<noteq> [] \<and> newline \<notin> set l \<and> char_of (13 :: nat) \<notin> set l)"

lemma split_on_line: "d \<notin> set l \<Longrightarrow> split_on d (l @ d # t) = l # split_on d t"
  by (induction l) (auto simp: split: list.split)

lemma split_on_nonempty: "split_on d t \<noteq> []"
  by (induction t) (auto split: list.split)

lemma strip_cr_id: "char_of (13 :: nat) \<notin> set l \<Longrightarrow> strip_cr l = l"
  by (auto simp: strip_cr_def dest: last_in_set)

lemma lines_return:
  assumes "audit_lines_ok E" "render_lines E es = Inr t"
  shows "parse_lines E (text_lines t) = Inr es"
  using assms(2)
proof (induction es arbitrary: t)
  case Nil
  then show ?case by (simp add: text_lines_def trim_def trim_end_def)
next
  case (Cons e es)
  then obtain l t' where l: "av_line_json E e = Inr l" and t': "render_lines E es = Inr t'" and t: "t = l @ newline # t'"
    by (auto simp: res_bind_Inr split: sum.splits)
  have "av_parse_line E l = Inr e" "trim l \<noteq> []" "newline \<notin> set l" "strip_cr l = l"
    using assms(1) l by (auto simp: audit_lines_ok_def strip_cr_id)
  then show ?case using Cons.IH [OF t'] by (simp add: t text_lines_def Let_def split_on_line split_on_nonempty)
qed

lemma hex_value_digit: "d < 16 \<Longrightarrow> hex_value (hex_digit d) = Some d"
  by (simp add: hex_value_def hex_digit_code Let_def)

lemma high_digit: "(a :: nat) < 256 \<Longrightarrow> a div 16 < 16"
  by (simp add: div_less_iff_less_mult)

lemma decode_pairs_hex: "valid_bytes bs \<Longrightarrow> decode_pairs (hex bs) = Some bs"
  by (induction bs) (simp_all add: hex_def valid_bytes_def hex_value_digit high_digit)

lemma decode_hex_hex: "valid_bytes bs \<Longrightarrow> decode_hex (hex bs) = Some bs"
  by (simp add: decode_hex_def decode_pairs_hex)

section \<open>A log of two entries\<close>

text \<open>
  A venue-free instance: only the two entries below can be written, the JSON of an entry is one letter, the
  digest is thirty-two copies of the checksum of the bytes and the MAC is the key followed by them.
\<close>

definition demo_core_json :: "entry_core \<Rightarrow> (string, bytes) result" where
  "demo_core_json c = (if ec_action c = Act_Launch \<and> c = \<lparr>ec_seq = 0, ec_ts_ms = 5, ec_actor_email = ''ann'', ec_action = Act_Launch,
      ec_subject_hash = ''p'', ec_run_id = ''r'', ec_vintage_id = [], ec_evidence_hash = []\<rparr> then Inr [7] else Inl ''unsupported'')"

definition demo_entry :: "bytes \<Rightarrow> audit_entry" where
  "demo_entry key = \<lparr>ae_seq = 0, ae_ts_ms = 5, ae_actor_email = ''ann'', ae_action = Act_Launch, ae_subject_hash = ''p'', ae_run_id = ''r'',
     ae_vintage_id = [], ae_evidence_hash = [], ae_prev_hash = genesis_prev, ae_entry_hash = hex (replicate 32 171), ae_hmac = hex key\<rparr>"

definition demo_audit_env :: audit_env where
  "demo_audit_env = \<lparr>av_core_json = demo_core_json,
     av_line_json = (\<lambda>e. if e = demo_entry [3] then Inr ''L'' else Inl ''unsupported''),
     av_parse_line = (\<lambda>l. if l = ''L'' then Inr (demo_entry [3]) else Inl ''malformed''),
     av_sha256 = (\<lambda>p. replicate 32 171), av_hmac = (\<lambda>k p. if valid_bytes k then k else [])\<rparr>"

definition empty_log :: audit_log where
  "empty_log = \<lparr>al_text = None, al_key = [3], al_ephemeral = False, al_read_fault = None, al_write_fault = None\<rparr>"

section \<open>Appending extends a verified chain\<close>

definition chain_end :: "string \<Rightarrow> audit_entry list \<Rightarrow> string" where
  "chain_end prev es = (if es = [] then prev else ae_entry_hash (last es))"

definition entry_sound :: "audit_env \<Rightarrow> bytes \<Rightarrow> nat \<Rightarrow> string \<Rightarrow> audit_entry \<Rightarrow> bool" where
  "entry_sound E key i prev e \<longleftrightarrow> ae_seq e = i \<and> ae_prev_hash e = prev \<and>
     (\<exists>p. preimage E e = Inr p \<and> ae_entry_hash e = hex (av_sha256 E p) \<and> decode_hex (ae_hmac e) = Some (av_hmac E key p))"

lemma verify_from_Cons:
  "verify_from E key i prev (e # es) = Chain_Ok \<longleftrightarrow> entry_sound E key i prev e \<and> verify_from E key (i + 1) (ae_entry_hash e) es = Chain_Ok"
  by (auto simp: entry_sound_def seal_entry_def res_bind_def split: sum.splits option.splits)

declare verify_from.simps(2) [simp del]

lemma verify_from_snoc:
  "verify_from E key i prev (es @ [e]) = Chain_Ok \<longleftrightarrow>
     verify_from E key i prev es = Chain_Ok \<and> entry_sound E key (i + length es) (chain_end prev es) e"
proof (induction es arbitrary: i prev)
  case Nil
  then show ?case by (simp add: verify_from_Cons chain_end_def)
next
  case (Cons a es)
  then show ?case by (auto simp: verify_from_Cons chain_end_def)
qed

lemma verify_from_iff:
  "verify_from E key i prev es = Chain_Ok \<longleftrightarrow>
     (\<forall>k < length es. entry_sound E key (i + k) (chain_end prev (take k es)) (es ! k))"
proof (induction es rule: rev_induct)
  case (snoc e es)
  have "(\<forall>k < length (es @ [e]). entry_sound E key (i + k) (chain_end prev (take k (es @ [e]))) ((es @ [e]) ! k)) \<longleftrightarrow>
      (\<forall>k < length es. entry_sound E key (i + k) (chain_end prev (take k es)) (es ! k)) \<and>
      entry_sound E key (i + length es) (chain_end prev es) e"
    by (auto simp: less_Suc_eq nth_append)
  with snoc show ?case by (simp add: verify_from_snoc)
qed simp

definition same_content :: "audit_entry \<Rightarrow> string \<Rightarrow> audit_action \<Rightarrow> string \<Rightarrow> string \<Rightarrow> string \<Rightarrow> string \<Rightarrow> u64 \<Rightarrow> bool" where
  "same_content e actor act subject run_id vintage_id evidence ts \<longleftrightarrow>
     ae_actor_email e = actor \<and> ae_action e = act \<and> ae_subject_hash e = subject \<and> ae_run_id e = run_id \<and> ae_vintage_id e = vintage_id \<and>
     ae_evidence_hash e = evidence \<and> ae_ts_ms e = ts"

lemma preimage_unsealed: "preimage E (e\<lparr>ae_entry_hash := h, ae_hmac := m\<rparr>) = preimage E e"
  by (simp add: preimage_def entry_core_of_def cong: sum.case_cong)

lemma read_after_write:
  assumes "audit_lines_ok E" "al_read_fault lg = None" "write_all E es lg = (Inr (), lg')"
  shows "read_all E lg' = Inr es" "al_key lg' = al_key lg" "al_read_fault lg' = None" "al_write_fault lg' = al_write_fault lg"
  using assms lines_return [OF assms(1)] by (auto simp: write_all_def read_all_def split: sum.splits option.splits)

text \<open>What the file holds, whether or not it can be read just now.\<close>

definition log_entries :: "audit_env \<Rightarrow> audit_log \<Rightarrow> (io_error, audit_entry list) result" where
  "log_entries E lg = read_all E (lg\<lparr>al_read_fault := None\<rparr>)"

lemma read_all_log_entries: "read_all E lg = Inr es \<Longrightarrow> log_entries E lg = Inr es"
  by (auto simp: log_entries_def read_all_def split: option.splits)

lemma audit_append_cases:
  assumes "audit_lines_ok E" "audit_append E actor act subject run_id vintage_id evidence ts lg = (r, lg')"
  shows "(\<exists>x. r = Inl x \<and> lg' = lg) \<or>
     (\<exists>es e. r = Inr e \<and> read_all E lg = Inr es \<and> log_entries E lg' = Inr (es @ [e]) \<and> al_key lg' = al_key lg \<and>
        same_content e actor act subject run_id vintage_id evidence ts)"
proof (cases "\<exists>x. r = Inl x")
  case True
  then show ?thesis using assms(2)
    by (auto simp: audit_append_def write_all_def Let_def split: sum.splits option.splits prod.splits if_splits)
next
  case False
  then obtain es h mac e where es: "read_all E lg = Inr es" and r: "r = Inr e"
    and e: "e = (new_entry es actor act subject run_id vintage_id evidence ts)\<lparr>ae_entry_hash := h, ae_hmac := mac\<rparr>"
    and wr: "write_all E (es @ [e]) lg = (Inr (), lg')"
    using assms(2) by (auto simp: audit_append_def Let_def split: sum.splits prod.splits)
  have "al_read_fault lg = None" using es by (auto simp: read_all_def split: option.splits)
  from read_after_write [OF assms(1) this wr] have "read_all E lg' = Inr (es @ [e])" "al_key lg' = al_key lg" by simp_all
  moreover have "same_content e actor act subject run_id vintage_id evidence ts" by (simp add: e same_content_def new_entry_def)
  ultimately show ?thesis using es r read_all_log_entries by blast
qed

text \<open>
  C25. The log only grows, and stays verifiable. An append to a log whose chain verifies either fails and
  leaves the file as it was, or leaves a file that reads back as the old entries followed by the new one,
  with the content it was given, the next sequence number and the previous entry's digest, and whose whole
  chain verifies under the same key.
\<close>

theorem append_extends_the_chain:
  assumes "audit_lines_ok E" "\<forall>k p. valid_bytes (av_hmac E k p)" "read_all E lg = Inr es" "verify_chain E (al_key lg) es = Chain_Ok"
    "audit_append E actor act subject run_id vintage_id evidence ts lg = (r, lg')"
  shows "(case r of
       Inl _ \<Rightarrow> lg' = lg
     | Inr e \<Rightarrow> read_all E lg' = Inr (es @ [e]) \<and> verify_chain E (al_key lg') (es @ [e]) = Chain_Ok \<and> al_key lg' = al_key lg \<and>
         ae_seq e = length es \<and> ae_prev_hash e = chain_end genesis_prev es \<and> same_content e actor act subject run_id vintage_id evidence ts)"
proof -
  define entry where "entry = new_entry es actor act subject run_id vintage_id evidence ts"
  have rf: "al_read_fault lg = None" using assms(3) by (auto simp: read_all_def split: option.splits)
  show ?thesis
  proof (cases "preimage E entry")
    case (Inl x)
    then show ?thesis using assms(3,5) by (auto simp: audit_append_def seal_entry_def res_bind_def Let_def entry_def [symmetric])
  next
    case (Inr p)
    define sealed where "sealed = entry\<lparr>ae_entry_hash := hex (av_sha256 E p), ae_hmac := hex (av_hmac E (al_key lg) p)\<rparr>"
    have run: "(case write_all E (es @ [sealed]) lg of (Inl e, lg') \<Rightarrow> (Inl e, lg') | (Inr _, lg') \<Rightarrow> (Inr sealed, lg')) = (r, lg')"
      using assms(3,5) Inr by (simp add: audit_append_def seal_entry_def Let_def cong: sum.case_cong prod.case_cong flip: entry_def sealed_def)
    have seq: "ae_seq sealed = length es" "ae_prev_hash sealed = chain_end genesis_prev es"
      by (simp_all add: sealed_def entry_def new_entry_def chain_end_def)
    have "preimage E sealed = Inr p" using Inr by (simp add: sealed_def preimage_unsealed)
    then have "entry_sound E (al_key lg) (length es) (chain_end genesis_prev es) sealed"
      using assms(2) seq by (simp add: entry_sound_def decode_hex_hex) (simp add: sealed_def decode_hex_hex)
    then have ok: "verify_chain E (al_key lg) (es @ [sealed]) = Chain_Ok"
      using assms(4) by (simp add: verify_chain_def verify_from_snoc)
    have content: "same_content sealed actor act subject run_id vintage_id evidence ts"
      by (simp add: sealed_def entry_def new_entry_def same_content_def)
    obtain w lgw where wr: "write_all E (es @ [sealed]) lg = (w, lgw)" by (cases "write_all E (es @ [sealed]) lg")
    show ?thesis
    proof (cases w)
      case (Inl x)
      then have "lgw = lg" using wr by (auto simp: write_all_def split: sum.splits option.splits)
      then show ?thesis using run wr Inl by auto
    next
      case (Inr u)
      then have wr: "write_all E (es @ [sealed]) lg = (Inr (), lgw)" using wr by simp
      then have out: "r = Inr sealed" "lg' = lgw" using run by simp_all
      show ?thesis unfolding out sum.case read_after_write(1,2) [OF assms(1) rf wr] using ok seq content by simp
    qed
  qed
qed

lemma demo_lines_ok: "audit_lines_ok demo_audit_env"
  by (simp add: audit_lines_ok_def demo_audit_env_def trim_def trim_end_def newline_def char_of_def is_ascii_space_def)

lemma demo_appends:
  "audit_append demo_audit_env ''ann'' Act_Launch ''p'' ''r'' [] [] 5 empty_log = (Inr (demo_entry [3]), empty_log\<lparr>al_text := Some (''L'' @ [newline])\<rparr>)"
  by (simp add: audit_append_def read_all_def empty_log_def new_entry_def seal_entry_def preimage_def entry_core_of_def
      demo_audit_env_def demo_core_json_def demo_entry_def write_all_def valid_bytes_def)

lemma demo_mac: "\<forall>k p. valid_bytes (av_hmac demo_audit_env k p)"
  by (simp add: demo_audit_env_def valid_bytes_def)

theorem append_extends_the_chain_witness:
  "\<exists>lg. snd (audit_append demo_audit_env ''ann'' Act_Launch ''p'' ''r'' [] [] 5 empty_log) = lg \<and>
     read_all demo_audit_env lg = Inr [demo_entry [3]] \<and> verify_chain demo_audit_env [3] [demo_entry [3]] = Chain_Ok"
proof -
  have start: "read_all demo_audit_env empty_log = Inr []" "verify_chain demo_audit_env (al_key empty_log) [] = Chain_Ok"
    by (simp_all add: read_all_def empty_log_def verify_chain_def)
  from append_extends_the_chain [OF demo_lines_ok demo_mac start demo_appends] show ?thesis
    by (simp add: demo_appends) (simp add: empty_log_def)
qed

section \<open>The last digest commits the history\<close>

lemma sound_prev_length:
  assumes "verify_chain E key es = Chain_Ok" "k < length es" "\<And>p. length (av_sha256 E p) = 32"
  shows "length (ae_prev_hash (es ! k)) = 64"
proof -
  have snd: "\<And>j. j < length es \<Longrightarrow> entry_sound E key j (chain_end genesis_prev (take j es)) (es ! j)"
    using assms(1) by (simp add: verify_chain_def verify_from_iff)
  show ?thesis
  proof (cases k)
    case 0
    then show ?thesis using snd [OF assms(2)] by (simp add: entry_sound_def chain_end_def genesis_prev_def)
  next
    case (Suc j)
    then have "chain_end genesis_prev (take k es) = ae_entry_hash (es ! j)" using assms(2)
      by (simp add: chain_end_def take_Suc_conv_app_nth)
    moreover have "length (ae_entry_hash (es ! j)) = 64" using snd [of j] Suc assms(2,3) by (auto simp: entry_sound_def)
    ultimately show ?thesis using snd [OF assms(2)] by (simp add: entry_sound_def)
  qed
qed

definition no_collision :: "audit_env \<Rightarrow> audit_entry list \<Rightarrow> audit_entry list \<Rightarrow> bool" where
  "no_collision E xs ys \<longleftrightarrow> (\<forall>x \<in> set xs. \<forall>y \<in> set ys. \<forall>p q. preimage E x = Inr p \<longrightarrow> preimage E y = Inr q \<longrightarrow>
     av_sha256 E p = av_sha256 E q \<longrightarrow> p = q)"

definition digest_ok :: "audit_env \<Rightarrow> bool" where
  "digest_ok E \<longleftrightarrow> (\<forall>p. length (av_sha256 E p) = 32 \<and> valid_bytes (av_sha256 E p)) \<and>
     (\<forall>a b j. av_core_json E a = Inr j \<longrightarrow> av_core_json E b = Inr j \<longrightarrow> a = b)"

lemma text_bytes_inject: "text_bytes a = text_bytes b \<Longrightarrow> a = b"
  by (simp add: text_bytes_def inj_map_eq_map [OF inj_of_char])

lemma same_hash_same_entry:
  assumes "digest_ok E" "verify_chain E k1 xs = Chain_Ok" "verify_chain E k2 ys = Chain_Ok" "no_collision E xs ys"
    "i < length xs" "j < length ys" "ae_entry_hash (xs ! i) = ae_entry_hash (ys ! j)"
  shows "i = j \<and> entry_core_of (xs ! i) = entry_core_of (ys ! j) \<and> ae_prev_hash (xs ! i) = ae_prev_hash (ys ! j)"
proof -
  obtain p where p: "preimage E (xs ! i) = Inr p" "ae_entry_hash (xs ! i) = hex (av_sha256 E p)" "ae_seq (xs ! i) = i"
    using assms(2,5) by (auto simp: verify_chain_def verify_from_iff entry_sound_def)
  obtain q where q: "preimage E (ys ! j) = Inr q" "ae_entry_hash (ys ! j) = hex (av_sha256 E q)" "ae_seq (ys ! j) = j"
    using assms(3,6) by (auto simp: verify_chain_def verify_from_iff entry_sound_def)
  have "av_sha256 E p = av_sha256 E q" using assms(1,7) p(2) q(2) hex_inject by (simp add: digest_ok_def)
  then have "p = q"
    by (rule assms(4) [unfolded no_collision_def, THEN bspec, OF nth_mem [OF assms(5)], THEN bspec, OF nth_mem [OF assms(6)], rule_format, OF p(1) q(1)])
  then obtain a b where ab: "av_core_json E (entry_core_of (xs ! i)) = Inr a" "av_core_json E (entry_core_of (ys ! j)) = Inr b"
    and eq: "a @ text_bytes (ae_prev_hash (xs ! i)) = b @ text_bytes (ae_prev_hash (ys ! j))"
    using p(1) q(1) by (auto simp: preimage_def split: sum.splits)
  have len: "\<And>p. length (av_sha256 E p) = 32" using assms(1) by (simp add: digest_ok_def)
  have "length (text_bytes (ae_prev_hash (xs ! i))) = length (text_bytes (ae_prev_hash (ys ! j)))"
    using sound_prev_length [OF assms(2,5) len] sound_prev_length [OF assms(3,6) len] by (simp add: text_bytes_def)
  with eq have "a = b" "ae_prev_hash (xs ! i) = ae_prev_hash (ys ! j)" using text_bytes_inject by auto
  then have "entry_core_of (xs ! i) = entry_core_of (ys ! j)" using assms(1) ab unfolding digest_ok_def by blast
  then show ?thesis using p(3) q(3) \<open>ae_prev_hash (xs ! i) = ae_prev_hash (ys ! j)\<close> by (auto simp: entry_core_of_def)
qed

lemma chain_prev: "verify_chain E key es = Chain_Ok \<Longrightarrow> Suc k < length es \<Longrightarrow> ae_prev_hash (es ! Suc k) = ae_entry_hash (es ! k)"
  by (cases "es = []") (simp_all add: verify_chain_def verify_from_iff entry_sound_def chain_end_def take_Suc_conv_app_nth)

text \<open>
  C26. The last digest commits the whole history. Two chains that verify (under whatever keys) and end in the
  same digest have the same length and agree, entry by entry, on every content field, on the links and on
  the digests: whoever kept the last digest can tell any edit, insertion, removal or reordering before it.
\<close>

theorem head_commits_the_history:
  assumes "digest_ok E" "verify_chain E k1 xs = Chain_Ok" "verify_chain E k2 ys = Chain_Ok" "no_collision E xs ys"
    "xs \<noteq> []" "ys \<noteq> []" "ae_entry_hash (last xs) = ae_entry_hash (last ys)"
  shows "map entry_core_of xs = map entry_core_of ys \<and> map ae_entry_hash xs = map ae_entry_hash ys \<and> map ae_prev_hash xs = map ae_prev_hash ys"
proof -
  note same = same_hash_same_entry [OF assms(1-4)]
  have len: "length xs = length ys"
    using same [of "length xs - 1" "length ys - 1"] assms(5-7) by (simp add: last_conv_nth) (metis One_nat_def Suc_pred length_greater_0_conv)
  have down: "ae_entry_hash (xs ! (length xs - 1 - n)) = ae_entry_hash (ys ! (length xs - 1 - n))" if "n < length xs" for n
    using that
  proof (induction n)
    case 0
    then show ?case using assms(5-7) len by (simp add: last_conv_nth)
  next
    case (Suc n)
    define k where "k = length xs - 1 - Suc n"
    have k: "Suc k = length xs - 1 - n" "Suc k < length xs" "Suc k < length ys" using Suc.prems len by (simp_all add: k_def)
    have "ae_prev_hash (xs ! Suc k) = ae_prev_hash (ys ! Suc k)" using same [OF k(2,3)] Suc k by simp
    then show ?case
      using chain_prev [OF assms(2) k(2)] chain_prev [OF assms(3) k(3)] unfolding k_def [symmetric] by simp
  qed
  have all: "ae_entry_hash (xs ! k) = ae_entry_hash (ys ! k)" if "k < length xs" for k
    using down [of "length xs - 1 - k"] that by simp
  show ?thesis using same all len by (auto intro!: nth_equalityI)
qed

theorem head_commits_the_history_witness:
  "\<exists>xs ys. xs \<noteq> ys \<and> map entry_core_of xs = map entry_core_of ys \<and> verify_chain demo_audit_env [3] xs = Chain_Ok \<and> verify_chain demo_audit_env [4] ys = Chain_Ok"
proof -
  have ok: "digest_ok demo_audit_env"
    by (auto simp: digest_ok_def demo_audit_env_def demo_core_json_def valid_bytes_def split: if_splits)
  have chain: "verify_chain demo_audit_env [k] [demo_entry [k]] = Chain_Ok" if "k < 256" for k
    using that by (simp add: verify_chain_def verify_from_Cons entry_sound_def demo_entry_def preimage_def entry_core_of_def demo_audit_env_def
        demo_core_json_def decode_hex_hex valid_bytes_def)
  have apart: "no_collision demo_audit_env [demo_entry [3]] [demo_entry [4]]"
    by (simp add: no_collision_def preimage_def entry_core_of_def demo_audit_env_def demo_core_json_def demo_entry_def)
  have "map entry_core_of [demo_entry [3]] = map entry_core_of [demo_entry [4]]"
    using head_commits_the_history [OF ok chain [of 3] chain [of 4] apart] by (simp add: demo_entry_def)
  moreover have "demo_entry [3] \<noteq> demo_entry [4]" by (simp add: demo_entry_def hex_def hex_digit_def)
  ultimately show ?thesis using chain [of 3] chain [of 4] by (intro exI [of _ "[demo_entry [3]]"] exI [of _ "[demo_entry [4]]"]) simp
qed

section \<open>What the chain does not see\<close>

lemma hex_value_upper: "hex_value (to_ascii_uppercase c) = hex_value c"
  by (cases "97 \<le> (of_char c :: nat) \<and> (of_char c :: nat) \<le> 122")
    (auto simp: hex_value_def to_ascii_uppercase_def Let_def)

lemma decode_pairs_upper: "decode_pairs (map to_ascii_uppercase s) = decode_pairs s"
  by (induction s rule: decode_pairs.induct) (auto simp: hex_value_upper split: Option.bind_splits)

definition upper_hmac :: "audit_entry \<Rightarrow> audit_entry" where
  "upper_hmac e = e\<lparr>ae_hmac := map to_ascii_uppercase (ae_hmac e)\<rparr>"

lemma upper_hmac_sound: "entry_sound E key i prev (upper_hmac e) = entry_sound E key i prev e"
  by (simp add: entry_sound_def upper_hmac_def preimage_def entry_core_of_def decode_hex_def decode_pairs_upper cong: sum.case_cong)

theorem uppercase_hmac_is_accepted:
  "verify_chain E key (map upper_hmac es) = Chain_Ok \<longleftrightarrow> verify_chain E key es = Chain_Ok"
proof -
  have "verify_from E key i prev (map upper_hmac es) = Chain_Ok \<longleftrightarrow> verify_from E key i prev es = Chain_Ok" for i prev
    by (induction es arbitrary: i prev) (simp_all add: verify_from_Cons upper_hmac_sound, simp add: upper_hmac_def)
  then show ?thesis by (simp add: verify_chain_def)
qed

section \<open>Sign-off\<close>

text \<open>
  Dual sign-off is two people, neither of them the launcher. The state derived from the log is two
  distinct sign-offs exactly when it holds approve entries for that pool hash by two actors whose addresses
  differ in more than case, and neither address is the launcher's; other pools' entries and other actions
  never count.
\<close>

lemma two_signoffs:
  "derive_signoff es h launcher = Two_Distinct_Signoffs \<longleftrightarrow>
     (\<exists>a \<in> set es. \<exists>b \<in> set es. ae_action a = Act_Approve \<and> ae_action b = Act_Approve \<and> ae_subject_hash a = h \<and> ae_subject_hash b = h \<and>
        email_lower (ae_actor_email a) \<noteq> email_lower (ae_actor_email b) \<and>
        map_option email_lower launcher \<notin> {Some (email_lower (ae_actor_email a)), Some (email_lower (ae_actor_email b))})"
proof -
  let ?S = "set (approvers_of es h launcher)"
  have "length (approvers_of es h launcher) = card ?S" by (simp add: approvers_of_def length_remdups_card_conv)
  moreover have "card ?S \<noteq> 0 \<and> card ?S \<noteq> 1 \<longleftrightarrow> (\<exists>x \<in> ?S. \<exists>y \<in> ?S. x \<noteq> y)"
  proof
    assume "card ?S \<noteq> 0 \<and> card ?S \<noteq> 1"
    then show "\<exists>x \<in> ?S. \<exists>y \<in> ?S. x \<noteq> y" by (metis card_1_singleton_iff card.empty is_singletonI' is_singleton_altdef)
  next
    assume "\<exists>x \<in> ?S. \<exists>y \<in> ?S. x \<noteq> y"
    then show "card ?S \<noteq> 0 \<and> card ?S \<noteq> 1" by (metis List.finite_set card_0_eq card_1_singletonE empty_iff singletonD)
  qed
  moreover have "derive_signoff es h launcher = Two_Distinct_Signoffs \<longleftrightarrow>
      length (approvers_of es h launcher) \<noteq> 0 \<and> length (approvers_of es h launcher) \<noteq> 1"
    by (simp add: derive_signoff_def Let_def)
  ultimately have two: "derive_signoff es h launcher = Two_Distinct_Signoffs \<longleftrightarrow> (\<exists>x \<in> ?S. \<exists>y \<in> ?S. x \<noteq> y)"
    by (simp only:)
  have S: "?S = (\<lambda>e. email_lower (ae_actor_email e)) ` {a \<in> set es. ae_action a = Act_Approve \<and> ae_subject_hash a = h \<and>
      map_option email_lower launcher \<noteq> Some (email_lower (ae_actor_email a))}"
    by (auto simp: approvers_of_def)
  show ?thesis unfolding two S by auto
qed

end
