(* ===== verification/Runs_Api.thy ===== *)
theory Runs_Api imports Run_Manager Audit_Log begin

text \<open>
  The run routes (\<open>server/src/runs/api.rs\<close>): the answers to a create request and its launch entry, one run,
  its result, and the paginated list whose cursor is anchored at a run id.
\<close>

section \<open>Creating\<close>

datatype create_response = Created string | Bad_Request string | Unavailable | Create_Failed

fun create_status :: "create_response \<Rightarrow> nat" where
  "create_status (Created _) = 201"
| "create_status (Bad_Request _) = 400"
| "create_status Unavailable = 503"
| "create_status Create_Failed = 500"

definition create_response_of :: "(create_error, string) result \<Rightarrow> create_response" where
  "create_response_of r =
     (case r of
        Inr ident \<Rightarrow> Created ident
      | Inl (Validation msg) \<Rightarrow> Bad_Request msg
      | Inl Shutting_Down \<Rightarrow> Unavailable
      | Inl (Create_Io _) \<Rightarrow> Create_Failed)"

text \<open>A launch entry for a created evolve run; a failing append is only logged.\<close>

definition create_run_answer ::
  "audit_env \<Rightarrow> string \<Rightarrow> string \<Rightarrow> (create_error, string) result \<Rightarrow> u64 \<Rightarrow> audit_log \<Rightarrow> create_response \<times> audit_log" where
  "create_run_answer A actor run_type r now lg =
     (case r of
        Inr ident \<Rightarrow>
          (create_response_of r,
           if run_type = ''evolve'' then snd (audit_append A actor Act_Launch [] ident [] [] now lg) else lg)
      | Inl _ \<Rightarrow> (create_response_of r, lg))"

section \<open>One run and its result\<close>

definition get_run :: "('f, 'v) run_store \<Rightarrow> string \<Rightarrow> (io_error, ('f, 'v) run_meta option) result" where
  "get_run st ident = read_meta st ident"

datatype result_outcome = Result_Body bytes | Result_Not_Found | Not_Ready run_status | Result_Missing | Meta_Error io_error

fun result_status :: "result_outcome \<Rightarrow> nat" where
  "result_status (Result_Body _) = 200"
| "result_status Result_Not_Found = 404"
| "result_status (Not_Ready _) = 409"
| "result_status Result_Missing = 409"
| "result_status (Meta_Error _) = 500"

definition read_result_outcome :: "('f, 'v) run_store \<Rightarrow> string \<Rightarrow> result_outcome" where
  "read_result_outcome st ident =
     (case read_meta st ident of
        Inl e \<Rightarrow> Meta_Error e
      | Inr None \<Rightarrow> Result_Not_Found
      | Inr (Some m) \<Rightarrow>
          if rm_status m \<noteq> Succeeded then Not_Ready (rm_status m)
          else (case read_result st ident of Inl _ \<Rightarrow> Result_Missing | Inr b \<Rightarrow> Result_Body b))"

section \<open>The list\<close>

definition default_limit :: usize where "default_limit = 50"
definition max_limit :: usize where "max_limit = 200"

record list_runs_query =
  lq_run_type :: "string option"
  lq_status :: "run_status option"
  lq_limit :: "usize option"
  lq_cursor :: "string option"

record 'f run_list_item =
  ri_id :: string
  ri_run_type :: string
  ri_label :: string
  ri_status :: run_status
  ri_progress :: progress
  ri_train :: "'f train_progress option"
  ri_created_ms :: u64

definition project_run :: "index_entry \<Rightarrow> ('f, 'v) run_meta \<Rightarrow> 'f run_list_item" where
  "project_run e m = \<lparr>ri_id = rm_id m, ri_run_type = ie_type e, ri_label = ie_label e, ri_status = rm_status m,
     ri_progress = rm_progress m, ri_train = rm_train m, ri_created_ms = rm_created_ms m\<rparr>"

record 'f run_page =
  rp_runs :: "'f run_list_item list"
  rp_next_cursor :: "string option"

text \<open>The position of the first entry with the cursor's id; an unknown cursor stands past the end.\<close>

fun after_cursor :: "string \<Rightarrow> index_entry list \<Rightarrow> index_entry list" where
  "after_cursor c [] = []"
| "after_cursor c (e # es) = (if ie_id e = c then es else after_cursor c es)"

definition page_limit :: "list_runs_query \<Rightarrow> usize" where
  "page_limit q = min (max (case lq_limit q of None \<Rightarrow> default_limit | Some n \<Rightarrow> n) 1) max_limit"

text \<open>One entry against the filters: skipped, a row, or an error that fails the request.\<close>

definition list_entry :: "('f, 'v) run_store \<Rightarrow> list_runs_query \<Rightarrow> index_entry \<Rightarrow> (io_error, 'f run_list_item option) result" where
  "list_entry st q e =
     (if (case lq_run_type q of None \<Rightarrow> False | Some want \<Rightarrow> ie_type e \<noteq> want) then Inr None
      else (case read_meta st (ie_id e) of
              Inl err \<Rightarrow> Inl err
            | Inr None \<Rightarrow> Inr None
            | Inr (Some m) \<Rightarrow>
                if (case lq_status q of None \<Rightarrow> False | Some want \<Rightarrow> rm_status m \<noteq> want) then Inr None
                else Inr (Some (project_run e m))))"

text \<open>The loop: the rows so far and the entries not yet considered.\<close>

fun list_loop ::
  "('f, 'v) run_store \<Rightarrow> list_runs_query \<Rightarrow> usize \<Rightarrow> 'f run_list_item list \<Rightarrow> index_entry list \<Rightarrow>
     (io_error, 'f run_list_item list \<times> index_entry list) result" where
  "list_loop st q lmt runs [] = Inr (runs, [])"
| "list_loop st q lmt runs (e # es) =
     (if lmt \<le> length runs then Inr (runs, e # es)
      else (case list_entry st q e of
              Inl err \<Rightarrow> Inl err
            | Inr None \<Rightarrow> list_loop st q lmt runs es
            | Inr (Some r) \<Rightarrow> list_loop st q lmt (runs @ [r]) es))"

definition list_start :: "list_runs_query \<Rightarrow> index_entry list \<Rightarrow> index_entry list" where
  "list_start q index = (case lq_cursor q of None \<Rightarrow> rev index | Some c \<Rightarrow> after_cursor c (rev index))"

definition list_runs_blocking :: "('f, 'v) run_store \<Rightarrow> list_runs_query \<Rightarrow> (io_error, 'f run_page) result" where
  "list_runs_blocking st q =
     res_bind (read_index st) (\<lambda>index.
     res_bind (list_loop st q (page_limit q) [] (list_start q index)) (\<lambda>(runs, rest).
       Inr \<lparr>rp_runs = runs, rp_next_cursor = (if rest \<noteq> [] then map_option ri_id (last_opt runs) else None)\<rparr>))"

section \<open>Pages tile the list\<close>

text \<open>Every row the filters keep, in the order given: the list the pages are cut from.\<close>

fun matching :: "('f, 'v) run_store \<Rightarrow> list_runs_query \<Rightarrow> index_entry list \<Rightarrow> (io_error, 'f run_list_item list) result" where
  "matching st q [] = Inr []"
| "matching st q (e # es) =
     res_bind (list_entry st q e) (\<lambda>r. res_bind (matching st q es) (\<lambda>rs. Inr (case r of None \<Rightarrow> rs | Some x \<Rightarrow> x # rs)))"

definition listing :: "('f, 'v) run_store \<Rightarrow> list_runs_query \<Rightarrow> (io_error, 'f run_list_item list) result" where
  "listing st q = res_bind (read_index st) (\<lambda>index. matching st q (list_start q index))"

lemma list_loop_matching:
  "list_loop st q lmt runs es = Inr (out, rest) \<Longrightarrow> length runs \<le> lmt \<Longrightarrow>
     \<exists>seen rows. es = seen @ rest \<and> matching st q seen = Inr rows \<and> out = runs @ rows \<and> length out \<le> lmt \<and>
       (rest \<noteq> [] \<longrightarrow> length runs < lmt \<longrightarrow> (\<exists>seen' e r rows'. seen = seen' @ [e] \<and> list_entry st q e = Inr (Some r) \<and> rows = rows' @ [r]))"
proof (induction st q lmt runs es rule: list_loop.induct)
  case (2 st q lmt runs e es)
  show ?case
  proof (cases "lmt \<le> length runs")
    case True
    then have "out = runs" "rest = e # es" using 2(3) by simp_all
    then show ?thesis using True 2(4) by (intro exI [of _ "[]"]) auto
  next
    case False
    then obtain r where r: "list_entry st q e = Inr r" using 2(3) by (auto split: sum.splits)
    show ?thesis
    proof (cases r)
      case None
      then have step: "list_loop st q lmt runs es = Inr (out, rest)" using 2(3) False r by simp
      have "length runs < lmt" using False by simp
      with 2(1) [OF False r None step 2(4)] obtain seen rows where ih: "es = seen @ rest" "matching st q seen = Inr rows" "out = runs @ rows"
        "length out \<le> lmt" "rest \<noteq> [] \<longrightarrow> (\<exists>seen' e r rows'. seen = seen' @ [e] \<and> list_entry st q e = Inr (Some r) \<and> rows = rows' @ [r])" by blast
      then show ?thesis using r None by (intro exI [of _ "e # seen"] exI [of _ rows]) auto
    next
      case (Some x)
      then have step: "list_loop st q lmt (runs @ [x]) es = Inr (out, rest)" using 2(3) False r by simp
      have "length (runs @ [x]) \<le> lmt" using False by simp
      from 2(2) [OF False r Some step this] obtain seen rows where ih: "es = seen @ rest" "matching st q seen = Inr rows"
        "out = (runs @ [x]) @ rows" "length out \<le> lmt"
        "rest \<noteq> [] \<longrightarrow> length (runs @ [x]) < lmt \<longrightarrow>
           (\<exists>seen' e r rows'. seen = seen' @ [e] \<and> list_entry st q e = Inr (Some r) \<and> rows = rows' @ [r])" by blast
      have "\<exists>seen' e' r' rows'. e # seen = seen' @ [e'] \<and> list_entry st q e' = Inr (Some r') \<and> x # rows = rows' @ [r']" if "rest \<noteq> []"
      proof (cases "length (runs @ [x]) < lmt")
        case True
        with ih(5) that obtain seen' e' r' rows' where "seen = seen' @ [e']" "list_entry st q e' = Inr (Some r')" "rows = rows' @ [r']" by blast
        then show ?thesis by (intro exI [of _ "e # seen'"] exI [of _ e'] exI [of _ r'] exI [of _ "x # rows'"]) simp
      next
        case full: False
        have "seen = [] \<and> rows = []"
        proof (cases es)
          case Nil
          then show ?thesis using ih that by simp
        next
          case (Cons a as)
          then have "rest = es" using 2(3) False r Some full by (auto split: if_splits)
          then show ?thesis using ih by simp
        qed
        then show ?thesis using r Some by auto
      qed
      then show ?thesis using ih r Some by (intro exI [of _ "e # seen"] exI [of _ "x # rows"]) auto
    qed
  qed
qed auto

lemma matching_append:
  "matching st q (xs @ ys) = res_bind (matching st q xs) (\<lambda>a. res_bind (matching st q ys) (\<lambda>b. Inr (a @ b)))"
  by (induction xs) (auto simp: res_bind_def split: sum.splits option.splits)

lemma after_cursor_at: "ie_id e \<notin> ie_id ` set xs \<Longrightarrow> after_cursor (ie_id e) (xs @ e # ys) = ys"
  by (induction xs) auto

lemma after_cursor_suffix: "\<exists>pre. xs = pre @ after_cursor c xs"
proof (induction xs)
  case (Cons e xs)
  then obtain pre where "xs = pre @ after_cursor c xs" by blast
  then show ?case by (cases "ie_id e = c") (auto intro: exI [of _ "[e]"] exI [of _ "e # pre"])
qed simp

lemma list_start_suffix: "\<exists>pre. rev index = pre @ list_start q index"
  using after_cursor_suffix by (auto simp: list_start_def split: option.split)

text \<open>The store later: runs were created meanwhile, the older ones read as before.\<close>

definition later_store :: "('f, 'v) run_store \<Rightarrow> ('f, 'v) run_store \<Rightarrow> bool" where
  "later_store st st' \<longleftrightarrow> (\<exists>created. read_index st' = Inr (rs_index st @ created) \<and> distinct (map ie_id (rs_index st @ created))) \<and>
     (\<forall>e \<in> set (rs_index st). read_meta st' (ie_id e) = read_meta st (ie_id e))"

lemma matching_later:
  "\<forall>e \<in> set es. read_meta st' (ie_id e) = read_meta st (ie_id e) \<Longrightarrow> matching st' (q\<lparr>lq_cursor := c\<rparr>) es = matching st q es"
  by (induction es) (simp_all add: list_entry_def cong: option.case_cong sum.case_cong)

text \<open>
  Pages tile the list, whatever is created between them. The rows of a page followed by the whole listing
  from its cursor, read later when more runs have been created, are the whole listing the query asked for at
  first: no run is skipped, repeated or reordered. A page holds no more rows than its limit, and one that
  names a next page is not empty, so following the cursors ends.
\<close>

theorem pages_tile:
  assumes "list_runs_blocking st q = Inr pg" "later_store st st'"
    "\<forall>e \<in> set (rs_index st). \<forall>m. read_meta st (ie_id e) = Inr (Some m) \<longrightarrow> rm_id m = ie_id e"
  shows "listing st q = (case rp_next_cursor pg of
       None \<Rightarrow> Inr (rp_runs pg)
     | Some c \<Rightarrow> res_bind (listing st' (q\<lparr>lq_cursor := Some c\<rparr>)) (\<lambda>rows. Inr (rp_runs pg @ rows))) \<and>
     length (rp_runs pg) \<le> page_limit q \<and> (rp_next_cursor pg \<noteq> None \<longrightarrow> rp_runs pg \<noteq> [])"
proof -
  let ?L = "list_start q (rs_index st)"
  from assms(1) obtain runs rest where idx: "read_index st = Inr (rs_index st)" and loop: "list_loop st q (page_limit q) [] ?L = Inr (runs, rest)"
    and pg: "pg = \<lparr>rp_runs = runs, rp_next_cursor = (if rest \<noteq> [] then map_option ri_id (last_opt runs) else None)\<rparr>"
    by (auto simp: list_runs_blocking_def res_bind_Inr read_index_def split: option.splits)
  have pos: "0 < page_limit q" by (simp add: page_limit_def max_limit_def)
  from list_loop_matching [OF loop] obtain seen where L: "?L = seen @ rest" and rows: "matching st q seen = Inr runs"
    and few: "length runs \<le> page_limit q"
    and full: "rest \<noteq> [] \<longrightarrow> (\<exists>seen' e r rows'. seen = seen' @ [e] \<and> list_entry st q e = Inr (Some r) \<and> runs = rows' @ [r])"
    using pos by auto
  have whole: "listing st q = res_bind (matching st q rest) (\<lambda>b. Inr (runs @ b))"
    by (simp add: listing_def idx L matching_append rows)
  show ?thesis
  proof (cases "rest = []")
    case True
    then show ?thesis using whole few pg by simp
  next
    case False
    then obtain seen' e r rows' where cut: "seen = seen' @ [e]" "list_entry st q e = Inr (Some r)" "runs = rows' @ [r]" using full by blast
    obtain pre where rev: "rev (rs_index st) = pre @ seen' @ e # rest" using list_start_suffix [of "rs_index st" q] L cut(1) by auto
    have "set (rev (rs_index st)) = set (rs_index st)" by simp
    then have mem: "e \<in> set (rs_index st)" "set rest \<subseteq> set (rs_index st)" unfolding rev by auto
    have c: "ri_id r = ie_id e"
      using cut(2) assms(3) mem(1) by (auto simp: list_entry_def project_run_def split: option.splits sum.splits if_splits)
    from assms(2) obtain created where later: "read_index st' = Inr (rs_index st @ created)" "distinct (map ie_id (rs_index st @ created))"
      by (auto simp: later_store_def)
    have "distinct (map ie_id (rev (rs_index st @ created)))" using later(2) by (simp only: rev_map [symmetric] distinct_rev)
    then have "ie_id e \<notin> ie_id ` set (rev created @ pre @ seen')" by (auto simp: rev)
    then have "after_cursor (ie_id e) (rev (rs_index st @ created)) = rest"
      using after_cursor_at [of e "rev created @ pre @ seen'" rest] by (simp add: rev)
    then have "listing st' (q\<lparr>lq_cursor := Some (ie_id e)\<rparr>) = matching st' (q\<lparr>lq_cursor := Some (ie_id e)\<rparr>) rest"
      by (simp add: listing_def later(1) list_start_def)
    also have "\<dots> = matching st q rest" using assms(2) mem(2) by (intro matching_later) (auto simp: later_store_def)
    finally show ?thesis using whole few pg False cut(3) c by simp
  qed
qed


definition shelf :: "string list \<Rightarrow> (rat, unit) run_store" where
  "shelf ids = blank_store\<lparr>rs_index := map (\<lambda>i. \<lparr>ie_id = i, ie_type = ''evolve'', ie_created_ms = 1, ie_label = i\<rparr>) ids,
     rs_meta := (\<lambda>i. if i \<in> set ids then Some (running_meta\<lparr>rm_id := i\<rparr>) else None)\<rparr>"

definition one_row :: list_runs_query where
  "one_row = \<lparr>lq_run_type = Some ''evolve'', lq_status = Some Running, lq_limit = Some 1, lq_cursor = None\<rparr>"

theorem pages_tile_witness:
  "listing (shelf [''a'', ''b'']) one_row =
     res_bind (listing (shelf [''a'', ''b'', ''c'']) (one_row\<lparr>lq_cursor := Some ''b''\<rparr>))
       (\<lambda>rows. Inr (project_run \<lparr>ie_id = ''b'', ie_type = ''evolve'', ie_created_ms = 1, ie_label = ''b''\<rparr> (running_meta\<lparr>rm_id := ''b''\<rparr>) # rows))"
proof -
  let ?row = "project_run \<lparr>ie_id = ''b'', ie_type = ''evolve'', ie_created_ms = 1, ie_label = ''b''\<rparr> (running_meta\<lparr>rm_id := ''b''\<rparr>)"
  have page: "list_runs_blocking (shelf [''a'', ''b'']) one_row = Inr \<lparr>rp_runs = [?row], rp_next_cursor = Some ''b''\<rparr>"
    by (simp add: list_runs_blocking_def shelf_def blank_store_def read_index_def one_row_def page_limit_def max_limit_def list_start_def
        list_entry_def read_meta_def running_meta_def last_opt_def project_run_def)
  have later: "later_store (shelf [''a'', ''b'']) (shelf [''a'', ''b'', ''c''])"
    by (auto simp: later_store_def shelf_def blank_store_def read_index_def read_meta_def)
  have "\<forall>e \<in> set (rs_index (shelf [''a'', ''b''])). \<forall>m. read_meta (shelf [''a'', ''b'']) (ie_id e) = Inr (Some m) \<longrightarrow> rm_id m = ie_id e"
    by (auto simp: shelf_def blank_store_def read_meta_def)
  from pages_tile [OF page later this] show ?thesis by simp
qed

end
