(* ===== verification/Pool_Seal.thy ===== *)
theory Pool_Seal imports Pool_Lifecycle Audit_Log Run_Model begin

text \<open>
  The production-seal predicate (\<open>server/src/pool_seal.rs\<close>): the named blockers of a pool, read from
  its content, the audit replay and the compiled deflation basis. SHA-256 and the decimal printer are
  parameters.
\<close>

section \<open>The predicate\<close>

definition dec_const :: "i64 \<times> u32 \<Rightarrow> decimal" where "dec_const ms = of_int (fst ms) / 10 ^ snd ms"

definition max_uncensored_pbo :: "i64 \<times> u32" where "max_uncensored_pbo = (5, 1)"
definition min_dsr :: "i64 \<times> u32" where "min_dsr = (95, 2)"

record seal_decision =
  sd_allowed :: bool
  sd_blockers :: "string list"
  sd_evidence_hash :: string

record seal_context =
  sc_basis_version :: "32 word"
  sc_launcher :: "string option"
  sc_revoked :: bool

definition blocker :: "bool \<Rightarrow> string \<Rightarrow> string list" where "blocker b s = (if b then [s] else [])"

definition evidence_blockers :: "formula_gate_evidence list \<Rightarrow> pool_formula \<Rightarrow> string list" where
  "evidence_blockers evidence formula =
     (case find (\<lambda>e. ge_formula_hash e = pf_hash formula) evidence of
        None \<Rightarrow> [''hb5_8_per_formula_evidence_missing_for_'' @ pf_hash formula]
      | Some row \<Rightarrow> blocker (\<not> evidence_passes row) (''hb5_8_per_formula_gate_failed_for_'' @ pf_hash formula))"

definition hard_blocks :: "formula_pool_content \<Rightarrow> string list" where
  "hard_blocks pool =
     (let d = pc_deflation pool
      in blocker (\<not> ds_gp_aware d) ''hb1_trial_basis_not_gp_aware'' @
         blocker (ds_distinct_evaluations d \<le> ds_analytic_floor d) ''hb1_distinct_evaluations_at_or_below_analytic_floor'' @
         blocker (ds_expected_max_sharpe d \<le> 0) ''hb2_expected_max_sharpe_not_finite_positive'' @
         (case ds_uncensored_pbo d of
            None \<Rightarrow> [''hb3_uncensored_pbo_absent'']
          | Some pbo \<Rightarrow> blocker (pbo > dec_const max_uncensored_pbo) ''hb3_uncensored_pbo_above_threshold'') @
         blocker (ds_variance_trials d < ds_distinct_evaluations d) ''hb3_pbo_population_censored'' @
         blocker (ds_champion_dsr d < dec_const min_dsr) ''hb4_dsr_below_floor'' @
         (case pc_gate_evidence pool of
            None \<Rightarrow> [''hb5_8_per_formula_evidence_absent'']
          | Some evidence \<Rightarrow> concat (map (evidence_blockers evidence) (pc_formulas pool))))"

record seal_env =
  sn_sha256 :: "bytes \<Rightarrow> bytes"
  sn_decimal_str :: "decimal \<Rightarrow> string"

definition bool_str :: "bool \<Rightarrow> string" where "bool_str b = (if b then ''true'' else ''false'')"

definition evidence_text :: "seal_env \<Rightarrow> formula_pool_content \<Rightarrow> string" where
  "evidence_text N pool =
     (let d = pc_deflation pool
      in ''gp_aware='' @ bool_str (ds_gp_aware d) @ '';distinct='' @ show_nat (ds_distinct_evaluations d) @
         '';floor='' @ show_nat (ds_analytic_floor d) @ '';variance_trials='' @ show_nat (ds_variance_trials d) @
         '';emax='' @ sn_decimal_str N (ds_expected_max_sharpe d) @ '';dsr='' @ sn_decimal_str N (ds_champion_dsr d) @
         '';pbo='' @ (case ds_uncensored_pbo d of None \<Rightarrow> ''absent'' | Some p \<Rightarrow> sn_decimal_str N p) @ '';'' @
         (case pc_gate_evidence pool of
            None \<Rightarrow> ''evidence=absent;''
          | Some rows \<Rightarrow> concat (map (\<lambda>r. ge_formula_hash r @ ''='' @ bool_str (evidence_passes r) @ '';'') rows)))"

definition evidence_hash :: "seal_env \<Rightarrow> formula_pool_content \<Rightarrow> string" where
  "evidence_hash N pool = hex (sn_sha256 N (text_bytes (evidence_text N pool)))"

definition seal_blockers :: "formula_pool_content \<Rightarrow> audit_entry list \<Rightarrow> seal_context \<Rightarrow> string list" where
  "seal_blockers pool entries ctx =
     blocker (pc_mode pool \<noteq> pool_mode.Production) ''not_production_mode'' @
     blocker (\<not> basis_satisfied (sc_basis_version ctx)) ''deflation_basis_prerequisites_unsatisfied'' @
     blocker (sc_revoked ctx) ''pool_revoked'' @
     (case sc_launcher ctx of
        None \<Rightarrow> [''launcher_unresolved'']
      | Some launcher \<Rightarrow>
          blocker (derive_signoff entries (pl_pool_hash (pc_lineage pool)) (Some launcher) \<noteq> Two_Distinct_Signoffs)
            ''insufficient_distinct_approver_signoffs'') @
     hard_blocks pool"

definition seal_allowed :: "seal_env \<Rightarrow> formula_pool_content \<Rightarrow> audit_entry list \<Rightarrow> seal_context \<Rightarrow> seal_decision" where
  "seal_allowed N pool entries ctx =
     (let blockers = seal_blockers pool entries ctx
      in \<lparr>sd_allowed = (blockers = []), sd_blockers = blockers, sd_evidence_hash = evidence_hash N pool\<rparr>)"

section \<open>What it demands\<close>

text \<open>The evidence a pool must carry, without the blockers.\<close>

definition evidence_complete :: "formula_pool_content \<Rightarrow> bool" where
  "evidence_complete pool \<longleftrightarrow>
     (let d = pc_deflation pool
      in ds_gp_aware d \<and> ds_analytic_floor d < ds_distinct_evaluations d \<and> 0 < ds_expected_max_sharpe d \<and>
         (\<exists>p. ds_uncensored_pbo d = Some p \<and> p \<le> 1 / 2) \<and> ds_distinct_evaluations d \<le> ds_variance_trials d \<and>
         95 / 100 \<le> ds_champion_dsr d) \<and>
     (\<exists>rows. pc_gate_evidence pool = Some rows \<and>
        (\<forall>f \<in> set (pc_formulas pool). \<exists>row \<in> set rows. ge_formula_hash row = pf_hash f \<and> evidence_passes row))"

lemma blocker_Nil [simp]: "blocker b s = [] \<longleftrightarrow> \<not> b"
  by (simp add: blocker_def)

lemma evidence_blockers_Nil:
  "evidence_blockers rows f = [] \<longleftrightarrow> (\<exists>row. find (\<lambda>e. ge_formula_hash e = pf_hash f) rows = Some row \<and> evidence_passes row)"
  by (simp add: evidence_blockers_def split: option.split)

lemma hard_blocks_complete: "hard_blocks pool = [] \<Longrightarrow> evidence_complete pool"
  by (fastforce simp: hard_blocks_def evidence_complete_def Let_def evidence_blockers_Nil find_Some_iff dec_const_def max_uncensored_pbo_def
      min_dsr_def not_le not_less split: option.splits)

lemma seal_allowed_iff:
  "sd_allowed (seal_allowed N pool entries ctx) \<longleftrightarrow>
     pc_mode pool = pool_mode.Production \<and> basis_satisfied (sc_basis_version ctx) \<and> \<not> sc_revoked ctx \<and>
     (\<exists>l. sc_launcher ctx = Some l \<and> derive_signoff entries (pl_pool_hash (pc_lineage pool)) (Some l) = Two_Distinct_Signoffs) \<and>
     hard_blocks pool = []"
  by (auto simp: seal_allowed_def seal_blockers_def Let_def split: option.splits)

end
