(* ===== verification/Server_Auth.thy ===== *)
theory Server_Auth imports Audit_Log begin

text \<open>
  Who may call the server (\<open>server/src/auth\<close>): the OAuth callback and its policy, the allowlists, the
  signed session cookie and the gates in front of the protected routes. The identity provider, HMAC,
  base64, UTF-8 decoding and the clock are parameters; text is read as ASCII.
\<close>

section \<open>Text helpers of the standard library\<close>

fun split_once :: "string \<Rightarrow> string \<Rightarrow> (string \<times> string) option" where
  "split_once pat [] = (if pat = [] then Some ([], []) else None)"
| "split_once pat (c # cs) =
     (if take (length pat) (c # cs) = pat then Some ([], drop (length pat) (c # cs))
      else map_option (\<lambda>(a, b). (c # a, b)) (split_once pat cs))"

definition rsplit_once :: "char \<Rightarrow> string \<Rightarrow> (string \<times> string) option" where
  "rsplit_once d s =
     (let tl = takeWhile (\<lambda>c. c \<noteq> d) (rev s)
      in if d \<notin> set s then None else Some (rev (drop (Suc (length tl)) (rev s)), rev tl))"

definition strip_prefix :: "string \<Rightarrow> string \<Rightarrow> string option" where
  "strip_prefix pre s = (if take (length pre) s = pre then Some (drop (length pre) s) else None)"

definition parse_u64 :: "string \<Rightarrow> u64 option" where
  "parse_u64 s =
     (let ds = (case s of [] \<Rightarrow> [] | c # cs \<Rightarrow> if c = CHR ''+'' then cs else s)
      in if ds = [] \<or> \<not> list_all is_ascii_digit ds then None
         else if parse_digits ds < u64_modulus then Some (parse_digits ds) else None)"

definition eq_ignore_ascii_case :: "string \<Rightarrow> string \<Rightarrow> bool" where
  "eq_ignore_ascii_case a b \<longleftrightarrow> map to_ascii_lowercase a = map to_ascii_lowercase b"

definition sat_u64_add :: "u64 \<Rightarrow> u64 \<Rightarrow> u64" where "sat_u64_add a b = min (a + b) (u64_modulus - 1)"

section \<open>Claims and allowlists\<close>

record google_claims =
  gc_email :: string
  gc_email_verified :: bool
  gc_aud :: string
  gc_iss :: string
  gc_exp :: u64

datatype verify_error = Unsupported | Upstream string | Malformed string

text \<open>The token-info response, whose flags and times are strings.\<close>

record token_info =
  ti_email :: "string option"
  ti_email_verified :: "string option"
  ti_aud :: "string option"
  ti_iss :: "string option"
  ti_exp :: "string option"

definition claims_of_tokeninfo :: "token_info \<Rightarrow> (verify_error, google_claims) result" where
  "claims_of_tokeninfo i =
     (case ti_email i of None \<Rightarrow> Inl (Malformed ''no email in tokeninfo'') | Some email \<Rightarrow>
      (case ti_aud i of None \<Rightarrow> Inl (Malformed ''no aud in tokeninfo'') | Some aud \<Rightarrow>
       (case ti_iss i of None \<Rightarrow> Inl (Malformed ''no iss in tokeninfo'') | Some iss \<Rightarrow>
        (case Option.bind (ti_exp i) parse_u64 of None \<Rightarrow> Inl (Malformed ''no/!parseable expiry in tokeninfo'') | Some expiry \<Rightarrow>
           Inr \<lparr>gc_email = email,
                gc_email_verified = (case ti_email_verified i of None \<Rightarrow> False | Some v \<Rightarrow> eq_ignore_ascii_case v ''true''),
                gc_aud = aud, gc_iss = iss, gc_exp = expiry\<rparr>))))"

datatype claim_rejection = Audience | Issuer | Expired | Email_Unverified

definition allowed_iss :: "string list" where "allowed_iss = [''accounts.google.com'', ''https://accounts.google.com'']"

definition check_claims :: "google_claims \<Rightarrow> string \<Rightarrow> u64 \<Rightarrow> (claim_rejection, unit) result" where
  "check_claims c expected_aud now =
     (if gc_aud c \<noteq> expected_aud then Inl Audience
      else if gc_iss c \<notin> set allowed_iss then Inl Issuer
      else if now \<ge> gc_exp c then Inl Expired
      else if \<not> gc_email_verified c then Inl Email_Unverified else Inr ())"

definition normal_email :: "string \<Rightarrow> string" where "normal_email e = map to_ascii_lowercase (trim e)"

definition parse_allowlist :: "string \<Rightarrow> string list" where
  "parse_allowlist raw = filter (\<lambda>e. e \<noteq> []) (map normal_email (split_on (CHR '','') raw))"

definition contains_email :: "string list \<Rightarrow> string \<Rightarrow> bool" where
  "contains_email allowlist email \<longleftrightarrow> normal_email email \<noteq> [] \<and> normal_email email \<in> set allowlist"

section \<open>Configuration\<close>

record auth_config =
  ac_client_id :: string
  ac_client_secret :: string
  ac_redirect_uri :: string
  ac_allowed_emails :: "string list"
  ac_session_secret :: bytes
  ac_secret_is_ephemeral :: bool
  ac_session_ttl_secs :: u64
  ac_cookie_secure :: bool

definition default_session_ttl_secs :: u64 where "default_session_ttl_secs = 12 * 60 * 60"

definition cookie_secure_for :: "string \<Rightarrow> bool" where
  "cookie_secure_for redirect_uri =
     (case split_once ''://'' redirect_uri of None \<Rightarrow> False | Some (scheme, _) \<Rightarrow> eq_ignore_ascii_case scheme ''https'')"

definition env_first :: "(string \<Rightarrow> string option) \<Rightarrow> string list \<Rightarrow> string" where
  "env_first env keys = (case filter (\<lambda>v. v \<noteq> []) (List.map_filter env keys) of [] \<Rightarrow> [] | v # _ \<Rightarrow> v)"

text \<open>The environment as a partial map; \<open>random_key\<close> is the fallback secret drawn at boot.\<close>

definition auth_config_from_env :: "(string \<Rightarrow> string option) \<Rightarrow> bytes \<Rightarrow> auth_config" where
  "auth_config_from_env env random_key =
     (let explicit_secret = (case env ''QE_SESSION_SECRET'' of Some s \<Rightarrow> if s = [] then None else Some s | None \<Rightarrow> None);
          redirect_uri = env_first env [''QE_OAUTH_REDIRECT_URI'', ''QE_GOOGLE_REDIRECT_URI'']
      in \<lparr>ac_client_id = env_first env [''QE_OAUTH_GOOGLE_CLIENT_ID'', ''QE_GOOGLE_CLIENT_ID''],
          ac_client_secret = env_first env [''QE_OAUTH_GOOGLE_CLIENT_SECRET'', ''QE_GOOGLE_CLIENT_SECRET''],
          ac_redirect_uri = redirect_uri,
          ac_allowed_emails = parse_allowlist (case env ''QE_ADMIN_ALLOWED_EMAILS'' of None \<Rightarrow> [] | Some s \<Rightarrow> s),
          ac_session_secret = (case explicit_secret of Some s \<Rightarrow> text_bytes s | None \<Rightarrow> random_key),
          ac_secret_is_ephemeral = (explicit_secret = None),
          ac_session_ttl_secs = default_session_ttl_secs,
          ac_cookie_secure = cookie_secure_for redirect_uri\<rparr>)"

definition is_allowed :: "auth_config \<Rightarrow> string \<Rightarrow> bool" where
  "is_allowed cfg email = contains_email (ac_allowed_emails cfg) email"

text \<open>The boot refuses an ephemeral secret off loopback and only warns about insecure cookies.\<close>

definition check_session_secret_policy :: "bool \<Rightarrow> bool \<Rightarrow> bool" where
  "check_session_secret_policy loopback secret_is_ephemeral \<longleftrightarrow> \<not> (secret_is_ephemeral \<and> \<not> loopback)"

definition should_warn_insecure_cookies :: "bool \<Rightarrow> bool \<Rightarrow> bool" where
  "should_warn_insecure_cookies loopback cookie_secure \<longleftrightarrow> \<not> loopback \<and> \<not> cookie_secure"

section \<open>The session cookie\<close>

record crypto =
  cr_hmac :: "bytes \<Rightarrow> bytes \<Rightarrow> bytes"
  cr_b64 :: "bytes \<Rightarrow> string"
  cr_unb64 :: "string \<Rightarrow> bytes option"
  cr_utf8 :: "bytes \<Rightarrow> string option"

record session =
  se_email :: string
  se_exp :: u64

definition session_payload :: "string \<Rightarrow> u64 \<Rightarrow> string" where
  "session_payload email exp_secs = ''v1|'' @ email @ ''|'' @ show_nat exp_secs"

definition mint_session_cookie :: "crypto \<Rightarrow> bytes \<Rightarrow> string \<Rightarrow> u64 \<Rightarrow> string" where
  "mint_session_cookie C secret email exp_secs =
     (let payload_b64 = cr_b64 C (text_bytes (session_payload email exp_secs))
      in payload_b64 @ ''.'' @ cr_b64 C (cr_hmac C secret (text_bytes payload_b64)))"

definition session_of_payload :: "string \<Rightarrow> u64 \<Rightarrow> session option" where
  "session_of_payload payload now =
     Option.bind (strip_prefix ''v1|'' payload) (\<lambda>rest.
     Option.bind (rsplit_once (CHR ''|'') rest) (\<lambda>(email, exp_str).
     Option.bind (parse_u64 exp_str) (\<lambda>expiry.
       if email = [] \<or> now \<ge> expiry then None else Some \<lparr>se_email = email, se_exp = expiry\<rparr>)))"

definition verify_session_cookie :: "crypto \<Rightarrow> bytes \<Rightarrow> string \<Rightarrow> u64 \<Rightarrow> session option" where
  "verify_session_cookie C secret token now =
     Option.bind (split_once ''.'' token) (\<lambda>(payload_b64, sig_b64).
     Option.bind (cr_unb64 C sig_b64) (\<lambda>sig.
       if sig \<noteq> cr_hmac C secret (text_bytes payload_b64) then None
       else Option.bind (cr_unb64 C payload_b64) (\<lambda>b. Option.bind (cr_utf8 C b) (\<lambda>payload. session_of_payload payload now))))"

section \<open>Logging in and out\<close>

definition session_cookie_name :: string where "session_cookie_name = ''qe_session''"
definition oauth_state_cookie :: string where "oauth_state_cookie = ''qe_oauth_state''"

definition set_cookie :: "string \<Rightarrow> string \<Rightarrow> bool \<Rightarrow> u64 \<Rightarrow> string" where
  "set_cookie name v secure max_age =
     name @ ''='' @ v @ ''; HttpOnly'' @ (if secure then ''; Secure'' else '''') @ ''; SameSite=Lax; Path=/; Max-Age='' @ show_nat max_age"

text \<open>The first cookie of a name among the \<open>Cookie\<close> headers; a header that is not text is skipped.\<close>

definition cookie_value :: "string option list \<Rightarrow> string \<Rightarrow> string option" where
  "cookie_value headers name =
     (case List.map_filter (\<lambda>part. strip_prefix (name @ ''='') (trim part))
             (concat (map (\<lambda>h. case h of None \<Rightarrow> [] | Some s \<Rightarrow> split_on (CHR '';'') s) headers)) of
        [] \<Rightarrow> None | v # _ \<Rightarrow> Some v)"

datatype auth_response =
    Rejected_With nat string
  | Redirected string "string list"
  | Logged_Out string

definition auth_login :: "auth_config \<Rightarrow> (string \<Rightarrow> string) \<Rightarrow> string \<Rightarrow> auth_response" where
  "auth_login cfg auth_url state = Redirected (auth_url state) [set_cookie oauth_state_cookie state (ac_cookie_secure cfg) 600]"

text \<open>A request to the callback: \<open>None\<close> for the verifier is a task that failed to run.\<close>

record callback_request =
  cb_headers :: "string option list"
  cb_code :: "string option"
  cb_state :: "string option"
  cb_verify :: "string \<Rightarrow> (verify_error, google_claims) result option"
  cb_now :: u64

definition csrf_ok :: "callback_request \<Rightarrow> bool" where
  "csrf_ok q \<longleftrightarrow> (\<exists>s. cb_state q = Some s \<and> cookie_value (cb_headers q) oauth_state_cookie = Some s \<and> s \<noteq> [])"

definition auth_callback :: "crypto \<Rightarrow> auth_config \<Rightarrow> callback_request \<Rightarrow> auth_response" where
  "auth_callback C cfg q =
     (case (cb_state q, cookie_value (cb_headers q) oauth_state_cookie) of
        (Some qs, Some cs) \<Rightarrow>
          if qs = [] \<or> qs \<noteq> cs then Rejected_With 400 ''invalid or missing CSRF state''
          else (case cb_code q of
            None \<Rightarrow> Rejected_With 400 ''missing authorization code''
          | Some code \<Rightarrow>
              if code = [] then Rejected_With 400 ''missing authorization code''
              else (case cb_verify q code of
                None \<Rightarrow> Rejected_With 500 ''verification task failed''
              | Some (Inl _) \<Rightarrow> Rejected_With 401 ''could not verify Google identity''
              | Some (Inr claims) \<Rightarrow>
                  if check_claims claims (ac_client_id cfg) (cb_now q) \<noteq> Inr () then Rejected_With 401 ''ID token failed verification''
                  else if \<not> is_allowed cfg (gc_email claims) then Redirected ''/?error=forbidden'' []
                  else (let expiry = sat_u64_add (cb_now q) (ac_session_ttl_secs cfg);
                            token = mint_session_cookie C (ac_session_secret cfg) (gc_email claims) expiry
                        in Redirected ''/'' [set_cookie session_cookie_name token (ac_cookie_secure cfg) (ac_session_ttl_secs cfg),
                             set_cookie oauth_state_cookie [] (ac_cookie_secure cfg) 0])))
      | _ \<Rightarrow> Rejected_With 400 ''invalid or missing CSRF state'')"

definition auth_logout :: "auth_config \<Rightarrow> auth_response" where
  "auth_logout cfg = Logged_Out (set_cookie session_cookie_name [] (ac_cookie_secure cfg) 0)"

section \<open>The gates\<close>

record role_config =
  rc_operators :: "string list"
  rc_approvers :: "string list"
  rc_admins :: "string list"

definition role_config_from_env :: "(string \<Rightarrow> string option) \<Rightarrow> role_config" where
  "role_config_from_env env =
     (let lst = (\<lambda>key. parse_allowlist (case env key of None \<Rightarrow> [] | Some s \<Rightarrow> s))
      in \<lparr>rc_operators = lst ''QE_ROLE_OPERATORS'', rc_approvers = lst ''QE_ROLE_APPROVERS'', rc_admins = lst ''QE_ROLE_ADMINS''\<rparr>)"

definition is_operator :: "role_config \<Rightarrow> string \<Rightarrow> bool" where "is_operator R email = contains_email (rc_operators R) email"
definition is_approver :: "role_config \<Rightarrow> string \<Rightarrow> bool" where "is_approver R email = contains_email (rc_approvers R) email"
definition is_admin :: "role_config \<Rightarrow> string \<Rightarrow> bool" where "is_admin R email = contains_email (rc_admins R) email"

datatype role = Operator | Approver

text \<open>\<open>Inr\<close> is the identity handed to the handler behind the gate.\<close>

definition require_session :: "crypto \<Rightarrow> auth_config \<Rightarrow> string option list \<Rightarrow> u64 \<Rightarrow> (auth_response, string) result" where
  "require_session C cfg headers now =
     (case Option.bind (cookie_value headers session_cookie_name) (\<lambda>t. verify_session_cookie C (ac_session_secret cfg) t now) of
        Some s \<Rightarrow> Inr (se_email s)
      | None \<Rightarrow> Inl (Rejected_With 401 ''authentication required''))"

definition role_gate :: "role_config \<Rightarrow> role \<Rightarrow> string option \<Rightarrow> (auth_response, unit) result" where
  "role_gate R r authed =
     (if (case authed of None \<Rightarrow> False | Some email \<Rightarrow> (case r of Operator \<Rightarrow> is_operator R email | Approver \<Rightarrow> is_approver R email))
      then Inr () else Inl (Rejected_With 403 ''role required''))"

text \<open>A governance route is behind both gates; the session gate runs first.\<close>

definition governance_gate ::
  "crypto \<Rightarrow> auth_config \<Rightarrow> role_config \<Rightarrow> role \<Rightarrow> string option list \<Rightarrow> u64 \<Rightarrow> (auth_response, string) result" where
  "governance_gate C cfg R r headers now =
     res_bind (require_session C cfg headers now) (\<lambda>email. res_bind (role_gate R r (Some email)) (\<lambda>_. Inr email))"

record me_body =
  me_email :: string
  me_can_launch :: bool
  me_can_approve :: bool

definition get_me :: "role_config \<Rightarrow> string \<Rightarrow> me_body" where
  "get_me R email = \<lparr>me_email = email, me_can_launch = is_operator R email, me_can_approve = is_approver R email\<rparr>"


section \<open>A session is a login\<close>

lemma split_once_char:
  "split_once [d] s = Some (a, b) \<Longrightarrow> s = a @ d # b \<and> d \<notin> set a"
  by (induction s arbitrary: a b) (auto split: if_splits)

lemma split_once_at: "c \<notin> set p \<Longrightarrow> split_once [c] (p @ c # s) = Some (p, s)"
  by (induction p) auto

lemma rsplit_once_at: "d \<notin> set t \<Longrightarrow> rsplit_once d (a @ d # t) = Some (a, t)"
proof -
  assume "d \<notin> set t"
  then have "takeWhile (\<lambda>c. c \<noteq> d) (rev t @ d # rev a) = rev t" by (subst takeWhile_append2) auto
  then show ?thesis by (simp add: rsplit_once_def)
qed

lemma parse_u64_show: "n < u64_modulus \<Longrightarrow> parse_u64 (show_nat n) = Some n"
proof -
  assume n: "n < u64_modulus"
  obtain c cs where s: "show_nat n = c # cs" using show_nat_nonempty [of n] by (cases "show_nat n") auto
  have "is_ascii_digit c" using show_nat_digits [of c n] s by simp
  then have "c \<noteq> CHR ''+''" by (auto simp: is_ascii_digit_def)
  moreover have "list_all is_ascii_digit (c # cs)" using show_nat_digits [of _ n] s by (auto simp: list_all_iff)
  ultimately show ?thesis using n parse_show_nat [of n] unfolding parse_u64_def s by simp
qed

lemma bar_not_digit: "CHR ''|'' \<notin> set (show_nat n)"
  using show_nat_digits [of "CHR ''|''" n] by (auto simp: is_ascii_digit_def)

lemma payload_parses:
  "x < u64_modulus \<Longrightarrow> session_of_payload (session_payload email x) now =
     (if email = [] \<or> now \<ge> x then None else Some \<lparr>se_email = email, se_exp = x\<rparr>)"
  by (simp add: session_of_payload_def session_payload_def strip_prefix_def rsplit_once_at bar_not_digit parse_u64_show)

lemma set_cookie_inject: "set_cookie name a secure age = set_cookie name b secure age \<longleftrightarrow> a = b"
  by (simp add: set_cookie_def)

definition crypto_ok :: "crypto \<Rightarrow> bool" where
  "crypto_ok C \<longleftrightarrow> (\<forall>b. valid_bytes b \<longrightarrow> cr_unb64 C (cr_b64 C b) = Some b \<and> CHR ''.'' \<notin> set (cr_b64 C b)) \<and>
     (\<forall>k m. valid_bytes (cr_hmac C k m)) \<and> (\<forall>b s. cr_utf8 C b = Some s \<longrightarrow> text_bytes s = b)"

lemma text_bytes_valid: "valid_bytes (text_bytes s)"
  by (auto simp: valid_bytes_def text_bytes_def)

definition honest_login :: "auth_config \<Rightarrow> callback_request \<Rightarrow> string \<Rightarrow> u64 \<Rightarrow> bool" where
  "honest_login cfg q email expiry \<longleftrightarrow> csrf_ok q \<and> expiry = sat_u64_add (cb_now q) (ac_session_ttl_secs cfg) \<and>
     contains_email (ac_allowed_emails cfg) email \<and>
     (\<exists>code claims. cb_code q = Some code \<and> cb_verify q code = Some (Inr claims) \<and> gc_email claims = email \<and> gc_email_verified claims \<and>
        gc_aud claims = ac_client_id cfg \<and> gc_iss claims \<in> set allowed_iss \<and> cb_now q < gc_exp claims)"

lemma check_claims_Inr:
  "check_claims c aud now = Inr () \<longleftrightarrow> gc_aud c = aud \<and> gc_iss c \<in> set allowed_iss \<and> now < gc_exp c \<and> gc_email_verified c"
  by (auto simp: check_claims_def)

lemma callback_signs_in:
  assumes "auth_callback C cfg q = Redirected ''/'' (cookie # cookies)"
  shows "\<exists>email expiry. honest_login cfg q email expiry \<and>
     cookie = set_cookie session_cookie_name (mint_session_cookie C (ac_session_secret cfg) email expiry) (ac_cookie_secure cfg) (ac_session_ttl_secs cfg)"
  using assms
  by (auto simp: auth_callback_def honest_login_def csrf_ok_def check_claims_Inr is_allowed_def Let_def
      split: option.splits if_splits sum.splits)

text \<open>The cookie a browser gets from one of the callbacks of a history.\<close>

definition issued :: "crypto \<Rightarrow> auth_config \<Rightarrow> callback_request list \<Rightarrow> string \<Rightarrow> bool" where
  "issued C cfg H token \<longleftrightarrow> (\<exists>q \<in> set H. \<exists>cookies. auth_callback C cfg q =
     Redirected ''/'' (set_cookie session_cookie_name token (ac_cookie_secure cfg) (ac_session_ttl_secs cfg) # cookies))"

text \<open>
  The token was not forged: nobody without the secret can MAC a payload, so if its MAC verifies, its payload
  is that of a cookie the server issued.
\<close>

definition not_forged :: "crypto \<Rightarrow> auth_config \<Rightarrow> callback_request list \<Rightarrow> string \<Rightarrow> bool" where
  "not_forged C cfg H token \<longleftrightarrow> (\<forall>p s. token = p @ ''.'' @ s \<longrightarrow>
     cr_unb64 C s = Some (cr_hmac C (ac_session_secret cfg) (text_bytes p)) \<longrightarrow> (\<exists>s'. issued C cfg H (p @ ''.'' @ s')))"

lemma sat_u64_add_bound: "sat_u64_add a b < u64_modulus"
  by (simp add: sat_u64_add_def)

lemma accepted_session_was_minted:
  assumes "crypto_ok C" "not_forged C cfg H token" "verify_session_cookie C (ac_session_secret cfg) token now = Some s"
  shows "\<exists>q \<in> set H. honest_login cfg q (se_email s) (se_exp s) \<and> now < se_exp s \<and> se_email s \<noteq> []"
proof -
  from assms(3) obtain p sig b payload where split: "split_once ''.'' token = Some (p, sig)"
    and mac: "cr_unb64 C sig = Some (cr_hmac C (ac_session_secret cfg) (text_bytes p))"
    and b: "cr_unb64 C p = Some b" "cr_utf8 C b = Some payload" and s: "session_of_payload payload now = Some s"
    by (auto simp: verify_session_cookie_def bind_eq_Some_conv split: if_splits)
  have "token = p @ ''.'' @ sig" using split_once_char [OF split] by simp
  then obtain s' q cookies where q: "q \<in> set H" and cb: "auth_callback C cfg q =
     Redirected ''/'' (set_cookie session_cookie_name (p @ ''.'' @ s') (ac_cookie_secure cfg) (ac_session_ttl_secs cfg) # cookies)"
    using assms(2) mac unfolding not_forged_def issued_def by blast
  from callback_signs_in [OF cb] obtain email x where login: "honest_login cfg q email x"
    and mint: "p @ ''.'' @ s' = mint_session_cookie C (ac_session_secret cfg) email x"
    by (auto simp: set_cookie_inject)
  let ?p = "cr_b64 C (text_bytes (session_payload email x))"
  have "CHR ''.'' \<notin> set ?p" using assms(1) text_bytes_valid by (simp add: crypto_ok_def)
  moreover have "CHR ''.'' \<notin> set p" using split_once_char [OF split] by simp
  ultimately have "Some (p, s') = split_once ''.'' (p @ ''.'' @ s')"
      "\<And>z. Some (?p, z) = split_once ''.'' (?p @ ''.'' @ z)"
    by (simp_all add: split_once_at)
  then have "p = ?p" using mint unfolding mint_session_cookie_def Let_def by (metis option.inject prod.inject)
  then have "b = text_bytes (session_payload email x)" using b assms(1) text_bytes_valid by (auto simp: crypto_ok_def)
  then have "payload = session_payload email x" using b assms(1) text_bytes_inject by (auto simp: crypto_ok_def)
  moreover have "x < u64_modulus" using login sat_u64_add_bound by (simp add: honest_login_def)
  ultimately have "s = \<lparr>se_email = email, se_exp = x\<rparr>" "email \<noteq> []" "now < x" using s by (auto simp: payload_parses split: if_splits)
  then show ?thesis using q login by auto
qed


text \<open>
  C27. Only a signed-in person with the role reaches a governance handler. If MACs cannot be forged, whoever the
  two gates let through is named by a cookie some callback of the past issued: the request then carried
  the login's own state, the identity provider vouched for this verified address to this application, the
  token had not expired, the address was on the allowlist, and the cookie has not run out; and the address
  is on the allowlist of the role the route asks for.
\<close>

theorem governance_gate_admits:
  assumes "crypto_ok C" "\<And>token. cookie_value headers session_cookie_name = Some token \<Longrightarrow> not_forged C cfg H token"
    "governance_gate C cfg R r headers now = Inr email"
  shows "(\<exists>q \<in> set H. \<exists>expiry. honest_login cfg q email expiry \<and> now < expiry) \<and>
     normal_email email \<noteq> [] \<and> normal_email email \<in> set (case r of Operator \<Rightarrow> rc_operators R | Approver \<Rightarrow> rc_approvers R)"
proof -
  from assms(3) obtain token s where "cookie_value headers session_cookie_name = Some token" "verify_session_cookie C (ac_session_secret cfg) token now = Some s" "se_email s = email"
    and role: "role_gate R r (Some email) = Inr ()"
    by (auto simp: governance_gate_def require_session_def res_bind_Inr bind_eq_Some_conv split: option.splits)
  with accepted_session_was_minted [OF assms(1) assms(2)] have "\<exists>q \<in> set H. \<exists>expiry. honest_login cfg q email expiry \<and> now < expiry" by blast
  moreover have "contains_email (case r of Operator \<Rightarrow> rc_operators R | Approver \<Rightarrow> rc_approvers R) email"
    using role by (auto simp: role_gate_def is_operator_def is_approver_def split: role.splits if_splits)
  ultimately show ?thesis by (simp add: contains_email_def)
qed

lemma minted_verifies:
  assumes "crypto_ok C" "x < u64_modulus" "cr_utf8 C (text_bytes (session_payload email x)) \<noteq> None"
  shows "verify_session_cookie C secret (mint_session_cookie C secret email x) now =
     (if email = [] \<or> x \<le> now then None else Some \<lparr>se_email = email, se_exp = x\<rparr>)"
proof -
  let ?b = "text_bytes (session_payload email x)"
  have "cr_utf8 C ?b = Some (session_payload email x)"
    using assms(1,3) text_bytes_inject unfolding crypto_ok_def by (metis not_None_eq)
  moreover have "cr_unb64 C (cr_b64 C ?b) = Some ?b" "CHR ''.'' \<notin> set (cr_b64 C ?b)" "\<And>k m. cr_unb64 C (cr_b64 C (cr_hmac C k m)) = Some (cr_hmac C k m)"
    using assms(1) text_bytes_valid unfolding crypto_ok_def by blast+
  ultimately show ?thesis using assms(2)
    by (simp add: verify_session_cookie_def mint_session_cookie_def Let_def split_once_at payload_parses)
qed

text \<open>
  C28. A login lasts exactly its lifetime. The cookie minted for an address is accepted, and yields that
  address and expiry, at every time before the expiry and at none from then on; the payload's text survives
  addresses that hold the separator.
\<close>

theorem session_round_trip:
  assumes "crypto_ok C" "x < u64_modulus" "cr_utf8 C (text_bytes (session_payload email x)) \<noteq> None" "email \<noteq> []"
  shows "verify_session_cookie C secret (mint_session_cookie C secret email x) now =
     (if now < x then Some \<lparr>se_email = email, se_exp = x\<rparr> else None)"
  using minted_verifies [OF assms(1-3)] assms(4) by (simp add: not_less)

section \<open>An instance\<close>

text \<open>A base64 that spells each byte as two hex digits, a MAC that appends the key, and one login.\<close>

definition demo_crypto :: crypto where
  "demo_crypto = \<lparr>cr_hmac = (\<lambda>k m. map (\<lambda>n. n mod 256) (k @ m)), cr_b64 = hex, cr_unb64 = decode_hex,
     cr_utf8 = (\<lambda>b. if valid_bytes b then Some (map char_of b) else None)\<rparr>"

lemma hex_no_dot: "valid_bytes b \<Longrightarrow> CHR ''.'' \<notin> set (hex b)"
proof (induction b)
  case (Cons n b)
  have "hex_digit d \<noteq> CHR ''.''" if "d < 16" for d
  proof
    assume "hex_digit d = CHR ''.''"
    then show False using hex_digit_code [OF that] by (simp split: if_splits)
  qed
  moreover have "n div 16 < 16" "n mod 16 < 16" using Cons.prems high_digit by (simp_all add: valid_bytes_def)
  ultimately have "CHR ''.'' \<noteq> hex_digit (n div 16)" "CHR ''.'' \<noteq> hex_digit (n mod 16)" by metis+
  then show ?case using Cons by (simp add: hex_def valid_bytes_def)
qed (simp add: hex_def)

lemma demo_crypto_ok: "crypto_ok demo_crypto"
proof -
  have "text_bytes (map char_of b) = b" if "valid_bytes b" for b
    using that by (induction b) (simp_all add: text_bytes_def valid_bytes_def of_char_of)
  moreover have "valid_bytes (map (\<lambda>n. n mod 256) a @ map (\<lambda>n. n mod 256) b)" for a b by (auto simp: valid_bytes_def)
  ultimately show ?thesis
    by (auto simp: crypto_ok_def demo_crypto_def decode_hex_hex hex_no_dot)
qed

definition demo_config :: auth_config where
  "demo_config = auth_config_from_env
     [''QE_SESSION_SECRET'' \<mapsto> ''k'', ''QE_GOOGLE_CLIENT_ID'' \<mapsto> ''app'', ''QE_ADMIN_ALLOWED_EMAILS'' \<mapsto> '' Ann@x.io,'',
      ''QE_OAUTH_REDIRECT_URI'' \<mapsto> ''HTTPS://h/cb''] []"

definition demo_roles :: role_config where "demo_roles = role_config_from_env [''QE_ROLE_APPROVERS'' \<mapsto> ''ann@x.io'']"

definition demo_callback :: callback_request where
  "demo_callback = \<lparr>cb_headers = [None, Some ''a=b; qe_oauth_state=n1''], cb_code = Some ''c'', cb_state = Some ''n1'',
     cb_verify = (\<lambda>code. Some (claims_of_tokeninfo \<lparr>ti_email = Some ''ann@x.io'', ti_email_verified = Some ''True'', ti_aud = Some ''app'',
        ti_iss = Some ''accounts.google.com'', ti_exp = Some ''90''\<rparr>)), cb_now = 50\<rparr>"

definition demo_token :: string where "demo_token = mint_session_cookie demo_crypto (text_bytes ''k'') ''ann@x.io'' 43250"

definition demo_headers :: "string option list" where "demo_headers = [Some (''qe_session='' @ demo_token)]"

lemmas auth_text = split_on.simps trim_def trim_end_def is_ascii_space_def to_ascii_lowercase_def normal_email_def
  eq_ignore_ascii_case_def map_filter_simps char_of_def bit_Suc_0_iff

lemma demo_config_fields [simp]:
  "ac_client_id demo_config = ''app''" "ac_session_secret demo_config = text_bytes ''k''" "ac_allowed_emails demo_config = [''ann@x.io'']"
  "ac_session_ttl_secs demo_config = 43200" "ac_cookie_secure demo_config"
  by (simp_all add: demo_config_def auth_config_from_env_def Let_def env_first_def parse_allowlist_def default_session_ttl_secs_def
      cookie_secure_for_def auth_text)

lemma demo_state: "cookie_value (cb_headers demo_callback) oauth_state_cookie = Some ''n1''"
  by (simp add: demo_callback_def cookie_value_def oauth_state_cookie_def strip_prefix_def auth_text)

lemma ann_normal [simp]: "normal_email ''ann@x.io'' = ''ann@x.io''"
  by (simp add: auth_text)

lemma demo_signs_in:
  "auth_callback demo_crypto demo_config demo_callback =
     Redirected ''/'' [set_cookie session_cookie_name demo_token True 43200, set_cookie oauth_state_cookie [] True 0]"
  using demo_state
  by (simp add: auth_callback_def demo_callback_def claims_of_tokeninfo_def parse_u64_def is_ascii_digit_def parse_digits_def char_digit_def
      check_claims_def allowed_iss_def is_allowed_def contains_email_def sat_u64_add_def demo_token_def Let_def
      eq_ignore_ascii_case_def to_ascii_lowercase_def char_of_def bit_Suc_0_iff)

lemma hex_chars: "valid_bytes b \<Longrightarrow> c \<in> set (hex b) \<Longrightarrow> 48 \<le> (of_char c :: nat) \<and> (of_char c :: nat) \<noteq> 59"
proof (induction b)
  case (Cons n b)
  have "n div 16 < 16" "n mod 16 < 16" using Cons.prems high_digit by (simp_all add: valid_bytes_def)
  moreover have "48 \<le> (of_char (hex_digit d) :: nat) \<and> (of_char (hex_digit d) :: nat) \<noteq> 59" if "d < 16" for d
    using hex_digit_code [OF that] by simp
  ultimately have "\<forall>c \<in> {hex_digit (n div 16), hex_digit (n mod 16)}. 48 \<le> (of_char c :: nat) \<and> (of_char c :: nat) \<noteq> 59" by simp
  then show ?case using Cons by (auto simp: hex_def valid_bytes_def)
qed (simp add: hex_def)

lemma demo_token_parts:
  "demo_token = hex (text_bytes (session_payload ''ann@x.io'' 43250)) @ ''.'' @
     hex (cr_hmac demo_crypto (text_bytes ''k'') (text_bytes (hex (text_bytes (session_payload ''ann@x.io'' 43250)))))"
  by (simp add: demo_token_def mint_session_cookie_def demo_crypto_def Let_def)

lemma demo_token_char:
  assumes "c \<in> set demo_token"
  shows "46 \<le> (of_char c :: nat) \<and> (of_char c :: nat) \<noteq> 59"
proof -
  have "valid_bytes (cr_hmac demo_crypto k m)" for k m using demo_crypto_ok by (simp add: crypto_ok_def)
  then show ?thesis using assms hex_chars text_bytes_valid unfolding demo_token_parts by fastforce
qed

lemma split_on_absent: "d \<notin> set s \<Longrightarrow> split_on d s = [s]"
  by (induction s) auto

lemma demo_cookie: "cookie_value demo_headers session_cookie_name = Some demo_token"
proof -
  let ?s = "''qe_session='' @ demo_token"
  have "CHR '';'' \<notin> set ?s" "\<forall>c \<in> set ?s. \<not> is_ascii_space c"
    using demo_token_char by (fastforce simp: is_ascii_space_def)+
  then show ?thesis
    using split_on_absent [of "CHR '';''" ?s] trim_id [of ?s]
    by (simp add: cookie_value_def demo_headers_def session_cookie_name_def strip_prefix_def map_filter_simps del: split_on.simps)
qed

lemma demo_verifies: "verify_session_cookie demo_crypto (text_bytes ''k'') demo_token 43249 = Some \<lparr>se_email = ''ann@x.io'', se_exp = 43250\<rparr>"
  unfolding demo_token_def by (subst minted_verifies [OF demo_crypto_ok]) (simp_all add: demo_crypto_def text_bytes_valid)

lemma demo_admitted: "governance_gate demo_crypto demo_config demo_roles Approver demo_headers 43249 = Inr ''ann@x.io''"
proof -
  have "rc_approvers demo_roles = [''ann@x.io'']"
    by (simp add: demo_roles_def role_config_from_env_def parse_allowlist_def auth_text)
  then show ?thesis
    by (simp add: governance_gate_def require_session_def demo_cookie demo_verifies role_gate_def is_approver_def contains_email_def)
qed

lemma last_dot: "a @ d # b = p @ d # s \<Longrightarrow> d \<notin> set a \<Longrightarrow> d \<notin> set b \<Longrightarrow> p = a"
  by (auto simp: append_eq_append_conv2 append_eq_Cons_conv Cons_eq_append_conv)

lemma demo_not_forged: "not_forged demo_crypto demo_config [demo_callback] demo_token"
proof -
  let ?a = "hex (text_bytes (session_payload ''ann@x.io'' 43250))"
  let ?b = "hex (cr_hmac demo_crypto (text_bytes ''k'') (text_bytes ?a))"
  have "CHR ''.'' \<notin> set ?a" "CHR ''.'' \<notin> set ?b"
    using hex_no_dot text_bytes_valid demo_crypto_ok by (simp_all add: crypto_ok_def)
  then have "p = ?a" if "demo_token = p @ ''.'' @ s" for p s
    using that last_dot [of ?a "CHR ''.''" ?b p s] unfolding demo_token_parts by simp
  moreover have "issued demo_crypto demo_config [demo_callback] (?a @ ''.'' @ ?b)"
    using demo_signs_in unfolding demo_token_parts by (simp add: issued_def)
  ultimately show ?thesis unfolding not_forged_def by blast
qed

theorem governance_gate_admits_witness:
  "\<exists>expiry. honest_login demo_config demo_callback ''ann@x.io'' expiry \<and> 43249 < expiry"
proof -
  have "not_forged demo_crypto demo_config [demo_callback] t" if "cookie_value demo_headers session_cookie_name = Some t" for t
    using that demo_cookie demo_not_forged by simp
  from governance_gate_admits [OF demo_crypto_ok this demo_admitted] show ?thesis by simp
qed

theorem session_round_trip_witness:
  "verify_session_cookie demo_crypto [3] (mint_session_cookie demo_crypto [3] ''weird|name@x.io'' 2000) 1999 =
     Some \<lparr>se_email = ''weird|name@x.io'', se_exp = 2000\<rparr>"
proof -
  have "cr_utf8 demo_crypto (text_bytes (session_payload ''weird|name@x.io'' 2000)) \<noteq> None"
    by (simp add: demo_crypto_def text_bytes_valid)
  from session_round_trip [OF demo_crypto_ok _ this] show ?thesis by simp
qed

end
