(* ===== verification/Pool_Server.thy ===== *)
theory Pool_Server imports Pool_Seal Server_Auth Run_Store begin

text \<open>
  The formula-pool routes of the server (\<open>server/src/pools.rs\<close>): the two artefact roots, the governance
  directory with its revocation set, and the handlers as tasks that advance one await point at a time, so
  that requests interleave as they do on the server. JSON packages are parameters, a random file name is an
  input of the step, and the text of an error message is kept without the error it quotes.
\<close>

section \<open>The state behind the routes\<close>

record pool_dirs =
  pd_research :: string
  pd_production :: string
  pd_governance :: string

definition from_dirs :: "string \<Rightarrow> string \<Rightarrow> pool_dirs" where
  "from_dirs artifacts_dir data_dir =
     \<lparr>pd_research = artifacts_dir @ ''/research/pools'', pd_production = artifacts_dir @ ''/pools'', pd_governance = data_dir @ ''/governance''\<rparr>"

record pool_packages =
  pk_pool :: pool_env
  pk_gov :: governance_json
  pk_rev_dec :: "bytes \<Rightarrow> (string, revocations) result"
  pk_rev_enc :: "revocations \<Rightarrow> (string, bytes) result"
  pk_record_enc :: "governance_record \<Rightarrow> (string, bytes) result"
  pk_audit :: audit_env
  pk_seal :: seal_env

record ('f, 'v) pool_server =
  sv_fs :: fs
  sv_rename_fault :: "io_error option"
  sv_log :: audit_log
  sv_store :: "('f, 'v) run_store"

definition load_either :: "pool_packages \<Rightarrow> pool_dirs \<Rightarrow> string \<Rightarrow> fs \<Rightarrow> formula_pool option" where
  "load_either K D ident f =
     (case pool_repo_load (pk_pool K) (pd_production D) ident f of
        Inr p \<Rightarrow> Some p
      | Inl _ \<Rightarrow> (case pool_repo_load (pk_pool K) (pd_research D) ident f of Inr p \<Rightarrow> Some p | Inl _ \<Rightarrow> None))"

definition load_production :: "pool_packages \<Rightarrow> pool_dirs \<Rightarrow> string \<Rightarrow> fs \<Rightarrow> (pool_error, formula_pool option) result" where
  "load_production K D ident f =
     (case pool_repo_load (pk_pool K) (pd_production D) ident f of
        Inr p \<Rightarrow> res_bind (assert_production_eligible (fp_content p)) (\<lambda>_. Inr (Some p))
      | Inl (PoolIo NotFound) \<Rightarrow> Inr None
      | Inl e \<Rightarrow> Inl e)"

definition research_has :: "pool_packages \<Rightarrow> pool_dirs \<Rightarrow> string \<Rightarrow> fs \<Rightarrow> bool" where
  "research_has K D ident f \<longleftrightarrow> (case pool_repo_load (pk_pool K) (pd_research D) ident f of Inr _ \<Rightarrow> True | Inl _ \<Rightarrow> False)"

definition revocations_path :: "pool_dirs \<Rightarrow> path" where
  "revocations_path D = (pd_governance D, ''revocations.json'')"

definition governance_record_path :: "pool_dirs \<Rightarrow> string \<Rightarrow> path" where
  "governance_record_path D pool_id = (pd_governance D @ ''/records'', json_name pool_id)"

definition read_revocations :: "pool_packages \<Rightarrow> pool_dirs \<Rightarrow> fs \<Rightarrow> (pool_error, revocations) result" where
  "read_revocations K D f =
     (case fs_read f (revocations_path D) of
        Inr b \<Rightarrow> (case pk_rev_dec K b of Inl e \<Rightarrow> Inl (PoolDeserialize e) | Inr r \<Rightarrow> Inr r)
      | Inl NotFound \<Rightarrow> Inr revocations_new
      | Inl e \<Rightarrow> Inl (PoolIo e))"

definition temp_path :: "path \<Rightarrow> string \<Rightarrow> path" where "temp_path p uuid = (fst p, ''.'' @ uuid @ ''.tmp'')"

definition write_governance_record ::
  "pool_packages \<Rightarrow> pool_dirs \<Rightarrow> string \<Rightarrow> string \<Rightarrow> governance_record \<Rightarrow> io_error option \<Rightarrow> fs \<Rightarrow> (pool_error, unit) result \<times> fs" where
  "write_governance_record K D uuid pool_id r rename_fault f =
     (let p = governance_record_path D pool_id
      in case fs_create_dir_all f (fst p) of
           Inl e \<Rightarrow> (Inl (PoolIo e), f)
         | Inr _ \<Rightarrow>
             (case pk_record_enc K r of
                Inl e \<Rightarrow> (Inl (PoolSerialize e), f)
              | Inr b \<Rightarrow> (case atomic_write f p (temp_path p uuid) rename_fault b of
                            (Inl e, f') \<Rightarrow> (Inl (PoolIo e), f')
                          | (Inr _, f') \<Rightarrow> (Inr (), f'))))"

definition revoke_pool ::
  "pool_packages \<Rightarrow> pool_dirs \<Rightarrow> string \<Rightarrow> revocation_record \<Rightarrow> io_error option \<Rightarrow> fs \<Rightarrow> (pool_error, revocations) result \<times> fs" where
  "revoke_pool K D uuid r rename_fault f =
     (case read_revocations K D f of
        Inl e \<Rightarrow> (Inl e, f)
      | Inr rs \<Rightarrow>
          (let rs' = revocations_insert rs r
           in case pk_rev_enc K rs' of
                Inl e \<Rightarrow> (Inl (PoolSerialize e), f)
              | Inr b \<Rightarrow>
                  (case fs_create_dir_all f (pd_governance D) of
                     Inl e \<Rightarrow> (Inl (PoolIo e), f)
                   | Inr _ \<Rightarrow> (case atomic_write f (revocations_path D) (temp_path (revocations_path D) uuid) rename_fault b of
                                  (Inl e, f') \<Rightarrow> (Inl (PoolIo e), f')
                                | (Inr _, f') \<Rightarrow> (Inr rs', f')))))"

section \<open>The read routes\<close>

record pool_summary =
  pm_id :: string
  pm_mode :: string
  pm_content_hash :: string
  pm_pool_hash :: string
  pm_formula_count :: usize
  pm_gp_aware :: bool
  pm_distinct_evaluations :: u64
  pm_lifecycle :: lifecycle_state
  pm_revoked :: bool

fun mode_str :: "pool_mode \<Rightarrow> string" where
  "mode_str pool_mode.Sandbox = ''sandbox''"
| "mode_str pool_mode.Production = ''production''"

definition project_summary :: "formula_pool \<Rightarrow> lifecycle_state \<Rightarrow> bool \<Rightarrow> pool_summary" where
  "project_summary p state revoked =
     (let c = fp_content p
      in \<lparr>pm_id = pc_pool_id c, pm_mode = mode_str (pc_mode c), pm_content_hash = fp_hash p, pm_pool_hash = pl_pool_hash (pc_lineage c),
          pm_formula_count = length (pc_formulas c), pm_gp_aware = ds_gp_aware (pc_deflation c),
          pm_distinct_evaluations = ds_distinct_evaluations (pc_deflation c), pm_lifecycle = state, pm_revoked = revoked\<rparr>)"

definition revocations_or_none :: "pool_packages \<Rightarrow> pool_dirs \<Rightarrow> fs \<Rightarrow> revocations" where
  "revocations_or_none K D f = (case read_revocations K D f of Inr r \<Rightarrow> r | Inl _ \<Rightarrow> revocations_new)"

definition summaries :: "pool_packages \<Rightarrow> pool_dirs \<Rightarrow> fs \<Rightarrow> pool_summary list" where
  "summaries K D f =
     (let listed = (\<lambda>dir. case pool_repo_list (pk_pool K) dir f of Inr ps \<Rightarrow> ps | Inl _ \<Rightarrow> []);
          pools = sort_key (\<lambda>p. pc_pool_id (fp_content p)) (listed (pd_production D) @ listed (pd_research D));
          rs = revocations_or_none K D f
      in map (\<lambda>p. project_summary p
           (case governance_read (pk_gov K) (pd_governance D) (pc_pool_id (fp_content p)) f of Inr g \<Rightarrow> pg_state g | Inl _ \<Rightarrow> Draft)
           (is_revoked rs (pl_pool_hash (pc_lineage (fp_content p))))) pools)"

record pool_detail =
  pt_content :: formula_pool_content
  pt_content_hash :: string
  pt_lifecycle :: lifecycle_state
  pt_revoked :: bool
  pt_history :: "transition_record list"

definition detail :: "pool_packages \<Rightarrow> pool_dirs \<Rightarrow> string \<Rightarrow> fs \<Rightarrow> pool_detail option" where
  "detail K D ident f =
     map_option (\<lambda>p.
       let g = (case governance_read (pk_gov K) (pd_governance D) ident f of Inr g \<Rightarrow> g | Inl _ \<Rightarrow> governance_draft ident)
       in \<lparr>pt_content = fp_content p, pt_content_hash = fp_hash p, pt_lifecycle = pg_state g,
           pt_revoked = is_revoked (revocations_or_none K D f) (pl_pool_hash (pc_lineage (fp_content p))), pt_history = pg_history g\<rparr>)
       (load_either K D ident f)"

section \<open>Answers\<close>

datatype pool_response =
    Ok_Action string lifecycle_state "signoff_state option"
  | Ok_Sealed string string
  | Refused_Seal string "string list" "string option"
  | Illegal_Edge lifecycle_error
  | Not_Eligible string
  | Own_Campaign string
  | Unknown_Pool string
  | Server_Error string

fun response_status :: "pool_response \<Rightarrow> nat" where
  "response_status (Ok_Action _ _ _) = 200"
| "response_status (Ok_Sealed _ _) = 200"
| "response_status (Refused_Seal _ _ _) = 409"
| "response_status (Illegal_Edge _) = 409"
| "response_status (Not_Eligible _) = 409"
| "response_status (Own_Campaign _) = 403"
| "response_status (Unknown_Pool _) = 404"
| "response_status (Server_Error _) = 500"

section \<open>What the handlers look up\<close>

record pool_facts =
  fa_pool_id :: string
  fa_pool_hash :: string
  fa_mode :: pool_mode

definition facts_of :: "formula_pool \<Rightarrow> pool_facts" where
  "facts_of p = \<lparr>fa_pool_id = pc_pool_id (fp_content p), fa_pool_hash = pl_pool_hash (pc_lineage (fp_content p)), fa_mode = pc_mode (fp_content p)\<rparr>"

definition resolve_launcher :: "audit_entry list \<Rightarrow> pool_facts \<Rightarrow> ('f, 'v) run_store option \<Rightarrow> string option" where
  "resolve_launcher entries facts manager =
     (case launcher_for_pool entries (fa_pool_id facts) of
        Some l \<Rightarrow> Some l
      | None \<Rightarrow>
          (case manager of
             None \<Rightarrow> None
           | Some st \<Rightarrow> (case find_run_id_by_pool st (fa_pool_id facts) of
                            Inr (Some run_id) \<Rightarrow> launcher_for_run entries run_id
                          | _ \<Rightarrow> None)))"

definition launcher_entry_hash :: "audit_entry list \<Rightarrow> string \<Rightarrow> string" where
  "launcher_entry_hash entries pool_id =
     (case find (\<lambda>e. ae_action e = Act_Launch \<and> ae_subject_hash e = pool_id) entries of
        Some e \<Rightarrow> ae_entry_hash e
      | None \<Rightarrow> (case find (\<lambda>e. ae_action e = Act_Launch) entries of Some e \<Rightarrow> ae_entry_hash e | None \<Rightarrow> []))"

fun first_by_actor :: "string list \<Rightarrow> audit_entry list \<Rightarrow> string list" where
  "first_by_actor seen [] = []"
| "first_by_actor seen (e # es) =
     (let actor = email_lower (ae_actor_email e)
      in if actor \<in> set seen then first_by_actor seen es else ae_entry_hash e # first_by_actor (actor # seen) es)"

definition approval_entry_hashes :: "audit_entry list \<Rightarrow> string \<Rightarrow> string list" where
  "approval_entry_hashes entries pool_hash =
     first_by_actor [] (filter (\<lambda>e. ae_action e = Act_Approve \<and> ae_subject_hash e = pool_hash) entries)"

definition latest_approval_hash :: "audit_entry list \<Rightarrow> string \<Rightarrow> string option" where
  "latest_approval_hash entries pool_hash =
     map_option ae_entry_hash (find (\<lambda>e. ae_action e = Act_Approve \<and> ae_subject_hash e = pool_hash) (rev entries))"

datatype cache_error = Cache_Illegal lifecycle_error | Cache_Io string

definition apply_cache_transition ::
  "pool_packages \<Rightarrow> pool_dirs \<Rightarrow> string \<Rightarrow> pool_transition \<Rightarrow> string \<Rightarrow> u64 \<Rightarrow> fs \<Rightarrow> (cache_error, lifecycle_state) result \<times> fs" where
  "apply_cache_transition K D ident t actor ts f =
     (case governance_read (pk_gov K) (pd_governance D) ident f of
        Inl _ \<Rightarrow> (Inl (Cache_Io ''failed to read governance''), f)
      | Inr g \<Rightarrow>
          if t = Approve \<and> pg_state g = Approved then (Inr Approved, f)
          else (case governance_apply g t actor ts of
                  (Inl e, _) \<Rightarrow> (Inl (Cache_Illegal e), f)
                | (Inr state, g') \<Rightarrow>
                    (case governance_write (pk_gov K) (pd_governance D) g' f of
                       (Inl _, f') \<Rightarrow> (Inl (Cache_Io ''failed to persist governance''), f')
                     | (Inr _, f') \<Rightarrow> (Inr state, f'))))"

section \<open>The handlers as tasks\<close>

record gov_request =
  gq_id :: string
  gq_transition :: pool_transition
  gq_actor :: string

record gov_context =
  gx_facts :: pool_facts
  gx_entries :: "audit_entry list"
  gx_launcher :: "string option"
  gx_ts :: u64

record seal_request =
  sq_id :: string
  sq_actor :: string

record seal_work =
  sw_pool :: formula_pool
  sw_entries :: "audit_entry list"
  sw_launcher :: "string option"
  sw_ts :: u64

datatype pool_stage =
    G_Load gov_request
  | G_Check gov_request pool_facts
  | G_Cache gov_request gov_context
  | G_Append gov_request gov_context lifecycle_state
  | G_Revoke gov_context revocation_record lifecycle_state
  | G_Signoff gov_context lifecycle_state
  | S_Load seal_request
  | S_Research seal_request
  | S_Read seal_request formula_pool
  | S_Broken seal_request formula_pool u64 u64
  | S_Launcher seal_request formula_pool "audit_entry list" u64
  | S_Decide seal_request seal_work
  | S_Reject seal_request seal_work seal_decision
  | S_Cache seal_request seal_work seal_decision
  | S_Evidence seal_request seal_work seal_decision
  | S_Record seal_request seal_work seal_decision
  | Answered pool_response

text \<open>The production seal's refusal of a chain that does not verify names the entry.\<close>

definition broken_blocker :: "u64 \<Rightarrow> string" where
  "broken_blocker seq = ''audit chain integrity check failed at seq '' @ show_nat seq @ '' - refusing to seal''"

definition audit_action_of :: "pool_transition \<Rightarrow> audit_action option" where
  "audit_action_of t = (case t of Approve \<Rightarrow> Some Act_Approve | Reject \<Rightarrow> Some Act_Reject | Revoke \<Rightarrow> Some Act_Revoke | Seal \<Rightarrow> None)"

definition seal_context_of :: "seal_work \<Rightarrow> bool \<Rightarrow> seal_context" where
  "seal_context_of w revoked = \<lparr>sc_basis_version = deflation_basis_version, sc_launcher = sw_launcher w, sc_revoked = revoked\<rparr>"

definition governance_record_of :: "seal_work \<Rightarrow> seal_decision \<Rightarrow> governance_record" where
  "governance_record_of w d =
     (let c = fp_content (sw_pool w)
      in \<lparr>gr_vintage_content_hash = fp_hash (sw_pool w), gr_pool_formula_hashes = formula_hashes c,
          gr_launch_entry_hash = launcher_entry_hash (sw_entries w) (pc_pool_id c),
          gr_approval_entry_hashes = approval_entry_hashes (sw_entries w) (pl_pool_hash (pc_lineage c)),
          gr_evidence_hash = sd_evidence_hash d\<rparr>)"

text \<open>One await point of a handler: the clock and a random name are inputs.\<close>

definition step_cache ::
  "pool_packages \<Rightarrow> pool_dirs \<Rightarrow> string \<Rightarrow> pool_transition \<Rightarrow> string \<Rightarrow> u64 \<Rightarrow> (lifecycle_state \<Rightarrow> pool_stage) \<Rightarrow>
     ('f, 'v) pool_server \<Rightarrow> pool_stage \<times> ('f, 'v) pool_server" where
  "step_cache K D ident t actor ts k sv =
     (case apply_cache_transition K D ident t actor ts (sv_fs sv) of
        (Inl (Cache_Illegal e), f) \<Rightarrow> (Answered (Illegal_Edge e), sv\<lparr>sv_fs := f\<rparr>)
      | (Inl (Cache_Io m), f) \<Rightarrow> (Answered (Server_Error m), sv\<lparr>sv_fs := f\<rparr>)
      | (Inr state, f) \<Rightarrow> (k state, sv\<lparr>sv_fs := f\<rparr>))"

definition step_append ::
  "pool_packages \<Rightarrow> string \<Rightarrow> audit_action \<Rightarrow> string \<Rightarrow> string \<Rightarrow> u64 \<Rightarrow> ((io_error, audit_entry) result \<Rightarrow> pool_stage) \<Rightarrow>
     ('f, 'v) pool_server \<Rightarrow> pool_stage \<times> ('f, 'v) pool_server" where
  "step_append K actor act subject evidence ts k sv =
     (case audit_append (pk_audit K) actor act subject [] [] evidence ts (sv_log sv) of (r, lg) \<Rightarrow> (k r, sv\<lparr>sv_log := lg\<rparr>))"

text \<open>\<open>governance_action\<close>, the shared body of approve, reject, revoke and a sandbox seal.\<close>

fun gov_step :: "pool_packages \<Rightarrow> pool_dirs \<Rightarrow> u64 \<Rightarrow> string \<Rightarrow> pool_stage \<Rightarrow> ('f, 'v) pool_server \<Rightarrow> pool_stage \<times> ('f, 'v) pool_server" where
  "gov_step K D now uuid (G_Load q) sv =
     ((case load_either K D (gq_id q) (sv_fs sv) of
         None \<Rightarrow> Answered (Unknown_Pool (gq_id q))
       | Some p \<Rightarrow>
           if gq_transition q = Seal \<and> pc_mode (fp_content p) = pool_mode.Production
           then Answered (Server_Error ''production seal must go through the seal_allowed predicate'')
           else G_Check q (facts_of p)), sv)"
| "gov_step K D now uuid (G_Check q facts) sv =
     ((case read_all (pk_audit K) (sv_log sv) of
         Inl _ \<Rightarrow> Answered (Server_Error ''failed to read audit log'')
       | Inr entries \<Rightarrow>
           (let launcher = resolve_launcher entries facts (if gq_transition q = Approve then Some (sv_store sv) else None)
            in if gq_transition q = Approve \<and> (case launcher of Some l \<Rightarrow> eq_ignore_ascii_case l (gq_actor q) | None \<Rightarrow> False)
               then Answered (Own_Campaign (gq_id q))
               else G_Cache q \<lparr>gx_facts = facts, gx_entries = entries, gx_launcher = launcher, gx_ts = now\<rparr>)), sv)"
| "gov_step K D now uuid (G_Cache q x) sv =
     step_cache K D (gq_id q) (gq_transition q) (gq_actor q) (gx_ts x) (G_Append q x) sv"
| "gov_step K D now uuid (G_Append q x state) sv =
     (case audit_action_of (gq_transition q) of
        None \<Rightarrow> (Answered (Ok_Action (fa_pool_id (gx_facts x)) state None), sv)
      | Some act \<Rightarrow>
          step_append K (gq_actor q) act (fa_pool_hash (gx_facts x))
            (if act = Act_Revoke then (case latest_approval_hash (gx_entries x) (fa_pool_hash (gx_facts x)) of Some h \<Rightarrow> h | None \<Rightarrow> []) else [])
            (gx_ts x)
            (\<lambda>r. case r of
               Inl _ \<Rightarrow> Answered (Server_Error ''failed to append audit entry'')
             | Inr e \<Rightarrow>
                 if act = Act_Revoke
                 then G_Revoke x \<lparr>rv_pool_id = fa_pool_id (gx_facts x), rv_pool_hash = fa_pool_hash (gx_facts x), rv_revoked_by = gq_actor q,
                        rv_ts_ms = gx_ts x, rv_revoke_entry_hash = ae_entry_hash e\<rparr> state
                 else if act = Act_Approve then G_Signoff x state
                 else Answered (Ok_Action (fa_pool_id (gx_facts x)) state None)) sv)"
| "gov_step K D now uuid (G_Revoke x r state) sv =
     (case revoke_pool K D uuid r (sv_rename_fault sv) (sv_fs sv) of
        (Inl _, f) \<Rightarrow> (Answered (Server_Error ''failed to persist revocation''), sv\<lparr>sv_fs := f\<rparr>)
      | (Inr _, f) \<Rightarrow> (Answered (Ok_Action (fa_pool_id (gx_facts x)) state None), sv\<lparr>sv_fs := f\<rparr>))"
| "gov_step K D now uuid (G_Signoff x state) sv =
     (Answered (Ok_Action (fa_pool_id (gx_facts x)) state
        (case read_all (pk_audit K) (sv_log sv) of
           Inl _ \<Rightarrow> None
         | Inr fresh \<Rightarrow> Some (derive_signoff fresh (fa_pool_hash (gx_facts x)) (gx_launcher x)))), sv)"
| "gov_step K D now uuid st sv = (st, sv)"

text \<open>The production seal once it is allowed: cache, audit entry, governance record.\<close>

fun commit_step :: "pool_packages \<Rightarrow> pool_dirs \<Rightarrow> u64 \<Rightarrow> string \<Rightarrow> pool_stage \<Rightarrow> ('f, 'v) pool_server \<Rightarrow> pool_stage \<times> ('f, 'v) pool_server" where
  "commit_step K D now uuid (S_Cache q w d) sv =
     step_cache K D (sq_id q) Seal (sq_actor q) (sw_ts w) (\<lambda>_. S_Evidence q w d) sv"
| "commit_step K D now uuid (S_Evidence q w d) sv =
     step_append K (sq_actor q) Act_Approve (pl_pool_hash (pc_lineage (fp_content (sw_pool w)))) (sd_evidence_hash d) (sw_ts w)
       (\<lambda>r. case r of Inl _ \<Rightarrow> Answered (Server_Error ''failed to append seal audit entry'') | Inr _ \<Rightarrow> S_Record q w d) sv"
| "commit_step K D now uuid (S_Record q w d) sv =
     (case write_governance_record K D uuid (pc_pool_id (fp_content (sw_pool w))) (governance_record_of w d) (sv_rename_fault sv) (sv_fs sv) of
        (Inl _, f) \<Rightarrow> (Answered (Server_Error ''failed to persist governance record''), sv\<lparr>sv_fs := f\<rparr>)
      | (Inr _, f) \<Rightarrow> (Answered (Ok_Sealed (sq_id q) (sd_evidence_hash d)), sv\<lparr>sv_fs := f\<rparr>))"
| "commit_step K D now uuid st sv = gov_step K D now uuid st sv"

text \<open>The production seal up to its decision, with both refusals.\<close>

fun decide_step :: "pool_packages \<Rightarrow> pool_dirs \<Rightarrow> u64 \<Rightarrow> string \<Rightarrow> pool_stage \<Rightarrow> ('f, 'v) pool_server \<Rightarrow> pool_stage \<times> ('f, 'v) pool_server" where
  "decide_step K D now uuid (S_Read q p) sv =
     ((case read_all (pk_audit K) (sv_log sv) of
         Inl _ \<Rightarrow> Answered (Server_Error ''failed to read audit log'')
       | Inr entries \<Rightarrow>
           (case verify_chain (pk_audit K) (al_key (sv_log sv)) entries of
              Broken_At seq \<Rightarrow> S_Broken q p now seq
            | Chain_Ok \<Rightarrow> S_Launcher q p entries now)), sv)"
| "decide_step K D now uuid (S_Broken q p ts seq) sv =
     step_append K (sq_actor q) Act_Reject (pl_pool_hash (pc_lineage (fp_content p))) [] ts
       (\<lambda>_. Answered (Refused_Seal (sq_id q) [broken_blocker seq] None)) sv"
| "decide_step K D now uuid (S_Launcher q p entries ts) sv =
     (S_Decide q \<lparr>sw_pool = p, sw_entries = entries, sw_launcher = resolve_launcher entries (facts_of p) (Some (sv_store sv)), sw_ts = ts\<rparr>, sv)"
| "decide_step K D now uuid (S_Decide q w) sv =
     (let c = fp_content (sw_pool w);
          revoked = (case read_revocations K D (sv_fs sv) of Inr rs \<Rightarrow> is_revoked rs (pl_pool_hash (pc_lineage c)) | Inl _ \<Rightarrow> False);
          d = seal_allowed (pk_seal K) c (sw_entries w) (seal_context_of w revoked)
      in (if sd_allowed d then S_Cache q w d else S_Reject q w d, sv))"
| "decide_step K D now uuid (S_Reject q w d) sv =
     step_append K (sq_actor q) Act_Reject (pl_pool_hash (pc_lineage (fp_content (sw_pool w)))) (sd_evidence_hash d) (sw_ts w)
       (\<lambda>_. Answered (Refused_Seal (sq_id q) (sd_blockers d) (Some (sd_evidence_hash d)))) sv"
| "decide_step K D now uuid st sv = commit_step K D now uuid st sv"

text \<open>The seal route: production first, then the sandbox path. An answered task stays as it is.\<close>

fun pool_step :: "pool_packages \<Rightarrow> pool_dirs \<Rightarrow> u64 \<Rightarrow> string \<Rightarrow> pool_stage \<Rightarrow> ('f, 'v) pool_server \<Rightarrow> pool_stage \<times> ('f, 'v) pool_server" where
  "pool_step K D now uuid (S_Load q) sv =
     ((case load_production K D (sq_id q) (sv_fs sv) of
         Inl (NotProductionEligible _) \<Rightarrow> Answered (Not_Eligible (sq_id q))
       | Inl _ \<Rightarrow> Answered (Server_Error ''failed to load production pool'')
       | Inr None \<Rightarrow> S_Research q
       | Inr (Some p) \<Rightarrow> S_Read q p), sv)"
| "pool_step K D now uuid (S_Research q) sv =
     ((if research_has K D (sq_id q) (sv_fs sv)
       then G_Load \<lparr>gq_id = sq_id q, gq_transition = Seal, gq_actor = sq_actor q\<rparr> else Answered (Unknown_Pool (sq_id q))), sv)"
| "pool_step K D now uuid st sv = decide_step K D now uuid st sv"

text \<open>A request run alone, until it is answered; no handler has more than eight await points.\<close>

fun run_alone :: "pool_packages \<Rightarrow> pool_dirs \<Rightarrow> u64 \<Rightarrow> string \<Rightarrow> nat \<Rightarrow> pool_stage \<Rightarrow> ('f, 'v) pool_server \<Rightarrow> pool_stage \<times> ('f, 'v) pool_server" where
  "run_alone K D now uuid 0 st sv = (st, sv)"
| "run_alone K D now uuid (Suc n) st sv = (case pool_step K D now uuid st sv of (st', sv') \<Rightarrow> run_alone K D now uuid n st' sv')"

end
