(* ===== verification/Pool_Safety.thy ===== *)
theory Pool_Safety imports Pool_Server begin

text \<open>
  The server as a whole: requests of approvers, each a task, interleaved at their await points with the
  launches of the run API and with faults that come and go. What a sealed production pool then stands on.
\<close>

section \<open>Histories\<close>

record ('f, 'v) pool_system =
  sy_server :: "('f, 'v) pool_server"
  sy_tasks :: "pool_stage list"

text \<open>Faults change freely, except that a file that is there never reads as missing; files and the log do not.\<close>

definition weather :: "('f, 'v) pool_server \<Rightarrow> ('f, 'v) pool_server \<Rightarrow> bool" where
  "weather a b \<longleftrightarrow> fs_files (sv_fs b) = fs_files (sv_fs a) \<and> (\<forall>p. fs_open_fault (sv_fs b) p \<noteq> Some NotFound) \<and>
     al_text (sv_log b) = al_text (sv_log a) \<and> al_key (sv_log b) = al_key (sv_log a)"

definition fresh_server :: "pool_dirs \<Rightarrow> ('f, 'v) pool_server \<Rightarrow> bool" where
  "fresh_server D sv \<longleftrightarrow> (\<forall>p \<in> fst ` set (fs_files (sv_fs sv)). fst p \<noteq> pd_governance D) \<and> al_text (sv_log sv) = None \<and>
     (\<forall>p. fs_open_fault (sv_fs sv) p \<noteq> Some NotFound)"

inductive pool_history :: "pool_packages \<Rightarrow> pool_dirs \<Rightarrow> role_config \<Rightarrow> ('f, 'v) pool_system \<Rightarrow> bool" for K D R where
  boot: "fresh_server D sv \<Longrightarrow> pool_history K D R \<lparr>sy_server = sv, sy_tasks = []\<rparr>"
| govern: "pool_history K D R s \<Longrightarrow> role_gate R Approver (Some actor) = Inr () \<Longrightarrow> t \<noteq> Seal \<Longrightarrow>
     pool_history K D R (s\<lparr>sy_tasks := sy_tasks s @ [G_Load \<lparr>gq_id = ident, gq_transition = t, gq_actor = actor\<rparr>]\<rparr>)"
| seal: "pool_history K D R s \<Longrightarrow> role_gate R Approver (Some actor) = Inr () \<Longrightarrow>
     pool_history K D R (s\<lparr>sy_tasks := sy_tasks s @ [S_Load \<lparr>sq_id = ident, sq_actor = actor\<rparr>]\<rparr>)"
| advance: "pool_history K D R s \<Longrightarrow> i < length (sy_tasks s) \<Longrightarrow> pool_step K D now uuid (sy_tasks s ! i) (sy_server s) = (st, sv) \<Longrightarrow>
     pool_history K D R \<lparr>sy_server = sv, sy_tasks = (sy_tasks s)[i := st]\<rparr>"
| launch: "pool_history K D R s \<Longrightarrow> audit_append (pk_audit K) actor Act_Launch [] run_id [] [] ts (sv_log (sy_server s)) = (r, lg) \<Longrightarrow>
     pool_history K D R (s\<lparr>sy_server := (sy_server s)\<lparr>sv_log := lg\<rparr>\<rparr>)"
| change: "pool_history K D R s \<Longrightarrow> weather (sy_server s) sv \<Longrightarrow> pool_history K D R (s\<lparr>sy_server := sv\<rparr>)"

text \<open>
  What the packages document: JSON lines and records read back, and neither a cut-off record nor a
  revocation set reads as a governance record.
\<close>

definition packages_ok :: "pool_packages \<Rightarrow> bool" where
  "packages_ok K \<longleftrightarrow> audit_lines_ok (pk_audit K) \<and> governance_json_ok (pk_gov K) \<and>
     (\<forall>g b n h. gj_enc (pk_gov K) g = Inr b \<longrightarrow> n < length b \<longrightarrow> gj_dec (pk_gov K) (take n b) \<noteq> Inr h) \<and>
     (\<forall>h. gj_dec (pk_gov K) [] \<noteq> Inr h) \<and> (\<forall>r b h. pk_rev_enc K r = Inr b \<longrightarrow> gj_dec (pk_gov K) b \<noteq> Inr h)"

section \<open>The files a step touches\<close>

definition governed :: "pool_packages \<Rightarrow> pool_dirs \<Rightarrow> fs \<Rightarrow> string \<Rightarrow> pool_governance option" where
  "governed K D f ident =
     (case map_of (fs_files f) (pd_governance D, json_name ident) of
        None \<Rightarrow> None
      | Some b \<Rightarrow> (case gj_dec (pk_gov K) b of Inl _ \<Rightarrow> None | Inr g \<Rightarrow> Some g))"

definition frozen :: "pool_packages \<Rightarrow> pool_dirs \<Rightarrow> fs \<Rightarrow> string \<Rightarrow> formula_pool option" where
  "frozen K D f ident =
     (case map_of (fs_files f) (pool_path (pd_production D) ident) of
        None \<Rightarrow> None
      | Some b \<Rightarrow> (case pool_load (pk_pool K) b of Inl _ \<Rightarrow> None | Inr p \<Rightarrow> Some p))"

lemma put_files: "map_of (fs_files (fs_put f p b)) q = (if q = p then Some b else map_of (fs_files f) q)"
  by (simp add: fs_put_def update_conv')

lemma governance_write_files:
  assumes "packages_ok K" "governance_write (pk_gov K) d g f = (r, f')"
  shows "(\<forall>q. q \<noteq> (d, json_name (pg_pool_id g)) \<longrightarrow> map_of (fs_files f') q = map_of (fs_files f) q) \<and>
     (f' = f \<or> (\<exists>b. map_of (fs_files f') (d, json_name (pg_pool_id g)) = Some b \<and>
        (\<forall>h. gj_dec (pk_gov K) b = Inr h \<longrightarrow> h = g))) \<and> fs_open_fault f' = fs_open_fault f"
proof -
  have rt: "gj_dec (pk_gov K) b = Inr g" if "gj_enc (pk_gov K) g = Inr b" for b
    using assms(1) that by (simp add: packages_ok_def governance_json_ok_def)
  have cut: "h = g" if "gj_enc (pk_gov K) g = Inr b" "gj_dec (pk_gov K) (take n b) = Inr h" for b n h
    using assms(1) rt that by (cases "n < length b") (auto simp: packages_ok_def)
  have none: "gj_dec (pk_gov K) [] \<noteq> Inr h" for h using assms(1) by (simp add: packages_ok_def)
  show ?thesis using assms(2) rt cut none
    by (auto simp: governance_write_def governance_encode_def Let_def fs_create_def fs_write_all_def put_files fs_put_def update_conv'
        split: sum.splits option.splits prod.splits)
qed

lemma atomic_write_files:
  assumes "atomic_write f p (temp_path p uuid) fault bs = (r, f')" "p \<noteq> temp_path p uuid"
  shows "(\<forall>q. q \<noteq> p \<longrightarrow> q \<noteq> temp_path p uuid \<longrightarrow> map_of (fs_files f') q = map_of (fs_files f) q) \<and>
     (map_of (fs_files f') p = map_of (fs_files f) p \<or> map_of (fs_files f') p = Some bs) \<and> fs_open_fault f' = fs_open_fault f"
proof -
  have filt: "map_of (filter (\<lambda>kv. fst kv \<noteq> a) kvs) q = (if q = a then None else map_of kvs q)" for a q and kvs :: "(path \<times> bytes) list"
    by (induction kvs) auto
  note unfold = fs_create_def fs_write_all_def fs_rename_def fs_remove_def filt update_conv' fs_put_def Let_def
  obtain d where d: "fs_create_dir_all f (fst p) = d" by simp
  show ?thesis
  proof (cases d)
    case (Inl e)
    then show ?thesis using assms(1) d by (auto simp: atomic_write_def)
  next
    case (Inr u)
    note run = assms(1) [unfolded atomic_write_def d Inr sum.case]
    show ?thesis using run assms(2) by (auto simp: unfold split: prod.splits option.splits if_splits)
  qed
qed

lemma dirs_apart:
  assumes "D = from_dirs a d"
  shows "pd_governance D \<noteq> pd_production D" "pd_governance D @ ''/records'' \<noteq> pd_production D" "pd_governance D @ ''/records'' \<noteq> pd_governance D"
proof -
  show "pd_governance D \<noteq> pd_production D"
  proof
    assume "pd_governance D = pd_production D"
    then have "last (pd_governance D) = last (pd_production D)" by simp
    then show False by (simp add: assms from_dirs_def)
  qed
  show "pd_governance D @ ''/records'' \<noteq> pd_production D"
  proof
    assume "pd_governance D @ ''/records'' = pd_production D"
    then have "last (butlast (pd_governance D @ ''/records'')) = last (butlast (pd_production D))" by simp
    then show False by (simp add: assms from_dirs_def butlast_append)
  qed
qed simp

lemma json_not_temp: "json_name i \<noteq> ''.'' @ uuid @ ''.tmp''"
proof
  assume "json_name i = ''.'' @ uuid @ ''.tmp''"
  then have "last (json_name i) = last (''.'' @ uuid @ ''.tmp'')" by simp
  then show False by (simp add: json_name_def)
qed

section \<open>The invariant\<close>

definition earned :: "pool_packages \<Rightarrow> bytes \<Rightarrow> audit_entry list \<Rightarrow> formula_pool \<Rightarrow> bool" where
  "earned K key es p \<longleftrightarrow> (\<exists>pre e. prefix pre es \<and> verify_chain (pk_audit K) key pre = Chain_Ok \<and> e \<in> set pre \<and> ae_action e = Act_Launch \<and>
     sd_allowed (seal_allowed (pk_seal K) (fp_content p) pre
       \<lparr>sc_basis_version = deflation_basis_version, sc_launcher = Some (ae_actor_email e), sc_revoked = False\<rparr>))"

lemma earned_mono: "earned K key es p \<Longrightarrow> prefix es es' \<Longrightarrow> earned K key es' p"
  unfolding earned_def using prefix_order.trans by blast

definition server_ok :: "pool_packages \<Rightarrow> pool_dirs \<Rightarrow> role_config \<Rightarrow> audit_entry list \<Rightarrow> ('f, 'v) pool_server \<Rightarrow> bool" where
  "server_ok K D R es sv \<longleftrightarrow> log_entries (pk_audit K) (sv_log sv) = Inr es \<and>
     (\<forall>e \<in> set es. ae_action e = Act_Approve \<longrightarrow> is_approver R (ae_actor_email e)) \<and> (\<forall>p. fs_open_fault (sv_fs sv) p \<noteq> Some NotFound) \<and>
     (\<forall>i g. governed K D (sv_fs sv) i = Some g \<longrightarrow> pg_pool_id g = i \<and>
        (pg_state g = Sealed \<longrightarrow> (\<forall>p. frozen K D (sv_fs sv) i = Some p \<longrightarrow> earned K (al_key (sv_log sv)) es p)))"

fun task_fine :: "pool_packages \<Rightarrow> pool_dirs \<Rightarrow> role_config \<Rightarrow> audit_entry list \<Rightarrow> ('f, 'v) pool_server \<Rightarrow> pool_stage \<Rightarrow> bool" where
  "task_fine K D R es sv (G_Load q) \<longleftrightarrow> is_approver R (gq_actor q) \<and> (gq_transition q = Seal \<longrightarrow> frozen K D (sv_fs sv) (gq_id q) = None)"
| "task_fine K D R es sv (G_Check q _) \<longleftrightarrow> is_approver R (gq_actor q) \<and> (gq_transition q = Seal \<longrightarrow> frozen K D (sv_fs sv) (gq_id q) = None)"
| "task_fine K D R es sv (G_Cache q _) \<longleftrightarrow> is_approver R (gq_actor q) \<and> (gq_transition q = Seal \<longrightarrow> frozen K D (sv_fs sv) (gq_id q) = None)"
| "task_fine K D R es sv (G_Append q _ _) \<longleftrightarrow> is_approver R (gq_actor q)"
| "task_fine K D R es sv (S_Load q) \<longleftrightarrow> is_approver R (sq_actor q)"
| "task_fine K D R es sv (S_Research q) \<longleftrightarrow> is_approver R (sq_actor q) \<and> frozen K D (sv_fs sv) (sq_id q) = None"
| "task_fine K D R es sv (S_Read q p) \<longleftrightarrow> is_approver R (sq_actor q) \<and> frozen K D (sv_fs sv) (sq_id q) = Some p"
| "task_fine K D R es sv (S_Launcher q p entries _) \<longleftrightarrow> is_approver R (sq_actor q) \<and> frozen K D (sv_fs sv) (sq_id q) = Some p \<and>
     prefix entries es \<and> verify_chain (pk_audit K) (al_key (sv_log sv)) entries = Chain_Ok"
| "task_fine K D R es sv (S_Decide q w) \<longleftrightarrow> is_approver R (sq_actor q) \<and> frozen K D (sv_fs sv) (sq_id q) = Some (sw_pool w) \<and>
     prefix (sw_entries w) es \<and> verify_chain (pk_audit K) (al_key (sv_log sv)) (sw_entries w) = Chain_Ok \<and>
     (\<forall>l. sw_launcher w = Some l \<longrightarrow> (\<exists>e \<in> set (sw_entries w). ae_action e = Act_Launch \<and> ae_actor_email e = l))"
| "task_fine K D R es sv (S_Cache q w d) \<longleftrightarrow> is_approver R (sq_actor q) \<and> frozen K D (sv_fs sv) (sq_id q) = Some (sw_pool w) \<and>
     earned K (al_key (sv_log sv)) es (sw_pool w)"
| "task_fine K D R es sv (S_Evidence q _ _) \<longleftrightarrow> is_approver R (sq_actor q)"
| "task_fine K D R es sv _ \<longleftrightarrow> True"

text \<open>What every step keeps: the pools, the key, and a log that only grows.\<close>

definition grows :: "pool_packages \<Rightarrow> pool_dirs \<Rightarrow> audit_entry list \<Rightarrow> ('f, 'v) pool_server \<Rightarrow> audit_entry list \<Rightarrow> ('f, 'v) pool_server \<Rightarrow> bool" where
  "grows K D es sv es' sv' \<longleftrightarrow> prefix es es' \<and> al_key (sv_log sv') = al_key (sv_log sv) \<and>
     (\<forall>i. frozen K D (sv_fs sv') i = frozen K D (sv_fs sv) i)"

lemma task_fine_grows: "grows K D es sv es' sv' \<Longrightarrow> task_fine K D R es sv st \<Longrightarrow> task_fine K D R es' sv' st"
  by (cases st) (auto simp: grows_def intro: earned_mono prefix_order.trans)

lemma grows_refl: "grows K D es sv es sv"
  by (simp add: grows_def)

section \<open>The cache, the log and the revocation set\<close>

lemma governance_read_governed:
  assumes "governance_read (pk_gov K) (pd_governance D) ident f = Inr g" "\<And>p. fs_open_fault f p \<noteq> Some NotFound"
    "\<And>g. governed K D f ident = Some g \<Longrightarrow> pg_pool_id g = ident"
  shows "pg_pool_id g = ident"
  using assms
  by (auto simp: governance_read_def fs_read_def governance_load_def governed_def governance_draft_def split: sum.splits option.splits io_error.splits)

lemma apply_target: "governance_apply g t actor ts = (Inr state, g') \<Longrightarrow> pg_pool_id g' = pg_pool_id g \<and> (pg_state g' = Sealed \<longrightarrow> t = Seal)"
  by (cases "pg_state g"; cases t) (auto simp: governance_apply_def)

lemma cache_files:
  assumes "packages_ok K" "D = from_dirs a d" "\<And>p. fs_open_fault f p \<noteq> Some NotFound"
    "\<And>i g. governed K D f i = Some g \<Longrightarrow> pg_pool_id g = i" "apply_cache_transition K D ident t actor ts f = (r, f')"
  shows "(\<forall>i. frozen K D f' i = frozen K D f i) \<and> fs_open_fault f' = fs_open_fault f \<and>
     (\<forall>i g. governed K D f' i = Some g \<longrightarrow> governed K D f i = Some g \<or> (i = ident \<and> pg_pool_id g = i \<and> (pg_state g = Sealed \<longrightarrow> t = Seal)))"
proof (cases "f' = f")
  case False
  then obtain g g' state r' where read: "governance_read (pk_gov K) (pd_governance D) ident f = Inr g"
    and app: "governance_apply g t actor ts = (Inr state, g')" and wr: "governance_write (pk_gov K) (pd_governance D) g' f = (r', f')"
    using assms(5) by (auto simp: apply_cache_transition_def split: sum.splits prod.splits if_splits)
  have ident: "pg_pool_id g' = ident" using governance_read_governed [OF read assms(3,4)] apply_target [OF app] by simp
  note files = governance_write_files [OF assms(1) wr, unfolded ident]
  have apart: "pool_path (pd_production D) i \<noteq> (pd_governance D, json_name ident)" for i
    using dirs_apart(1) [OF assms(2)] by (simp add: pool_path_def)
  note other = files [THEN conjunct1, rule_format]
  have "frozen K D f' i = frozen K D f i" for i unfolding frozen_def other [OF apart] ..
  moreover have "governed K D f i = Some h \<or> (i = ident \<and> pg_pool_id h = i \<and> (pg_state h = Sealed \<longrightarrow> t = Seal))"
    if "governed K D f' i = Some h" for i h
  proof (cases "i = ident")
    case True
    then have "h = g'" using that files False by (auto simp: governed_def split: option.splits sum.splits)
    then show ?thesis using True ident apply_target [OF app] by simp
  next
    case False
    then show ?thesis using that other [of "(pd_governance D, json_name i)"] by (simp add: governed_def)
  qed
  ultimately show ?thesis using files by blast
qed simp

lemma temp_elsewhere: "(x, json_name i) \<noteq> temp_path p uuid"
  using json_not_temp [of i uuid] by (simp add: temp_path_def)

lemma revocations_json: "revocations_path D = (pd_governance D, json_name ''revocations'')"
  by (simp add: revocations_path_def json_name_def)

lemma revoke_files:
  assumes "packages_ok K" "D = from_dirs a d" "revoke_pool K D uuid r fault f = (res, f')"
  shows "(\<forall>i. frozen K D f' i = frozen K D f i) \<and> fs_open_fault f' = fs_open_fault f \<and>
     (\<forall>i g. governed K D f' i = Some g \<longrightarrow> governed K D f i = Some g)"
proof (cases "f' = f")
  case False
  let ?p = "revocations_path D"
  from assms(3) False obtain rs b r' where enc: "pk_rev_enc K rs = Inr b"
    and wr: "atomic_write f ?p (temp_path ?p uuid) fault b = (r', f')"
    by (auto simp: revoke_pool_def Let_def split: sum.splits prod.splits)
  have "?p \<noteq> temp_path ?p uuid" unfolding revocations_json by (rule temp_elsewhere)
  note files = atomic_write_files [OF wr this]
  note other = files [THEN conjunct1, rule_format]
  have "pool_path (pd_production D) i \<noteq> ?p" for i
    using dirs_apart(1) [OF assms(2)] by (simp add: pool_path_def revocations_path_def)
  then have "frozen K D f' i = frozen K D f i" for i
    unfolding frozen_def by (subst other) (auto simp: pool_path_def temp_elsewhere)
  moreover have "governed K D f i = Some g" if "governed K D f' i = Some g" for i g
  proof (cases "i = ''revocations''")
    case True
    have "gj_dec (pk_gov K) b \<noteq> Inr g" for g using assms(1) enc by (simp add: packages_ok_def)
    then have "map_of (fs_files f') (pd_governance D, json_name i) \<noteq> Some b"
      using that True by (auto simp: governed_def split: sum.splits)
    then have "map_of (fs_files f') (pd_governance D, json_name i) = map_of (fs_files f) (pd_governance D, json_name i)"
      using files True by (auto simp: revocations_json)
    then show ?thesis using that by (simp add: governed_def)
  next
    case False
    then have "map_of (fs_files f') (pd_governance D, json_name i) = map_of (fs_files f) (pd_governance D, json_name i)"
      by (intro other) (simp_all add: revocations_json temp_elsewhere)
    then show ?thesis using that by (simp add: governed_def)
  qed
  ultimately show ?thesis using files by blast
qed simp

lemma record_files:
  assumes "D = from_dirs a d" "write_governance_record K D uuid ident r fault f = (res, f')"
  shows "(\<forall>i. frozen K D f' i = frozen K D f i) \<and> fs_open_fault f' = fs_open_fault f \<and> (\<forall>i. governed K D f' i = governed K D f i)"
proof (cases "f' = f")
  case False
  let ?p = "governance_record_path D ident"
  from assms(2) False obtain b r' where wr: "atomic_write f ?p (temp_path ?p uuid) fault b = (r', f')"
    by (auto simp: write_governance_record_def Let_def split: sum.splits prod.splits)
  have "?p \<noteq> temp_path ?p uuid" unfolding governance_record_path_def by (rule temp_elsewhere)
  note files = atomic_write_files [OF wr this]
  note other = files [THEN conjunct1, rule_format]
  have "map_of (fs_files f') (x, json_name i) = map_of (fs_files f) (x, json_name i)" if "x \<noteq> pd_governance D @ ''/records''" for x i
    by (rule other) (simp_all add: governance_record_path_def that temp_elsewhere)
  then show ?thesis using files dirs_apart(2,3) [OF assms(1)] by (simp add: frozen_def governed_def pool_path_def)
qed simp

lemma server_ok_append:
  assumes "packages_ok K" "server_ok K D R es sv" "act = Act_Approve \<longrightarrow> is_approver R actor"
    "audit_append (pk_audit K) actor act subject run_id vid ev ts (sv_log sv) = (r, lg)"
  shows "\<exists>es'. server_ok K D R es' (sv\<lparr>sv_log := lg\<rparr>) \<and> grows K D es sv es' (sv\<lparr>sv_log := lg\<rparr>)"
proof -
  have ok: "audit_lines_ok (pk_audit K)" using assms(1) by (simp add: packages_ok_def)
  show ?thesis
    using audit_append_cases [OF ok assms(4)]
  proof
    assume "\<exists>x. r = Inl x \<and> lg = sv_log sv"
    then show ?thesis using assms(2) by (auto intro: grows_refl)
  next
    assume "\<exists>es e. r = Inr e \<and> read_all (pk_audit K) (sv_log sv) = Inr es \<and> log_entries (pk_audit K) lg = Inr (es @ [e]) \<and>
        al_key lg = al_key (sv_log sv) \<and> same_content e actor act subject run_id vid ev ts"
    then obtain es' e where "read_all (pk_audit K) (sv_log sv) = Inr es'" and out: "log_entries (pk_audit K) lg = Inr (es' @ [e])"
      "al_key lg = al_key (sv_log sv)" "same_content e actor act subject run_id vid ev ts" by blast
    moreover from this have "es' = es" using assms(2) read_all_log_entries by (fastforce simp: server_ok_def)
    ultimately have "server_ok K D R (es @ [e]) (sv\<lparr>sv_log := lg\<rparr>)"
      using assms(2,3) earned_mono [of K _ es _ "es @ [e]"] by (auto simp: server_ok_def same_content_def)
    then show ?thesis using out by (auto simp: grows_def)
  qed
qed

lemma server_okD:
  assumes "server_ok K D R es sv"
  shows "log_entries (pk_audit K) (sv_log sv) = Inr es" "fs_open_fault (sv_fs sv) p \<noteq> Some NotFound"
    "governed K D (sv_fs sv) i = Some g \<Longrightarrow> pg_pool_id g = i"
    "governed K D (sv_fs sv) i = Some g \<Longrightarrow> pg_state g = Sealed \<Longrightarrow> frozen K D (sv_fs sv) i = Some q \<Longrightarrow> earned K (al_key (sv_log sv)) es q"
    "e \<in> set es \<Longrightarrow> ae_action e = Act_Approve \<Longrightarrow> is_approver R (ae_actor_email e)"
  using assms unfolding server_ok_def by blast+

lemma server_ok_files:
  assumes "server_ok K D R es sv" "\<forall>i. frozen K D f i = frozen K D (sv_fs sv) i" "fs_open_fault f = fs_open_fault (sv_fs sv)"
    "\<And>i g. governed K D f i = Some g \<Longrightarrow> governed K D (sv_fs sv) i = Some g \<or>
       (pg_pool_id g = i \<and> (pg_state g = Sealed \<longrightarrow> (\<forall>p. frozen K D (sv_fs sv) i = Some p \<longrightarrow> earned K (al_key (sv_log sv)) es p)))"
  shows "server_ok K D R es (sv\<lparr>sv_fs := f\<rparr>) \<and> grows K D es sv es (sv\<lparr>sv_fs := f\<rparr>)"
proof -
  have "pg_pool_id g = i \<and> (pg_state g = Sealed \<longrightarrow> (\<forall>p. frozen K D (sv_fs sv) i = Some p \<longrightarrow> earned K (al_key (sv_log sv)) es p))"
    if "governed K D f i = Some g" for i g
    using assms(4) [OF that] assms(1) unfolding server_ok_def by blast
  then show ?thesis using assms(1-3) by (simp add: server_ok_def grows_def)
qed

lemma step_cache_ok:
  assumes "packages_ok K" "D = from_dirs a d" "server_ok K D R es sv" "step_cache K D ident t actor ts k sv = (st', sv')"
    "t = Seal \<longrightarrow> (\<forall>p. frozen K D (sv_fs sv) ident = Some p \<longrightarrow> earned K (al_key (sv_log sv)) es p)"
  shows "server_ok K D R es sv' \<and> grows K D es sv es sv' \<and> ((\<exists>r. st' = Answered r) \<or> (\<exists>state. st' = k state))"
proof -
  obtain r f where c: "apply_cache_transition K D ident t actor ts (sv_fs sv) = (r, f)"
    by (cases "apply_cache_transition K D ident t actor ts (sv_fs sv)")
  have sv': "sv' = sv\<lparr>sv_fs := f\<rparr>" "(\<exists>r. st' = Answered r) \<or> (\<exists>state. st' = k state)"
    using assms(4) c by (auto simp: step_cache_def split: sum.splits cache_error.splits)
  note files = cache_files [OF assms(1,2) server_okD(2,3) [OF assms(3)] c]
  show ?thesis using server_ok_files [OF assms(3), of f] files assms(5) sv' by blast
qed

lemma step_append_ok:
  assumes "packages_ok K" "server_ok K D R es sv" "step_append K actor act subject evidence ts k sv = (st', sv')"
    "act = Act_Approve \<longrightarrow> is_approver R actor"
  shows "\<exists>es' r. server_ok K D R es' sv' \<and> grows K D es sv es' sv' \<and> st' = k r"
proof -
  obtain r lg where a: "audit_append (pk_audit K) actor act subject [] [] evidence ts (sv_log sv) = (r, lg)"
    by (cases "audit_append (pk_audit K) actor act subject [] [] evidence ts (sv_log sv)")
  then have "st' = k r" "sv' = sv\<lparr>sv_log := lg\<rparr>" using assms(3) by (simp_all add: step_append_def)
  then show ?thesis using server_ok_append [OF assms(1,2,4) a] by blast
qed

lemma load_production_frozen:
  assumes "load_production K D ident f = Inr p" "\<And>q. fs_open_fault f q \<noteq> Some NotFound"
  shows "frozen K D f ident = p"
  using assms
  by (auto simp: load_production_def pool_repo_load_def fs_read_def frozen_def assert_production_eligible_def res_bind_def pool_load_def
      split: sum.splits option.splits pool_error.splits io_error.splits if_splits)

lemma resolved_launcher_launched:
  "resolve_launcher es facts m = Some l \<Longrightarrow> \<exists>e \<in> set es. ae_action e = Act_Launch \<and> ae_actor_email e = l"
  by (fastforce simp: resolve_launcher_def launcher_for_pool_def launcher_for_run_def find_Some_iff
      split: option.splits sum.splits if_splits)

lemma decided_earned:
  assumes "sd_allowed (seal_allowed (pk_seal K) (fp_content (sw_pool w)) (sw_entries w) (seal_context_of w revoked))"
    "prefix (sw_entries w) es" "verify_chain (pk_audit K) key (sw_entries w) = Chain_Ok"
    "\<forall>l. sw_launcher w = Some l \<longrightarrow> (\<exists>e \<in> set (sw_entries w). ae_action e = Act_Launch \<and> ae_actor_email e = l)"
  shows "earned K key es (sw_pool w)"
proof -
  from assms(1) obtain l where l: "sw_launcher w = Some l" and rev: "\<not> revoked" by (auto simp: seal_allowed_iff seal_context_of_def)
  with assms(4) obtain e where "e \<in> set (sw_entries w)" "ae_action e = Act_Launch" "ae_actor_email e = l" by blast
  then show ?thesis using assms(1-3) l rev unfolding earned_def seal_context_of_def by auto
qed

lemma still_ok:
  "server_ok K D R es sv \<Longrightarrow> task_fine K D R es sv st \<Longrightarrow> \<exists>es'. server_ok K D R es' sv \<and> grows K D es sv es' sv \<and> task_fine K D R es' sv st"
  using grows_refl by blast

lemma pool_step_ok:
  assumes "packages_ok K" "D = from_dirs a d" "server_ok K D R es sv" "task_fine K D R es sv st" "pool_step K D now uuid st sv = (st', sv')"
  shows "\<exists>es'. server_ok K D R es' sv' \<and> grows K D es sv es' sv' \<and> task_fine K D R es' sv' st'"
proof -
  note nf = server_okD(2) [OF assms(3)]
  have log: "es' = es" if "read_all (pk_audit K) (sv_log sv) = Inr es'" for es'
    using read_all_log_entries [OF that] assms(3) by (simp add: server_ok_def)
  have same: ?thesis if "sv' = sv" "task_fine K D R es sv st'" using still_ok [OF assms(3) that(2)] that(1) by simp
  show ?thesis
  proof (cases st)
    case (G_Load q)
    then show ?thesis using assms(4,5) same by (auto split: option.splits if_splits)
  next
    case (G_Check q facts)
    then show ?thesis using assms(4,5) same by (auto simp: Let_def split: sum.splits if_splits)
  next
    case (G_Cache q x)
    then show ?thesis
      using step_cache_ok [OF assms(1-3), of "gq_id q" "gq_transition q" "gq_actor q" "gx_ts x" "G_Append q x" st' sv'] assms(4,5)
      by (auto intro!: exI [of _ es])
  next
    case (G_Append q x state)
    show ?thesis
    proof (cases "audit_action_of (gq_transition q)")
      case None
      then show ?thesis using G_Append assms(5) same by auto
    next
      case (Some act)
      then show ?thesis using step_append_ok [OF assms(1,3)] G_Append assms(4,5) by (fastforce split: sum.splits if_splits)
    qed
  next
    case (S_Broken q p ts seq)
    then show ?thesis using step_append_ok [OF assms(1,3)] assms(5) by fastforce
  next
    case (S_Reject q w dd)
    then show ?thesis using step_append_ok [OF assms(1,3)] assms(5) by fastforce
  next
    case (S_Evidence q w dd)
    then show ?thesis using step_append_ok [OF assms(1,3)] assms(4,5) by (fastforce split: sum.splits)
  next
    case (S_Cache q w dd)
    then show ?thesis
      using step_cache_ok [OF assms(1-3), of "sq_id q" Seal "sq_actor q" "sw_ts w" "\<lambda>_. S_Evidence q w dd" st' sv'] assms(4,5)
      by (auto intro!: exI [of _ es])
  next
    case (G_Revoke x r state)
    obtain res f where rv: "revoke_pool K D uuid r (sv_rename_fault sv) (sv_fs sv) = (res, f)"
      by (cases "revoke_pool K D uuid r (sv_rename_fault sv) (sv_fs sv)")
    then have "sv' = sv\<lparr>sv_fs := f\<rparr>" "task_fine K D R es sv' st'" using G_Revoke assms(5) by (auto split: sum.splits)
    moreover have "server_ok K D R es (sv\<lparr>sv_fs := f\<rparr>) \<and> grows K D es sv es (sv\<lparr>sv_fs := f\<rparr>)"
      using revoke_files [OF assms(1,2) rv] by (intro server_ok_files [OF assms(3)]) auto
    ultimately show ?thesis by blast
  next
    case (S_Record q w dd)
    obtain res f where rv: "write_governance_record K D uuid (pc_pool_id (fp_content (sw_pool w))) (governance_record_of w dd) (sv_rename_fault sv) (sv_fs sv) = (res, f)"
      by (cases "write_governance_record K D uuid (pc_pool_id (fp_content (sw_pool w))) (governance_record_of w dd) (sv_rename_fault sv) (sv_fs sv)")
    then have "sv' = sv\<lparr>sv_fs := f\<rparr>" "task_fine K D R es sv' st'" using S_Record assms(5) by (auto split: sum.splits)
    moreover have "server_ok K D R es (sv\<lparr>sv_fs := f\<rparr>) \<and> grows K D es sv es (sv\<lparr>sv_fs := f\<rparr>)"
      using record_files [OF assms(2) rv] by (intro server_ok_files [OF assms(3)]) auto
    ultimately show ?thesis by blast
  next
    case (S_Load q)
    then show ?thesis using assms(4,5) same load_production_frozen [OF _ nf]
      by (auto split: sum.splits option.splits pool_error.splits)
  next
    case (S_Research q)
    then show ?thesis using assms(4,5) same by auto
  next
    case (S_Read q p)
    then show ?thesis using assms(4,5) same log by (auto split: sum.splits chain_status.splits)
  next
    case (S_Launcher q p entries ts)
    then have "sv' = sv" "task_fine K D R es sv st'"
      using assms(4,5) resolved_launcher_launched [of entries "facts_of p" "Some (sv_store sv)"] by auto
    then show ?thesis by (rule same)
  next
    case (S_Decide q w)
    then show ?thesis using assms(4,5) same decided_earned [of K w _ es] by (auto simp: Let_def split: if_splits)
  next
    case (G_Signoff x state)
    then show ?thesis using assms(5) same by auto
  next
    case (Answered r)
    then show ?thesis using assms(5) same by auto
  qed
qed

section \<open>What a sealed production pool stands on\<close>

lemma role_gate_approver: "role_gate R Approver (Some actor) = Inr () \<longleftrightarrow> is_approver R actor"
  by (simp add: role_gate_def)

lemma history_ok:
  assumes "packages_ok K" "D = from_dirs a d" "pool_history K D R s"
  shows "\<exists>es. server_ok K D R es (sy_server s) \<and> (\<forall>st \<in> set (sy_tasks s). task_fine K D R es (sy_server s) st)"
  using assms(3)
proof induction
  case (boot sv)
  have "map_of (fs_files (sv_fs sv)) (pd_governance D, x) = None" for x
    using boot by (auto simp: fresh_server_def map_of_eq_None_iff)
  then have "server_ok K D R [] sv" using boot by (simp add: server_ok_def fresh_server_def governed_def log_entries_def read_all_def)
  then show ?case by auto
next
  case (govern s actor t ident)
  then show ?case by (auto simp: role_gate_approver)
next
  case (seal s actor ident)
  then show ?case by (auto simp: role_gate_approver)
next
  case (advance s i now uuid st sv)
  then obtain es where es: "server_ok K D R es (sy_server s)" "\<forall>st \<in> set (sy_tasks s). task_fine K D R es (sy_server s) st" by blast
  with advance.hyps(2) have "task_fine K D R es (sy_server s) (sy_tasks s ! i)" by simp
  from pool_step_ok [OF assms(1,2) es(1) this advance.hyps(3)] obtain es' where es': "server_ok K D R es' sv"
    "grows K D es (sy_server s) es' sv" "task_fine K D R es' sv st" by blast
  then have "\<forall>st' \<in> set ((sy_tasks s)[i := st]). task_fine K D R es' sv st'"
    using es(2) task_fine_grows set_update_subset_insert [of "sy_tasks s" i st] by fastforce
  then show ?case using es'(1) by auto
next
  case (launch s actor run_id ts r lg)
  then obtain es where es: "server_ok K D R es (sy_server s)" "\<forall>st \<in> set (sy_tasks s). task_fine K D R es (sy_server s) st" by blast
  from server_ok_append [OF assms(1) es(1) _ launch.hyps(2)] show ?case using es(2) task_fine_grows by fastforce
next
  case (change s sv)
  then obtain es where es: "server_ok K D R es (sy_server s)" "\<forall>st \<in> set (sy_tasks s). task_fine K D R es (sy_server s) st" by blast
  have same: "frozen K D (sv_fs sv) = frozen K D (sv_fs (sy_server s))" "governed K D (sv_fs sv) = governed K D (sv_fs (sy_server s))"
    "log_entries (pk_audit K) (sv_log sv) = log_entries (pk_audit K) (sv_log (sy_server s))"
    using change.hyps(2) by (auto simp: weather_def frozen_def governed_def log_entries_def read_all_def)
  then have "server_ok K D R es sv" "grows K D es (sy_server s) es sv"
    using es(1) change.hyps(2) by (simp_all add: server_ok_def weather_def grows_def)
  then show ?case using es(2) task_fine_grows by fastforce
qed

text \<open>
  C3. A sealed production pool has earned it. However requests of approvers, launches and faults interleave
  at the handlers' await points: once a pool frozen under the production root reads as sealed, it is a
  production pool with complete evidence, and the log holds a launch and two approvals of its hash by two
  different people who both hold the approver role and neither of whom is that launcher, all within a
  part of the log whose whole chain verified when the seal was decided.
\<close>

theorem production_seal_is_earned:
  assumes "packages_ok K" "D = from_dirs artifacts data" "pool_history K D R s"
    "governance_read (pk_gov K) (pd_governance D) ident (sv_fs (sy_server s)) = Inr g" "pg_state g = Sealed"
    "pool_repo_load (pk_pool K) (pd_production D) ident (sv_fs (sy_server s)) = Inr p"
  shows "pc_mode (fp_content p) = pool_mode.Production \<and> evidence_complete (fp_content p) \<and>
    (\<exists>pre es. prefix pre es \<and> log_entries (pk_audit K) (sv_log (sy_server s)) = Inr es \<and>
       verify_chain (pk_audit K) (al_key (sv_log (sy_server s))) pre = Chain_Ok \<and>
       (\<exists>launch \<in> set pre. \<exists>a \<in> set pre. \<exists>b \<in> set pre. ae_action launch = Act_Launch \<and> ae_action a = Act_Approve \<and> ae_action b = Act_Approve \<and>
          ae_subject_hash a = pl_pool_hash (pc_lineage (fp_content p)) \<and> ae_subject_hash b = pl_pool_hash (pc_lineage (fp_content p)) \<and>
          is_approver R (ae_actor_email a) \<and> is_approver R (ae_actor_email b) \<and>
          distinct (map (\<lambda>e. email_lower (ae_actor_email e)) [launch, a, b])))"
proof -
  let ?h = "pl_pool_hash (pc_lineage (fp_content p))"
  from history_ok [OF assms(1-3)] obtain es where ok: "server_ok K D R es (sy_server s)" by blast
  have "governed K D (sv_fs (sy_server s)) ident = Some g" "frozen K D (sv_fs (sy_server s)) ident = Some p"
    using assms(4-6) by (auto simp: governance_read_def governance_load_def fs_read_def governed_def governance_draft_def pool_repo_load_def
        frozen_def split: sum.splits option.splits io_error.splits)
  from server_okD(4) [OF ok this(1) assms(5) this(2)] obtain pre e where pre: "prefix pre es"
    "verify_chain (pk_audit K) (al_key (sv_log (sy_server s))) pre = Chain_Ok" and e: "e \<in> set pre" "ae_action e = Act_Launch"
    and allowed: "sd_allowed (seal_allowed (pk_seal K) (fp_content p) pre
       \<lparr>sc_basis_version = deflation_basis_version, sc_launcher = Some (ae_actor_email e), sc_revoked = False\<rparr>)"
    unfolding earned_def by blast
  from allowed have gate: "pc_mode (fp_content p) = pool_mode.Production" "hard_blocks (fp_content p) = []"
    "derive_signoff pre ?h (Some (ae_actor_email e)) = Two_Distinct_Signoffs" by (simp_all add: seal_allowed_iff)
  from gate(3) [unfolded two_signoffs] obtain a b where ab: "a \<in> set pre" "b \<in> set pre" "ae_action a = Act_Approve" "ae_action b = Act_Approve"
    "ae_subject_hash a = ?h" "ae_subject_hash b = ?h" "distinct (map (\<lambda>e. email_lower (ae_actor_email e)) [e, a, b])" by auto
  have "is_approver R (ae_actor_email x)" if "x \<in> set pre" "ae_action x = Act_Approve" for x
    using server_okD(5) [OF ok _ that(2)] that(1) pre(1) set_mono_prefix by blast
  then have "is_approver R (ae_actor_email a)" "is_approver R (ae_actor_email b)" using ab by blast+
  then show ?thesis using pre server_okD(1) [OF ok] ab e gate(1) hard_blocks_complete [OF gate(2)] by blast
qed

end
