(* ===== verification/Pool_Histories.thy ===== *)
theory Pool_Histories imports Pool_Safety Run_Drain begin

text \<open>
  Concrete histories of the pool routes: two approvals and a production seal, and what the handlers do
  when a step in the middle of one fails.
\<close>

section \<open>A request served alone\<close>

lemma run_alone_numeral:
  "run_alone K D now uuid (numeral k) st sv = (case pool_step K D now uuid st sv of (st', sv') \<Rightarrow> run_alone K D now uuid (pred_numeral k) st' sv')"
  by (simp add: numeral_eq_Suc)

lemma alone_history:
  assumes "pool_history K D R \<lparr>sy_server = sv, sy_tasks = ts @ [st]\<rparr>" "run_alone K D now uuid n st sv = (st', sv')"
  shows "pool_history K D R \<lparr>sy_server = sv', sy_tasks = ts @ [st']\<rparr>"
  using assms
proof (induction n arbitrary: st sv)
  case (Suc n)
  obtain st1 sv1 where step: "pool_step K D now uuid st sv = (st1, sv1)" by (cases "pool_step K D now uuid st sv")
  have "pool_history K D R \<lparr>sy_server = sv1, sy_tasks = ts @ [st1]\<rparr>"
    using pool_history.advance [OF Suc.prems(1), of "length ts" now uuid st1 sv1] step by (simp add: list_update_append)
  then show ?case using Suc.IH Suc.prems(2) step by simp
qed simp

lemma governed_alone:
  assumes "pool_history K D R \<lparr>sy_server = sv, sy_tasks = ts\<rparr>" "is_approver R actor" "t \<noteq> Seal"
    "run_alone K D now uuid n (G_Load \<lparr>gq_id = ident, gq_transition = t, gq_actor = actor\<rparr>) sv = (st', sv')"
  shows "pool_history K D R \<lparr>sy_server = sv', sy_tasks = ts @ [st']\<rparr>"
  using alone_history [OF _ assms(4)] pool_history.govern [OF assms(1) _ assms(3), of actor ident] assms(2)
  by (simp add: role_gate_approver)

lemma sealed_alone:
  assumes "pool_history K D R \<lparr>sy_server = sv, sy_tasks = ts\<rparr>" "is_approver R actor"
    "run_alone K D now uuid n (S_Load \<lparr>sq_id = ident, sq_actor = actor\<rparr>) sv = (st', sv')"
  shows "pool_history K D R \<lparr>sy_server = sv', sy_tasks = ts @ [st']\<rparr>"
  using alone_history [OF _ assms(3)] pool_history.seal [OF assms(1), of actor ident] assms(2)
  by (simp add: role_gate_approver)

section \<open>An instance of the packages\<close>

text \<open>
  Digests and MACs are constant, and only the five entries, three governance records and one pool of the
  history below have JSON.
\<close>

definition gold_hash :: string where "gold_hash = hex [7]"

definition gold_content :: formula_pool_content where
  "gold_content = \<lparr>pc_format_version = 1, pc_pool_id = [], pc_mode = pool_mode.Production, pc_formulas = [],
     pc_deflation = \<lparr>ds_gp_aware = True, ds_distinct_evaluations = 500, ds_n_trials = 500, ds_analytic_floor = 72, ds_variance_trials = 500,
        ds_trial_variance = 1 / 50, ds_expected_max_sharpe = 9, ds_champion_dsr = 98 / 100, ds_uncensored_pbo = Some (1 / 5)\<rparr>,
     pc_gate_evidence = Some [],
     pc_lineage = \<lparr>pl_campaign_id = [], pl_seed = 7, pl_mode = pool_mode.Production, pl_code_commit = [], pl_input_snapshot_id = [],
        pl_config_hash = [], pl_pool_hash = ''H''\<rparr>\<rparr>"

definition gold_pool :: formula_pool where "gold_pool = \<lparr>fp_content = gold_content, fp_hash = gold_hash\<rparr>"

definition gold_entry :: "nat \<Rightarrow> string \<Rightarrow> audit_action \<Rightarrow> string \<Rightarrow> string \<Rightarrow> string \<Rightarrow> audit_entry" where
  "gold_entry i actor act subject run_id ev = \<lparr>ae_seq = i, ae_ts_ms = 5, ae_actor_email = actor, ae_action = act, ae_subject_hash = subject,
     ae_run_id = run_id, ae_vintage_id = [], ae_evidence_hash = ev, ae_prev_hash = (if i = 0 then genesis_prev else gold_hash),
     ae_entry_hash = gold_hash, ae_hmac = gold_hash\<rparr>"

definition gold_entries :: "audit_entry list" where
  "gold_entries = [gold_entry 0 ''ann'' Act_Launch [] ''r'' [], gold_entry 1 ''bob'' Act_Approve ''H'' [] [],
     gold_entry 2 ''cid'' Act_Approve ''H'' [] [], gold_entry 3 ''bob'' Act_Approve ''H'' [] gold_hash,
     gold_entry 4 ''bob'' Act_Revoke ''H'' [] gold_hash]"

definition line_name :: "nat \<Rightarrow> string" where "line_name i = [char_of (65 + i)]"

definition gold_line :: "audit_entry \<Rightarrow> (string, string) result" where
  "gold_line e = (if ae_seq e < 5 \<and> gold_entries ! ae_seq e = e then Inr (line_name (ae_seq e)) else Inl ''unsupported'')"

definition gold_audit :: audit_env where
  "gold_audit = \<lparr>av_core_json = (\<lambda>c. Inr []), av_line_json = gold_line,
     av_parse_line = (\<lambda>l. case l of [c] \<Rightarrow> Inr (gold_entries ! (of_char c - 65)) | _ \<Rightarrow> Inl ''malformed''),
     av_sha256 = (\<lambda>p. [7]), av_hmac = (\<lambda>k p. [7])\<rparr>"

lemma gold_lines_ok: "audit_lines_ok gold_audit"
proof -
  have "trim (line_name i) \<noteq> [] \<and> newline \<notin> set (line_name i) \<and> char_of (13 :: nat) \<notin> set (line_name i) \<and> of_char (char_of (65 + i)) - 65 = i"
    if "i < 5" for i
  proof -
    have code: "(of_char (char_of (65 + i :: nat)) :: nat) = 65 + i" using that by (simp add: of_char_of)
    have "char_of (65 + i) \<noteq> newline" "char_of (65 + i) \<noteq> char_of (13 :: nat)" "\<not> is_ascii_space (char_of (65 + i))"
      using code by (auto simp: newline_def is_ascii_space_def dest!: arg_cong [of _ _ "of_char :: char \<Rightarrow> nat"])
    then show ?thesis using code by (auto simp: line_name_def trim_def trim_end_def)
  qed
  then show ?thesis by (auto simp: audit_lines_ok_def gold_audit_def gold_line_def line_name_def split: if_splits)
qed

definition gold_governance :: "pool_transition list \<Rightarrow> pool_governance" where
  "gold_governance ts = foldl (\<lambda>g t. snd (governance_apply g t ''bob'' 5)) (governance_draft ''p'') ts"

definition gold_records :: "pool_governance list" where
  "gold_records = [gold_governance [Approve], gold_governance [Approve, Seal], gold_governance [Approve, Seal, Revoke]]"

definition gold_gov :: governance_json where
  "gold_gov = \<lparr>gj_enc = (\<lambda>g. case List.find (\<lambda>i. gold_records ! i = g) [0, 1, 2] of Some i \<Rightarrow> Inr [i] | None \<Rightarrow> Inl ''unsupported''),
     gj_dec = (\<lambda>b. case b of [i] \<Rightarrow> if i < 3 then Inr (gold_records ! i) else Inl ''malformed'' | _ \<Rightarrow> Inl ''malformed'')\<rparr>"

definition gold_packages :: pool_packages where
  "gold_packages = \<lparr>
     pk_pool = \<lparr>pe_content_json = (\<lambda>c. Inr []), pe_to_json = (\<lambda>p. Inl ''unsupported''),
        pe_from_json = (\<lambda>b. if b = [9] then Inr gold_pool else Inl ''malformed''), pe_sha256 = (\<lambda>b. [7])\<rparr>,
     pk_gov = gold_gov, pk_rev_dec = (\<lambda>b. Inl ''malformed''), pk_rev_enc = (\<lambda>r. Inl ''unsupported''), pk_record_enc = (\<lambda>r. Inr [1]),
     pk_audit = gold_audit, pk_seal = \<lparr>sn_sha256 = (\<lambda>b. [7]), sn_decimal_str = (\<lambda>d. [])\<rparr>\<rparr>"

lemma gold_packages_ok: "packages_ok gold_packages"
  using gold_lines_ok
  by (auto simp: packages_ok_def gold_packages_def gold_gov_def governance_json_ok_def find_Some_iff less_Suc_eq nth_Cons'
      split: option.splits if_splits list.splits)

definition gold_dirs :: pool_dirs where "gold_dirs = from_dirs ''a'' ''d''"

definition gold_roles :: role_config where "gold_roles = \<lparr>rc_operators = [], rc_approvers = [''bob'', ''cid''], rc_admins = []\<rparr>"

section \<open>Two approvals and a seal\<close>

definition gold_log :: "nat \<Rightarrow> audit_log" where
  "gold_log n = \<lparr>al_text = (if n = 0 then None else Some (concat (map (\<lambda>i. line_name i @ [newline]) [0..<n]))), al_key = [3],
     al_ephemeral = True, al_read_fault = None, al_write_fault = None\<rparr>"

lemma gold_render: "n \<le> 5 \<Longrightarrow> render_lines gold_audit (take n gold_entries) = Inr (concat (map (\<lambda>i. line_name i @ [newline]) [0..<n]))"
  by (auto simp: le_Suc_eq numeral_eq_Suc gold_entries_def gold_audit_def gold_line_def gold_entry_def)

lemma gold_read: "n \<le> 5 \<Longrightarrow> read_all gold_audit (gold_log n) = Inr (take n gold_entries)"
  using lines_return [OF gold_lines_ok gold_render, of n] by (cases "n = 0") (simp_all add: read_all_def gold_log_def)

lemma gold_append:
  assumes "n < 5" "gold_entries ! n = gold_entry n actor act subject run_id ev"
  shows "audit_append gold_audit actor act subject run_id [] ev 5 (gold_log n) = (Inr (gold_entries ! n), gold_log (Suc n))"
proof -
  have last: "n \<noteq> 0 \<Longrightarrow> take n gold_entries \<noteq> [] \<and> ae_entry_hash (last (take n gold_entries)) = gold_hash" "length (take n gold_entries) = n"
    using assms(1) by (auto simp: less_Suc_eq numeral_eq_Suc gold_entries_def gold_entry_def)
  have sealed: "(new_entry (take n gold_entries) actor act subject run_id [] ev 5)\<lparr>ae_entry_hash := gold_hash, ae_hmac := gold_hash\<rparr> = gold_entries ! n"
    using last unfolding assms(2) by (cases "n = 0") (auto simp: new_entry_def gold_entry_def)
  have "preimage gold_audit e = Inr (text_bytes (ae_prev_hash e))" for e by (simp add: preimage_def gold_audit_def)
  then have "seal_entry gold_audit k e = Inr (gold_hash, gold_hash)" for k e
    by (simp add: seal_entry_def) (simp add: gold_audit_def gold_hash_def)
  moreover have "write_all gold_audit (take n gold_entries @ [gold_entries ! n]) (gold_log n) = (Inr (), gold_log (Suc n))"
    using assms(1) gold_render [of "Suc n"] by (simp add: write_all_def take_Suc_conv_app_nth [symmetric] gold_entries_def) (simp add: gold_log_def)
  ultimately show ?thesis using gold_read [of n] assms(1) sealed by (simp add: audit_append_def Let_def)
qed

definition gold_server :: "nat \<Rightarrow> (path \<times> bytes) list \<Rightarrow> (rat, unit) pool_server" where
  "gold_server n files = \<lparr>sv_fs = quiet_fs\<lparr>fs_files := ((''a/pools'', ''p.json''), [9]) # files\<rparr>, sv_rename_fault = None, sv_log = gold_log n,
     sv_store = blank_store\<rparr>"

abbreviation gold_file :: "nat \<Rightarrow> path \<times> bytes" where "gold_file i \<equiv> ((''d/governance'', ''p.json''), [i])"

lemmas gold_defs = gold_packages_def gold_dirs_def from_dirs_def gold_server_def quiet_fs_def pool_repo_load_def fs_read_def pool_path_def
  json_name_def pool_load_def pool_verify_def pool_content_hash_def gold_pool_def gold_hash_def

lemma gold_frozen:
  "pool_repo_load (pk_pool gold_packages) (pd_production gold_dirs) ''p'' (sv_fs (gold_server n files)) = Inr gold_pool"
  by (simp add: gold_defs)

lemma gold_pieces [simp]:
  "sv_log (gold_server n files) = gold_log n" "pk_audit gold_packages = gold_audit" "sv_rename_fault (gold_server n files) = None"
  "sv_store (gold_server n files) = blank_store" "(gold_server n files)\<lparr>sv_log := gold_log m\<rparr> = gold_server m files"
  "fp_content gold_pool = gold_content" "al_key (gold_log n) = [3]" "pc_mode gold_content = pool_mode.Production"
  "facts_of gold_pool = \<lparr>fa_pool_id = [], fa_pool_hash = ''H'', fa_mode = pool_mode.Production\<rparr>"
  by (simp_all add: gold_server_def gold_packages_def gold_pool_def gold_log_def gold_content_def facts_of_def)

lemma gold_launcher: "1 \<le> n \<Longrightarrow> resolve_launcher (take n gold_entries) \<lparr>fa_pool_id = [], fa_pool_hash = ''H'', fa_mode = m\<rparr> st = Some ''ann''"
  by (cases n) (simp_all add: resolve_launcher_def launcher_for_pool_def gold_entries_def gold_entry_def)

lemma gold_unlike: "\<not> eq_ignore_ascii_case ''ann'' ''bob''" "\<not> eq_ignore_ascii_case ''ann'' ''cid''"
  by (simp_all add: eq_ignore_ascii_case_def to_ascii_lowercase_def)

lemma gold_first: "apply_cache_transition gold_packages gold_dirs ''p'' Approve ''bob'' 5 (sv_fs (gold_server n [])) =
    (Inr Approved, sv_fs (gold_server n [gold_file 0]))"
  by (simp add: apply_cache_transition_def governance_read_def gold_defs governance_draft_def governance_apply_def governance_write_def
      fs_create_dir_all_def fs_create_def fs_put_def fs_write_all_def governance_encode_def gold_gov_def gold_records_def gold_governance_def Let_def)

lemma gold_again: "apply_cache_transition gold_packages gold_dirs ''p'' Approve actor ts (sv_fs (gold_server n [gold_file 0])) =
    (Inr Approved, sv_fs (gold_server n [gold_file 0]))"
  by (simp add: apply_cache_transition_def governance_read_def governance_load_def gold_defs gold_gov_def gold_records_def
      gold_governance_def governance_draft_def governance_apply_def)

lemma gold_sealing: "apply_cache_transition gold_packages gold_dirs ''p'' Seal ''bob'' 5 (sv_fs (gold_server n [gold_file 0])) =
    (Inr Sealed, sv_fs (gold_server n [gold_file 1]))"
  by (simp add: apply_cache_transition_def governance_read_def governance_load_def gold_defs governance_draft_def governance_apply_def governance_write_def
      fs_create_dir_all_def fs_create_def fs_put_def fs_write_all_def governance_encode_def gold_gov_def gold_records_def gold_governance_def Let_def)

lemma gold_update [simp]: "(gold_server n files)\<lparr>sv_fs := sv_fs (gold_server m files')\<rparr> = gold_server n files'"
  by (simp add: gold_server_def)

lemma gold_either: "load_either gold_packages gold_dirs ''p'' (sv_fs (gold_server n files)) = Some gold_pool"
  by (simp add: load_either_def gold_frozen)

lemma gold_approves:
  assumes "n < 5" "1 \<le> n" "gold_entries ! n = gold_entry n actor Act_Approve ''H'' [] []" "\<not> eq_ignore_ascii_case ''ann'' actor"
    "apply_cache_transition gold_packages gold_dirs ''p'' Approve actor 5 (sv_fs (gold_server n files)) = (Inr Approved, sv_fs (gold_server n files'))"
  shows "\<exists>r. run_alone gold_packages gold_dirs 5 ''u'' 5 (G_Load \<lparr>gq_id = ''p'', gq_transition = Approve, gq_actor = actor\<rparr>) (gold_server n files) =
     (Answered r, gold_server (Suc n) files')"
  using assms gold_append [OF assms(1,3)] gold_read [of n] gold_launcher [OF assms(2), where st = "Some blank_store"]
  by (simp add: run_alone_numeral gold_either step_cache_def step_append_def audit_action_of_def Let_def)

lemma gold_chain: "verify_chain gold_audit [3] (take 3 gold_entries) = Chain_Ok"
proof -
  have pre: "preimage gold_audit e = Inr (text_bytes (ae_prev_hash e))" for e by (simp add: preimage_def gold_audit_def)
  have mac: "decode_hex gold_hash = Some [7]" "av_hmac gold_audit k p = [7]" "hex (av_sha256 gold_audit p) = gold_hash" for k p
    by (simp_all add: gold_hash_def decode_hex_hex valid_bytes_def gold_audit_def)
  show ?thesis
    by (simp add: verify_chain_def verify_from_Cons entry_sound_def pre mac gold_entries_def gold_entry_def numeral_eq_Suc)
qed

lemma gold_signoff: "derive_signoff (take 3 gold_entries) ''H'' (Some ''ann'') = Two_Distinct_Signoffs"
  by (simp add: two_signoffs gold_entries_def gold_entry_def numeral_eq_Suc email_lower_def to_ascii_lowercase_def)

lemma gold_allowed: "sd_allowed (seal_allowed N gold_content (take 3 gold_entries)
    \<lparr>sc_basis_version = deflation_basis_version, sc_launcher = Some ''ann'', sc_revoked = False\<rparr>)"
proof -
  have "pl_pool_hash (pc_lineage gold_content) = ''H''" "hard_blocks gold_content = []"
    by (simp_all add: gold_content_def hard_blocks_def blocker_def dec_const_def max_uncensored_pbo_def min_dsr_def Let_def)
  then show ?thesis using gold_signoff by (simp add: seal_allowed_iff basis_compiled)
qed

lemma gold_record:
  "\<exists>f. write_governance_record gold_packages gold_dirs ''u'' [] r None (sv_fs (gold_server n [gold_file 1])) = (Inr (), f) \<and>
     pool_repo_load (pk_pool gold_packages) (pd_production gold_dirs) ''p'' f = Inr gold_pool \<and>
     governance_read (pk_gov gold_packages) (pd_governance gold_dirs) ''p'' f = Inr (gold_governance [Approve, Seal])"
  by (simp add: write_governance_record_def governance_record_path_def gold_defs temp_path_def Let_def fs_create_dir_all_def atomic_write_def
      fs_create_def fs_put_def fs_write_all_def fs_rename_def fs_remove_def governance_read_def governance_load_def gold_gov_def gold_records_def)

lemma gold_seals:
  "\<exists>h sv. run_alone gold_packages gold_dirs 5 ''u'' 7 (S_Load \<lparr>sq_id = ''p'', sq_actor = ''bob''\<rparr>) (gold_server 3 [gold_file 0]) =
     (Answered (Ok_Sealed ''p'' h), sv) \<and> pool_repo_load (pk_pool gold_packages) (pd_production gold_dirs) ''p'' (sv_fs sv) = Inr gold_pool \<and>
     governance_read (pk_gov gold_packages) (pd_governance gold_dirs) ''p'' (sv_fs sv) = Inr (gold_governance [Approve, Seal])"
proof -
  have prod: "load_production gold_packages gold_dirs ''p'' (sv_fs (gold_server n files)) = Inr (Some gold_pool)" for n files
    by (simp add: load_production_def gold_frozen assert_production_eligible_def)
  have rev: "read_revocations gold_packages gold_dirs (sv_fs (gold_server n [gold_file 0])) = Inr revocations_new" for n
    by (simp add: read_revocations_def gold_defs revocations_path_def)
  have fresh: "seal_context_of \<lparr>sw_pool = gold_pool, sw_entries = es, sw_launcher = l, sw_ts = 5\<rparr> False =
      \<lparr>sc_basis_version = deflation_basis_version, sc_launcher = l, sc_revoked = False\<rparr>" for es l by (simp add: seal_context_of_def)
  have hash: "sd_evidence_hash (seal_allowed (pk_seal gold_packages) c es x) = gold_hash" for c es x
    by (simp add: seal_allowed_def evidence_hash_def gold_packages_def gold_hash_def Let_def)
  have app: "audit_append gold_audit ''bob'' Act_Approve ''H'' [] [] gold_hash 5 (gold_log 3) = (Inr (gold_entries ! 3), gold_log 4)"
    using gold_append [of 3 "''bob''" Act_Approve "''H''" "[]" gold_hash] by (simp add: gold_entries_def numeral_eq_Suc)
  have H: "pl_pool_hash (pc_lineage gold_content) = ''H''" "pc_pool_id gold_content = []" by (simp_all add: gold_content_def)
  obtain f where f: "write_governance_record gold_packages gold_dirs ''u'' []
      (governance_record_of \<lparr>sw_pool = gold_pool, sw_entries = take 3 gold_entries, sw_launcher = Some ''ann'', sw_ts = 5\<rparr>
        (seal_allowed (pk_seal gold_packages) gold_content (take 3 gold_entries)
          \<lparr>sc_basis_version = deflation_basis_version, sc_launcher = Some ''ann'', sc_revoked = False\<rparr>)) None
      (sv_fs (gold_server 4 [gold_file 1])) = (Inr (), f)"
    "pool_repo_load (pk_pool gold_packages) (pd_production gold_dirs) ''p'' f = Inr gold_pool"
    "governance_read (pk_gov gold_packages) (pd_governance gold_dirs) ''p'' f = Inr (gold_governance [Approve, Seal])"
    using gold_record by blast
  show ?thesis
    using gold_read [of 3] gold_chain gold_launcher [of 3 _ "Some blank_store"] gold_allowed gold_sealing
    by (simp add: run_alone_numeral prod rev fresh Let_def is_revoked_def revocations_new_def step_cache_def step_append_def H hash app f [simplified])
qed


lemma gold_boots: "pool_history gold_packages gold_dirs gold_roles \<lparr>sy_server = gold_server 0 [], sy_tasks = []\<rparr>"
  by (rule pool_history.boot) (simp add: fresh_server_def gold_server_def gold_dirs_def from_dirs_def gold_log_def quiet_fs_def)

lemma gold_launched: "pool_history gold_packages gold_dirs gold_roles \<lparr>sy_server = gold_server 1 [], sy_tasks = []\<rparr>"
proof -
  have "audit_append (pk_audit gold_packages) ''ann'' Act_Launch [] ''r'' [] [] 5 (gold_log 0) = (Inr (gold_entries ! 0), gold_log 1)"
    using gold_append [of 0 "''ann''" Act_Launch "[]" "''r''" "[]"] by (simp add: gold_entries_def)
  then show ?thesis using pool_history.launch [OF gold_boots, of "''ann''" "''r''" 5 "Inr (gold_entries ! 0)" "gold_log 1"] by simp
qed

lemma gold_actors: "is_approver gold_roles ''bob''" "is_approver gold_roles ''cid''"
  by (simp_all add: is_approver_def contains_email_def gold_roles_def auth_text)

lemma gold_approved: "\<exists>ts. pool_history gold_packages gold_dirs gold_roles \<lparr>sy_server = gold_server 3 [gold_file 0], sy_tasks = ts\<rparr>"
proof -
  have e: "gold_entries ! 1 = gold_entry 1 ''bob'' Act_Approve ''H'' [] []" "gold_entries ! 2 = gold_entry 2 ''cid'' Act_Approve ''H'' [] []"
    by (simp_all add: gold_entries_def)
  obtain r1 where r1: "run_alone gold_packages gold_dirs 5 ''u'' 5 (G_Load \<lparr>gq_id = ''p'', gq_transition = Approve, gq_actor = ''bob''\<rparr>)
      (gold_server 1 []) = (Answered r1, gold_server 2 [gold_file 0])"
    using gold_approves [OF _ _ e(1) gold_unlike(1) gold_first] by (auto simp: numeral_eq_Suc)
  obtain r2 where r2: "run_alone gold_packages gold_dirs 5 ''u'' 5 (G_Load \<lparr>gq_id = ''p'', gq_transition = Approve, gq_actor = ''cid''\<rparr>)
      (gold_server 2 [gold_file 0]) = (Answered r2, gold_server 3 [gold_file 0])"
    using gold_approves [OF _ _ e(2) gold_unlike(2) gold_again] by (auto simp: numeral_eq_Suc)
  show ?thesis
    using governed_alone [OF governed_alone [OF gold_launched gold_actors(1) _ r1] gold_actors(2) _ r2] by blast
qed

theorem production_seal_is_earned_witness:
  "\<exists>s :: (rat, unit) pool_system. pool_history gold_packages gold_dirs gold_roles s \<and> al_text (sv_log (sy_server s)) \<noteq> None \<and>
     (\<exists>es. log_entries gold_audit (sv_log (sy_server s)) = Inr es \<and> (\<exists>a \<in> set es. ae_action a = Act_Approve \<and> is_approver gold_roles (ae_actor_email a)))"
proof -
  obtain ts where "pool_history gold_packages gold_dirs gold_roles \<lparr>sy_server = gold_server 3 [gold_file 0], sy_tasks = ts\<rparr>"
    using gold_approved by blast
  note before = this
  obtain h sv where run: "run_alone gold_packages gold_dirs 5 ''u'' 7 (S_Load \<lparr>sq_id = ''p'', sq_actor = ''bob''\<rparr>) (gold_server 3 [gold_file 0]) =
     (Answered (Ok_Sealed ''p'' h), sv)"
    and sv: "pool_repo_load (pk_pool gold_packages) (pd_production gold_dirs) ''p'' (sv_fs sv) = Inr gold_pool"
      "governance_read (pk_gov gold_packages) (pd_governance gold_dirs) ''p'' (sv_fs sv) = Inr (gold_governance [Approve, Seal])"
    using gold_seals by blast
  note hist = sealed_alone [OF before gold_actors(1) run]
  have "pg_state (gold_governance [Approve, Seal]) = Sealed"
    by (simp add: gold_governance_def governance_apply_def governance_draft_def)
  note earned = production_seal_is_earned [OF gold_packages_ok gold_dirs_def hist _ this, unfolded pool_system.select_convs gold_pieces, OF sv(2,1)]
  then obtain pre es a where "prefix pre es" "log_entries gold_audit (sv_log sv) = Inr es" "a \<in> set pre" "ae_action a = Act_Approve"
    "is_approver gold_roles (ae_actor_email a)" by blast
  moreover from this have "al_text (sv_log sv) \<noteq> None"
    by (auto simp: log_entries_def read_all_def split: option.splits)
  moreover from calculation have "a \<in> set es" using set_mono_prefix by blast
  ultimately show ?thesis
    by (intro exI [of _ "\<lparr>sy_server = sv, sy_tasks = ts @ [Answered (Ok_Sealed ''p'' h)]\<rparr>"]) (auto simp: hist)
qed

section \<open>Where a handler stops half-way\<close>

text \<open>
  The signing key of the history above is ephemeral, so the production-seal capability is not allowed; the
  seal handler never asks.
\<close>

theorem ephemeral_key_seals_production:
  "\<not> production_seal_capability_allowed (al_ephemeral (sv_log (gold_server 3 [gold_file 0]))) \<and>
   (\<exists>h sv. run_alone gold_packages gold_dirs 5 ''u'' 7 (S_Load \<lparr>sq_id = ''p'', sq_actor = ''bob''\<rparr>) (gold_server 3 [gold_file 0]) =
     (Answered (Ok_Sealed ''p'' h), sv))"
  using gold_seals by (auto simp: production_seal_capability_allowed_def) (simp add: gold_log_def)

text \<open>A revocation set that cannot be read blocks no seal: the decision is the one for a pool nobody revoked.\<close>

theorem unreadable_revocations_block_nothing:
  assumes "read_revocations K D (sv_fs sv) = Inl e"
  shows "fst (pool_step K D now uuid (S_Decide q w) sv) =
    (let d = seal_allowed (pk_seal K) (fp_content (sw_pool w)) (sw_entries w) (seal_context_of w False) in if sd_allowed d then S_Cache q w d else S_Reject q w d)"
  using assms by (simp add: Let_def)

text \<open>
  A revocation whose audit append fails has already moved the cache: asked again, it is an illegal edge, and
  the pool never enters the revocation set.
\<close>

definition revoke_request :: pool_stage where
  "revoke_request = G_Load \<lparr>gq_id = ''p'', gq_transition = Revoke, gq_actor = ''bob''\<rparr>"

definition full_disk :: audit_log where "full_disk = (gold_log 4)\<lparr>al_write_fault := Some (OtherIo ''disk full'')\<rparr>"

theorem failed_revocation_is_final:
  "\<exists>later. run_alone gold_packages gold_dirs 5 ''u'' 4 revoke_request ((gold_server 4 [gold_file 1])\<lparr>sv_log := full_disk\<rparr>) =
      (Answered (Server_Error ''failed to append audit entry''), later) \<and>
     fst (run_alone gold_packages gold_dirs 5 ''u'' 4 revoke_request (later\<lparr>sv_log := gold_log 4\<rparr>)) =
      Answered (Illegal_Edge (Illegal Revoked Revoke)) \<and>
     read_revocations gold_packages gold_dirs (sv_fs later) = Inr revocations_new"
proof -
  have cache: "apply_cache_transition gold_packages gold_dirs ''p'' Revoke ''bob'' 5 (sv_fs (gold_server n [gold_file 1])) =
      (Inr Revoked, sv_fs (gold_server n [gold_file 2]))" for n
    by (simp add: apply_cache_transition_def governance_read_def governance_load_def gold_defs governance_draft_def governance_apply_def governance_write_def
      fs_create_dir_all_def fs_create_def fs_put_def fs_write_all_def governance_encode_def gold_gov_def gold_records_def gold_governance_def Let_def)
  have again: "apply_cache_transition gold_packages gold_dirs ''p'' Revoke ''bob'' 5 (sv_fs (gold_server n [gold_file 2])) =
      (Inl (Cache_Illegal (Illegal Revoked Revoke)), sv_fs (gold_server n [gold_file 2]))" for n
    by (simp add: apply_cache_transition_def governance_read_def governance_load_def gold_defs gold_gov_def gold_records_def gold_governance_def
        governance_draft_def governance_apply_def)
  have rev: "read_revocations gold_packages gold_dirs (sv_fs (gold_server n [gold_file 2])) = Inr revocations_new" for n
    by (simp add: read_revocations_def gold_defs revocations_path_def)
  have readable: "read_all gold_audit full_disk = Inr (take 4 gold_entries)" "read_all gold_audit (gold_log 4) = Inr (take 4 gold_entries)"
    using gold_read [of 4] by (simp_all add: full_disk_def read_all_def gold_log_def)
  have latest: "latest_approval_hash (take 4 gold_entries) ''H'' = Some gold_hash"
    by (simp add: latest_approval_hash_def gold_entries_def gold_entry_def)
  have failed: "audit_append gold_audit ''bob'' Act_Revoke ''H'' [] [] gold_hash 5 full_disk = (Inl (OtherIo ''disk full''), full_disk)"
  proof -
    have e: "gold_entries ! 4 = gold_entry 4 ''bob'' Act_Revoke ''H'' [] gold_hash" by (simp add: gold_entries_def)
    from gold_append [OF _ e] have ok: "audit_append gold_audit ''bob'' Act_Revoke ''H'' [] [] gold_hash 5 (gold_log 4) = (Inr (gold_entries ! 4), gold_log 5)"
      by simp
    have key: "al_key full_disk = al_key (gold_log 4)" by (simp add: full_disk_def)
    have wr: "write_all gold_audit es full_disk = (Inl (OtherIo ''disk full''), full_disk)" if "write_all gold_audit es (gold_log 4) = (Inr u, lg)" for es u lg
      using that by (auto simp: write_all_def full_disk_def split: sum.splits option.splits)
    from ok readable show ?thesis
      by (auto simp: audit_append_def Let_def key split: sum.splits prod.splits dest: wr)
  qed
  have fields: "sv_fs (gold_server 4 files\<lparr>sv_log := b\<rparr>) = sv_fs (gold_server 4 files)"
      "(gold_server 4 files\<lparr>sv_log := b\<rparr>)\<lparr>sv_fs := sv_fs (gold_server 4 files')\<rparr> = gold_server 4 files'\<lparr>sv_log := b\<rparr>" for files files' b
    by (simp_all add: gold_server_def)
  note facts = run_alone_numeral revoke_request_def gold_either step_cache_def step_append_def audit_action_of_def cache [simplified] again fields
    readable latest failed gold_launcher [of 4 _ "None :: (rat, unit) run_store option"] Let_def
  have "run_alone gold_packages gold_dirs 5 ''u'' 4 revoke_request ((gold_server 4 [gold_file 1])\<lparr>sv_log := full_disk\<rparr>) =
      (Answered (Server_Error ''failed to append audit entry''), gold_server 4 [gold_file 2]\<lparr>sv_log := full_disk\<rparr>)"
    by (simp add: facts)
  moreover have "fst (run_alone gold_packages gold_dirs 5 ''u'' 4 revoke_request (gold_server 4 [gold_file 2])) =
      Answered (Illegal_Edge (Illegal Revoked Revoke))"
    by (simp add: facts)
  ultimately show ?thesis using rev [of 4] by (simp add: fields)
qed

text \<open>With no launch of its own, a pool's governance record names another's.\<close>

theorem record_links_a_strangers_launch:
  "launcher_entry_hash [gold_entry 0 ''ann'' Act_Launch ''other'' ''r'' []] ''p'' = gold_hash"
  by (simp add: launcher_entry_hash_def gold_entry_def)

text \<open>The pool named \<open>revocations\<close> keeps its governance where the revocation set is kept.\<close>

theorem governance_path_collides: "revocations_path D = (pd_governance D, json_name ''revocations'')"
  by (rule revocations_json)

end
