(* ===== verification/Cv_Geometry.thy ===== *)
theory Cv_Geometry imports Prelude begin

text \<open>
  Which bars a search may train on and which it is judged on: the purged and embargoed k-fold scheme
  (\<open>wfo/src/cv.rs\<close>), the walk-forward windows (\<open>wfo/src/walkforward.rs\<close>), the folds the selection fitness uses
  (\<open>wfo/src/cv_fitness.rs\<close>) and the combinatorial held-out paths (\<open>validation/src/cpcv.rs\<close>,
  \<open>validation/src/pbo.rs\<close>). Bar indices are far below the word size, so the index arithmetic is exact; a
  range is its pair of ends.
\<close>

section \<open>Purged k-fold\<close>

type_synonym range = "usize \<times> usize"

definition range_list :: "range \<Rightarrow> usize list" where "range_list r = [fst r ..< snd r]"

record purged_kfold =
  pk_n_folds :: usize
  pk_lookback :: usize
  pk_label_horizon :: usize
  pk_embargo :: usize

record fold =
  fo_test :: range
  fo_train :: "usize list"

definition with_default_embargo :: "usize \<Rightarrow> usize \<Rightarrow> usize \<Rightarrow> purged_kfold" where
  "with_default_embargo n_folds lookback label_horizon =
     \<lparr>pk_n_folds = n_folds, pk_lookback = lookback, pk_label_horizon = label_horizon, pk_embargo = lookback\<rparr>"

definition purge_span :: "purged_kfold \<Rightarrow> usize" where "purge_span cv = pk_lookback cv + pk_label_horizon cv"

text \<open>Block \<open>k\<close> of a balanced partition of \<open>n\<close> bars into \<open>m\<close> blocks.\<close>

definition block :: "usize \<Rightarrow> usize \<Rightarrow> usize \<Rightarrow> range" where "block n m k = (k * n div m, (k + 1) * n div m)"

definition excluded_zone :: "usize \<Rightarrow> usize \<Rightarrow> usize \<Rightarrow> range \<Rightarrow> usize \<Rightarrow> bool" where
  "excluded_zone n purge embargo r i \<longleftrightarrow> \<not> (i < fst r - purge \<or> i \<ge> min (snd r + purge + embargo) n)"

definition folds :: "purged_kfold \<Rightarrow> usize \<Rightarrow> fold list" where
  "folds cv n_bars =
     (let m = max (pk_n_folds cv) 1
      in map (\<lambda>r. \<lparr>fo_test = r, fo_train = filter (\<lambda>i. \<not> excluded_zone n_bars (purge_span cv) (pk_embargo cv) r i) [0..<n_bars]\<rparr>)
           (filter (\<lambda>r. fst r < snd r) (map (block n_bars m) [0..<m])))"

definition abs_diff :: "usize \<Rightarrow> usize \<Rightarrow> usize" where "abs_diff a b = (if a \<le> b then b - a else a - b)"

definition fold_windows_disjoint :: "fold \<Rightarrow> usize \<Rightarrow> usize \<Rightarrow> bool" where
  "fold_windows_disjoint f lookback label_horizon \<longleftrightarrow>
     list_all (\<lambda>tr. list_all (\<lambda>te. abs_diff tr te > lookback + label_horizon) (range_list (fo_test f))) (fo_train f)"

definition selection_kfold :: "usize \<Rightarrow> usize \<Rightarrow> usize \<Rightarrow> purged_kfold" where
  "selection_kfold n_folds lookback label_horizon = with_default_embargo (max n_folds 2) lookback label_horizon"

definition fold_test_ranges :: "purged_kfold \<Rightarrow> usize \<Rightarrow> range list" where
  "fold_test_ranges cv n_bars = map fo_test (folds cv n_bars)"

section \<open>Walk-forward windows\<close>

datatype window_mode = Rolling | Anchored

record walk_forward =
  wf_mode :: window_mode
  wf_train :: usize
  wf_validate :: usize
  wf_step :: usize
  wf_lookback :: usize
  wf_label_horizon :: usize
  wf_embargo :: usize

record wf_window =
  ww_index :: usize
  ww_train :: range
  ww_validate :: range

definition wf_gap :: "walk_forward \<Rightarrow> usize" where "wf_gap w = wf_lookback w + wf_label_horizon w + wf_embargo w"

definition window_at :: "walk_forward \<Rightarrow> usize \<Rightarrow> usize \<Rightarrow> wf_window" where
  "window_at w index origin =
     (let train_end = origin + wf_train w; validate_start = train_end + wf_gap w
      in \<lparr>ww_index = index, ww_train = (case wf_mode w of Rolling \<Rightarrow> origin | Anchored \<Rightarrow> 0, train_end),
          ww_validate = (validate_start, validate_start + wf_validate w)\<rparr>)"

function windows_from :: "walk_forward \<Rightarrow> usize \<Rightarrow> usize \<Rightarrow> usize \<Rightarrow> wf_window list" where
  "windows_from w n_bars index origin =
     (let x = window_at w index origin
      in if wf_train w = 0 \<or> wf_validate w = 0 \<or> snd (ww_validate x) > n_bars then []
         else x # windows_from w n_bars (index + 1) (origin + max (wf_step w) 1))"
  by pat_completeness auto
termination
  by (relation "measure (\<lambda>(w, n_bars, index, origin). n_bars - origin)") (auto simp: window_at_def Let_def)

declare windows_from.simps [simp del]

definition windows :: "walk_forward \<Rightarrow> usize \<Rightarrow> wf_window list" where
  "windows w n_bars = windows_from w n_bars 0 0"

definition window_windows_disjoint :: "wf_window \<Rightarrow> usize \<Rightarrow> usize \<Rightarrow> bool" where
  "window_windows_disjoint x lookback label_horizon \<longleftrightarrow>
     list_all (\<lambda>tr. list_all (\<lambda>val. abs_diff tr val > lookback + label_horizon) (range_list (ww_validate x))) (range_list (ww_train x))"

text \<open>The archive of a caller is threaded through every window.\<close>

definition wf_run :: "walk_forward \<Rightarrow> usize \<Rightarrow> ('a \<Rightarrow> wf_window \<Rightarrow> 'a) \<Rightarrow> 'a \<Rightarrow> 'a" where
  "wf_run w n_bars on_window archive = foldl on_window archive (windows w n_bars)"

section \<open>Combinatorial held-out paths\<close>

text \<open>
  The odometer over ascending index vectors: the rightmost index not at its last position, if any, is
  advanced and the ones after it restart behind it. The loop is a partial function: that it returns is
  part of the theorem below.
\<close>

fun last_movable :: "usize \<Rightarrow> usize \<Rightarrow> usize list \<Rightarrow> usize \<Rightarrow> usize option" where
  "last_movable n k idx 0 = None"
| "last_movable n k idx (Suc i) = (if idx ! i \<noteq> i + n - k then Some i else last_movable n k idx i)"

definition advance :: "usize \<Rightarrow> usize \<Rightarrow> usize list \<Rightarrow> usize list" where
  "advance k i idx = take i idx @ [idx ! i + 1 ..< idx ! i + 1 + (k - i)]"

partial_function (option) combinations_loop :: "usize \<Rightarrow> usize \<Rightarrow> usize list \<Rightarrow> usize list list option" where
  "combinations_loop n k idx =
     (case last_movable n k idx k of
        None \<Rightarrow> Some [idx]
      | Some i \<Rightarrow> Option.bind (combinations_loop n k (advance k i idx)) (\<lambda>out. Some (idx # out)))"

definition combinations :: "usize \<Rightarrow> usize \<Rightarrow> usize list list option" where
  "combinations n k = (if k = 0 \<or> k > n then Some [] else combinations_loop n k [0..<k])"

text \<open>The multiplicative binomial in 128 bits, clamped to a word at the end.\<close>

fun choose_loop :: "usize \<Rightarrow> usize \<Rightarrow> usize \<Rightarrow> nat \<Rightarrow> nat" where
  "choose_loop n i 0 num = num"
| "choose_loop n i (Suc left) num = choose_loop n (i + 1) left (num * (n - i) mod 2 ^ 128 div (i + 1))"

definition n_choose_k :: "usize \<Rightarrow> usize \<Rightarrow> usize" where
  "n_choose_k n k =
     (if k > n then 0
      else let num = choose_loop n 0 (min k (n - k)) 1 in if num < 2 ^ 64 then num else 2 ^ 64 - 1)"

definition balanced_partition_count :: "usize \<Rightarrow> usize" where
  "balanced_partition_count blocks = (if blocks < 2 \<or> odd blocks then 0 else n_choose_k blocks (blocks div 2))"

definition cpcv_path_count :: "usize \<Rightarrow> usize" where
  "cpcv_path_count blocks = (if blocks < 2 \<or> odd blocks then 0 else n_choose_k (blocks - 1) (blocks div 2 - 1))"

datatype block_error = OddBlockCount usize | EmptyMatrix

record cpcv_path =
  cp_test :: "range list"
  cp_train :: "usize list"

definition cpcv_path_of :: "usize \<Rightarrow> usize \<Rightarrow> usize \<Rightarrow> usize \<Rightarrow> usize list \<Rightarrow> cpcv_path" where
  "cpcv_path_of n_obs blocks purge embargo test_blocks =
     (let test = map (block n_obs blocks) test_blocks
      in \<lparr>cp_test = test, cp_train = filter (\<lambda>i. list_all (\<lambda>r. \<not> excluded_zone n_obs purge embargo r i) test) [0..<n_obs]\<rparr>)"

definition cpcv_paths :: "usize \<Rightarrow> usize \<Rightarrow> usize \<Rightarrow> usize \<Rightarrow> usize \<Rightarrow> (block_error, cpcv_path list) result option" where
  "cpcv_paths n_obs blocks lookback label_horizon embargo =
     (if blocks < 2 \<or> odd blocks then Some (Inl (OddBlockCount blocks))
      else if n_obs < blocks then Some (Inl EmptyMatrix)
      else map_option (\<lambda>cs. Inr (map (cpcv_path_of n_obs blocks (lookback + label_horizon) embargo) cs))
             (combinations blocks (blocks div 2)))"

definition path_windows_disjoint :: "cpcv_path \<Rightarrow> usize \<Rightarrow> usize \<Rightarrow> bool" where
  "path_windows_disjoint p lookback label_horizon \<longleftrightarrow>
     list_all (\<lambda>tr. list_all (\<lambda>r. list_all (\<lambda>te. abs_diff tr te > lookback + label_horizon) (range_list r)) (cp_test p)) (cp_train p)"

definition path_returns :: "cpcv_path \<Rightarrow> 'a list \<Rightarrow> 'a list" where
  "path_returns p candidate =
     concat (map (\<lambda>r. map ((!) candidate) (filter (\<lambda>i. i < length candidate) (range_list r))) (cp_test p))"

section \<open>The odometer enumerates the subsets\<close>

text \<open>The reference: the ascending \<open>k\<close>-lists over \<open>a .. n - 1\<close> in lexicographic order.\<close>

function ascending_lists :: "nat \<Rightarrow> nat \<Rightarrow> nat \<Rightarrow> nat list list" where
  "ascending_lists 0 a n = [[]]"
| "ascending_lists (Suc k) a n =
     (if a < n then map ((#) a) (ascending_lists k (Suc a) n) @ ascending_lists (Suc k) (Suc a) n else [])"
  by pat_completeness auto
termination by (relation "measure (\<lambda>(k, a, n). k + (n - a))") auto

declare ascending_lists.simps(2) [simp del]

lemma ascending_lists_short: "n < a + k \<Longrightarrow> 0 < k \<Longrightarrow> ascending_lists k a n = []"
proof (induction k a n rule: ascending_lists.induct)
  case (2 k a n)
  then show ?case by (subst ascending_lists.simps, cases k) auto
qed simp

definition odometer_rest :: "nat \<Rightarrow> nat \<Rightarrow> nat list \<Rightarrow> nat list list option" where
  "odometer_rest n k p =
     (case last_movable n k p (length p) of
        None \<Rightarrow> Some []
      | Some i \<Rightarrow> combinations_loop n k (advance k i p))"

lemma last_movable_prefix: "i \<le> length p \<Longrightarrow> last_movable n k (p @ q) i = last_movable n k p i"
  by (induction i) (auto simp: nth_append)

lemma last_movable_below: "last_movable n k idx j = Some i \<Longrightarrow> i < j"
  by (induction j) (auto split: if_splits)

lemma odometer_from:
  assumes "length p + m = k" "a + m \<le> n" "k \<le> n"
  shows "combinations_loop n k (p @ [a..<a + m]) =
    map_option (\<lambda>out. map ((@) p) (ascending_lists m a n) @ out) (odometer_rest n k p)"
  using assms
proof (induction m arbitrary: p a)
  case 0
  then show ?case
    by (subst combinations_loop.simps) (auto simp: odometer_rest_def split: option.splits
      Option.bind_splits)
next
  case (Suc m)
  note outer = Suc.IH
  show ?case
    using Suc.prems
  proof (induction "n - a" arbitrary: a)
    case 0
    then show ?case by simp
  next
    case (Suc d)
    have split: "p @ [a..<a + Suc m] = (p @ [a]) @ [Suc a..<Suc a + m]" by (simp add: upt_conv_Cons)
    have head: "combinations_loop n k (p @ [a..<a + Suc m]) =
        map_option (\<lambda>out. map ((@) (p @ [a])) (ascending_lists m (Suc a) n) @ out) (odometer_rest n k (p @ [a]))"
      unfolding split using Suc.prems by (intro outer) auto
    have snoc: "(@) (p @ [a]) = (\<lambda>x. p @ a # x)" by auto
    have append_fun: "(@) (xs @ ys) = (\<lambda>x. xs @ ys @ x)" for xs ys :: "'b list" by auto
    show ?case
    proof (cases "a + Suc m = n")
      case True
      then have "a = length p + n - k" using Suc.prems by simp
      then have "odometer_rest n k (p @ [a]) = odometer_rest n k p"
        by (auto simp: odometer_rest_def last_movable_prefix advance_def nth_append
            dest: last_movable_below split: option.splits)
      moreover have "ascending_lists (Suc m) a n = map ((#) a) (ascending_lists m (Suc a) n)"
        using True by (simp add: ascending_lists.simps(2) [of m a n] ascending_lists_short)
      ultimately show ?thesis using head by (simp add: comp_def snoc)
    next
      case False
      then have "a \<noteq> length p + n - k" using Suc.prems by auto
      moreover have "k - length p = Suc m" using Suc.prems by simp
      ultimately have "odometer_rest n k (p @ [a]) = combinations_loop n k (p @ [Suc a..<Suc a + Suc m])"
        by (simp add: odometer_rest_def advance_def)
      also have "\<dots> = map_option (\<lambda>out. map ((@) p) (ascending_lists (Suc m) (Suc a) n) @ out) (odometer_rest n k p)"
        using Suc.prems Suc.hyps(2) False by (intro Suc.hyps(1)) auto
      finally show ?thesis
        using head Suc.prems
        by (simp add: ascending_lists.simps(2) [of m a n] option.map_comp comp_def snoc append_fun)
    qed
  qed
qed

lemma combinations_enumerate: "0 < k \<Longrightarrow> k \<le> n \<Longrightarrow> combinations n k = Some (ascending_lists k 0 n)"
  using odometer_from [of "[]" k k 0 n] map_idI [of "ascending_lists k 0 n" "(@) []"]
  by (simp add: combinations_def odometer_rest_def)


lemma ascending_lists_iff:
  "xs \<in> set (ascending_lists k a n) \<longleftrightarrow> sorted_wrt (<) xs \<and> length xs = k \<and> set xs \<subseteq> {a..<n}"
proof (induction k a n arbitrary: xs rule: ascending_lists.induct)
  case (1 a n)
  then show ?case by auto
next
  case (2 k a n)
  show ?case
  proof (cases "a < n")
    case True
    have "xs \<in> set (ascending_lists (Suc k) a n) \<longleftrightarrow>
        (\<exists>ys \<in> set (ascending_lists k (Suc a) n). xs = a # ys) \<or> xs \<in> set (ascending_lists (Suc k) (Suc a) n)"
      using True by (simp add: ascending_lists.simps(2) [of k a n] image_iff)
    also have "\<dots> \<longleftrightarrow> sorted_wrt (<) xs \<and> length xs = Suc k \<and> set xs \<subseteq> {a..<n}" (is "_ \<longleftrightarrow> ?R")
    proof -
      have "?R" if "(\<exists>ys \<in> set (ascending_lists k (Suc a) n). xs = a # ys) \<or> xs \<in> set (ascending_lists (Suc k) (Suc a) n)"
        using that True 2 by fastforce
      moreover have "(\<exists>ys \<in> set (ascending_lists k (Suc a) n). xs = a # ys) \<or> xs \<in> set (ascending_lists (Suc k) (Suc a) n)"
        if r: ?R
      proof -
        obtain x ys where xs: "xs = x # ys" using r by (cases xs) auto
        have above: "y \<in> {Suc x..<n}" if "y \<in> set ys" for y using that r xs by auto
        show ?thesis
        proof (cases "x = a")
          case True
          then show ?thesis using above r xs 2(1)[OF \<open>a < n\<close>, of ys] by auto
        next
          case False
          then have "Suc a \<le> x" using r xs by auto
          then have "set xs \<subseteq> {Suc a..<n}" using above r xs by fastforce
          then show ?thesis using r 2(2)[OF \<open>a < n\<close>, of xs] by simp
        qed
      qed
      ultimately show ?thesis by blast
    qed
    finally show ?thesis .
  next
    case False
    then show ?thesis by (cases xs) (auto simp: ascending_lists.simps(2) [of k a n])
  qed
qed

lemma ascending_lists_distinct: "distinct (ascending_lists k a n)"
proof (induction k a n rule: ascending_lists.induct)
  case (2 k a n)
  then show ?case
    by (subst ascending_lists.simps)
      (auto simp: distinct_map ascending_lists_iff subset_iff)
qed simp

lemma length_ascending_lists: "length (ascending_lists k a n) = (n - a) choose k"
proof (induction k a n rule: ascending_lists.induct)
  case (2 k a n)
  show ?case
  proof (cases "a < n")
    case True
    then have "n - a = Suc (n - Suc a)" by simp
    then show ?thesis using 2 True by (simp add: ascending_lists.simps(2) [of k a n])
  qed (simp add: ascending_lists.simps(2) [of k a n])
qed simp

section \<open>The binomial loop\<close>

lemma binomial_le_power: "n choose k \<le> 2 ^ n"
proof (cases "k \<le> n")
  case True
  then have "n choose k \<le> (\<Sum>i\<le>n. n choose i)" by (intro member_le_sum) auto
  then show ?thesis by (simp add: choose_row_sum)
qed (simp add: binomial_eq_0)

lemma choose_step: "i < n \<Longrightarrow> (n choose i) * (n - i) div (i + 1) = n choose (i + 1)"
  using binomial_absorption [of i "n - 1"] binomial_absorb_comp [of n i] Suc_times_binomial_add [of i "n - i - 1"]
  by (metis Suc_eq_plus1 binomial_absorb_comp binomial_absorption mult.commute nonzero_mult_div_cancel_left old.nat.distinct(2))

lemma choose_loop_exact:
  assumes "n \<le> 62" "i + left \<le> n"
  shows "choose_loop n i left (n choose i) = n choose (i + left)"
  using assms(2)
proof (induction left arbitrary: i)
  case (Suc left)
  have "(n choose i) * (n - i) \<le> 2 ^ n * n" by (intro mult_mono binomial_le_power) auto
  also have "\<dots> \<le> 2 ^ 62 * 62" using assms(1) by (intro mult_mono power_increasing) auto
  finally have "(n choose i) * (n - i) mod 2 ^ 128 div (i + 1) = n choose (i + 1)"
    using Suc.prems choose_step [of i n] by simp
  then show ?case using Suc by simp
qed simp

lemma n_choose_k_exact: "n \<le> 62 \<Longrightarrow> n_choose_k n k = n choose k"
proof -
  assume n: "n \<le> 62"
  have "n choose k < 2 ^ 64"
    using binomial_le_power [of n k] power_increasing [of n 62 "2::nat"] n by simp
  moreover have "choose_loop n 0 (min k (n - k)) 1 = n choose k" if "k \<le> n"
    using choose_loop_exact [OF n, of 0 "min k (n - k)"] that binomial_symmetric [of k n]
    by (auto simp: min_def)
  ultimately show ?thesis by (simp add: n_choose_k_def binomial_eq_0)
qed

section \<open>Blocks\<close>

lemma block_chain: "snd (block n m k) = fst (block n m (Suc k))"
  by (simp add: block_def)

lemma block_order: "fst (block n m k) \<le> snd (block n m k)"
  by (simp add: block_def div_le_mono)

lemma block_last: "0 < m \<Longrightarrow> fst (block n m m) = n"
  by (simp add: block_def)

lemma block_nonempty: "0 < m \<Longrightarrow> m \<le> n \<Longrightarrow> fst (block n m k) < snd (block n m k)"
proof -
  assume "0 < m" "m \<le> n"
  then have "(k * n + m) div m \<le> (k + 1) * n div m" by (intro div_le_mono) simp
  then show ?thesis using \<open>0 < m\<close> by (simp add: block_def)
qed

lemma block_inj: "0 < m \<Longrightarrow> m \<le> n \<Longrightarrow> inj (block n m)"
proof -
  assume m: "0 < m" "m \<le> n"
  have "fst (block n m j) < fst (block n m (Suc j))" for j
    using block_nonempty [OF m, of j] by (simp add: block_chain)
  then have "strict_mono (\<lambda>j. fst (block n m j))" by (simp add: strict_mono_Suc_iff)
  then have "inj (\<lambda>j. fst (block n m j))" by (rule strict_mono_imp_inj_on)
  then show ?thesis by (metis injD injI)
qed

lemma upt_join: "a \<le> b \<Longrightarrow> b \<le> c \<Longrightarrow> [a..<b] @ [b..<c] = [a..<c]"
  by (metis le_Suc_ex upt_add_eq_append)

lemma blocks_tile: "concat (map (\<lambda>k. range_list (block n m k)) [0..<j]) = [0..<fst (block n m j)]"
proof (induction j)
  case (Suc j)
  then show ?case
    using upt_join [of 0 "fst (block n m j)" "snd (block n m j)"] block_order [of n m j]
    by (simp add: range_list_def block_chain)
qed (simp add: block_def)

lemma excluded_zone_far:
  assumes "\<not> excluded_zone n purge embargo r i" "i < n" "te \<in> set (range_list r)" "fst r < snd r"
  shows "abs_diff i te > purge"
  using assms by (auto simp: excluded_zone_def range_list_def abs_diff_def)

section \<open>The geometry is leakage-free\<close>

text \<open>Empty blocks hold no bars, so skipping them does not change what the test blocks cover.\<close>

lemma concat_filter_nonempty:
  "concat (map range_list (filter (\<lambda>r. fst r < snd r) rs)) = concat (map range_list rs)"
  by (induction rs) (auto simp: range_list_def)

lemma fold_member:
  assumes "f \<in> set (folds cv n_bars)"
  shows "range_list (fo_test f) \<noteq> []" "fold_windows_disjoint f (pk_lookback cv) (pk_label_horizon cv)"
proof -
  obtain r where r: "fst r < snd r"
    "f = \<lparr>fo_test = r, fo_train = filter (\<lambda>i. \<not> excluded_zone n_bars (purge_span cv) (pk_embargo cv) r i) [0..<n_bars]\<rparr>"
    using assms by (auto simp: folds_def Let_def)
  show "range_list (fo_test f) \<noteq> []" using r by (simp add: range_list_def)
  show "fold_windows_disjoint f (pk_lookback cv) (pk_label_horizon cv)"
    using excluded_zone_far [OF _ _ _ r(1)] r(2) by (auto simp: list_all_iff fold_windows_disjoint_def purge_span_def)
qed

text \<open>
  C38. The purged folds are leakage-free and complete: in order, the test blocks run through every bar
  exactly once, none is empty, and every bar trained on lies further than the lookback and the label
  horizon from every bar of its test block, whatever the embargo and however few the bars (indices and
  their sums below the word size).
\<close>

theorem folds_are_leakage_free:
  "concat (map (range_list \<circ> fo_test) (folds cv n_bars)) = [0..<n_bars] \<and>
   list_all (\<lambda>f. range_list (fo_test f) \<noteq> [] \<and> fold_windows_disjoint f (pk_lookback cv) (pk_label_horizon cv)) (folds cv n_bars)"
proof
  let ?m = "max (pk_n_folds cv) 1"
  have "map (range_list \<circ> fo_test) (folds cv n_bars) = map range_list (filter (\<lambda>r. fst r < snd r) (map (block n_bars ?m) [0..<?m]))"
    by (simp add: folds_def Let_def comp_def)
  then show "concat (map (range_list \<circ> fo_test) (folds cv n_bars)) = [0..<n_bars]"
    using blocks_tile [of n_bars ?m ?m] block_last [of ?m n_bars]
    by (simp add: concat_filter_nonempty comp_def)
  show "list_all (\<lambda>f. range_list (fo_test f) \<noteq> [] \<and> fold_windows_disjoint f (pk_lookback cv) (pk_label_horizon cv)) (folds cv n_bars)"
    by (auto simp: list_all_iff dest: fold_member)
qed

text \<open>Without the purge the first train bar beside a test block leaks.\<close>

lemma naive_kfold_leaks:
  "\<not> list_all (\<lambda>f. fold_windows_disjoint f 1 0)
     (folds \<lparr>pk_n_folds = 2, pk_lookback = 0, pk_label_horizon = 0, pk_embargo = 0\<rparr> 4)"
  by code_simp

section \<open>Walk-forward windows\<close>

definition expected_window :: "walk_forward \<Rightarrow> usize \<Rightarrow> wf_window" where
  "expected_window w i = window_at w i (i * max (wf_step w) 1)"

lemma windows_from_stop:
  assumes "0 < wf_train w" "0 < wf_validate w"
  shows "\<exists>j \<ge> i. windows_from w n_bars i (i * max (wf_step w) 1) = map (expected_window w) [i..<j] \<and>
     (\<forall>l. i \<le> l \<and> l < j \<longrightarrow> snd (ww_validate (expected_window w l)) \<le> n_bars) \<and>
     n_bars < snd (ww_validate (expected_window w j))"
proof (induction "n_bars - i" arbitrary: i rule: less_induct)
  case less
  have step: "i * max (wf_step w) 1 + max (wf_step w) 1 = (i + 1) * max (wf_step w) 1" by simp
  show ?case
  proof (cases "snd (ww_validate (expected_window w i)) > n_bars")
    case True
    then show ?thesis
      by (intro exI [of _ i]) (simp add: windows_from.simps [of w n_bars i] expected_window_def Let_def)
  next
    case False
    have "i \<le> i * max (wf_step w) 1" by simp
    moreover have "i * max (wf_step w) 1 < n_bars"
      using False assms by (simp add: expected_window_def window_at_def Let_def)
    ultimately have "n_bars - (i + 1) < n_bars - i" by linarith
    from less [OF this] obtain j where j: "j \<ge> i + 1"
      "windows_from w n_bars (i + 1) ((i + 1) * max (wf_step w) 1) = map (expected_window w) [i + 1..<j]"
      "\<forall>l. i + 1 \<le> l \<and> l < j \<longrightarrow> snd (ww_validate (expected_window w l)) \<le> n_bars"
      "n_bars < snd (ww_validate (expected_window w j))"
      by blast
    have "windows_from w n_bars i (i * max (wf_step w) 1) = expected_window w i # map (expected_window w) [i + 1..<j]"
      using False assms j(2) step
      by (subst windows_from.simps) (simp add: Let_def expected_window_def del: mult_Suc)
    then show ?thesis
      using j False by (intro exI [of _ j]) (auto simp: upt_conv_Cons le_Suc_eq Suc_le_eq dest: le_neq_implies_less)
  qed
qed


text \<open>
  Walk-forward geometry: the windows are those at the origins \<open>0, s, 2 s, \<dots>\<close> (a step of zero counts
  as one), every one that fits the series and no other; each validates on bars it does not train on, in
  order after them and further away than the lookback and the label horizon; a caller's archive is taken
  through exactly these windows in order, and never reset.
\<close>

theorem walk_forward_geometry:
  assumes "0 < wf_train w" "0 < wf_validate w"
  shows "\<exists>j. windows w n_bars = map (\<lambda>i. window_at w i (i * max (wf_step w) 1)) [0..<j] \<and>
     (\<forall>i. i < j \<longleftrightarrow> i * max (wf_step w) 1 + wf_train w + wf_gap w + wf_validate w \<le> n_bars) \<and>
     list_all (\<lambda>x. window_windows_disjoint x (wf_lookback w) (wf_label_horizon w) \<and>
        snd (ww_train x) + wf_embargo w \<le> fst (ww_validate x) \<and> snd (ww_validate x) \<le> n_bars) (windows w n_bars) \<and>
     wf_run w n_bars on_window archive = foldl on_window archive (map (\<lambda>i. window_at w i (i * max (wf_step w) 1)) [0..<j])"
proof -
  obtain j where run: "windows w n_bars = map (expected_window w) [0..<j]"
    and fit: "\<forall>l < j. snd (ww_validate (expected_window w l)) \<le> n_bars" "n_bars < snd (ww_validate (expected_window w j))"
    using windows_from_stop [OF assms, of 0 n_bars] by (auto simp: windows_def)
  have last: "snd (ww_validate (expected_window w i)) = i * max (wf_step w) 1 + wf_train w + wf_gap w + wf_validate w" for i
    by (simp add: expected_window_def window_at_def Let_def)
  have iff: "i < j \<longleftrightarrow> snd (ww_validate (expected_window w i)) \<le> n_bars" for i
  proof (cases "i < j")
    case False
    then have "snd (ww_validate (expected_window w j)) \<le> snd (ww_validate (expected_window w i))"
      by (simp add: last mult_le_mono1)
    then show ?thesis using fit(2) False by simp
  qed (use fit in simp)
  have "window_windows_disjoint (expected_window w i) (wf_lookback w) (wf_label_horizon w) \<and>
      snd (ww_train (expected_window w i)) + wf_embargo w \<le> fst (ww_validate (expected_window w i))" for i
    by (auto simp: window_windows_disjoint_def list_all_iff range_list_def abs_diff_def expected_window_def
        window_at_def wf_gap_def Let_def)
  then have all: "list_all (\<lambda>x. window_windows_disjoint x (wf_lookback w) (wf_label_horizon w) \<and>
        snd (ww_train x) + wf_embargo w \<le> fst (ww_validate x) \<and> snd (ww_validate x) \<le> n_bars) (windows w n_bars)"
    using fit(1) by (auto simp: run list_all_iff)
  have same: "map (expected_window w) [0..<j] = map (\<lambda>i. window_at w i (i * max (wf_step w) 1)) [0..<j]"
    by (simp add: expected_window_def)
  show ?thesis
    using run all iff by (intro exI [of _ j]) (simp add: same wf_run_def last)
qed

definition sample_walk :: walk_forward where
  "sample_walk = \<lparr>wf_mode = Rolling, wf_train = 50, wf_validate = 20, wf_step = 20, wf_lookback = 5,
     wf_label_horizon = 2, wf_embargo = 3\<rparr>"

theorem walk_forward_geometry_witness:
  "\<exists>j. windows sample_walk 95 = map (\<lambda>i. window_at sample_walk i (i * 20)) [0..<j] \<and> j = 1"
proof -
  have vals: "wf_train sample_walk = 50" "wf_validate sample_walk = 20" "wf_step sample_walk = 20" "wf_gap sample_walk = 10"
    "max 20 (1::nat) = 20"
    by (simp_all add: sample_walk_def wf_gap_def)
  obtain j where j: "windows sample_walk 95 = map (\<lambda>i. window_at sample_walk i (i * 20)) [0..<j]"
    "\<forall>i. i < j \<longleftrightarrow> i * 20 + 50 + 10 + 20 \<le> 95"
    using walk_forward_geometry [of sample_walk 95 "\<lambda>_ _. ()" "()"] by (auto simp only: vals zero_less_numeral)
  have "j = 1" using spec [OF j(2), of 0] spec [OF j(2), of 1] by simp
  then show ?thesis using j by blast
qed


section \<open>Held-out paths\<close>

lemma range_list_block: "x \<in> set (range_list (block n m k)) \<longleftrightarrow> fst (block n m k) \<le> x \<and> x < snd (block n m k)"
  by (simp add: range_list_def)

lemma path_of_windows_disjoint:
  assumes "0 < blocks" "blocks \<le> n_obs"
  shows "path_windows_disjoint (cpcv_path_of n_obs blocks (lookback + label_horizon) embargo c) lookback label_horizon"
proof -
  have "lookback + label_horizon < abs_diff tr te"
    if "\<not> excluded_zone n_obs (lookback + label_horizon) embargo (block n_obs blocks b) tr" "tr < n_obs"
      "te \<in> set (range_list (block n_obs blocks b))" for tr te b
    using excluded_zone_far [OF that block_nonempty [OF assms]] .
  then show ?thesis by (auto simp: path_windows_disjoint_def cpcv_path_of_def Let_def list_all_iff)
qed

text \<open>How many of the ascending lists hold a given element.\<close>

lemma sorted_list_unique: "sorted_wrt (<) xs \<Longrightarrow> sorted_wrt (<) ys \<Longrightarrow> set xs = set ys \<Longrightarrow> xs = (ys :: nat list)"
  by (simp add: strict_sorted_equal)

lemma ascending_lists_sets:
  "set ` {xs \<in> set (ascending_lists k 0 n). x \<in> set xs} = {A. A \<subseteq> {0..<n} \<and> card A = k \<and> x \<in> A}"
proof (intro set_eqI iffI)
  fix A assume "A \<in> set ` {xs \<in> set (ascending_lists k 0 n). x \<in> set xs}"
  then show "A \<in> {A. A \<subseteq> {0..<n} \<and> card A = k \<and> x \<in> A}"
    by (auto simp: ascending_lists_iff strict_sorted_iff distinct_card)
next
  fix A assume A: "A \<in> {A. A \<subseteq> {0..<n} \<and> card A = k \<and> x \<in> A}"
  then have "finite A" by (auto intro: finite_subset)
  then show "A \<in> set ` {xs \<in> set (ascending_lists k 0 n). x \<in> set xs}"
    using A by (intro image_eqI [of _ _ "sorted_list_of_set A"]) (auto simp: ascending_lists_iff)
qed

lemma card_subsets_with:
  assumes "x < n" "0 < k"
  shows "card {A. A \<subseteq> {0..<n} \<and> card A = k \<and> x \<in> A} = (n - 1) choose (k - 1)"
proof -
  have "{A. A \<subseteq> {0..<n} \<and> card A = k \<and> x \<in> A} = insert x ` {B. B \<subseteq> {0..<n} - {x} \<and> card B = k - 1}"
  proof (intro set_eqI iffI)
    fix A assume A: "A \<in> {A. A \<subseteq> {0..<n} \<and> card A = k \<and> x \<in> A}"
    then have "finite A" by (auto intro: finite_subset)
    then show "A \<in> insert x ` {B. B \<subseteq> {0..<n} - {x} \<and> card B = k - 1}"
      using A by (intro image_eqI [of _ _ "A - {x}"]) auto
  next
    fix A assume "A \<in> insert x ` {B. B \<subseteq> {0..<n} - {x} \<and> card B = k - 1}"
    then obtain B where B: "A = insert x B" "B \<subseteq> {0..<n} - {x}" "card B = k - 1" by auto
    then have "finite B" by (auto intro: finite_subset)
    moreover have "x \<notin> B" using B(2) by blast
    ultimately show "A \<in> {A. A \<subseteq> {0..<n} \<and> card A = k \<and> x \<in> A}" using B assms by (auto simp: card_insert_disjoint)
  qed
  moreover have "inj_on (insert x) {B. B \<subseteq> {0..<n} - {x} \<and> card B = k - 1}"
    by (rule inj_onI) blast
  moreover have "card ({0..<n} - {x}) = n - 1" using assms by simp
  ultimately show ?thesis using n_subsets [of "{0..<n} - {x}" "k - 1"] by (simp add: card_image)
qed

lemma lists_with_element:
  assumes "x < n" "0 < k"
  shows "length (filter (\<lambda>xs. x \<in> set xs) (ascending_lists k 0 n)) = (n - 1) choose (k - 1)"
proof -
  have "length (filter (\<lambda>xs. x \<in> set xs) (ascending_lists k 0 n)) = card {xs \<in> set (ascending_lists k 0 n). x \<in> set xs}"
    using distinct_card [of "filter (\<lambda>xs. x \<in> set xs) (ascending_lists k 0 n)"] by (simp add: ascending_lists_distinct Int_def conj_commute)
  also have "\<dots> = card (set ` {xs \<in> set (ascending_lists k 0 n). x \<in> set xs})"
    by (intro card_image [symmetric] inj_onI) (auto simp: ascending_lists_iff intro: sorted_list_unique)
  finally show ?thesis by (simp add: ascending_lists_sets card_subsets_with assms)
qed

text \<open>
  C39. The held-out paths. For any even number of blocks up to 62 and a series with a bar for each, the
  enumeration returns; it holds out every set of half the blocks once, in ascending order, their number is
  the advertised count of balanced partitions; each block is held out in exactly the advertised number of
  backtest paths; and no path trains within the lookback and the label horizon of a held-out bar.
\<close>

theorem held_out_paths:
  assumes "2 \<le> blocks" "even blocks" "blocks \<le> 62" "blocks \<le> n_obs"
  shows "\<exists>cs. cpcv_paths n_obs blocks lookback label_horizon embargo =
       Some (Inr (map (cpcv_path_of n_obs blocks (lookback + label_horizon) embargo) cs)) \<and>
     distinct cs \<and> length cs = balanced_partition_count blocks \<and>
     set cs = {c. sorted_wrt (<) c \<and> length c = blocks div 2 \<and> set c \<subseteq> {0..<blocks}} \<and>
     (\<forall>b < blocks. length (filter (\<lambda>p. block n_obs blocks b \<in> set (cp_test p))
        (map (cpcv_path_of n_obs blocks (lookback + label_horizon) embargo) cs)) = cpcv_path_count blocks) \<and>
     list_all (\<lambda>p. path_windows_disjoint p lookback label_horizon)
       (map (cpcv_path_of n_obs blocks (lookback + label_horizon) embargo) cs)"
proof -
  let ?k = "blocks div 2"
  let ?path = "cpcv_path_of n_obs blocks (lookback + label_horizon) embargo"
  have k: "0 < ?k" "?k \<le> blocks" "0 < blocks" using assms by auto
  have held: "block n_obs blocks b \<in> set (cp_test (?path c)) \<longleftrightarrow> b \<in> set c" for b c
    using block_inj [OF k(3) assms(4)] by (auto simp: cpcv_path_of_def Let_def dest: injD)
  have count: "length (filter (\<lambda>p. block n_obs blocks b \<in> set (cp_test p)) (map ?path (ascending_lists ?k 0 blocks))) =
      cpcv_path_count blocks" if "b < blocks" for b
    using lists_with_element [OF that k(1)] assms
    by (simp add: filter_map comp_def held cpcv_path_count_def n_choose_k_exact)
  have "cpcv_paths n_obs blocks lookback label_horizon embargo = Some (Inr (map ?path (ascending_lists ?k 0 blocks)))"
    using assms k by (simp add: cpcv_paths_def combinations_enumerate)
  moreover have "length (ascending_lists ?k 0 blocks) = balanced_partition_count blocks"
    using assms by (simp add: length_ascending_lists balanced_partition_count_def n_choose_k_exact)
  moreover have "list_all (\<lambda>p. path_windows_disjoint p lookback label_horizon) (map ?path (ascending_lists ?k 0 blocks))"
    using path_of_windows_disjoint [OF k(3) assms(4)] by (simp add: list_all_iff)
  ultimately show ?thesis
    using count ascending_lists_distinct ascending_lists_iff
    by (intro exI [of _ "ascending_lists ?k 0 blocks"]) blast
qed

theorem held_out_paths_witness:
  "\<exists>cs. cpcv_paths 40 4 3 1 3 = Some (Inr (map (cpcv_path_of 40 4 4 3) cs)) \<and> length cs = 6 \<and> [1, 3] \<in> set cs"
proof -
  have h: "2 \<le> (4::nat)" "even (4::nat)" "4 \<le> (62::nat)" "4 \<le> (40::nat)" by simp_all
  obtain cs where cs: "cpcv_paths 40 4 3 1 3 = Some (Inr (map (cpcv_path_of 40 4 (3 + 1) 3) cs))"
    "length cs = balanced_partition_count 4" "set cs = {c. sorted_wrt (<) c \<and> length c = 4 div 2 \<and> set c \<subseteq> {0..<4}}"
    using held_out_paths [OF h, of 3 1 3] by blast
  have "balanced_partition_count 4 = 6" by (simp add: balanced_partition_count_def n_choose_k_exact choose_two)
  then have six: "length cs = 6" using cs(2) by (rule trans [rotated])
  have into: "[1, 3] \<in> set cs" unfolding cs(3) by simp
  have paths: "cpcv_paths 40 4 3 1 3 = Some (Inr (map (cpcv_path_of 40 4 4 3) cs))" using cs(1) by simp
  show ?thesis by (intro exI [of _ cs] conjI paths six into)
qed

text \<open>
  With two blocks the held-out paths are the two purged folds: the same test ranges and the same train
  bars, in the same order, so the mirrored purge arithmetic cannot drift from the original.
\<close>

theorem two_blocks_are_two_folds:
  assumes "2 \<le> n_obs"
  shows "map_option (map_sum id (map (\<lambda>p. (cp_test p, cp_train p)))) (cpcv_paths n_obs 2 lookback label_horizon embargo) =
    Some (Inr (map (\<lambda>f. ([fo_test f], fo_train f))
      (folds \<lparr>pk_n_folds = 2, pk_lookback = lookback, pk_label_horizon = label_horizon, pk_embargo = embargo\<rparr> n_obs)))"
proof -
  have lists: "ascending_lists 1 0 2 = [[0], [1]]" by code_simp
  have two: "[0..<2] = [0, 1]" by (simp add: upt_rec)
  have most: "max 2 1 = (2::nat)" by simp
  have ne: "fst (block n_obs 2 k) < snd (block n_obs 2 k)" for k using block_nonempty [of 2 n_obs k] assms by simp
  have "combinations 2 1 = Some [[0], [1]]" using combinations_enumerate [of 1 2] lists by simp
  moreover have "folds \<lparr>pk_n_folds = 2, pk_lookback = lookback, pk_label_horizon = label_horizon, pk_embargo = embargo\<rparr> n_obs =
      map (\<lambda>r. \<lparr>fo_test = r, fo_train = filter (\<lambda>i. \<not> excluded_zone n_obs (lookback + label_horizon) embargo r i) [0..<n_obs]\<rparr>)
        [block n_obs 2 0, block n_obs 2 1]"
    unfolding folds_def Let_def purge_span_def purged_kfold.simps most two using ne by simp
  ultimately show ?thesis using assms by (simp add: cpcv_paths_def cpcv_path_of_def Let_def)
qed

theorem two_blocks_are_two_folds_witness:
  "map_option (map_sum id (map (\<lambda>p. (cp_test p, cp_train p)))) (cpcv_paths 6 2 1 0 0) =
     Some (Inr [([(0, 3)], [4, 5]), ([(3, 6)], [0, 1])])"
proof -
  have "map (\<lambda>f. ([fo_test f], fo_train f)) (folds \<lparr>pk_n_folds = 2, pk_lookback = 1, pk_label_horizon = 0, pk_embargo = 0\<rparr> 6) =
      [([(0, 3)], [4, 5]), ([(3, 6)], [0, 1])]" by code_simp
  then show ?thesis using two_blocks_are_two_folds [of 6 1 0 0] by simp
qed

text \<open>A path reads only its held-out blocks: what the candidate returned elsewhere does not matter.\<close>

lemma returns_read_held_out_only:
  "(\<And>i r. r \<in> set (cp_test p) \<Longrightarrow> i \<in> set (range_list r) \<Longrightarrow> i < length xs \<Longrightarrow> xs ! i = ys ! i) \<Longrightarrow>
   length xs = length ys \<Longrightarrow> path_returns p xs = path_returns p ys"
  unfolding path_returns_def by (intro arg_cong [of _ _ concat] map_cong refl) auto

end
