(* ===== verification/Friction.thy ===== *)
theory Friction imports Domain_Types begin

text \<open>
  Execution costs (\<open>wfo/src/friction.rs\<close>, over the calibration of \<open>risk/src/slippage.rs\<close>): fee rates, the
  spread and participation impact of a fill, the signed average-cost position, and the walk of a stream of
  fills and funding stamps to a decomposed profit and loss. Decimal arithmetic may panic, so every amount is
  an option; the package's power function is a parameter beside its four operations.
\<close>

section \<open>Rates\<close>

record money_math =
  mm_arith :: dec_arith
  mm_powd :: "decimal \<Rightarrow> decimal \<Rightarrow> decimal option"

datatype liquidity = Taker | Maker

record fee_schedule =
  fs_taker :: decimal
  fs_maker :: decimal

definition default_fees :: fee_schedule where
  "default_fees = \<lparr>fs_taker = 5 / 10000, fs_maker = 2 / 10000\<rparr>"

fun fee_rate :: "fee_schedule \<Rightarrow> liquidity \<Rightarrow> decimal" where
  "fee_rate f Taker = fs_taker f"
| "fee_rate f Maker = fs_maker f"

definition fee :: "money_math \<Rightarrow> fee_schedule \<Rightarrow> decimal \<Rightarrow> liquidity \<Rightarrow> decimal option" where
  "fee M f notional_abs l = dec_mul (mm_arith M) notional_abs (fee_rate f l)"

record slippage_calibration =
  sc_half_spread :: decimal
  sc_impact_coeff :: decimal
  sc_impact_exponent :: decimal
  sc_alpha_loss :: decimal

record slippage_model =
  sl_half_spread :: decimal
  sl_impact_coeff :: decimal
  sl_impact_exponent :: decimal
  sl_alpha_loss :: decimal

definition slippage_from_calibration :: "slippage_calibration \<Rightarrow> slippage_model" where
  "slippage_from_calibration c =
     \<lparr>sl_half_spread = sc_half_spread c, sl_impact_coeff = sc_impact_coeff c,
      sl_impact_exponent = sc_impact_exponent c, sl_alpha_loss = sc_alpha_loss c\<rparr>"

fun directional_drift :: "slippage_model \<Rightarrow> side \<Rightarrow> decimal" where
  "directional_drift s Buy = sl_alpha_loss s"
| "directional_drift s Sell = - sl_alpha_loss s"

definition alpha_loss_cost :: "money_math \<Rightarrow> slippage_model \<Rightarrow> decimal \<Rightarrow> decimal option" where
  "alpha_loss_cost M s notional_abs = dec_mul (mm_arith M) notional_abs (sl_alpha_loss s)"

definition slippage_cost :: "money_math \<Rightarrow> slippage_model \<Rightarrow> decimal \<Rightarrow> decimal \<Rightarrow> decimal \<Rightarrow> decimal option" where
  "slippage_cost M s notional_abs qty_abs adv =
     (let A = mm_arith M
      in do {
        participation \<leftarrow> (if adv > 0 then dec_div A qty_abs adv else Some 0);
        impact \<leftarrow> (if participation > 0
          then do { p \<leftarrow> mm_powd M participation (sl_impact_exponent s); dec_mul A (sl_impact_coeff s) p }
          else Some 0);
        fraction \<leftarrow> dec_add A (sl_half_spread s) impact;
        dec_mul A notional_abs fraction
      })"

record friction_config =
  fr_fees :: fee_schedule
  fr_slippage :: slippage_model
  fr_cost_multiplier :: decimal

definition with_multiplier :: "friction_config \<Rightarrow> decimal \<Rightarrow> friction_config" where
  "with_multiplier c m = c\<lparr>fr_cost_multiplier := m\<rparr>"

text \<open>The fee and the slippage of one fill, multiplied.\<close>

definition fill_fee :: "money_math \<Rightarrow> friction_config \<Rightarrow> decimal \<Rightarrow> liquidity \<Rightarrow> decimal option" where
  "fill_fee M c notional_abs l = Option.bind (fee M (fr_fees c) notional_abs l) (\<lambda>f. dec_mul (mm_arith M) f (fr_cost_multiplier c))"

definition fill_slippage :: "money_math \<Rightarrow> friction_config \<Rightarrow> decimal \<Rightarrow> decimal \<Rightarrow> decimal \<Rightarrow> decimal option" where
  "fill_slippage M c notional_abs qty_abs adv = do {
     a \<leftarrow> slippage_cost M (fr_slippage c) notional_abs qty_abs adv;
     b \<leftarrow> alpha_loss_cost M (fr_slippage c) notional_abs;
     s \<leftarrow> dec_add (mm_arith M) a b;
     dec_mul (mm_arith M) s (fr_cost_multiplier c)
   }"

section \<open>The average-cost position\<close>

record friction_fill =
  fi_side :: side
  fi_qty :: decimal
  fi_price :: decimal
  fi_adv :: decimal
  fi_liquidity :: liquidity

record funding_stamp =
  fg_rate :: decimal
  fg_mark_price :: decimal

datatype friction_event = Fill_Event friction_fill | Funding_Event funding_stamp

record avg_position =
  ap_qty :: decimal
  ap_avg_price :: decimal

definition avg_flat :: avg_position where "avg_flat = \<lparr>ap_qty = 0, ap_avg_price = 0\<rparr>"

fun signed_qty :: "side \<Rightarrow> decimal \<Rightarrow> decimal" where
  "signed_qty Buy qty = qty"
| "signed_qty Sell qty = - qty"

text \<open>\<open>is_sign_positive\<close> of the signed quantity: negating a zero leaves the sign bit set.\<close>

fun signed_positive :: "side \<Rightarrow> decimal \<Rightarrow> bool" where
  "signed_positive Buy qty \<longleftrightarrow> qty \<ge> 0"
| "signed_positive Sell qty \<longleftrightarrow> qty < 0"

definition avg_apply ::
  "dec_arith \<Rightarrow> avg_position \<Rightarrow> side \<Rightarrow> decimal \<Rightarrow> decimal \<Rightarrow> (decimal \<times> avg_position) option" where
  "avg_apply A p sd qty price =
     (let signed = signed_qty sd qty
      in if ap_qty p = 0 \<or> (ap_qty p > 0 \<longleftrightarrow> signed_positive sd qty)
         then do {
           new_qty \<leftarrow> dec_add A (ap_qty p) signed;
           held \<leftarrow> dec_mul A (ap_avg_price p) \<bar>ap_qty p\<bar>;
           added \<leftarrow> dec_mul A price qty;
           total \<leftarrow> dec_add A held added;
           avg \<leftarrow> dec_div A total \<bar>new_qty\<bar>;
           Some (0, \<lparr>ap_qty = new_qty, ap_avg_price = avg\<rparr>)
         }
         else do {
           moved \<leftarrow> dec_sub A price (ap_avg_price p);
           one_way \<leftarrow> dec_mul A (if ap_qty p > 0 then 1 else - 1) moved;
           realized \<leftarrow> dec_mul A one_way (min qty \<bar>ap_qty p\<bar>);
           remaining \<leftarrow> dec_add A (ap_qty p) signed;
           Some (realized,
             if remaining = 0 then avg_flat
             else if remaining > 0 \<longleftrightarrow> ap_qty p > 0 then p\<lparr>ap_qty := remaining\<rparr>
             else \<lparr>ap_qty = remaining, ap_avg_price = price\<rparr>)
         })"

section \<open>The decomposed profit and loss\<close>

record pnl_breakdown =
  pl_gross :: decimal
  pl_fees :: decimal
  pl_slippage :: decimal
  pl_funding :: decimal

definition pnl_zero :: pnl_breakdown where
  "pnl_zero = \<lparr>pl_gross = 0, pl_fees = 0, pl_slippage = 0, pl_funding = 0\<rparr>"

definition pnl_net :: "dec_arith \<Rightarrow> pnl_breakdown \<Rightarrow> decimal option" where
  "pnl_net A p = do {
     a \<leftarrow> dec_sub A (pl_gross p) (pl_fees p);
     b \<leftarrow> dec_sub A a (pl_slippage p);
     dec_add A b (pl_funding p)
   }"

fun simulate_step ::
  "money_math \<Rightarrow> friction_config \<Rightarrow> avg_position \<times> pnl_breakdown \<Rightarrow> friction_event \<Rightarrow> (avg_position \<times> pnl_breakdown) option" where
  "simulate_step M c (pos, pnl) (Fill_Event f) = (let A = mm_arith M in do {
     n \<leftarrow> dec_mul A (fi_qty f) (fi_price f);
     fees \<leftarrow> fill_fee M c \<bar>n\<bar> (fi_liquidity f);
     fees' \<leftarrow> dec_add A (pl_fees pnl) fees;
     slip \<leftarrow> fill_slippage M c \<bar>n\<bar> \<bar>fi_qty f\<bar> (fi_adv f);
     slip' \<leftarrow> dec_add A (pl_slippage pnl) slip;
     (realized, pos') \<leftarrow> avg_apply A pos (fi_side f) (fi_qty f) (fi_price f);
     gross' \<leftarrow> dec_add A (pl_gross pnl) realized;
     Some (pos', pnl\<lparr>pl_fees := fees', pl_slippage := slip', pl_gross := gross'\<rparr>)
   })"
| "simulate_step M c (pos, pnl) (Funding_Event s) = (let A = mm_arith M in do {
     n \<leftarrow> dec_mul A (- ap_qty pos) (fg_mark_price s);
     flow \<leftarrow> dec_mul A n (fg_rate s);
     funding' \<leftarrow> dec_add A (pl_funding pnl) flow;
     Some (pos, pnl\<lparr>pl_funding := funding'\<rparr>)
   })"

definition simulate :: "money_math \<Rightarrow> friction_event list \<Rightarrow> friction_config \<Rightarrow> pnl_breakdown option" where
  "simulate M events c = map_option snd (run_opt (simulate_step M c) (avg_flat, pnl_zero) events)"

definition cost_sweep ::
  "money_math \<Rightarrow> friction_event list \<Rightarrow> friction_config \<Rightarrow> decimal list \<Rightarrow> (decimal \<times> pnl_breakdown) list option" where
  "cost_sweep M events base multipliers =
     map_opt (\<lambda>m. map_option (Pair m) (simulate M events (with_multiplier base m))) multipliers"

end
