(* ===== verification/Fitness.thy ===== *)
theory Fitness imports Prelude begin

text \<open>
  Time-average fitness and its noise band (\<open>wfo/src/fitness.rs\<close>). The statistics are doubles: the record of
  operations is a parameter, with the logarithm, the square root, the exponential, the square and minus
  infinity beside the ones of the prelude.
\<close>

record 'f fit_ops =
  fo_base :: "'f f64_ops"
  fo_ln :: "'f \<Rightarrow> 'f"
  fo_exp :: "'f \<Rightarrow> 'f"
  fo_sqrt :: "'f \<Rightarrow> 'f"
  fo_powi2 :: "'f \<Rightarrow> 'f"
  fo_neg_infinity :: 'f

abbreviation fnum :: "'f fit_ops \<Rightarrow> int \<Rightarrow> 'f" where "fnum F \<equiv> fl_of_int (fo_base F)"
abbreviation fadd :: "'f fit_ops \<Rightarrow> 'f \<Rightarrow> 'f \<Rightarrow> 'f" where "fadd F \<equiv> fl_add (fo_base F)"
abbreviation fsub :: "'f fit_ops \<Rightarrow> 'f \<Rightarrow> 'f \<Rightarrow> 'f" where "fsub F \<equiv> fl_sub (fo_base F)"
abbreviation fmul :: "'f fit_ops \<Rightarrow> 'f \<Rightarrow> 'f \<Rightarrow> 'f" where "fmul F \<equiv> fl_mul (fo_base F)"
abbreviation fdiv :: "'f fit_ops \<Rightarrow> 'f \<Rightarrow> 'f \<Rightarrow> 'f" where "fdiv F \<equiv> fl_div (fo_base F)"
abbreviation fless :: "'f fit_ops \<Rightarrow> 'f \<Rightarrow> 'f \<Rightarrow> bool" where "fless F \<equiv> fl_less (fo_base F)"
abbreviation fle :: "'f fit_ops \<Rightarrow> 'f \<Rightarrow> 'f \<Rightarrow> bool" where "fle F \<equiv> fl_le (fo_base F)"
abbreviation ffinite :: "'f fit_ops \<Rightarrow> 'f \<Rightarrow> bool" where "ffinite F \<equiv> fl_is_finite (fo_base F)"

definition fsum :: "'f fit_ops \<Rightarrow> 'f list \<Rightarrow> 'f" where
  "fsum F xs = foldl (fadd F) (fnum F 0) xs"

text \<open>The loop of \<open>log_growth\<close>, which leaves at the first total loss.\<close>

fun log_sum :: "'f fit_ops \<Rightarrow> 'f \<Rightarrow> 'f list \<Rightarrow> 'f option" where
  "log_sum F acc [] = Some acc"
| "log_sum F acc (r # rs) =
     (let g = fadd F (fnum F 1) r
      in if fle F g (fnum F 0) then None else log_sum F (fadd F acc (fo_ln F g)) rs)"

definition log_growth :: "'f fit_ops \<Rightarrow> 'f list \<Rightarrow> 'f" where
  "log_growth F returns =
     (if returns = [] then fnum F 0
      else case log_sum F (fnum F 0) returns of
        None \<Rightarrow> fo_neg_infinity F
      | Some s \<Rightarrow> fdiv F s (fnum F (int (length returns))))"

fun drawdown_loop :: "'f fit_ops \<Rightarrow> 'f \<Rightarrow> 'f \<Rightarrow> 'f \<Rightarrow> 'f list \<Rightarrow> 'f" where
  "drawdown_loop F equity peak worst [] = worst"
| "drawdown_loop F equity peak worst (r # rs) =
     (let equity' = fmul F equity (fadd F (fnum F 1) r)
      in if fle F equity' (fnum F 0) then fnum F 1
         else let peak' = fl_max (fo_base F) peak equity';
                  dd = fsub F (fnum F 1) (fdiv F equity' peak')
              in drawdown_loop F equity' peak' (if fless F worst dd then dd else worst) rs)"

definition max_drawdown :: "'f fit_ops \<Rightarrow> 'f list \<Rightarrow> 'f" where
  "max_drawdown F returns =
     (if returns = [] then fnum F 0 else drawdown_loop F (fnum F 1) (fnum F 1) (fnum F 0) returns)"

definition geom_return :: "'f fit_ops \<Rightarrow> 'f list \<Rightarrow> 'f" where
  "geom_return F returns =
     (let g = log_growth F returns
      in if g = fo_neg_infinity F then fnum F (- 1) else fsub F (fo_exp F g) (fnum F 1))"

record 'f noise_robust_fitness =
  nf_mean :: 'f
  nf_std_error :: 'f
  nf_n :: usize

definition from_windows :: "'f fit_ops \<Rightarrow> 'f list list \<Rightarrow> 'f noise_robust_fitness" where
  "from_windows F ws =
     (let n = length ws
      in if n = 0 then \<lparr>nf_mean = fnum F 0, nf_std_error = fnum F 0, nf_n = 0\<rparr>
         else let growths = map (log_growth F) ws;
                  fn = fnum F (int n);
                  mean = fdiv F (fsum F growths) fn;
                  se = (if n < 2 \<or> \<not> ffinite F mean then fnum F 0
                        else let var = fdiv F (fsum F (map (\<lambda>g. fmul F (fsub F g mean) (fsub F g mean)) growths))
                                         (fsub F fn (fnum F 1))
                             in fo_sqrt F (fdiv F var fn))
              in \<lparr>nf_mean = mean, nf_std_error = se, nf_n = n\<rparr>)"

definition combined_se :: "'f fit_ops \<Rightarrow> 'f noise_robust_fitness \<Rightarrow> 'f noise_robust_fitness \<Rightarrow> 'f" where
  "combined_se F a b = fo_sqrt F (fadd F (fo_powi2 F (nf_std_error a)) (fo_powi2 F (nf_std_error b)))"

definition should_replace :: "'f fit_ops \<Rightarrow> 'f noise_robust_fitness \<Rightarrow> 'f noise_robust_fitness \<Rightarrow> 'f \<Rightarrow> bool" where
  "should_replace F incumbent challenger k_sigma =
     (if \<not> ffinite F (nf_mean challenger) then False
      else if \<not> ffinite F (nf_mean incumbent) then True
      else fless F (fmul F k_sigma (combined_se F incumbent challenger)) (fsub F (nf_mean challenger) (nf_mean incumbent)))"

definition within_noise_band :: "'f fit_ops \<Rightarrow> 'f noise_robust_fitness \<Rightarrow> 'f noise_robust_fitness \<Rightarrow> 'f \<Rightarrow> bool" where
  "within_noise_band F a b k_sigma =
     (if \<not> ffinite F (nf_mean a) \<or> \<not> ffinite F (nf_mean b) then False
      else fle F (fl_abs (fo_base F) (fsub F (nf_mean a) (nf_mean b))) (fmul F k_sigma (combined_se F a b)))"

definition should_replace_parsimonious ::
  "'f fit_ops \<Rightarrow> 'f noise_robust_fitness \<Rightarrow> 'f noise_robust_fitness \<Rightarrow> u32 \<Rightarrow> u32 \<Rightarrow> 'f \<Rightarrow> bool" where
  "should_replace_parsimonious F incumbent challenger inc_complexity chal_complexity k_sigma =
     (if should_replace F incumbent challenger k_sigma then True
      else if within_noise_band F incumbent challenger k_sigma then chal_complexity < inc_complexity
      else False)"

end
