(* ===== verification/Backtest.thy ===== *)
theory Backtest imports Friction Fitness Genome begin

text \<open>
  The backtester (\<open>wfo/src/backtest.rs\<close>, with the shock set of \<open>risk/src/shocks.rs\<close>): a genome walked over a
  bar series. A decision taken at a bar's close is an order that the next bar fills; costs and funding hit a
  cash and mark ledger of decimals; every bar's net return is recorded, and the series is summarised as
  fitness. Decimal arithmetic may panic, so a run is an option. The random generator, the conversion to
  doubles and the package's rounding to an integer are parameters.
\<close>

section \<open>Configuration\<close>

record backtest_bar =
  bb_features :: feature_vector
  bb_price :: decimal
  bb_volume :: decimal
  bb_funding_rate :: "decimal option"

record symbol_filter =
  sf_step_size :: decimal
  sf_tick_size :: decimal
  sf_min_notional :: decimal

record shock_config =
  sk_seed :: u64
  sk_frequency_per_million :: u32
  sk_gap_adverse_return :: decimal
  sk_funding_per_period :: decimal
  sk_funding_periods :: u32
  sk_adl_haircut :: decimal

record backtest_config =
  bc_friction :: friction_config
  bc_min_trades :: usize
  bc_windows :: usize
  bc_shocks :: "shock_config option"
  bc_graded :: bool
  bc_symbol_filter :: "symbol_filter option"

record ('f, 'r) backtest_env =
  be_money :: money_math
  be_round :: "decimal \<Rightarrow> decimal"
  be_to_f64 :: "decimal \<Rightarrow> 'f option"
  be_fit :: "'f fit_ops"
  be_seed_rng :: "u64 \<Rightarrow> 'r"
  be_next_u64 :: "'r \<Rightarrow> u64 \<times> 'r"

abbreviation be_arith :: "('f, 'r) backtest_env \<Rightarrow> dec_arith" where "be_arith E \<equiv> mm_arith (be_money E)"

definition default_min_trades :: usize where "default_min_trades = 10"
definition default_windows :: usize where "default_windows = 4"
definition default_adv_window :: usize where "default_adv_window = 24"

section \<open>Symbol filters\<close>

definition quantize_price :: "('f, 'r) backtest_env \<Rightarrow> symbol_filter \<Rightarrow> decimal \<Rightarrow> decimal option" where
  "quantize_price E f price =
     (if sf_tick_size f > 0
      then Option.bind (dec_div (be_arith E) price (sf_tick_size f)) (\<lambda>q. dec_mul (be_arith E) (be_round E q) (sf_tick_size f))
      else Some price)"

definition quantize_qty :: "('f, 'r) backtest_env \<Rightarrow> symbol_filter \<Rightarrow> decimal \<Rightarrow> decimal option" where
  "quantize_qty E f qty =
     (if sf_step_size f > 0
      then Option.bind (dec_div (be_arith E) qty (sf_step_size f)) (\<lambda>q. dec_mul (be_arith E) (of_int \<lfloor>q\<rfloor>) (sf_step_size f))
      else Some qty)"

definition clears_min_notional :: "('f, 'r) backtest_env \<Rightarrow> symbol_filter \<Rightarrow> decimal \<Rightarrow> decimal \<Rightarrow> bool option" where
  "clears_min_notional E f price qty = map_option (\<lambda>n. \<bar>n\<bar> \<ge> sf_min_notional f) (dec_mul (be_arith E) price qty)"

definition quantize_fill :: "('f, 'r) backtest_env \<Rightarrow> backtest_config \<Rightarrow> decimal \<Rightarrow> decimal \<Rightarrow> (decimal \<times> decimal) option" where
  "quantize_fill E cfg price qty =
     (case bc_symbol_filter cfg of
        None \<Rightarrow> Some (price, qty)
      | Some f \<Rightarrow> do { p \<leftarrow> quantize_price E f price; q \<leftarrow> quantize_qty E f qty; Some (p, q) })"

definition fill_ok :: "('f, 'r) backtest_env \<Rightarrow> backtest_config \<Rightarrow> decimal \<Rightarrow> decimal \<Rightarrow> bool \<Rightarrow> bool option" where
  "fill_ok E cfg price qty enforce_min_notional =
     (if \<not> qty > 0 then Some False
      else case bc_symbol_filter cfg of
        Some f \<Rightarrow> if enforce_min_notional then clears_min_notional E f price qty else Some True
      | None \<Rightarrow> Some True)"

section \<open>Shocks\<close>

definition fires :: "shock_config \<Rightarrow> u64 \<Rightarrow> bool" where
  "fires s roll \<longleftrightarrow> roll mod 1000000 < sk_frequency_per_million s"

definition adverse_fraction :: "dec_arith \<Rightarrow> shock_config \<Rightarrow> u64 \<Rightarrow> decimal option" where
  "adverse_fraction A s shape_roll =
     (if shape_roll mod 3 = 0 then Some (sk_gap_adverse_return s)
      else if shape_roll mod 3 = 1 then dec_mul A (sk_funding_per_period s) (of_nat (sk_funding_periods s))
      else Some (sk_adl_haircut s))"

section \<open>The ledger and the recorder\<close>

datatype pending = Pending_Enter direction decimal | Pending_Close

record 'f trade_fill =
  tf_entry_idx :: usize
  tf_exit_idx :: usize
  tf_side :: direction
  tf_entry_px :: decimal
  tf_exit_px :: decimal
  tf_return_frac :: 'f

record ('f, 'r) bt_state =
  bs_cash :: decimal
  bs_pos_qty :: decimal
  bs_equity_prev :: decimal
  bs_entry_bar :: "usize option"
  bs_pending :: "pending option"
  bs_returns :: "'f list"
  bs_trades :: usize
  bs_funding :: decimal
  bs_open :: "(usize \<times> direction \<times> decimal) option"
  bs_fills :: "'f trade_fill list"
  bs_adv_window :: "decimal list"
  bs_adv_sum :: decimal
  bs_rng :: "'r option"
  bs_index :: usize

definition bt_start :: "('f, 'r) backtest_env \<Rightarrow> backtest_config \<Rightarrow> ('f, 'r) bt_state" where
  "bt_start E cfg = \<lparr>bs_cash = 1, bs_pos_qty = 0, bs_equity_prev = 1, bs_entry_bar = None, bs_pending = None,
     bs_returns = [], bs_trades = 0, bs_funding = 0, bs_open = None, bs_fills = [], bs_adv_window = [],
     bs_adv_sum = 0, bs_rng = map_option (\<lambda>s. be_seed_rng E (sk_seed s)) (bc_shocks cfg), bs_index = 0\<rparr>"

text \<open>One fill on the ledger: cash moves by the signed notional and the costs, the position by the quantity.\<close>

definition apply_fill ::
  "('f, 'r) backtest_env \<Rightarrow> backtest_config \<Rightarrow> side \<Rightarrow> decimal \<Rightarrow> decimal \<Rightarrow> decimal \<Rightarrow> decimal \<Rightarrow> decimal
   \<Rightarrow> (decimal \<times> decimal) option" where
  "apply_fill E cfg sd qty price adv cash pos_qty =
     (let A = be_arith E in do {
        n \<leftarrow> dec_mul A qty price;
        charged \<leftarrow> fill_fee (be_money E) (bc_friction cfg) \<bar>n\<bar> Taker;
        slip \<leftarrow> fill_slippage (be_money E) (bc_friction cfg) \<bar>n\<bar> \<bar>qty\<bar> adv;
        moved \<leftarrow> dec_mul A (signed_qty sd qty) price;
        cash1 \<leftarrow> dec_sub A cash moved;
        costs \<leftarrow> dec_add A charged slip;
        cash2 \<leftarrow> dec_sub A cash1 costs;
        pos2 \<leftarrow> dec_add A pos_qty (signed_qty sd qty);
        Some (cash2, pos2)
      })"

text \<open>The trailing mean volume, this bar's included.\<close>

definition roll_adv :: "('f, 'r) backtest_env \<Rightarrow> decimal \<Rightarrow> ('f, 'r) bt_state \<Rightarrow> (decimal \<times> ('f, 'r) bt_state) option" where
  "roll_adv E volume s = (let A = be_arith E in do {
     (win, total) \<leftarrow> (if length (bs_adv_window s) = default_adv_window
       then map_option (Pair (tl (bs_adv_window s))) (dec_sub A (bs_adv_sum s) (hd (bs_adv_window s)))
       else Some (bs_adv_window s, bs_adv_sum s));
     total' \<leftarrow> dec_add A total volume;
     adv \<leftarrow> dec_div A total' (of_nat (length (win @ [volume])));
     Some (adv, s\<lparr>bs_adv_window := win @ [volume], bs_adv_sum := total'\<rparr>)
   })"

definition execute_enter ::
  "('f, 'r) backtest_env \<Rightarrow> backtest_config \<Rightarrow> decimal \<Rightarrow> decimal \<Rightarrow> decimal \<Rightarrow> direction \<Rightarrow> decimal \<Rightarrow> ('f, 'r) bt_state
   \<Rightarrow> ('f, 'r) bt_state option" where
  "execute_enter E cfg size_frac price adv dir strength s = (let A = be_arith E in do {
     sized \<leftarrow> dec_mul A size_frac strength;
     notional \<leftarrow> dec_mul A sized (bs_equity_prev s);
     raw \<leftarrow> dec_div A notional price;
     (fill_price, qty) \<leftarrow> quantize_fill E cfg price raw;
     ok \<leftarrow> fill_ok E cfg fill_price qty True;
     if \<not> ok then Some s
     else do {
       (cash, pos) \<leftarrow> apply_fill E cfg (case dir of Long \<Rightarrow> Buy | Short \<Rightarrow> Sell) qty fill_price adv (bs_cash s) (bs_pos_qty s);
       Some (s\<lparr>bs_cash := cash, bs_pos_qty := pos, bs_entry_bar := Some (bs_index s), bs_trades := bs_trades s + 1,
         bs_open := Some (bs_index s, dir, fill_price)\<rparr>)
     }
   })"

definition trade_return :: "('f, 'r) backtest_env \<Rightarrow> direction \<Rightarrow> decimal \<Rightarrow> decimal \<Rightarrow> 'f option" where
  "trade_return E dir entry_px exit_px = (let A = be_arith E in do {
     d \<leftarrow> (case dir of Long \<Rightarrow> dec_sub A exit_px entry_px | Short \<Rightarrow> dec_sub A entry_px exit_px);
     q \<leftarrow> dec_div A d entry_px;
     Some (case be_to_f64 E q of Some x \<Rightarrow> x | None \<Rightarrow> fnum (be_fit E) 0)
   })"

definition execute_close ::
  "('f, 'r) backtest_env \<Rightarrow> backtest_config \<Rightarrow> decimal \<Rightarrow> decimal \<Rightarrow> ('f, 'r) bt_state \<Rightarrow> ('f, 'r) bt_state option" where
  "execute_close E cfg price adv s = do {
     (fill_price, qty) \<leftarrow> quantize_fill E cfg price \<bar>bs_pos_qty s\<bar>;
     ok \<leftarrow> fill_ok E cfg fill_price qty False;
     if \<not> ok then Some s
     else do {
       (cash, pos) \<leftarrow> apply_fill E cfg (if bs_pos_qty s > 0 then Sell else Buy) qty fill_price adv (bs_cash s) (bs_pos_qty s);
       let s1 = s\<lparr>bs_cash := cash, bs_pos_qty := pos, bs_entry_bar := None\<rparr>;
       case bs_open s of
         None \<Rightarrow> Some s1
       | Some (entry_idx, dir, entry_px) \<Rightarrow> do {
           r \<leftarrow> trade_return E dir entry_px fill_price;
           Some (s1\<lparr>bs_open := None,
             bs_fills := bs_fills s @ [\<lparr>tf_entry_idx = entry_idx, tf_exit_idx = bs_index s, tf_side = dir,
               tf_entry_px = entry_px, tf_exit_px = fill_price, tf_return_frac = r\<rparr>]\<rparr>)
         }
     }
   }"

text \<open>The order of the bar before, if the price is positive; it is taken either way.\<close>

definition execute_pending ::
  "('f, 'r) backtest_env \<Rightarrow> backtest_config \<Rightarrow> decimal \<Rightarrow> decimal \<Rightarrow> decimal \<Rightarrow> ('f, 'r) bt_state \<Rightarrow> ('f, 'r) bt_state option" where
  "execute_pending E cfg size_frac price adv s =
     (let s' = s\<lparr>bs_pending := None\<rparr>
      in case bs_pending s of
        None \<Rightarrow> Some s'
      | Some order \<Rightarrow>
          if price > 0
          then (case order of
            Pending_Enter dir strength \<Rightarrow> execute_enter E cfg size_frac price adv dir strength s'
          | Pending_Close \<Rightarrow> execute_close E cfg price adv s')
          else Some s')"

definition accrue_funding :: "('f, 'r) backtest_env \<Rightarrow> decimal \<Rightarrow> decimal option \<Rightarrow> ('f, 'r) bt_state \<Rightarrow> ('f, 'r) bt_state option" where
  "accrue_funding E price rate s =
     (case rate of
        None \<Rightarrow> Some s
      | Some r \<Rightarrow> (let A = be_arith E in do {
          n \<leftarrow> dec_mul A (- bs_pos_qty s) price;
          flow \<leftarrow> dec_mul A n r;
          cash \<leftarrow> dec_add A (bs_cash s) flow;
          funding \<leftarrow> dec_add A (bs_funding s) flow;
          Some (s\<lparr>bs_cash := cash, bs_funding := funding\<rparr>)
        }))"

text \<open>Two rolls a bar, drawn whether or not a position is held.\<close>

definition inject_shock ::
  "('f, 'r) backtest_env \<Rightarrow> backtest_config \<Rightarrow> decimal \<Rightarrow> ('f, 'r) bt_state \<Rightarrow> ('f, 'r) bt_state option" where
  "inject_shock E cfg price s =
     (case (bc_shocks cfg, bs_rng s) of
        (Some shock, Some g) \<Rightarrow>
          (let (fire_roll, g1) = be_next_u64 E g; (shape_roll, g2) = be_next_u64 E g1; A = be_arith E; s' = s\<lparr>bs_rng := Some g2\<rparr>
           in if fires shock fire_roll \<and> bs_pos_qty s \<noteq> 0
              then do {
                n \<leftarrow> dec_mul A (bs_pos_qty s) price;
                e \<leftarrow> adverse_fraction A shock shape_roll;
                loss \<leftarrow> dec_mul A \<bar>n\<bar> e;
                cash \<leftarrow> dec_sub A (bs_cash s) loss;
                Some (s'\<lparr>bs_cash := cash\<rparr>)
              }
              else Some s')
      | _ \<Rightarrow> Some s)"

definition mark_bar :: "('f, 'r) backtest_env \<Rightarrow> decimal \<Rightarrow> ('f, 'r) bt_state \<Rightarrow> ('f, 'r) bt_state option" where
  "mark_bar E price s = (let A = be_arith E in do {
     held \<leftarrow> dec_mul A (bs_pos_qty s) price;
     equity \<leftarrow> dec_add A (bs_cash s) held;
     returns \<leftarrow> (if bs_index s > 0
       then (if bs_equity_prev s = 0 then Some (bs_returns s @ [fnum (be_fit E) (- 1)])
         else do {
           q \<leftarrow> dec_div A equity (bs_equity_prev s);
           r \<leftarrow> dec_sub A q 1;
           Some (bs_returns s @ [case be_to_f64 E r of Some x \<Rightarrow> x | None \<Rightarrow> fnum (be_fit E) 0])
         })
       else Some (bs_returns s));
     Some (s\<lparr>bs_returns := returns, bs_equity_prev := equity\<rparr>)
   })"

definition bt_position :: "('f, 'r) bt_state \<Rightarrow> position_state" where
  "bt_position s =
     (case bs_entry_bar s of
        Some j \<Rightarrow>
          if bs_pos_qty s > 0 then position_held Long ((bs_index s - j) mod 65536)
          else if bs_pos_qty s < 0 then position_held Short ((bs_index s - j) mod 65536)
          else position_flat
      | None \<Rightarrow> position_flat)"

definition schedule ::
  "('f, 'r) backtest_env \<Rightarrow> backtest_config \<Rightarrow> genome \<Rightarrow> feature_vector \<Rightarrow> ('f, 'r) bt_state \<Rightarrow> ('f, 'r) bt_state option" where
  "schedule E cfg g v s =
     (case genome_decide g v (bt_position s) of
        Enter dir \<Rightarrow>
          map_option (\<lambda>strength. s\<lparr>bs_pending := Some (Pending_Enter dir strength)\<rparr>)
            (if bc_graded cfg then entry_strength (be_arith E) g v dir else Some 1)
      | Exit \<Rightarrow> Some (s\<lparr>bs_pending := Some Pending_Close\<rparr>)
      | Hold \<Rightarrow> Some (s\<lparr>bs_pending := None\<rparr>))"

text \<open>Everything of a bar before its decision: fills, funding, shock, mark.\<close>

definition settle_bar ::
  "('f, 'r) backtest_env \<Rightarrow> backtest_config \<Rightarrow> decimal \<Rightarrow> decimal \<Rightarrow> decimal \<Rightarrow> decimal option \<Rightarrow> ('f, 'r) bt_state
   \<Rightarrow> ('f, 'r) bt_state option" where
  "settle_bar E cfg size_frac price volume rate s = do {
     (adv, s1) \<leftarrow> roll_adv E volume s;
     s2 \<leftarrow> execute_pending E cfg size_frac price adv s1;
     s3 \<leftarrow> accrue_funding E price rate s2;
     s4 \<leftarrow> inject_shock E cfg price s3;
     mark_bar E price s4
   }"

definition bar_step ::
  "('f, 'r) backtest_env \<Rightarrow> backtest_config \<Rightarrow> genome \<Rightarrow> decimal \<Rightarrow> ('f, 'r) bt_state \<Rightarrow> backtest_bar \<Rightarrow> ('f, 'r) bt_state option" where
  "bar_step E cfg g size_frac s b = do {
     s' \<leftarrow> settle_bar E cfg size_frac (bb_price b) (bb_volume b) (bb_funding_rate b) s;
     s'' \<leftarrow> schedule E cfg g (bb_features b) s';
     Some (s''\<lparr>bs_index := bs_index s'' + 1\<rparr>)
   }"

section \<open>The result\<close>

record 'f backtest_result =
  br_returns :: "'f list"
  br_trades :: usize
  br_net_pnl :: decimal
  br_funding :: decimal
  br_accepted :: bool
  br_fitness :: "'f noise_robust_fitness"

text \<open>Window \<open>w\<close> of the split holds one return more while \<open>w\<close> is below the remainder.\<close>

fun split_from :: "usize \<Rightarrow> usize \<Rightarrow> usize \<Rightarrow> usize \<Rightarrow> 'a list \<Rightarrow> 'a list list" where
  "split_from base rem w 0 xs = []"
| "split_from base rem w (Suc left) xs =
     (let size = base + (if w < rem then 1 else 0)
      in (if size = 0 then [] else [take size xs]) @ split_from base rem (w + 1) left (drop size xs))"

definition split_windows :: "'a list \<Rightarrow> usize \<Rightarrow> 'a list list" where
  "split_windows returns k =
     (if returns = [] then []
      else let m = min (max k 1) (length returns)
           in split_from (length returns div m) (length returns mod m) 0 m returns)"

definition bt_finish :: "('f, 'r) backtest_env \<Rightarrow> backtest_config \<Rightarrow> ('f, 'r) bt_state \<Rightarrow> 'f backtest_result option" where
  "bt_finish E cfg s = do {
     net \<leftarrow> dec_sub (be_arith E) (bs_equity_prev s) 1;
     let accepted = bs_trades s \<ge> bc_min_trades cfg \<and> bs_returns s \<noteq> [];
     Some \<lparr>br_returns = bs_returns s, br_trades = bs_trades s, br_net_pnl = net, br_funding = bs_funding s,
       br_accepted = accepted,
       br_fitness = (if accepted then from_windows (be_fit E) (split_windows (bs_returns s) (bc_windows cfg))
         else \<lparr>nf_mean = fo_neg_infinity (be_fit E), nf_std_error = fnum (be_fit E) 0, nf_n = length (bs_returns s)\<rparr>)\<rparr>
   }"

definition size_fraction :: "('f, 'r) backtest_env \<Rightarrow> genome \<Rightarrow> decimal option" where
  "size_fraction E g = dec_div (be_arith E) (of_nat (risk_size_bps (gn_risk g))) 10000"

definition bt_run :: "('f, 'r) backtest_env \<Rightarrow> genome \<Rightarrow> backtest_bar list \<Rightarrow> backtest_config \<Rightarrow> ('f, 'r) bt_state option" where
  "bt_run E g bars cfg =
     Option.bind (size_fraction E g) (\<lambda>size_frac. run_opt (bar_step E cfg g size_frac) (bt_start E cfg) bars)"

definition backtest_with_trades ::
  "('f, 'r) backtest_env \<Rightarrow> genome \<Rightarrow> backtest_bar list \<Rightarrow> backtest_config \<Rightarrow> ('f backtest_result \<times> 'f trade_fill list) option" where
  "backtest_with_trades E g bars cfg =
     Option.bind (bt_run E g bars cfg) (\<lambda>s. map_option (\<lambda>r. (r, bs_fills s)) (bt_finish E cfg s))"

definition backtest :: "('f, 'r) backtest_env \<Rightarrow> genome \<Rightarrow> backtest_bar list \<Rightarrow> backtest_config \<Rightarrow> 'f backtest_result option" where
  "backtest E g bars cfg = map_option fst (backtest_with_trades E g bars cfg)"

section \<open>The selection fitness\<close>

text \<open>
  A genome over disjoint test ranges, each from a flat start (\<open>wfo/src/cv_fitness.rs\<close>). A range past the
  series panics on its slice.
\<close>

definition bar_slice :: "'a list \<Rightarrow> nat \<times> nat \<Rightarrow> 'a list option" where
  "bar_slice xs r = (if fst r \<le> snd r \<and> snd r \<le> length xs then Some (take (snd r - fst r) (drop (fst r) xs)) else None)"

definition fold_isolation_fitness ::
  "('f, 'r) backtest_env \<Rightarrow> genome \<Rightarrow> backtest_bar list \<Rightarrow> (nat \<times> nat) list \<Rightarrow> backtest_config \<Rightarrow> 'f noise_robust_fitness option" where
  "fold_isolation_fitness E g bars test_ranges cfg =
     map_option (from_windows (be_fit E))
       (map_opt (\<lambda>r. Option.bind (bar_slice bars r) (\<lambda>w. map_option br_returns (backtest E g w cfg))) test_ranges)"

end
