(* ===== verification/Backtest_Facts.thy ===== *)
theory Backtest_Facts imports Backtest begin

text \<open>
  What the backtester guarantees: the ledger and the trade recorder stay in step, a decision acts one bar
  later and never earlier, the return series splits into its windows without loss, and the decisions are the
  ones the live session takes on the same features.
\<close>

section \<open>What each phase changes\<close>

definition book :: "('f, 'r) bt_state \<Rightarrow>
    (usize \<times> direction \<times> decimal) option \<times> decimal \<times> usize option \<times> 'f trade_fill list \<times> usize \<times> pending option \<times> usize" where
  "book s = (bs_open s, bs_pos_qty s, bs_entry_bar s, bs_fills s, bs_trades s, bs_pending s, bs_index s)"

lemma roll_adv_frame: "roll_adv E v s = Some (adv, s') \<Longrightarrow> book s' = book s \<and> bs_returns s' = bs_returns s"
  by (auto simp: book_def roll_adv_def Let_def bind_eq_Some_conv split: if_splits)

lemma accrue_funding_frame: "accrue_funding E p r s = Some s' \<Longrightarrow> book s' = book s \<and> bs_returns s' = bs_returns s"
  by (cases r) (auto simp: book_def accrue_funding_def Let_def bind_eq_Some_conv)

lemma inject_shock_frame: "inject_shock E cfg p s = Some s' \<Longrightarrow> book s' = book s \<and> bs_returns s' = bs_returns s"
  by (cases "bc_shocks cfg"; cases "bs_rng s")
    (auto simp: book_def inject_shock_def Let_def bind_eq_Some_conv split_beta split: if_splits)

lemma mark_bar_frame:
  assumes "mark_bar E p s = Some s'"
  shows "book s' = book s"
    "\<exists>xs. bs_returns s' = bs_returns s @ xs \<and> length xs = (if bs_index s > 0 then 1 else 0)"
  using assms by (cases "bs_index s = 0"; cases "bs_equity_prev s = 0";
    auto simp: book_def mark_bar_def Let_def bind_eq_Some_conv)+

text \<open>Entering from flat and closing out do not round, whatever the package does with other sums.\<close>

lemma apply_fill_position:
  assumes "dec_rounded (be_arith E)" "apply_fill E cfg sd qty price adv cash pos = Some (cash', pos')"
  shows "pos = 0 \<Longrightarrow> pos' = signed_qty sd qty" "pos + signed_qty sd qty = 0 \<Longrightarrow> pos' = 0"
  using assms by (auto simp: apply_fill_def Let_def bind_eq_Some_conv dest: dec_add_zero dec_add_opposite)

section \<open>The ledger and the recorder in step\<close>

text \<open>
  What a run relies on when an exchange filter is set: flooring a quantity that was floored to the lot
  before changes nothing. It holds of the package's arithmetic as long as a whole number of lots is within
  its precision, and needs nothing without a filter.
\<close>

definition lots_stable :: "('f, 'r) backtest_env \<Rightarrow> backtest_config \<Rightarrow> bool" where
  "lots_stable E cfg \<longleftrightarrow>
     (\<forall>f x q q'. bc_symbol_filter cfg = Some f \<longrightarrow> quantize_qty E f x = Some q \<longrightarrow>
        quantize_qty E f q = Some q' \<longrightarrow> q' = q)"

definition on_lot :: "('f, 'r) backtest_env \<Rightarrow> backtest_config \<Rightarrow> decimal \<Rightarrow> bool" where
  "on_lot E cfg q \<longleftrightarrow> (\<forall>price p' q'. quantize_fill E cfg price q = Some (p', q') \<longrightarrow> q' = q)"

lemma quantized_on_lot:
  assumes "lots_stable E cfg" "quantize_fill E cfg price x = Some (p, q)"
  shows "on_lot E cfg q"
  using assms unfolding lots_stable_def on_lot_def
  by (cases "bc_symbol_filter cfg") (auto simp: quantize_fill_def bind_eq_Some_conv)

fun dir_sign :: "direction \<Rightarrow> decimal \<Rightarrow> bool" where
  "dir_sign Long q \<longleftrightarrow> q > 0"
| "dir_sign Short q \<longleftrightarrow> q < 0"

text \<open>Flat: nothing held, nothing open. Held: one open entry, on the side of the position.\<close>

definition ledger_ok :: "('f, 'r) backtest_env \<Rightarrow> backtest_config \<Rightarrow> ('f, 'r) bt_state \<Rightarrow> bool" where
  "ledger_ok E cfg s \<longleftrightarrow>
     (case bs_open s of
        None \<Rightarrow> bs_pos_qty s = 0 \<and> bs_entry_bar s = None \<and> bs_trades s = length (bs_fills s)
      | Some (j, d, px) \<Rightarrow> dir_sign d (bs_pos_qty s) \<and> on_lot E cfg \<bar>bs_pos_qty s\<bar> \<and> bs_entry_bar s = Some j \<and>
          bs_trades s = length (bs_fills s) + 1)"

text \<open>An entry is scheduled only when flat and a close only when held.\<close>

definition pending_ok :: "('f, 'r) bt_state \<Rightarrow> bool" where
  "pending_ok s \<longleftrightarrow>
     (case bs_pending s of
        None \<Rightarrow> True
      | Some (Pending_Enter d st) \<Rightarrow> bs_open s = None
      | Some Pending_Close \<Rightarrow> bs_open s \<noteq> None)"

text \<open>The closed round trips are in order and do not overlap; an open one starts after them.\<close>

definition trips_ok :: "('f, 'r) bt_state \<Rightarrow> bool" where
  "trips_ok s \<longleftrightarrow>
     sorted_wrt (\<lambda>a b. tf_exit_idx a < tf_entry_idx b) (bs_fills s) \<and>
     list_all (\<lambda>f. tf_entry_idx f < tf_exit_idx f \<and> tf_exit_idx f < bs_index s) (bs_fills s) \<and>
     (case bs_open s of None \<Rightarrow> True
      | Some (j, d, px) \<Rightarrow> j < bs_index s \<and> list_all (\<lambda>f. tf_exit_idx f < j) (bs_fills s))"

lemma fill_okD: "fill_ok E cfg p q b = Some True \<Longrightarrow> 0 < q"
  by (simp add: fill_ok_def split: if_splits)

lemma dir_sign_side: "0 < q \<Longrightarrow> dir_sign d (signed_qty (case d of Long \<Rightarrow> Buy | Short \<Rightarrow> Sell) q)"
  by (cases d) simp_all

lemma execute_enter_cases:
  assumes "dec_rounded (be_arith E)" "execute_enter E cfg sf price adv dir st s = Some s'" "bs_pos_qty s = 0"
  shows "s' = s \<or>
     (\<exists>cash q px raw. s' = s\<lparr>bs_cash := cash, bs_pos_qty := signed_qty (case dir of Long \<Rightarrow> Buy | Short \<Rightarrow> Sell) q,
         bs_entry_bar := Some (bs_index s), bs_trades := bs_trades s + 1, bs_open := Some (bs_index s, dir, px)\<rparr> \<and>
       0 < q \<and> quantize_fill E cfg price raw = Some (px, q))"
  using assms
  by (force simp: execute_enter_def Let_def bind_eq_Some_conv split: if_splits prod.splits
      dest: apply_fill_position(1) fill_okD)

lemma execute_close_held:
  assumes "dec_rounded (be_arith E)" "execute_close E cfg price adv s = Some s'"
    and "ledger_ok E cfg s" "bs_open s = Some (j, d, px)"
  shows "\<exists>cash x r. s' = s\<lparr>bs_cash := cash, bs_pos_qty := 0, bs_entry_bar := None, bs_open := None,
     bs_fills := bs_fills s @ [\<lparr>tf_entry_idx = j, tf_exit_idx = bs_index s, tf_side = d, tf_entry_px = px, tf_exit_px = x,
       tf_return_frac = r\<rparr>]\<rparr>"
proof -
  from assms(3,4) have held: "dir_sign d (bs_pos_qty s)" "on_lot E cfg \<bar>bs_pos_qty s\<bar>"
    by (simp_all add: ledger_ok_def)
  then have ne: "0 < \<bar>bs_pos_qty s\<bar>" by (cases d) auto
  obtain x q ok where q: "quantize_fill E cfg price \<bar>bs_pos_qty s\<bar> = Some (x, q)" "fill_ok E cfg x q False = Some ok"
    using assms(2) by (auto simp: execute_close_def bind_eq_Some_conv)
  have same: "q = \<bar>bs_pos_qty s\<bar>" using held(2) q(1) unfolding on_lot_def by blast
  have ok using q(2) ne same by (auto simp: fill_ok_def split: option.splits)
  have sum: "bs_pos_qty s + signed_qty (if bs_pos_qty s > 0 then Sell else Buy) q = 0"
    using ne by (auto simp: same)
  show ?thesis
    using assms(2) q \<open>ok\<close> apply_fill_position(2) [OF assms(1)] sum assms(4)
    by (force simp: execute_close_def bind_eq_Some_conv Let_def)
qed

lemma ledger_ok_pending [simp]: "ledger_ok E cfg (s\<lparr>bs_pending := x\<rparr>) = ledger_ok E cfg s"
  by (cases "bs_open s") (auto simp: ledger_ok_def)

text \<open>What filling the pending order leaves, for a state in step.\<close>

definition filled_or_kept :: "('f, 'r) backtest_env \<Rightarrow> backtest_config \<Rightarrow> ('f, 'r) bt_state \<Rightarrow> ('f, 'r) bt_state \<Rightarrow> bool" where
  "filled_or_kept E cfg s s' \<longleftrightarrow>
     bs_pending s' = None \<and> bs_index s' = bs_index s \<and> ledger_ok E cfg s' \<and>
     ((bs_open s' = bs_open s \<and> bs_pos_qty s' = bs_pos_qty s \<and> bs_entry_bar s' = bs_entry_bar s \<and>
         bs_fills s' = bs_fills s \<and> bs_trades s' = bs_trades s) \<or>
      (\<exists>d st px. bs_pending s = Some (Pending_Enter d st) \<and> bs_open s = None \<and> bs_open s' = Some (bs_index s, d, px) \<and>
         bs_fills s' = bs_fills s \<and> bs_trades s' = bs_trades s + 1) \<or>
      (\<exists>j d px x r. bs_pending s = Some Pending_Close \<and> bs_open s = Some (j, d, px) \<and> bs_open s' = None \<and>
         bs_trades s' = bs_trades s \<and>
         bs_fills s' = bs_fills s @ [\<lparr>tf_entry_idx = j, tf_exit_idx = bs_index s, tf_side = d, tf_entry_px = px,
           tf_exit_px = x, tf_return_frac = r\<rparr>]))"

lemma execute_pending_ok:
  assumes "dec_rounded (be_arith E)" "lots_stable E cfg" "ledger_ok E cfg s" "pending_ok s"
    and "execute_pending E cfg sf price adv s = Some s'"
  shows "filled_or_kept E cfg s s'"
proof (cases "bs_pending s")
  case None
  then show ?thesis using assms by (auto simp: execute_pending_def filled_or_kept_def)
next
  case (Some order)
  let ?s = "s\<lparr>bs_pending := None\<rparr>"
  show ?thesis
  proof (cases "price > 0")
    case False
    then show ?thesis using assms Some by (auto simp: execute_pending_def filled_or_kept_def)
  next
    case True
    show ?thesis
    proof (cases order)
      case (Pending_Enter d st)
      then have flat: "bs_open s = None" "bs_pos_qty s = 0" "bs_trades s = length (bs_fills s)"
        using assms(3,4) Some by (auto simp: pending_ok_def ledger_ok_def)
      have run: "execute_enter E cfg sf price adv d st ?s = Some s'"
        using assms(5) Some True Pending_Enter by (simp add: execute_pending_def)
      show ?thesis
      proof (cases "s' = ?s")
        case True
        then show ?thesis using assms(3) by (auto simp: filled_or_kept_def)
      next
        case False
        then obtain cash q px raw where s': "s' = ?s\<lparr>bs_cash := cash,
            bs_pos_qty := signed_qty (case d of Long \<Rightarrow> Buy | Short \<Rightarrow> Sell) q,
            bs_entry_bar := Some (bs_index s), bs_trades := bs_trades s + 1, bs_open := Some (bs_index s, d, px)\<rparr>"
          and q: "0 < q" "quantize_fill E cfg price raw = Some (px, q)"
          using execute_enter_cases [OF assms(1) run] flat(2) by auto
        have "\<bar>signed_qty (case d of Long \<Rightarrow> Buy | Short \<Rightarrow> Sell) q\<bar> = q" using q(1) by (cases d) simp_all
        then show ?thesis
          using s' flat q(1) Some Pending_Enter dir_sign_side [OF q(1), of d] quantized_on_lot [OF assms(2) q(2)]
          by (simp add: filled_or_kept_def ledger_ok_def)
      qed
    next
      case Pending_Close
      then obtain j d px where op: "bs_open s = Some (j, d, px)" using assms(4) Some by (auto simp: pending_ok_def)
      have run: "execute_close E cfg price adv ?s = Some s'"
        using assms(5) Some True Pending_Close by (simp add: execute_pending_def)
      have "ledger_ok E cfg ?s" using assms(3) by simp
      from execute_close_held [OF assms(1) run this, of j d px] op obtain cash x r
        where "s' = ?s\<lparr>bs_cash := cash, bs_pos_qty := 0, bs_entry_bar := None, bs_open := None,
          bs_fills := bs_fills s @ [\<lparr>tf_entry_idx = j, tf_exit_idx = bs_index s, tf_side = d, tf_entry_px = px,
            tf_exit_px = x, tf_return_frac = r\<rparr>]\<rparr>"
        by auto
      then show ?thesis using op Some Pending_Close assms(3) by (simp add: filled_or_kept_def ledger_ok_def)
    qed
  qed
qed

lemma settle_frame:
  assumes "settle_bar E cfg sf price vol rate s = Some s'"
  shows "\<exists>adv s1 s2 xs. book s1 = book s \<and> bs_returns s1 = bs_returns s \<and> execute_pending E cfg sf price adv s1 = Some s2 \<and>
     book s' = book s2 \<and> bs_returns s' = bs_returns s2 @ xs \<and> length xs = (if bs_index s2 > 0 then 1 else 0)"
proof -
  obtain adv s1 s2 s3 s4 where run: "roll_adv E vol s = Some (adv, s1)" "execute_pending E cfg sf price adv s1 = Some s2"
    "accrue_funding E price rate s2 = Some s3" "inject_shock E cfg price s3 = Some s4" "mark_bar E price s4 = Some s'"
    using assms by (auto simp: settle_bar_def bind_eq_Some_conv)
  have "book s4 = book s2" "bs_returns s4 = bs_returns s2"
    using inject_shock_frame [OF run(4)] accrue_funding_frame [OF run(3)] by simp_all
  then show ?thesis
    using roll_adv_frame [OF run(1)] mark_bar_frame [OF run(5)] run(2) by (fastforce simp: book_def)
qed

lemma bt_position_ok:
  "ledger_ok E cfg s \<Longrightarrow> bt_position s =
     (case bs_open s of None \<Rightarrow> position_flat | Some (j, d, px) \<Rightarrow> position_held d ((bs_index s - j) mod 65536))"
  by (cases "bs_open s") (auto simp: ledger_ok_def bt_position_def elim: dir_sign.elims)

lemma ledger_ok_book: "book s' = book s \<Longrightarrow> ledger_ok E cfg s' \<longleftrightarrow> ledger_ok E cfg s"
  by (auto simp: book_def ledger_ok_def split: option.splits pending.splits prod.splits)

lemma pending_ok_book: "book s' = book s \<Longrightarrow> pending_ok s' \<longleftrightarrow> pending_ok s"
  by (auto simp: book_def pending_ok_def split: option.splits pending.splits prod.splits)

lemma trips_ok_book: "book s' = book s \<Longrightarrow> trips_ok s' \<longleftrightarrow> trips_ok s"
  by (auto simp: book_def trips_ok_def split: option.splits pending.splits prod.splits)

lemma filled_or_kept_book:
  "filled_or_kept E cfg s1 s2 \<Longrightarrow> book s1 = book s \<Longrightarrow> book s' = book s2 \<Longrightarrow> filled_or_kept E cfg s s'"
  using ledger_ok_book [of s' s2 E cfg] unfolding filled_or_kept_def book_def by simp

lemma execute_pending_returns:
  "execute_pending E cfg sf price adv s = Some s' \<Longrightarrow> bs_returns s' = bs_returns s"
  by (auto simp: execute_pending_def execute_enter_def execute_close_def Let_def bind_eq_Some_conv
      split: option.splits pending.splits if_splits prod.splits)

lemma settle_filled:
  assumes "dec_rounded (be_arith E)" "lots_stable E cfg" "ledger_ok E cfg s" "pending_ok s"
    and "settle_bar E cfg sf price vol rate s = Some s'"
  shows "filled_or_kept E cfg s s' \<and> (\<exists>xs. bs_returns s' = bs_returns s @ xs \<and> length xs = (if bs_index s > 0 then 1 else 0))"
proof -
  obtain adv s1 s2 xs where run: "book s1 = book s" "bs_returns s1 = bs_returns s"
    "execute_pending E cfg sf price adv s1 = Some s2" "book s' = book s2"
    "bs_returns s' = bs_returns s2 @ xs" "length xs = (if bs_index s2 > 0 then 1 else 0)"
    using settle_frame [OF assms(5)] by blast
  have "filled_or_kept E cfg s1 s2"
    using execute_pending_ok [OF assms(1,2) _ _ run(3)] assms(3,4) run(1) ledger_ok_book pending_ok_book by blast
  moreover from this have "bs_index s2 = bs_index s1" by (simp add: filled_or_kept_def)
  moreover have "bs_index s1 = bs_index s" using run(1) by (simp add: book_def)
  ultimately show ?thesis
    using filled_or_kept_book [OF _ run(1,4)] run(2,5,6) execute_pending_returns [OF run(3)] by simp
qed

definition bt_ok :: "('f, 'r) backtest_env \<Rightarrow> backtest_config \<Rightarrow> ('f, 'r) bt_state \<Rightarrow> bool" where
  "bt_ok E cfg s \<longleftrightarrow> ledger_ok E cfg s \<and> pending_ok s \<and> trips_ok s \<and> length (bs_returns s) = bs_index s - 1"

lemma bt_start_ok: "bt_ok E cfg (bt_start E cfg)"
  by (simp add: bt_ok_def bt_start_def ledger_ok_def pending_ok_def trips_ok_def)

lemma schedule_frame:
  "schedule E cfg g v s = Some s' \<Longrightarrow> \<exists>x. s' = s\<lparr>bs_pending := x\<rparr> \<and>
     (case genome_decide g v (bt_position s) of
        Enter d \<Rightarrow> \<exists>st. x = Some (Pending_Enter d st) | Exit \<Rightarrow> x = Some Pending_Close | Hold \<Rightarrow> x = None)"
  by (auto simp: schedule_def split: decision.splits if_splits)

lemma trips_ok_filled:
  assumes "filled_or_kept E cfg s s'" "trips_ok s"
  shows "trips_ok (s'\<lparr>bs_pending := x, bs_index := bs_index s' + 1\<rparr>)"
  using assms unfolding filled_or_kept_def trips_ok_def
  by (elim conjE disjE exE) (auto simp: sorted_wrt_append list_all_iff split: option.splits)

lemma bar_step_ok:
  assumes "dec_rounded (be_arith E)" "lots_stable E cfg" "bt_ok E cfg s" "bar_step E cfg g sf s b = Some s'"
  shows "bt_ok E cfg s'" "bs_index s' = bs_index s + 1"
    "\<exists>s1 x. filled_or_kept E cfg s s1 \<and> s' = s1\<lparr>bs_pending := x, bs_index := bs_index s1 + 1\<rparr> \<and>
      schedule E cfg g (bb_features b) s1 = Some (s1\<lparr>bs_pending := x\<rparr>)"
proof -
  obtain s1 s2 where run: "settle_bar E cfg sf (bb_price b) (bb_volume b) (bb_funding_rate b) s = Some s1"
    "schedule E cfg g (bb_features b) s1 = Some s2" "s' = s2\<lparr>bs_index := bs_index s2 + 1\<rparr>"
    using assms(4) by (auto simp: bar_step_def bind_eq_Some_conv)
  have ok: "ledger_ok E cfg s" "pending_ok s" "trips_ok s" "length (bs_returns s) = bs_index s - 1"
    using assms(3) by (simp_all add: bt_ok_def)
  obtain xs where f: "filled_or_kept E cfg s s1" "bs_returns s1 = bs_returns s @ xs" "length xs = (if bs_index s > 0 then 1 else 0)"
    using settle_filled [OF assms(1,2) ok(1,2) run(1)] by blast
  obtain x where x: "s2 = s1\<lparr>bs_pending := x\<rparr>"
    "case genome_decide g (bb_features b) (bt_position s1) of
       Enter d \<Rightarrow> \<exists>st. x = Some (Pending_Enter d st) | Exit \<Rightarrow> x = Some Pending_Close | Hold \<Rightarrow> x = None"
    using schedule_frame [OF run(2)] by blast
  have idx: "bs_index s1 = bs_index s" and led: "ledger_ok E cfg s1" using f(1) by (simp_all add: filled_or_kept_def)
  then show "bs_index s' = bs_index s + 1" using run(3) x(1) by simp
  have s': "s' = s1\<lparr>bs_pending := x, bs_index := bs_index s1 + 1\<rparr>" using run(3) x(1) by simp
  then show "\<exists>s1 x. filled_or_kept E cfg s s1 \<and> s' = s1\<lparr>bs_pending := x, bs_index := bs_index s1 + 1\<rparr> \<and>
      schedule E cfg g (bb_features b) s1 = Some (s1\<lparr>bs_pending := x\<rparr>)"
    using f(1) run(2) x(1) by blast
  have pos: "bt_position s1 = (case bs_open s1 of None \<Rightarrow> position_flat | Some (j, d, px) \<Rightarrow> position_held d ((bs_index s1 - j) mod 65536))"
    by (rule bt_position_ok [OF led])
  have "pending_ok s'"
  proof (cases "bs_open s1")
    case None
    then have "genome_decide g (bb_features b) (bt_position s1) \<noteq> Exit" using pos by (intro decide_flat) (simp add: position_flat_def)
    then show ?thesis using x(2) None s' by (auto simp: pending_ok_def split: decision.splits)
  next
    case (Some e)
    then obtain dir where "pos_dir (bt_position s1) = Some dir" using pos by (auto simp: position_held_def split: prod.splits)
    then show ?thesis using decide_held [of "bt_position s1" dir g "bb_features b"] x(2) Some s'
      by (auto simp: pending_ok_def split: decision.splits)
  qed
  moreover have "ledger_ok E cfg s'" using led s' by (simp add: ledger_ok_def cong: option.case_cong)
  moreover have "trips_ok s'" unfolding s' by (rule trips_ok_filled [OF f(1) ok(3)])
  moreover have "length (bs_returns s') = bs_index s' - 1" using f(2,3) ok(4) idx s' by auto
  ultimately show "bt_ok E cfg s'" by (simp add: bt_ok_def)
qed

lemma bt_run_ok:
  assumes "dec_rounded (be_arith E)" "lots_stable E cfg" "bt_run E g bars cfg = Some s"
  shows "bt_ok E cfg s"
proof -
  obtain sf where "run_opt (bar_step E cfg g sf) (bt_start E cfg) bars = Some s"
    using assms(3) by (auto simp: bt_run_def bind_eq_Some_conv)
  then show ?thesis
    by (rule run_opt_invariant [where P = "bt_ok E cfg"])
      (use bt_start_ok bar_step_ok(1) [OF assms(1,2)] in auto)
qed

section \<open>What a bar adds\<close>

lemma execute_pending_adds:
  assumes "execute_pending E cfg sf price adv s = Some s'"
  shows "bs_index s' = bs_index s \<and> (\<exists>fs. bs_fills s' = bs_fills s @ fs \<and> list_all (\<lambda>f. tf_exit_idx f = bs_index s) fs)"
  using assms
  by (auto simp: execute_pending_def execute_enter_def execute_close_def Let_def bind_eq_Some_conv
      split: option.splits pending.splits if_splits prod.splits)

definition grows :: "('f, 'r) bt_state \<Rightarrow> ('f, 'r) bt_state \<Rightarrow> bool" where
  "grows s s' \<longleftrightarrow> bs_index s \<le> bs_index s' \<and>
     (\<exists>xs fs. bs_returns s' = bs_returns s @ xs \<and> length xs = (bs_index s' - 1) - (bs_index s - 1) \<and>
        bs_fills s' = bs_fills s @ fs \<and> list_all (\<lambda>f. bs_index s \<le> tf_exit_idx f) fs)"

lemma settle_adds:
  assumes "settle_bar E cfg sf price vol rate s = Some s'"
  shows "bs_index s' = bs_index s"
    "\<exists>xs fs. bs_returns s' = bs_returns s @ xs \<and> length xs = (if bs_index s > 0 then 1 else 0) \<and>
      bs_fills s' = bs_fills s @ fs \<and> list_all (\<lambda>f. tf_exit_idx f = bs_index s) fs"
proof -
  obtain adv s1 s2 xs where run: "book s1 = book s" "bs_returns s1 = bs_returns s"
    "execute_pending E cfg sf price adv s1 = Some s2" "book s' = book s2"
    "bs_returns s' = bs_returns s2 @ xs" "length xs = (if bs_index s2 > 0 then 1 else 0)"
    using settle_frame [OF assms] by blast
  note adds = execute_pending_adds [OF run(3)]
  show "bs_index s' = bs_index s" using run(1,4) adds by (simp add: book_def)
  show "\<exists>xs fs. bs_returns s' = bs_returns s @ xs \<and> length xs = (if bs_index s > 0 then 1 else 0) \<and>
      bs_fills s' = bs_fills s @ fs \<and> list_all (\<lambda>f. tf_exit_idx f = bs_index s) fs"
    using run adds execute_pending_returns [OF run(3)] by (auto simp: book_def)
qed

lemma bar_step_adds:
  assumes "bar_step E cfg g sf s b = Some s'"
  shows "bs_index s' = bs_index s + 1"
    "\<exists>xs fs. bs_returns s' = bs_returns s @ xs \<and> length xs = (if bs_index s > 0 then 1 else 0) \<and>
      bs_fills s' = bs_fills s @ fs \<and> list_all (\<lambda>f. tf_exit_idx f = bs_index s) fs"
proof -
  obtain s1 s2 where run: "settle_bar E cfg sf (bb_price b) (bb_volume b) (bb_funding_rate b) s = Some s1"
    "schedule E cfg g (bb_features b) s1 = Some s2" "s' = s2\<lparr>bs_index := bs_index s2 + 1\<rparr>"
    using assms by (auto simp: bar_step_def bind_eq_Some_conv)
  then obtain x where "s' = s1\<lparr>bs_pending := x, bs_index := bs_index s1 + 1\<rparr>" using schedule_frame by fastforce
  then show "bs_index s' = bs_index s + 1"
    "\<exists>xs fs. bs_returns s' = bs_returns s @ xs \<and> length xs = (if bs_index s > 0 then 1 else 0) \<and>
      bs_fills s' = bs_fills s @ fs \<and> list_all (\<lambda>f. tf_exit_idx f = bs_index s) fs"
    using settle_adds [OF run(1)] by auto
qed

lemma run_grows: "run_opt (bar_step E cfg g sf) s bars = Some s' \<Longrightarrow> grows s s' \<and> bs_index s' = bs_index s + length bars"
proof (induction bars arbitrary: s)
  case Nil
  then show ?case by (simp add: grows_def)
next
  case (Cons b bars)
  then obtain s1 where s1: "bar_step E cfg g sf s b = Some s1" "run_opt (bar_step E cfg g sf) s1 bars = Some s'"
    by (auto simp: bind_eq_Some_conv)
  obtain xs fs where "bs_index s1 = bs_index s + 1" "bs_returns s1 = bs_returns s @ xs"
    "length xs = (if bs_index s > 0 then 1 else 0)" "bs_fills s1 = bs_fills s @ fs" "list_all (\<lambda>f. tf_exit_idx f = bs_index s) fs"
    using bar_step_adds [OF s1(1)] by blast
  moreover have "list_all (\<lambda>f. bs_index s \<le> tf_exit_idx f) gs" if "list_all (\<lambda>f. bs_index s + 1 \<le> tf_exit_idx f) gs"
    for gs :: "'a trade_fill list"
    using that by (auto simp: list_all_iff)
  ultimately show ?case
    using Cons.IH [OF s1(2)] by (fastforce simp: grows_def list_all_iff)
qed

text \<open>
  C6. No look-ahead: two backtests over series that agree up to a bar, except for the features the genome
  reads at that very bar, and that may differ in everything after it, record the same returns up to and
  including that bar and the same round trips closed by it. What is decided at a bar moves money from the
  next bar on.
\<close>

theorem decisions_act_a_bar_later:
  assumes "backtest_with_trades E g (p @ b # xs) cfg = Some (r, fs)"
    and "backtest_with_trades E g (p @ b\<lparr>bb_features := v\<rparr> # ys) cfg = Some (r', fs')"
  shows "length (br_returns r) = length p + length xs \<and>
     take (length p) (br_returns r) = take (length p) (br_returns r') \<and>
     filter (\<lambda>f. tf_exit_idx f \<le> length p) fs = filter (\<lambda>f. tf_exit_idx f \<le> length p) fs'"
proof -
  obtain sf s t where sf: "size_fraction E g = Some sf"
    and run: "run_opt (bar_step E cfg g sf) (bt_start E cfg) (p @ b # xs) = Some s" "bs_returns s = br_returns r" "bs_fills s = fs"
      "run_opt (bar_step E cfg g sf) (bt_start E cfg) (p @ b\<lparr>bb_features := v\<rparr> # ys) = Some t" "bs_returns t = br_returns r'" "bs_fills t = fs'"
    using assms by (auto simp: backtest_with_trades_def bt_run_def bt_finish_def bind_eq_Some_conv Let_def)
  obtain s0 s1 t1 where part: "run_opt (bar_step E cfg g sf) (bt_start E cfg) p = Some s0"
    "bar_step E cfg g sf s0 b = Some s1" "run_opt (bar_step E cfg g sf) s1 xs = Some s"
    "bar_step E cfg g sf s0 (b\<lparr>bb_features := v\<rparr>) = Some t1" "run_opt (bar_step E cfg g sf) t1 ys = Some t"
    using run(1,4) by (auto simp: run_opt_append bind_eq_Some_conv)
  obtain m x y where mid: "s1 = m\<lparr>bs_pending := x, bs_index := bs_index m + 1\<rparr>" "t1 = m\<lparr>bs_pending := y, bs_index := bs_index m + 1\<rparr>"
    "settle_bar E cfg sf (bb_price b) (bb_volume b) (bb_funding_rate b) s0 = Some m"
    using part(2,4) schedule_frame by (fastforce simp: bar_step_def bind_eq_Some_conv)
  have i0: "bs_index s0 = length p" "length (bs_returns s0) = length p - 1" "list_all (\<lambda>f. True) (bs_fills s0)"
    using run_grows [OF part(1)] by (auto simp: grows_def bt_start_def list_all_iff)
  have mlen: "bs_index m = length p" "length (bs_returns m) = length p"
    using settle_adds [OF mid(3)] i0 by auto
  have "grows (bt_start E cfg) s0" using run_grows [OF part(1)] by simp
  note gs = run_grows [OF part(3)] and gt = run_grows [OF part(5)]
  obtain as es where s: "bs_returns s = bs_returns m @ as" "length as = length xs" "bs_fills s = bs_fills m @ es"
      "list_all (\<lambda>f. length p + 1 \<le> tf_exit_idx f) es"
    using gs mlen by (auto simp: grows_def mid(1))
  obtain cs ds where t: "bs_returns t = bs_returns m @ cs" "bs_fills t = bs_fills m @ ds"
      "list_all (\<lambda>f. length p + 1 \<le> tf_exit_idx f) ds"
    using gt mlen by (auto simp: grows_def mid(2))
  have late: "filter (\<lambda>f. tf_exit_idx f \<le> length p) es = []" "filter (\<lambda>f. tf_exit_idx f \<le> length p) ds = []"
    using s(4) t(3) by (auto simp: list_all_iff filter_empty_conv)
  show ?thesis
    using s t mlen late by (simp flip: run(2,3,5,6))
qed

section \<open>Round trips\<close>

text \<open>
  The trade recorder follows the ledger. Entries and closes alternate: the recorded round trips are
  disjoint and in time order, each closes after it opened and within the series; the entries counted are
  the round trips and, if a position is still held at the end, that one; the run ends flat exactly when the
  recorder has nothing open; and there is one return for every bar but the first.
\<close>

theorem round_trips_follow_the_ledger:
  assumes "dec_rounded (be_arith E)" "lots_stable E cfg" "bt_run E g bars cfg = Some s"
  shows "sorted_wrt (\<lambda>a b. tf_exit_idx a < tf_entry_idx b) (bs_fills s) \<and>
     list_all (\<lambda>f. tf_entry_idx f < tf_exit_idx f \<and> tf_exit_idx f < length bars) (bs_fills s) \<and>
     bs_trades s = length (bs_fills s) + (if bs_pos_qty s = 0 then 0 else 1) \<and>
     (bs_pos_qty s = 0 \<longleftrightarrow> bs_open s = None) \<and> length (bs_returns s) = length bars - 1"
proof -
  have ok: "ledger_ok E cfg s" "trips_ok s" "length (bs_returns s) = bs_index s - 1"
    using bt_run_ok [OF assms] by (simp_all add: bt_ok_def)
  obtain sf where "run_opt (bar_step E cfg g sf) (bt_start E cfg) bars = Some s"
    using assms(3) by (auto simp: bt_run_def bind_eq_Some_conv)
  then have idx: "bs_index s = length bars" using run_grows by (fastforce simp: bt_start_def)
  have "bs_pos_qty s = 0 \<longleftrightarrow> bs_open s = None" "bs_trades s = length (bs_fills s) + (if bs_open s = None then 0 else 1)"
    using ok(1) by (auto simp: ledger_ok_def elim!: dir_sign.elims split: option.splits)
  then show ?thesis using ok(2,3) idx by (simp add: trips_ok_def)
qed

section \<open>Parity with the live session\<close>

text \<open>
  The states a run passes through: before a bar, after it is settled, and the decision then taken. A live
  session does not see fills: it advances its positions by its decisions (\<open>PositionState::advance\<close>).
\<close>

fun bt_trace ::
  "('f, 'r) backtest_env \<Rightarrow> backtest_config \<Rightarrow> genome \<Rightarrow> decimal \<Rightarrow> ('f, 'r) bt_state \<Rightarrow> backtest_bar list
   \<Rightarrow> (('f, 'r) bt_state \<times> ('f, 'r) bt_state \<times> decision) list option" where
  "bt_trace E cfg g sf s [] = Some []"
| "bt_trace E cfg g sf s (b # bs) = do {
     m \<leftarrow> settle_bar E cfg sf (bb_price b) (bb_volume b) (bb_funding_rate b) s;
     t \<leftarrow> bar_step E cfg g sf s b;
     rest \<leftarrow> bt_trace E cfg g sf t bs;
     Some ((s, m, genome_decide g (bb_features b) (bt_position m)) # rest)
   }"

fun entry_filled :: "('f, 'r) bt_state \<times> ('f, 'r) bt_state \<times> decision \<Rightarrow> bool" where
  "entry_filled (s, m, d) \<longleftrightarrow>
     (case bs_pending s of Some (Pending_Enter dir st) \<Rightarrow> bs_trades m = bs_trades s + 1 | _ \<Rightarrow> True)"

text \<open>The live position a state of the backtest stands for, its pending order included.\<close>

definition live_position :: "('f, 'r) bt_state \<Rightarrow> position_state" where
  "live_position s =
     (case bs_pending s of
        None \<Rightarrow> bt_position s
      | Some (Pending_Enter d st) \<Rightarrow> position_held d 0
      | Some Pending_Close \<Rightarrow> position_flat)"

lemma close_fills:
  assumes "dec_rounded (be_arith E)" "ledger_ok E cfg s" "pending_ok s" "bs_pending s = Some Pending_Close" "price > 0"
    and "settle_bar E cfg sf price vol rate s = Some m"
  shows "bs_open m = None"
proof -
  obtain adv s1 s2 where run: "book s1 = book s" "execute_pending E cfg sf price adv s1 = Some s2" "book m = book s2"
    using settle_frame [OF assms(6)] by blast
  have s1: "ledger_ok E cfg s1" "pending_ok s1" "bs_pending s1 = Some Pending_Close"
    using assms(2-4) ledger_ok_book [OF run(1)] pending_ok_book [OF run(1)] run(1) by (simp_all add: book_def)
  then obtain j d px where "bs_open (s1\<lparr>bs_pending := None\<rparr>) = Some (j, d, px)" by (auto simp: pending_ok_def)
  moreover have "execute_close E cfg price adv (s1\<lparr>bs_pending := None\<rparr>) = Some s2"
    using run(2) s1(3) assms(5) by (simp add: execute_pending_def)
  ultimately have "bs_open s2 = None"
    using execute_close_held [OF assms(1), of cfg price adv "s1\<lparr>bs_pending := None\<rparr>" s2 j d px] s1(1) by auto
  then show ?thesis using run(3) by (simp add: book_def)
qed

lemma settled_position:
  assumes "dec_rounded (be_arith E)" "lots_stable E cfg" "bt_ok E cfg s" "price > 0"
    and "settle_bar E cfg sf price vol rate s = Some m" "entry_filled (s, m, d)"
  shows "bt_position m = live_position s"
proof -
  have ok: "ledger_ok E cfg s" "pending_ok s" "trips_ok s" using assms(3) by (simp_all add: bt_ok_def)
  have f: "filled_or_kept E cfg s m" using settle_filled [OF assms(1,2) ok(1,2) assms(5)] by simp
  then have m: "ledger_ok E cfg m" "bs_index m = bs_index s" by (simp_all add: filled_or_kept_def)
  show ?thesis
  proof (cases "bs_pending s")
    case None
    then have "bs_open m = bs_open s" using f by (auto simp: filled_or_kept_def)
    then show ?thesis using None bt_position_ok [OF m(1)] bt_position_ok [OF ok(1)] m(2)
      by (cases "bs_open s") (auto simp: live_position_def)
  next
    case (Some order)
    show ?thesis
    proof (cases order)
      case (Pending_Enter dir st)
      then have "bs_trades m = bs_trades s + 1" using assms(6) Some by simp
      then obtain px where "bs_open m = Some (bs_index s, dir, px)"
        using f Some Pending_Enter unfolding filled_or_kept_def by (elim conjE disjE exE) auto
      then show ?thesis using Some Pending_Enter bt_position_ok [OF m(1)] m(2) by (simp add: live_position_def)
    next
      case Pending_Close
      then have "bs_open m = None" using close_fills [OF assms(1) ok(1,2) _ assms(4,5)] Some by simp
      then show ?thesis using Some Pending_Close bt_position_ok [OF m(1)] by (simp add: live_position_def)
    qed
  qed
qed

lemma scheduled_position:
  assumes "ledger_ok E cfg m" "case bs_open m of None \<Rightarrow> True | Some (j, d, px) \<Rightarrow> j \<le> bs_index m"
    and "schedule E cfg g v m = Some (m\<lparr>bs_pending := x\<rparr>)"
  shows "live_position (m\<lparr>bs_pending := x, bs_index := bs_index m + 1\<rparr>) =
    position_advance (bt_position m) (genome_decide g v (bt_position m))"
proof -
  let ?t = "m\<lparr>bs_pending := x, bs_index := bs_index m + 1\<rparr>"
  have led: "ledger_ok E cfg ?t" using assms(1) by (cases "bs_open m") (auto simp: ledger_ok_def)
  note pos = bt_position_ok [OF assms(1)] bt_position_ok [OF led]
  obtain y where y: "m\<lparr>bs_pending := x\<rparr> = m\<lparr>bs_pending := y\<rparr>"
    "case genome_decide g v (bt_position m) of
       Enter d \<Rightarrow> \<exists>st. y = Some (Pending_Enter d st) | Exit \<Rightarrow> y = Some Pending_Close | Hold \<Rightarrow> y = None"
    using schedule_frame [OF assms(3)] by blast
  have "y = x" using arg_cong [OF y(1), of bs_pending] by simp
  with y(2) have x: "case genome_decide g v (bt_position m) of
      Enter d \<Rightarrow> \<exists>st. x = Some (Pending_Enter d st) | Exit \<Rightarrow> x = Some Pending_Close | Hold \<Rightarrow> x = None" by (simp only:)
  show ?thesis
  proof (cases "genome_decide g v (bt_position m)")
    case Hold
    then have "x = None" using x by simp
    then show ?thesis
      using Hold pos assms(2)
      by (cases "bs_open m")
        (auto simp: live_position_def position_advance_def position_flat_def position_held_def Suc_diff_le mod_Suc_eq)
  next
    case (Enter d)
    then show ?thesis using x by (auto simp: live_position_def position_advance_def)
  next
    case Exit
    then show ?thesis using x by (auto simp: live_position_def position_advance_def)
  qed
qed

lemma trace_follows_live:
  assumes "dec_rounded (be_arith E)" "lots_stable E cfg" "list_all (\<lambda>b. bb_price b > 0) bars"
    and "bt_ok E cfg s" "bt_trace E cfg g sf s bars = Some tr" "list_all entry_filled tr"
  shows "map (snd \<circ> snd) tr = fst (genome_run g (live_position s) (map bb_features bars))"
  using assms(3-6)
proof (induction bars arbitrary: s tr)
  case Nil
  then show ?case by simp
next
  case (Cons b bars)
  obtain m t rest where run: "settle_bar E cfg sf (bb_price b) (bb_volume b) (bb_funding_rate b) s = Some m"
    "bar_step E cfg g sf s b = Some t" "bt_trace E cfg g sf t bars = Some rest"
    "tr = (s, m, genome_decide g (bb_features b) (bt_position m)) # rest"
    using Cons.prems(3) by (auto simp: bind_eq_Some_conv)
  note step = bar_step_ok [OF assms(1,2) Cons.prems(2) run(2)]
  obtain x where x: "t = m\<lparr>bs_pending := x, bs_index := bs_index m + 1\<rparr>" "schedule E cfg g (bb_features b) m = Some (m\<lparr>bs_pending := x\<rparr>)"
    using run(1,2) schedule_frame by (fastforce simp: bar_step_def bind_eq_Some_conv)
  have here: "bt_position m = live_position s"
    using settled_position [OF assms(1,2) Cons.prems(2) _ run(1)] Cons.prems(1,4) run(4) by auto
  have led: "ledger_ok E cfg m" using step(1) x(1) by (cases "bs_open m") (auto simp: bt_ok_def ledger_ok_def)
  have "case bs_open m of None \<Rightarrow> True | Some (j, d, px) \<Rightarrow> j \<le> bs_index m"
    using step(1) x(1) by (auto simp: bt_ok_def trips_ok_def split: option.splits)
  then have "live_position t = position_advance (live_position s) (genome_decide g (bb_features b) (live_position s))"
    using scheduled_position [OF led _ x(2)] x(1) here by simp
  then show ?case
    using Cons.IH [OF _ step(1) run(3)] Cons.prems(1,4) run(4) here by (simp add: Let_def split_beta)
qed

text \<open>
  C5. Train and live take the same decisions. On a series of positive prices whose entry orders are all
  filled, the backtest's decisions, taken against the position its ledger holds one bar after each order,
  are the ones the live bookkeeping takes on the same features, which never sees a fill and advances by its
  own decisions: same entries, same exits, same bars, whatever the costs, funding, shocks and sizing. Sums
  may round as the package's do (\<open>dec_rounded\<close>); with an exchange filter it is assumed that flooring a
  quantity that is already floored to the lot changes nothing (\<open>lots_stable\<close>), without one nothing is.
\<close>

theorem training_decides_as_live:
  assumes "dec_rounded (be_arith E)" "lots_stable E cfg" "list_all (\<lambda>b. bb_price b > 0) bars"
    and "bt_trace E cfg g sf (bt_start E cfg) bars = Some tr" "list_all entry_filled tr"
  shows "map (snd \<circ> snd) tr = fst (genome_run g position_flat (map bb_features bars))"
proof -
  have "live_position (bt_start E cfg) = position_flat" by (simp add: live_position_def bt_start_def bt_position_def)
  then show ?thesis using trace_follows_live [OF assms(1-3) bt_start_ok assms(4,5)] by simp
qed

section \<open>A sample run\<close>

definition rat_fit :: "rat fit_ops" where
  "rat_fit = \<lparr>fo_base = rat_ops, fo_ln = (\<lambda>x. x - 1), fo_exp = (\<lambda>x. x + 1), fo_sqrt = (\<lambda>x. x), fo_powi2 = (\<lambda>x. x * x),
     fo_neg_infinity = - 1000000\<rparr>"

definition lab_backtest :: "(rat, u64) backtest_env" where
  "lab_backtest = \<lparr>be_money = \<lparr>mm_arith = bounded_dec 1000000, mm_powd = (\<lambda>a b. Some a)\<rparr>, be_round = (\<lambda>x. of_int \<lfloor>x + 1 / 2\<rfloor>),
     be_to_f64 = Some, be_fit = rat_fit, be_seed_rng = (\<lambda>s. s), be_next_u64 = (\<lambda>s. (s, s + 1))\<rparr>"

definition lab_friction :: friction_config where
  "lab_friction = \<lparr>fr_fees = default_fees, fr_slippage = slippage_from_calibration
     \<lparr>sc_half_spread = 1 / 1000, sc_impact_coeff = 0, sc_impact_exponent = 1 / 2, sc_alpha_loss = 0\<rparr>, fr_cost_multiplier = 1\<rparr>"

definition lab_config :: backtest_config where
  "lab_config = \<lparr>bc_friction = lab_friction, bc_min_trades = 1, bc_windows = 2, bc_shocks = None, bc_graded = False,
     bc_symbol_filter = None\<rparr>"

definition lab_genome :: genome where
  "lab_genome = \<lparr>gn_version = 1,
     gn_long_entry = \<lparr>rs_clauses = [\<lparr>cl_enabled = True, cl_feature = 0, cl_lo = 2, cl_hi = 3\<rparr>], rs_min_satisfied = 1\<rparr>,
     gn_short_entry = \<lparr>rs_clauses = [], rs_min_satisfied = 1\<rparr>, gn_exit = \<lparr>ex_max_holding_bars = 1, ex_on_opposite = False\<rparr>,
     gn_risk = RiskParams 5000\<rparr>"

definition lab_bar :: "nat \<Rightarrow> decimal \<Rightarrow> backtest_bar" where
  "lab_bar st price = \<lparr>bb_features = \<lparr>fv_time_ms = 0, fv_states = [Some (QState st)]\<rparr>, bb_price = price, bb_volume = 10,
     bb_funding_rate = None\<rparr>"

definition lab_bars :: "backtest_bar list" where
  "lab_bars = [lab_bar 2 100, lab_bar 0 100, lab_bar 0 110, lab_bar 2 120, lab_bar 0 120]"

lemma lab_exact [simp]: "dec_rounded (be_arith lab_backtest)" "lots_stable lab_backtest lab_config"
  by (simp_all add: lab_backtest_def lots_stable_def lab_config_def)

lemmas lab_simps = lab_backtest_def lab_config_def lab_genome_def lab_bars_def lab_bar_def lab_friction_def default_fees_def
  slippage_from_calibration_def bounded_dec_def Let_def bar_step_def settle_bar_def roll_adv_def execute_pending_def
  execute_enter_def execute_close_def accrue_funding_def inject_shock_def mark_bar_def schedule_def bt_position_def bt_start_def
  quantize_fill_def fill_ok_def apply_fill_def fill_fee_def fee_def fill_slippage_def slippage_cost_def alpha_loss_cost_def
  trade_return_def default_adv_window_def genome_decide_def rule_fires_def active_count_def clause_satisfied_def get_opt_def
  position_held_def position_flat_def position_advance_def rat_fit_def rat_ops_def quantize_price_def quantize_qty_def
  clears_min_notional_def

theorem decisions_act_a_bar_later_witness:
  "(case (backtest_with_trades lab_backtest lab_genome lab_bars lab_config,
       backtest_with_trades lab_backtest lab_genome (take 3 lab_bars @ [lab_bar 0 120]) lab_config) of
      (Some (r, fs), Some (r', fs')) \<Rightarrow> take 3 (br_returns r) = take 3 (br_returns r') \<and>
        filter (\<lambda>f. tf_exit_idx f \<le> 3) fs = filter (\<lambda>f. tf_exit_idx f \<le> 3) fs' \<and> length fs = 1
    | _ \<Rightarrow> False)"
proof -
  have runs: "map_option (\<lambda>(r, fs). length fs) (backtest_with_trades lab_backtest lab_genome lab_bars lab_config) = Some 1"
    "backtest_with_trades lab_backtest lab_genome (take 3 lab_bars @ [lab_bar 0 120]) lab_config \<noteq> None"
    by (simp_all add: backtest_with_trades_def bt_run_def size_fraction_def bt_finish_def lab_simps)
  obtain r fs r' fs' where both: "backtest_with_trades lab_backtest lab_genome lab_bars lab_config = Some (r, fs)"
    "backtest_with_trades lab_backtest lab_genome (take 3 lab_bars @ [lab_bar 0 120]) lab_config = Some (r', fs')" "length fs = 1"
    using runs by auto
  have shape: "lab_bars = take 3 lab_bars @ lab_bar 2 120 # [lab_bar 0 120]" "length (take 3 lab_bars) = 3"
    "lab_bar 0 120 = (lab_bar 2 120)\<lparr>bb_features := \<lparr>fv_time_ms = 0, fv_states = [Some (QState 0)]\<rparr>\<rparr>"
    by (simp_all add: lab_bars_def lab_bar_def)
  have five: "length lab_bars = 5" "\<And>x. x \<le> 5 \<and> x \<le> 3 \<longleftrightarrow> x \<le> (3 :: nat)" by (auto simp: lab_bars_def)
  show ?thesis
    using decisions_act_a_bar_later [of lab_backtest lab_genome "take 3 lab_bars" "lab_bar 2 120" "[lab_bar 0 120]" lab_config r fs
        "\<lparr>fv_time_ms = 0, fv_states = [Some (QState 0)]\<rparr>" "[]" r' fs'] both shape
    by (simp add: five)
qed

theorem training_decides_as_live_witness:
  "map_option (map (snd \<circ> snd)) (bt_trace lab_backtest lab_config lab_genome (1 / 2) (bt_start lab_backtest lab_config) lab_bars) =
     Some [Enter Long, Hold, Exit, Enter Long, Hold]"
proof -
  have live: "fst (genome_run lab_genome position_flat (map bb_features lab_bars)) = [Enter Long, Hold, Exit, Enter Long, Hold]"
    by (simp add: lab_simps)
  have run: "map_option (list_all entry_filled)
      (bt_trace lab_backtest lab_config lab_genome (1 / 2) (bt_start lab_backtest lab_config) lab_bars) = Some True"
    by (simp add: lab_simps)
  then obtain tr where tr: "bt_trace lab_backtest lab_config lab_genome (1 / 2) (bt_start lab_backtest lab_config) lab_bars = Some tr"
    "list_all entry_filled tr" by auto
  have "list_all (\<lambda>b. bb_price b > 0) lab_bars" by (simp add: lab_bars_def lab_bar_def)
  from training_decides_as_live [OF lab_exact this tr] live show ?thesis by (simp add: tr(1))
qed

theorem round_trips_follow_the_ledger_witness:
  "map_option (\<lambda>s. (bs_trades s, map (\<lambda>f. (tf_entry_idx f, tf_exit_idx f)) (bs_fills s), bs_pos_qty s = 0))
     (bt_run lab_backtest lab_genome lab_bars lab_config) = Some (2, [(1, 3)], False)"
proof -
  have run: "map_option (\<lambda>s. (map (\<lambda>f. (tf_entry_idx f, tf_exit_idx f)) (bs_fills s), bs_pos_qty s = 0))
      (bt_run lab_backtest lab_genome lab_bars lab_config) = Some ([(1, 3)], False)"
    by (simp add: bt_run_def size_fraction_def lab_simps)
  then obtain s where s: "bt_run lab_backtest lab_genome lab_bars lab_config = Some s"
    "map (\<lambda>f. (tf_entry_idx f, tf_exit_idx f)) (bs_fills s) = [(1, 3)]" "bs_pos_qty s \<noteq> 0" by auto
  have "length (bs_fills s) = 1" using arg_cong [OF s(2), of length] by simp
  then show ?thesis using round_trips_follow_the_ledger [OF lab_exact s(1)] s by simp
qed

text \<open>
  An entry the venue's filter refuses parts the two: the backtest is flat and asks again, while the live
  bookkeeping counts itself as held from the decision on, and later exits a position it never had.
\<close>

lemma refused_entry_parts_train_and_live:
  "(let cfg = lab_config\<lparr>bc_symbol_filter := Some \<lparr>sf_step_size = 0, sf_tick_size = 0, sf_min_notional = 5\<rparr>\<rparr>;
        bars = [lab_bar 2 100, lab_bar 2 100, lab_bar 2 110]
    in map_option (map (snd \<circ> snd)) (bt_trace lab_backtest cfg lab_genome (1 / 2) (bt_start lab_backtest cfg) bars) =
         Some [Enter Long, Enter Long, Enter Long] \<and>
       fst (genome_run lab_genome position_flat (map bb_features bars)) = [Enter Long, Hold, Exit])"
  by (simp add: lab_simps)

section \<open>Windows and the minimum-trade gate\<close>

lemma concat_split_from:
  "length xs \<le> (\<Sum>i<left. base + (if w + i < rem then 1 else 0)) \<Longrightarrow> concat (split_from base rem w left xs) = xs"
proof (induction base rem w left xs rule: split_from.induct)
  case (2 base rem w left xs)
  have "(\<Sum>i<Suc left. base + (if w + i < rem then 1 else 0)) =
      base + (if w < rem then 1 else 0) + (\<Sum>i<left. base + (if w + 1 + i < rem then 1 else 0))"
    by (simp add: sum.lessThan_Suc_shift del: sum.lessThan_Suc)
  then have "concat (split_from base rem (w + 1) left (drop (base + (if w < rem then 1 else 0)) xs)) =
      drop (base + (if w < rem then 1 else 0)) xs"
    using "2.prems" by (intro "2.IH") (auto simp del: sum.lessThan_Suc)
  then show ?case by (auto simp: Let_def simp del: append_take_drop_id) (metis append_take_drop_id)+
qed simp

lemma split_from_sizes:
  assumes "length xs = (\<Sum>i<left. base + (if w + i < rem then 1 else 0))" "0 < base"
  shows "length (split_from base rem w left xs) = left \<and> list_all (\<lambda>x. length x = base \<or> length x = base + 1) (split_from base rem w left xs)"
  using assms
proof (induction base rem w left xs rule: split_from.induct)
  case (2 base rem w left xs)
  have "(\<Sum>i<Suc left. base + (if w + i < rem then 1 else 0)) =
      base + (if w < rem then 1 else 0) + (\<Sum>i<left. base + (if w + 1 + i < rem then 1 else 0))"
    by (simp add: sum.lessThan_Suc_shift del: sum.lessThan_Suc)
  then show ?case using 2 by (auto simp: Let_def simp del: sum.lessThan_Suc)
qed simp

text \<open>
  The windows of the fitness are the series: concatenated they give every return back in order, there
  are as many as asked for or as there are returns, none is empty, and their sizes differ by at most one.
\<close>

theorem windows_partition_the_returns:
  "concat (split_windows xs k) = xs \<and> length (split_windows xs k) = (if xs = [] then 0 else min (max k 1) (length xs)) \<and>
   list_all (\<lambda>w. w \<noteq> [] \<and> (length w = length xs div min (max k 1) (length xs) \<or>
     length w = length xs div min (max k 1) (length xs) + 1)) (split_windows xs k)"
proof (cases "xs = []")
  case True
  then show ?thesis by (simp add: split_windows_def)
next
  case False
  let ?m = "min (max k 1) (length xs)" let ?b = "length xs div ?m" let ?r = "length xs mod ?m"
  have m: "0 < ?m" "?m \<le> length xs" using False by auto
  then have b: "0 < ?b" by (simp add: div_greater_zero_iff)
  have "(\<Sum>i<?m. if i < ?r then 1 else 0) = card {i \<in> {..<?m}. i < ?r}"
    by (simp add: sum.If_cases Int_def)
  moreover have "{i \<in> {..<?m}. i < ?r} = {..<?r}" using mod_less_divisor [OF m(1), of "length xs"] by auto
  ultimately have "(\<Sum>i<?m. ?b + (if 0 + i < ?r then 1 else 0)) = ?m * ?b + ?r"
    by (simp add: sum.distrib)
  then have total: "length xs = (\<Sum>i<?m. ?b + (if 0 + i < ?r then 1 else 0))" by simp
  have split: "split_windows xs k = split_from ?b ?r 0 ?m xs" using False by (simp only: split_windows_def Let_def if_False)
  have whole: "concat (split_from ?b ?r 0 ?m xs) = xs" by (rule concat_split_from [OF eq_refl [OF total]])
  have nonempty: "w \<noteq> []" if "length w = ?b \<or> length w = ?b + 1" for w :: "'a list" using that b by (cases w) simp_all
  have "list_all (\<lambda>w. w \<noteq> [] \<and> (length w = ?b \<or> length w = ?b + 1)) (split_from ?b ?r 0 ?m xs)"
    using split_from_sizes [OF total b] nonempty unfolding list_all_iff by blast
  then show ?thesis using whole split_from_sizes [OF total b] False unfolding split by (simp only: if_False simp_thms)
qed

section \<open>The two ledgers\<close>

text \<open>
  The backtester keeps cash and a signed quantity; the friction simulator keeps an average-cost position
  and a decomposed result. Here both take the same stream: fills that take liquidity, and funding stamps.
\<close>

fun ledger_event :: "('f, 'r) backtest_env \<Rightarrow> backtest_config \<Rightarrow> ('f, 'r) bt_state \<Rightarrow> friction_event \<Rightarrow> ('f, 'r) bt_state option" where
  "ledger_event E cfg s (Fill_Event f) =
     map_option (\<lambda>(cash, pos). s\<lparr>bs_cash := cash, bs_pos_qty := pos\<rparr>)
       (apply_fill E cfg (fi_side f) (fi_qty f) (fi_price f) (fi_adv f) (bs_cash s) (bs_pos_qty s))"
| "ledger_event E cfg s (Funding_Event g) = accrue_funding E (fg_mark_price g) (Some (fg_rate g)) s"

fun taker_event :: "friction_event \<Rightarrow> bool" where
  "taker_event (Fill_Event f) \<longleftrightarrow> fi_liquidity f = Taker \<and> 0 < fi_qty f"
| "taker_event (Funding_Event g) \<longleftrightarrow> True"

text \<open>No operation rounds: what the package does as long as the operands' digits fit its mantissa.\<close>

definition dec_ideal :: "dec_arith \<Rightarrow> bool" where
  "dec_ideal A \<longleftrightarrow> dec_exact A \<and> (\<forall>a b c. dec_mul A a b = Some c \<longrightarrow> c = a * b) \<and>
     (\<forall>a b c. dec_div A a b = Some c \<longrightarrow> b \<noteq> 0 \<and> c = a / b)"

lemma dec_idealD:
  assumes "dec_ideal A"
  shows "dec_add A a b = Some c \<Longrightarrow> c = a + b" "dec_sub A a b = Some c \<Longrightarrow> c = a - b"
    "dec_mul A a b = Some c \<Longrightarrow> c = a * b" "dec_div A a b = Some c \<Longrightarrow> b \<noteq> 0 \<and> c = a / b"
  using assms unfolding dec_ideal_def by (blast dest: dec_exactD)+

lemma dec_ideal_bounded [simp]: "dec_ideal (bounded_dec m)"
  by (auto simp: dec_ideal_def bounded_dec_mul) (auto simp: bounded_dec_def Let_def split: if_splits)

text \<open>The average-cost identity: what is realised is the change of the cost of the position, less what was paid.\<close>

lemma avg_apply_identity:
  assumes A: "dec_ideal A" and qty: "0 < qty" and run: "avg_apply A p sd qty price = Some (realized, p')"
  shows "ap_qty p' = ap_qty p + signed_qty sd qty \<and>
    realized - ap_qty p' * ap_avg_price p' = - ap_qty p * ap_avg_price p - signed_qty sd qty * price"
proof (cases "ap_qty p = 0 \<or> (ap_qty p > 0 \<longleftrightarrow> signed_positive sd qty)")
  case True
  then have r: "realized = 0" "ap_qty p' = ap_qty p + signed_qty sd qty"
    "ap_avg_price p' = (ap_avg_price p * \<bar>ap_qty p\<bar> + price * qty) / \<bar>ap_qty p'\<bar>"
    using run by (auto simp: avg_apply_def Let_def bind_eq_Some_conv dest!: dec_idealD [OF A])
  have "ap_qty p' * ap_avg_price p' = ap_qty p * ap_avg_price p + signed_qty sd qty * price"
    using True qty r(2,3) by (cases sd) (auto simp: abs_if field_simps split: if_splits)
  then show ?thesis using r by simp
next
  case False
  let ?rem = "ap_qty p + signed_qty sd qty"
  have r: "realized = (if ap_qty p > 0 then 1 else - 1) * (price - ap_avg_price p) * min qty \<bar>ap_qty p\<bar>"
    "p' = (if ?rem = 0 then avg_flat else if ?rem > 0 \<longleftrightarrow> ap_qty p > 0 then p\<lparr>ap_qty := ?rem\<rparr>
      else \<lparr>ap_qty = ?rem, ap_avg_price = price\<rparr>)"
    using run False by (auto simp: avg_apply_def Let_def bind_eq_Some_conv dest!: dec_idealD [OF A])
  show ?thesis
    using False qty unfolding r
    by (cases sd) (auto simp: avg_flat_def min_def abs_if algebra_simps split: if_splits,
      metis distrib_left mult.commute mult_zero_right)
qed

definition books_agree :: "('f, 'r) bt_state \<Rightarrow> avg_position \<times> pnl_breakdown \<Rightarrow> bool" where
  "books_agree s x \<longleftrightarrow> ap_qty (fst x) = bs_pos_qty s \<and>
     bs_cash s = 1 + (pl_gross (snd x) - pl_fees (snd x) - pl_slippage (snd x) + pl_funding (snd x))
       - bs_pos_qty s * ap_avg_price (fst x)"

lemma books_agree_step:
  assumes A: "dec_ideal (be_arith E)" and "taker_event e" "books_agree s x"
    and "ledger_event E cfg s e = Some s'" "simulate_step (be_money E) (bc_friction cfg) x e = Some x'"
  shows "books_agree s' x'"
proof (cases e)
  case (Fill_Event f)
  let ?n = "\<bar>fi_qty f * fi_price f\<bar>"
  obtain pos pnl pos' pnl' where x: "x = (pos, pnl)" "x' = (pos', pnl')" by (cases x, cases x')
  obtain charged slip where costs: "fill_fee (be_money E) (bc_friction cfg) ?n Taker = Some charged"
    "fill_slippage (be_money E) (bc_friction cfg) ?n \<bar>fi_qty f\<bar> (fi_adv f) = Some slip"
    and s': "bs_cash s' = bs_cash s - signed_qty (fi_side f) (fi_qty f) * fi_price f - (charged + slip)"
      "bs_pos_qty s' = bs_pos_qty s + signed_qty (fi_side f) (fi_qty f)"
    using assms(4) Fill_Event
    by (auto simp: apply_fill_def Let_def bind_eq_Some_conv dest!: dec_idealD [OF A])
  obtain realized where step: "avg_apply (be_arith E) pos (fi_side f) (fi_qty f) (fi_price f) = Some (realized, pos')"
    "pnl' = pnl\<lparr>pl_fees := pl_fees pnl + charged, pl_slippage := pl_slippage pnl + slip, pl_gross := pl_gross pnl + realized\<rparr>"
    using assms(2,5) Fill_Event costs
    by (auto simp: x Let_def bind_eq_Some_conv dest!: dec_idealD [OF A])
  have "ap_qty pos' = ap_qty pos + signed_qty (fi_side f) (fi_qty f)"
    "realized - ap_qty pos' * ap_avg_price pos' = - ap_qty pos * ap_avg_price pos - signed_qty (fi_side f) (fi_qty f) * fi_price f"
    using avg_apply_identity [OF A _ step(1)] assms(2) Fill_Event by auto
  then show ?thesis
    using assms(3) s' step(2) unfolding books_agree_def x by simp
next
  case (Funding_Event g)
  then show ?thesis
    using assms(3-5)
    by (cases x) (auto simp: books_agree_def accrue_funding_def Let_def bind_eq_Some_conv dest!: dec_idealD [OF A])
qed

lemma books_agree_run:
  assumes "dec_ideal (be_arith E)" "list_all taker_event es" "books_agree s x"
    and "run_opt (ledger_event E cfg) s es = Some s'" "run_opt (simulate_step (be_money E) (bc_friction cfg)) x es = Some x'"
  shows "books_agree s' x'"
  using assms(2-5)
proof (induction es arbitrary: s x)
  case (Cons e es)
  then obtain s1 x1 where step: "ledger_event E cfg s e = Some s1" "run_opt (ledger_event E cfg) s1 es = Some s'"
    "simulate_step (be_money E) (bc_friction cfg) x e = Some x1"
    "run_opt (simulate_step (be_money E) (bc_friction cfg)) x1 es = Some x'"
    by (auto simp: bind_eq_Some_conv)
  have "books_agree s1 x1" using books_agree_step [OF assms(1) _ Cons.prems(2) step(1,3)] Cons.prems(1) by simp
  then show ?case using Cons.IH [OF _ _ step(2,4)] Cons.prems(1) by simp
qed simp

text \<open>
  C15. The two ledgers agree. On any stream of taker fills and funding stamps on which nothing rounds, the
  cash the backtester ends with is its unit capital plus the net of the decomposed result, less the cost of
  the position still held; the quantities are equal; and once flat, the cash gained is exactly gross less
  fees less slippage plus funding.
\<close>

theorem two_ledgers_agree:
  assumes "dec_ideal (be_arith E)" "list_all taker_event es"
    and "run_opt (ledger_event E cfg) (bt_start E cfg) es = Some s"
    and "run_opt (simulate_step (be_money E) (bc_friction cfg)) (avg_flat, pnl_zero) es = Some (p, pnl)"
  shows "simulate (be_money E) es (bc_friction cfg) = Some pnl \<and> ap_qty p = bs_pos_qty s \<and>
     bs_cash s - 1 = pl_gross pnl - pl_fees pnl - pl_slippage pnl + pl_funding pnl - bs_pos_qty s * ap_avg_price p"
proof -
  have "books_agree (bt_start E cfg) (avg_flat, pnl_zero)"
    by (simp add: books_agree_def bt_start_def avg_flat_def pnl_zero_def)
  from books_agree_run [OF assms(1,2) this assms(3,4)] show ?thesis
    using assms(4) by (simp add: books_agree_def simulate_def)
qed

definition lab_events :: "friction_event list" where
  "lab_events = [Fill_Event \<lparr>fi_side = Buy, fi_qty = 2, fi_price = 100, fi_adv = 10, fi_liquidity = Taker\<rparr>,
     Funding_Event \<lparr>fg_rate = 1 / 100, fg_mark_price = 105\<rparr>,
     Fill_Event \<lparr>fi_side = Sell, fi_qty = 2, fi_price = 110, fi_adv = 10, fi_liquidity = Taker\<rparr>]"

theorem two_ledgers_agree_witness:
  "map_option (\<lambda>pnl. (pl_gross pnl, pl_funding pnl)) (simulate (be_money lab_backtest) lab_events lab_friction) = Some (20, - (21 / 10)) \<and>
   map_option (\<lambda>s. (bs_cash s - 1, bs_pos_qty s)) (run_opt (ledger_event lab_backtest lab_config) (bt_start lab_backtest lab_config) lab_events) =
     map_option (\<lambda>pnl. (pl_gross pnl - pl_fees pnl - pl_slippage pnl + pl_funding pnl, 0))
       (simulate (be_money lab_backtest) lab_events lab_friction)"
proof -
  have ideal: "dec_ideal (be_arith lab_backtest)" "list_all taker_event lab_events" "bc_friction lab_config = lab_friction"
    by (simp_all add: lab_backtest_def lab_events_def lab_config_def)
  have runs: "map_option bs_pos_qty (run_opt (ledger_event lab_backtest lab_config) (bt_start lab_backtest lab_config) lab_events) = Some 0"
    "map_option (\<lambda>x. (pl_gross (snd x), pl_funding (snd x)))
      (run_opt (simulate_step (be_money lab_backtest) lab_friction) (avg_flat, pnl_zero) lab_events) = Some (20, - (21 / 10))"
    by (simp_all add: lab_events_def avg_apply_def avg_flat_def pnl_zero_def lab_simps)
  obtain s p pnl where run: "run_opt (ledger_event lab_backtest lab_config) (bt_start lab_backtest lab_config) lab_events = Some s"
    "run_opt (simulate_step (be_money lab_backtest) lab_friction) (avg_flat, pnl_zero) lab_events = Some (p, pnl)"
    "bs_pos_qty s = 0" "pl_gross pnl = 20" "pl_funding pnl = - (21 / 10)"
    using runs by auto
  from two_ledgers_agree [OF ideal(1,2) run(1)] run ideal(3) show ?thesis by simp
qed

text \<open>The multiplier of a cost sweep scales fees and slippage and nothing else.\<close>

lemma sweep_step:
  assumes "simulate_step M (with_multiplier c m) (pos, pnl) e = Some (p1, q1)" "simulate_step M (with_multiplier c m') (pos, pnl') e = Some (p2, q2)"
    and "pl_gross pnl = pl_gross pnl'" "pl_funding pnl = pl_funding pnl'"
  shows "p1 = p2 \<and> pl_gross q1 = pl_gross q2 \<and> pl_funding q1 = pl_funding q2"
  using assms by (cases e) (auto simp: Let_def bind_eq_Some_conv)

theorem sweep_keeps_gross_and_funding:
  assumes "simulate M es (with_multiplier c m) = Some a" "simulate M es (with_multiplier c m') = Some b"
  shows "pl_gross a = pl_gross b \<and> pl_funding a = pl_funding b"
proof -
  have "pl_gross q1 = pl_gross q2 \<and> pl_funding q1 = pl_funding q2"
    if "run_opt (simulate_step M (with_multiplier c m)) (pos, x) es = Some (p1, q1)"
      "run_opt (simulate_step M (with_multiplier c m')) (pos, y) es = Some (p2, q2)"
      "pl_gross x = pl_gross y" "pl_funding x = pl_funding y" for pos x y p1 q1 p2 q2
    using that
  proof (induction es arbitrary: pos x y)
    case (Cons e es)
    then obtain u v u' v' where "simulate_step M (with_multiplier c m) (pos, x) e = Some (u, v)"
      "run_opt (simulate_step M (with_multiplier c m)) (u, v) es = Some (p1, q1)"
      "simulate_step M (with_multiplier c m') (pos, y) e = Some (u', v')"
      "run_opt (simulate_step M (with_multiplier c m')) (u', v') es = Some (p2, q2)"
      by (fastforce simp: bind_eq_Some_conv)
    with sweep_step [of M c m pos x e u v m' y u' v'] Cons show ?case by simp
  qed simp
  then show ?thesis using assms by (auto simp: simulate_def)
qed

end
