(* ===== verification/Reconstruct.thy ===== *)
theory Reconstruct imports Money_Bars begin

text \<open>
  Coarser bars from base bars (\<open>signal/src/reconstruct.rs\<close>) and the live source that primes them from REST
  and stitches the stream onto them (\<open>hedger/src/live_kline.rs\<close>). A window sums its volume as a decimal,
  which may panic; its trade count wraps at 64 bits. Every operation returns its result and the state it
  leaves, also when the result is an error.
\<close>

section \<open>The roll-up\<close>

datatype recon_error =
    TargetNotCoarser resolution resolution
  | TargetNotMultiple resolution resolution
  | UnexpectedResolution resolution resolution
  | ReconInvalidBar domain_error

record roll_window =
  rw_start_ms :: i64
  rw_open :: price
  rw_high :: price
  rw_low :: price
  rw_close :: price
  rw_volume :: decimal
  rw_trades :: u64

definition window_open_from :: "bar \<Rightarrow> i64 \<Rightarrow> roll_window" where
  "window_open_from b start_ms = \<lparr>rw_start_ms = start_ms, rw_open = bar_open b, rw_high = bar_high b, rw_low = bar_low b,
     rw_close = bar_close b, rw_volume = qty_get (bar_volume b), rw_trades = bar_trades b\<rparr>"

definition window_fold :: "dec_arith \<Rightarrow> roll_window \<Rightarrow> bar \<Rightarrow> roll_window option" where
  "window_fold A w b =
     map_option (\<lambda>v. w\<lparr>rw_high := (if price_get (bar_high b) > price_get (rw_high w) then bar_high b else rw_high w),
         rw_low := (if price_get (bar_low b) < price_get (rw_low w) then bar_low b else rw_low w),
         rw_close := bar_close b, rw_volume := v, rw_trades := u64_add (rw_trades w) (bar_trades b)\<rparr>)
       (dec_add A (rw_volume w) (qty_get (bar_volume b)))"

definition window_finish :: "resolution \<Rightarrow> roll_window \<Rightarrow> (recon_error, bar) result" where
  "window_finish target w =
     (case qty_new (rw_volume w) of
        Inl e \<Rightarrow> Inl (ReconInvalidBar e)
      | Inr v \<Rightarrow> (case bar_new (rw_start_ms w) target (rw_open w) (rw_high w) (rw_low w) (rw_close w) v (rw_trades w) of
          Inl e \<Rightarrow> Inl (ReconInvalidBar e)
        | Inr b \<Rightarrow> Inr b))"

record reconstructor =
  rx_base :: resolution
  rx_target :: resolution
  rx_target_ms :: i64
  rx_current :: "roll_window option"

definition recon_new :: "resolution \<Rightarrow> resolution \<Rightarrow> (recon_error, reconstructor) result" where
  "recon_new base target =
     (if resolution_minutes target \<le> resolution_minutes base then Inl (TargetNotCoarser base target)
      else if resolution_minutes target mod resolution_minutes base \<noteq> 0 then Inl (TargetNotMultiple base target)
      else Inr \<lparr>rx_base = base, rx_target = target, rx_target_ms = int (resolution_minutes target) * 60000, rx_current = None\<rparr>)"

definition window_start :: "reconstructor \<Rightarrow> timestamp \<Rightarrow> i64" where
  "window_start r t = wrap_i64 (t div rx_target_ms r * rx_target_ms r)"

definition finish_option :: "resolution \<Rightarrow> roll_window option \<Rightarrow> (recon_error, bar option) result" where
  "finish_option target w =
     (case w of None \<Rightarrow> Inr None | Some w \<Rightarrow> (case window_finish target w of Inl e \<Rightarrow> Inl e | Inr b \<Rightarrow> Inr (Some b)))"

definition recon_push :: "dec_arith \<Rightarrow> reconstructor \<Rightarrow> bar \<Rightarrow> ((recon_error, bar option) result \<times> reconstructor) option" where
  "recon_push A r b =
     (if bar_resolution b \<noteq> rx_base r then Some (Inl (UnexpectedResolution (rx_base r) (bar_resolution b)), r)
      else let start_ms = window_start r (bar_open_time b)
           in case rx_current r of
             Some w \<Rightarrow>
               if rw_start_ms w = start_ms
               then map_option (\<lambda>w'. (Inr None, r\<lparr>rx_current := Some w'\<rparr>)) (window_fold A w b)
               else Some (finish_option (rx_target r) (Some w), r\<lparr>rx_current := Some (window_open_from b start_ms)\<rparr>)
           | None \<Rightarrow> Some (Inr None, r\<lparr>rx_current := Some (window_open_from b start_ms)\<rparr>))"

definition recon_finish :: "reconstructor \<Rightarrow> (recon_error, bar option) result \<times> reconstructor" where
  "recon_finish r = (finish_option (rx_target r) (rx_current r), r\<lparr>rx_current := None\<rparr>)"

fun recon_loop :: "dec_arith \<Rightarrow> reconstructor \<Rightarrow> bar list \<Rightarrow> ((recon_error, bar list) result \<times> reconstructor) option" where
  "recon_loop A r [] = Some (Inr [], r)"
| "recon_loop A r (b # bs) =
     Option.bind (recon_push A r b) (\<lambda>(done, r1).
       case done of
         Inl e \<Rightarrow> Some (Inl e, r1)
       | Inr d \<Rightarrow> map_option (\<lambda>(res, r2). (map_sum id ((@) (case d of None \<Rightarrow> [] | Some x \<Rightarrow> [x])) res, r2)) (recon_loop A r1 bs))"

definition reconstruct_batch :: "dec_arith \<Rightarrow> bar list \<Rightarrow> resolution \<Rightarrow> resolution \<Rightarrow> (recon_error, bar list) result option" where
  "reconstruct_batch A base_bars base target =
     (case recon_new base target of
        Inl e \<Rightarrow> Some (Inl e)
      | Inr r \<Rightarrow> map_option (\<lambda>(res, r'). res_bind res (\<lambda>out.
          case fst (recon_finish r') of Inl e \<Rightarrow> Inl e | Inr None \<Rightarrow> Inr out | Inr (Some d) \<Rightarrow> Inr (out @ [d])))
          (recon_loop A r base_bars))"

fun reconstruct_tiers :: "dec_arith \<Rightarrow> bar list \<Rightarrow> resolution \<Rightarrow> resolution list \<Rightarrow> (recon_error, bar list) result option" where
  "reconstruct_tiers A base_bars base [] = Some (Inr [])"
| "reconstruct_tiers A base_bars base (t # ts) =
     try_bind (reconstruct_batch A base_bars base t) (\<lambda>xs. try_bind (reconstruct_tiers A base_bars base ts) (\<lambda>ys. Some (Inr (xs @ ys))))"

section \<open>The live source\<close>

record live_kline =
  lk_base :: resolution
  lk_recons :: "reconstructor list"
  lk_last_open_ms :: "i64 option"

fun recons_new :: "resolution \<Rightarrow> resolution list \<Rightarrow> (recon_error, reconstructor list) result" where
  "recons_new base [] = Inr []"
| "recons_new base (t # ts) = res_bind (recon_new base t) (\<lambda>r. res_bind (recons_new base ts) (\<lambda>rs. Inr (r # rs)))"

definition live_kline_new :: "resolution \<Rightarrow> resolution list \<Rightarrow> (recon_error, live_kline) result" where
  "live_kline_new base tiers =
     res_bind (recons_new base tiers) (\<lambda>rs. Inr \<lparr>lk_base = base, lk_recons = rs, lk_last_open_ms = None\<rparr>)"

text \<open>One bar to every tier in order; a tier that fails leaves the ones after it untouched.\<close>

fun fan_out :: "dec_arith \<Rightarrow> bar \<Rightarrow> reconstructor list \<Rightarrow> ((recon_error, bar list) result \<times> reconstructor list) option" where
  "fan_out A b [] = Some (Inr [], [])"
| "fan_out A b (r # rs) =
     Option.bind (recon_push A r b) (\<lambda>(done, r1).
       case done of
         Inl e \<Rightarrow> Some (Inl e, r1 # rs)
       | Inr d \<Rightarrow> map_option (\<lambda>(res, rs'). (map_sum id ((@) (case d of None \<Rightarrow> [] | Some x \<Rightarrow> [x])) res, r1 # rs')) (fan_out A b rs))"

definition kline_accept :: "dec_arith \<Rightarrow> live_kline \<Rightarrow> bar \<Rightarrow> ((recon_error, bar list) result \<times> live_kline) option" where
  "kline_accept A s b =
     (if bar_resolution b \<noteq> lk_base s then Some (Inl (UnexpectedResolution (lk_base s) (bar_resolution b)), s)
      else if (case lk_last_open_ms s of None \<Rightarrow> False | Some marker \<Rightarrow> bar_open_time b \<le> marker) then Some (Inr [], s)
      else map_option (\<lambda>(res, rs). (res, s\<lparr>lk_last_open_ms := Some (bar_open_time b), lk_recons := rs\<rparr>))
             (fan_out A b (lk_recons s)))"

fun kline_prime :: "dec_arith \<Rightarrow> live_kline \<Rightarrow> bar list \<Rightarrow> ((recon_error, bar list) result \<times> live_kline) option" where
  "kline_prime A s [] = Some (Inr [], s)"
| "kline_prime A s (b # bs) =
     Option.bind (kline_accept A s b) (\<lambda>(res, s1).
       case res of
         Inl e \<Rightarrow> Some (Inl e, s1)
       | Inr xs \<Rightarrow> map_option (\<lambda>(res', s2). (map_sum id ((@) xs) res', s2)) (kline_prime A s1 bs))"

definition kline_push_live :: "dec_arith \<Rightarrow> live_kline \<Rightarrow> bar \<Rightarrow> ((recon_error, bar list) result \<times> live_kline) option" where
  "kline_push_live A s b = kline_accept A s b"

fun flush_all :: "reconstructor list \<Rightarrow> (recon_error, bar list) result \<times> reconstructor list" where
  "flush_all [] = (Inr [], [])"
| "flush_all (r # rs) =
     (case recon_finish r of
        (Inl e, r1) \<Rightarrow> (Inl e, r1 # rs)
      | (Inr d, r1) \<Rightarrow> (let (res, rs') = flush_all rs in (map_sum id ((@) (case d of None \<Rightarrow> [] | Some x \<Rightarrow> [x])) res, r1 # rs')))"

definition kline_finish :: "live_kline \<Rightarrow> (recon_error, bar list) result \<times> live_kline" where
  "kline_finish s = (let (res, rs) = flush_all (lk_recons s) in (res, s\<lparr>lk_recons := rs\<rparr>))"

section \<open>What a window holds\<close>

text \<open>
  The reference: the base bars of one window give its first open, highest high, lowest low, last close, the
  sum of the volumes and of the trades.
\<close>

definition highest :: "bar list \<Rightarrow> decimal" where "highest g = Max (set (map (price_get \<circ> bar_high) g))"
definition lowest :: "bar list \<Rightarrow> decimal" where "lowest g = Min (set (map (price_get \<circ> bar_low) g))"

lemma highest_simps:
  "highest [b] = price_get (bar_high b)"
  "g \<noteq> [] \<Longrightarrow> highest (g @ [b]) = max (price_get (bar_high b)) (highest g)"
  "b \<in> set g \<Longrightarrow> price_get (bar_high b) \<le> highest g"
  by (simp_all add: highest_def)

lemma lowest_simps:
  "lowest [b] = price_get (bar_low b)"
  "g \<noteq> [] \<Longrightarrow> lowest (g @ [b]) = min (price_get (bar_low b)) (lowest g)"
  "b \<in> set g \<Longrightarrow> lowest g \<le> price_get (bar_low b)"
  by (simp_all add: lowest_def)

definition rolled :: "reconstructor \<Rightarrow> bar list \<Rightarrow> bar" where
  "rolled r g = \<lparr>bar_open_time = window_start r (bar_open_time (hd g)), bar_resolution = rx_target r,
     bar_open = bar_open (hd g), bar_high = Price (highest g),
     bar_low = Price (lowest g), bar_close = bar_close (last g),
     bar_volume = Qty (sum_list (map (qty_get \<circ> bar_volume) g)),
     bar_trades = foldl (\<lambda>n b. u64_add n (bar_trades b)) (bar_trades (hd g)) (tl g)\<rparr>"

definition window_of :: "reconstructor \<Rightarrow> bar list \<Rightarrow> roll_window" where
  "window_of r g = \<lparr>rw_start_ms = window_start r (bar_open_time (hd g)), rw_open = bar_open (hd g),
     rw_high = Price (highest g), rw_low = Price (lowest g),
     rw_close = bar_close (last g), rw_volume = sum_list (map (qty_get \<circ> bar_volume) g),
     rw_trades = foldl (\<lambda>n b. u64_add n (bar_trades b)) (bar_trades (hd g)) (tl g)\<rparr>"

definition base_bar :: "resolution \<Rightarrow> bar \<Rightarrow> bool" where
  "base_bar base b \<longleftrightarrow> bar_resolution b = base \<and> valid_bar b \<and> valid_qty (bar_volume b)"

lemma window_of_single: "window_open_from b (window_start r (bar_open_time b)) = window_of r [b]"
  by (simp add: window_open_from_def window_of_def highest_simps lowest_simps)

lemma window_of_snoc:
  assumes A: "dec_exact A" and g: "g \<noteq> []" and run: "window_fold A (window_of r g) b = Some w"
  shows "w = window_of r (g @ [b])"
proof -
  obtain v where v: "dec_add A (rw_volume (window_of r g)) (qty_get (bar_volume b)) = Some v"
    using run by (auto simp: window_fold_def)
  then have "v = rw_volume (window_of r g) + qty_get (bar_volume b)" by (rule dec_exactD(1) [OF A])
  then show ?thesis
    using run v g by (auto simp: window_fold_def window_of_def highest_simps lowest_simps max_def min_def intro!: price.expand)
qed

lemma finish_window_of:
  assumes "g \<noteq> []" "list_all (base_bar base) g"
  shows "window_finish (rx_target r) (window_of r g) = Inr (rolled r g)"
proof -
  have each: "price_get (bar_low b) \<le> price_get (bar_open b)" "price_get (bar_open b) \<le> price_get (bar_high b)"
    "price_get (bar_low b) \<le> price_get (bar_close b)" "price_get (bar_close b) \<le> price_get (bar_high b)"
    if "b \<in> set g" for b
    using assms that by (auto simp: list_all_iff base_bar_def valid_bar_def)
  have "0 \<le> sum_list (map (qty_get \<circ> bar_volume) g)"
    using assms(2) by (intro sum_list_nonneg) (auto simp: list_all_iff base_bar_def valid_qty_def)
  then have "qty_new (rw_volume (window_of r g)) = Inr (bar_volume (rolled r g))"
    by (simp add: qty_new_ok valid_qty_def window_of_def rolled_def)
  moreover have "hd g \<in> set g" "last g \<in> set g" using assms(1) by simp_all
  then have "valid_bar (rolled r g)"
    using each [of "hd g"] each [of "last g"] highest_simps(3) [of "hd g" g] highest_simps(3) [of "last g" g]
      lowest_simps(3) [of "hd g" g] lowest_simps(3) [of "last g" g]
    by (simp add: valid_bar_def rolled_def)
  then have "bar_new (rw_start_ms (window_of r g)) (rx_target r) (rw_open (window_of r g)) (rw_high (window_of r g))
      (rw_low (window_of r g)) (rw_close (window_of r g)) (bar_volume (rolled r g)) (rw_trades (window_of r g)) = Inr (rolled r g)"
    unfolding bar_new_iff by (simp add: window_of_def rolled_def)
  ultimately show ?thesis by (simp add: window_finish_def)
qed

text \<open>Consecutive bars of one window.\<close>

fun groups_from :: "reconstructor \<Rightarrow> bar list \<Rightarrow> bar list \<Rightarrow> bar list list" where
  "groups_from r g [] = (if g = [] then [] else [g])"
| "groups_from r g (b # bs) =
     (if g = [] \<or> window_start r (bar_open_time (hd g)) = window_start r (bar_open_time b) then groups_from r (g @ [b]) bs
      else g # groups_from r [b] bs)"

lemma concat_groups: "concat (groups_from r g bs) = g @ bs"
  by (induction r g bs rule: groups_from.induct) auto

definition same_window :: "reconstructor \<Rightarrow> bar list \<Rightarrow> bool" where
  "same_window r g \<longleftrightarrow> (\<forall>b \<in> set g. window_start r (bar_open_time b) = window_start r (bar_open_time (hd g)))"

lemma same_window_simps: "same_window r []" "same_window r [b]"
  "g \<noteq> [] \<Longrightarrow> same_window r g \<Longrightarrow> window_start r (bar_open_time (hd g)) = window_start r (bar_open_time b) \<Longrightarrow> same_window r (g @ [b])"
  by (auto simp: same_window_def)

lemma groups_window: "same_window r g \<Longrightarrow> list_all (\<lambda>h. h \<noteq> [] \<and> same_window r h) (groups_from r g bs)"
proof (induction r g bs rule: groups_from.induct)
  case (2 r g b bs)
  then show ?case by (cases "g = []") (simp_all add: same_window_simps)
qed simp

lemma groups_separate:
  "successively (\<lambda>h k. window_start r (bar_open_time (hd h)) \<noteq> window_start r (bar_open_time (hd k))) (groups_from r g bs) \<and>
   (g \<noteq> [] \<longrightarrow> groups_from r g bs \<noteq> [] \<and> hd (hd (groups_from r g bs)) = hd g) "
  by (induction r g bs rule: groups_from.induct) (auto simp: successively_Cons)

definition current_group :: "reconstructor \<Rightarrow> bar list \<Rightarrow> bool" where
  "current_group r g \<longleftrightarrow> rx_current r = (if g = [] then None else Some (window_of r g))"

lemma recon_keeps [simp]:
  "window_of (r\<lparr>rx_current := w\<rparr>) = window_of r" "rolled (r\<lparr>rx_current := w\<rparr>) = rolled r"
  "window_start (r\<lparr>rx_current := w\<rparr>) = window_start r" "groups_from (r\<lparr>rx_current := w\<rparr>) g bs = groups_from r g bs"
proof -
  show st: "window_start (r\<lparr>rx_current := w\<rparr>) = window_start r" by (simp add: window_start_def fun_eq_iff)
  show "window_of (r\<lparr>rx_current := w\<rparr>) = window_of r" "rolled (r\<lparr>rx_current := w\<rparr>) = rolled r"
    by (simp_all add: window_of_def rolled_def st fun_eq_iff)
  show "groups_from (r\<lparr>rx_current := w\<rparr>) g bs = groups_from r g bs"
    by (induction bs arbitrary: g) (simp_all add: st)
qed

text \<open>The loop gives the groups but the last, which stays in progress.\<close>

lemma recon_loop_groups:
  assumes "dec_exact A" "list_all (base_bar (rx_base r)) (g @ bs)" "current_group r g" "recon_loop A r bs = Some (res, r')"
  shows "\<exists>out. res = Inr out \<and> out @ (case rx_current r' of None \<Rightarrow> [] | Some w \<Rightarrow> [case window_finish (rx_target r) w of Inr x \<Rightarrow> x]) =
      map (rolled r) (groups_from r g bs) \<and>
    (case rx_current r' of None \<Rightarrow> True | Some w \<Rightarrow> (\<exists>x. window_finish (rx_target r) w = Inr x)) \<and> rx_target r' = rx_target r"
  using assms(2-4)
proof (induction bs arbitrary: r g res)
  case Nil
  then show ?case
    using finish_window_of [of g "rx_base r" r] by (auto simp: current_group_def)
next
  case (Cons b bs)
  have res: "bar_resolution b = rx_base r" using Cons.prems(1) by (simp add: base_bar_def)
  let ?st = "window_start r (bar_open_time b)"
  show ?case
  proof (cases "g = [] \<or> window_start r (bar_open_time (hd g)) = ?st")
    case True
    obtain r1 where push: "recon_push A r b = Some (Inr None, r1)" "r1 = r\<lparr>rx_current := Some (window_of r (g @ [b]))\<rparr>"
    proof (cases "g = []")
      case True
      then show ?thesis using that Cons.prems(2) res
        by (auto simp: recon_push_def current_group_def window_of_single Let_def)
    next
      case False
      then have st: "rw_start_ms (window_of r g) = ?st" using \<open>g = [] \<or> _\<close> by (simp add: window_of_def)
      obtain w where "window_fold A (window_of r g) b = Some w"
        using Cons.prems(2,3) False st res by (auto simp: recon_push_def current_group_def Let_def bind_eq_Some_conv)
      with window_of_snoc [OF assms(1) False this] st False Cons.prems(2) res that show ?thesis
        by (auto simp: recon_push_def current_group_def Let_def)
    qed
    obtain res1 where rest: "recon_loop A r1 bs = Some (res1, r')" "res = map_sum id ((@) []) res1"
      using Cons.prems(3) push(1) by auto
    have "list_all (base_bar (rx_base r1)) ((g @ [b]) @ bs)" "current_group r1 (g @ [b])"
      using Cons.prems(1) push(2) by (simp_all add: current_group_def)
    from Cons.IH [OF this rest(1)] True push(2) rest(2) show ?thesis by (auto split: option.splits)
  next
    case False
    then have st: "rw_start_ms (window_of r g) \<noteq> ?st" by (simp add: window_of_def)
    let ?r1 = "r\<lparr>rx_current := Some (window_of r [b])\<rparr>"
    have "window_finish (rx_target r) (window_of r g) = Inr (rolled r g)"
      using False Cons.prems(1) by (intro finish_window_of [of g "rx_base r"]) auto
    then have push: "recon_push A r b = Some (Inr (Some (rolled r g)), ?r1)"
      using False st Cons.prems(2) res by (simp add: recon_push_def current_group_def Let_def finish_option_def window_of_single)
    obtain res1 where rest: "recon_loop A ?r1 bs = Some (res1, r')" "res = map_sum id ((@) [rolled r g]) res1"
      using Cons.prems(3) push by auto
    have "list_all (base_bar (rx_base ?r1)) ([b] @ bs)" "current_group ?r1 [b]"
      using Cons.prems(1) by (simp_all add: current_group_def)
    from Cons.IH [OF this rest(1)] False rest(2) show ?thesis by (auto split: option.splits)
  qed
qed

text \<open>
  A roll-up is exact. Over base bars in any order, a target that is a coarser multiple of the base gives,
  unless a volume sum panics and as long as none rounds, one bar per run of bars of one window and never an error: its time the start
  of the window, its open and close the first and last, its high and low the extremes, its volume and trade
  count the sums of the run; the runs put together are the input, none is empty, each lies in one window
  and consecutive ones in different windows.
\<close>

theorem roll_up_is_exact:
  assumes "dec_exact A" "list_all (base_bar base) bars" "recon_new base target = Inr r"
    and "reconstruct_batch A bars base target = Some res"
  shows "res = Inr (map (rolled r) (groups_from r [] bars)) \<and> concat (groups_from r [] bars) = bars \<and>
     list_all (\<lambda>g. g \<noteq> [] \<and> same_window r g) (groups_from r [] bars) \<and>
     successively (\<lambda>g h. window_start r (bar_open_time (hd g)) \<noteq> window_start r (bar_open_time (hd h))) (groups_from r [] bars)"
proof -
  have r: "rx_base r = base" "rx_current r = None" using assms(3) by (auto simp: recon_new_def split: if_splits)
  obtain res1 r' where loop: "recon_loop A r bars = Some (res1, r')"
    "res = res_bind res1 (\<lambda>out. case fst (recon_finish r') of Inl e \<Rightarrow> Inl e | Inr None \<Rightarrow> Inr out | Inr (Some d) \<Rightarrow> Inr (out @ [d]))"
    using assms(3,4) by (auto simp: reconstruct_batch_def)
  have "list_all (base_bar (rx_base r)) ([] @ bars)" "current_group r []" using assms(2) r by (simp_all add: current_group_def)
  from recon_loop_groups [OF assms(1) this loop(1)] obtain out where out: "res1 = Inr out"
    "out @ (case rx_current r' of None \<Rightarrow> [] | Some w \<Rightarrow> [case window_finish (rx_target r) w of Inr x \<Rightarrow> x]) =
      map (rolled r) (groups_from r [] bars)"
    "case rx_current r' of None \<Rightarrow> True | Some w \<Rightarrow> \<exists>x. window_finish (rx_target r) w = Inr x" "rx_target r' = rx_target r"
    by blast
  then have "res = Inr (map (rolled r) (groups_from r [] bars))"
    using loop(2) by (cases "rx_current r'") (auto simp: recon_finish_def finish_option_def)
  then show ?thesis
    using concat_groups [of r "[]" bars] groups_window [OF same_window_simps(1), of r bars] groups_separate [of r "[]" bars] by simp
qed

section \<open>The live source is the batch\<close>

text \<open>The bars that pass the stitch marker.\<close>

fun stitched :: "i64 option \<Rightarrow> bar list \<Rightarrow> bar list" where
  "stitched m [] = []"
| "stitched m (b # bs) =
     (if (case m of None \<Rightarrow> False | Some t \<Rightarrow> bar_open_time b \<le> t) then stitched m bs
      else b # stitched (Some (bar_open_time b)) bs)"

lemma stitched_ascending:
  "sorted_wrt (\<lambda>a b. bar_open_time a < bar_open_time b) (stitched m bs) \<and>
   (\<forall>t. m = Some t \<longrightarrow> (\<forall>b \<in> set (stitched m bs). t < bar_open_time b))"
  by (induction m bs rule: stitched.induct) (force split: option.splits)+

lemma push_target: "recon_push A r b = Some (res, r1) \<Longrightarrow> rx_target r1 = rx_target r"
  by (auto simp: recon_push_def Let_def split: if_splits option.splits)

lemma push_resolution: "recon_push A r b = Some (Inr (Some d), r1) \<Longrightarrow> bar_resolution d = rx_target r"
  by (auto simp: recon_push_def finish_option_def window_finish_def Let_def bar_new_iff split: if_splits option.splits sum.splits)

lemma map_sum_Inr: "map_sum id f x = Inr y \<longleftrightarrow> (\<exists>z. x = Inr z \<and> y = f z)"
  by (cases x) auto

lemma fan_out_Cons:
  assumes "fan_out A b (q # qs) = Some (Inr out, rs')"
  obtains d q1 out1 qs1 where "recon_push A q b = Some (Inr d, q1)" "fan_out A b qs = Some (Inr out1, qs1)"
    "out = (case d of None \<Rightarrow> [] | Some x \<Rightarrow> [x]) @ out1" "rs' = q1 # qs1"
proof -
  obtain o1 q1 where push: "recon_push A q b = Some (o1, q1)" using assms by (auto simp: bind_eq_Some_conv)
  then obtain d where "o1 = Inr d" using assms by (cases o1) auto
  then show ?thesis using that push assms by (auto simp: map_sum_Inr)
qed

lemma fan_out_tier:
  assumes "fan_out A b rs = Some (Inr out, rs')" "distinct (map rx_target rs)" "r \<in> set rs"
  shows "\<exists>d r1. recon_push A r b = Some (Inr d, r1) \<and> r1 \<in> set rs' \<and>
     filter (\<lambda>x. bar_resolution x = rx_target r) out = (case d of None \<Rightarrow> [] | Some x \<Rightarrow> [x])"
  using assms
proof (induction A b rs arbitrary: out rs' rule: fan_out.induct)
  case (2 A b q qs)
  obtain d q1 out1 qs1 where q: "recon_push A q b = Some (Inr d, q1)" "fan_out A b qs = Some (Inr out1, qs1)"
    "out = (case d of None \<Rightarrow> [] | Some x \<Rightarrow> [x]) @ out1" "rs' = q1 # qs1"
    using fan_out_Cons [OF "2.prems"(1)] by blast
  have other: "filter (\<lambda>x. bar_resolution x = t) out1 = []" if "t \<notin> rx_target ` set qs" for t
    using q(2) that
  proof (induction qs arbitrary: out1 qs1)
    case (Cons p ps)
    obtain e p1 out2 ps1 where "recon_push A p b = Some (Inr e, p1)" "fan_out A b ps = Some (Inr out2, ps1)"
      "out1 = (case e of None \<Rightarrow> [] | Some x \<Rightarrow> [x]) @ out2" "qs1 = p1 # ps1"
      by (rule fan_out_Cons [OF Cons.prems(1)])
    then show ?case using Cons.IH [of out2 ps1] Cons.prems(2) push_resolution [of A p b _ p1] by (cases e) auto
  qed simp
  show ?case
  proof (cases "r = q")
    case True
    then show ?thesis using q other [of "rx_target q"] "2.prems"(2) push_resolution [of A q b] by (auto split: option.splits)
  next
    case False
    then have "r \<in> set qs" using "2.prems"(3) by simp
    moreover from this have "rx_target r \<noteq> rx_target q" using "2.prems"(2) by (auto simp: image_iff)
    moreover have "distinct (map rx_target qs)" using "2.prems"(2) by simp
    ultimately obtain e r1 where e: "recon_push A r b = Some (Inr e, r1)" "r1 \<in> set qs1"
      "filter (\<lambda>x. bar_resolution x = rx_target r) out1 = (case e of None \<Rightarrow> [] | Some x \<Rightarrow> [x])" "rx_target r \<noteq> rx_target q"
      using "2.IH" [OF q(1) refl refl q(2)] by blast
    then show ?thesis
      using q push_resolution [of A q b _ q1] by (intro exI [of _ e] exI [of _ r1]) (cases d; auto)
  qed
qed simp

lemma fan_out_targets: "fan_out A b rs = Some (Inr out, rs') \<Longrightarrow> map rx_target rs' = map rx_target rs"
proof (induction rs arbitrary: out rs')
  case (Cons q qs)
  obtain d q1 out1 qs1 where "recon_push A q b = Some (Inr d, q1)" "fan_out A b qs = Some (Inr out1, qs1)" "rs' = q1 # qs1"
    by (rule fan_out_Cons [OF Cons.prems])
  then show ?case using Cons.IH [of out1 qs1] push_target [of A q b _ q1] by simp
qed simp

lemma kline_prime_Cons:
  assumes "kline_prime A s (b # bs) = Some (Inr out, s')"
  obtains xs s1 ys where "kline_accept A s b = Some (Inr xs, s1)" "kline_prime A s1 bs = Some (Inr ys, s')" "out = xs @ ys"
proof -
  obtain o1 s1 where acc: "kline_accept A s b = Some (o1, s1)" using assms by (auto simp: bind_eq_Some_conv)
  then obtain xs where "o1 = Inr xs" using assms by (cases o1) auto
  then show ?thesis using that acc assms by (auto simp: map_sum_Inr)
qed

lemma recon_loop_Cons:
  "recon_push A r b = Some (Inr d, r1) \<Longrightarrow> recon_loop A r1 bs = Some (Inr ys, r') \<Longrightarrow>
   recon_loop A r (b # bs) = Some (Inr ((case d of None \<Rightarrow> [] | Some x \<Rightarrow> [x]) @ ys), r')"
  by simp

lemma kline_prime_tier:
  assumes "kline_prime A s bars = Some (Inr out, s')" "distinct (map rx_target (lk_recons s))" "r \<in> set (lk_recons s)"
  shows "\<exists>r'. recon_loop A r (stitched (lk_last_open_ms s) bars) = Some (Inr (filter (\<lambda>x. bar_resolution x = rx_target r) out), r') \<and>
     r' \<in> set (lk_recons s') \<and> rx_target r' = rx_target r \<and> map rx_target (lk_recons s') = map rx_target (lk_recons s)"
  using assms
proof (induction bars arbitrary: s r out)
  case (Cons b bars)
  obtain xs s1 ys where run: "kline_accept A s b = Some (Inr xs, s1)" "kline_prime A s1 bars = Some (Inr ys, s')" "out = xs @ ys"
    by (rule kline_prime_Cons [OF Cons.prems(1)])
  show ?case
  proof (cases "case lk_last_open_ms s of None \<Rightarrow> False | Some marker \<Rightarrow> bar_open_time b \<le> marker")
    case True
    then have "xs = []" "s1 = s" using run(1) by (auto simp: kline_accept_def split: if_splits)
    then show ?thesis using Cons.IH [OF run(2)] Cons.prems(2,3) True run(3) by simp
  next
    case False
    then obtain rs where fan: "fan_out A b (lk_recons s) = Some (Inr xs, rs)"
      "s1 = s\<lparr>lk_last_open_ms := Some (bar_open_time b), lk_recons := rs\<rparr>"
      using run(1) by (auto simp: kline_accept_def split: if_splits)
    obtain d r1 where push: "recon_push A r b = Some (Inr d, r1)" "r1 \<in> set rs"
      "filter (\<lambda>x. bar_resolution x = rx_target r) xs = (case d of None \<Rightarrow> [] | Some x \<Rightarrow> [x])"
      using fan_out_tier [OF fan(1) Cons.prems(2,3)] by blast
    have targets: "map rx_target (lk_recons s1) = map rx_target (lk_recons s)" "rx_target r1 = rx_target r"
      using fan_out_targets [OF fan(1)] fan(2) push_target [OF push(1)] by simp_all
    obtain r' where rest: "recon_loop A r1 (stitched (Some (bar_open_time b)) bars) =
        Some (Inr (filter (\<lambda>x. bar_resolution x = rx_target r) ys), r')"
      "r' \<in> set (lk_recons s')" "rx_target r' = rx_target r" "map rx_target (lk_recons s') = map rx_target (lk_recons s)"
      using Cons.IH [OF run(2), of r1] Cons.prems(2) targets push(2) fan(2) by auto
    have "stitched (lk_last_open_ms s) (b # bars) = b # stitched (Some (bar_open_time b)) bars" using False by simp
    then show ?thesis
      using recon_loop_Cons [OF push(1) rest(1)] rest(2-4) push(3) run(3) by (intro exI [of _ r']) (simp only: filter_append)
  qed
qed simp

lemma flush_tier:
  assumes "flush_all rs = (Inr out, rs')" "distinct (map rx_target rs)" "r \<in> set rs"
  shows "\<exists>d. fst (recon_finish r) = Inr d \<and> filter (\<lambda>x. bar_resolution x = rx_target r) out = (case d of None \<Rightarrow> [] | Some x \<Rightarrow> [x])"
  using assms
proof (induction rs arbitrary: out rs')
  case (Cons q qs)
  have res: "bar_resolution x = rx_target p" if "fst (recon_finish p) = Inr (Some x)" for p x
    using that by (auto simp: recon_finish_def finish_option_def window_finish_def bar_new_iff split: option.splits sum.splits)
  obtain o1 q1 where fin: "recon_finish q = (o1, q1)" by (cases "recon_finish q")
  then obtain d where d: "o1 = Inr d" using Cons.prems(1) by (cases o1) auto
  obtain out1 qs1 where rest: "flush_all qs = (Inr out1, qs1)" "out = (case d of None \<Rightarrow> [] | Some x \<Rightarrow> [x]) @ out1"
    using Cons.prems(1) fin d by (cases "flush_all qs") (auto simp: map_sum_Inr)
  have other: "filter (\<lambda>x. bar_resolution x = t) out1 = []" if "t \<notin> rx_target ` set qs" for t
    using rest(1) that
  proof (induction qs arbitrary: out1 qs1)
    case (Cons p ps)
    obtain o2 p1 where fin: "recon_finish p = (o2, p1)" by (cases "recon_finish p")
    then obtain e where e: "o2 = Inr e" using Cons.prems(1) by (cases o2) auto
    obtain out2 ps1 where "flush_all ps = (Inr out2, ps1)" "out1 = (case e of None \<Rightarrow> [] | Some x \<Rightarrow> [x]) @ out2"
      using Cons.prems(1) fin e by (cases "flush_all ps") (auto simp: map_sum_Inr)
    then show ?case using Cons.IH [of out2 ps1] Cons.prems(2) res [of p] fin e by (cases e) auto
  qed simp
  show ?case
  proof (cases "r = q")
    case True
    then show ?thesis using fin d rest other [of "rx_target q"] Cons.prems(2) res [of q] by (cases d) auto
  next
    case False
    then have "r \<in> set qs" using Cons.prems(3) by simp
    moreover from this have "rx_target r \<noteq> rx_target q" using Cons.prems(2) by (auto simp: image_iff)
    moreover have "distinct (map rx_target qs)" using Cons.prems(2) by simp
    ultimately obtain e where "fst (recon_finish r) = Inr e"
      "filter (\<lambda>x. bar_resolution x = rx_target r) out1 = (case e of None \<Rightarrow> [] | Some x \<Rightarrow> [x])" "rx_target r \<noteq> rx_target q"
      using Cons.IH [OF rest(1)] by blast
    then show ?thesis using rest(2) fin d res [of q] by (intro exI [of _ e]) (cases d; auto)
  qed
qed simp

lemma recons_new_tiers:
  "recons_new base tiers = Inr rs \<Longrightarrow> map rx_target rs = tiers \<and> (\<forall>r \<in> set rs. recon_new base (rx_target r) = Inr r)"
proof (induction tiers arbitrary: rs)
  case (Cons t ts)
  have "rx_target r = t" if "recon_new base t = Inr r" for r using that by (auto simp: recon_new_def split: if_splits)
  with Cons show ?case by (auto simp: res_bind_Inr)
qed simp

text \<open>
  C34. The live source is the batch. With distinct tiers, and as long as no step errs or panics: primed with
  any base bars, fed any live bars after them (a live bar is
  accepted as a primed one is) and flushed, the source gives for every tier exactly the bars the batch
  reconstruction gives on the stitched sequence, which is the ascending part of what it was fed: an overlap
  of the two feeds, or a late bar, changes nothing.
\<close>

theorem live_source_is_batch:
  assumes "live_kline_new base tiers = Inr s" "distinct tiers" "t \<in> set tiers"
    and "kline_prime A s (rest @ live) = Some (Inr out, s1)" "kline_finish s1 = (Inr flushed, s2)"
  shows "reconstruct_batch A (stitched None (rest @ live)) base t =
      Some (Inr (filter (\<lambda>b. bar_resolution b = t) (out @ flushed))) \<and>
     sorted_wrt (\<lambda>a b. bar_open_time a < bar_open_time b) (stitched None (rest @ live))"
proof -
  obtain rs where new: "recons_new base tiers = Inr rs" "s = \<lparr>lk_base = base, lk_recons = rs, lk_last_open_ms = None\<rparr>"
    using assms(1) by (auto simp: live_kline_new_def res_bind_Inr)
  have rs: "map rx_target rs = tiers" "\<And>r. r \<in> set rs \<Longrightarrow> recon_new base (rx_target r) = Inr r"
    using recons_new_tiers [OF new(1)] by auto
  then obtain r where r: "r \<in> set rs" "rx_target r = t" using assms(3) by (metis imageE set_map)
  obtain r' where loop: "recon_loop A r (stitched None (rest @ live)) = Some (Inr (filter (\<lambda>x. bar_resolution x = t) out), r')"
    "r' \<in> set (lk_recons s1)" "rx_target r' = t" "map rx_target (lk_recons s1) = tiers"
    using kline_prime_tier [OF assms(4), of r] r rs(1) assms(2) new(2) by auto
  obtain rs2 where "flush_all (lk_recons s1) = (Inr flushed, rs2)"
    using assms(5) by (auto simp: kline_finish_def Let_def split: prod.splits)
  then obtain d where d: "fst (recon_finish r') = Inr d"
    "filter (\<lambda>x. bar_resolution x = t) flushed = (case d of None \<Rightarrow> [] | Some x \<Rightarrow> [x])"
    using flush_tier [of "lk_recons s1" flushed rs2 r'] loop(2-4) assms(2) by auto
  then show ?thesis
    using loop(1) rs(2) [OF r(1)] r(2) stitched_ascending [of None "rest @ live"]
    by (cases d) (simp_all add: reconstruct_batch_def)
qed

definition feed_bar :: "timestamp \<Rightarrow> decimal \<Rightarrow> bar" where
  "feed_bar t p = \<lparr>bar_open_time = t, bar_resolution = M5, bar_open = Price p, bar_high = Price (p + 2), bar_low = Price (p - 2),
     bar_close = Price (p + 1), bar_volume = Qty 10, bar_trades = 3\<rparr>"

text \<open>Two primed bars, the second delivered again by the stream, then a bar of the next half hour.\<close>

definition primed_bars :: "bar list" where "primed_bars = [feed_bar 0 100, feed_bar 300000 103]"
definition live_bars :: "bar list" where "live_bars = [feed_bar 300000 103, feed_bar 1800000 104]"

definition half_hour :: "timestamp \<Rightarrow> decimal \<Rightarrow> decimal \<Rightarrow> decimal \<Rightarrow> decimal \<Rightarrow> decimal \<Rightarrow> u64 \<Rightarrow> bar" where
  "half_hour t op hi lo cl v n = \<lparr>bar_open_time = t, bar_resolution = M30, bar_open = Price op, bar_high = Price hi,
     bar_low = Price lo, bar_close = Price cl, bar_volume = Qty v, bar_trades = n\<rparr>"

lemmas feed_simps = feed_bar_def primed_bars_def live_bars_def half_hour_def live_kline_new_def recon_new_def kline_accept_def
  recon_push_def window_start_def window_open_from_def window_fold_def window_finish_def finish_option_def kline_finish_def
  recon_finish_def Let_def bounded_dec_def qty_new_def bar_new_def wrap_i64_def u64_add_def

theorem live_source_is_batch_witness:
  "reconstruct_batch (bounded_dec 1000) (stitched None (primed_bars @ live_bars)) M5 M30 =
     Some (Inr [half_hour 0 100 105 98 104 20 6, half_hour 1800000 104 106 102 105 10 3])"
proof -
  let ?r = "\<lambda>w. \<lparr>rx_base = M5, rx_target = M30, rx_target_ms = 1800000, rx_current = w\<rparr>"
  let ?w = "window_open_from (feed_bar 1800000 104) 1800000"
  have "live_kline_new M5 [M30] = Inr \<lparr>lk_base = M5, lk_recons = [?r None], lk_last_open_ms = None\<rparr>"
    by (simp add: live_kline_new_def recon_new_def)
  moreover have "kline_prime (bounded_dec 1000) \<lparr>lk_base = M5, lk_recons = [?r None], lk_last_open_ms = None\<rparr> (primed_bars @ live_bars) =
      Some (Inr [half_hour 0 100 105 98 104 20 6], \<lparr>lk_base = M5, lk_recons = [?r (Some ?w)], lk_last_open_ms = Some 1800000\<rparr>)"
    by (simp add: feed_simps)
  moreover have "kline_finish \<lparr>lk_base = M5, lk_recons = [?r (Some ?w)], lk_last_open_ms = Some 1800000\<rparr> =
      (Inr [half_hour 1800000 104 106 102 105 10 3], \<lparr>lk_base = M5, lk_recons = [?r None], lk_last_open_ms = Some 1800000\<rparr>)"
    by (simp add: feed_simps)
  ultimately show ?thesis
    using live_source_is_batch [of M5 "[M30]" _ M30 "bounded_dec 1000" primed_bars live_bars] by (simp add: half_hour_def)
qed

end
