(* ===== verification/Spec2Isabelle.thy ===== *)
theory Spec2Isabelle
  imports Cutover Planner_Link Pretrade Rest_Client Stream_Registry Store_Facts Pool_Lifecycle Catalogue
    Ingest_Persist Ingest_Quality Ingest_Binance Steer Run_Histories Run_Restart Runs_Api Pool_Histories Cv_Geometry Backtest_Facts Reconstruct
begin

text \<open>
  The verification development of the quant engine (the Rust workspace under \<open>src/crates\<close>).

  The program. The engine is one offline pipeline and one live pipeline that share a vocabulary.
  Offline, \<open>ingest\<close> fetches market data and fuses it onto a grid, \<open>storage\<close> keeps it by instrument,
  resolution and time with its provenance, \<open>signal\<close> turns bars into quantised factors (a fixed
  catalogue and evolved formulas) over which genomes decide, and the search crates select strategies
  that are sealed into a vintage. Live, \<open>venue\<close> speaks to the exchange (rate limiter, REST client,
  streams, user-data session), \<open>hedger\<close> rebuilds its state, evaluates the vintage's strategies on
  every bar and checks the result against the risk caps (\<open>risk\<close>), and \<open>edge\<close> turns target positions
  into orders behind the kill switch. The formula pool and the vintage are content-addressed
  artefacts that both pipelines read.

  Theories and code, in import order.

  \<^item> \<open>Prelude\<close>: machine integers, results, panics, decimals, rendering, list facts. \<open>Domain_Types\<close>,
    \<open>Money_Bars\<close>: \<open>domain/src\<close> (instants, resolutions, sides, instruments, money, bars).
  \<^item> \<open>Error_Taxonomy\<close>: \<open>error/src/lib.rs\<close> and the skew guard of \<open>clock/src\<close>. \<open>Kill_Switch\<close>:
    \<open>risk/src/kill.rs\<close>, \<open>gate.rs\<close>. \<open>User_Data\<close>: \<open>venue/src/userdata.rs\<close>.
  \<^item> \<open>Edge_Gateway\<close>, \<open>Kill_Gate\<close>, \<open>Planner_Link\<close>: \<open>edge/src/edge.rs\<close>, \<open>kill_gate.rs\<close>,
    \<open>transport.rs\<close>: the order lifecycle, the halt at the venue adapter, and the link that carries
    target revisions from the planner to the keeper.
  \<^item> \<open>Risk_Limits\<close>, \<open>Pretrade\<close>: \<open>risk/src/limit.rs\<close> and \<open>hedger/src/pretrade.rs\<close>. \<open>Breaker\<close>,
    \<open>Live_Breakers\<close>: \<open>risk/src/breaker.rs\<close>, \<open>hedger/src/boot_state.rs\<close>, \<open>live_breakers.rs\<close>.
  \<^item> \<open>Byte_Codec\<close>, \<open>Feature_Vector\<close>, \<open>Genome\<close>: \<open>signal/src/indicator/quant.rs\<close>, \<open>feature.rs\<close>,
    \<open>genome.rs\<close>. \<open>Evaluator\<close>, \<open>Cutover\<close>: \<open>hedger/src/factor_join.rs\<close>, \<open>evaluator.rs\<close>, \<open>cutover.rs\<close>.
  \<^item> \<open>Rate_Limiter\<close>, \<open>Rest_Client\<close>, \<open>Stream_Registry\<close>: \<open>venue/src/ratelimit.rs\<close>, \<open>rest.rs\<close>,
    \<open>stream.rs\<close>, \<open>registry.rs\<close>.
  \<^item> \<open>Storage_Key\<close>, \<open>Store_Engine\<close>, \<open>Market_Store\<close>, \<open>Store_Facts\<close>: \<open>storage/src\<close>: key encoding, the
    five databases, the provenance index, and the facts about whole stores.
  \<^item> \<open>Artefact_Fs\<close>, \<open>Formula_Pool\<close>, \<open>Pool_Lifecycle\<close>, \<open>Vintage\<close>: \<open>formula-pool/src\<close>, \<open>vintage/src\<close>
    and \<open>hedger/src/vintage_rollover.rs\<close>.
  \<^item> \<open>Rolling\<close>, \<open>Price_Kernels\<close>, \<open>Window_Facts\<close>, \<open>Oscillators\<close>: \<open>signal/src/indicator/roll.rs\<close>,
    \<open>mod.rs\<close>, \<open>price.rs\<close>, \<open>flow.rs\<close>. \<open>Expr_Tree\<close>, \<open>Expr_Window\<close>, \<open>Expr_Repair\<close>, \<open>Expr_Text\<close>,
    \<open>Expr_Canon\<close>: \<open>signal/src/indicator/expr.rs\<close>. \<open>Catalogue\<close>: the ordered catalogue with an injected
    pool and the identity a vintage is sealed against.
  \<^item> \<open>Reconstruct\<close>: \<open>signal/src/reconstruct.rs\<close> and \<open>hedger/src/live_kline.rs\<close>: base bars rolled up
    to coarser ones, in one batch and over the stitched live feed.
  \<^item> \<open>Ordered_Map\<close>, \<open>Text_Ascii\<close>: the ordered maps and the ASCII text operations the later theories share.
    \<open>Ingest_Series\<close>, \<open>Ingest_Fuse\<close>, \<open>Ingest_Backfill\<close>, \<open>Ingest_Binance\<close>, \<open>Ingest_Persist\<close>, \<open>Ingest_Quality\<close>:
    \<open>ingest/src\<close>: series checks and gap filling, fusion onto the grid, paginated backfill, the exchange's
    rows, the write to the store and the quality report. \<open>Universe\<close>, \<open>Dump_Plan\<close>, \<open>Dump_Sync\<close>: the tradable
    universe, the plan of the public dumps and their verified download.
  \<^item> \<open>Friction\<close>, \<open>Fitness\<close>, \<open>Backtest\<close>, \<open>Backtest_Facts\<close>: \<open>wfo/src/friction.rs\<close>, \<open>fitness.rs\<close>, \<open>backtest.rs\<close>,
    \<open>cv_fitness.rs\<close> and \<open>risk/src/shocks.rs\<close>. \<open>Cv_Geometry\<close>: which bars are trained and judged on
    (\<open>wfo/src/cv.rs\<close>, \<open>walkforward.rs\<close>, \<open>validation/src/cpcv.rs\<close>, \<open>pbo.rs\<close>). \<open>Steer\<close>: \<open>validation/src/steer.rs\<close>.
  \<^item> \<open>Run_Model\<close>, \<open>Run_Store\<close>, \<open>Run_Drain\<close>, \<open>Run_Manager\<close>: \<open>run-protocol/src\<close> and \<open>server/src/runs\<close>: specs
    and their validation, the run store, the worker's event stream, the manager's handlers and worker tasks.
    \<open>Run_Events\<close>, \<open>Run_Facts\<close>, \<open>Run_Invariant\<close>, \<open>Run_Lanes\<close>, \<open>Run_Safety\<close>: its interleavings as a step relation
    and their invariants. \<open>Run_Histories\<close>, \<open>Run_Restart\<close>: concrete histories and the restart.
    \<open>Runs_Api\<close>: \<open>server/src/runs/api.rs\<close>.
  \<^item> \<open>Audit_Log\<close>, \<open>Server_Auth\<close>: \<open>server/src/audit.rs\<close>, \<open>auth\<close>. \<open>Pool_Seal\<close>, \<open>Pool_Server\<close>, \<open>Pool_Safety\<close>,
    \<open>Pool_Histories\<close>: \<open>server/src/pool_seal.rs\<close>, \<open>pools.rs\<close>: the evidence of a seal, the governance routes as
    tasks that interleave, what every history keeps, and concrete histories.

  Correspondence. A struct is a record, an enum a datatype with the source's variants, a method an
  operation from the state before to the state after. A \<open>Result\<close> is a sum with the error on the left;
  a panic is \<open>None\<close>. An \<open>i64\<close> is an integer whose plain operations wrap (the release profile has no
  overflow checks) and whose saturating ones saturate; unsigned counters are naturals with their
  modulus written where the code can reach it. A \<open>Decimal\<close> is the rational it denotes; its arithmetic
  is a parameter (\<open>dec_arith\<close>, \<open>dec_math\<close>) that may answer \<open>None\<close> for the package's panic on overflow, and
  that may round: what is assumed of a sum that does not fit is \<open>dec_rounded\<close> (order, signs and integers are kept,
  and different decimals stay different). A theorem about runs on which nothing rounds says so.
  Clocks, transports, connections, random jitter, SHA-256, JSON text and the file system are
  parameters, each with its documented behaviour as a named hypothesis where a property needs it.

  Interfaces. Where one component relies on another the contract is a locale, interpreted on the
  model's own definitions: the order gate (\<open>Kill_Switch\<close>, provided by \<open>Kill_Gate\<close>), latching states
  (\<open>Prelude\<close>), windowed kernels (\<open>fir_kernel\<close> of \<open>Rolling\<close>, provided by the bar, scalar and formula
  kernels), sealed artefacts (\<open>Artefact_Fs\<close>, provided by the pool and the vintage), among others.

  What the properties say, by group.

  \<^item> Live safety: no order leaves after the kill switch trips, the flatten is sent once, a submitted
    order respects every cap of the governor, a gap or an uncalibrated strategy never trades, the
    planner's link loses no final target and repeats none.
  \<^item> Live equals offline: the factor join, the cutover, the breaker layer and the session give what a
    replay of the whole history gives; the live bars of every tier are the batch's, roll-ups are exact.
  \<^item> Data: a scan of the store is the slice of what was written, a tagged batch is all or nothing,
    every hole of a stream is reported, a fetch ends within its retry and wait bounds.
  \<^item> Factors: a declared lookback is exact, streaming equals recomputing, oscillators stay in range,
    repair yields a well-typed tree, the formula text round-trips, the canonical form keeps the
    meaning, and the identity separates different pools.
  \<^item> Artefacts: what a repository loads is what was sealed, and nothing else verifies.
  \<^item> Ingestion: fusion never looks ahead, a backfill leaves no hole, a cached dump was verified, a fused
    corpus is persisted once.
  \<^item> Search and backtest: train and judged bars never share information windows, a decision moves money
    one bar later and never earlier, the backtest takes the live session's decisions while its entries
    fill, and its cash ledger agrees with the decomposed profit and loss.
  \<^item> Server: worker lanes are never oversubscribed, a finished run stays finished and its success is backed
    by what its worker wrote, a restart leaves no run hanging, the audit chain extends and commits its
    history, governance needs a live session with the role, and a production seal was earned.

  Bounds and fuel. A loop of the source is a recursive function with a measure, or a recursion over
  the list of events that drive it. The retry loops of \<open>Rest_Client\<close> recurse on the attempts left,
  which the source's configuration bounds. The parser and the repair of formulas recurse on fuel
  equal to the token count and to the node count; each step consumes one, which their lemmas show. The
  enumeration of \<open>Cv_Geometry\<close> is a partial function, shown to return for every input it is called with;
  its binomial is exact up to 62 blocks, where the source says so too.

  Readings the models rest on. Debug assertions are off, as in the release profile, and the panic of an
  indicator is that of its own model and not of the evaluator's. Index arithmetic (bar indices, counts,
  lengths) stays below the word size. Identifiers, emails and file names are read as ASCII. A response keeps its data and status and not
  its prose. An asynchronous handler is a task that is cut at its await points; the fairness of semaphores
  and the panic of a blocking task are not modelled, and the lock of a pool shows as its cache transition
  being one step. A forged cookie or chain entry is excluded by a hypothesis on the presented token or on
  the digest, never by an assumption on the model's own functions. Ids in a stored run index are distinct
  where a property of the listing says so.

  Not modelled, and why. The statistics of \<open>validation\<close>, \<open>ensemble\<close>, \<open>gate\<close> and \<open>report\<close> are doubles
  whose properties would need their rounding; the geometry under them is modelled. Of \<open>wfo\<close> the
  archives, the variation operators and the genetic programming are left out for the same reason, their
  choices being draws from a seeded stream compared through such statistics. Sockets, HTTP, LMDB, zip,
  tracing and argument parsing are third-party calls. \<open>runtime\<close>, \<open>cli\<close>, \<open>config\<close>, \<open>telemetry\<close>, the read-only
  routes and the boot of \<open>server\<close> are wiring of the modelled operations; \<open>architecture\<close> and \<open>determinism\<close>
  hold tests and their support.
\<close>

end
